(* ===== verification/Sky_Prelude.thy ===== *)
theory Sky_Prelude
  imports Main "HOL-Library.Word" "HOL-Library.Code_Target_Numeral"
begin

text \<open>
  Shared vocabulary of the development: the machine integers of the Rust sources, Rust's checked
  and saturating arithmetic, fallible results and panics as values, methods on \<open>&mut self\<close> as
  functions that return the result together with the state they leave behind (also when they
  fail), slices and fixed tables, and the sixteen-bit key masks with the bit-scan loop that the
  code writes again and again.
\<close>

unbundle bit_operations_syntax

named_theorems result_simps
named_theorems mask_simps
named_theorems checked_simps

section \<open>Machine integers\<close>

type_synonym u8 = "8 word"
type_synonym u16 = "16 word"
type_synonym u32 = "32 word"
type_synonym u64 = "64 word"
type_synonym usize = nat

definition u64_max :: u64 where
  "u64_max = - 1"

definition usize_limit :: nat where
  "usize_limit = 2 ^ 64"

definition checked_add :: "'a::len word \<Rightarrow> 'a word \<Rightarrow> 'a word option" where
  "checked_add a b = (if unat a + unat b < 2 ^ LENGTH('a) then Some (a + b) else None)"

definition checked_sub :: "'a::len word \<Rightarrow> 'a word \<Rightarrow> 'a word option" where
  "checked_sub a b = (if b \<le> a then Some (a - b) else None)"

definition saturating_sub :: "'a::len word \<Rightarrow> 'a word \<Rightarrow> 'a word" where
  "saturating_sub a b = (if b \<le> a then a - b else 0)"

definition saturating_add :: "'a::len word \<Rightarrow> 'a word \<Rightarrow> 'a word" where
  "saturating_add a b = (if unat a + unat b < 2 ^ LENGTH('a) then a + b else - 1)"

definition checked_add_usize :: "usize \<Rightarrow> usize \<Rightarrow> usize option" where
  "checked_add_usize a b = (if a + b < usize_limit then Some (a + b) else None)"

text \<open>\<open>try_from\<close> of a \<open>usize\<close> into a narrower unsigned type.\<close>

definition try_from_usize :: "usize \<Rightarrow> 'a::len word option" where
  "try_from_usize n = (if n < 2 ^ LENGTH('a) then Some (word_of_nat n) else None)"

lemma checked_add_eq_Some [checked_simps]:
  "checked_add a b = Some c \<longleftrightarrow> unat a + unat b < 2 ^ LENGTH('a) \<and> c = a + b"
  for a b c :: "'a::len word"
  by (auto simp: checked_add_def)

lemma checked_add_eq_None [checked_simps]:
  "checked_add a b = None \<longleftrightarrow> 2 ^ LENGTH('a) \<le> unat a + unat b"
  for a b :: "'a::len word"
  by (auto simp: checked_add_def)

lemma unat_add_no_wrap: "unat a + unat b < 2 ^ LENGTH('a) \<Longrightarrow> unat (a + b) = unat a + unat b"
  for a b :: "'a::len word"
  by (metis unat_add_lem)

lemma checked_sub_eq_Some [checked_simps]:
  "checked_sub a b = Some c \<longleftrightarrow> b \<le> a \<and> c = a - b"
  for a b c :: "'a::len word"
  by (auto simp: checked_sub_def)

lemma checked_sub_eq_None [checked_simps]:
  "checked_sub a b = None \<longleftrightarrow> a < b"
  for a b :: "'a::len word"
  by (auto simp: checked_sub_def)

lemma unat_checked_sub: "b \<le> a \<Longrightarrow> unat (a - b) = unat a - unat b"
  for a b :: "'a::len word"
  by (simp add: unat_sub)

lemma try_from_usize_eq_Some [checked_simps]:
  "try_from_usize n = Some (w :: 'a::len word) \<longleftrightarrow> n < 2 ^ LENGTH('a) \<and> w = word_of_nat n"
  by (auto simp: try_from_usize_def)

lemma try_from_usize_eq_None [checked_simps]:
  "(try_from_usize n :: 'a::len word option) = None \<longleftrightarrow> 2 ^ LENGTH('a) \<le> n"
  by (auto simp: try_from_usize_def)

lemma unat_word_of_nat_small: "n < 2 ^ LENGTH('a) \<Longrightarrow> unat (word_of_nat n :: 'a::len word) = n"
  by (simp add: unat_of_nat take_bit_eq_mod)

section \<open>Results, panics and early returns\<close>

text \<open>
  A Rust \<open>Result\<close> is a sum with \<open>Inl\<close> for \<open>Err\<close>. A function that can also panic
  (an \<open>expect\<close>, an index out of range) returns a \<open>failure\<close> on the left.
\<close>

datatype 'e failure = Err 'e | Panic

definition rbind :: "'e + 'a \<Rightarrow> ('a \<Rightarrow> 'e + 'b) \<Rightarrow> 'e + 'b" where
  "rbind m f = (case m of Inl e \<Rightarrow> Inl e | Inr a \<Rightarrow> f a)"

definition ok_or :: "'a option \<Rightarrow> 'e \<Rightarrow> 'e + 'a" where
  "ok_or x e = (case x of None \<Rightarrow> Inl e | Some a \<Rightarrow> Inr a)"

definition map_err :: "('e \<Rightarrow> 'f) \<Rightarrow> 'e + 'a \<Rightarrow> 'f + 'a" where
  "map_err g m = (case m of Inl e \<Rightarrow> Inl (g e) | Inr a \<Rightarrow> Inr a)"

text \<open>A \<open>for\<close> loop whose body returns early on an error and threads local variables.\<close>

fun rfold :: "('x \<Rightarrow> 's \<Rightarrow> 'e + 's) \<Rightarrow> 'x list \<Rightarrow> 's \<Rightarrow> 'e + 's" where
  "rfold f [] s = Inr s"
| "rfold f (x # xs) s = rbind (f x s) (rfold f xs)"

lemma rbind_simps [simp, result_simps]:
  "rbind (Inl e) f = Inl e"
  "rbind (Inr a) f = f a"
  by (simp_all add: rbind_def)

lemma rbind_eq_Inr [result_simps]: "rbind m f = Inr b \<longleftrightarrow> (\<exists>a. m = Inr a \<and> f a = Inr b)"
  by (cases m) auto

lemma rbind_eq_Inl [result_simps]:
  "rbind m f = Inl e \<longleftrightarrow> m = Inl e \<or> (\<exists>a. m = Inr a \<and> f a = Inl e)"
  by (cases m) auto

lemma rbind_cong [fundef_cong]:
  "m = m' \<Longrightarrow> (\<And>a. m' = Inr a \<Longrightarrow> f a = f' a) \<Longrightarrow> rbind m f = rbind m' f'"
  by (cases m') auto

lemma ok_or_simps [simp, result_simps]:
  "ok_or None e = Inl e"
  "ok_or (Some a) e = Inr a"
  by (simp_all add: ok_or_def)

lemma ok_or_eq_Inr [result_simps]: "ok_or x e = Inr a \<longleftrightarrow> x = Some a"
  by (cases x) auto

lemma ok_or_eq_Inl [result_simps]: "ok_or x e = Inl e' \<longleftrightarrow> x = None \<and> e' = e"
  by (cases x) auto

lemma map_err_simps [simp, result_simps]:
  "map_err g (Inl e) = Inl (g e)"
  "map_err g (Inr a) = Inr a"
  by (simp_all add: map_err_def)

lemma map_err_eq_Inr [result_simps]: "map_err g m = Inr a \<longleftrightarrow> m = Inr a"
  by (cases m) auto

lemma map_err_eq_Inl [result_simps]: "map_err g m = Inl e \<longleftrightarrow> (\<exists>e'. m = Inl e' \<and> e = g e')"
  by (cases m) auto

lemma if_Inl_eq_Inr [result_simps]:
  "(if b then Inl e else m) = Inr a \<longleftrightarrow> \<not> b \<and> m = Inr a"
  "(if b then m else Inl e) = Inr a \<longleftrightarrow> b \<and> m = Inr a"
  by auto

lemma rfold_append: "rfold f (xs @ ys) s = rbind (rfold f xs s) (rfold f ys)"
  by (induction xs arbitrary: s) (auto simp: rbind_def split: sum.splits)

lemma rfold_concat: "rfold f (concat xss) s = rfold (\<lambda>xs. rfold f xs) xss s"
  by (induction xss arbitrary: s) (simp_all add: rfold_append, metis)

lemma rfold_map: "rfold f (map g xs) s = rfold (\<lambda>x. f (g x)) xs s"
  by (induction xs arbitrary: s) (simp_all, metis)

lemma rfold_cong: "(\<And>x s. x \<in> set xs \<Longrightarrow> f x s = g x s) \<Longrightarrow> rfold f xs s = rfold g xs s"
  by (induction xs arbitrary: s) (simp_all add: rbind_def split: sum.splits)

text \<open>Invariant rule for an early-returning loop, indexed by the elements already visited.\<close>

lemma rfold_invariant:
  assumes "rfold f xs s = Inr t" and "P [] s"
    and "\<And>ys x zs u v. xs = ys @ x # zs \<Longrightarrow> P ys u \<Longrightarrow> f x u = Inr v \<Longrightarrow> P (ys @ [x]) v"
  shows "P xs t"
  using assms
proof (induction xs arbitrary: t rule: rev_induct)
  case Nil
  then show ?case by simp
next
  case (snoc x xs)
  from snoc.prems(1) obtain u where u: "rfold f xs s = Inr u" and x: "f x u = Inr t"
    by (auto simp: rfold_append result_simps)
  have "P xs u"
  proof (rule snoc.IH [OF u snoc.prems(2)])
    fix ys y zs u v
    assume "xs = ys @ y # zs" "P ys u" "f y u = Inr v"
    then show "P (ys @ [y]) v" using snoc.prems(3) [of ys y "zs @ [x]"] by simp
  qed
  then show ?case using snoc.prems(3) [of xs x "[]"] x by simp
qed

lemma rfold_invariant_simple:
  assumes "rfold f xs s = Inr t" and "P s"
    and "\<And>x u v. x \<in> set xs \<Longrightarrow> P u \<Longrightarrow> f x u = Inr v \<Longrightarrow> P v"
  shows "P t"
proof (rule rfold_invariant [where P = "\<lambda>_. P", OF assms(1,2)])
  fix ys x zs u v
  assume "xs = ys @ x # zs" "P u" "f x u = Inr v"
  then show "P v" using assms(3) [of x u v] by simp
qed

text \<open>The error of a loop comes from one of its iterations.\<close>

lemma rfold_error:
  assumes "rfold f xs s = Inl e"
  obtains ys x zs u where "xs = ys @ x # zs" and "rfold f ys s = Inr u" and "f x u = Inl e"
  using assms
proof (induction xs arbitrary: s thesis)
  case Nil
  then show ?case by simp
next
  case (Cons x xs)
  show ?case
  proof (cases "f x s")
    case (Inl a)
    with Cons.prems show ?thesis by (intro Cons.prems(1) [of "[]" x xs s]) auto
  next
    case (Inr v)
    with Cons.prems(2) have "rfold f xs v = Inl e" by simp
    then obtain ys y zs u where "xs = ys @ y # zs" "rfold f ys v = Inr u" "f y u = Inl e"
      by (rule Cons.IH [rotated])
    with Inr show ?thesis by (intro Cons.prems(1) [of "x # ys" y zs u]) auto
  qed
qed

text \<open>
  \<open>safe P r\<close>: the computation does not panic, and its value satisfies \<open>P\<close> unless it returned an
  error of the source.
\<close>

definition safe :: "('a \<Rightarrow> bool) \<Rightarrow> 'e failure + 'a \<Rightarrow> bool" where
  "safe P r = (case r of Inl (Err _) \<Rightarrow> True | Inl Panic \<Rightarrow> False | Inr a \<Rightarrow> P a)"

lemma safe_simps [simp]:
  "safe P (Inr a) \<longleftrightarrow> P a"
  "safe P (Inl (Err e))"
  "\<not> safe P (Inl Panic)"
  by (simp_all add: safe_def)

lemma safe_not_Panic: "safe P r \<Longrightarrow> r \<noteq> Inl Panic"
  by auto

lemma safe_Inr: "safe P r \<Longrightarrow> r = Inr a \<Longrightarrow> P a"
  by simp

lemma safe_mono: "safe P r \<Longrightarrow> (\<And>a. r = Inr a \<Longrightarrow> P a \<Longrightarrow> Q a) \<Longrightarrow> safe Q r"
  by (auto simp: safe_def split: sum.splits failure.splits)

lemma safe_rbind:
  assumes "safe Q m" and "\<And>a. m = Inr a \<Longrightarrow> Q a \<Longrightarrow> safe P (f a)"
  shows "safe P (rbind m f)"
  using assms by (auto simp: safe_def rbind_def split: sum.splits failure.splits)

lemma safe_ok_or_Err: "(\<And>a. x = Some a \<Longrightarrow> P a) \<Longrightarrow> safe P (ok_or x (Err e))"
  by (cases x) auto

lemma safe_ok_or_Panic: "(\<exists>a. x = Some a \<and> P a) \<Longrightarrow> safe P (ok_or x Panic)"
  by auto

lemma safe_if_Err: "(\<not> b \<Longrightarrow> safe P r) \<Longrightarrow> safe P (if b then Inl (Err e) else r)"
  by simp

lemma safe_rfold:
  assumes "P [] s"
    and "\<And>ys x zs u. xs = ys @ x # zs \<Longrightarrow> P ys u \<Longrightarrow> safe (P (ys @ [x])) (f x u)"
  shows "safe (P xs) (rfold f xs s)"
  using assms
proof (induction xs rule: rev_induct)
  case (snoc x xs)
  have "safe (P xs) (rfold f xs s)"
  proof (rule snoc.IH [OF snoc.prems(1)])
    fix ys y zs u
    assume "xs = ys @ y # zs" "P ys u"
    then show "safe (P (ys @ [y])) (f y u)" using snoc.prems(2) [of ys y "zs @ [x]" u] by simp
  qed
  then show ?case
    unfolding rfold_append
  proof (rule safe_rbind)
    fix u assume "P xs u"
    then have "safe (P (xs @ [x])) (f x u)" using snoc.prems(2) [of xs x "[]" u] by simp
    then show "safe (P (xs @ [x])) (rfold f [x] u)" by (auto simp: safe_def split: sum.splits failure.splits)
  qed
qed simp

section \<open>Methods on mutable state\<close>

text \<open>
  A method on \<open>&mut self\<close> maps the state to its result and the state it leaves behind. The
  state after an error is the partially updated one, as in the sources.
\<close>

type_synonym ('s, 'e, 'a) smethod = "'s \<Rightarrow> ('e + 'a) \<times> 's"

definition sret :: "'a \<Rightarrow> ('s, 'e, 'a) smethod" where
  "sret a = (\<lambda>s. (Inr a, s))"

definition sfail :: "'e \<Rightarrow> ('s, 'e, 'a) smethod" where
  "sfail e = (\<lambda>s. (Inl e, s))"

definition sbind :: "('s, 'e, 'a) smethod \<Rightarrow> ('a \<Rightarrow> ('s, 'e, 'b) smethod) \<Rightarrow> ('s, 'e, 'b) smethod" where
  "sbind m f = (\<lambda>s. case m s of (Inl e, s') \<Rightarrow> (Inl e, s') | (Inr a, s') \<Rightarrow> f a s')"

text \<open>A read-only call (\<open>&self\<close>) inside a method, and an update of the state.\<close>

definition sread :: "('s \<Rightarrow> 'e + 'a) \<Rightarrow> ('s, 'e, 'a) smethod" where
  "sread g = (\<lambda>s. (g s, s))"

definition supdate :: "('s \<Rightarrow> 's) \<Rightarrow> ('s, 'e, unit) smethod" where
  "supdate g = (\<lambda>s. (Inr (), g s))"

fun sfor :: "'x list \<Rightarrow> ('x \<Rightarrow> ('s, 'e, unit) smethod) \<Rightarrow> ('s, 'e, unit) smethod" where
  "sfor [] f = sret ()"
| "sfor (x # xs) f = sbind (f x) (\<lambda>_. sfor xs f)"

fun sfold :: "('x \<Rightarrow> 'a \<Rightarrow> ('s, 'e, 'a) smethod) \<Rightarrow> 'x list \<Rightarrow> 'a \<Rightarrow> ('s, 'e, 'a) smethod" where
  "sfold f [] a = sret a"
| "sfold f (x # xs) a = sbind (f x a) (sfold f xs)"

lemma sret_apply [simp, result_simps]: "sret a s = (Inr a, s)"
  by (simp add: sret_def)

lemma sfail_apply [simp, result_simps]: "sfail e s = (Inl e, s)"
  by (simp add: sfail_def)

lemma sread_apply [simp, result_simps]: "sread g s = (g s, s)"
  by (simp add: sread_def)

lemma supdate_apply [simp, result_simps]: "supdate g s = (Inr (), g s)"
  by (simp add: supdate_def)

lemma sbind_apply:
  "sbind m f s = (case m s of (Inl e, s') \<Rightarrow> (Inl e, s') | (Inr a, s') \<Rightarrow> f a s')"
  by (simp add: sbind_def)

lemma sbind_step [simp]:
  "m s = (Inl e, s') \<Longrightarrow> sbind m f s = (Inl e, s')"
  "m s = (Inr a, s') \<Longrightarrow> sbind m f s = f a s'"
  by (simp_all add: sbind_apply)

lemma sbind_eq_Inr [result_simps]:
  "sbind m f s = (Inr b, t) \<longleftrightarrow> (\<exists>a u. m s = (Inr a, u) \<and> f a u = (Inr b, t))"
  by (auto simp: sbind_apply split: prod.splits sum.splits)

lemma sbind_eq_Inl:
  "sbind m f s = (Inl e, t) \<longleftrightarrow> m s = (Inl e, t) \<or> (\<exists>a u. m s = (Inr a, u) \<and> f a u = (Inl e, t))"
  by (auto simp: sbind_apply split: prod.splits sum.splits)

lemma sread_eq [result_simps]: "sread g s = (r, t) \<longleftrightarrow> g s = r \<and> t = s"
  by auto

lemma supdate_eq [result_simps]: "supdate g s = (r, t) \<longleftrightarrow> r = Inr () \<and> t = g s"
  by auto

lemma sret_eq [result_simps]: "sret a s = (r, t) \<longleftrightarrow> r = Inr a \<and> t = s"
  by auto

lemma sfail_eq [result_simps]: "sfail e s = (r, t) \<longleftrightarrow> r = Inl e \<and> t = s"
  by auto

subsection \<open>Invariants of methods\<close>

text \<open>
  \<open>keeps I m\<close>: the method leaves a state satisfying \<open>I\<close> whenever it starts in one, whether
  it succeeds or fails.
\<close>

definition keeps :: "('s \<Rightarrow> bool) \<Rightarrow> ('s, 'e, 'a) smethod \<Rightarrow> bool" where
  "keeps I m \<longleftrightarrow> (\<forall>s. I s \<longrightarrow> I (snd (m s)))"

lemma keepsI [intro?]: "(\<And>s. I s \<Longrightarrow> I (snd (m s))) \<Longrightarrow> keeps I m"
  by (simp add: keeps_def)

lemma keepsD: "keeps I m \<Longrightarrow> I s \<Longrightarrow> m s = (r, t) \<Longrightarrow> I t"
  by (metis keeps_def snd_conv)

lemma keeps_sret [simp, intro]: "keeps I (sret a)"
  by (simp add: keeps_def)

lemma keeps_sfail [simp, intro]: "keeps I (sfail e)"
  by (simp add: keeps_def)

lemma keeps_sread [simp, intro]: "keeps I (sread g)"
  by (simp add: keeps_def)

lemma keeps_supdate: "(\<And>s. I s \<Longrightarrow> I (g s)) \<Longrightarrow> keeps I (supdate g)"
  by (simp add: keeps_def)

lemma keeps_sbind [intro]:
  assumes "keeps I m" and "\<And>a. keeps I (f a)"
  shows "keeps I (sbind m f)"
proof
  fix s
  assume s: "I s"
  obtain r u where m: "m s = (r, u)" by fastforce
  with assms(1) s have u: "I u" by (rule_tac keepsD)
  show "I (snd (sbind m f s))"
    using m u assms(2) by (cases r) (auto simp: sbind_apply keeps_def)
qed

lemma keeps_sfor [intro]: "(\<And>x. x \<in> set xs \<Longrightarrow> keeps I (f x)) \<Longrightarrow> keeps I (sfor xs f)"
  by (induction xs) auto

lemma keeps_sfold [intro]: "(\<And>x a. x \<in> set xs \<Longrightarrow> keeps I (f x a)) \<Longrightarrow> keeps I (sfold f xs a)"
  by (induction xs arbitrary: a) auto

lemma keeps_if [intro]: "keeps I m \<Longrightarrow> keeps I n \<Longrightarrow> keeps I (if b then m else n)"
  by simp

subsection \<open>Postconditions of methods\<close>

text \<open>
  \<open>wp m Q E s\<close>: from \<open>s\<close> the method does not panic; if it succeeds, \<open>Q\<close> holds of its value and the
  state it leaves; if it returns an error of the source, \<open>E\<close> holds of the state it leaves.
\<close>

named_theorems wp_simps

definition wp :: "('s, 'e failure, 'a) smethod \<Rightarrow> ('a \<Rightarrow> 's \<Rightarrow> bool) \<Rightarrow> ('s \<Rightarrow> bool) \<Rightarrow> 's \<Rightarrow> bool" where
  "wp m Q E s = (case m s of (Inr a, t) \<Rightarrow> Q a t | (Inl (Err e), t) \<Rightarrow> E t | (Inl Panic, t) \<Rightarrow> False)"

lemma wp_sret [wp_simps]: "wp (sret a) Q E s \<longleftrightarrow> Q a s"
  by (simp add: wp_def)

lemma wp_sfail [wp_simps]: "wp (sfail (Err e)) Q E s \<longleftrightarrow> E s"
  by (simp add: wp_def)

lemma wp_supdate [wp_simps]: "wp (supdate g) Q E s \<longleftrightarrow> Q () (g s)"
  by (simp add: wp_def)

lemma wp_sread [wp_simps]:
  "wp (sread g) Q E s \<longleftrightarrow> (case g s of Inr a \<Rightarrow> Q a s | Inl (Err e) \<Rightarrow> E s | Inl Panic \<Rightarrow> False)"
  by (simp add: wp_def split: sum.splits failure.splits)

lemma wp_sbind [wp_simps]: "wp (sbind m f) Q E s \<longleftrightarrow> wp m (\<lambda>a. wp (f a) Q E) E s"
  by (simp add: wp_def sbind_apply split: prod.splits sum.splits failure.splits)

lemma wp_if [wp_simps]: "wp (if b then m else n) Q E s \<longleftrightarrow> (if b then wp m Q E s else wp n Q E s)"
  by simp

lemma wp_mono:
  "wp m Q E s \<Longrightarrow> (\<And>a t. m s = (Inr a, t) \<Longrightarrow> Q a t \<Longrightarrow> Q' a t) \<Longrightarrow> (\<And>t. E t \<Longrightarrow> E' t) \<Longrightarrow> wp m Q' E' s"
  by (auto simp: wp_def split: prod.splits sum.splits failure.splits)

lemma wp_Inr: "wp m Q E s \<Longrightarrow> m s = (Inr a, t) \<Longrightarrow> Q a t"
  by (simp add: wp_def)

lemma wp_Inl: "wp m Q E s \<Longrightarrow> m s = (Inl e, t) \<Longrightarrow> e \<noteq> Panic \<and> E t"
  by (cases e) (simp_all add: wp_def)

lemma wp_snd: "wp m (\<lambda>_. I) I s \<Longrightarrow> I (snd (m s))"
  by (auto simp: wp_def split: prod.splits sum.splits failure.splits)

lemma wp_no_panic: "wp m Q E s \<Longrightarrow> fst (m s) \<noteq> Inl Panic"
  by (auto simp: wp_def split: prod.splits)

lemma wp_sfor:
  assumes "I s" and "\<And>x t. x \<in> set xs \<Longrightarrow> I t \<Longrightarrow> wp (f x) (\<lambda>_. I) E t"
  shows "wp (sfor xs f) (\<lambda>_. I) E s"
  using assms
proof (induction xs arbitrary: s)
  case (Cons x xs)
  have "wp (f x) (\<lambda>_. I) E s" using Cons.prems by simp
  then show ?case unfolding sfor.simps wp_sbind by (rule wp_mono) (use Cons in auto)
qed (simp add: wp_simps)

lemma wp_sfold:
  assumes "I a s" and "\<And>x a t. x \<in> set xs \<Longrightarrow> I a t \<Longrightarrow> wp (f x a) I E t"
  shows "wp (sfold f xs a) I E s"
  using assms
proof (induction xs arbitrary: a s)
  case (Cons x xs)
  have "wp (f x a) I E s" using Cons.prems by simp
  then show ?case unfolding sfold.simps wp_sbind by (rule wp_mono) (use Cons in auto)
qed (simp add: wp_simps)

lemma wp_sfor_indexed:
  assumes "I [] s"
    and "\<And>ys x zs t. xs = ys @ x # zs \<Longrightarrow> I ys t \<Longrightarrow> wp (f x) (\<lambda>_. I (ys @ [x])) E t"
  shows "wp (sfor xs f) (\<lambda>_. I xs) E s"
proof -
  have "wp (sfor zs f) (\<lambda>_. I (ys @ zs)) E t" if "xs = ys @ zs" "I ys t" for ys zs t
    using that
  proof (induction zs arbitrary: ys t)
    case (Cons z zs)
    have "wp (f z) (\<lambda>_. I (ys @ [z])) E t" using Cons.prems assms(2) by simp
    then show ?case unfolding sfor.simps wp_sbind
      by (rule wp_mono) (use Cons.IH [of "ys @ [z]"] Cons.prems in auto)
  qed (simp add: wp_simps)
  from this [of "[]" xs s] show ?thesis using assms(1) by simp
qed

text \<open>
  \<open>frames F m\<close>: whatever the outcome, the state the method leaves is related to the one it found. For
  a preorder \<open>F\<close> this composes along the text of a method.
\<close>

definition frames :: "('s \<Rightarrow> 's \<Rightarrow> bool) \<Rightarrow> ('s, 'e, 'a) smethod \<Rightarrow> bool" where
  "frames F m \<longleftrightarrow> (\<forall>s. F s (snd (m s)))"

lemma framesI: "(\<And>s. F s (snd (m s))) \<Longrightarrow> frames F m"
  by (simp add: frames_def)

lemma frames_Let: "(\<And>x. frames F (f x)) \<Longrightarrow> frames F (let x = a in f x)"
  by simp

lemma wp_frames:
  assumes "wp m Q E s" and "frames F m"
  shows "wp m (\<lambda>a t. Q a t \<and> F s t) (\<lambda>t. E t \<and> F s t) s"
proof -
  have "F s (snd (m s))" using assms(2) by (simp add: frames_def)
  then show ?thesis using assms(1) by (auto simp: wp_def split: prod.splits sum.splits failure.splits)
qed

locale frame_preorder =
  fixes F :: "'s \<Rightarrow> 's \<Rightarrow> bool"
  assumes frame_refl: "F s s" and frame_trans: "F s t \<Longrightarrow> F t u \<Longrightarrow> F s u"
begin

lemma frames_sret: "frames F (sret a)"
  by (simp add: frames_def frame_refl)

lemma frames_sfail: "frames F (sfail e)"
  by (simp add: frames_def frame_refl)

lemma frames_sread: "frames F (sread g)"
  by (simp add: frames_def frame_refl)

lemma frames_supdate: "(\<And>s. F s (g s)) \<Longrightarrow> frames F (supdate g)"
  by (simp add: frames_def)

lemma frames_sbind: "frames F m \<Longrightarrow> (\<And>a. frames F (f a)) \<Longrightarrow> frames F (sbind m f)"
proof (rule framesI)
  fix s
  assume m: "frames F m" and f: "\<And>a. frames F (f a)"
  obtain r t where r: "m s = (r, t)" by fastforce
  then have t: "F s t" using m by (metis frames_def snd_conv)
  show "F s (snd (sbind m f s))"
  proof (cases r)
    case (Inr a)
    have "F t (snd (f a t))" using f by (simp add: frames_def)
    then show ?thesis using frame_trans [OF t] r Inr by simp
  qed (use r t in simp)
qed

lemma frames_if: "frames F m \<Longrightarrow> frames F n \<Longrightarrow> frames F (if b then m else n)"
  by simp

lemma frames_case_option: "frames F m \<Longrightarrow> (\<And>x. frames F (f x)) \<Longrightarrow> frames F (case z of None \<Rightarrow> m | Some x \<Rightarrow> f x)"
  by (cases z) simp_all

lemma frames_sfor: "(\<And>x. frames F (f x)) \<Longrightarrow> frames F (sfor xs f)"
  by (induction xs) (auto intro: frames_sret frames_sbind)

lemma frames_sfold: "(\<And>x a. frames F (f x a)) \<Longrightarrow> frames F (sfold f xs a)"
  by (induction xs arbitrary: a) (auto intro: frames_sret frames_sbind)

lemmas frame_intros = frames_Let frames_sret frames_sfail frames_sread frames_sbind frames_if frames_case_option
  frames_sfor frames_sfold

end

text \<open>Reachable states of a system of steps, and the invariant rule as an interface.\<close>

inductive reachable :: "('s \<Rightarrow> bool) \<Rightarrow> ('s \<Rightarrow> 's \<Rightarrow> bool) \<Rightarrow> 's \<Rightarrow> bool" for init step where
  start: "init s \<Longrightarrow> reachable init step s"
| step: "reachable init step s \<Longrightarrow> step s t \<Longrightarrow> reachable init step t"

locale invariant_system =
  fixes init :: "'s \<Rightarrow> bool" and step :: "'s \<Rightarrow> 's \<Rightarrow> bool" and inv :: "'s \<Rightarrow> bool"
  assumes init_inv: "init s \<Longrightarrow> inv s"
    and step_inv: "inv s \<Longrightarrow> step s t \<Longrightarrow> inv t"
begin

lemma reachable_inv: "reachable init step s \<Longrightarrow> inv s"
  by (induction rule: reachable.induct) (auto intro: init_inv step_inv)

end

section \<open>Slices and tables\<close>

definition nth_opt :: "'a list \<Rightarrow> usize \<Rightarrow> 'a option" where
  "nth_opt xs i = (if i < length xs then Some (xs ! i) else None)"

definition slice_get :: "'a list \<Rightarrow> usize \<Rightarrow> usize \<Rightarrow> 'a list option" where
  "slice_get xs a b = (if a \<le> b \<and> b \<le> length xs then Some (take (b - a) (drop a xs)) else None)"

lemma nth_opt_eq_Some [result_simps]: "nth_opt xs i = Some x \<longleftrightarrow> i < length xs \<and> x = xs ! i"
  by (auto simp: nth_opt_def)

lemma nth_opt_eq_None [result_simps]: "nth_opt xs i = None \<longleftrightarrow> length xs \<le> i"
  by (auto simp: nth_opt_def)

lemma nth_opt_in [simp]: "i < length xs \<Longrightarrow> nth_opt xs i = Some (xs ! i)"
  by (simp add: nth_opt_def)

lemma slice_get_eq_Some [result_simps]:
  "slice_get xs a b = Some ys \<longleftrightarrow> a \<le> b \<and> b \<le> length xs \<and> ys = take (b - a) (drop a xs)"
  by (auto simp: slice_get_def)

lemma slice_get_eq_None [result_simps]:
  "slice_get xs a b = None \<longleftrightarrow> b < a \<or> length xs < b"
  by (auto simp: slice_get_def)

text \<open>Counting in a table and updating one of its entries.\<close>

lemma length_filter_update:
  "i < length xs \<Longrightarrow>
   length (filter P (xs[i := y])) + (if P (xs ! i) then 1 else 0) = length (filter P xs) + (if P y then 1 else 0)"
proof (induction xs arbitrary: i)
  case (Cons x xs)
  show ?case
  proof (cases i)
    case (Suc j)
    then show ?thesis using Cons.IH [of j] Cons.prems by (auto split: if_splits)
  qed simp
qed simp

lemma count_list_filter: "count_list xs z = length (filter (\<lambda>x. x = z) xs)"
  by (induction xs) auto

lemma count_list_update:
  "i < length xs \<Longrightarrow>
   count_list (xs[i := y]) z + (if xs ! i = z then 1 else 0) = count_list xs z + (if y = z then 1 else 0)"
  unfolding count_list_filter by (rule length_filter_update)

text \<open>The slice of \<open>n\<close> elements from \<open>a\<close>, when it is known to be in range.\<close>

definition slice :: "'a list \<Rightarrow> usize \<Rightarrow> usize \<Rightarrow> 'a list" where
  "slice xs a n = take n (drop a xs)"

lemma slice_append: "a + n \<le> length xs \<Longrightarrow> slice (xs @ ys) a n = slice xs a n"
  by (simp add: slice_def)

lemma slice_suffix: "n = length ys \<Longrightarrow> slice (xs @ ys) (length xs) n = ys"
  by (simp add: slice_def)

lemma slice_middle: "n = length ys \<Longrightarrow> slice (xs @ ys @ zs) (length xs) n = ys"
  by (simp add: slice_def)

lemma slice_middle2: "a = length xs + length us \<Longrightarrow> n = length ys \<Longrightarrow> slice (xs @ us @ ys) a n = ys"
  by (simp add: slice_def)

lemma length_slice: "a + n \<le> length xs \<Longrightarrow> length (slice xs a n) = n"
  by (simp add: slice_def)

lemma set_slice_subset: "set (slice xs a n) \<subseteq> set xs"
  by (metis slice_def set_drop_subset set_take_subset subset_trans)

lemma slice_get_slice: "slice_get xs a (a + n) = (if a + n \<le> length xs then Some (slice xs a n) else None)"
  by (auto simp: slice_get_def slice_def)

text \<open>\<open>iter().position(..)\<close>: the index of the first element satisfying the predicate.\<close>

fun position :: "('a \<Rightarrow> bool) \<Rightarrow> 'a list \<Rightarrow> usize option" where
  "position P [] = None"
| "position P (x # xs) = (if P x then Some 0 else map_option Suc (position P xs))"

lemma position_eq_Some:
  "position P xs = Some i \<longleftrightarrow> i < length xs \<and> P (xs ! i) \<and> (\<forall>j<i. \<not> P (xs ! j))"
proof (induction xs arbitrary: i)
  case (Cons x xs)
  show ?case
  proof (cases i)
    case 0
    then show ?thesis by auto
  next
    case (Suc k)
    then show ?thesis using Cons.IH [of k] by (auto simp: All_less_Suc2)
  qed
qed simp

lemma position_eq_None: "position P xs = None \<longleftrightarrow> (\<forall>x \<in> set xs. \<not> P x)"
  by (induction xs) auto

lemma position_distinct: "distinct xs \<Longrightarrow> i < length xs \<Longrightarrow> position (\<lambda>x. x = xs ! i) xs = Some i"
  by (auto simp: position_eq_Some nth_eq_iff_index_eq)

section \<open>Key masks\<close>

text \<open>
  One bit per instrument key in a \<open>u16\<close>. \<open>1u16 << slot\<close> is only evaluated for slots below
  sixteen in the sources (a slot is four bits of a packed intent or a table index).
\<close>

definition bit_for_slot :: "u8 \<Rightarrow> u16" where
  "bit_for_slot slot = push_bit (unat slot) 1"

definition mask_bit :: "nat \<Rightarrow> u16" where
  "mask_bit n = push_bit n 1"

definition trailing_zeros :: "u16 \<Rightarrow> nat" where
  "trailing_zeros w = length (takeWhile (\<lambda>n. \<not> bit w n) [0..<16])"

definition count_ones :: "u16 \<Rightarrow> nat" where
  "count_ones w = length (filter (bit w) [0..<16])"

lemma bit_mask_bit [mask_simps]: "bit (mask_bit k) n \<longleftrightarrow> n = k \<and> k < 16"
  by (auto simp: mask_bit_def bit_exp_iff)

lemma bit_for_slot_mask_bit: "bit_for_slot s = mask_bit (unat s)"
  by (simp add: bit_for_slot_def mask_bit_def)

lemma mask_bit_of_nat: "n < 256 \<Longrightarrow> bit_for_slot (word_of_nat n) = mask_bit n"
  by (simp add: bit_for_slot_mask_bit unat_of_nat take_bit_eq_mod)

lemma bit_bit_for_slot [mask_simps]: "bit (bit_for_slot s) n \<longleftrightarrow> n = unat s \<and> unat s < 16"
  by (simp add: bit_for_slot_mask_bit mask_simps)

lemma u16_eq_iff: "(a :: u16) = b \<longleftrightarrow> (\<forall>n<16. bit a n = bit b n)"
  by (simp add: bit_eq_iff)

lemma bit_u16_bound: "bit (w :: u16) n \<Longrightarrow> n < 16"
  by (drule bit_imp_le_length) simp

lemma u16_neq_0_iff: "(w :: u16) \<noteq> 0 \<longleftrightarrow> (\<exists>n<16. bit w n)"
  by (auto simp: bit_eq_iff)

lemma and_mask_bit_eq_0 [mask_simps]: "w AND mask_bit k = 0 \<longleftrightarrow> \<not> (bit w k \<and> k < 16)"
  by (auto simp: u16_eq_iff bit_and_iff mask_simps)

lemma and_bit_for_slot_eq_0 [mask_simps]:
  "w AND bit_for_slot s = 0 \<longleftrightarrow> \<not> (bit w (unat s) \<and> unat s < 16)"
  by (simp add: bit_for_slot_mask_bit mask_simps)

lemma bit_or_mask [mask_simps]: "bit ((a :: u16) OR b) n \<longleftrightarrow> bit a n \<or> bit b n"
  by (simp add: bit_or_iff)

lemma bit_and_mask [mask_simps]: "bit ((a :: u16) AND b) n \<longleftrightarrow> bit a n \<and> bit b n"
  by (simp add: bit_and_iff)

lemma bit_and_not_mask [mask_simps]: "bit ((a :: u16) AND NOT b) n \<longleftrightarrow> bit a n \<and> \<not> bit b n"
  by (auto simp: bit_and_iff bit_not_iff dest: bit_u16_bound)

lemma masks_disjoint_iff: "(a :: u16) AND b = 0 \<longleftrightarrow> (\<forall>n. \<not> (bit a n \<and> bit b n))"
  by (auto simp: u16_eq_iff bit_and_iff dest: bit_u16_bound)

lemma count_ones_card: "count_ones w = card {n. bit w n}"
proof -
  have "{n. bit w n} = set (filter (bit w) [0..<16])"
    by (auto dest: bit_u16_bound)
  then show ?thesis
    by (metis count_ones_def distinct_card distinct_filter distinct_upt)
qed

lemma count_ones_le: "count_ones w \<le> 16"
  using length_filter_le [of "bit w" "[0..<16]"] by (simp add: count_ones_def)

lemma count_ones_0 [simp]: "count_ones 0 = 0"
  by (simp add: count_ones_def)

lemma count_ones_eq_0 [simp]: "count_ones w = 0 \<longleftrightarrow> w = 0"
  by (auto simp: count_ones_def filter_empty_conv u16_eq_iff)

lemma trailing_zeros_least:
  assumes "w \<noteq> 0"
  shows "bit w (trailing_zeros w)" and "k < trailing_zeros w \<Longrightarrow> \<not> bit w k"
    and "trailing_zeros w < 16"
proof -
  let ?P = "\<lambda>n. \<not> bit w n" and ?xs = "[0..<16::nat]"
  have "\<not> (\<forall>n \<in> set ?xs. ?P n)" using assms by (auto simp: u16_neq_0_iff)
  then have len: "length (takeWhile ?P ?xs) < length ?xs"
    by (metis length_takeWhile_le nat_less_le takeWhile_eq_all_conv takeWhile_eq_take take_all_iff
        linorder_not_less)
  then show *: "trailing_zeros w < 16" by (simp add: trailing_zeros_def)
  show "bit w (trailing_zeros w)"
    using nth_length_takeWhile [OF len] * by (simp add: trailing_zeros_def)
  show "\<not> bit w k" if "k < trailing_zeros w"
  proof -
    have "takeWhile ?P ?xs ! k = k"
      using that * by (simp add: takeWhile_nth trailing_zeros_def)
    then show ?thesis
      using that nth_mem [of k "takeWhile ?P ?xs"] set_takeWhileD [of k ?P ?xs]
      by (simp add: trailing_zeros_def)
  qed
qed

text \<open>Clearing the lowest set bit, \<open>mask &= mask - 1\<close> in the sources.\<close>

lemma bit_and_minus_one:
  fixes w :: u16
  assumes "w \<noteq> 0"
  shows "bit (w AND (w - 1)) n \<longleftrightarrow> bit w n \<and> n \<noteq> trailing_zeros w"
proof -
  let ?z = "trailing_zeros w"
  note z = trailing_zeros_least [OF assms]
  have ge: "?z \<le> k" if "bit w k" for k
    using that z(2) [of k] by (auto simp: not_less [symmetric])
  have w: "w = push_bit ?z (drop_bit ?z w)"
    by (rule bit_word_eqI) (auto simp: bit_push_bit_iff bit_drop_bit_eq ge)
  have odd: "odd (drop_bit ?z w)"
    using z(1) by (simp add: bit_iff_odd_drop_bit)
  define q where "q = drop_bit ?z w"
  have "q = push_bit 1 (drop_bit 1 q) OR 1"
    using odd unfolding q_def [symmetric]
    by (intro bit_word_eqI)
      (auto simp: bit_or_iff bit_push_bit_iff bit_drop_bit_eq bit_1_iff bit_0
        simp del: push_bit_Suc)
  also have "\<dots> = push_bit 1 (drop_bit 1 q) + 1"
    by (rule disjunctive_add_eq_or [symmetric], rule bit_word_eqI)
      (auto simp: bit_and_iff bit_push_bit_iff bit_1_iff simp del: push_bit_Suc)
  finally have q1: "q - 1 = push_bit 1 (drop_bit 1 q)"
    by (metis add_diff_cancel_right')
  have "w - 1 = push_bit ?z (q - 1) + mask ?z"
  proof -
    have "w = push_bit ?z (q - 1) + push_bit ?z 1"
      using w by (simp add: q_def push_bit_eq_mult algebra_simps)
    then show ?thesis by (simp add: mask_eq_exp_minus_1 push_bit_eq_mult)
  qed
  also have "\<dots> = push_bit ?z (q - 1) OR mask ?z"
    by (rule disjunctive_add_eq_or, rule bit_word_eqI)
      (auto simp: bit_and_iff bit_push_bit_iff bit_mask_iff)
  finally have w1: "w - 1 = push_bit ?z (q - 1) OR mask ?z" .
  have bq: "bit (q - 1) k \<longleftrightarrow> bit q k \<and> k \<noteq> 0" if "k < 16" for k
    unfolding q1 using that by (cases k) (auto simp: bit_push_bit_iff bit_drop_bit_eq simp del: push_bit_Suc)
  show ?thesis
  proof (cases "n < 16")
    case True
    have "bit w n \<longleftrightarrow> ?z \<le> n \<and> bit q (n - ?z)"
      using True by (subst w) (auto simp: bit_push_bit_iff q_def)
    moreover have "bit (w - 1) n \<longleftrightarrow> (?z \<le> n \<and> bit (q - 1) (n - ?z)) \<or> n < ?z"
      using True by (auto simp: w1 bit_or_iff bit_push_bit_iff bit_mask_iff)
    ultimately show ?thesis
      using True bq [of "n - ?z"] by (auto simp: bit_and_iff)
  next
    case False
    then show ?thesis by (auto dest: bit_u16_bound)
  qed
qed

text \<open>
  The bit-scan loop \<open>while mask != 0 { slot = mask.trailing_zeros(); mask &= mask - 1; .. }\<close>
  as the list of slots it visits.
\<close>

lemma count_ones_and_minus_one: "w \<noteq> 0 \<Longrightarrow> count_ones (w AND (w - 1)) < count_ones w" for w :: u16
proof -
  assume w: "w \<noteq> 0"
  have "{n. bit (w AND (w - 1)) n} = {n. bit w n} - {trailing_zeros w}"
    using w by (auto simp: bit_and_minus_one)
  moreover have "finite {n. bit w n}"
    by (rule finite_subset [of _ "{..<16}"]) (auto dest: bit_u16_bound)
  moreover have "trailing_zeros w \<in> {n. bit w n}"
    using trailing_zeros_least(1) [OF w] by simp
  ultimately show ?thesis
    unfolding count_ones_card by (simp only: card_Diff1_less)
qed

function slots_of_mask :: "u16 \<Rightarrow> nat list" where
  "slots_of_mask w = (if w = 0 then [] else trailing_zeros w # slots_of_mask (w AND (w - 1)))"
  by pat_completeness auto
termination
  by (relation "measure count_ones") (auto simp: count_ones_and_minus_one)

declare slots_of_mask.simps [simp del]

lemma set_slots_of_mask: "set (slots_of_mask w) = {n. bit w n}"
proof (induction w rule: slots_of_mask.induct)
  case (1 w)
  show ?case
  proof (cases "w = 0")
    case False
    with 1 show ?thesis
      using trailing_zeros_least(1) [OF False]
      by (auto simp: slots_of_mask.simps [of w] bit_and_minus_one)
  qed (simp add: slots_of_mask.simps)
qed

lemma sorted_slots_of_mask: "sorted_wrt (<) (slots_of_mask w)"
proof (induction w rule: slots_of_mask.induct)
  case (1 w)
  show ?case
  proof (cases "w = 0")
    case False
    have "trailing_zeros w < n" if "bit (w AND (w - 1)) n" for n
    proof -
      have "bit w n" "n \<noteq> trailing_zeros w"
        using that by (simp_all add: bit_and_minus_one [OF False])
      moreover have "\<not> n < trailing_zeros w"
        using \<open>bit w n\<close> trailing_zeros_least(2) [OF False, of n] by blast
      ultimately show ?thesis by simp
    qed
    with 1 False show ?thesis
      by (auto simp: slots_of_mask.simps [of w] set_slots_of_mask)
  qed (simp add: slots_of_mask.simps)
qed

end
