(* ===== verification/Sky_Time.thy ===== *)
theory Sky_Time
  imports Sky_Prelude
begin

text \<open>
  The opaque time domains of \<open>sky_dispatch_core/src/time.rs\<close> (QPC instants, timeline instants,
  durations) with their checked arithmetic, and the microsecond conversions of the QPC clock in
  \<open>sky_dispatch_win32/src/clock.rs\<close>. The two instant domains satisfy one interface,
  \<open>instant_domain\<close>; every microsecond-to-tick conversion the schedule code is given satisfies
  \<open>tick_conversion\<close>.
\<close>

section \<open>Tick types\<close>

datatype time_arithmetic_error = Overflow | Underflow | NegativeOrder

datatype qpc_ticks = QpcTicks (qpc_u64: u64)

datatype timeline_ticks = TimelineTicks (timeline_u64: u64)

datatype duration_ticks = DurationTicks (duration_u64: u64)

instantiation qpc_ticks :: linorder
begin

definition less_eq_qpc_ticks :: "qpc_ticks \<Rightarrow> qpc_ticks \<Rightarrow> bool" where
  "less_eq_qpc_ticks a b \<longleftrightarrow> qpc_u64 a \<le> qpc_u64 b"

definition less_qpc_ticks :: "qpc_ticks \<Rightarrow> qpc_ticks \<Rightarrow> bool" where
  "less_qpc_ticks a b \<longleftrightarrow> qpc_u64 a < qpc_u64 b"

instance
  by standard (auto simp: less_eq_qpc_ticks_def less_qpc_ticks_def qpc_ticks.expand)

end

instantiation timeline_ticks :: linorder
begin

definition less_eq_timeline_ticks :: "timeline_ticks \<Rightarrow> timeline_ticks \<Rightarrow> bool" where
  "less_eq_timeline_ticks a b \<longleftrightarrow> timeline_u64 a \<le> timeline_u64 b"

definition less_timeline_ticks :: "timeline_ticks \<Rightarrow> timeline_ticks \<Rightarrow> bool" where
  "less_timeline_ticks a b \<longleftrightarrow> timeline_u64 a < timeline_u64 b"

instance
  by standard (auto simp: less_eq_timeline_ticks_def less_timeline_ticks_def timeline_ticks.expand)

end

instantiation duration_ticks :: linorder
begin

definition less_eq_duration_ticks :: "duration_ticks \<Rightarrow> duration_ticks \<Rightarrow> bool" where
  "less_eq_duration_ticks a b \<longleftrightarrow> duration_u64 a \<le> duration_u64 b"

definition less_duration_ticks :: "duration_ticks \<Rightarrow> duration_ticks \<Rightarrow> bool" where
  "less_duration_ticks a b \<longleftrightarrow> duration_u64 a < duration_u64 b"

instance
  by standard (auto simp: less_eq_duration_ticks_def less_duration_ticks_def duration_ticks.expand)

end

abbreviation qpc_nat :: "qpc_ticks \<Rightarrow> nat" where
  "qpc_nat t \<equiv> unat (qpc_u64 t)"

abbreviation timeline_nat :: "timeline_ticks \<Rightarrow> nat" where
  "timeline_nat t \<equiv> unat (timeline_u64 t)"

abbreviation duration_nat :: "duration_ticks \<Rightarrow> nat" where
  "duration_nat d \<equiv> unat (duration_u64 d)"

section \<open>Checked operations\<close>

definition qpc_checked_add_duration :: "qpc_ticks \<Rightarrow> duration_ticks \<Rightarrow> time_arithmetic_error + qpc_ticks" where
  "qpc_checked_add_duration self d =
     ok_or (map_option QpcTicks (checked_add (qpc_u64 self) (duration_u64 d))) Overflow"

definition qpc_checked_duration_since :: "qpc_ticks \<Rightarrow> qpc_ticks \<Rightarrow> time_arithmetic_error + duration_ticks" where
  "qpc_checked_duration_since self earlier =
     ok_or (map_option DurationTicks (checked_sub (qpc_u64 self) (qpc_u64 earlier))) NegativeOrder"

definition timeline_checked_add_duration ::
  "timeline_ticks \<Rightarrow> duration_ticks \<Rightarrow> time_arithmetic_error + timeline_ticks" where
  "timeline_checked_add_duration self d =
     ok_or (map_option TimelineTicks (checked_add (timeline_u64 self) (duration_u64 d))) Overflow"

definition timeline_checked_sub_duration ::
  "timeline_ticks \<Rightarrow> duration_ticks \<Rightarrow> time_arithmetic_error + timeline_ticks" where
  "timeline_checked_sub_duration self d =
     ok_or (map_option TimelineTicks (checked_sub (timeline_u64 self) (duration_u64 d))) Underflow"

definition timeline_checked_duration_since ::
  "timeline_ticks \<Rightarrow> timeline_ticks \<Rightarrow> time_arithmetic_error + duration_ticks" where
  "timeline_checked_duration_since self earlier =
     ok_or (map_option DurationTicks (checked_sub (timeline_u64 self) (timeline_u64 earlier)))
       NegativeOrder"

definition duration_checked_add ::
  "duration_ticks \<Rightarrow> duration_ticks \<Rightarrow> time_arithmetic_error + duration_ticks" where
  "duration_checked_add self rhs =
     ok_or (map_option DurationTicks (checked_add (duration_u64 self) (duration_u64 rhs))) Overflow"

definition duration_checked_sub ::
  "duration_ticks \<Rightarrow> duration_ticks \<Rightarrow> time_arithmetic_error + duration_ticks" where
  "duration_checked_sub self rhs =
     ok_or (map_option DurationTicks (checked_sub (duration_u64 self) (duration_u64 rhs))) Underflow"

lemmas tick_ops_def =
  qpc_checked_add_duration_def qpc_checked_duration_since_def timeline_checked_add_duration_def
  timeline_checked_sub_duration_def timeline_checked_duration_since_def duration_checked_add_def
  duration_checked_sub_def

lemmas tick_order_defs =
  less_eq_qpc_ticks_def less_qpc_ticks_def less_eq_timeline_ticks_def less_timeline_ticks_def
  less_eq_duration_ticks_def less_duration_ticks_def

subsection \<open>The interface of an instant domain\<close>

text \<open>
  What the callers of the two instant types rely on: adding a duration is exact or reports
  overflow; the distance between two instants is exact or reports a reversed order.
\<close>

locale instant_domain =
  fixes val :: "'t::linorder \<Rightarrow> nat"
    and add :: "'t \<Rightarrow> duration_ticks \<Rightarrow> time_arithmetic_error + 't"
    and since :: "'t \<Rightarrow> 't \<Rightarrow> time_arithmetic_error + duration_ticks"
  assumes val_inject: "val a = val b \<longleftrightarrow> a = b"
    and val_le: "a \<le> b \<longleftrightarrow> val a \<le> val b"
    and val_bound: "val a < 2 ^ 64"
    and add_ok: "add t d = Inr t' \<longleftrightarrow> val t' = val t + duration_nat d"
    and add_err: "add t d = Inl e \<longleftrightarrow> e = Overflow \<and> 2 ^ 64 \<le> val t + duration_nat d"
    and since_ok: "since a b = Inr d \<longleftrightarrow> val b + duration_nat d = val a"
    and since_err: "since a b = Inl e \<longleftrightarrow> e = NegativeOrder \<and> a < b"
begin

lemma since_add: "add t d = Inr t' \<Longrightarrow> since t' t = Inr d"
  by (simp add: add_ok since_ok)

lemma add_since: "since a b = Inr d \<Longrightarrow> add b d = Inr a"
  by (simp add: add_ok since_ok)

lemma add_mono: "a \<le> b \<Longrightarrow> add a d = Inr a' \<Longrightarrow> add b d = Inr b' \<Longrightarrow> a' \<le> b'"
  by (simp add: add_ok val_le)

lemma add_ge: "add t d = Inr t' \<Longrightarrow> t \<le> t'"
  by (simp add: add_ok val_le)

lemma add_defined_iff: "(\<exists>t'. add t d = Inr t') \<longleftrightarrow> val t + duration_nat d < 2 ^ 64"
proof (cases "add t d")
  case (Inl e)
  then show ?thesis using add_err [of t d e] by auto
next
  case (Inr t')
  then show ?thesis using add_ok [of t d t'] val_bound [of t'] by auto
qed

lemma since_defined_iff: "(\<exists>d. since a b = Inr d) \<longleftrightarrow> b \<le> a"
proof (cases "since a b")
  case (Inl e)
  then have "a < b" by (simp add: since_err)
  then show ?thesis using Inl by (auto simp: not_less [symmetric])
next
  case (Inr d)
  then have "val b \<le> val a" by (simp add: since_ok)
  then show ?thesis using Inr by (auto simp: val_le)
qed

end

lemma unat_u64_bound: "unat (w :: u64) < 2 ^ 64"
  using unsigned_less [of w] by simp

lemma checked_add_nat_iff:
  "(\<exists>w. checked_add a b = Some w \<and> f w = c) \<longleftrightarrow>
   (\<exists>w. f w = c \<and> unat w = unat a + unat b)" for a b :: u64
proof
  assume "\<exists>w. checked_add a b = Some w \<and> f w = c"
  then show "\<exists>w. f w = c \<and> unat w = unat a + unat b"
    by (auto simp: checked_simps unat_add_no_wrap)
next
  assume "\<exists>w. f w = c \<and> unat w = unat a + unat b"
  then obtain w where w: "f w = c" "unat w = unat a + unat b" by blast
  then have "unat a + unat b < 2 ^ 64" using unat_u64_bound [of w] by simp
  then have "w = a + b" using w(2) by (intro word_unat_eq_iff [THEN iffD2]) (simp add: unat_add_no_wrap)
  then show "\<exists>w. checked_add a b = Some w \<and> f w = c"
    using w \<open>unat a + unat b < 2 ^ 64\<close> by (auto simp: checked_simps)
qed

lemma checked_sub_nat_iff:
  "(\<exists>w. checked_sub a b = Some w \<and> f w = c) \<longleftrightarrow>
   (\<exists>w. f w = c \<and> unat b + unat w = unat a)" for a b :: u64
proof
  assume "\<exists>w. checked_sub a b = Some w \<and> f w = c"
  then show "\<exists>w. f w = c \<and> unat b + unat w = unat a"
    by (auto simp: checked_simps unat_checked_sub word_le_nat_alt)
next
  assume "\<exists>w. f w = c \<and> unat b + unat w = unat a"
  then obtain w where w: "f w = c" "unat b + unat w = unat a" by blast
  then have le: "b \<le> a" by (simp add: word_le_nat_alt)
  then have "w = a - b" using w(2) by (intro word_unat_eq_iff [THEN iffD2]) (simp add: unat_checked_sub)
  then show "\<exists>w. checked_sub a b = Some w \<and> f w = c"
    using w le by (auto simp: checked_simps)
qed

interpretation qpc: instant_domain qpc_nat qpc_checked_add_duration qpc_checked_duration_since
proof (unfold_locales, goal_cases)
  case (1 a b)
  show ?case by (cases a; cases b) (simp add: word_unat_eq_iff)
next
  case (3 a)
  show ?case by (rule unat_u64_bound)
next
  case (4 t d t')
  then show ?case
    using checked_add_nat_iff [of "qpc_u64 t" "duration_u64 d" QpcTicks t']
    by (auto simp: qpc_checked_add_duration_def result_simps)
next
  case (5 t d e)
  then show ?case by (auto simp: qpc_checked_add_duration_def result_simps checked_simps)
next
  case (6 a b d)
  then show ?case
    using checked_sub_nat_iff [of "qpc_u64 a" "qpc_u64 b" DurationTicks d]
    by (auto simp: qpc_checked_duration_since_def result_simps)
qed (auto simp: tick_order_defs word_le_nat_alt unat_u64_bound qpc_checked_duration_since_def
    result_simps checked_simps)

interpretation timeline: instant_domain timeline_nat timeline_checked_add_duration
  timeline_checked_duration_since
proof (unfold_locales, goal_cases)
  case (1 a b)
  show ?case by (cases a; cases b) (simp add: word_unat_eq_iff)
next
  case (3 a)
  show ?case by (rule unat_u64_bound)
next
  case (4 t d t')
  then show ?case
    using checked_add_nat_iff [of "timeline_u64 t" "duration_u64 d" TimelineTicks t']
    by (auto simp: timeline_checked_add_duration_def result_simps)
next
  case (5 t d e)
  then show ?case by (auto simp: timeline_checked_add_duration_def result_simps checked_simps)
next
  case (6 a b d)
  then show ?case
    using checked_sub_nat_iff [of "timeline_u64 a" "timeline_u64 b" DurationTicks d]
    by (auto simp: timeline_checked_duration_since_def result_simps)
qed (auto simp: tick_order_defs word_le_nat_alt unat_u64_bound timeline_checked_duration_since_def
    result_simps checked_simps)

lemma duration_nat_le: "a \<le> b \<longleftrightarrow> duration_nat a \<le> duration_nat b"
  by (simp add: tick_order_defs word_le_nat_alt)

lemma duration_checked_add_ok:
  "duration_checked_add a b = Inr c \<longleftrightarrow> duration_nat c = duration_nat a + duration_nat b"
  using checked_add_nat_iff [of "duration_u64 a" "duration_u64 b" DurationTicks c]
  by (auto simp: duration_checked_add_def result_simps)

lemma duration_checked_add_err:
  "duration_checked_add a b = Inl e \<longleftrightarrow> e = Overflow \<and> 2 ^ 64 \<le> duration_nat a + duration_nat b"
  by (auto simp: duration_checked_add_def result_simps checked_simps)

section \<open>The QPC clock's unit conversions\<close>

datatype time_conversion_error = InvalidFrequency | ConversionOverflow

text \<open>\<open>frequency_hz\<close> is a \<open>NonZeroU64\<close> in the sources.\<close>

record qpc_clock =
  frequency_hz :: u64

definition checked_mul_u128 :: "nat \<Rightarrow> nat \<Rightarrow> nat option" where
  "checked_mul_u128 a b = (if a * b < 2 ^ 128 then Some (a * b) else None)"

definition checked_add_u128 :: "nat \<Rightarrow> nat \<Rightarrow> nat option" where
  "checked_add_u128 a b = (if a + b < 2 ^ 128 then Some (a + b) else None)"

definition duration_from_us :: "qpc_clock \<Rightarrow> u64 \<Rightarrow> time_conversion_error + duration_ticks" where
  "duration_from_us self microseconds =
     rbind (ok_or (Option.bind (checked_mul_u128 (unat microseconds) (unat (frequency_hz self)))
              (\<lambda>value. checked_add_u128 value 999999)) ConversionOverflow)
       (\<lambda>numerator. let ticks = numerator div 1000000 in
          map_err (\<lambda>_. ConversionOverflow)
            (ok_or (map_option DurationTicks (try_from_usize ticks)) ()))"

definition timeline_from_us :: "qpc_clock \<Rightarrow> u64 \<Rightarrow> time_conversion_error + timeline_ticks" where
  "timeline_from_us self microseconds =
     rbind (duration_from_us self microseconds) (\<lambda>ticks. Inr (TimelineTicks (duration_u64 ticks)))"

definition duration_to_us :: "qpc_clock \<Rightarrow> duration_ticks \<Rightarrow> time_conversion_error + u64" where
  "duration_to_us self ticks =
     rbind (ok_or (checked_mul_u128 (duration_nat ticks) 1000000) ConversionOverflow)
       (\<lambda>value. let microseconds = value div unat (frequency_hz self) in
          map_err (\<lambda>_. ConversionOverflow) (ok_or (try_from_usize microseconds) ()))"

definition timeline_to_us :: "qpc_clock \<Rightarrow> timeline_ticks \<Rightarrow> time_conversion_error + u64" where
  "timeline_to_us self ticks = duration_to_us self (DurationTicks (timeline_u64 ticks))"

text \<open>The 128-bit numerator never overflows, so the only failure is a result beyond 64 bits.\<close>

lemma u64_product_u128: "unat (a :: u64) * unat (b :: u64) + 999999 < 2 ^ 128"
proof -
  have "unat a * unat b \<le> (2 ^ 64 - 1) * (2 ^ 64 - 1)"
    using unat_u64_bound [of a] unat_u64_bound [of b] by (intro mult_le_mono) simp_all
  then show ?thesis by simp
qed

definition ceil_ticks :: "nat \<Rightarrow> nat \<Rightarrow> nat" where
  "ceil_ticks hz us = (us * hz + 999999) div 1000000"

lemma duration_from_us_ok:
  "duration_from_us c us = Inr d \<longleftrightarrow> duration_nat d = ceil_ticks (unat (frequency_hz c)) (unat us)"
proof -
  let ?n = "ceil_ticks (unat (frequency_hz c)) (unat us)"
  have "duration_from_us c us = map_err (\<lambda>_. ConversionOverflow)
      (ok_or (map_option DurationTicks (try_from_usize ?n)) ())"
    using u64_product_u128 [of us "frequency_hz c"]
    by (simp add: duration_from_us_def checked_mul_u128_def checked_add_u128_def ceil_ticks_def)
  also have "\<dots> = Inr d \<longleftrightarrow> duration_nat d = ?n"
    using unat_u64_bound [of "duration_u64 d"]
    by (cases d) (auto simp: result_simps checked_simps word_unat_eq_iff unat_word_of_nat_small)
  finally show ?thesis .
qed

lemma duration_from_us_err:
  "duration_from_us c us = Inl e \<longleftrightarrow>
     e = ConversionOverflow \<and> 2 ^ 64 \<le> ceil_ticks (unat (frequency_hz c)) (unat us)"
  using u64_product_u128 [of us "frequency_hz c"]
  by (auto simp: duration_from_us_def checked_mul_u128_def checked_add_u128_def ceil_ticks_def
      result_simps checked_simps)

lemma timeline_from_us_ok:
  "timeline_from_us c us = Inr t \<longleftrightarrow> timeline_nat t = ceil_ticks (unat (frequency_hz c)) (unat us)"
proof -
  have "timeline_from_us c us = Inr t \<longleftrightarrow> duration_from_us c us = Inr (DurationTicks (timeline_u64 t))"
    by (cases "duration_from_us c us"; cases t) (auto simp: timeline_from_us_def duration_ticks.expand)
  then show ?thesis by (simp add: duration_from_us_ok)
qed

lemma ceil_ticks_mono: "a \<le> b \<Longrightarrow> ceil_ticks hz a \<le> ceil_ticks hz b"
  unfolding ceil_ticks_def by (intro div_le_mono add_le_mono mult_le_mono) auto

lemma ceil_ticks_sub_additive: "ceil_ticks hz (a + b) \<le> ceil_ticks hz a + ceil_ticks hz b"
proof -
  have "(x + y + 999999) div 1000000 \<le> (x + 999999) div 1000000 + (y + 999999) div 1000000"
    for x y :: nat
    by linarith
  then show ?thesis by (simp add: ceil_ticks_def distrib_right)
qed

text \<open>A clock that ticks at least once per microsecond loses nothing in the round trip.\<close>

lemma ceil_ticks_round_trip:
  assumes "1000000 \<le> hz"
  shows "ceil_ticks hz us * 1000000 div hz = us"
proof -
  let ?c = "ceil_ticks hz us"
  have "?c * 1000000 = us * hz + 999999 - (us * hz + 999999) mod 1000000"
    by (simp add: ceil_ticks_def minus_mod_eq_div_mult)
  moreover have "(us * hz + 999999) mod 1000000 < 1000000" by simp
  ultimately have "us * hz \<le> ?c * 1000000" "?c * 1000000 < us * hz + hz"
    using assms by linarith+
  then show ?thesis using assms by (intro div_nat_eqI) (auto simp: algebra_simps)
qed

subsection \<open>The interface of a microsecond conversion\<close>

locale tick_conversion =
  fixes conv :: "u64 \<Rightarrow> timeline_ticks option"
  assumes conv_mono: "conv a = Some x \<Longrightarrow> conv b = Some y \<Longrightarrow> a \<le> b \<Longrightarrow> x \<le> y"
    and conv_down_closed: "conv b = Some y \<Longrightarrow> a \<le> b \<Longrightarrow> \<exists>x. conv a = Some x"
begin

lemma conv_ordered:
  assumes "conv b = Some y" and "a \<le> b"
  obtains x where "conv a = Some x" and "x \<le> y"
  using conv_down_closed [OF assms] conv_mono [OF _ assms(1) assms(2)] by blast

lemma conv_strict: "conv a = Some x \<Longrightarrow> conv b = Some y \<Longrightarrow> x < y \<Longrightarrow> a < b"
  using conv_mono by (metis leD linorder_le_less_linear)

end

text \<open>The two conversions the sources pass: raw microseconds, and QPC ticks rounded up.\<close>

definition microseconds_as_ticks :: "u64 \<Rightarrow> timeline_ticks option" where
  "microseconds_as_ticks microseconds = Some (TimelineTicks microseconds)"

definition qpc_microseconds_to_ticks :: "qpc_clock \<Rightarrow> u64 \<Rightarrow> timeline_ticks option" where
  "qpc_microseconds_to_ticks c microseconds =
     (case timeline_from_us c microseconds of Inl _ \<Rightarrow> None | Inr t \<Rightarrow> Some t)"

lemma qpc_microseconds_to_ticks_ok:
  "qpc_microseconds_to_ticks c us = Some t \<longleftrightarrow>
     timeline_nat t = ceil_ticks (unat (frequency_hz c)) (unat us)"
  by (auto simp: qpc_microseconds_to_ticks_def timeline_from_us_ok [symmetric] split: sum.splits)

interpretation us_ticks: tick_conversion microseconds_as_ticks
  by unfold_locales (auto simp: microseconds_as_ticks_def tick_order_defs)

interpretation qpc_ticks_of: tick_conversion "qpc_microseconds_to_ticks c" for c
proof (unfold_locales, goal_cases)
  case (1 a x b y)
  then show ?case
    by (simp add: qpc_microseconds_to_ticks_ok timeline.val_le word_le_nat_alt ceil_ticks_mono)
next
  case (2 b y a)
  let ?n = "ceil_ticks (unat (frequency_hz c)) (unat a)"
  have "?n \<le> timeline_nat y"
    using 2 by (simp add: qpc_microseconds_to_ticks_ok word_le_nat_alt ceil_ticks_mono)
  then have "?n < 2 ^ 64" using unat_u64_bound [of "timeline_u64 y"] by linarith
  then have "qpc_microseconds_to_ticks c a = Some (TimelineTicks (word_of_nat ?n))"
    by (simp add: qpc_microseconds_to_ticks_ok unat_of_nat take_bit_eq_mod)
  then show ?case by blast
qed

section \<open>Properties\<close>

text \<open>C35: A clock that ticks at least once per microsecond converts microseconds to ticks and back
  without loss.\<close>

theorem qpc_round_trip:
  assumes "1000000 \<le> frequency_hz c" and "duration_from_us c us = Inr d"
  shows "duration_to_us c d = Inr us"
proof -
  have hz: "1000000 \<le> unat (frequency_hz c)" using assms(1) by (simp add: word_le_nat_alt)
  have d: "duration_nat d = ceil_ticks (unat (frequency_hz c)) (unat us)"
    using assms(2) by (simp add: duration_from_us_ok)
  have "duration_nat d * 1000000 < 2 ^ 128" using unat_u64_bound [of "duration_u64 d"] by simp
  moreover have "duration_nat d * 1000000 div unat (frequency_hz c) = unat us"
    unfolding d by (rule ceil_ticks_round_trip [OF hz])
  moreover have "try_from_usize (unat us) = Some us"
    using unat_u64_bound [of us] by (simp add: checked_simps)
  ultimately show ?thesis by (simp add: duration_to_us_def checked_mul_u128_def)
qed

theorem qpc_round_trip_witness:
  "duration_to_us \<lparr>frequency_hz = 3125000\<rparr> (DurationTicks 4) = Inr 1"
proof -
  have "duration_from_us \<lparr>frequency_hz = 3125000\<rparr> 1 = Inr (DurationTicks 4)" by code_simp
  then show ?thesis by (rule qpc_round_trip [rotated]) simp
qed

text \<open>C36: The conversion into ticks rounds up and fails only when the rounded value does not fit 64
  bits: the 128-bit intermediate never overflows.\<close>

theorem duration_from_us_total:
  "duration_from_us c us =
     (let n = ceil_ticks (unat (frequency_hz c)) (unat us)
      in if n < 2 ^ 64 then Inr (DurationTicks (word_of_nat n)) else Inl ConversionOverflow)"
proof (cases "ceil_ticks (unat (frequency_hz c)) (unat us) < 2 ^ 64")
  case True
  then show ?thesis by (simp add: duration_from_us_ok unat_word_of_nat_small)
next
  case False
  then show ?thesis by (simp add: duration_from_us_err not_less)
qed

end
