(* ===== verification/Sky_Clock.thy ===== *)
theory Sky_Clock
  imports Sky_Time
begin

text \<open>
  The playback clock of \<open>sky_dispatch_core/src/clock.rs\<close>: one open pause interval shared by
  several pause reasons, an epoch that is the start instant plus all closed pauses, and the
  logical elapsed time. The specification it is measured against counts the ticks at which no
  pause reason is in force.
\<close>

section \<open>Pause reasons\<close>

datatype pause_reason = Manual | Focus | SystemSuspend

fun pause_reason_bit :: "pause_reason \<Rightarrow> u8" where
  "pause_reason_bit Manual = 1"
| "pause_reason_bit Focus = 2"
| "pause_reason_bit SystemSuspend = 4"

fun pause_reason_as_str :: "pause_reason \<Rightarrow> string" where
  "pause_reason_as_str Manual = ''manual''"
| "pause_reason_as_str Focus = ''focus''"
| "pause_reason_as_str SystemSuspend = ''system_suspend''"

type_synonym pause_reasons = u8

definition reasons_is_empty :: "pause_reasons \<Rightarrow> bool" where
  "reasons_is_empty self \<longleftrightarrow> self = 0"

definition reasons_contains :: "pause_reasons \<Rightarrow> pause_reason \<Rightarrow> bool" where
  "reasons_contains self reason \<longleftrightarrow> self AND pause_reason_bit reason \<noteq> 0"

definition reasons_insert :: "pause_reasons \<Rightarrow> pause_reason \<Rightarrow> pause_reasons" where
  "reasons_insert self reason = self OR pause_reason_bit reason"

definition reasons_remove :: "pause_reasons \<Rightarrow> pause_reason \<Rightarrow> pause_reasons" where
  "reasons_remove self reason = self AND NOT (pause_reason_bit reason)"

section \<open>The clock\<close>

record playback_clock =
  start_perf :: qpc_ticks
  pause_time :: duration_ticks
  clock_pause_reasons :: pause_reasons
  pause_interval_started :: "qpc_ticks option"
  pause_open_reason :: "pause_reason option"
  clock_epoch :: qpc_ticks

definition clock_new :: "qpc_ticks \<Rightarrow> duration_ticks \<Rightarrow> time_arithmetic_error + playback_clock" where
  "clock_new start pt =
     rbind (qpc_checked_add_duration start pt) (\<lambda>epoch.
       Inr \<lparr>start_perf = start, pause_time = pt, clock_pause_reasons = 0,
            pause_interval_started = None, pause_open_reason = None, clock_epoch = epoch\<rparr>)"

definition clock_is_paused :: "playback_clock \<Rightarrow> bool" where
  "clock_is_paused self \<longleftrightarrow> \<not> reasons_is_empty (clock_pause_reasons self)"

definition clock_has_pause_reason :: "playback_clock \<Rightarrow> pause_reason \<Rightarrow> bool" where
  "clock_has_pause_reason self reason \<longleftrightarrow> reasons_contains (clock_pause_reasons self) reason"

definition enter_pause ::
  "pause_reason \<Rightarrow> qpc_ticks \<Rightarrow> (playback_clock, time_arithmetic_error, bool) smethod" where
  "enter_pause reason now self =
     (if reasons_contains (clock_pause_reasons self) reason then (Inr False, self)
      else let was_empty = reasons_is_empty (clock_pause_reasons self);
               self1 = self\<lparr>clock_pause_reasons := reasons_insert (clock_pause_reasons self) reason\<rparr>;
               self2 = (if was_empty
                        then self1\<lparr>pause_interval_started := Some now, pause_open_reason := Some reason\<rparr>
                        else self1)
           in (Inr was_empty, self2))"

definition update_pause_time ::
  "duration_ticks \<Rightarrow> (playback_clock, time_arithmetic_error, unit) smethod" where
  "update_pause_time duration self =
     (case duration_checked_add (pause_time self) duration of
        Inl e \<Rightarrow> (Inl e, self)
      | Inr pt \<Rightarrow>
          (case qpc_checked_add_duration (start_perf self) pt of
             Inl e \<Rightarrow> (Inl e, self)
           | Inr epoch \<Rightarrow> (Inr (), self\<lparr>pause_time := pt, clock_epoch := epoch\<rparr>)))"

definition exit_pause ::
  "pause_reason \<Rightarrow> qpc_ticks \<Rightarrow>
   (playback_clock, time_arithmetic_error, (duration_ticks \<times> pause_reason) option) smethod" where
  "exit_pause reason now self =
     (if \<not> reasons_contains (clock_pause_reasons self) reason then (Inr None, self)
      else let self1 = self\<lparr>clock_pause_reasons := reasons_remove (clock_pause_reasons self) reason\<rparr>
           in if \<not> reasons_is_empty (clock_pause_reasons self1) then (Inr None, self1)
              else (case pause_interval_started self1 of
                      None \<Rightarrow> (Inl NegativeOrder, self1)
                    | Some started \<Rightarrow>
                        (case qpc_checked_duration_since now started of
                           Inl e \<Rightarrow> (Inl e, self1)
                         | Inr duration \<Rightarrow>
                             let attribution =
                                   (case pause_open_reason self1 of None \<Rightarrow> reason | Some r \<Rightarrow> r);
                                 self2 = self1\<lparr>pause_open_reason := None,
                                               pause_interval_started := None\<rparr>
                             in sbind (update_pause_time duration)
                                  (\<lambda>_. sret (Some (duration, attribution))) self2)))"

definition get_elapsed :: "playback_clock \<Rightarrow> qpc_ticks \<Rightarrow> time_arithmetic_error + timeline_ticks" where
  "get_elapsed self now =
     (case pause_interval_started self of
        Some started \<Rightarrow>
          rbind (qpc_checked_duration_since started (clock_epoch self))
            (\<lambda>d. Inr (TimelineTicks (duration_u64 d)))
      | None \<Rightarrow>
          rbind (qpc_checked_duration_since now (clock_epoch self))
            (\<lambda>d. Inr (TimelineTicks (duration_u64 d))))"

definition get_elapsed_allow_pre_epoch ::
  "playback_clock \<Rightarrow> qpc_ticks \<Rightarrow> bool \<Rightarrow> time_arithmetic_error + timeline_ticks" where
  "get_elapsed_allow_pre_epoch self now allow_pre_epoch =
     (if allow_pre_epoch \<and> now < clock_epoch self then Inr (TimelineTicks 0)
      else get_elapsed self now)"

section \<open>Reason masks are sets\<close>

definition reasons_set :: "pause_reasons \<Rightarrow> pause_reason set" where
  "reasons_set m = {r. reasons_contains m r}"

text \<open>Only the three declared bits are ever set.\<close>

definition reasons_wf :: "pause_reasons \<Rightarrow> bool" where
  "reasons_wf m \<longleftrightarrow> (\<forall>n\<ge>3. \<not> bit m n)"

definition reason_index :: "pause_reason \<Rightarrow> nat" where
  "reason_index r = (case r of Manual \<Rightarrow> 0 | Focus \<Rightarrow> 1 | SystemSuspend \<Rightarrow> 2)"

lemma pause_reason_bit_exp: "pause_reason_bit r = 2 ^ reason_index r"
  by (cases r) (simp_all add: reason_index_def)

lemma reason_index_less: "reason_index r < 8"
  by (cases r) (simp_all add: reason_index_def)

lemma reason_index_less_3: "reason_index r < 3"
  by (cases r) (simp_all add: reason_index_def)

lemma reason_index_inject [simp]: "reason_index a = reason_index b \<longleftrightarrow> a = b"
  by (cases a; cases b) (simp_all add: reason_index_def)

lemma reasons_contains_bit: "reasons_contains m r \<longleftrightarrow> bit m (reason_index r)"
proof
  assume "reasons_contains m r"
  then obtain n where "bit (m AND 2 ^ reason_index r) n"
    by (auto simp: reasons_contains_def pause_reason_bit_exp bit_eq_iff [where b = 0])
  then show "bit m (reason_index r)" by (auto simp: bit_and_iff bit_exp_iff)
next
  assume "bit m (reason_index r)"
  then have "bit (m AND 2 ^ reason_index r) (reason_index r)"
    using reason_index_less [of r] by (simp add: bit_and_iff bit_exp_iff)
  then show "reasons_contains m r"
    by (auto simp: reasons_contains_def pause_reason_bit_exp)
qed

lemma reasons_wf_insert: "reasons_wf m \<Longrightarrow> reasons_wf (reasons_insert m r)"
  using reason_index_less_3 [of r]
  by (auto simp: reasons_wf_def reasons_insert_def pause_reason_bit_exp bit_or_iff bit_exp_iff)

lemma reasons_wf_remove: "reasons_wf m \<Longrightarrow> reasons_wf (reasons_remove m r)"
  by (simp add: reasons_wf_def reasons_remove_def bit_and_iff)

lemma reasons_set_insert [simp]: "reasons_set (reasons_insert m r) = insert r (reasons_set m)"
  using reason_index_less [of r]
  by (auto simp: reasons_set_def reasons_contains_bit reasons_insert_def pause_reason_bit_exp
      bit_or_iff bit_exp_iff)

lemma reasons_set_remove [simp]: "reasons_set (reasons_remove m r) = reasons_set m - {r}"
  using reason_index_less
  by (auto simp: reasons_set_def reasons_contains_bit reasons_remove_def pause_reason_bit_exp
      bit_and_iff bit_not_iff bit_exp_iff)

lemma reasons_set_zero [simp]: "reasons_set 0 = {}"
  by (simp add: reasons_set_def reasons_contains_def)

lemma reasons_is_empty_iff:
  assumes "reasons_wf m"
  shows "reasons_is_empty m \<longleftrightarrow> reasons_set m = {}"
proof
  assume "reasons_is_empty m"
  then show "reasons_set m = {}" by (simp add: reasons_is_empty_def)
next
  assume none: "reasons_set m = {}"
  have "\<not> bit m n" for n
  proof (cases "n < 3")
    case True
    then consider "n = reason_index Manual" | "n = reason_index Focus"
      | "n = reason_index SystemSuspend"
      by (auto simp: reason_index_def less_Suc_eq numeral_3_eq_3)
    then show ?thesis
      using none by cases (auto simp: reasons_set_def reasons_contains_bit)
  next
    case False
    then show ?thesis using assms by (simp add: reasons_wf_def)
  qed
  then show "reasons_is_empty m" by (simp add: reasons_is_empty_def bit_eq_iff)
qed

section \<open>Runs of pause events\<close>

datatype pause_event = Enter pause_reason qpc_ticks | Exit pause_reason qpc_ticks

fun event_time :: "pause_event \<Rightarrow> qpc_ticks" where
  "event_time (Enter r t) = t"
| "event_time (Exit r t) = t"

fun clock_step :: "pause_event \<Rightarrow> (playback_clock, time_arithmetic_error, unit) smethod" where
  "clock_step (Enter r t) = sbind (enter_pause r t) (\<lambda>_. sret ())"
| "clock_step (Exit r t) = sbind (exit_pause r t) (\<lambda>_. sret ())"

definition clock_run :: "pause_event list \<Rightarrow> (playback_clock, time_arithmetic_error, unit) smethod" where
  "clock_run evs = sfor evs clock_step"

text \<open>The specification: which reasons are in force at a tick, and how many ticks are unpaused.\<close>

fun reasons_step :: "pause_event \<Rightarrow> pause_reason set \<Rightarrow> pause_reason set" where
  "reasons_step (Enter r t) R = insert r R"
| "reasons_step (Exit r t) R = R - {r}"

definition reasons_after :: "pause_event list \<Rightarrow> pause_reason set" where
  "reasons_after evs = fold reasons_step evs {}"

definition paused_at :: "pause_event list \<Rightarrow> nat \<Rightarrow> bool" where
  "paused_at evs n \<longleftrightarrow> reasons_after (filter (\<lambda>e. qpc_nat (event_time e) \<le> n) evs) \<noteq> {}"

definition paused_ticks :: "pause_event list \<Rightarrow> nat \<Rightarrow> nat \<Rightarrow> nat" where
  "paused_ticks evs a b = card {n \<in> {a..<b}. paused_at evs n}"

definition running_ticks :: "pause_event list \<Rightarrow> nat \<Rightarrow> nat \<Rightarrow> nat" where
  "running_ticks evs a b = card {n \<in> {a..<b}. \<not> paused_at evs n}"

lemma running_plus_paused: "running_ticks evs a b + paused_ticks evs a b = b - a"
proof -
  let ?R = "{n \<in> {a..<b}. \<not> paused_at evs n}" and ?P = "{n \<in> {a..<b}. paused_at evs n}"
  have "card ?R + card ?P = card (?R \<union> ?P)"
    by (rule card_Un_disjoint [symmetric]) auto
  also have "?R \<union> ?P = {a..<b}" by auto
  finally show ?thesis by (simp add: running_ticks_def paused_ticks_def)
qed

lemma paused_ticks_split:
  "a \<le> m \<Longrightarrow> m \<le> b \<Longrightarrow> paused_ticks evs a b = paused_ticks evs a m + paused_ticks evs m b"
  unfolding paused_ticks_def
  by (subst card_Un_disjoint [symmetric]) (auto intro!: arg_cong [where f = card])

lemma paused_ticks_all: "(\<And>n. a \<le> n \<Longrightarrow> n < b \<Longrightarrow> paused_at evs n) \<Longrightarrow> paused_ticks evs a b = b - a"
proof -
  assume "\<And>n. a \<le> n \<Longrightarrow> n < b \<Longrightarrow> paused_at evs n"
  then have "{n \<in> {a..<b}. paused_at evs n} = {a..<b}" by auto
  then show ?thesis by (simp add: paused_ticks_def)
qed

lemma paused_ticks_none: "(\<And>n. a \<le> n \<Longrightarrow> n < b \<Longrightarrow> \<not> paused_at evs n) \<Longrightarrow> paused_ticks evs a b = 0"
  by (auto simp: paused_ticks_def)

lemma paused_ticks_cong:
  "(\<And>n. a \<le> n \<Longrightarrow> n < b \<Longrightarrow> paused_at evs n = paused_at evs' n) \<Longrightarrow>
   paused_ticks evs a b = paused_ticks evs' a b"
  unfolding paused_ticks_def by (rule arg_cong [where f = card]) auto

text \<open>An event only changes ticks from its own instant on.\<close>

lemma paused_at_snoc_before: "n < qpc_nat (event_time e) \<Longrightarrow> paused_at (evs @ [e]) n = paused_at evs n"
  by (simp add: paused_at_def)

lemma paused_at_after_all:
  "(\<And>e. e \<in> set evs \<Longrightarrow> qpc_nat (event_time e) \<le> n) \<Longrightarrow> paused_at evs n \<longleftrightarrow> reasons_after evs \<noteq> {}"
  by (simp add: paused_at_def)

lemma reasons_after_snoc: "reasons_after (evs @ [e]) = reasons_step e (reasons_after evs)"
  by (simp add: reasons_after_def)

section \<open>The clock refines the specification\<close>

text \<open>
  \<open>clock_tracks evs L c\<close>: after the events \<open>evs\<close>, the last of them no later than tick
  \<open>L\<close>, the clock \<open>c\<close> holds exactly the reasons in force, its pause time is the number of
  paused ticks outside the open interval, and its epoch is the start plus that pause time. Pauses are
  counted from tick 0 of the counter on: one may begin, and end, before a start that lies in the future.
\<close>

definition pause_accounted :: "pause_event list \<Rightarrow> nat \<Rightarrow> playback_clock \<Rightarrow> bool" where
  "pause_accounted evs L c \<longleftrightarrow>
     (case pause_interval_started c of
        None \<Rightarrow> reasons_after evs = {} \<and> duration_nat (pause_time c) = paused_ticks evs 0 L
      | Some s \<Rightarrow> reasons_after evs \<noteq> {} \<and> qpc_nat s \<le> L
          \<and> duration_nat (pause_time c) = paused_ticks evs 0 (qpc_nat s)
          \<and> (\<forall>n. qpc_nat s \<le> n \<longrightarrow> paused_at evs n))"

definition clock_tracks :: "pause_event list \<Rightarrow> nat \<Rightarrow> playback_clock \<Rightarrow> bool" where
  "clock_tracks evs L c \<longleftrightarrow>
     reasons_wf (clock_pause_reasons c) \<and> reasons_set (clock_pause_reasons c) = reasons_after evs
     \<and> qpc_nat (clock_epoch c) = qpc_nat (start_perf c) + duration_nat (pause_time c)
     \<and> (\<forall>e \<in> set evs. qpc_nat (event_time e) \<le> L) \<and> pause_accounted evs L c"

lemma clock_tracks_new:
  assumes "clock_new s (DurationTicks 0) = Inr c"
  shows "clock_tracks [] L c" and "start_perf c = s"
  using assms
  by (auto simp: clock_new_def result_simps qpc.add_ok clock_tracks_def pause_accounted_def
      reasons_wf_def reasons_after_def paused_ticks_def paused_at_def)

lemma paused_ticks_le: "paused_ticks evs a b \<le> b - a"
  using running_plus_paused [of evs a b] by linarith

lemma clock_tracks_is_empty:
  "clock_tracks evs L c \<Longrightarrow> reasons_is_empty (clock_pause_reasons c) \<longleftrightarrow> reasons_after evs = {}"
  by (auto simp: clock_tracks_def reasons_is_empty_iff)

lemma clock_tracks_contains:
  "clock_tracks evs L c \<Longrightarrow> reasons_contains (clock_pause_reasons c) r \<longleftrightarrow> r \<in> reasons_after evs"
  by (auto simp: clock_tracks_def reasons_set_def)

lemma paused_at_snoc_same:
  assumes "\<forall>e \<in> set evs. qpc_nat (event_time e) \<le> qpc_nat (event_time e')"
    and "reasons_after (evs @ [e']) = {} \<longleftrightarrow> reasons_after evs = {}"
  shows "paused_at (evs @ [e']) n = paused_at evs n"
proof (cases "n < qpc_nat (event_time e')")
  case True
  then show ?thesis by (rule paused_at_snoc_before)
next
  case False
  then show ?thesis
    using assms by (subst (1 2) paused_at_after_all) (auto intro: order_trans)
qed

text \<open>Time passing without an event, and an event that leaves the paused state unchanged.\<close>

lemma clock_tracks_advance:
  assumes c: "clock_tracks evs L c" and "L \<le> T"
  shows "clock_tracks evs T c"
proof -
  have "paused_ticks evs 0 T = paused_ticks evs 0 L"
    if "reasons_after evs = {}"
  proof -
    have "paused_ticks evs L T = 0"
      using c that by (intro paused_ticks_none) (subst paused_at_after_all, auto simp: clock_tracks_def)
    then show ?thesis
      using paused_ticks_split [of 0 L T evs] assms by simp
  qed
  then show ?thesis
    using assms by (auto simp: clock_tracks_def pause_accounted_def split: option.splits)
qed

lemma pause_accounted_same:
  assumes "\<forall>e \<in> set evs. qpc_nat (event_time e) \<le> qpc_nat (event_time e')"
    and "reasons_after (evs @ [e']) = {} \<longleftrightarrow> reasons_after evs = {}"
    and "pause_interval_started c' = pause_interval_started c" and "pause_time c' = pause_time c"
  shows "pause_accounted (evs @ [e']) L c' = pause_accounted evs L c"
  using assms(2-4) paused_at_snoc_same [OF assms(1,2)]
  by (simp add: pause_accounted_def paused_ticks_def cong: option.case_cong)

lemma clock_tracks_open:
  assumes c: "clock_tracks evs T c" and T: "qpc_nat t = T" and none: "reasons_after evs = {}"
  shows "clock_tracks (evs @ [Enter r t]) T
    (c\<lparr>clock_pause_reasons := reasons_insert (clock_pause_reasons c) r,
       pause_interval_started := Some t, pause_open_reason := Some r\<rparr>)"
proof -
  have before: "paused_ticks (evs @ [Enter r t]) 0 T = paused_ticks evs 0 T"
    by (rule paused_ticks_cong) (simp add: paused_at_snoc_before T)
  have "paused_at (evs @ [Enter r t]) n" if "T \<le> n" for n
    using c that T by (subst paused_at_after_all)
      (auto simp: clock_tracks_def reasons_after_snoc intro: order_trans)
  moreover have "pause_interval_started c = None"
    using c none by (auto simp: clock_tracks_def pause_accounted_def split: option.splits)
  ultimately show ?thesis
    using c T before
    by (auto simp: clock_tracks_def pause_accounted_def reasons_wf_insert reasons_after_snoc)
qed

lemma clock_tracks_close:
  assumes c: "clock_tracks evs T c" and T: "qpc_nat t = T" and R: "reasons_after evs = {r}"
    and s: "pause_interval_started c = Some s"
    and d: "duration_nat pt = duration_nat (pause_time c) + (T - qpc_nat s)"
    and ep: "qpc_nat ep = qpc_nat (start_perf c) + duration_nat pt"
  shows "clock_tracks (evs @ [Exit r t]) T
    (c\<lparr>clock_pause_reasons := reasons_remove (clock_pause_reasons c) r,
       pause_open_reason := None, pause_interval_started := None,
       pause_time := pt, clock_epoch := ep\<rparr>)"
proof -
  let ?b = "qpc_nat s" and ?evs = "evs @ [Exit r t]"
  have acc: "?b \<le> T \<and> duration_nat (pause_time c) = paused_ticks evs 0 ?b
      \<and> (\<forall>n. ?b \<le> n \<longrightarrow> paused_at evs n)"
    using c s by (simp add: clock_tracks_def pause_accounted_def)
  have "paused_ticks ?evs 0 T = paused_ticks evs 0 T"
    by (rule paused_ticks_cong) (simp add: paused_at_snoc_before T)
  also have "\<dots> = paused_ticks evs 0 ?b + (T - ?b)"
    using acc paused_ticks_split [of 0 ?b T evs] paused_ticks_all [of ?b T evs] by simp
  finally have pt: "duration_nat pt = paused_ticks ?evs 0 T" using d acc by simp
  show ?thesis
    using c T R ep pt
    by (simp add: clock_tracks_def pause_accounted_def reasons_wf_remove reasons_after_snoc)
qed

lemma clock_step_enter:
  assumes c: "clock_tracks evs T c" and T: "qpc_nat t = T"
  obtains c' where "clock_step (Enter r t) c = (Inr (), c')"
    and "clock_tracks (evs @ [Enter r t]) T c'" and "start_perf c' = start_perf c"
proof (cases "reasons_after evs = {}")
  case True
  then show ?thesis
    using clock_tracks_contains [OF c, of r] clock_tracks_is_empty [OF c]
    by (intro that [OF _ clock_tracks_open [OF c T True, of r]])
      (auto simp: enter_pause_def sbind_apply Let_def)
next
  case False
  have times: "\<forall>e \<in> set evs. qpc_nat (event_time e) \<le> qpc_nat (event_time (Enter r t))"
    using c T by (simp add: clock_tracks_def)
  show ?thesis
  proof (cases "r \<in> reasons_after evs")
    case True
    with c False show ?thesis
      using clock_tracks_contains [OF c, of r] T pause_accounted_same [OF times, of c c]
      by (intro that [of c])
        (auto simp: enter_pause_def sbind_apply clock_tracks_def reasons_after_snoc insert_absorb)
  next
    case new: False
    let ?c' = "c\<lparr>clock_pause_reasons := reasons_insert (clock_pause_reasons c) r\<rparr>"
    from c False new show ?thesis
      using clock_tracks_contains [OF c, of r] clock_tracks_is_empty [OF c] T
        pause_accounted_same [OF times, of ?c' c]
      by (intro that [of ?c'])
        (auto simp: enter_pause_def sbind_apply Let_def clock_tracks_def reasons_after_snoc
          reasons_wf_insert)
  qed
qed

lemma clock_step_exit:
  assumes c: "clock_tracks evs T c" and T: "qpc_nat t = T"
    and room: "qpc_nat (start_perf c) + paused_ticks evs 0 T < 2 ^ 64"
  obtains c' where "clock_step (Exit r t) c = (Inr (), c')"
    and "clock_tracks (evs @ [Exit r t]) T c'" and "start_perf c' = start_perf c"
proof -
  have times: "\<forall>e \<in> set evs. qpc_nat (event_time e) \<le> qpc_nat (event_time (Exit r t))"
    using c T by (simp add: clock_tracks_def)
  let ?c1 = "c\<lparr>clock_pause_reasons := reasons_remove (clock_pause_reasons c) r\<rparr>"
  have empty1: "reasons_is_empty (reasons_remove (clock_pause_reasons c) r) \<longleftrightarrow>
      reasons_after evs - {r} = {}"
    using c by (subst reasons_is_empty_iff) (auto simp: clock_tracks_def reasons_wf_remove)
  consider (absent) "r \<notin> reasons_after evs" | (more) "r \<in> reasons_after evs" "reasons_after evs \<noteq> {r}"
    | (last) "reasons_after evs = {r}" by blast
  then show ?thesis
  proof cases
    case absent
    with c show ?thesis
      using clock_tracks_contains [OF c, of r] T pause_accounted_same [OF times, of c c]
      by (intro that [of c]) (auto simp: exit_pause_def sbind_apply clock_tracks_def reasons_after_snoc)
  next
    case more
    then have "reasons_after evs - {r} \<noteq> {}" by blast
    with c more show ?thesis
      using clock_tracks_contains [OF c, of r] empty1 T pause_accounted_same [OF times, of ?c1 c]
      by (intro that [of ?c1])
        (auto simp: exit_pause_def sbind_apply Let_def clock_tracks_def reasons_after_snoc
          reasons_wf_remove)
  next
    case last
    then obtain s where s: "pause_interval_started c = Some s" and acc: "qpc_nat s \<le> T"
        "duration_nat (pause_time c) = paused_ticks evs 0 (qpc_nat s)" "\<And>n. qpc_nat s \<le> n \<Longrightarrow> paused_at evs n"
      using c by (auto simp: clock_tracks_def pause_accounted_def split: option.splits)
    then have "\<exists>d. qpc_checked_duration_since t s = Inr d"
      using T by (simp add: qpc.since_defined_iff qpc.val_le)
    then obtain d where d: "qpc_checked_duration_since t s = Inr d" ..
    then have dv: "duration_nat d = T - qpc_nat s" using T by (simp add: qpc.since_ok)
    have fits: "qpc_nat (start_perf c) + (duration_nat (pause_time c) + duration_nat d) < 2 ^ 64"
      using room acc dv paused_ticks_split [of 0 "qpc_nat s" T evs] paused_ticks_all [of "qpc_nat s" T evs] by simp
    then obtain pt where pt: "duration_checked_add (pause_time c) d = Inr pt"
      using duration_checked_add_err [of "pause_time c" d] by (cases "duration_checked_add (pause_time c) d") auto
    have ptv: "duration_nat pt = duration_nat (pause_time c) + duration_nat d"
      using pt by (simp add: duration_checked_add_ok)
    obtain ep where ep: "qpc_checked_add_duration (start_perf c) pt = Inr ep"
      using fits ptv qpc.add_defined_iff [of "start_perf c" pt] by auto
    have step: "clock_step (Exit r t) c =
        (Inr (), c\<lparr>clock_pause_reasons := reasons_remove (clock_pause_reasons c) r,
          pause_open_reason := None, pause_interval_started := None,
          pause_time := pt, clock_epoch := ep\<rparr>)"
      using clock_tracks_contains [OF c, of r] last empty1 s d pt ep
      by (simp add: exit_pause_def sbind_apply Let_def update_pause_time_def)
    show ?thesis
      using dv ptv ep
      by (intro that [OF step clock_tracks_close [OF c T last s]]) (auto simp: qpc.add_ok)
  qed
qed

lemma qpc_val_less: "a < b \<longleftrightarrow> qpc_nat a < qpc_nat b"
  by (metis linorder_not_le qpc.val_le)

lemma clock_run_snoc: "clock_run (evs @ [e]) c = sbind (clock_run evs) (\<lambda>_. clock_step e) c"
  by (induction evs arbitrary: c) (auto simp: clock_run_def sbind_apply split: prod.splits sum.splits)

lemma paused_ticks_mono: "a \<le> m \<Longrightarrow> m \<le> b \<Longrightarrow> paused_ticks evs a m \<le> paused_ticks evs a b"
  using paused_ticks_split [of a m b evs] by simp

lemma clock_run_tracks:
  assumes "sorted_wrt (\<le>) (map event_time evs)" and "\<forall>e \<in> set evs. qpc_nat (event_time e) \<le> L"
    and "qpc_nat s + paused_ticks evs 0 L < 2 ^ 64" and "clock_new s (DurationTicks 0) = Inr c0"
  shows "\<exists>c. clock_run evs c0 = (Inr (), c) \<and> start_perf c = s \<and> clock_tracks evs L c"
  using assms(1-3)
proof (induction evs arbitrary: L rule: rev_induct)
  case Nil
  then show ?case using clock_tracks_new [OF assms(4)] by (simp add: clock_run_def)
next
  case (snoc e evs)
  let ?T = "qpc_nat (event_time e)"
  have before: "paused_ticks evs 0 ?T = paused_ticks (evs @ [e]) 0 ?T"
    by (rule paused_ticks_cong) (simp add: paused_at_snoc_before)
  also have "\<dots> \<le> paused_ticks (evs @ [e]) 0 L" using snoc.prems(2) by (intro paused_ticks_mono) simp_all
  finally have room: "qpc_nat s + paused_ticks evs 0 ?T < 2 ^ 64" using snoc.prems(3) by linarith
  have times: "sorted_wrt (\<le>) (map event_time evs)" "\<forall>e' \<in> set evs. qpc_nat (event_time e') \<le> ?T"
    using snoc.prems(1) by (simp_all only: map_append sorted_wrt_append) (simp add: qpc.val_le)
  from snoc.IH [OF times room] obtain c where
    IH: "clock_run evs c0 = (Inr (), c)" "start_perf c = s" "clock_tracks evs ?T c" by blast
  have "\<exists>c'. clock_step e c = (Inr (), c') \<and> clock_tracks (evs @ [e]) ?T c' \<and> start_perf c' = start_perf c"
  proof (cases e)
    case (Enter r t)
    show ?thesis by (rule clock_step_enter [OF IH(3), of t r]) (use Enter in auto)
  next
    case (Exit r t)
    have "qpc_nat t = ?T" and "qpc_nat (start_perf c) + paused_ticks evs 0 ?T < 2 ^ 64"
      by (simp add: Exit, use room IH(2) in metis)
    from clock_step_exit [OF IH(3) this, of r, folded Exit] obtain c' where "clock_step e c = (Inr (), c')"
      "clock_tracks (evs @ [e]) ?T c'" "start_perf c' = start_perf c" .
    then show ?thesis by blast
  qed
  then obtain c' where c': "clock_step e c = (Inr (), c')" "clock_tracks (evs @ [e]) ?T c'"
      "start_perf c' = start_perf c" by blast
  have "clock_tracks (evs @ [e]) L c'" by (rule clock_tracks_advance [OF c'(2)]) (use snoc.prems(2) in simp)
  moreover have "clock_run (evs @ [e]) c0 = (Inr (), c')" by (simp add: clock_run_snoc sbind_apply IH(1) c'(1))
  ultimately show ?case using IH(2) c'(3) by auto
qed

text \<open>The elapsed time is the distance of the unpaused instants from the start, when there is one.\<close>

lemma since_epoch:
  "rbind (qpc_checked_duration_since b a) (\<lambda>d. Inr (TimelineTicks (duration_u64 d)))
     = (if qpc_nat a \<le> qpc_nat b then Inr (TimelineTicks (qpc_u64 b - qpc_u64 a)) else Inl NegativeOrder)"
  and since_epoch_nat: "qpc_nat a \<le> qpc_nat b \<Longrightarrow>
     timeline_nat (TimelineTicks (qpc_u64 b - qpc_u64 a)) = qpc_nat b - qpc_nat a"
proof -
  show v: "timeline_nat (TimelineTicks (qpc_u64 b - qpc_u64 a)) = qpc_nat b - qpc_nat a" if "qpc_nat a \<le> qpc_nat b"
    using that by (simp add: unat_sub word_le_nat_alt)
  show "rbind (qpc_checked_duration_since b a) (\<lambda>d. Inr (TimelineTicks (duration_u64 d)))
     = (if qpc_nat a \<le> qpc_nat b then Inr (TimelineTicks (qpc_u64 b - qpc_u64 a)) else Inl NegativeOrder)"
  proof (cases "qpc_nat a \<le> qpc_nat b")
    case True
    then obtain d where d: "qpc_checked_duration_since b a = Inr d"
      using qpc.since_defined_iff [of b a] by (auto simp: qpc.val_le)
    then have "duration_nat d = qpc_nat b - qpc_nat a" by (auto simp: qpc.since_ok)
    then have "duration_u64 d = qpc_u64 b - qpc_u64 a" using v [OF True] by (cases d) (simp add: word_unat_eq_iff)
    with d True show ?thesis by simp
  next
    case False
    then have "b < a" by (simp add: qpc_val_less)
    then have "qpc_checked_duration_since b a = Inl NegativeOrder" by (simp add: qpc.since_err)
    with False show ?thesis by simp
  qed
qed

lemma get_elapsed_since_epoch:
  "get_elapsed c now =
     (let b = (case pause_interval_started c of None \<Rightarrow> now | Some b \<Rightarrow> b)
      in if qpc_nat (clock_epoch c) \<le> qpc_nat b then Inr (TimelineTicks (qpc_u64 b - qpc_u64 (clock_epoch c)))
         else Inl NegativeOrder)"
  by (simp add: get_elapsed_def since_epoch split: option.splits)

lemma tracked_distance:
  assumes c: "clock_tracks evs (qpc_nat now) c"
    and b: "b = (case pause_interval_started c of None \<Rightarrow> now | Some b \<Rightarrow> b)"
  shows "qpc_nat (clock_epoch c) \<le> qpc_nat b \<longleftrightarrow> qpc_nat (start_perf c) \<le> running_ticks evs 0 (qpc_nat now)"
    and "qpc_nat b - qpc_nat (clock_epoch c) = running_ticks evs 0 (qpc_nat now) - qpc_nat (start_perf c)"
proof -
  let ?now = "qpc_nat now"
  have ep: "qpc_nat (clock_epoch c) = qpc_nat (start_perf c) + duration_nat (pause_time c)"
    using c by (simp add: clock_tracks_def)
  have "duration_nat (pause_time c) + running_ticks evs 0 ?now = qpc_nat b"
  proof (cases "pause_interval_started c")
    case None
    then have "duration_nat (pause_time c) = paused_ticks evs 0 ?now" and "b = now"
      using c b by (simp_all add: clock_tracks_def pause_accounted_def)
    then show ?thesis using running_plus_paused [of evs 0 ?now] by simp
  next
    case (Some s)
    then have acc: "qpc_nat s \<le> ?now" "duration_nat (pause_time c) = paused_ticks evs 0 (qpc_nat s)"
      "\<And>n. qpc_nat s \<le> n \<Longrightarrow> paused_at evs n" "b = s"
      using c b by (auto simp: clock_tracks_def pause_accounted_def)
    then show ?thesis
      using running_plus_paused [of evs 0 ?now] paused_ticks_split [of 0 "qpc_nat s" ?now evs]
        paused_ticks_all [of "qpc_nat s" ?now evs] by simp
  qed
  then show "qpc_nat (clock_epoch c) \<le> qpc_nat b \<longleftrightarrow> qpc_nat (start_perf c) \<le> running_ticks evs 0 ?now"
    and "qpc_nat b - qpc_nat (clock_epoch c) = running_ticks evs 0 ?now - qpc_nat (start_perf c)"
    using ep by linarith+
qed

lemma get_elapsed_running:
  assumes "clock_tracks evs (qpc_nat now) c"
  shows "if qpc_nat (start_perf c) \<le> running_ticks evs 0 (qpc_nat now)
    then \<exists>t. get_elapsed c now = Inr t \<and> timeline_nat t = running_ticks evs 0 (qpc_nat now) - qpc_nat (start_perf c)
    else get_elapsed c now = Inl NegativeOrder"
  using tracked_distance [OF assms refl]
  by (auto simp: get_elapsed_since_epoch Let_def dest: since_epoch_nat)

lemma get_elapsed_pre_epoch_running:
  assumes c: "clock_tracks evs (qpc_nat now) c" and "reasons_after evs = {}"
  shows "\<exists>t. get_elapsed_allow_pre_epoch c now True = Inr t \<and>
    timeline_nat t = running_ticks evs 0 (qpc_nat now) - qpc_nat (start_perf c)"
proof -
  have open_none: "pause_interval_started c = None"
    using assms by (auto simp: clock_tracks_def pause_accounted_def split: option.splits)
  note dist = tracked_distance [OF c refl, unfolded open_none option.case]
  show ?thesis
  proof (cases "now < clock_epoch c")
    case True
    then have "qpc_nat now - qpc_nat (clock_epoch c) = 0" by (simp add: qpc_val_less)
    with True dist(2) show ?thesis by (simp add: get_elapsed_allow_pre_epoch_def)
  next
    case False
    then have "qpc_nat (clock_epoch c) \<le> qpc_nat now" by (simp add: qpc_val_less)
    with False dist get_elapsed_running [OF c] show ?thesis by (simp add: get_elapsed_allow_pre_epoch_def)
  qed
qed

text \<open>With no pause before the start the count may begin there.\<close>

lemma paused_since_start:
  assumes "\<forall>e \<in> set evs. a \<le> qpc_nat (event_time e)" and "a \<le> b"
  shows "paused_ticks evs 0 b = paused_ticks evs a b" and "running_ticks evs 0 b = a + running_ticks evs a b"
proof -
  have "\<not> paused_at evs n" if "n < a" for n
  proof -
    have "filter (\<lambda>e. qpc_nat (event_time e) \<le> n) evs = []" using assms(1) that by (fastforce simp: filter_empty_conv)
    then show ?thesis by (simp add: paused_at_def reasons_after_def)
  qed
  then have "paused_ticks evs 0 a = 0" by (intro paused_ticks_none)
  then show "paused_ticks evs 0 b = paused_ticks evs a b" using paused_ticks_split [of 0 a b evs] assms(2) by simp
  then show "running_ticks evs 0 b = a + running_ticks evs a b"
    using running_plus_paused [of evs 0 b] running_plus_paused [of evs a b] assms(2) by linarith
qed

lemma running_ticks_count: "running_ticks evs a b = length (filter (\<lambda>n. \<not> paused_at evs n) [a..<b])"
proof -
  have "{n \<in> {a..<b}. \<not> paused_at evs n} = set (filter (\<lambda>n. \<not> paused_at evs n) [a..<b])" by auto
  then have "running_ticks evs a b = card (set (filter (\<lambda>n. \<not> paused_at evs n) [a..<b]))" by (simp only: running_ticks_def)
  also have "\<dots> = length (filter (\<lambda>n. \<not> paused_at evs n) [a..<b])" by (rule distinct_card) simp
  finally show ?thesis .
qed

section \<open>Properties\<close>

text \<open>C14: For any sequence of pause entries and exits in time order, whatever reasons overlap, and
  whether they lie before or after the start, the clock processes all of them, provided only that the
  epoch they push ahead still fits 64 bits (which it does by itself when none precedes the start). Its
  logical elapsed time is then exactly the number of ticks up to now at which no pause reason was in force,
  less the start: a pause that begins before a future start delays it. While that difference is negative
  the clock reports a reversed order, and the pre-epoch reading, used when it is not paused, reports 0.
  When no pause precedes the start, the elapsed time is the number of unpaused ticks since the start.\<close>

theorem elapsed_counts_unpaused_ticks:
  assumes "sorted_wrt (\<le>) (map event_time evs)" and "\<forall>e \<in> set evs. event_time e \<le> now"
    and "((\<forall>e \<in> set evs. start \<le> event_time e) \<and> start \<le> now) \<or>
      qpc_nat start + paused_ticks evs 0 (qpc_nat now) < 2 ^ 64"
  shows "\<exists>c0 c. clock_new start (DurationTicks 0) = Inr c0 \<and> clock_run evs c0 = (Inr (), c) \<and>
    (if qpc_nat start \<le> running_ticks evs 0 (qpc_nat now)
     then \<exists>t. get_elapsed c now = Inr t \<and> timeline_nat t = running_ticks evs 0 (qpc_nat now) - qpc_nat start
     else get_elapsed c now = Inl NegativeOrder) \<and>
    (reasons_after evs = {} \<longrightarrow> (\<exists>t. get_elapsed_allow_pre_epoch c now True = Inr t \<and>
       timeline_nat t = running_ticks evs 0 (qpc_nat now) - qpc_nat start)) \<and>
    ((\<forall>e \<in> set evs. start \<le> event_time e) \<and> start \<le> now \<longrightarrow> (\<exists>t. get_elapsed c now = Inr t \<and>
       timeline_nat t = running_ticks evs (qpc_nat start) (qpc_nat now)))"
proof -
  let ?s = "qpc_nat start" and ?now = "qpc_nat now"
  obtain c0 where c0: "clock_new start (DurationTicks 0) = Inr c0"
    using qpc.add_defined_iff [of start "DurationTicks 0"] qpc.val_bound [of start]
    by (auto simp: clock_new_def)
  have since: "?s \<le> ?now \<and> running_ticks evs 0 ?now = ?s + running_ticks evs ?s ?now \<and>
      paused_ticks evs 0 ?now = paused_ticks evs ?s ?now"
    if "(\<forall>e \<in> set evs. start \<le> event_time e) \<and> start \<le> now"
    using that paused_since_start [of evs ?s ?now] by (simp add: qpc.val_le)
  have room: "?s + paused_ticks evs 0 ?now < 2 ^ 64"
    using assms(3) since paused_ticks_le [of evs ?s ?now] qpc.val_bound [of now] by (elim disjE) linarith+
  have "\<forall>e \<in> set evs. qpc_nat (event_time e) \<le> ?now" using assms(2) by (simp add: qpc.val_le)
  from clock_run_tracks [OF assms(1) this room c0] obtain c where
    c: "clock_run evs c0 = (Inr (), c)" "start_perf c = start" "clock_tracks evs ?now c" by blast
  have "\<exists>t. get_elapsed c now = Inr t \<and> timeline_nat t = running_ticks evs ?s ?now"
    if "(\<forall>e \<in> set evs. start \<le> event_time e) \<and> start \<le> now"
    using get_elapsed_running [OF c(3)] since [OF that] c(2) by simp
  with c c0 get_elapsed_running [OF c(3)] get_elapsed_pre_epoch_running [OF c(3)] show ?thesis by auto
qed

text \<open>Two overlapping pauses after the start, and one that begins before it and delays it.\<close>

theorem elapsed_counts_unpaused_ticks_witness:
  "(\<exists>c0 c t. clock_new (QpcTicks 10) (DurationTicks 0) = Inr c0 \<and>
     clock_run [Enter Manual (QpcTicks 11), Enter Focus (QpcTicks 12), Exit Manual (QpcTicks 13),
                Exit Focus (QpcTicks 15)] c0 = (Inr (), c) \<and>
     get_elapsed c (QpcTicks 16) = Inr t \<and> timeline_nat t = 2) \<and>
   (\<exists>c0 c t. clock_new (QpcTicks 10) (DurationTicks 0) = Inr c0 \<and>
     clock_run [Enter Focus (QpcTicks 9), Exit Focus (QpcTicks 11)] c0 = (Inr (), c) \<and>
     get_elapsed c (QpcTicks 13) = Inr t \<and> timeline_nat t = 1)"
proof (rule conjI)
  have "running_ticks [Enter Manual (QpcTicks 11), Enter Focus (QpcTicks 12), Exit Manual (QpcTicks 13),
      Exit Focus (QpcTicks 15)] 10 16 = 2"
    unfolding running_ticks_count by code_simp
  then show "\<exists>c0 c t. clock_new (QpcTicks 10) (DurationTicks 0) = Inr c0 \<and>
     clock_run [Enter Manual (QpcTicks 11), Enter Focus (QpcTicks 12), Exit Manual (QpcTicks 13),
                Exit Focus (QpcTicks 15)] c0 = (Inr (), c) \<and>
     get_elapsed c (QpcTicks 16) = Inr t \<and> timeline_nat t = 2"
    using elapsed_counts_unpaused_ticks [of "[Enter Manual (QpcTicks 11), Enter Focus (QpcTicks 12),
      Exit Manual (QpcTicks 13), Exit Focus (QpcTicks 15)]" "QpcTicks 16" "QpcTicks 10"]
    by (fastforce simp: tick_order_defs)
  let ?evs = "[Enter Focus (QpcTicks 9), Exit Focus (QpcTicks 11)]"
  have "running_ticks ?evs 0 13 = 11" unfolding running_ticks_count by code_simp
  moreover have "paused_ticks ?evs 0 13 \<le> 13" using paused_ticks_le [of ?evs 0 13] by simp
  ultimately show "\<exists>c0 c t. clock_new (QpcTicks 10) (DurationTicks 0) = Inr c0 \<and> clock_run ?evs c0 = (Inr (), c) \<and>
     get_elapsed c (QpcTicks 13) = Inr t \<and> timeline_nat t = 1"
    using elapsed_counts_unpaused_ticks [of ?evs "QpcTicks 13" "QpcTicks 10"] by (fastforce simp: tick_order_defs)
qed

text \<open>C30: When the last reason is lifted at an instant before the pause began, the exit fails with a
  reversed order and the clock is left half way: it no longer counts as paused, but the interval stays
  open, so its elapsed time is frozen at the pause start for every later instant and a second exit of
  the reason is a no-op.\<close>

theorem exit_pause_reversed_freezes:
  assumes "clock_pause_reasons c = pause_reason_bit r" and "pause_interval_started c = Some started"
    and "now < started"
  shows "\<exists>c'. exit_pause r now c = (Inl NegativeOrder, c') \<and> \<not> clock_is_paused c' \<and>
    get_elapsed c' later = get_elapsed c started \<and> exit_pause r later c' = (Inr None, c')"
proof -
  have rem: "reasons_remove (clock_pause_reasons c) r = 0"
    by (simp add: assms(1) reasons_remove_def)
  have con: "reasons_contains (clock_pause_reasons c) r"
    unfolding assms(1) by (cases r) (simp_all add: reasons_contains_def)
  have since: "qpc_checked_duration_since now started = Inl NegativeOrder"
    using assms(3) by (simp add: qpc.since_err)
  let ?c = "c\<lparr>clock_pause_reasons := 0\<rparr>"
  have "exit_pause r now c = (Inl NegativeOrder, ?c)"
    using con rem since assms(2) by (simp add: exit_pause_def reasons_is_empty_def)
  moreover have "exit_pause r later ?c = (Inr None, ?c)"
    by (simp add: exit_pause_def reasons_contains_def)
  moreover have "\<not> clock_is_paused ?c" by (simp add: clock_is_paused_def reasons_is_empty_def)
  moreover have "get_elapsed ?c later = get_elapsed c started" using assms(2) by (simp add: get_elapsed_def)
  ultimately show ?thesis by blast
qed

theorem exit_pause_reversed_freezes_witness:
  "\<exists>c'. exit_pause Focus (QpcTicks 19)
       \<lparr>start_perf = QpcTicks 10, pause_time = DurationTicks 0, clock_pause_reasons = 2,
        pause_interval_started = Some (QpcTicks 20), pause_open_reason = Some Focus,
        clock_epoch = QpcTicks 10\<rparr> = (Inl NegativeOrder, c') \<and> \<not> clock_is_paused c'"
  using exit_pause_reversed_freezes [of
      "\<lparr>start_perf = QpcTicks 10, pause_time = DurationTicks 0, clock_pause_reasons = 2,
        pause_interval_started = Some (QpcTicks 20), pause_open_reason = Some Focus,
        clock_epoch = QpcTicks 10\<rparr>" Focus "QpcTicks 20" "QpcTicks 19"]
  by (auto simp: tick_order_defs)

end
