(* ===== verification/Sky_Model.thy ===== *)
theory Sky_Model
  imports Sky_Time
begin

text \<open>
  The domain types of \<open>sky_dispatch_core/src/model.rs\<close>: the key registry, the packed intents, the
  compiled schedule with its borrowed packet and batch views, and the stack-only scan-code buffer.
  The debug assertions of the sources are not part of the shipped profile and are not modelled;
  an index out of range and a failed \<open>expect\<close> are the value \<open>Panic\<close>.
\<close>

type_synonym generation_id = u64
type_synonym reason_id = u16
type_synonym packet_id = u32
type_synonym key_slot = u8

definition MAX_KEYS :: nat where
  "MAX_KEYS = 15"

definition NO_GENERATION_ID :: generation_id where
  "NO_GENERATION_ID = u64_max"

definition MAX_COMPACT_GENERATION_ID :: generation_id where
  "MAX_COMPACT_GENERATION_ID = drop_bit 4 u64_max - 1"

datatype action_kind = Down | Up

datatype physical_packet_kind = UpOnly | DownOnly | Mixed

datatype runtime_schedule_error =
    InvalidBatchIndex nat
  | InvalidPacketIndex nat
  | InvalidIntentRange nat
  | InvalidPacketIntentRange nat
  | InvalidKeySlot key_slot

section \<open>Key registry\<close>

record key_registry =
  registry_scan_codes :: "u16 list"

definition key_registry_new :: "u16 list \<Rightarrow> key_registry" where
  "key_registry_new scan_codes =
     \<lparr>registry_scan_codes =
        foldl (\<lambda>vec code. if code \<in> set vec then vec else vec @ [code]) [] scan_codes\<rparr>"

definition slot_for :: "key_registry \<Rightarrow> u16 \<Rightarrow> key_slot option" where
  "slot_for self scan_code =
     map_option (\<lambda>p. word_of_nat p) (position (\<lambda>c. c = scan_code) (registry_scan_codes self))"

definition scan_code_for :: "key_registry \<Rightarrow> key_slot \<Rightarrow> u16 option" where
  "scan_code_for self slot = nth_opt (registry_scan_codes self) (unat slot)"

definition registry_len :: "key_registry \<Rightarrow> nat" where
  "registry_len self = length (registry_scan_codes self)"

definition registry_is_empty :: "key_registry \<Rightarrow> bool" where
  "registry_is_empty self \<longleftrightarrow> registry_scan_codes self = []"

section \<open>Packed intents\<close>

datatype compact_intent = CompactIntent (compact_u64: u64)

definition compact_new :: "generation_id \<Rightarrow> key_slot \<Rightarrow> compact_intent" where
  "compact_new generation_id slot =
     (let generation_bits = (if generation_id = NO_GENERATION_ID then drop_bit 4 u64_max
                             else generation_id)
      in CompactIntent (push_bit 4 generation_bits OR ucast slot))"

definition compact_generation_id :: "compact_intent \<Rightarrow> generation_id" where
  "compact_generation_id self =
     (let generation = drop_bit 4 (compact_u64 self)
      in if generation = drop_bit 4 u64_max then NO_GENERATION_ID else generation)"

definition compact_key_slot :: "compact_intent \<Rightarrow> key_slot" where
  "compact_key_slot self = ucast (compact_u64 self AND 15)"

section \<open>The compiled schedule\<close>

record runtime_key_intent =
  rk_compiled_batch_index :: usize
  rk_source_action_index :: u32
  rk_generation_id :: "generation_id option"
  rk_kind :: action_kind
  rk_scan_code :: u16
  rk_key_slot :: key_slot
  rk_scheduled_us :: u64
  rk_reason_id :: reason_id
  rk_packet_id :: packet_id

record compiled_batch =
  cb_source_action_index :: u32
  cb_kind :: action_kind
  cb_scheduled_us :: u64
  cb_reason_id :: reason_id
  cb_intent_start :: u32
  cb_intent_len :: u8
  cb_packet_id :: packet_id

record compiled_packet =
  cp_packet_id :: packet_id
  cp_scheduled_us :: u64
  cp_first_batch_index :: u32
  cp_batch_count :: u16
  cp_up_mask :: u16
  cp_down_mask :: u16
  cp_up_intent_start :: u32
  cp_up_intent_len :: u8
  cp_down_intent_start :: u32
  cp_down_intent_len :: u8
  cp_down_source_action_index :: "u32 option"

record runtime_batch =
  rb_source_action_index :: u32
  rb_kind :: action_kind
  rb_scheduled_us :: u64
  rb_reason_id :: reason_id
  rb_intents :: "runtime_key_intent list"
  rb_packet_id :: packet_id

record runtime_schedule =
  rs_packets :: "compiled_packet list"
  rs_batches :: "compiled_batch list"
  rs_intents :: "compact_intent list"
  rs_generation_count :: u64
  rs_key_registry :: key_registry
  rs_reason_table :: "string list"

record packet_view =
  pv_packet_index :: usize
  pv_header :: compiled_packet
  pv_up_intents :: "compact_intent list"
  pv_down_intents :: "compact_intent list"
  pv_registry :: key_registry
  pv_effective_ticks :: timeline_ticks

record batch_view =
  bv_batch_index :: usize
  bv_header :: compiled_batch
  bv_intents :: "compact_intent list"
  bv_registry :: key_registry
  bv_scheduled_ticks :: timeline_ticks
  bv_scheduled_us :: u64

record key_action_input =
  ka_source_action_index :: u32
  ka_kind :: action_kind
  ka_scheduled_us :: u64
  ka_scan_codes :: "u16 list"
  ka_reason :: string

subsection \<open>Views\<close>

text \<open>The loops that check every packed intent against the registry stop at the first bad slot.\<close>

definition check_registered ::
  "key_registry \<Rightarrow> compact_intent list \<Rightarrow> runtime_schedule_error + unit" where
  "check_registered registry intents =
     rfold (\<lambda>compact _. if scan_code_for registry (compact_key_slot compact) = None
                        then Inl (InvalidKeySlot (compact_key_slot compact)) else Inr ())
       intents ()"

definition validate_registry :: "packet_view \<Rightarrow> runtime_schedule_error + unit" where
  "validate_registry self = check_registered (pv_registry self) (pv_up_intents self @ pv_down_intents self)"

definition view_packet_ticks_unvalidated_registry ::
  "runtime_schedule \<Rightarrow> usize \<Rightarrow> timeline_ticks \<Rightarrow> runtime_schedule_error + packet_view" where
  "view_packet_ticks_unvalidated_registry self index effective_ticks =
     rbind (ok_or (nth_opt (rs_packets self) index) (InvalidPacketIndex index)) (\<lambda>header.
     let up_start = unat (cp_up_intent_start header) in
     rbind (ok_or (checked_add_usize up_start (unat (cp_up_intent_len header)))
              (InvalidPacketIntentRange index)) (\<lambda>up_end.
     let down_start = unat (cp_down_intent_start header) in
     rbind (ok_or (checked_add_usize down_start (unat (cp_down_intent_len header)))
              (InvalidPacketIntentRange index)) (\<lambda>down_end.
     rbind (ok_or (slice_get (rs_intents self) up_start up_end) (InvalidPacketIntentRange index))
       (\<lambda>up_intents.
     rbind (ok_or (slice_get (rs_intents self) down_start down_end) (InvalidPacketIntentRange index))
       (\<lambda>down_intents.
     Inr \<lparr>pv_packet_index = index, pv_header = header, pv_up_intents = up_intents,
          pv_down_intents = down_intents, pv_registry = rs_key_registry self,
          pv_effective_ticks = effective_ticks\<rparr>)))))"

definition view_packet_ticks ::
  "runtime_schedule \<Rightarrow> usize \<Rightarrow> timeline_ticks \<Rightarrow> runtime_schedule_error + packet_view" where
  "view_packet_ticks self index effective_ticks =
     rbind (view_packet_ticks_unvalidated_registry self index effective_ticks) (\<lambda>view.
     rbind (validate_registry view) (\<lambda>_. Inr view))"

definition view_batch_ticks ::
  "runtime_schedule \<Rightarrow> usize \<Rightarrow> timeline_ticks \<Rightarrow> runtime_schedule_error + batch_view" where
  "view_batch_ticks self index scheduled_ticks =
     rbind (ok_or (nth_opt (rs_batches self) index) (InvalidBatchIndex index)) (\<lambda>header.
     let start = unat (cb_intent_start header) in
     rbind (ok_or (checked_add_usize start (unat (cb_intent_len header))) (InvalidIntentRange index))
       (\<lambda>stop.
     rbind (ok_or (slice_get (rs_intents self) start stop) (InvalidIntentRange index)) (\<lambda>intents.
     rbind (check_registered (rs_key_registry self) intents) (\<lambda>_.
     Inr \<lparr>bv_batch_index = index, bv_header = header, bv_intents = intents,
          bv_registry = rs_key_registry self, bv_scheduled_ticks = scheduled_ticks,
          bv_scheduled_us = cb_scheduled_us header\<rparr>))))"

text \<open>\<open>BatchView::materialize\<close>; its \<open>expect\<close> on the registry lookup is the panic.\<close>

definition materialize_intent :: "batch_view \<Rightarrow> compact_intent \<Rightarrow> 'e failure + runtime_key_intent" where
  "materialize_intent self compact =
     (case scan_code_for (bv_registry self) (compact_key_slot compact) of
        None \<Rightarrow> Inl Panic
      | Some scan_code \<Rightarrow>
          Inr \<lparr>rk_compiled_batch_index = bv_batch_index self,
               rk_source_action_index = cb_source_action_index (bv_header self),
               rk_generation_id = (if compact_generation_id compact \<noteq> NO_GENERATION_ID
                                   then Some (compact_generation_id compact) else None),
               rk_kind = cb_kind (bv_header self),
               rk_scan_code = scan_code,
               rk_key_slot = compact_key_slot compact,
               rk_scheduled_us = bv_scheduled_us self,
               rk_reason_id = cb_reason_id (bv_header self),
               rk_packet_id = cb_packet_id (bv_header self)\<rparr>)"

definition batch_materialize :: "batch_view \<Rightarrow> 'e failure + runtime_batch" where
  "batch_materialize self =
     rbind (rfold (\<lambda>compact acc. rbind (materialize_intent self compact) (\<lambda>i. Inr (acc @ [i])))
              (bv_intents self) []) (\<lambda>intents.
     Inr \<lparr>rb_source_action_index = cb_source_action_index (bv_header self),
          rb_kind = cb_kind (bv_header self), rb_scheduled_us = bv_scheduled_us self,
          rb_reason_id = cb_reason_id (bv_header self), rb_intents = intents,
          rb_packet_id = cb_packet_id (bv_header self)\<rparr>)"

definition try_materialize_batch_authored ::
  "runtime_schedule \<Rightarrow> usize \<Rightarrow> runtime_schedule_error failure + runtime_batch" where
  "try_materialize_batch_authored self index =
     rbind (map_err Err (view_batch_ticks self index (TimelineTicks 0))) batch_materialize"

text \<open>\<open>intent_slice\<close> indexes the arena directly.\<close>

definition intent_slice :: "runtime_schedule \<Rightarrow> compiled_batch \<Rightarrow> 'e failure + compact_intent list" where
  "intent_slice self batch =
     (let start = unat (cb_intent_start batch); stop = start + unat (cb_intent_len batch)
      in ok_or (slice_get (rs_intents self) start stop) Panic)"

subsection \<open>The scan-code buffer\<close>

record scan_code_batch =
  sb_values :: "u16 list"
  sb_len :: u8

definition scan_code_batch_new_empty :: scan_code_batch where
  "scan_code_batch_new_empty = \<lparr>sb_values = replicate MAX_KEYS 0, sb_len = 0\<rparr>"

definition scan_code_batch_push :: "u16 \<Rightarrow> scan_code_batch \<Rightarrow> 'e failure + scan_code_batch" where
  "scan_code_batch_push code self =
     (if unat (sb_len self) < length (sb_values self)
      then Inr (self\<lparr>sb_values := (sb_values self)[unat (sb_len self) := code],
                     sb_len := sb_len self + 1\<rparr>)
      else Inl Panic)"

definition scan_code_batch_as_slice :: "scan_code_batch \<Rightarrow> u16 list" where
  "scan_code_batch_as_slice self = take (unat (sb_len self)) (sb_values self)"

definition down_scan_code_batch :: "packet_view \<Rightarrow> 'e failure + scan_code_batch" where
  "down_scan_code_batch self =
     rfold (\<lambda>slot batch. case scan_code_for (pv_registry self) (word_of_nat slot) of
                          None \<Rightarrow> Inr batch
                        | Some scan_code \<Rightarrow> scan_code_batch_push scan_code batch)
       (slots_of_mask (cp_down_mask (pv_header self))) scan_code_batch_new_empty"

definition scan_code_batch_excluding_mask :: "batch_view \<Rightarrow> u16 \<Rightarrow> 'e failure + scan_code_batch" where
  "scan_code_batch_excluding_mask self conflict_mask =
     rfold (\<lambda>compact batch.
              let slot = compact_key_slot compact in
              if conflict_mask AND bit_for_slot slot \<noteq> 0 then Inr batch
              else (case scan_code_for (bv_registry self) slot of
                      None \<Rightarrow> Inr batch
                    | Some sc \<Rightarrow> scan_code_batch_push sc batch))
       (bv_intents self) scan_code_batch_new_empty"

definition scan_code_batch_all :: "batch_view \<Rightarrow> 'e failure + scan_code_batch" where
  "scan_code_batch_all self = scan_code_batch_excluding_mask self 0"

section \<open>Facts about the packed encoding\<close>

lemma bit_drop_u64_max: "bit (drop_bit 4 u64_max) n \<longleftrightarrow> n < 60"
  by (auto simp: u64_max_def bit_drop_bit_eq bit_mask_iff)

lemma compact_bits:
  "bit (compact_u64 (compact_new g s)) n \<longleftrightarrow>
     n < 64 \<and> (if n < 4 then bit s n
               else (if g = NO_GENERATION_ID then True else bit g (n - 4)) \<or> bit s n)"
  by (auto simp: compact_new_def Let_def bit_or_iff bit_push_bit_iff bit_unsigned_iff bit_drop_u64_max)

definition compactable :: "generation_id \<Rightarrow> bool" where
  "compactable g \<longleftrightarrow> g = NO_GENERATION_ID \<or> g \<le> MAX_COMPACT_GENERATION_ID"

lemma MAX_COMPACT_GENERATION_ID_val: "unat MAX_COMPACT_GENERATION_ID = 2 ^ 60 - 2"
  by (simp add: MAX_COMPACT_GENERATION_ID_def u64_max_def mask_eq_exp_minus_1)

lemma drop_u64_max_val: "unat (drop_bit 4 u64_max) = 2 ^ 60 - 1"
  by (simp add: u64_max_def mask_eq_exp_minus_1)

lemma NO_GENERATION_ID_val: "unat NO_GENERATION_ID = 2 ^ 64 - 1"
  by (simp add: NO_GENERATION_ID_def u64_max_def unsigned_minus_1_eq_mask mask_eq_exp_minus_1)

lemma small_slot_bits: "unat (s :: u8) < 16 \<Longrightarrow> bit s n \<Longrightarrow> n < 4"
proof -
  assume s: "unat s < 16" and b: "bit s n"
  have "take_bit 4 s = s"
    using s take_bit_nat_eq_self [of "unat s" 4] by (simp add: word_unat_eq_iff unsigned_take_bit_eq)
  then have "bit (take_bit 4 s) n" using b by simp
  then show "n < 4" by (simp add: bit_take_bit_iff)
qed

lemma compact_key_slot_bits: "bit (compact_key_slot c) n \<longleftrightarrow> n < 4 \<and> bit (compact_u64 c) n"
proof -
  have m: "(15 :: u64) = mask 4" by (simp add: mask_eq_exp_minus_1)
  show ?thesis
    unfolding compact_key_slot_def m by (auto simp: bit_unsigned_iff bit_and_iff bit_mask_iff)
qed

lemma compact_key_slot_less: "unat (compact_key_slot c) < 16"
proof -
  have "take_bit 4 (compact_key_slot c) = compact_key_slot c"
    by (rule bit_word_eqI) (auto simp: bit_take_bit_iff compact_key_slot_bits)
  then have "unat (compact_key_slot c) = take_bit 4 (unat (compact_key_slot c))"
    by (metis unsigned_take_bit_eq)
  then show ?thesis using take_bit_nat_less_exp [of 4 "unat (compact_key_slot c)"] by simp
qed

lemma compact_key_slot_new:
  assumes "unat s < 16"
  shows "compact_key_slot (compact_new g s) = s"
  by (rule bit_word_eqI)
    (auto simp: compact_key_slot_bits compact_bits dest: small_slot_bits [OF assms] split: if_splits)

lemma drop_compact_new:
  assumes "unat s < 16"
  shows "drop_bit 4 (compact_u64 (compact_new g s)) =
    (if g = NO_GENERATION_ID then drop_bit 4 u64_max else take_bit 60 g)"
proof (rule bit_word_eqI)
  fix n assume "n < LENGTH(64)"
  then show "bit (drop_bit 4 (compact_u64 (compact_new g s))) n \<longleftrightarrow>
      bit (if g = NO_GENERATION_ID then drop_bit 4 u64_max else take_bit 60 g) n"
    using small_slot_bits [OF assms, of "4 + n"]
    by (auto simp: bit_drop_bit_eq compact_bits bit_take_bit_iff u64_max_def bit_mask_iff)
qed

lemma take_bit_60_small: "unat g < 2 ^ 60 \<Longrightarrow> take_bit 60 g = (g :: u64)"
  using take_bit_nat_eq_self [of "unat g" 60] by (simp add: word_unat_eq_iff unsigned_take_bit_eq)

lemma compact_generation_id_new:
  assumes "unat s < 16" and "compactable g"
  shows "compact_generation_id (compact_new g s) = g"
proof (cases "g = NO_GENERATION_ID")
  case True
  then show ?thesis using assms(1) by (simp add: compact_generation_id_def drop_compact_new)
next
  case False
  then have le: "unat g \<le> 2 ^ 60 - 2"
    using assms(2) MAX_COMPACT_GENERATION_ID_val by (simp add: compactable_def word_le_nat_alt)
  then have "take_bit 60 g = g" by (intro take_bit_60_small) simp
  moreover have "g \<noteq> drop_bit 4 u64_max" using le drop_u64_max_val by auto
  ultimately show ?thesis
    using False assms(1) by (simp add: compact_generation_id_def drop_compact_new)
qed

lemmas compact_new_simps [simp] = compact_key_slot_new compact_generation_id_new

lemma compactable_generation_id: "compactable (compact_generation_id c)"
proof -
  let ?g = "drop_bit 4 (compact_u64 c)"
  have "take_bit 60 ?g = ?g"
    by (rule bit_word_eqI) (auto simp: bit_take_bit_iff bit_drop_bit_eq dest: bit_imp_le_length)
  then have "unat ?g = take_bit 60 (unat ?g)" by (metis unsigned_take_bit_eq)
  then have lt: "unat ?g < 2 ^ 60" by (metis take_bit_nat_less_exp)
  have "?g \<le> MAX_COMPACT_GENERATION_ID" if "?g \<noteq> drop_bit 4 u64_max"
  proof -
    from that have "unat ?g \<noteq> 2 ^ 60 - 1" using drop_u64_max_val by (metis word_unat_eq_iff)
    then show ?thesis using lt MAX_COMPACT_GENERATION_ID_val by (simp add: word_le_nat_alt)
  qed
  then show ?thesis by (auto simp: compact_generation_id_def compactable_def Let_def)
qed

lemma compactable_NO_GENERATION_ID [simp]: "compactable NO_GENERATION_ID"
  by (simp add: compactable_def)

section \<open>Facts about the registry\<close>

lemma registry_new_fold:
  "distinct acc \<Longrightarrow>
   distinct (foldl (\<lambda>vec code. if code \<in> set vec then vec else vec @ [code]) acc codes) \<and>
   set (foldl (\<lambda>vec code. if code \<in> set vec then vec else vec @ [code]) acc codes)
     = set acc \<union> set codes"
proof (induction codes arbitrary: acc)
  case (Cons c codes)
  then show ?case by (cases "c \<in> set acc") (auto simp: insert_absorb)
qed simp

lemma key_registry_new_distinct: "distinct (registry_scan_codes (key_registry_new codes))"
  using registry_new_fold [of "[]" codes] by (simp add: key_registry_new_def)

lemma key_registry_new_set: "set (registry_scan_codes (key_registry_new codes)) = set codes"
  using registry_new_fold [of "[]" codes] by (simp add: key_registry_new_def)

lemma registry_fold_distinct_id:
  "distinct (acc @ codes) \<Longrightarrow>
   foldl (\<lambda>vec code. if code \<in> set vec then vec else vec @ [code]) acc codes = acc @ codes"
  by (induction codes arbitrary: acc) auto

lemma key_registry_new_id: "distinct codes \<Longrightarrow> registry_scan_codes (key_registry_new codes) = codes"
  using registry_fold_distinct_id [of "[]" codes] by (simp add: key_registry_new_def)

text \<open>A registry as the compiler builds it: distinct codes, at most fifteen of them.\<close>

definition registry_wf :: "key_registry \<Rightarrow> bool" where
  "registry_wf reg \<longleftrightarrow> distinct (registry_scan_codes reg) \<and> registry_len reg \<le> MAX_KEYS"

lemma slot_for_eq_Some:
  assumes "registry_wf reg"
  shows "slot_for reg code = Some slot \<longleftrightarrow> scan_code_for reg slot = Some code"
proof
  assume "slot_for reg code = Some slot"
  then obtain p where p: "position (\<lambda>c. c = code) (registry_scan_codes reg) = Some p"
      "slot = word_of_nat p"
    by (auto simp: slot_for_def)
  then have "p < length (registry_scan_codes reg)" "registry_scan_codes reg ! p = code"
    by (auto simp: position_eq_Some)
  moreover have "unat slot = p"
    using p calculation(1) assms
    by (simp add: registry_wf_def registry_len_def MAX_KEYS_def unat_word_of_nat_small)
  ultimately show "scan_code_for reg slot = Some code" by (simp add: scan_code_for_def)
next
  assume "scan_code_for reg slot = Some code"
  then have "unat slot < length (registry_scan_codes reg)" "code = registry_scan_codes reg ! unat slot"
    by (auto simp: scan_code_for_def result_simps)
  then show "slot_for reg code = Some slot"
    using assms position_distinct [of "registry_scan_codes reg" "unat slot"]
    by (simp add: slot_for_def registry_wf_def)
qed

lemma slot_for_eq_None: "slot_for reg code = None \<longleftrightarrow> code \<notin> set (registry_scan_codes reg)"
  by (auto simp: slot_for_def position_eq_None)

lemma slot_for_less:
  "registry_wf reg \<Longrightarrow> slot_for reg code = Some slot \<Longrightarrow> unat slot < MAX_KEYS"
  by (auto simp: slot_for_eq_Some scan_code_for_def result_simps registry_wf_def registry_len_def)

lemma slot_for_inject:
  "registry_wf reg \<Longrightarrow> slot_for reg a = Some s \<Longrightarrow> slot_for reg b = Some s \<Longrightarrow> a = b"
  by (simp add: slot_for_eq_Some)

section \<open>Facts about views and buffers\<close>

lemma check_registered_ok:
  "check_registered reg cs = Inr () \<longleftrightarrow> (\<forall>c \<in> set cs. scan_code_for reg (compact_key_slot c) \<noteq> None)"
  by (induction cs) (auto simp: check_registered_def)

lemma checked_add_usize_u32_u8 [simp]:
  "checked_add_usize (unat (a :: u32)) (unat (b :: u8)) = Some (unat a + unat b)"
proof -
  have "unat a < 2 ^ 32" "unat b < 2 ^ 8" using unsigned_less [of a] unsigned_less [of b] by simp_all
  then show ?thesis by (simp add: checked_add_usize_def usize_limit_def)
qed

lemma rfold_materialize_ok:
  assumes "\<forall>c \<in> set cs. scan_code_for (bv_registry v) (compact_key_slot c) \<noteq> None"
  shows "\<exists>is. rfold (\<lambda>compact acc. rbind (materialize_intent v compact) (\<lambda>i. Inr (acc @ [i]))) cs acc
    = (Inr is :: 'e failure + runtime_key_intent list)"
  using assms
proof (induction cs arbitrary: acc)
  case (Cons c cs)
  then obtain i where "materialize_intent v c = (Inr i :: 'e failure + runtime_key_intent)"
    by (auto simp: materialize_intent_def)
  with Cons show ?case by simp
qed simp

text \<open>The buffer holds the pushed codes in order, and fails only beyond its fifteen places.\<close>

definition buffer_holds :: "scan_code_batch \<Rightarrow> u16 list \<Rightarrow> bool" where
  "buffer_holds b xs \<longleftrightarrow> length (sb_values b) = MAX_KEYS \<and> unat (sb_len b) = length xs
     \<and> take (length xs) (sb_values b) = xs"

lemma buffer_holds_empty: "buffer_holds scan_code_batch_new_empty []"
  by (simp add: buffer_holds_def scan_code_batch_new_empty_def)

lemma buffer_holds_slice: "buffer_holds b xs \<Longrightarrow> scan_code_batch_as_slice b = xs"
  by (simp add: buffer_holds_def scan_code_batch_as_slice_def)

lemma buffer_push:
  assumes "buffer_holds b xs" and "length xs < MAX_KEYS"
  obtains b' where "scan_code_batch_push code b = (Inr b' :: 'e failure + scan_code_batch)" and "buffer_holds b' (xs @ [code])"
proof -
  have "unat (sb_len b + 1) = Suc (length xs)"
    using assms by (subst unat_add_no_wrap) (simp_all add: buffer_holds_def MAX_KEYS_def)
  moreover have "take (Suc (length xs)) ((sb_values b)[length xs := code]) = xs @ [code]"
    using assms by (simp add: buffer_holds_def take_Suc_conv_app_nth)
  ultimately show ?thesis
    using assms by (intro that) (auto simp: scan_code_batch_push_def buffer_holds_def)
qed

lemma buffer_fold:
  assumes "buffer_holds b xs" and "length xs + length (List.map_filter f ys) \<le> MAX_KEYS"
  shows "\<exists>b'. rfold (\<lambda>y batch. case f y of None \<Rightarrow> Inr batch | Some c \<Rightarrow> scan_code_batch_push c batch)
      ys b = (Inr b' :: 'e failure + scan_code_batch) \<and> buffer_holds b' (xs @ List.map_filter f ys)"
  using assms
proof (induction ys arbitrary: b xs)
  case (Cons y ys)
  show ?case
  proof (cases "f y")
    case None
    with Cons show ?thesis by (simp add: map_filter_simps)
  next
    case (Some c)
    with Cons.prems have "length xs < MAX_KEYS" by (simp add: map_filter_simps)
    then obtain b' where b': "scan_code_batch_push c b = (Inr b' :: 'e failure + scan_code_batch)"
        "buffer_holds b' (xs @ [c])"
      using buffer_push [OF Cons.prems(1)] by blast
    from Cons.IH [OF b'(2)] Cons.prems(2) Some b'(1) show ?thesis
      by (auto simp: map_filter_simps)
  qed
qed (simp add: map_filter_simps)

section \<open>Properties\<close>

text \<open>C31: Packing a generation identifier and a key slot into 64 bits loses neither, for every
  identifier the compiler may allocate and for the sentinel of an unmatched release.\<close>

theorem compact_intent_round_trip:
  assumes "slot < 16" and "g = NO_GENERATION_ID \<or> g \<le> MAX_COMPACT_GENERATION_ID"
  shows "compact_generation_id (compact_new g slot) = g \<and> compact_key_slot (compact_new g slot) = slot"
proof -
  have "unat slot < 16" using assms(1) by (simp add: word_less_nat_alt)
  then show ?thesis using assms(2) by (simp add: compactable_def)
qed

theorem compact_intent_round_trip_witness:
  "compact_generation_id (compact_new MAX_COMPACT_GENERATION_ID 14) = MAX_COMPACT_GENERATION_ID"
  using compact_intent_round_trip [of 14 MAX_COMPACT_GENERATION_ID] by simp

text \<open>C32: In a registry built from at most fifteen codes, looking up the slot of a code and the code
  of a slot are inverse partial functions, duplicates in the input included.\<close>

theorem registry_lookup_inverse:
  assumes "length codes \<le> MAX_KEYS"
  shows "slot_for (key_registry_new codes) code = Some slot \<longleftrightarrow>
    scan_code_for (key_registry_new codes) slot = Some code"
proof (rule slot_for_eq_Some)
  have "card (set (registry_scan_codes (key_registry_new codes))) \<le> length codes"
    by (simp add: key_registry_new_set card_length)
  then show "registry_wf (key_registry_new codes)"
    using assms by (simp add: registry_wf_def registry_len_def key_registry_new_distinct distinct_card)
qed

theorem registry_lookup_inverse_witness:
  "scan_code_for (key_registry_new [30, 31, 30]) 1 = Some 31"
proof -
  have "slot_for (key_registry_new [30, 31, 30]) 31 = Some 1" by code_simp
  then show ?thesis
    by (rule registry_lookup_inverse [THEN iffD1, rotated]) (simp add: MAX_KEYS_def)
qed

text \<open>C34: Materialising a batch for inspection never panics: the \<open>expect\<close> on the registry lookup is
  only reached after the view has checked every slot.\<close>

theorem materialize_never_panics: "try_materialize_batch_authored rs index \<noteq> Inl Panic"
proof (cases "view_batch_ticks rs index (TimelineTicks 0)")
  case (Inl e)
  then show ?thesis by (simp add: try_materialize_batch_authored_def)
next
  case (Inr v)
  then have "check_registered (bv_registry v) (bv_intents v) = Inr ()"
    by (auto simp: view_batch_ticks_def Let_def result_simps)
  then have "\<forall>c \<in> set (bv_intents v). scan_code_for (bv_registry v) (compact_key_slot c) \<noteq> None"
    by (simp add: check_registered_ok)
  then obtain xs where "rfold (\<lambda>compact acc. rbind (materialize_intent v compact) (\<lambda>i. Inr (acc @ [i])))
      (bv_intents v) [] = (Inr xs :: runtime_schedule_error failure + runtime_key_intent list)"
    using rfold_materialize_ok [of "bv_intents v" v "[]"] by blast
  then show ?thesis
    using Inr by (simp add: try_materialize_batch_authored_def batch_materialize_def)
qed

text \<open>C33: Collecting the scan codes of a packet's Down mask into the fixed fifteen-place buffer never
  overruns it, and yields the registered codes in ascending slot order.\<close>

theorem down_scan_codes_in_slot_order:
  assumes "registry_wf (pv_registry v)"
  shows "\<exists>b. down_scan_code_batch v = (Inr b :: 'e failure + scan_code_batch) \<and>
    scan_code_batch_as_slice b =
      List.map_filter (\<lambda>slot. scan_code_for (pv_registry v) (word_of_nat slot))
        (slots_of_mask (cp_down_mask (pv_header v)))"
proof -
  let ?f = "\<lambda>slot. scan_code_for (pv_registry v) (word_of_nat slot :: u8)"
  let ?ss = "slots_of_mask (cp_down_mask (pv_header v))"
  have "distinct ?ss" using sorted_slots_of_mask by (metis strict_sorted_iff)
  moreover have "set (filter (\<lambda>s. ?f s \<noteq> None) ?ss) \<subseteq> {..<registry_len (pv_registry v)}"
  proof
    fix s assume "s \<in> set (filter (\<lambda>s. ?f s \<noteq> None) ?ss)"
    then have "?f s \<noteq> None" "s < 16" by (auto simp: set_slots_of_mask dest: bit_u16_bound)
    then show "s \<in> {..<registry_len (pv_registry v)}"
      by (simp add: scan_code_for_def registry_len_def result_simps unat_word_of_nat_small)
  qed
  ultimately have "length (filter (\<lambda>s. ?f s \<noteq> None) ?ss) \<le> registry_len (pv_registry v)"
    by (metis card_lessThan card_mono distinct_card distinct_filter finite_lessThan)
  moreover have "length (List.map_filter ?f ?ss) = length (filter (\<lambda>s. ?f s \<noteq> None) ?ss)"
    by (simp add: List.map_filter_def comp_def)
  ultimately have "length ([] :: u16 list) + length (List.map_filter ?f ?ss) \<le> MAX_KEYS"
    using assms by (simp add: registry_wf_def)
  from buffer_fold [OF buffer_holds_empty this] show ?thesis
    by (auto simp: down_scan_code_batch_def buffer_holds_slice)
qed

theorem down_scan_codes_in_slot_order_witness:
  "\<exists>b. down_scan_code_batch
      \<lparr>pv_packet_index = 0, pv_header = \<lparr>cp_packet_id = 0, cp_scheduled_us = 0, cp_first_batch_index = 0,
         cp_batch_count = 1, cp_up_mask = 0, cp_down_mask = 5, cp_up_intent_start = 0, cp_up_intent_len = 0,
         cp_down_intent_start = 0, cp_down_intent_len = 2, cp_down_source_action_index = Some 0\<rparr>,
       pv_up_intents = [], pv_down_intents = [compact_new 0 0, compact_new 1 2],
       pv_registry = \<lparr>registry_scan_codes = [30, 31, 32]\<rparr>, pv_effective_ticks = TimelineTicks 0\<rparr>
      = (Inr b :: unit failure + scan_code_batch) \<and> scan_code_batch_as_slice b =
        List.map_filter (\<lambda>slot. scan_code_for \<lparr>registry_scan_codes = [30, 31, 32]\<rparr> (word_of_nat slot))
          (slots_of_mask 5)"
proof -
  let ?v = "\<lparr>pv_packet_index = 0, pv_header = \<lparr>cp_packet_id = 0, cp_scheduled_us = 0, cp_first_batch_index = 0,
         cp_batch_count = 1, cp_up_mask = 0, cp_down_mask = 5, cp_up_intent_start = 0, cp_up_intent_len = 0,
         cp_down_intent_start = 0, cp_down_intent_len = 2, cp_down_source_action_index = Some 0\<rparr>,
       pv_up_intents = [], pv_down_intents = [compact_new 0 0, compact_new 1 2],
       pv_registry = \<lparr>registry_scan_codes = [30, 31, 32]\<rparr>, pv_effective_ticks = TimelineTicks 0\<rparr>"
  have "registry_wf (pv_registry ?v)" by (simp add: registry_wf_def registry_len_def MAX_KEYS_def)
  from down_scan_codes_in_slot_order [OF this] show ?thesis by simp
qed

end
