(* ===== verification/Sky_Schedule.thy ===== *)
theory Sky_Schedule
  imports Sky_Model
begin

text \<open>
  What a compiled schedule promises to its readers (the admission validator and the coordinator):
  the packets tile the intent arena and the batch list, their masks and ranges agree, and the
  intents, replayed packet by packet against an abstract table of open generations, open every
  generation once and close it once. \<open>arena_wf\<close> is the contract, \<open>arena_wf_snoc\<close> extends it by one
  packet.
\<close>

definition intent_slot :: "compact_intent \<Rightarrow> nat" where
  "intent_slot c = unat (compact_key_slot c)"

definition intent_gen :: "compact_intent \<Rightarrow> generation_id option" where
  "intent_gen c = (if compact_generation_id c = NO_GENERATION_ID then None
                   else Some (compact_generation_id c))"

definition packet_ups :: "compact_intent list \<Rightarrow> compiled_packet \<Rightarrow> compact_intent list" where
  "packet_ups xs p = slice xs (unat (cp_up_intent_start p)) (unat (cp_up_intent_len p))"

definition packet_downs :: "compact_intent list \<Rightarrow> compiled_packet \<Rightarrow> compact_intent list" where
  "packet_downs xs p = slice xs (unat (cp_down_intent_start p)) (unat (cp_down_intent_len p))"

definition packet_batches :: "compiled_batch list \<Rightarrow> compiled_packet \<Rightarrow> compiled_batch list" where
  "packet_batches bs p = slice bs (unat (cp_first_batch_index p)) (unat (cp_batch_count p))"

definition batch_intents :: "compact_intent list \<Rightarrow> compiled_batch \<Rightarrow> compact_intent list" where
  "batch_intents xs b = slice xs (unat (cb_intent_start b)) (unat (cb_intent_len b))"

definition batch_in_range :: "compact_intent list \<Rightarrow> compiled_batch \<Rightarrow> bool" where
  "batch_in_range xs b \<longleftrightarrow> unat (cb_intent_start b) + unat (cb_intent_len b) \<le> length xs"

section \<open>Replaying packets on a table of open generations\<close>

type_synonym open_table = "nat \<Rightarrow> generation_id option"

type_synonym packet_intents = "compact_intent list \<times> compact_intent list"

definition step_ok :: "open_table \<Rightarrow> packet_intents \<Rightarrow> bool" where
  "step_ok op p \<longleftrightarrow>
     distinct (map intent_slot (fst p)) \<and> (\<forall>c \<in> set (fst p). intent_gen c = op (intent_slot c)) \<and>
     distinct (map intent_slot (snd p)) \<and>
     (\<forall>c \<in> set (snd p). op (intent_slot c) = None \<and> intent_gen c \<noteq> None)"

definition step_open :: "open_table \<Rightarrow> packet_intents \<Rightarrow> open_table" where
  "step_open op p s =
     (case map_of (map (\<lambda>c. (intent_slot c, intent_gen c)) (snd p)) s of
        Some g \<Rightarrow> g
      | None \<Rightarrow> if s \<in> set (map intent_slot (fst p)) then None else op s)"

fun replay :: "packet_intents list \<Rightarrow> open_table \<Rightarrow> open_table option" where
  "replay [] op = Some op"
| "replay (p # ps) op = (if step_ok op p then replay ps (step_open op p) else None)"

lemma replay_append:
  "replay (ps @ qs) op = (case replay ps op of None \<Rightarrow> None | Some op' \<Rightarrow> replay qs op')"
  by (induction ps arbitrary: op) auto

lemma replay_snoc_Some:
  "replay (ps @ [p]) op = Some op'' \<longleftrightarrow>
     (\<exists>op'. replay ps op = Some op' \<and> step_ok op' p \<and> op'' = step_open op' p)"
  by (auto simp: replay_append split: option.splits)

lemma map_of_slots:
  assumes "distinct (map intent_slot cs)"
  shows "map_of (map (\<lambda>c. (intent_slot c, intent_gen c)) cs) s = Some g \<longleftrightarrow>
    (\<exists>c \<in> set cs. intent_slot c = s \<and> intent_gen c = g)"
proof -
  have "distinct (map fst (map (\<lambda>c. (intent_slot c, intent_gen c)) cs))"
    using assms by (simp add: comp_def)
  then show ?thesis by (auto simp: map_of_eq_Some_iff simp del: map_map)
qed

lemma step_open_eq_Some:
  assumes "step_ok op p"
  shows "step_open op p s = Some g \<longleftrightarrow>
    (\<exists>c \<in> set (snd p). intent_slot c = s \<and> intent_gen c = Some g) \<or>
    op s = Some g \<and> s \<notin> set (map intent_slot (fst p))"
proof (cases "map_of (map (\<lambda>c. (intent_slot c, intent_gen c)) (snd p)) s")
  case None
  then have "intent_slot c \<noteq> s" if "c \<in> set (snd p)" for c
    using that by (auto simp: map_of_eq_None_iff image_image)
  then show ?thesis using None by (auto simp: step_open_def)
next
  case (Some h)
  then obtain c where c: "c \<in> set (snd p)" "intent_slot c = s" "intent_gen c = h"
    using assms map_of_slots [of "snd p" s h] by (auto simp: step_ok_def)
  have uniq: "intent_gen d = h" if "d \<in> set (snd p)" "intent_slot d = s" for d
  proof -
    have "d = c" using that c assms by (auto simp: step_ok_def distinct_map dest: inj_onD)
    with c show ?thesis by simp
  qed
  have "(\<exists>d \<in> set (snd p). intent_slot d = s \<and> intent_gen d = Some g) \<longleftrightarrow> h = Some g"
    using c uniq by metis
  moreover have "op s = None" using c assms by (auto simp: step_ok_def)
  moreover have "step_open op p s = h" using Some by (simp add: step_open_def)
  ultimately show ?thesis by simp
qed

section \<open>The contract\<close>

definition packet_ok ::
  "key_registry \<Rightarrow> compact_intent list \<Rightarrow> compiled_batch list \<Rightarrow> compiled_packet \<Rightarrow> bool" where
  "packet_ok reg xs bs p \<longleftrightarrow>
     unat (cp_up_intent_start p) + unat (cp_up_intent_len p) = unat (cp_down_intent_start p) \<and>
     unat (cp_down_intent_start p) + unat (cp_down_intent_len p) \<le> length xs \<and>
     unat (cp_first_batch_index p) + unat (cp_batch_count p) \<le> length bs \<and>
     packet_batches bs p \<noteq> [] \<and>
     (\<forall>c \<in> set (packet_ups xs p) \<union> set (packet_downs xs p). intent_slot c < registry_len reg) \<and>
     (\<forall>n. bit (cp_up_mask p) n \<longleftrightarrow>
        (\<exists>c \<in> set (packet_ups xs p). intent_slot c = n \<and> intent_gen c \<noteq> None)) \<and>
     (\<forall>n. bit (cp_down_mask p) n \<longleftrightarrow> n \<in> intent_slot ` set (packet_downs xs p)) \<and>
     sorted_wrt (<) (map intent_slot (packet_downs xs p)) \<and>
     (\<forall>b \<in> set (packet_batches bs p). cb_scheduled_us b = cp_scheduled_us p \<and>
        cb_packet_id b = cp_packet_id p \<and> batch_in_range xs b) \<and>
     concat (map (batch_intents xs) (filter (\<lambda>b. cb_kind b = Up) (packet_batches bs p)))
       = packet_ups xs p \<and>
     concat (map (batch_intents xs) (filter (\<lambda>b. cb_kind b = Down) (packet_batches bs p)))
       = packet_downs xs p"

definition packet_trace :: "compact_intent list \<Rightarrow> compiled_packet list \<Rightarrow> packet_intents list" where
  "packet_trace xs ps = map (\<lambda>p. (packet_ups xs p, packet_downs xs p)) ps"

text \<open>Each packet starts where the ones before it end, in the intent arena and in the batch list.\<close>

definition tiled :: "compiled_packet list \<Rightarrow> bool" where
  "tiled ps \<longleftrightarrow> (\<forall>i < length ps.
     unat (cp_up_intent_start (ps ! i))
       = sum_list (map (\<lambda>p. unat (cp_up_intent_len p) + unat (cp_down_intent_len p)) (take i ps)) \<and>
     unat (cp_first_batch_index (ps ! i)) = sum_list (map (\<lambda>p. unat (cp_batch_count p)) (take i ps)))"

definition arena_wf ::
  "key_registry \<Rightarrow> compact_intent list \<Rightarrow> compiled_batch list \<Rightarrow> compiled_packet list
     \<Rightarrow> nat \<Rightarrow> open_table \<Rightarrow> bool" where
  "arena_wf reg xs bs ps count op \<longleftrightarrow>
     registry_wf reg \<and>
     (\<forall>p \<in> set ps. packet_ok reg xs bs p) \<and>
     (\<forall>i < length ps. unat (cp_packet_id (ps ! i)) = i) \<and>
     sorted_wrt (<) (map cp_scheduled_us ps) \<and>
     concat (map (\<lambda>p. packet_ups xs p @ packet_downs xs p) ps) = xs \<and>
     concat (map (packet_batches bs) ps) = bs \<and>
     concat (map (\<lambda>p. map (unat \<circ> compact_generation_id) (packet_downs xs p)) ps) = [0..<count] \<and>
     count < 2 ^ 60 \<and> tiled ps \<and>
     replay (packet_trace xs ps) (\<lambda>_. None) = Some op"

definition schedule_wf :: "runtime_schedule \<Rightarrow> bool" where
  "schedule_wf rs \<longleftrightarrow>
     arena_wf (rs_key_registry rs) (rs_intents rs) (rs_batches rs) (rs_packets rs)
       (unat (rs_generation_count rs)) (\<lambda>_. None)"

lemma packet_ranges_append:
  assumes "packet_ok reg xs bs p"
  shows "packet_ups (xs @ ys) p = packet_ups xs p"
    and "packet_downs (xs @ ys) p = packet_downs xs p"
    and "packet_batches (bs @ cs) p = packet_batches bs p"
  using assms
  by (auto simp: packet_ok_def packet_ups_def packet_downs_def packet_batches_def intro!: slice_append)

lemma batch_intents_append: "batch_in_range xs b \<Longrightarrow> batch_intents (xs @ ys) b = batch_intents xs b"
  by (simp add: batch_in_range_def batch_intents_def slice_append)

lemma batch_in_range_append: "batch_in_range xs b \<Longrightarrow> batch_in_range (xs @ ys) b"
  by (simp add: batch_in_range_def)

lemma concat_batches_append:
  "\<forall>b \<in> set bs. batch_in_range xs b \<Longrightarrow>
   concat (map (batch_intents (xs @ ys)) (filter P bs)) = concat (map (batch_intents xs) (filter P bs))"
  by (induction bs) (auto simp: batch_intents_append)

lemma packet_ok_append:
  assumes "packet_ok reg xs bs p"
  shows "packet_ok reg (xs @ ys) (bs @ cs) p"
proof -
  note eqs = packet_ranges_append [OF assms]
  have "\<forall>b \<in> set (packet_batches bs p). batch_in_range xs b"
    using assms by (simp add: packet_ok_def)
  then show ?thesis
    using assms unfolding packet_ok_def eqs
    by (simp add: concat_batches_append batch_in_range_append)
qed

lemma concat_packets_append:
  assumes "\<forall>p \<in> set ps. packet_ok reg xs bs p"
  shows "concat (map (\<lambda>p. packet_ups (xs @ ys) p @ packet_downs (xs @ ys) p) ps)
      = concat (map (\<lambda>p. packet_ups xs p @ packet_downs xs p) ps)"
    and "concat (map (packet_batches (bs @ cs)) ps) = concat (map (packet_batches bs) ps)"
    and "concat (map (\<lambda>p. map f (packet_downs (xs @ ys) p)) ps)
      = concat (map (\<lambda>p. map f (packet_downs xs p)) ps)"
    and "packet_trace (xs @ ys) ps = packet_trace xs ps"
  using assms by (induction ps) (auto simp: packet_ranges_append packet_trace_def)

lemma sorted_wrt_snoc_last:
  "sorted_wrt (<) (map f ps) \<Longrightarrow> (ps \<noteq> [] \<Longrightarrow> f (last ps) < (b :: 'b::linorder)) \<Longrightarrow>
   sorted_wrt (<) (map f ps @ [b])"
proof (cases ps rule: rev_cases)
  case (snoc qs q)
  assume "sorted_wrt (<) (map f ps)" "ps \<noteq> [] \<Longrightarrow> f (last ps) < b"
  with snoc show ?thesis by (auto simp: sorted_wrt_append)
qed simp

lemma packet_lengths:
  assumes "packet_ok reg xs bs p"
  shows "length (packet_ups xs p) = unat (cp_up_intent_len p)" "length (packet_downs xs p) = unat (cp_down_intent_len p)"
    and "length (packet_batches bs p) = unat (cp_batch_count p)"
  using assms by (simp_all add: packet_ok_def packet_ups_def packet_downs_def packet_batches_def length_slice)

lemma arena_lengths:
  assumes "arena_wf reg xs bs ps count op"
  shows "sum_list (map (\<lambda>p. unat (cp_up_intent_len p) + unat (cp_down_intent_len p)) ps) = length xs"
    and "sum_list (map (\<lambda>p. unat (cp_batch_count p)) ps) = length bs"
proof -
  have ok: "packet_ok reg xs bs p" if "p \<in> set ps" for p using assms that by (simp add: arena_wf_def)
  have "length (concat (map (\<lambda>p. packet_ups xs p @ packet_downs xs p) ps))
      = sum_list (map (\<lambda>p. unat (cp_up_intent_len p) + unat (cp_down_intent_len p)) ps)"
    using packet_lengths [OF ok] by (simp add: length_concat comp_def cong: map_cong)
  then show "sum_list (map (\<lambda>p. unat (cp_up_intent_len p) + unat (cp_down_intent_len p)) ps) = length xs"
    using assms by (simp add: arena_wf_def)
  have "length (concat (map (packet_batches bs) ps)) = sum_list (map (\<lambda>p. unat (cp_batch_count p)) ps)"
    using packet_lengths(3) [OF ok] by (simp add: length_concat comp_def cong: map_cong)
  then show "sum_list (map (\<lambda>p. unat (cp_batch_count p)) ps) = length bs" using assms by (simp add: arena_wf_def)
qed

text \<open>Extending a well-formed arena by one packet.\<close>

lemma arena_wf_snoc:
  assumes wf: "arena_wf reg xs bs ps count op"
    and p: "packet_ok reg (xs @ ups @ downs) (bs @ gbs) p"
    and ups: "packet_ups (xs @ ups @ downs) p = ups"
    and downs: "packet_downs (xs @ ups @ downs) p = downs"
    and gbs: "packet_batches (bs @ gbs) p = gbs"
    and pid: "unat (cp_packet_id p) = length ps"
    and starts: "unat (cp_up_intent_start p) = length xs" "unat (cp_first_batch_index p) = length bs"
    and time: "ps \<noteq> [] \<Longrightarrow> cp_scheduled_us (last ps) < cp_scheduled_us p"
    and gens: "map (unat \<circ> compact_generation_id) downs = [count..<count']"
    and count: "count \<le> count'" "count' < 2 ^ 60"
    and ok: "step_ok op (ups, downs)"
  shows "arena_wf reg (xs @ ups @ downs) (bs @ gbs) (ps @ [p]) count' (step_open op (ups, downs))"
proof -
  from wf have old: "\<forall>q \<in> set ps. packet_ok reg xs bs q" by (simp add: arena_wf_def)
  note app = concat_packets_append(1) [OF old, of "ups @ downs"]
    concat_packets_append(2) [OF old, of gbs] concat_packets_append(3) [OF old, where ys = "ups @ downs"]
    concat_packets_append(4) [OF old, of "ups @ downs"]
  have "\<forall>q \<in> set (ps @ [p]). packet_ok reg (xs @ ups @ downs) (bs @ gbs) q"
    using old p packet_ok_append [of reg xs bs _ "ups @ downs" gbs] by auto
  moreover have "\<forall>i < length (ps @ [p]). unat (cp_packet_id ((ps @ [p]) ! i)) = i"
    using wf pid by (auto simp: arena_wf_def nth_append less_Suc_eq)
  moreover have "tiled (ps @ [p])"
    using wf starts arena_lengths [OF wf] by (auto simp: tiled_def arena_wf_def nth_append less_Suc_eq)
  moreover have "sorted_wrt (<) (map cp_scheduled_us (ps @ [p]))"
    using wf time sorted_wrt_snoc_last [of cp_scheduled_us ps "cp_scheduled_us p"]
    by (simp add: arena_wf_def)
  moreover have "concat (map (\<lambda>q. map (unat \<circ> compact_generation_id) (packet_downs (xs @ ups @ downs) q))
      (ps @ [p])) = [0..<count']"
  proof -
    have "[0..<count'] = [0..<count] @ [count..<count']"
      using count(1) upt_add_eq_append [of 0 count "count' - count"] by simp
    then show ?thesis
      using wf app(3) [of "unat \<circ> compact_generation_id"] downs gens by (simp add: arena_wf_def)
  qed
  moreover have "replay (packet_trace (xs @ ups @ downs) (ps @ [p])) (\<lambda>_. None)
      = Some (step_open op (ups, downs))"
  proof -
    have "packet_trace (xs @ ups @ downs) (ps @ [p]) = packet_trace xs ps @ [(ups, downs)]"
      using app(4) ups downs by (simp add: packet_trace_def)
    then show ?thesis using wf ok by (auto simp: replay_snoc_Some arena_wf_def)
  qed
  ultimately show ?thesis
    using wf app(1,2) ups downs gbs count(2) by (simp add: arena_wf_def)
qed

section \<open>Every generation is opened once and closed once\<close>

definition trace_downs :: "packet_intents list \<Rightarrow> generation_id list" where
  "trace_downs tr = concat (map (\<lambda>p. List.map_filter intent_gen (snd p)) tr)"

definition trace_ups :: "packet_intents list \<Rightarrow> generation_id list" where
  "trace_ups tr = concat (map (\<lambda>p. List.map_filter intent_gen (fst p)) tr)"

lemma set_map_filter_gen: "set (List.map_filter intent_gen cs) = {g. \<exists>c \<in> set cs. intent_gen c = Some g}"
  by (induction cs) (auto simp: map_filter_simps split: option.splits)

lemma replay_take:
  assumes "replay tr op0 = Some op" and "j < length tr"
  obtains op' where "replay (take j tr) op0 = Some op'" and "step_ok op' (tr ! j)"
proof -
  have "tr = take j tr @ tr ! j # drop (Suc j) tr" by (rule id_take_nth_drop [OF assms(2)])
  then have "replay (take j tr @ tr ! j # drop (Suc j) tr) op0 = Some op" using assms(1) by simp
  then obtain op' where "replay (take j tr) op0 = Some op'" "step_ok op' (tr ! j)"
    by (auto simp: replay_append split: option.splits if_splits)
  then show ?thesis by (rule that)
qed

lemma replay_opened:
  assumes "replay tr (\<lambda>_. None) = Some op" and "op s = Some g"
  shows "\<exists>i < length tr. \<exists>c \<in> set (snd (tr ! i)). intent_slot c = s \<and> intent_gen c = Some g"
  using assms
proof (induction tr arbitrary: op rule: rev_induct)
  case (snoc p tr)
  then obtain op' where op': "replay tr (\<lambda>_. None) = Some op'" "step_ok op' p" "op = step_open op' p"
    by (auto simp: replay_snoc_Some)
  from snoc.prems(2) op' consider
      c where "c \<in> set (snd p)" "intent_slot c = s" "intent_gen c = Some g"
    | "op' s = Some g"
    by (auto simp: step_open_eq_Some)
  then show ?case
  proof cases
    case 1
    then show ?thesis by (intro exI [of _ "length tr"]) auto
  next
    case 2
    from snoc.IH [OF op'(1) 2] obtain i c where
      "i < length tr" "c \<in> set (snd (tr ! i))" "intent_slot c = s" "intent_gen c = Some g" by auto
    then show ?thesis by (intro exI [of _ i]) (auto simp: nth_append)
  qed
qed simp

lemma replay_up_after_down:
  assumes "replay tr (\<lambda>_. None) = Some op" and "j < length tr"
    and "d \<in> set (fst (tr ! j))" and "intent_gen d = Some g"
  shows "\<exists>i < j. \<exists>c \<in> set (snd (tr ! i)). intent_slot c = intent_slot d \<and> intent_gen c = Some g"
proof -
  obtain op' where op': "replay (take j tr) (\<lambda>_. None) = Some op'" "step_ok op' (tr ! j)"
    using assms(1,2) by (rule replay_take)
  then have "op' (intent_slot d) = Some g" using assms(3,4) by (auto simp: step_ok_def)
  from replay_opened [OF op'(1) this] obtain i c where
    "i < j" "c \<in> set (snd (tr ! i))" "intent_slot c = intent_slot d" "intent_gen c = Some g"
    using assms(2) by auto
  then show ?thesis by blast
qed

lemma distinct_released_gens:
  assumes "inj_on op (dom op)" and "distinct (map intent_slot cs)"
    and "\<forall>c \<in> set cs. intent_gen c = op (intent_slot c)"
  shows "distinct (List.map_filter intent_gen cs)"
  using assms(2,3)
proof (induction cs)
  case (Cons c cs)
  then have IH: "distinct (List.map_filter intent_gen cs)" by simp
  have "g \<notin> set (List.map_filter intent_gen cs)" if g: "intent_gen c = Some g" for g
  proof
    assume "g \<in> set (List.map_filter intent_gen cs)"
    then obtain d where d: "d \<in> set cs" "intent_gen d = Some g" by (auto simp: set_map_filter_gen)
    then have "op (intent_slot d) = Some g" "op (intent_slot c) = Some g"
      using Cons.prems(2) g by fastforce+
    then have "op (intent_slot d) = op (intent_slot c)" "intent_slot d \<in> dom op" "intent_slot c \<in> dom op"
      by auto
    then have "intent_slot d = intent_slot c" using assms(1) by (auto dest: inj_onD)
    moreover have "intent_slot d \<in> intent_slot ` set cs" using d(1) by (rule imageI)
    ultimately show False using Cons.prems(1) by simp
  qed
  then show ?case using IH by (auto simp: map_filter_simps split: option.splits)
qed (simp add: map_filter_simps)

lemma ran_step_open:
  assumes "step_ok op p" and "inj_on op (dom op)"
  shows "ran (step_open op p) =
    (ran op - set (List.map_filter intent_gen (fst p))) \<union> set (List.map_filter intent_gen (snd p))"
proof -
  have "s \<in> set (map intent_slot (fst p)) \<longleftrightarrow> g \<in> set (List.map_filter intent_gen (fst p))"
    if "op s = Some g" for s g
  proof
    assume "s \<in> set (map intent_slot (fst p))"
    then obtain c where "c \<in> set (fst p)" "intent_slot c = s" by auto
    then show "g \<in> set (List.map_filter intent_gen (fst p))"
      using assms(1) that by (auto simp: step_ok_def set_map_filter_gen)
  next
    assume "g \<in> set (List.map_filter intent_gen (fst p))"
    then obtain c where c: "c \<in> set (fst p)" "intent_gen c = Some g" by (auto simp: set_map_filter_gen)
    then have "op (intent_slot c) = op s" "intent_slot c \<in> dom op" "s \<in> dom op"
      using assms(1) that by (auto simp: step_ok_def)
    then have "intent_slot c = s" using assms(2) by (auto dest: inj_onD)
    with c show "s \<in> set (map intent_slot (fst p))" by auto
  qed
  then have "step_open op p s = Some g \<longleftrightarrow>
      (\<exists>c \<in> set (snd p). intent_slot c = s \<and> intent_gen c = Some g) \<or>
      op s = Some g \<and> g \<notin> set (List.map_filter intent_gen (fst p))" for s g
    using step_open_eq_Some [OF assms(1), of s g] by blast
  then show ?thesis by (auto simp: ran_def set_map_filter_gen)
qed

lemma inj_on_step_open:
  assumes ok: "step_ok op p" and inj: "inj_on op (dom op)"
    and fresh: "set (List.map_filter intent_gen (snd p)) \<inter> ran op = {}"
    and dist: "distinct (List.map_filter intent_gen (snd p))"
  shows "inj_on (step_open op p) (dom (step_open op p))"
proof -
  have down_inj: "intent_slot c = intent_slot d"
    if "c \<in> set cs" "d \<in> set cs" "intent_gen c = Some g" "intent_gen d = Some g"
      "distinct (List.map_filter intent_gen cs)" for c d g cs
    using that by (induction cs) (auto simp: map_filter_simps set_map_filter_gen split: option.splits)
  have "s = s'" if st: "step_open op p s = Some g" "step_open op p s' = Some g" for s s' g
  proof -
    consider (both) c d where "c \<in> set (snd p)" "d \<in> set (snd p)" "intent_slot c = s" "intent_slot d = s'"
        "intent_gen c = Some g" "intent_gen d = Some g"
      | (old) "op s = Some g" "op s' = Some g"
      | (mixed) c where "c \<in> set (snd p)" "intent_gen c = Some g" "g \<in> ran op"
      using st unfolding step_open_eq_Some [OF ok] by (metis ranI)
    then show ?thesis
    proof cases
      case both
      then show ?thesis using down_inj [of c "snd p" d g] dist by simp
    next
      case old
      then show ?thesis using inj by (metis domI inj_onD)
    next
      case mixed
      then show ?thesis using fresh by (auto simp: set_map_filter_gen)
    qed
  qed
  then show ?thesis by (auto simp: inj_on_def dom_def)
qed

text \<open>The generations closed so far and those still open are exactly the ones opened.\<close>

lemma replay_accounting:
  assumes "replay tr (\<lambda>_. None) = Some op" and "distinct (trace_downs tr)"
  shows "distinct (trace_ups tr) \<and> set (trace_ups tr) \<inter> ran op = {} \<and>
    set (trace_ups tr) \<union> ran op = set (trace_downs tr) \<and> inj_on op (dom op)"
  using assms
proof (induction tr arbitrary: op rule: rev_induct)
  case Nil
  then show ?case by (auto simp: trace_ups_def trace_downs_def)
next
  case (snoc p tr)
  obtain op' where op': "replay tr (\<lambda>_. None) = Some op'" "step_ok op' p" "op = step_open op' p"
    using snoc.prems(1) by (auto simp: replay_snoc_Some)
  let ?U = "List.map_filter intent_gen (fst p)" and ?D = "List.map_filter intent_gen (snd p)"
  have app: "trace_ups (tr @ [p]) = trace_ups tr @ ?U" "trace_downs (tr @ [p]) = trace_downs tr @ ?D"
    by (simp_all add: trace_ups_def trace_downs_def)
  from snoc.prems(2) have D: "distinct (trace_downs tr)" "distinct ?D" "set (trace_downs tr) \<inter> set ?D = {}"
    by (simp_all add: app)
  from snoc.IH [OF op'(1) D(1)] have IH: "distinct (trace_ups tr)" "set (trace_ups tr) \<inter> ran op' = {}"
    "set (trace_ups tr) \<union> ran op' = set (trace_downs tr)" "inj_on op' (dom op')" by auto
  have U: "set ?U \<subseteq> ran op'"
    using op'(2) by (auto simp: step_ok_def set_map_filter_gen intro: ranI)
  have "distinct ?U"
    using op'(2) IH(4) by (intro distinct_released_gens) (auto simp: step_ok_def)
  moreover have "ran op = (ran op' - set ?U) \<union> set ?D"
    unfolding op'(3) by (rule ran_step_open [OF op'(2) IH(4)])
  moreover have "inj_on op (dom op)"
    unfolding op'(3) by (rule inj_on_step_open [OF op'(2) IH(4) _ D(2)]) (use IH(3) D(3) in blast)
  ultimately show ?case unfolding app using IH D U by auto
qed

lemma schedule_trace:
  assumes "schedule_wf rs"
  defines "tr \<equiv> packet_trace (rs_intents rs) (rs_packets rs)"
  shows "replay tr (\<lambda>_. None) = Some (\<lambda>_. None)"
    and "map unat (trace_downs tr) = [0..<unat (rs_generation_count rs)]"
proof -
  show rep: "replay tr (\<lambda>_. None) = Some (\<lambda>_. None)"
    using assms by (simp add: schedule_wf_def arena_wf_def)
  have gens: "List.map_filter intent_gen (snd p) = map compact_generation_id (snd p)" if "p \<in> set tr" for p
  proof -
    from that obtain j where j: "j < length tr" "p = tr ! j" by (auto simp: in_set_conv_nth)
    obtain op where "step_ok op (tr ! j)" using replay_take [OF rep j(1)] by blast
    then have "\<forall>c \<in> set (snd p). intent_gen c = Some (compact_generation_id c)"
      using j(2) by (auto simp: step_ok_def intent_gen_def split: if_splits)
    then show ?thesis by (induction "snd p" arbitrary: p) (auto simp: map_filter_simps)
  qed
  have "trace_downs tr = concat (map (\<lambda>p. map compact_generation_id (snd p)) tr)"
    unfolding trace_downs_def using gens by (metis (no_types, lifting) map_eq_conv)
  then have "map unat (trace_downs tr)
      = concat (map (\<lambda>p. map (unat \<circ> compact_generation_id) (packet_downs (rs_intents rs) p)) (rs_packets rs))"
    by (simp add: tr_def packet_trace_def map_concat comp_def)
  then show "map unat (trace_downs tr) = [0..<unat (rs_generation_count rs)]"
    using assms by (simp add: schedule_wf_def arena_wf_def)
qed

lemma schedule_generations:
  assumes "schedule_wf rs"
  defines "tr \<equiv> packet_trace (rs_intents rs) (rs_packets rs)"
  shows "distinct (trace_downs tr)" and "distinct (trace_ups tr)"
    and "set (trace_downs tr) = {g. g < rs_generation_count rs}"
    and "set (trace_ups tr) = {g. g < rs_generation_count rs}"
proof -
  note tr = schedule_trace [OF assms(1), folded tr_def]
  show d: "distinct (trace_downs tr)" using tr(2) by (metis distinct_map distinct_upt)
  have "unat ` set (trace_downs tr) = {0..<unat (rs_generation_count rs)}"
    using tr(2) by (metis list.set_map set_upt)
  then show s: "set (trace_downs tr) = {g. g < rs_generation_count rs}"
    by (auto simp: word_less_nat_alt image_def set_eq_iff)
      (metis unat_word_of_nat_small word_unat_eq_iff unsigned_less order_less_trans)+
  note acc = replay_accounting [OF tr(1) d]
  show "distinct (trace_ups tr)" using acc by simp
  show "set (trace_ups tr) = {g. g < rs_generation_count rs}" using acc s by simp
qed

lemma generation_paired:
  assumes wf: "schedule_wf rs" and g: "g < rs_generation_count rs"
  obtains i j c d where "i < j" and "j < length (rs_packets rs)"
    and "c \<in> set (packet_downs (rs_intents rs) (rs_packets rs ! i))"
    and "d \<in> set (packet_ups (rs_intents rs) (rs_packets rs ! j))"
    and "intent_gen c = Some g" and "intent_gen d = Some g" and "intent_slot c = intent_slot d"
    and "cp_scheduled_us (rs_packets rs ! i) < cp_scheduled_us (rs_packets rs ! j)"
proof -
  let ?tr = "packet_trace (rs_intents rs) (rs_packets rs)"
  have "g \<in> set (trace_ups ?tr)" using schedule_generations(4) [OF wf] g by simp
  then obtain p where p: "p \<in> set ?tr" "g \<in> set (List.map_filter intent_gen (fst p))"
    by (auto simp: trace_ups_def)
  then obtain j d where d: "j < length ?tr" "d \<in> set (fst (?tr ! j))" "intent_gen d = Some g"
    by (auto simp: set_map_filter_gen in_set_conv_nth)
  from replay_up_after_down [OF schedule_trace(1) [OF wf] d] obtain i c where
    c: "i < j" "c \<in> set (snd (?tr ! i))" "intent_slot c = intent_slot d" "intent_gen c = Some g" by auto
  have "sorted_wrt (<) (map cp_scheduled_us (rs_packets rs))"
    using wf by (simp add: schedule_wf_def arena_wf_def)
  then have "cp_scheduled_us (rs_packets rs ! i) < cp_scheduled_us (rs_packets rs ! j)"
    using c(1) d(1) by (auto simp: sorted_wrt_iff_nth_less packet_trace_def)
  then show ?thesis
    using c d by (intro that [of i j c d]) (auto simp: packet_trace_def)
qed

lemma length_filter_concat_map:
  "length (filter P (concat (map (\<lambda>p. f p @ h p) ps)))
   = length (filter P (concat (map f ps))) + length (filter P (concat (map h ps)))"
  by (induction ps) auto

lemma length_filter_gen:
  "length (filter (\<lambda>c. intent_gen c = Some g) cs) = length (filter ((=) g) (List.map_filter intent_gen cs))"
  by (induction cs) (auto simp: map_filter_simps split: option.splits)

lemma map_filter_concat: "List.map_filter f (concat xss) = concat (map (List.map_filter f) xss)"
  by (induction xss) (auto simp: List.map_filter_def)

lemma distinct_filter_eq: "distinct xs \<Longrightarrow> x \<in> set xs \<Longrightarrow> filter ((=) x) xs = [x]"
  by (induction xs) (auto simp: filter_empty_conv)

lemma generation_exactly_two_intents:
  assumes wf: "schedule_wf rs" and g: "g < rs_generation_count rs"
  shows "length (filter (\<lambda>c. intent_gen c = Some g) (rs_intents rs)) = 2"
proof -
  let ?xs = "rs_intents rs" and ?ps = "rs_packets rs"
  let ?n = "\<lambda>cs. length (filter (\<lambda>c. intent_gen c = Some g) cs)"
  have "concat (map (\<lambda>p. packet_ups ?xs p @ packet_downs ?xs p) ?ps) = ?xs"
    using wf by (simp add: schedule_wf_def arena_wf_def)
  then have "?n ?xs = ?n (concat (map (packet_ups ?xs) ?ps)) + ?n (concat (map (packet_downs ?xs) ?ps))"
    using length_filter_concat_map [of _ "packet_ups ?xs" "packet_downs ?xs" ?ps] by metis
  moreover have "List.map_filter intent_gen (concat (map (packet_ups ?xs) ?ps)) = trace_ups (packet_trace ?xs ?ps)"
    "List.map_filter intent_gen (concat (map (packet_downs ?xs) ?ps)) = trace_downs (packet_trace ?xs ?ps)"
    by (simp_all add: map_filter_concat trace_ups_def trace_downs_def packet_trace_def comp_def)
  ultimately show ?thesis
    using schedule_generations [OF wf] g by (simp add: length_filter_gen distinct_filter_eq)
qed

lemma packet_masks_disjoint:
  assumes wf: "schedule_wf rs" and p: "p \<in> set (rs_packets rs)"
  shows "cp_up_mask p AND cp_down_mask p = 0"
proof -
  let ?xs = "rs_intents rs"
  obtain j where j: "j < length (rs_packets rs)" "p = rs_packets rs ! j" using p by (auto simp: in_set_conv_nth)
  then have j': "j < length (packet_trace ?xs (rs_packets rs))" by (simp add: packet_trace_def)
  obtain op where op: "step_ok op (packet_ups ?xs p, packet_downs ?xs p)"
    using replay_take [OF schedule_trace(1) [OF wf] j'] j by (auto simp: packet_trace_def)
  have "packet_ok (rs_key_registry rs) ?xs (rs_batches rs) p"
    using wf p by (simp add: schedule_wf_def arena_wf_def)
  then have "\<not> (bit (cp_up_mask p) n \<and> bit (cp_down_mask p) n)" for n
    using op by (auto simp: packet_ok_def step_ok_def)
  then show ?thesis by (simp add: masks_disjoint_iff)
qed

lemma distinct_concat_unique:
  assumes "distinct (concat xss)" and "i < length xss" and "j < length xss"
    and "x \<in> set (xss ! i)" and "x \<in> set (xss ! j)"
  shows "i = j"
  using assms
proof (induction xss arbitrary: i j)
  case (Cons xs xss)
  have disj: False if "x \<in> set xs" "k < length xss" "x \<in> set (xss ! k)" for k
  proof -
    have "x \<in> set (concat xss)" using that nth_mem [OF that(2)] by auto
    then show False using Cons.prems(1) that(1) by auto
  qed
  show ?case
    using Cons disj by (cases i; cases j) auto
qed simp

lemma down_packet_unique:
  assumes wf: "schedule_wf rs" and ij: "i < length (rs_packets rs)" "j < length (rs_packets rs)"
    and c: "c \<in> set (packet_downs (rs_intents rs) (rs_packets rs ! i))" "intent_gen c = Some g"
    and d: "d \<in> set (packet_downs (rs_intents rs) (rs_packets rs ! j))" "intent_gen d = Some g"
  shows "i = j"
proof -
  let ?f = "\<lambda>p. List.map_filter intent_gen (packet_downs (rs_intents rs) p)"
  have "distinct (concat (map ?f (rs_packets rs)))"
    using schedule_generations(1) [OF wf] by (simp add: trace_downs_def packet_trace_def comp_def)
  then show ?thesis
    by (rule distinct_concat_unique [where x = g]) (use ij c d in \<open>auto simp: set_map_filter_gen\<close>)
qed

section \<open>Ranges of different packets do not meet\<close>

lemma sum_take_Suc: "i < length xs \<Longrightarrow> sum_list (map f (take (Suc i) xs)) = sum_list (map f (take i xs)) + (f (xs ! i) :: nat)"
  by (simp add: take_Suc_conv_app_nth)

lemma sum_take_mono: "i \<le> j \<Longrightarrow> sum_list (map f (take i xs)) \<le> (sum_list (map f (take j xs)) :: nat)"
proof -
  assume "i \<le> j"
  then have "take j xs = take i xs @ take (j - i) (drop i xs)" by (metis le_add_diff_inverse take_add)
  then show ?thesis by simp
qed

lemma schedule_tiles:
  assumes wf: "schedule_wf rs" and p: "p < length (rs_packets rs)"
  defines "S \<equiv> \<lambda>i. sum_list (map (\<lambda>p. unat (cp_up_intent_len p) + unat (cp_down_intent_len p)) (take i (rs_packets rs)))"
    and "B \<equiv> \<lambda>i. sum_list (map (\<lambda>p. unat (cp_batch_count p)) (take i (rs_packets rs)))"
  shows "unat (cp_up_intent_start (rs_packets rs ! p)) = S p"
    and "unat (cp_down_intent_start (rs_packets rs ! p)) = S p + unat (cp_up_intent_len (rs_packets rs ! p))"
    and "S (Suc p) = S p + unat (cp_up_intent_len (rs_packets rs ! p)) + unat (cp_down_intent_len (rs_packets rs ! p))"
    and "unat (cp_first_batch_index (rs_packets rs ! p)) = B p" and "B (Suc p) = B p + unat (cp_batch_count (rs_packets rs ! p))"
proof -
  have ok: "packet_ok (rs_key_registry rs) (rs_intents rs) (rs_batches rs) (rs_packets rs ! p)" and t: "tiled (rs_packets rs)"
    using wf p by (simp_all add: schedule_wf_def arena_wf_def)
  show st: "unat (cp_up_intent_start (rs_packets rs ! p)) = S p" and "unat (cp_first_batch_index (rs_packets rs ! p)) = B p"
    using t p by (simp_all add: tiled_def S_def B_def)
  show "unat (cp_down_intent_start (rs_packets rs ! p)) = S p + unat (cp_up_intent_len (rs_packets rs ! p))"
    using ok st by (simp add: packet_ok_def)
  show "S (Suc p) = S p + unat (cp_up_intent_len (rs_packets rs ! p)) + unat (cp_down_intent_len (rs_packets rs ! p))"
    "B (Suc p) = B p + unat (cp_batch_count (rs_packets rs ! p))"
    using sum_take_Suc [OF p] by (simp_all add: S_def B_def)
qed

lemma batches_end: "schedule_wf rs \<Longrightarrow> sum_list (map (\<lambda>p. unat (cp_batch_count p)) (rs_packets rs)) = length (rs_batches rs)"
  using arena_lengths by (simp add: schedule_wf_def)

lemma down_range_not_up:
  assumes wf: "schedule_wf rs" and p: "p < length (rs_packets rs)" and q: "q < length (rs_packets rs)"
    and i: "unat (cp_down_intent_start (rs_packets rs ! p)) \<le> i"
      "i < unat (cp_down_intent_start (rs_packets rs ! p)) + unat (cp_down_intent_len (rs_packets rs ! p))"
  shows "\<not> (unat (cp_up_intent_start (rs_packets rs ! q)) \<le> i \<and>
    i < unat (cp_up_intent_start (rs_packets rs ! q)) + unat (cp_up_intent_len (rs_packets rs ! q)))"
proof -
  let ?S = "\<lambda>i. sum_list (map (\<lambda>p. unat (cp_up_intent_len p) + unat (cp_down_intent_len p)) (take i (rs_packets rs)))"
  note tp = schedule_tiles(1-3) [OF wf p] and tq = schedule_tiles(1-3) [OF wf q]
  consider "p < q" | "p = q" | "q < p" by linarith
  then show ?thesis
  proof cases
    case 1
    then have "?S (Suc p) \<le> ?S q" by (intro sum_take_mono) simp
    then show ?thesis using i tp tq by simp
  next
    case 3
    then have "?S (Suc q) \<le> ?S p" by (intro sum_take_mono) simp
    then show ?thesis using i tp tq by simp
  qed (use i tp in simp)
qed

lemma first_batch_less:
  assumes wf: "schedule_wf rs" and "p < q" and q: "q < length (rs_packets rs)"
  shows "unat (cp_first_batch_index (rs_packets rs ! p)) + unat (cp_batch_count (rs_packets rs ! p))
    \<le> unat (cp_first_batch_index (rs_packets rs ! q))"
proof -
  have p: "p < length (rs_packets rs)" using assms by simp
  have "sum_list (map (\<lambda>p. unat (cp_batch_count p)) (take (Suc p) (rs_packets rs)))
      \<le> sum_list (map (\<lambda>p. unat (cp_batch_count p)) (take q (rs_packets rs)))"
    using \<open>p < q\<close> by (intro sum_take_mono) simp
  then show ?thesis using schedule_tiles(4,5) [OF wf p] schedule_tiles(4) [OF wf q] by simp
qed

end
