(* ===== verification/Sky_Compile.thy ===== *)
theory Sky_Compile
  imports Sky_Schedule "HOL-Library.Multiset"
begin

text \<open>
  The generation compiler of \<open>sky_dispatch_core/src/compile.rs\<close>: authored key actions become the
  packets, batches and packed intents of a runtime schedule. The local variables of
  \<open>compile_runtime_intents\<close> that live across timestamp groups are the record \<open>compile_state\<close>,
  those of one group the record \<open>group_state\<close>; every \<open>?\<close> is an \<open>Err\<close> and every \<open>expect\<close> and table
  index a \<open>Panic\<close>. The lemmas show what a compiled schedule looks like (\<open>schedule_wf\<close>), that no
  input makes the compiler panic, and that every generation is opened and closed exactly once.
\<close>

definition MAX_ACTIONS :: nat where
  "MAX_ACTIONS = 1000000"

definition MAX_REASON_BYTES :: nat where
  "MAX_REASON_BYTES = 128"

datatype compile_error =
    InvalidAllowedScanCodeCount
  | DuplicateAllowedScanCode u16
  | TooManyActions
  | NonMonotonicSourceIndex u32 u32
  | NonMonotonicSchedule u64 u64
  | SameTimestampDownBatch u64
  | DuplicateSameTimestampUp u16 u64
  | TooManyBatchesAtTimestamp u64
  | InvalidBatchSize u32
  | DuplicateBatchScanCode u32 u16
  | ScanCodeNotAllowed u32 u16
  | ReasonTooLong u32
  | TooManyReasons
  | GenerationOverflow
  | UnclosedMusicalGeneration u16 u32 u64
  | OverlappingSameKeyDown u16 u32 u32 u64 u64
  | MatchedSameTimestampUpDown u16 u64 u32 u32
  | Simulation string

type_synonym 'a compile_result = "compile_error failure + 'a"

record open_generation =
  og_generation_id :: generation_id
  og_down_action_index :: u32
  og_down_scheduled_us :: u64

record compile_state =
  cs_next_generation_id :: generation_id
  cs_open_generation_by_slot :: "open_generation option list"
  cs_reason_table :: "string list"
  cs_reason_map :: "string \<rightharpoonup> reason_id"
  cs_batches :: "compiled_batch list"
  cs_intents :: "compact_intent list"
  cs_packets :: "compiled_packet list"
  cs_previous_source_index :: "u32 option"
  cs_previous_scheduled_us :: "u64 option"

record group_state =
  gs_state :: compile_state
  gs_up_mask :: u16
  gs_seen_up_mask :: u16
  gs_physical_up_source_action_index_by_slot :: "u32 option list"
  gs_group_batches :: "compiled_batch list"
  gs_down_mask :: u16
  gs_down_source_action_index :: "u32 option"

section \<open>Admission of one timestamp group\<close>

definition get_or_insert_reason :: "string \<Rightarrow> compile_state \<Rightarrow> (reason_id \<times> compile_state) compile_result" where
  "get_or_insert_reason reason st =
     (case cs_reason_map st reason of
        Some rid \<Rightarrow> Inr (rid, st)
      | None \<Rightarrow>
          rbind (ok_or (try_from_usize (length (cs_reason_table st))) (Err TooManyReasons)) (\<lambda>rid.
          Inr (rid, st\<lparr>cs_reason_table := cs_reason_table st @ [reason],
                      cs_reason_map := (cs_reason_map st)(reason \<mapsto> rid)\<rparr>)))"

definition validate_scan_code :: "key_registry \<Rightarrow> u32 \<Rightarrow> u16 \<Rightarrow> u16 \<Rightarrow> u16 compile_result" where
  "validate_scan_code key_registry action_index scan_code batch_seen_mask =
     (case slot_for key_registry scan_code of
        None \<Rightarrow> Inl (Err (ScanCodeNotAllowed action_index scan_code))
      | Some key_slot \<Rightarrow>
          if batch_seen_mask AND bit_for_slot key_slot \<noteq> 0
          then Inl (Err (DuplicateBatchScanCode action_index scan_code))
          else Inr (batch_seen_mask OR bit_for_slot key_slot))"

text \<open>One iteration of the validation loop; the Down action of the group is kept itself where the
  source keeps its index into the action slice.\<close>

definition check_previous ::
  "compile_state \<Rightarrow> key_action_input \<Rightarrow> unit compile_result" where
  "check_previous st action =
     rbind (case cs_previous_source_index st of
              Some previous \<Rightarrow>
                if ka_source_action_index action \<le> previous
                then Inl (Err (NonMonotonicSourceIndex previous (ka_source_action_index action)))
                else Inr ()
            | None \<Rightarrow> Inr ()) (\<lambda>_.
     case cs_previous_scheduled_us st of
       Some previous \<Rightarrow>
         if ka_scheduled_us action < previous
         then Inl (Err (NonMonotonicSchedule previous (ka_scheduled_us action)))
         else Inr ()
     | None \<Rightarrow> Inr ())"

definition validate_action ::
  "key_registry \<Rightarrow> u64 \<Rightarrow> key_action_input \<Rightarrow> key_action_input option \<times> compile_state
     \<Rightarrow> (key_action_input option \<times> compile_state) compile_result" where
  "validate_action key_registry scheduled_us action = (\<lambda>(down_action, st).
     rbind (check_previous st action) (\<lambda>_.
     if ka_scan_codes action = [] \<or> length (ka_scan_codes action) > MAX_KEYS
     then Inl (Err (InvalidBatchSize (ka_source_action_index action)))
     else if length (ka_reason action) > MAX_REASON_BYTES
     then Inl (Err (ReasonTooLong (ka_source_action_index action)))
     else
     rbind (rfold (validate_scan_code key_registry (ka_source_action_index action))
              (ka_scan_codes action) 0) (\<lambda>_.
     rbind (get_or_insert_reason (ka_reason action) st) (\<lambda>(_, st).
     rbind (if ka_kind action = Down
            then (if down_action \<noteq> None then Inl (Err (SameTimestampDownBatch scheduled_us))
                  else Inr (Some action))
            else Inr down_action) (\<lambda>down_action.
     Inr (down_action, st\<lparr>cs_previous_source_index := Some (ka_source_action_index action),
                          cs_previous_scheduled_us := Some (ka_scheduled_us action)\<rparr>))))))"

section \<open>Release and activation intents\<close>

definition sorted_scan_codes :: "key_registry \<Rightarrow> u16 list \<Rightarrow> u16 list" where
  "sorted_scan_codes key_registry scan_codes =
     sort_key (\<lambda>sc. case slot_for key_registry sc of Some s \<Rightarrow> s | None \<Rightarrow> 255) scan_codes"

definition compile_up_code ::
  "key_registry \<Rightarrow> u64 \<Rightarrow> key_action_input \<Rightarrow> u16 \<Rightarrow> group_state \<Rightarrow> group_state compile_result" where
  "compile_up_code key_registry scheduled_us action scan_code g =
     rbind (ok_or (slot_for key_registry scan_code) Panic) (\<lambda>key_slot.
     let key_bit = bit_for_slot key_slot; slot = unat key_slot; st = gs_state g in
     if gs_seen_up_mask g AND key_bit \<noteq> 0
     then Inl (Err (DuplicateSameTimestampUp scan_code scheduled_us))
     else
     rbind (ok_or (nth_opt (cs_open_generation_by_slot st) slot) Panic) (\<lambda>slot_open.
     let generation_id = map_option og_generation_id slot_open in
     Inr (g\<lparr>gs_seen_up_mask := gs_seen_up_mask g OR key_bit,
            gs_up_mask := (if generation_id \<noteq> None then gs_up_mask g OR key_bit else gs_up_mask g),
            gs_physical_up_source_action_index_by_slot :=
              (if generation_id \<noteq> None
               then (gs_physical_up_source_action_index_by_slot g)
                      [slot := Some (ka_source_action_index action)]
               else gs_physical_up_source_action_index_by_slot g),
            gs_state := st\<lparr>
              cs_open_generation_by_slot := (cs_open_generation_by_slot st)[slot := None],
              cs_intents := cs_intents st @
                [compact_new (case generation_id of Some i \<Rightarrow> i | None \<Rightarrow> NO_GENERATION_ID) key_slot]\<rparr>\<rparr>)))"

definition compile_up_action ::
  "key_registry \<Rightarrow> packet_id \<Rightarrow> u64 \<Rightarrow> key_action_input \<Rightarrow> group_state \<Rightarrow> group_state compile_result" where
  "compile_up_action key_registry packet_id scheduled_us action g =
     (if ka_kind action \<noteq> Up then Inr g else
      rbind (get_or_insert_reason (ka_reason action) (gs_state g)) (\<lambda>(reason_id, st).
      rbind (ok_or (try_from_usize (length (cs_intents st))) (Err TooManyActions)) (\<lambda>intent_start.
      rbind (rfold (compile_up_code key_registry scheduled_us action)
               (sorted_scan_codes key_registry (ka_scan_codes action)) (g\<lparr>gs_state := st\<rparr>)) (\<lambda>g.
      rbind (ok_or (try_from_usize (length (ka_scan_codes action))) Panic) (\<lambda>intent_len.
      Inr (g\<lparr>gs_group_batches := gs_group_batches g @
             [\<lparr>cb_source_action_index = ka_source_action_index action, cb_kind = Up,
               cb_scheduled_us = scheduled_us, cb_reason_id = reason_id,
               cb_intent_start = intent_start, cb_intent_len = intent_len,
               cb_packet_id = packet_id\<rparr>]\<rparr>))))))"

definition compile_down_code ::
  "key_registry \<Rightarrow> u64 \<Rightarrow> key_action_input \<Rightarrow> u16 \<Rightarrow> group_state \<Rightarrow> group_state compile_result" where
  "compile_down_code key_registry scheduled_us action scan_code g =
     rbind (ok_or (slot_for key_registry scan_code) Panic) (\<lambda>key_slot.
     let key_bit = bit_for_slot key_slot; slot = unat key_slot; st = gs_state g in
     rbind (ok_or (nth_opt (gs_physical_up_source_action_index_by_slot g) slot) Panic) (\<lambda>up_source.
     case up_source of
       Some up_source_action_index \<Rightarrow>
         Inl (Err (MatchedSameTimestampUpDown scan_code scheduled_us up_source_action_index
                     (ka_source_action_index action)))
     | None \<Rightarrow>
     rbind (ok_or (nth_opt (cs_open_generation_by_slot st) slot) Panic) (\<lambda>slot_open.
     case slot_open of
       Some og \<Rightarrow>
         Inl (Err (OverlappingSameKeyDown scan_code (og_down_action_index og)
                     (ka_source_action_index action) (og_down_scheduled_us og) scheduled_us))
     | None \<Rightarrow>
     if cs_next_generation_id st > MAX_COMPACT_GENERATION_ID then Inl (Err GenerationOverflow)
     else
     let generation_id = cs_next_generation_id st in
     rbind (ok_or (checked_add (cs_next_generation_id st) 1) (Err GenerationOverflow)) (\<lambda>next_id.
     Inr (g\<lparr>gs_down_mask := gs_down_mask g OR key_bit,
            gs_state := st\<lparr>
              cs_next_generation_id := next_id,
              cs_open_generation_by_slot := (cs_open_generation_by_slot st)
                [slot := Some \<lparr>og_generation_id = generation_id,
                               og_down_action_index = ka_source_action_index action,
                               og_down_scheduled_us = scheduled_us\<rparr>],
              cs_intents := cs_intents st @ [compact_new generation_id key_slot]\<rparr>\<rparr>)))))"

definition compile_down_action ::
  "key_registry \<Rightarrow> packet_id \<Rightarrow> u64 \<Rightarrow> key_action_input \<Rightarrow> group_state \<Rightarrow> group_state compile_result" where
  "compile_down_action key_registry packet_id scheduled_us action g =
     rbind (get_or_insert_reason (ka_reason action) (gs_state g)) (\<lambda>(reason_id, st).
     rbind (ok_or (try_from_usize (length (cs_intents st))) (Err TooManyActions)) (\<lambda>intent_start.
     rbind (rfold (compile_down_code key_registry scheduled_us action)
              (sorted_scan_codes key_registry (ka_scan_codes action)) (g\<lparr>gs_state := st\<rparr>)) (\<lambda>g.
     rbind (ok_or (try_from_usize (length (ka_scan_codes action))) Panic) (\<lambda>intent_len.
     Inr (g\<lparr>gs_group_batches := gs_group_batches g @
            [\<lparr>cb_source_action_index = ka_source_action_index action, cb_kind = Down,
              cb_scheduled_us = scheduled_us, cb_reason_id = reason_id,
              cb_intent_start = intent_start, cb_intent_len = intent_len,
              cb_packet_id = packet_id\<rparr>],
            gs_down_source_action_index := Some (ka_source_action_index action)\<rparr>)))))"

section \<open>One packet, and the whole compiler\<close>

definition group_state_new :: "compile_state \<Rightarrow> group_state" where
  "group_state_new st =
     \<lparr>gs_state = st, gs_up_mask = 0, gs_seen_up_mask = 0,
      gs_physical_up_source_action_index_by_slot = replicate MAX_KEYS None,
      gs_group_batches = [], gs_down_mask = 0, gs_down_source_action_index = None\<rparr>"

definition push_packet ::
  "u64 \<Rightarrow> packet_id \<Rightarrow> u32 \<Rightarrow> u32 \<Rightarrow> u8 \<Rightarrow> u32 \<Rightarrow> usize \<Rightarrow> group_state \<Rightarrow> compile_state compile_result" where
  "push_packet scheduled_us packet_id first_batch_index up_intent_start up_intent_len down_intent_start
       group_len g =
     rbind (ok_or (try_from_usize group_len) (Err (TooManyBatchesAtTimestamp scheduled_us)))
       (\<lambda>batch_count.
     rbind (ok_or (try_from_usize (length (cs_intents (gs_state g)) - unat down_intent_start)) Panic)
       (\<lambda>down_intent_len.
     let st = gs_state g in
     Inr (st\<lparr>cs_batches := cs_batches st @ sort_key cb_source_action_index (gs_group_batches g),
             cs_packets := cs_packets st @
               [\<lparr>cp_packet_id = packet_id, cp_scheduled_us = scheduled_us,
                 cp_first_batch_index = first_batch_index, cp_batch_count = batch_count,
                 cp_up_mask = gs_up_mask g, cp_down_mask = gs_down_mask g,
                 cp_up_intent_start = up_intent_start, cp_up_intent_len = up_intent_len,
                 cp_down_intent_start = down_intent_start, cp_down_intent_len = down_intent_len,
                 cp_down_source_action_index = gs_down_source_action_index g\<rparr>]\<rparr>)))"

definition compile_packet ::
  "key_registry \<Rightarrow> u64 \<Rightarrow> packet_id \<Rightarrow> u32 \<Rightarrow> key_action_input list \<Rightarrow> key_action_input option
     \<Rightarrow> compile_state \<Rightarrow> compile_state compile_result" where
  "compile_packet key_registry scheduled_us packet_id first_batch_index actions down_action st =
     rbind (ok_or (try_from_usize (length (cs_intents st))) (Err TooManyActions)) (\<lambda>up_intent_start.
     rbind (rfold (compile_up_action key_registry packet_id scheduled_us) actions (group_state_new st)) (\<lambda>g.
     rbind (ok_or (try_from_usize (length (cs_intents (gs_state g)) - unat up_intent_start)) Panic)
       (\<lambda>up_intent_len.
     rbind (ok_or (try_from_usize (length (cs_intents (gs_state g)))) (Err TooManyActions))
       (\<lambda>down_intent_start.
     rbind (case down_action of
              Some action \<Rightarrow> compile_down_action key_registry packet_id scheduled_us action g
            | None \<Rightarrow> Inr g)
       (push_packet scheduled_us packet_id first_batch_index up_intent_start up_intent_len
          down_intent_start (length actions))))))"

definition compile_group ::
  "key_registry \<Rightarrow> u64 \<Rightarrow> key_action_input list \<Rightarrow> compile_state \<Rightarrow> compile_state compile_result" where
  "compile_group key_registry scheduled_us actions st =
     rbind (ok_or (try_from_usize (length (cs_packets st))) (Err TooManyActions)) (\<lambda>packet_id.
     rbind (ok_or (try_from_usize (length (cs_batches st))) (Err TooManyActions)) (\<lambda>first_batch_index.
     rbind (rfold (validate_action key_registry scheduled_us) actions (None, st)) (\<lambda>(down_action, st).
     compile_packet key_registry scheduled_us packet_id first_batch_index actions down_action st)))"

text \<open>The loop over timestamp groups, on the actions from \<open>group_start\<close> on.\<close>

function compile_groups ::
  "key_registry \<Rightarrow> key_action_input list \<Rightarrow> compile_state \<Rightarrow> compile_state compile_result" where
  "compile_groups key_registry [] st = Inr st"
| "compile_groups key_registry (a # as) st =
     (let scheduled_us = ka_scheduled_us a;
          same = (\<lambda>b. ka_scheduled_us b = scheduled_us)
      in rbind (compile_group key_registry scheduled_us (a # takeWhile same as) st)
           (compile_groups key_registry (dropWhile same as)))"
  by pat_completeness auto
termination
  by (relation "measure (\<lambda>(_, as, _). length as)") (auto intro: le_imp_less_Suc length_dropWhile_le)

definition compile_state_new :: compile_state where
  "compile_state_new =
     \<lparr>cs_next_generation_id = 0, cs_open_generation_by_slot = replicate MAX_KEYS None,
      cs_reason_table = [], cs_reason_map = Map.empty, cs_batches = [], cs_intents = [],
      cs_packets = [], cs_previous_source_index = None, cs_previous_scheduled_us = None\<rparr>"

definition check_allowed :: "u16 list \<Rightarrow> unit compile_result" where
  "check_allowed allowed_scan_codes =
     (if allowed_scan_codes = [] \<or> length allowed_scan_codes > MAX_KEYS
      then Inl (Err InvalidAllowedScanCodeCount)
      else rfold (\<lambda>i _. if allowed_scan_codes ! i \<in> set (take i allowed_scan_codes)
                        then Inl (Err (DuplicateAllowedScanCode (allowed_scan_codes ! i)))
                        else Inr ()) [0..<length allowed_scan_codes] ())"

definition check_closed :: "key_registry \<Rightarrow> open_generation option list \<Rightarrow> unit compile_result" where
  "check_closed key_registry open_by_slot =
     rfold (\<lambda>(slot, slot_open) _. case slot_open of
              None \<Rightarrow> Inr ()
            | Some og \<Rightarrow>
                rbind (ok_or (scan_code_for key_registry (word_of_nat slot)) Panic) (\<lambda>scan_code.
                Inl (Err (UnclosedMusicalGeneration scan_code (og_down_action_index og)
                            (og_down_scheduled_us og)))))
       (enumerate 0 open_by_slot) ()"

definition compile_runtime_intents ::
  "key_action_input list \<Rightarrow> u16 list \<Rightarrow> runtime_schedule compile_result" where
  "compile_runtime_intents actions allowed_scan_codes =
     rbind (check_allowed allowed_scan_codes) (\<lambda>_.
     if length actions > MAX_ACTIONS then Inl (Err TooManyActions) else
     let key_registry = key_registry_new allowed_scan_codes in
     rbind (compile_groups key_registry actions compile_state_new) (\<lambda>st.
     rbind (check_closed key_registry (cs_open_generation_by_slot st)) (\<lambda>_.
     Inr \<lparr>rs_packets = cs_packets st, rs_batches = cs_batches st, rs_intents = cs_intents st,
          rs_generation_count = cs_next_generation_id st, rs_key_registry = key_registry,
          rs_reason_table = cs_reason_table st\<rparr>)))"

section \<open>Frames\<close>

text \<open>What reason interning leaves alone.\<close>

definition same_core :: "compile_state \<Rightarrow> compile_state \<Rightarrow> bool" where
  "same_core st st' \<longleftrightarrow>
     cs_next_generation_id st' = cs_next_generation_id st \<and>
     cs_open_generation_by_slot st' = cs_open_generation_by_slot st \<and>
     cs_batches st' = cs_batches st \<and> cs_intents st' = cs_intents st \<and> cs_packets st' = cs_packets st"

definition same_previous :: "compile_state \<Rightarrow> compile_state \<Rightarrow> bool" where
  "same_previous st st' \<longleftrightarrow> cs_previous_source_index st' = cs_previous_source_index st \<and>
     cs_previous_scheduled_us st' = cs_previous_scheduled_us st"

lemmas frame_defs = same_core_def same_previous_def

lemma reason_safe:
  "safe (\<lambda>(_, st'). same_core st st' \<and> same_previous st st') (get_or_insert_reason reason st)"
  unfolding get_or_insert_reason_def
  by (auto simp: frame_defs split: option.splits intro!: safe_rbind [OF safe_ok_or_Err])

section \<open>The validation pass\<close>

definition action_ok :: "key_registry \<Rightarrow> key_action_input \<Rightarrow> bool" where
  "action_ok reg a \<longleftrightarrow> ka_scan_codes a \<noteq> [] \<and> length (ka_scan_codes a) \<le> MAX_KEYS \<and>
     length (ka_reason a) \<le> MAX_REASON_BYTES \<and>
     (\<forall>sc \<in> set (ka_scan_codes a). slot_for reg sc \<noteq> None) \<and> distinct (ka_scan_codes a)"

lemma slot_bit: 
  assumes "registry_wf reg" and "slot_for reg sc = Some s"
  shows "unat s < registry_len reg" and "unat s < 15" and "unat s < 16"
    and "bit (bit_for_slot s) n \<longleftrightarrow> n = unat s"
proof -
  show "unat s < registry_len reg"
    using assms by (simp add: slot_for_eq_Some scan_code_for_def result_simps registry_len_def)
  moreover show "unat s < 15" using slot_for_less [OF assms] by (simp add: MAX_KEYS_def)
  ultimately show "unat s < 16" "bit (bit_for_slot s) n \<longleftrightarrow> n = unat s"
    by (auto simp: mask_simps)
qed

lemma validate_codes_safe:
  assumes "registry_wf reg"
  shows "safe (\<lambda>mask. (\<forall>sc \<in> set codes. slot_for reg sc \<noteq> None) \<and> distinct codes)
    (rfold (validate_scan_code reg idx) codes 0)"
proof -
  let ?P = "\<lambda>ys (mask :: u16). (\<forall>sc \<in> set ys. slot_for reg sc \<noteq> None) \<and> distinct ys \<and>
    (\<forall>sc \<in> set ys. bit mask (unat (the (slot_for reg sc))))"
  have "safe (?P codes) (rfold (validate_scan_code reg idx) codes 0)"
  proof (rule safe_rfold)
    fix ys sc zs mask
    assume P: "?P ys mask"
    show "safe (?P (ys @ [sc])) (validate_scan_code reg idx sc mask)"
    proof (cases "slot_for reg sc")
      case None
      then show ?thesis by (simp add: validate_scan_code_def)
    next
      case (Some s)
      then show ?thesis
        using P slot_bit [OF assms Some] by (auto simp: validate_scan_code_def mask_simps)
    qed
  qed simp
  then show ?thesis by (rule safe_mono) auto
qed

definition validated ::
  "key_registry \<Rightarrow> compile_state \<Rightarrow> key_action_input list \<Rightarrow> key_action_input option \<times> compile_state \<Rightarrow> bool" where
  "validated reg st0 ys r \<longleftrightarrow>
     same_core st0 (snd r) \<and> (\<forall>a \<in> set ys. action_ok reg a) \<and>
     filter (\<lambda>a. ka_kind a = Down) ys = (case fst r of None \<Rightarrow> [] | Some a \<Rightarrow> [a]) \<and>
     sorted_wrt (<) (map ka_source_action_index ys) \<and>
     (\<forall>q. cs_previous_source_index st0 = Some q \<longrightarrow> (\<forall>a \<in> set ys. q < ka_source_action_index a)) \<and>
     cs_previous_source_index (snd r)
       = (if ys = [] then cs_previous_source_index st0 else Some (ka_source_action_index (last ys))) \<and>
     (\<forall>q. cs_previous_scheduled_us st0 = Some q \<longrightarrow> (\<forall>a \<in> set ys. q \<le> ka_scheduled_us a)) \<and>
     cs_previous_scheduled_us (snd r)
       = (if ys = [] then cs_previous_scheduled_us st0 else Some (ka_scheduled_us (last ys)))"

lemma check_previous_ok:
  "check_previous st a = Inr () \<longleftrightarrow>
     (\<forall>q. cs_previous_source_index st = Some q \<longrightarrow> q < ka_source_action_index a) \<and>
     (\<forall>q. cs_previous_scheduled_us st = Some q \<longrightarrow> q \<le> ka_scheduled_us a)"
  by (auto simp: check_previous_def not_le not_less split: option.splits if_splits)

lemma check_previous_safe: "safe (\<lambda>_. True) (check_previous st a)"
  by (auto simp: check_previous_def split: option.splits)

lemma validated_snoc:
  assumes v: "validated reg st0 ys (d, u)" and prev: "check_previous u a = Inr ()"
    and ok: "action_ok reg a" and frame: "same_core u u'"
    and d': "d' = (if ka_kind a = Down then Some a else d)" "ka_kind a = Down \<Longrightarrow> d = None"
  shows "validated reg st0 (ys @ [a])
    (d', u'\<lparr>cs_previous_source_index := Some (ka_source_action_index a),
            cs_previous_scheduled_us := Some (ka_scheduled_us a)\<rparr>)"
proof -
  have src: "\<forall>b \<in> set ys. ka_source_action_index b < ka_source_action_index a"
  proof (cases ys rule: rev_cases)
    case (snoc zs z)
    then have "ka_source_action_index z < ka_source_action_index a"
      using v prev by (auto simp: validated_def check_previous_ok)
    moreover have "\<forall>b \<in> set zs. ka_source_action_index b < ka_source_action_index z"
      using v snoc by (auto simp: validated_def sorted_wrt_append)
    ultimately show ?thesis using snoc by (auto intro: order.strict_trans)
  qed simp
  have first: "q < ka_source_action_index a" if "cs_previous_source_index st0 = Some q" for q
  proof (cases ys)
    case Nil
    then show ?thesis using v prev that by (auto simp: validated_def check_previous_ok)
  next
    case (Cons b bs)
    then have "q < ka_source_action_index b" using v that by (auto simp: validated_def)
    then show ?thesis using src Cons by (auto intro: order.strict_trans)
  qed
  have firstus: "q \<le> ka_scheduled_us a" if "cs_previous_scheduled_us st0 = Some q" for q
  proof (cases ys rule: rev_cases)
    case Nil
    then show ?thesis using v prev that by (auto simp: validated_def check_previous_ok)
  next
    case (snoc zs z)
    then have "q \<le> ka_scheduled_us z" "ka_scheduled_us z \<le> ka_scheduled_us a"
      using v prev that by (auto simp: validated_def check_previous_ok)
    then show ?thesis by simp
  qed
  show ?thesis
    using v ok frame d' src first firstus
    by (auto simp: validated_def frame_defs sorted_wrt_append)
qed

lemma validate_actions_safe:
  assumes "registry_wf reg"
  shows "safe (validated reg st0 actions) (rfold (validate_action reg us) actions (None, st0))"
proof (rule safe_rfold)
  show "validated reg st0 [] (None, st0)" by (simp add: validated_def frame_defs)
next
  fix ys a zs r
  assume v: "validated reg st0 ys r"
  obtain d u where r: "r = (d, u)" by fastforce
  show "safe (validated reg st0 (ys @ [a])) (validate_action reg us a r)"
    unfolding r validate_action_def prod.case
  proof (rule safe_rbind [OF check_previous_safe], intro safe_if_Err,
      rule safe_rbind [OF validate_codes_safe [OF assms]], rule safe_rbind [OF reason_safe])
    fix dummy :: unit and mask :: u16 and ru :: "reason_id \<times> compile_state"
    assume prev: "check_previous u a = Inr dummy"
      and size: "\<not> (ka_scan_codes a = [] \<or> length (ka_scan_codes a) > MAX_KEYS)"
        "\<not> length (ka_reason a) > MAX_REASON_BYTES"
      and codes: "(\<forall>sc \<in> set (ka_scan_codes a). slot_for reg sc \<noteq> None) \<and> distinct (ka_scan_codes a)"
      and frame: "case ru of (_, st') \<Rightarrow> same_core u st' \<and> same_previous u st'"
    have "action_ok reg a" using size codes by (auto simp: action_ok_def)
    then show "safe (validated reg st0 (ys @ [a])) (case ru of (_, st) \<Rightarrow>
        rbind (if ka_kind a = Down then (if d \<noteq> None then Inl (Err (SameTimestampDownBatch us))
               else Inr (Some a)) else Inr d)
        (\<lambda>down_action. Inr (down_action, st\<lparr>cs_previous_source_index := Some (ka_source_action_index a),
                            cs_previous_scheduled_us := Some (ka_scheduled_us a)\<rparr>)))"
      using v [unfolded r] prev frame
      by (cases ru) (auto intro: validated_snoc)
  qed
qed

section \<open>The release pass\<close>

definition open_of :: "open_generation option list \<Rightarrow> open_table" where
  "open_of os s = (if s < length os then map_option og_generation_id (os ! s) else None)"

definition open_ok :: "open_generation option list \<Rightarrow> bool" where
  "open_ok os \<longleftrightarrow> length os = MAX_KEYS \<and> (\<forall>s g. open_of os s = Some g \<longrightarrow> g \<le> MAX_COMPACT_GENERATION_ID)"

definition up_inv ::
  "key_registry \<Rightarrow> open_generation option list \<Rightarrow> compact_intent list \<Rightarrow> group_state
     \<Rightarrow> compact_intent list \<Rightarrow> bool" where
  "up_inv reg os xs g ups \<longleftrightarrow>
     cs_intents (gs_state g) = xs @ ups \<and> distinct (map intent_slot ups) \<and>
     (\<forall>c \<in> set ups. intent_slot c < registry_len reg \<and> intent_gen c = open_of os (intent_slot c)) \<and>
     (\<forall>n. bit (gs_seen_up_mask g) n \<longleftrightarrow> n \<in> intent_slot ` set ups) \<and>
     (\<forall>n. bit (gs_up_mask g) n \<longleftrightarrow> n \<in> intent_slot ` set ups \<and> open_of os n \<noteq> None) \<and>
     length (gs_physical_up_source_action_index_by_slot g) = MAX_KEYS \<and>
     (\<forall>n < MAX_KEYS. gs_physical_up_source_action_index_by_slot g ! n = None \<longleftrightarrow> \<not> bit (gs_up_mask g) n) \<and>
     length (cs_open_generation_by_slot (gs_state g)) = MAX_KEYS \<and>
     (\<forall>n < MAX_KEYS. cs_open_generation_by_slot (gs_state g) ! n
        = (if n \<in> intent_slot ` set ups then None else os ! n))"

definition up_frame :: "compile_state \<Rightarrow> group_state \<Rightarrow> bool" where
  "up_frame st0 g \<longleftrightarrow>
     cs_next_generation_id (gs_state g) = cs_next_generation_id st0 \<and>
     cs_batches (gs_state g) = cs_batches st0 \<and> cs_packets (gs_state g) = cs_packets st0 \<and>
     same_previous st0 (gs_state g) \<and> gs_down_mask g = 0 \<and> gs_down_source_action_index g = None"

lemma intent_slot_compact_new: "unat s < 16 \<Longrightarrow> intent_slot (compact_new g s) = unat s"
  by (simp add: intent_slot_def)

lemma compact_le_not_sentinel: "g \<le> MAX_COMPACT_GENERATION_ID \<Longrightarrow> g \<noteq> NO_GENERATION_ID \<and> compactable g"
  using MAX_COMPACT_GENERATION_ID_val NO_GENERATION_ID_val
  by (auto simp: compactable_def word_le_nat_alt)

lemma intent_gen_compact_new:
  assumes "unat s < 16" and "\<And>i. og = Some i \<Longrightarrow> i \<le> MAX_COMPACT_GENERATION_ID"
  shows "intent_gen (compact_new (case og of Some i \<Rightarrow> i | None \<Rightarrow> NO_GENERATION_ID) s) = og"
  using assms compact_le_not_sentinel by (auto simp: intent_gen_def split: option.splits)

lemma up_inv_step:
  assumes reg: "registry_wf reg" and os: "open_ok os"
    and inv: "up_inv reg os xs g ups" and slot: "slot_for reg sc = Some s"
  shows "safe (\<lambda>g'. \<exists>c. up_inv reg os xs g' (ups @ [c]) \<and> (up_frame st0 g \<longrightarrow> up_frame st0 g') \<and>
      gs_group_batches g' = gs_group_batches g) (compile_up_code reg us a sc g)"
proof (cases "bit (gs_seen_up_mask g) (unat s)")
  case True
  then show ?thesis using slot slot_bit [OF reg slot] by (simp add: compile_up_code_def mask_simps)
next
  case False
  note s = slot_bit [OF reg slot]
  have smax: "unat s < MAX_KEYS" using s(2) by (simp add: MAX_KEYS_def)
  let ?open = "cs_open_generation_by_slot (gs_state g)"
  let ?og = "map_option og_generation_id (?open ! unat s)"
  define c where "c = compact_new (case ?og of Some i \<Rightarrow> i | None \<Rightarrow> NO_GENERATION_ID) s"
  have new: "unat s \<notin> intent_slot ` set ups" using inv False by (simp add: up_inv_def)
  have len: "length ?open = MAX_KEYS" "length os = MAX_KEYS"
    "length (gs_physical_up_source_action_index_by_slot g) = MAX_KEYS"
    using inv os by (simp_all add: up_inv_def open_ok_def)
  have og: "?og = open_of os (unat s)"
    using inv new s(2) len by (simp add: up_inv_def open_of_def MAX_KEYS_def)
  have cs: "intent_slot c = unat s" "intent_gen c = open_of os (unat s)"
    using s(3) os og by (auto simp: c_def intent_slot_compact_new intent_gen_compact_new open_ok_def)
  obtain g' where g': "compile_up_code reg us a sc g = Inr g'"
      "cs_intents (gs_state g') = cs_intents (gs_state g) @ [c]"
      "gs_seen_up_mask g' = gs_seen_up_mask g OR bit_for_slot s"
      "gs_up_mask g' = (if ?og \<noteq> None then gs_up_mask g OR bit_for_slot s else gs_up_mask g)"
      "gs_physical_up_source_action_index_by_slot g' = (if ?og \<noteq> None
         then (gs_physical_up_source_action_index_by_slot g)[unat s := Some (ka_source_action_index a)]
         else gs_physical_up_source_action_index_by_slot g)"
      "cs_open_generation_by_slot (gs_state g') = ?open[unat s := None]"
      "up_frame st0 g \<longrightarrow> up_frame st0 g'" "gs_group_batches g' = gs_group_batches g"
    using slot s False len
    by (auto simp: c_def compile_up_code_def Let_def mask_simps MAX_KEYS_def up_frame_def frame_defs)
  have img: "n \<in> intent_slot ` set (ups @ [c]) \<longleftrightarrow> n = unat s \<or> n \<in> intent_slot ` set ups" for n
    using cs(1) by auto
  have "up_inv reg os xs g' (ups @ [c])"
    unfolding up_inv_def
  proof (intro conjI allI impI ballI)
    show "cs_intents (gs_state g') = xs @ ups @ [c]" using inv g'(2) by (simp add: up_inv_def)
    show "distinct (map intent_slot (ups @ [c]))" using inv new cs(1) by (simp add: up_inv_def)
    show "intent_slot d < registry_len reg" if "d \<in> set (ups @ [c])" for d
      using that inv s(1) cs(1) by (auto simp: up_inv_def)
    show "intent_gen d = open_of os (intent_slot d)" if "d \<in> set (ups @ [c])" for d
      using that inv cs by (auto simp: up_inv_def)
    show "bit (gs_seen_up_mask g') n \<longleftrightarrow> n \<in> intent_slot ` set (ups @ [c])" for n
      unfolding img g'(3) using inv s(4) by (simp add: up_inv_def mask_simps disj_commute)
    show up: "bit (gs_up_mask g') n \<longleftrightarrow> n \<in> intent_slot ` set (ups @ [c]) \<and> open_of os n \<noteq> None" for n
      unfolding img g'(4) og using inv s(4) by (auto simp: up_inv_def mask_simps)
    show "length (gs_physical_up_source_action_index_by_slot g') = MAX_KEYS" using len g'(5) by simp
    show "gs_physical_up_source_action_index_by_slot g' ! n = None \<longleftrightarrow> \<not> bit (gs_up_mask g') n"
      if "n < MAX_KEYS" for n
      unfolding g'(4,5) using that inv s(4) len(3) smax by (simp add: up_inv_def mask_simps nth_list_update)
    show "length (cs_open_generation_by_slot (gs_state g')) = MAX_KEYS" using len g'(6) by simp
    show "cs_open_generation_by_slot (gs_state g') ! n
        = (if n \<in> intent_slot ` set (ups @ [c]) then None else os ! n)" if "n < MAX_KEYS" for n
      unfolding img g'(6) using that inv len(1) smax by (simp add: up_inv_def nth_list_update)
  qed
  then show ?thesis using g' by auto
qed

lemma set_sorted_scan_codes [simp]: "set (sorted_scan_codes reg codes) = set codes"
  by (simp add: sorted_scan_codes_def)

lemma length_sorted_scan_codes [simp]: "length (sorted_scan_codes reg codes) = length codes"
  by (simp add: sorted_scan_codes_def)

lemma up_codes_safe:
  assumes reg: "registry_wf reg" and os: "open_ok os"
    and inv: "up_inv reg os xs g ups" and frame: "up_frame st0 g"
    and codes: "\<forall>sc \<in> set codes. slot_for reg sc \<noteq> None"
  shows "safe (\<lambda>g'. \<exists>cs. up_inv reg os xs g' (ups @ cs) \<and> length cs = length codes \<and> up_frame st0 g' \<and>
      gs_group_batches g' = gs_group_batches g) (rfold (compile_up_code reg us a) codes g)"
proof -
  let ?P = "\<lambda>ys g'. \<exists>cs. up_inv reg os xs g' (ups @ cs) \<and> length cs = length ys \<and> up_frame st0 g' \<and>
    gs_group_batches g' = gs_group_batches g"
  have "safe (?P codes) (rfold (compile_up_code reg us a) codes g)"
  proof (rule safe_rfold)
    show "?P [] g" using inv frame by (intro exI [of _ "[]"]) simp
  next
    fix ys sc zs u
    assume split: "codes = ys @ sc # zs" and "?P ys u"
    then obtain cs where cs: "up_inv reg os xs u (ups @ cs)" "length cs = length ys" "up_frame st0 u"
      "gs_group_batches u = gs_group_batches g" by auto
    obtain s where s: "slot_for reg sc = Some s" using codes split by auto
    show "safe (?P (ys @ [sc])) (compile_up_code reg us a sc u)"
    proof (rule safe_mono [OF up_inv_step [OF reg os cs(1) s, where ?st0.0 = st0]])
      fix v assume "\<exists>c. up_inv reg os xs v ((ups @ cs) @ [c]) \<and> (up_frame st0 u \<longrightarrow> up_frame st0 v) \<and>
        gs_group_batches v = gs_group_batches u"
      then obtain c where "up_inv reg os xs v (ups @ cs @ [c])" "up_frame st0 v"
        "gs_group_batches v = gs_group_batches g" using cs by auto
      then show "?P (ys @ [sc]) v" using cs(2) by (intro exI [of _ "cs @ [c]"]) simp
    qed
  qed
  then show ?thesis .
qed

text \<open>The batches built so far: their ranges tile the intents of the pass.\<close>

definition batches_tile ::
  "packet_id \<Rightarrow> u64 \<Rightarrow> compact_intent list \<Rightarrow> compiled_batch list \<Rightarrow> compact_intent list \<Rightarrow> bool" where
  "batches_tile pid us xs bs cs \<longleftrightarrow>
     (\<forall>b \<in> set bs. cb_scheduled_us b = us \<and> cb_packet_id b = pid \<and> batch_in_range xs b) \<and>
     concat (map (batch_intents xs) bs) = cs"

lemma batches_tile_snoc:
  assumes tile: "batches_tile pid us xs bs cs" and b: "cb_scheduled_us b = us" "cb_packet_id b = pid"
    and range: "unat (cb_intent_start b) = length xs" "unat (cb_intent_len b) = length ds"
  shows "batches_tile pid us (xs @ ds) (bs @ [b]) (cs @ ds)"
proof -
  have "concat (map (batch_intents (xs @ ds)) (filter (\<lambda>_. True) bs)) = cs"
    using tile concat_batches_append [of bs xs ds "\<lambda>_. True"] by (simp add: batches_tile_def)
  moreover have "batch_intents (xs @ ds) b = ds"
    using range by (simp add: batch_intents_def slice_suffix)
  ultimately show ?thesis
    using tile b range by (auto simp: batches_tile_def batch_in_range_append) (simp add: batch_in_range_def)
qed

definition up_pass ::
  "key_registry \<Rightarrow> compile_state \<Rightarrow> packet_id \<Rightarrow> u64 \<Rightarrow> key_action_input list \<Rightarrow> group_state
     \<Rightarrow> compact_intent list \<Rightarrow> bool" where
  "up_pass reg st0 pid us ys g ups \<longleftrightarrow>
     up_inv reg (cs_open_generation_by_slot st0) (cs_intents st0) g ups \<and> up_frame st0 g \<and>
     batches_tile pid us (cs_intents (gs_state g)) (gs_group_batches g) ups \<and>
     (\<forall>b \<in> set (gs_group_batches g). cb_kind b = Up) \<and>
     map cb_source_action_index (gs_group_batches g)
       = map ka_source_action_index (filter (\<lambda>a. ka_kind a = Up) ys)"

lemma up_pass_empty:
  assumes "open_ok (cs_open_generation_by_slot st0)"
  shows "up_pass reg st0 pid us [] (group_state_new st0) []"
  using assms
  by (auto simp: up_pass_def up_inv_def up_frame_def group_state_new_def batches_tile_def frame_defs
      open_ok_def)

lemma up_inv_reason:
  assumes "same_core (gs_state g) st"
  shows "up_inv reg os xs (g\<lparr>gs_state := st\<rparr>) ups \<longleftrightarrow> up_inv reg os xs g ups"
  using assms by (simp add: up_inv_def frame_defs)

lemma up_frame_reason:
  "same_core (gs_state g) st \<Longrightarrow> same_previous (gs_state g) st \<Longrightarrow> up_frame st0 g \<Longrightarrow>
   up_frame st0 (g\<lparr>gs_state := st\<rparr>)"
  by (simp add: up_frame_def frame_defs)

lemma safe_try_from: "safe (\<lambda>w. unat (w :: 'a::len word) = n) (ok_or (try_from_usize n) (Err e))"
  by (rule safe_ok_or_Err) (simp add: checked_simps unat_word_of_nat_small)

lemma safe_try_from_u8: "n < 256 \<Longrightarrow> safe (\<lambda>w. unat (w :: u8) = n) (ok_or (try_from_usize n) Panic)"
  by (rule safe_ok_or_Panic) (simp add: try_from_usize_def unat_word_of_nat_small)

lemma up_action_safe:
  assumes reg: "registry_wf reg" and os: "open_ok (cs_open_generation_by_slot st0)"
    and pass: "up_pass reg st0 pid us ys g ups" and a: "action_ok reg a"
  shows "safe (\<lambda>g'. \<exists>ups'. up_pass reg st0 pid us (ys @ [a]) g' ups') (compile_up_action reg pid us a g)"
proof (cases "ka_kind a = Up")
  case False
  then show ?thesis using pass by (auto simp: compile_up_action_def up_pass_def)
next
  case True
  let ?os = "cs_open_generation_by_slot st0" and ?xs = "cs_intents st0"
  show ?thesis
    unfolding compile_up_action_def if_not_P [OF not_not [THEN iffD2, OF True]]
  proof (rule safe_rbind [OF reason_safe], clarify, rule safe_rbind [OF safe_try_from])
    fix rid st and start :: u32
    assume frame: "same_core (gs_state g) st" "same_previous (gs_state g) st"
      and start: "unat start = length (cs_intents st)"
    let ?g = "g\<lparr>gs_state := st\<rparr>"
    have inv: "up_inv reg ?os ?xs ?g ups" "up_frame st0 ?g" "gs_group_batches ?g = gs_group_batches g"
      using pass frame up_inv_reason [OF frame(1)] up_frame_reason [OF frame]
      by (auto simp: up_pass_def)
    have codes: "\<forall>sc \<in> set (sorted_scan_codes reg (ka_scan_codes a)). slot_for reg sc \<noteq> None"
      using a by (simp add: action_ok_def)
    have short: "length (ka_scan_codes a) < 256" using a by (simp add: action_ok_def MAX_KEYS_def)
    show "safe (\<lambda>g'. \<exists>ups'. up_pass reg st0 pid us (ys @ [a]) g' ups')
      (rbind (rfold (compile_up_code reg us a) (sorted_scan_codes reg (ka_scan_codes a)) ?g) (\<lambda>g.
       rbind (ok_or (try_from_usize (length (ka_scan_codes a))) Panic) (\<lambda>intent_len.
       Inr (g\<lparr>gs_group_batches := gs_group_batches g @
             [\<lparr>cb_source_action_index = ka_source_action_index a, cb_kind = Up,
               cb_scheduled_us = us, cb_reason_id = rid, cb_intent_start = start,
               cb_intent_len = intent_len, cb_packet_id = pid\<rparr>]\<rparr>))))"
    proof (rule safe_rbind [OF up_codes_safe [OF reg os inv(1,2) codes]], elim exE conjE,
        rule safe_rbind [OF safe_try_from_u8 [OF short]])
      fix g' cs and len :: u8
      assume cs: "up_inv reg ?os ?xs g' (ups @ cs)" "length cs = length (sorted_scan_codes reg (ka_scan_codes a))"
        "up_frame st0 g'" "gs_group_batches g' = gs_group_batches ?g"
        and len: "unat len = length (ka_scan_codes a)"
      let ?b = "\<lparr>cb_source_action_index = ka_source_action_index a, cb_kind = Up, cb_scheduled_us = us,
        cb_reason_id = rid, cb_intent_start = start, cb_intent_len = len, cb_packet_id = pid\<rparr>"
      have xs: "cs_intents (gs_state g) = ?xs @ ups" "cs_intents (gs_state g') = (?xs @ ups) @ cs"
        using pass cs(1) by (simp_all add: up_pass_def up_inv_def)
      have "batches_tile pid us ((?xs @ ups) @ cs) (gs_group_batches g @ [?b]) (ups @ cs)"
        using pass start len cs(2) frame(1) xs(1)
        by (intro batches_tile_snoc) (simp_all add: up_pass_def frame_defs)
      then have "up_pass reg st0 pid us (ys @ [a]) (g'\<lparr>gs_group_batches := gs_group_batches g' @ [?b]\<rparr>) (ups @ cs)"
        using pass cs True xs by (auto simp: up_pass_def up_inv_def up_frame_def)
      then show "safe (\<lambda>g'. \<exists>ups'. up_pass reg st0 pid us (ys @ [a]) g' ups')
          (Inr (g'\<lparr>gs_group_batches := gs_group_batches g' @ [?b]\<rparr>))"
        by auto
    qed
  qed
qed

lemma up_actions_safe:
  assumes "registry_wf reg" and "open_ok (cs_open_generation_by_slot st0)"
    and "\<forall>a \<in> set actions. action_ok reg a"
  shows "safe (\<lambda>g. \<exists>ups. up_pass reg st0 pid us actions g ups)
    (rfold (compile_up_action reg pid us) actions (group_state_new st0))"
proof (rule safe_rfold)
  show "\<exists>ups. up_pass reg st0 pid us [] (group_state_new st0) ups"
    using up_pass_empty [OF assms(2)] by auto
next
  fix ys a zs g
  assume "actions = ys @ a # zs" "\<exists>ups. up_pass reg st0 pid us ys g ups"
  then show "safe (\<lambda>g. \<exists>ups. up_pass reg st0 pid us (ys @ [a]) g ups) (compile_up_action reg pid us a g)"
    using assms up_action_safe by fastforce
qed

section \<open>The activation pass\<close>

definition slot_of :: "key_registry \<Rightarrow> u16 \<Rightarrow> nat" where
  "slot_of reg sc = (case slot_for reg sc of Some s \<Rightarrow> unat s | None \<Rightarrow> 255)"

definition overlay :: "compact_intent list \<Rightarrow> open_table \<Rightarrow> open_table" where
  "overlay cs op s = (case map_of (map (\<lambda>c. (intent_slot c, intent_gen c)) cs) s of
     Some g \<Rightarrow> g | None \<Rightarrow> op s)"

lemma overlay_Nil [simp]: "overlay [] op = op"
  by (simp add: overlay_def fun_eq_iff)

lemma overlay_snoc:
  assumes "intent_slot c \<notin> intent_slot ` set cs"
  shows "overlay (cs @ [c]) op = (overlay cs op)(intent_slot c := intent_gen c)"
proof
  fix s
  have "map_of (map (\<lambda>c. (intent_slot c, intent_gen c)) cs) (intent_slot c) = None"
    using assms by (auto simp: map_of_eq_None_iff image_image)
  then show "overlay (cs @ [c]) op s = ((overlay cs op)(intent_slot c := intent_gen c)) s"
    by (auto simp: overlay_def map_add_def split: option.splits)
qed

lemma step_open_overlay:
  "step_open op (ups, downs) = overlay downs (\<lambda>s. if s \<in> intent_slot ` set ups then None else op s)"
  by (auto simp: fun_eq_iff step_open_def overlay_def)

definition down_inv :: "key_registry \<Rightarrow> group_state \<Rightarrow> u16 list \<Rightarrow> group_state \<Rightarrow> compact_intent list \<Rightarrow> bool" where
  "down_inv reg g0 ys g downs \<longleftrightarrow>
     cs_intents (gs_state g) = cs_intents (gs_state g0) @ downs \<and>
     map intent_slot downs = map (slot_of reg) ys \<and> distinct (map intent_slot downs) \<and>
     map (unat \<circ> compact_generation_id) downs
       = [unat (cs_next_generation_id (gs_state g0))..<unat (cs_next_generation_id (gs_state g))] \<and>
     unat (cs_next_generation_id (gs_state g0)) \<le> unat (cs_next_generation_id (gs_state g)) \<and>
     unat (cs_next_generation_id (gs_state g)) < 2 ^ 60 \<and>
     (\<forall>c \<in> set downs. intent_slot c < registry_len reg \<and> intent_gen c \<noteq> None \<and>
        gs_physical_up_source_action_index_by_slot g0 ! intent_slot c = None \<and>
        cs_open_generation_by_slot (gs_state g0) ! intent_slot c = None) \<and>
     (\<forall>n. bit (gs_down_mask g) n \<longleftrightarrow> n \<in> intent_slot ` set downs) \<and>
     length (cs_open_generation_by_slot (gs_state g)) = MAX_KEYS \<and>
     open_of (cs_open_generation_by_slot (gs_state g))
       = overlay downs (open_of (cs_open_generation_by_slot (gs_state g0)))"

definition down_frame :: "group_state \<Rightarrow> group_state \<Rightarrow> bool" where
  "down_frame g0 g \<longleftrightarrow>
     cs_batches (gs_state g) = cs_batches (gs_state g0) \<and> cs_packets (gs_state g) = cs_packets (gs_state g0) \<and>
     same_previous (gs_state g0) (gs_state g) \<and> gs_up_mask g = gs_up_mask g0 \<and>
     gs_physical_up_source_action_index_by_slot g = gs_physical_up_source_action_index_by_slot g0 \<and>
     gs_group_batches g = gs_group_batches g0 \<and>
     gs_down_source_action_index g = gs_down_source_action_index g0"

lemma open_of_update:
  "s < length os \<Longrightarrow> open_of (os[s := og]) = (open_of os)(s := map_option og_generation_id og)"
  by (auto simp: fun_eq_iff open_of_def nth_list_update)

lemma down_inv_step:
  assumes reg: "registry_wf reg" and inv: "down_inv reg g0 ys g downs" and frame: "down_frame g0 g"
    and phys: "length (gs_physical_up_source_action_index_by_slot g0) = MAX_KEYS"
    and len0: "length (cs_open_generation_by_slot (gs_state g0)) = MAX_KEYS"
    and slot: "slot_for reg sc = Some s"
  shows "safe (\<lambda>g'. \<exists>c. down_inv reg g0 (ys @ [sc]) g' (downs @ [c]) \<and> down_frame g0 g')
      (compile_down_code reg us a sc g)"
proof -
  note s = slot_bit [OF reg slot]
  have smax: "unat s < MAX_KEYS" using s(2) by (simp add: MAX_KEYS_def)
  let ?st = "gs_state g"
  let ?open = "cs_open_generation_by_slot ?st" and ?next = "cs_next_generation_id ?st"
  let ?phys = "gs_physical_up_source_action_index_by_slot g"
  have len: "length ?open = MAX_KEYS" "length ?phys = MAX_KEYS"
    using inv frame phys by (simp_all add: down_inv_def down_frame_def)
  show ?thesis
  proof (cases "?phys ! unat s \<noteq> None \<or> ?open ! unat s \<noteq> None \<or> ?next > MAX_COMPACT_GENERATION_ID")
    case True
    then show ?thesis
      using slot len smax by (auto simp: compile_down_code_def Let_def split: option.splits)
  next
    case False
    then have clear: "?phys ! unat s = None" "?open ! unat s = None" "?next \<le> MAX_COMPACT_GENERATION_ID"
      by auto
    define c where "c = compact_new ?next s"
    have c: "intent_slot c = unat s" "intent_gen c = Some ?next" "compact_generation_id c = ?next"
      using s(3) compact_le_not_sentinel [OF clear(3)]
      by (auto simp: c_def intent_slot_def intent_gen_def)
    have nextb: "unat ?next + 1 < 2 ^ 60"
      using clear(3) MAX_COMPACT_GENERATION_ID_val by (simp add: word_le_nat_alt)
    then have next1: "unat (?next + 1) = unat ?next + 1"
      using unat_add_no_wrap [of ?next 1] by simp
    have add: "checked_add ?next 1 = Some (?next + 1)" using nextb by (simp add: checked_simps)
    have old: "open_of ?open (unat s) = None" using clear(2) len smax by (simp add: open_of_def)
    have fresh: "unat s \<notin> intent_slot ` set downs"
    proof
      assume "unat s \<in> intent_slot ` set downs"
      then obtain d where d: "d \<in> set downs" "intent_slot d = unat s" by auto
      then have "open_of ?open (unat s) = intent_gen d"
        using inv map_of_slots [of downs "unat s" "intent_gen d"] by (auto simp: down_inv_def overlay_def)
      then show False using old inv d(1) by (auto simp: down_inv_def)
    qed
    have open0: "cs_open_generation_by_slot (gs_state g0) ! unat s = None"
    proof -
      have "map_of (map (\<lambda>c. (intent_slot c, intent_gen c)) downs) (unat s) = None"
        using fresh by (auto simp: map_of_eq_None_iff image_image)
      then have "open_of (cs_open_generation_by_slot (gs_state g0)) (unat s) = None"
        using old inv by (simp add: down_inv_def overlay_def)
      then show ?thesis using len0 smax by (simp add: open_of_def)
    qed
    obtain g' where g': "compile_down_code reg us a sc g = Inr g'"
        "cs_intents (gs_state g') = cs_intents ?st @ [c]"
        "gs_down_mask g' = gs_down_mask g OR bit_for_slot s"
        "cs_next_generation_id (gs_state g') = ?next + 1"
        "cs_open_generation_by_slot (gs_state g') = ?open[unat s := Some \<lparr>og_generation_id = ?next,
           og_down_action_index = ka_source_action_index a, og_down_scheduled_us = us\<rparr>]"
        "down_frame g0 g'"
      using slot smax len clear leD [OF clear(3)] add frame
      by (auto simp: c_def compile_down_code_def Let_def down_frame_def frame_defs)
    have "down_inv reg g0 (ys @ [sc]) g' (downs @ [c])"
      unfolding down_inv_def
    proof (intro conjI allI ballI)
      show "cs_intents (gs_state g') = cs_intents (gs_state g0) @ downs @ [c]"
        using inv g'(2) by (simp add: down_inv_def)
      show "map intent_slot (downs @ [c]) = map (slot_of reg) (ys @ [sc])"
        using inv c(1) slot by (simp add: down_inv_def slot_of_def)
      have "distinct (map intent_slot downs)" using inv unfolding down_inv_def by blast
      then show "distinct (map intent_slot (downs @ [c]))" using fresh c(1) by simp
      show "map (unat \<circ> compact_generation_id) (downs @ [c])
        = [unat (cs_next_generation_id (gs_state g0))..<unat (cs_next_generation_id (gs_state g'))]"
        using inv c(3) g'(4) next1 by (simp add: down_inv_def)
      show "unat (cs_next_generation_id (gs_state g0)) \<le> unat (cs_next_generation_id (gs_state g'))"
        using inv g'(4) next1 by (simp add: down_inv_def)
      show "unat (cs_next_generation_id (gs_state g')) < 2 ^ 60" using g'(4) next1 nextb by simp
      show "intent_slot d < registry_len reg" if "d \<in> set (downs @ [c])" for d
        using that inv c(1) s(1) by (auto simp: down_inv_def)
      show "intent_gen d \<noteq> None" if "d \<in> set (downs @ [c])" for d
        using that inv c(2) by (auto simp: down_inv_def)
      show "gs_physical_up_source_action_index_by_slot g0 ! intent_slot d = None"
        if "d \<in> set (downs @ [c])" for d
        using that inv c(1) clear(1) frame by (auto simp: down_inv_def down_frame_def)
      show "cs_open_generation_by_slot (gs_state g0) ! intent_slot d = None" if "d \<in> set (downs @ [c])" for d
        using that inv c(1) open0 by (auto simp: down_inv_def)
      show "bit (gs_down_mask g') n \<longleftrightarrow> n \<in> intent_slot ` set (downs @ [c])" for n
        using inv c(1) g'(3) s(4) by (auto simp: down_inv_def mask_simps)
      show "length (cs_open_generation_by_slot (gs_state g')) = MAX_KEYS" using g'(5) len by simp
      show "open_of (cs_open_generation_by_slot (gs_state g'))
          = overlay (downs @ [c]) (open_of (cs_open_generation_by_slot (gs_state g0)))"
        using inv fresh c smax len overlay_snoc [of c downs]
        by (simp add: g'(5) open_of_update down_inv_def)
    qed
    then show ?thesis using g' by auto
  qed
qed

lemma down_codes_safe:
  assumes reg: "registry_wf reg" and inv: "down_inv reg g0 [] g0 []"
    and phys: "length (gs_physical_up_source_action_index_by_slot g0) = MAX_KEYS"
    and codes: "\<forall>sc \<in> set codes. slot_for reg sc \<noteq> None"
  shows "safe (\<lambda>g. \<exists>downs. down_inv reg g0 codes g downs \<and> down_frame g0 g)
    (rfold (compile_down_code reg us a) codes g0)"
proof (rule safe_rfold)
  show "\<exists>downs. down_inv reg g0 [] g0 downs \<and> down_frame g0 g0"
    using inv by (auto simp: down_frame_def frame_defs)
next
  fix ys sc zs u
  assume split: "codes = ys @ sc # zs" and "\<exists>downs. down_inv reg g0 ys u downs \<and> down_frame g0 u"
  then obtain downs where d: "down_inv reg g0 ys u downs" "down_frame g0 u" by auto
  obtain s where s: "slot_for reg sc = Some s" using codes split by auto
  have len0: "length (cs_open_generation_by_slot (gs_state g0)) = MAX_KEYS"
    using inv by (simp add: down_inv_def)
  show "safe (\<lambda>g. \<exists>downs. down_inv reg g0 (ys @ [sc]) g downs \<and> down_frame g0 g)
      (compile_down_code reg us a sc u)"
    by (rule safe_mono [OF down_inv_step [OF reg d phys len0 s]]) auto
qed

definition down_pass ::
  "key_registry \<Rightarrow> packet_id \<Rightarrow> u64 \<Rightarrow> group_state \<Rightarrow> key_action_input list \<Rightarrow> group_state
     \<Rightarrow> compact_intent list \<Rightarrow> compiled_batch list \<Rightarrow> bool" where
  "down_pass reg pid us g0 ds g downs dbs \<longleftrightarrow>
     (\<exists>codes. down_inv reg g0 codes g downs \<and> sorted (map (slot_of reg) codes)) \<and>
     cs_batches (gs_state g) = cs_batches (gs_state g0) \<and> cs_packets (gs_state g) = cs_packets (gs_state g0) \<and>
     same_previous (gs_state g0) (gs_state g) \<and> gs_up_mask g = gs_up_mask g0 \<and>
     gs_group_batches g = gs_group_batches g0 @ dbs \<and>
     batches_tile pid us (cs_intents (gs_state g)) dbs downs \<and> (\<forall>b \<in> set dbs. cb_kind b = Down) \<and>
     map cb_source_action_index dbs = map ka_source_action_index ds"

lemma sorted_slots: "sorted (map (slot_of reg) (sorted_scan_codes reg codes))"
proof -
  let ?key = "\<lambda>sc. case slot_for reg sc of Some s \<Rightarrow> s | None \<Rightarrow> (255 :: u8)"
  have "map (slot_of reg) (sorted_scan_codes reg codes) = map unat (map ?key (sorted_scan_codes reg codes))"
    by (auto simp: slot_of_def split: option.splits)
  moreover have "sorted (map ?key (sorted_scan_codes reg codes))" by (simp add: sorted_scan_codes_def)
  then have "sorted (map unat (map ?key (sorted_scan_codes reg codes)))"
    by (simp add: sorted_map word_le_nat_alt)
  ultimately show ?thesis by (simp only:)
qed

lemma down_inv_refl:
  assumes "up_inv reg os xs g ups" and "up_frame st0 g" and "unat (cs_next_generation_id st0) < 2 ^ 60"
  shows "down_inv reg g [] g []"
  using assms by (simp add: down_inv_def up_inv_def up_frame_def)

lemma down_action_safe:
  assumes reg: "registry_wf reg" and a: "action_ok reg a"
    and refl: "down_inv reg g [] g []"
    and phys: "length (gs_physical_up_source_action_index_by_slot g) = MAX_KEYS"
  shows "safe (\<lambda>g'. \<exists>downs dbs. down_pass reg pid us g [a] g' downs dbs) (compile_down_action reg pid us a g)"
  unfolding compile_down_action_def
proof (rule safe_rbind [OF reason_safe], clarify, rule safe_rbind [OF safe_try_from])
  fix rid st and start :: u32
  assume frame: "same_core (gs_state g) st" "same_previous (gs_state g) st"
    and start: "unat start = length (cs_intents st)"
  let ?g = "g\<lparr>gs_state := st\<rparr>" and ?codes = "sorted_scan_codes reg (ka_scan_codes a)"
  have inv: "down_inv reg ?g [] ?g []" using refl frame(1) by (simp add: down_inv_def frame_defs)
  have codes: "\<forall>sc \<in> set ?codes. slot_for reg sc \<noteq> None" using a by (simp add: action_ok_def)
  have short: "length (ka_scan_codes a) < 256" using a by (simp add: action_ok_def MAX_KEYS_def)
  show "safe (\<lambda>g'. \<exists>downs dbs. down_pass reg pid us g [a] g' downs dbs)
     (rbind (rfold (compile_down_code reg us a) ?codes ?g) (\<lambda>g.
      rbind (ok_or (try_from_usize (length (ka_scan_codes a))) Panic) (\<lambda>intent_len.
      Inr (g\<lparr>gs_group_batches := gs_group_batches g @
            [\<lparr>cb_source_action_index = ka_source_action_index a, cb_kind = Down,
              cb_scheduled_us = us, cb_reason_id = rid, cb_intent_start = start,
              cb_intent_len = intent_len, cb_packet_id = pid\<rparr>],
            gs_down_source_action_index := Some (ka_source_action_index a)\<rparr>))))"
  proof (rule safe_rbind [OF down_codes_safe [OF reg inv _ codes]], simp add: phys, elim exE conjE,
      rule safe_rbind [OF safe_try_from_u8 [OF short]])
    fix g' downs and len :: u8
    assume d: "down_inv reg ?g ?codes g' downs" "down_frame ?g g'"
      and len: "unat len = length (ka_scan_codes a)"
    let ?b = "\<lparr>cb_source_action_index = ka_source_action_index a, cb_kind = Down, cb_scheduled_us = us,
      cb_reason_id = rid, cb_intent_start = start, cb_intent_len = len, cb_packet_id = pid\<rparr>"
    have downs: "cs_intents (gs_state g') = cs_intents (gs_state g) @ downs" "length downs = length (ka_scan_codes a)"
      using d(1) frame(1) length_sorted_scan_codes [of reg "ka_scan_codes a"]
      by (auto simp: down_inv_def frame_defs dest: map_eq_imp_length_eq)
    have "batches_tile pid us (cs_intents (gs_state g) @ downs) ([] @ [?b]) ([] @ downs)"
      using start len downs frame(1) by (intro batches_tile_snoc) (simp_all add: batches_tile_def frame_defs)
    then have "down_pass reg pid us g [a] (g'\<lparr>gs_group_batches := gs_group_batches g' @ [?b],
        gs_down_source_action_index := Some (ka_source_action_index a)\<rparr>) downs [?b]"
      using d frame sorted_slots [of reg "ka_scan_codes a"] downs(1)
      by (auto simp: down_pass_def down_inv_def down_frame_def frame_defs)
    then show "safe (\<lambda>g'. \<exists>downs dbs. down_pass reg pid us g [a] g' downs dbs)
        (Inr (g'\<lparr>gs_group_batches := gs_group_batches g' @ [?b],
                gs_down_source_action_index := Some (ka_source_action_index a)\<rparr>))"
      by auto
  qed
qed

lemma no_down_pass:
  assumes "down_inv reg g [] g []"
  shows "down_pass reg pid us g [] g [] []"
  using assms by (auto simp: down_pass_def frame_defs batches_tile_def intro: exI [of _ "[]"])

section \<open>One group keeps the contract\<close>

definition compile_inv :: "key_registry \<Rightarrow> compile_state \<Rightarrow> bool" where
  "compile_inv reg st \<longleftrightarrow>
     arena_wf reg (cs_intents st) (cs_batches st) (cs_packets st)
       (unat (cs_next_generation_id st)) (open_of (cs_open_generation_by_slot st)) \<and>
     length (cs_open_generation_by_slot st) = MAX_KEYS \<and>
     cs_previous_scheduled_us st
       = (if cs_packets st = [] then None else Some (cp_scheduled_us (last (cs_packets st)))) \<and>
     sorted_wrt (<) (map cb_source_action_index (cs_batches st)) \<and>
     cs_previous_source_index st
       = (if cs_batches st = [] then None else Some (cb_source_action_index (last (cs_batches st))))"

lemma arena_open:
  assumes wf: "arena_wf reg xs bs ps n op" and s: "op s = Some g"
  shows "unat g < n" and "s < registry_len reg" and "g \<le> MAX_COMPACT_GENERATION_ID"
proof -
  have "replay (packet_trace xs ps) (\<lambda>_. None) = Some op" using wf by (simp add: arena_wf_def)
  from replay_opened [OF this s] obtain i c where
    c: "i < length ps" "c \<in> set (packet_downs xs (ps ! i))" "intent_slot c = s" "intent_gen c = Some g"
    by (auto simp: packet_trace_def)
  have eq: "concat (map (\<lambda>p. map (unat \<circ> compact_generation_id) (packet_downs xs p)) ps) = [0..<n]"
    using wf by (simp add: arena_wf_def)
  have "(unat \<circ> compact_generation_id) c
      \<in> set (concat (map (\<lambda>p. map (unat \<circ> compact_generation_id) (packet_downs xs p)) ps))"
    using c by (auto intro!: bexI [of _ "ps ! i"])
  then have "unat (compact_generation_id c) < n" unfolding eq by simp
  then show g: "unat g < n" using c(4) by (simp add: intent_gen_def split: if_splits)
  show "s < registry_len reg"
    using wf c by (auto simp: arena_wf_def packet_ok_def)
  have "n < 2 ^ 60" using wf by (simp add: arena_wf_def)
  then show "g \<le> MAX_COMPACT_GENERATION_ID"
    using g MAX_COMPACT_GENERATION_ID_val by (simp add: word_le_nat_alt)
qed

lemma compile_inv_open_ok: "compile_inv reg st \<Longrightarrow> open_ok (cs_open_generation_by_slot st)"
  by (auto simp: compile_inv_def open_ok_def dest: arena_open(3))

lemma slots_bound:
  assumes "distinct (map intent_slot cs)" and "\<forall>c \<in> set cs. intent_slot c < n"
  shows "length cs \<le> n"
proof -
  have "card (set (map intent_slot cs)) \<le> card {..<n}" using assms(2) by (intro card_mono) auto
  then show ?thesis using assms(1) by (simp add: distinct_card del: set_map)
qed

text \<open>Sorting a group's batches by source index puts them in authored order.\<close>

lemma sorted_group_batches:
  assumes ups: "map cb_source_action_index ubs = map ka_source_action_index (filter (\<lambda>a. ka_kind a = Up) actions)"
    and downs: "map cb_source_action_index dbs = map ka_source_action_index (filter (\<lambda>a. ka_kind a = Down) actions)"
    and kinds: "\<forall>b \<in> set ubs. cb_kind b = Up" "\<forall>b \<in> set dbs. cb_kind b = Down"
    and src: "sorted_wrt (<) (map ka_source_action_index actions)"
  defines "L \<equiv> sort_key cb_source_action_index (ubs @ dbs)"
  shows "map cb_source_action_index L = map ka_source_action_index actions"
    and "filter (\<lambda>b. cb_kind b = Up) L = ubs" and "filter (\<lambda>b. cb_kind b = Down) L = dbs"
proof -
  have ndown: "(\<lambda>a. ka_kind a = Down) = (\<lambda>a. ka_kind a \<noteq> Up)"
    by (rule ext) (metis action_kind.exhaust action_kind.distinct(1))
  have "mset (map cb_source_action_index L) = mset (map ka_source_action_index actions)"
  proof -
    have "mset (map cb_source_action_index L) = mset (map cb_source_action_index ubs) + mset (map cb_source_action_index dbs)"
      by (simp add: L_def)
    also have "\<dots> = image_mset ka_source_action_index
        (mset (filter (\<lambda>a. ka_kind a = Up) actions) + mset (filter (\<lambda>a. ka_kind a \<noteq> Up) actions))"
      unfolding ups downs ndown by (simp only: mset_map image_mset_union)
    also have "mset (filter (\<lambda>a. ka_kind a = Up) actions) + mset (filter (\<lambda>a. ka_kind a \<noteq> Up) actions) = mset actions"
      by (simp add: multiset_partition [symmetric])
    finally show ?thesis by simp
  qed
  then have "sort (map cb_source_action_index L) = map ka_source_action_index actions"
    using src by (intro properties_for_sort) (simp_all add: strict_sorted_iff)
  moreover have "sorted (map cb_source_action_index L)" by (simp add: L_def)
  ultimately show "map cb_source_action_index L = map ka_source_action_index actions"
    by (simp add: sorted_sort_id)
  have sub: "sorted (map ka_source_action_index (filter P actions))" for P
    using src by (simp add: strict_sorted_iff sorted_filter)
  have "filter (\<lambda>b. cb_kind b = Up) (ubs @ dbs) = ubs" "filter (\<lambda>b. cb_kind b = Down) (ubs @ dbs) = dbs"
    using kinds by (auto simp: filter_empty_conv filter_id_conv)
  then show "filter (\<lambda>b. cb_kind b = Up) L = ubs" "filter (\<lambda>b. cb_kind b = Down) L = dbs"
    unfolding L_def filter_sort using sub ups downs by (simp_all add: sort_key_id_if_sorted)
qed

text \<open>A finished group's packet satisfies the schedule contract.\<close>

lemma packet_finish:
  assumes up: "up_pass reg st pid us actions g ups"
    and down: "down_pass reg pid us g (filter (\<lambda>a. ka_kind a = Down) actions) g' downs dbs"
    and src: "sorted_wrt (<) (map ka_source_action_index actions)" and ne: "actions \<noteq> []"
    and p: "unat (cp_first_batch_index p) = length (cs_batches st)" "unat (cp_batch_count p) = length actions"
      "unat (cp_up_intent_start p) = length (cs_intents st)" "unat (cp_up_intent_len p) = length ups"
      "unat (cp_down_intent_start p) = length (cs_intents st @ ups)" "unat (cp_down_intent_len p) = length downs"
      "cp_up_mask p = gs_up_mask g'" "cp_down_mask p = gs_down_mask g'" "cp_scheduled_us p = us"
      "cp_packet_id p = pid"
  defines "L \<equiv> sort_key cb_source_action_index (gs_group_batches g')"
    and "xs \<equiv> cs_intents st @ ups @ downs" and "bs \<equiv> cs_batches st"
  shows "packet_ups xs p = ups" and "packet_downs xs p = downs" and "packet_batches (bs @ L) p = L"
    and "packet_ok reg xs (bs @ L) p"
    and "map cb_source_action_index L = map ka_source_action_index actions"
proof -
  let ?ubs = "gs_group_batches g"
  have gb: "gs_group_batches g' = ?ubs @ dbs" using down by (simp add: down_pass_def)
  have intents: "cs_intents (gs_state g) = cs_intents st @ ups" using up by (simp add: up_pass_def up_inv_def)
  have intents': "cs_intents (gs_state g') = xs"
    using down intents by (auto simp: down_pass_def down_inv_def xs_def)
  note L = sorted_group_batches [of ?ubs actions dbs, folded gb, folded L_def]
  have kinds: "\<forall>b \<in> set ?ubs. cb_kind b = Up" "\<forall>b \<in> set dbs. cb_kind b = Down"
    using up down by (simp_all add: up_pass_def down_pass_def)
  have srcs: "map cb_source_action_index ?ubs = map ka_source_action_index (filter (\<lambda>a. ka_kind a = Up) actions)"
    "map cb_source_action_index dbs = map ka_source_action_index (filter (\<lambda>a. ka_kind a = Down) actions)"
    using up down by (simp_all add: up_pass_def down_pass_def)
  show Lsrc: "map cb_source_action_index L = map ka_source_action_index actions"
    by (rule L(1) [OF srcs kinds src])
  have Lk: "filter (\<lambda>b. cb_kind b = Up) L = ?ubs" "filter (\<lambda>b. cb_kind b = Down) L = dbs"
    by (rule L(2,3) [OF srcs kinds src])+
  have lenL: "length L = length actions" using map_eq_imp_length_eq [OF Lsrc] .
  show pu: "packet_ups xs p = ups"
    using p by (simp add: packet_ups_def xs_def slice_middle)
  show pd: "packet_downs xs p = downs"
    using p by (simp add: packet_downs_def xs_def slice_middle2)
  show pb: "packet_batches (bs @ L) p = L"
    using p lenL by (simp add: packet_batches_def bs_def slice_suffix)
  have tileu: "batches_tile pid us (cs_intents st @ ups) ?ubs ups"
    using up intents by (simp add: up_pass_def)
  have tiled: "batches_tile pid us xs dbs downs" using down intents' by (simp add: down_pass_def)
  have setL: "set L = set ?ubs \<union> set dbs" by (simp add: L_def gb)
  have inr: "\<forall>b \<in> set L. cb_scheduled_us b = us \<and> cb_packet_id b = pid \<and> batch_in_range xs b"
    using tileu tiled batch_in_range_append [of "cs_intents st @ ups" _ downs]
    unfolding setL xs_def batches_tile_def by auto
  have "concat (map (batch_intents xs) (filter (\<lambda>b. cb_kind b = Up) L)) = ups"
    using tileu concat_batches_append [of ?ubs "cs_intents st @ ups" downs "\<lambda>_. True"]
    unfolding Lk xs_def batches_tile_def by simp
  moreover have "concat (map (batch_intents xs) (filter (\<lambda>b. cb_kind b = Down) L)) = downs"
    using tiled unfolding Lk batches_tile_def by simp
  moreover have "\<forall>c \<in> set ups \<union> set downs. intent_slot c < registry_len reg"
    using up down by (auto simp: up_pass_def up_inv_def down_pass_def down_inv_def)
  moreover have "\<forall>n. bit (gs_up_mask g') n \<longleftrightarrow> (\<exists>c \<in> set ups. intent_slot c = n \<and> intent_gen c \<noteq> None)"
    using up down by (auto simp: up_pass_def up_inv_def down_pass_def)
  moreover have "\<forall>n. bit (gs_down_mask g') n \<longleftrightarrow> n \<in> intent_slot ` set downs"
    using down by (auto simp: down_pass_def down_inv_def)
  moreover have "sorted_wrt (<) (map intent_slot downs)"
    using down by (auto simp: down_pass_def down_inv_def strict_sorted_iff)
  ultimately show "packet_ok reg xs (bs @ L) p"
    unfolding packet_ok_def pu pd pb using p inr lenL ne by (auto simp: xs_def bs_def)
qed

lemma group_step_ok:
  assumes up: "up_pass reg st pid us actions g ups"
    and down: "down_pass reg pid us g ds g' downs dbs"
    and len: "length (cs_open_generation_by_slot st) = MAX_KEYS" and reg: "registry_wf reg"
  defines "op \<equiv> open_of (cs_open_generation_by_slot st)"
  shows "step_ok op (ups, downs)"
    and "open_of (cs_open_generation_by_slot (gs_state g')) = step_open op (ups, downs)"
proof -
  have open_g: "open_of (cs_open_generation_by_slot (gs_state g))
      = (\<lambda>s. if s \<in> intent_slot ` set ups then None else op s)"
    using up len by (auto simp: up_pass_def up_inv_def open_of_def op_def fun_eq_iff)
  have none: "op (intent_slot c) = None" if c: "c \<in> set downs" for c
  proof -
    have s: "intent_slot c < MAX_KEYS"
      "gs_physical_up_source_action_index_by_slot g ! intent_slot c = None"
      "cs_open_generation_by_slot (gs_state g) ! intent_slot c = None"
      using c down reg by (auto simp: down_pass_def down_inv_def registry_wf_def)
    have "open_of (cs_open_generation_by_slot (gs_state g)) (intent_slot c) = None"
      using s(3) by (simp add: open_of_def)
    then have "intent_slot c \<notin> intent_slot ` set ups \<longrightarrow> op (intent_slot c) = None"
      unfolding open_g by (simp split: if_splits)
    moreover have "intent_slot c \<in> intent_slot ` set ups \<longrightarrow> op (intent_slot c) = None"
    proof -
      have "\<not> bit (gs_up_mask g) (intent_slot c)" using up s(1,2) by (simp add: up_pass_def up_inv_def)
      then show ?thesis using up unfolding op_def up_pass_def up_inv_def by blast
    qed
    ultimately show ?thesis by blast
  qed
  then show "step_ok op (ups, downs)"
    using up down by (auto simp: step_ok_def up_pass_def up_inv_def down_pass_def down_inv_def op_def)
  show "open_of (cs_open_generation_by_slot (gs_state g')) = step_open op (ups, downs)"
    using down open_g by (auto simp: down_pass_def down_inv_def step_open_overlay)
qed

lemma sorted_wrt_append_last:
  assumes "sorted_wrt (<) (xs :: 'a::linorder list)" and "sorted_wrt (<) ys"
    and "\<And>q. xs \<noteq> [] \<Longrightarrow> q = last xs \<Longrightarrow> \<forall>y \<in> set ys. q < y"
  shows "sorted_wrt (<) (xs @ ys)"
proof (cases xs rule: rev_cases)
  case (snoc zs z)
  then have "\<forall>y \<in> set ys. z < y" "\<forall>x \<in> set zs. x < z" using assms by (auto simp: sorted_wrt_append)
  then show ?thesis using assms(1,2) snoc by (auto simp: sorted_wrt_append intro: order.strict_trans)
qed (use assms in simp)

lemma group_keeps_inv:
  assumes inv: "compile_inv reg st0" and ne: "actions \<noteq> []" and us: "\<forall>a \<in> set actions. ka_scheduled_us a = us"
    and prev: "cs_previous_scheduled_us st0 \<noteq> Some us"
    and v: "validated reg st0 actions (d, st)"
    and up: "up_pass reg st pid us actions g ups"
    and down: "down_pass reg pid us g (filter (\<lambda>a. ka_kind a = Down) actions) g' downs dbs"
    and p: "unat (cp_first_batch_index p) = length (cs_batches st0)" "unat (cp_batch_count p) = length actions"
      "unat (cp_up_intent_start p) = length (cs_intents st)" "unat (cp_up_intent_len p) = length ups"
      "unat (cp_down_intent_start p) = length (cs_intents st @ ups)" "unat (cp_down_intent_len p) = length downs"
      "cp_up_mask p = gs_up_mask g'" "cp_down_mask p = gs_down_mask g'" "cp_scheduled_us p = us"
      "cp_packet_id p = pid" "unat pid = length (cs_packets st0)"
  defines "st' \<equiv> (gs_state g')\<lparr>
      cs_batches := cs_batches (gs_state g') @ sort_key cb_source_action_index (gs_group_batches g'),
      cs_packets := cs_packets (gs_state g') @ [p]\<rparr>"
  shows "compile_inv reg st' \<and> cs_previous_scheduled_us st' = Some us"
proof -
  let ?L = "sort_key cb_source_action_index (gs_group_batches g')"
  have wf: "arena_wf reg (cs_intents st0) (cs_batches st0) (cs_packets st0)
      (unat (cs_next_generation_id st0)) (open_of (cs_open_generation_by_slot st0))"
    and len: "length (cs_open_generation_by_slot st0) = MAX_KEYS"
    using inv by (simp_all add: compile_inv_def)
  have reg: "registry_wf reg" using wf by (simp add: arena_wf_def)
  have core: "same_core st0 st" and src: "sorted_wrt (<) (map ka_source_action_index actions)"
    using v by (simp_all add: validated_def)
  have len': "length (cs_open_generation_by_slot st) = MAX_KEYS" using len core by (simp add: frame_defs)
  note fin = packet_finish [OF up down src ne, of p]
  have p1: "unat (cp_first_batch_index p) = length (cs_batches st)" using p(1) core by (simp add: frame_defs)
  note fin = fin [OF p1 p(2-10)]
  note stp = group_step_ok [OF up down len' reg]
  have gens: "map (unat \<circ> compact_generation_id) downs
      = [unat (cs_next_generation_id st)..<unat (cs_next_generation_id (gs_state g'))]"
    "unat (cs_next_generation_id st) \<le> unat (cs_next_generation_id (gs_state g'))"
    "unat (cs_next_generation_id (gs_state g')) < 2 ^ 60"
    using up down by (auto simp: up_pass_def up_frame_def down_pass_def down_inv_def)
  have last_us: "cs_packets st \<noteq> [] \<Longrightarrow> cp_scheduled_us (last (cs_packets st)) < cp_scheduled_us p"
  proof -
    assume ps: "cs_packets st \<noteq> []"
    then have q: "cs_previous_scheduled_us st0 = Some (cp_scheduled_us (last (cs_packets st)))"
      using inv core by (simp add: compile_inv_def frame_defs)
    then have "cp_scheduled_us (last (cs_packets st)) \<le> us"
      using v ne us by (auto simp: validated_def neq_Nil_conv)
    then show ?thesis using q prev p(9) by auto
  qed
  have "arena_wf reg (cs_intents st @ ups @ downs) (cs_batches st @ ?L) (cs_packets st @ [p])
      (unat (cs_next_generation_id (gs_state g')))
      (step_open (open_of (cs_open_generation_by_slot st)) (ups, downs))"
    using wf core fin stp(1) gens p(3,10,11) p1 last_us
    by (intro arena_wf_snoc [where count = "unat (cs_next_generation_id st)"]) (simp_all add: frame_defs)
  moreover have st': "cs_intents st' = cs_intents st @ ups @ downs" "cs_batches st' = cs_batches st @ ?L"
      "cs_packets st' = cs_packets st @ [p]" "cs_next_generation_id st' = cs_next_generation_id (gs_state g')"
      "cs_open_generation_by_slot st' = cs_open_generation_by_slot (gs_state g')"
      "length (cs_open_generation_by_slot st') = MAX_KEYS"
      "cs_previous_scheduled_us st' = cs_previous_scheduled_us st"
      "cs_previous_source_index st' = cs_previous_source_index st"
    using up down by (auto simp: st'_def up_pass_def up_inv_def up_frame_def down_pass_def down_inv_def frame_defs)
  moreover have "cs_previous_scheduled_us st = Some us"
    using v ne us by (simp add: validated_def)
  moreover have L: "?L \<noteq> []" using fin(5) ne by (metis map_is_Nil_conv)
  moreover have "cs_previous_source_index st = Some (cb_source_action_index (last (cs_batches st @ ?L)))"
  proof -
    have "cb_source_action_index (last ?L) = ka_source_action_index (last actions)"
      using fin(5) L ne by (metis last_map)
    then show ?thesis using v ne L by (simp add: validated_def)
  qed
  moreover have "sorted_wrt (<) (map cb_source_action_index (cs_batches st) @ map cb_source_action_index ?L)"
    unfolding fin(5)
  proof (rule sorted_wrt_append_last [OF _ src])
    show "sorted_wrt (<) (map cb_source_action_index (cs_batches st))"
      using inv core by (simp add: compile_inv_def frame_defs)
    show "\<forall>y \<in> set (map ka_source_action_index actions). q < y"
      if "map cb_source_action_index (cs_batches st) \<noteq> []" "q = last (map cb_source_action_index (cs_batches st))" for q
      using that inv core v by (auto simp: compile_inv_def frame_defs validated_def last_map)
  qed
  ultimately show ?thesis
    unfolding compile_inv_def using stp(2) p(9) by simp
qed

lemma push_packet_safe:
  assumes inv: "compile_inv reg st0" and ne: "actions \<noteq> []" and us: "\<forall>a \<in> set actions. ka_scheduled_us a = us"
    and prev: "cs_previous_scheduled_us st0 \<noteq> Some us" and v: "validated reg st0 actions (d, st)"
    and up: "up_pass reg st pid us actions g ups"
    and down: "down_pass reg pid us g (filter (\<lambda>a. ka_kind a = Down) actions) g' downs dbs"
    and hdr: "unat pid = length (cs_packets st0)" "unat fb = length (cs_batches st0)"
      "unat up_start = length (cs_intents st)" "unat up_len = length ups"
      "unat down_start = length (cs_intents (gs_state g))"
  shows "safe (\<lambda>st'. compile_inv reg st' \<and> cs_previous_scheduled_us st' = Some us)
    (push_packet us pid fb up_start up_len down_start (length actions) g')"
proof -
  have reg: "registry_wf reg" using inv by (simp add: compile_inv_def arena_wf_def)
  have ints: "cs_intents (gs_state g) = cs_intents st @ ups" using up by (simp add: up_pass_def up_inv_def)
  have ints': "cs_intents (gs_state g') = cs_intents (gs_state g) @ downs"
    and dl: "length downs \<le> registry_len reg"
    using down slots_bound [of downs "registry_len reg"] by (auto simp: down_pass_def down_inv_def)
  have short: "length (cs_intents (gs_state g')) - unat down_start < 256"
    using ints' dl reg hdr(5) by (simp add: registry_wf_def MAX_KEYS_def)
  show ?thesis
    unfolding push_packet_def
    by (rule safe_rbind [OF safe_try_from], rule safe_rbind [OF safe_try_from_u8 [OF short]],
        unfold Let_def safe_simps, rule group_keeps_inv [OF inv ne us prev v up down])
      (use hdr ints ints' in simp_all)
qed

lemma compile_packet_safe:
  assumes inv: "compile_inv reg st0" and ne: "actions \<noteq> []" and us: "\<forall>a \<in> set actions. ka_scheduled_us a = us"
    and prev: "cs_previous_scheduled_us st0 \<noteq> Some us" and v: "validated reg st0 actions (d, st)"
    and hdr: "unat pid = length (cs_packets st0)" "unat fb = length (cs_batches st0)"
  shows "safe (\<lambda>st'. compile_inv reg st' \<and> cs_previous_scheduled_us st' = Some us)
    (compile_packet reg us pid fb actions d st)"
proof -
  let ?Q = "\<lambda>st'. compile_inv reg st' \<and> cs_previous_scheduled_us st' = Some us"
  have reg: "registry_wf reg" using inv by (simp add: compile_inv_def arena_wf_def)
  have core: "same_core st0 st" and ok: "\<forall>a \<in> set actions. action_ok reg a"
    and ds: "filter (\<lambda>a. ka_kind a = Down) actions = (case d of None \<Rightarrow> [] | Some a \<Rightarrow> [a])"
    using v by (simp_all add: validated_def)
  have os: "open_ok (cs_open_generation_by_slot st)"
    using compile_inv_open_ok [OF inv] core by (simp add: frame_defs)
  have count: "unat (cs_next_generation_id st) < 2 ^ 60"
    using inv core by (simp add: compile_inv_def arena_wf_def frame_defs)
  have tail: "safe ?Q
     (rbind (ok_or (try_from_usize (length (cs_intents (gs_state g)) - unat up_start)) Panic) (\<lambda>up_len.
      rbind (ok_or (try_from_usize (length (cs_intents (gs_state g)))) (Err TooManyActions)) (\<lambda>down_start.
      rbind (case d of Some a \<Rightarrow> compile_down_action reg pid us a g | None \<Rightarrow> Inr g)
        (push_packet us pid fb up_start up_len down_start (length actions)))))"
    if up: "up_pass reg st pid us actions g ups" and start: "unat up_start = length (cs_intents st)"
    for g ups and up_start :: u32
  proof -
    have ints: "cs_intents (gs_state g) = cs_intents st @ ups" and upl: "length ups \<le> registry_len reg"
      using up slots_bound [of ups "registry_len reg"] by (auto simp: up_pass_def up_inv_def)
    have short: "length (cs_intents (gs_state g)) - unat up_start < 256"
      using ints upl reg start by (simp add: registry_wf_def MAX_KEYS_def)
    have refl: "down_inv reg g [] g []"
      using up count by (auto simp: up_pass_def intro: down_inv_refl)
    have phys: "length (gs_physical_up_source_action_index_by_slot g) = MAX_KEYS"
      using up by (simp add: up_pass_def up_inv_def)
    have down: "safe (\<lambda>g'. \<exists>downs dbs. down_pass reg pid us g (filter (\<lambda>a. ka_kind a = Down) actions) g' downs dbs)
      (case d of Some a \<Rightarrow> compile_down_action reg pid us a g | None \<Rightarrow> Inr g)"
    proof (cases d)
      case None
      then show ?thesis using ds no_down_pass [OF refl] by auto
    next
      case (Some a)
      then have "a \<in> set (filter (\<lambda>a. ka_kind a = Down) actions)" using ds by simp
      then have "action_ok reg a" using ok by simp
      then show ?thesis using ds Some down_action_safe [OF reg _ refl phys] by simp
    qed
    show ?thesis
      by (rule safe_rbind [OF safe_try_from_u8 [OF short]], rule safe_rbind [OF safe_try_from],
          rule safe_rbind [OF down], elim exE,
          rule push_packet_safe [OF inv ne us prev v up _ hdr start])
        (use start ints in simp_all)
  qed
  show ?thesis
    unfolding compile_packet_def
    by (rule safe_rbind [OF safe_try_from], rule safe_rbind [OF up_actions_safe [OF reg os ok]], elim exE,
        rule tail)
qed

lemma compile_group_safe:
  assumes "compile_inv reg st0" and "actions \<noteq> []" and "\<forall>a \<in> set actions. ka_scheduled_us a = us"
    and "cs_previous_scheduled_us st0 \<noteq> Some us"
  shows "safe (\<lambda>st'. compile_inv reg st' \<and> cs_previous_scheduled_us st' = Some us)
    (compile_group reg us actions st0)"
proof -
  have reg: "registry_wf reg" using assms(1) by (simp add: compile_inv_def arena_wf_def)
  show ?thesis
    unfolding compile_group_def
    by (rule safe_rbind [OF safe_try_from], rule safe_rbind [OF safe_try_from],
        rule safe_rbind [OF validate_actions_safe [OF reg]], clarify,
        rule compile_packet_safe [OF assms])
qed

lemma compile_groups_safe:
  assumes "compile_inv reg st"
    and "\<And>a as. actions = a # as \<Longrightarrow> cs_previous_scheduled_us st \<noteq> Some (ka_scheduled_us a)"
  shows "safe (compile_inv reg) (compile_groups reg actions st)"
  using assms
proof (induction reg actions st rule: compile_groups.induct)
  case (2 reg a as st)
  let ?same = "\<lambda>b. ka_scheduled_us b = ka_scheduled_us a"
  have "\<forall>b \<in> set (a # takeWhile ?same as). ka_scheduled_us b = ka_scheduled_us a"
    by (auto dest: set_takeWhileD)
  then have grp: "safe (\<lambda>st'. compile_inv reg st' \<and> cs_previous_scheduled_us st' = Some (ka_scheduled_us a))
      (compile_group reg (ka_scheduled_us a) (a # takeWhile ?same as) st)"
    by (rule compile_group_safe [OF "2.prems"(1) list.distinct(2) _ "2.prems"(2) [OF refl]])
  show ?case
    unfolding compile_groups.simps Let_def
  proof (rule safe_rbind [OF grp])
    fix st'
    assume eq: "compile_group reg (ka_scheduled_us a) (a # takeWhile ?same as) st = Inr st'"
      and st': "compile_inv reg st' \<and> cs_previous_scheduled_us st' = Some (ka_scheduled_us a)"
    show "safe (compile_inv reg) (compile_groups reg (dropWhile ?same as) st')"
    proof (rule "2.IH" [OF refl refl eq])
      show "compile_inv reg st'" using st' by simp
      fix b bs assume "dropWhile ?same as = b # bs"
      then have "\<not> ?same b" using hd_dropWhile [of ?same as] by simp
      then show "cs_previous_scheduled_us st' \<noteq> Some (ka_scheduled_us b)" using st' by auto
    qed
  qed
qed simp

section \<open>The whole compiler\<close>

lemma check_allowed_safe:
  "safe (\<lambda>_. codes \<noteq> [] \<and> length codes \<le> MAX_KEYS \<and> distinct codes) (check_allowed codes)"
proof -
  have "safe (\<lambda>_. \<forall>i \<in> set [0..<length codes]. codes ! i \<notin> set (take i codes))
    (rfold (\<lambda>i _. if codes ! i \<in> set (take i codes) then Inl (Err (DuplicateAllowedScanCode (codes ! i)))
                  else Inr ()) [0..<length codes] ())"
    by (rule safe_rfold) auto
  then have "safe (\<lambda>_. distinct codes)
    (rfold (\<lambda>i _. if codes ! i \<in> set (take i codes) then Inl (Err (DuplicateAllowedScanCode (codes ! i)))
                  else Inr ()) [0..<length codes] ())"
  proof (rule safe_mono)
    assume *: "\<forall>i \<in> set [0..<length codes]. codes ! i \<notin> set (take i codes)"
    have "codes ! i \<noteq> codes ! j" if "i < j" "j < length codes" for i j
    proof -
      have "codes ! i \<in> set (take j codes)" using that by (auto simp: in_set_conv_nth)
      then show ?thesis using * that by auto
    qed
    then show "distinct codes" unfolding distinct_conv_nth by (metis nat_neq_iff)
  qed
  then show ?thesis by (auto simp: check_allowed_def intro: safe_mono)
qed

lemma compile_inv_new: "registry_wf reg \<Longrightarrow> compile_inv reg compile_state_new"
  by (auto simp: compile_inv_def compile_state_new_def arena_wf_def tiled_def open_of_def packet_trace_def fun_eq_iff)

lemma check_closed_safe:
  assumes inv: "compile_inv reg st"
  shows "safe (\<lambda>_. open_of (cs_open_generation_by_slot st) = (\<lambda>_. None))
    (check_closed reg (cs_open_generation_by_slot st))"
proof -
  let ?os = "cs_open_generation_by_slot st"
  have wf: "arena_wf reg (cs_intents st) (cs_batches st) (cs_packets st)
      (unat (cs_next_generation_id st)) (open_of ?os)" and len: "length ?os = MAX_KEYS"
    using inv by (simp_all add: compile_inv_def)
  have "safe (\<lambda>_. \<forall>(slot, og) \<in> set (enumerate 0 ?os). og = None) (check_closed reg ?os)"
    unfolding check_closed_def
  proof (rule safe_rfold, simp, clarify)
    fix ys slot og zs
    assume split: "enumerate 0 ?os = ys @ (slot, og) # zs"
      and P: "\<forall>(slot, og) \<in> set ys. og = None"
    have mem: "(slot, og) \<in> set (enumerate 0 ?os)" by (simp add: split)
    then have slot: "slot < MAX_KEYS" "og = ?os ! slot" using len by (auto simp: in_set_enumerate_eq)
    show "safe (\<lambda>_. \<forall>(slot, og) \<in> set (ys @ [(slot, og)]). og = None)
      (case og of None \<Rightarrow> Inr () | Some og \<Rightarrow>
         rbind (ok_or (scan_code_for reg (word_of_nat slot)) Panic) (\<lambda>scan_code.
         Inl (Err (UnclosedMusicalGeneration scan_code (og_down_action_index og) (og_down_scheduled_us og)))))"
    proof (cases og)
      case None
      then show ?thesis using P by auto
    next
      case (Some o')
      then have "open_of ?os slot = Some (og_generation_id o')" using slot len by (simp add: open_of_def)
      then have "slot < registry_len reg" by (rule arena_open(2) [OF wf])
      then have "scan_code_for reg (word_of_nat slot) \<noteq> None"
        using slot(1) by (simp add: scan_code_for_def registry_len_def result_simps MAX_KEYS_def unat_word_of_nat_small)
      then show ?thesis using Some by auto
    qed
  qed
  then show ?thesis
    by (rule safe_mono) (use len in \<open>auto simp: in_set_enumerate_eq open_of_def fun_eq_iff\<close>)
qed

theorem compile_safe: "safe schedule_wf (compile_runtime_intents actions codes)"
proof -
  have groups: "safe (compile_inv (key_registry_new codes))
      (compile_groups (key_registry_new codes) actions compile_state_new)"
    if "codes \<noteq> [] \<and> length codes \<le> MAX_KEYS \<and> distinct codes"
  proof (rule compile_groups_safe)
    show "compile_inv (key_registry_new codes) compile_state_new"
      using that by (intro compile_inv_new) (simp add: registry_wf_def registry_len_def key_registry_new_id)
  qed (simp add: compile_state_new_def)
  show ?thesis
    unfolding compile_runtime_intents_def Let_def
  proof (rule safe_rbind [OF check_allowed_safe], rule safe_if_Err, rule safe_rbind [OF groups], assumption,
      rule safe_rbind [OF check_closed_safe], assumption)
    fix st
    assume "compile_inv (key_registry_new codes) st"
      and "open_of (cs_open_generation_by_slot st) = (\<lambda>_. None)"
    then show "safe schedule_wf (Inr \<lparr>rs_packets = cs_packets st, rs_batches = cs_batches st,
        rs_intents = cs_intents st, rs_generation_count = cs_next_generation_id st,
        rs_key_registry = key_registry_new codes, rs_reason_table = cs_reason_table st\<rparr>)"
      by (simp add: schedule_wf_def compile_inv_def)
  qed
qed

section \<open>A worked example\<close>

text \<open>
  A chord of two keys, a packet that releases one key while it presses a third, and the release of
  the remaining two. The schedule below is what the compiler makes of it.
\<close>

definition demo_action :: "u32 \<Rightarrow> action_kind \<Rightarrow> u64 \<Rightarrow> u16 list \<Rightarrow> key_action_input" where
  "demo_action i k t cs =
     \<lparr>ka_source_action_index = i, ka_kind = k, ka_scheduled_us = t, ka_scan_codes = cs,
      ka_reason = ''song''\<rparr>"

definition demo_actions :: "key_action_input list" where
  "demo_actions =
     [demo_action 0 Down 1000 [31, 30], demo_action 1 Down 2000 [32], demo_action 2 Up 2000 [30],
      demo_action 3 Up 3000 [32, 31]]"

definition demo_codes :: "u16 list" where
  "demo_codes = [30, 31, 32]"

definition demo_schedule :: runtime_schedule where
  "demo_schedule =
     \<lparr>rs_packets =
        [\<lparr>cp_packet_id = 0, cp_scheduled_us = 1000, cp_first_batch_index = 0, cp_batch_count = 1,
          cp_up_mask = 0, cp_down_mask = 3, cp_up_intent_start = 0, cp_up_intent_len = 0,
          cp_down_intent_start = 0, cp_down_intent_len = 2, cp_down_source_action_index = Some 0\<rparr>,
         \<lparr>cp_packet_id = 1, cp_scheduled_us = 2000, cp_first_batch_index = 1, cp_batch_count = 2,
          cp_up_mask = 1, cp_down_mask = 4, cp_up_intent_start = 2, cp_up_intent_len = 1,
          cp_down_intent_start = 3, cp_down_intent_len = 1, cp_down_source_action_index = Some 1\<rparr>,
         \<lparr>cp_packet_id = 2, cp_scheduled_us = 3000, cp_first_batch_index = 3, cp_batch_count = 1,
          cp_up_mask = 6, cp_down_mask = 0, cp_up_intent_start = 4, cp_up_intent_len = 2,
          cp_down_intent_start = 6, cp_down_intent_len = 0, cp_down_source_action_index = None\<rparr>],
      rs_batches =
        [\<lparr>cb_source_action_index = 0, cb_kind = Down, cb_scheduled_us = 1000, cb_reason_id = 0,
          cb_intent_start = 0, cb_intent_len = 2, cb_packet_id = 0\<rparr>,
         \<lparr>cb_source_action_index = 1, cb_kind = Down, cb_scheduled_us = 2000, cb_reason_id = 0,
          cb_intent_start = 3, cb_intent_len = 1, cb_packet_id = 1\<rparr>,
         \<lparr>cb_source_action_index = 2, cb_kind = Up, cb_scheduled_us = 2000, cb_reason_id = 0,
          cb_intent_start = 2, cb_intent_len = 1, cb_packet_id = 1\<rparr>,
         \<lparr>cb_source_action_index = 3, cb_kind = Up, cb_scheduled_us = 3000, cb_reason_id = 0,
          cb_intent_start = 4, cb_intent_len = 2, cb_packet_id = 2\<rparr>],
      rs_intents =
        [CompactIntent 0, CompactIntent 17, CompactIntent 0, CompactIntent 34, CompactIntent 17,
         CompactIntent 34],
      rs_generation_count = 3, rs_key_registry = \<lparr>registry_scan_codes = [30, 31, 32]\<rparr>,
      rs_reason_table = [''song'']\<rparr>"

lemma demo_compiles: "compile_runtime_intents demo_actions demo_codes = Inr demo_schedule"
  by code_simp

section \<open>Properties\<close>

text \<open>C27: No authored action list and no allow-list make the compiler panic: every \<open>expect\<close>, table
  index and narrowing conversion in it is reached only with values for which it succeeds.\<close>

theorem compile_never_panics: "compile_runtime_intents actions allowed_scan_codes \<noteq> Inl Panic"
  using compile_safe by (rule safe_not_Panic)

text \<open>C5: Every schedule the compiler returns satisfies the schedule contract: packets are numbered in
  order, have strictly increasing times, tile the intent arena and the batch list, carry masks that
  agree with their intents and batches, and replaying them opens and closes generations without
  conflict, ending with none open.\<close>

theorem compile_schedule_wf:
  "compile_runtime_intents actions allowed_scan_codes = Inr rs \<Longrightarrow> schedule_wf rs"
  using compile_safe by (rule safe_Inr)

theorem compile_schedule_wf_witness:
  "compile_runtime_intents demo_actions demo_codes = Inr demo_schedule \<and> schedule_wf demo_schedule"
  using demo_compiles compile_schedule_wf [OF demo_compiles] by simp

text \<open>C24: In a compiled schedule every generation has exactly two intents: one Down, and one Up on the
  same key slot in a strictly later packet at a strictly later time.\<close>

theorem compile_generations_paired:
  assumes "compile_runtime_intents actions allowed_scan_codes = Inr rs" and "g < rs_generation_count rs"
  shows "length (filter (\<lambda>c. intent_gen c = Some g) (rs_intents rs)) = 2 \<and>
    (\<exists>i j c d. i < j \<and> j < length (rs_packets rs) \<and>
       c \<in> set (packet_downs (rs_intents rs) (rs_packets rs ! i)) \<and>
       d \<in> set (packet_ups (rs_intents rs) (rs_packets rs ! j)) \<and>
       intent_gen c = Some g \<and> intent_gen d = Some g \<and> intent_slot c = intent_slot d \<and>
       cp_scheduled_us (rs_packets rs ! i) < cp_scheduled_us (rs_packets rs ! j))"
proof -
  have wf: "schedule_wf rs" using compile_safe assms(1) by (rule safe_Inr)
  from generation_paired [OF wf assms(2)] obtain i j c d where "i < j" "j < length (rs_packets rs)"
    "c \<in> set (packet_downs (rs_intents rs) (rs_packets rs ! i))"
    "d \<in> set (packet_ups (rs_intents rs) (rs_packets rs ! j))"
    "intent_gen c = Some g" "intent_gen d = Some g" "intent_slot c = intent_slot d"
    "cp_scheduled_us (rs_packets rs ! i) < cp_scheduled_us (rs_packets rs ! j)" .
  then show ?thesis
    using generation_exactly_two_intents [OF wf assms(2)] by (intro conjI exI [of _ i] exI [of _ j]) auto
qed

theorem compile_generations_paired_witness:
  "length (filter (\<lambda>c. intent_gen c = Some 1) (rs_intents demo_schedule)) = 2"
proof -
  have "(1 :: u64) < rs_generation_count demo_schedule" by (simp add: demo_schedule_def)
  from compile_generations_paired [OF demo_compiles this] show ?thesis by blast
qed

end
