(* ===== verification/Sky_Accept.thy ===== *)
theory Sky_Accept
  imports Sky_Compile
begin

unbundle bit_operations_syntax

text \<open>
  Which action lists the compiler accepts, and what it makes of them. The actions fall into moments of equal
  time; on each moment the held keys change by its releases and presses. A list compiles exactly if it is
  ordered, its actions are well formed and playing the moments never presses a held key, never releases a key
  twice at once and ends with no key held; each packet then carries the presses of its moment and the releases
  of the keys that were held.
\<close>

section \<open>Exact results\<close>

text \<open>The computation succeeds exactly if \<open>C\<close> holds, and then its value satisfies \<open>P\<close>.\<close>

definition exactly :: "bool \<Rightarrow> ('a \<Rightarrow> bool) \<Rightarrow> 'e + 'a \<Rightarrow> bool" where
  "exactly C P r \<longleftrightarrow> (case r of Inl _ \<Rightarrow> \<not> C | Inr a \<Rightarrow> C \<and> P a)"

lemma exactly_simps [simp]: "exactly C P (Inl e) \<longleftrightarrow> \<not> C" "exactly C P (Inr a) \<longleftrightarrow> C \<and> P a"
  by (simp_all add: exactly_def)

lemma exactlyD: "exactly C P r \<Longrightarrow> r = Inr a \<Longrightarrow> C \<and> P a"
  by simp

lemma exactly_succeeds: "exactly C P r \<Longrightarrow> C \<Longrightarrow> \<exists>a. r = Inr a \<and> P a"
  by (cases r) auto

lemma exactly_rbind:
  "exactly C Q m \<Longrightarrow> (\<And>a. m = Inr a \<Longrightarrow> C \<Longrightarrow> Q a \<Longrightarrow> exactly D P (f a)) \<Longrightarrow> exactly (C \<and> D) P (rbind m f)"
  by (cases m) (auto simp: exactly_def split: sum.splits)

lemma exactly_then:
  "exactly True Q m \<Longrightarrow> (\<And>a. m = Inr a \<Longrightarrow> Q a \<Longrightarrow> exactly D P (f a)) \<Longrightarrow> exactly D P (rbind m f)"
  by (cases m) auto

lemma exactly_rbind_then:
  "exactly C Q m \<Longrightarrow> (\<And>a. m = Inr a \<Longrightarrow> C \<Longrightarrow> Q a \<Longrightarrow> exactly True P (f a)) \<Longrightarrow> exactly C P (rbind m f)"
  by (cases m) auto

lemma exactly_mono: "exactly C P r \<Longrightarrow> C = D \<Longrightarrow> (\<And>a. r = Inr a \<Longrightarrow> C \<Longrightarrow> P a \<Longrightarrow> Q a) \<Longrightarrow> exactly D Q r"
  by (cases r) auto

lemma exactly_if_error: "(\<not> b \<Longrightarrow> exactly C P r) \<Longrightarrow> exactly (\<not> b \<and> C) P (if b then Inl e else r)"
  by simp

text \<open>A condition on every element of a list and the elements before it.\<close>

definition each_after :: "('x list \<Rightarrow> 'x \<Rightarrow> bool) \<Rightarrow> 'x list \<Rightarrow> bool" where
  "each_after C xs \<longleftrightarrow> (\<forall>ys x zs. xs = ys @ x # zs \<longrightarrow> C ys x)"

lemma each_after_simps [simp]: "each_after C []" "each_after C (xs @ [x]) \<longleftrightarrow> each_after C xs \<and> C xs x"
proof -
  show "each_after C []" by (simp add: each_after_def)
  show "each_after C (xs @ [x]) \<longleftrightarrow> each_after C xs \<and> C xs x"
    unfolding each_after_def
  proof (intro iffI conjI allI impI)
    fix ys y zs
    assume all: "\<forall>ys y zs. xs @ [x] = ys @ y # zs \<longrightarrow> C ys y"
    show "xs = ys @ y # zs \<Longrightarrow> C ys y" using all [rule_format, of ys y "zs @ [x]"] by simp
    show "C xs x" using all by blast
  next
    fix ys y zs
    assume "(\<forall>ys y zs. xs = ys @ y # zs \<longrightarrow> C ys y) \<and> C xs x" "xs @ [x] = ys @ y # zs"
    then show "C ys y" by (cases zs rule: rev_cases) auto
  qed
qed

lemma each_after_append: "each_after C (xs @ ys) \<longleftrightarrow> each_after C xs \<and> each_after (\<lambda>zs. C (xs @ zs)) ys"
  by (induction ys rule: rev_induct) (simp_all add: append_assoc [symmetric] del: append_assoc)

lemma each_after_conj: "each_after (\<lambda>ys x. C ys x \<and> D ys x) xs \<longleftrightarrow> each_after C xs \<and> each_after D xs"
  by (auto simp: each_after_def)

lemma each_after_ball: "each_after (\<lambda>_ x. C x) xs \<longleftrightarrow> (\<forall>x \<in> set xs. C x)"
  by (induction xs rule: rev_induct) auto

lemma exactly_rfold:
  assumes "P [] s" and "\<And>ys x zs u. xs = ys @ x # zs \<Longrightarrow> P ys u \<Longrightarrow> exactly (C ys x) (P (ys @ [x])) (f x u)"
  shows "exactly (each_after C xs) (P xs) (rfold f xs s)"
  using assms
proof (induction xs rule: rev_induct)
  case Nil
  then show ?case by simp
next
  case (snoc x xs)
  have first: "exactly (each_after C xs) (P xs) (rfold f xs s)"
  proof (rule snoc.IH [OF snoc.prems(1)])
    fix ys y zs u
    assume "xs = ys @ y # zs" "P ys u"
    then show "exactly (C ys y) (P (ys @ [y])) (f y u)" using snoc.prems(2) [of ys y "zs @ [x]" u] by simp
  qed
  have last: "exactly (C xs x) (P (xs @ [x])) (rfold f [x] u)" if "P xs u" for u
  proof -
    have "rfold f [x] u = f x u" by (cases "f x u") simp_all
    then show ?thesis using snoc.prems(2) [of xs x "[]" u] that by simp
  qed
  show ?case unfolding each_after_simps rfold_append by (rule exactly_rbind [OF first]) (rule last)
qed

lemma exactly_try_from: "n < 2 ^ LENGTH('a) \<Longrightarrow> exactly True (\<lambda>w. unat (w :: 'a::len word) = n) (ok_or (try_from_usize n) e)"
  by (simp add: try_from_usize_def unat_word_of_nat_small)

section \<open>Moments\<close>

text \<open>The actions of each time, in order.\<close>

function moments :: "key_action_input list \<Rightarrow> key_action_input list list" where
  "moments [] = []"
| "moments (a # as) =
     (let same = (\<lambda>b. ka_scheduled_us b = ka_scheduled_us a) in (a # takeWhile same as) # moments (dropWhile same as))"
  by pat_completeness auto
termination
  by (relation "measure length") (auto intro: le_imp_less_Suc length_dropWhile_le)

definition codes_of :: "action_kind \<Rightarrow> key_action_input list \<Rightarrow> u16 list" where
  "codes_of kind actions = concat (map ka_scan_codes (filter (\<lambda>a. ka_kind a = kind) actions))"

text \<open>A moment presses at most one chord, of keys that are not held, and releases no key twice.\<close>

definition moment_ok :: "u16 set \<Rightarrow> key_action_input list \<Rightarrow> bool" where
  "moment_ok held actions \<longleftrightarrow> length (filter (\<lambda>a. ka_kind a = Down) actions) \<le> 1 \<and>
     distinct (codes_of Up actions) \<and> set (codes_of Down actions) \<inter> held = {}"

definition held_after :: "u16 set \<Rightarrow> key_action_input list \<Rightarrow> u16 set" where
  "held_after held actions = held - set (codes_of Up actions) \<union> set (codes_of Down actions)"

fun play :: "u16 set \<Rightarrow> key_action_input list list \<Rightarrow> u16 set option" where
  "play held [] = Some held"
| "play held (m # ms) = (if moment_ok held m then play (held_after held m) ms else None)"

definition in_order :: "key_action_input list \<Rightarrow> bool" where
  "in_order actions \<longleftrightarrow> sorted_wrt (\<lambda>a b. ka_source_action_index a < ka_source_action_index b \<and>
     ka_scheduled_us a \<le> ka_scheduled_us b) actions"

definition reasons_of :: "key_action_input list \<Rightarrow> string set" where
  "reasons_of actions = ka_reason ` set actions"

definition song_compiles :: "key_action_input list \<Rightarrow> u16 list \<Rightarrow> bool" where
  "song_compiles actions codes \<longleftrightarrow>
     codes \<noteq> [] \<and> length codes \<le> MAX_KEYS \<and> distinct codes \<and> length actions \<le> MAX_ACTIONS \<and>
     in_order actions \<and> (\<forall>a \<in> set actions. action_ok (key_registry_new codes) a) \<and>
     card (reasons_of actions) \<le> 2 ^ 16 \<and> play {} (moments actions) = Some {}"

section \<open>Validation of a moment\<close>

definition interned :: "string set \<Rightarrow> compile_state \<Rightarrow> bool" where
  "interned R st \<longleftrightarrow> finite R \<and> card R \<le> 2 ^ 16 \<and> dom (cs_reason_map st) = R \<and> length (cs_reason_table st) = card R"

lemma reason_exactly:
  assumes "interned R st"
  shows "exactly (card (insert reason R) \<le> 2 ^ 16) (\<lambda>(_, st'). same_core st st' \<and> same_previous st st' \<and> interned (insert reason R) st')
    (get_or_insert_reason reason st)"
proof (cases "cs_reason_map st reason")
  case None
  then have "reason \<notin> R" using assms by (auto simp: interned_def)
  then show ?thesis
    using assms None by (auto simp: get_or_insert_reason_def interned_def frame_defs try_from_usize_def)
next
  case (Some rid)
  then have "reason \<in> R" using assms by (auto simp: interned_def)
  then have "insert reason R = R" by (rule insert_absorb)
  then show ?thesis using assms Some \<open>reason \<in> R\<close> by (auto simp: get_or_insert_reason_def frame_defs interned_def)
qed

lemma codes_exactly:
  assumes reg: "registry_wf reg"
  shows "exactly ((\<forall>sc \<in> set codes. slot_for reg sc \<noteq> None) \<and> distinct codes) (\<lambda>_. True) (rfold (validate_scan_code reg idx) codes 0)"
proof -
  let ?P = "\<lambda>ys (mask :: u16). (\<forall>sc \<in> set ys. slot_for reg sc \<noteq> None) \<and>
    (\<forall>sc. slot_for reg sc \<noteq> None \<longrightarrow> (bit mask (unat (the (slot_for reg sc))) \<longleftrightarrow> sc \<in> set ys))"
  have "exactly (each_after (\<lambda>ys x. slot_for reg x \<noteq> None \<and> x \<notin> set ys) codes) (?P codes)
      (rfold (validate_scan_code reg idx) codes 0)"
  proof (rule exactly_rfold)
    fix ys sc zs mask
    assume P: "?P ys mask"
    show "exactly (slot_for reg sc \<noteq> None \<and> sc \<notin> set ys) (?P (ys @ [sc])) (validate_scan_code reg idx sc mask)"
    proof (cases "slot_for reg sc")
      case None
      then show ?thesis by (simp add: validate_scan_code_def)
    next
      case (Some s)
      have same: "unat (the (slot_for reg c)) = unat s \<longleftrightarrow> c = sc" if "slot_for reg c \<noteq> None" for c
        using that Some slot_for_inject [OF reg, of c s sc] by (auto simp: word_unat_eq_iff [symmetric])
      have "bit mask (unat s) \<longleftrightarrow> sc \<in> set ys" using P [THEN conjunct2, rule_format, of sc] Some by simp
      then have "mask AND bit_for_slot s = 0 \<longleftrightarrow> sc \<notin> set ys" using slot_bit [OF reg Some] by (simp add: mask_simps)
      then show ?thesis using P Some slot_bit [OF reg Some] same by (auto simp: validate_scan_code_def mask_simps)
    qed
  qed simp
  moreover have "each_after (\<lambda>ys x. slot_for reg x \<noteq> None \<and> x \<notin> set ys) codes \<longleftrightarrow>
      (\<forall>sc \<in> set codes. slot_for reg sc \<noteq> None) \<and> distinct codes"
    by (induction codes rule: rev_induct) auto
  ultimately show ?thesis by (rule exactly_mono) simp
qed


text \<open>Each action follows the one before it, or what the state remembers of it.\<close>

definition follows :: "u32 option \<Rightarrow> u64 option \<Rightarrow> key_action_input list \<Rightarrow> key_action_input \<Rightarrow> bool" where
  "follows pi pt ys a \<longleftrightarrow>
     (\<forall>q. (if ys = [] then pi else Some (ka_source_action_index (last ys))) = Some q \<longrightarrow> q < ka_source_action_index a) \<and>
     (\<forall>q. (if ys = [] then pt else Some (ka_scheduled_us (last ys))) = Some q \<longrightarrow> q \<le> ka_scheduled_us a)"

definition interns :: "string set \<Rightarrow> key_action_input list \<Rightarrow> key_action_input \<Rightarrow> bool" where
  "interns R ys a \<longleftrightarrow> card (R \<union> reasons_of (ys @ [a])) \<le> 2 ^ 16"

definition single_chord :: "key_action_input list \<Rightarrow> key_action_input \<Rightarrow> bool" where
  "single_chord ys a \<longleftrightarrow> (ka_kind a = Down \<longrightarrow> filter (\<lambda>a. ka_kind a = Down) ys = [])"

lemma follows_append: "g \<noteq> [] \<Longrightarrow> follows pi pt (g @ ys) =
    follows (Some (ka_source_action_index (last g))) (Some (ka_scheduled_us (last g))) ys"
  by (auto simp: follows_def fun_eq_iff)

lemma interns_append: "interns R (g @ ys) = interns (R \<union> reasons_of g) ys"
  by (auto simp: interns_def reasons_of_def image_Un Un_assoc fun_eq_iff)

lemma each_follows: "each_after (follows None None) actions \<longleftrightarrow> in_order actions"
proof (induction actions rule: rev_induct)
  case (snoc a ys)
  have "follows None None ys a \<longleftrightarrow> (\<forall>b \<in> set ys. ka_source_action_index b < ka_source_action_index a \<and> ka_scheduled_us b \<le> ka_scheduled_us a)"
    if "in_order ys"
  proof (cases ys rule: rev_cases)
    case (snoc zs z)
    then show ?thesis using that by (fastforce simp: follows_def in_order_def sorted_wrt_append)
  qed (simp add: follows_def)
  then show ?case using snoc by (auto simp: in_order_def sorted_wrt_append)
qed (simp add: in_order_def)

lemma each_interns:
  assumes "finite R" and "card R \<le> 2 ^ 16"
  shows "each_after (interns R) actions \<longleftrightarrow> card (R \<union> reasons_of actions) \<le> 2 ^ 16"
proof (induction actions rule: rev_induct)
  case (snoc a ys)
  have "card (R \<union> reasons_of ys) \<le> card (R \<union> reasons_of (ys @ [a]))"
    using assms(1) by (intro card_mono) (auto simp: reasons_of_def)
  then show ?case using snoc by (auto simp: interns_def)
qed (use assms(2) in \<open>simp add: reasons_of_def\<close>)

lemma each_chord: "each_after single_chord actions \<longleftrightarrow> length (filter (\<lambda>a. ka_kind a = Down) actions) \<le> 1"
  by (induction actions rule: rev_induct) (auto simp: single_chord_def)

definition checked :: "compile_state \<Rightarrow> string set \<Rightarrow> key_action_input list \<Rightarrow> key_action_input option \<times> compile_state \<Rightarrow> bool" where
  "checked st0 R ys = (\<lambda>(d, st). same_core st0 st \<and> interned (R \<union> reasons_of ys) st \<and>
     filter (\<lambda>a. ka_kind a = Down) ys = (case d of None \<Rightarrow> [] | Some a \<Rightarrow> [a]) \<and>
     cs_previous_source_index st = (if ys = [] then cs_previous_source_index st0 else Some (ka_source_action_index (last ys))) \<and>
     cs_previous_scheduled_us st = (if ys = [] then cs_previous_scheduled_us st0 else Some (ka_scheduled_us (last ys))))"

lemma validate_exactly:
  assumes reg: "registry_wf reg" and R: "interned R st0"
  shows "exactly (each_after (follows (cs_previous_source_index st0) (cs_previous_scheduled_us st0)) actions \<and>
      (\<forall>a \<in> set actions. action_ok reg a) \<and> each_after (interns R) actions \<and> each_after single_chord actions)
    (checked st0 R actions) (rfold (validate_action reg us) actions (None, st0))"
proof -
  let ?follows = "follows (cs_previous_source_index st0) (cs_previous_scheduled_us st0)"
  have "exactly (each_after (\<lambda>ys a. ?follows ys a \<and> action_ok reg a \<and> interns R ys a \<and> single_chord ys a) actions)
      (checked st0 R actions) (rfold (validate_action reg us) actions (None, st0))"
  proof (rule exactly_rfold)
    show "checked st0 R [] (None, st0)" using R by (simp add: checked_def frame_defs reasons_of_def)
  next
    fix ys a zs r
    assume P: "checked st0 R ys r"
    obtain d u where r: "r = (d, u)" by fastforce
    have prev: "exactly (?follows ys a) (\<lambda>_. True) (check_previous u a)"
      using P check_previous_ok [of u a]
      by (cases "check_previous u a") (auto simp: r checked_def follows_def)
    have ok: "action_ok reg a \<longleftrightarrow> \<not> (ka_scan_codes a = [] \<or> length (ka_scan_codes a) > MAX_KEYS) \<and>
        \<not> length (ka_reason a) > MAX_REASON_BYTES \<and>
        ((\<forall>sc \<in> set (ka_scan_codes a). slot_for reg sc \<noteq> None) \<and> distinct (ka_scan_codes a))"
      by (auto simp: action_ok_def)
    have reasons: "insert (ka_reason a) (R \<union> reasons_of ys) = R \<union> reasons_of (ys @ [a])" by (auto simp: reasons_of_def)
    have chord: "single_chord ys a \<longleftrightarrow> (ka_kind a = Down \<longrightarrow> d = None)"
      using P by (auto simp: r checked_def single_chord_def split: option.splits)
    have rest: "exactly (interns R ys a \<and> single_chord ys a) (checked st0 R (ys @ [a]))
        (rbind (get_or_insert_reason (ka_reason a) u) (\<lambda>(_, st).
         rbind (if ka_kind a = Down then (if d \<noteq> None then Inl (Err (SameTimestampDownBatch us)) else Inr (Some a)) else Inr d)
        (\<lambda>down_action. Inr (down_action, st\<lparr>cs_previous_source_index := Some (ka_source_action_index a),
                            cs_previous_scheduled_us := Some (ka_scheduled_us a)\<rparr>))))"
    proof (rule exactly_rbind)
      show "exactly (interns R ys a) (\<lambda>(_, st'). same_core u st' \<and> same_previous u st' \<and> interned (R \<union> reasons_of (ys @ [a])) st')
          (get_or_insert_reason (ka_reason a) u)"
        using P reason_exactly [of "R \<union> reasons_of ys" u "ka_reason a"] unfolding reasons by (simp add: r checked_def interns_def)
    qed (use P chord in \<open>auto simp: r checked_def frame_defs interned_def\<close>)
    show "exactly (?follows ys a \<and> action_ok reg a \<and> interns R ys a \<and> single_chord ys a) (checked st0 R (ys @ [a]))
        (validate_action reg us a r)"
      unfolding r validate_action_def prod.case ok conj_assoc
      by (rule exactly_rbind [OF prev], rule exactly_if_error, rule exactly_if_error,
          rule exactly_rbind [OF codes_exactly [OF reg], unfolded conj_assoc], rule rest)
  qed
  then show ?thesis unfolding each_after_conj each_after_ball .
qed


section \<open>Releases of a moment\<close>

abbreviation codes_in :: "key_registry \<Rightarrow> u16 set" where
  "codes_in reg \<equiv> {sc. slot_for reg sc \<noteq> None}"

lemma slot_of_inj: "registry_wf reg \<Longrightarrow> inj_on (slot_of reg) (codes_in reg)"
  by (auto simp: inj_on_def slot_of_def word_unat_eq_iff [symmetric] dest: slot_for_inject)

lemma slot_of_mem: "registry_wf reg \<Longrightarrow> sc \<in> codes_in reg \<Longrightarrow> X \<subseteq> codes_in reg \<Longrightarrow> slot_of reg sc \<in> slot_of reg ` X \<longleftrightarrow> sc \<in> X"
  by (rule inj_on_image_mem_iff [OF slot_of_inj])

lemma slot_of_less: "registry_wf reg \<Longrightarrow> sc \<in> codes_in reg \<Longrightarrow> slot_of reg sc < MAX_KEYS"
  by (auto simp: slot_of_def dest: slot_for_less)

definition filled :: "'a option list \<Rightarrow> nat set" where
  "filled xs = {n. n < length xs \<and> xs ! n \<noteq> None}"

lemma filled_update: "n < length xs \<Longrightarrow> filled (xs[n := x]) = (case x of None \<Rightarrow> filled xs - {n} | Some _ \<Rightarrow> insert n (filled xs))"
  by (auto simp: filled_def nth_list_update split: option.splits)

abbreviation mask_bits :: "u16 \<Rightarrow> nat set" where
  "mask_bits m \<equiv> {n. bit m n}"

lemma mask_bits_or: "registry_wf reg \<Longrightarrow> slot_for reg sc = Some s \<Longrightarrow> mask_bits (m OR bit_for_slot s) = insert (unat s) (mask_bits m)"
  using slot_bit [of reg sc s] by (auto simp: bit_or_iff)

definition releasing ::
  "key_registry \<Rightarrow> u16 set \<Rightarrow> compile_state \<Rightarrow> string set \<Rightarrow> u16 list \<Rightarrow> group_state \<Rightarrow> bool" where
  "releasing reg held st0 R ys g \<longleftrightarrow> set ys \<subseteq> codes_in reg \<and> distinct ys \<and>
     mask_bits (gs_seen_up_mask g) = slot_of reg ` set ys \<and>
     mask_bits (gs_up_mask g) = slot_of reg ` (set ys \<inter> held) \<and> gs_down_mask g = 0 \<and>
     length (gs_physical_up_source_action_index_by_slot g) = MAX_KEYS \<and>
     filled (gs_physical_up_source_action_index_by_slot g) = slot_of reg ` (set ys \<inter> held) \<and>
     length (cs_open_generation_by_slot (gs_state g)) = MAX_KEYS \<and>
     filled (cs_open_generation_by_slot (gs_state g)) = slot_of reg ` (held - set ys) \<and>
     length (cs_intents (gs_state g)) = length (cs_intents st0) + length ys \<and>
     cs_next_generation_id (gs_state g) = cs_next_generation_id st0 \<and>
     cs_packets (gs_state g) = cs_packets st0 \<and> cs_batches (gs_state g) = cs_batches st0 \<and>
     same_previous st0 (gs_state g) \<and> interned R (gs_state g)"

lemma up_code_exactly:
  assumes reg: "registry_wf reg" and held: "held \<subseteq> codes_in reg" and g: "releasing reg held st0 R ys g" and sc: "sc \<in> codes_in reg"
  shows "exactly (sc \<notin> set ys) (\<lambda>g'. releasing reg held st0 R (ys @ [sc]) g' \<and> gs_group_batches g' = gs_group_batches g)
    (compile_up_code reg us a sc g)"
proof -
  obtain s where s: "slot_for reg sc = Some s" using sc by auto
  then have slot: "slot_of reg sc = unat s" by (simp add: slot_of_def)
  note mem = slot_of_mem [OF reg sc, unfolded slot]
  have bound: "unat s < MAX_KEYS" using slot_of_less [OF reg sc] slot by simp
  let ?open = "cs_open_generation_by_slot (gs_state g)"
  have ys: "set ys \<subseteq> codes_in reg" and len: "length ?open = MAX_KEYS" "length (gs_physical_up_source_action_index_by_slot g) = MAX_KEYS"
    using g by (simp_all add: releasing_def)
  have "bit (gs_seen_up_mask g) (unat s) \<longleftrightarrow> unat s \<in> slot_of reg ` set ys" using g by (auto simp: releasing_def)
  then have seen: "gs_seen_up_mask g AND bit_for_slot s \<noteq> 0 \<longleftrightarrow> sc \<in> set ys"
    using mem [OF ys] slot_bit [OF reg s] by (simp add: mask_simps)
  show ?thesis
  proof (cases "sc \<in> set ys")
    case True
    then show ?thesis using s seen by (simp add: compile_up_code_def)
  next
    case False
    have "?open ! unat s \<noteq> None \<longleftrightarrow> unat s \<in> filled ?open" using bound len by (simp add: filled_def)
    then have open': "?open ! unat s \<noteq> None \<longleftrightarrow> sc \<in> held"
      using g mem [of "held - set ys"] held False by (auto simp: releasing_def)
    have ins: "insert (unat s) (slot_of reg ` X) = slot_of reg ` insert sc X" for X by (simp add: slot)
    have gone: "slot_of reg ` (held - set ys) - {unat s} = slot_of reg ` (held - set (ys @ [sc]))"
      using slot_of_inj [OF reg] held ys sc unfolding slot [symmetric]
      by (subst inj_on_image_set_diff [symmetric, of "slot_of reg" "codes_in reg" "held - set ys" "{sc}", simplified]) auto
    obtain g' where g': "compile_up_code reg us a sc g = Inr g'"
        "gs_seen_up_mask g' = gs_seen_up_mask g OR bit_for_slot s"
        "gs_up_mask g' = (if sc \<in> held then gs_up_mask g OR bit_for_slot s else gs_up_mask g)"
        "gs_down_mask g' = gs_down_mask g"
        "gs_physical_up_source_action_index_by_slot g' = (if sc \<in> held
           then (gs_physical_up_source_action_index_by_slot g)[unat s := Some (ka_source_action_index a)]
           else gs_physical_up_source_action_index_by_slot g)"
        "cs_open_generation_by_slot (gs_state g') = ?open[unat s := None]"
        "length (cs_intents (gs_state g')) = Suc (length (cs_intents (gs_state g)))"
        "cs_next_generation_id (gs_state g') = cs_next_generation_id (gs_state g)"
        "cs_packets (gs_state g') = cs_packets (gs_state g)" "cs_batches (gs_state g') = cs_batches (gs_state g)"
        "same_previous (gs_state g) (gs_state g')" "interned R (gs_state g) \<longrightarrow> interned R (gs_state g')"
        "gs_group_batches g' = gs_group_batches g"
      using s seen False bound len open' by (auto simp: compile_up_code_def Let_def frame_defs interned_def)
    have prev: "cs_previous_source_index (gs_state g') = cs_previous_source_index (gs_state g)"
        "cs_previous_scheduled_us (gs_state g') = cs_previous_scheduled_us (gs_state g)"
      using g'(11) by (simp_all add: frame_defs)
    have "releasing reg held st0 R (ys @ [sc]) g'"
    proof (cases "sc \<in> held")
      case True
      have eqs: "set (ys @ [sc]) = insert sc (set ys)" "set (ys @ [sc]) \<inter> held = insert sc (set ys \<inter> held)" using True by auto
      show ?thesis
        using g False sc len bound gone True unfolding releasing_def eqs g' mask_bits_or [OF reg s]
        by (simp add: g' prev mask_bits_or [OF reg s] filled_update ins frame_defs)
    next
      case False
      have eqs: "set (ys @ [sc]) = insert sc (set ys)" "set (ys @ [sc]) \<inter> held = set ys \<inter> held" using False by auto
      show ?thesis
        using g \<open>sc \<notin> set ys\<close> sc len bound gone False unfolding releasing_def eqs g' mask_bits_or [OF reg s]
        by (simp add: g' prev mask_bits_or [OF reg s] filled_update ins frame_defs)
    qed
    then show ?thesis using g' False by simp
  qed
qed


lemma card_codes_in: "registry_wf reg \<Longrightarrow> finite (codes_in reg)" "registry_wf reg \<Longrightarrow> card (codes_in reg) \<le> MAX_KEYS"
proof -
  have eq: "codes_in reg = set (registry_scan_codes reg)" by (rule set_eqI) (simp only: mem_Collect_eq slot_for_eq_None not_not)
  show "finite (codes_in reg)" unfolding eq by simp
  show "registry_wf reg \<Longrightarrow> card (codes_in reg) \<le> MAX_KEYS"
    unfolding eq registry_wf_def registry_len_def by (auto intro: le_trans [OF card_length])
qed

lemma few_codes: "registry_wf reg \<Longrightarrow> distinct ys \<Longrightarrow> set ys \<subseteq> codes_in reg \<Longrightarrow> length ys \<le> MAX_KEYS"
  using card_mono [OF card_codes_in(1), of reg "set ys"] card_codes_in(2) [of reg] by (simp add: distinct_card)

lemma up_codes_exactly:
  assumes reg: "registry_wf reg" and held: "held \<subseteq> codes_in reg" and g: "releasing reg held st0 R ys g" and codes: "set codes \<subseteq> codes_in reg"
  shows "exactly (distinct (ys @ codes)) (\<lambda>g'. releasing reg held st0 R (ys @ codes) g' \<and> gs_group_batches g' = gs_group_batches g)
    (rfold (compile_up_code reg us a) codes g)"
proof -
  have "exactly (each_after (\<lambda>zs sc. sc \<notin> set (ys @ zs)) codes)
      (\<lambda>g'. releasing reg held st0 R (ys @ codes) g' \<and> gs_group_batches g' = gs_group_batches g) (rfold (compile_up_code reg us a) codes g)"
  proof (rule exactly_rfold)
    fix zs sc qs u
    assume "codes = zs @ sc # qs" "releasing reg held st0 R (ys @ zs) u \<and> gs_group_batches u = gs_group_batches g"
    then show "exactly (sc \<notin> set (ys @ zs)) (\<lambda>g'. releasing reg held st0 R (ys @ zs @ [sc]) g' \<and> gs_group_batches g' = gs_group_batches g)
        (compile_up_code reg us a sc u)"
      using up_code_exactly [OF reg held, of st0 R "ys @ zs" u sc us a] codes by simp
  qed (use g in simp)
  moreover have "each_after (\<lambda>zs sc. sc \<notin> set (ys @ zs)) codes \<longleftrightarrow> distinct (ys @ codes)"
    using g by (induction codes rule: rev_induct) (auto simp: releasing_def)
  ultimately show ?thesis by (rule exactly_mono) simp
qed

lemma known_reason: "interned R st \<Longrightarrow> reason \<in> R \<Longrightarrow> \<exists>rid. get_or_insert_reason reason st = Inr (rid, st)"
  by (auto simp: get_or_insert_reason_def interned_def dom_def)

text \<open>Codes are processed in the order of their slots; only which codes they are matters.\<close>

lemma mset_sorted_codes: "mset (sorted_scan_codes reg codes) = mset codes"
  by (simp add: sorted_scan_codes_def)

lemma same_codes: "mset zs = mset ys \<Longrightarrow> set zs = set ys \<and> distinct zs = distinct ys \<and> length zs = length ys"
  using mset_eq_setD mset_eq_imp_distinct_iff mset_eq_length by metis

lemma releasing_same: "mset zs = mset ys \<Longrightarrow> releasing reg held st0 R zs = releasing reg held st0 R ys"
  using same_codes [of zs ys] by (simp add: fun_eq_iff releasing_def)

lemma codes_of_simps [simp]: "codes_of kind [] = []" "codes_of kind (xs @ ys) = codes_of kind xs @ codes_of kind ys"
  "codes_of kind [a] = (if ka_kind a = kind then ka_scan_codes a else [])"
  by (simp_all add: codes_of_def)

lemma codes_of_ok: "\<forall>a \<in> set actions. action_ok reg a \<Longrightarrow> set (codes_of kind actions) \<subseteq> codes_in reg"
  by (auto simp: codes_of_def action_ok_def)

lemma up_action_exactly:
  assumes reg: "registry_wf reg" and held: "held \<subseteq> codes_in reg" and g: "releasing reg held st0 R ys g"
    and a: "action_ok reg a" "ka_reason a \<in> R" and room: "length (cs_intents st0) + MAX_KEYS < 2 ^ 32"
  shows "exactly (distinct (ys @ codes_of Up [a])) (\<lambda>g'. releasing reg held st0 R (ys @ codes_of Up [a]) g' \<and>
      length (gs_group_batches g') = length (gs_group_batches g) + length (filter (\<lambda>a. ka_kind a = Up) [a]))
    (compile_up_action reg pid us a g)"
proof (cases "ka_kind a = Up")
  case False
  then show ?thesis using g by (simp add: compile_up_action_def) (simp add: releasing_def)
next
  case True
  let ?codes = "sorted_scan_codes reg (ka_scan_codes a)"
  obtain rid where rid: "get_or_insert_reason (ka_reason a) (gs_state g) = Inr (rid, gs_state g)"
    using known_reason [OF _ a(2), of "gs_state g"] g by (auto simp: releasing_def)
  have "length ys \<le> MAX_KEYS" using few_codes [OF reg] g by (simp add: releasing_def)
  then have start: "length (cs_intents (gs_state g)) < 2 ^ LENGTH(32)" using g room by (simp add: releasing_def)
  have len: "length (ka_scan_codes a) < 2 ^ LENGTH(8)" using a(1) by (simp add: action_ok_def MAX_KEYS_def)
  have codes: "set ?codes \<subseteq> codes_in reg" using a(1) by (auto simp: action_ok_def)
  have perm: "mset (ys @ ?codes) = mset (ys @ ka_scan_codes a)" by (simp add: mset_sorted_codes)
  have main: "exactly (distinct (ys @ ka_scan_codes a)) (\<lambda>g'. releasing reg held st0 R (ys @ ka_scan_codes a) g' \<and> gs_group_batches g' = gs_group_batches g)
      (rfold (compile_up_code reg us a) ?codes g)"
    using up_codes_exactly [OF reg held g codes, of us a] same_codes [OF perm] releasing_same [OF perm] by simp
  have g_same: "g\<lparr>gs_state := gs_state g\<rparr> = g" by simp
  have "exactly (distinct (ys @ ka_scan_codes a)) (\<lambda>g'. releasing reg held st0 R (ys @ ka_scan_codes a) g' \<and>
      length (gs_group_batches g') = length (gs_group_batches g) + 1) (compile_up_action reg pid us a g)"
    unfolding compile_up_action_def if_not_P [OF not_not [THEN iffD2, OF True]] rid rbind_simps prod.case g_same
    by (rule exactly_then [OF exactly_try_from [OF start]],
        rule exactly_rbind_then [OF main],
        rule exactly_then [OF exactly_try_from [OF len]]) (simp add: releasing_def)
  then show ?thesis using True by simp
qed

lemma up_actions_exactly:
  assumes reg: "registry_wf reg" and held: "held \<subseteq> codes_in reg" and g: "releasing reg held st0 R [] g" "gs_group_batches g = []"
    and ok: "\<forall>a \<in> set actions. action_ok reg a" "reasons_of actions \<subseteq> R" and room: "length (cs_intents st0) + MAX_KEYS < 2 ^ 32"
  shows "exactly (distinct (codes_of Up actions)) (\<lambda>g'. releasing reg held st0 R (codes_of Up actions) g' \<and>
      length (gs_group_batches g') = length (filter (\<lambda>a. ka_kind a = Up) actions))
    (rfold (compile_up_action reg pid us) actions g)"
proof -
  have "exactly (each_after (\<lambda>ys a. distinct (codes_of Up (ys @ [a]))) actions) (\<lambda>g'. releasing reg held st0 R (codes_of Up actions) g' \<and>
      length (gs_group_batches g') = length (filter (\<lambda>a. ka_kind a = Up) actions)) (rfold (compile_up_action reg pid us) actions g)"
  proof (rule exactly_rfold)
    fix ys a zs u
    assume "actions = ys @ a # zs" and u: "releasing reg held st0 R (codes_of Up ys) u \<and> length (gs_group_batches u) = length (filter (\<lambda>a. ka_kind a = Up) ys)"
    then have "action_ok reg a" "ka_reason a \<in> R" using ok by (auto simp: reasons_of_def)
    from up_action_exactly [OF reg held conjunct1 [OF u] this room, of pid us]
    show "exactly (distinct (codes_of Up (ys @ [a]))) (\<lambda>g'. releasing reg held st0 R (codes_of Up (ys @ [a])) g' \<and>
        length (gs_group_batches g') = length (filter (\<lambda>a. ka_kind a = Up) (ys @ [a]))) (compile_up_action reg pid us a u)"
      using u by simp
  qed (use g in simp)
  moreover have "each_after (\<lambda>ys a. distinct (codes_of Up (ys @ [a]))) actions \<longleftrightarrow> distinct (codes_of Up actions)"
    by (induction actions rule: rev_induct) auto
  ultimately show ?thesis by (rule exactly_mono) simp
qed


section \<open>Presses of a moment\<close>

definition pressing ::
  "key_registry \<Rightarrow> u16 set \<Rightarrow> u16 list \<Rightarrow> group_state \<Rightarrow> string set \<Rightarrow> u16 list \<Rightarrow> group_state \<Rightarrow> bool" where
  "pressing reg held ups g0 R ys g \<longleftrightarrow> set ys \<subseteq> codes_in reg \<and> distinct ys \<and> set ys \<inter> held = {} \<and>
     mask_bits (gs_down_mask g) = slot_of reg ` set ys \<and> gs_up_mask g = gs_up_mask g0 \<and>
     gs_physical_up_source_action_index_by_slot g = gs_physical_up_source_action_index_by_slot g0 \<and>
     length (cs_open_generation_by_slot (gs_state g)) = MAX_KEYS \<and>
     filled (cs_open_generation_by_slot (gs_state g)) = slot_of reg ` (held - set ups \<union> set ys) \<and>
     length (cs_intents (gs_state g)) = length (cs_intents (gs_state g0)) + length ys \<and>
     unat (cs_next_generation_id (gs_state g)) = unat (cs_next_generation_id (gs_state g0)) + length ys \<and>
     cs_packets (gs_state g) = cs_packets (gs_state g0) \<and> cs_batches (gs_state g) = cs_batches (gs_state g0) \<and>
     same_previous (gs_state g0) (gs_state g) \<and> interned R (gs_state g) \<and> gs_group_batches g = gs_group_batches g0"

lemma pressing_start:
  assumes "releasing reg held st0 R ups g"
  shows "pressing reg held ups g R [] g"
  using assms by (simp add: pressing_def releasing_def frame_defs)

lemma down_code_exactly:
  assumes reg: "registry_wf reg" and held: "held \<subseteq> codes_in reg" and ups: "releasing reg held st0 R ups g0"
    and g: "pressing reg held ups g0 R ys g" and sc: "sc \<in> codes_in reg" "sc \<notin> set ys"
    and room: "unat (cs_next_generation_id (gs_state g0)) + MAX_KEYS < 2 ^ 59"
  shows "exactly (sc \<notin> held) (pressing reg held ups g0 R (ys @ [sc])) (compile_down_code reg us a sc g)"
proof -
  obtain s where s: "slot_for reg sc = Some s" using sc by auto
  then have slot: "slot_of reg sc = unat s" by (simp add: slot_of_def)
  note mem = slot_of_mem [OF reg sc(1), unfolded slot]
  have bound: "unat s < MAX_KEYS" using slot_of_less [OF reg sc(1)] slot by simp
  let ?open = "cs_open_generation_by_slot (gs_state g)" and ?phys = "gs_physical_up_source_action_index_by_slot g"
  let ?next = "cs_next_generation_id (gs_state g)"
  have sub: "set ys \<subseteq> codes_in reg" "set ups \<subseteq> codes_in reg" using g ups by (simp_all add: pressing_def releasing_def)
  have len: "length ?open = MAX_KEYS" "length ?phys = MAX_KEYS" using g ups by (simp_all add: pressing_def releasing_def)
  have "?phys ! unat s \<noteq> None \<longleftrightarrow> unat s \<in> filled ?phys" "?open ! unat s \<noteq> None \<longleftrightarrow> unat s \<in> filled ?open"
    using bound len by (simp_all add: filled_def)
  then have phys: "?phys ! unat s \<noteq> None \<longleftrightarrow> sc \<in> set ups \<inter> held" and open': "?open ! unat s \<noteq> None \<longleftrightarrow> sc \<in> held - set ups \<union> set ys"
    using g ups mem [of "set ups \<inter> held"] mem [of "held - set ups \<union> set ys"] held sub by (auto simp: pressing_def releasing_def)
  show ?thesis
  proof (cases "sc \<in> held")
    case True
    then show ?thesis using s phys open' len bound sc(2) by (auto simp: compile_down_code_def Let_def split: option.splits)
  next
    case False
    then have free: "?phys ! unat s = None" "?open ! unat s = None" using phys open' sc(2) by auto
    have "length ys \<le> MAX_KEYS" using few_codes [OF reg] g by (simp add: pressing_def)
    then have next': "unat ?next + 1 < 2 ^ 60" using g room by (simp add: pressing_def)
    then have small: "\<not> ?next > MAX_COMPACT_GENERATION_ID" and add: "checked_add ?next 1 = Some (?next + 1)"
      and suc: "unat (?next + 1) = unat ?next + 1"
      using MAX_COMPACT_GENERATION_ID_val unat_add_no_wrap [of ?next 1] by (simp_all add: word_less_nat_alt checked_simps)
    have ins: "insert (unat s) (slot_of reg ` X) = slot_of reg ` insert sc X" for X by (simp add: slot)
    obtain g' where g': "compile_down_code reg us a sc g = Inr g'"
        "gs_down_mask g' = gs_down_mask g OR bit_for_slot s" "gs_up_mask g' = gs_up_mask g"
        "gs_physical_up_source_action_index_by_slot g' = ?phys"
        "cs_open_generation_by_slot (gs_state g') = ?open[unat s := Some \<lparr>og_generation_id = ?next,
           og_down_action_index = ka_source_action_index a, og_down_scheduled_us = us\<rparr>]"
        "length (cs_intents (gs_state g')) = Suc (length (cs_intents (gs_state g)))"
        "cs_next_generation_id (gs_state g') = ?next + 1"
        "cs_packets (gs_state g') = cs_packets (gs_state g)" "cs_batches (gs_state g') = cs_batches (gs_state g)"
        "interned R (gs_state g) \<longrightarrow> interned R (gs_state g')" "gs_group_batches g' = gs_group_batches g"
        "cs_previous_source_index (gs_state g') = cs_previous_source_index (gs_state g)"
        "cs_previous_scheduled_us (gs_state g') = cs_previous_scheduled_us (gs_state g)"
      using s free small add bound len by (auto simp: compile_down_code_def Let_def interned_def)
    have eqs: "held - set ups \<union> set (ys @ [sc]) = insert sc (held - set ups \<union> set ys)" "set (ys @ [sc]) = insert sc (set ys)" by auto
    have "pressing reg held ups g0 R (ys @ [sc]) g'"
      using g sc len bound False suc unfolding pressing_def eqs
      by (simp add: g' mask_bits_or [OF reg s] filled_update ins frame_defs)
    then show ?thesis using g'(1) False by simp
  qed
qed

lemma pressing_same: "mset zs = mset ys \<Longrightarrow> pressing reg held ups g0 R zs = pressing reg held ups g0 R ys"
  using same_codes [of zs ys] by (simp add: fun_eq_iff pressing_def)

text \<open>A moment whose releases and presses are done.\<close>

definition played ::
  "key_registry \<Rightarrow> u16 set \<Rightarrow> compile_state \<Rightarrow> string set \<Rightarrow> u16 list \<Rightarrow> u16 list \<Rightarrow> group_state \<Rightarrow> bool" where
  "played reg held st0 R ups downs g \<longleftrightarrow>
     mask_bits (gs_up_mask g) = slot_of reg ` (set ups \<inter> held) \<and> mask_bits (gs_down_mask g) = slot_of reg ` set downs \<and>
     length (cs_open_generation_by_slot (gs_state g)) = MAX_KEYS \<and>
     filled (cs_open_generation_by_slot (gs_state g)) = slot_of reg ` (held - set ups \<union> set downs) \<and>
     length (cs_intents (gs_state g)) = length (cs_intents st0) + length ups + length downs \<and>
     unat (cs_next_generation_id (gs_state g)) = unat (cs_next_generation_id st0) + length downs \<and>
     cs_packets (gs_state g) = cs_packets st0 \<and> cs_batches (gs_state g) = cs_batches st0 \<and>
     same_previous st0 (gs_state g) \<and> interned R (gs_state g)"

lemma released_played: "releasing reg held st0 R ups g \<Longrightarrow> played reg held st0 R ups [] g"
  by (simp add: releasing_def played_def)

lemma pressed_played: "releasing reg held st0 R ups g \<Longrightarrow> pressing reg held ups g R downs g1 \<Longrightarrow> played reg held st0 R ups downs g1"
  by (simp add: releasing_def pressing_def played_def frame_defs)

lemma down_action_exactly:
  assumes reg: "registry_wf reg" and held: "held \<subseteq> codes_in reg" and ups: "releasing reg held st0 R ups g"
    and a: "action_ok reg a" "ka_reason a \<in> R" and room: "length (cs_intents st0) + 2 * MAX_KEYS < 2 ^ 32"
    and gens: "unat (cs_next_generation_id st0) \<le> length (cs_intents st0)"
  shows "exactly (set (ka_scan_codes a) \<inter> held = {})
      (\<lambda>g'. played reg held st0 R ups (ka_scan_codes a) g' \<and> length (gs_group_batches g') = Suc (length (gs_group_batches g)))
      (compile_down_action reg pid us a g)"
proof -
  let ?codes = "sorted_scan_codes reg (ka_scan_codes a)"
  obtain rid where rid: "get_or_insert_reason (ka_reason a) (gs_state g) = Inr (rid, gs_state g)"
    using known_reason [OF _ a(2), of "gs_state g"] ups by (auto simp: releasing_def)
  have "length ups \<le> MAX_KEYS" using few_codes [OF reg] ups by (simp add: releasing_def)
  then have start: "length (cs_intents (gs_state g)) < 2 ^ LENGTH(32)" using ups room by (simp add: releasing_def)
  have len: "length (ka_scan_codes a) < 2 ^ LENGTH(8)" using a(1) by (simp add: action_ok_def MAX_KEYS_def)
  have gen_room: "unat (cs_next_generation_id (gs_state g)) + MAX_KEYS < 2 ^ 59" using ups gens room by (simp add: releasing_def MAX_KEYS_def)
  have codes: "set ?codes \<subseteq> codes_in reg" "distinct ?codes"
    using a(1) same_codes [OF mset_sorted_codes, of reg "ka_scan_codes a"] by (auto simp: action_ok_def)
  have "exactly (each_after (\<lambda>_ sc. sc \<notin> held) ?codes) (pressing reg held ups g R ?codes) (rfold (compile_down_code reg us a) ?codes g)"
  proof (rule exactly_rfold [where P = "pressing reg held ups g R", OF pressing_start [OF ups]])
    fix ys sc zs u
    assume "?codes = ys @ sc # zs" "pressing reg held ups g R ys u"
    then show "exactly (sc \<notin> held) (pressing reg held ups g R (ys @ [sc])) (compile_down_code reg us a sc u)"
      using down_code_exactly [OF reg held ups _ _ _ gen_room, of ys u sc us a] codes by auto
  qed
  then have main: "exactly (set (ka_scan_codes a) \<inter> held = {}) (\<lambda>g'. played reg held st0 R ups (ka_scan_codes a) g' \<and> gs_group_batches g' = gs_group_batches g) (rfold (compile_down_code reg us a) ?codes g)"
    unfolding pressing_same [OF mset_sorted_codes] each_after_ball
    by (rule exactly_mono) (use pressed_played [OF ups] in \<open>auto simp: pressing_def\<close>)
  have g_same: "g\<lparr>gs_state := gs_state g\<rparr> = g" by simp
  show ?thesis
    unfolding compile_down_action_def rid rbind_simps prod.case g_same
    by (rule exactly_then [OF exactly_try_from [OF start]],
        rule exactly_rbind_then [OF main],
        rule exactly_then [OF exactly_try_from [OF len]]) (simp add: played_def)
qed


section \<open>One moment\<close>

definition stands :: "key_registry \<Rightarrow> u16 set \<Rightarrow> string set \<Rightarrow> nat \<Rightarrow> compile_state \<Rightarrow> bool" where
  "stands reg held R k st \<longleftrightarrow> held \<subseteq> codes_in reg \<and> length (cs_open_generation_by_slot st) = MAX_KEYS \<and>
     filled (cs_open_generation_by_slot st) = slot_of reg ` held \<and> interned R st \<and>
     length (cs_intents st) \<le> MAX_KEYS * k \<and> unat (cs_next_generation_id st) \<le> length (cs_intents st) \<and>
     length (cs_packets st) \<le> k \<and> length (cs_batches st) \<le> k"

definition packet_plays :: "key_registry \<Rightarrow> u16 set \<Rightarrow> u64 \<Rightarrow> key_action_input list \<Rightarrow> compiled_packet \<Rightarrow> bool" where
  "packet_plays reg held us actions p \<longleftrightarrow> cp_scheduled_us p = us \<and>
     mask_bits (cp_up_mask p) = slot_of reg ` (set (codes_of Up actions) \<inter> held) \<and>
     mask_bits (cp_down_mask p) = slot_of reg ` set (codes_of Down actions)"

lemma releasing_start:
  assumes "stands reg held R0 k st" and "same_core st st1" and "interned R st1"
  shows "releasing reg held st1 R [] (group_state_new st1)"
proof -
  have "filled (replicate MAX_KEYS None) = {}" by (auto simp: filled_def)
  then show ?thesis using assms by (simp add: stands_def releasing_def group_state_new_def frame_defs)
qed

lemma codes_of_length:
  "\<forall>a \<in> set actions. action_ok reg a \<Longrightarrow> length (codes_of Up actions) + length (codes_of Down actions) \<le> MAX_KEYS * length actions"
proof (induction actions rule: rev_induct)
  case (snoc a actions)
  then show ?case by (cases "ka_kind a") (auto simp: action_ok_def)
qed simp

lemma codes_of_count: "\<forall>a \<in> set actions. action_ok reg a \<Longrightarrow> length (filter (\<lambda>a. ka_kind a = kind) actions) \<le> length (codes_of kind actions)"
proof (induction actions rule: rev_induct)
  case (snoc a actions)
  then show ?case by (cases "ka_scan_codes a") (auto simp: action_ok_def)
qed simp

lemma count_kinds: "length (filter (\<lambda>a. ka_kind a = Up) actions) + length (filter (\<lambda>a. ka_kind a = Down) actions) = length actions"
proof (induction actions)
  case (Cons a actions)
  then show ?case by (cases "ka_kind a") simp_all
qed simp

lemma packet_exactly:
  assumes reg: "registry_wf reg" and st: "stands reg held R0 k st0" and chk: "checked st0 R0 actions (d, st)"
    and ok: "\<forall>a \<in> set actions. action_ok reg a" and ne: "actions \<noteq> []"
    and chord: "length (filter (\<lambda>a. ka_kind a = Down) actions) \<le> 1" and k: "k + length actions \<le> MAX_ACTIONS"
  defines "R \<equiv> R0 \<union> reasons_of actions"
  shows "exactly (distinct (codes_of Up actions) \<and> set (codes_of Down actions) \<inter> held = {})
    (\<lambda>st'. stands reg (held_after held actions) R (k + length actions) st' \<and>
      cs_previous_source_index st' = Some (ka_source_action_index (last actions)) \<and>
      cs_previous_scheduled_us st' = Some (ka_scheduled_us (last actions)) \<and>
      (\<exists>p. cs_packets st' = cs_packets st0 @ [p] \<and> packet_plays reg held us actions p))
    (compile_packet reg us pid fb actions d st)"
proof -
  have held: "held \<subseteq> codes_in reg" using st by (simp add: stands_def)
  have core: "same_core st0 st" and R: "interned R st"
    and ds: "filter (\<lambda>a. ka_kind a = Down) actions = (case d of None \<Rightarrow> [] | Some a \<Rightarrow> [a])"
    and prev: "cs_previous_source_index st = Some (ka_source_action_index (last actions))"
      "cs_previous_scheduled_us st = Some (ka_scheduled_us (last actions))"
    using chk ne by (simp_all add: checked_def R_def)
  have ints: "length (cs_intents st) \<le> MAX_KEYS * MAX_ACTIONS"
  proof -
    have "length (cs_intents st) \<le> MAX_KEYS * k" using st core by (simp add: stands_def frame_defs)
    also have "\<dots> \<le> MAX_KEYS * MAX_ACTIONS" using k by (intro mult_le_mono2) simp
    finally show ?thesis .
  qed
  have room: "length (cs_intents st) + 2 * MAX_KEYS < 2 ^ 32" "length (cs_intents st) + MAX_KEYS < 2 ^ 32"
    "length (cs_intents st) < 2 ^ LENGTH(32)"
    using ints by (simp_all add: MAX_KEYS_def MAX_ACTIONS_def)
  have gens: "unat (cs_next_generation_id st) \<le> length (cs_intents st)" using st core by (simp add: stands_def frame_defs)
  have reasons: "reasons_of actions \<subseteq> R" by (simp add: R_def)
  let ?ups = "codes_of Up actions" and ?downs = "codes_of Down actions"
  have ups: "length ?ups \<le> MAX_KEYS" if "distinct ?ups" using few_codes [OF reg that codes_of_ok [OF ok]] .
  have down: "exactly (set ?downs \<inter> held = {}) (\<lambda>g'. played reg held st R ?ups ?downs g' \<and> length (gs_group_batches g') = length actions)
      (case d of Some a \<Rightarrow> compile_down_action reg pid us a g | None \<Rightarrow> Inr g)"
    if g: "releasing reg held st R ?ups g" "length (gs_group_batches g) = length (filter (\<lambda>a. ka_kind a = Up) actions)" for g
  proof (cases d)
    case None
    then have "?downs = []" "length (filter (\<lambda>a. ka_kind a = Up) actions) = length actions"
      using ds count_kinds [of actions] by (simp_all add: codes_of_def)
    then show ?thesis using None g released_played by simp
  next
    case (Some a)
    then have "a \<in> set (filter (\<lambda>a. ka_kind a = Down) actions)" using ds by simp
    then have a: "action_ok reg a" "ka_reason a \<in> R" using ok reasons by (auto simp: reasons_of_def)
    have "?downs = ka_scan_codes a" "Suc (length (filter (\<lambda>a. ka_kind a = Up) actions)) = length actions"
      using ds Some count_kinds [of actions] by (simp_all add: codes_of_def)
    then show ?thesis using Some down_action_exactly [OF reg held g(1) a room(1) gens, of pid us] g(2) by simp
  qed
  have push: "exactly True (\<lambda>st'. stands reg (held_after held actions) R (k + length actions) st' \<and>
      cs_previous_source_index st' = Some (ka_source_action_index (last actions)) \<and>
      cs_previous_scheduled_us st' = Some (ka_scheduled_us (last actions)) \<and>
      (\<exists>p. cs_packets st' = cs_packets st0 @ [p] \<and> packet_plays reg held us actions p))
      (push_packet us pid fb up_start up_len down_start (length actions) g)"
    if g: "played reg held st R ?ups ?downs g" "length (gs_group_batches g) = length actions"
      and d: "distinct ?ups" and start: "unat down_start = length (cs_intents st) + length ?ups"
    for g and up_start down_start :: u32 and up_len :: u8
  proof -
    have n: "length actions < 2 ^ LENGTH(16)"
    proof -
      have "length actions \<le> length ?ups + 1" using codes_of_count [OF ok, of Up] chord count_kinds [of actions] by linarith
      then show ?thesis using ups [OF d] by (simp add: MAX_KEYS_def)
    qed
    have downs: "length ?downs \<le> MAX_KEYS"
    proof (cases d)
      case None
      then show ?thesis using ds by (simp add: codes_of_def)
    next
      case (Some a)
      then have "a \<in> set (filter (\<lambda>a. ka_kind a = Down) actions)" using ds by simp
      then have "action_ok reg a" using ok by simp
      then show ?thesis using ds Some by (simp add: codes_of_def action_ok_def)
    qed
    then have short: "length (cs_intents (gs_state g)) - unat down_start < 2 ^ LENGTH(8)"
      using g(1) start by (simp add: played_def MAX_KEYS_def)
    have len: "length (cs_intents (gs_state g)) \<le> MAX_KEYS * (k + length actions)"
      using g(1) st core codes_of_length [OF ok] by (simp add: played_def stands_def frame_defs algebra_simps)
    have codes: "set ?ups \<subseteq> codes_in reg" "set ?downs \<subseteq> codes_in reg" using codes_of_ok [OF ok] by auto
    obtain n' where "length actions = Suc n'" using ne by (cases actions) auto
    then have more: "Suc (length (cs_packets st0)) \<le> k + length actions" using st by (simp add: stands_def)
    show ?thesis
      unfolding push_packet_def
      by (rule exactly_then [OF exactly_try_from [OF n]], rule exactly_then [OF exactly_try_from [OF short]])
        (use g st core prev len gens codes ne more in \<open>auto simp: Let_def played_def stands_def frame_defs interned_def packet_plays_def held_after_def\<close>)
  qed
  have main: "exactly (distinct ?ups) (\<lambda>g'. releasing reg held st R ?ups g' \<and>
      length (gs_group_batches g') = length (filter (\<lambda>a. ka_kind a = Up) actions)) (rfold (compile_up_action reg pid us) actions (group_state_new st))"
    by (rule up_actions_exactly [OF reg held releasing_start [OF st core R] _ ok reasons room(2)]) (simp add: group_state_new_def)
  show ?thesis
    unfolding compile_packet_def
  proof (rule exactly_then [OF exactly_try_from [OF room(3)]], rule exactly_rbind [OF main], elim conjE)
    fix g and up_start :: u32
    assume start: "unat up_start = length (cs_intents st)" and d: "distinct ?ups" and g: "releasing reg held st R ?ups g"
      "length (gs_group_batches g) = length (filter (\<lambda>a. ka_kind a = Up) actions)"
    have len: "length (cs_intents (gs_state g)) = length (cs_intents st) + length ?ups" using g(1) by (simp add: releasing_def)
    have a: "length (cs_intents (gs_state g)) - unat up_start < 2 ^ LENGTH(8)" using len start ups [OF d] by (simp add: MAX_KEYS_def)
    have b: "length (cs_intents (gs_state g)) < 2 ^ LENGTH(32)" using len room(2) ups [OF d] by simp
    show "exactly (set ?downs \<inter> held = {})
     (\<lambda>st'. stands reg (held_after held actions) R (k + length actions) st' \<and>
      cs_previous_source_index st' = Some (ka_source_action_index (last actions)) \<and>
      cs_previous_scheduled_us st' = Some (ka_scheduled_us (last actions)) \<and>
      (\<exists>p. cs_packets st' = cs_packets st0 @ [p] \<and> packet_plays reg held us actions p))
     (rbind (ok_or (try_from_usize (length (cs_intents (gs_state g)) - unat up_start)) Panic) (\<lambda>up_len.
      rbind (ok_or (try_from_usize (length (cs_intents (gs_state g)))) (Err TooManyActions)) (\<lambda>down_start.
      rbind (case d of Some a \<Rightarrow> compile_down_action reg pid us a g | None \<Rightarrow> Inr g)
        (push_packet us pid fb up_start up_len down_start (length actions)))))"
      by (rule exactly_then [OF exactly_try_from [OF a]], rule exactly_then [OF exactly_try_from [OF b]],
          rule exactly_rbind_then [OF down [OF g]], elim conjE, rule push [OF _ _ d]) (simp_all add: len)
  qed
qed


lemma group_exactly:
  assumes reg: "registry_wf reg" and st: "stands reg held R k st" and ne: "actions \<noteq> []" and k: "k + length actions \<le> MAX_ACTIONS"
  shows "exactly (each_after (follows (cs_previous_source_index st) (cs_previous_scheduled_us st)) actions \<and>
      (\<forall>a \<in> set actions. action_ok reg a) \<and> each_after (interns R) actions \<and> moment_ok held actions)
    (\<lambda>st'. stands reg (held_after held actions) (R \<union> reasons_of actions) (k + length actions) st' \<and>
      cs_previous_source_index st' = Some (ka_source_action_index (last actions)) \<and>
      cs_previous_scheduled_us st' = Some (ka_scheduled_us (last actions)) \<and>
      (\<exists>p. cs_packets st' = cs_packets st @ [p] \<and> packet_plays reg held us actions p))
    (compile_group reg us actions st)"
proof -
  have R: "interned R st" and room: "length (cs_packets st) < 2 ^ LENGTH(32)" "length (cs_batches st) < 2 ^ LENGTH(32)"
    using st k by (simp_all add: stands_def MAX_ACTIONS_def)
  have parts: "each_after (follows (cs_previous_source_index st) (cs_previous_scheduled_us st)) actions \<and>
      (\<forall>a \<in> set actions. action_ok reg a) \<and> each_after (interns R) actions \<and> moment_ok held actions \<longleftrightarrow>
      (each_after (follows (cs_previous_source_index st) (cs_previous_scheduled_us st)) actions \<and>
       (\<forall>a \<in> set actions. action_ok reg a) \<and> each_after (interns R) actions \<and> each_after single_chord actions) \<and>
      distinct (codes_of Up actions) \<and> set (codes_of Down actions) \<inter> held = {}"
    by (auto simp: moment_ok_def each_chord)
  show ?thesis
    unfolding compile_group_def parts
    by (rule exactly_then [OF exactly_try_from [OF room(1)]], rule exactly_then [OF exactly_try_from [OF room(2)]],
        rule exactly_rbind [OF validate_exactly [OF reg R]], clarify, rule packet_exactly [OF reg st _ _ ne _ k])
      (simp_all add: each_chord)
qed

section \<open>All moments\<close>

text \<open>Packet by packet, with the keys held before each.\<close>

fun packets_play :: "key_registry \<Rightarrow> u16 set \<Rightarrow> key_action_input list list \<Rightarrow> compiled_packet list \<Rightarrow> bool" where
  "packets_play reg held [] ps \<longleftrightarrow> ps = []"
| "packets_play reg held (m # ms) ps \<longleftrightarrow>
     (case ps of [] \<Rightarrow> False
      | p # ps \<Rightarrow> packet_plays reg held (ka_scheduled_us (hd m)) m p \<and> packets_play reg (held_after held m) ms ps)"

lemma groups_exactly:
  assumes "registry_wf reg" and "stands reg held R k st" and "k + length actions \<le> MAX_ACTIONS"
  shows "exactly (each_after (follows (cs_previous_source_index st) (cs_previous_scheduled_us st)) actions \<and>
      (\<forall>a \<in> set actions. action_ok reg a) \<and> each_after (interns R) actions \<and> play held (moments actions) \<noteq> None)
    (\<lambda>st'. stands reg (the (play held (moments actions))) (R \<union> reasons_of actions) (k + length actions) st' \<and>
      (\<exists>ps. cs_packets st' = cs_packets st @ ps \<and> packets_play reg held (moments actions) ps))
    (compile_groups reg actions st)"
  using assms
proof (induction reg actions st arbitrary: held R k rule: compile_groups.induct)
  case (1 reg st)
  then show ?case by (simp add: reasons_of_def)
next
  case (2 reg a as st)
  let ?same = "\<lambda>b. ka_scheduled_us b = ka_scheduled_us a"
  define g where "g = a # takeWhile ?same as"
  define rest where "rest = dropWhile ?same as"
  have g: "g \<noteq> []" and all: "a # as = g @ rest" by (simp_all add: g_def rest_def)
  have len: "length (a # as) = length g + length rest" unfolding all by simp
  have last: "ka_scheduled_us (last g) = ka_scheduled_us a"
  proof -
    have "last g = a \<or> last g \<in> set (takeWhile ?same as)" unfolding g_def by (metis last.simps last_in_set)
    then show ?thesis by (auto dest: set_takeWhileD)
  qed
  let ?R = "R \<union> reasons_of g"
  let ?post = "\<lambda>st'. stands reg (the (play held (moments (a # as)))) (R \<union> reasons_of (a # as)) (k + length (a # as)) st' \<and>
      (\<exists>ps. cs_packets st' = cs_packets st @ ps \<and> packets_play reg held (moments (a # as)) ps)"
  have ms: "moments (a # as) = g # moments rest" by (simp add: g_def rest_def Let_def)
  have reasons: "R \<union> reasons_of (a # as) = ?R \<union> reasons_of rest" unfolding all by (auto simp: reasons_of_def)
  have rest: "exactly (each_after (follows (Some (ka_source_action_index (last g))) (Some (ka_scheduled_us (last g)))) rest \<and>
        (\<forall>a \<in> set rest. action_ok reg a) \<and> each_after (interns ?R) rest \<and> play (held_after held g) (moments rest) \<noteq> None)
      ?post (compile_groups reg rest st')"
    if st': "compile_group reg (ka_scheduled_us a) g st = Inr st'" "moment_ok held g" "stands reg (held_after held g) ?R (k + length g) st'"
      "cs_previous_source_index st' = Some (ka_source_action_index (last g))" "cs_previous_scheduled_us st' = Some (ka_scheduled_us (last g))"
      "cs_packets st' = cs_packets st @ [p]" "packet_plays reg held (ka_scheduled_us a) g p" for st' p
  proof -
    have "k + length g + length rest \<le> MAX_ACTIONS" using "2.prems"(3) len by simp
    from "2.IH" [OF refl refl st'(1) [unfolded g_def] "2.prems"(1) st'(3), folded rest_def, OF this] show ?thesis
      unfolding st'(4,5)
    proof (rule exactly_mono)
      fix st''
      assume "stands reg (the (play (held_after held g) (moments rest))) (?R \<union> reasons_of rest) (k + length g + length rest) st'' \<and>
          (\<exists>ps. cs_packets st'' = cs_packets st' @ ps \<and> packets_play reg (held_after held g) (moments rest) ps)"
      then obtain ps where "stands reg (the (play held (moments (a # as)))) (R \<union> reasons_of (a # as)) (k + length (a # as)) st''"
          "cs_packets st'' = cs_packets st @ p # ps" "packets_play reg (held_after held g) (moments rest) ps"
        using st'(2,6) unfolding ms reasons len by (auto simp: add.assoc)
      moreover have "ka_scheduled_us (hd g) = ka_scheduled_us a" by (simp add: g_def)
      ultimately show "?post st''" using st'(7) unfolding ms by (auto intro!: exI [of _ "p # ps"])
    qed simp
  qed
  have split: "each_after (follows (cs_previous_source_index st) (cs_previous_scheduled_us st)) (a # as) \<and>
      (\<forall>b \<in> set (a # as). action_ok reg b) \<and> each_after (interns R) (a # as) \<and> play held (moments (a # as)) \<noteq> None \<longleftrightarrow>
      (each_after (follows (cs_previous_source_index st) (cs_previous_scheduled_us st)) g \<and>
        (\<forall>b \<in> set g. action_ok reg b) \<and> each_after (interns R) g \<and> moment_ok held g) \<and>
      (each_after (follows (Some (ka_source_action_index (last g))) (Some (ka_scheduled_us (last g)))) rest \<and>
        (\<forall>b \<in> set rest. action_ok reg b) \<and> each_after (interns ?R) rest \<and> play (held_after held g) (moments rest) \<noteq> None)"
    unfolding ms unfolding all each_after_append follows_append [OF g] interns_append by auto
  have kg: "k + length g \<le> MAX_ACTIONS" using "2.prems"(3) len by simp
  show ?case
    unfolding split unfolding compile_groups.simps Let_def unfolding g_def [symmetric] rest_def [symmetric]
    by (rule exactly_rbind [OF group_exactly [OF "2.prems"(1,2) g kg]], elim conjE exE, rule rest) assumption+
qed


lemma allowed_exactly: "exactly (codes \<noteq> [] \<and> length codes \<le> MAX_KEYS \<and> distinct codes) (\<lambda>_. True) (check_allowed codes)"
proof -
  let ?f = "\<lambda>i (_ :: unit). if codes ! i \<in> set (take i codes) then Inl (Err (DuplicateAllowedScanCode (codes ! i))) else Inr ()"
  have "exactly (each_after (\<lambda>_ i. codes ! i \<notin> set (take i codes)) [0..<length codes]) (\<lambda>_. True) (rfold ?f [0..<length codes] ())"
    by (rule exactly_rfold) simp_all
  moreover have "each_after (\<lambda>_ i. codes ! i \<notin> set (take i codes)) [0..<length codes] \<longleftrightarrow> distinct codes"
  proof -
    have "(\<forall>i < length codes. codes ! i \<notin> set (take i codes)) \<longleftrightarrow> distinct codes"
    proof (induction codes rule: rev_induct)
      case (snoc c codes)
      have "(\<forall>i < length (codes @ [c]). (codes @ [c]) ! i \<notin> set (take i (codes @ [c]))) \<longleftrightarrow>
          (\<forall>i < length codes. codes ! i \<notin> set (take i codes)) \<and> c \<notin> set codes"
        by (auto simp: less_Suc_eq nth_append all_conj_distrib)
      then show ?case using snoc by auto
    qed simp
    then show ?thesis by (simp add: each_after_ball Ball_def)
  qed
  ultimately show ?thesis by (auto simp: check_allowed_def)
qed

lemma closed_exactly:
  assumes "registry_wf reg" and "length os = MAX_KEYS" and "filled os \<subseteq> slot_of reg ` codes_in reg"
  shows "exactly (filled os = {}) (\<lambda>_. True) (check_closed reg os)"
proof -
  have "exactly (each_after (\<lambda>_ (slot :: nat, og). og = None) (enumerate 0 os)) (\<lambda>_. True) (check_closed reg os)"
    unfolding check_closed_def
  proof (rule exactly_rfold, simp)
    fix ys zs and x :: "nat \<times> open_generation option" and u :: unit
    obtain slot og where x: "x = (slot, og)" by fastforce
    show "exactly (case x of (slot, og) \<Rightarrow> og = None) (\<lambda>_. True) ((\<lambda>(slot, slot_open) _. case slot_open of
              None \<Rightarrow> Inr ()
            | Some og \<Rightarrow>
                rbind (ok_or (scan_code_for reg (word_of_nat slot)) Panic) (\<lambda>scan_code.
                Inl (Err (UnclosedMusicalGeneration scan_code (og_down_action_index og) (og_down_scheduled_us og))))) x u)"
      by (cases og; cases "scan_code_for reg (word_of_nat slot)") (simp_all add: x)
  qed
  moreover have "each_after (\<lambda>_ (slot :: nat, og). og = None) (enumerate 0 os) \<longleftrightarrow> filled os = {}"
    by (auto simp: each_after_ball filled_def in_set_enumerate_eq)
  ultimately show ?thesis by simp
qed

lemma compile_exactly:
  "exactly (song_compiles actions codes) (\<lambda>rs. packets_play (key_registry_new codes) {} (moments actions) (rs_packets rs))
     (compile_runtime_intents actions codes)"
proof -
  let ?reg = "key_registry_new codes"
  let ?allowed = "codes \<noteq> [] \<and> length codes \<le> MAX_KEYS \<and> distinct codes"
  have fresh: "stands ?reg {} {} 0 compile_state_new"
  proof -
    have "filled (replicate MAX_KEYS None) = {}" by (auto simp: filled_def)
    then show ?thesis by (simp add: stands_def compile_state_new_def interned_def)
  qed
  have rest: "exactly (length actions \<le> MAX_ACTIONS \<and> in_order actions \<and> (\<forall>a \<in> set actions. action_ok ?reg a) \<and>
      card (reasons_of actions) \<le> 2 ^ 16 \<and> play {} (moments actions) = Some {})
      (\<lambda>rs. packets_play ?reg {} (moments actions) (rs_packets rs))
      (if length actions > MAX_ACTIONS then Inl (Err TooManyActions) else
       rbind (compile_groups ?reg actions compile_state_new) (\<lambda>st.
       rbind (check_closed ?reg (cs_open_generation_by_slot st)) (\<lambda>_.
       Inr \<lparr>rs_packets = cs_packets st, rs_batches = cs_batches st, rs_intents = cs_intents st,
          rs_generation_count = cs_next_generation_id st, rs_key_registry = ?reg, rs_reason_table = cs_reason_table st\<rparr>)))"
    if allowed: ?allowed
  proof (cases "length actions > MAX_ACTIONS")
    case False
    have reg: "registry_wf ?reg"
      using allowed key_registry_new_id [of codes] by (simp add: registry_wf_def registry_len_def)
    have k: "0 + length actions \<le> MAX_ACTIONS" using False by simp
    have groups: "exactly (in_order actions \<and> (\<forall>a \<in> set actions. action_ok ?reg a) \<and>
          card (reasons_of actions) \<le> 2 ^ 16 \<and> play {} (moments actions) \<noteq> None)
        (\<lambda>st. stands ?reg (the (play {} (moments actions))) (reasons_of actions) (length actions) st \<and>
           packets_play ?reg {} (moments actions) (cs_packets st)) (compile_groups ?reg actions compile_state_new)"
      using groups_exactly [OF reg fresh k]
      by (rule exactly_mono) (auto simp: compile_state_new_def each_follows each_interns)
    have closed: "exactly (the (play {} (moments actions)) = {}) (\<lambda>_. True) (check_closed ?reg (cs_open_generation_by_slot st))"
      if st: "stands ?reg (the (play {} (moments actions))) (reasons_of actions) (length actions) st" for st
    proof -
      have os: "length (cs_open_generation_by_slot st) = MAX_KEYS" and held: "the (play {} (moments actions)) \<subseteq> codes_in ?reg"
        and eq: "filled (cs_open_generation_by_slot st) = slot_of ?reg ` the (play {} (moments actions))"
        using st unfolding stands_def by blast+
      show ?thesis using closed_exactly [OF reg os] image_mono [OF held, of "slot_of ?reg"] unfolding eq image_is_empty by blast
    qed
    have split: "length actions \<le> MAX_ACTIONS \<and> in_order actions \<and> (\<forall>a \<in> set actions. action_ok ?reg a) \<and>
        card (reasons_of actions) \<le> 2 ^ 16 \<and> play {} (moments actions) = Some {} \<longleftrightarrow>
        (in_order actions \<and> (\<forall>a \<in> set actions. action_ok ?reg a) \<and>
          card (reasons_of actions) \<le> 2 ^ 16 \<and> play {} (moments actions) \<noteq> None) \<and> the (play {} (moments actions)) = {}"
      using False by auto
    show ?thesis
      unfolding split if_not_P [OF False]
      by (rule exactly_rbind [OF groups], elim conjE, rule exactly_rbind_then [OF closed]) simp_all
  qed simp
  show ?thesis
    unfolding compile_runtime_intents_def Let_def song_compiles_def
    by (rule exactly_mono [OF exactly_rbind [OF allowed_exactly rest]]) auto
qed

definition held_before :: "key_action_input list \<Rightarrow> nat \<Rightarrow> u16 set" where
  "held_before actions i = foldl held_after {} (take i (moments actions))"

lemma packets_play_nth:
  "packets_play reg held ms ps \<longleftrightarrow> length ps = length ms \<and>
     (\<forall>i < length ms. packet_plays reg (foldl held_after held (take i ms)) (ka_scheduled_us (hd (ms ! i))) (ms ! i) (ps ! i))"
proof (induction ms arbitrary: held ps)
  case (Cons m ms)
  show ?case
  proof (cases ps)
    case Nil
    then show ?thesis by simp
  next
    case (Cons p qs)
    then show ?thesis using Cons.IH [of "held_after held m" qs] by (auto simp: less_Suc_eq_0_disj)
  qed
qed simp

lemma compiled_registry: "compile_runtime_intents actions codes = Inr rs \<Longrightarrow> rs_key_registry rs = key_registry_new codes"
  by (auto simp: compile_runtime_intents_def Let_def result_simps)

section \<open>Properties\<close>

text \<open>C29: The compiler accepts exactly the songs that can be played on the allowed keys, and the packets it
  makes play them. It succeeds if and only if the allowed keys are between 1 and 15 distinct codes, the actions
  are few enough, ordered, well formed (each names 1 to 15 distinct allowed keys and a reason that is not too
  long) and give at most 65536 reasons, no moment presses two chords, releases a
  key twice or presses a key that is held when the moment begins, and no key is held at the end. There is then
  one packet for each moment, at its time; the press mask of the packet holds exactly the slots of the pressed
  keys, its release mask exactly the slots of those released keys that were held (a release of a key that is not
  held is dropped), and the two masks are disjoint.\<close>

theorem compile_accepts_and_plays:
  "case compile_runtime_intents actions codes of
     Inl e \<Rightarrow> \<not> song_compiles actions codes
   | Inr rs \<Rightarrow> song_compiles actions codes \<and> length (rs_packets rs) = length (moments actions) \<and>
       (\<forall>i < length (moments actions). let p = rs_packets rs ! i; m = moments actions ! i in
          cp_scheduled_us p = ka_scheduled_us (hd m) \<and>
          {n. bit (cp_down_mask p) n} = slot_of (rs_key_registry rs) ` set (codes_of Down m) \<and>
          {n. bit (cp_up_mask p) n} = slot_of (rs_key_registry rs) ` (set (codes_of Up m) \<inter> held_before actions i) \<and>
          cp_up_mask p AND cp_down_mask p = 0)"
proof (cases "compile_runtime_intents actions codes")
  case (Inl e)
  then show ?thesis using compile_exactly [of actions codes] by simp
next
  case (Inr rs)
  have "schedule_wf rs" using compile_safe Inr by (rule safe_Inr)
  then have "cp_up_mask p AND cp_down_mask p = 0" if "p \<in> set (rs_packets rs)" for p
    using that by (rule packet_masks_disjoint)
  moreover have "song_compiles actions codes \<and> packets_play (rs_key_registry rs) {} (moments actions) (rs_packets rs)"
    using exactlyD [OF compile_exactly Inr] compiled_registry [OF Inr] by simp
  ultimately show ?thesis by (simp add: Inr packets_play_nth packet_plays_def held_before_def Let_def)
qed

text \<open>The demo song compiles; its second packet releases the one of its keys that is held.\<close>

theorem compile_accepts_and_plays_witness:
  "song_compiles demo_actions demo_codes \<and> length (rs_packets demo_schedule) = length (moments demo_actions) \<and>
   {n. bit (cp_up_mask (rs_packets demo_schedule ! 1)) n} = slot_of (rs_key_registry demo_schedule) ` {30}"
proof -
  have m: "moments demo_actions = [[demo_action 0 Down 1000 [31, 30]], [demo_action 1 Down 2000 [32], demo_action 2 Up 2000 [30]],
      [demo_action 3 Up 3000 [32, 31]]]" by code_simp
  have "codes_of Up (moments demo_actions ! 1) = [30]" "held_before demo_actions 1 = {30, 31}"
    by (auto simp: m codes_of_def demo_action_def held_before_def held_after_def)
  moreover note song = compile_accepts_and_plays [of demo_actions demo_codes, unfolded demo_compiles sum.case]
  moreover have "(1 :: nat) < length (moments demo_actions)" by (simp add: m)
  ultimately show ?thesis unfolding Let_def by fastforce
qed

end
