(* ===== verification/Sky_Guard.thy ===== *)
theory Sky_Guard
  imports Sky_Model
begin

text \<open>
  The physical timing guard of \<open>sky_player/src/engine/worker/physical_timing_guard.rs\<close>: per-key QPC
  floors derived from the completion times of packets the operating system accepted. The lemmas show
  that the fixed tables are a refinement of a specification over the history of observations, that the
  guard never indexes out of its tables, and that the window it hands out respects every floor and is
  the earliest one that does.
\<close>

section \<open>The guard\<close>

definition VALID_KEY_MASK :: u16 where
  "VALID_KEY_MASK = push_bit MAX_KEYS 1 - 1"

record physical_timing_window =
  pw_authored_target_qpc :: qpc_ticks
  pw_musical_up_not_before_qpc :: qpc_ticks
  pw_down_not_before_qpc :: qpc_ticks
  pw_packet_not_before_qpc :: qpc_ticks
  pw_hold_floor_mask :: u16
  pw_release_floor_mask :: u16

datatype physical_timing_guard_error = Invalidated | InvalidPacketMasks | ArithmeticOverflow

record physical_timing_guard =
  pg_musical_up_not_before_qpc :: "qpc_ticks option list"
  pg_down_not_before_qpc :: "qpc_ticks option list"
  pg_resume_down_not_before_qpc :: "qpc_ticks option"
  pg_effective_min_hold_ticks :: duration_ticks
  pg_frame_ticks :: duration_ticks
  pg_valid :: bool

type_synonym 'a guard_result = "physical_timing_guard_error failure + 'a"

type_synonym 'a guard_op = "(physical_timing_guard, physical_timing_guard_error failure, 'a) smethod"

definition guard_new :: "duration_ticks \<Rightarrow> duration_ticks \<Rightarrow> physical_timing_guard" where
  "guard_new effective_min_hold_ticks frame_ticks =
     \<lparr>pg_musical_up_not_before_qpc = replicate MAX_KEYS None,
      pg_down_not_before_qpc = replicate MAX_KEYS None, pg_resume_down_not_before_qpc = None,
      pg_effective_min_hold_ticks = effective_min_hold_ticks, pg_frame_ticks = frame_ticks,
      pg_valid = True\<rparr>"

definition guard_invalidate :: "physical_timing_guard \<Rightarrow> physical_timing_guard" where
  "guard_invalidate self =
     self\<lparr>pg_musical_up_not_before_qpc := replicate MAX_KEYS None,
          pg_down_not_before_qpc := replicate MAX_KEYS None, pg_valid := False\<rparr>"

definition establish_resume_down_barrier :: "qpc_ticks \<Rightarrow> unit guard_op" where
  "establish_resume_down_barrier cleanup_completed_qpc self =
     (case qpc_checked_add_duration cleanup_completed_qpc (pg_frame_ticks self) of
        Inr barrier \<Rightarrow>
          (Inr (), self\<lparr>pg_musical_up_not_before_qpc := replicate MAX_KEYS None,
                        pg_down_not_before_qpc := replicate MAX_KEYS None,
                        pg_resume_down_not_before_qpc := Some barrier, pg_valid := True\<rparr>)
      | Inl _ \<Rightarrow> (Inl (Err ArithmeticOverflow), guard_invalidate self))"

definition ensure_valid :: "physical_timing_guard \<Rightarrow> unit guard_result" where
  "ensure_valid self = (if pg_valid self then Inr () else Inl (Err Invalidated))"

definition validate_packet_masks :: "u16 \<Rightarrow> u16 \<Rightarrow> unit guard_result" where
  "validate_packet_masks up_mask down_mask =
     (if (up_mask OR down_mask) AND NOT VALID_KEY_MASK \<noteq> 0 \<or> up_mask AND down_mask \<noteq> 0
      then Inl (Err InvalidPacketMasks) else Inr ())"

text \<open>The scan \<open>slot = remaining.trailing_zeros(); remaining &= !(1 << slot)\<close>.\<close>

lemma bit_clear_lowest:
  fixes w :: u16
  assumes "w \<noteq> 0"
  shows "w AND NOT (mask_bit (trailing_zeros w)) = w AND (w - 1)"
proof (rule bit_word_eqI)
  fix n assume "n < LENGTH(16)"
  show "bit (w AND NOT (mask_bit (trailing_zeros w))) n \<longleftrightarrow> bit (w AND (w - 1)) n"
    unfolding bit_and_minus_one [OF assms] bit_and_not_mask
    using trailing_zeros_least(3) [OF assms] by (auto simp: mask_simps)
qed

function scan_slots :: "u16 \<Rightarrow> nat list" where
  "scan_slots remaining =
     (if remaining = 0 then []
      else trailing_zeros remaining # scan_slots (remaining AND NOT (mask_bit (trailing_zeros remaining))))"
  by pat_completeness auto
termination
  by (relation "measure count_ones") (auto simp: bit_clear_lowest count_ones_and_minus_one)

declare scan_slots.simps [simp del]

lemma scan_slots_eq: "scan_slots w = slots_of_mask w"
  by (induction w rule: scan_slots.induct)
    (simp add: scan_slots.simps slots_of_mask.simps bit_clear_lowest)

definition completed_floor ::
  "qpc_ticks \<Rightarrow> (physical_timing_guard \<Rightarrow> duration_ticks) \<Rightarrow> qpc_ticks option guard_op" where
  "completed_floor completed_qpc ticks self =
     (case qpc_checked_add_duration completed_qpc (ticks self) of
        Inr floor_qpc \<Rightarrow> (Inr (Some floor_qpc), self)
      | Inl _ \<Rightarrow> (Inl (Err ArithmeticOverflow), guard_invalidate self))"

definition set_floors :: "nat \<Rightarrow> qpc_ticks option \<Rightarrow> qpc_ticks option \<Rightarrow> unit guard_op" where
  "set_floors slot up_floor down_floor self =
     (if slot < length (pg_musical_up_not_before_qpc self) \<and> slot < length (pg_down_not_before_qpc self)
      then (Inr (), self\<lparr>pg_musical_up_not_before_qpc := (pg_musical_up_not_before_qpc self)[slot := up_floor],
                         pg_down_not_before_qpc := (pg_down_not_before_qpc self)[slot := down_floor]\<rparr>)
      else (Inl Panic, self))"

definition observe_successful_packet :: "qpc_ticks \<Rightarrow> u16 \<Rightarrow> u16 \<Rightarrow> unit guard_op" where
  "observe_successful_packet completed_qpc up_mask down_mask =
     sbind (sread ensure_valid) (\<lambda>_.
     sbind (sread (\<lambda>_. validate_packet_masks up_mask down_mask)) (\<lambda>_.
     sbind (if up_mask \<noteq> 0 then completed_floor completed_qpc pg_frame_ticks else sret None)
       (\<lambda>new_down_floor.
     sbind (if down_mask \<noteq> 0 then completed_floor completed_qpc pg_effective_min_hold_ticks else sret None)
       (\<lambda>new_up_floor.
     sbind (sfor (scan_slots up_mask) (\<lambda>slot. set_floors slot None new_down_floor)) (\<lambda>_.
     sfor (scan_slots down_mask) (\<lambda>slot. set_floors slot new_up_floor None))))))"

definition floor_for_mask ::
  "qpc_ticks \<Rightarrow> u16 \<Rightarrow> qpc_ticks option list \<Rightarrow> (qpc_ticks \<times> u16) guard_result" where
  "floor_for_mask authored_target_qpc key_mask floors =
     rfold (\<lambda>slot (not_before_qpc, floor_mask).
              rbind (ok_or (nth_opt floors slot) Panic) (\<lambda>floor_opt.
              case floor_opt of
                Some floor_qpc \<Rightarrow>
                  if floor_qpc > authored_target_qpc
                  then Inr (max not_before_qpc floor_qpc, floor_mask OR mask_bit slot)
                  else Inr (not_before_qpc, floor_mask)
              | None \<Rightarrow> Inr (not_before_qpc, floor_mask)))
       (scan_slots key_mask) (authored_target_qpc, 0)"

definition guard_query ::
  "physical_timing_guard \<Rightarrow> qpc_ticks \<Rightarrow> u16 \<Rightarrow> u16 \<Rightarrow> physical_timing_window guard_result" where
  "guard_query self authored_target_qpc up_mask down_mask =
     rbind (ensure_valid self) (\<lambda>_.
     rbind (validate_packet_masks up_mask down_mask) (\<lambda>_.
     if up_mask = 0 \<and> down_mask = 0 then Inl (Err InvalidPacketMasks) else
     rbind (floor_for_mask authored_target_qpc up_mask (pg_musical_up_not_before_qpc self))
       (\<lambda>(musical_up_not_before_qpc, hold_floor_mask).
     rbind (floor_for_mask authored_target_qpc down_mask (pg_down_not_before_qpc self))
       (\<lambda>(down_floor, release_mask).
     let (down_not_before_qpc, release_floor_mask) =
           (case pg_resume_down_not_before_qpc self of
              Some resume_barrier \<Rightarrow>
                if down_mask \<noteq> 0 \<and> resume_barrier > authored_target_qpc
                then (max down_floor resume_barrier, release_mask OR down_mask)
                else (down_floor, release_mask)
            | None \<Rightarrow> (down_floor, release_mask))
     in Inr \<lparr>pw_authored_target_qpc = authored_target_qpc,
             pw_musical_up_not_before_qpc = musical_up_not_before_qpc,
             pw_down_not_before_qpc = down_not_before_qpc,
             pw_packet_not_before_qpc = max musical_up_not_before_qpc down_not_before_qpc,
             pw_hold_floor_mask = hold_floor_mask, pw_release_floor_mask = release_floor_mask\<rparr>))))"

section \<open>What each operation does\<close>

lemma bit_VALID_KEY_MASK: "bit VALID_KEY_MASK n \<longleftrightarrow> n < 15"
proof -
  have V: "VALID_KEY_MASK = mask 15" by (simp add: VALID_KEY_MASK_def MAX_KEYS_def mask_eq_exp_minus_1)
  show ?thesis unfolding V by (auto simp: bit_mask_iff)
qed

definition masks_ok :: "u16 \<Rightarrow> u16 \<Rightarrow> bool" where
  "masks_ok up_mask down_mask \<longleftrightarrow>
     (\<forall>n. bit up_mask n \<or> bit down_mask n \<longrightarrow> n < MAX_KEYS) \<and> (\<forall>n. \<not> (bit up_mask n \<and> bit down_mask n))"

lemma validate_packet_masks_eq:
  "validate_packet_masks up down = (if masks_ok up down then Inr () else Inl (Err InvalidPacketMasks))"
proof -
  have "(up OR down) AND NOT VALID_KEY_MASK = 0 \<longleftrightarrow> (\<forall>n. bit up n \<or> bit down n \<longrightarrow> n < MAX_KEYS)"
    by (auto simp: masks_disjoint_iff u16_eq_iff bit_and_not_mask bit_or_mask bit_VALID_KEY_MASK MAX_KEYS_def
        dest: bit_u16_bound)
  then show ?thesis
    by (auto simp: validate_packet_masks_def masks_ok_def masks_disjoint_iff)
qed

definition tables_len :: "physical_timing_guard \<Rightarrow> bool" where
  "tables_len g \<longleftrightarrow> length (pg_musical_up_not_before_qpc g) = MAX_KEYS \<and>
     length (pg_down_not_before_qpc g) = MAX_KEYS"

definition override :: "'a list \<Rightarrow> nat set \<Rightarrow> 'a \<Rightarrow> 'a list" where
  "override xs S v = map (\<lambda>s. if s \<in> S then v else xs ! s) [0..<length xs]"

lemma override_simps [simp]:
  "length (override xs S v) = length xs"
  "s < length xs \<Longrightarrow> override xs S v ! s = (if s \<in> S then v else xs ! s)"
  by (simp_all add: override_def)

lemma override_Nil: "override xs {} v = xs"
  by (simp add: override_def map_nth)

lemma override_insert: "s < length xs \<Longrightarrow> override (xs[s := v]) S v = override xs (insert s S) v"
  by (rule nth_equalityI) (auto simp: override_def nth_list_update)

lemma sfor_set_floors:
  "tables_len g \<Longrightarrow> \<forall>s \<in> set ss. s < MAX_KEYS \<Longrightarrow>
   sfor ss (\<lambda>s. set_floors s uf df) g =
     (Inr (), g\<lparr>pg_musical_up_not_before_qpc := override (pg_musical_up_not_before_qpc g) (set ss) uf,
                pg_down_not_before_qpc := override (pg_down_not_before_qpc g) (set ss) df\<rparr>)"
proof (induction ss arbitrary: g)
  case Nil
  then show ?case by (simp add: override_Nil)
next
  case (Cons s ss)
  let ?g = "g\<lparr>pg_musical_up_not_before_qpc := (pg_musical_up_not_before_qpc g)[s := uf],
    pg_down_not_before_qpc := (pg_down_not_before_qpc g)[s := df]\<rparr>"
  have "set_floors s uf df g = (Inr (), ?g)" "tables_len ?g"
    using Cons.prems by (simp_all add: set_floors_def tables_len_def)
  then show ?case using Cons by (simp add: tables_len_def override_insert)
qed

lemma scan_slots_set [simp]: "set (scan_slots w) = {n. bit w n}"
  by (simp add: scan_slots_eq set_slots_of_mask)

text \<open>Every outcome of an observation.\<close>

definition observe_overflows :: "physical_timing_guard \<Rightarrow> qpc_ticks \<Rightarrow> u16 \<Rightarrow> u16 \<Rightarrow> bool" where
  "observe_overflows g t up down \<longleftrightarrow>
     up \<noteq> 0 \<and> 2 ^ 64 \<le> qpc_nat t + duration_nat (pg_frame_ticks g) \<or>
     down \<noteq> 0 \<and> 2 ^ 64 \<le> qpc_nat t + duration_nat (pg_effective_min_hold_ticks g)"

lemma completed_floor_cases:
  "if qpc_nat t + duration_nat (f g) < 2 ^ 64
   then \<exists>q. completed_floor t f g = (Inr (Some q), g) \<and> qpc_nat q = qpc_nat t + duration_nat (f g)
   else completed_floor t f g = (Inl (Err ArithmeticOverflow), guard_invalidate g)"
proof (cases "qpc_checked_add_duration t (f g)")
  case (Inl e)
  then have "2 ^ 64 \<le> qpc_nat t + duration_nat (f g)" by (simp add: qpc.add_err)
  then show ?thesis using Inl by (simp add: completed_floor_def)
next
  case (Inr q)
  then have "qpc_nat q = qpc_nat t + duration_nat (f g)" by (simp add: qpc.add_ok)
  then show ?thesis using Inr qpc.val_bound [of q] by (simp add: completed_floor_def)
qed

lemma completed_floor_if:
  assumes "b \<longrightarrow> qpc_nat t + duration_nat (f g) < 2 ^ 64"
  shows "\<exists>q. (if b then completed_floor t f else sret None) g = (Inr q, g) \<and>
    (b \<longrightarrow> (\<exists>p. q = Some p \<and> qpc_nat p = qpc_nat t + duration_nat (f g)))"
  using assms completed_floor_cases [of t f g] by (cases b) auto

lemma observe_errors:
  assumes "tables_len g"
  shows "\<not> pg_valid g \<Longrightarrow> observe_successful_packet t up down g = (Inl (Err Invalidated), g)"
    and "pg_valid g \<Longrightarrow> \<not> masks_ok up down \<Longrightarrow>
      observe_successful_packet t up down g = (Inl (Err InvalidPacketMasks), g)"
    and "pg_valid g \<Longrightarrow> masks_ok up down \<Longrightarrow> observe_overflows g t up down \<Longrightarrow>
      observe_successful_packet t up down g = (Inl (Err ArithmeticOverflow), guard_invalidate g)"
proof -
  show "observe_successful_packet t up down g = (Inl (Err Invalidated), g)" if "\<not> pg_valid g"
    using that by (simp add: observe_successful_packet_def ensure_valid_def sbind_apply)
  show "observe_successful_packet t up down g = (Inl (Err InvalidPacketMasks), g)"
    if "pg_valid g" "\<not> masks_ok up down"
    using that by (simp add: observe_successful_packet_def ensure_valid_def validate_packet_masks_eq sbind_apply)
  assume v: "pg_valid g" "masks_ok up down" and over: "observe_overflows g t up down"
  show "observe_successful_packet t up down g = (Inl (Err ArithmeticOverflow), guard_invalidate g)"
  proof (cases "up \<noteq> 0 \<and> 2 ^ 64 \<le> qpc_nat t + duration_nat (pg_frame_ticks g)")
    case True
    then show ?thesis
      using v completed_floor_cases [of t pg_frame_ticks g]
      by (simp add: observe_successful_packet_def ensure_valid_def validate_packet_masks_eq sbind_apply)
  next
    case False
    then have "up \<noteq> 0 \<longrightarrow> qpc_nat t + duration_nat (pg_frame_ticks g) < 2 ^ 64" by auto
    then obtain q where q: "(if up \<noteq> 0 then completed_floor t pg_frame_ticks else sret None) g = (Inr q, g)"
      using completed_floor_if [of "up \<noteq> 0" t pg_frame_ticks g] by blast
    have bad: "down \<noteq> 0" "2 ^ 64 \<le> qpc_nat t + duration_nat (pg_effective_min_hold_ticks g)"
      using False over by (auto simp: observe_overflows_def)
    show ?thesis
      unfolding observe_successful_packet_def
      using v q bad completed_floor_cases [of t pg_effective_min_hold_ticks g]
      by (simp add: ensure_valid_def validate_packet_masks_eq sbind_apply)
  qed
qed

lemma observe_ok:
  assumes tl: "tables_len g" and v: "pg_valid g" and m: "masks_ok up down" and over: "\<not> observe_overflows g t up down"
  obtains g' where "observe_successful_packet t up down g = (Inr (), g')" and "tables_len g'" and "pg_valid g'"
    and "pg_effective_min_hold_ticks g' = pg_effective_min_hold_ticks g"
    and "pg_frame_ticks g' = pg_frame_ticks g"
    and "pg_resume_down_not_before_qpc g' = pg_resume_down_not_before_qpc g"
    and "\<And>s. s < MAX_KEYS \<Longrightarrow> map_option qpc_nat (pg_musical_up_not_before_qpc g' ! s) =
      (if bit down s then Some (qpc_nat t + duration_nat (pg_effective_min_hold_ticks g))
       else if bit up s then None else map_option qpc_nat (pg_musical_up_not_before_qpc g ! s))"
    and "\<And>s. s < MAX_KEYS \<Longrightarrow> map_option qpc_nat (pg_down_not_before_qpc g' ! s) =
      (if bit up s then Some (qpc_nat t + duration_nat (pg_frame_ticks g))
       else if bit down s then None else map_option qpc_nat (pg_down_not_before_qpc g ! s))"
proof -
  have "up \<noteq> 0 \<longrightarrow> qpc_nat t + duration_nat (pg_frame_ticks g) < 2 ^ 64"
    using over by (auto simp: observe_overflows_def)
  then obtain df where df: "(if up \<noteq> 0 then completed_floor t pg_frame_ticks else sret None) g = (Inr df, g)"
      "up \<noteq> 0 \<Longrightarrow> \<exists>p. df = Some p \<and> qpc_nat p = qpc_nat t + duration_nat (pg_frame_ticks g)"
    using completed_floor_if [of "up \<noteq> 0" t pg_frame_ticks g] by blast
  have "down \<noteq> 0 \<longrightarrow> qpc_nat t + duration_nat (pg_effective_min_hold_ticks g) < 2 ^ 64"
    using over by (auto simp: observe_overflows_def)
  then obtain uf where uf: "(if down \<noteq> 0 then completed_floor t pg_effective_min_hold_ticks else sret None) g = (Inr uf, g)"
      "down \<noteq> 0 \<Longrightarrow> \<exists>p. uf = Some p \<and> qpc_nat p = qpc_nat t + duration_nat (pg_effective_min_hold_ticks g)"
    using completed_floor_if [of "down \<noteq> 0" t pg_effective_min_hold_ticks g] by blast
  let ?g1 = "g\<lparr>pg_musical_up_not_before_qpc := override (pg_musical_up_not_before_qpc g) {n. bit up n} None,
    pg_down_not_before_qpc := override (pg_down_not_before_qpc g) {n. bit up n} df\<rparr>"
  let ?g2 = "?g1\<lparr>pg_musical_up_not_before_qpc := override (pg_musical_up_not_before_qpc ?g1) {n. bit down n} uf,
    pg_down_not_before_qpc := override (pg_down_not_before_qpc ?g1) {n. bit down n} None\<rparr>"
  have tl1: "tables_len ?g1" using tl by (simp add: tables_len_def)
  have bounds: "\<forall>s \<in> set (scan_slots up). s < MAX_KEYS" "\<forall>s \<in> set (scan_slots down). s < MAX_KEYS"
    using m by (auto simp: masks_ok_def)
  have run: "observe_successful_packet t up down g = (Inr (), ?g2)"
    unfolding observe_successful_packet_def
    using v m df(1) uf(1) sfor_set_floors [OF tl bounds(1), of None df] sfor_set_floors [OF tl1 bounds(2), of uf None]
    by (simp add: ensure_valid_def validate_packet_masks_eq sbind_apply)
  have nz: "bit w n \<Longrightarrow> w \<noteq> 0" for w :: u16 and n by auto
  show ?thesis
  proof (rule that [OF run])
    show "map_option qpc_nat (pg_musical_up_not_before_qpc ?g2 ! s) =
      (if bit down s then Some (qpc_nat t + duration_nat (pg_effective_min_hold_ticks g))
       else if bit up s then None else map_option qpc_nat (pg_musical_up_not_before_qpc g ! s))" if "s < MAX_KEYS" for s
      using that tl uf(2) nz [of down s] by (auto simp: tables_len_def)
    show "map_option qpc_nat (pg_down_not_before_qpc ?g2 ! s) =
      (if bit up s then Some (qpc_nat t + duration_nat (pg_frame_ticks g))
       else if bit down s then None else map_option qpc_nat (pg_down_not_before_qpc g ! s))" if "s < MAX_KEYS" for s
      using that tl df(2) nz [of up s] m by (auto simp: tables_len_def masks_ok_def)
  qed (use tl v in \<open>simp_all add: tables_len_def\<close>)
qed

section \<open>The guard refines a specification over its history\<close>

text \<open>
  Histories are lists of events, newest first. The floors a history imposes on a key: a press
  completed at \<open>t\<close> forbids its release before \<open>t\<close> plus the hold, a release completed at \<open>t\<close> forbids a
  press before \<open>t\<close> plus a frame, and a resume clears both and imposes one barrier on all presses.
\<close>

datatype guard_event = Observed qpc_ticks u16 u16 | Resumed qpc_ticks

fun up_floor_spec :: "nat \<Rightarrow> guard_event list \<Rightarrow> nat \<Rightarrow> nat option" where
  "up_floor_spec hold [] s = None"
| "up_floor_spec hold (Observed t up down # h) s =
     (if bit down s then Some (qpc_nat t + hold) else if bit up s then None else up_floor_spec hold h s)"
| "up_floor_spec hold (Resumed t # h) s = None"

fun down_floor_spec :: "nat \<Rightarrow> guard_event list \<Rightarrow> nat \<Rightarrow> nat option" where
  "down_floor_spec frame [] s = None"
| "down_floor_spec frame (Observed t up down # h) s =
     (if bit up s then Some (qpc_nat t + frame) else if bit down s then None else down_floor_spec frame h s)"
| "down_floor_spec frame (Resumed t # h) s = None"

fun barrier_spec :: "nat \<Rightarrow> guard_event list \<Rightarrow> nat option" where
  "barrier_spec frame [] = None"
| "barrier_spec frame (Observed t up down # h) = barrier_spec frame h"
| "barrier_spec frame (Resumed t # h) = Some (qpc_nat t + frame)"

fun guard_apply :: "guard_event \<Rightarrow> unit guard_op" where
  "guard_apply (Observed t up down) = observe_successful_packet t up down"
| "guard_apply (Resumed t) = establish_resume_down_barrier t"

definition guard_tracks :: "nat \<Rightarrow> nat \<Rightarrow> guard_event list \<Rightarrow> physical_timing_guard \<Rightarrow> bool" where
  "guard_tracks hold frame h g \<longleftrightarrow> tables_len g \<and> pg_valid g \<and>
     duration_nat (pg_effective_min_hold_ticks g) = hold \<and> duration_nat (pg_frame_ticks g) = frame \<and>
     (\<forall>s < MAX_KEYS. map_option qpc_nat (pg_musical_up_not_before_qpc g ! s) = up_floor_spec hold h s) \<and>
     (\<forall>s < MAX_KEYS. map_option qpc_nat (pg_down_not_before_qpc g ! s) = down_floor_spec frame h s) \<and>
     map_option qpc_nat (pg_resume_down_not_before_qpc g) = barrier_spec frame h"

lemma guard_tracks_new:
  "guard_tracks (duration_nat hold) (duration_nat frame) [] (guard_new hold frame)"
  by (simp add: guard_tracks_def guard_new_def tables_len_def)

lemma guard_tracks_step:
  assumes g: "guard_tracks hold frame h g" and step: "guard_apply e g = (Inr (), g')"
  shows "guard_tracks hold frame (e # h) g'"
proof (cases e)
  case (Observed t up down)
  have tl: "tables_len g" and v: "pg_valid g" using g by (simp_all add: guard_tracks_def)
  have run: "observe_successful_packet t up down g = (Inr (), g')" using step Observed by simp
  have mo: "masks_ok up down" and no: "\<not> observe_overflows g t up down"
    using observe_errors [OF tl, where t = t and up = up and down = down] v run by auto
  obtain g1 where g1: "observe_successful_packet t up down g = (Inr (), g1)" "tables_len g1" "pg_valid g1"
    "pg_effective_min_hold_ticks g1 = pg_effective_min_hold_ticks g" "pg_frame_ticks g1 = pg_frame_ticks g"
    "pg_resume_down_not_before_qpc g1 = pg_resume_down_not_before_qpc g"
    "\<And>s. s < MAX_KEYS \<Longrightarrow> map_option qpc_nat (pg_musical_up_not_before_qpc g1 ! s) =
      (if bit down s then Some (qpc_nat t + duration_nat (pg_effective_min_hold_ticks g))
       else if bit up s then None else map_option qpc_nat (pg_musical_up_not_before_qpc g ! s))"
    "\<And>s. s < MAX_KEYS \<Longrightarrow> map_option qpc_nat (pg_down_not_before_qpc g1 ! s) =
      (if bit up s then Some (qpc_nat t + duration_nat (pg_frame_ticks g))
       else if bit down s then None else map_option qpc_nat (pg_down_not_before_qpc g ! s))"
    using observe_ok [OF tl v mo no] by blast
  have "g1 = g'" using g1(1) run by simp
  then show ?thesis
    using g1(2-8) g unfolding Observed by (simp add: guard_tracks_def)
next
  case (Resumed t)
  then obtain q where q: "qpc_checked_add_duration t (pg_frame_ticks g) = Inr q"
    using step by (auto simp: establish_resume_down_barrier_def split: sum.splits)
  then have "qpc_nat q = qpc_nat t + duration_nat (pg_frame_ticks g)" by (simp add: qpc.add_ok)
  then show ?thesis
    using step Resumed q g by (auto simp: establish_resume_down_barrier_def guard_tracks_def tables_len_def)
qed

lemma guard_run_tracks:
  assumes "guard_tracks hold frame h g" and "sfor evs guard_apply g = (Inr (), g')"
  shows "guard_tracks hold frame (rev evs @ h) g'"
  using assms
proof (induction evs arbitrary: g h)
  case (Cons e evs)
  from Cons.prems(2) obtain g1 where "guard_apply e g = (Inr (), g1)" "sfor evs guard_apply g1 = (Inr (), g')"
    by (auto simp: sbind_eq_Inr)
  then show ?case using Cons.IH [OF guard_tracks_step [OF Cons.prems(1)]] by auto
qed simp

subsection \<open>The window\<close>

definition floor_set :: "(nat \<Rightarrow> nat option) \<Rightarrow> u16 \<Rightarrow> nat set" where
  "floor_set fl m = {f. \<exists>s. bit m s \<and> fl s = Some f}"

lemma finite_floor_set [simp]: "finite (floor_set fl m)"
proof (rule finite_subset)
  show "floor_set fl m \<subseteq> (\<lambda>s. the (fl s)) ` {..<16}"
  proof
    fix f assume "f \<in> floor_set fl m"
    then obtain s where "bit m s" "fl s = Some f" by (auto simp: floor_set_def)
    then show "f \<in> (\<lambda>s. the (fl s)) ` {..<16}"
      by (intro image_eqI [of _ _ s]) (auto dest: bit_u16_bound)
  qed
qed simp

definition floor_step :: "qpc_ticks \<Rightarrow> qpc_ticks option list \<Rightarrow> nat \<Rightarrow> qpc_ticks \<times> u16 \<Rightarrow> qpc_ticks \<times> u16" where
  "floor_step target floors slot = (\<lambda>(nb, fm). case floors ! slot of
     Some f \<Rightarrow> if f > target then (max nb f, fm OR mask_bit slot) else (nb, fm) | None \<Rightarrow> (nb, fm))"

lemma floor_step_apply:
  "floor_step target floors s r = (case floors ! s of
     Some f \<Rightarrow> if f > target then (max (fst r) f, snd r OR mask_bit s) else r | None \<Rightarrow> r)"
  by (cases r) (simp add: floor_step_def split: option.splits)

lemma rfold_total: "(\<And>x s. x \<in> set xs \<Longrightarrow> f x s = Inr (g x s)) \<Longrightarrow> rfold f xs s = Inr (fold g xs s)"
  by (induction xs arbitrary: s) auto

lemma qpc_nat_max: "qpc_nat (max a b) = max (qpc_nat a) (qpc_nat b)"
  by (simp add: max_def qpc.val_le)

lemma floor_fold:
  assumes "distinct xs" and "\<forall>s \<in> set xs. s < 16"
  shows "qpc_nat (fst (fold (floor_step target floors) xs (target, 0)))
      = Max (insert (qpc_nat target) {f. \<exists>s \<in> set xs. map_option qpc_nat (floors ! s) = Some f})"
    and "bit (snd (fold (floor_step target floors) xs (target, 0))) n \<longleftrightarrow>
      n \<in> set xs \<and> (\<exists>f. floors ! n = Some f \<and> f > target)"
  using assms
proof (induction xs arbitrary: n rule: rev_induct)
  case Nil
  { case 1 then show ?case by simp next case 2 then show ?case by simp }
next
  case (snoc s xs)
  define r where "r = fold (floor_step target floors) xs (target, 0)"
  have app: "fold (floor_step target floors) (xs @ [s]) (target, 0) = floor_step target floors s r"
    by (simp add: r_def)
  note IH = snoc.IH [folded r_def]
  let ?A = "{f. \<exists>s \<in> set xs. map_option qpc_nat (floors ! s) = Some f}"
  have fin: "finite ?A"
    by (rule finite_subset [of _ "(\<lambda>s. the (map_option qpc_nat (floors ! s))) ` set xs"]) force+
  have le: "qpc_nat target \<le> Max (insert (qpc_nat target) ?A)" using fin by (intro Max_ge) auto
  { case 1
    have r: "qpc_nat (fst r) = Max (insert (qpc_nat target) ?A)" using IH(1) 1 by auto
    show ?case
    proof (cases "floors ! s")
      case None
      then have "{f. \<exists>s \<in> set (xs @ [s]). map_option qpc_nat (floors ! s) = Some f} = ?A" by auto
      moreover have "floor_step target floors s r = r" using None by (simp add: floor_step_apply)
      ultimately show ?thesis unfolding app using r by simp
    next
      case (Some f)
      then have "{f. \<exists>s \<in> set (xs @ [s]). map_option qpc_nat (floors ! s) = Some f} = insert (qpc_nat f) ?A" by auto
      moreover have "Max (insert (qpc_nat target) (insert (qpc_nat f) ?A)) = max (qpc_nat f) (Max (insert (qpc_nat target) ?A))"
        using fin by (simp add: insert_commute [of "qpc_nat target"])
      moreover have "qpc_nat (fst (floor_step target floors s r)) = max (qpc_nat f) (qpc_nat (fst r))"
      proof (cases "f > target")
        case True
        then show ?thesis using Some by (simp add: floor_step_apply qpc_nat_max max.commute)
      next
        case False
        then have "qpc_nat f \<le> qpc_nat (fst r)" using r le by (simp add: not_less qpc.val_le)
        then show ?thesis using Some False by (simp add: floor_step_apply max_def)
      qed
      ultimately show ?thesis unfolding app using r by simp
    qed
  next
    case 2
    then show ?case unfolding app
      using IH(2) by (auto simp: floor_step_apply mask_simps split: option.splits)
  }
qed

lemma floor_for_mask_spec:
  assumes len: "length floors = MAX_KEYS" and m: "\<And>n. bit m n \<Longrightarrow> n < MAX_KEYS"
    and fl: "\<And>s. s < MAX_KEYS \<Longrightarrow> map_option qpc_nat (floors ! s) = fl s"
  obtains nb fm where "floor_for_mask target m floors = Inr (nb, fm)"
    and "qpc_nat nb = Max (insert (qpc_nat target) (floor_set fl m))"
    and "\<And>n. bit fm n \<longleftrightarrow> bit m n \<and> (\<exists>f. fl n = Some f \<and> qpc_nat target < f)"
proof -
  let ?r = "fold (floor_step target floors) (scan_slots m) (target, 0)"
  have run: "floor_for_mask target m floors = Inr ?r"
    unfolding floor_for_mask_def
    by (rule rfold_total) (auto simp: floor_step_def len m split: option.splits)
  have "distinct (scan_slots m)" "\<forall>s \<in> set (scan_slots m). s < 16"
    using sorted_slots_of_mask [of m] by (auto simp: scan_slots_eq strict_sorted_iff set_slots_of_mask dest: bit_u16_bound)
  note F = floor_fold [OF this, of target floors]
  have "{f. \<exists>s \<in> set (scan_slots m). map_option qpc_nat (floors ! s) = Some f} = floor_set fl m"
    using m fl by (auto simp: floor_set_def)
  then have 1: "qpc_nat (fst ?r) = Max (insert (qpc_nat target) (floor_set fl m))" using F(1) by simp
  have 2: "bit (snd ?r) n \<longleftrightarrow> bit m n \<and> (\<exists>f. fl n = Some f \<and> qpc_nat target < f)" for n
  proof (cases "bit m n")
    case True
    then have "fl n = map_option qpc_nat (floors ! n)" using m fl by simp
    then show ?thesis unfolding F(2) using True by (auto simp: less_le_not_le qpc.val_le)
  next
    case False
    then show ?thesis unfolding F(2) by simp
  qed
  show ?thesis by (rule that [of "fst ?r" "snd ?r"]) (use run 1 2 in simp_all)
qed


lemma floor_set_0 [simp]: "floor_set fl 0 = {}"
  by (simp add: floor_set_def)

definition press_floors :: "nat \<Rightarrow> guard_event list \<Rightarrow> u16 \<Rightarrow> nat set" where
  "press_floors frame h down = floor_set (down_floor_spec frame h) down \<union>
     (if down = 0 then {} else set_option (barrier_spec frame h))"

lemma finite_press_floors [simp]: "finite (press_floors frame h down)"
  by (simp add: press_floors_def)

lemma guard_query_spec:
  assumes g: "guard_tracks hold frame h g" and mo: "masks_ok up down" and ne: "up \<noteq> 0 \<or> down \<noteq> 0"
  obtains w where "guard_query g target up down = Inr w" and "pw_authored_target_qpc w = target"
    and "qpc_nat (pw_musical_up_not_before_qpc w) = Max (insert (qpc_nat target) (floor_set (up_floor_spec hold h) up))"
    and "qpc_nat (pw_down_not_before_qpc w) = Max (insert (qpc_nat target) (press_floors frame h down))"
    and "pw_packet_not_before_qpc w = max (pw_musical_up_not_before_qpc w) (pw_down_not_before_qpc w)"
    and "\<And>n. bit (pw_hold_floor_mask w) n \<longleftrightarrow>
      bit up n \<and> (\<exists>f. up_floor_spec hold h n = Some f \<and> qpc_nat target < f)"
    and "\<And>n. bit (pw_release_floor_mask w) n \<longleftrightarrow>
      bit down n \<and> (\<exists>f. (down_floor_spec frame h n = Some f \<or> barrier_spec frame h = Some f) \<and> qpc_nat target < f)"
proof -
  have len: "length (pg_musical_up_not_before_qpc g) = MAX_KEYS" "length (pg_down_not_before_qpc g) = MAX_KEYS"
    and v: "pg_valid g" and bar: "map_option qpc_nat (pg_resume_down_not_before_qpc g) = barrier_spec frame h"
    using g by (simp_all add: guard_tracks_def tables_len_def)
  have flu: "\<And>s. s < MAX_KEYS \<Longrightarrow> map_option qpc_nat (pg_musical_up_not_before_qpc g ! s) = up_floor_spec hold h s"
    and fld: "\<And>s. s < MAX_KEYS \<Longrightarrow> map_option qpc_nat (pg_down_not_before_qpc g ! s) = down_floor_spec frame h s"
    using g by (simp_all add: guard_tracks_def)
  have bu: "\<And>n. bit up n \<Longrightarrow> n < MAX_KEYS" and bd: "\<And>n. bit down n \<Longrightarrow> n < MAX_KEYS"
    using mo by (auto simp: masks_ok_def)
  obtain nu mu where u: "floor_for_mask target up (pg_musical_up_not_before_qpc g) = Inr (nu, mu)"
      "qpc_nat nu = Max (insert (qpc_nat target) (floor_set (up_floor_spec hold h) up))"
      "\<And>n. bit mu n \<longleftrightarrow> bit up n \<and> (\<exists>f. up_floor_spec hold h n = Some f \<and> qpc_nat target < f)"
    using floor_for_mask_spec [OF len(1) bu flu] by blast
  obtain nd md where d: "floor_for_mask target down (pg_down_not_before_qpc g) = Inr (nd, md)"
      "qpc_nat nd = Max (insert (qpc_nat target) (floor_set (down_floor_spec frame h) down))"
      "\<And>n. bit md n \<longleftrightarrow> bit down n \<and> (\<exists>f. down_floor_spec frame h n = Some f \<and> qpc_nat target < f)"
    using floor_for_mask_spec [OF len(2) bd fld] by blast
  define dr where "dr = (case pg_resume_down_not_before_qpc g of
     Some b \<Rightarrow> if down \<noteq> 0 \<and> b > target then (max nd b, md OR down) else (nd, md) | None \<Rightarrow> (nd, md))"
  let ?w = "\<lparr>pw_authored_target_qpc = target, pw_musical_up_not_before_qpc = nu, pw_down_not_before_qpc = fst dr,
    pw_packet_not_before_qpc = max nu (fst dr), pw_hold_floor_mask = mu, pw_release_floor_mask = snd dr\<rparr>"
  have run: "guard_query g target up down = Inr ?w"
    using v mo ne u(1) d(1) by (cases "pg_resume_down_not_before_qpc g")
      (simp_all add: guard_query_def ensure_valid_def validate_packet_masks_eq dr_def split_beta Let_def)
  have le: "qpc_nat target \<le> qpc_nat nd" using d(2) by simp
  have 1: "qpc_nat (fst dr) = Max (insert (qpc_nat target) (press_floors frame h down))"
  proof (cases "pg_resume_down_not_before_qpc g")
    case None
    then show ?thesis using d(2) bar by (simp add: dr_def press_floors_def)
  next
    case (Some b)
    then have b: "barrier_spec frame h = Some (qpc_nat b)" using bar by simp
    have *: "Max (insert (qpc_nat target) (floor_set (down_floor_spec frame h) down \<union> {qpc_nat b})) = max (qpc_nat b) (qpc_nat nd)"
      unfolding d(2) by (simp add: insert_commute [of "qpc_nat target"] max.left_commute)
    have fst_dr: "qpc_nat (fst dr) = max (qpc_nat b) (qpc_nat nd)" if "down \<noteq> 0"
    proof (cases "target < b")
      case True
      then show ?thesis using Some that by (simp add: dr_def qpc_nat_max max.commute)
    next
      case False
      then have "qpc_nat b \<le> qpc_nat nd" using le by (simp add: not_less qpc.val_le)
      then show ?thesis using Some False by (simp add: dr_def max_def)
    qed
    show ?thesis
    proof (cases "down = 0")
      case True
      then show ?thesis using Some d(2) by (simp add: dr_def press_floors_def)
    next
      case False
      then show ?thesis using fst_dr b by (simp add: press_floors_def * [simplified])
    qed
  qed
  have 2: "bit (snd dr) n \<longleftrightarrow> bit down n \<and>
      (\<exists>f. (down_floor_spec frame h n = Some f \<or> barrier_spec frame h = Some f) \<and> qpc_nat target < f)" for n
  proof (cases "pg_resume_down_not_before_qpc g")
    case None
    then show ?thesis using d(3) bar by (auto simp: dr_def)
  next
    case (Some b)
    then have b: "barrier_spec frame h = Some (qpc_nat b)" using bar by simp
    have "target < b \<longleftrightarrow> qpc_nat target < qpc_nat b" by (simp add: less_le_not_le qpc.val_le)
    then show ?thesis using Some b d(3) [of n] by (auto simp: dr_def mask_simps)
  qed
  show ?thesis by (rule that [OF run]) (use 1 2 u d in simp_all)
qed

lemma guard_query_errors:
  assumes "tables_len g"
  shows "\<not> pg_valid g \<Longrightarrow> guard_query g target up down = Inl (Err Invalidated)"
    and "pg_valid g \<Longrightarrow> \<not> masks_ok up down \<or> up = 0 \<and> down = 0 \<Longrightarrow>
      guard_query g target up down = Inl (Err InvalidPacketMasks)"
  by (auto simp: guard_query_def ensure_valid_def validate_packet_masks_eq)

lemma max_insert_Max:
  fixes a :: nat
  assumes "finite A" "finite B"
  shows "max (Max (insert a A)) (Max (insert a B)) = Max (insert a (A \<union> B))"
proof -
  have "Max (insert a A \<union> insert a B) = max (Max (insert a A)) (Max (insert a B))"
    using assms by (intro Max_Un) auto
  then show ?thesis by simp
qed

lemma guard_query_packet:
  assumes g: "guard_tracks hold frame h g" and mo: "masks_ok up down" and ne: "up \<noteq> 0 \<or> down \<noteq> 0"
  shows "\<exists>w. guard_query g target up down = Inr w \<and> qpc_nat (pw_packet_not_before_qpc w) =
    Max (insert (qpc_nat target) (floor_set (up_floor_spec hold h) up \<union> press_floors frame h down))"
proof -
  obtain w where "guard_query g target up down = Inr w"
    and "qpc_nat (pw_musical_up_not_before_qpc w) = Max (insert (qpc_nat target) (floor_set (up_floor_spec hold h) up))"
    and "qpc_nat (pw_down_not_before_qpc w) = Max (insert (qpc_nat target) (press_floors frame h down))"
    and "pw_packet_not_before_qpc w = max (pw_musical_up_not_before_qpc w) (pw_down_not_before_qpc w)"
    using guard_query_spec [OF g mo ne] by metis
  then show ?thesis using max_insert_Max by (auto simp: qpc_nat_max)
qed

text \<open>The history of a guard: its successful operations since it was created, oldest first.\<close>

definition guard_history :: "duration_ticks \<Rightarrow> duration_ticks \<Rightarrow> guard_event list \<Rightarrow> physical_timing_guard \<Rightarrow> bool" where
  "guard_history hold frame evs g \<longleftrightarrow> sfor evs guard_apply (guard_new hold frame) = (Inr (), g)"

lemma guard_history_tracks:
  "guard_history hold frame evs g \<Longrightarrow> guard_tracks (duration_nat hold) (duration_nat frame) (rev evs) g"
  using guard_run_tracks [OF guard_tracks_new] by (fastforce simp: guard_history_def)

fun touches :: "nat \<Rightarrow> guard_event \<Rightarrow> bool" where
  "touches s (Observed t up down) \<longleftrightarrow> bit up s \<or> bit down s"
| "touches s (Resumed t) \<longleftrightarrow> True"

fun is_resumed :: "guard_event \<Rightarrow> bool" where
  "is_resumed (Resumed t) \<longleftrightarrow> True"
| "is_resumed (Observed t up down) \<longleftrightarrow> False"

lemma up_floor_untouched: "\<forall>e \<in> set h. \<not> touches s e \<Longrightarrow> up_floor_spec hold (h @ h') s = up_floor_spec hold h' s"
  by (induction hold h s rule: up_floor_spec.induct) auto

lemma down_floor_untouched: "\<forall>e \<in> set h. \<not> touches s e \<Longrightarrow> down_floor_spec frame (h @ h') s = down_floor_spec frame h' s"
  by (induction frame h s rule: down_floor_spec.induct) auto

lemma barrier_untouched: "\<forall>e \<in> set h. \<not> is_resumed e \<Longrightarrow> barrier_spec frame (h @ h') = barrier_spec frame h'"
  by (induction frame h rule: barrier_spec.induct) auto

lemma window_ge:
  assumes run: "guard_history hold frame evs g" and q: "guard_query g target up down = Inr w"
    and f: "f \<in> floor_set (up_floor_spec (duration_nat hold) (rev evs)) up \<union> press_floors (duration_nat frame) (rev evs) down"
  shows "f \<le> qpc_nat (pw_packet_not_before_qpc w)"
proof -
  note tr = guard_history_tracks [OF run]
  then have tl: "tables_len g" "pg_valid g" by (simp_all add: guard_tracks_def)
  then have "masks_ok up down" "up \<noteq> 0 \<or> down \<noteq> 0"
    using q guard_query_errors(2) [OF tl(1), where target = target and up = up and down = down] by auto
  from guard_query_packet [OF tr this, of target] q
  have "qpc_nat (pw_packet_not_before_qpc w) = Max (insert (qpc_nat target)
      (floor_set (up_floor_spec (duration_nat hold) (rev evs)) up \<union> press_floors (duration_nat frame) (rev evs) down))"
    by simp
  then show ?thesis using f by (simp only:) (rule Max_ge, simp_all)
qed

subsection \<open>Reachable guards\<close>

inductive guard_step :: "physical_timing_guard \<Rightarrow> physical_timing_guard \<Rightarrow> bool" where
  observed: "guard_step g (snd (observe_successful_packet t up down g))"
| established: "guard_step g (snd (establish_resume_down_barrier t g))"
| invalidated: "guard_step g (guard_invalidate g)"

definition guard_inv :: "physical_timing_guard \<Rightarrow> bool" where
  "guard_inv g \<longleftrightarrow> tables_len g \<and>
     (\<forall>s < MAX_KEYS. pg_musical_up_not_before_qpc g ! s = None \<or> pg_down_not_before_qpc g ! s = None) \<and>
     (\<not> pg_valid g \<longrightarrow> (\<forall>s < MAX_KEYS. pg_musical_up_not_before_qpc g ! s = None \<and> pg_down_not_before_qpc g ! s = None))"

lemma guard_inv_new: "guard_inv (guard_new hold frame)"
  by (simp add: guard_inv_def guard_new_def tables_len_def)

lemma guard_inv_invalidate: "guard_inv (guard_invalidate g)"
  by (simp add: guard_inv_def guard_invalidate_def tables_len_def)

lemma observe_outcomes:
  assumes "tables_len g"
  shows "fst (observe_successful_packet t up down g) =
     (if \<not> pg_valid g then Inl (Err Invalidated) else if \<not> masks_ok up down then Inl (Err InvalidPacketMasks)
      else if observe_overflows g t up down then Inl (Err ArithmeticOverflow) else Inr ())"
proof (cases "pg_valid g \<and> masks_ok up down \<and> \<not> observe_overflows g t up down")
  case True
  then obtain g' where "observe_successful_packet t up down g = (Inr (), g')"
    using observe_ok [OF assms, where t = t and up = up and down = down] by blast
  then show ?thesis using True by simp
next
  case False
  then show ?thesis using observe_errors [OF assms, where t = t and up = up and down = down]
    by (cases "pg_valid g"; cases "masks_ok up down") simp_all
qed

lemma guard_inv_observe:
  assumes g: "guard_inv g"
  shows "guard_inv (snd (observe_successful_packet t up down g))"
proof -
  have tl: "tables_len g" using g by (simp add: guard_inv_def)
  consider "\<not> pg_valid g \<or> \<not> masks_ok up down" | "pg_valid g" "masks_ok up down" "observe_overflows g t up down"
    | "pg_valid g" "masks_ok up down" "\<not> observe_overflows g t up down" by blast
  then show ?thesis
  proof cases
    case 1
    then show ?thesis using observe_errors(1,2) [OF tl] g by (cases "pg_valid g") auto
  next
    case 2
    then show ?thesis using observe_errors(3) [OF tl] guard_inv_invalidate by simp
  next
    case 3
    obtain g' where g': "observe_successful_packet t up down g = (Inr (), g')" "tables_len g'" "pg_valid g'"
      "\<And>s. s < MAX_KEYS \<Longrightarrow> map_option qpc_nat (pg_musical_up_not_before_qpc g' ! s) =
        (if bit down s then Some (qpc_nat t + duration_nat (pg_effective_min_hold_ticks g))
         else if bit up s then None else map_option qpc_nat (pg_musical_up_not_before_qpc g ! s))"
      "\<And>s. s < MAX_KEYS \<Longrightarrow> map_option qpc_nat (pg_down_not_before_qpc g' ! s) =
        (if bit up s then Some (qpc_nat t + duration_nat (pg_frame_ticks g))
         else if bit down s then None else map_option qpc_nat (pg_down_not_before_qpc g ! s))"
      by (rule observe_ok [OF tl 3]) (rule that; assumption)
    have "pg_musical_up_not_before_qpc g' ! s = None \<or> pg_down_not_before_qpc g' ! s = None" if "s < MAX_KEYS" for s
    proof -
      have "\<not> (bit up s \<and> bit down s)" using 3(2) by (simp add: masks_ok_def)
      moreover have "pg_musical_up_not_before_qpc g ! s = None \<or> pg_down_not_before_qpc g ! s = None"
        using g that by (simp add: guard_inv_def)
      ultimately show ?thesis using g'(4,5) [OF that] by (cases "bit up s"; cases "bit down s") auto
    qed
    then show ?thesis using g'(1-3) by (simp add: guard_inv_def)
  qed
qed

lemma guard_inv_establish: "guard_inv (snd (establish_resume_down_barrier t g))"
proof (cases "qpc_checked_add_duration t (pg_frame_ticks g)")
  case (Inl e)
  then show ?thesis by (simp add: establish_resume_down_barrier_def guard_inv_invalidate)
qed (simp add: establish_resume_down_barrier_def guard_inv_def tables_len_def)

interpretation guard_sys: invariant_system "\<lambda>g. \<exists>hold frame. g = guard_new hold frame" guard_step guard_inv
  by unfold_locales
    (auto simp: guard_inv_new guard_inv_observe guard_inv_establish guard_inv_invalidate elim: guard_step.cases)

abbreviation guard_reachable :: "physical_timing_guard \<Rightarrow> bool" where
  "guard_reachable \<equiv> reachable (\<lambda>g. \<exists>hold frame. g = guard_new hold frame) guard_step"

lemma guard_query_safe:
  assumes "tables_len g" shows "safe (\<lambda>_. True) (guard_query g target up down)"
proof (cases "pg_valid g \<and> masks_ok up down \<and> (up \<noteq> 0 \<or> down \<noteq> 0)")
  case False
  then show ?thesis using guard_query_errors [OF assms, where target = target and up = up and down = down] by (cases "pg_valid g") auto
next
  case True
  then have bu: "\<And>n. bit up n \<Longrightarrow> n < MAX_KEYS" and bd: "\<And>n. bit down n \<Longrightarrow> n < MAX_KEYS"
    by (auto simp: masks_ok_def)
  obtain nu where "floor_for_mask target up (pg_musical_up_not_before_qpc g) = Inr nu"
    using floor_for_mask_spec [OF _ bu refl] assms unfolding tables_len_def by metis
  moreover obtain nd where "floor_for_mask target down (pg_down_not_before_qpc g) = Inr nd"
    using floor_for_mask_spec [OF _ bd refl] assms unfolding tables_len_def by metis
  ultimately show ?thesis using True
    by (cases nu, cases nd) (simp add: guard_query_def ensure_valid_def validate_packet_masks_eq Let_def split_beta)
qed


section \<open>Properties of the guard\<close>

text \<open>A concrete session at 10 MHz: hold 200,000 ticks, frame 166,667 ticks; key 3 is pressed, then
  released while key 5 is pressed.\<close>

definition demo_hold :: duration_ticks where
  "demo_hold = DurationTicks 200000"

definition demo_frame :: duration_ticks where
  "demo_frame = DurationTicks 166667"

definition demo_events :: "guard_event list" where
  "demo_events = [Observed (QpcTicks 1000) 0 8, Observed (QpcTicks 300000) 8 32]"

definition demo_guard :: physical_timing_guard where
  "demo_guard = snd (sfor demo_events guard_apply (guard_new demo_hold demo_frame))"

lemma demo_history: "guard_history demo_hold demo_frame demo_events demo_guard"
proof -
  have "fst (sfor demo_events guard_apply (guard_new demo_hold demo_frame)) = Inr ()" by code_simp
  then show ?thesis by (simp add: guard_history_def demo_guard_def prod_eq_iff)
qed

text \<open>C37: After any sequence of accepted packets and resumes, a query with disjoint in-range masks, not
  both empty, succeeds, and the packet may be sent exactly at the maximum of its authored target, the
  hold floors of the keys it releases, the release-gap floors of the keys it presses and, if it presses
  any key, the barrier of the last resume: the earliest time that respects them all.\<close>

theorem guard_window_is_earliest:
  assumes run: "guard_history hold frame evs g"
    and mo: "masks_ok up down" and ne: "up \<noteq> 0 \<or> down \<noteq> 0"
  shows "\<exists>w. guard_query g target up down = Inr w \<and>
    qpc_nat (pw_packet_not_before_qpc w) = Max (insert (qpc_nat target)
      (floor_set (up_floor_spec (duration_nat hold) (rev evs)) up \<union> press_floors (duration_nat frame) (rev evs) down))"
  by (rule guard_query_packet [OF guard_history_tracks [OF run] mo ne])

theorem guard_window_is_earliest_witness:
  "guard_history demo_hold demo_frame demo_events demo_guard \<and>
   (\<exists>w. guard_query demo_guard (QpcTicks 310000) 32 8 = Inr w \<and>
    qpc_nat (pw_packet_not_before_qpc w) = Max (insert (qpc_nat (QpcTicks 310000))
      (floor_set (up_floor_spec (duration_nat demo_hold) (rev demo_events)) 32 \<union>
       press_floors (duration_nat demo_frame) (rev demo_events) 8)))"
proof -
  have m: "masks_ok 32 8"
  proof -
    have "validate_packet_masks 32 8 = Inr ()" by code_simp
    then show ?thesis by (simp add: validate_packet_masks_eq split: if_splits)
  qed
  show ?thesis using demo_history guard_window_is_earliest [OF demo_history m, of "QpcTicks 310000"] by simp
qed

text \<open>C9: Physical spacing of one key: whatever sequence of packets was accepted, once a packet that
  presses key \<open>s\<close> completed at \<open>t\<close> and nothing touched \<open>s\<close> since, no window the guard grants to a packet
  releasing \<open>s\<close> opens before \<open>t\<close> plus the minimum hold; once a packet that releases \<open>s\<close> completed at
  \<open>t\<close> and nothing touched \<open>s\<close> since, no window for a packet pressing \<open>s\<close> opens before \<open>t\<close> plus one frame.\<close>

theorem guard_spaces_each_key:
  assumes run: "guard_history hold frame (evs @ Observed t up0 down0 # later) g"
    and untouched: "\<forall>e \<in> set later. \<not> touches s e"
    and q: "guard_query g target up down = Inr w"
  shows "(bit down0 s \<and> bit up s \<longrightarrow> qpc_nat t + duration_nat hold \<le> qpc_nat (pw_packet_not_before_qpc w)) \<and>
    (bit up0 s \<and> bit down s \<longrightarrow> qpc_nat t + duration_nat frame \<le> qpc_nat (pw_packet_not_before_qpc w))"
proof -
  let ?h = "rev (evs @ Observed t up0 down0 # later)"
  have later: "\<forall>e \<in> set (rev later). \<not> touches s e" using untouched by simp
  have u: "up_floor_spec (duration_nat hold) ?h s = Some (qpc_nat t + duration_nat hold)" if "bit down0 s"
    using up_floor_untouched [OF later] that by simp
  have d: "down_floor_spec (duration_nat frame) ?h s = Some (qpc_nat t + duration_nat frame)" if "bit up0 s"
    using down_floor_untouched [OF later] that by simp
  have "bit down0 s \<and> bit up s \<longrightarrow> qpc_nat t + duration_nat hold \<le> qpc_nat (pw_packet_not_before_qpc w)"
    by (intro impI window_ge [OF run q]) (use u in \<open>auto simp: floor_set_def\<close>)
  moreover have "bit up0 s \<and> bit down s \<longrightarrow> qpc_nat t + duration_nat frame \<le> qpc_nat (pw_packet_not_before_qpc w)"
    by (intro impI window_ge [OF run q]) (use d in \<open>auto simp: floor_set_def press_floors_def\<close>)
  ultimately show ?thesis ..
qed

theorem guard_spaces_each_key_witness:
  "guard_history demo_hold demo_frame demo_events demo_guard \<and>
   guard_query demo_guard (QpcTicks 310000) 32 8 =
     Inr \<lparr>pw_authored_target_qpc = QpcTicks 310000, pw_musical_up_not_before_qpc = QpcTicks 500000,
          pw_down_not_before_qpc = QpcTicks 466667, pw_packet_not_before_qpc = QpcTicks 500000,
          pw_hold_floor_mask = 32, pw_release_floor_mask = 8\<rparr> \<and>
   (300000 + 200000 \<le> qpc_nat (QpcTicks 500000) \<and> 300000 + 166667 \<le> qpc_nat (QpcTicks 500000))"
proof -
  let ?w = "\<lparr>pw_authored_target_qpc = QpcTicks 310000, pw_musical_up_not_before_qpc = QpcTicks 500000,
          pw_down_not_before_qpc = QpcTicks 466667, pw_packet_not_before_qpc = QpcTicks 500000,
          pw_hold_floor_mask = 32, pw_release_floor_mask = 8\<rparr>"
  have h: "guard_history demo_hold demo_frame demo_events demo_guard"
    by (simp only: demo_history)
  have q: "guard_query demo_guard (QpcTicks 310000) 32 8 = Inr ?w" by code_simp
  have h': "guard_history demo_hold demo_frame
      ([Observed (QpcTicks 1000) 0 8] @ Observed (QpcTicks 300000) 8 32 # []) demo_guard"
    using h by (simp add: demo_events_def)
  have none: "\<forall>e \<in> set []. \<not> touches s e" for s by simp
  have b: "bit (32 :: u16) 5" "bit (8 :: u16) 3" by code_simp+
  show ?thesis
    using h q guard_spaces_each_key [OF h' none q, of 5] guard_spaces_each_key [OF h' none q, of 3] b
    by (simp add: demo_hold_def demo_frame_def)
qed

text \<open>C38: After a resume whose cleanup completed at \<open>t\<close>, and until the next resume, no window that
  contains a press opens before \<open>t\<close> plus one frame, whatever packets were accepted in between.\<close>

theorem guard_resume_barrier:
  assumes run: "guard_history hold frame (evs @ Resumed t # later) g"
    and none: "\<forall>e \<in> set later. \<not> is_resumed e"
    and q: "guard_query g target up down = Inr w" and press: "down \<noteq> 0"
  shows "qpc_nat t + duration_nat frame \<le> qpc_nat (pw_packet_not_before_qpc w)"
proof (rule window_ge [OF run q])
  have "\<forall>e \<in> set (rev later). \<not> is_resumed e" using none by simp
  then show "qpc_nat t + duration_nat frame \<in> floor_set (up_floor_spec (duration_nat hold) (rev (evs @ Resumed t # later))) up
      \<union> press_floors (duration_nat frame) (rev (evs @ Resumed t # later)) down"
    using press by (simp add: press_floors_def barrier_untouched)
qed

theorem guard_resume_barrier_witness:
  "\<exists>w. guard_query (snd (guard_apply (Resumed (QpcTicks 400000)) (guard_new demo_hold demo_frame)))
      (QpcTicks 410000) 0 4 = Inr w \<and>
     400000 + 166667 \<le> qpc_nat (pw_packet_not_before_qpc w)"
proof -
  let ?g = "snd (guard_apply (Resumed (QpcTicks 400000)) (guard_new demo_hold demo_frame))"
  have "fst (sfor [Resumed (QpcTicks 400000)] guard_apply (guard_new demo_hold demo_frame)) = Inr ()"
    "snd (sfor [Resumed (QpcTicks 400000)] guard_apply (guard_new demo_hold demo_frame)) = ?g" by code_simp+
  then have h: "guard_history demo_hold demo_frame ([] @ Resumed (QpcTicks 400000) # []) ?g"
    by (simp add: guard_history_def prod_eq_iff)
  let ?w = "\<lparr>pw_authored_target_qpc = QpcTicks 410000, pw_musical_up_not_before_qpc = QpcTicks 410000,
          pw_down_not_before_qpc = QpcTicks 566667, pw_packet_not_before_qpc = QpcTicks 566667,
          pw_hold_floor_mask = 0, pw_release_floor_mask = 4\<rparr>"
  have q: "guard_query ?g (QpcTicks 410000) 0 4 = Inr ?w" by code_simp
  have "\<forall>e \<in> set []. \<not> is_resumed e" by simp
  from guard_resume_barrier [OF h this q] q show ?thesis
    by (intro exI [of _ ?w]) (simp add: demo_frame_def)
qed

text \<open>C39: In every state the guard can reach, through any mix of successful and failing operations, no
  operation indexes out of its fixed tables; a packet observation fails exactly when the guard is
  invalidated, the masks are malformed, or a deadline leaves the 64-bit range; and that last failure
  leaves the guard invalidated, so that queries are refused until a resume barrier is established.\<close>

theorem guard_fails_closed:
  assumes "guard_reachable g"
  shows "fst (observe_successful_packet t up down g) =
       (if \<not> pg_valid g then Inl (Err Invalidated) else if \<not> masks_ok up down then Inl (Err InvalidPacketMasks)
        else if observe_overflows g t up down then Inl (Err ArithmeticOverflow) else Inr ())
     \<and> guard_query g target up' down' \<noteq> Inl Panic
     \<and> (fst (observe_successful_packet t up down g) = Inl (Err ArithmeticOverflow) \<longrightarrow>
          guard_query (snd (observe_successful_packet t up down g)) target up' down' = Inl (Err Invalidated))"
proof -
  have tl: "tables_len g" using guard_sys.reachable_inv [OF assms] by (simp add: guard_inv_def)
  note out = observe_outcomes [OF tl, of t up down]
  have "guard_query (snd (observe_successful_packet t up down g)) target up' down' = Inl (Err Invalidated)"
    if "fst (observe_successful_packet t up down g) = Inl (Err ArithmeticOverflow)"
  proof -
    have "snd (observe_successful_packet t up down g) = guard_invalidate g"
      using that out observe_errors(3) [OF tl, of up down t] by (auto split: if_splits)
    then show ?thesis by (simp add: guard_query_def ensure_valid_def guard_invalidate_def)
  qed
  then show ?thesis using out guard_query_safe [OF tl, of target up' down'] by (auto dest: safe_not_Panic)
qed

theorem guard_fails_closed_witness:
  "guard_reachable (guard_new demo_hold demo_frame) \<and>
   fst (observe_successful_packet (QpcTicks (- 1)) 0 8 (guard_new demo_hold demo_frame)) = Inl (Err ArithmeticOverflow) \<and>
   guard_query (snd (observe_successful_packet (QpcTicks (- 1)) 0 8 (guard_new demo_hold demo_frame)))
     (QpcTicks 5) 8 0 = Inl (Err Invalidated)"
proof -
  have r: "guard_reachable (guard_new demo_hold demo_frame)" by (rule reachable.start) blast
  have over: "fst (observe_successful_packet (QpcTicks (- 1)) 0 8 (guard_new demo_hold demo_frame)) = Inl (Err ArithmeticOverflow)"
    by code_simp
  show ?thesis using r over guard_fails_closed [OF r, of "QpcTicks (- 1)" 0 8 "QpcTicks 5" 8 0] by blast
qed

end
