(* ===== verification/Sky_Coordinator.thy ===== *)
theory Sky_Coordinator
  imports Sky_Model
begin

text \<open>
  The runtime dispatch coordinator of \<open>sky_dispatch_core/src/coordinator\<close>: its data (\<open>mod.rs\<close>), its
  construction from a compiled schedule, the checked generation ledger and the identities of authored
  releases (\<open>ownership.rs\<close>), the timeline queries (\<open>timeline.rs\<close>) and the conflict operations
  (\<open>conflict.rs\<close>). A method on \<open>&mut self\<close> returns the state it leaves behind also when it fails. The
  text of an accounting error is its format template.
\<close>

section \<open>Data\<close>

datatype generation_status =
    Scheduled | Active | Released | DroppedConflict | DroppedBackend | DroppedExpired | Cancelled

fun status_as_str :: "generation_status \<Rightarrow> string" where
  "status_as_str Scheduled = ''scheduled''"
| "status_as_str Active = ''active''"
| "status_as_str Released = ''released''"
| "status_as_str DroppedConflict = ''dropped_conflict''"
| "status_as_str DroppedBackend = ''dropped_backend''"
| "status_as_str DroppedExpired = ''dropped_expired''"
| "status_as_str Cancelled = ''cancelled''"

definition is_terminal :: "generation_status \<Rightarrow> bool" where
  "is_terminal self \<longleftrightarrow> self \<in> {Released, DroppedConflict, DroppedBackend, DroppedExpired, Cancelled}"

definition can_transition_to :: "generation_status \<Rightarrow> generation_status \<Rightarrow> bool" where
  "can_transition_to self nxt \<longleftrightarrow>
     (self, nxt) \<in> {(Scheduled, Active), (Scheduled, DroppedConflict), (Scheduled, DroppedExpired),
                     (Scheduled, DroppedBackend), (Scheduled, Cancelled), (Active, Released),
                     (Active, DroppedBackend), (Active, Cancelled)}"

datatype coordinator_invariant_error =
    UnknownGeneration generation_id u64
  | UnexpectedTransition generation_id generation_status generation_status generation_status
  | IllegalTransition generation_id generation_status generation_status
  | Accounting string

datatype coordinator_error =
    Invariant coordinator_invariant_error
  | Time time_arithmetic_error
  | CoordInvalidBatchIndex usize
  | Schedule runtime_schedule_error
  | PreparedBatchMismatch usize usize
  | CoordInvalidKeySlot key_slot
  | GenerationCountOverflow
  | Allocation string
  | PreparationCancelled
  | TimeConversion string
  | PhysicalDeadlineInfeasible timeline_ticks u16 timeline_ticks
  | PendingReleaseAlreadyRegistered key_slot
  | PendingReleaseOwnershipMismatch key_slot

type_synonym 'a coord_result = "coordinator_error failure + 'a"

abbreviation accounting :: "string \<Rightarrow> coordinator_error failure" where
  "accounting msg \<equiv> Err (Invariant (Accounting msg))"

definition classify_packet_kind :: "u16 \<Rightarrow> u16 \<Rightarrow> physical_packet_kind coord_result" where
  "classify_packet_kind up_mask down_mask =
     (case (up_mask \<noteq> 0, down_mask \<noteq> 0) of
        (True, False) \<Rightarrow> Inr UpOnly
      | (False, True) \<Rightarrow> Inr DownOnly
      | (True, True) \<Rightarrow> Inr Mixed
      | (False, False) \<Rightarrow> Inl (accounting ''compiled physical packet is empty''))"

record generation_counters =
  gc_released :: u64
  gc_dropped_conflict :: u64
  gc_dropped_backend :: u64
  gc_dropped_expired :: u64
  gc_cancelled :: u64

definition counters_default :: generation_counters where
  "counters_default = \<lparr>gc_released = 0, gc_dropped_conflict = 0, gc_dropped_backend = 0,
     gc_dropped_expired = 0, gc_cancelled = 0\<rparr>"

definition terminal_total_checked :: "generation_counters \<Rightarrow> u64 option" where
  "terminal_total_checked self =
     Option.bind (checked_add (gc_released self) (gc_dropped_conflict self)) (\<lambda>a.
     Option.bind (checked_add a (gc_dropped_backend self)) (\<lambda>b.
     Option.bind (checked_add b (gc_dropped_expired self)) (\<lambda>c.
     checked_add c (gc_cancelled self))))"

definition terminal_total :: "generation_counters \<Rightarrow> 'e failure + u64" where
  "terminal_total self = ok_or (terminal_total_checked self) Panic"

definition bump :: "u64 \<Rightarrow> coordinator_invariant_error + u64" where
  "bump counter = ok_or (checked_add counter 1) (Accounting ''{status:?} generation counter overflow'')"

fun counters_increment ::
  "generation_counters \<Rightarrow> generation_status \<Rightarrow> coordinator_invariant_error + generation_counters" where
  "counters_increment self Released = rbind (bump (gc_released self)) (\<lambda>n. Inr (self\<lparr>gc_released := n\<rparr>))"
| "counters_increment self DroppedConflict =
     rbind (bump (gc_dropped_conflict self)) (\<lambda>n. Inr (self\<lparr>gc_dropped_conflict := n\<rparr>))"
| "counters_increment self DroppedBackend =
     rbind (bump (gc_dropped_backend self)) (\<lambda>n. Inr (self\<lparr>gc_dropped_backend := n\<rparr>))"
| "counters_increment self DroppedExpired =
     rbind (bump (gc_dropped_expired self)) (\<lambda>n. Inr (self\<lparr>gc_dropped_expired := n\<rparr>))"
| "counters_increment self Cancelled = rbind (bump (gc_cancelled self)) (\<lambda>n. Inr (self\<lparr>gc_cancelled := n\<rparr>))"
| "counters_increment self Scheduled = Inr self"
| "counters_increment self Active = Inr self"

record generation_accounting =
  ga_total :: u64
  ga_activated :: u64
  ga_scheduled :: u64
  ga_active :: u64
  ga_released :: u64
  ga_dropped_conflict :: u64
  ga_dropped_backend :: u64
  ga_dropped_expired :: u64
  ga_cancelled :: u64

definition ALL_GENERATION_STATUSES :: "generation_status list" where
  "ALL_GENERATION_STATUSES =
     [Scheduled, Active, Released, DroppedConflict, DroppedBackend, DroppedExpired, Cancelled]"

record active_generation =
  ag_generation_id :: generation_id
  ag_scan_code :: u16
  ag_key_slot :: key_slot
  ag_source_action_index :: u32
  ag_release_not_before_ticks :: timeline_ticks

record prepared_batch =
  pb_index :: usize
  pb_effective_scheduled_ticks :: timeline_ticks
  pb_packet_index :: usize
  pb_packet_batch_count :: usize
  pb_packet_kind :: physical_packet_kind

record prepared_authored_frame =
  pf_first_batch_index :: usize
  pf_packet_index :: usize
  pf_packet_batch_count :: usize
  pf_authored_ticks :: timeline_ticks
  pf_immediate_up_mask :: u16
  pf_deferred_up_mask :: u16
  pf_down_mask :: u16
  pf_stale_up_count :: u8

subsection \<open>Identities of authored releases\<close>

record authored_up_identity =
  au_generation_slot :: compact_intent
  au_packet_index :: u32
  au_intent_index :: u32

definition identity_try_new ::
  "generation_id \<Rightarrow> key_slot \<Rightarrow> usize \<Rightarrow> usize \<Rightarrow> authored_up_identity coord_result" where
  "identity_try_new generation_id key_slot packet_index intent_index =
     (if generation_id = NO_GENERATION_ID \<or> generation_id > MAX_COMPACT_GENERATION_ID \<or>
         unat key_slot \<ge> MAX_KEYS
      then Inl (accounting ''frozen authored Up identity has an invalid generation or slot'')
      else rbind (ok_or (try_from_usize packet_index)
                    (accounting ''frozen authored Up packet index exceeds compiler u32 range'')) (\<lambda>p.
           rbind (ok_or (try_from_usize intent_index)
                    (accounting ''frozen authored Up intent index exceeds compiler u32 range'')) (\<lambda>i.
           Inr \<lparr>au_generation_slot = compact_new generation_id key_slot,
                au_packet_index = p, au_intent_index = i\<rparr>)))"

definition identity_generation_id :: "authored_up_identity \<Rightarrow> generation_id" where
  "identity_generation_id self = compact_generation_id (au_generation_slot self)"

definition identity_key_slot :: "authored_up_identity \<Rightarrow> key_slot" where
  "identity_key_slot self = compact_key_slot (au_generation_slot self)"

definition identity_packet_index :: "authored_up_identity \<Rightarrow> usize" where
  "identity_packet_index self = unat (au_packet_index self)"

definition identity_intent_index :: "authored_up_identity \<Rightarrow> usize" where
  "identity_intent_index self = unat (au_intent_index self)"

record prepared_up_intent =
  pu_intent :: compact_intent
  pu_source_action_index :: u32
  pu_identity :: authored_up_identity

record prepared_down_intent =
  pd_generation :: u32
  pd_scan_code :: u16
  pd_key_slot :: key_slot

definition down_try_new :: "compact_intent \<Rightarrow> u16 \<Rightarrow> prepared_down_intent coord_result" where
  "down_try_new intent scan_code =
     (let key_slot = compact_key_slot intent in
      if unat key_slot \<ge> MAX_KEYS then Inl (Err (CoordInvalidKeySlot key_slot))
      else rbind (if compact_generation_id intent = NO_GENERATION_ID then Inr (- 1)
                  else if unat (compact_generation_id intent) < 2 ^ 32 - 1
                       then Inr (ucast (compact_generation_id intent))
                       else Inl (accounting ''frozen authored Down generation exceeds compiler u32 range''))
             (\<lambda>generation.
           Inr \<lparr>pd_generation = generation, pd_scan_code = scan_code, pd_key_slot = key_slot\<rparr>))"

definition down_generation_id :: "prepared_down_intent \<Rightarrow> generation_id" where
  "down_generation_id self =
     (if pd_generation self = - 1 then NO_GENERATION_ID else ucast (pd_generation self))"

record prepared_authored_commit =
  pc_frame :: prepared_authored_frame
  pc_up_intents :: "prepared_up_intent list"
  pc_down_intents :: "prepared_down_intent list"
  pc_down_source_action_index :: "u32 option"

record prepared_authored_packet =
  pp_frame :: prepared_authored_frame
  pp_packet :: packet_view
  pp_commit :: prepared_authored_commit
  pp_batch_source_action_index :: u32

record pending_release =
  pr_generation_id :: generation_id
  pr_key_slot :: key_slot
  pr_authored_release_ticks :: timeline_ticks
  pr_due_ticks :: timeline_ticks
  pr_source_action_index :: u32

record prepared_stale_packet =
  ps_first_batch_index :: usize
  ps_packet_index :: usize
  ps_packet_batch_count :: usize
  ps_effective_scheduled_ticks :: timeline_ticks
  ps_source_action_index :: u32
  ps_suppressed_intent_count :: usize

record coordinator =
  dc_schedule :: runtime_schedule
  dc_min_hold_us :: u64
  dc_min_hold_ticks :: duration_ticks
  dc_batch_scheduled_ticks :: "timeline_ticks list"
  dc_cursor :: usize
  dc_active_by_slot :: "active_generation option list"
  dc_active_mask :: u16
  dc_blocked_mask :: u16
  dc_counters :: generation_counters
  dc_activated_generation_count :: u64
  dc_generation_states :: "generation_status list"
  dc_generation_count :: u64
  dc_up_intent_locations :: "(usize \<times> usize) option list"
  dc_cancelled_up_by_slot :: "authored_up_identity option list"
  dc_pending_release_by_slot :: "pending_release option list"
  dc_pending_release_mask :: u16

type_synonym 'a coord_op = "(coordinator, coordinator_error failure, 'a) smethod"

section \<open>Construction\<close>

text \<open>
  The cancellation callback of the constructor is a method on the caller's own state, invoked where
  the code invokes it; the conversion of microseconds is the caller's function. Reserving memory
  does not fail here.
\<close>

type_synonym 'k checkpoint = "('k, coordinator_error failure, unit) smethod"

definition locate_up_intent ::
  "'k checkpoint \<Rightarrow> u64 \<Rightarrow> usize \<Rightarrow> usize \<Rightarrow> usize \<times> compact_intent
     \<Rightarrow> usize \<times> (usize \<times> usize) option list
     \<Rightarrow> ('k, coordinator_error failure, usize \<times> (usize \<times> usize) option list) smethod" where
  "locate_up_intent checkpoint generation_count packet_index start = (\<lambda>(offset, compact) (visited, locations).
     let visited_intents = (if visited + 1 < usize_limit then visited + 1 else visited) in
     sbind (if visited_intents mod 256 = 0 then checkpoint else sret ()) (\<lambda>_.
     let generation_id = compact_generation_id compact in
     if generation_id = NO_GENERATION_ID then sret (visited_intents, locations)
     else (case nth_opt locations (unat generation_id) of
             None \<Rightarrow> sfail (Err (Invariant (UnknownGeneration generation_id generation_count)))
           | Some location \<Rightarrow>
               if location \<noteq> None
               then sfail (accounting ''generation owns more than one authored Up intent'')
               else sret (visited_intents,
                          locations[unat generation_id := Some (packet_index, start + offset)]))))"

definition locate_packet_ups ::
  "'k checkpoint \<Rightarrow> runtime_schedule \<Rightarrow> usize \<times> compiled_packet
     \<Rightarrow> usize \<times> (usize \<times> usize) option list
     \<Rightarrow> ('k, coordinator_error failure, usize \<times> (usize \<times> usize) option list) smethod" where
  "locate_packet_ups checkpoint schedule = (\<lambda>(packet_index, packet) acc.
     sbind (if packet_index mod 128 = 0 then checkpoint else sret ()) (\<lambda>_.
     let start = unat (cp_up_intent_start packet) in
     sbind (sread (\<lambda>_. ok_or (checked_add_usize start (unat (cp_up_intent_len packet)))
                        (Err (Schedule (InvalidPacketIntentRange packet_index))))) (\<lambda>stop.
     sbind (sread (\<lambda>_. ok_or (slice_get (rs_intents schedule) start stop)
                        (Err (Schedule (InvalidPacketIntentRange packet_index))))) (\<lambda>intents.
     sfold (locate_up_intent checkpoint (rs_generation_count schedule) packet_index start)
       (enumerate 0 intents) acc))))"

definition try_new_ticks_with_checkpoint ::
  "runtime_schedule \<Rightarrow> u64 \<Rightarrow> duration_ticks \<Rightarrow> (u64 \<Rightarrow> timeline_ticks coord_result) \<Rightarrow> 'k checkpoint
     \<Rightarrow> ('k, coordinator_error failure, coordinator) smethod" where
  "try_new_ticks_with_checkpoint schedule min_hold_us min_hold_ticks us_to_ticks checkpoint =
     (let generation_count = rs_generation_count schedule in
     sbind (sread (\<lambda>_. if unat generation_count < usize_limit then Inr (unat generation_count)
                        else Inl (Err GenerationCountOverflow))) (\<lambda>generation_count_usize.
     sbind (sfold (\<lambda>index states. sbind (if index mod 16384 = 0 then checkpoint else sret ())
                     (\<lambda>_. sret (states @ [Scheduled]))) [0..<generation_count_usize] [])
       (\<lambda>generation_states.
     sbind (sfold (\<lambda>(index, batch) ticks. sbind (if index mod 128 = 0 then checkpoint else sret ())
                     (\<lambda>_. sbind (sread (\<lambda>_. us_to_ticks (cb_scheduled_us batch)))
                     (\<lambda>t. sret (ticks @ [t])))) (enumerate 0 (rs_batches schedule)) [])
       (\<lambda>batch_scheduled_ticks.
     sbind (sfold (\<lambda>index locations. sbind (if index mod 16384 = 0 then checkpoint else sret ())
                     (\<lambda>_. sret (locations @ [None]))) [0..<generation_count_usize] [])
       (\<lambda>no_locations.
     sbind (sfold (locate_packet_ups checkpoint schedule) (enumerate 0 (rs_packets schedule)) (0, no_locations))
       (\<lambda>(_, up_intent_locations).
     sret \<lparr>dc_schedule = schedule, dc_min_hold_us = min_hold_us, dc_min_hold_ticks = min_hold_ticks,
           dc_batch_scheduled_ticks = batch_scheduled_ticks, dc_cursor = 0,
           dc_active_by_slot = replicate MAX_KEYS None, dc_active_mask = 0, dc_blocked_mask = 0,
           dc_counters = counters_default, dc_activated_generation_count = 0,
           dc_generation_states = generation_states, dc_generation_count = generation_count,
           dc_up_intent_locations = up_intent_locations,
           dc_cancelled_up_by_slot = replicate MAX_KEYS None,
           dc_pending_release_by_slot = replicate MAX_KEYS None, dc_pending_release_mask = 0\<rparr>))))))"

definition try_new_ticks ::
  "runtime_schedule \<Rightarrow> u64 \<Rightarrow> duration_ticks \<Rightarrow> (u64 \<Rightarrow> timeline_ticks coord_result) \<Rightarrow> coordinator coord_result" where
  "try_new_ticks schedule min_hold_us min_hold_ticks us_to_ticks =
     fst (try_new_ticks_with_checkpoint schedule min_hold_us min_hold_ticks us_to_ticks (sret ()) ())"

section \<open>Slots\<close>

definition active_for_slot :: "coordinator \<Rightarrow> key_slot \<Rightarrow> active_generation option coord_result" where
  "active_for_slot self slot = ok_or (nth_opt (dc_active_by_slot self) (unat slot)) Panic"

definition pending_release_for_slot :: "coordinator \<Rightarrow> key_slot \<Rightarrow> pending_release option" where
  "pending_release_for_slot self slot = Option.bind (nth_opt (dc_pending_release_by_slot self) (unat slot)) id"

definition pending_release_count :: "coordinator \<Rightarrow> usize" where
  "pending_release_count self = count_ones (dc_pending_release_mask self)"

text \<open>Reading and writing the fixed tables by slot; out of range is a panic.\<close>

definition cancelled_for_slot :: "coordinator \<Rightarrow> key_slot \<Rightarrow> authored_up_identity option coord_result" where
  "cancelled_for_slot self slot = ok_or (nth_opt (dc_cancelled_up_by_slot self) (unat slot)) Panic"

definition pending_for_slot :: "coordinator \<Rightarrow> key_slot \<Rightarrow> pending_release option coord_result" where
  "pending_for_slot self slot = ok_or (nth_opt (dc_pending_release_by_slot self) (unat slot)) Panic"

definition set_active :: "key_slot \<Rightarrow> active_generation option \<Rightarrow> unit coord_op" where
  "set_active slot a self =
     (if unat slot < length (dc_active_by_slot self)
      then (Inr (), self\<lparr>dc_active_by_slot := (dc_active_by_slot self)[unat slot := a]\<rparr>)
      else (Inl Panic, self))"

definition set_pending :: "key_slot \<Rightarrow> pending_release option \<Rightarrow> unit coord_op" where
  "set_pending slot p self =
     (if unat slot < length (dc_pending_release_by_slot self)
      then (Inr (), self\<lparr>dc_pending_release_by_slot := (dc_pending_release_by_slot self)[unat slot := p]\<rparr>)
      else (Inl Panic, self))"

definition set_cancelled :: "key_slot \<Rightarrow> authored_up_identity option \<Rightarrow> unit coord_op" where
  "set_cancelled slot i self =
     (if unat slot < length (dc_cancelled_up_by_slot self)
      then (Inr (), self\<lparr>dc_cancelled_up_by_slot := (dc_cancelled_up_by_slot self)[unat slot := i]\<rparr>)
      else (Inl Panic, self))"

section \<open>Timeline\<close>

definition effective_total_ticks :: "coordinator \<Rightarrow> timeline_ticks coord_result" where
  "effective_total_ticks self =
     Inr (if dc_batch_scheduled_ticks self = [] then TimelineTicks 0 else last (dc_batch_scheduled_ticks self))"

definition effective_batch_scheduled_ticks :: "coordinator \<Rightarrow> usize \<Rightarrow> timeline_ticks coord_result" where
  "effective_batch_scheduled_ticks self index =
     ok_or (nth_opt (dc_batch_scheduled_ticks self) index) (Err (CoordInvalidBatchIndex index))"


section \<open>The generation ledger and ownership\<close>

definition increment_activated :: "unit coord_op" where
  "increment_activated self =
     (case checked_add (dc_activated_generation_count self) 1 of
        None \<Rightarrow> (Inl (accounting ''activated generation counter overflow''), self)
      | Some n \<Rightarrow> (Inr (), self\<lparr>dc_activated_generation_count := n\<rparr>))"

definition increment_counter :: "generation_status \<Rightarrow> unit coord_op" where
  "increment_counter status self =
     (case counters_increment (dc_counters self) status of
        Inl e \<Rightarrow> (Inl (Err (Invariant e)), self)
      | Inr counters \<Rightarrow> (Inr (), self\<lparr>dc_counters := counters\<rparr>))"

definition set_status :: "generation_id \<Rightarrow> generation_status \<Rightarrow> coordinator \<Rightarrow> coordinator" where
  "set_status generation_id status self =
     self\<lparr>dc_generation_states := (dc_generation_states self)[unat generation_id := status]\<rparr>"

definition status_of :: "coordinator \<Rightarrow> generation_id \<Rightarrow> generation_status coord_result" where
  "status_of self generation_id =
     ok_or (nth_opt (dc_generation_states self) (unat generation_id))
       (Err (Invariant (UnknownGeneration generation_id (dc_generation_count self))))"

definition transition_generation ::
  "generation_id \<Rightarrow> generation_status \<Rightarrow> generation_status \<Rightarrow> unit coord_op" where
  "transition_generation generation_id expected nxt =
     sbind (sread (\<lambda>self. status_of self generation_id)) (\<lambda>actual.
     if actual \<noteq> expected
     then sfail (Err (Invariant (UnexpectedTransition generation_id expected actual nxt)))
     else if \<not> can_transition_to expected nxt
     then sfail (Err (Invariant (IllegalTransition generation_id expected nxt)))
     else
     sbind (if expected = Scheduled \<and> nxt = Active then increment_activated else sret ()) (\<lambda>_.
     sbind (if is_terminal nxt then increment_counter nxt else sret ()) (\<lambda>_.
     supdate (set_status generation_id nxt))))"

text \<open>The location the compiler recorded for a generation's Up, and the checks on it.\<close>

definition location_of :: "coordinator \<Rightarrow> generation_id \<Rightarrow> (usize \<times> usize) option option" where
  "location_of self generation_id = nth_opt (dc_up_intent_locations self) (unat generation_id)"

definition up_range_end :: "compiled_packet \<Rightarrow> usize option" where
  "up_range_end packet = checked_add_usize (unat (cp_up_intent_start packet)) (unat (cp_up_intent_len packet))"

definition validate_invalidated_up_identity ::
  "coordinator \<Rightarrow> authored_up_identity \<Rightarrow> coordinator_invariant_error + unit" where
  "validate_invalidated_up_identity self identity =
     rbind (ok_or (location_of self (identity_generation_id identity))
              (UnknownGeneration (identity_generation_id identity) (dc_generation_count self))) (\<lambda>mapped.
     if mapped \<noteq> Some (identity_packet_index identity, identity_intent_index identity)
     then Inl (Accounting ''cancelled-Up token differs from compiler-owned location'') else
     rbind (ok_or (nth_opt (rs_intents (dc_schedule self)) (identity_intent_index identity))
              (Accounting ''cancelled-Up token location is outside the schedule'')) (\<lambda>compact.
     rbind (ok_or (nth_opt (rs_packets (dc_schedule self)) (identity_packet_index identity))
              (Accounting ''cancelled-Up token packet is outside the schedule'')) (\<lambda>packet.
     let start = unat (cp_up_intent_start packet) in
     rbind (ok_or (up_range_end packet) (Accounting ''cancelled-Up token range overflowed'')) (\<lambda>stop.
     if compact_generation_id compact \<noteq> NO_GENERATION_ID \<or>
        compact_key_slot compact \<noteq> identity_key_slot identity \<or>
        identity_intent_index identity < start \<or> identity_intent_index identity \<ge> stop \<or>
        cp_up_mask packet AND bit_for_slot (identity_key_slot identity) = 0
     then Inl (Accounting ''cancelled-Up token does not identify a retained invalidated authored Up'')
     else Inr ()))))"

definition validate_dropped_expired_up_identity ::
  "coordinator \<Rightarrow> authored_up_identity \<Rightarrow> coordinator_invariant_error + unit" where
  "validate_dropped_expired_up_identity self identity =
     rbind (ok_or (location_of self (identity_generation_id identity))
              (UnknownGeneration (identity_generation_id identity) (dc_generation_count self))) (\<lambda>mapped.
     if mapped \<noteq> Some (identity_packet_index identity, identity_intent_index identity)
     then Inl (Accounting ''dropped-Up identity differs from compiler-owned location'') else
     rbind (ok_or (nth_opt (rs_intents (dc_schedule self)) (identity_intent_index identity))
              (Accounting ''dropped-Up location is outside the schedule'')) (\<lambda>compact.
     rbind (ok_or (nth_opt (rs_packets (dc_schedule self)) (identity_packet_index identity))
              (Accounting ''dropped-Up packet is outside the schedule'')) (\<lambda>packet.
     if compact_generation_id compact \<noteq> NO_GENERATION_ID \<or>
        compact_key_slot compact \<noteq> identity_key_slot identity \<or>
        cp_up_mask packet AND bit_for_slot (identity_key_slot identity) \<noteq> 0
     then Inl (Accounting ''dropped-Up identity is not invalidated from its physical packet'')
     else Inr ())))"

definition frozen_up_is_invalidated :: "coordinator \<Rightarrow> authored_up_identity \<Rightarrow> bool" where
  "frozen_up_is_invalidated self identity \<longleftrightarrow> validate_dropped_expired_up_identity self identity = Inr ()"

definition reconcile_resumable_cancelled_up :: "authored_up_identity \<Rightarrow> unit coord_op" where
  "reconcile_resumable_cancelled_up identity =
     (let generation_id = identity_generation_id identity; slot = identity_key_slot identity;
          no_token = accounting ''authored Up does not own the exact live resumable cancellation token'' in
     sbind (sread (\<lambda>self. if unat slot \<ge> MAX_KEYS then Inl no_token else cancelled_for_slot self slot)) (\<lambda>token.
     if token \<noteq> Some identity then sfail no_token else
     let slot_bit = bit_for_slot slot in
     sbind (sread (\<lambda>self. active_for_slot self slot)) (\<lambda>active.
     sbind (sread (\<lambda>self. pending_for_slot self slot)) (\<lambda>pending.
     sbind (sread (\<lambda>self.
        if active \<noteq> None \<or> dc_active_mask self AND slot_bit \<noteq> 0 \<or>
           dc_blocked_mask self AND slot_bit \<noteq> 0 \<or> pending \<noteq> None
        then Inl (accounting ''resumable cancellation token conflicts with live coordinator ownership'')
        else Inr ())) (\<lambda>_.
     sbind (sread (\<lambda>self. map_err (\<lambda>e. Err (Invariant e)) (validate_invalidated_up_identity self identity))) (\<lambda>_.
     sbind (sread (\<lambda>self. status_of self generation_id)) (\<lambda>actual.
     if actual \<noteq> Cancelled
     then sfail (Err (Invariant (UnexpectedTransition generation_id Cancelled actual Released))) else
     sbind (sread (\<lambda>self.
        if gc_cancelled (dc_counters self) = 0
        then Inl (accounting ''cancelled generation counter underflow during suspension reconciliation'')
        else ok_or (checked_add (gc_released (dc_counters self)) 1)
          (accounting ''released generation counter overflow during suspension reconciliation''))) (\<lambda>released.
     sbind (supdate (\<lambda>self. set_status generation_id Released
        (self\<lparr>dc_counters := (dc_counters self)\<lparr>gc_cancelled := gc_cancelled (dc_counters self) - 1,
                                                gc_released := released\<rparr>\<rparr>))) (\<lambda>_.
     set_cancelled slot None)))))))))"

text \<open>One frozen Up against the ledger: live owner, exact cancellation token, or a dropped Down.\<close>

definition validate_frozen_up :: "coordinator \<Rightarrow> usize \<Rightarrow> prepared_up_intent \<Rightarrow> unit coord_result" where
  "validate_frozen_up self packet_index up =
     (let identity = pu_identity up; g = identity_generation_id identity; slot = identity_key_slot identity;
          unknown = Err (Invariant (UnknownGeneration g (dc_generation_count self)));
          unmatched = accounting ''frozen authored Up for generation {} has no matching active owner or cancellation proof'' in
     if unat slot \<ge> MAX_KEYS \<or> g \<noteq> compact_generation_id (pu_intent up) \<or>
        slot \<noteq> compact_key_slot (pu_intent up) \<or> identity_packet_index identity \<noteq> packet_index
     then Inl (accounting ''frozen authored Up identity does not match its intent or packet'') else
     rbind (ok_or (location_of self g) unknown) (\<lambda>mapped.
     if mapped \<noteq> Some (identity_packet_index identity, identity_intent_index identity)
     then Inl (accounting ''frozen authored Up identity differs from compiler-owned location'') else
     rbind (status_of self g) (\<lambda>state.
     rbind (ok_or (nth_opt (rs_intents (dc_schedule self)) (identity_intent_index identity))
              (accounting ''frozen authored Up intent location is outside the schedule'')) (\<lambda>compact.
     rbind (active_for_slot self slot) (\<lambda>active.
     rbind (cancelled_for_slot self slot) (\<lambda>token.
     if state = Active \<and> compact_generation_id compact = g \<and> compact_key_slot compact = slot \<and>
        (case active of None \<Rightarrow> False | Some a \<Rightarrow> ag_generation_id a = g \<and> ag_key_slot a = slot) \<and> token = None
     then Inr ()
     else if state = Cancelled \<and> token = Some identity
     then (if active \<noteq> None \<or> dc_active_mask self AND bit_for_slot slot \<noteq> 0 \<or>
              dc_blocked_mask self AND bit_for_slot slot \<noteq> 0
           then Inl (accounting ''cancelled-Up token conflicts with a live key owner'')
           else map_err (\<lambda>e. Err (Invariant e)) (validate_invalidated_up_identity self identity))
     else if state = DroppedExpired \<and> frozen_up_is_invalidated self identity then Inr ()
     else Inl unmatched))))))"

definition validate_frozen_down :: "coordinator \<Rightarrow> prepared_down_intent \<Rightarrow> unit coord_result" where
  "validate_frozen_down self down =
     (let slot = pd_key_slot down;
          live_token = accounting ''frozen authored Down cannot pass a live cancelled-Up token for slot {slot}'' in
     if unat slot \<ge> MAX_KEYS then Inl live_token
     else rbind (cancelled_for_slot self slot) (\<lambda>token. if token \<noteq> None then Inl live_token else Inr ()))"

definition validate_frozen_authored_commit :: "coordinator \<Rightarrow> prepared_authored_commit \<Rightarrow> unit coord_result" where
  "validate_frozen_authored_commit self commit =
     (if pf_packet_index (pc_frame commit) \<ge> length (rs_packets (dc_schedule self))
      then Inl (accounting ''frozen authored commit references an unknown packet'')
      else rbind (rfold (\<lambda>up _. validate_frozen_up self (pf_packet_index (pc_frame commit)) up)
                    (pc_up_intents commit) ()) (\<lambda>_.
           rfold (\<lambda>down _. validate_frozen_down self down) (pc_down_intents commit) ()))"

definition authored_up_identity_for_live_generation ::
  "coordinator \<Rightarrow> generation_id \<Rightarrow> key_slot \<Rightarrow> authored_up_identity coord_result" where
  "authored_up_identity_for_live_generation self generation_id key_slot =
     rbind (ok_or (Option.bind (location_of self generation_id) id)
              (accounting ''active generation {generation_id} has no authored Up location''))
       (\<lambda>(packet_index, intent_index).
     rbind (ok_or (nth_opt (rs_intents (dc_schedule self)) intent_index)
              (accounting ''active generation authored Up location is outside the schedule'')) (\<lambda>compact.
     if compact_generation_id compact \<noteq> generation_id \<or> compact_key_slot compact \<noteq> key_slot
     then Inl (accounting ''active generation authored Up location does not match its owner'') else
     rbind (ok_or (nth_opt (rs_packets (dc_schedule self)) packet_index)
              (accounting ''active generation authored Up packet is outside the schedule'')) (\<lambda>packet.
     let start = unat (cp_up_intent_start packet) in
     rbind (ok_or (up_range_end packet) (accounting ''active generation authored Up range overflowed'')) (\<lambda>stop.
     if intent_index < start \<or> intent_index \<ge> stop \<or> cp_up_mask packet AND bit_for_slot key_slot = 0
     then Inl (accounting ''active generation authored Up is not in its compiler packet'')
     else identity_try_new generation_id key_slot packet_index intent_index))))"

definition set_intent :: "usize \<Rightarrow> compact_intent \<Rightarrow> coordinator \<Rightarrow> coordinator" where
  "set_intent i c self =
     self\<lparr>dc_schedule := (dc_schedule self)\<lparr>rs_intents := (rs_intents (dc_schedule self))[i := c]\<rparr>\<rparr>"

definition invalidate_authored_up_for_resumable_cancellation :: "authored_up_identity \<Rightarrow> unit coord_op" where
  "invalidate_authored_up_for_resumable_cancellation identity =
     sbind (sread (\<lambda>self. ok_or (nth_opt (rs_intents (dc_schedule self)) (identity_intent_index identity))
              (accounting ''resumable cancellation Up location is outside the schedule''))) (\<lambda>compact.
     if compact_generation_id compact \<noteq> identity_generation_id identity \<or>
        compact_key_slot compact \<noteq> identity_key_slot identity
     then sfail (accounting ''resumable cancellation Up identity changed before invalidation'') else
     sbind (sread (\<lambda>self. ok_or (nth_opt (rs_packets (dc_schedule self)) (identity_packet_index identity))
              (accounting ''resumable cancellation Up packet is outside the schedule''))) (\<lambda>packet.
     let start = unat (cp_up_intent_start packet) in
     sbind (sread (\<lambda>_. ok_or (up_range_end packet)
              (accounting ''resumable cancellation Up range overflowed''))) (\<lambda>stop.
     if identity_intent_index identity < start \<or> identity_intent_index identity \<ge> stop \<or>
        cp_up_mask packet AND bit_for_slot (identity_key_slot identity) = 0
     then sfail (accounting ''resumable cancellation Up is absent from its physical authored packet'')
     else supdate (set_intent (identity_intent_index identity)
                     (compact_new NO_GENERATION_ID (identity_key_slot identity))))))"

definition terminalize :: "generation_id \<Rightarrow> generation_status \<Rightarrow> unit coord_op" where
  "terminalize generation_id status = transition_generation generation_id Scheduled status"

definition invalidate_up_for_generation :: "generation_id \<Rightarrow> unit coord_op" where
  "invalidate_up_for_generation generation_id self =
     (if generation_id = NO_GENERATION_ID then (Inr (), self)
      else (case Option.bind (location_of self generation_id) id of
              None \<Rightarrow> (Inr (), self)
            | Some (packet_index, intent_index) \<Rightarrow>
                (case nth_opt (rs_intents (dc_schedule self)) intent_index of
                   None \<Rightarrow> (Inr (), self)
                 | Some compact \<Rightarrow>
                     if compact_generation_id compact \<noteq> generation_id then (Inr (), self)
                     else let slot = compact_key_slot compact;
                              self1 = set_intent intent_index (compact_new NO_GENERATION_ID slot) self;
                              packets = rs_packets (dc_schedule self1) in
                          if packet_index < length packets
                          then (Inr (), self1\<lparr>dc_schedule := (dc_schedule self1)\<lparr>rs_packets :=
                                  packets[packet_index := (packets ! packet_index)\<lparr>cp_up_mask :=
                                    cp_up_mask (packets ! packet_index) AND NOT (bit_for_slot slot)\<rparr>]\<rparr>\<rparr>)
                          else (Inl Panic, self1))))"

text \<open>Taking ownership of a slot, and giving it up.\<close>

definition own_slot :: "key_slot \<Rightarrow> active_generation \<Rightarrow> unit coord_op" where
  "own_slot slot active =
     sbind (set_active slot (Some active)) (\<lambda>_.
     supdate (\<lambda>self. self\<lparr>dc_active_mask := dc_active_mask self OR bit_for_slot slot,
                          dc_blocked_mask := dc_blocked_mask self OR bit_for_slot slot\<rparr>))"

definition disown_slot :: "key_slot \<Rightarrow> unit coord_op" where
  "disown_slot slot =
     sbind (set_active slot None) (\<lambda>_.
     supdate (\<lambda>self. self\<lparr>dc_active_mask := dc_active_mask self AND NOT (bit_for_slot slot),
                          dc_blocked_mask := dc_blocked_mask self AND NOT (bit_for_slot slot)\<rparr>))"

definition activate_sent_down_compact ::
  "usize \<Rightarrow> u16 list \<Rightarrow> u16 \<Rightarrow> u32 \<Rightarrow> timeline_ticks \<Rightarrow> usize \<Rightarrow> unit coord_op" where
  "activate_sent_down_compact batch_index sent_scan_codes excluded_mask source_action_index release_not_before_ticks intent_index =
     sbind (sread (\<lambda>self. ok_or (nth_opt (rs_intents (dc_schedule self)) intent_index)
                            (Err (CoordInvalidBatchIndex batch_index)))) (\<lambda>compact.
     let generation_id = compact_generation_id compact; slot = compact_key_slot compact in
     if generation_id = NO_GENERATION_ID then sret ()
     else if excluded_mask AND bit_for_slot slot \<noteq> 0 then sret ()
     else
     sbind (sread (\<lambda>self. ok_or (scan_code_for (rs_key_registry (dc_schedule self)) slot)
                            (Err (CoordInvalidKeySlot slot)))) (\<lambda>scan_code.
     if scan_code \<notin> set sent_scan_codes
     then sbind (transition_generation generation_id Scheduled DroppedBackend)
            (\<lambda>_. invalidate_up_for_generation generation_id)
     else sbind (transition_generation generation_id Scheduled Active) (\<lambda>_.
          own_slot slot \<lparr>ag_generation_id = generation_id, ag_scan_code = scan_code, ag_key_slot = slot,
                         ag_source_action_index = source_action_index,
                         ag_release_not_before_ticks = release_not_before_ticks\<rparr>)))"

definition activate_sent_downs_compact_ticks :: "usize \<Rightarrow> u16 list \<Rightarrow> u16 \<Rightarrow> unit coord_op" where
  "activate_sent_downs_compact_ticks batch_index sent_scan_codes excluded_mask =
     sbind (sread (\<lambda>self. ok_or (nth_opt (rs_batches (dc_schedule self)) batch_index)
                            (Err (CoordInvalidBatchIndex batch_index)))) (\<lambda>batch.
     let start = unat (cb_intent_start batch) in
     sbind (sread (\<lambda>_. ok_or (checked_add_usize start (unat (cb_intent_len batch))) (Err (Time Overflow)))) (\<lambda>stop.
     sbind (sread (\<lambda>self. ok_or (nth_opt (dc_batch_scheduled_ticks self) batch_index)
                            (Err (CoordInvalidBatchIndex batch_index)))) (\<lambda>scheduled_down_ticks.
     sbind (sread (\<lambda>self. map_err (\<lambda>e. Err (Time e))
                            (timeline_checked_add_duration scheduled_down_ticks (dc_min_hold_ticks self))))
       (\<lambda>release_not_before_ticks.
     sfor [start..<stop] (activate_sent_down_compact batch_index sent_scan_codes excluded_mask
       (cb_source_action_index batch) release_not_before_ticks)))))"

definition activate_sent_down :: "u16 list \<Rightarrow> runtime_key_intent \<Rightarrow> unit coord_op" where
  "activate_sent_down sent_scan_codes intent =
     (case rk_generation_id intent of
        None \<Rightarrow> sret ()
      | Some generation_id \<Rightarrow>
          if rk_scan_code intent \<notin> set sent_scan_codes
          then sbind (transition_generation generation_id Scheduled DroppedBackend)
                 (\<lambda>_. invalidate_up_for_generation generation_id)
          else
          sbind (transition_generation generation_id Scheduled Active) (\<lambda>_.
          sbind (sread (\<lambda>self. ok_or (nth_opt (dc_batch_scheduled_ticks self) (rk_compiled_batch_index intent))
                                 (Err (CoordInvalidBatchIndex (rk_compiled_batch_index intent)))))
            (\<lambda>scheduled_down_ticks.
          sbind (sread (\<lambda>self. map_err (\<lambda>e. Err (Time e))
                                 (timeline_checked_add_duration scheduled_down_ticks (dc_min_hold_ticks self))))
            (\<lambda>release_not_before_ticks.
          own_slot (rk_key_slot intent)
            \<lparr>ag_generation_id = generation_id, ag_scan_code = rk_scan_code intent,
             ag_key_slot = rk_key_slot intent, ag_source_action_index = rk_source_action_index intent,
             ag_release_not_before_ticks = release_not_before_ticks\<rparr>))))"

definition activate_sent_downs_ticks :: "runtime_key_intent list \<Rightarrow> u16 list \<Rightarrow> unit coord_op" where
  "activate_sent_downs_ticks intents sent_scan_codes = sfor intents (activate_sent_down sent_scan_codes)"

section \<open>Conflicts\<close>

definition check_down_conflicts_compact :: "coordinator \<Rightarrow> compact_intent list \<Rightarrow> u16" where
  "check_down_conflicts_compact self compact_intents =
     (if dc_blocked_mask self = 0 then 0
      else foldl (\<lambda>conflict_mask compact.
              let slot_bit = bit_for_slot (compact_key_slot compact) in
              if dc_blocked_mask self AND slot_bit \<noteq> 0 then conflict_mask OR slot_bit else conflict_mask)
           0 compact_intents)"

text \<open>The debug assertion on the masks is a panic of the model.\<close>

definition check_packet_down_conflicts :: "coordinator \<Rightarrow> u16 \<Rightarrow> u16 \<Rightarrow> u16 coord_result" where
  "check_packet_down_conflicts self up_mask down_mask =
     (if up_mask AND down_mask \<noteq> 0 then Inl Panic else Inr (dc_blocked_mask self AND down_mask))"

definition drop_generation :: "generation_status \<Rightarrow> generation_id \<Rightarrow> unit coord_op" where
  "drop_generation status generation_id =
     sbind (terminalize generation_id status) (\<lambda>_. invalidate_up_for_generation generation_id)"

definition terminalize_conflicted_slots :: "compact_intent list \<Rightarrow> u16 \<Rightarrow> unit coord_op" where
  "terminalize_conflicted_slots compact_intents conflict_mask =
     (if conflict_mask = 0 then sret ()
      else sfor compact_intents (\<lambda>compact.
             if conflict_mask AND bit_for_slot (compact_key_slot compact) \<noteq> 0 \<and>
                compact_generation_id compact \<noteq> NO_GENERATION_ID
             then drop_generation DroppedConflict (compact_generation_id compact) else sret ()))"

definition split_down_intent ::
  "runtime_key_intent \<Rightarrow> runtime_key_intent list \<times> runtime_key_intent list
     \<Rightarrow> (runtime_key_intent list \<times> runtime_key_intent list) coord_op" where
  "split_down_intent intent = (\<lambda>(playable, conflicts) self.
     if dc_blocked_mask self AND bit_for_slot (rk_key_slot intent) \<noteq> 0
     then sbind (case rk_generation_id intent of
                   Some gen_id \<Rightarrow> drop_generation DroppedConflict gen_id
                 | None \<Rightarrow> sret ())
            (\<lambda>_. sret (playable, conflicts @ [intent])) self
     else sret (playable @ [intent], conflicts) self)"

definition split_down_intents ::
  "runtime_key_intent list \<Rightarrow> (runtime_key_intent list \<times> runtime_key_intent list) coord_op" where
  "split_down_intents intents self =
     (if dc_blocked_mask self = 0 then (Inr (intents, []), self)
      else sfold split_down_intent intents ([], []) self)"

definition drop_downs :: "generation_status \<Rightarrow> runtime_key_intent list \<Rightarrow> unit coord_op" where
  "drop_downs status intents =
     sfor intents (\<lambda>intent. case rk_generation_id intent of
                              Some generation_id \<Rightarrow> drop_generation status generation_id
                            | None \<Rightarrow> sret ())"

definition drop_conflicted_downs :: "runtime_key_intent list \<Rightarrow> unit coord_op" where
  "drop_conflicted_downs = drop_downs DroppedConflict"

definition drop_expired_downs :: "runtime_key_intent list \<Rightarrow> unit coord_op" where
  "drop_expired_downs = drop_downs DroppedExpired"

end
