(* ===== verification/Sky_Authored.thy ===== *)
theory Sky_Authored
  imports Sky_Coordinator
begin

text \<open>
  The authored timeline of the coordinator (\<open>coordinator/authored.rs\<close>): the queries for the next
  boundary, the preparation of the packet at the cursor, the freezing of its commit token, and the
  commits that apply a token after the packet was sent, missed its deadline, or held no physical work.
  The test-support variants of the source are not modelled. The bounded slot check that debug builds
  run after a commit is part of the model; the invariant lemmas show that it never fails, so that the
  release build, which skips it, behaves the same.
\<close>

section \<open>Queries\<close>

definition next_authored_ticks_uncompensated :: "coordinator \<Rightarrow> timeline_ticks option coord_result" where
  "next_authored_ticks_uncompensated self =
     (if nth_opt (rs_batches (dc_schedule self)) (dc_cursor self) = None then Inr None
      else rbind (effective_batch_scheduled_ticks self (dc_cursor self)) (\<lambda>t. Inr (Some t)))"

definition next_authored_ticks :: "coordinator \<Rightarrow> timeline_ticks option coord_result" where
  "next_authored_ticks self = next_authored_ticks_uncompensated self"

definition next_uncompensated_deadline_ticks :: "coordinator \<Rightarrow> timeline_ticks option coord_result" where
  "next_uncompensated_deadline_ticks self = next_authored_ticks_uncompensated self"

definition next_authored_polyphony :: "coordinator \<Rightarrow> usize" where
  "next_authored_polyphony self =
     (case nth_opt (rs_batches (dc_schedule self)) (dc_cursor self) of
        Some batch \<Rightarrow> if cb_kind batch = Down then unat (cb_intent_len batch) else 1
      | None \<Rightarrow> 1)"

definition next_authored_packet_masks :: "coordinator \<Rightarrow> (u16 \<times> u16) option" where
  "next_authored_packet_masks self =
     Option.bind (nth_opt (rs_batches (dc_schedule self)) (dc_cursor self)) (\<lambda>batch.
     Option.bind (nth_opt (rs_packets (dc_schedule self)) (unat (cb_packet_id batch))) (\<lambda>packet.
     Some (cp_up_mask packet, cp_down_mask packet)))"

fun source_action_of :: "action_kind \<Rightarrow> usize \<Rightarrow> compiled_batch list \<Rightarrow> u32 coord_result" where
  "source_action_of kind intent_index [] =
     Inl (accounting ''packet intent is not owned by its expected action kind'')"
| "source_action_of kind intent_index (batch # batches) =
     (if cb_kind batch \<noteq> kind then source_action_of kind intent_index batches
      else let start = unat (cb_intent_start batch) in
           rbind (ok_or (checked_add_usize start (unat (cb_intent_len batch))) (Err (Time Overflow))) (\<lambda>stop.
           if start \<le> intent_index \<and> intent_index < stop then Inr (cb_source_action_index batch)
           else source_action_of kind intent_index batches))"

definition packet_intent_source_action_index ::
  "coordinator \<Rightarrow> compiled_packet \<Rightarrow> usize \<Rightarrow> action_kind \<Rightarrow> u32 coord_result" where
  "packet_intent_source_action_index self packet intent_index kind =
     (let first_batch = unat (cp_first_batch_index packet) in
     rbind (ok_or (checked_add_usize first_batch (unat (cp_batch_count packet))) (Err (Time Overflow)))
       (\<lambda>last_batch.
     rbind (ok_or (slice_get (rs_batches (dc_schedule self)) first_batch last_batch)
              (Err (CoordInvalidBatchIndex first_batch))) (\<lambda>batches.
     source_action_of kind intent_index batches)))"

fun next_physical_from :: "coordinator \<Rightarrow> usize \<Rightarrow> compiled_batch list \<Rightarrow> (timeline_ticks \<times> u16 \<times> u16) option" where
  "next_physical_from self batch_index [] = None"
| "next_physical_from self batch_index (batch # batches) =
     (case nth_opt (rs_packets (dc_schedule self)) (unat (cb_packet_id batch)) of
        None \<Rightarrow> None
      | Some packet \<Rightarrow>
          if cp_up_mask packet = 0 \<and> cp_down_mask packet = 0
          then next_physical_from self (batch_index + 1) batches
          else (case effective_batch_scheduled_ticks self batch_index of
                  Inl _ \<Rightarrow> None
                | Inr scheduled_ticks \<Rightarrow> Some (scheduled_ticks, cp_up_mask packet, cp_down_mask packet)))"

definition next_physical_authored_packet :: "coordinator \<Rightarrow> (timeline_ticks \<times> u16 \<times> u16) option" where
  "next_physical_authored_packet self =
     next_physical_from self (dc_cursor self) (drop (dc_cursor self) (rs_batches (dc_schedule self)))"

text \<open>The occupied entries of the pending table, in slot order.\<close>

definition pendings :: "coordinator \<Rightarrow> pending_release list" where
  "pendings self = List.map_filter id (dc_pending_release_by_slot self)"

fun min_of :: "'a::linorder list \<Rightarrow> 'a option" where
  "min_of [] = None"
| "min_of (x # xs) = Some (foldl min x xs)"

fun max_of :: "'a::linorder list \<Rightarrow> 'a option" where
  "max_of [] = None"
| "max_of (x # xs) = Some (foldl max x xs)"

definition earliest_pending_release_ticks :: "coordinator \<Rightarrow> timeline_ticks option" where
  "earliest_pending_release_ticks self = min_of (map pr_due_ticks (pendings self))"

definition pending_release_mask_due_at :: "coordinator \<Rightarrow> timeline_ticks \<Rightarrow> u16" where
  "pending_release_mask_due_at self target =
     foldl (\<lambda>m p. m OR bit_for_slot (pr_key_slot p)) 0
       (filter (\<lambda>p. pr_due_ticks p = target) (pendings self))"

definition pending_release_source_action_index :: "coordinator \<Rightarrow> u16 \<Rightarrow> u32 option" where
  "pending_release_source_action_index self release_mask =
     min_of (map pr_source_action_index
       (filter (\<lambda>p. release_mask AND bit_for_slot (pr_key_slot p) \<noteq> 0) (pendings self)))"

section \<open>Preparing the packet at the cursor\<close>

text \<open>The locals of the loop over the Up intents.\<close>

record up_classification =
  uc_immediate :: u16
  uc_deferred :: u16
  uc_stale :: u8
  uc_intents :: "prepared_up_intent list"

definition matching_token :: "coordinator \<Rightarrow> key_slot \<Rightarrow> usize \<Rightarrow> usize \<Rightarrow> authored_up_identity option coord_result" where
  "matching_token self slot packet_index intent_index =
     rbind (cancelled_for_slot self slot) (\<lambda>token.
     Inr (case token of
            Some identity \<Rightarrow>
              if identity_packet_index identity = packet_index \<and>
                 identity_intent_index identity = intent_index \<and> identity_key_slot identity = slot
              then Some identity else None
          | None \<Rightarrow> None))"

definition classify_up ::
  "coordinator \<Rightarrow> packet_view \<Rightarrow> timeline_ticks \<Rightarrow> usize \<times> compact_intent \<Rightarrow> up_classification
     \<Rightarrow> up_classification coord_result" where
  "classify_up self packet authored_ticks = (\<lambda>(offset, compact) acc.
     rbind (ok_or (checked_add_usize (unat (cp_up_intent_start (pv_header packet))) offset) (Err (Time Overflow)))
       (\<lambda>intent_index.
     let slot = compact_key_slot compact; generation_id = compact_generation_id compact;
         slot_bit = bit_for_slot slot in
     if scan_code_for (pv_registry packet) slot = None then Inl (Err (CoordInvalidKeySlot slot))
     else if generation_id = NO_GENERATION_ID
     then rbind (matching_token self slot (pv_packet_index packet) intent_index) (\<lambda>token.
          case token of
            Some identity \<Rightarrow>
              rbind (map_err (\<lambda>e. Err (Invariant e)) (validate_invalidated_up_identity self identity)) (\<lambda>_.
              Inr (acc\<lparr>uc_immediate := uc_immediate acc OR slot_bit,
                       uc_intents := uc_intents acc @
                         [\<lparr>pu_intent = compact_new (identity_generation_id identity) slot,
                           pu_source_action_index = 0, pu_identity = identity\<rparr>]\<rparr>))
          | None \<Rightarrow> Inr (acc\<lparr>uc_stale := saturating_add (uc_stale acc) 1\<rparr>))
     else
     rbind (active_for_slot self slot) (\<lambda>active_opt.
     rbind (ok_or active_opt (accounting ''authored Up has no active generation'')) (\<lambda>active.
     if ag_generation_id active \<noteq> generation_id
     then Inl (accounting ''authored Up generation does not own its key slot'') else
     rbind (identity_try_new generation_id slot (pv_packet_index packet) intent_index) (\<lambda>identity.
     if Option.bind (location_of self generation_id) id \<noteq> Some (pv_packet_index packet, intent_index)
     then Inl (accounting ''authored Up location differs from compiler-owned generation identity'')
     else if ag_release_not_before_ticks active \<le> authored_ticks
     then Inr (acc\<lparr>uc_immediate := uc_immediate acc OR slot_bit,
                   uc_intents := uc_intents acc @
                     [\<lparr>pu_intent = compact, pu_source_action_index = 0, pu_identity = identity\<rparr>]\<rparr>)
     else rbind (packet_intent_source_action_index self (pv_header packet) intent_index Up) (\<lambda>source_action_index.
          Inr (acc\<lparr>uc_deferred := uc_deferred acc OR slot_bit,
                   uc_intents := uc_intents acc @
                     [\<lparr>pu_intent = compact, pu_source_action_index = source_action_index,
                       pu_identity = identity\<rparr>]\<rparr>)))))))"

definition prepare_downs ::
  "key_registry \<Rightarrow> compact_intent list \<Rightarrow> prepared_down_intent list coord_result" where
  "prepare_downs registry intents =
     rfold (\<lambda>intent acc.
        rbind (ok_or (scan_code_for registry (compact_key_slot intent))
                 (Err (CoordInvalidKeySlot (compact_key_slot intent)))) (\<lambda>scan_code.
        rbind (down_try_new intent scan_code) (\<lambda>down. Inr (acc @ [down]))))
       intents []"

definition pending_blocked_mask :: "coordinator \<Rightarrow> timeline_ticks \<Rightarrow> u16 \<Rightarrow> u16" where
  "pending_blocked_mask self authored_ticks down_mask =
     foldl (\<lambda>m p. m OR bit_for_slot (pr_key_slot p)) 0
       (List.map_filter (\<lambda>(slot, pending). case pending of
            Some release \<Rightarrow> if pr_due_ticks release > authored_ticks \<and> down_mask AND mask_bit slot \<noteq> 0
                             then Some release else None
          | None \<Rightarrow> None)
         (enumerate 0 (dc_pending_release_by_slot self)))"

definition latest_required_release :: "coordinator \<Rightarrow> packet_view \<Rightarrow> u16 \<Rightarrow> timeline_ticks \<Rightarrow> timeline_ticks coord_result" where
  "latest_required_release self packet blocked_mask authored_ticks =
     rbind (rfold (\<lambda>compact acc.
              if blocked_mask AND bit_for_slot (compact_key_slot compact) = 0 then Inr acc
              else rbind (active_for_slot self (compact_key_slot compact)) (\<lambda>active.
                   Inr (case active of None \<Rightarrow> acc | Some a \<Rightarrow> acc @ [ag_release_not_before_ticks a])))
              (pv_up_intents packet) []) (\<lambda>ups.
     Inr (case max_of (map pr_due_ticks
                 (filter (\<lambda>p. blocked_mask AND bit_for_slot (pr_key_slot p) \<noteq> 0) (pendings self)) @ ups) of
            Some t \<Rightarrow> t
          | None \<Rightarrow> authored_ticks))"

definition prepare_current_authored_packet :: "coordinator \<Rightarrow> prepared_authored_packet option coord_result" where
  "prepare_current_authored_packet self =
     (case nth_opt (rs_batches (dc_schedule self)) (dc_cursor self) of
        None \<Rightarrow> Inr None
      | Some batch \<Rightarrow>
     let packet_index = unat (cb_packet_id batch) in
     rbind (effective_batch_scheduled_ticks self (dc_cursor self)) (\<lambda>authored_ticks.
     rbind (map_err (\<lambda>e. Err (Schedule e))
              (view_packet_ticks_unvalidated_registry (dc_schedule self) packet_index authored_ticks)) (\<lambda>packet.
     let header = pv_header packet in
     if unat (cp_first_batch_index header) \<noteq> dc_cursor self
     then Inl (accounting ''packet first batch does not match coordinator cursor'') else
     rbind (rfold (classify_up self packet authored_ticks) (enumerate 0 (pv_up_intents packet))
              \<lparr>uc_immediate = 0, uc_deferred = 0, uc_stale = 0, uc_intents = []\<rparr>) (\<lambda>ups.
     rbind (prepare_downs (pv_registry packet) (pv_down_intents packet)) (\<lambda>down_intents.
     let blocked_mask = (uc_deferred ups OR pending_blocked_mask self authored_ticks (cp_down_mask header))
                          AND cp_down_mask header in
     if blocked_mask \<noteq> 0
     then rbind (latest_required_release self packet blocked_mask authored_ticks) (\<lambda>latest.
          Inl (Err (PhysicalDeadlineInfeasible authored_ticks blocked_mask latest)))
     else
     let frame = \<lparr>pf_first_batch_index = dc_cursor self, pf_packet_index = packet_index,
                  pf_packet_batch_count = unat (cp_batch_count header), pf_authored_ticks = authored_ticks,
                  pf_immediate_up_mask = uc_immediate ups, pf_deferred_up_mask = uc_deferred ups,
                  pf_down_mask = cp_down_mask header, pf_stale_up_count = uc_stale ups\<rparr> in
     Inr (Some \<lparr>pp_frame = frame, pp_packet = packet,
                pp_commit = \<lparr>pc_frame = frame, pc_up_intents = uc_intents ups, pc_down_intents = down_intents,
                             pc_down_source_action_index = cp_down_source_action_index header\<rparr>,
                pp_batch_source_action_index =
                  (case cp_down_source_action_index header of
                     Some i \<Rightarrow> i | None \<Rightarrow> cb_source_action_index batch)\<rparr>))))))"

definition prepare_current_authored_frame :: "coordinator \<Rightarrow> prepared_authored_frame option coord_result" where
  "prepare_current_authored_frame self =
     rbind (prepare_current_authored_packet self) (\<lambda>p. Inr (map_option pp_frame p))"

subsection \<open>Freezing a commit for a given frame\<close>

definition freeze_up ::
  "coordinator \<Rightarrow> prepared_authored_frame \<Rightarrow> compiled_packet \<Rightarrow> usize \<times> compact_intent
     \<Rightarrow> prepared_up_intent list \<Rightarrow> prepared_up_intent list coord_result" where
  "freeze_up self prepared packet = (\<lambda>(offset, intent) acc.
     rbind (ok_or (checked_add_usize (unat (cp_up_intent_start packet)) offset) (Err (Time Overflow)))
       (\<lambda>intent_index.
     let slot = compact_key_slot intent; slot_bit = bit_for_slot slot; g = compact_generation_id intent in
     if g = NO_GENERATION_ID
     then rbind (matching_token self slot (pf_packet_index prepared) intent_index) (\<lambda>token.
          case token of
            None \<Rightarrow> Inr acc
          | Some identity \<Rightarrow>
              if pf_immediate_up_mask prepared AND slot_bit = 0
              then Inl (accounting ''cancelled authored Up is absent from its immediate release mask'')
              else rbind (map_err (\<lambda>e. Err (Invariant e)) (validate_invalidated_up_identity self identity)) (\<lambda>_.
                   Inr (acc @ [\<lparr>pu_intent = compact_new (identity_generation_id identity) slot,
                                pu_source_action_index = 0, pu_identity = identity\<rparr>])))
     else
     rbind (identity_try_new g slot (pf_packet_index prepared) intent_index) (\<lambda>identity.
     if Option.bind (location_of self g) id \<noteq> Some (pf_packet_index prepared, intent_index)
     then Inl (accounting ''authored Up location differs from compiler-owned generation identity'')
     else if pf_immediate_up_mask prepared AND slot_bit \<noteq> 0
     then Inr (acc @ [\<lparr>pu_intent = intent, pu_source_action_index = 0, pu_identity = identity\<rparr>])
     else if pf_deferred_up_mask prepared AND slot_bit \<noteq> 0
     then rbind (packet_intent_source_action_index self packet intent_index Up) (\<lambda>source_action_index.
          Inr (acc @ [\<lparr>pu_intent = intent, pu_source_action_index = source_action_index,
                       pu_identity = identity\<rparr>]))
     else Inr acc)))"

definition prepare_authored_commit ::
  "coordinator \<Rightarrow> prepared_authored_frame \<Rightarrow> prepared_authored_commit coord_result" where
  "prepare_authored_commit self prepared =
     rbind (ok_or (nth_opt (rs_packets (dc_schedule self)) (pf_packet_index prepared))
              (Err (CoordInvalidBatchIndex (pf_packet_index prepared)))) (\<lambda>packet.
     rbind (map_err (\<lambda>e. Err (Schedule e))
              (view_packet_ticks (dc_schedule self) (pf_packet_index prepared) (pf_authored_ticks prepared))) (\<lambda>view.
     rbind (rfold (freeze_up self prepared packet) (enumerate 0 (pv_up_intents view)) []) (\<lambda>up_intents.
     rbind (prepare_downs (rs_key_registry (dc_schedule self)) (pv_down_intents view)) (\<lambda>down_intents.
     Inr \<lparr>pc_frame = prepared, pc_up_intents = up_intents, pc_down_intents = down_intents,
          pc_down_source_action_index = cp_down_source_action_index packet\<rparr>))))"

section \<open>The bounded slot check\<close>

definition validate_slot_masks :: "coordinator \<Rightarrow> nat \<Rightarrow> unit coord_result" where
  "validate_slot_masks self slot =
     rbind (active_for_slot self (word_of_nat slot)) (\<lambda>active.
     rbind (pending_for_slot self (word_of_nat slot)) (\<lambda>pending.
     let slot_bit = mask_bit slot in
     rbind (case active of
              Some a \<Rightarrow>
                if ag_key_slot a \<noteq> word_of_nat slot \<or> dc_active_mask self AND slot_bit = 0 \<or>
                   dc_blocked_mask self AND slot_bit = 0
                then Inl (accounting ''active slot and ownership masks disagree'') else Inr ()
            | None \<Rightarrow>
                if dc_active_mask self AND slot_bit \<noteq> 0 \<or> dc_blocked_mask self AND slot_bit \<noteq> 0
                then Inl (accounting ''ownership mask has no active slot owner'') else Inr ()) (\<lambda>_.
     case pending of
       Some p \<Rightarrow>
         if pr_key_slot p \<noteq> word_of_nat slot \<or> dc_pending_release_mask self AND slot_bit = 0
         then Inl (accounting ''pending slot and ownership mask disagree'')
         else (case active of
                 None \<Rightarrow> Inl (accounting ''pending slot has no active owner'')
               | Some a \<Rightarrow>
                   if ag_generation_id a \<noteq> pr_generation_id p \<or> dc_active_mask self AND slot_bit = 0 \<or>
                      dc_blocked_mask self AND slot_bit = 0
                   then Inl (accounting ''pending slot does not match active ownership'') else Inr ())
     | None \<Rightarrow>
         if dc_pending_release_mask self AND slot_bit \<noteq> 0
         then Inl (accounting ''pending mask has no pending slot owner'') else Inr ())))"

definition validate_local_slot_masks :: "coordinator \<Rightarrow> unit coord_result" where
  "validate_local_slot_masks self =
     rbind (rfold (\<lambda>slot _. validate_slot_masks self slot) [0..<MAX_KEYS] ()) (\<lambda>_.
     if \<exists>(slot, pending) \<in> set (enumerate 0 (dc_pending_release_by_slot self)).
          pending \<noteq> None \<and> dc_pending_release_mask self AND mask_bit slot = 0
     then Inl (accounting ''pending slot exists outside pending mask'') else Inr ())"

section \<open>Commits\<close>

definition advance_cursor :: "usize \<Rightarrow> unit coord_op" where
  "advance_cursor n self =
     (case checked_add_usize (dc_cursor self) n of
        None \<Rightarrow> (Inl (Err (Time Overflow)), self)
      | Some c \<Rightarrow> (Inr (), self\<lparr>dc_cursor := c\<rparr>))"

definition check_cursor :: "usize \<Rightarrow> unit coord_op" where
  "check_cursor first_batch_index =
     sread (\<lambda>self. if first_batch_index \<noteq> dc_cursor self
                   then Inl (Err (PreparedBatchMismatch first_batch_index (dc_cursor self))) else Inr ())"

definition frozen_up_matches_dropped_expired_generation :: "coordinator \<Rightarrow> authored_up_identity \<Rightarrow> bool" where
  "frozen_up_matches_dropped_expired_generation self identity \<longleftrightarrow>
     nth_opt (dc_generation_states self) (unat (identity_generation_id identity)) = Some DroppedExpired \<and>
     validate_dropped_expired_up_identity self identity = Inr ()"

definition commit_immediate_up :: "authored_up_identity \<Rightarrow> timeline_ticks \<Rightarrow> unit coord_op" where
  "commit_immediate_up identity started =
     (let generation_id = identity_generation_id identity; slot = identity_key_slot identity in
     sbind (sread (\<lambda>self. active_for_slot self slot)) (\<lambda>active_opt.
     case active_opt of
       None \<Rightarrow>
         sbind (sread (\<lambda>self. cancelled_for_slot self slot)) (\<lambda>token.
         if token = Some identity then reconcile_resumable_cancelled_up identity
         else sread (\<lambda>self. if frozen_up_matches_dropped_expired_generation self identity then Inr ()
                            else Inl (accounting ''authored immediate Up has no active generation'')))
     | Some active \<Rightarrow>
         if ag_generation_id active \<noteq> generation_id \<or> started < ag_release_not_before_ticks active
         then sfail (accounting ''authored immediate Up violates generation ownership or hold floor'')
         else sbind (transition_generation generation_id Active Released) (\<lambda>_. disown_slot slot)))"

definition register_pending :: "pending_release \<Rightarrow> unit coord_op" where
  "register_pending p =
     sbind (set_pending (pr_key_slot p) (Some p)) (\<lambda>_.
     supdate (\<lambda>self. self\<lparr>dc_pending_release_mask := dc_pending_release_mask self OR bit_for_slot (pr_key_slot p)\<rparr>))"

definition commit_deferred_up ::
  "prepared_authored_frame \<Rightarrow> authored_up_identity \<Rightarrow> u32 \<Rightarrow> unit coord_op" where
  "commit_deferred_up prepared identity source_action_index =
     (let generation_id = identity_generation_id identity; slot = identity_key_slot identity in
     sbind (sread (\<lambda>self. active_for_slot self slot)) (\<lambda>active_opt.
     case active_opt of
       None \<Rightarrow> sfail (Err (PendingReleaseOwnershipMismatch slot))
     | Some active \<Rightarrow>
         if ag_generation_id active \<noteq> generation_id
         then sfail (Err (PendingReleaseOwnershipMismatch slot)) else
         sbind (sread (\<lambda>self. pending_for_slot self slot)) (\<lambda>pending.
         if pending \<noteq> None then sfail (Err (PendingReleaseAlreadyRegistered slot)) else
         register_pending
           \<lparr>pr_generation_id = generation_id, pr_key_slot = slot,
            pr_authored_release_ticks = pf_authored_ticks prepared,
            pr_due_ticks = max (ag_release_not_before_ticks active) (pf_authored_ticks prepared),
            pr_source_action_index = source_action_index\<rparr>)))"

definition commit_prepared_up :: "prepared_authored_frame \<Rightarrow> timeline_ticks \<Rightarrow> prepared_up_intent \<Rightarrow> unit coord_op" where
  "commit_prepared_up prepared started up =
     (let identity = pu_identity up; generation_id = identity_generation_id identity;
          slot = identity_key_slot identity; slot_bit = bit_for_slot slot in
     if generation_id = NO_GENERATION_ID \<or> generation_id \<noteq> compact_generation_id (pu_intent up) \<or>
        slot \<noteq> compact_key_slot (pu_intent up) \<or> identity_packet_index identity \<noteq> pf_packet_index prepared
     then sfail (accounting ''frozen authored Up identity does not match its intent'')
     else if pf_immediate_up_mask prepared AND slot_bit \<noteq> 0
     then commit_immediate_up identity started
     else if pf_deferred_up_mask prepared AND slot_bit \<noteq> 0
     then commit_deferred_up prepared identity (pu_source_action_index up)
     else sfail (accounting ''frozen authored Up is absent from its prepared release masks''))"

definition commit_prepared_up_intents_frozen ::
  "prepared_authored_frame \<Rightarrow> prepared_up_intent list \<Rightarrow> timeline_ticks \<Rightarrow> unit coord_op" where
  "commit_prepared_up_intents_frozen prepared up_intents started =
     sbind (check_cursor (pf_first_batch_index prepared)) (\<lambda>_.
     sfor up_intents (commit_prepared_up prepared started))"

definition finish_commit :: "usize \<Rightarrow> unit coord_op" where
  "finish_commit packet_batch_count =
     sbind (advance_cursor packet_batch_count) (\<lambda>_. sread validate_local_slot_masks)"

definition commit_prepared_authored_frame_metadata_frozen :: "prepared_authored_commit \<Rightarrow> unit coord_op" where
  "commit_prepared_authored_frame_metadata_frozen commit =
     (let prepared = pc_frame commit in
     if pf_immediate_up_mask prepared \<noteq> 0 \<or> pf_down_mask prepared \<noteq> 0 \<or> pc_down_intents commit \<noteq> []
     then sfail (accounting ''frozen metadata commit contains physical authored work'') else
     sbind (commit_prepared_up_intents_frozen prepared (pc_up_intents commit) (pf_authored_ticks prepared)) (\<lambda>_.
     finish_commit (pf_packet_batch_count prepared)))"

definition slot_occupied :: "coordinator \<Rightarrow> key_slot \<Rightarrow> bool coord_result" where
  "slot_occupied self slot =
     rbind (active_for_slot self slot) (\<lambda>active.
     Inr (active \<noteq> None \<or> dc_active_mask self AND bit_for_slot slot \<noteq> 0 \<or>
          dc_blocked_mask self AND bit_for_slot slot \<noteq> 0))"

definition commit_sent_down :: "u32 option \<Rightarrow> timeline_ticks \<Rightarrow> prepared_down_intent \<Rightarrow> unit coord_op" where
  "commit_sent_down source_action_index release_not_before_ticks down =
     (let generation_id = down_generation_id down; slot = pd_key_slot down in
     if generation_id = NO_GENERATION_ID then sret () else
     sbind (sread (\<lambda>self. slot_occupied self slot)) (\<lambda>occupied.
     if occupied then sfail (accounting ''authored Down would overwrite an active or blocked key slot'') else
     sbind (transition_generation generation_id Scheduled Active) (\<lambda>_.
     own_slot slot \<lparr>ag_generation_id = generation_id, ag_scan_code = pd_scan_code down, ag_key_slot = slot,
                    ag_source_action_index = (case source_action_index of Some i \<Rightarrow> i | None \<Rightarrow> 0),
                    ag_release_not_before_ticks = release_not_before_ticks\<rparr>)))"

definition commit_prepared_authored_frame_success_frozen ::
  "prepared_authored_commit \<Rightarrow> timeline_ticks \<Rightarrow> unit coord_op" where
  "commit_prepared_authored_frame_success_frozen commit started =
     (let prepared = pc_frame commit in
     sbind (check_cursor (pf_first_batch_index prepared)) (\<lambda>_.
     sbind (sread (\<lambda>self. validate_frozen_authored_commit self commit)) (\<lambda>_.
     sbind (sread (\<lambda>self. map_err (\<lambda>e. Err (Time e))
              (timeline_checked_add_duration (pf_authored_ticks prepared) (dc_min_hold_ticks self))))
       (\<lambda>release_not_before_ticks.
     sbind (commit_prepared_up_intents_frozen prepared (pc_up_intents commit) started) (\<lambda>_.
     sbind (sfor (pc_down_intents commit)
              (commit_sent_down (pc_down_source_action_index commit) release_not_before_ticks)) (\<lambda>_.
     finish_commit (pf_packet_batch_count prepared)))))))"

definition miss_down :: "prepared_down_intent \<Rightarrow> u16 \<Rightarrow> u16 coord_op" where
  "miss_down down observed =
     (let generation_id = down_generation_id down; slot = pd_key_slot down in
     if generation_id = NO_GENERATION_ID then sret observed else
     sbind (sread (\<lambda>self. slot_occupied self slot)) (\<lambda>occupied.
     if occupied then sfail (accounting ''missed authored Down would overwrite an active or blocked key slot'') else
     sbind (transition_generation generation_id Scheduled DroppedExpired) (\<lambda>_.
     sbind (invalidate_up_for_generation generation_id) (\<lambda>_.
     sret (observed OR bit_for_slot slot)))))"

definition commit_prepared_authored_frame_deadline_miss ::
  "prepared_authored_commit \<Rightarrow> u16 \<Rightarrow> u16 \<Rightarrow> timeline_ticks \<Rightarrow> unit coord_op" where
  "commit_prepared_authored_frame_deadline_miss commit confirmed_up_mask missed_down_mask started =
     (let prepared = pc_frame commit in
     sbind (check_cursor (pf_first_batch_index prepared)) (\<lambda>_.
     sbind (sread (\<lambda>self. validate_frozen_authored_commit self commit)) (\<lambda>_.
     if confirmed_up_mask \<noteq> pf_immediate_up_mask prepared \<or> missed_down_mask \<noteq> pf_down_mask prepared
     then sfail (accounting ''deadline-miss masks do not match the frozen authored frame'') else
     sbind (commit_prepared_up_intents_frozen prepared (pc_up_intents commit) started) (\<lambda>_.
     sbind (sfold miss_down (pc_down_intents commit) 0) (\<lambda>observed_down_mask.
     if observed_down_mask \<noteq> missed_down_mask
     then sfail (accounting ''frozen Down intents do not cover the missed Down mask'') else
     finish_commit (pf_packet_batch_count prepared))))))"

definition release_pending_slot :: "timeline_ticks \<Rightarrow> nat \<Rightarrow> unit coord_op" where
  "release_pending_slot started slot_index =
     (let slot = word_of_nat slot_index; mismatch = Err (PendingReleaseOwnershipMismatch slot) in
     sbind (sread (\<lambda>self. ok_or (pending_release_for_slot self slot) mismatch)) (\<lambda>pending.
     sbind (sread (\<lambda>self. active_for_slot self slot)) (\<lambda>active_opt.
     case active_opt of
       None \<Rightarrow> sfail mismatch
     | Some active \<Rightarrow>
         if ag_generation_id active \<noteq> pr_generation_id pending \<or> started < pr_due_ticks pending
         then sfail mismatch else
         sbind (transition_generation (pr_generation_id pending) Active Released) (\<lambda>_.
         sbind (disown_slot slot) (\<lambda>_.
         sbind (set_pending slot None) (\<lambda>_.
         supdate (\<lambda>self. self\<lparr>dc_pending_release_mask :=
                          dc_pending_release_mask self AND NOT (bit_for_slot slot)\<rparr>)))))))"

definition commit_pending_release_success :: "u16 \<Rightarrow> timeline_ticks \<Rightarrow> unit coord_op" where
  "commit_pending_release_success release_mask started =
     sbind (sfor (slots_of_mask release_mask) (release_pending_slot started)) (\<lambda>_.
     sread validate_local_slot_masks)"

section \<open>Batches and stale packets\<close>

definition prepare_current_authored_batch :: "coordinator \<Rightarrow> prepared_batch option coord_result" where
  "prepare_current_authored_batch self =
     (let index = dc_cursor self in
     if index \<ge> length (rs_batches (dc_schedule self)) then Inr None else
     rbind (ok_or (nth_opt (rs_batches (dc_schedule self)) index) (Err (CoordInvalidBatchIndex index))) (\<lambda>batch.
     let packet_index = unat (cb_packet_id batch) in
     rbind (ok_or (nth_opt (rs_packets (dc_schedule self)) packet_index)
              (Err (Schedule (InvalidPacketIndex packet_index)))) (\<lambda>packet.
     if unat (cp_first_batch_index packet) \<noteq> index
     then Inl (accounting ''packet first batch does not match coordinator cursor'') else
     rbind (effective_batch_scheduled_ticks self index) (\<lambda>effective_scheduled_ticks.
     rbind (classify_packet_kind (cp_up_mask packet) (cp_down_mask packet)) (\<lambda>packet_kind.
     Inr (Some \<lparr>pb_index = index, pb_effective_scheduled_ticks = effective_scheduled_ticks,
                pb_packet_index = packet_index, pb_packet_batch_count = unat (cp_batch_count packet),
                pb_packet_kind = packet_kind\<rparr>))))))"

definition prepare_current_stale_packet :: "coordinator \<Rightarrow> prepared_stale_packet option coord_result" where
  "prepare_current_stale_packet self =
     (case nth_opt (rs_batches (dc_schedule self)) (dc_cursor self) of
        None \<Rightarrow> Inr None
      | Some batch \<Rightarrow>
     let packet_index = unat (cb_packet_id batch);
         range_error = Err (Schedule (InvalidPacketIntentRange packet_index)) in
     rbind (ok_or (nth_opt (rs_packets (dc_schedule self)) packet_index)
              (Err (Schedule (InvalidPacketIndex packet_index)))) (\<lambda>packet.
     if unat (cp_first_batch_index packet) \<noteq> dc_cursor self
     then Inl (accounting ''stale packet first batch does not match coordinator cursor'')
     else if cp_up_mask packet \<noteq> 0 \<or> cp_down_mask packet \<noteq> 0 then Inr None
     else if cp_up_intent_len packet = 0 \<or> cp_down_intent_len packet \<noteq> 0
     then Inl (accounting ''empty compiled packet is not a stale unmatched-Up packet'')
     else if unat (cp_batch_count packet) = 0
     then Inl (accounting ''stale packet must contain at least one authored batch'') else
     rbind (ok_or (checked_add_usize (dc_cursor self) (unat (cp_batch_count packet))) (Err (Time Overflow)))
       (\<lambda>batch_end.
     rbind (ok_or (slice_get (rs_batches (dc_schedule self)) (dc_cursor self) batch_end)
              (Err (CoordInvalidBatchIndex (dc_cursor self)))) (\<lambda>batch_range.
     if \<exists>candidate \<in> set batch_range. cb_packet_id candidate \<noteq> cb_packet_id batch \<or>
          cb_kind candidate \<noteq> Up \<or> cb_intent_len candidate = 0
     then Inl (accounting ''stale packet contains an invalid authored batch'') else
     rbind (ok_or (up_range_end packet) range_error) (\<lambda>up_end.
     rbind (ok_or (slice_get (rs_intents (dc_schedule self)) (unat (cp_up_intent_start packet)) up_end)
              range_error) (\<lambda>up_intents.
     if \<not> (\<forall>intent \<in> set up_intents. compact_generation_id intent = NO_GENERATION_ID)
     then Inl (accounting ''zero-mask authored packet contains an owned Up intent'') else
     rbind (effective_batch_scheduled_ticks self (dc_cursor self)) (\<lambda>effective_scheduled_ticks.
     Inr (Some \<lparr>ps_first_batch_index = dc_cursor self, ps_packet_index = packet_index,
                ps_packet_batch_count = unat (cp_batch_count packet),
                ps_effective_scheduled_ticks = effective_scheduled_ticks,
                ps_source_action_index = cb_source_action_index batch,
                ps_suppressed_intent_count = length up_intents\<rparr>)))))))) "

definition commit_stale_packet :: "prepared_stale_packet \<Rightarrow> unit coord_op" where
  "commit_stale_packet prepared =
     sbind (sread prepare_current_stale_packet) (\<lambda>current_opt.
     case current_opt of
       None \<Rightarrow> sfail (accounting ''prepared stale packet is no longer current'')
     | Some current \<Rightarrow>
         if current \<noteq> prepared
         then sread (\<lambda>self. Inl (Err (PreparedBatchMismatch (ps_first_batch_index prepared) (dc_cursor self))))
         else finish_commit (ps_packet_batch_count prepared))"

end
