(* ===== verification/Sky_Cleanup.thy ===== *)
theory Sky_Cleanup
  imports Sky_Authored
begin

text \<open>
  Completion, auditing and cleanup of the coordinator (\<open>coordinator/cleanup.rs\<close>): the lifecycle
  predicate, the bounded and the full invariant checks, the accounting summaries, and the two
  cancellations, the terminal one and the one of a resumable suspension. The visit counters of the
  test-support build are left out.
\<close>

definition is_finished :: "coordinator \<Rightarrow> bool" where
  "is_finished self \<longleftrightarrow>
     (let c = dc_counters self;
          terminal_count = gc_released c + gc_dropped_conflict c + gc_dropped_backend c
                             + gc_dropped_expired c + gc_cancelled c in
      dc_cursor self \<ge> length (rs_batches (dc_schedule self)) \<and> dc_active_mask self = 0 \<and>
      dc_pending_release_mask self = 0 \<and> (\<forall>p \<in> set (dc_pending_release_by_slot self). p = None) \<and>
      (\<forall>t \<in> set (dc_cancelled_up_by_slot self). t = None) \<and>
      terminal_count = rs_generation_count (dc_schedule self))"

section \<open>Audits\<close>

type_synonym 'a audit = "coordinator_invariant_error failure + 'a"

abbreviation audit_error :: "string \<Rightarrow> coordinator_invariant_error failure" where
  "audit_error msg \<equiv> Err (Accounting msg)"

definition audit_table :: "'a list \<Rightarrow> nat \<Rightarrow> 'a audit" where
  "audit_table xs slot = ok_or (nth_opt xs slot) Panic"

definition require :: "bool \<Rightarrow> string \<Rightarrow> unit audit" where
  "require b msg = (if b then Inr () else Inl (audit_error msg))"

text \<open>The counter checks shared by the bounded and the full audit.\<close>

definition audit_counts :: "coordinator \<Rightarrow> u64 \<Rightarrow> unit audit" where
  "audit_counts self active_count =
     rbind (require (dc_activated_generation_count self \<le> dc_generation_count self)
              ''activated generation count exceeds total generation count'') (\<lambda>_.
     rbind (require (gc_released (dc_counters self) \<le> dc_activated_generation_count self)
              ''released generation count exceeds activated generation count'') (\<lambda>_.
     rbind (require (active_count \<le> dc_activated_generation_count self)
              ''active generation count exceeds activated generation count'') (\<lambda>_.
     rbind (ok_or (checked_add (gc_released (dc_counters self)) active_count)
              (audit_error ''released plus active generation count overflow'')) (\<lambda>released_plus_active.
     require (released_plus_active \<le> dc_activated_generation_count self)
       ''released plus active generation count exceeds activated generation count''))))"

definition audit_active :: "coordinator \<Rightarrow> nat \<Rightarrow> active_generation option \<Rightarrow> pending_release option \<Rightarrow> unit audit" where
  "audit_active self slot active pending =
     (let slot_bit = mask_bit slot in
      case active of
        Some a \<Rightarrow>
          if ag_key_slot a \<noteq> word_of_nat slot \<or> dc_active_mask self AND slot_bit = 0 \<or>
             dc_blocked_mask self AND slot_bit = 0 \<or>
             (case pending of Some p \<Rightarrow> pr_generation_id p \<noteq> ag_generation_id a \<or> pr_key_slot p \<noteq> word_of_nat slot
                            | None \<Rightarrow> False)
          then Inl (audit_error ''active slot {slot} and ownership masks disagree'')
          else rbind (ok_or (nth_opt (dc_generation_states self) (unat (ag_generation_id a)))
                        (Err (UnknownGeneration (ag_generation_id a) (dc_generation_count self)))) (\<lambda>state.
               require (state = Active) ''active slot {slot} points to non-active generation {}'')
      | None \<Rightarrow>
          require (dc_active_mask self AND slot_bit = 0 \<and> dc_blocked_mask self AND slot_bit = 0)
            ''ownership mask for slot {slot} has no active slot owner'')"

definition audit_pending :: "coordinator \<Rightarrow> nat \<Rightarrow> active_generation option \<Rightarrow> pending_release option \<Rightarrow> unit audit" where
  "audit_pending self slot active pending =
     rbind (require ((pending \<noteq> None) = (dc_pending_release_mask self AND mask_bit slot \<noteq> 0))
              ''pending slot {slot} and pending mask disagree'') (\<lambda>_.
     case pending of
       None \<Rightarrow> Inr ()
     | Some p \<Rightarrow>
         if pr_key_slot p \<noteq> word_of_nat slot
         then Inl (audit_error ''pending slot {slot} stores key slot {}'')
         else (case active of
                 None \<Rightarrow> Inl (audit_error ''pending slot {slot} has no active owner'')
               | Some a \<Rightarrow> require (ag_generation_id a = pr_generation_id p)
                            ''pending slot {slot} does not match active ownership''))"

definition audit_token :: "coordinator \<Rightarrow> nat \<Rightarrow> pending_release option \<Rightarrow> authored_up_identity option \<Rightarrow> unit audit" where
  "audit_token self slot pending cancellation =
     (case cancellation of
        None \<Rightarrow> Inr ()
      | Some identity \<Rightarrow>
          if identity_key_slot identity \<noteq> word_of_nat slot \<or> pending \<noteq> None \<or>
             dc_active_mask self AND mask_bit slot \<noteq> 0 \<or> dc_blocked_mask self AND mask_bit slot \<noteq> 0
          then Inl (audit_error ''cancelled-Up token for slot {slot} conflicts with live ownership'') else
          rbind (map_err Err (validate_invalidated_up_identity self identity)) (\<lambda>_.
          rbind (ok_or (nth_opt (dc_generation_states self) (unat (identity_generation_id identity)))
                   (Err (UnknownGeneration (identity_generation_id identity) (dc_generation_count self)))) (\<lambda>state.
          require (state = Cancelled) ''cancelled-Up token for slot {slot} points to non-cancelled generation {}'')))"

definition audit_slot :: "coordinator \<Rightarrow> nat \<Rightarrow> unit audit" where
  "audit_slot self slot =
     rbind (audit_table (dc_active_by_slot self) slot) (\<lambda>active.
     rbind (audit_table (dc_cancelled_up_by_slot self) slot) (\<lambda>cancellation.
     rbind (require (\<not> (active \<noteq> None \<and> cancellation \<noteq> None))
              ''slot {slot} has both an active owner and a cancelled-Up token'') (\<lambda>_.
     rbind (audit_table (dc_pending_release_by_slot self) slot) (\<lambda>pending.
     rbind (audit_active self slot active pending) (\<lambda>_.
     rbind (audit_pending self slot active pending) (\<lambda>_.
     audit_token self slot pending cancellation))))))"

definition check_local_invariants :: "coordinator \<Rightarrow> unit audit" where
  "check_local_invariants self =
     (let active_count = word_of_nat (count_ones (dc_active_mask self)) in
     rbind (require (word_of_nat (length (dc_generation_states self)) = dc_generation_count self \<and>
                     dc_generation_count self = rs_generation_count (dc_schedule self))
              ''ledger length {} or schedule generation count {} != generation count {}'') (\<lambda>_.
     rbind (ok_or (terminal_total_checked (dc_counters self)) (audit_error ''terminal counter overflow'')) (\<lambda>terminal.
     rbind (audit_counts self active_count) (\<lambda>_.
     rbind (ok_or (checked_add terminal active_count)
              (audit_error ''active plus terminal generation count overflow'')) (\<lambda>classified.
     rbind (require (classified \<le> dc_generation_count self)
              ''active plus terminal generation count exceeds total generation count'') (\<lambda>_.
     rfold (\<lambda>slot _. audit_slot self slot) [0..<MAX_KEYS] ()))))))"

fun ledger_step :: "generation_status \<Rightarrow> u64 \<times> u64 \<times> u64 \<Rightarrow> u64 \<times> u64 \<times> u64" where
  "ledger_step state (scheduled, active, terminal) =
     (case state of
        Scheduled \<Rightarrow> (scheduled + 1, active, terminal)
      | Active \<Rightarrow> (scheduled, active + 1, terminal)
      | _ \<Rightarrow> (scheduled, active, terminal + 1))"

definition check_invariants :: "coordinator \<Rightarrow> unit audit" where
  "check_invariants self =
     rbind (check_local_invariants self) (\<lambda>_.
     rbind (require (word_of_nat (length (dc_generation_states self)) = dc_generation_count self)
              ''ledger length {} != generation count {}'') (\<lambda>_.
     let (scheduled, active, terminal) = fold ledger_step (dc_generation_states self) (0, 0, 0) in
     rbind (ok_or (terminal_total_checked (dc_counters self)) (audit_error ''terminal counter overflow'')) (\<lambda>counted_terminal.
     rbind (audit_counts self active) (\<lambda>_.
     rbind (require (active = word_of_nat (count_ones (dc_active_mask self)))
              ''active ledger count {active} != active mask count {}'') (\<lambda>_.
     rbind (require (terminal = counted_terminal)
              ''terminal ledger count {terminal} != counters {counted_terminal}'') (\<lambda>_.
     rbind (ok_or (Option.bind (checked_add scheduled active) (\<lambda>n. checked_add n terminal))
              (audit_error ''scheduled, active, and terminal generation count overflow'')) (\<lambda>accounted.
     require (accounted = dc_generation_count self)
       ''scheduled + active + terminal {accounted} != generation count {}'')))))))"

definition check_post_cleanup_invariants :: "coordinator \<Rightarrow> unit audit" where
  "check_post_cleanup_invariants self =
     rbind (check_invariants self) (\<lambda>_.
     rbind (require (dc_active_mask self = 0 \<and> dc_blocked_mask self = 0)
              ''terminal cleanup left a live coordinator mask'') (\<lambda>_.
     rbind (require (\<forall>a \<in> set (dc_active_by_slot self). a = None)
              ''terminal cleanup left a live coordinator slot'') (\<lambda>_.
     rbind (require (dc_pending_release_mask self = 0 \<and> (\<forall>p \<in> set (dc_pending_release_by_slot self). p = None))
              ''terminal cleanup left a pending release'') (\<lambda>_.
     rbind (require (\<forall>t \<in> set (dc_cancelled_up_by_slot self). t = None)
              ''terminal cleanup left an unmatched cancelled-Up token'') (\<lambda>_.
     require (\<not> (\<exists>state \<in> set (dc_generation_states self). state = Scheduled \<or> state = Active))
       ''terminal cleanup left a nonterminal generation'')))))"

section \<open>Summaries\<close>

definition generation_accounting_of :: "coordinator \<Rightarrow> 'e failure + generation_accounting" where
  "generation_accounting_of self =
     (let active = word_of_nat (count_ones (dc_active_mask self)); c = dc_counters self in
     rbind (ok_or (terminal_total_checked c) Panic) (\<lambda>terminal.
     rbind (ok_or (Option.bind (checked_sub (dc_generation_count self) active) (\<lambda>n. checked_sub n terminal)) Panic)
       (\<lambda>scheduled.
     Inr \<lparr>ga_total = dc_generation_count self, ga_activated = dc_activated_generation_count self,
          ga_scheduled = scheduled, ga_active = active, ga_released = gc_released c,
          ga_dropped_conflict = gc_dropped_conflict c, ga_dropped_backend = gc_dropped_backend c,
          ga_dropped_expired = gc_dropped_expired c, ga_cancelled = gc_cancelled c\<rparr>)))"

definition generation_status_counts :: "coordinator \<Rightarrow> 'e failure + (string \<rightharpoonup> u64)" where
  "generation_status_counts self =
     rfold (\<lambda>state result.
        rbind (ok_or (result (status_as_str state)) Panic) (\<lambda>n. Inr (result(status_as_str state \<mapsto> n + 1))))
       (dc_generation_states self)
       (foldl (\<lambda>result status. result(status_as_str status \<mapsto> 0)) Map.empty ALL_GENERATION_STATUSES)"

section \<open>Cancellation\<close>

definition run_audit :: "(coordinator \<Rightarrow> unit audit) \<Rightarrow> unit coord_op" where
  "run_audit audit = sread (\<lambda>self. map_err (map_failure Invariant) (audit self))"

definition clear_ownership :: "coordinator \<Rightarrow> coordinator" where
  "clear_ownership self =
     self\<lparr>dc_active_by_slot := replicate MAX_KEYS None, dc_active_mask := 0, dc_blocked_mask := 0,
          dc_pending_release_by_slot := replicate MAX_KEYS None, dc_pending_release_mask := 0\<rparr>"

definition clear_tokens :: "coordinator \<Rightarrow> coordinator" where
  "clear_tokens self = self\<lparr>dc_cancelled_up_by_slot := replicate MAX_KEYS None\<rparr>"

definition cancel_index :: "usize \<Rightarrow> unit coord_op" where
  "cancel_index index =
     sbind (sread (\<lambda>self. ok_or (nth_opt (dc_generation_states self) index) Panic)) (\<lambda>state.
     if state = Scheduled \<or> state = Active
     then sbind (sread (\<lambda>_. ok_or (try_from_usize index)
                   (accounting ''generation ledger index does not fit GenerationId''))) (\<lambda>generation_id.
          sbind (transition_generation generation_id state Cancelled) (\<lambda>_.
          invalidate_up_for_generation generation_id))
     else sret ())"

definition cancel_all :: "generation_id list coord_op" where
  "cancel_all =
     sbind (run_audit check_invariants) (\<lambda>_.
     sbind (sread (\<lambda>self. Inr (sort (map ag_generation_id (List.map_filter id (dc_active_by_slot self))))))
       (\<lambda>sorted_cancelled.
     sbind (sread (\<lambda>self. Inr (length (dc_generation_states self)))) (\<lambda>len.
     sbind (sfor [0..<len] cancel_index) (\<lambda>_.
     sbind (supdate (\<lambda>self. clear_tokens (clear_ownership self))) (\<lambda>_.
     sbind (run_audit check_invariants) (\<lambda>_.
     sret sorted_cancelled))))))"

definition live_identity :: "coordinator \<Rightarrow> nat \<Rightarrow> authored_up_identity option coord_result" where
  "live_identity self slot =
     rbind (ok_or (nth_opt (dc_active_by_slot self) slot) Panic) (\<lambda>active_opt.
     case active_opt of
       None \<Rightarrow> Inr None
     | Some active \<Rightarrow>
         rbind (authored_up_identity_for_live_generation self (ag_generation_id active) (ag_key_slot active))
           (\<lambda>identity.
         rbind (ok_or (nth_opt (dc_cancelled_up_by_slot self) slot) Panic) (\<lambda>token.
         if token \<noteq> None
         then Inl (accounting ''resumable cleanup would overwrite a live cancelled-Up token for slot {slot}'')
         else Inr (Some identity))))"

definition live_identities :: "coordinator \<Rightarrow> authored_up_identity option list coord_result" where
  "live_identities self =
     rfold (\<lambda>slot acc. rbind (live_identity self slot) (\<lambda>i. Inr (acc @ [i]))) [0..<MAX_KEYS] []"

definition cancel_live_slot :: "nat \<times> authored_up_identity option \<Rightarrow> unit coord_op" where
  "cancel_live_slot = (\<lambda>(slot, identity_opt).
     case identity_opt of
       None \<Rightarrow> sret ()
     | Some identity \<Rightarrow>
         sbind (transition_generation (identity_generation_id identity) Active Cancelled) (\<lambda>_.
         sbind (invalidate_authored_up_for_resumable_cancellation identity) (\<lambda>_.
         set_cancelled (word_of_nat slot) (Some identity))))"

definition cancel_live_generations_after_verified_resumable_cleanup :: "usize coord_op" where
  "cancel_live_generations_after_verified_resumable_cleanup =
     sbind (run_audit check_local_invariants) (\<lambda>_.
     sbind (sread live_identities) (\<lambda>identities.
     let live_count = length (filter (\<lambda>i. i \<noteq> None) identities) in
     sbind (sread (\<lambda>self. ok_or (checked_add (gc_cancelled (dc_counters self)) (word_of_nat live_count))
              (accounting ''cancelled generation counter overflow during resumable cleanup''))) (\<lambda>_.
     sbind (sfor (enumerate 0 identities) cancel_live_slot) (\<lambda>_.
     sbind (supdate clear_ownership) (\<lambda>_.
     sbind (run_audit check_local_invariants) (\<lambda>_.
     sret live_count))))))"

end
