(* ===== verification/Sky_Ledger.thy ===== *)
theory Sky_Ledger
  imports Sky_Cleanup
begin

text \<open>
  The generation ledger of the coordinator as a component of its own: the terminal counters mirror the
  ledger, activations and scheduled generations never exceed the total, and a checked transition keeps
  both. The transition lemma at the end is the only fact about \<open>transition_generation\<close> that the later
  theories use.
\<close>

section \<open>Counters mirror the ledger\<close>

fun counter_of :: "generation_counters \<Rightarrow> generation_status \<Rightarrow> u64" where
  "counter_of k Released = gc_released k"
| "counter_of k DroppedConflict = gc_dropped_conflict k"
| "counter_of k DroppedBackend = gc_dropped_backend k"
| "counter_of k DroppedExpired = gc_dropped_expired k"
| "counter_of k Cancelled = gc_cancelled k"
| "counter_of k _ = 0"

definition counters_match :: "generation_counters \<Rightarrow> generation_status list \<Rightarrow> bool" where
  "counters_match k sts \<longleftrightarrow> (\<forall>st. is_terminal st \<longrightarrow> unat (counter_of k st) = count_list sts st)"

lemma is_terminal_simps [simp]:
  "is_terminal Released" "is_terminal DroppedConflict" "is_terminal DroppedBackend"
  "is_terminal DroppedExpired" "is_terminal Cancelled" "\<not> is_terminal Scheduled" "\<not> is_terminal Active"
  by (simp_all add: is_terminal_def)

lemma is_terminal_iff: "is_terminal st \<longleftrightarrow> st \<noteq> Scheduled \<and> st \<noteq> Active"
  by (cases st) simp_all

lemma counters_matchD:
  "counters_match k sts \<Longrightarrow> unat (gc_released k) = count_list sts Released"
  "counters_match k sts \<Longrightarrow> unat (gc_dropped_conflict k) = count_list sts DroppedConflict"
  "counters_match k sts \<Longrightarrow> unat (gc_dropped_backend k) = count_list sts DroppedBackend"
  "counters_match k sts \<Longrightarrow> unat (gc_dropped_expired k) = count_list sts DroppedExpired"
  "counters_match k sts \<Longrightarrow> unat (gc_cancelled k) = count_list sts Cancelled"
  unfolding counters_match_def by (metis counter_of.simps is_terminal_simps)+

lemma count_list_le_length: "count_list xs x \<le> length xs"
  by (induction xs) auto

lemma bump_ok: "unat n + 1 < 2 ^ 64 \<Longrightarrow> bump n = Inr (n + 1) \<and> unat (n + 1) = unat n + 1"
  by (simp add: bump_def checked_add_def unat_add_no_wrap)

lemma counter_of_other [simp]:
  "st \<noteq> Released \<Longrightarrow> counter_of (k\<lparr>gc_released := x\<rparr>) st = counter_of k st"
  "st \<noteq> DroppedConflict \<Longrightarrow> counter_of (k\<lparr>gc_dropped_conflict := x\<rparr>) st = counter_of k st"
  "st \<noteq> DroppedBackend \<Longrightarrow> counter_of (k\<lparr>gc_dropped_backend := x\<rparr>) st = counter_of k st"
  "st \<noteq> DroppedExpired \<Longrightarrow> counter_of (k\<lparr>gc_dropped_expired := x\<rparr>) st = counter_of k st"
  "st \<noteq> Cancelled \<Longrightarrow> counter_of (k\<lparr>gc_cancelled := x\<rparr>) st = counter_of k st"
  by (cases st; simp)+

lemma counters_increment_counter:
  assumes "unat (counter_of k n) + 1 < 2 ^ 64" and "is_terminal n"
  shows "\<exists>k'. counters_increment k n = Inr k' \<and>
    (\<forall>st. is_terminal st \<longrightarrow> unat (counter_of k' st) = unat (counter_of k st) + (if st = n then 1 else 0))"
  using assms by (cases n) (auto simp: bump_ok)

lemma counters_increment_match:
  assumes m: "counters_match k sts" and i: "i < length sts" "\<not> is_terminal (sts ! i)"
    and n: "is_terminal n" and len: "length sts < 2 ^ 64"
  shows "\<exists>k'. counters_increment k n = Inr k' \<and> counters_match k' (sts[i := n])"
proof -
  have cnt: "count_list (sts[i := n]) st = count_list sts st + (if st = n then 1 else 0)" if "is_terminal st" for st
    using count_list_update [OF i(1), of n st] i(2) that by (auto split: if_splits)
  have "count_list sts n + 1 \<le> length sts"
    using cnt [OF n] count_list_le_length [of "sts[i := n]" n] by simp
  then have "unat (counter_of k n) + 1 < 2 ^ 64" using m n len by (simp add: counters_match_def)
  from counters_increment_counter [OF this n] obtain k' where
    "counters_increment k n = Inr k'"
    "\<forall>st. is_terminal st \<longrightarrow> unat (counter_of k' st) = unat (counter_of k st) + (if st = n then 1 else 0)" by blast
  then show ?thesis using m cnt by (simp add: counters_match_def)
qed

section \<open>The ledger invariant\<close>

abbreviation total_of :: "coordinator \<Rightarrow> nat" where
  "total_of c \<equiv> unat (dc_generation_count c)"

abbreviation cnt :: "coordinator \<Rightarrow> generation_status \<Rightarrow> nat" where
  "cnt c st \<equiv> count_list (dc_generation_states c) st"

definition ntok :: "coordinator \<Rightarrow> nat" where
  "ntok c = length (filter (\<lambda>t. t \<noteq> None) (dc_cancelled_up_by_slot c))"

definition ledger_base :: "coordinator \<Rightarrow> bool" where
  "ledger_base c \<longleftrightarrow> length (dc_generation_states c) = total_of c \<and>
     counters_match (dc_counters c) (dc_generation_states c) \<and>
     unat (dc_activated_generation_count c) + cnt c Scheduled \<le> total_of c"

text \<open>Every released or live generation, and every one waiting for its Up after a suspension, was activated.\<close>

definition activation_inv :: "coordinator \<Rightarrow> bool" where
  "activation_inv c \<longleftrightarrow>
     cnt c Released + cnt c Active + ntok c \<le> unat (dc_activated_generation_count c)"

lemma total_less: "total_of c < 2 ^ 64"
  using unsigned_less [of "dc_generation_count c"] by simp

definition has_status :: "coordinator \<Rightarrow> generation_id \<Rightarrow> generation_status \<Rightarrow> bool" where
  "has_status c g st \<longleftrightarrow> unat g < length (dc_generation_states c) \<and> dc_generation_states c ! unat g = st"

lemma has_status_unique: "has_status c g st \<Longrightarrow> has_status c g st' \<Longrightarrow> st = st'"
  by (simp add: has_status_def)

lemma status_of_eq:
  "status_of c g = Inr st \<longleftrightarrow> has_status c g st"
  "status_of c g = Inl e \<longleftrightarrow> length (dc_generation_states c) \<le> unat g \<and>
     e = Err (Invariant (UnknownGeneration g (dc_generation_count c)))"
  by (auto simp: status_of_def has_status_def nth_opt_def ok_or_def)

lemma sum_count_states:
  "count_list sts Scheduled + count_list sts Active + count_list sts Released + count_list sts DroppedConflict
   + count_list sts DroppedBackend + count_list sts DroppedExpired + count_list sts Cancelled = length sts"
proof (induction sts)
  case (Cons x xs)
  then show ?case by (cases x) simp_all
qed simp

text \<open>The state after a transition.\<close>

definition transitioned ::
  "coordinator \<Rightarrow> generation_id \<Rightarrow> generation_status \<Rightarrow> generation_counters \<Rightarrow> u64 \<Rightarrow> coordinator" where
  "transitioned c g nxt k a = set_status g nxt (c\<lparr>dc_counters := k, dc_activated_generation_count := a\<rparr>)"

definition activates :: "generation_status \<Rightarrow> generation_status \<Rightarrow> bool" where
  "activates from to \<longleftrightarrow> from = Scheduled \<and> to = Active"

lemma transitioned_fields [simp]:
  "dc_schedule (transitioned c g nxt k a) = dc_schedule c"
  "dc_min_hold_us (transitioned c g nxt k a) = dc_min_hold_us c"
  "dc_min_hold_ticks (transitioned c g nxt k a) = dc_min_hold_ticks c"
  "dc_batch_scheduled_ticks (transitioned c g nxt k a) = dc_batch_scheduled_ticks c"
  "dc_cursor (transitioned c g nxt k a) = dc_cursor c"
  "dc_active_by_slot (transitioned c g nxt k a) = dc_active_by_slot c"
  "dc_active_mask (transitioned c g nxt k a) = dc_active_mask c"
  "dc_blocked_mask (transitioned c g nxt k a) = dc_blocked_mask c"
  "dc_counters (transitioned c g nxt k a) = k"
  "dc_activated_generation_count (transitioned c g nxt k a) = a"
  "dc_generation_states (transitioned c g nxt k a) = (dc_generation_states c)[unat g := nxt]"
  "dc_generation_count (transitioned c g nxt k a) = dc_generation_count c"
  "dc_up_intent_locations (transitioned c g nxt k a) = dc_up_intent_locations c"
  "dc_cancelled_up_by_slot (transitioned c g nxt k a) = dc_cancelled_up_by_slot c"
  "dc_pending_release_by_slot (transitioned c g nxt k a) = dc_pending_release_by_slot c"
  "dc_pending_release_mask (transitioned c g nxt k a) = dc_pending_release_mask c"
  by (simp_all add: transitioned_def set_status_def)

lemma has_status_transitioned:
  "has_status (transitioned c g nxt k a) g' st \<longleftrightarrow>
     (if g' = g then unat g < length (dc_generation_states c) \<and> st = nxt else has_status c g' st)"
proof (cases "g' = g")
  case False
  then have "unat g \<noteq> unat g'" by (metis unsigned_word_eqI)
  then show ?thesis using False by (simp add: has_status_def)
qed (auto simp: has_status_def)

lemma cnt_transitioned:
  assumes "has_status c g from"
  shows "cnt (transitioned c g nxt k a) st + (if from = st then 1 else 0) = cnt c st + (if nxt = st then 1 else 0)"
  using assms count_list_update [of "unat g" "dc_generation_states c" nxt st] by (simp add: has_status_def)

lemma can_transition_cases:
  assumes "can_transition_to from to"
  shows "from \<noteq> to" "\<not> is_terminal from" "to \<noteq> Scheduled" "\<not> activates from to \<Longrightarrow> is_terminal to"
  using assms by (auto simp: can_transition_to_def activates_def)

lemma transition_ledger:
  assumes led: "ledger_base c" and st: "has_status c g from" and can: "can_transition_to from nxt"
  shows "\<exists>k a. transition_generation g from nxt c = (Inr (), transitioned c g nxt k a) \<and>
    ledger_base (transitioned c g nxt k a) \<and>
    unat a = unat (dc_activated_generation_count c) + (if activates from nxt then 1 else 0)"
proof -
  note ok = can_transition_cases [OF can]
  let ?sts = "dc_generation_states c"
  have len: "length ?sts < 2 ^ 64" using led total_less [of c] by (simp add: ledger_base_def)
  have g: "unat g < length ?sts" "?sts ! unat g = from" using st by (simp_all add: has_status_def)
  have status: "status_of c g = Inr from" using st by (simp add: status_of_eq)
  have sched: "cnt (transitioned c g nxt k a) Scheduled + (if from = Scheduled then 1 else 0) = cnt c Scheduled" for k a
    using cnt_transitioned [OF st, of nxt k a Scheduled] ok(3) by simp
  show ?thesis
  proof (cases "activates from nxt")
    case True
    then have eq: "from = Scheduled" "nxt = Active" by (simp_all add: activates_def)
    have act: "unat (dc_activated_generation_count c) + cnt c Scheduled \<le> total_of c" using led by (simp add: ledger_base_def)
    moreover have "0 < cnt c Scheduled" using sched [of undefined undefined] eq by simp
    ultimately have small: "unat (dc_activated_generation_count c) + 1 < 2 ^ 64" using total_less [of c] by linarith
    let ?a = "dc_activated_generation_count c + 1"
    have a: "unat ?a = unat (dc_activated_generation_count c) + 1" using small by (simp add: unat_add_no_wrap)
    have run: "transition_generation g from nxt c = (Inr (), transitioned c g nxt (dc_counters c) ?a)"
      using status can small eq
      by (simp add: transition_generation_def sbind_apply increment_activated_def checked_add_def transitioned_def)
    have "counters_match (dc_counters c) (?sts[unat g := Active])"
      unfolding counters_match_def
    proof (intro allI impI)
      fix t assume t: "is_terminal t"
      show "unat (counter_of (dc_counters c) t) = count_list (?sts[unat g := Active]) t"
        using count_list_update [OF g(1), of Active t] g(2) eq t led
        by (auto simp: ledger_base_def counters_match_def split: if_splits)
    qed
    then have "ledger_base (transitioned c g nxt (dc_counters c) ?a)"
      using led a sched [of "dc_counters c" ?a] eq by (simp add: ledger_base_def)
    then show ?thesis using run a True by (intro exI conjI) simp_all
  next
    case False
    then have tnl: "is_terminal nxt" by (rule ok(4))
    obtain k' where k': "counters_increment (dc_counters c) nxt = Inr k'" "counters_match k' (?sts[unat g := nxt])"
      using counters_increment_match [of "dc_counters c" ?sts "unat g" nxt] led g ok(2) tnl len
      by (auto simp: ledger_base_def)
    have "nxt \<noteq> Active" using tnl by auto
    then have run: "transition_generation g from nxt c = (Inr (), transitioned c g nxt k' (dc_activated_generation_count c))"
      using status can False tnl k'
      by (simp add: transition_generation_def sbind_apply increment_counter_def transitioned_def activates_def)
    have "ledger_base (transitioned c g nxt k' (dc_activated_generation_count c))"
      using led k'(2) sched [of k' "dc_activated_generation_count c"] by (simp add: ledger_base_def)
    then show ?thesis using run False by (intro exI conjI) simp_all
  qed
qed

lemma transition_fails:
  assumes "\<not> (has_status c g from \<and> can_transition_to from nxt)"
  shows "\<exists>e. transition_generation g from nxt c = (Inl (Err e), c)"
proof (cases "status_of c g")
  case (Inl e)
  then obtain e' where "status_of c g = Inl (Err e')" using status_of_eq(2) [of c g e] by auto
  then show ?thesis by (simp add: transition_generation_def sbind_apply)
next
  case (Inr st)
  then have "has_status c g st" by (simp add: status_of_eq)
  then have "st \<noteq> from \<or> \<not> can_transition_to from nxt" using assms by (cases "st = from") auto
  then show ?thesis using Inr by (auto simp: transition_generation_def sbind_apply)
qed

text \<open>What a caller needs: the error leaves the state alone, the success is one ledger step.\<close>

lemma wp_transition:
  assumes led: "ledger_base c" and err: "E c"
    and ok: "\<And>k a. has_status c g from \<Longrightarrow> can_transition_to from nxt \<Longrightarrow>
      ledger_base (transitioned c g nxt k a) \<Longrightarrow>
      unat a = unat (dc_activated_generation_count c) + (if activates from nxt then 1 else 0) \<Longrightarrow>
      Q () (transitioned c g nxt k a)"
  shows "wp (transition_generation g from nxt) Q E c"
proof (cases "has_status c g from \<and> can_transition_to from nxt")
  case True
  then obtain k a where "transition_generation g from nxt c = (Inr (), transitioned c g nxt k a)"
    "ledger_base (transitioned c g nxt k a)"
    "unat a = unat (dc_activated_generation_count c) + (if activates from nxt then 1 else 0)"
    using transition_ledger [OF led] by blast
  then show ?thesis using ok True by (simp add: wp_def)
next
  case False
  then obtain e where "transition_generation g from nxt c = (Inl (Err e), c)" using transition_fails by blast
  then show ?thesis using err by (simp add: wp_def)
qed

end
