(* ===== verification/Sky_Ownership.thy ===== *)
theory Sky_Ownership
  imports Sky_Ledger
begin

text \<open>
  The invariant of the coordinator: the compiler's locations of authored releases, the table of owned
  slots with its masks, the deferred releases, and the tokens of suspended generations, each tied to
  the generation ledger. The second half shows that the elementary moves from which every operation is
  built (activate, release, drop, defer, reconcile) keep it.
\<close>

section \<open>The invariant\<close>

abbreviation act :: "coordinator \<Rightarrow> nat \<Rightarrow> active_generation option" where
  "act c s \<equiv> dc_active_by_slot c ! s"

abbreviation pend :: "coordinator \<Rightarrow> nat \<Rightarrow> pending_release option" where
  "pend c s \<equiv> dc_pending_release_by_slot c ! s"

abbreviation tok :: "coordinator \<Rightarrow> nat \<Rightarrow> authored_up_identity option" where
  "tok c s \<equiv> dc_cancelled_up_by_slot c ! s"

abbreviation intents_of :: "coordinator \<Rightarrow> compact_intent list" where
  "intents_of c \<equiv> rs_intents (dc_schedule c)"

abbreviation packets_of :: "coordinator \<Rightarrow> compiled_packet list" where
  "packets_of c \<equiv> rs_packets (dc_schedule c)"

text \<open>Where the compiler put the Up of a generation: packet, arena index and slot.\<close>

definition located :: "coordinator \<Rightarrow> generation_id \<Rightarrow> usize \<Rightarrow> usize \<Rightarrow> nat \<Rightarrow> bool" where
  "located c g p i s \<longleftrightarrow>
     location_of c g = Some (Some (p, i)) \<and> p < length (packets_of c) \<and> i < length (intents_of c) \<and>
     unat (cp_up_intent_start (packets_of c ! p)) \<le> i \<and>
     i < unat (cp_up_intent_start (packets_of c ! p)) + unat (cp_up_intent_len (packets_of c ! p)) \<and>
     unat (compact_key_slot (intents_of c ! i)) = s \<and> s < MAX_KEYS \<and> p < 2 ^ 32 \<and> i < 2 ^ 32"

definition static_inv :: "coordinator \<Rightarrow> bool" where
  "static_inv c \<longleftrightarrow>
     dc_generation_count c = rs_generation_count (dc_schedule c) \<and> total_of c < 2 ^ 60 \<and>
     (\<forall>g. unat g < total_of c \<longrightarrow> (\<exists>p i s. located c g p i s)) \<and>
     (\<forall>g g' p i i' s. located c g p i s \<and> located c g' p i' s \<longrightarrow> g = g')"

definition live :: "coordinator \<Rightarrow> generation_id \<Rightarrow> bool" where
  "live c g \<longleftrightarrow> has_status c g Scheduled \<or> has_status c g Active"

definition live_inv :: "coordinator \<Rightarrow> bool" where
  "live_inv c \<longleftrightarrow>
     (\<forall>g p i s. live c g \<and> located c g p i s \<longrightarrow>
        compact_generation_id (intents_of c ! i) = g \<and> bit (cp_up_mask (packets_of c ! p)) s)"

definition owner_inv :: "coordinator \<Rightarrow> bool" where
  "owner_inv c \<longleftrightarrow>
     length (dc_active_by_slot c) = MAX_KEYS \<and>
     (\<forall>s < MAX_KEYS. \<forall>a. act c s = Some a \<longrightarrow>
        ag_key_slot a = word_of_nat s \<and> has_status c (ag_generation_id a) Active \<and>
        (\<exists>p i. located c (ag_generation_id a) p i s)) \<and>
     (\<forall>g. has_status c g Active \<longrightarrow> (\<exists>s < MAX_KEYS. \<exists>a. act c s = Some a \<and> ag_generation_id a = g)) \<and>
     (\<forall>n. bit (dc_active_mask c) n \<longleftrightarrow> n < MAX_KEYS \<and> act c n \<noteq> None) \<and>
     dc_blocked_mask c = dc_active_mask c"

definition pending_inv :: "coordinator \<Rightarrow> bool" where
  "pending_inv c \<longleftrightarrow>
     length (dc_pending_release_by_slot c) = MAX_KEYS \<and>
     (\<forall>s < MAX_KEYS. \<forall>p. pend c s = Some p \<longrightarrow>
        pr_key_slot p = word_of_nat s \<and>
        (\<exists>a. act c s = Some a \<and> ag_generation_id a = pr_generation_id p)) \<and>
     (\<forall>n. bit (dc_pending_release_mask c) n \<longleftrightarrow> n < MAX_KEYS \<and> pend c n \<noteq> None)"

text \<open>A token names a suspended generation whose Up is still part of its packet.\<close>

definition token_core :: "coordinator \<Rightarrow> nat \<Rightarrow> authored_up_identity \<Rightarrow> bool" where
  "token_core c s t \<longleftrightarrow>
     has_status c (identity_generation_id t) Cancelled \<and>
     identity_key_slot t = word_of_nat s \<and>
     located c (identity_generation_id t) (identity_packet_index t) (identity_intent_index t) s \<and>
     compact_generation_id (intents_of c ! identity_intent_index t) = NO_GENERATION_ID \<and>
     bit (cp_up_mask (packets_of c ! identity_packet_index t)) s"

definition token_ok :: "coordinator \<Rightarrow> nat \<Rightarrow> authored_up_identity \<Rightarrow> bool" where
  "token_ok c s t \<longleftrightarrow> act c s = None \<and> token_core c s t"

definition token_inv :: "coordinator \<Rightarrow> bool" where
  "token_inv c \<longleftrightarrow>
     length (dc_cancelled_up_by_slot c) = MAX_KEYS \<and>
     (\<forall>s < MAX_KEYS. \<forall>t. tok c s = Some t \<longrightarrow> token_ok c s t)"

definition coord_inv :: "coordinator \<Rightarrow> bool" where
  "coord_inv c \<longleftrightarrow> ledger_base c \<and> activation_inv c \<and> static_inv c \<and> live_inv c \<and>
     owner_inv c \<and> pending_inv c \<and> token_inv c"

lemmas token_defs = token_ok_def token_core_def

lemmas inv_defs = static_inv_def live_inv_def owner_inv_def pending_inv_def token_inv_def

lemma coord_invD:
  assumes "coord_inv c"
  shows "ledger_base c" and "activation_inv c" and "static_inv c" and "live_inv c"
    and "owner_inv c" and "pending_inv c" and "token_inv c"
  using assms by (simp_all add: coord_inv_def)

lemma word_of_nat_slot: "s < MAX_KEYS \<Longrightarrow> unat (word_of_nat s :: u8) = s"
  by (rule unat_word_of_nat_small) (simp add: MAX_KEYS_def)

lemma slot_word_eq: "s < MAX_KEYS \<Longrightarrow> (w :: u8) = word_of_nat s \<longleftrightarrow> unat w = s"
  by (simp add: word_unat_eq_iff word_of_nat_slot)

lemma located_unique: "located c g p i s \<Longrightarrow> located c g p' i' s' \<Longrightarrow> p' = p \<and> i' = i \<and> s' = s"
  by (auto simp: located_def)

lemma located_slot: "located c g p i s \<Longrightarrow> s < MAX_KEYS"
  by (simp add: located_def)

lemma location_of_total:
  assumes "static_inv c" and "unat g < total_of c"
  obtains p i s where "located c g p i s"
  using assms by (auto simp: static_inv_def)

lemma has_status_total: "ledger_base c \<Longrightarrow> has_status c g st \<Longrightarrow> unat g < total_of c"
  by (simp add: ledger_base_def has_status_def)

section \<open>Frames\<close>

text \<open>The layout of the schedule that no operation changes: all that \<open>located\<close> looks at, and the batches of a packet.\<close>

definition same_layout :: "coordinator \<Rightarrow> coordinator \<Rightarrow> bool" where
  "same_layout c c' \<longleftrightarrow>
     dc_up_intent_locations c' = dc_up_intent_locations c \<and> dc_generation_count c' = dc_generation_count c \<and>
     rs_generation_count (dc_schedule c') = rs_generation_count (dc_schedule c) \<and>
     length (packets_of c') = length (packets_of c) \<and> length (intents_of c') = length (intents_of c) \<and>
     (\<forall>p < length (packets_of c).
        cp_up_intent_start (packets_of c' ! p) = cp_up_intent_start (packets_of c ! p) \<and>
        cp_up_intent_len (packets_of c' ! p) = cp_up_intent_len (packets_of c ! p) \<and>
        cp_first_batch_index (packets_of c' ! p) = cp_first_batch_index (packets_of c ! p) \<and>
        cp_batch_count (packets_of c' ! p) = cp_batch_count (packets_of c ! p)) \<and>
     (\<forall>i < length (intents_of c). compact_key_slot (intents_of c' ! i) = compact_key_slot (intents_of c ! i))"

lemma same_layout_refl [simp]: "same_layout c c"
  by (simp add: same_layout_def)

lemma same_layout_trans: "same_layout c c' \<Longrightarrow> same_layout c' c'' \<Longrightarrow> same_layout c c''"
  by (simp add: same_layout_def)

lemma same_layout_schedule:
  "dc_up_intent_locations c' = dc_up_intent_locations c \<Longrightarrow> dc_generation_count c' = dc_generation_count c \<Longrightarrow>
   dc_schedule c' = dc_schedule c \<Longrightarrow> same_layout c c'"
  by (simp add: same_layout_def)

lemma located_layout:
  assumes "same_layout c c'"
  shows "located c' g p i s \<longleftrightarrow> located c g p i s"
  using assms by (auto simp: located_def location_of_def same_layout_def)

lemma static_inv_layout:
  assumes "same_layout c c'" shows "static_inv c' \<longleftrightarrow> static_inv c"
  unfolding static_inv_def located_layout [OF assms] using assms by (simp add: same_layout_def)

text \<open>The layout survives a transition and both ways to invalidate an Up.\<close>

lemma same_layout_transitioned [simp]: "same_layout c (transitioned c g nxt k a)"
  by (simp add: same_layout_def)

lemma nth_update_if: "xs[i := x] ! j = (if i = j \<and> j < length xs then x else xs ! j)"
  by (cases "i < length xs") (auto simp: nth_list_update list_update_beyond)

lemma same_layout_set_intent:
  "compact_key_slot x = compact_key_slot (intents_of c ! i) \<Longrightarrow> same_layout c (set_intent i x c)"
  by (auto simp: same_layout_def set_intent_def nth_update_if)

text \<open>Fields that no invariant clause reads.\<close>

lemma coord_inv_cursor [simp]: "coord_inv (c\<lparr>dc_cursor := n\<rparr>) \<longleftrightarrow> coord_inv c"
proof -
  have l: "same_layout c (c\<lparr>dc_cursor := n\<rparr>)" by (simp add: same_layout_def)
  show ?thesis
    by (simp add: coord_inv_def ledger_base_def activation_inv_def static_inv_layout [OF l] live_inv_def live_def
        owner_inv_def pending_inv_def token_inv_def token_defs has_status_def located_layout [OF l] ntok_def)
qed

section \<open>Elementary moves\<close>

subsection \<open>Activation\<close>

definition owned :: "nat \<Rightarrow> active_generation \<Rightarrow> coordinator \<Rightarrow> coordinator" where
  "owned s a c = c\<lparr>dc_active_by_slot := (dc_active_by_slot c)[s := Some a],
     dc_active_mask := dc_active_mask c OR mask_bit s, dc_blocked_mask := dc_blocked_mask c OR mask_bit s\<rparr>"

lemma own_slot_eq:
  "unat slot < length (dc_active_by_slot c) \<Longrightarrow> own_slot slot a c = (Inr (), owned (unat slot) a c)"
  by (simp add: own_slot_def set_active_def sbind_apply owned_def bit_for_slot_mask_bit)

definition disowned :: "nat \<Rightarrow> coordinator \<Rightarrow> coordinator" where
  "disowned s c = c\<lparr>dc_active_by_slot := (dc_active_by_slot c)[s := None],
     dc_active_mask := dc_active_mask c AND NOT (mask_bit s), dc_blocked_mask := dc_blocked_mask c AND NOT (mask_bit s)\<rparr>"

lemma disown_slot_eq:
  "unat slot < length (dc_active_by_slot c) \<Longrightarrow> disown_slot slot c = (Inr (), disowned (unat slot) c)"
  by (simp add: disown_slot_def set_active_def sbind_apply disowned_def bit_for_slot_mask_bit)

lemma activated_inv:
  assumes inv: "coord_inv c" and st: "has_status c g Scheduled" and loc: "located c g p i s"
    and free: "act c s = None" "tok c s = None" and a: "ag_generation_id a = g" "ag_key_slot a = word_of_nat s"
    and led: "ledger_base (transitioned c g Active k n)"
    and n: "unat n = unat (dc_activated_generation_count c) + 1"
  shows "coord_inv (owned s a (transitioned c g Active k n))" (is "coord_inv ?c")
proof -
  note D = coord_invD [OF inv]
  have s: "s < MAX_KEYS" "s < 16" using located_slot [OF loc] by (simp_all add: MAX_KEYS_def)
  have lay: "same_layout c ?c" by (simp add: same_layout_def owned_def)
  have status: "has_status ?c g' t \<longleftrightarrow> (if g' = g then t = Active else has_status c g' t)" for g' t
    using st has_status_transitioned [of c g Active k n g' t] by (auto simp: has_status_def owned_def)
  have sts: "dc_generation_states ?c = dc_generation_states (transitioned c g Active k n)" by (simp add: owned_def)
  have cnts: "cnt ?c Released = cnt c Released" "cnt ?c Active = cnt c Active + 1"
    using cnt_transitioned [OF st, of Active k n Released] cnt_transitioned [OF st, of Active k n Active]
    by (simp_all add: sts)
  have acts: "act ?c s' = (if s' = s then Some a else act c s')" if "s' < MAX_KEYS" for s'
    using that s D(5) by (simp add: owned_def owner_inv_def)
  have same: "dc_schedule ?c = dc_schedule c" "pend ?c s' = pend c s'" "tok ?c s' = tok c s'"
    "dc_pending_release_by_slot ?c = dc_pending_release_by_slot c" "dc_cancelled_up_by_slot ?c = dc_cancelled_up_by_slot c"
    "dc_pending_release_mask ?c = dc_pending_release_mask c" for s'
    by (simp_all add: owned_def)
  have 1: "ledger_base ?c" using led by (simp add: ledger_base_def owned_def)
  have 2: "activation_inv ?c" using D(2) n cnts by (simp add: activation_inv_def ntok_def owned_def)
  have 3: "static_inv ?c" using D(3) static_inv_layout [OF lay] by simp
  have 4: "live_inv ?c"
    unfolding live_inv_def live_def located_layout [OF lay] status same(1)
    using D(4) st by (auto simp: live_inv_def live_def split: if_splits)
  have 5: "owner_inv ?c"
    unfolding owner_inv_def
  proof (intro conjI allI impI)
    show "length (dc_active_by_slot ?c) = MAX_KEYS" using D(5) by (simp add: owner_inv_def owned_def)
    fix s' a' assume s': "s' < MAX_KEYS" and a': "act ?c s' = Some a'"
    show "ag_key_slot a' = word_of_nat s'" "has_status ?c (ag_generation_id a') Active"
        "\<exists>p i. located ?c (ag_generation_id a') p i s'"
      using s' a' a loc D(5) by (auto simp: acts status located_layout [OF lay] owner_inv_def split: if_splits)
  next
    fix g' assume g': "has_status ?c g' Active"
    show "\<exists>s' < MAX_KEYS. \<exists>a'. act ?c s' = Some a' \<and> ag_generation_id a' = g'"
    proof (cases "g' = g")
      case True
      then show ?thesis using s a acts [OF s(1)] by (intro exI [of _ s]) simp
    next
      case False
      then obtain s' a' where s': "s' < MAX_KEYS" "act c s' = Some a'" "ag_generation_id a' = g'"
        using g' D(5) by (auto simp: status owner_inv_def)
      then have "s' \<noteq> s" using free by auto
      then show ?thesis using s' acts [OF s'(1)] by (intro exI [of _ s']) simp
    qed
  next
    fix m show "bit (dc_active_mask ?c) m \<longleftrightarrow> m < MAX_KEYS \<and> act ?c m \<noteq> None"
      using D(5) s acts [of m] by (auto simp: owned_def owner_inv_def mask_simps)
  next
    show "dc_blocked_mask ?c = dc_active_mask ?c" using D(5) by (simp add: owned_def owner_inv_def)
  qed
  have 6: "pending_inv ?c"
    using D(6) free unfolding pending_inv_def same by (auto simp: acts split: if_splits)
  have 7: "token_inv ?c"
    unfolding token_inv_def same
  proof (intro conjI allI impI)
    show "length (dc_cancelled_up_by_slot c) = MAX_KEYS" using D(7) by (simp add: token_inv_def)
    fix s' t assume s': "s' < MAX_KEYS" and t: "tok c s' = Some t"
    then have ok: "token_ok c s' t" and "s' \<noteq> s" using D(7) free by (auto simp: token_inv_def)
    moreover have "identity_generation_id t \<noteq> g"
      using ok st by (auto simp: token_defs dest: has_status_unique)
    ultimately show "token_ok ?c s' t"
      using s' by (simp add: token_defs acts status located_layout [OF lay] same)
  qed
  show ?thesis using 1 2 3 4 5 6 7 by (simp add: coord_inv_def)
qed

lemma wp_activate:
  assumes inv: "coord_inv c" and loc: "located c g p i (unat slot)"
    and free: "act c (unat slot) = None" "tok c (unat slot) = None"
    and a: "ag_generation_id a = g" "ag_key_slot a = slot"
  shows "wp (sbind (transition_generation g Scheduled Active) (\<lambda>_. own_slot slot a)) (\<lambda>_. coord_inv) coord_inv c"
  unfolding wp_sbind
proof (rule wp_transition [OF coord_invD(1) [OF inv]])
  fix k n
  assume st: "has_status c g Scheduled" and led: "ledger_base (transitioned c g Active k n)"
    and n: "unat n = unat (dc_activated_generation_count c) + (if activates Scheduled Active then 1 else 0)"
  have s: "unat slot < MAX_KEYS" using located_slot [OF loc] .
  have "coord_inv (owned (unat slot) a (transitioned c g Active k n))"
    using activated_inv [OF inv st loc free a(1) _ led] n a(2) s by (simp add: activates_def slot_word_eq)
  moreover have "own_slot slot a (transitioned c g Active k n) = (Inr (), owned (unat slot) a (transitioned c g Active k n))"
    using s coord_invD(5) [OF inv] by (simp add: own_slot_eq owner_inv_def)
  ultimately show "wp (own_slot slot a) (\<lambda>_. coord_inv) coord_inv (transitioned c g Active k n)"
    by (simp add: wp_def)
qed (rule inv)


subsection \<open>Release\<close>

definition unpended :: "nat \<Rightarrow> coordinator \<Rightarrow> coordinator" where
  "unpended s c = c\<lparr>dc_pending_release_by_slot := (dc_pending_release_by_slot c)[s := None],
     dc_pending_release_mask := dc_pending_release_mask c AND NOT (mask_bit s)\<rparr>"

lemma bit_clear_slot: "s < MAX_KEYS \<Longrightarrow> bit (w AND NOT (mask_bit s)) m \<longleftrightarrow> bit w m \<and> m \<noteq> s"
  by (auto simp: bit_and_not_mask bit_mask_bit MAX_KEYS_def)

lemma bit_set_slot: "s < MAX_KEYS \<Longrightarrow> bit (w OR mask_bit s) m \<longleftrightarrow> bit w m \<or> m = s"
  by (auto simp: bit_or_mask bit_mask_bit MAX_KEYS_def)

lemma owner_mask: "owner_inv c \<Longrightarrow> bit (dc_active_mask c) n \<longleftrightarrow> n < MAX_KEYS \<and> act c n \<noteq> None"
  by (simp add: owner_inv_def)

lemma pending_mask: "pending_inv c \<Longrightarrow> bit (dc_pending_release_mask c) n \<longleftrightarrow> n < MAX_KEYS \<and> pend c n \<noteq> None"
  by (simp add: pending_inv_def)

lemma owner_entry:
  assumes "owner_inv c" and "s < MAX_KEYS" and "act c s = Some a"
  shows "ag_key_slot a = word_of_nat s" and "has_status c (ag_generation_id a) Active"
    and "\<exists>p i. located c (ag_generation_id a) p i s"
  using assms by (simp_all add: owner_inv_def)

lemma table_lengths [simp]:
  "owner_inv c \<Longrightarrow> length (dc_active_by_slot c) = MAX_KEYS"
  "pending_inv c \<Longrightarrow> length (dc_pending_release_by_slot c) = MAX_KEYS"
  "token_inv c \<Longrightarrow> length (dc_cancelled_up_by_slot c) = MAX_KEYS"
  by (simp_all add: owner_inv_def pending_inv_def token_inv_def)

lemma pending_entry:
  assumes "pending_inv c" and "s < MAX_KEYS" and "pend c s = Some q"
  shows "pr_key_slot q = word_of_nat s" and "\<exists>a. act c s = Some a \<and> ag_generation_id a = pr_generation_id q"
  using assms by (simp_all add: pending_inv_def)

lemma token_entry:
  assumes "token_inv c" and "s < MAX_KEYS" and "tok c s = Some t"
  shows "token_ok c s t"
  using assms by (simp add: token_inv_def)

lemma owner_exists:
  assumes "owner_inv c" and "has_status c g Active"
  obtains s a where "s < MAX_KEYS" and "act c s = Some a" and "ag_generation_id a = g"
  using assms by (auto simp: owner_inv_def)

lemma unpended_id:
  assumes "pend c s = None" and "\<not> bit (dc_pending_release_mask c) s"
  shows "unpended s c = c"
proof -
  have "dc_pending_release_mask c AND NOT (mask_bit s) = dc_pending_release_mask c"
    using assms(2) by (intro bit_word_eqI) (auto simp: bit_and_not_mask bit_mask_bit)
  moreover have "(dc_pending_release_by_slot c)[s := None] = dc_pending_release_by_slot c"
    using assms(1) by (metis list_update_id)
  ultimately show ?thesis by (simp add: unpended_def)
qed

lemma owner_slot_unique:
  assumes "owner_inv c" and "s < MAX_KEYS" "s' < MAX_KEYS" and "act c s = Some a" "act c s' = Some a'"
    and "ag_generation_id a = ag_generation_id a'"
  shows "s = s'"
proof -
  obtain p i p' i' where "located c (ag_generation_id a) p i s" "located c (ag_generation_id a') p' i' s'"
    using owner_entry(3) [OF assms(1,2,4)] owner_entry(3) [OF assms(1,3,5)] by blast
  then show ?thesis using assms(6) located_unique by metis
qed

lemma released_inv:
  assumes inv: "coord_inv c" and s: "s < MAX_KEYS" and a: "act c s = Some a" "ag_generation_id a = g"
    and led: "ledger_base (transitioned c g Released k n)" and n: "unat n = unat (dc_activated_generation_count c)"
  shows "coord_inv (unpended s (disowned s (transitioned c g Released k n)))" (is "coord_inv ?c")
proof -
  note D = coord_invD [OF inv]
  have st: "has_status c g Active" using D(5) s a by (auto simp: owner_inv_def)
  have lay: "same_layout c ?c" by (simp add: same_layout_def disowned_def unpended_def)
  have status: "has_status ?c g' t \<longleftrightarrow> (if g' = g then t = Released else has_status c g' t)" for g' t
    using st has_status_transitioned [of c g Released k n g' t] by (auto simp: has_status_def disowned_def unpended_def)
  have sts: "dc_generation_states ?c = dc_generation_states (transitioned c g Released k n)" by (simp add: disowned_def unpended_def)
  have cnts: "cnt ?c Released = cnt c Released + 1" "cnt ?c Active + 1 = cnt c Active"
    using cnt_transitioned [OF st, of Released k n Released] cnt_transitioned [OF st, of Released k n Active]
    by (simp_all add: sts)
  have acts: "act ?c s' = (if s' = s then None else act c s')" if "s' < MAX_KEYS" for s'
    using that s D(5) by (simp add: disowned_def unpended_def owner_inv_def)
  have pends: "pend ?c s' = (if s' = s then None else pend c s')" if "s' < MAX_KEYS" for s'
    using that s D(6) by (simp add: disowned_def unpended_def pending_inv_def)
  have same: "dc_schedule ?c = dc_schedule c" "dc_cancelled_up_by_slot ?c = dc_cancelled_up_by_slot c"
    by (simp_all add: disowned_def unpended_def)
  have 1: "ledger_base ?c" using led by (simp add: ledger_base_def disowned_def unpended_def)
  have 2: "activation_inv ?c" using D(2) n cnts by (simp add: activation_inv_def ntok_def disowned_def unpended_def)
  have 3: "static_inv ?c" using D(3) static_inv_layout [OF lay] by simp
  have 4: "live_inv ?c"
    unfolding live_inv_def live_def located_layout [OF lay] status same(1)
    using D(4) by (auto simp: live_inv_def live_def split: if_splits)
  have 5: "owner_inv ?c"
    unfolding owner_inv_def
  proof (intro conjI allI impI)
    show "length (dc_active_by_slot ?c) = MAX_KEYS" using D(5) by (simp add: owner_inv_def disowned_def unpended_def)
    fix s' a' assume s': "s' < MAX_KEYS" and a': "act ?c s' = Some a'"
    then have ne: "s' \<noteq> s" and old: "act c s' = Some a'" by (auto simp: acts split: if_splits)
    have "ag_generation_id a' \<noteq> g" using owner_slot_unique [OF D(5) s s' a(1) old] a(2) ne by auto
    then show "ag_key_slot a' = word_of_nat s'" "has_status ?c (ag_generation_id a') Active"
        "\<exists>p i. located ?c (ag_generation_id a') p i s'"
      using s' old D(5) by (auto simp: status located_layout [OF lay] owner_inv_def)
  next
    fix g' assume "has_status ?c g' Active"
    then have g': "has_status c g' Active" "g' \<noteq> g" by (auto simp: status split: if_splits)
    then obtain s' a' where s': "s' < MAX_KEYS" "act c s' = Some a'" "ag_generation_id a' = g'"
      using D(5) by (auto simp: owner_inv_def)
    then have "s' \<noteq> s" using a g' by auto
    then show "\<exists>s' < MAX_KEYS. \<exists>a'. act ?c s' = Some a' \<and> ag_generation_id a' = g'"
      using s' acts [OF s'(1)] by (intro exI [of _ s']) simp
  next
    fix m show "bit (dc_active_mask ?c) m \<longleftrightarrow> m < MAX_KEYS \<and> act ?c m \<noteq> None"
    proof -
      have "bit (dc_active_mask ?c) m \<longleftrightarrow> bit (dc_active_mask c) m \<and> m \<noteq> s"
        by (simp add: disowned_def unpended_def bit_clear_slot [OF s])
      then show ?thesis using acts [of m] by (auto simp: owner_mask [OF D(5)] split: if_splits)
    qed
  next
    show "dc_blocked_mask ?c = dc_active_mask ?c" using D(5) by (simp add: disowned_def unpended_def owner_inv_def)
  qed
  have 6: "pending_inv ?c"
    unfolding pending_inv_def
  proof (intro conjI allI impI)
    show "length (dc_pending_release_by_slot ?c) = MAX_KEYS" using D(6) by (simp add: pending_inv_def disowned_def unpended_def)
    fix s' q assume s': "s' < MAX_KEYS" and q: "pend ?c s' = Some q"
    then have "s' \<noteq> s" "pend c s' = Some q" by (auto simp: pends split: if_splits)
    then show "pr_key_slot q = word_of_nat s'" "\<exists>a. act ?c s' = Some a \<and> ag_generation_id a = pr_generation_id q"
      using D(6) s' acts [OF s'] by (auto simp: pending_inv_def)
  next
    fix m show "bit (dc_pending_release_mask ?c) m \<longleftrightarrow> m < MAX_KEYS \<and> pend ?c m \<noteq> None"
    proof -
      have "bit (dc_pending_release_mask ?c) m \<longleftrightarrow> bit (dc_pending_release_mask c) m \<and> m \<noteq> s"
        by (simp add: disowned_def unpended_def bit_clear_slot [OF s])
      then show ?thesis using pends [of m] by (auto simp: pending_mask [OF D(6)] split: if_splits)
    qed
  qed
  have 7: "token_inv ?c"
    unfolding token_inv_def same
  proof (intro conjI allI impI)
    show "length (dc_cancelled_up_by_slot c) = MAX_KEYS" using D(7) by (simp add: token_inv_def)
    fix s' t assume s': "s' < MAX_KEYS" and t: "tok c s' = Some t"
    then have ok: "token_ok c s' t" using D(7) by (auto simp: token_inv_def)
    moreover have "identity_generation_id t \<noteq> g" using ok st by (auto simp: token_defs dest: has_status_unique)
    ultimately show "token_ok ?c s' t"
      using s' by (simp add: token_defs acts status located_layout [OF lay] same)
  qed
  show ?thesis using 1 2 3 4 5 6 7 by (simp add: coord_inv_def)
qed

lemma active_at_slot:
  assumes "owner_inv c" and "active_for_slot c slot = Inr (Some a)"
  shows "unat slot < MAX_KEYS" and "act c (unat slot) = Some a"
  using assms by (auto simp: active_for_slot_def owner_inv_def result_simps)

lemma wp_release:
  assumes inv: "coord_inv c" and a: "active_for_slot c slot = Inr (Some a)" "ag_generation_id a = g"
    and pend: "pend c (unat slot) = None"
  shows "wp (sbind (transition_generation g Active Released) (\<lambda>_. disown_slot slot)) (\<lambda>_. coord_inv) coord_inv c"
  unfolding wp_sbind
proof (rule wp_transition [OF coord_invD(1) [OF inv]])
  note own = active_at_slot [OF coord_invD(5) [OF inv] a(1)]
  fix k n
  assume led: "ledger_base (transitioned c g Released k n)"
    and n: "unat n = unat (dc_activated_generation_count c) + (if activates Active Released then 1 else 0)"
  let ?t = "transitioned c g Released k n"
  have t: "coord_inv (unpended (unat slot) (disowned (unat slot) ?t))"
    using released_inv [OF inv own a(2) led] n by (simp add: activates_def)
  moreover have "unpended (unat slot) (disowned (unat slot) ?t) = disowned (unat slot) (unpended (unat slot) ?t)"
    by (simp add: unpended_def disowned_def)
  moreover have "unpended (unat slot) ?t = ?t"
    using pend pending_mask [OF coord_invD(6) [OF inv]] by (intro unpended_id) simp_all
  ultimately have "coord_inv (disowned (unat slot) ?t)" by simp
  then show "wp (disown_slot slot) (\<lambda>_. coord_inv) coord_inv ?t"
    using own coord_invD(5) [OF inv] by (simp add: wp_def disown_slot_eq owner_inv_def)
qed (rule inv)


subsection \<open>Dropping a scheduled generation\<close>

definition invalidated :: "usize \<Rightarrow> usize \<Rightarrow> nat \<Rightarrow> coordinator \<Rightarrow> coordinator" where
  "invalidated p i s c = c\<lparr>dc_schedule := (dc_schedule c)
     \<lparr>rs_intents := (intents_of c)[i := compact_new NO_GENERATION_ID (word_of_nat s)],
      rs_packets := (packets_of c)[p := (packets_of c ! p)
        \<lparr>cp_up_mask := cp_up_mask (packets_of c ! p) AND NOT (mask_bit s)\<rparr>]\<rparr>\<rparr>"

lemma invalidated_fields [simp]:
  "dc_cursor (invalidated p i s c) = dc_cursor c"
  "dc_active_by_slot (invalidated p i s c) = dc_active_by_slot c"
  "dc_active_mask (invalidated p i s c) = dc_active_mask c"
  "dc_blocked_mask (invalidated p i s c) = dc_blocked_mask c"
  "dc_counters (invalidated p i s c) = dc_counters c"
  "dc_activated_generation_count (invalidated p i s c) = dc_activated_generation_count c"
  "dc_generation_states (invalidated p i s c) = dc_generation_states c"
  "dc_generation_count (invalidated p i s c) = dc_generation_count c"
  "dc_up_intent_locations (invalidated p i s c) = dc_up_intent_locations c"
  "dc_cancelled_up_by_slot (invalidated p i s c) = dc_cancelled_up_by_slot c"
  "dc_pending_release_by_slot (invalidated p i s c) = dc_pending_release_by_slot c"
  "dc_pending_release_mask (invalidated p i s c) = dc_pending_release_mask c"
  "dc_min_hold_ticks (invalidated p i s c) = dc_min_hold_ticks c"
  "dc_batch_scheduled_ticks (invalidated p i s c) = dc_batch_scheduled_ticks c"
  "rs_batches (dc_schedule (invalidated p i s c)) = rs_batches (dc_schedule c)"
  "rs_generation_count (dc_schedule (invalidated p i s c)) = rs_generation_count (dc_schedule c)"
  "rs_key_registry (dc_schedule (invalidated p i s c)) = rs_key_registry (dc_schedule c)"
  by (simp_all add: invalidated_def)

lemma compact_NO_new [simp]:
  "s < MAX_KEYS \<Longrightarrow> compact_generation_id (compact_new NO_GENERATION_ID (word_of_nat s)) = NO_GENERATION_ID"
  "s < MAX_KEYS \<Longrightarrow> compact_key_slot (compact_new NO_GENERATION_ID (word_of_nat s)) = word_of_nat s"
  by (auto simp: word_of_nat_slot MAX_KEYS_def)

lemma invalidated_intent:
  "located c g p i s \<Longrightarrow> j \<noteq> i \<Longrightarrow> intents_of (invalidated p i s c) ! j = intents_of c ! j"
  "located c g p i s \<Longrightarrow> compact_generation_id (intents_of (invalidated p i s c) ! i) = NO_GENERATION_ID"
  by (simp_all add: invalidated_def located_def)

lemma invalidated_packet_mask:
  "located c g p i s \<Longrightarrow> bit (cp_up_mask (packets_of (invalidated p i s c) ! q)) m \<longleftrightarrow>
     bit (cp_up_mask (packets_of c ! q)) m \<and> \<not> (q = p \<and> m = s)"
  by (cases "q = p") (auto simp: invalidated_def located_def nth_update_if bit_clear_slot)

lemma same_layout_invalidated:
  assumes "located c g p i s" shows "same_layout c (invalidated p i s c)"
proof -
  have "compact_key_slot (intents_of c ! i) = word_of_nat s" "s < MAX_KEYS"
    using assms by (auto simp: located_def slot_word_eq)
  then show ?thesis by (auto simp: same_layout_def invalidated_def nth_update_if)
qed

lemma invalidate_up_eq:
  assumes loc: "located c g p i s" and gen: "compact_generation_id (intents_of c ! i) = g" "g \<noteq> NO_GENERATION_ID"
  shows "invalidate_up_for_generation g c = (Inr (), invalidated p i s c)"
proof -
  have "compact_key_slot (intents_of c ! i) = word_of_nat s" "s < MAX_KEYS"
    using loc by (auto simp: located_def slot_word_eq)
  then show ?thesis
    using loc gen
    by (simp add: invalidate_up_for_generation_def located_def set_intent_def invalidated_def Let_def
        bit_for_slot_mask_bit word_of_nat_slot)
qed

lemma total_gen: "static_inv c \<Longrightarrow> unat g < total_of c \<Longrightarrow> g \<noteq> NO_GENERATION_ID"
  using NO_GENERATION_ID_val by (auto simp: static_inv_def)

text \<open>Two generations never share an arena index while one of them is live.\<close>

lemma located_index_unique:
  assumes "live_inv c" and "live c g" "live c g'" and "located c g p i s" "located c g' p' i s'"
  shows "g = g'"
  using assms unfolding live_inv_def by blast

lemma live_invalidated:
  assumes stat: "static_inv c" and inv: "live_inv c" and lg: "live c g" and loc: "located c g p i s"
    and nxt: "is_terminal nxt"
  shows "same_layout c (invalidated p i s (transitioned c g nxt k n))"
    and "live_inv (invalidated p i s (transitioned c g nxt k n))"
proof -
  let ?t = "transitioned c g nxt k n"
  let ?c = "invalidated p i s ?t"
  have nz: "nxt \<noteq> Scheduled" "nxt \<noteq> Active" using nxt by auto
  have loct: "located ?t g' p' i' s' \<longleftrightarrow> located c g' p' i' s'" for g' p' i' s'
    by (rule located_layout) simp
  have locc: "located ?t g p i s" using loc loct by simp
  show lay: "same_layout c ?c"
    using same_layout_trans [OF same_layout_transitioned same_layout_invalidated [OF locc]] .
  have "has_status ?c g' x \<longleftrightarrow> has_status ?t g' x" for g' x by (simp add: has_status_def)
  then have live: "live ?c g' \<Longrightarrow> live c g' \<and> g' \<noteq> g" for g'
    using nz by (auto simp: live_def has_status_transitioned split: if_splits)
  show "live_inv ?c"
    unfolding live_inv_def located_layout [OF lay]
  proof (intro allI impI)
    fix g' p' i' s' assume "live ?c g' \<and> located c g' p' i' s'"
    then have h: "live c g'" "g' \<noteq> g" "located c g' p' i' s'" using live by auto
    have i': "i' \<noteq> i" using located_index_unique [OF inv h(1) lg h(3), of p s] loc h(2) by auto
    have ps: "\<not> (p' = p \<and> s' = s)" using h loc stat unfolding static_inv_def by blast
    show "compact_generation_id (intents_of ?c ! i') = g' \<and> bit (cp_up_mask (packets_of ?c ! p')) s'"
      using h inv invalidated_intent(1) [OF locc i'] invalidated_packet_mask [OF locc, of p' s'] ps
      by (auto simp: live_inv_def)
  qed
qed

lemma dropped_inv:
  assumes inv: "coord_inv c" and st: "has_status c g Scheduled" and loc: "located c g p i s"
    and nxt: "is_terminal nxt" "nxt \<noteq> Released"
    and led: "ledger_base (transitioned c g nxt k n)" and n: "unat n = unat (dc_activated_generation_count c)"
  shows "coord_inv (invalidated p i s (transitioned c g nxt k n))" (is "coord_inv (invalidated p i s ?t)")
proof -
  note D = coord_invD [OF inv]
  let ?c = "invalidated p i s ?t"
  have nz: "nxt \<noteq> Scheduled" "nxt \<noteq> Active" using nxt by auto
  have loct: "located ?t g' p' i' s' \<longleftrightarrow> located c g' p' i' s'" for g' p' i' s'
    by (rule located_layout) simp
  have locc: "located ?t g p i s" using loc loct by simp
  have lg: "live c g" using st by (simp add: live_def)
  note LI = live_invalidated [OF D(3,4) lg loc nxt(1), of k n]
  note lay = LI(1)
  have status: "has_status ?c g' t \<longleftrightarrow> (if g' = g then t = nxt else has_status c g' t)" for g' t
    using st has_status_transitioned [of c g nxt k n g' t] by (auto simp: has_status_def)
  have cnts: "cnt ?c Released = cnt c Released" "cnt ?c Active = cnt c Active"
    using cnt_transitioned [OF st, of nxt k n Released] cnt_transitioned [OF st, of nxt k n Active] nxt nz by simp_all
  have gen: "compact_generation_id (intents_of c ! i) = g" using D(4) lg loc by (auto simp: live_inv_def)
  have 1: "ledger_base ?c" using led by (simp add: ledger_base_def)
  have 2: "activation_inv ?c" using D(2) n cnts by (simp add: activation_inv_def ntok_def)
  have 3: "static_inv ?c" using D(3) static_inv_layout [OF lay] by simp
  note 4 = LI(2)
  have 5: "owner_inv ?c"
    using D(5) st nz unfolding owner_inv_def located_layout [OF lay] status
    by (auto dest: has_status_unique)
  have 6: "pending_inv ?c" using D(6) by (simp add: pending_inv_def)
  have 7: "token_inv ?c"
    unfolding token_inv_def
  proof (intro conjI allI impI)
    show "length (dc_cancelled_up_by_slot ?c) = MAX_KEYS" using D(7) by (simp add: token_inv_def)
    fix s' t assume s': "s' < MAX_KEYS" and t: "tok ?c s' = Some t"
    then have ok: "token_ok c s' t" using D(7) by (auto simp: token_inv_def)
    have ng: "identity_generation_id t \<noteq> g" using ok st by (auto simp: token_defs dest: has_status_unique)
    have NO: "g \<noteq> NO_GENERATION_ID" using total_gen [OF D(3) has_status_total [OF D(1) st]] .
    then have i': "identity_intent_index t \<noteq> i" using ok gen by (auto simp: token_defs)
    have ps: "\<not> (identity_packet_index t = p \<and> s' = s)"
    proof
      assume "identity_packet_index t = p \<and> s' = s"
      then have "located c (identity_generation_id t) p (identity_intent_index t) s" using ok by (auto simp: token_defs)
      then show False using loc D(3) ng unfolding static_inv_def by blast
    qed
    show "token_ok ?c s' t"
      using ok ng ps invalidated_intent(1) [OF locc i'] invalidated_packet_mask [OF locc, of "identity_packet_index t" s']
      by (auto simp: token_defs located_layout [OF lay] status)
  qed
  show ?thesis using 1 2 3 4 5 6 7 by (simp add: coord_inv_def)
qed

lemma wp_drop:
  assumes inv: "coord_inv c" and nxt: "is_terminal nxt" "nxt \<noteq> Released"
  shows "wp (sbind (transition_generation g Scheduled nxt) (\<lambda>_. invalidate_up_for_generation g)) (\<lambda>_. coord_inv) coord_inv c"
  unfolding wp_sbind
proof (rule wp_transition [OF coord_invD(1) [OF inv]])
  note D = coord_invD [OF inv]
  fix k n
  assume st: "has_status c g Scheduled" and led: "ledger_base (transitioned c g nxt k n)"
    and n: "unat n = unat (dc_activated_generation_count c) + (if activates Scheduled nxt then 1 else 0)"
  let ?t = "transitioned c g nxt k n"
  have g: "unat g < total_of c" using has_status_total [OF D(1) st] .
  obtain p i s where loc: "located c g p i s" using location_of_total [OF D(3) g] .
  have "located ?t g p i s" using loc located_layout [OF same_layout_transitioned] by simp
  moreover have "compact_generation_id (intents_of ?t ! i) = g" using D(4) st loc by (auto simp: live_inv_def live_def)
  ultimately have run: "invalidate_up_for_generation g ?t = (Inr (), invalidated p i s ?t)"
    using invalidate_up_eq total_gen [OF D(3) g] by blast
  moreover have "\<not> activates Scheduled nxt" using nxt by (auto simp: activates_def)
  then have "coord_inv (invalidated p i s ?t)" using dropped_inv [OF inv st loc nxt led] n by simp
  ultimately show "wp (invalidate_up_for_generation g) (\<lambda>_. coord_inv) coord_inv ?t" by (simp add: wp_def)
qed (rule inv)


subsection \<open>Deferring a release\<close>

lemma wp_register_pending:
  assumes inv: "coord_inv c" and a: "active_for_slot c (pr_key_slot q) = Inr (Some a)"
    "ag_generation_id a = pr_generation_id q"
  shows "wp (register_pending q) (\<lambda>_. coord_inv) coord_inv c"
proof -
  note D = coord_invD [OF inv]
  note own = active_at_slot [OF D(5) a(1)]
  let ?s = "unat (pr_key_slot q)"
  let ?c = "c\<lparr>dc_pending_release_by_slot := (dc_pending_release_by_slot c)[?s := Some q],
              dc_pending_release_mask := dc_pending_release_mask c OR mask_bit ?s\<rparr>"
  have run: "register_pending q c = (Inr (), ?c)"
    using own(1) D(6) by (simp add: register_pending_def set_pending_def sbind_apply bit_for_slot_mask_bit)
  have lay: "same_layout c ?c" by (simp add: same_layout_def)
  have pends: "pend ?c s = (if s = ?s then Some q else pend c s)" if "s < MAX_KEYS" for s
    using that own(1) D(6) by (simp add: nth_update_if)
  have "pending_inv ?c"
    unfolding pending_inv_def
  proof (intro conjI allI impI)
    show "length (dc_pending_release_by_slot ?c) = MAX_KEYS" using D(6) by simp
    fix s r assume s: "s < MAX_KEYS" and r: "pend ?c s = Some r"
    show "pr_key_slot r = word_of_nat s" "\<exists>a. act ?c s = Some a \<and> ag_generation_id a = pr_generation_id r"
      using pending_entry [OF D(6) s] s r own a(2) pends [OF s] by (auto simp: slot_word_eq split: if_splits)
  next
    fix n
    have "bit (dc_pending_release_mask ?c) n \<longleftrightarrow> bit (dc_pending_release_mask c) n \<or> n = ?s"
      using bit_set_slot [OF own(1)] by simp
    then show "bit (dc_pending_release_mask ?c) n \<longleftrightarrow> n < MAX_KEYS \<and> pend ?c n \<noteq> None"
      using pends [of n] own(1) by (auto simp: pending_mask [OF D(6)] split: if_splits)
  qed
  then have "coord_inv ?c"
    using D static_inv_layout [OF lay]
    by (simp add: coord_inv_def ledger_base_def activation_inv_def live_inv_def live_def owner_inv_def token_inv_def
        token_defs has_status_def located_layout [OF lay] ntok_def)
  then show ?thesis using run by (simp add: wp_def)
qed

lemma wp_release_pending_slot:
  assumes inv: "coord_inv c"
  shows "wp (release_pending_slot started n) (\<lambda>_. coord_inv) coord_inv c"
proof -
  note D = coord_invD [OF inv]
  let ?w = "word_of_nat n :: u8"
  have tables: "length (dc_active_by_slot c) = MAX_KEYS" "length (dc_pending_release_by_slot c) = MAX_KEYS"
    using D(5,6) by simp_all
  show ?thesis
  proof (cases "pending_release_for_slot c ?w")
    case None
    then show ?thesis using inv by (simp add: release_pending_slot_def Let_def wp_simps)
  next
    case (Some q)
    then have s: "unat ?w < MAX_KEYS" and q: "pend c (unat ?w) = Some q"
      using tables by (auto simp: pending_release_for_slot_def nth_opt_def split: if_splits)
    then obtain a where a: "act c (unat ?w) = Some a" "ag_generation_id a = pr_generation_id q"
      using pending_entry(2) [OF D(6) s q] by blast
    have af: "active_for_slot c ?w = Inr (Some a)" using a s tables by (simp add: active_for_slot_def)
    show ?thesis
    proof (cases "started < pr_due_ticks q")
      case True
      then show ?thesis using inv Some af a by (simp add: release_pending_slot_def Let_def wp_simps)
    next
      case False
      have "wp (transition_generation (pr_generation_id q) Active Released)
          (\<lambda>_. wp (sbind (disown_slot ?w) (\<lambda>_. sbind (set_pending ?w None) (\<lambda>_. supdate (\<lambda>self. self\<lparr>dc_pending_release_mask :=
             dc_pending_release_mask self AND NOT (bit_for_slot ?w)\<rparr>)))) (\<lambda>_. coord_inv) coord_inv) coord_inv c"
      proof (rule wp_transition [OF D(1)])
        fix k m
        assume led: "ledger_base (transitioned c (pr_generation_id q) Released k m)"
          and m: "unat m = unat (dc_activated_generation_count c) + (if activates Active Released then 1 else 0)"
        have "coord_inv (unpended (unat ?w) (disowned (unat ?w) (transitioned c (pr_generation_id q) Released k m)))"
          using released_inv [OF inv s a led] m by (simp add: activates_def)
        then show "wp (sbind (disown_slot ?w) (\<lambda>_. sbind (set_pending ?w None) (\<lambda>_. supdate (\<lambda>self. self\<lparr>dc_pending_release_mask :=
             dc_pending_release_mask self AND NOT (bit_for_slot ?w)\<rparr>)))) (\<lambda>_. coord_inv) coord_inv
             (transitioned c (pr_generation_id q) Released k m)"
          using s tables
          by (simp add: wp_def sbind_apply disown_slot_eq set_pending_def disowned_def unpended_def bit_for_slot_mask_bit)
      qed (rule inv)
      then show ?thesis using Some af a False by (simp add: release_pending_slot_def Let_def wp_simps)
    qed
  qed
qed

subsection \<open>Reconciling a suspended generation\<close>

lemma counters_reconcile:
  assumes m: "counters_match k sts" and i: "i < length sts" "sts ! i = Cancelled" and len: "length sts < 2 ^ 64"
  shows "gc_cancelled k \<noteq> 0" and "checked_add (gc_released k) 1 = Some (gc_released k + 1)"
    and "counters_match (k\<lparr>gc_cancelled := gc_cancelled k - 1, gc_released := gc_released k + 1\<rparr>) (sts[i := Released])"
proof -
  note U = count_list_update [OF i(1), of Released]
  have c: "0 < count_list sts Cancelled" using i by (metis count_list_0_iff gr0I nth_mem)
  then show nz: "gc_cancelled k \<noteq> 0" using counters_matchD(5) [OF m] by auto
  have "count_list sts Released + 1 \<le> length sts"
    using U [of Released] i count_list_le_length [of "sts[i := Released]" Released] by simp
  then have r: "unat (gc_released k) + 1 < 2 ^ 64" using counters_matchD(1) [OF m] len by linarith
  then show "checked_add (gc_released k) 1 = Some (gc_released k + 1)" by (simp add: checked_add_def)
  have ur: "unat (gc_released k + 1) = unat (gc_released k) + 1" using r by (simp add: unat_add_no_wrap)
  have uc: "unat (gc_cancelled k - 1) = unat (gc_cancelled k) - 1"
    using nz by (simp add: unat_minus_one)
  show "counters_match (k\<lparr>gc_cancelled := gc_cancelled k - 1, gc_released := gc_released k + 1\<rparr>) (sts[i := Released])"
    unfolding counters_match_def
  proof (intro allI impI)
    fix st assume "is_terminal st"
    then show "unat (counter_of (k\<lparr>gc_cancelled := gc_cancelled k - 1, gc_released := gc_released k + 1\<rparr>) st)
        = count_list (sts[i := Released]) st"
      using counters_matchD [OF m] U [of st] i ur uc c by (cases st) auto
  qed
qed

lemma validate_token:
  assumes "token_ok c s t"
  shows "validate_invalidated_up_identity c t = Inr ()"
proof -
  have loc: "located c (identity_generation_id t) (identity_packet_index t) (identity_intent_index t) s"
    and rest: "compact_generation_id (intents_of c ! identity_intent_index t) = NO_GENERATION_ID"
      "bit (cp_up_mask (packets_of c ! identity_packet_index t)) s" "identity_key_slot t = word_of_nat s"
    using assms by (simp_all add: token_defs)
  have s: "s < MAX_KEYS" using located_slot [OF loc] .
  let ?p = "packets_of c ! identity_packet_index t"
  have "up_range_end ?p = Some (unat (cp_up_intent_start ?p) + unat (cp_up_intent_len ?p))"
  proof -
    have "unat (cp_up_intent_start ?p) < 2 ^ 32" "unat (cp_up_intent_len ?p) < 2 ^ 8"
      using unsigned_less [of "cp_up_intent_start ?p"] unsigned_less [of "cp_up_intent_len ?p"] by simp_all
    then show ?thesis by (simp add: up_range_end_def checked_add_usize_def usize_limit_def)
  qed
  moreover have "compact_key_slot (intents_of c ! identity_intent_index t) = identity_key_slot t"
    using loc rest s by (simp add: located_def word_unat_eq_iff word_of_nat_slot)
  ultimately show ?thesis
    using loc rest s
    by (simp add: validate_invalidated_up_identity_def located_def bit_for_slot_mask_bit and_mask_bit_eq_0
        word_of_nat_slot MAX_KEYS_def Let_def)
qed


lemma reconciled_inv:
  assumes inv: "coord_inv c" and s: "s < MAX_KEYS" and t: "tok c s = Some t"
  defines "g \<equiv> identity_generation_id t"
  defines "k \<equiv> (dc_counters c)\<lparr>gc_cancelled := gc_cancelled (dc_counters c) - 1,
                                gc_released := gc_released (dc_counters c) + 1\<rparr>"
  shows "coord_inv ((transitioned c g Released k (dc_activated_generation_count c))
           \<lparr>dc_cancelled_up_by_slot := (dc_cancelled_up_by_slot c)[s := None]\<rparr>)" (is "coord_inv ?c")
proof -
  note D = coord_invD [OF inv]
  let ?t = "transitioned c g Released k (dc_activated_generation_count c)"
  have ok: "token_ok c s t" using token_entry [OF D(7) s t] .
  have st: "has_status c g Cancelled" using ok by (simp add: token_defs g_def)
  have len: "length (dc_generation_states c) = total_of c" using D(1) by (simp add: ledger_base_def)
  have lay: "same_layout c ?c" by (simp add: same_layout_def)
  have status: "has_status ?c g' x \<longleftrightarrow> (if g' = g then x = Released else has_status c g' x)" for g' x
    using st has_status_transitioned [of c g Released k "dc_activated_generation_count c" g' x] by (auto simp: has_status_def)
  have sts: "dc_generation_states ?c = dc_generation_states ?t" by simp
  have cnts: "cnt ?c Released = cnt c Released + 1" "cnt ?c Active = cnt c Active" "cnt ?c Scheduled = cnt c Scheduled"
    using cnt_transitioned [OF st, of Released k "dc_activated_generation_count c" Released]
      cnt_transitioned [OF st, of Released k "dc_activated_generation_count c" Active]
      cnt_transitioned [OF st, of Released k "dc_activated_generation_count c" Scheduled] by (simp_all only: sts) simp_all
  have ntok: "ntok ?c + 1 = ntok c"
    using length_filter_update [of s "dc_cancelled_up_by_slot c" "\<lambda>t. t \<noteq> None" None] s t D(7) by (simp add: ntok_def)
  have toks: "tok ?c s' = (if s' = s then None else tok c s')" if "s' < MAX_KEYS" for s'
    using that s D(7) by (simp add: nth_update_if)
  have "counters_match k ((dc_generation_states c)[unat g := Released])"
    unfolding k_def using D(1) st len total_less [of c]
    by (intro counters_reconcile(3)) (simp_all add: ledger_base_def has_status_def)
  then have 1: "ledger_base ?c" using D(1) cnts(3) by (simp add: ledger_base_def)
  have 2: "activation_inv ?c" using D(2) cnts ntok by (simp add: activation_inv_def)
  have 3: "static_inv ?c" using D(3) static_inv_layout [OF lay] by simp
  have 4: "live_inv ?c"
    using D(4) unfolding live_inv_def live_def located_layout [OF lay] status by (auto split: if_splits)
  have 5: "owner_inv ?c"
    using D(5) st unfolding owner_inv_def located_layout [OF lay] status by (auto dest: has_status_unique)
  have 6: "pending_inv ?c" using D(6) by (simp add: pending_inv_def)
  have 7: "token_inv ?c"
    unfolding token_inv_def
  proof (intro conjI allI impI)
    show "length (dc_cancelled_up_by_slot ?c) = MAX_KEYS" using D(7) by simp
    fix s' t' assume s': "s' < MAX_KEYS" and "tok ?c s' = Some t'"
    then have t': "tok c s' = Some t'" "s' \<noteq> s" using toks [OF s'] by (auto split: if_splits)
    have ok': "token_ok c s' t'" using token_entry [OF D(7) s' t'(1)] .
    have "identity_generation_id t' \<noteq> g"
    proof
      assume "identity_generation_id t' = g"
      then show False using ok ok' t'(2) located_unique unfolding token_defs g_def by metis
    qed
    then show "token_ok ?c s' t'" using ok' by (simp add: token_defs status located_layout [OF lay])
  qed
  show ?thesis using 1 2 3 4 5 6 7 by (simp add: coord_inv_def)
qed

text \<open>The reconciliation succeeds exactly for the token its slot holds, and then it is that step.\<close>

lemma reconcile_ok:
  assumes inv: "coord_inv c" and s: "s < MAX_KEYS" and t: "tok c s = Some t"
  defines "g \<equiv> identity_generation_id t"
  defines "k \<equiv> (dc_counters c)\<lparr>gc_cancelled := gc_cancelled (dc_counters c) - 1,
                                gc_released := gc_released (dc_counters c) + 1\<rparr>"
  shows "reconcile_resumable_cancelled_up t c = (Inr (),
    (transitioned c g Released k (dc_activated_generation_count c))
           \<lparr>dc_cancelled_up_by_slot := (dc_cancelled_up_by_slot c)[s := None]\<rparr>)"
proof -
  note D = coord_invD [OF inv]
  have ok: "token_ok c s t" using token_entry [OF D(7) s t] .
  have slot: "unat (identity_key_slot t) = s" using ok s by (simp add: token_defs word_of_nat_slot)
  have none: "act c s = None" "pend c s = None"
    using ok pending_entry(2) [OF D(6) s] by (cases "pend c s"; auto simp: token_defs)+
  have masks: "\<not> bit (dc_active_mask c) s" using owner_mask [OF D(5)] none by simp
  have len: "length (dc_generation_states c) = total_of c" using D(1) by (simp add: ledger_base_def)
  have st: "has_status c g Cancelled" using ok by (simp add: token_defs g_def)
  have rec: "gc_cancelled (dc_counters c) \<noteq> 0" "checked_add (gc_released (dc_counters c)) 1 = Some (gc_released (dc_counters c) + 1)"
    using counters_reconcile(1,2) [of "dc_counters c" "dc_generation_states c" "unat g"] D(1) st len total_less [of c]
    by (simp_all add: ledger_base_def has_status_def)
  have "dc_blocked_mask c = dc_active_mask c" using D(5) by (simp add: owner_inv_def)
  then show ?thesis
    using slot s t none masks rec validate_token [OF ok] st D(5,6,7)
    by (simp add: reconcile_resumable_cancelled_up_def Let_def sbind_apply cancelled_for_slot_def active_for_slot_def
        pending_for_slot_def bit_for_slot_mask_bit and_mask_bit_eq_0 status_of_eq(1) [THEN iffD2] g_def [symmetric]
        set_cancelled_def transitioned_def set_status_def k_def)
qed

lemma wp_reconcile:
  assumes inv: "coord_inv c"
  shows "wp (reconcile_resumable_cancelled_up t) (\<lambda>_. coord_inv) coord_inv c"
proof (cases "unat (identity_key_slot t) < MAX_KEYS \<and> tok c (unat (identity_key_slot t)) = Some t")
  case True
  then show ?thesis
    using reconcile_ok [OF inv conjunct1 conjunct2] reconciled_inv [OF inv conjunct1 conjunct2] by (simp add: wp_def)
next
  case False
  then have "\<exists>e. reconcile_resumable_cancelled_up t c = (Inl (Err e), c)"
    using coord_invD(7) [OF inv]
    by (cases "unat (identity_key_slot t) < MAX_KEYS")
      (simp_all add: reconcile_resumable_cancelled_up_def Let_def sbind_apply cancelled_for_slot_def)
  then show ?thesis using inv by (auto simp: wp_def)
qed

end
