(* ===== verification/Sky_Audit.thy ===== *)
theory Sky_Audit
  imports Sky_Ownership
begin

text \<open>
  The audits of the coordinator accept every state that satisfies the invariant: the bounded slot
  check, the bounded audit of the pause path, the full ledger audit, and the accounting summaries,
  whose checked arithmetic never fails. The number of live generations in the ledger equals the number
  of bits in the ownership mask.
\<close>

section \<open>Counting\<close>

lemma active_count:
  assumes inv: "coord_inv c"
  shows "cnt c Active = count_ones (dc_active_mask c)"
proof -
  note D = coord_invD [OF inv]
  let ?S = "{s. s < MAX_KEYS \<and> act c s \<noteq> None}"
  let ?G = "{i. i < length (dc_generation_states c) \<and> dc_generation_states c ! i = Active}"
  let ?f = "\<lambda>s. unat (ag_generation_id (the (act c s)))"
  have len: "length (dc_generation_states c) = total_of c" using D(1) by (simp add: ledger_base_def)
  have "bij_betw ?f ?S ?G"
    unfolding bij_betw_def
  proof
    show "inj_on ?f ?S"
      by (rule inj_onI) (auto simp: word_unat_eq_iff [symmetric] intro: owner_slot_unique [OF D(5)])
    show "?f ` ?S = ?G"
    proof
      show "?f ` ?S \<subseteq> ?G" using owner_entry(2) [OF D(5)] by (auto simp: has_status_def)
      show "?G \<subseteq> ?f ` ?S"
      proof
        fix i assume i: "i \<in> ?G"
        then have u: "unat (word_of_nat i :: u64) = i"
          using len total_less [of c] by (intro unat_word_of_nat_small) simp
        then have "has_status c (word_of_nat i) Active" using i by (simp add: has_status_def)
        then obtain s a where "s < MAX_KEYS" "act c s = Some a" "ag_generation_id a = word_of_nat i"
          by (rule owner_exists [OF D(5)])
        then show "i \<in> ?f ` ?S" using u by (intro image_eqI [of _ _ s]) auto
      qed
    qed
  qed
  then have "card ?S = card ?G" by (rule bij_betw_same_card)
  moreover have "{n. bit (dc_active_mask c) n} = ?S" using owner_mask [OF D(5)] by auto
  ultimately show ?thesis by (simp add: count_ones_card count_list_filter length_filter_conv_card)
qed

definition terminal_count :: "generation_status list \<Rightarrow> nat" where
  "terminal_count sts = count_list sts Released + count_list sts DroppedConflict + count_list sts DroppedBackend
     + count_list sts DroppedExpired + count_list sts Cancelled"

lemma counts_total:
  "count_list sts Scheduled + count_list sts Active + terminal_count sts = length sts"
  using sum_count_states [of sts] by (simp add: terminal_count_def)

lemma checked_add_small:
  fixes a b :: u64
  assumes "unat a + unat b < 2 ^ 64"
  shows "checked_add a b = Some (a + b)" and "unat (a + b) = unat a + unat b"
  using assms by (simp_all add: checked_add_def unat_add_no_wrap)

lemma terminal_total_ok:
  assumes m: "counters_match k sts" and len: "length sts < 2 ^ 64"
  shows "\<exists>w. terminal_total_checked k = Some w \<and> unat w = terminal_count sts"
proof -
  note eq = counters_matchD [OF m]
  have le: "terminal_count sts < 2 ^ 64" using counts_total [of sts] len by linarith
  let ?a = "gc_released k" and ?b = "gc_dropped_conflict k" and ?c = "gc_dropped_backend k"
  let ?d = "gc_dropped_expired k" and ?e = "gc_cancelled k"
  have 1: "unat ?a + unat ?b < 2 ^ 64" using le eq by (simp add: terminal_count_def)
  note A = checked_add_small [OF 1]
  have 2: "unat (?a + ?b) + unat ?c < 2 ^ 64" using le eq A(2) by (simp add: terminal_count_def)
  note B = checked_add_small [OF 2]
  have 3: "unat (?a + ?b + ?c) + unat ?d < 2 ^ 64" using le eq A(2) B(2) by (simp add: terminal_count_def)
  note C = checked_add_small [OF 3]
  have 4: "unat (?a + ?b + ?c + ?d) + unat ?e < 2 ^ 64" using le eq A(2) B(2) C(2) by (simp add: terminal_count_def)
  note F = checked_add_small [OF 4]
  show ?thesis
    using A B C F eq by (simp add: terminal_total_checked_def terminal_count_def)
qed

lemma ledger_fold:
  "fold ledger_step sts (a, b, t) =
     (a + word_of_nat (count_list sts Scheduled), b + word_of_nat (count_list sts Active),
      t + word_of_nat (terminal_count sts))"
proof (induction sts arbitrary: a b t)
  case (Cons x xs)
  show ?case by (cases x) (simp_all add: Cons.IH terminal_count_def algebra_simps)
qed (simp add: terminal_count_def)

section \<open>The audits accept\<close>

lemma rfold_unit: "(\<And>x. x \<in> set xs \<Longrightarrow> f x = Inr ()) \<Longrightarrow> rfold (\<lambda>x _. f x) xs () = Inr ()"
  by (induction xs) auto

lemma validate_slots_ok:
  assumes inv: "coord_inv c"
  shows "validate_local_slot_masks c = Inr ()"
proof -
  note D = coord_invD [OF inv]
  have blocked: "dc_blocked_mask c = dc_active_mask c" using D(5) by (simp add: owner_inv_def)
  have slot: "validate_slot_masks c s = Inr ()" if "s < MAX_KEYS" for s
  proof (cases "act c s")
    case None
    moreover have "pend c s = None" using None pending_entry(2) [OF D(6) that] by (cases "pend c s") auto
    ultimately show ?thesis
      using that D(5,6) owner_mask [OF D(5), of s] pending_mask [OF D(6), of s] blocked
      by (simp add: validate_slot_masks_def active_for_slot_def pending_for_slot_def word_of_nat_slot and_mask_bit_eq_0)
  next
    case (Some a)
    then show ?thesis
      using that D(5,6) owner_entry [OF D(5) that Some] owner_mask [OF D(5), of s] pending_mask [OF D(6), of s] blocked
        pending_entry [OF D(6) that]
      by (cases "pend c s")
        (auto simp: validate_slot_masks_def active_for_slot_def pending_for_slot_def word_of_nat_slot
          and_mask_bit_eq_0 MAX_KEYS_def)
  qed
  have "dc_pending_release_mask c AND mask_bit s \<noteq> 0" if "(s, q) \<in> set (enumerate 0 (dc_pending_release_by_slot c))" "q \<noteq> None" for s q
    using that D(6) pending_mask [OF D(6), of s] by (auto simp: in_set_enumerate_eq and_mask_bit_eq_0 MAX_KEYS_def)
  then show ?thesis
    using rfold_unit [of "[0..<MAX_KEYS]" "validate_slot_masks c"] slot by (auto simp: validate_local_slot_masks_def)
qed

lemma activated_bounds:
  assumes inv: "coord_inv c"
  shows "cnt c Released + cnt c Active \<le> unat (dc_activated_generation_count c)"
    and "unat (dc_activated_generation_count c) \<le> total_of c"
  using coord_invD(1,2) [OF inv] by (simp_all add: ledger_base_def activation_inv_def)

lemma audit_counts_ok:
  assumes inv: "coord_inv c" and w: "unat w = cnt c Active"
  shows "audit_counts c w = Inr ()"
proof -
  note A = activated_bounds [OF inv]
  have r: "unat (gc_released (dc_counters c)) = cnt c Released"
    using coord_invD(1) [OF inv] counters_matchD(1) by (simp add: ledger_base_def)
  have lt: "unat (gc_released (dc_counters c)) + unat w < 2 ^ 64"
    using A r w total_less [of c] by linarith
  show ?thesis
    using A r w checked_add_small [OF lt] by (simp add: audit_counts_def require_def word_le_nat_alt)
qed

lemma audit_slot_ok:
  assumes inv: "coord_inv c" and s: "s < MAX_KEYS"
  shows "audit_slot c s = Inr ()"
proof -
  note D = coord_invD [OF inv]
  have blocked: "dc_blocked_mask c = dc_active_mask c" using D(5) by (simp add: owner_inv_def)
  have s16: "s < 16" using s by (simp add: MAX_KEYS_def)
  have tables: "audit_table (dc_active_by_slot c) s = Inr (act c s)" "audit_table (dc_cancelled_up_by_slot c) s = Inr (tok c s)"
      "audit_table (dc_pending_release_by_slot c) s = Inr (pend c s)"
    using s D(5,6,7) by (simp_all add: audit_table_def)
  note masks = owner_mask [OF D(5), of s] pending_mask [OF D(6), of s]
  have excl: "\<not> (act c s \<noteq> None \<and> tok c s \<noteq> None)" using token_entry [OF D(7) s] by (auto simp: token_defs)
  have active: "audit_active c s (act c s) (pend c s) = Inr ()"
  proof (cases "act c s")
    case (Some a)
    then show ?thesis
      using owner_entry [OF D(5) s Some] pending_entry [OF D(6) s] masks blocked s s16
      by (auto simp: audit_active_def require_def and_mask_bit_eq_0 has_status_def split: option.splits)
  qed (use masks blocked in \<open>simp add: audit_active_def require_def and_mask_bit_eq_0\<close>)
  have pending: "audit_pending c s (act c s) (pend c s) = Inr ()"
    using pending_entry [OF D(6) s] masks s s16
    by (auto simp: audit_pending_def require_def and_mask_bit_eq_0 split: option.splits)
  have token: "audit_token c s (pend c s) (tok c s) = Inr ()"
  proof (cases "tok c s")
    case (Some t)
    then have ok: "token_ok c s t" using token_entry [OF D(7) s] by simp
    then have none: "act c s = None" by (simp add: token_defs)
    then have "pend c s = None" using pending_entry(2) [OF D(6) s] by (cases "pend c s") auto
    then show ?thesis
      using Some ok none masks blocked validate_token [OF ok]
      by (simp add: audit_token_def require_def and_mask_bit_eq_0 token_defs has_status_def)
  qed (simp add: audit_token_def)
  show ?thesis using tables excl active pending token by (auto simp: audit_slot_def require_def)
qed

lemma check_local_ok:
  assumes inv: "coord_inv c"
  shows "check_local_invariants c = Inr ()"
proof -
  note D = coord_invD [OF inv]
  have len: "length (dc_generation_states c) = total_of c" using D(1) by (simp add: ledger_base_def)
  have small: "length (dc_generation_states c) < 2 ^ 64" using len total_less [of c] by simp
  let ?w = "word_of_nat (count_ones (dc_active_mask c)) :: u64"
  have w: "unat ?w = cnt c Active"
    using active_count [OF inv] count_ones_le [of "dc_active_mask c"] unat_word_of_nat_small [of "count_ones (dc_active_mask c)", where 'a = 64]
    by simp
  obtain t where t: "terminal_total_checked (dc_counters c) = Some t" "unat t = terminal_count (dc_generation_states c)"
    using terminal_total_ok [of "dc_counters c", OF _ small] D(1) by (auto simp: ledger_base_def)
  have sum: "unat t + unat ?w \<le> total_of c" using t(2) w counts_total [of "dc_generation_states c"] len by linarith
  then have lt: "unat t + unat ?w < 2 ^ 64" using total_less [of c] by linarith
  have g: "(word_of_nat (length (dc_generation_states c)) :: u64) = dc_generation_count c" by (simp add: len)
  have sched: "rs_generation_count (dc_schedule c) = dc_generation_count c" using D(3) by (simp add: static_inv_def)
  show ?thesis
    unfolding check_local_invariants_def Let_def
    using t(1) g sched audit_counts_ok [OF inv w] checked_add_small [OF lt] sum
      rfold_unit [of "[0..<MAX_KEYS]" "audit_slot c"] audit_slot_ok [OF inv]
    by (simp add: require_def word_le_nat_alt)
qed

lemma check_invariants_ok:
  assumes inv: "coord_inv c"
  shows "check_invariants c = Inr ()"
proof -
  note D = coord_invD [OF inv]
  have len: "length (dc_generation_states c) = total_of c" using D(1) by (simp add: ledger_base_def)
  have small: "length (dc_generation_states c) < 2 ^ 64" using len total_less [of c] by simp
  let ?S = "word_of_nat (cnt c Scheduled) :: u64" and ?A = "word_of_nat (cnt c Active) :: u64"
  let ?T = "word_of_nat (terminal_count (dc_generation_states c)) :: u64"
  have counts: "cnt c Scheduled + cnt c Active + terminal_count (dc_generation_states c) = total_of c"
    using counts_total [of "dc_generation_states c"] len by simp
  have u: "unat ?S = cnt c Scheduled" "unat ?A = cnt c Active" "unat ?T = terminal_count (dc_generation_states c)"
    using counts total_less [of c] by (simp_all add: unat_word_of_nat_small)
  obtain t where t: "terminal_total_checked (dc_counters c) = Some t" "unat t = terminal_count (dc_generation_states c)"
    using terminal_total_ok [of "dc_counters c", OF _ small] D(1) by (auto simp: ledger_base_def)
  have tT: "?T = t" using t(2) u(3) by (metis word_unat_eq_iff)
  have 1: "unat ?S + unat ?A < 2 ^ 64" using u counts total_less [of c] by linarith
  note A = checked_add_small [OF 1]
  have 2: "unat (?S + ?A) + unat t < 2 ^ 64" using u A(2) t(2) counts total_less [of c] by linarith
  note B = checked_add_small [OF 2]
  have "unat (?S + ?A + t) = total_of c" using A(2) B(2) u t(2) counts by simp
  then have acc: "?S + ?A + t = dc_generation_count c" by (simp add: word_unat_eq_iff)
  have g: "(word_of_nat (length (dc_generation_states c)) :: u64) = dc_generation_count c" by (simp add: len)
  show ?thesis
    unfolding check_invariants_def
    using check_local_ok [OF inv] g t(1) audit_counts_ok [OF inv u(2)] active_count [OF inv] tT A(1) B(1) acc
    by (simp add: ledger_fold require_def)
qed

section \<open>The summaries\<close>

text \<open>The compact summary agrees with the ledger bucket by bucket, and its buckets add up.\<close>

lemma generation_accounting_ok:
  assumes inv: "coord_inv c"
  shows "\<exists>r. generation_accounting_of c = Inr r \<and>
    unat (ga_scheduled r) = cnt c Scheduled \<and> unat (ga_active r) = cnt c Active \<and>
    unat (ga_released r) = cnt c Released \<and> unat (ga_dropped_conflict r) = cnt c DroppedConflict \<and>
    unat (ga_dropped_backend r) = cnt c DroppedBackend \<and> unat (ga_dropped_expired r) = cnt c DroppedExpired \<and>
    unat (ga_cancelled r) = cnt c Cancelled \<and> ga_total r = dc_generation_count c"
proof -
  note D = coord_invD [OF inv]
  have len: "length (dc_generation_states c) = total_of c" using D(1) by (simp add: ledger_base_def)
  have m: "counters_match (dc_counters c) (dc_generation_states c)" using D(1) by (simp add: ledger_base_def)
  have small: "length (dc_generation_states c) < 2 ^ 64" using len total_less [of c] by simp
  let ?w = "word_of_nat (count_ones (dc_active_mask c)) :: u64"
  have w: "unat ?w = cnt c Active"
    using active_count [OF inv] count_ones_le [of "dc_active_mask c"] unat_word_of_nat_small [of "count_ones (dc_active_mask c)", where 'a = 64]
    by simp
  obtain t where t: "terminal_total_checked (dc_counters c) = Some t" "unat t = terminal_count (dc_generation_states c)"
    using terminal_total_ok [OF m small] by auto
  have counts: "cnt c Scheduled + cnt c Active + terminal_count (dc_generation_states c) = total_of c"
    using counts_total [of "dc_generation_states c"] len by simp
  have le: "?w \<le> dc_generation_count c" using w counts by (simp add: word_le_nat_alt)
  have um: "unat (dc_generation_count c - ?w) = total_of c - cnt c Active" using unat_checked_sub [OF le] w by simp
  have le2: "t \<le> dc_generation_count c - ?w" using um t(2) counts by (simp add: word_le_nat_alt)
  have us: "unat (dc_generation_count c - ?w - t) = cnt c Scheduled" using unat_checked_sub [OF le2] um t(2) counts by simp
  show ?thesis
    using t(1) le le2 us w counters_matchD [OF m]
    by (simp add: generation_accounting_of_def Let_def checked_sub_def)
qed

end
