(* ===== verification/Sky_Cancellation.thy ===== *)
theory Sky_Cancellation
  imports Sky_Audit
begin

text \<open>
  The two cancellations of the coordinator. The terminal one always succeeds on a state satisfying the
  invariant, leaves no live generation, no owned slot and no token, and passes the post-cleanup audit.
  The resumable one suspends exactly the owned slots: it turns each live generation into a token for
  its authored Up and leaves the scheduled ones alone.
\<close>

section \<open>Terminal cancellation\<close>

definition cancelled_status :: "generation_status \<Rightarrow> generation_status" where
  "cancelled_status st = (if is_terminal st then st else Cancelled)"

definition cancelling :: "coordinator \<Rightarrow> nat list \<Rightarrow> coordinator \<Rightarrow> bool" where
  "cancelling c ys c' \<longleftrightarrow>
     ledger_base c' \<and> static_inv c' \<and> live_inv c' \<and> same_layout c c' \<and>
     dc_activated_generation_count c' = dc_activated_generation_count c \<and>
     cnt c' Released = cnt c Released \<and>
     (\<forall>i < length (dc_generation_states c). dc_generation_states c' ! i =
        (if i \<in> set ys then cancelled_status (dc_generation_states c ! i) else dc_generation_states c ! i)) \<and>
     length (dc_generation_states c') = length (dc_generation_states c) \<and>
     dc_cursor c' = dc_cursor c"

lemma can_cancel: "\<not> is_terminal st \<Longrightarrow> can_transition_to st Cancelled"
  by (cases st) (simp_all add: can_transition_to_def)

lemma cancel_index_step:
  assumes J: "cancelling c ys c'" and i: "i < length (dc_generation_states c)" "i \<notin> set ys"
  shows "wp (cancel_index i) (\<lambda>_. cancelling c (ys @ [i])) (\<lambda>_. False) c'"
proof -
  have len: "length (dc_generation_states c') = length (dc_generation_states c)" and led: "ledger_base c'"
    and sti: "dc_generation_states c' ! i = dc_generation_states c ! i"
    using J i by (simp_all add: cancelling_def)
  define st where "st = dc_generation_states c ! i"
  have get: "nth_opt (dc_generation_states c') i = Some st" using i len sti by (simp add: st_def)
  show ?thesis
  proof (cases "is_terminal st")
    case True
    then have "wp (cancel_index i) Q (\<lambda>_. False) c' \<longleftrightarrow> Q () c'" for Q
      using get by (auto simp: cancel_index_def wp_simps is_terminal_iff)
    then show ?thesis using J True by (auto simp: cancelling_def cancelled_status_def st_def)
  next
    case False
    define g where "g = (word_of_nat i :: u64)"
    have tot: "length (dc_generation_states c') = total_of c'" using led by (simp add: ledger_base_def)
    then have small: "i < 2 ^ 64" using i len total_less [of c'] by simp
    then have u: "unat g = i" by (simp add: g_def unat_word_of_nat_small)
    have has: "has_status c' g st" using u i len sti by (simp add: has_status_def st_def)
    have lg: "live c' g" using has False by (auto simp: live_def is_terminal_iff)
    obtain p j s where loc: "located c' g p j s"
      using location_of_total [of c' g] J u i len tot by (auto simp: cancelling_def)
    obtain k n where run: "transition_generation g st Cancelled c' = (Inr (), transitioned c' g Cancelled k n)"
      and led': "ledger_base (transitioned c' g Cancelled k n)" and n: "unat n = unat (dc_activated_generation_count c')"
      using transition_ledger [OF led has can_cancel [OF False]] by (auto simp: activates_def)
    let ?t = "transitioned c' g Cancelled k n"
    let ?c = "invalidated p j s ?t"
    have stat: "static_inv c'" and liv: "live_inv c'" using J by (simp_all add: cancelling_def)
    note LI = live_invalidated [OF stat liv lg loc, of Cancelled k n]
    have "located ?t g p j s" using loc located_layout [OF same_layout_transitioned] by simp
    moreover have "compact_generation_id (intents_of ?t ! j) = g" using liv lg loc by (auto simp: live_inv_def)
    moreover have "g \<noteq> NO_GENERATION_ID" using total_gen [OF stat] u i len tot by simp
    ultimately have inval: "invalidate_up_for_generation g ?t = (Inr (), ?c)" using invalidate_up_eq by blast
    have "cnt ?t Released = cnt c' Released"
      using cnt_transitioned [OF has, of Cancelled k n Released] False by (cases "st = Released") auto
    moreover have "n = dc_activated_generation_count c'" using n by (simp add: word_unat_eq_iff)
    moreover have "dc_generation_states ?c ! x = (if x \<in> set (ys @ [i]) then cancelled_status (dc_generation_states c ! x)
        else dc_generation_states c ! x)" if "x < length (dc_generation_states c)" for x
      using J that u len False by (auto simp: cancelling_def nth_update_if cancelled_status_def st_def)
    ultimately have "cancelling c (ys @ [i]) ?c"
      using J led' LI static_inv_layout [OF LI(1)] same_layout_trans
      by (auto simp: cancelling_def ledger_base_def)
    moreover have "cancel_index i c' = (Inr (), ?c)"
      using get False run inval small
      by (auto simp: cancel_index_def sbind_apply try_from_usize_def g_def is_terminal_iff)
    ultimately show ?thesis by (simp add: wp_def)
  qed
qed

lemma cancelling_all:
  assumes inv: "coord_inv c"
  shows "wp (sfor [0..<length (dc_generation_states c)] cancel_index)
    (\<lambda>_. cancelling c [0..<length (dc_generation_states c)]) (\<lambda>_. False) c"
proof (rule wp_sfor_indexed [where I = "cancelling c"])
  show "cancelling c [] c" using coord_invD [OF inv] by (simp add: cancelling_def)
  fix ys x zs t
  assume xs: "[0..<length (dc_generation_states c)] = ys @ x # zs" and J: "cancelling c ys t"
  have "x \<in> set [0..<length (dc_generation_states c)]" "distinct (ys @ x # zs)"
    unfolding xs by simp (metis distinct_upt xs)
  then show "wp (cancel_index x) (\<lambda>_. cancelling c (ys @ [x])) (\<lambda>_. False) t"
    using cancel_index_step [OF J] by simp
qed

lemma cleared_inv:
  assumes inv: "coord_inv c" and J: "cancelling c [0..<length (dc_generation_states c)] c'"
  shows "coord_inv (clear_tokens (clear_ownership c'))" (is "coord_inv ?c")
proof -
  have lay: "same_layout c' ?c" by (simp add: same_layout_def clear_tokens_def clear_ownership_def)
  have status: "has_status ?c g st \<longleftrightarrow> has_status c' g st" for g st
    by (simp add: has_status_def clear_tokens_def clear_ownership_def)
  have fin: "\<not> has_status c' g Scheduled" "\<not> has_status c' g Active" for g
    using J by (auto simp: cancelling_def has_status_def cancelled_status_def split: if_splits)
  have noact: "cnt c' Active = 0"
    using J by (auto simp: count_list_0_iff in_set_conv_nth cancelling_def cancelled_status_def split: if_splits)
  have "ntok ?c = 0" by (simp add: ntok_def clear_tokens_def)
  then have "activation_inv ?c"
    using J noact coord_invD(2) [OF inv]
    by (simp add: activation_inv_def cancelling_def clear_tokens_def clear_ownership_def)
  moreover have "ledger_base c'" using J by (simp add: cancelling_def)
  then have "ledger_base ?c" by (simp add: ledger_base_def clear_tokens_def clear_ownership_def)
  moreover have "static_inv ?c" using J static_inv_layout [OF lay] by (simp add: cancelling_def)
  moreover have "live_inv ?c" using fin by (simp add: live_inv_def live_def status)
  moreover have "owner_inv ?c" "pending_inv ?c" "token_inv ?c"
    using fin by (simp_all add: owner_inv_def pending_inv_def token_inv_def status)
      (simp_all add: clear_tokens_def clear_ownership_def)
  ultimately show ?thesis by (simp add: coord_inv_def)
qed

lemma post_cleanup_ok:
  assumes "coord_inv c" and "dc_active_mask c = 0" and "dc_pending_release_mask c = 0"
    and "\<forall>t \<in> set (dc_cancelled_up_by_slot c). t = None" and "\<forall>st \<in> set (dc_generation_states c). is_terminal st"
  shows "check_post_cleanup_invariants c = Inr ()"
proof -
  note D = coord_invD [OF assms(1)]
  have "\<forall>a \<in> set (dc_active_by_slot c). a = None"
    using D(5) owner_mask [OF D(5)] assms(2) by (fastforce simp: in_set_conv_nth)
  moreover have "\<forall>q \<in> set (dc_pending_release_by_slot c). q = None"
    using D(6) pending_mask [OF D(6)] assms(3) by (fastforce simp: in_set_conv_nth)
  moreover have "dc_blocked_mask c = 0" using D(5) assms(2) by (simp add: owner_inv_def)
  moreover have "\<not> (\<exists>st \<in> set (dc_generation_states c). st = Scheduled \<or> st = Active)"
    using assms(5) by (auto simp: is_terminal_iff)
  ultimately show ?thesis
    using check_invariants_ok [OF assms(1)] assms(2-4)
    by (simp add: check_post_cleanup_invariants_def require_def)
qed

definition live_generations :: "coordinator \<Rightarrow> generation_id list" where
  "live_generations c = sort (map ag_generation_id (List.map_filter id (dc_active_by_slot c)))"

lemma map_filter_id: "List.map_filter id xs = map the (filter (\<lambda>x. x \<noteq> None) xs)"
  by (induction xs) (auto simp: map_filter_simps split: option.splits)

lemma set_live_generations:
  assumes inv: "coord_inv c"
  shows "set (live_generations c) = {g. has_status c g Active}"
proof -
  note D = coord_invD [OF inv]
  show ?thesis
  proof (intro equalityI subsetI)
    fix g assume "g \<in> set (live_generations c)"
    then obtain a where a: "Some a \<in> set (dc_active_by_slot c)" "g = ag_generation_id a"
      by (auto simp: live_generations_def map_filter_id)
    then obtain s where "s < MAX_KEYS" "act c s = Some a" using D(5) by (auto simp: in_set_conv_nth)
    then show "g \<in> {g. has_status c g Active}" using owner_entry(2) [OF D(5)] a(2) by simp
  next
    fix g assume "g \<in> {g. has_status c g Active}"
    then obtain s a where "s < MAX_KEYS" "act c s = Some a" "ag_generation_id a = g"
      using owner_exists [OF D(5)] by auto
    then show "g \<in> set (live_generations c)"
      using D(5) by (force simp: live_generations_def map_filter_id in_set_conv_nth)
  qed
qed

lemma cancel_all_ok:
  assumes inv: "coord_inv c"
  shows "\<exists>c'. cancel_all c = (Inr (live_generations c), c') \<and> coord_inv c' \<and>
    check_post_cleanup_invariants c' = Inr () \<and>
    dc_generation_states c' = map cancelled_status (dc_generation_states c) \<and> dc_cursor c' = dc_cursor c"
proof -
  obtain t where run: "sfor [0..<length (dc_generation_states c)] cancel_index c = (Inr (), t)"
    and J: "cancelling c [0..<length (dc_generation_states c)] t"
    using cancelling_all [OF inv]
    by (cases "sfor [0..<length (dc_generation_states c)] cancel_index c")
      (auto simp: wp_def split: sum.splits failure.splits)
  let ?c = "clear_tokens (clear_ownership t)"
  have inv': "coord_inv ?c" using cleared_inv [OF inv J] .
  have states: "dc_generation_states ?c = map cancelled_status (dc_generation_states c)"
    using J by (intro nth_equalityI) (auto simp: cancelling_def clear_tokens_def clear_ownership_def)
  have tnl: "\<forall>st \<in> set (dc_generation_states ?c). is_terminal st"
    unfolding states by (auto simp: cancelled_status_def)
  have "check_post_cleanup_invariants ?c = Inr ()"
    by (rule post_cleanup_ok [OF inv' _ _ _ tnl]) (simp_all add: clear_tokens_def clear_ownership_def)
  moreover have "cancel_all c = (Inr (live_generations c), ?c)"
    using check_invariants_ok [OF inv] check_invariants_ok [OF inv'] run
    by (simp add: cancel_all_def run_audit_def sbind_apply live_generations_def)
  moreover have "dc_cursor ?c = dc_cursor c" using J by (simp add: cancelling_def clear_tokens_def clear_ownership_def)
  ultimately show ?thesis using inv' states by blast
qed


section \<open>Resumable cancellation\<close>

lemma MAX_COMPACT_bound: "unat g < 2 ^ 60 - 1 \<Longrightarrow> g \<noteq> NO_GENERATION_ID \<and> \<not> g > MAX_COMPACT_GENERATION_ID"
  using NO_GENERATION_ID_val MAX_COMPACT_GENERATION_ID_val by (auto simp: word_less_nat_alt)

lemma identity_try_new_ok:
  assumes "unat g < 2 ^ 60 - 1" and "unat slot < MAX_KEYS" and "p < 2 ^ 32" and "i < 2 ^ 32"
  shows "\<exists>t. identity_try_new g slot p i = Inr t \<and> identity_generation_id t = g \<and> identity_key_slot t = slot \<and>
    identity_packet_index t = p \<and> identity_intent_index t = i"
proof -
  have "compactable g" "unat slot < 16"
    using MAX_COMPACT_bound [OF assms(1)] assms(2) by (auto simp: compactable_def MAX_KEYS_def)
  then show ?thesis
    using assms MAX_COMPACT_bound [OF assms(1)]
    by (simp add: identity_try_new_def try_from_usize_def identity_generation_id_def identity_key_slot_def
        identity_packet_index_def identity_intent_index_def unat_word_of_nat_small)
qed

lemma up_range_end_eq:
  "up_range_end p = Some (unat (cp_up_intent_start p) + unat (cp_up_intent_len p))"
proof -
  have "unat (cp_up_intent_start p) < 2 ^ 32" "unat (cp_up_intent_len p) < 2 ^ 8"
    using unsigned_less [of "cp_up_intent_start p"] unsigned_less [of "cp_up_intent_len p"] by simp_all
  then show ?thesis by (simp add: up_range_end_def checked_add_usize_def usize_limit_def)
qed

text \<open>The generation count is below the bound of the packed encoding.\<close>

lemma live_gen_bound:
  assumes inv: "coord_inv c" and "live c g"
  shows "unat g < 2 ^ 60 - 1"
proof -
  note D = coord_invD [OF inv]
  have g: "unat g < total_of c" using assms(2) has_status_total [OF D(1)] by (auto simp: live_def)
  obtain p i s where "located c g p i s" using location_of_total [OF D(3) g] .
  then have "compact_generation_id (intents_of c ! i) = g" using D(4) assms(2) by (auto simp: live_inv_def)
  then have "compactable g" using compactable_generation_id by blast
  then show ?thesis
    using total_gen [OF D(3) g] MAX_COMPACT_GENERATION_ID_val by (auto simp: compactable_def word_le_nat_alt)
qed

definition live_id :: "coordinator \<Rightarrow> nat \<Rightarrow> authored_up_identity option" where
  "live_id c s = (case live_identity c s of Inr i \<Rightarrow> i | Inl _ \<Rightarrow> None)"

lemma live_identity_None:
  assumes "coord_inv c" and "s < MAX_KEYS" and "act c s = None"
  shows "live_identity c s = Inr None"
  using assms coord_invD(5) [OF assms(1)] by (simp add: live_identity_def)

lemma live_identity_Some:
  assumes inv: "coord_inv c" and s: "s < MAX_KEYS" and a: "act c s = Some a"
  shows "\<exists>t. live_identity c s = Inr (Some t) \<and> identity_generation_id t = ag_generation_id a \<and>
    identity_key_slot t = word_of_nat s \<and>
    located c (ag_generation_id a) (identity_packet_index t) (identity_intent_index t) s"
proof -
  note D = coord_invD [OF inv]
  let ?g = "ag_generation_id a"
  note own = owner_entry [OF D(5) s a]
  obtain p i where loc: "located c ?g p i s" using own(3) by blast
  have lv: "live c ?g" using own(2) by (simp add: live_def)
  have gen: "compact_generation_id (intents_of c ! i) = ?g" "bit (cp_up_mask (packets_of c ! p)) s"
    using D(4) lv loc by (auto simp: live_inv_def)
  have slot: "compact_key_slot (intents_of c ! i) = word_of_nat s" using loc s by (simp add: located_def slot_word_eq)
  obtain t where t: "identity_try_new ?g (word_of_nat s) p i = Inr t" "identity_generation_id t = ?g"
      "identity_key_slot t = word_of_nat s" "identity_packet_index t = p" "identity_intent_index t = i"
    using identity_try_new_ok [OF live_gen_bound [OF inv lv], of "word_of_nat s" p i] loc s
    by (auto simp: located_def word_of_nat_slot)
  have "tok c s = None" using token_entry [OF D(7) s] a by (cases "tok c s") (auto simp: token_defs)
  then have "live_identity c s = Inr (Some t)"
    using s a D(5,7) loc gen slot own(1) t(1)
    by (simp add: live_identity_def authored_up_identity_for_live_generation_def located_def up_range_end_eq
        bit_for_slot_mask_bit and_mask_bit_eq_0 word_of_nat_slot MAX_KEYS_def Let_def)
  then show ?thesis using t loc by auto
qed

lemma rfold_collect:
  "(\<And>x. x \<in> set xs \<Longrightarrow> f x = Inr (g x)) \<Longrightarrow>
   rfold (\<lambda>x acc. rbind (f x) (\<lambda>i. Inr (acc @ [i]))) xs acc = Inr (acc @ map g xs)"
  by (induction xs arbitrary: acc) auto

lemma live_identities_eq:
  assumes "coord_inv c" shows "live_identities c = Inr (map (live_id c) [0..<MAX_KEYS])"
proof -
  have "live_identity c s = Inr (live_id c s)" if "s < MAX_KEYS" for s
    using live_identity_None [OF assms that] live_identity_Some [OF assms that]
    by (cases "act c s") (auto simp: live_id_def)
  then show ?thesis
    unfolding live_identities_def by (subst rfold_collect [where g = "live_id c"]) auto
qed

text \<open>The loop: \<open>P\<close> is the set of slots already suspended.\<close>

definition suspended_by :: "coordinator \<Rightarrow> nat set \<Rightarrow> generation_id \<Rightarrow> bool" where
  "suspended_by c P g \<longleftrightarrow> (\<exists>s \<in> P. s < MAX_KEYS \<and> (\<exists>a. act c s = Some a \<and> ag_generation_id a = g))"

definition suspending :: "coordinator \<Rightarrow> nat set \<Rightarrow> coordinator \<Rightarrow> bool" where
  "suspending c P c' \<longleftrightarrow>
     ledger_base c' \<and> same_layout c c' \<and> live_inv c' \<and> activation_inv c' \<and>
     dc_activated_generation_count c' = dc_activated_generation_count c \<and> dc_cursor c' = dc_cursor c \<and>
     length (dc_cancelled_up_by_slot c') = MAX_KEYS \<and>
     (\<forall>s < MAX_KEYS. \<forall>t. tok c' s = Some t \<longrightarrow> token_core c' s t) \<and>
     (\<forall>s < MAX_KEYS. tok c' s = (if s \<in> P \<and> act c s \<noteq> None then live_id c s else tok c s)) \<and>
     (\<forall>g x. has_status c' g x \<longleftrightarrow> (if suspended_by c P g then x = Cancelled else has_status c g x))"

lemma suspended_by_insert:
  assumes "s < MAX_KEYS" and "act c s = Some a"
  shows "suspended_by c (insert s P) g \<longleftrightarrow> suspended_by c P g \<or> g = ag_generation_id a"
  using assms by (auto simp: suspended_by_def)

lemma cancel_live_slot_step:
  assumes inv: "coord_inv c" and K: "suspending c P c'" and s: "s < MAX_KEYS" "s \<notin> P"
  shows "wp (cancel_live_slot (s, live_id c s)) (\<lambda>_. suspending c (insert s P)) (\<lambda>_. False) c'"
proof (cases "act c s")
  case None
  then have "live_id c s = None" using live_identity_None [OF inv s(1)] by (simp add: live_id_def)
  moreover have "suspended_by c (insert s P) g \<longleftrightarrow> suspended_by c P g" for g using None by (auto simp: suspended_by_def)
  ultimately show ?thesis using K None by (auto simp: cancel_live_slot_def wp_simps suspending_def)
next
  case (Some a)
  note D = coord_invD [OF inv]
  let ?g = "ag_generation_id a"
  obtain t where t: "live_identity c s = Inr (Some t)" "identity_generation_id t = ?g" "identity_key_slot t = word_of_nat s"
    "located c ?g (identity_packet_index t) (identity_intent_index t) s"
    using live_identity_Some [OF inv s(1) Some] by blast
  let ?p = "identity_packet_index t" and ?i = "identity_intent_index t"
  have id: "live_id c s = Some t" using t(1) by (simp add: live_id_def)
  have lay: "same_layout c c'" and led: "ledger_base c'" and liv: "live_inv c'" using K by (simp_all add: suspending_def)
  have loc: "located c' ?g ?p ?i s" using t(4) located_layout [OF lay] by simp
  have notP: "\<not> suspended_by c P ?g"
    unfolding suspended_by_def using owner_slot_unique [OF D(5)] Some s by metis
  have st: "has_status c' ?g Active" using K notP owner_entry(2) [OF D(5) s(1) Some] by (simp add: suspending_def)
  then have lv: "live c' ?g" by (simp add: live_def)
  have gen: "compact_generation_id (intents_of c' ! ?i) = ?g" "bit (cp_up_mask (packets_of c' ! ?p)) s"
    using liv lv loc by (auto simp: live_inv_def)
  have slot: "compact_key_slot (intents_of c' ! ?i) = word_of_nat s" using loc s by (simp add: located_def slot_word_eq)
  have NO: "?g \<noteq> NO_GENERATION_ID"
    using total_gen [OF D(3)] has_status_total [OF D(1) owner_entry(2) [OF D(5) s(1) Some]] by blast
  obtain k n where run: "transition_generation ?g Active Cancelled c' = (Inr (), transitioned c' ?g Cancelled k n)"
    and led': "ledger_base (transitioned c' ?g Cancelled k n)" and n: "unat n = unat (dc_activated_generation_count c')"
    using transition_ledger [OF led st can_cancel] by (auto simp: activates_def)
  let ?t = "transitioned c' ?g Cancelled k n"
  let ?n = "compact_new NO_GENERATION_ID (word_of_nat s)"
  let ?c = "(set_intent ?i ?n ?t)\<lparr>dc_cancelled_up_by_slot := (dc_cancelled_up_by_slot c')[s := Some t]\<rparr>"
  have step: "cancel_live_slot (s, live_id c s) c' = (Inr (), ?c)"
    using run t(2,3) loc gen slot s K id
    by (simp add: cancel_live_slot_def sbind_apply invalidate_authored_up_for_resumable_cancellation_def located_def
        up_range_end_eq bit_for_slot_mask_bit and_mask_bit_eq_0 word_of_nat_slot MAX_KEYS_def Let_def
        set_cancelled_def set_intent_def suspending_def)
  have lay2: "same_layout c' ?c"
  proof -
    have "same_layout ?t (set_intent ?i ?n ?t)" using slot s by (intro same_layout_set_intent) simp
    then have "same_layout c' (set_intent ?i ?n ?t)" using same_layout_trans [OF same_layout_transitioned] by blast
    then show ?thesis by (simp add: same_layout_def)
  qed
  have status: "has_status ?c g x \<longleftrightarrow> (if g = ?g then x = Cancelled else has_status c' g x)" for g x
    using st has_status_transitioned [of c' ?g Cancelled k n g x] by (auto simp: has_status_def set_intent_def)
  have intents: "intents_of ?c ! j = (if j = ?i then ?n else intents_of c' ! j)" for j
    using loc by (auto simp: set_intent_def nth_update_if located_def)
  have packets: "packets_of ?c = packets_of c'" by (simp add: set_intent_def)
  have toks: "tok ?c s' = (if s' = s then Some t else tok c' s')" if "s' < MAX_KEYS" for s'
    using that s K by (simp add: nth_update_if suspending_def)
  have oldtok: "tok c' s = None"
    using K s Some token_entry [OF D(7) s(1)] by (cases "tok c s") (auto simp: suspending_def token_defs)
  have sts: "dc_generation_states ?c = dc_generation_states ?t" by (simp add: set_intent_def)
  have cnts: "cnt ?c Released = cnt c' Released" "cnt ?c Active + 1 = cnt c' Active"
    using cnt_transitioned [OF st, of Cancelled k n Released] cnt_transitioned [OF st, of Cancelled k n Active]
    by (simp_all only: sts) simp_all
  have lenT: "length (dc_cancelled_up_by_slot c') = MAX_KEYS" using K by (simp add: suspending_def)
  then have ntok: "ntok ?c = ntok c' + 1"
    using length_filter_update [of s "dc_cancelled_up_by_slot c'" "\<lambda>t. t \<noteq> None" "Some t"] s oldtok by (simp add: ntok_def)
  have n': "n = dc_activated_generation_count c'" using n by (simp add: word_unat_eq_iff)
  have "activation_inv c'" using K by (simp add: suspending_def)
  then have act: "activation_inv ?c" using cnts ntok n' by (simp add: activation_inv_def set_intent_def)
  have led2: "ledger_base ?c" using led' by (simp add: ledger_base_def set_intent_def)
  have live2: "live_inv ?c"
    unfolding live_inv_def located_layout [OF lay2]
  proof (intro allI impI)
    fix g' p' i' s' assume "live ?c g' \<and> located c' g' p' i' s'"
    then have h: "live c' g'" "g' \<noteq> ?g" "located c' g' p' i' s'" by (auto simp: live_def status split: if_splits)
    have "i' \<noteq> ?i" using located_index_unique [OF liv h(1) lv h(3)] loc h(2) by auto
    then show "compact_generation_id (intents_of ?c ! i') = g' \<and> bit (cp_up_mask (packets_of ?c ! p')) s'"
      unfolding intents packets using h liv by (auto simp: live_inv_def)
  qed
  have core: "token_core ?c s' t'" if s': "s' < MAX_KEYS" and t': "tok ?c s' = Some t'" for s' t'
  proof (cases "s' = s")
    case True
    then have "t' = t" using t' toks [OF s'] by simp
    then show ?thesis
      unfolding token_core_def status intents packets located_layout [OF lay2] using True t(2,3) loc gen s by simp
  next
    case False
    then have old: "token_core c' s' t'" using K t' toks [OF s'] s' by (simp add: suspending_def)
    then have "identity_generation_id t' \<noteq> ?g" using st by (auto simp: token_core_def dest: has_status_unique)
    moreover have "identity_intent_index t' \<noteq> ?i" using old gen NO by (auto simp: token_core_def)
    ultimately show ?thesis
      unfolding token_core_def status intents packets located_layout [OF lay2] using old by (simp add: token_core_def)
  qed
  have "suspending c (insert s P) ?c"
    unfolding suspending_def
  proof (intro conjI allI impI)
    show "same_layout c ?c" using same_layout_trans [OF lay lay2] .
    show "dc_activated_generation_count ?c = dc_activated_generation_count c" "dc_cursor ?c = dc_cursor c"
      using K n' by (simp_all add: suspending_def set_intent_def)
    show "length (dc_cancelled_up_by_slot ?c) = MAX_KEYS" using lenT by simp
    show "tok ?c s' = (if s' \<in> insert s P \<and> act c s' \<noteq> None then live_id c s' else tok c s')" if "s' < MAX_KEYS" for s'
      using K that toks [OF that] Some id by (simp add: suspending_def)
    show "has_status ?c g x \<longleftrightarrow> (if suspended_by c (insert s P) g then x = Cancelled else has_status c g x)" for g x
      using K notP by (auto simp: status suspended_by_insert [OF s(1) Some] suspending_def)
  qed (use led2 live2 act core in simp_all)
  then show ?thesis using step by (simp add: wp_def)
qed


lemma suspended_inv:
  assumes inv: "coord_inv c" and K: "suspending c {..<MAX_KEYS} c'"
  shows "coord_inv (clear_ownership c')" (is "coord_inv ?c")
proof -
  note D = coord_invD [OF inv]
  have lay: "same_layout c' ?c" by (simp add: same_layout_def clear_ownership_def)
  have status: "has_status ?c g x \<longleftrightarrow> has_status c' g x" for g x by (simp add: has_status_def clear_ownership_def)
  have noact: "\<not> has_status c' g Active" for g
  proof
    assume h: "has_status c' g Active"
    then have ns: "\<not> suspended_by c {..<MAX_KEYS} g" using K by (auto simp: suspending_def split: if_splits)
    then have "has_status c g Active" using K h by (simp add: suspending_def)
    then show False using ns owner_exists [OF D(5), of g] by (auto simp: suspended_by_def)
  qed
  have live: "live ?c g \<longleftrightarrow> live c' g" for g by (simp add: live_def status)
  have "static_inv ?c"
    using D(3) K static_inv_layout [OF lay] static_inv_layout [of c c'] by (simp add: suspending_def)
  moreover have "ledger_base c'" "activation_inv c'" "live_inv c'" using K by (simp_all add: suspending_def)
  then have "ledger_base ?c" "activation_inv ?c" "live_inv ?c"
    by (simp_all add: ledger_base_def activation_inv_def ntok_def live_inv_def live located_layout [OF lay])
      (simp_all add: clear_ownership_def)
  moreover have "owner_inv ?c"
    using noact by (simp add: owner_inv_def status) (simp add: clear_ownership_def)
  moreover have "pending_inv ?c" by (simp add: pending_inv_def) (simp add: clear_ownership_def)
  moreover have "token_inv ?c"
  proof -
    have len: "length (dc_cancelled_up_by_slot c') = MAX_KEYS"
      and core: "\<And>s t. s < MAX_KEYS \<Longrightarrow> tok c' s = Some t \<Longrightarrow> token_core c' s t"
      using K by (simp_all add: suspending_def)
    have same: "dc_cancelled_up_by_slot ?c = dc_cancelled_up_by_slot c'" "dc_schedule ?c = dc_schedule c'"
      "dc_active_by_slot ?c = replicate MAX_KEYS None" by (simp_all add: clear_ownership_def)
    show ?thesis
      unfolding token_inv_def token_ok_def token_core_def status located_layout [OF lay] same
      using len core by (simp add: token_core_def)
  qed
  ultimately show ?thesis by (simp add: coord_inv_def)
qed

lemma cancel_live_loop:
  assumes inv: "coord_inv c"
  shows "wp (sfor (enumerate 0 (map (live_id c) [0..<MAX_KEYS])) cancel_live_slot)
    (\<lambda>_. suspending c {..<MAX_KEYS}) (\<lambda>_. False) c"
proof -
  note D = coord_invD [OF inv]
  have en: "enumerate 0 (map (live_id c) [0..<MAX_KEYS]) = map (\<lambda>s. (s, live_id c s)) [0..<MAX_KEYS]"
    by (rule nth_equalityI) (simp_all add: nth_enumerate_eq)
  have "wp (sfor (map (\<lambda>s. (s, live_id c s)) [0..<MAX_KEYS]) cancel_live_slot)
      (\<lambda>_ c'. suspending c (fst ` set (map (\<lambda>s. (s, live_id c s)) [0..<MAX_KEYS])) c') (\<lambda>_. False) c"
  proof (rule wp_sfor_indexed [where I = "\<lambda>ys. suspending c (fst ` set ys)"])
    have "tok c s = (if s \<in> {} \<and> act c s \<noteq> None then live_id c s else tok c s)" for s by simp
    then show "suspending c (fst ` set []) c"
      using D token_entry [OF D(7)] by (auto simp: suspending_def suspended_by_def token_ok_def)
    fix ys x zs u
    assume xs: "map (\<lambda>s. (s, live_id c s)) [0..<MAX_KEYS] = ys @ x # zs" and K: "suspending c (fst ` set ys) u"
    have "x \<in> set (map (\<lambda>s. (s, live_id c s)) [0..<MAX_KEYS])" unfolding xs by simp
    then obtain s where s: "x = (s, live_id c s)" "s < MAX_KEYS" by auto
    have "distinct (map fst (ys @ x # zs))" unfolding xs [symmetric] by (simp add: comp_def)
    then have "s \<notin> fst ` set ys" using s(1) by auto
    then show "wp (cancel_live_slot x) (\<lambda>_. suspending c (fst ` set (ys @ [x]))) (\<lambda>_. False) u"
      using cancel_live_slot_step [OF inv K s(2)] s(1) by simp
  qed
  moreover have "fst ` set (map (\<lambda>s. (s, live_id c s)) [0..<MAX_KEYS]) = {..<MAX_KEYS}" by force
  ultimately show ?thesis unfolding en by simp
qed

text \<open>
  The suspension succeeds; every owned slot gets the token of its generation's authored Up, the other
  slots keep theirs, and the ledger changes only at the generations that were live.
\<close>

lemma cancel_live_ok:
  assumes inv: "coord_inv c"
  shows "\<exists>c'. cancel_live_generations_after_verified_resumable_cleanup c = (Inr (count_ones (dc_active_mask c)), c') \<and>
    coord_inv c' \<and> same_layout c c' \<and> dc_cursor c' = dc_cursor c \<and> dc_active_mask c' = 0 \<and> dc_pending_release_mask c' = 0 \<and>
    (\<forall>s < MAX_KEYS. tok c' s = (if act c s \<noteq> None then live_id c s else tok c s)) \<and>
    (\<forall>g x. has_status c' g x \<longleftrightarrow> (if has_status c g Active then x = Cancelled else has_status c g x))"
proof -
  note D = coord_invD [OF inv]
  let ?ids = "map (live_id c) [0..<MAX_KEYS]"
  obtain u where run: "sfor (enumerate 0 ?ids) cancel_live_slot c = (Inr (), u)" and K: "suspending c {..<MAX_KEYS} u"
    using cancel_live_loop [OF inv]
    by (cases "sfor (enumerate 0 ?ids) cancel_live_slot c") (auto simp: wp_def split: sum.splits failure.splits)
  let ?c = "clear_ownership u"
  have inv': "coord_inv ?c" using suspended_inv [OF inv K] .
  have occ: "live_id c s \<noteq> None \<longleftrightarrow> act c s \<noteq> None" if "s < MAX_KEYS" for s
    using live_identity_None [OF inv that] live_identity_Some [OF inv that] by (cases "act c s") (auto simp: live_id_def)
  have "length (filter (\<lambda>i. i \<noteq> None) ?ids) = length (filter (\<lambda>s. act c s \<noteq> None) [0..<MAX_KEYS])"
    unfolding filter_map length_map comp_def using occ by (intro arg_cong [where f = length] filter_cong) auto
  also have "\<dots> = card {s. s < MAX_KEYS \<and> act c s \<noteq> None}"
  proof -
    have "set (filter (\<lambda>s. act c s \<noteq> None) [0..<MAX_KEYS]) = {s. s < MAX_KEYS \<and> act c s \<noteq> None}" by auto
    then show ?thesis by (metis distinct_card distinct_filter distinct_upt)
  qed
  also have "\<dots> = count_ones (dc_active_mask c)"
    unfolding count_ones_card using owner_mask [OF D(5)] by (intro arg_cong [where f = card]) auto
  finally have count: "length (filter (\<lambda>i. i \<noteq> None) ?ids) = count_ones (dc_active_mask c)" .
  have "unat (gc_cancelled (dc_counters c)) + cnt c Active \<le> total_of c"
    using D(1) counters_matchD(5) [of "dc_counters c" "dc_generation_states c"] sum_count_states [of "dc_generation_states c"]
    by (simp add: ledger_base_def)
  then have "checked_add (gc_cancelled (dc_counters c)) (word_of_nat (count_ones (dc_active_mask c))) \<noteq> None"
    using active_count [OF inv] total_less [of c] count_ones_le [of "dc_active_mask c"]
      unat_word_of_nat_small [of "count_ones (dc_active_mask c)", where 'a = 64]
    by (simp add: checked_add_def)
  then obtain w where w: "checked_add (gc_cancelled (dc_counters c)) (word_of_nat (count_ones (dc_active_mask c))) = Some w" by blast
  have fin: "cancel_live_generations_after_verified_resumable_cleanup c = (Inr (count_ones (dc_active_mask c)), ?c)"
    unfolding cancel_live_generations_after_verified_resumable_cleanup_def
    using check_local_ok [OF inv] check_local_ok [OF inv'] live_identities_eq [OF inv] run w
    by (simp add: run_audit_def sbind_apply count [simplified] Let_def)
  have sus: "suspended_by c {..<MAX_KEYS} g \<longleftrightarrow> has_status c g Active" for g
    unfolding suspended_by_def using owner_entry(2) [OF D(5)] owner_exists [OF D(5), of g] by (metis lessThan_iff)
  have "tok ?c s = (if act c s \<noteq> None then live_id c s else tok c s)" if "s < MAX_KEYS" for s
    using K that by (simp add: suspending_def clear_ownership_def)
  moreover have "has_status ?c g x \<longleftrightarrow> (if has_status c g Active then x = Cancelled else has_status c g x)" for g x
    using K by (simp add: suspending_def sus) (simp add: has_status_def clear_ownership_def)
  moreover have "same_layout c ?c" "dc_cursor ?c = dc_cursor c"
    using K by (simp_all add: suspending_def same_layout_def clear_ownership_def)
  ultimately show ?thesis using fin inv' by (auto simp: clear_ownership_def)
qed

end
