(* ===== verification/Sky_Commit.thy ===== *)
theory Sky_Commit
  imports Sky_Cancellation
begin

text \<open>
  The commits of the authored timeline keep the invariant. A frozen token is described by what it
  says of the immutable layout of the schedule, so that it stays meaningful across pauses, drops and
  cancellations; the preparation functions produce only such tokens. Between commits every deferred
  release belongs to a packet behind the cursor, which is what makes an immediate release of the
  current packet safe.
\<close>

section \<open>Frames of the operations\<close>

definition still :: "coordinator \<Rightarrow> coordinator \<Rightarrow> bool" where
  "still c c' \<longleftrightarrow> same_layout c c' \<and> dc_cursor c' = dc_cursor c \<and>
     rs_batches (dc_schedule c') = rs_batches (dc_schedule c) \<and>
     rs_key_registry (dc_schedule c') = rs_key_registry (dc_schedule c) \<and>
     dc_batch_scheduled_ticks c' = dc_batch_scheduled_ticks c \<and> dc_min_hold_ticks c' = dc_min_hold_ticks c"

definition calm :: "coordinator \<Rightarrow> coordinator \<Rightarrow> bool" where
  "calm c c' \<longleftrightarrow> still c c' \<and> dc_pending_release_by_slot c' = dc_pending_release_by_slot c \<and>
     length (dc_cancelled_up_by_slot c') = length (dc_cancelled_up_by_slot c) \<and>
     (\<forall>s < length (dc_cancelled_up_by_slot c). tok c s = None \<longrightarrow> tok c' s = None)"

interpretation still: frame_preorder still
  by unfold_locales (auto simp: still_def dest: same_layout_trans)

interpretation calm: frame_preorder calm
  by unfold_locales (auto simp: calm_def intro: still.frame_refl dest: still.frame_trans)

lemma frames_mono: "frames F m \<Longrightarrow> (\<And>s t. F s t \<Longrightarrow> G s t) \<Longrightarrow> frames G m"
  by (simp add: frames_def)

lemma calm_still: "calm c c' \<Longrightarrow> still c c'"
  by (simp add: calm_def)

lemma calm_set_status [simp]: "calm c (set_status g st c)"
  by (simp add: calm_def still_def same_layout_def set_status_def)

lemma calm_transition: "frames calm (transition_generation g from nxt)"
  unfolding transition_generation_def
proof (intro calm.frame_intros)
  show "frames calm increment_activated"
    by (rule framesI) (simp add: increment_activated_def calm_def still_def same_layout_def split: option.splits)
  show "frames calm (increment_counter nxt)"
    by (rule framesI) (simp add: increment_counter_def calm_def still_def same_layout_def split: sum.splits)
  show "frames calm (supdate (set_status g nxt))" by (rule calm.frames_supdate) simp
qed

lemma calm_set_active: "frames calm (set_active slot a)"
  by (rule framesI) (simp add: set_active_def calm_def still_def same_layout_def)

lemma calm_own: "frames calm (own_slot slot a)"
  unfolding own_slot_def
  by (intro calm.frame_intros calm_set_active calm.frames_supdate) (simp add: calm_def still_def same_layout_def)

lemma calm_disown: "frames calm (disown_slot slot)"
  unfolding disown_slot_def
  by (intro calm.frame_intros calm_set_active calm.frames_supdate) (simp add: calm_def still_def same_layout_def)

lemma compact_NO_slot: "compact_key_slot (compact_new NO_GENERATION_ID (compact_key_slot x)) = compact_key_slot x"
  using compact_key_slot_less [of x] by simp

lemma calm_invalidate: "frames calm (invalidate_up_for_generation g)"
  by (rule framesI)
    (auto simp: invalidate_up_for_generation_def set_intent_def calm_def still_def same_layout_def nth_update_if
      compact_NO_slot Let_def result_simps split: option.splits prod.splits)

lemma calm_set_cancelled_None: "frames calm (set_cancelled slot None)"
  by (rule framesI) (auto simp: set_cancelled_def calm_def still_def same_layout_def nth_update_if)

lemma calm_reconcile: "frames calm (reconcile_resumable_cancelled_up t)"
  unfolding reconcile_resumable_cancelled_up_def Let_def
  by (intro calm.frame_intros calm_set_cancelled_None calm.frames_supdate)
    (simp add: calm_def still_def same_layout_def set_status_def)

lemma calm_commit_immediate: "frames calm (commit_immediate_up t started)"
  unfolding commit_immediate_up_def Let_def
  by (intro calm.frame_intros calm_transition calm_disown calm_reconcile)

lemma still_register: "frames still (register_pending q)"
  unfolding register_pending_def
proof (intro still.frame_intros still.frames_supdate)
  show "frames still (set_pending (pr_key_slot q) (Some q))"
    by (rule framesI) (simp add: set_pending_def still_def same_layout_def)
qed (simp add: still_def same_layout_def)

lemma calm_commit_sent_down: "frames calm (commit_sent_down i r d)"
  unfolding commit_sent_down_def Let_def
  by (intro calm.frame_intros calm_transition calm_own)

lemma calm_miss_down: "frames calm (miss_down d m)"
  unfolding miss_down_def Let_def
  by (intro calm.frame_intros calm_transition calm_invalidate)

lemma calm_drop: "frames calm (drop_generation st g)"
  unfolding drop_generation_def terminalize_def by (intro calm.frame_intros calm_transition calm_invalidate)

section \<open>Frozen tokens\<close>

definition at_packet :: "coordinator \<Rightarrow> generation_id \<Rightarrow> usize \<Rightarrow> bool" where
  "at_packet c g p \<longleftrightarrow> (\<exists>i s. located c g p i s)"

definition frozen_up :: "coordinator \<Rightarrow> usize \<Rightarrow> prepared_up_intent \<Rightarrow> bool" where
  "frozen_up c p u \<longleftrightarrow>
     located c (identity_generation_id (pu_identity u)) p (identity_intent_index (pu_identity u))
       (unat (identity_key_slot (pu_identity u)))"

definition frozen_down :: "coordinator \<Rightarrow> prepared_down_intent \<Rightarrow> bool" where
  "frozen_down c d \<longleftrightarrow> unat (pd_key_slot d) < MAX_KEYS \<and>
     (down_generation_id d \<noteq> NO_GENERATION_ID \<longrightarrow>
        (\<exists>p i. located c (down_generation_id d) p i (unat (pd_key_slot d))))"

definition frozen_for :: "coordinator \<Rightarrow> prepared_authored_commit \<Rightarrow> bool" where
  "frozen_for c commit \<longleftrightarrow>
     (let f = pc_frame commit; p = pf_packet_index f in
      p < length (packets_of c) \<and> pf_first_batch_index f = unat (cp_first_batch_index (packets_of c ! p)) \<and>
      pf_packet_batch_count f = unat (cp_batch_count (packets_of c ! p)) \<and> 0 < pf_packet_batch_count f \<and>
      (\<forall>u \<in> set (pc_up_intents commit). frozen_up c p u) \<and> (\<forall>d \<in> set (pc_down_intents commit). frozen_down c d))"

lemma at_packet_layout: "same_layout c c' \<Longrightarrow> at_packet c' g p \<longleftrightarrow> at_packet c g p"
  unfolding at_packet_def using located_layout by blast

lemma frozen_down_layout: "same_layout c c' \<Longrightarrow> frozen_down c' d \<longleftrightarrow> frozen_down c d"
  unfolding frozen_down_def using located_layout by blast

text \<open>A token outlives every operation: it only mentions the layout.\<close>

lemma frozen_for_layout:
  assumes "same_layout c c'" shows "frozen_for c' commit \<longleftrightarrow> frozen_for c commit"
  unfolding frozen_for_def frozen_up_def frozen_down_layout [OF assms] located_layout [OF assms]
  using assms by (auto simp: same_layout_def Let_def)

section \<open>States between commits\<close>

definition behind :: "coordinator \<Rightarrow> generation_id \<Rightarrow> bool" where
  "behind c g \<longleftrightarrow> (\<exists>p i s. located c g p i s \<and> unat (cp_first_batch_index (packets_of c ! p)) < dc_cursor c)"

definition ready :: "coordinator \<Rightarrow> bool" where
  "ready c \<longleftrightarrow> coord_inv c \<and> (\<forall>s < MAX_KEYS. \<forall>q. pend c s = Some q \<longrightarrow> behind c (pr_generation_id q))"

lemma behind_still: "still c c' \<Longrightarrow> behind c' g \<longleftrightarrow> behind c g"
proof -
  assume st: "still c c'"
  then have lay: "same_layout c c'" by (simp add: still_def)
  show ?thesis
    unfolding behind_def located_layout [OF lay] using st lay
    by (auto simp: still_def same_layout_def located_def)
qed

text \<open>During a commit: a deferred release is behind the cursor, or was deferred by this very packet.\<close>

definition committing :: "prepared_authored_frame \<Rightarrow> coordinator \<Rightarrow> coordinator \<Rightarrow> bool" where
  "committing f c c' \<longleftrightarrow> coord_inv c' \<and> still c c' \<and>
     (\<forall>s < MAX_KEYS. tok c s = None \<longrightarrow> tok c' s = None) \<and>
     (\<forall>s < MAX_KEYS. \<forall>q. pend c' s = Some q \<longrightarrow>
        behind c (pr_generation_id q) \<or>
        \<not> bit (pf_immediate_up_mask f) s \<and> at_packet c (pr_generation_id q) (pf_packet_index f))"

lemma committing_calm:
  assumes "committing f c c'" and "coord_inv c''" and "calm c' c''"
  shows "committing f c c''"
proof -
  have len: "length (dc_cancelled_up_by_slot c') = MAX_KEYS"
    using assms(1) coord_invD(7) by (simp add: committing_def)
  then show ?thesis
    using assms still.frame_trans by (auto simp: committing_def calm_def)
qed

lemma wp_committing:
  assumes "wp m (\<lambda>_. coord_inv) coord_inv c'" and "frames calm m" and "committing f c c'"
  shows "wp m (\<lambda>_. committing f c) coord_inv c'"
  by (rule wp_mono [OF wp_frames [OF assms(1,2)]]) (use committing_calm [OF assms(3)] in auto)

lemma committing_start: "ready c \<Longrightarrow> committing f c c"
  by (auto simp: ready_def committing_def still.frame_refl)

lemma finish_commit_eq:
  assumes "coord_inv c"
  shows "finish_commit n c =
    (if dc_cursor c + n < usize_limit then (Inr (), c\<lparr>dc_cursor := dc_cursor c + n\<rparr>) else (Inl (Err (Time Overflow)), c))"
proof -
  have "coord_inv (c\<lparr>dc_cursor := dc_cursor c + n\<rparr>)" using assms by simp
  from validate_slots_ok [OF this] show ?thesis
    by (simp add: finish_commit_def sbind_apply advance_cursor_def checked_add_usize_def)
qed

lemma committing_finish:
  assumes fr: "frozen_for c commit" and cur: "pf_first_batch_index (pc_frame commit) = dc_cursor c"
    and K: "committing (pc_frame commit) c c'"
  shows "wp (finish_commit (pf_packet_batch_count (pc_frame commit))) (\<lambda>_. ready) coord_inv c'"
proof -
  let ?f = "pc_frame commit"
  let ?c = "c'\<lparr>dc_cursor := dc_cursor c' + pf_packet_batch_count ?f\<rparr>"
  have inv: "coord_inv c'" and st: "still c c'" using K by (simp_all add: committing_def)
  have inv': "coord_inv ?c" using inv by simp
  have lay: "same_layout c ?c" using st by (simp add: still_def same_layout_def)
  have cur': "dc_cursor c' = dc_cursor c" using st by (simp add: still_def)
  have pos: "0 < pf_packet_batch_count ?f" using fr by (simp add: frozen_for_def Let_def)
  have first: "cp_first_batch_index (packets_of c' ! p) = cp_first_batch_index (packets_of c ! p)" if "p < length (packets_of c)" for p
    using st that by (simp add: still_def same_layout_def)
  have "behind ?c (pr_generation_id q)" if s: "s < MAX_KEYS" and q: "pend ?c s = Some q" for s q
  proof -
    have "behind c (pr_generation_id q) \<or> at_packet c (pr_generation_id q) (pf_packet_index ?f)"
      using K s q by (auto simp: committing_def)
    then obtain p i s' where loc: "located c (pr_generation_id q) p i s'"
      and "unat (cp_first_batch_index (packets_of c ! p)) \<le> dc_cursor c"
      using fr cur by (auto simp: behind_def at_packet_def frozen_for_def Let_def)
    then have "unat (cp_first_batch_index (packets_of ?c ! p)) < dc_cursor ?c"
      using first pos cur' by (simp add: located_def)
    then show ?thesis using loc located_layout [OF lay] by (auto simp: behind_def)
  qed
  then have "ready ?c" using inv' by (simp add: ready_def)
  then show ?thesis
    using finish_commit_eq [OF inv, of "pf_packet_batch_count ?f"] inv by (auto simp: wp_def)
qed

section \<open>The commits\<close>

text \<open>The immediate release of an Up of the current packet.\<close>

lemma wp_commit_immediate:
  assumes K: "committing f c c'" and fr: "frozen_up c (pf_packet_index f) u" and imm: "bit (pf_immediate_up_mask f) (unat (identity_key_slot (pu_identity u)))"
    and cur: "pf_packet_index f < length (packets_of c)" "unat (cp_first_batch_index (packets_of c ! pf_packet_index f)) = dc_cursor c"
  shows "wp (commit_immediate_up (pu_identity u) started) (\<lambda>_. committing f c) coord_inv c'"
proof (rule wp_committing [OF _ calm_commit_immediate K])
  let ?t = "pu_identity u"
  let ?slot = "identity_key_slot ?t" and ?g = "identity_generation_id ?t"
  have inv: "coord_inv c'" and st: "still c c'" using K by (simp_all add: committing_def)
  note D = coord_invD [OF inv]
  have loc: "located c ?g (pf_packet_index f) (identity_intent_index ?t) (unat ?slot)" using fr by (simp add: frozen_up_def)
  have s: "unat ?slot < MAX_KEYS" using located_slot [OF loc] .
  have af: "active_for_slot c' ?slot = Inr (act c' (unat ?slot))" using s D(5) by (simp add: active_for_slot_def)
  show "wp (commit_immediate_up ?t started) (\<lambda>_. coord_inv) coord_inv c'"
  proof (cases "act c' (unat ?slot)")
    case None
    have "cancelled_for_slot c' ?slot = Inr (tok c' (unat ?slot))" using s D(7) by (simp add: cancelled_for_slot_def)
    then show ?thesis
      using None af inv wp_reconcile [OF inv, of ?t] by (simp add: commit_immediate_up_def Let_def wp_simps)
  next
    case (Some a)
    show ?thesis
    proof (cases "ag_generation_id a \<noteq> ?g \<or> started < ag_release_not_before_ticks a")
      case True
      then show ?thesis using Some af inv by (auto simp: commit_immediate_up_def Let_def wp_simps)
    next
      case False
      then have g: "ag_generation_id a = ?g" by simp
      have "pend c' (unat ?slot) = None"
      proof (rule ccontr)
        assume "pend c' (unat ?slot) \<noteq> None"
        then obtain q where q: "pend c' (unat ?slot) = Some q" by auto
        then have "pr_generation_id q = ?g" using pending_entry(2) [OF D(6) s q] Some g by auto
        moreover have "behind c (pr_generation_id q)" using K s q imm by (auto simp: committing_def)
        ultimately obtain p i s' where "located c ?g p i s'" "unat (cp_first_batch_index (packets_of c ! p)) < dc_cursor c"
          by (auto simp: behind_def)
        then show False using located_unique [OF loc] cur by auto
      qed
      then have "wp (sbind (transition_generation ?g Active Released) (\<lambda>_. disown_slot ?slot)) (\<lambda>_. coord_inv) coord_inv c'"
        using wp_release [OF inv _ g] af Some by simp
      then show ?thesis using Some af False by (simp add: commit_immediate_up_def Let_def wp_sbind wp_sread)
    qed
  qed
qed

lemma wp_commit_deferred:
  assumes K: "committing f c c'" and fr: "frozen_up c (pf_packet_index f) u"
    and imm: "\<not> bit (pf_immediate_up_mask f) (unat (identity_key_slot (pu_identity u)))"
  shows "wp (commit_deferred_up f (pu_identity u) src) (\<lambda>_. committing f c) coord_inv c'"
proof -
  let ?t = "pu_identity u"
  let ?slot = "identity_key_slot ?t" and ?g = "identity_generation_id ?t"
  have inv: "coord_inv c'" and st: "still c c'" using K by (simp_all add: committing_def)
  note D = coord_invD [OF inv]
  have loc: "located c ?g (pf_packet_index f) (identity_intent_index ?t) (unat ?slot)" using fr by (simp add: frozen_up_def)
  have s: "unat ?slot < MAX_KEYS" using located_slot [OF loc] .
  have af: "active_for_slot c' ?slot = Inr (act c' (unat ?slot))" using s D(5) by (simp add: active_for_slot_def)
  have pf: "pending_for_slot c' ?slot = Inr (pend c' (unat ?slot))" using s D(6) by (simp add: pending_for_slot_def)
  show ?thesis
  proof (cases "act c' (unat ?slot)")
    case None
    then show ?thesis using af inv by (simp add: commit_deferred_up_def Let_def wp_simps)
  next
    case (Some a)
    show ?thesis
    proof (cases "ag_generation_id a \<noteq> ?g \<or> pend c' (unat ?slot) \<noteq> None")
      case True
      then show ?thesis using Some af pf inv by (auto simp: commit_deferred_up_def Let_def wp_simps)
    next
      case False
      define q where "q = \<lparr>pr_generation_id = ?g, pr_key_slot = ?slot, pr_authored_release_ticks = pf_authored_ticks f,
        pr_due_ticks = max (ag_release_not_before_ticks a) (pf_authored_ticks f), pr_source_action_index = src\<rparr>"
      have q: "pr_key_slot q = ?slot" "pr_generation_id q = ?g" by (simp_all add: q_def)
      have "wp (register_pending q) (\<lambda>_ t. coord_inv t \<and> still c' t) (\<lambda>t. coord_inv t \<and> still c' t) c'"
      proof (rule wp_frames [OF _ still_register])
        show "wp (register_pending q) (\<lambda>_. coord_inv) coord_inv c'"
          using wp_register_pending [OF inv, of q a] q af Some False by simp
      qed
      then have "wp (register_pending q) (\<lambda>_. committing f c) coord_inv c'"
      proof (rule wp_mono)
        fix x t assume run: "register_pending q c' = (Inr x, t)" and t: "coord_inv t \<and> still c' t"
        have eq: "dc_pending_release_by_slot t = (dc_pending_release_by_slot c')[unat ?slot := Some q]"
            "dc_cancelled_up_by_slot t = dc_cancelled_up_by_slot c'"
          using run s D(6) q by (auto simp: register_pending_def set_pending_def sbind_apply)
        have new: "at_packet c ?g (pf_packet_index f)" using loc by (auto simp: at_packet_def)
        show "committing f c t"
          unfolding committing_def
        proof (intro conjI allI impI)
          show "coord_inv t" using t by simp
          show "still c t" using st t still.frame_trans by blast
          show "tok t s' = None" if "s' < MAX_KEYS" "tok c s' = None" for s'
            using K that eq by (simp add: committing_def)
          fix s' q' assume s': "s' < MAX_KEYS" and q': "pend t s' = Some q'"
          show "behind c (pr_generation_id q') \<or>
              \<not> bit (pf_immediate_up_mask f) s' \<and> at_packet c (pr_generation_id q') (pf_packet_index f)"
          proof (cases "s' = unat ?slot")
            case True
            then have "q' = q" using q' s eq D(6) by simp
            then show ?thesis using True new imm q by simp
          next
            case False
            then show ?thesis using K s' q' eq by (simp add: committing_def)
          qed
        qed
      qed simp
      then show ?thesis
        using Some af pf False by (simp add: commit_deferred_up_def Let_def wp_simps q_def)
    qed
  qed
qed

lemma wp_commit_ups:
  assumes fr: "frozen_for c commit" and cur: "pf_first_batch_index (pc_frame commit) = dc_cursor c" and rd: "ready c"
  shows "wp (commit_prepared_up_intents_frozen (pc_frame commit) (pc_up_intents commit) started)
    (\<lambda>_. committing (pc_frame commit) c) coord_inv c"
proof -
  let ?f = "pc_frame commit"
  have pk: "pf_packet_index ?f < length (packets_of c)" "unat (cp_first_batch_index (packets_of c ! pf_packet_index ?f)) = dc_cursor c"
    using fr cur by (simp_all add: frozen_for_def Let_def)
  have "wp (sfor (pc_up_intents commit) (commit_prepared_up ?f started)) (\<lambda>_. committing ?f c) coord_inv c"
  proof (rule wp_sfor [where I = "committing ?f c"])
    show "committing ?f c c" using rd by (rule committing_start)
    fix u c' assume u: "u \<in> set (pc_up_intents commit)" and K: "committing ?f c c'"
    have fu: "frozen_up c (pf_packet_index ?f) u" using fr u by (simp add: frozen_for_def Let_def)
    have inv: "coord_inv c'" using K by (simp add: committing_def)
    have bit: "pf_immediate_up_mask ?f AND bit_for_slot (identity_key_slot (pu_identity u)) \<noteq> 0 \<longleftrightarrow>
        bit (pf_immediate_up_mask ?f) (unat (identity_key_slot (pu_identity u)))"
      using located_slot [of c] fu by (auto simp: frozen_up_def and_bit_for_slot_eq_0 MAX_KEYS_def dest: bit_u16_bound)
    show "wp (commit_prepared_up ?f started u) (\<lambda>_. committing ?f c) coord_inv c'"
      using wp_commit_immediate [OF K fu _ pk] wp_commit_deferred [OF K fu] inv bit
      by (auto simp: commit_prepared_up_def Let_def wp_simps)
  qed
  then show ?thesis
    using cur by (simp add: commit_prepared_up_intents_frozen_def check_cursor_def wp_sbind wp_sread)
qed

subsection \<open>The frozen checks never panic\<close>

lemma rfold_unit_panic: "(\<And>x. x \<in> set xs \<Longrightarrow> f x \<noteq> Inl Panic) \<Longrightarrow> rfold (\<lambda>x _. f x) xs () \<noteq> Inl Panic"
  by (induction xs) (auto simp: result_simps rbind_def split: sum.splits)

lemma rfold_unit_all: "rfold (\<lambda>x _. f x) xs () = Inr () \<Longrightarrow> x \<in> set xs \<Longrightarrow> f x = Inr ()"
  by (induction xs) (auto simp: result_simps)

lemma rbind_panic: "rbind r f = Inl Panic \<longleftrightarrow> r = Inl Panic \<or> (\<exists>a. r = Inr a \<and> f a = Inl Panic)"
  by (auto simp: rbind_def split: sum.splits)

lemma wp_sbind_eq: "wp (sbind m f) Q E = wp m (\<lambda>a. wp (f a) Q E) E"
  by (rule ext) (simp add: wp_sbind)

lemma wp_sret_eq: "wp (sret a) Q E = Q a"
  by (rule ext) (simp add: wp_sret)

lemma slot_lookup:
  assumes inv: "coord_inv c" and s: "unat slot < MAX_KEYS"
  shows "active_for_slot c slot = Inr (act c (unat slot))" and "pending_for_slot c slot = Inr (pend c (unat slot))"
    and "cancelled_for_slot c slot = Inr (tok c (unat slot))"
  using s coord_invD(5-7) [OF inv]
  by (simp_all add: active_for_slot_def pending_for_slot_def cancelled_for_slot_def)

lemma validate_frozen_up_no_panic: "coord_inv c \<Longrightarrow> validate_frozen_up c p u \<noteq> Inl Panic"
  using slot_lookup [of c "identity_key_slot (pu_identity u)"]
  by (auto simp: validate_frozen_up_def Let_def rbind_panic ok_or_def status_of_def map_err_def not_le
      split: option.splits sum.splits if_splits)

lemma validate_frozen_commit_no_panic: "coord_inv c \<Longrightarrow> validate_frozen_authored_commit c commit \<noteq> Inl Panic"
  using slot_lookup(3) [of c] validate_frozen_up_no_panic [of c]
  by (auto simp: validate_frozen_authored_commit_def validate_frozen_down_def Let_def rbind_panic not_le
      split: if_splits intro!: rfold_unit_panic)

lemma validate_frozen_commit_downs:
  assumes "coord_inv c" and "validate_frozen_authored_commit c commit = Inr ()" and "d \<in> set (pc_down_intents commit)"
  shows "unat (pd_key_slot d) < MAX_KEYS" and "tok c (unat (pd_key_slot d)) = None"
proof -
  have "validate_frozen_down c d = Inr ()"
    using assms(2,3) rfold_unit_all by (fastforce simp: validate_frozen_authored_commit_def result_simps split: if_splits)
  then show "unat (pd_key_slot d) < MAX_KEYS" "tok c (unat (pd_key_slot d)) = None"
    using slot_lookup(3) [OF assms(1)] by (auto simp: validate_frozen_down_def Let_def not_le result_simps split: if_splits)
qed

lemma slot_occupied_eq:
  assumes inv: "coord_inv c" and s: "unat slot < MAX_KEYS"
  shows "slot_occupied c slot = Inr (act c (unat slot) \<noteq> None)"
proof -
  have "dc_active_mask c AND bit_for_slot slot = 0" "dc_blocked_mask c = dc_active_mask c" if "act c (unat slot) = None"
    using that s owner_mask [OF coord_invD(5) [OF inv]] coord_invD(5) [OF inv]
    by (auto simp: and_bit_for_slot_eq_0 owner_inv_def)
  then show ?thesis using slot_lookup(1) [OF inv s] by (cases "act c (unat slot)") (simp_all add: slot_occupied_def)
qed

subsection \<open>Down intents\<close>

lemma wp_commit_sent_down:
  assumes K: "committing f c c'" and fr: "frozen_down c d" and tk: "tok c (unat (pd_key_slot d)) = None"
  shows "wp (commit_sent_down src rnb d) (\<lambda>_. committing f c) coord_inv c'"
proof (rule wp_committing [OF _ calm_commit_sent_down K])
  have inv: "coord_inv c'" and lay: "same_layout c c'" using K by (simp_all add: committing_def still_def)
  have s: "unat (pd_key_slot d) < MAX_KEYS" using fr by (simp add: frozen_down_def)
  have tk': "tok c' (unat (pd_key_slot d)) = None" using K tk s by (simp add: committing_def)
  have "\<exists>p i. located c' (down_generation_id d) p i (unat (pd_key_slot d))" if "down_generation_id d \<noteq> NO_GENERATION_ID"
    using fr that located_layout [OF lay] by (simp add: frozen_down_def)
  then show "wp (commit_sent_down src rnb d) (\<lambda>_. coord_inv) coord_inv c'"
    using wp_activate [OF inv _ _ tk'] inv slot_occupied_eq [OF inv s]
    by (auto simp: commit_sent_down_def Let_def wp_simps)
qed

lemma wp_miss_down:
  assumes K: "committing f c c'" and fr: "frozen_down c d"
  shows "wp (miss_down d m) (\<lambda>_. committing f c) coord_inv c'"
proof (rule wp_committing [OF _ calm_miss_down K])
  have inv: "coord_inv c'" using K by (simp add: committing_def)
  have s: "unat (pd_key_slot d) < MAX_KEYS" using fr by (simp add: frozen_down_def)
  have "wp (sbind (transition_generation g Scheduled DroppedExpired) (\<lambda>_. invalidate_up_for_generation g)) (\<lambda>_. coord_inv) coord_inv c'" for g
    using wp_drop [OF inv] by simp
  then show "wp (miss_down d m) (\<lambda>_. coord_inv) coord_inv c'"
    using inv slot_occupied_eq [OF inv s] by (auto simp: miss_down_def Let_def wp_sbind_eq wp_sret_eq wp_sread wp_if wp_sfail)
qed

subsection \<open>Whole commits\<close>

text \<open>Success leaves a state between commits; an error of the source leaves the invariant; no panic.\<close>

lemma wp_metadata_commit:
  assumes rd: "ready c" and fr: "frozen_for c commit"
  shows "wp (commit_prepared_authored_frame_metadata_frozen commit) (\<lambda>_. ready) coord_inv c"
proof (cases "pf_first_batch_index (pc_frame commit) = dc_cursor c")
  case True
  have inv: "coord_inv c" using rd by (simp add: ready_def)
  have "wp (sbind (commit_prepared_up_intents_frozen (pc_frame commit) (pc_up_intents commit) st)
      (\<lambda>_. finish_commit (pf_packet_batch_count (pc_frame commit)))) (\<lambda>_. ready) coord_inv c" for st
    unfolding wp_sbind using wp_commit_ups [OF fr True rd]
    by (rule wp_mono) (use committing_finish [OF fr True] in auto)
  then show ?thesis using inv by (simp add: commit_prepared_authored_frame_metadata_frozen_def Let_def wp_if wp_sfail)
next
  case False
  then show ?thesis
    using rd by (simp add: commit_prepared_authored_frame_metadata_frozen_def Let_def commit_prepared_up_intents_frozen_def
        check_cursor_def wp_simps ready_def)
qed

lemma wp_success_commit:
  assumes rd: "ready c" and fr: "frozen_for c commit"
  shows "wp (commit_prepared_authored_frame_success_frozen commit started) (\<lambda>_. ready) coord_inv c"
proof (cases "pf_first_batch_index (pc_frame commit) = dc_cursor c \<and> validate_frozen_authored_commit c commit = Inr ()")
  case True
  let ?f = "pc_frame commit"
  have inv: "coord_inv c" using rd by (simp add: ready_def)
  have cur: "pf_first_batch_index ?f = dc_cursor c" using True by simp
  have downs: "wp (sfor (pc_down_intents commit) (commit_sent_down src rnb)) (\<lambda>_. committing ?f c) coord_inv c'"
    if "committing ?f c c'" for src rnb c'
    using that
  proof (rule wp_sfor)
    fix d t assume d: "d \<in> set (pc_down_intents commit)" and K: "committing ?f c t"
    show "wp (commit_sent_down src rnb d) (\<lambda>_. committing ?f c) coord_inv t"
      using fr d validate_frozen_commit_downs [OF inv conjunct2 [OF True] d]
      by (intro wp_commit_sent_down [OF K]) (simp_all add: frozen_for_def Let_def)
  qed
  have "wp (commit_prepared_up_intents_frozen ?f (pc_up_intents commit) started)
      (\<lambda>_. wp (sfor (pc_down_intents commit) (commit_sent_down src rnb))
        (\<lambda>_. wp (finish_commit (pf_packet_batch_count ?f)) (\<lambda>_. ready) coord_inv) coord_inv) coord_inv c" for src rnb
    using wp_commit_ups [OF fr cur rd]
  proof (rule wp_mono)
    fix t assume "committing ?f c t"
    from downs [OF this] show "wp (sfor (pc_down_intents commit) (commit_sent_down src rnb))
        (\<lambda>_. wp (finish_commit (pf_packet_batch_count ?f)) (\<lambda>_. ready) coord_inv) coord_inv t"
      by (rule wp_mono) (use committing_finish [OF fr cur] in auto)
  qed simp
  then show ?thesis
    using inv True by (auto simp: commit_prepared_authored_frame_success_frozen_def Let_def check_cursor_def map_err_def
        wp_sbind_eq wp_sread split: sum.splits)
next
  case False
  then show ?thesis
    using rd validate_frozen_commit_no_panic [of c commit]
    by (auto simp: commit_prepared_authored_frame_success_frozen_def Let_def check_cursor_def ready_def wp_simps
        split: sum.splits failure.splits)
qed

lemma wp_deadline_miss:
  assumes rd: "ready c" and fr: "frozen_for c commit"
  shows "wp (commit_prepared_authored_frame_deadline_miss commit um dm started) (\<lambda>_. ready) coord_inv c"
proof (cases "pf_first_batch_index (pc_frame commit) = dc_cursor c \<and> validate_frozen_authored_commit c commit = Inr ()")
  case True
  let ?f = "pc_frame commit"
  have inv: "coord_inv c" using rd by (simp add: ready_def)
  have cur: "pf_first_batch_index ?f = dc_cursor c" using True by simp
  have downs: "wp (sfold miss_down (pc_down_intents commit) 0) (\<lambda>_. committing ?f c) coord_inv c'"
    if "committing ?f c c'" for c'
  proof (rule wp_sfold [where I = "\<lambda>_. committing ?f c", OF that])
    fix d m t assume d: "d \<in> set (pc_down_intents commit)" and K: "committing ?f c t"
    show "wp (miss_down d m) (\<lambda>_. committing ?f c) coord_inv t"
      using fr d by (intro wp_miss_down [OF K]) (simp add: frozen_for_def Let_def)
  qed
  have "wp (commit_prepared_up_intents_frozen ?f (pc_up_intents commit) started)
      (\<lambda>_. wp (sfold miss_down (pc_down_intents commit) 0)
        (\<lambda>m. wp (if m \<noteq> dm then sfail (accounting e) else finish_commit (pf_packet_batch_count ?f)) (\<lambda>_. ready) coord_inv)
        coord_inv) coord_inv c" for e
    using wp_commit_ups [OF fr cur rd]
  proof (rule wp_mono)
    fix t assume "committing ?f c t"
    from downs [OF this] show "wp (sfold miss_down (pc_down_intents commit) 0)
        (\<lambda>m. wp (if m \<noteq> dm then sfail (accounting e) else finish_commit (pf_packet_batch_count ?f)) (\<lambda>_. ready) coord_inv) coord_inv t"
      by (rule wp_mono) (use committing_finish [OF fr cur] in \<open>auto simp: wp_sfail committing_def\<close>)
  qed simp
  then show ?thesis
    using inv True by (auto simp: commit_prepared_authored_frame_deadline_miss_def Let_def check_cursor_def
        wp_sbind_eq wp_sread wp_if wp_sfail)
next
  case False
  then show ?thesis
    using rd validate_frozen_commit_no_panic [of c commit]
    by (auto simp: commit_prepared_authored_frame_deadline_miss_def Let_def check_cursor_def ready_def wp_simps
        split: sum.splits failure.splits)
qed

subsection \<open>Stale packets, deferred releases and drops\<close>

text \<open>Operations that at most remove deferred releases keep a state between commits.\<close>

definition easing :: "coordinator \<Rightarrow> coordinator \<Rightarrow> bool" where
  "easing c c' \<longleftrightarrow> still c c' \<and> length (dc_pending_release_by_slot c') = length (dc_pending_release_by_slot c) \<and>
     (\<forall>s < length (dc_pending_release_by_slot c). pend c' s = None \<or> pend c' s = pend c s)"

interpretation easing: frame_preorder easing
proof unfold_locales
  fix c c' c'' assume "easing c c'" "easing c' c''"
  then show "easing c c''" using still.frame_trans [of c c' c''] by (fastforce simp: easing_def)
qed (auto simp: easing_def intro: still.frame_refl)

lemma calm_easing: "calm c c' \<Longrightarrow> easing c c'"
  by (simp add: calm_def easing_def)

lemma ready_easing:
  assumes "ready c" and "coord_inv c'" and "easing c c'"
  shows "ready c'"
proof -
  have len: "length (dc_pending_release_by_slot c) = MAX_KEYS" using assms(1) by (simp add: ready_def coord_invD(6))
  have "behind c' (pr_generation_id q)" if "s < MAX_KEYS" "pend c' s = Some q" for s q
  proof -
    have "pend c s = Some q" using assms(3) that len by (fastforce simp: easing_def)
    then show ?thesis using assms(1,3) that behind_still [of c c'] by (auto simp: ready_def easing_def)
  qed
  then show ?thesis using assms(2) by (simp add: ready_def)
qed

lemma wp_ready:
  assumes "wp m (\<lambda>_. coord_inv) coord_inv c" and "frames easing m" and "ready c"
  shows "wp m (\<lambda>_. ready) ready c"
  by (rule wp_mono [OF wp_frames [OF assms(1,2)]]) (use ready_easing [OF assms(3)] in auto)

lemma easing_release_pending: "frames easing (release_pending_slot started n)"
proof -
  have "frames easing (set_pending slot None)" for slot
    by (rule framesI) (auto simp: set_pending_def easing_def still_def same_layout_def nth_update_if)
  moreover have "easing c (c\<lparr>dc_pending_release_mask := m\<rparr>)" for c m
    by (simp add: easing_def still_def same_layout_def)
  ultimately show ?thesis
    unfolding release_pending_slot_def Let_def
    by (intro easing.frame_intros easing.frames_supdate frames_mono [OF calm_transition calm_easing]
        frames_mono [OF calm_disown calm_easing])
qed

lemma wp_pending_commit:
  assumes rd: "ready c"
  shows "wp (commit_pending_release_success m started) (\<lambda>_. ready) ready c"
  unfolding commit_pending_release_success_def wp_sbind
proof (rule wp_mono)
  show "wp (sfor (slots_of_mask m) (release_pending_slot started)) (\<lambda>_. ready) ready c"
  proof (rule wp_sfor [where I = ready, OF rd])
    fix n t assume "ready t"
    then show "wp (release_pending_slot started n) (\<lambda>_. ready) ready t"
      using wp_ready [OF wp_release_pending_slot easing_release_pending] by (simp add: ready_def)
  qed
qed (auto simp: ready_def wp_sread validate_slots_ok)

lemma wp_drop_generation:
  assumes rd: "ready c" and st: "is_terminal st" "st \<noteq> Released"
  shows "wp (drop_generation st g) (\<lambda>_. ready) ready c"
  using wp_drop [of c st g] st rd
  by (intro wp_ready [OF _ frames_mono [OF calm_drop calm_easing] rd]) (simp add: drop_generation_def terminalize_def ready_def)

lemma wp_drop_downs:
  assumes "ready c" and "is_terminal st" "st \<noteq> Released"
  shows "wp (drop_downs st intents) (\<lambda>_. ready) ready c"
  unfolding drop_downs_def
  by (rule wp_sfor [where I = ready, OF assms(1)]) (simp add: wp_sret wp_drop_generation assms split: option.splits)

lemma wp_terminalize_conflicted:
  assumes "ready c"
  shows "wp (terminalize_conflicted_slots intents m) (\<lambda>_. ready) ready c"
  unfolding terminalize_conflicted_slots_def wp_if
  using assms by (auto simp: wp_if wp_sret wp_drop_generation intro!: wp_sfor [where I = ready])

lemma wp_split_downs:
  assumes rd: "ready c"
  shows "wp (split_down_intents intents) (\<lambda>_. ready) ready c"
proof -
  have "wp (split_down_intent i acc) (\<lambda>_. ready) ready t" if "ready t" for i acc t
  proof -
    obtain xs ys where acc: "acc = (xs, ys)" by fastforce
    let ?m = "sbind (case rk_generation_id i of Some g \<Rightarrow> drop_generation DroppedConflict g | None \<Rightarrow> sret ())
      (\<lambda>_. sret (xs, ys @ [i]))"
    have "wp ?m (\<lambda>_. ready) ready t"
      using wp_drop_generation [OF that] that by (simp add: wp_sbind wp_sret wp_sret_eq split: option.splits)
    then show ?thesis using that by (simp add: acc wp_def split_down_intent_def)
  qed
  then have "wp (sfold split_down_intent intents ([], [])) (\<lambda>_. ready) ready c"
    by (intro wp_sfold [where I = "\<lambda>_. ready"]) (auto intro: rd)
  then show ?thesis using rd by (simp add: split_down_intents_def wp_def)
qed

text \<open>A stale packet only moves the cursor forward.\<close>

lemma wp_stale:
  assumes rd: "ready c"
  shows "wp (commit_stale_packet p) (\<lambda>_. ready) ready c"
proof -
  have inv: "coord_inv c" using rd by (simp add: ready_def)
  have "ready (c\<lparr>dc_cursor := dc_cursor c + n\<rparr>)" for n
  proof -
    have "behind (c\<lparr>dc_cursor := dc_cursor c + n\<rparr>) g" if "behind c g" for g
      using that by (auto simp: behind_def located_def location_of_def intro: less_le_trans)
    then show ?thesis using rd by (auto simp: ready_def)
  qed
  then have "wp (finish_commit n) (\<lambda>_. ready) ready c" for n
    using finish_commit_eq [OF inv, of n] rd by (simp add: wp_def)
  moreover have "prepare_current_stale_packet c \<noteq> Inl Panic"
    by (auto simp: prepare_current_stale_packet_def Let_def rbind_panic ok_or_def effective_batch_scheduled_ticks_def
        split: option.splits if_splits)
  ultimately show ?thesis
    using rd by (auto simp: commit_stale_packet_def wp_sbind wp_sread wp_sfail wp_if split: sum.splits failure.splits option.splits)
qed

lemma ready_no_pending: "coord_inv c \<Longrightarrow> dc_pending_release_mask c = 0 \<Longrightarrow> ready c"
  using pending_mask [OF coord_invD(6), of c] by (auto simp: ready_def)

text \<open>Resumable cancellation always succeeds.\<close>

lemma wp_cancel_live:
  assumes rd: "ready c"
  shows "wp cancel_live_generations_after_verified_resumable_cleanup (\<lambda>_ c'. ready c' \<and> same_layout c c') (\<lambda>_. False) c"
  using cancel_live_ok [of c] rd ready_no_pending by (auto simp: ready_def wp_def)

end
