(* ===== verification/Sky_Construct.thy ===== *)
theory Sky_Construct
  imports Sky_Commit Sky_Schedule
begin

text \<open>
  The constructor of the coordinator establishes the invariant. On a schedule that meets the compiler's
  contract the scan of the Up intents finds every generation exactly once, whatever the cancellation
  callback does between its visits; the only errors are those of the callback and of the caller's unit
  conversion.
\<close>

section \<open>Outcomes independent of the caller's state\<close>

definition outcome :: "('k, 'e, 'a) smethod \<Rightarrow> ('a \<Rightarrow> bool) \<Rightarrow> 'e set \<Rightarrow> bool" where
  "outcome m Q F \<longleftrightarrow> (\<forall>k. case fst (m k) of Inr a \<Rightarrow> Q a | Inl e \<Rightarrow> e \<in> F)"

lemma outcome_sret [simp]: "outcome (sret a) Q F \<longleftrightarrow> Q a"
  by (simp add: outcome_def)

lemma outcome_sfail [simp]: "outcome (sfail e) Q F \<longleftrightarrow> e \<in> F"
  by (simp add: outcome_def)

lemma outcome_sread [simp]: "outcome (sread (\<lambda>_. r)) Q F \<longleftrightarrow> (case r of Inr a \<Rightarrow> Q a | Inl e \<Rightarrow> e \<in> F)"
  by (simp add: outcome_def)

lemma outcome_sbind:
  assumes "outcome m P F" and "\<And>a. P a \<Longrightarrow> outcome (f a) Q F"
  shows "outcome (sbind m f) Q F"
  unfolding outcome_def
proof
  fix k
  obtain r t where m: "m k = (r, t)" by fastforce
  have "case r of Inr a \<Rightarrow> P a | Inl e \<Rightarrow> e \<in> F" using assms(1) m unfolding outcome_def by (metis fst_conv)
  then show "case fst (sbind m f k) of Inr a \<Rightarrow> Q a | Inl e \<Rightarrow> e \<in> F"
    using m assms(2) by (cases r) (auto simp: sbind_apply outcome_def)
qed

lemma outcome_sfold:
  assumes "I [] a"
    and "\<And>ys x zs a. xs = ys @ x # zs \<Longrightarrow> I ys a \<Longrightarrow> outcome (f x a) (I (ys @ [x])) F"
  shows "outcome (sfold f xs a) (I xs) F"
proof -
  have "outcome (sfold f zs b) (I (ys @ zs)) F" if "xs = ys @ zs" "I ys b" for ys zs b
    using that
  proof (induction zs arbitrary: ys b)
    case (Cons z zs)
    have "outcome (f z b) (I (ys @ [z])) F" using Cons.prems assms(2) by simp
    then show ?case
      unfolding sfold.simps by (rule outcome_sbind) (use Cons.IH [of "ys @ [z]"] Cons.prems in simp)
  qed simp
  from this [of "[]" xs a] show ?thesis using assms(1) by simp
qed

text \<open>The errors a callback can raise.\<close>

definition raises :: "'k checkpoint \<Rightarrow> coordinator_error failure set" where
  "raises checkpoint = {e. \<exists>k. fst (checkpoint k) = Inl e}"

lemma outcome_checkpoint: "raises checkpoint \<subseteq> F \<Longrightarrow> outcome (if b then checkpoint else sret ()) (\<lambda>_. True) F"
  by (auto simp: outcome_def raises_def split: sum.splits)

section \<open>Where the Ups are\<close>

definition up_at :: "runtime_schedule \<Rightarrow> generation_id \<Rightarrow> usize \<Rightarrow> usize \<Rightarrow> bool" where
  "up_at rs g p i \<longleftrightarrow> p < length (rs_packets rs) \<and>
     (\<exists>k < length (packet_ups (rs_intents rs) (rs_packets rs ! p)).
        i = unat (cp_up_intent_start (rs_packets rs ! p)) + k \<and>
        intent_gen (packet_ups (rs_intents rs) (rs_packets rs ! p) ! k) = Some g)"

lemma map_filter_unique:
  "distinct (List.map_filter f xs) \<Longrightarrow> k < length xs \<Longrightarrow> k' < length xs \<Longrightarrow>
   f (xs ! k) = Some g \<Longrightarrow> f (xs ! k') = Some g \<Longrightarrow> k = k'"
proof (induction xs arbitrary: k k')
  case (Cons x xs)
  have in_tl: "g \<in> set (List.map_filter f xs)" if "j < length xs" "f (xs ! j) = Some g" for j
    using that by (force simp: List.map_filter_def image_iff)
  show ?case
    using Cons in_tl by (cases k; cases k') (auto simp: map_filter_simps split: option.splits)
qed simp

lemma up_at_unique:
  assumes wf: "schedule_wf rs" and a: "up_at rs g p i" and b: "up_at rs g p' i'"
  shows "p' = p \<and> i' = i"
proof -
  let ?f = "\<lambda>p. List.map_filter intent_gen (packet_ups (rs_intents rs) p)"
  have dist: "distinct (concat (map ?f (rs_packets rs)))"
    using schedule_generations(2) [OF wf] by (simp add: trace_ups_def packet_trace_def comp_def)
  have p: "p' = p"
    by (rule distinct_concat_unique [OF dist, where x = g]) (use a b in \<open>auto simp: up_at_def set_map_filter_gen\<close>)
  have "distinct (?f (rs_packets rs ! p))"
    using dist a by (force simp: distinct_concat_iff up_at_def)
  then show ?thesis using a b p map_filter_unique [of intent_gen] by (auto simp: up_at_def)
qed

lemma up_at_exists:
  assumes wf: "schedule_wf rs" and g: "unat g < unat (rs_generation_count rs)"
  shows "\<exists>p i. up_at rs g p i"
proof -
  have "g \<in> set (trace_ups (packet_trace (rs_intents rs) (rs_packets rs)))"
    using schedule_generations(4) [OF wf] g by (simp add: word_less_nat_alt)
  then obtain p c where "p < length (rs_packets rs)" "c \<in> set (packet_ups (rs_intents rs) (rs_packets rs ! p))"
    "intent_gen c = Some g"
    by (auto simp: trace_ups_def packet_trace_def set_map_filter_gen in_set_conv_nth [of _ "rs_packets rs"])
  then show ?thesis by (auto simp: up_at_def in_set_conv_nth)
qed

lemma up_at_count:
  assumes wf: "schedule_wf rs" and a: "up_at rs g p i"
  shows "unat g < unat (rs_generation_count rs)"
proof -
  have "g \<in> set (trace_ups (packet_trace (rs_intents rs) (rs_packets rs)))"
  proof -
    from a obtain k where p: "p < length (rs_packets rs)" and k: "k < length (packet_ups (rs_intents rs) (rs_packets rs ! p))"
      "intent_gen (packet_ups (rs_intents rs) (rs_packets rs ! p) ! k) = Some g" by (auto simp: up_at_def)
    have "g \<in> set (List.map_filter intent_gen (packet_ups (rs_intents rs) (rs_packets rs ! p)))"
      using k nth_mem [OF k(1)] by (auto simp: set_map_filter_gen)
    then show ?thesis using nth_mem [OF p] by (auto simp: trace_ups_def packet_trace_def)
  qed
  then show ?thesis using schedule_generations(4) [OF wf] by (simp add: word_less_nat_alt)
qed

lemma wf_packet_at: "schedule_wf rs \<Longrightarrow> p < length (rs_packets rs) \<Longrightarrow>
    packet_ok (rs_key_registry rs) (rs_intents rs) (rs_batches rs) (rs_packets rs ! p)"
  by (simp add: schedule_wf_def arena_wf_def)

lemma packet_ups_nth:
  assumes "packet_ok reg xs bs p"
  shows "length (packet_ups xs p) = unat (cp_up_intent_len p)"
    and "k < unat (cp_up_intent_len p) \<Longrightarrow> packet_ups xs p ! k = xs ! (unat (cp_up_intent_start p) + k)"
    and "unat (cp_up_intent_start p) + unat (cp_up_intent_len p) \<le> length xs"
  using assms by (auto simp: packet_ok_def packet_ups_def slice_def)

section \<open>The scan\<close>

definition located_before :: "runtime_schedule \<Rightarrow> usize \<Rightarrow> usize \<Rightarrow> (usize \<times> usize) option list \<Rightarrow> bool" where
  "located_before rs n m L \<longleftrightarrow> length L = unat (rs_generation_count rs) \<and>
     (\<forall>g p i. unat g < unat (rs_generation_count rs) \<longrightarrow>
        (L ! unat g = Some (p, i) \<longleftrightarrow>
           up_at rs g p i \<and> (p < n \<or> p = n \<and> i < unat (cp_up_intent_start (rs_packets rs ! n)) + m)))"

lemma located_before_step:
  assumes wf: "schedule_wf rs" and n: "n < length (rs_packets rs)"
    and m: "m < length (packet_ups (rs_intents rs) (rs_packets rs ! n))"
    and L: "located_before rs n m L" and c: "c = packet_ups (rs_intents rs) (rs_packets rs ! n) ! m"
  shows "intent_gen c = None \<Longrightarrow> located_before rs n (Suc m) L"
    and "intent_gen c = Some g \<Longrightarrow> unat g < length L \<and> L ! unat g = None \<and>
      located_before rs n (Suc m) (L[unat g := Some (n, unat (cp_up_intent_start (rs_packets rs ! n)) + m)])"
proof -
  let ?s = "unat (cp_up_intent_start (rs_packets rs ! n))"
  have here: "up_at rs g n (?s + m) \<longleftrightarrow> intent_gen c = Some g" for g
    using n m c by (auto simp: up_at_def)
  show "located_before rs n (Suc m) L" if "intent_gen c = None"
    using L that here by (auto simp: located_before_def less_Suc_eq)
  show "unat g < length L \<and> L ! unat g = None \<and> located_before rs n (Suc m) (L[unat g := Some (n, ?s + m)])"
    if "intent_gen c = Some g"
  proof -
    have at: "up_at rs g n (?s + m)" using here that by simp
    have g: "unat g < unat (rs_generation_count rs)" using up_at_count [OF wf at] .
    have none: "L ! unat g = None"
    proof (rule ccontr)
      assume "L ! unat g \<noteq> None"
      then obtain p i where "L ! unat g = Some (p, i)" by auto
      then show False using L g up_at_unique [OF wf at, of p i] by (auto simp: located_before_def)
    qed
    have "located_before rs n (Suc m) (L[unat g := Some (n, ?s + m)])"
      unfolding located_before_def
    proof (intro conjI allI impI)
      show "length (L[unat g := Some (n, ?s + m)]) = unat (rs_generation_count rs)" using L by (simp add: located_before_def)
      fix h :: generation_id and p i assume h: "unat h < unat (rs_generation_count rs)"
      show "L[unat g := Some (n, ?s + m)] ! unat h = Some (p, i) \<longleftrightarrow>
          up_at rs h p i \<and> (p < n \<or> p = n \<and> i < ?s + Suc m)"
      proof (cases "h = g")
        case True
        then show ?thesis using L g at up_at_unique [OF wf at, of p i] by (auto simp: located_before_def)
      next
        case False
        have "up_at rs h p i \<Longrightarrow> p = n \<Longrightarrow> i \<noteq> ?s + m" using here that False by auto
        moreover have "L[unat g := Some (n, ?s + m)] ! unat h = L ! unat h"
          using False by (metis nth_list_update_neq word_unat_eq_iff)
        ultimately show ?thesis
          using L h by (auto simp: located_before_def less_Suc_eq)
      qed
    qed
    then show ?thesis using L g none by (simp add: located_before_def)
  qed
qed

lemma located_before_packet:
  assumes "schedule_wf rs" and "n < length (rs_packets rs)"
    and "located_before rs n (length (packet_ups (rs_intents rs) (rs_packets rs ! n))) L"
  shows "located_before rs (Suc n) 0 L"
proof -
  have "i < unat (cp_up_intent_start (rs_packets rs ! n)) + length (packet_ups (rs_intents rs) (rs_packets rs ! n))"
    if "up_at rs g n i" for g i
    using that by (auto simp: up_at_def)
  moreover have "\<not> i < unat (cp_up_intent_start (rs_packets rs ! Suc n))" if "up_at rs g (Suc n) i" for g i
    using that by (auto simp: up_at_def)
  ultimately show ?thesis using assms(3) by (auto simp: located_before_def less_Suc_eq)
qed

lemma intent_gen_cases:
  "intent_gen c = None \<longleftrightarrow> compact_generation_id c = NO_GENERATION_ID"
  "intent_gen c = Some g \<longleftrightarrow> compact_generation_id c = g \<and> g \<noteq> NO_GENERATION_ID"
  by (auto simp: intent_gen_def)

lemma enumerate_prefix:
  "enumerate 0 xs = ys @ (n, x) # zs \<Longrightarrow> n = length ys \<and> n < length xs \<and> x = xs ! n"
proof -
  assume eq: "enumerate 0 xs = ys @ (n, x) # zs"
  have len: "length ys < length xs" using arg_cong [OF eq, of length] by simp
  have "enumerate 0 xs ! length ys = (n, x)" using eq by simp
  then show ?thesis using len by (auto simp: nth_enumerate_eq)
qed

lemma locate_packet_outcome:
  assumes wf: "schedule_wf rs" and n: "n < length (rs_packets rs)" and F: "raises checkpoint \<subseteq> F"
    and L: "located_before rs n 0 L"
  shows "outcome (locate_packet_ups checkpoint rs (n, rs_packets rs ! n) (v, L)) (\<lambda>(_, L). located_before rs (Suc n) 0 L) F"
proof -
  let ?p = "rs_packets rs ! n" and ?xs = "rs_intents rs"
  let ?ups = "packet_ups ?xs ?p"
  note pk = packet_ups_nth [OF wf_packet_at [OF wf n]]
  let ?I = "\<lambda>ys (a :: usize \<times> (usize \<times> usize) option list). located_before rs n (length (ys :: (usize \<times> compact_intent) list)) (snd a)"
  have "outcome (sfold (locate_up_intent checkpoint (rs_generation_count rs) n (unat (cp_up_intent_start ?p))) (enumerate 0 ?ups) (v, L))
      (?I (enumerate 0 ?ups)) F"
  proof (rule outcome_sfold)
    show "?I [] (v, L)" using L by simp
    fix ys x zs and a :: "usize \<times> (usize \<times> usize) option list"
    assume split: "enumerate 0 ?ups = ys @ x # zs" and I: "?I ys a"
    obtain m c where x: "x = (m, c)" by fastforce
    have m: "m = length ys" "m < length ?ups" "c = ?ups ! m" using enumerate_prefix [of ?ups ys m c zs] split x by simp_all
    obtain v' L' where a: "a = (v', L')" by fastforce
    note step = located_before_step [OF wf n _ _ m(3), of L']
    show "outcome (locate_up_intent checkpoint (rs_generation_count rs) n (unat (cp_up_intent_start ?p)) x a) (?I (ys @ [x])) F"
      unfolding locate_up_intent_def x a prod.case Let_def
    proof (rule outcome_sbind [OF outcome_checkpoint [OF F]])
      show "outcome (if compact_generation_id c = NO_GENERATION_ID
          then sret (if v' + 1 < usize_limit then v' + 1 else v', L')
          else (case nth_opt L' (unat (compact_generation_id c)) of
            None \<Rightarrow> sfail (Err (Invariant (UnknownGeneration (compact_generation_id c) (rs_generation_count rs))))
          | Some location \<Rightarrow> if location \<noteq> None then sfail (accounting ''generation owns more than one authored Up intent'')
              else sret (if v' + 1 < usize_limit then v' + 1 else v',
                 L'[unat (compact_generation_id c) := Some (n, unat (cp_up_intent_start ?p) + m)])))
        (?I (ys @ [(m, c)])) F"
      proof (cases "intent_gen c")
        case None
        then show ?thesis using step(1) m I a by (simp add: intent_gen_cases)
      next
        case (Some g)
        then have "compact_generation_id c = g" "g \<noteq> NO_GENERATION_ID" by (simp_all add: intent_gen_cases)
        then show ?thesis using step(2) [OF _ _ Some] m I a by simp
      qed
    qed
  qed
  then have "outcome (sfold (locate_up_intent checkpoint (rs_generation_count rs) n (unat (cp_up_intent_start ?p))) (enumerate 0 ?ups) (v, L))
      (\<lambda>(_, L). located_before rs (Suc n) 0 L) F"
    using located_before_packet [OF wf n] by (auto simp: outcome_def split: sum.splits)
  moreover have "checked_add_usize (unat (cp_up_intent_start ?p)) (unat (cp_up_intent_len ?p))
      = Some (unat (cp_up_intent_start ?p) + unat (cp_up_intent_len ?p))"
    using up_range_end_eq [of ?p] by (simp add: up_range_end_def)
  moreover have "slice_get ?xs (unat (cp_up_intent_start ?p)) (unat (cp_up_intent_start ?p) + unat (cp_up_intent_len ?p)) = Some ?ups"
    using pk(3) by (simp add: slice_get_slice packet_ups_def)
  ultimately show ?thesis
    unfolding locate_packet_ups_def prod.case Let_def
    by (intro outcome_sbind [OF outcome_checkpoint [OF F]] outcome_sbind [where P = "\<lambda>a. a = unat (cp_up_intent_start ?p) + unat (cp_up_intent_len ?p)"]
        outcome_sbind [where P = "\<lambda>a. a = ?ups"]) simp_all
qed

section \<open>The fresh coordinator\<close>

definition fresh ::
  "runtime_schedule \<Rightarrow> u64 \<Rightarrow> duration_ticks \<Rightarrow> timeline_ticks list \<Rightarrow> (usize \<times> usize) option list \<Rightarrow> coordinator" where
  "fresh rs min_hold_us min_hold_ticks ticks L =
     \<lparr>dc_schedule = rs, dc_min_hold_us = min_hold_us, dc_min_hold_ticks = min_hold_ticks,
      dc_batch_scheduled_ticks = ticks, dc_cursor = 0,
      dc_active_by_slot = replicate MAX_KEYS None, dc_active_mask = 0, dc_blocked_mask = 0,
      dc_counters = counters_default, dc_activated_generation_count = 0,
      dc_generation_states = replicate (unat (rs_generation_count rs)) Scheduled,
      dc_generation_count = rs_generation_count rs, dc_up_intent_locations = L,
      dc_cancelled_up_by_slot = replicate MAX_KEYS None,
      dc_pending_release_by_slot = replicate MAX_KEYS None, dc_pending_release_mask = 0\<rparr>"

definition fresh_for ::
  "runtime_schedule \<Rightarrow> u64 \<Rightarrow> duration_ticks \<Rightarrow> (u64 \<Rightarrow> timeline_ticks coord_result) \<Rightarrow> coordinator \<Rightarrow> bool" where
  "fresh_for rs min_hold_us min_hold_ticks us_to_ticks c \<longleftrightarrow>
     (\<exists>ticks L. c = fresh rs min_hold_us min_hold_ticks ticks L \<and>
        located_before rs (length (rs_packets rs)) 0 L \<and>
        map Inr ticks = map (\<lambda>b. us_to_ticks (cb_scheduled_us b)) (rs_batches rs))"

definition conversion_errors :: "(u64 \<Rightarrow> timeline_ticks coord_result) \<Rightarrow> compiled_batch list \<Rightarrow> coordinator_error failure set" where
  "conversion_errors us_to_ticks bs = {e. \<exists>b \<in> set bs. us_to_ticks (cb_scheduled_us b) = Inl e}"

lemma outcome_replicate:
  assumes "raises checkpoint \<subseteq> F"
  shows "outcome (sfold (\<lambda>index xs. sbind (if index mod m = 0 then checkpoint else sret ()) (\<lambda>_. sret (xs @ [x])))
      [0..<n] []) (\<lambda>xs. xs = replicate n x) F"
proof -
  have "outcome (sfold (\<lambda>index xs. sbind (if index mod m = 0 then checkpoint else sret ()) (\<lambda>_. sret (xs @ [x])))
      [0..<n] []) (\<lambda>xs. xs = replicate (length [0..<n]) x) F"
  proof (rule outcome_sfold [where I = "\<lambda>ys xs. xs = replicate (length ys) x"])
    fix ys :: "nat list" and i zs xs assume "xs = replicate (length ys) x"
    then show "outcome (sbind (if i mod m = 0 then checkpoint else sret ()) (\<lambda>_. sret (xs @ [x])))
        (\<lambda>xs. xs = replicate (length (ys @ [i])) x) F"
      by (intro outcome_sbind [OF outcome_checkpoint [OF assms]]) (simp add: replicate_append_same)
  qed simp
  then show ?thesis by simp
qed

lemma outcome_ticks:
  assumes "raises checkpoint \<subseteq> F" and "conversion_errors us_to_ticks bs \<subseteq> F"
  shows "outcome (sfold (\<lambda>(index, batch) ticks. sbind (if index mod m = 0 then checkpoint else sret ())
                     (\<lambda>_. sbind (sread (\<lambda>_. us_to_ticks (cb_scheduled_us batch)))
                     (\<lambda>t. sret (ticks @ [t])))) (enumerate 0 bs) [])
      (\<lambda>ticks. map Inr ticks = map (\<lambda>b. us_to_ticks (cb_scheduled_us b)) bs) F"
proof -
  let ?I = "\<lambda>ys ticks. map Inr ticks = map (\<lambda>(i, b). us_to_ticks (cb_scheduled_us b)) (ys :: (nat \<times> compiled_batch) list)"
  have "outcome (sfold (\<lambda>(index, batch) ticks. sbind (if index mod m = 0 then checkpoint else sret ())
                     (\<lambda>_. sbind (sread (\<lambda>_. us_to_ticks (cb_scheduled_us batch)))
                     (\<lambda>t. sret (ticks @ [t])))) (enumerate 0 bs) []) (?I (enumerate 0 bs)) F"
  proof (rule outcome_sfold)
    fix ys x zs ticks assume split: "enumerate 0 bs = ys @ x # zs" and I: "?I ys ticks"
    obtain i b where x: "x = (i, b)" by fastforce
    have "b \<in> set bs" using enumerate_prefix [of bs ys i b zs] split x by simp
    then have "e \<in> F" if "us_to_ticks (cb_scheduled_us b) = Inl e" for e
      using assms(2) that by (auto simp: conversion_errors_def)
    then show "outcome ((\<lambda>(index, batch) ticks. sbind (if index mod m = 0 then checkpoint else sret ())
                     (\<lambda>_. sbind (sread (\<lambda>_. us_to_ticks (cb_scheduled_us batch)))
                     (\<lambda>t. sret (ticks @ [t])))) x ticks) (?I (ys @ [x])) F"
      unfolding x prod.case
      by (intro outcome_sbind [OF outcome_checkpoint [OF assms(1)]]
          outcome_sbind [where P = "\<lambda>t. us_to_ticks (cb_scheduled_us b) = Inr t"])
        (use I in \<open>auto split: sum.splits\<close>)
  qed simp
  moreover have "map (\<lambda>(i, b). us_to_ticks (cb_scheduled_us b)) (enumerate 0 bs) = map (\<lambda>b. us_to_ticks (cb_scheduled_us b)) bs"
    by (rule nth_equalityI) (simp_all add: nth_enumerate_eq)
  ultimately show ?thesis by simp
qed

text \<open>The constructor yields the fresh coordinator or an error of the caller.\<close>

lemma construct_outcome:
  assumes wf: "schedule_wf rs"
  shows "outcome (try_new_ticks_with_checkpoint rs min_hold_us min_hold_ticks us_to_ticks checkpoint)
    (fresh_for rs min_hold_us min_hold_ticks us_to_ticks)
    (raises checkpoint \<union> conversion_errors us_to_ticks (rs_batches rs))" (is "outcome _ _ ?F")
proof -
  have F: "raises checkpoint \<subseteq> ?F" "conversion_errors us_to_ticks (rs_batches rs) \<subseteq> ?F" by auto
  let ?n = "unat (rs_generation_count rs)"
  have n: "?n < usize_limit" using unsigned_less [of "rs_generation_count rs"] by (simp add: usize_limit_def)
  let ?I = "\<lambda>ys (a :: usize \<times> (usize \<times> usize) option list). located_before rs (length (ys :: (usize \<times> compiled_packet) list)) 0 (snd a)"
  have ups: "outcome (sfold (locate_packet_ups checkpoint rs) (enumerate 0 (rs_packets rs)) (0, replicate ?n None))
      (?I (enumerate 0 (rs_packets rs))) ?F"
  proof (rule outcome_sfold)
    show "?I [] (0, replicate ?n None)" by (auto simp: located_before_def up_at_def)
    fix ys x zs and a :: "usize \<times> (usize \<times> usize) option list"
    assume split: "enumerate 0 (rs_packets rs) = ys @ x # zs" and I: "?I ys a"
    obtain m p where x: "x = (m, p)" by fastforce
    have m: "m = length ys" "m < length (rs_packets rs)" "p = rs_packets rs ! m"
      using enumerate_prefix [of "rs_packets rs" ys m p zs] split x by simp_all
    show "outcome (locate_packet_ups checkpoint rs x a) (?I (ys @ [x])) ?F"
      using locate_packet_outcome [OF wf m(2) F(1), of "snd a" "fst a"] I m x
      by (simp add: case_prod_unfold)
  qed
  have ups': "outcome (sfold (locate_packet_ups checkpoint rs) (enumerate 0 (rs_packets rs)) (0, L))
      (?I (enumerate 0 (rs_packets rs))) ?F" if "L = replicate ?n None" for L
    using ups that by simp
  show ?thesis
    unfolding try_new_ticks_with_checkpoint_def Let_def
    by (intro outcome_sbind [where P = "\<lambda>a. a = ?n"] outcome_sbind [OF outcome_replicate [OF F(1), where x = Scheduled]]
        outcome_sbind [OF outcome_ticks [OF F]] outcome_sbind [OF outcome_replicate [OF F(1), where x = None]] outcome_sbind [OF ups'])
      (use n in \<open>auto simp: fresh_for_def fresh_def\<close>)
qed

lemma fresh_fields [simp]:
  "dc_schedule (fresh rs u h t L) = rs" "dc_min_hold_ticks (fresh rs u h t L) = h" "dc_min_hold_us (fresh rs u h t L) = u"
  "dc_batch_scheduled_ticks (fresh rs u h t L) = t" "dc_cursor (fresh rs u h t L) = 0"
  "dc_active_by_slot (fresh rs u h t L) = replicate MAX_KEYS None" "dc_active_mask (fresh rs u h t L) = 0"
  "dc_blocked_mask (fresh rs u h t L) = 0" "dc_counters (fresh rs u h t L) = counters_default"
  "dc_activated_generation_count (fresh rs u h t L) = 0"
  "dc_generation_states (fresh rs u h t L) = replicate (unat (rs_generation_count rs)) Scheduled"
  "dc_generation_count (fresh rs u h t L) = rs_generation_count rs" "dc_up_intent_locations (fresh rs u h t L) = L"
  "dc_cancelled_up_by_slot (fresh rs u h t L) = replicate MAX_KEYS None"
  "dc_pending_release_by_slot (fresh rs u h t L) = replicate MAX_KEYS None" "dc_pending_release_mask (fresh rs u h t L) = 0"
  by (simp_all add: fresh_def)

lemma up_at_intent:
  assumes wf: "schedule_wf rs" and at: "up_at rs g p i"
  shows "p < length (rs_packets rs)" and "i < length (rs_intents rs)" and "intent_gen (rs_intents rs ! i) = Some g"
    and "unat (cp_up_intent_start (rs_packets rs ! p)) \<le> i"
    and "i < unat (cp_up_intent_start (rs_packets rs ! p)) + unat (cp_up_intent_len (rs_packets rs ! p))"
    and "rs_intents rs ! i \<in> set (packet_ups (rs_intents rs) (rs_packets rs ! p))"
    and "p < 2 ^ 32" and "i < 2 ^ 32" and "intent_slot (rs_intents rs ! i) < MAX_KEYS"
proof -
  let ?p = "rs_packets rs ! p" and ?xs = "rs_intents rs"
  show p: "p < length (rs_packets rs)" using at by (simp add: up_at_def)
  note ok = wf_packet_at [OF wf p]
  note pk = packet_ups_nth [OF ok]
  obtain k where k: "k < unat (cp_up_intent_len ?p)" "i = unat (cp_up_intent_start ?p) + k" "intent_gen (packet_ups ?xs ?p ! k) = Some g"
    using at pk(1) by (auto simp: up_at_def)
  have nth: "packet_ups ?xs ?p ! k = ?xs ! i" using pk(2) [OF k(1)] k(2) by simp
  show "i < length ?xs" "intent_gen (?xs ! i) = Some g" "unat (cp_up_intent_start ?p) \<le> i"
    "i < unat (cp_up_intent_start ?p) + unat (cp_up_intent_len ?p)"
    using k nth pk(3) by auto
  show mem: "?xs ! i \<in> set (packet_ups ?xs ?p)" using nth_mem [of k "packet_ups ?xs ?p"] k(1) pk(1) nth by simp
  have "unat (cp_packet_id ?p) = p" using wf p by (simp add: schedule_wf_def arena_wf_def)
  then show "p < 2 ^ 32" using unsigned_less [of "cp_packet_id ?p", where ?'a = nat] by simp
  have "i < unat (cp_down_intent_start ?p)" using k ok by (simp add: packet_ok_def)
  then show "i < 2 ^ 32" using unsigned_less [of "cp_down_intent_start ?p", where ?'a = nat] by simp
  have "intent_slot (?xs ! i) < registry_len (rs_key_registry rs)" using ok mem by (simp add: packet_ok_def)
  then show "intent_slot (?xs ! i) < MAX_KEYS" using wf by (simp add: schedule_wf_def arena_wf_def registry_wf_def)
qed

lemma located_fresh:
  assumes wf: "schedule_wf rs" and L: "located_before rs (length (rs_packets rs)) 0 L"
  shows "located (fresh rs u h t L) g p i s \<longleftrightarrow> up_at rs g p i \<and> s = intent_slot (rs_intents rs ! i)"
proof
  assume loc: "located (fresh rs u h t L) g p i s"
  then have g: "unat g < length L" "L ! unat g = Some (p, i)" by (auto simp: located_def location_of_def result_simps)
  then show "up_at rs g p i \<and> s = intent_slot (rs_intents rs ! i)"
    using L loc by (auto simp: located_before_def located_def intent_slot_def)
next
  assume r: "up_at rs g p i \<and> s = intent_slot (rs_intents rs ! i)"
  then have at: "up_at rs g p i" by simp
  note at' = up_at_intent [OF wf at]
  have "unat g < length L" "L ! unat g = Some (p, i)" using L at at'(1) up_at_count [OF wf at] by (auto simp: located_before_def)
  then show "located (fresh rs u h t L) g p i s"
    using at' r by (simp add: located_def location_of_def intent_slot_def)
qed

lemma has_status_fresh: "has_status (fresh rs u h t L) g st \<longleftrightarrow> unat g < unat (rs_generation_count rs) \<and> st = Scheduled"
  by (auto simp: has_status_def)

lemma fresh_ready:
  assumes wf: "schedule_wf rs" and L: "located_before rs (length (rs_packets rs)) 0 L"
  shows "ready (fresh rs u h t L)" (is "ready ?c")
proof -
  note loc = located_fresh [OF wf L, of u h t]
  have count: "unat (rs_generation_count rs) < 2 ^ 60" using wf by (simp add: schedule_wf_def arena_wf_def)
  have "ledger_base ?c"
  proof -
    have "unat (counter_of counters_default st) = 0" for st by (cases st) (simp_all add: counters_default_def)
    then show ?thesis
      using count_list_le_length [of "replicate (unat (rs_generation_count rs)) Scheduled" Scheduled]
      by (auto simp: ledger_base_def counters_match_def is_terminal_iff)
  qed
  moreover have "activation_inv ?c" by (simp add: activation_inv_def ntok_def)
  moreover have "static_inv ?c"
    unfolding static_inv_def loc
  proof (intro conjI allI impI)
    show "\<exists>p i s. up_at rs g p i \<and> s = intent_slot (rs_intents rs ! i)" if "unat g < total_of ?c" for g
      using up_at_exists [OF wf, of g] that by auto
    fix g g' p i i' s
    assume a: "(up_at rs g p i \<and> s = intent_slot (rs_intents rs ! i)) \<and> up_at rs g' p i' \<and> s = intent_slot (rs_intents rs ! i')"
    note u = up_at_intent [OF wf conjunct1 [OF conjunct1 [OF a]]]
    note v = up_at_intent [OF wf conjunct1 [OF conjunct2 [OF a]]]
    have p': "p < length (packet_trace (rs_intents rs) (rs_packets rs))" using u(1) by (simp add: packet_trace_def)
    obtain op where "step_ok op (packet_ups (rs_intents rs) (rs_packets rs ! p), packet_downs (rs_intents rs) (rs_packets rs ! p))"
      using replay_take [OF schedule_trace(1) [OF wf] p'] u(1) by (auto simp: packet_trace_def)
    then have "rs_intents rs ! i = rs_intents rs ! i'"
      using u(6) v(6) a by (auto simp: step_ok_def distinct_map dest: inj_onD)
    then show "g = g'" using u(3) v(3) by simp
  qed (use count in simp_all)
  moreover have "live_inv ?c"
    unfolding live_inv_def loc
  proof (intro allI impI)
    fix g p i s assume a: "live ?c g \<and> up_at rs g p i \<and> s = intent_slot (rs_intents rs ! i)"
    note u = up_at_intent [OF wf conjunct1 [OF conjunct2 [OF a]]]
    have "bit (cp_up_mask (rs_packets rs ! p)) s"
      using wf_packet_at [OF wf u(1)] u(3,6) a by (auto simp: packet_ok_def)
    then show "compact_generation_id (intents_of ?c ! i) = g \<and> bit (cp_up_mask (packets_of ?c ! p)) s"
      using u(3) by (simp add: intent_gen_cases)
  qed
  moreover have "owner_inv ?c" by (simp add: owner_inv_def has_status_fresh)
  moreover have "pending_inv ?c" "token_inv ?c" by (simp_all add: pending_inv_def token_inv_def)
  ultimately have "coord_inv ?c" by (simp add: coord_inv_def)
  then show ?thesis by (rule ready_no_pending) simp
qed

lemma fresh_for_ready: "schedule_wf rs \<Longrightarrow> fresh_for rs u h f c \<Longrightarrow> ready c"
  by (auto simp: fresh_for_def fresh_ready)

end
