(* ===== verification/Sky_Prepare.thy ===== *)
theory Sky_Prepare
  imports Sky_Construct
begin

text \<open>
  Preparation produces only tokens that describe the schedule. Whatever operations ran, the schedule a
  coordinator holds is the compiled one up to the Ups it invalidated: Down intents, batches, ranges and
  boundary times never change. On top of that frame a prepared packet is shown to be frozen for its
  coordinator, so that the commits apply to it.
\<close>

section \<open>What no operation changes\<close>

definition up_indices :: "coordinator \<Rightarrow> nat set" where
  "up_indices c = {i. \<exists>g p. location_of c g = Some (Some (p, i))} \<union>
     {i. \<exists>p < length (packets_of c). unat (cp_up_intent_start (packets_of c ! p)) \<le> i \<and>
           i < unat (cp_up_intent_start (packets_of c ! p)) + unat (cp_up_intent_len (packets_of c ! p))}"

definition authored :: "coordinator \<Rightarrow> coordinator \<Rightarrow> bool" where
  "authored c c' \<longleftrightarrow>
     rs_batches (dc_schedule c') = rs_batches (dc_schedule c) \<and>
     rs_key_registry (dc_schedule c') = rs_key_registry (dc_schedule c) \<and>
     rs_generation_count (dc_schedule c') = rs_generation_count (dc_schedule c) \<and>
     dc_generation_count c' = dc_generation_count c \<and> dc_min_hold_ticks c' = dc_min_hold_ticks c \<and>
     dc_batch_scheduled_ticks c' = dc_batch_scheduled_ticks c \<and> dc_up_intent_locations c' = dc_up_intent_locations c \<and>
     length (packets_of c') = length (packets_of c) \<and>
     (\<forall>p < length (packets_of c). (packets_of c' ! p)\<lparr>cp_up_mask := 0\<rparr> = (packets_of c ! p)\<lparr>cp_up_mask := 0\<rparr>) \<and>
     length (intents_of c') = length (intents_of c) \<and>
     (\<forall>i < length (intents_of c). compact_key_slot (intents_of c' ! i) = compact_key_slot (intents_of c ! i) \<and>
        (i \<notin> up_indices c \<longrightarrow> intents_of c' ! i = intents_of c ! i))"

lemma same_header_fields:
  assumes "p\<lparr>cp_up_mask := 0\<rparr> = q\<lparr>cp_up_mask := 0\<rparr>"
  shows "cp_up_intent_start p = cp_up_intent_start q" "cp_up_intent_len p = cp_up_intent_len q"
    "cp_down_intent_start p = cp_down_intent_start q" "cp_down_intent_len p = cp_down_intent_len q"
    "cp_down_mask p = cp_down_mask q" "cp_first_batch_index p = cp_first_batch_index q"
    "cp_batch_count p = cp_batch_count q" "cp_packet_id p = cp_packet_id q" "cp_scheduled_us p = cp_scheduled_us q"
    "cp_down_source_action_index p = cp_down_source_action_index q"
  using assms by (cases p; cases q; simp)+

lemma authored_header:
  assumes "authored c c'" and "p < length (packets_of c)"
  shows "(packets_of c' ! p)\<lparr>cp_up_mask := 0\<rparr> = (packets_of c ! p)\<lparr>cp_up_mask := 0\<rparr>"
  using assms by (simp add: authored_def)

lemma up_indices_authored:
  assumes "authored c c'" shows "up_indices c' = up_indices c"
proof -
  have "cp_up_intent_start (packets_of c' ! p) = cp_up_intent_start (packets_of c ! p) \<and>
      cp_up_intent_len (packets_of c' ! p) = cp_up_intent_len (packets_of c ! p)" if "p < length (packets_of c)" for p
    using same_header_fields(1,2) [OF authored_header [OF assms that]] by simp
  moreover have "length (packets_of c') = length (packets_of c)" "location_of c' = location_of c"
    using assms by (auto simp: authored_def location_of_def)
  ultimately show ?thesis by (auto simp: up_indices_def)
qed

interpretation authored: frame_preorder authored
proof unfold_locales
  fix c c' c'' assume a: "authored c c'" and b: "authored c' c''"
  show "authored c c''"
    using a b up_indices_authored [OF a] by (simp add: authored_def)
qed (simp add: authored_def)

lemma authored_layout: "authored c c' \<Longrightarrow> same_layout c c'"
proof -
  assume a: "authored c c'"
  then show ?thesis
    using same_header_fields(1,2,6,7) [OF authored_header [OF a]] by (simp add: same_layout_def authored_def)
qed

text \<open>Updates that leave the schedule and the fixed tables alone.\<close>

definition same_source :: "coordinator \<Rightarrow> coordinator \<Rightarrow> bool" where
  "same_source c c' \<longleftrightarrow> dc_schedule c' = dc_schedule c \<and> dc_generation_count c' = dc_generation_count c \<and>
     dc_min_hold_ticks c' = dc_min_hold_ticks c \<and> dc_batch_scheduled_ticks c' = dc_batch_scheduled_ticks c \<and>
     dc_up_intent_locations c' = dc_up_intent_locations c"

interpretation same_source: frame_preorder same_source
  by unfold_locales (simp_all add: same_source_def)

lemma same_source_authored: "same_source c c' \<Longrightarrow> authored c c'"
  by (simp add: same_source_def authored_def)

lemma source_transition: "frames same_source (transition_generation g from nxt)"
  unfolding transition_generation_def
proof (intro same_source.frame_intros)
  show "frames same_source increment_activated"
    by (rule framesI) (simp add: increment_activated_def same_source_def split: option.splits)
  show "frames same_source (increment_counter nxt)"
    by (rule framesI) (simp add: increment_counter_def same_source_def split: sum.splits)
  show "frames same_source (supdate (set_status g nxt))"
    by (rule same_source.frames_supdate) (simp add: same_source_def set_status_def)
qed

lemma source_tables:
  "frames same_source (set_active slot a)" "frames same_source (set_pending slot q)" "frames same_source (set_cancelled slot t)"
  by (rule framesI; simp add: set_active_def set_pending_def set_cancelled_def same_source_def)+

lemma source_own: "frames same_source (own_slot slot a)" and source_disown: "frames same_source (disown_slot slot)"
  unfolding own_slot_def disown_slot_def
  by (intro same_source.frame_intros source_tables same_source.frames_supdate; simp add: same_source_def)+

lemma source_reconcile: "frames same_source (reconcile_resumable_cancelled_up t)"
  unfolding reconcile_resumable_cancelled_up_def Let_def
  by (intro same_source.frame_intros source_tables same_source.frames_supdate) (simp add: same_source_def set_status_def)

lemma source_commit_up: "frames same_source (commit_prepared_up f started u)"
  unfolding commit_prepared_up_def commit_immediate_up_def commit_deferred_up_def register_pending_def Let_def
  by (intro same_source.frame_intros source_transition source_disown source_reconcile source_tables same_source.frames_supdate)
    (simp_all add: same_source_def)

lemma source_commit_down: "frames same_source (commit_sent_down i r d)"
  unfolding commit_sent_down_def Let_def
  by (intro same_source.frame_intros source_transition source_own)

lemma source_release_pending: "frames same_source (release_pending_slot st n)"
  unfolding release_pending_slot_def Let_def
  by (intro same_source.frame_intros source_transition source_disown source_tables same_source.frames_supdate)
    (simp add: same_source_def)

lemma source_finish: "frames same_source (finish_commit n)"
  unfolding finish_commit_def
proof (intro same_source.frame_intros)
  show "frames same_source (advance_cursor n)"
    by (rule framesI) (simp add: advance_cursor_def same_source_def split: option.splits)
qed

lemmas authored_of_source = frames_mono [OF _ same_source_authored]

lemma authored_set_intent:
  assumes "i \<in> up_indices c" and "compact_key_slot x = compact_key_slot (intents_of c ! i)"
  shows "authored c (set_intent i x c)"
  using assms by (simp add: authored_def set_intent_def nth_update_if)

lemma authored_set_mask:
  "authored c (c\<lparr>dc_schedule := (dc_schedule c)\<lparr>rs_packets := (packets_of c)[p := (packets_of c ! p)\<lparr>cp_up_mask := m\<rparr>]\<rparr>\<rparr>)"
  by (simp add: authored_def nth_update_if)

lemma authored_invalidate: "frames authored (invalidate_up_for_generation g)"
proof (rule framesI)
  fix c :: coordinator
  show "authored c (snd (invalidate_up_for_generation g c))"
  proof (cases "Option.bind (location_of c g) id")
    case (Some loc)
    obtain p i where loc: "loc = (p, i)" by fastforce
    have i: "i \<in> up_indices c" using Some loc by (auto simp: up_indices_def bind_eq_Some_conv)
    let ?c = "set_intent i (compact_new NO_GENERATION_ID (compact_key_slot (intents_of c ! i))) c"
    have a: "authored c ?c" using authored_set_intent [OF i] compact_NO_slot by simp
    have b: "authored c (?c\<lparr>dc_schedule := (dc_schedule ?c)\<lparr>rs_packets := (packets_of ?c)[p := (packets_of ?c ! p)\<lparr>cp_up_mask := m\<rparr>]\<rparr>\<rparr>)" for m
      using authored.frame_trans [OF a authored_set_mask] .
    show ?thesis
      using Some loc a b by (auto simp: invalidate_up_for_generation_def Let_def nth_opt_def authored.frame_refl)
  qed (simp add: invalidate_up_for_generation_def authored.frame_refl)
qed

lemma authored_invalidate_resumable: "frames authored (invalidate_authored_up_for_resumable_cancellation t)"
proof (rule framesI)
  fix c :: coordinator
  let ?i = "identity_intent_index t"
  have "authored c (set_intent ?i (compact_new NO_GENERATION_ID (identity_key_slot t)) c)"
    if "identity_packet_index t < length (packets_of c)" "?i < length (intents_of c)"
      "compact_key_slot (intents_of c ! ?i) = identity_key_slot t"
      "unat (cp_up_intent_start (packets_of c ! identity_packet_index t)) \<le> ?i"
      "?i < unat (cp_up_intent_start (packets_of c ! identity_packet_index t)) + unat (cp_up_intent_len (packets_of c ! identity_packet_index t))"
  proof (rule authored_set_intent)
    show "?i \<in> up_indices c" using that by (auto simp: up_indices_def)
    show "compact_key_slot (compact_new NO_GENERATION_ID (identity_key_slot t)) = compact_key_slot (intents_of c ! ?i)"
      using that(3) compact_NO_slot [of "intents_of c ! ?i"] by simp
  qed
  then show "authored c (snd (invalidate_authored_up_for_resumable_cancellation t c))"
    by (auto simp: invalidate_authored_up_for_resumable_cancellation_def sbind_apply Let_def nth_opt_def
        up_range_end_eq authored.frame_refl not_less not_le)
qed

lemma authored_drop: "frames authored (drop_generation st g)"
  unfolding drop_generation_def terminalize_def
  by (intro authored.frame_intros authored_of_source [OF source_transition] authored_invalidate)

lemma authored_miss_down: "frames authored (miss_down d m)"
  unfolding miss_down_def Let_def
  by (intro authored.frame_intros authored_of_source [OF source_transition] authored_invalidate)

lemma authored_commits:
  "frames authored (commit_prepared_authored_frame_metadata_frozen commit)"
  "frames authored (commit_prepared_authored_frame_success_frozen commit started)"
  "frames authored (commit_prepared_authored_frame_deadline_miss commit um dm started)"
  "frames authored (commit_pending_release_success m started)"
  "frames authored (commit_stale_packet p)"
proof -
  note up = authored_of_source [OF source_commit_up] and fin = authored_of_source [OF source_finish]
  show "frames authored (commit_prepared_authored_frame_metadata_frozen commit)"
    unfolding commit_prepared_authored_frame_metadata_frozen_def commit_prepared_up_intents_frozen_def check_cursor_def Let_def
    by (intro authored.frame_intros up fin)
  show "frames authored (commit_prepared_authored_frame_success_frozen commit started)"
    unfolding commit_prepared_authored_frame_success_frozen_def commit_prepared_up_intents_frozen_def check_cursor_def Let_def
    by (intro authored.frame_intros up fin authored_of_source [OF source_commit_down])
  show "frames authored (commit_prepared_authored_frame_deadline_miss commit um dm started)"
    unfolding commit_prepared_authored_frame_deadline_miss_def commit_prepared_up_intents_frozen_def check_cursor_def Let_def
    by (intro authored.frame_intros up fin authored_miss_down)
  show "frames authored (commit_pending_release_success m started)"
    unfolding commit_pending_release_success_def
    by (intro authored.frame_intros authored_of_source [OF source_release_pending])
  show "frames authored (commit_stale_packet p)"
    unfolding commit_stale_packet_def by (intro authored.frame_intros fin)
qed

lemma authored_drops:
  "frames authored (drop_downs st intents)" "frames authored (terminalize_conflicted_slots cs m)"
  "frames authored (split_down_intents intents)"
proof -
  show "frames authored (drop_downs st intents)"
    unfolding drop_downs_def by (intro authored.frame_intros authored_drop)
  show "frames authored (terminalize_conflicted_slots cs m)"
    unfolding terminalize_conflicted_slots_def by (intro authored.frame_intros authored_drop)
  have "frames authored (split_down_intent i a)" for i a
  proof (rule framesI)
    fix c
    have "frames authored (sbind (case rk_generation_id i of Some g \<Rightarrow> drop_generation DroppedConflict g | None \<Rightarrow> sret ())
        (\<lambda>_. sret (fst a, snd a @ [i])))"
      by (intro authored.frame_intros authored_drop)
    then show "authored c (snd (split_down_intent i a c))"
      by (simp add: split_down_intent_def frames_def authored.frame_refl case_prod_unfold)
  qed
  then have "frames authored (sfold split_down_intent intents ([], []))" by (intro authored.frame_intros)
  then show "frames authored (split_down_intents intents)"
    by (simp add: frames_def split_down_intents_def authored.frame_refl)
qed

lemma authored_cancel_live: "frames authored cancel_live_generations_after_verified_resumable_cleanup"
proof -
  have slot: "frames authored (cancel_live_slot x)" for x
    unfolding cancel_live_slot_def case_prod_unfold
    by (intro authored.frame_intros authored_of_source [OF source_transition] authored_invalidate_resumable
        authored_of_source [OF source_tables(3)])
  show ?thesis
    unfolding cancel_live_generations_after_verified_resumable_cleanup_def run_audit_def
    by (intro authored.frame_intros slot authored.frames_supdate)
      (simp add: same_source_authored same_source_def clear_ownership_def)
qed

section \<open>Coordinators of a compiled schedule\<close>

definition derived :: "runtime_schedule \<Rightarrow> coordinator \<Rightarrow> bool" where
  "derived rs c \<longleftrightarrow> schedule_wf rs \<and>
     (\<exists>u h t L. located_before rs (length (rs_packets rs)) 0 L \<and> authored (fresh rs u h t L) c)"

lemma derived_wf: "derived rs c \<Longrightarrow> schedule_wf rs"
  by (simp add: derived_def)

lemma derived_authored: "derived rs c \<Longrightarrow> authored c c' \<Longrightarrow> derived rs c'"
  unfolding derived_def by (metis authored.frame_trans)

lemma derived_fresh: "schedule_wf rs \<Longrightarrow> fresh_for rs u h f c \<Longrightarrow> derived rs c"
  unfolding derived_def fresh_for_def using authored.frame_refl by metis

lemma derived_located:
  assumes "derived rs c"
  shows "located c g p i s \<longleftrightarrow> up_at rs g p i \<and> s = intent_slot (rs_intents rs ! i)"
  using assms located_layout [OF authored_layout] located_fresh by (auto simp: derived_def)

lemma derived_lengths:
  assumes "derived rs c"
  shows "length (packets_of c) = length (rs_packets rs)" and "length (intents_of c) = length (rs_intents rs)"
    and "rs_batches (dc_schedule c) = rs_batches rs" and "rs_key_registry (dc_schedule c) = rs_key_registry rs"
    and "dc_generation_count c = rs_generation_count rs"
  using assms by (auto simp: derived_def authored_def)

lemma derived_header:
  assumes "derived rs c" and "p < length (rs_packets rs)"
  shows "(packets_of c ! p)\<lparr>cp_up_mask := 0\<rparr> = (rs_packets rs ! p)\<lparr>cp_up_mask := 0\<rparr>"
  using assms authored_header by (force simp: derived_def)

lemma derived_slot:
  assumes "derived rs c" and "i < length (rs_intents rs)"
  shows "intent_slot (intents_of c ! i) = intent_slot (rs_intents rs ! i)"
  using assms by (auto simp: derived_def authored_def intent_slot_def)

lemma derived_down_intent:
  assumes d: "derived rs c" and p: "p < length (rs_packets rs)"
    and i: "unat (cp_down_intent_start (rs_packets rs ! p)) \<le> i"
      "i < unat (cp_down_intent_start (rs_packets rs ! p)) + unat (cp_down_intent_len (rs_packets rs ! p))"
  shows "intents_of c ! i = rs_intents rs ! i"
proof -
  obtain u h t L where L: "located_before rs (length (rs_packets rs)) 0 L" and a: "authored (fresh rs u h t L) c"
    using d by (auto simp: derived_def)
  have "i \<notin> up_indices (fresh rs u h t L)"
  proof
    assume "i \<in> up_indices (fresh rs u h t L)"
    then consider g q where "location_of (fresh rs u h t L) g = Some (Some (q, i))"
      | q where "q < length (rs_packets rs)" "unat (cp_up_intent_start (rs_packets rs ! q)) \<le> i"
        "i < unat (cp_up_intent_start (rs_packets rs ! q)) + unat (cp_up_intent_len (rs_packets rs ! q))"
      by (auto simp: up_indices_def)
    then show False
    proof cases
      case (1 g q)
      then have "unat g < length L" "L ! unat g = Some (q, i)" by (auto simp: location_of_def result_simps)
      then have at: "up_at rs g q i" using L by (simp add: located_before_def)
      show False
        using down_range_not_up [OF derived_wf [OF d] p up_at_intent(1) [OF derived_wf [OF d] at] i] up_at_intent(4,5) [OF derived_wf [OF d] at]
        by simp
    next
      case (2 q)
      then show False using down_range_not_up [OF derived_wf [OF d] p _ i] by simp
    qed
  qed
  moreover have "i < length (rs_intents rs)" using wf_packet_at [OF derived_wf [OF d] p] i by (simp add: packet_ok_def)
  ultimately show ?thesis using a by (simp add: authored_def)
qed

lemma derived_downs:
  assumes d: "derived rs c" and p: "p < length (rs_packets rs)"
  shows "packet_downs (intents_of c) (packets_of c ! p) = packet_downs (rs_intents rs) (rs_packets rs ! p)"
proof -
  note h = same_header_fields(3,4) [OF derived_header [OF d p]]
  have len: "unat (cp_down_intent_start (rs_packets rs ! p)) + unat (cp_down_intent_len (rs_packets rs ! p)) \<le> length (rs_intents rs)"
    using wf_packet_at [OF derived_wf [OF d] p] by (simp add: packet_ok_def)
  show ?thesis
    unfolding packet_downs_def slice_def h
    using len derived_lengths(2) [OF d] derived_down_intent [OF d p] by (intro nth_equalityI) auto
qed

text \<open>A pressed generation's Up is located on the same slot.\<close>

lemma down_located:
  assumes wf: "schedule_wf rs" and p: "p < length (rs_packets rs)"
    and c: "c \<in> set (packet_downs (rs_intents rs) (rs_packets rs ! p))" "intent_gen c = Some g"
  shows "\<exists>q i. up_at rs g q i \<and> intent_slot (rs_intents rs ! i) = intent_slot c \<and> p < q"
proof -
  let ?downs = "\<lambda>p. packet_downs (rs_intents rs) (rs_packets rs ! p)"
  have "g \<in> set (trace_downs (packet_trace (rs_intents rs) (rs_packets rs)))"
  proof -
    have "g \<in> set (List.map_filter intent_gen (?downs p))" using c by (auto simp: set_map_filter_gen)
    then show ?thesis using nth_mem [OF p] by (auto simp: trace_downs_def packet_trace_def)
  qed
  then have g: "g < rs_generation_count rs" using schedule_generations(3) [OF wf] by simp
  obtain i j c' d where ij: "i < j" "j < length (rs_packets rs)" and c': "c' \<in> set (?downs i)" "intent_gen c' = Some g"
    and d: "d \<in> set (packet_ups (rs_intents rs) (rs_packets rs ! j))" "intent_gen d = Some g" and slot: "intent_slot c' = intent_slot d"
    using generation_paired [OF wf g] by metis
  have "i = p" using down_packet_unique [OF wf _ p c' c] ij by simp
  moreover have "distinct (List.map_filter intent_gen (?downs p))"
  proof -
    have "distinct (concat (map (\<lambda>q. List.map_filter intent_gen (packet_downs (rs_intents rs) q)) (rs_packets rs)))"
      using schedule_generations(1) [OF wf] by (simp add: trace_downs_def packet_trace_def comp_def)
    then show ?thesis using p by (force simp: distinct_concat_iff)
  qed
  ultimately have "c' = c"
    using c c' map_filter_unique [of intent_gen "?downs p"] by (metis in_set_conv_nth)
  moreover obtain k where k: "k < length (packet_ups (rs_intents rs) (rs_packets rs ! j))" "d = packet_ups (rs_intents rs) (rs_packets rs ! j) ! k"
    using d(1) by (auto simp: in_set_conv_nth)
  moreover have "packet_ups (rs_intents rs) (rs_packets rs ! j) ! k = rs_intents rs ! (unat (cp_up_intent_start (rs_packets rs ! j)) + k)"
    using packet_ups_nth [OF wf_packet_at [OF wf ij(2)]] k(1) by simp
  ultimately show ?thesis
    using ij d slot \<open>i = p\<close> by (intro exI [of _ j] exI [of _ "unat (cp_up_intent_start (rs_packets rs ! j)) + k"]) (auto simp: up_at_def)
qed

section \<open>Prepared tokens\<close>

lemma view_packet:
  assumes "view_packet_ticks_unvalidated_registry rs p t = Inr v"
  shows "p < length (rs_packets rs)" and "pv_packet_index v = p" and "pv_header v = rs_packets rs ! p"
    and "pv_registry v = rs_key_registry rs"
    and "pv_up_intents v = packet_ups (rs_intents rs) (rs_packets rs ! p)"
    and "pv_down_intents v = packet_downs (rs_intents rs) (rs_packets rs ! p)"
    and "unat (cp_up_intent_start (rs_packets rs ! p)) + unat (cp_up_intent_len (rs_packets rs ! p)) \<le> length (rs_intents rs)"
  using assms
  by (auto simp: view_packet_ticks_unvalidated_registry_def Let_def result_simps checked_add_usize_def
      packet_ups_def packet_downs_def slice_def split: if_splits)

lemma try_new_identity:
  assumes "identity_try_new g slot p i = Inr t"
  shows "identity_generation_id t = g \<and> identity_key_slot t = slot \<and> identity_packet_index t = p \<and> identity_intent_index t = i \<and>
    unat slot < MAX_KEYS \<and> p < 2 ^ 32 \<and> i < 2 ^ 32"
proof -
  have b: "\<not> (g = NO_GENERATION_ID \<or> g > MAX_COMPACT_GENERATION_ID \<or> unat slot \<ge> MAX_KEYS)"
    and t: "p < 2 ^ 32" "i < 2 ^ 32"
    using assms by (auto simp: identity_try_new_def result_simps try_from_usize_def split: if_splits)
  have "unat g < 2 ^ 60 - 1" using b MAX_COMPACT_GENERATION_ID_val by (simp add: word_less_nat_alt not_less)
  from identity_try_new_ok [OF this _ t, of slot] show ?thesis using b t assms by (auto simp: not_le)
qed

lemma try_new_down:
  assumes "down_try_new x code = Inr d"
  shows "pd_key_slot d = compact_key_slot x \<and> unat (compact_key_slot x) < MAX_KEYS \<and> down_generation_id d = compact_generation_id x"
proof -
  let ?g = "compact_generation_id x"
  have up: "unat (ucast w :: 64 word) = unat w" for w :: "32 word"
  proof -
    have "unat w < 2 ^ 64" using unsigned_less [of w, where ?'a = nat] by simp
    then show ?thesis by (simp add: unsigned_ucast_eq take_bit_nat_eq_self)
  qed
  have "ucast (ucast ?g :: 32 word) = ?g \<and> (ucast ?g :: 32 word) \<noteq> - 1" if "unat ?g < 2 ^ 32 - 1"
  proof -
    have u: "unat (ucast ?g :: 32 word) = unat ?g" using that by (simp add: unsigned_ucast_eq take_bit_nat_eq_self)
    then have "unat (ucast (ucast ?g :: 32 word) :: 64 word) = unat ?g"
      using u up [of "ucast ?g"] by simp
    moreover have "unat (- 1 :: 32 word) = 2 ^ 32 - 1" by (simp add: unsigned_minus_1_eq_mask mask_eq_exp_minus_1)
    ultimately show ?thesis using u that by (metis less_irrefl word_unat_eq_iff)
  qed
  then show ?thesis
    using assms by (auto simp: down_try_new_def Let_def result_simps down_generation_id_def not_le split: if_splits)
qed

lemma frozen_up_token:
  assumes inv: "coord_inv c" and t: "matching_token c slot p i = Inr (Some t)"
  shows "located c (identity_generation_id t) p (identity_intent_index t) (unat (identity_key_slot t))"
proof -
  have t': "tok c (unat slot) = Some t" "unat slot < MAX_KEYS" "identity_packet_index t = p" "identity_key_slot t = slot"
    using t coord_invD(7) [OF inv] by (auto simp: matching_token_def result_simps cancelled_for_slot_def split: option.splits if_splits)
  then show ?thesis using token_entry [OF coord_invD(7) [OF inv] t'(2,1)] by (simp add: token_defs)
qed

lemma classify_up_frozen:
  assumes inv: "coord_inv c" and p: "p < length (packets_of c)"
    and v: "pv_header v = packets_of c ! p" "pv_packet_index v = p" "pv_up_intents v = packet_ups (intents_of c) (packets_of c ! p)"
      "unat (cp_up_intent_start (packets_of c ! p)) + unat (cp_up_intent_len (packets_of c ! p)) \<le> length (intents_of c)"
    and k: "k < length (pv_up_intents v)" "x = pv_up_intents v ! k"
    and run: "classify_up c v ticks (k, x) acc = Inr acc'" and old: "\<forall>u \<in> set (uc_intents acc). frozen_up c p u"
  shows "\<forall>u \<in> set (uc_intents acc'). frozen_up c p u"
proof -
  let ?i = "unat (cp_up_intent_start (packets_of c ! p)) + k"
  have len: "length (pv_up_intents v) = unat (cp_up_intent_len (packets_of c ! p))" using v(3,4) by (simp add: packet_ups_def length_slice)
  have x: "x = intents_of c ! ?i" using k v(3,4) len by (simp add: packet_ups_def slice_def)
  have new: "frozen_up c p \<lparr>pu_intent = y, pu_source_action_index = n, pu_identity = t\<rparr>"
    if "identity_try_new (compact_generation_id x) (compact_key_slot x) p ?i = Inr t"
      "Option.bind (location_of c (compact_generation_id x)) id = Some (p, ?i)" for y n t
  proof -
    note t = try_new_identity [OF that(1)]
    have loc: "location_of c (compact_generation_id x) = Some (Some (p, ?i))" using that(2) by (auto simp: bind_eq_Some_conv)
    show ?thesis using t loc p k len v(4) x by (simp add: frozen_up_def located_def)
  qed
  have token: "frozen_up c p \<lparr>pu_intent = y, pu_source_action_index = n, pu_identity = t\<rparr>"
    if "matching_token c (compact_key_slot x) p ?i = Inr (Some t)" for y n t
    using frozen_up_token [OF inv that] by (simp add: frozen_up_def)
  show ?thesis
    using run old new token v(1,2)
    by (auto simp: classify_up_def Let_def result_simps checked_add_usize_def split: if_splits option.splits)
qed

lemma prepare_downs_frozen:
  assumes d: "derived rs c" and p: "p < length (rs_packets rs)"
    and run: "prepare_downs reg (packet_downs (rs_intents rs) (rs_packets rs ! p)) = Inr downs"
  shows "\<forall>x \<in> set downs. frozen_down c x"
proof -
  let ?xs = "packet_downs (rs_intents rs) (rs_packets rs ! p)"
  show ?thesis
    using run unfolding prepare_downs_def
  proof (rule rfold_invariant_simple)
    fix x acc acc'
    assume x: "x \<in> set ?xs" and acc: "\<forall>x \<in> set acc. frozen_down c x"
      and "rbind (ok_or (scan_code_for reg (compact_key_slot x)) (Err (CoordInvalidKeySlot (compact_key_slot x))))
        (\<lambda>code. rbind (down_try_new x code) (\<lambda>down. Inr (acc @ [down]))) = Inr acc'"
    then obtain code new where new: "down_try_new x code = Inr new" "acc' = acc @ [new]" by (auto simp: result_simps)
    note t = try_new_down [OF new(1)]
    have "\<exists>q i. located c (compact_generation_id x) q i (unat (compact_key_slot x))" if "compact_generation_id x \<noteq> NO_GENERATION_ID"
      using down_located [OF derived_wf [OF d] p x, of "compact_generation_id x"] that
      unfolding derived_located [OF d] intent_slot_def intent_gen_cases by metis
    then have "frozen_down c new" using t by (auto simp: frozen_down_def)
    then show "\<forall>x \<in> set acc'. frozen_down c x" using acc new by auto
  qed simp
qed

text \<open>The packet prepared at the cursor is frozen for the coordinator.\<close>

lemma prepared_frozen:
  assumes inv: "coord_inv c" and d: "derived rs c" and run: "prepare_current_authored_packet c = Inr (Some pkt)"
  shows "frozen_for c (pp_commit pkt)"
proof -
  obtain b where b: "nth_opt (rs_batches (dc_schedule c)) (dc_cursor c) = Some b"
    using run by (auto simp: prepare_current_authored_packet_def split: option.splits)
  let ?p = "unat (cb_packet_id b)"
  obtain ticks v ups downs where
    v: "view_packet_ticks_unvalidated_registry (dc_schedule c) ?p ticks = Inr v"
    and first: "unat (cp_first_batch_index (pv_header v)) = dc_cursor c"
    and ups: "rfold (classify_up c v ticks) (enumerate 0 (pv_up_intents v))
              \<lparr>uc_immediate = 0, uc_deferred = 0, uc_stale = 0, uc_intents = []\<rparr> = Inr ups"
    and downs: "prepare_downs (pv_registry v) (pv_down_intents v) = Inr downs"
    and pkt: "pc_frame (pp_commit pkt) = pp_frame pkt" "pc_up_intents (pp_commit pkt) = uc_intents ups"
      "pc_down_intents (pp_commit pkt) = downs" "pf_first_batch_index (pp_frame pkt) = dc_cursor c"
      "pf_packet_index (pp_frame pkt) = ?p" "pf_packet_batch_count (pp_frame pkt) = unat (cp_batch_count (pv_header v))"
    using run b
    by (auto simp: prepare_current_authored_packet_def Let_def rbind_eq_Inr map_err_eq_Inr split: if_splits)
  note w = view_packet [OF v]
  have p: "?p < length (rs_packets rs)" using w(1) derived_lengths [OF d] by simp
  have "\<forall>u \<in> set (uc_intents ups). frozen_up c ?p u"
  proof (rule rfold_invariant [where P = "\<lambda>_ acc. \<forall>u \<in> set (uc_intents acc). frozen_up c ?p u", OF ups])
    fix ys x zs acc acc' assume split: "enumerate 0 (pv_up_intents v) = ys @ x # zs"
      and acc: "\<forall>u \<in> set (uc_intents acc). frozen_up c ?p u" and step: "classify_up c v ticks x acc = Inr acc'"
    obtain k y where x: "x = (k, y)" by fastforce
    show "\<forall>u \<in> set (uc_intents acc'). frozen_up c ?p u"
      using enumerate_prefix [of "pv_up_intents v" ys k y zs] split x step
      by (intro classify_up_frozen [OF inv w(1) w(3) w(2) w(5) w(7) _ _ _ acc]) simp_all
  qed simp
  moreover have "\<forall>x \<in> set downs. frozen_down c x"
    using prepare_downs_frozen [OF d p] downs derived_downs [OF d p] w(6) by simp
  moreover have "0 < unat (cp_batch_count (packets_of c ! ?p))"
  proof -
    note ok = wf_packet_at [OF derived_wf [OF d] p]
    have "packet_batches (rs_batches rs) (rs_packets rs ! ?p) \<noteq> []" using ok by (simp add: packet_ok_def)
    then show ?thesis
      using packet_lengths(3) [OF ok] same_header_fields(7) [OF derived_header [OF d p]] by (metis length_greater_0_conv)
  qed
  ultimately show ?thesis using w(1,3) first by (simp add: frozen_for_def Let_def pkt)
qed

text \<open>So is the commit frozen later for a frame of the current schedule.\<close>

definition frame_for :: "coordinator \<Rightarrow> prepared_authored_frame \<Rightarrow> bool" where
  "frame_for c f \<longleftrightarrow> pf_packet_index f < length (packets_of c) \<and>
     pf_first_batch_index f = unat (cp_first_batch_index (packets_of c ! pf_packet_index f)) \<and>
     pf_packet_batch_count f = unat (cp_batch_count (packets_of c ! pf_packet_index f)) \<and> 0 < pf_packet_batch_count f"

lemma frozen_frame: "frozen_for c commit \<Longrightarrow> frame_for c (pc_frame commit)"
  by (simp add: frozen_for_def frame_for_def Let_def)

lemma freeze_up_frozen:
  assumes inv: "coord_inv c" and p: "pf_packet_index f = p" "p < length (packets_of c)"
    and xs: "xs = packet_ups (intents_of c) (packets_of c ! p)"
      "unat (cp_up_intent_start (packets_of c ! p)) + unat (cp_up_intent_len (packets_of c ! p)) \<le> length (intents_of c)"
    and k: "k < length xs" "x = xs ! k"
    and run: "freeze_up c f (packets_of c ! p) (k, x) acc = Inr acc'" and old: "\<forall>u \<in> set acc. frozen_up c p u"
  shows "\<forall>u \<in> set acc'. frozen_up c p u"
proof -
  let ?i = "unat (cp_up_intent_start (packets_of c ! p)) + k"
  have len: "length xs = unat (cp_up_intent_len (packets_of c ! p))" using xs by (simp add: packet_ups_def length_slice)
  have x: "x = intents_of c ! ?i" using k xs len by (simp add: packet_ups_def slice_def)
  have new: "frozen_up c p \<lparr>pu_intent = y, pu_source_action_index = n, pu_identity = t\<rparr>"
    if "identity_try_new (compact_generation_id x) (compact_key_slot x) p ?i = Inr t"
      "Option.bind (location_of c (compact_generation_id x)) id = Some (p, ?i)" for y n t
  proof -
    note t = try_new_identity [OF that(1)]
    have loc: "location_of c (compact_generation_id x) = Some (Some (p, ?i))" using that(2) by (auto simp: bind_eq_Some_conv)
    show ?thesis using t loc p k len xs(2) x by (simp add: frozen_up_def located_def)
  qed
  have token: "frozen_up c p \<lparr>pu_intent = y, pu_source_action_index = n, pu_identity = t\<rparr>"
    if "matching_token c (compact_key_slot x) p ?i = Inr (Some t)" for y n t
    using frozen_up_token [OF inv that] by (simp add: frozen_up_def)
  show ?thesis
    using run old new token p(1)
    by (auto simp: freeze_up_def Let_def result_simps checked_add_usize_def split: if_splits option.splits)
qed

lemma refrozen:
  assumes inv: "coord_inv c" and d: "derived rs c" and f: "frame_for c f" and run: "prepare_authored_commit c f = Inr commit"
  shows "frozen_for c commit"
proof -
  let ?p = "pf_packet_index f"
  obtain v ups downs where v: "view_packet_ticks_unvalidated_registry (dc_schedule c) ?p (pf_authored_ticks f) = Inr v"
    and ups: "rfold (freeze_up c f (packets_of c ! ?p)) (enumerate 0 (pv_up_intents v)) [] = Inr ups"
    and downs: "prepare_downs (rs_key_registry (dc_schedule c)) (pv_down_intents v) = Inr downs"
    and commit: "pc_frame commit = f" "pc_up_intents commit = ups" "pc_down_intents commit = downs"
    using run by (auto simp: prepare_authored_commit_def view_packet_ticks_def result_simps)
  note w = view_packet [OF v]
  have p: "?p < length (rs_packets rs)" using w(1) derived_lengths [OF d] by simp
  have "\<forall>u \<in> set ups. frozen_up c ?p u"
  proof (rule rfold_invariant [where P = "\<lambda>_ acc. \<forall>u \<in> set acc. frozen_up c ?p u", OF ups])
    fix ys x zs acc acc' assume split: "enumerate 0 (pv_up_intents v) = ys @ x # zs"
      and acc: "\<forall>u \<in> set acc. frozen_up c ?p u" and step: "freeze_up c f (packets_of c ! ?p) x acc = Inr acc'"
    obtain k y where x: "x = (k, y)" by fastforce
    show "\<forall>u \<in> set acc'. frozen_up c ?p u"
      using enumerate_prefix [of "pv_up_intents v" ys k y zs] split x step
      by (intro freeze_up_frozen [OF inv refl w(1) w(5) w(7) _ _ _ acc]) simp_all
  qed simp
  moreover have "\<forall>x \<in> set downs. frozen_down c x"
    using prepare_downs_frozen [OF d p] downs derived_downs [OF d p] w(6) by simp
  ultimately show ?thesis using f by (simp add: frozen_for_def frame_for_def Let_def commit)
qed

text \<open>Tokens carry over between coordinators of the same schedule.\<close>

lemma frozen_for_derived:
  assumes a: "derived rs c" and b: "derived rs c'" and fr: "frozen_for c commit"
  shows "frozen_for c' commit"
proof -
  have "located c' g p i s \<longleftrightarrow> located c g p i s" for g p i s
    unfolding derived_located [OF a] derived_located [OF b] ..
  moreover have "cp_first_batch_index (packets_of c' ! p) = cp_first_batch_index (packets_of c ! p)"
    "cp_batch_count (packets_of c' ! p) = cp_batch_count (packets_of c ! p)" if "p < length (rs_packets rs)" for p
    using same_header_fields(6,7) [OF derived_header [OF a that]] same_header_fields(6,7) [OF derived_header [OF b that]] by simp_all
  ultimately show ?thesis
    using fr derived_lengths(1) [OF a] derived_lengths(1) [OF b]
    by (simp add: frozen_for_def frozen_up_def frozen_down_def Let_def)
qed

end
