(* ===== verification/Sky_Session.thy ===== *)
theory Sky_Session
  imports Sky_Prepare Sky_Compile
begin

text \<open>
  The coordinator in use. A session holds a coordinator of a compiled schedule and the commit tokens
  frozen so far; its steps are the operations the worker performs on the coordinator: preparing tokens,
  applying them after a send or a missed deadline, committing deferred releases and stale packets,
  dropping chords, suspending for a resumable pause, and starting over on the same schedule with the
  tokens of the first pass, as the prepared stream does. The properties hold in every reachable session.
\<close>

section \<open>Lifecycles\<close>

text \<open>How the status of one generation may evolve: by the legal transitions of the ledger and, when its key
  was suspended by a pause and the coordinator still holds the token for its authored Up, by the release of
  that Up. The token is the only way out of \<open>Cancelled\<close>.\<close>

definition suspended :: "coordinator \<Rightarrow> nat \<Rightarrow> bool" where
  "suspended c n \<longleftrightarrow> list_ex (\<lambda>t. case t of None \<Rightarrow> False | Some i \<Rightarrow> unat (identity_generation_id i) = n)
     (dc_cancelled_up_by_slot c)"

definition life_step :: "bool \<Rightarrow> generation_status \<Rightarrow> generation_status \<Rightarrow> bool" where
  "life_step token st st' \<longleftrightarrow> can_transition_to st st' \<or> token \<and> st = Cancelled \<and> st' = Released"

text \<open>An operation that takes no new tokens ages the ledger; one that may take some is only allowed legal
  transitions. \<open>quiet\<close> operations touch no status.\<close>

definition ages :: "coordinator \<Rightarrow> coordinator \<Rightarrow> bool" where
  "ages c c' \<longleftrightarrow> length (dc_generation_states c') = length (dc_generation_states c) \<and>
     (\<forall>n < length (dc_generation_states c).
        (life_step (suspended c n))\<^sup>*\<^sup>* (dc_generation_states c ! n) (dc_generation_states c' ! n)) \<and>
     (\<forall>n. suspended c' n \<longrightarrow> suspended c n)"

definition legal :: "coordinator \<Rightarrow> coordinator \<Rightarrow> bool" where
  "legal c c' \<longleftrightarrow> length (dc_generation_states c') = length (dc_generation_states c) \<and>
     (\<forall>n < length (dc_generation_states c).
        can_transition_to\<^sup>*\<^sup>* (dc_generation_states c ! n) (dc_generation_states c' ! n))"

definition quiet :: "coordinator \<Rightarrow> coordinator \<Rightarrow> bool" where
  "quiet c c' \<longleftrightarrow> dc_generation_states c' = dc_generation_states c \<and> (\<forall>n. suspended c' n \<longrightarrow> suspended c n)"

lemma suspended_token: "suspended c n \<longleftrightarrow> (\<exists>t. Some t \<in> set (dc_cancelled_up_by_slot c) \<and> unat (identity_generation_id t) = n)"
proof
  assume "suspended c n"
  then obtain x where x: "x \<in> set (dc_cancelled_up_by_slot c)"
    "case x of None \<Rightarrow> False | Some i \<Rightarrow> unat (identity_generation_id i) = n"
    unfolding suspended_def list_ex_iff by blast
  show "\<exists>t. Some t \<in> set (dc_cancelled_up_by_slot c) \<and> unat (identity_generation_id t) = n"
    by (cases x rule: option.exhaust) (use x in auto)
next
  assume "\<exists>t. Some t \<in> set (dc_cancelled_up_by_slot c) \<and> unat (identity_generation_id t) = n"
  then obtain t where "Some t \<in> set (dc_cancelled_up_by_slot c)" "unat (identity_generation_id t) = n" by blast
  then show "suspended c n" unfolding suspended_def list_ex_iff by (intro bexI [of _ "Some t"]) simp_all
qed

lemma life_step_mono: "(life_step t)\<^sup>*\<^sup>* st st' \<Longrightarrow> (t \<longrightarrow> t') \<Longrightarrow> (life_step t')\<^sup>*\<^sup>* st st'"
  by (erule rtranclp_mono [THEN predicate2D, rotated]) (auto simp: life_step_def)

lemma can_transition_life: "can_transition_to\<^sup>*\<^sup>* st st' \<Longrightarrow> (life_step t)\<^sup>*\<^sup>* st st'"
  by (erule rtranclp_mono [THEN predicate2D, rotated]) (auto simp: life_step_def)

interpretation ages: frame_preorder ages
proof
  fix a b c :: coordinator
  show "ages a a" by (simp add: ages_def)
  assume ab: "ages a b" and bc: "ages b c"
  then show "ages a c"
    unfolding ages_def by (metis (no_types, lifting) life_step_mono rtranclp_trans)
qed

interpretation legal: frame_preorder legal
  by unfold_locales (auto simp: legal_def intro: rtranclp_trans)

interpretation quiet: frame_preorder quiet
  by unfold_locales (auto simp: quiet_def)

lemma ages_same:
  "dc_generation_states c' = dc_generation_states c \<Longrightarrow> dc_cancelled_up_by_slot c' = dc_cancelled_up_by_slot c \<Longrightarrow> ages c c'"
  by (simp add: ages_def suspended_def)

lemma quiet_ages: "quiet c c' \<Longrightarrow> ages c c'"
  by (simp add: ages_def quiet_def)

lemma quietI:
  "dc_generation_states c' = dc_generation_states c \<Longrightarrow> dc_cancelled_up_by_slot c' = dc_cancelled_up_by_slot c \<Longrightarrow> quiet c c'"
  by (simp add: quiet_def suspended_def)

lemma status_of_Inr: "status_of c g = Inr st \<longleftrightarrow> nth_opt (dc_generation_states c) (unat g) = Some st"
  by (auto simp: status_of_def result_simps)

lemma transition_effect:
  defines "after g frm nxt c \<equiv> snd (transition_generation g frm nxt c)"
  shows "dc_cancelled_up_by_slot (after g frm nxt c) = dc_cancelled_up_by_slot c"
    and "dc_generation_states (after g frm nxt c) = dc_generation_states c \<or>
      nth_opt (dc_generation_states c) (unat g) = Some frm \<and> can_transition_to frm nxt \<and>
      dc_generation_states (after g frm nxt c) = (dc_generation_states c)[unat g := nxt]"
proof -
  have inc: "dc_generation_states (snd (increment_activated c)) = dc_generation_states c"
    "dc_generation_states (snd (increment_counter nxt c)) = dc_generation_states c"
    "dc_cancelled_up_by_slot (snd (increment_activated c)) = dc_cancelled_up_by_slot c"
    "dc_cancelled_up_by_slot (snd (increment_counter nxt c)) = dc_cancelled_up_by_slot c" for c
    by (simp_all add: increment_activated_def increment_counter_def split: option.splits sum.splits)
  let ?m = "sbind (if frm = Scheduled \<and> nxt = Active then increment_activated else sret ()) (\<lambda>_.
     if is_terminal nxt then increment_counter nxt else sret ())"
  have m: "dc_generation_states (snd (?m c)) = dc_generation_states c"
    "dc_cancelled_up_by_slot (snd (?m c)) = dc_cancelled_up_by_slot c"
    using inc by (auto simp: sbind_apply split: prod.splits sum.splits) (metis snd_conv)+
  show "dc_cancelled_up_by_slot (after g frm nxt c) = dc_cancelled_up_by_slot c"
    and "dc_generation_states (after g frm nxt c) = dc_generation_states c \<or>
      nth_opt (dc_generation_states c) (unat g) = Some frm \<and> can_transition_to frm nxt \<and>
      dc_generation_states (after g frm nxt c) = (dc_generation_states c)[unat g := nxt]"
  proof (atomize (full), cases "status_of c g = Inr frm \<and> can_transition_to frm nxt")
    case True
    then have "transition_generation g frm nxt c = sbind ?m (\<lambda>_. supdate (set_status g nxt)) c"
      by (auto simp: transition_generation_def sbind_apply split: prod.splits sum.splits)
    then show "dc_cancelled_up_by_slot (after g frm nxt c) = dc_cancelled_up_by_slot c \<and>
      (dc_generation_states (after g frm nxt c) = dc_generation_states c \<or>
       nth_opt (dc_generation_states c) (unat g) = Some frm \<and> can_transition_to frm nxt \<and>
       dc_generation_states (after g frm nxt c) = (dc_generation_states c)[unat g := nxt])"
      using m True unfolding after_def
      by (auto simp: sbind_apply [of ?m] status_of_Inr set_status_def split: prod.splits sum.splits)
  qed (auto simp: after_def transition_generation_def sbind_apply split: sum.splits)
qed

lemma legal_transition: "frames legal (transition_generation g frm nxt)"
proof (rule framesI)
  fix c
  show "legal c (snd (transition_generation g frm nxt c))"
    using transition_effect(2) [of g frm nxt c] by (auto simp: legal_def result_simps nth_update_if)
qed

lemma ages_transition: "frames ages (transition_generation g frm nxt)"
proof (rule framesI)
  fix c
  have "legal c (snd (transition_generation g frm nxt c))" using legal_transition by (simp add: frames_def)
  then show "ages c (snd (transition_generation g frm nxt c))"
    using transition_effect(1) [of g frm nxt c] can_transition_life by (simp add: ages_def legal_def suspended_def)
qed

text \<open>Everything else leaves the statuses alone, except the release of a suspended generation, and spends
  tokens at most; only the cancellation of a pause sets one.\<close>

definition same_ledger :: "coordinator \<Rightarrow> coordinator \<Rightarrow> bool" where
  "same_ledger c c' \<longleftrightarrow> dc_generation_states c' = dc_generation_states c"

interpretation same_ledger: frame_preorder same_ledger
  by unfold_locales (simp_all add: same_ledger_def)

lemma ledger_set_cancelled: "frames same_ledger (set_cancelled slot t)"
  by (rule framesI) (simp add: set_cancelled_def same_ledger_def)

lemma quiet_tables:
  "frames quiet (set_active slot a)" "frames quiet (set_pending slot q)" "frames quiet (invalidate_up_for_generation g)"
  by (rule framesI; simp add: set_active_def set_pending_def invalidate_up_for_generation_def set_intent_def Let_def
      quietI quiet.frame_refl split: option.splits prod.splits)+

lemma quiet_spend_token: "frames quiet (set_cancelled slot None)"
  by (rule framesI) (auto simp: set_cancelled_def quiet_def suspended_token dest!: set_update_subset_insert [THEN subsetD])

lemma quiet_slots: "frames quiet (own_slot slot a)" "frames quiet (disown_slot slot)"
  unfolding own_slot_def disown_slot_def
  by (intro quiet.frame_intros quiet_tables quiet.frames_supdate; simp add: quietI)+

lemma quiet_finish: "frames quiet (finish_commit n)"
proof -
  have "frames quiet (advance_cursor n)"
    by (rule framesI) (simp add: advance_cursor_def quietI quiet.frame_refl split: option.splits)
  then show ?thesis unfolding finish_commit_def by (intro quiet.frame_intros)
qed

lemma quiet_invalidate_resumable: "frames quiet (invalidate_authored_up_for_resumable_cancellation t)"
  unfolding invalidate_authored_up_for_resumable_cancellation_def
  by (intro quiet.frame_intros quiet.frames_supdate) (simp add: quietI set_intent_def)

lemmas ages_of_quiet = frames_mono [OF _ quiet_ages]

lemmas ages_intros = ages.frame_intros ages_transition ages_of_quiet [OF quiet_tables(1)] ages_of_quiet [OF quiet_tables(2)]
  ages_of_quiet [OF quiet_tables(3)] ages_of_quiet [OF quiet_slots(1)] ages_of_quiet [OF quiet_slots(2)]
  ages_of_quiet [OF quiet_finish]

text \<open>The one illegal transition is guarded by the token of the very generation it releases.\<close>

lemma ages_release_token:
  assumes "nth_opt (dc_generation_states c) (unat (identity_generation_id t)) = Some Cancelled"
    and "Some t \<in> set (dc_cancelled_up_by_slot c)"
    and "dc_generation_states c' = (dc_generation_states c)[unat (identity_generation_id t) := Released]"
    and "set (dc_cancelled_up_by_slot c') \<subseteq> insert None (set (dc_cancelled_up_by_slot c))"
  shows "ages c c'"
proof -
  have "suspended c (unat (identity_generation_id t))" using assms(2) by (auto simp: suspended_token)
  moreover have "suspended c' n \<Longrightarrow> suspended c n" for n
    using assms(4) by (auto simp: suspended_token)
  ultimately show ?thesis using assms(1,3) by (auto simp: ages_def result_simps nth_update_if life_step_def)
qed

lemma ages_reconcile: "frames ages (reconcile_resumable_cancelled_up t)"
proof (rule framesI)
  fix c
  let ?slot = "unat (identity_key_slot t)" and ?c1 = "\<lambda>k. set_status (identity_generation_id t) Released (c\<lparr>dc_counters := k\<rparr>)"
  have upd: "ages c (?c1 k)" "ages c ((?c1 k)\<lparr>dc_cancelled_up_by_slot := (dc_cancelled_up_by_slot c)[?slot := None]\<rparr>)"
    if "status_of c (identity_generation_id t) = Inr Cancelled" and "cancelled_for_slot c (identity_key_slot t) = Inr (Some t)"
    for k
  proof -
    have "Some t \<in> set (dc_cancelled_up_by_slot c)"
      using that(2) by (auto simp: cancelled_for_slot_def result_simps in_set_conv_nth)
    then show "ages c (?c1 k)" "ages c ((?c1 k)\<lparr>dc_cancelled_up_by_slot := (dc_cancelled_up_by_slot c)[?slot := None]\<rparr>)"
      using that(1) set_update_subset_insert [of "dc_cancelled_up_by_slot c" ?slot None]
      by (auto simp: status_of_Inr set_status_def intro!: ages_release_token [of c t])
  qed
  have kept: "dc_cancelled_up_by_slot (?c1 k) = dc_cancelled_up_by_slot c" for k by (simp add: set_status_def)
  show "ages c (snd (reconcile_resumable_cancelled_up t c))"
    using upd
    by (auto simp: reconcile_resumable_cancelled_up_def Let_def sbind_apply set_cancelled_def kept ages.frame_refl
        split: sum.splits if_splits)
qed

lemma ages_commit_up: "frames ages (commit_prepared_up f started u)"
  unfolding commit_prepared_up_def commit_immediate_up_def commit_deferred_up_def register_pending_def Let_def
  by (intro ages_intros ages_reconcile ages.frames_supdate) (simp_all add: ages_same)

lemma ages_commits:
  "frames ages (commit_prepared_authored_frame_metadata_frozen commit)"
  "frames ages (commit_prepared_authored_frame_success_frozen commit started)"
  "frames ages (commit_prepared_authored_frame_deadline_miss commit um dm started)"
  "frames ages (commit_pending_release_success m started)"
  "frames ages (commit_stale_packet p)"
proof -
  show "frames ages (commit_prepared_authored_frame_metadata_frozen commit)"
    unfolding commit_prepared_authored_frame_metadata_frozen_def commit_prepared_up_intents_frozen_def check_cursor_def Let_def
    by (intro ages_intros ages_commit_up)
  show "frames ages (commit_prepared_authored_frame_success_frozen commit started)"
    unfolding commit_prepared_authored_frame_success_frozen_def commit_prepared_up_intents_frozen_def check_cursor_def
      commit_sent_down_def Let_def
    by (intro ages_intros ages_commit_up)
  show "frames ages (commit_prepared_authored_frame_deadline_miss commit um dm started)"
    unfolding commit_prepared_authored_frame_deadline_miss_def commit_prepared_up_intents_frozen_def check_cursor_def
      miss_down_def Let_def
    by (intro ages_intros ages_commit_up)
  show "frames ages (commit_pending_release_success m started)"
  proof -
    have "ages c (c\<lparr>dc_pending_release_mask := k\<rparr>)" for c k by (simp add: ages_same)
    then show ?thesis
      unfolding commit_pending_release_success_def release_pending_slot_def Let_def
      by (intro ages_intros ages.frames_supdate)
  qed
  show "frames ages (commit_stale_packet p)"
    unfolding commit_stale_packet_def by (intro ages_intros)
qed

lemma ages_drop: "frames ages (drop_generation st g)"
  unfolding drop_generation_def terminalize_def by (intro ages_intros)

lemma ages_drops:
  "frames ages (drop_downs st intents)" "frames ages (terminalize_conflicted_slots cs m)" "frames ages (split_down_intents intents)"
proof -
  show "frames ages (drop_downs st intents)" "frames ages (terminalize_conflicted_slots cs m)"
    unfolding drop_downs_def terminalize_conflicted_slots_def by (intro ages_intros ages_drop)+
  have "frames ages (split_down_intent i a)" for i a
  proof (rule framesI)
    fix c
    have "frames ages (sbind (case rk_generation_id i of Some g \<Rightarrow> drop_generation DroppedConflict g | None \<Rightarrow> sret ())
        (\<lambda>_. sret (fst a, snd a @ [i])))"
      by (intro ages_intros ages_drop)
    then show "ages c (snd (split_down_intent i a c))"
      by (simp add: split_down_intent_def frames_def ages.frame_refl case_prod_unfold)
  qed
  then have "frames ages (sfold split_down_intent intents ([], []))" by (intro ages_intros)
  then show "frames ages (split_down_intents intents)"
    by (simp add: frames_def split_down_intents_def ages.frame_refl)
qed

lemma legal_cancel_live: "frames legal cancel_live_generations_after_verified_resumable_cleanup"
proof -
  have same: "same_ledger c c' \<Longrightarrow> legal c c'" for c c' by (simp add: same_ledger_def legal_def)
  have inval: "frames legal (invalidate_authored_up_for_resumable_cancellation t)" for t
    by (rule frames_mono [OF quiet_invalidate_resumable]) (simp add: quiet_def legal_def)
  have slot: "frames legal (cancel_live_slot x)" for x
    unfolding cancel_live_slot_def case_prod_unfold
    by (intro legal.frame_intros legal_transition inval frames_mono [OF ledger_set_cancelled same])
  show ?thesis
    unfolding cancel_live_generations_after_verified_resumable_cleanup_def run_audit_def
    by (intro legal.frame_intros slot legal.frames_supdate) (simp add: legal_def clear_ownership_def)
qed

section \<open>Sessions\<close>

record session =
  se_schedule :: runtime_schedule
  se_coordinator :: coordinator
  se_tokens :: "prepared_authored_commit list"

text \<open>A session starts on a compiled schedule with the coordinator the constructor returned.\<close>

definition session_init :: "session \<Rightarrow> bool" where
  "session_init s \<longleftrightarrow> se_tokens s = [] \<and>
     (\<exists>actions codes min_hold_us min_hold_ticks us_to_ticks.
        compile_runtime_intents actions codes = Inr (se_schedule s) \<and>
        try_new_ticks (se_schedule s) min_hold_us min_hold_ticks us_to_ticks = Inr (se_coordinator s))"

text \<open>One pass over the song, and starting over on the same schedule with a new coordinator.\<close>

inductive play_step :: "session \<Rightarrow> session \<Rightarrow> bool" where
  prepare: "prepare_current_authored_packet (se_coordinator s) = Inr (Some p) \<Longrightarrow>
    play_step s (s\<lparr>se_tokens := pp_commit p # se_tokens s\<rparr>)"
| refreeze: "t \<in> set (se_tokens s) \<Longrightarrow> prepare_authored_commit (se_coordinator s) (pc_frame t) = Inr t' \<Longrightarrow>
    play_step s (s\<lparr>se_tokens := t' # se_tokens s\<rparr>)"
| metadata: "t \<in> set (se_tokens s) \<Longrightarrow>
    commit_prepared_authored_frame_metadata_frozen t (se_coordinator s) = (Inr (), c) \<Longrightarrow>
    play_step s (s\<lparr>se_coordinator := c\<rparr>)"
| success: "t \<in> set (se_tokens s) \<Longrightarrow>
    commit_prepared_authored_frame_success_frozen t started (se_coordinator s) = (Inr (), c) \<Longrightarrow>
    play_step s (s\<lparr>se_coordinator := c\<rparr>)"
| miss: "t \<in> set (se_tokens s) \<Longrightarrow>
    commit_prepared_authored_frame_deadline_miss t confirmed missed started (se_coordinator s) = (Inr (), c) \<Longrightarrow>
    play_step s (s\<lparr>se_coordinator := c\<rparr>)"
| release: "commit_pending_release_success m started (se_coordinator s) = (r, c) \<Longrightarrow>
    play_step s (s\<lparr>se_coordinator := c\<rparr>)"
| stale: "commit_stale_packet p (se_coordinator s) = (r, c) \<Longrightarrow> play_step s (s\<lparr>se_coordinator := c\<rparr>)"
| expired: "drop_expired_downs intents (se_coordinator s) = (r, c) \<Longrightarrow> play_step s (s\<lparr>se_coordinator := c\<rparr>)"
| conflicted: "drop_conflicted_downs intents (se_coordinator s) = (r, c) \<Longrightarrow> play_step s (s\<lparr>se_coordinator := c\<rparr>)"
| conflicted_slots: "terminalize_conflicted_slots cs m (se_coordinator s) = (r, c) \<Longrightarrow>
    play_step s (s\<lparr>se_coordinator := c\<rparr>)"
| splitting: "split_down_intents intents (se_coordinator s) = (split, c) \<Longrightarrow> play_step s (s\<lparr>se_coordinator := c\<rparr>)"
| suspend: "cancel_live_generations_after_verified_resumable_cleanup (se_coordinator s) = (n, c) \<Longrightarrow>
    play_step s (s\<lparr>se_coordinator := c\<rparr>)"

inductive session_step :: "session \<Rightarrow> session \<Rightarrow> bool" where
  play: "play_step s s' \<Longrightarrow> session_step s s'"
| restart: "try_new_ticks (se_schedule s) min_hold_us min_hold_ticks us_to_ticks = Inr c \<Longrightarrow>
    session_step s (s\<lparr>se_coordinator := c\<rparr>)"

definition session_inv :: "session \<Rightarrow> bool" where
  "session_inv s \<longleftrightarrow> ready (se_coordinator s) \<and> derived (se_schedule s) (se_coordinator s) \<and>
     (\<forall>t \<in> set (se_tokens s). frozen_for (se_coordinator s) t)"

lemma new_fresh:
  assumes "schedule_wf rs" and "try_new_ticks rs u h f = Inr c"
  shows "fresh_for rs u h f c"
  using construct_outcome [OF assms(1), of u h f "sret () :: unit checkpoint"] assms(2)
  unfolding outcome_def try_new_ticks_def by (auto dest: spec [of _ "()"] split: sum.splits)

lemma new_coordinator:
  assumes "schedule_wf rs" and "try_new_ticks rs u h f = Inr c"
  shows "ready c" and "derived rs c" and "dc_cursor c = 0"
  using new_fresh [OF assms] fresh_for_ready derived_fresh assms(1) by (blast, blast, auto simp: fresh_for_def)

lemma session_init_inv: "session_init s \<Longrightarrow> session_inv s"
  using compile_safe new_coordinator by (fastforce simp: session_init_def session_inv_def dest: safe_Inr)

lemma session_move:
  assumes inv: "session_inv s" and rd: "ready c" and a: "authored (se_coordinator s) c"
  shows "session_inv (s\<lparr>se_coordinator := c\<rparr>)"
proof -
  have d: "derived (se_schedule s) c" using inv derived_authored [OF _ a] by (simp add: session_inv_def)
  then show ?thesis
    using inv rd frozen_for_derived [of "se_schedule s" "se_coordinator s" c] by (simp add: session_inv_def)
qed

lemma session_run:
  assumes inv: "session_inv s" and w: "wp m (\<lambda>_. ready) E (se_coordinator s)" and fr: "frames authored m"
    and run: "m (se_coordinator s) = (Inr x, c)"
  shows "session_inv (s\<lparr>se_coordinator := c\<rparr>)"
proof (rule session_move [OF inv wp_Inr [OF w run]])
  show "authored (se_coordinator s) c" using fr run unfolding frames_def by (metis snd_conv)
qed

lemma session_any:
  assumes inv: "session_inv s" and w: "wp m (\<lambda>_. ready) ready (se_coordinator s)" and fr: "frames authored m"
    and run: "m (se_coordinator s) = (r, c)"
  shows "session_inv (s\<lparr>se_coordinator := c\<rparr>)"
proof (rule session_move [OF inv])
  show "ready c" using wp_snd [OF w] run by simp
  show "authored (se_coordinator s) c" using fr run unfolding frames_def by (metis snd_conv)
qed

lemma session_step_inv:
  assumes inv: "session_inv s" and step: "session_step s s'"
  shows "session_inv s'"
proof -
  let ?c = "se_coordinator s"
  have rd: "ready ?c" and ci: "coord_inv ?c" and d: "derived (se_schedule s) ?c"
    using inv by (simp_all add: session_inv_def ready_def)
  have tk: "frozen_for ?c t" if "t \<in> set (se_tokens s)" for t using inv that by (simp add: session_inv_def)
  have playing: "session_inv s'" if "play_step s s'"
    using that
  proof cases
    case (prepare p)
    then show ?thesis using inv prepared_frozen [OF ci d] by (simp add: session_inv_def)
  next
    case (refreeze t t')
    then show ?thesis using inv refrozen [OF ci d frozen_frame [OF tk]] by (simp add: session_inv_def)
  next
    case (metadata t c)
    then show ?thesis using session_run [OF inv wp_metadata_commit [OF rd tk] authored_commits(1)] by simp
  next
    case (success t started c)
    then show ?thesis using session_run [OF inv wp_success_commit [OF rd tk] authored_commits(2)] by simp
  next
    case (miss t um dm started c)
    then show ?thesis using session_run [OF inv wp_deadline_miss [OF rd tk] authored_commits(3)] by simp
  next
    case (release m started r c)
    then show ?thesis using session_any [OF inv wp_pending_commit [OF rd] authored_commits(4)] by simp
  next
    case (stale p r c)
    then show ?thesis using session_any [OF inv wp_stale [OF rd] authored_commits(5)] by simp
  next
    case (expired intents r c)
    then show ?thesis
      using session_any [OF inv wp_drop_downs [OF rd] authored_drops(1), of DroppedExpired] by (simp add: drop_expired_downs_def)
  next
    case (conflicted intents r c)
    then show ?thesis
      using session_any [OF inv wp_drop_downs [OF rd] authored_drops(1), of DroppedConflict] by (simp add: drop_conflicted_downs_def)
  next
    case (conflicted_slots cs m r c)
    then show ?thesis using session_any [OF inv wp_terminalize_conflicted [OF rd] authored_drops(2)] by simp
  next
    case (splitting intents split c)
    then show ?thesis using session_any [OF inv wp_split_downs [OF rd] authored_drops(3)] by simp
  next
    case (suspend n c)
    have "wp cancel_live_generations_after_verified_resumable_cleanup (\<lambda>_. ready) ready ?c"
      by (rule wp_mono [OF wp_cancel_live [OF rd]]) auto
    then show ?thesis using session_any [OF inv _ authored_cancel_live] suspend by simp
  qed
  from step show ?thesis
  proof cases
    case play
    then show ?thesis by (rule playing)
  next
    case (restart u h f c)
    note n = new_coordinator [OF derived_wf [OF d] restart(2)]
    show ?thesis using restart(1) inv n frozen_for_derived [OF d n(2)] by (simp add: session_inv_def)
  qed
qed

lemmas session_prepare = play_step.prepare [THEN session_step.play]
  and session_metadata = play_step.metadata [THEN session_step.play]
  and session_success = play_step.success [THEN session_step.play]
  and session_miss = play_step.miss [THEN session_step.play]
  and session_release = play_step.release [THEN session_step.play]
  and session_stale = play_step.stale [THEN session_step.play]
  and session_suspend = play_step.suspend [THEN session_step.play]

interpretation session_sys: invariant_system session_init session_step session_inv
  by unfold_locales (auto intro: session_init_inv session_step_inv)

abbreviation session_reachable :: "session \<Rightarrow> bool" where
  "session_reachable \<equiv> reachable session_init session_step"

lemma session_reachableD:
  assumes "session_reachable s"
  shows "ready (se_coordinator s)" and "coord_inv (se_coordinator s)" and "derived (se_schedule s) (se_coordinator s)"
    and "t \<in> set (se_tokens s) \<Longrightarrow> frozen_for (se_coordinator s) t"
  using session_sys.reachable_inv [OF assms] by (simp_all add: session_inv_def ready_def)

section \<open>A session\<close>

text \<open>The chord of the demo schedule is pressed; the second packet is prepared.\<close>

definition demo_ticks :: "u64 \<Rightarrow> timeline_ticks coord_result" where
  "demo_ticks us = Inr (TimelineTicks us)"

definition demo_coordinator :: "usize \<Rightarrow> active_generation option list \<Rightarrow> u16 \<Rightarrow> u64 \<Rightarrow> generation_status list \<Rightarrow> coordinator" where
  "demo_coordinator cursor owners keys activated states =
     \<lparr>dc_schedule = demo_schedule, dc_min_hold_us = 500, dc_min_hold_ticks = DurationTicks 500,
      dc_batch_scheduled_ticks = [TimelineTicks 1000, TimelineTicks 2000, TimelineTicks 2000, TimelineTicks 3000],
      dc_cursor = cursor, dc_active_by_slot = owners, dc_active_mask = keys, dc_blocked_mask = keys,
      dc_counters = \<lparr>gc_released = 0, gc_dropped_conflict = 0, gc_dropped_backend = 0, gc_dropped_expired = 0, gc_cancelled = 0\<rparr>,
      dc_activated_generation_count = activated, dc_generation_states = states, dc_generation_count = 3,
      dc_up_intent_locations = [Some (1, 2), Some (2, 4), Some (2, 5)],
      dc_cancelled_up_by_slot = [None, None, None, None, None, None, None, None, None, None, None, None, None, None, None],
      dc_pending_release_by_slot = [None, None, None, None, None, None, None, None, None, None, None, None, None, None, None],
      dc_pending_release_mask = 0\<rparr>"

definition demo_start :: coordinator where
  "demo_start = demo_coordinator 0
     [None, None, None, None, None, None, None, None, None, None, None, None, None, None, None] 0 0
     [Scheduled, Scheduled, Scheduled]"

definition demo_owner :: "generation_id \<Rightarrow> u16 \<Rightarrow> key_slot \<Rightarrow> active_generation option" where
  "demo_owner g code slot = Some \<lparr>ag_generation_id = g, ag_scan_code = code, ag_key_slot = slot, ag_source_action_index = 0,
     ag_release_not_before_ticks = TimelineTicks 1500\<rparr>"

definition demo_pressed :: coordinator where
  "demo_pressed = demo_coordinator 1
     [demo_owner 0 30 0, demo_owner 1 31 1, None, None, None, None, None, None, None, None, None, None, None, None, None] 3 2
     [Active, Active, Scheduled]"

definition demo_chord :: prepared_authored_commit where
  "demo_chord =
     \<lparr>pc_frame = \<lparr>pf_first_batch_index = 0, pf_packet_index = 0, pf_packet_batch_count = 1,
        pf_authored_ticks = TimelineTicks 1000, pf_immediate_up_mask = 0, pf_deferred_up_mask = 0, pf_down_mask = 3,
        pf_stale_up_count = 0\<rparr>,
      pc_up_intents = [],
      pc_down_intents = [\<lparr>pd_generation = 0, pd_scan_code = 30, pd_key_slot = 0\<rparr>,
        \<lparr>pd_generation = 1, pd_scan_code = 31, pd_key_slot = 1\<rparr>],
      pc_down_source_action_index = Some 0\<rparr>"

definition demo_mixed :: prepared_authored_commit where
  "demo_mixed =
     \<lparr>pc_frame = \<lparr>pf_first_batch_index = 1, pf_packet_index = 1, pf_packet_batch_count = 2,
        pf_authored_ticks = TimelineTicks 2000, pf_immediate_up_mask = 1, pf_deferred_up_mask = 0, pf_down_mask = 4,
        pf_stale_up_count = 0\<rparr>,
      pc_up_intents = [\<lparr>pu_intent = CompactIntent 0, pu_source_action_index = 0,
        pu_identity = \<lparr>au_generation_slot = CompactIntent 0, au_packet_index = 1, au_intent_index = 2\<rparr>\<rparr>],
      pc_down_intents = [\<lparr>pd_generation = 2, pd_scan_code = 32, pd_key_slot = 2\<rparr>],
      pc_down_source_action_index = Some 1\<rparr>"

definition demo_session :: session where
  "demo_session = \<lparr>se_schedule = demo_schedule, se_coordinator = demo_pressed, se_tokens = [demo_mixed, demo_chord]\<rparr>"

lemma demo_new: "try_new_ticks demo_schedule 500 (DurationTicks 500) demo_ticks = Inr demo_start"
  by code_simp

lemma demo_prepare_chord: "map_sum id (map_option pp_commit) (prepare_current_authored_packet demo_start) = Inr (Some demo_chord)"
  by code_simp

lemma demo_prepare_mixed: "map_sum id (map_option pp_commit) (prepare_current_authored_packet demo_pressed) = Inr (Some demo_mixed)"
  by code_simp

lemma demo_press: "commit_prepared_authored_frame_success_frozen demo_chord (TimelineTicks 1000) demo_start = (Inr (), demo_pressed)"
  by code_simp

lemma demo_reachable: "session_reachable demo_session"
proof -
  let ?s0 = "\<lparr>se_schedule = demo_schedule, se_coordinator = demo_start, se_tokens = []\<rparr>"
  let ?s1 = "?s0\<lparr>se_tokens := [demo_chord]\<rparr>"
  let ?s2 = "?s1\<lparr>se_coordinator := demo_pressed\<rparr>"
  have "session_reachable ?s0"
    using demo_new demo_compiles by (intro reachable.start) (auto simp: session_init_def)
  moreover obtain p where p: "prepare_current_authored_packet demo_start = Inr (Some p)" "pp_commit p = demo_chord"
    using demo_prepare_chord by (cases "prepare_current_authored_packet demo_start") auto
  ultimately have "session_reachable ?s1"
    using session_prepare [of ?s0 p] by (auto intro: reachable.step)
  then have "session_reachable ?s2"
    using session_success [of demo_chord ?s1] demo_press by (auto intro: reachable.step)
  moreover obtain q where q: "prepare_current_authored_packet demo_pressed = Inr (Some q)" "pp_commit q = demo_mixed"
    using demo_prepare_mixed by (cases "prepare_current_authored_packet demo_pressed") auto
  ultimately have "session_reachable (?s2\<lparr>se_tokens := demo_mixed # se_tokens ?s2\<rparr>)"
    using session_prepare [of ?s2 q] by (auto intro: reachable.step)
  then show ?thesis by (simp add: demo_session_def)
qed

section \<open>Properties\<close>

lemma accounting_adds_up:
  assumes inv: "coord_inv c"
  shows "\<exists>r. (generation_accounting_of c :: coordinator_error failure + _) = Inr r \<and> ga_total r = dc_generation_count c \<and>
    unat (ga_total r) = unat (ga_scheduled r) + unat (ga_active r) + unat (ga_released r) + unat (ga_dropped_conflict r) +
      unat (ga_dropped_backend r) + unat (ga_dropped_expired r) + unat (ga_cancelled r) \<and>
    unat (ga_active r) = count_ones (dc_active_mask c)"
proof -
  have "cnt c Scheduled + cnt c Active + terminal_count (dc_generation_states c) = unat (dc_generation_count c)"
    using counts_total [of "dc_generation_states c"] coord_invD(1) [OF inv] by (simp add: ledger_base_def)
  then show ?thesis
    using generation_accounting_ok [OF inv] active_count [OF inv] unfolding terminal_count_def by auto
qed

text \<open>C7: In every reachable session both audits of the coordinator succeed, and the compact accounting,
  whose arithmetic would panic if a counter were off, returns buckets that add up to the generations of
  the schedule, with as many active ones as keys in the ownership mask.\<close>

theorem session_audits_pass:
  assumes "session_reachable s"
  shows "check_local_invariants (se_coordinator s) = Inr () \<and> check_invariants (se_coordinator s) = Inr () \<and>
    (\<exists>r. (generation_accounting_of (se_coordinator s) :: coordinator_error failure + _) = Inr r \<and>
       ga_total r = rs_generation_count (se_schedule s) \<and>
       unat (ga_total r) = unat (ga_scheduled r) + unat (ga_active r) + unat (ga_released r) + unat (ga_dropped_conflict r) +
         unat (ga_dropped_backend r) + unat (ga_dropped_expired r) + unat (ga_cancelled r) \<and>
       unat (ga_active r) = count_ones (dc_active_mask (se_coordinator s)))"
  using check_local_ok check_invariants_ok accounting_adds_up session_reachableD(2) [OF assms]
    derived_lengths(5) [OF session_reachableD(3) [OF assms]] by fastforce

theorem session_audits_pass_witness:
  "session_reachable demo_session \<and> check_invariants demo_pressed = Inr ()"
  using session_audits_pass [OF demo_reachable] demo_reachable by (simp add: demo_session_def)

definition terminable :: "coordinator \<Rightarrow> bool" where
  "terminable c \<longleftrightarrow> check_invariants c = Inr () \<and>
     (\<exists>ids c'. cancel_all c = (Inr ids, c') \<and> check_post_cleanup_invariants c' = Inr ())"

lemma coord_inv_terminable:
  assumes "coord_inv c" shows "terminable c"
  using check_invariants_ok [OF assms] cancel_all_ok [OF assms] by (auto simp: terminable_def)

lemma wp_terminable:
  assumes "wp m (\<lambda>_. ready) coord_inv c"
  shows "fst (m c) \<noteq> Inl Panic \<and> terminable (snd (m c))"
proof -
  have "wp m (\<lambda>_. coord_inv) coord_inv c" by (rule wp_mono [OF assms]) (auto simp: ready_def)
  from coord_inv_terminable [OF wp_snd [OF this]] wp_no_panic [OF this] show ?thesis by simp
qed

text \<open>C22: A frozen commit fails safely. In every reachable session, applying any token, whether fresh or
  left over from an earlier pass, after a send, after a missed deadline or as metadata, never panics; and
  whatever it returns, the coordinator it leaves passes the full audit and can still be terminated:
  \<open>cancel_all\<close> succeeds on it and the terminal audit passes.\<close>

theorem frozen_commits_fail_safely:
  assumes "session_reachable s" and "t \<in> set (se_tokens s)"
    and "op \<in> {commit_prepared_authored_frame_metadata_frozen t, commit_prepared_authored_frame_success_frozen t started,
               commit_prepared_authored_frame_deadline_miss t confirmed missed started}"
  shows "fst (op (se_coordinator s)) \<noteq> Inl Panic \<and> terminable (snd (op (se_coordinator s)))"
proof -
  note R = session_reachableD [OF assms(1)]
  show ?thesis
    using assms(3) wp_terminable [OF wp_metadata_commit [OF R(1) R(4) [OF assms(2)]]]
      wp_terminable [OF wp_success_commit [OF R(1) R(4) [OF assms(2)]]] wp_terminable [OF wp_deadline_miss [OF R(1) R(4) [OF assms(2)]]]
    by blast
qed

theorem frozen_commits_fail_safely_witness:
  "fst (commit_prepared_authored_frame_success_frozen demo_chord (TimelineTicks 9) demo_pressed) \<noteq> Inl Panic \<and>
   terminable (snd (commit_prepared_authored_frame_success_frozen demo_chord (TimelineTicks 9) demo_pressed))"
proof -
  have "demo_chord \<in> set (se_tokens demo_session)" by (simp add: demo_session_def)
  from frozen_commits_fail_safely [OF demo_reachable this insertI2 [OF insertI1]] show ?thesis by (simp add: demo_session_def)
qed

text \<open>C15: Termination always works. From every reachable session \<open>cancel_all\<close> succeeds and returns, in
  ascending order, exactly the generations that own a key; afterwards every generation is terminal, the
  ones that had ended keep their status and all others are cancelled, and the terminal audit passes.\<close>

theorem cancel_all_terminates:
  assumes "session_reachable s"
  shows "\<exists>ids c'. cancel_all (se_coordinator s) = (Inr ids, c') \<and> sorted ids \<and>
    set ids = {g. unat g < length (dc_generation_states (se_coordinator s)) \<and> dc_generation_states (se_coordinator s) ! unat g = Active} \<and>
    dc_generation_states c' = map (\<lambda>st. if is_terminal st then st else Cancelled) (dc_generation_states (se_coordinator s)) \<and>
    check_post_cleanup_invariants c' = Inr ()"
proof -
  note inv = session_reachableD(2) [OF assms]
  have "sorted (live_generations (se_coordinator s))" by (simp add: live_generations_def)
  moreover have "cancelled_status = (\<lambda>st. if is_terminal st then st else Cancelled)" by (auto simp: cancelled_status_def)
  ultimately show ?thesis using cancel_all_ok [OF inv] set_live_generations [OF inv] by (auto simp: has_status_def)
qed

theorem cancel_all_terminates_witness:
  "\<exists>ids c'. cancel_all demo_pressed = (Inr ids, c') \<and> set ids = {g. unat g < 3 \<and> [Active, Active, Scheduled] ! unat g = Active} \<and>
     dc_generation_states c' = [Cancelled, Cancelled, Cancelled]"
  using cancel_all_terminates [OF demo_reachable]
  by (auto simp: demo_session_def demo_pressed_def demo_coordinator_def is_terminal_def)

lemma suspension_effect:
  assumes inv: "coord_inv c"
  shows "\<exists>c'. cancel_live_generations_after_verified_resumable_cleanup c = (Inr (count_ones (dc_active_mask c)), c') \<and>
    dc_generation_states c' = map (\<lambda>st. if st = Active then Cancelled else st) (dc_generation_states c) \<and>
    dc_active_mask c' = 0 \<and> dc_pending_release_mask c' = 0 \<and> dc_cursor c' = dc_cursor c \<and>
    (\<forall>slot < MAX_KEYS. case act c slot of
        None \<Rightarrow> tok c' slot = tok c slot
      | Some a \<Rightarrow> \<exists>t. tok c' slot = Some t \<and> identity_generation_id t = ag_generation_id a \<and>
          location_of c (ag_generation_id a) = Some (Some (identity_packet_index t, identity_intent_index t)))"
proof -
  obtain c' where run: "cancel_live_generations_after_verified_resumable_cleanup c = (Inr (count_ones (dc_active_mask c)), c')"
    and inv': "coord_inv c'" and lay: "same_layout c c'" and cur: "dc_cursor c' = dc_cursor c"
    and masks: "dc_active_mask c' = 0" "dc_pending_release_mask c' = 0"
    and tk: "\<forall>s < MAX_KEYS. tok c' s = (if act c s \<noteq> None then live_id c s else tok c s)"
    and st: "\<forall>g x. has_status c' g x \<longleftrightarrow> (if has_status c g Active then x = Cancelled else has_status c g x)"
    using cancel_live_ok [OF inv] by auto
  have len: "length (dc_generation_states c') = length (dc_generation_states c)"
    using coord_invD(1) [OF inv] coord_invD(1) [OF inv'] lay by (simp add: ledger_base_def same_layout_def)
  have small: "length (dc_generation_states c) < 2 ^ 64" using coord_invD(1) [OF inv] total_less [of c] by (simp add: ledger_base_def)
  have "dc_generation_states c' = map (\<lambda>st. if st = Active then Cancelled else st) (dc_generation_states c)"
  proof (rule nth_equalityI)
    fix n assume n: "n < length (dc_generation_states c')"
    let ?g = "word_of_nat n :: generation_id"
    have u: "unat ?g = n" using n len small by (simp add: unat_word_of_nat_small)
    have "has_status c' ?g (dc_generation_states c' ! n)" using n u by (simp add: has_status_def)
    then show "dc_generation_states c' ! n = map (\<lambda>st. if st = Active then Cancelled else st) (dc_generation_states c) ! n"
      using spec [OF spec [OF st, of ?g], of "dc_generation_states c' ! n"] n len u
      by (simp add: has_status_def split: if_splits)
  qed (simp add: len)
  moreover have "\<forall>slot < MAX_KEYS. case act c slot of None \<Rightarrow> tok c' slot = tok c slot
      | Some a \<Rightarrow> \<exists>t. tok c' slot = Some t \<and> identity_generation_id t = ag_generation_id a \<and>
          location_of c (ag_generation_id a) = Some (Some (identity_packet_index t, identity_intent_index t))"
    using tk live_identity_Some [OF inv] by (fastforce simp: live_id_def located_def split: option.splits)
  ultimately show ?thesis using run masks cur by blast
qed

text \<open>C17: A resumable pause suspends exactly what is held. From every reachable session the cancellation
  succeeds and returns the number of owned keys; precisely the active generations become cancelled, no key
  stays owned or pending, the cursor stays, and every key that was held carries a token that names its
  generation and the compiled place of that generation's Up, while the other keys keep their tokens.\<close>

theorem suspension_cancels_owned_keys:
  assumes "session_reachable s"
  shows "\<exists>c'. cancel_live_generations_after_verified_resumable_cleanup (se_coordinator s)
        = (Inr (count_ones (dc_active_mask (se_coordinator s))), c') \<and>
    dc_generation_states c' = map (\<lambda>st. if st = Active then Cancelled else st) (dc_generation_states (se_coordinator s)) \<and>
    dc_active_mask c' = 0 \<and> dc_pending_release_mask c' = 0 \<and> dc_cursor c' = dc_cursor (se_coordinator s) \<and>
    (\<forall>slot < MAX_KEYS. case dc_active_by_slot (se_coordinator s) ! slot of
        None \<Rightarrow> dc_cancelled_up_by_slot c' ! slot = dc_cancelled_up_by_slot (se_coordinator s) ! slot
      | Some a \<Rightarrow> \<exists>t. dc_cancelled_up_by_slot c' ! slot = Some t \<and> identity_generation_id t = ag_generation_id a \<and>
          location_of (se_coordinator s) (ag_generation_id a) = Some (Some (identity_packet_index t, identity_intent_index t)))"
  by (rule suspension_effect [OF session_reachableD(2) [OF assms]])

theorem suspension_cancels_owned_keys_witness:
  "\<exists>c'. cancel_live_generations_after_verified_resumable_cleanup demo_pressed = (Inr 2, c') \<and>
     dc_generation_states c' = [Cancelled, Cancelled, Scheduled] \<and> dc_active_mask c' = 0"
proof -
  have "count_ones (3 :: u16) = 2" by code_simp
  then show ?thesis
    using suspension_cancels_owned_keys [OF demo_reachable] by (auto simp: demo_session_def demo_pressed_def demo_coordinator_def)
qed

text \<open>C20: A key has one owner. In every reachable session two different active generations hold different
  keys: each active generation is recorded at exactly one slot, the ownership and blocking masks are
  exactly the recorded slots, and a deferred release on a slot is for the generation that owns it.\<close>

theorem keys_have_one_owner:
  assumes "session_reachable s"
  shows "(\<forall>g. unat g < length (dc_generation_states (se_coordinator s)) \<and> dc_generation_states (se_coordinator s) ! unat g = Active \<longrightarrow>
       (\<exists>!slot. slot < MAX_KEYS \<and> (\<exists>a. dc_active_by_slot (se_coordinator s) ! slot = Some a \<and> ag_generation_id a = g))) \<and>
    (\<forall>slot. bit (dc_active_mask (se_coordinator s)) slot \<longleftrightarrow>
       slot < MAX_KEYS \<and> dc_active_by_slot (se_coordinator s) ! slot \<noteq> None) \<and>
    dc_blocked_mask (se_coordinator s) = dc_active_mask (se_coordinator s) \<and>
    (\<forall>slot < MAX_KEYS. \<forall>q. dc_pending_release_by_slot (se_coordinator s) ! slot = Some q \<longrightarrow>
       (\<exists>a. dc_active_by_slot (se_coordinator s) ! slot = Some a \<and> ag_generation_id a = pr_generation_id q))"
proof -
  note D = coord_invD [OF session_reachableD(2) [OF assms]]
  have "\<exists>!slot. slot < MAX_KEYS \<and> (\<exists>a. act (se_coordinator s) slot = Some a \<and> ag_generation_id a = g)"
    if "has_status (se_coordinator s) g Active" for g
    using owner_exists [OF D(5) that] owner_slot_unique [OF D(5)] by metis
  then show ?thesis using D(5,6) owner_mask [OF D(5)] by (auto simp: has_status_def owner_inv_def pending_inv_def)
qed

theorem keys_have_one_owner_witness:
  "\<exists>!slot. slot < MAX_KEYS \<and> (\<exists>a. dc_active_by_slot demo_pressed ! slot = Some a \<and> ag_generation_id a = 1)"
  using keys_have_one_owner [OF demo_reachable] by (simp add: demo_session_def demo_pressed_def demo_coordinator_def)

subsection \<open>Lifecycles only advance\<close>

lemma ages_after:
  assumes "frames ages m" and "m (se_coordinator s) = (r, c)"
  shows "ages (se_coordinator s) (se_coordinator (s\<lparr>se_coordinator := c\<rparr>))"
  using assms(1) [unfolded frames_def, rule_format, of "se_coordinator s"] assms(2) by simp

text \<open>A step ages the ledger, or is the cancellation of a pause.\<close>

lemma play_step_ages:
  assumes "play_step s s'"
  shows "ages (se_coordinator s) (se_coordinator s') \<or>
    (\<exists>n. cancel_live_generations_after_verified_resumable_cleanup (se_coordinator s) = (n, se_coordinator s'))"
proof -
  from assms show ?thesis
  proof cases
    case (prepare p)
    then show ?thesis by (simp add: ages.frame_refl)
  next
    case (refreeze t t')
    then show ?thesis by (simp add: ages.frame_refl)
  next
    case (metadata t c)
    then show ?thesis using ages_after [OF ages_commits(1)] by blast
  next
    case (success t started c)
    then show ?thesis using ages_after [OF ages_commits(2)] by blast
  next
    case (miss t um dm started c)
    then show ?thesis using ages_after [OF ages_commits(3)] by blast
  next
    case (release m started r c)
    then show ?thesis using ages_after [OF ages_commits(4)] by blast
  next
    case (stale p r c)
    then show ?thesis using ages_after [OF ages_commits(5)] by blast
  next
    case (expired intents r c)
    then show ?thesis using ages_after [OF ages_drops(1)] unfolding drop_expired_downs_def by blast
  next
    case (conflicted intents r c)
    then show ?thesis using ages_after [OF ages_drops(1)] unfolding drop_conflicted_downs_def by blast
  next
    case (conflicted_slots cs m r c)
    then show ?thesis using ages_after [OF ages_drops(2)] by blast
  next
    case (splitting intents split c)
    then show ?thesis using ages_after [OF ages_drops(3)] by blast
  next
    case (suspend n c)
    then show ?thesis by auto
  qed
qed

lemma suspended_cancelled:
  assumes "coord_inv c" and "suspended c n"
  shows "n < length (dc_generation_states c)" and "dc_generation_states c ! n = Cancelled"
proof -
  obtain t where t: "Some t \<in> set (dc_cancelled_up_by_slot c)" "unat (identity_generation_id t) = n"
    using assms(2) by (auto simp: suspended_token)
  then obtain slot where "slot < length (dc_cancelled_up_by_slot c)" "tok c slot = Some t"
    by (auto simp: in_set_conv_nth)
  then have "has_status c (identity_generation_id t) Cancelled"
    using coord_invD(7) [OF assms(1)] by (simp add: token_inv_def token_defs)
  then show "n < length (dc_generation_states c)" and "dc_generation_states c ! n = Cancelled"
    using t(2) by (simp_all add: has_status_def)
qed

lemma suspension_takes_tokens:
  assumes inv: "coord_inv c" "coord_inv c'" and n: "suspended c' n"
    and run: "cancel_live_generations_after_verified_resumable_cleanup c = (r, c')"
  shows "suspended c n \<or> dc_generation_states c ! n = Active \<and> dc_generation_states c' ! n = Cancelled"
proof -
  have len: "length (dc_cancelled_up_by_slot c) = MAX_KEYS" "length (dc_cancelled_up_by_slot c') = MAX_KEYS"
    using inv [THEN coord_invD(7)] by (simp_all add: token_inv_def)
  obtain t where t: "Some t \<in> set (dc_cancelled_up_by_slot c')" "unat (identity_generation_id t) = n"
    using n by (auto simp: suspended_token)
  then obtain slot where slot: "slot < MAX_KEYS" "tok c' slot = Some t" using len by (auto simp: in_set_conv_nth)
  have effect: "case act c slot of None \<Rightarrow> tok c' slot = tok c slot
      | Some a \<Rightarrow> \<exists>t. tok c' slot = Some t \<and> identity_generation_id t = ag_generation_id a"
    using suspension_effect [OF inv(1)] run slot(1) by (auto split: option.splits)
  show ?thesis
  proof (cases "act c slot")
    case None
    then have "Some t \<in> set (dc_cancelled_up_by_slot c)" using effect slot len by (auto simp: in_set_conv_nth)
    then show ?thesis using t(2) by (auto simp: suspended_token)
  next
    case (Some a)
    then have "has_status c (ag_generation_id a) Active" and "unat (ag_generation_id a) = n"
      using coord_invD(5) [OF inv(1)] slot effect t(2) by (auto simp: owner_inv_def)
    then show ?thesis using suspended_cancelled(2) [OF inv(2) n] by (simp add: has_status_def)
  qed
qed

lemma play_step_life:
  assumes "session_reachable s" and "play_step s s'"
  shows "length (dc_generation_states (se_coordinator s')) = length (dc_generation_states (se_coordinator s))"
    and "n < length (dc_generation_states (se_coordinator s)) \<Longrightarrow> (life_step (suspended (se_coordinator s) n))\<^sup>*\<^sup>*
      (dc_generation_states (se_coordinator s) ! n) (dc_generation_states (se_coordinator s') ! n)"
    and "suspended (se_coordinator s') n \<Longrightarrow> suspended (se_coordinator s) n \<or>
      dc_generation_states (se_coordinator s) ! n = Active \<and> dc_generation_states (se_coordinator s') ! n = Cancelled"
proof -
  have inv: "coord_inv (se_coordinator s)" "coord_inv (se_coordinator s')"
    using session_reachableD(2) assms reachable.step [OF assms(1) session_step.play] by blast+
  have leg: "legal (se_coordinator s) (se_coordinator s')"
    if "cancel_live_generations_after_verified_resumable_cleanup (se_coordinator s) = (r, se_coordinator s')" for r
    using legal_cancel_live that unfolding frames_def by (metis snd_conv)
  show "length (dc_generation_states (se_coordinator s')) = length (dc_generation_states (se_coordinator s))"
    using play_step_ages [OF assms(2)] leg by (auto simp: ages_def legal_def)
  show "(life_step (suspended (se_coordinator s) n))\<^sup>*\<^sup>*
      (dc_generation_states (se_coordinator s) ! n) (dc_generation_states (se_coordinator s') ! n)"
    if "n < length (dc_generation_states (se_coordinator s))"
    using play_step_ages [OF assms(2)] leg that can_transition_life by (auto simp: ages_def legal_def)
  show "suspended (se_coordinator s) n \<or>
      dc_generation_states (se_coordinator s) ! n = Active \<and> dc_generation_states (se_coordinator s') ! n = Cancelled"
    if "suspended (se_coordinator s') n"
    using play_step_ages [OF assms(2)] suspension_takes_tokens [OF inv that] that by (auto simp: ages_def)
qed

lemma life_final:
  assumes "(life_step False)\<^sup>*\<^sup>* st st'" and "is_terminal st"
  shows "st' = st"
proof -
  have "\<not> life_step False st x" for x
    using assms(2) by (auto simp: life_step_def can_transition_to_def is_terminal_def)
  then show ?thesis using assms(1) by (metis converse_rtranclpE)
qed

lemma final_stays:
  assumes "session_reachable s" and "play_step\<^sup>*\<^sup>* s t" and "n < length (dc_generation_states (se_coordinator s))"
    and "is_terminal (dc_generation_states (se_coordinator s) ! n)" and "\<not> suspended (se_coordinator s) n"
  shows "dc_generation_states (se_coordinator t) ! n = dc_generation_states (se_coordinator s) ! n \<and>
    \<not> suspended (se_coordinator t) n \<and> n < length (dc_generation_states (se_coordinator t)) \<and> session_reachable t"
  using assms(2)
proof induction
  case base
  then show ?case using assms by simp
next
  case (step t t')
  then have t: "session_reachable t" and fin: "is_terminal (dc_generation_states (se_coordinator t) ! n)"
    "\<not> suspended (se_coordinator t) n" "n < length (dc_generation_states (se_coordinator t))"
    using assms(4) by simp_all
  note life = play_step_life [OF t step.hyps(2)]
  have "dc_generation_states (se_coordinator t') ! n = dc_generation_states (se_coordinator t) ! n"
    using life_final [OF _ fin(1)] life(2) [OF fin(3)] fin(2) by simp
  moreover have "\<not> suspended (se_coordinator t') n" using life(3) [of n] fin by (auto simp: is_terminal_def)
  ultimately show ?case
    using step.IH life(1) reachable.step [OF t session_step.play [OF step.hyps(2)]] by simp
qed

text \<open>The chord of the demo is suspended by a pause; the next packet releases its first key and presses the
  third, and a second pause suspends that one.\<close>

definition demo_none :: "'a option list" where
  "demo_none = replicate MAX_KEYS None"

definition demo_after_pause ::
  "usize \<Rightarrow> active_generation option list \<Rightarrow> u16 \<Rightarrow> u64 \<Rightarrow> generation_status list \<Rightarrow> u64 \<Rightarrow> u64 \<Rightarrow>
   authored_up_identity option list \<Rightarrow> coordinator" where
  "demo_after_pause cursor owners keys activated states released cancelled tokens =
     (demo_coordinator cursor owners keys activated states)
       \<lparr>dc_schedule := demo_schedule\<lparr>rs_intents := [CompactIntent 0, CompactIntent 17, CompactIntent 18446744073709551600,
           CompactIntent 34, CompactIntent 18446744073709551601, CompactIntent 34]\<rparr>,
        dc_counters := \<lparr>gc_released = released, gc_dropped_conflict = 0, gc_dropped_backend = 0, gc_dropped_expired = 0,
          gc_cancelled = cancelled\<rparr>,
        dc_cancelled_up_by_slot := tokens\<rparr>"

definition demo_up :: "u64 \<Rightarrow> u32 \<Rightarrow> u32 \<Rightarrow> authored_up_identity option" where
  "demo_up intent packet index =
     Some \<lparr>au_generation_slot = CompactIntent intent, au_packet_index = packet, au_intent_index = index\<rparr>"

definition demo_tokens :: "authored_up_identity option list" where
  "demo_tokens = demo_none[0 := demo_up 0 1 2, 1 := demo_up 17 2 4]"

definition demo_suspended :: coordinator where
  "demo_suspended = demo_after_pause 1 demo_none 0 2 [Cancelled, Cancelled, Scheduled] 0 2
     demo_tokens"

definition demo_resumed :: coordinator where
  "demo_resumed = demo_after_pause 3
     (demo_none[2 := Some \<lparr>ag_generation_id = 2, ag_scan_code = 32, ag_key_slot = 2, ag_source_action_index = 1,
        ag_release_not_before_ticks = TimelineTicks 2500\<rparr>]) 4 3 [Released, Cancelled, Active] 1 1
     (demo_none[1 := demo_up 17 2 4])"

lemma demo_loop: "sfor (enumerate 0 demo_tokens) cancel_live_slot demo_pressed =
    (Inr (), demo_suspended\<lparr>dc_active_by_slot := dc_active_by_slot demo_pressed, dc_active_mask := 3, dc_blocked_mask := 3\<rparr>)"
  by code_simp

lemma demo_identities: "live_identities demo_pressed = Inr demo_tokens"
  by code_simp

lemma demo_suspend:
  obtains n where "cancel_live_generations_after_verified_resumable_cleanup demo_pressed = (n, demo_suspended)"
proof -
  have "coord_inv demo_pressed" using session_reachableD(2) [OF demo_reachable] by (simp add: demo_session_def)
  from check_local_ok [OF this] have "run_audit check_local_invariants demo_pressed = (Inr (), demo_pressed)"
    by (simp add: run_audit_def)
  moreover have "clear_ownership (demo_suspended\<lparr>dc_active_by_slot := dc_active_by_slot demo_pressed,
      dc_active_mask := 3, dc_blocked_mask := 3\<rparr>) = demo_suspended"
    by code_simp
  moreover have "checked_add (gc_cancelled (dc_counters demo_pressed)) 2 = Some 2"
    and "length (filter (\<lambda>i. i \<noteq> None) demo_tokens) = 2" by code_simp+
  ultimately have "snd (cancel_live_generations_after_verified_resumable_cleanup demo_pressed) = demo_suspended"
    unfolding cancel_live_generations_after_verified_resumable_cleanup_def
    by (simp add: sbind_apply demo_identities demo_loop run_audit_def Let_def split: sum.splits prod.splits)
  then show ?thesis using that by (metis prod.collapse)
qed

lemma demo_resume: "commit_prepared_authored_frame_success_frozen demo_mixed (TimelineTicks 2000) demo_suspended = (Inr (), demo_resumed)"
  by code_simp

text \<open>C23: Lifecycles only advance. In every reachable session, a step of the pass (any step but starting
  over with a new coordinator) keeps the number of generations and moves each of them forward by the legal
  transitions of the ledger; the one further move, from cancelled to released, is open only to a generation
  whose token, taken when a pause suspended it, the coordinator still holds. A held token belongs to a
  cancelled generation, and a step hands one out only for a generation that it takes from active to
  cancelled. A generation that is terminal and has no token is final: however the pass goes on, its status
  never changes again.\<close>

theorem lifecycles_only_advance:
  assumes "session_reachable s" and "play_step s s'" and "play_step\<^sup>*\<^sup>* s' t"
  shows "length (dc_generation_states (se_coordinator s')) = length (dc_generation_states (se_coordinator s)) \<and>
    (\<forall>n < length (dc_generation_states (se_coordinator s)).
      (life_step (suspended (se_coordinator s) n))\<^sup>*\<^sup>*
        (dc_generation_states (se_coordinator s) ! n) (dc_generation_states (se_coordinator s') ! n) \<and>
      (suspended (se_coordinator s) n \<longrightarrow> dc_generation_states (se_coordinator s) ! n = Cancelled) \<and>
      (suspended (se_coordinator s') n \<and> \<not> suspended (se_coordinator s) n \<longrightarrow>
         dc_generation_states (se_coordinator s) ! n = Active \<and> dc_generation_states (se_coordinator s') ! n = Cancelled) \<and>
      (is_terminal (dc_generation_states (se_coordinator s') ! n) \<and> \<not> suspended (se_coordinator s') n \<longrightarrow>
         dc_generation_states (se_coordinator t) ! n = dc_generation_states (se_coordinator s') ! n))"
proof -
  note life = play_step_life [OF assms(1,2)]
  have next_state: "session_reachable s'" using reachable.step [OF assms(1) session_step.play [OF assms(2)]] .
  show ?thesis
    using life suspended_cancelled [OF session_reachableD(2) [OF assms(1)]] final_stays [OF next_state assms(3)] by simp blast
qed

text \<open>The suspended first key, still owed its Up, is released; after the second pause it stays released.\<close>

theorem lifecycles_only_advance_witness:
  "\<exists>s s' t. session_reachable s \<and> play_step s s' \<and> play_step s' t \<and> suspended (se_coordinator s) 0 \<and>
     dc_generation_states (se_coordinator s) = [Cancelled, Cancelled, Scheduled] \<and>
     dc_generation_states (se_coordinator s') = [Released, Cancelled, Active] \<and>
     (life_step True)\<^sup>*\<^sup>* Cancelled Released \<and> dc_generation_states (se_coordinator t) ! 0 = Released"
proof -
  let ?s = "demo_session\<lparr>se_coordinator := demo_suspended\<rparr>" and ?s' = "demo_session\<lparr>se_coordinator := demo_resumed\<rparr>"
  obtain k where "cancel_live_generations_after_verified_resumable_cleanup demo_pressed = (k, demo_suspended)"
    by (rule demo_suspend)
  then have s: "session_reachable ?s"
    using reachable.step [OF demo_reachable session_suspend] by (simp add: demo_session_def)
  have s': "play_step ?s ?s'"
    using play_step.success [of demo_mixed ?s] demo_resume by (auto simp: demo_session_def)
  obtain k' c where "cancel_live_generations_after_verified_resumable_cleanup demo_resumed = (k', c)" by fastforce
  then have t: "play_step ?s' (?s'\<lparr>se_coordinator := c\<rparr>)" using play_step.suspend [of ?s'] by simp
  have states: "dc_generation_states demo_suspended = [Cancelled, Cancelled, Scheduled]"
    "dc_generation_states demo_resumed = [Released, Cancelled, Active]"
    "suspended demo_suspended 0" "\<not> suspended demo_resumed 0"
    by code_simp+
  from lifecycles_only_advance [OF s s' r_into_rtranclp [of play_step, OF t]] states s s' t show ?thesis
    by (intro exI [of _ ?s] exI [of _ ?s'] exI [of _ "?s'\<lparr>se_coordinator := c\<rparr>"])
      (auto simp: is_terminal_def dest!: spec [of _ "0 :: nat"])
qed

end
