(* ===== verification/Sky_Packet.thy ===== *)
theory Sky_Packet
  imports Sky_Schedule
begin

unbundle bit_operations_syntax

text \<open>
  Physical packets and the instrument key profile (\<open>sky_dispatch_win32/src/input\<close>: \<open>scan_code.rs\<close>,
  \<open>profile.rs\<close>, the constructors of \<open>packet.rs\<close>, the packet and status types of \<open>outcome.rs\<close>). A
  keyboard \<open>INPUT\<close> is a record of the fields the code fills in; the numeric values of the Win32 constants
  are the documented ones. The uninitialised tail of the fixed input array is never read, so the model
  keeps the written prefix.
\<close>

section \<open>Scan codes\<close>

definition SKY_PLAYER_SIGNATURE :: usize where
  "SKY_PLAYER_SIGNATURE = 0x5C1B9111"

definition PHYSICAL_INSTRUMENT_SCAN_CODES :: "u16 list" where
  "PHYSICAL_INSTRUMENT_SCAN_CODES =
     [0x15, 0x16, 0x17, 0x18, 0x19, 0x23, 0x24, 0x25, 0x26, 0x27, 0x31, 0x32, 0x33, 0x34, 0x35]"

definition FULL_INSTRUMENT_MASK :: u16 where
  "FULL_INSTRUMENT_MASK = push_bit 15 1 - 1"

definition SCAN_CODE_TO_MASK :: "u16 list" where
  "SCAN_CODE_TO_MASK =
     fold (\<lambda>(code, bit) table. table[code := mask_bit bit])
       [(0x15, 0), (0x16, 1), (0x17, 2), (0x18, 3), (0x19, 4), (0x23, 5), (0x24, 6), (0x25, 7), (0x26, 8), (0x27, 9),
        (0x31, 10), (0x32, 11), (0x33, 12), (0x34, 13), (0x35, 14)]
       (replicate 0x36 0)"

definition key_mask :: "u16 \<Rightarrow> u16 option" where
  "key_mask scan_code =
     (let m = (case nth_opt SCAN_CODE_TO_MASK (unat scan_code) of Some x \<Rightarrow> x | None \<Rightarrow> 0) in
      if m \<noteq> 0 then Some m else None)"

definition valid_instrument_scan_code :: "u16 \<Rightarrow> bool" where
  "valid_instrument_scan_code scan_code \<longleftrightarrow> key_mask scan_code \<noteq> None"

definition scan_codes_from_mask :: "u16 \<Rightarrow> u16 list" where
  "scan_codes_from_mask m =
     List.map_filter (\<lambda>(slot, scan_code). if m AND mask_bit slot \<noteq> 0 then Some scan_code else None)
       (enumerate 0 PHYSICAL_INSTRUMENT_SCAN_CODES)"

section \<open>Keyboard events\<close>

record keyboard_input =
  ki_type :: u32
  ki_wVk :: u16
  ki_wScan :: u16
  ki_dwFlags :: u32
  ki_time :: u32
  ki_dwExtraInfo :: usize

definition INPUT_KEYBOARD :: u32 where
  "INPUT_KEYBOARD = 1"

definition KEYEVENTF_KEYUP :: u32 where
  "KEYEVENTF_KEYUP = 0x0002"

definition KEYEVENTF_SCANCODE :: u32 where
  "KEYEVENTF_SCANCODE = 0x0008"

definition create_keyboard_input :: "u16 \<Rightarrow> bool \<Rightarrow> keyboard_input" where
  "create_keyboard_input scan_code key_up =
     (let flags = (if key_up then KEYEVENTF_SCANCODE OR KEYEVENTF_KEYUP else KEYEVENTF_SCANCODE) in
      \<lparr>ki_type = INPUT_KEYBOARD, ki_wVk = 0, ki_wScan = scan_code, ki_dwFlags = flags, ki_time = 0,
       ki_dwExtraInfo = SKY_PLAYER_SIGNATURE\<rparr>)"

section \<open>The instrument key profile\<close>

record physical_key =
  pk_scan_code :: u16
  pk_extended :: bool

definition SUPPORTED_NON_EXTENDED_SCAN_CODES :: "u16 list" where
  "SUPPORTED_NON_EXTENDED_SCAN_CODES =
     [0x02, 0x03, 0x04, 0x05, 0x06, 0x07, 0x08, 0x09, 0x0a, 0x0b, 0x0c, 0x0d, 0x10, 0x11, 0x12, 0x13,
      0x14, 0x15, 0x16, 0x17, 0x18, 0x19, 0x1a, 0x1b, 0x1e, 0x1f, 0x20, 0x21, 0x22, 0x23, 0x24, 0x25,
      0x26, 0x27, 0x28, 0x29, 0x2b, 0x2c, 0x2d, 0x2e, 0x2f, 0x30, 0x31, 0x32, 0x33, 0x34, 0x35, 0x39]"

text \<open>The keys of a specification are an array of \<open>MAX_KEYS\<close> entries.\<close>

record instrument_key_profile_spec =
  sp_keys :: "physical_key list"

definition spec_canonical :: instrument_key_profile_spec where
  "spec_canonical = \<lparr>sp_keys = map (\<lambda>code. \<lparr>pk_scan_code = code, pk_extended = False\<rparr>) PHYSICAL_INSTRUMENT_SCAN_CODES\<rparr>"

datatype instrument_key_profile_error =
    ZeroScanCode (pe_slot: usize)
  | ExtendedKey (pe_slot: usize) u16
  | ExtendedPrefix (pe_slot: usize) u16
  | UnsupportedScanCode (pe_slot: usize) u16
  | DuplicateScanCode (pe_slot: usize) usize u16

record instrument_key_profile =
  ip_keys :: "physical_key list"

definition check_profile_key :: "physical_key list \<Rightarrow> usize \<times> physical_key \<Rightarrow> unit \<Rightarrow> instrument_key_profile_error + unit" where
  "check_profile_key keys = (\<lambda>(slot, key) _.
     if pk_scan_code key = 0 then Inl (ZeroScanCode slot)
     else if pk_scan_code key = 0xe0 \<or> pk_scan_code key = 0xe1 then Inl (ExtendedPrefix slot (pk_scan_code key))
     else if pk_extended key then Inl (ExtendedKey slot (pk_scan_code key))
     else if pk_scan_code key \<notin> set SUPPORTED_NON_EXTENDED_SCAN_CODES then Inl (UnsupportedScanCode slot (pk_scan_code key))
     else (case position (\<lambda>prior. pk_scan_code prior = pk_scan_code key) (take slot keys) of
             Some first_slot \<Rightarrow> Inl (DuplicateScanCode slot first_slot (pk_scan_code key))
           | None \<Rightarrow> Inr ()))"

definition try_from_spec :: "instrument_key_profile_spec \<Rightarrow> instrument_key_profile_error + instrument_key_profile" where
  "try_from_spec spec =
     rbind (rfold (check_profile_key (sp_keys spec)) (enumerate 0 (sp_keys spec)) ()) (\<lambda>_.
     Inr \<lparr>ip_keys = sp_keys spec\<rparr>)"

text \<open>\<open>expect\<close> on the canonical profile.\<close>

definition profile_canonical :: "'e failure + instrument_key_profile" where
  "profile_canonical = map_err (\<lambda>_. Panic) (try_from_spec spec_canonical)"

record materialized_profile =
  mp_keys :: "physical_key list"
  mp_down_templates :: "keyboard_input list"
  mp_up_templates :: "keyboard_input list"

definition from_validated :: "instrument_key_profile \<Rightarrow> materialized_profile" where
  "from_validated profile =
     (let keys = ip_keys profile in
      \<lparr>mp_keys = keys,
       mp_down_templates = map (\<lambda>slot. create_keyboard_input (pk_scan_code (keys ! slot)) False) [0..<MAX_KEYS],
       mp_up_templates = map (\<lambda>slot. create_keyboard_input (pk_scan_code (keys ! slot)) True) [0..<MAX_KEYS]\<rparr>)"

text \<open>Array accesses panic out of range.\<close>

definition physical_key_at :: "materialized_profile \<Rightarrow> usize \<Rightarrow> 'e failure + physical_key" where
  "physical_key_at self slot = ok_or (nth_opt (mp_keys self) slot) Panic"

definition profile_scan_codes_from_mask :: "materialized_profile \<Rightarrow> u16 \<Rightarrow> 'e failure + u16 list" where
  "profile_scan_codes_from_mask self m =
     rfold (\<lambda>slot codes.
        if m AND mask_bit slot \<noteq> 0
        then rbind (physical_key_at self slot) (\<lambda>key. Inr (codes @ [pk_scan_code key]))
        else Inr codes) [0..<MAX_KEYS] []"

definition down_template :: "materialized_profile \<Rightarrow> usize \<Rightarrow> 'e failure + keyboard_input" where
  "down_template self slot = ok_or (nth_opt (mp_down_templates self) slot) Panic"

definition up_template :: "materialized_profile \<Rightarrow> usize \<Rightarrow> 'e failure + keyboard_input" where
  "up_template self slot = ok_or (nth_opt (mp_up_templates self) slot) Panic"

section \<open>Physical packets\<close>

record physical_packet =
  pkt_up_mask :: u16
  pkt_down_mask :: u16

definition packet_new :: "u16 \<Rightarrow> u16 \<Rightarrow> physical_packet" where
  "packet_new up_mask down_mask = \<lparr>pkt_up_mask = up_mask, pkt_down_mask = down_mask\<rparr>"

text \<open>The sum of two counts of at most sixteen; the conversion to \<open>u8\<close> keeps it.\<close>

definition packet_event_count :: "physical_packet \<Rightarrow> u8" where
  "packet_event_count self = word_of_nat (count_ones (pkt_up_mask self) + count_ones (pkt_down_mask self))"

definition is_up_only :: "physical_packet \<Rightarrow> bool" where
  "is_up_only self \<longleftrightarrow> pkt_down_mask self = 0"

datatype packet_preparation_error = PacketEmpty | InvalidMask | OverlappingDirections u16

definition MAX_PACKET_EVENTS :: usize where
  "MAX_PACKET_EVENTS = MAX_KEYS"

definition valid_packet :: "physical_packet \<Rightarrow> bool" where
  "valid_packet packet \<longleftrightarrow>
     pkt_up_mask packet AND pkt_down_mask packet = 0 \<and> pkt_up_mask packet AND NOT FULL_INSTRUMENT_MASK = 0 \<and>
     pkt_down_mask packet AND NOT FULL_INSTRUMENT_MASK = 0 \<and> unat (packet_event_count packet) \<le> MAX_PACKET_EVENTS"

text \<open>The canonical templates of the path without a profile; indexing is bounds-checked.\<close>

definition canonical_template :: "bool \<Rightarrow> usize \<Rightarrow> 'e failure + keyboard_input" where
  "canonical_template key_up slot =
     rbind (ok_or (nth_opt PHYSICAL_INSTRUMENT_SCAN_CODES slot) Panic) (\<lambda>code.
     if unat code < 0x36 then Inr (create_keyboard_input code key_up) else Inl Panic)"

definition append_mask ::
  "materialized_profile option \<Rightarrow> u16 \<Rightarrow> bool \<Rightarrow> keyboard_input list \<Rightarrow> 'e failure + keyboard_input list" where
  "append_mask profile m down inputs =
     rfold (\<lambda>slot acc.
        rbind (case profile of
                 Some p \<Rightarrow> if down then down_template p slot else up_template p slot
               | None \<Rightarrow> canonical_template (\<not> down) slot) (\<lambda>input.
        if length acc < MAX_PACKET_EVENTS then Inr (acc @ [input]) else Inl Panic))
       (slots_of_mask m) inputs"

definition build_inputs :: "physical_packet \<Rightarrow> materialized_profile option \<Rightarrow> 'e failure + keyboard_input list" where
  "build_inputs packet profile =
     rbind (append_mask profile (pkt_up_mask packet) False []) (append_mask profile (pkt_down_mask packet) True)"

record prepared_packet =
  prep_packet :: physical_packet
  prep_length :: u8
  prep_inputs :: "keyboard_input list"

definition try_new_internal ::
  "physical_packet \<Rightarrow> materialized_profile option \<Rightarrow> packet_preparation_error failure + prepared_packet" where
  "try_new_internal packet profile =
     (let overlap_mask = pkt_up_mask packet AND pkt_down_mask packet in
      if overlap_mask \<noteq> 0 then Inl (Err (OverlappingDirections overlap_mask))
      else if \<not> valid_packet packet then Inl (Err InvalidMask)
      else if packet_event_count packet = 0 then Inl (Err PacketEmpty)
      else rbind (build_inputs packet profile) (\<lambda>inputs.
           Inr \<lparr>prep_packet = packet, prep_length = word_of_nat (length inputs), prep_inputs = inputs\<rparr>))"

definition try_new_packet :: "physical_packet \<Rightarrow> packet_preparation_error failure + prepared_packet" where
  "try_new_packet packet = try_new_internal packet None"

definition try_new_with_profile ::
  "physical_packet \<Rightarrow> materialized_profile \<Rightarrow> packet_preparation_error failure + prepared_packet" where
  "try_new_with_profile packet profile = try_new_internal packet (Some profile)"

record prepared_packet_view =
  vw_packet :: physical_packet
  vw_inputs :: "keyboard_input list"

definition as_view :: "prepared_packet \<Rightarrow> prepared_packet_view" where
  "as_view self = \<lparr>vw_packet = prep_packet self, vw_inputs = take (unat (prep_length self)) (prep_inputs self)\<rparr>"

definition up_recovery_view :: "prepared_packet \<Rightarrow> prepared_packet_view option" where
  "up_recovery_view self =
     (let up_mask = pkt_up_mask (prep_packet self); down_mask = pkt_down_mask (prep_packet self) in
      if up_mask = 0 \<or> down_mask = 0 then None
      else let up_len = count_ones up_mask; expected_len = up_len + count_ones down_mask in
        if unat (prep_length self) \<noteq> expected_len then None
        else Option.bind (slice_get (vw_inputs (as_view self)) 0 up_len) (\<lambda>inputs.
             Some \<lparr>vw_packet = packet_new up_mask 0, vw_inputs = inputs\<rparr>))"

section \<open>What a profile guarantees\<close>

definition good_key :: "physical_key \<Rightarrow> bool" where
  "good_key key \<longleftrightarrow> \<not> pk_extended key \<and> pk_scan_code key \<in> set SUPPORTED_NON_EXTENDED_SCAN_CODES"

lemma unsupported_codes: "0 \<notin> set SUPPORTED_NON_EXTENDED_SCAN_CODES" "0xe0 \<notin> set SUPPORTED_NON_EXTENDED_SCAN_CODES"
  "0xe1 \<notin> set SUPPORTED_NON_EXTENDED_SCAN_CODES"
  by (code_simp, code_simp, code_simp)

definition fits_before :: "physical_key list \<Rightarrow> usize \<Rightarrow> bool" where
  "fits_before keys slot \<longleftrightarrow> good_key (keys ! slot) \<and> pk_scan_code (keys ! slot) \<notin> pk_scan_code ` set (take slot keys)"

lemma position_image: "position (\<lambda>y. f y = x) xs = None \<longleftrightarrow> x \<notin> f ` set xs"
  by (auto simp: position_eq_None)

lemma check_profile_key_cases:
  "check_profile_key keys (slot, keys ! slot) () = Inr () \<longleftrightarrow> fits_before keys slot"
  "check_profile_key keys (slot, keys ! slot) () = Inl e \<Longrightarrow> pe_slot e = slot"
  using unsupported_codes unfolding fits_before_def good_key_def position_image [symmetric]
  by (auto simp: check_profile_key_def split: if_splits option.splits)

lemma check_profile_keys:
  "m \<le> length keys \<Longrightarrow>
   (rfold (check_profile_key keys) (enumerate 0 (take m keys)) () = Inr () \<longleftrightarrow> (\<forall>slot < m. fits_before keys slot)) \<and>
   (\<forall>e. rfold (check_profile_key keys) (enumerate 0 (take m keys)) () = Inl e \<longrightarrow>
      pe_slot e < m \<and> \<not> fits_before keys (pe_slot e) \<and> (\<forall>slot < pe_slot e. fits_before keys slot))"
proof (induction m)
  case (Suc m)
  let ?r = "rfold (check_profile_key keys) (enumerate 0 (take m keys)) ()"
  have snoc: "enumerate 0 (take (Suc m) keys) = enumerate 0 (take m keys) @ [(m, keys ! m)]"
    using Suc.prems by (simp add: take_Suc_conv_app_nth enumerate_append_eq)
  have IH: "?r = Inr () \<longleftrightarrow> (\<forall>slot < m. fits_before keys slot)"
    "?r = Inl e \<Longrightarrow> pe_slot e < m \<and> \<not> fits_before keys (pe_slot e) \<and> (\<forall>slot < pe_slot e. fits_before keys slot)" for e
    using Suc by auto
  show ?case
  proof (cases ?r)
    case (Inl e)
    then show ?thesis using IH(1) IH(2) [OF Inl] unfolding snoc by (auto simp: rfold_append less_Suc_eq)
  next
    case (Inr u)
    then have ok: "\<forall>slot < m. fits_before keys slot" using IH(1) by simp
    show ?thesis
      using Inr ok check_profile_key_cases [of keys m] unfolding snoc
      by (cases "check_profile_key keys (m, keys ! m) ()") (auto simp: rfold_append less_Suc_eq)
  qed
qed simp

lemma distinct_before: "distinct (map f xs) \<longleftrightarrow> (\<forall>i < length xs. f (xs ! i) \<notin> f ` set (take i xs))"
proof (induction xs rule: rev_induct)
  case (snoc x xs)
  have "take i (xs @ [x]) = take i xs" if "i \<le> length xs" for i using that by simp
  then show ?case using snoc by (auto simp: less_Suc_eq nth_append)
qed simp

section \<open>Building the inputs\<close>

definition profile_ok :: "materialized_profile \<Rightarrow> bool" where
  "profile_ok p \<longleftrightarrow> length (mp_down_templates p) = MAX_KEYS \<and> length (mp_up_templates p) = MAX_KEYS"

lemma from_validated_ok: "profile_ok (from_validated prof)"
  by (simp add: profile_ok_def from_validated_def Let_def)

lemma length_slots_of_mask: "length (slots_of_mask m) = count_ones m"
proof -
  have "distinct (slots_of_mask m)" using sorted_slots_of_mask [of m] by (simp add: strict_sorted_iff)
  then show ?thesis by (metis count_ones_card distinct_card set_slots_of_mask)
qed

lemma bit_FULL: "bit FULL_INSTRUMENT_MASK n \<longleftrightarrow> n < MAX_KEYS"
proof -
  have eq: "FULL_INSTRUMENT_MASK = mask 15" by (simp add: FULL_INSTRUMENT_MASK_def mask_eq_exp_minus_1)
  show ?thesis unfolding eq bit_mask_iff MAX_KEYS_def by auto
qed

lemma within_full: "m AND NOT FULL_INSTRUMENT_MASK = 0 \<longleftrightarrow> (\<forall>n. bit m n \<longrightarrow> n < MAX_KEYS)" for m :: u16
  using bit_u16_bound [of m] by (auto simp: u16_eq_iff bit_and_not_mask bit_FULL)

lemma count_pair:
  assumes "u AND d = 0" and "\<forall>n. bit u n \<longrightarrow> n < MAX_KEYS" and "\<forall>n. bit d n \<longrightarrow> n < MAX_KEYS"
  shows "count_ones u + count_ones d \<le> MAX_KEYS"
proof -
  have disj: "{n. bit u n} \<inter> {n. bit d n} = {}" using assms(1) by (auto simp: masks_disjoint_iff)
  have sub: "{n. bit u n} \<union> {n. bit d n} \<subseteq> {..<MAX_KEYS}" using assms(2,3) by auto
  then have fin: "finite ({n. bit u n} \<union> {n. bit d n})" by (rule finite_subset) simp
  then have "card {n. bit u n} + card {n. bit d n} = card ({n. bit u n} \<union> {n. bit d n})"
    using card_Un_disjoint [OF _ _ disj] by simp
  also have "\<dots> \<le> MAX_KEYS" using card_mono [OF _ sub] by simp
  finally show ?thesis by (simp add: count_ones_card)
qed

lemma event_count_nat: "unat (packet_event_count p) = count_ones (pkt_up_mask p) + count_ones (pkt_down_mask p)"
  unfolding packet_event_count_def using count_ones_le [of "pkt_up_mask p"] count_ones_le [of "pkt_down_mask p"]
  by (intro unat_word_of_nat_small) simp

definition sendable :: "physical_packet \<Rightarrow> bool" where
  "sendable p \<longleftrightarrow> pkt_up_mask p AND pkt_down_mask p = 0 \<and>
     (\<forall>n. bit (pkt_up_mask p) n \<or> bit (pkt_down_mask p) n \<longrightarrow> n < MAX_KEYS) \<and> (pkt_up_mask p \<noteq> 0 \<or> pkt_down_mask p \<noteq> 0)"

lemma sendable_checks:
  "sendable p \<longleftrightarrow> pkt_up_mask p AND pkt_down_mask p = 0 \<and> valid_packet p \<and> packet_event_count p \<noteq> 0"
proof -
  have "packet_event_count p = 0 \<longleftrightarrow> pkt_up_mask p = 0 \<and> pkt_down_mask p = 0"
    using event_count_nat [of p] by (simp add: word_unat_eq_iff)
  then show ?thesis
    using count_pair [of "pkt_up_mask p" "pkt_down_mask p"]
    by (auto simp: sendable_def valid_packet_def within_full event_count_nat MAX_PACKET_EVENTS_def)
qed

lemma append_mask_ok:
  assumes p: "profile_ok p" and m: "\<forall>n. bit m n \<longrightarrow> n < MAX_KEYS" and room: "length acc + count_ones m \<le> MAX_KEYS"
  shows "append_mask (Some p) m down acc =
    (Inr (acc @ map (\<lambda>slot. (if down then mp_down_templates p else mp_up_templates p) ! slot) (slots_of_mask m)) :: 'e failure + _)"
proof -
  let ?t = "\<lambda>slot. (if down then mp_down_templates p else mp_up_templates p) ! slot"
  define f where "f = (\<lambda>slot (acc :: keyboard_input list).
    rbind (if down then down_template p slot else up_template p slot) (\<lambda>input.
      if length acc < MAX_PACKET_EVENTS then Inr (acc @ [input]) else (Inl Panic :: 'e failure + _)))"
  have "rfold f xs acc = Inr (acc @ map ?t xs)" if "\<forall>n \<in> set xs. n < MAX_KEYS" "length acc + length xs \<le> MAX_KEYS" for xs acc
    using that
  proof (induction xs arbitrary: acc)
    case (Cons x xs)
    have "f x acc = Inr (acc @ [?t x])"
      using Cons.prems p by (simp add: f_def down_template_def up_template_def profile_ok_def MAX_PACKET_EVENTS_def)
    then show ?case using Cons.IH [of "acc @ [?t x]"] Cons.prems by simp
  qed simp
  moreover have "append_mask (Some p) m down acc = rfold f (slots_of_mask m) acc"
    unfolding append_mask_def f_def option.case by (rule refl)
  ultimately show ?thesis using m room by (simp add: set_slots_of_mask length_slots_of_mask)
qed

definition packet_inputs :: "materialized_profile \<Rightarrow> physical_packet \<Rightarrow> keyboard_input list" where
  "packet_inputs p pkt = map (\<lambda>slot. mp_up_templates p ! slot) (slots_of_mask (pkt_up_mask pkt)) @
     map (\<lambda>slot. mp_down_templates p ! slot) (slots_of_mask (pkt_down_mask pkt))"

lemma length_packet_inputs: "length (packet_inputs p pkt) = unat (packet_event_count pkt)"
  by (simp add: packet_inputs_def length_slots_of_mask event_count_nat)

lemma try_new_sendable:
  assumes p: "profile_ok p" and s: "sendable pkt"
  shows "try_new_with_profile pkt p = Inr \<lparr>prep_packet = pkt, prep_length = packet_event_count pkt, prep_inputs = packet_inputs p pkt\<rparr>"
proof -
  have u: "\<forall>n. bit (pkt_up_mask pkt) n \<longrightarrow> n < MAX_KEYS" "\<forall>n. bit (pkt_down_mask pkt) n \<longrightarrow> n < MAX_KEYS"
    using s by (auto simp: sendable_def)
  note c = count_pair [OF _ u]
  have cnt: "count_ones (pkt_up_mask pkt) + count_ones (pkt_down_mask pkt) \<le> MAX_KEYS" using c s by (simp add: sendable_def)
  have "build_inputs pkt (Some p) = (Inr (packet_inputs p pkt) :: packet_preparation_error failure + _)"
    using append_mask_ok [OF p u(1), of "[]" False, where 'e = packet_preparation_error]
      append_mask_ok [OF p u(2), where 'e = packet_preparation_error, of "map (\<lambda>slot. mp_up_templates p ! slot) (slots_of_mask (pkt_up_mask pkt))" True]
      cnt by (simp add: build_inputs_def packet_inputs_def length_slots_of_mask)
  moreover have "word_of_nat (length (packet_inputs p pkt)) = packet_event_count pkt"
    by (simp add: length_packet_inputs)
  ultimately show ?thesis
    using s unfolding sendable_checks by (simp add: try_new_with_profile_def try_new_internal_def Let_def)
qed

lemma try_new_rejects:
  assumes "\<not> sendable pkt"
  shows "\<exists>e. try_new_with_profile pkt p = Inl (Err e)"
  using assms unfolding sendable_checks by (auto simp: try_new_with_profile_def try_new_internal_def Let_def)

lemma up_recovery_prefix:
  assumes "try_new_with_profile pkt p = Inr prep" and "profile_ok p" and both: "pkt_up_mask pkt \<noteq> 0" "pkt_down_mask pkt \<noteq> 0"
  shows "up_recovery_view prep = Some \<lparr>vw_packet = packet_new (pkt_up_mask pkt) 0,
    vw_inputs = map (\<lambda>slot. mp_up_templates p ! slot) (slots_of_mask (pkt_up_mask pkt))\<rparr>"
proof -
  have s: "sendable pkt" using assms(1) try_new_rejects [of pkt p] by (cases "sendable pkt") auto
  have prep: "prep = \<lparr>prep_packet = pkt, prep_length = packet_event_count pkt, prep_inputs = packet_inputs p pkt\<rparr>"
    using try_new_sendable [OF assms(2) s] assms(1) by simp
  have len: "count_ones (pkt_up_mask pkt) = length (slots_of_mask (pkt_up_mask pkt))" by (simp add: length_slots_of_mask)
  show ?thesis
    using both length_packet_inputs [of p pkt] event_count_nat [of pkt]
    by (simp add: up_recovery_view_def as_view_def prep Let_def slice_get_def packet_inputs_def len)
qed

section \<open>Properties\<close>

definition demo_key :: "u16 \<Rightarrow> physical_key" where
  "demo_key code = \<lparr>pk_scan_code = code, pk_extended = False\<rparr>"

text \<open>C40: A key profile is accepted exactly when every key is a supported, non-extended scan code and no
  two keys share one; the accepted profile holds the specified keys. When it is rejected, the reported
  slot is the first one that is unsupported or repeats an earlier key.\<close>

theorem profile_admission_exact:
  "(\<forall>p. try_from_spec spec = Inr p \<longleftrightarrow> p = \<lparr>ip_keys = sp_keys spec\<rparr> \<and> (\<forall>key \<in> set (sp_keys spec). good_key key) \<and>
      distinct (map pk_scan_code (sp_keys spec))) \<and>
   (\<forall>e. try_from_spec spec = Inl e \<longrightarrow> pe_slot e < length (sp_keys spec) \<and> \<not> fits_before (sp_keys spec) (pe_slot e) \<and>
      (\<forall>slot < pe_slot e. fits_before (sp_keys spec) slot))"
proof -
  let ?k = "sp_keys spec"
  note C = check_profile_keys [of "length ?k" ?k, simplified]
  have all: "(\<forall>slot < length ?k. fits_before ?k slot) \<longleftrightarrow> (\<forall>key \<in> set ?k. good_key key) \<and> distinct (map pk_scan_code ?k)"
    by (auto simp: fits_before_def distinct_before all_set_conv_all_nth)
  show ?thesis
    using C unfolding all try_from_spec_def
    by (cases "rfold (check_profile_key ?k) (enumerate 0 ?k) ()") auto
qed

theorem profile_admission_exact_witness:
  "pe_slot (DuplicateScanCode 2 0 30) < length [demo_key 30, demo_key 31, demo_key 30] \<and>
   fits_before [demo_key 30, demo_key 31, demo_key 30] 1"
proof -
  have "try_from_spec \<lparr>sp_keys = [demo_key 30, demo_key 31, demo_key 30]\<rparr> = Inl (DuplicateScanCode 2 0 30)" by code_simp
  then show ?thesis using profile_admission_exact [of "\<lparr>sp_keys = [demo_key 30, demo_key 31, demo_key 30]\<rparr>"] by auto
qed

text \<open>C19: Preparing a physical packet with a materialised profile never panics. It succeeds exactly when
  the packet has work, no key in both directions and no bit outside the fifteen keys; the prepared inputs
  are then the releases in slot order followed by the presses in slot order, one per key, and the recovery
  view of a mixed packet is exactly its releases.\<close>

theorem prepared_packet_exact:
  assumes "p = from_validated profile"
  shows "try_new_with_profile pkt p \<noteq> Inl Panic \<and>
    ((\<exists>prep. try_new_with_profile pkt p = Inr prep) \<longleftrightarrow>
       pkt_up_mask pkt AND pkt_down_mask pkt = 0 \<and> (\<forall>n. bit (pkt_up_mask pkt) n \<or> bit (pkt_down_mask pkt) n \<longrightarrow> n < MAX_KEYS) \<and>
       (pkt_up_mask pkt \<noteq> 0 \<or> pkt_down_mask pkt \<noteq> 0)) \<and>
    (\<forall>prep. try_new_with_profile pkt p = Inr prep \<longrightarrow>
       vw_inputs (as_view prep) = map (\<lambda>slot. create_keyboard_input (pk_scan_code (ip_keys profile ! slot)) True) (slots_of_mask (pkt_up_mask pkt)) @
         map (\<lambda>slot. create_keyboard_input (pk_scan_code (ip_keys profile ! slot)) False) (slots_of_mask (pkt_down_mask pkt)) \<and>
       (pkt_up_mask pkt \<noteq> 0 \<and> pkt_down_mask pkt \<noteq> 0 \<longrightarrow>
          up_recovery_view prep = Some \<lparr>vw_packet = packet_new (pkt_up_mask pkt) 0,
            vw_inputs = map (\<lambda>slot. create_keyboard_input (pk_scan_code (ip_keys profile ! slot)) True) (slots_of_mask (pkt_up_mask pkt))\<rparr>))"
proof (cases "sendable pkt")
  case True
  have ok: "profile_ok p" using assms from_validated_ok by simp
  have up: "map (\<lambda>slot. mp_up_templates p ! slot) (slots_of_mask (pkt_up_mask pkt))
        = map (\<lambda>slot. create_keyboard_input (pk_scan_code (ip_keys profile ! slot)) True) (slots_of_mask (pkt_up_mask pkt))"
      "map (\<lambda>slot. mp_down_templates p ! slot) (slots_of_mask (pkt_down_mask pkt))
        = map (\<lambda>slot. create_keyboard_input (pk_scan_code (ip_keys profile ! slot)) False) (slots_of_mask (pkt_down_mask pkt))"
    using True assms by (auto simp: sendable_def set_slots_of_mask from_validated_def Let_def)
  have view: "vw_inputs (as_view prep) = packet_inputs p pkt" if "try_new_with_profile pkt p = Inr prep" for prep
    using that try_new_sendable [OF ok True] length_packet_inputs [of p pkt] by (auto simp: as_view_def)
  show ?thesis
    using True try_new_sendable [OF ok True] view up_recovery_prefix [OF _ ok] up
    by (auto simp: sendable_def packet_inputs_def)
next
  case False
  then show ?thesis using try_new_rejects [OF False, of p] by (auto simp: sendable_def)
qed

theorem prepared_packet_exact_witness:
  "\<exists>prep. try_new_with_profile (packet_new 5 2) (from_validated \<lparr>ip_keys = sp_keys spec_canonical\<rparr>) = Inr prep"
proof -
  have "\<forall>n. bit (5 :: u16) n \<or> bit (2 :: u16) n \<longrightarrow> n < MAX_KEYS"
  proof -
    have eqs: "(5 :: u16) = mask_bit 0 OR mask_bit 2" "(2 :: u16) = mask_bit 1" by code_simp+
    show ?thesis unfolding eqs by (auto simp: mask_simps MAX_KEYS_def)
  qed
  moreover have "(5 :: u16) AND 2 = 0" by code_simp
  ultimately show ?thesis
    using prepared_packet_exact [OF refl, of "packet_new 5 2" "\<lparr>ip_keys = sp_keys spec_canonical\<rparr>"] by (simp add: packet_new_def)
qed

end
