(* ===== verification/Sky_Planning.thy ===== *)
theory Sky_Planning
  imports Sky_Session Sky_Packet
begin

unbundle bit_operations_syntax

text \<open>
  Dispatch planning of the worker (\<open>sky_player/src/engine/worker\<close>: \<open>planning.rs\<close>, the view builders of
  \<open>dispatch/timing.rs\<close>, the plan data of \<open>dispatch/mod.rs\<close> and \<open>health.rs\<close>): from a coordinator, the next
  operation, which is a metadata boundary, an authored packet, a deferred release or both coalesced. An
  error message of the code is a constructor of \<open>prepared_error\<close>, one per format string. The preparation
  probe is empty in production builds and is left out. The debug assertion on a finished plan is a panic
  of the model.
\<close>

section \<open>Plan data\<close>

datatype dispatch_path = DownOnlyPath (dp_down: usize) | UpOnlyPath (dp_up: usize) | MixedPath (dp_up: usize) (dp_down: usize)

fun path_down_count :: "dispatch_path \<Rightarrow> usize" where
  "path_down_count (DownOnlyPath down_count) = down_count"
| "path_down_count (MixedPath up_count down_count) = down_count"
| "path_down_count (UpOnlyPath up_count) = 0"

fun path_up_count :: "dispatch_path \<Rightarrow> usize" where
  "path_up_count (UpOnlyPath up_count) = up_count"
| "path_up_count (MixedPath up_count down_count) = up_count"
| "path_up_count (DownOnlyPath down_count) = 0"

definition path_event_count :: "dispatch_path \<Rightarrow> usize" where
  "path_event_count self = min (path_down_count self + path_up_count self) (usize_limit - 1)"

datatype recovery_descriptor = NoRecovery | UpPrefix u8 u16

datatype physical_commit =
    Authored prepared_authored_commit
  | PendingReleaseCommit u16 timeline_ticks
  | Coalesced prepared_authored_commit u16 timeline_ticks

record authored_batch_view =
  av_prepared_batch :: prepared_batch
  av_batch_source_action_index :: u32
  av_batch_intent_count :: usize
  av_batch_kind :: action_kind
  av_batch_scheduled_ticks :: timeline_ticks
  av_authored_batch_scheduled_ticks :: timeline_ticks
  av_conflict_mask :: u16
  av_dispatch_path :: dispatch_path
  av_packet_masks :: physical_packet
  av_prepared_packet :: prepared_packet
  av_recovery :: recovery_descriptor
  av_commit :: physical_commit

datatype prepared_error =
    PacketKindFailure coordinator_error
  | PacketPreparationFailure packet_preparation_error
  | PendingViewEmptyMask
  | PendingPacketFailure packet_preparation_error
  | ViewEmpty
  | MetadataTargetFailure time_arithmetic_error
  | PhysicalTargetFailure time_arithmetic_error

datatype planning_error = PlanCoordinator coordinator_error | PlanPrepared prepared_error

text \<open>The view builders end a step only by \<open>DispatchStep::Terminate\<close>; the value is its message.\<close>

type_synonym batch_view_result = "prepared_error failure + authored_batch_view option"

section \<open>Views\<close>

definition prepare_up_recovery_descriptor :: "physical_packet \<Rightarrow> recovery_descriptor" where
  "prepare_up_recovery_descriptor packet =
     (if pkt_down_mask packet = 0 \<or> pkt_up_mask packet = 0 then NoRecovery
      else UpPrefix (word_of_nat (count_ones (pkt_up_mask packet))) (pkt_up_mask packet))"

definition path_of_kind :: "physical_packet_kind \<Rightarrow> usize \<Rightarrow> usize \<Rightarrow> dispatch_path" where
  "path_of_kind packet_kind up_count down_count =
     (case packet_kind of
        UpOnly \<Rightarrow> UpOnlyPath up_count
      | DownOnly \<Rightarrow> DownOnlyPath down_count
      | Mixed \<Rightarrow> MixedPath up_count down_count)"

definition prepare_authored_frame_view_from_prepared ::
  "coordinator \<Rightarrow> prepared_authored_packet \<Rightarrow> u16 \<Rightarrow> timeline_ticks \<Rightarrow> materialized_profile \<Rightarrow> batch_view_result" where
  "prepare_authored_frame_view_from_prepared coordinator prepared pending_release_mask pending_due_ticks profile =
     (let frame = pp_frame prepared; commit = pp_commit prepared;
          selected_up_mask = pf_immediate_up_mask frame OR pending_release_mask;
          selected_down_mask = pf_down_mask frame;
          selected_packet = packet_new selected_up_mask selected_down_mask in
     rbind (map_err (map_failure PacketKindFailure) (classify_packet_kind selected_up_mask selected_down_mask)) (\<lambda>packet_kind.
     rbind (map_err (map_failure PacketKindFailure) (check_packet_down_conflicts coordinator selected_up_mask selected_down_mask))
       (\<lambda>conflict_mask.
     rbind (map_err (map_failure PacketPreparationFailure) (try_new_with_profile selected_packet profile)) (\<lambda>prepared_packet.
     let recovery = prepare_up_recovery_descriptor selected_packet;
         up_count = count_ones selected_up_mask; down_count = count_ones selected_down_mask;
         dispatch_path = path_of_kind packet_kind up_count down_count;
         prepared_batch = \<lparr>pb_index = pf_first_batch_index frame, pb_effective_scheduled_ticks = pf_authored_ticks frame,
           pb_packet_index = pf_packet_index frame, pb_packet_batch_count = pf_packet_batch_count frame,
           pb_packet_kind = packet_kind\<rparr> in
     Inr (Some \<lparr>av_prepared_batch = prepared_batch, av_batch_source_action_index = pp_batch_source_action_index prepared,
       av_batch_intent_count = up_count + down_count, av_batch_kind = (if down_count \<noteq> 0 then Down else Up),
       av_batch_scheduled_ticks = pf_authored_ticks frame, av_authored_batch_scheduled_ticks = pf_authored_ticks frame,
       av_conflict_mask = conflict_mask, av_dispatch_path = dispatch_path, av_packet_masks = selected_packet,
       av_prepared_packet = prepared_packet, av_recovery = recovery,
       av_commit = (if pending_release_mask = 0 then Authored commit
                    else Coalesced commit pending_release_mask pending_due_ticks)\<rparr>)))))"

definition prepare_pending_release_view ::
  "coordinator \<Rightarrow> u16 \<Rightarrow> timeline_ticks \<Rightarrow> materialized_profile \<Rightarrow> batch_view_result" where
  "prepare_pending_release_view coordinator release_mask due_ticks profile =
     (if release_mask = 0 then Inl (Err PendingViewEmptyMask)
      else let packet = packet_new release_mask 0 in
     rbind (map_err (map_failure PendingPacketFailure) (try_new_with_profile packet profile)) (\<lambda>prepared_packet.
     let count = count_ones release_mask;
         source_action_index = (case pending_release_source_action_index coordinator release_mask of Some i \<Rightarrow> i | None \<Rightarrow> 0);
         prepared_batch = \<lparr>pb_index = 0, pb_effective_scheduled_ticks = due_ticks, pb_packet_index = 0,
           pb_packet_batch_count = 1, pb_packet_kind = UpOnly\<rparr> in
     Inr (Some \<lparr>av_prepared_batch = prepared_batch, av_batch_source_action_index = source_action_index,
       av_batch_intent_count = count, av_batch_kind = Up, av_batch_scheduled_ticks = due_ticks,
       av_authored_batch_scheduled_ticks = due_ticks, av_conflict_mask = 0, av_dispatch_path = UpOnlyPath count,
       av_packet_masks = packet, av_prepared_packet = prepared_packet, av_recovery = NoRecovery,
       av_commit = PendingReleaseCommit release_mask due_ticks\<rparr>)))"

section \<open>Plans\<close>

record authored_dispatch_plan =
  ad_path :: dispatch_path
  ad_deadline_ticks :: timeline_ticks

text \<open>\<open>hwnd\<close> is a pointer-sized integer.\<close>

record target_stamp =
  ts_hwnd :: u64
  ts_generation :: u64

datatype target_proof = NotRequired | Required | Verified target_stamp

definition verified_target :: "target_proof \<Rightarrow> target_stamp option" where
  "verified_target self = (case self of Verified stamp \<Rightarrow> Some stamp | NotRequired \<Rightarrow> None | Required \<Rightarrow> None)"

definition requires_down_proof :: "target_proof \<Rightarrow> bool" where
  "requires_down_proof self \<longleftrightarrow> (case self of Required \<Rightarrow> True | Verified _ \<Rightarrow> True | NotRequired \<Rightarrow> False)"

record physical_dispatch_plan =
  pl_authored :: authored_dispatch_plan
  pl_physical_target_qpc :: qpc_ticks
  pl_authored_view :: authored_batch_view
  pl_target_proof :: target_proof

record metadata_boundary_plan =
  mb_commit :: prepared_authored_commit
  mb_deadline_ticks :: timeline_ticks
  mb_physical_target_qpc :: qpc_ticks

datatype next_dispatch_plan = NoWork | MetadataPlan metadata_boundary_plan | PhysicalPlan physical_dispatch_plan

definition plan_deadline_ticks :: "next_dispatch_plan \<Rightarrow> timeline_ticks option" where
  "plan_deadline_ticks self =
     (case self of
        NoWork \<Rightarrow> None
      | MetadataPlan plan \<Rightarrow> Some (mb_deadline_ticks plan)
      | PhysicalPlan plan \<Rightarrow> Some (ad_deadline_ticks (pl_authored plan)))"

definition plan_physical_target_qpc :: "next_dispatch_plan \<Rightarrow> qpc_ticks option" where
  "plan_physical_target_qpc self =
     (case self of
        PhysicalPlan plan \<Rightarrow> Some (pl_physical_target_qpc plan)
      | MetadataPlan plan \<Rightarrow> Some (mb_physical_target_qpc plan)
      | NoWork \<Rightarrow> None)"

definition plan_structure_is_valid :: "next_dispatch_plan \<Rightarrow> bool" where
  "plan_structure_is_valid plan \<longleftrightarrow>
     (case plan of
        NoWork \<Rightarrow> True
      | MetadataPlan _ \<Rightarrow> True
      | PhysicalPlan plan \<Rightarrow>
          let view = pl_authored_view plan; masks = av_packet_masks view;
              has_down = pkt_down_mask masks \<noteq> 0;
              proof_valid = (if has_down then requires_down_proof (pl_target_proof plan)
                             else pl_target_proof plan = NotRequired) in
          proof_valid \<and> prep_packet (av_prepared_packet view) = masks \<and>
          (case av_commit view of
             Authored commit \<Rightarrow>
               pf_immediate_up_mask (pc_frame commit) = pkt_up_mask masks \<and> pf_down_mask (pc_frame commit) = pkt_down_mask masks
           | PendingReleaseCommit release_mask _ \<Rightarrow> masks = packet_new release_mask 0
           | Coalesced commit release_mask _ \<Rightarrow>
               pf_immediate_up_mask (pc_frame commit) OR release_mask = pkt_up_mask masks \<and>
               pf_down_mask (pc_frame commit) = pkt_down_mask masks))"

definition planning_view :: "batch_view_result \<Rightarrow> planning_error failure + authored_batch_view" where
  "planning_view result =
     (case result of
        Inr (Some view) \<Rightarrow> Inr view
      | Inr None \<Rightarrow> Inl (Err (PlanPrepared ViewEmpty))
      | Inl failure \<Rightarrow> Inl (map_failure PlanPrepared failure))"

definition physical_plan_from_view ::
  "authored_batch_view \<Rightarrow> qpc_ticks \<Rightarrow> planning_error failure + next_dispatch_plan" where
  "physical_plan_from_view authored_view epoch_qpc =
     (let deadline_ticks = pb_effective_scheduled_ticks (av_prepared_batch authored_view) in
     rbind (map_err (\<lambda>e. Err (PlanPrepared (PhysicalTargetFailure e)))
              (qpc_checked_add_duration epoch_qpc (DurationTicks (timeline_u64 deadline_ticks)))) (\<lambda>physical_target_qpc.
     let dispatch = \<lparr>ad_path = av_dispatch_path authored_view, ad_deadline_ticks = deadline_ticks\<rparr>;
         target_proof = (if path_down_count (ad_path dispatch) \<noteq> 0 then Required else NotRequired);
         plan = PhysicalPlan \<lparr>pl_authored = dispatch, pl_physical_target_qpc = physical_target_qpc,
           pl_authored_view = authored_view, pl_target_proof = target_proof\<rparr> in
     if plan_structure_is_valid plan then Inr plan else Inl Panic))"

definition plan_next_dispatch_projected ::
  "coordinator \<Rightarrow> qpc_ticks \<Rightarrow> materialized_profile \<Rightarrow> planning_error failure + next_dispatch_plan" where
  "plan_next_dispatch_projected coordinator epoch_qpc profile =
     rbind (map_err (map_failure PlanCoordinator) (prepare_current_authored_packet coordinator)) (\<lambda>authored_packet.
     let pending_target = earliest_pending_release_ticks coordinator;
         authored_target = map_option (\<lambda>prepared. pf_authored_ticks (pp_frame prepared)) authored_packet;
         select_pending = (case (pending_target, authored_target) of
            (Some pending, Some authored_ticks) \<Rightarrow> pending < authored_ticks
          | (Some _, None) \<Rightarrow> True
          | (None, _) \<Rightarrow> False);
         pending_plan = (\<lambda>target.
            rbind (planning_view (prepare_pending_release_view coordinator
                     (pending_release_mask_due_at coordinator target) target profile)) (\<lambda>view.
            physical_plan_from_view view epoch_qpc)) in
     if select_pending then (case pending_target of None \<Rightarrow> Inl Panic | Some target \<Rightarrow> pending_plan target)
     else (case authored_packet of
       None \<Rightarrow> (case pending_target of Some target \<Rightarrow> pending_plan target | None \<Rightarrow> Inr NoWork)
     | Some packet \<Rightarrow>
         let frame = pp_frame packet;
             coalesced_pending_mask = (case pending_target of
                Some target \<Rightarrow> if target = pf_authored_ticks frame then pending_release_mask_due_at coordinator target else 0
              | None \<Rightarrow> 0);
             authored_is_physical = (pf_immediate_up_mask frame \<noteq> 0 \<or> pf_down_mask frame \<noteq> 0) in
         if \<not> authored_is_physical \<and> coalesced_pending_mask = 0
         then rbind (map_err (\<lambda>e. Err (PlanPrepared (MetadataTargetFailure e)))
                (qpc_checked_add_duration epoch_qpc (DurationTicks (timeline_u64 (pf_authored_ticks frame))))) (\<lambda>physical_target_qpc.
              Inr (MetadataPlan \<lparr>mb_commit = pp_commit packet, mb_deadline_ticks = pf_authored_ticks frame,
                mb_physical_target_qpc = physical_target_qpc\<rparr>))
         else rbind (planning_view (prepare_authored_frame_view_from_prepared coordinator packet coalesced_pending_mask
                       (pf_authored_ticks frame) profile)) (\<lambda>view.
              physical_plan_from_view view epoch_qpc)))"

section \<open>Views of sendable packets\<close>

definition packet_of :: "prepared_authored_packet \<Rightarrow> u16 \<Rightarrow> physical_packet" where
  "packet_of prepared pending = packet_new (pf_immediate_up_mask (pp_frame prepared) OR pending) (pf_down_mask (pp_frame prepared))"

lemma pkt_packet_new [simp]: "pkt_up_mask (packet_new u d) = u" "pkt_down_mask (packet_new u d) = d"
  by (simp_all add: packet_new_def)

lemma packet_new_masks [simp]: "packet_new (pkt_up_mask p) (pkt_down_mask p) = p"
  by (simp add: packet_new_def)

lemma classify_packet_kind_ok:
  "u \<noteq> 0 \<or> d \<noteq> 0 \<Longrightarrow>
   classify_packet_kind u d = Inr (if d = 0 then UpOnly else if u = 0 then DownOnly else Mixed)"
  by (auto simp: classify_packet_kind_def)

lemma path_counts:
  "path_down_count (path_of_kind (if d = 0 then UpOnly else if u = 0 then DownOnly else Mixed) (count_ones u) (count_ones d)) = count_ones d"
  "path_up_count (path_of_kind (if d = 0 then UpOnly else if u = 0 then DownOnly else Mixed) (count_ones u) (count_ones d)) = count_ones u"
  by (auto simp: path_of_kind_def)

text \<open>What every view the builders return satisfies; \<open>ticks\<close> is its deadline.\<close>

definition view_ok :: "materialized_profile \<Rightarrow> timeline_ticks \<Rightarrow> physical_packet \<Rightarrow> authored_batch_view \<Rightarrow> bool" where
  "view_ok profile ticks packet view \<longleftrightarrow>
     sendable packet \<and> av_packet_masks view = packet \<and>
     av_prepared_packet view = \<lparr>prep_packet = packet, prep_length = packet_event_count packet,
       prep_inputs = packet_inputs profile packet\<rparr> \<and>
     pb_effective_scheduled_ticks (av_prepared_batch view) = ticks \<and>
     path_up_count (av_dispatch_path view) = count_ones (pkt_up_mask packet) \<and>
     path_down_count (av_dispatch_path view) = count_ones (pkt_down_mask packet) \<and>
     av_recovery view = prepare_up_recovery_descriptor packet"

lemma authored_view_iff:
  assumes p: "profile_ok profile"
  shows "\<not> sendable (packet_of prepared pending) \<Longrightarrow> \<exists>e. prepare_authored_frame_view_from_prepared c prepared pending due profile = Inl e"
    and "sendable (packet_of prepared pending) \<Longrightarrow>
      \<exists>view. prepare_authored_frame_view_from_prepared c prepared pending due profile = Inr (Some view) \<and>
        view_ok profile (pf_authored_ticks (pp_frame prepared)) (packet_of prepared pending) view \<and>
        av_batch_source_action_index view = pp_batch_source_action_index prepared \<and>
        av_commit view = (if pending = 0 then Authored (pp_commit prepared) else Coalesced (pp_commit prepared) pending due)"
proof -
  let ?u = "pf_immediate_up_mask (pp_frame prepared) OR pending" and ?d = "pf_down_mask (pp_frame prepared)"
  show "\<exists>e. prepare_authored_frame_view_from_prepared c prepared pending due profile = Inl e"
    if n: "\<not> sendable (packet_of prepared pending)"
    using try_new_rejects [OF n, of profile]
    by (cases "prepare_authored_frame_view_from_prepared c prepared pending due profile")
      (auto simp: prepare_authored_frame_view_from_prepared_def Let_def result_simps packet_of_def)
  assume s: "sendable (packet_of prepared pending)"
  then have s': "sendable (packet_new ?u ?d)" and ud: "?u AND ?d = 0" "?u \<noteq> 0 \<or> ?d \<noteq> 0" by (auto simp: sendable_def packet_of_def)
  show "\<exists>view. prepare_authored_frame_view_from_prepared c prepared pending due profile = Inr (Some view) \<and>
        view_ok profile (pf_authored_ticks (pp_frame prepared)) (packet_of prepared pending) view \<and>
        av_batch_source_action_index view = pp_batch_source_action_index prepared \<and>
        av_commit view = (if pending = 0 then Authored (pp_commit prepared) else Coalesced (pp_commit prepared) pending due)"
    unfolding prepare_authored_frame_view_from_prepared_def Let_def try_new_sendable [OF p s'] classify_packet_kind_ok [OF ud(2)]
      check_packet_down_conflicts_def
    using ud(1) s by (simp add: view_ok_def packet_of_def path_counts)
qed

lemma pending_view_iff:
  assumes p: "profile_ok profile"
  shows "\<not> sendable (packet_new m 0) \<Longrightarrow> \<exists>e. prepare_pending_release_view c m due profile = Inl (Err e)"
    and "sendable (packet_new m 0) \<Longrightarrow>
      \<exists>view. prepare_pending_release_view c m due profile = Inr (Some view) \<and> view_ok profile due (packet_new m 0) view \<and>
        av_commit view = PendingReleaseCommit m due"
proof -
  show "\<exists>e. prepare_pending_release_view c m due profile = Inl (Err e)" if "\<not> sendable (packet_new m 0)"
    using try_new_rejects [OF that, of profile] by (auto simp: prepare_pending_release_view_def Let_def)
  assume s: "sendable (packet_new m 0)"
  then have "m \<noteq> 0" by (simp add: sendable_def)
  then show "\<exists>view. prepare_pending_release_view c m due profile = Inr (Some view) \<and> view_ok profile due (packet_new m 0) view \<and>
        av_commit view = PendingReleaseCommit m due"
    unfolding prepare_pending_release_view_def Let_def try_new_sendable [OF p s]
    using s by (simp add: view_ok_def prepare_up_recovery_descriptor_def)
qed

section \<open>Plans of a coordinator\<close>

definition physical_plan :: "authored_batch_view \<Rightarrow> qpc_ticks \<Rightarrow> next_dispatch_plan" where
  "physical_plan view target = PhysicalPlan
     \<lparr>pl_authored = \<lparr>ad_path = av_dispatch_path view, ad_deadline_ticks = pb_effective_scheduled_ticks (av_prepared_batch view)\<rparr>,
      pl_physical_target_qpc = target, pl_authored_view = view,
      pl_target_proof = (if pkt_down_mask (av_packet_masks view) = 0 then NotRequired else Required)\<rparr>"

text \<open>The commit of a view accounts for exactly the keys of its packet.\<close>

definition commits_packet :: "physical_packet \<Rightarrow> physical_commit \<Rightarrow> bool" where
  "commits_packet packet commit \<longleftrightarrow>
     (case commit of
        Authored a \<Rightarrow> packet = packet_new (pf_immediate_up_mask (pc_frame a)) (pf_down_mask (pc_frame a))
      | PendingReleaseCommit m _ \<Rightarrow> packet = packet_new m 0
      | Coalesced a m _ \<Rightarrow> packet = packet_new (pf_immediate_up_mask (pc_frame a) OR m) (pf_down_mask (pc_frame a)))"

lemma count_ones_0_iff: "count_ones m = 0 \<longleftrightarrow> m = 0" for m :: u16
proof -
  have "finite {n. bit m n}" using set_slots_of_mask [of m] by (metis List.finite_set)
  then show ?thesis unfolding count_ones_card by (simp add: u16_eq_iff) (auto dest: bit_u16_bound)
qed

lemma physical_plan_valid:
  assumes "view_ok profile ticks packet view" and "commits_packet packet (av_commit view)"
  shows "plan_structure_is_valid (physical_plan view target)"
  using assms by (auto simp: plan_structure_is_valid_def physical_plan_def view_ok_def requires_down_proof_def
      commits_packet_def Let_def split: physical_commit.splits)

lemma physical_plan_ok:
  assumes "view_ok profile ticks packet view" and "commits_packet packet (av_commit view)"
  shows "physical_plan_from_view view epoch =
    (case qpc_checked_add_duration epoch (DurationTicks (timeline_u64 ticks)) of
       Inl e \<Rightarrow> Inl (Err (PlanPrepared (PhysicalTargetFailure e)))
     | Inr target \<Rightarrow> Inr (physical_plan view target))"
proof -
  have p: "pb_effective_scheduled_ticks (av_prepared_batch view) = ticks" "path_down_count (av_dispatch_path view) = count_ones (pkt_down_mask packet)"
    "av_packet_masks view = packet"
    using assms(1) by (simp_all add: view_ok_def)
  have "PhysicalPlan \<lparr>pl_authored = \<lparr>ad_path = av_dispatch_path view, ad_deadline_ticks = ticks\<rparr>, pl_physical_target_qpc = t,
      pl_authored_view = view, pl_target_proof = (if path_down_count (av_dispatch_path view) \<noteq> 0 then Required else NotRequired)\<rparr>
      = physical_plan view t" for t
    using p by (simp add: physical_plan_def count_ones_0_iff)
  then show ?thesis
    using physical_plan_valid [OF assms] p(1)
    by (simp add: physical_plan_from_view_def Let_def result_simps split: sum.splits)
qed

lemma min_of_snoc: "min_of (xs @ [a]) = Some (case min_of xs of None \<Rightarrow> a | Some m \<Rightarrow> min m a)"
  by (cases xs) simp_all

definition authored_dues :: "prepared_authored_packet option \<Rightarrow> timeline_ticks list" where
  "authored_dues ap = (case ap of None \<Rightarrow> [] | Some pkt \<Rightarrow> [pf_authored_ticks (pp_frame pkt)])"

text \<open>The masks that are due at a tick: the deferred releases and the authored packet.\<close>

definition due_packet :: "coordinator \<Rightarrow> prepared_authored_packet option \<Rightarrow> timeline_ticks \<Rightarrow> physical_packet" where
  "due_packet c ap d =
     (case ap of
        Some pkt \<Rightarrow> if pf_authored_ticks (pp_frame pkt) = d then packet_of pkt (pending_release_mask_due_at c d)
                    else packet_new (pending_release_mask_due_at c d) 0
      | None \<Rightarrow> packet_new (pending_release_mask_due_at c d) 0)"

fun plan_packet :: "next_dispatch_plan \<Rightarrow> physical_packet" where
  "plan_packet (PhysicalPlan plan) = av_packet_masks (pl_authored_view plan)"
| "plan_packet _ = packet_new 0 0"

definition plan_ok :: "coordinator \<Rightarrow> qpc_ticks \<Rightarrow> materialized_profile \<Rightarrow> prepared_authored_packet option \<Rightarrow> next_dispatch_plan \<Rightarrow> bool" where
  "plan_ok c epoch profile ap plan \<longleftrightarrow>
     plan_structure_is_valid plan \<and>
     plan_deadline_ticks plan = min_of (map pr_due_ticks (pendings c) @ authored_dues ap) \<and>
     (\<forall>d. plan_deadline_ticks plan = Some d \<longrightarrow>
        plan_packet plan = due_packet c ap d \<and>
        (\<exists>target. plan_physical_target_qpc plan = Some target \<and>
           qpc_checked_add_duration epoch (DurationTicks (timeline_u64 d)) = Inr target))"

lemma nothing_due:
  assumes "\<And>m. min_of (map pr_due_ticks (pendings c)) = Some m \<Longrightarrow> d < m"
  shows "pending_release_mask_due_at c d = 0"
proof -
  have le: "min_of xs = Some m \<Longrightarrow> x \<in> set xs \<Longrightarrow> m \<le> x" for xs :: "timeline_ticks list" and m x
  proof (induction xs arbitrary: m rule: rev_induct)
    case (snoc y ys)
    then show ?case by (auto simp: min_of_snoc min_le_iff_disj split: option.splits) (cases ys; simp)
  qed simp
  have "filter (\<lambda>p. pr_due_ticks p = d) (pendings c) = []"
  proof (rule filter_False, rule ballI)
    fix p assume p: "p \<in> set (pendings c)"
    then obtain m where "min_of (map pr_due_ticks (pendings c)) = Some m" by (cases "pendings c") auto
    then show "pr_due_ticks p \<noteq> d" using assms le [of "map pr_due_ticks (pendings c)" m "pr_due_ticks p"] p by force
  qed
  then show ?thesis by (simp add: pending_release_mask_due_at_def)
qed

lemma pending_plan_ok:
  assumes p: "profile_ok profile" and E: "earliest_pending_release_ticks c = Some d"
    and early: "\<And>pkt. ap = Some pkt \<Longrightarrow> d < pf_authored_ticks (pp_frame pkt)"
    and run: "rbind (planning_view (prepare_pending_release_view c (pending_release_mask_due_at c d) d profile))
      (\<lambda>view. physical_plan_from_view view epoch) = Inr plan"
  shows "plan_ok c epoch profile ap plan"
proof -
  let ?m = "pending_release_mask_due_at c d"
  have s: "sendable (packet_new ?m 0)"
    using pending_view_iff(1) [OF p, of ?m c d] run by (cases "sendable (packet_new ?m 0)") (auto simp: planning_view_def)
  obtain view where view: "prepare_pending_release_view c ?m d profile = Inr (Some view)" "view_ok profile d (packet_new ?m 0) view"
      "av_commit view = PendingReleaseCommit ?m d"
    using pending_view_iff(2) [OF p s] by blast
  have m: "commits_packet (packet_new ?m 0) (av_commit view)" using view(3) by (simp add: commits_packet_def)
  obtain t where t: "qpc_checked_add_duration epoch (DurationTicks (timeline_u64 d)) = Inr t" "plan = physical_plan view t"
    using run view(1) by (auto simp: planning_view_def physical_plan_ok [OF view(2) m] split: sum.splits)
  have "min_of (map pr_due_ticks (pendings c) @ authored_dues ap) = Some d"
    using E early by (auto simp: authored_dues_def min_of_snoc earliest_pending_release_ticks_def split: option.splits)
  moreover have "due_packet c ap d = packet_new ?m 0" using early by (auto simp: due_packet_def split: option.splits)
  ultimately show ?thesis
    using physical_plan_valid [OF view(2) m, of t] t view(2)
    by (simp add: plan_ok_def physical_plan_def plan_deadline_ticks_def plan_physical_target_qpc_def view_ok_def)
qed

text \<open>Deferred releases that are due together with the authored packet join it.\<close>

definition coalesced :: "coordinator \<Rightarrow> timeline_ticks \<Rightarrow> u16" where
  "coalesced c a = (if earliest_pending_release_ticks c = Some a then pending_release_mask_due_at c a else 0)"

lemma authored_turn:
  assumes late: "\<forall>d. earliest_pending_release_ticks c = Some d \<longrightarrow> a \<le> d" and pkt: "pf_authored_ticks (pp_frame pkt) = a"
  shows "coalesced c a = pending_release_mask_due_at c a"
    and "min_of (map pr_due_ticks (pendings c) @ authored_dues (Some pkt)) = Some a"
    and "due_packet c (Some pkt) a = packet_of pkt (coalesced c a)"
proof -
  show m: "coalesced c a = pending_release_mask_due_at c a"
  proof (cases "earliest_pending_release_ticks c = Some a")
    case False
    then have "a < m" if "min_of (map pr_due_ticks (pendings c)) = Some m" for m
      using late that unfolding earliest_pending_release_ticks_def by force
    then show ?thesis using False nothing_due by (simp add: coalesced_def)
  qed (simp add: coalesced_def)
  show "min_of (map pr_due_ticks (pendings c) @ authored_dues (Some pkt)) = Some a"
    using late pkt by (auto simp: authored_dues_def min_of_snoc earliest_pending_release_ticks_def min_def split: option.splits)
  show "due_packet c (Some pkt) a = packet_of pkt (coalesced c a)" using m pkt by (simp add: due_packet_def)
qed

lemma authored_view_commits:
  assumes "pp_frame pkt = pc_frame (pp_commit pkt)"
    and "av_commit view = (if m = 0 then Authored (pp_commit pkt) else Coalesced (pp_commit pkt) m a)"
  shows "commits_packet (packet_of pkt m) (av_commit view)"
  using assms by (simp add: commits_packet_def packet_of_def)

lemma authored_plan_ok:
  assumes p: "profile_ok profile" and late: "\<forall>d. earliest_pending_release_ticks c = Some d \<longrightarrow> a \<le> d"
    and pkt: "pf_authored_ticks (pp_frame pkt) = a" "pp_frame pkt = pc_frame (pp_commit pkt)"
    and run: "rbind (planning_view (prepare_authored_frame_view_from_prepared c pkt (coalesced c a) a profile))
      (\<lambda>view. physical_plan_from_view view epoch) = Inr plan"
  shows "plan_ok c epoch profile (Some pkt) plan"
proof -
  let ?m = "coalesced c a"
  have s: "sendable (packet_of pkt ?m)"
    using authored_view_iff(1) [OF p, of pkt ?m c a] run by (cases "sendable (packet_of pkt ?m)") (auto simp: planning_view_def)
  obtain view where view: "prepare_authored_frame_view_from_prepared c pkt ?m a profile = Inr (Some view)"
      "view_ok profile a (packet_of pkt ?m) view"
      "av_commit view = (if ?m = 0 then Authored (pp_commit pkt) else Coalesced (pp_commit pkt) ?m a)"
    using authored_view_iff(2) [OF p s, where due = a] unfolding pkt(1) by blast
  note cm = authored_view_commits [OF pkt(2) view(3)]
  obtain t where t: "qpc_checked_add_duration epoch (DurationTicks (timeline_u64 a)) = Inr t" "plan = physical_plan view t"
    using run unfolding view(1) by (auto simp: planning_view_def physical_plan_ok [OF view(2) cm] split: sum.splits)
  show ?thesis
    using physical_plan_valid [OF view(2) cm, of t] t view(2) authored_turn(2,3) [OF late pkt(1)]
    by (simp add: plan_ok_def physical_plan_def plan_deadline_ticks_def plan_physical_target_qpc_def view_ok_def)
qed

lemma plan_at_authored_turn:
  assumes prep: "prepare_current_authored_packet c = Inr (Some pkt)" and a: "pf_authored_ticks (pp_frame pkt) = a"
    and late: "\<forall>d. earliest_pending_release_ticks c = Some d \<longrightarrow> a \<le> d"
  shows "plan_next_dispatch_projected c epoch profile =
    (if packet_of pkt (coalesced c a) = packet_new 0 0
     then rbind (map_err (\<lambda>e. Err (PlanPrepared (MetadataTargetFailure e)))
            (qpc_checked_add_duration epoch (DurationTicks (timeline_u64 a)))) (\<lambda>t.
          Inr (MetadataPlan \<lparr>mb_commit = pp_commit pkt, mb_deadline_ticks = a, mb_physical_target_qpc = t\<rparr>))
     else rbind (planning_view (prepare_authored_frame_view_from_prepared c pkt (coalesced c a) a profile))
          (\<lambda>view. physical_plan_from_view view epoch))"
proof -
  have emp: "packet_of pkt m = packet_new 0 0 \<longleftrightarrow>
      pf_immediate_up_mask (pp_frame pkt) = 0 \<and> pf_down_mask (pp_frame pkt) = 0 \<and> m = 0" for m
    by (auto simp: packet_of_def packet_new_def or_eq_0_iff)
  show ?thesis
  proof (cases "earliest_pending_release_ticks c")
    case None
    then show ?thesis using a by (simp add: plan_next_dispatch_projected_def prep Let_def emp coalesced_def)
  next
    case (Some d)
    then have "\<not> d < a" using late by (simp add: not_less)
    then show ?thesis using a Some by (auto simp: plan_next_dispatch_projected_def prep Let_def emp coalesced_def)
  qed
qed

lemma plan_characterised:
  assumes p: "profile_ok profile" and prep: "prepare_current_authored_packet c = Inr ap"
    and frame: "\<And>pkt. ap = Some pkt \<Longrightarrow> pp_frame pkt = pc_frame (pp_commit pkt)"
    and plan: "plan_next_dispatch_projected c epoch profile = Inr plan"
  shows "plan_ok c epoch profile ap plan"
proof (cases ap)
  case None
  let ?E = "earliest_pending_release_ticks c"
  show ?thesis
    using plan prep None pending_plan_ok [OF p, of c "the ?E" ap epoch plan]
    by (cases ?E) (auto simp: plan_next_dispatch_projected_def Let_def plan_ok_def plan_structure_is_valid_def
        plan_deadline_ticks_def authored_dues_def earliest_pending_release_ticks_def)
next
  case (Some pkt)
  let ?a = "pf_authored_ticks (pp_frame pkt)"
  show ?thesis
  proof (cases "\<exists>d. earliest_pending_release_ticks c = Some d \<and> d < ?a")
    case True
    then obtain d where d: "earliest_pending_release_ticks c = Some d" "d < ?a" by blast
    then show ?thesis
      using plan prep Some pending_plan_ok [OF p d(1), of ap epoch plan] by (auto simp: plan_next_dispatch_projected_def Let_def)
  next
    case False
    then have late: "\<forall>d. earliest_pending_release_ticks c = Some d \<longrightarrow> ?a \<le> d" by (simp add: not_less)
    note run = plan [unfolded plan_at_authored_turn [OF prep [unfolded Some] refl late]]
    show ?thesis
    proof (cases "packet_of pkt (coalesced c ?a) = packet_new 0 0")
      case True
      then obtain t where "qpc_checked_add_duration epoch (DurationTicks (timeline_u64 ?a)) = Inr t"
          "plan = MetadataPlan \<lparr>mb_commit = pp_commit pkt, mb_deadline_ticks = ?a, mb_physical_target_qpc = t\<rparr>"
        using run by (auto simp: result_simps)
      then show ?thesis
        using authored_turn(2,3) [OF late refl] True unfolding Some
        by (simp add: plan_ok_def plan_structure_is_valid_def plan_deadline_ticks_def plan_physical_target_qpc_def)
    next
      case False
      then show ?thesis using authored_plan_ok [OF p late refl frame [OF Some]] run unfolding Some by simp
    qed
  qed
qed

lemma prepared_frame:
  assumes "prepare_current_authored_packet c = Inr (Some pkt)"
  shows "pp_frame pkt = pc_frame (pp_commit pkt)"
  using assms by (auto simp: prepare_current_authored_packet_def Let_def rbind_eq_Inr split: option.splits if_splits)

section \<open>Properties\<close>

text \<open>C18: Whatever plan the planner returns, for any coordinator and epoch: its deadline is the earliest of all
  deferred releases and the current authored packet; its packet holds exactly the keys that are due at
  that tick, deferred releases and authored keys together; its target is the epoch plus the deadline;
  and its proof obligations, native packet and commit token agree with that packet.\<close>

theorem planning_takes_the_earliest:
  assumes plan: "plan_next_dispatch_projected c epoch (from_validated prof) = Inr plan"
  shows "\<exists>ap. prepare_current_authored_packet c = Inr ap \<and> plan_structure_is_valid plan \<and>
    plan_deadline_ticks plan = min_of (map pr_due_ticks (pendings c) @ authored_dues ap) \<and>
    (\<forall>d. plan_deadline_ticks plan = Some d \<longrightarrow> plan_packet plan = due_packet c ap d \<and>
       (\<exists>target. plan_physical_target_qpc plan = Some target \<and> qpc_nat target = qpc_nat epoch + timeline_nat d))"
proof -
  obtain ap where ap: "prepare_current_authored_packet c = Inr ap"
    using plan by (auto simp: plan_next_dispatch_projected_def rbind_eq_Inr map_err_eq_Inr)
  have ok: "plan_ok c epoch (from_validated prof) ap plan"
    using plan_characterised [OF from_validated_ok ap _ plan] prepared_frame ap by blast
  have "qpc_nat target = qpc_nat epoch + timeline_nat d"
    if "qpc_checked_add_duration epoch (DurationTicks (timeline_u64 d)) = Inr target" for target d
    using that unfolding qpc.add_ok by simp
  then show ?thesis using ap ok unfolding plan_ok_def by blast
qed

lemma demo_plan:
  "map_sum (\<lambda>_. ()) plan_deadline_ticks
     (plan_next_dispatch_projected demo_pressed (QpcTicks 7) (from_validated \<lparr>ip_keys = sp_keys spec_canonical\<rparr>)) = Inr (Some (TimelineTicks 2000))"
  by code_simp

theorem planning_takes_the_earliest_witness:
  "\<exists>plan target. plan_next_dispatch_projected demo_pressed (QpcTicks 7) (from_validated \<lparr>ip_keys = sp_keys spec_canonical\<rparr>) = Inr plan \<and>
     plan_physical_target_qpc plan = Some target \<and> qpc_nat target = 2007"
proof -
  obtain plan where plan: "plan_next_dispatch_projected demo_pressed (QpcTicks 7) (from_validated \<lparr>ip_keys = sp_keys spec_canonical\<rparr>) = Inr plan"
      "plan_deadline_ticks plan = Some (TimelineTicks 2000)"
    using demo_plan by (cases "plan_next_dispatch_projected demo_pressed (QpcTicks 7) (from_validated \<lparr>ip_keys = sp_keys spec_canonical\<rparr>)") auto
  show ?thesis using planning_takes_the_earliest [OF plan(1)] plan by auto
qed

end
