(* ===== verification/Sky_Validation.thy ===== *)
theory Sky_Validation
  imports Sky_Compile
begin

text \<open>
  The admission check of \<open>sky_dispatch_core/src/validation.rs\<close>: a walk over the compiled packets in
  physical order (releases before presses) that refuses a schedule whose same-key holds or release
  gaps are too short in the tick domain the worker will use. The conversion from microseconds is
  a parameter, as in the source; the lemmas assume only the \<open>tick_conversion\<close> interface.
\<close>

datatype schedule_timing_error =
    TimestampOverflow
  | SameKeyHoldTooShort u16 u32 u32 u64 u64 u64 u64 u64 u64 u64 u64
  | SameKeyReleaseGapTooShort u16 u32 u32 u64 u64 u64 u64 u64 u64 u64
  | GenerationOwnershipMismatch u16 generation_id generation_id u32
  | InvalidBatchRange usize
  | UnclosedGeneration u16 u32 u64

type_synonym 'a timing_result = "schedule_timing_error failure + 'a"

record open_hold =
  oh_generation_id :: generation_id
  oh_scan_code :: u16
  oh_down_source_action_index :: u32
  oh_down_scheduled_us :: u64
  oh_down_scheduled_ticks :: timeline_ticks

record release_boundary =
  rl_source_action_index :: u32
  rl_scheduled_us :: u64
  rl_scheduled_ticks :: timeline_ticks

record timing_config =
  tc_effective_min_hold_us :: u64
  tc_effective_min_hold_ticks :: duration_ticks
  tc_min_release_gap_us :: u64
  tc_min_release_gap_ticks :: duration_ticks

record validation_state =
  vs_open_by_slot :: "open_hold option list"
  vs_last_release_by_slot :: "release_boundary option list"

section \<open>The walk\<close>

definition validate_up_intent ::
  "timing_config \<Rightarrow> compiled_batch \<Rightarrow> timeline_ticks \<Rightarrow> u16 \<Rightarrow> nat \<Rightarrow> compact_intent
     \<Rightarrow> validation_state \<Rightarrow> validation_state timing_result" where
  "validate_up_intent cfg batch batch_ticks scan_code slot compact st =
     (case vs_open_by_slot st ! slot of
        None \<Rightarrow>
          if compact_generation_id compact = NO_GENERATION_ID then Inr st
          else Inl (Err (GenerationOwnershipMismatch scan_code NO_GENERATION_ID
                           (compact_generation_id compact) (cb_source_action_index batch)))
      | Some active \<Rightarrow>
          if oh_generation_id active \<noteq> compact_generation_id compact
          then Inl (Err (GenerationOwnershipMismatch scan_code (oh_generation_id active)
                           (compact_generation_id compact) (cb_source_action_index batch)))
          else
          let interval_us = saturating_sub (cb_scheduled_us batch) (oh_down_scheduled_us active) in
          rbind (map_err (\<lambda>_. Err TimestampOverflow)
                   (timeline_checked_add_duration (oh_down_scheduled_ticks active)
                      (tc_effective_min_hold_ticks cfg))) (\<lambda>earliest_release_ticks.
          if earliest_release_ticks > batch_ticks
          then Inl (Err (SameKeyHoldTooShort (oh_scan_code active) (oh_down_source_action_index active)
                           (cb_source_action_index batch) (oh_down_scheduled_us active)
                           (cb_scheduled_us batch) interval_us (tc_effective_min_hold_us cfg)
                           (timeline_u64 (oh_down_scheduled_ticks active)) (timeline_u64 batch_ticks)
                           (duration_u64 (tc_effective_min_hold_ticks cfg))
                           (timeline_u64 earliest_release_ticks)))
          else
          let st = st\<lparr>vs_open_by_slot := (vs_open_by_slot st)[slot := None]\<rparr> in
          if tc_min_release_gap_us cfg > 0
          then (if slot < length (vs_last_release_by_slot st)
                then Inr (st\<lparr>vs_last_release_by_slot := (vs_last_release_by_slot st)
                     [slot := Some \<lparr>rl_source_action_index = cb_source_action_index batch,
                                    rl_scheduled_us = cb_scheduled_us batch,
                                    rl_scheduled_ticks = batch_ticks\<rparr>]\<rparr>)
                else Inl Panic)
          else Inr st))"

definition validate_down_intent ::
  "timing_config \<Rightarrow> compiled_batch \<Rightarrow> timeline_ticks \<Rightarrow> u16 \<Rightarrow> nat \<Rightarrow> compact_intent
     \<Rightarrow> validation_state \<Rightarrow> validation_state timing_result" where
  "validate_down_intent cfg batch batch_ticks scan_code slot compact st =
     (if compact_generation_id compact = NO_GENERATION_ID \<or> vs_open_by_slot st ! slot \<noteq> None
      then Inl (Err (GenerationOwnershipMismatch scan_code NO_GENERATION_ID
                       (compact_generation_id compact) (cb_source_action_index batch)))
      else
      rbind (ok_or (nth_opt (vs_last_release_by_slot st) slot) Panic) (\<lambda>last_release.
      rbind (case last_release of
               Some previous_up \<Rightarrow>
                 if tc_min_release_gap_us cfg > 0 then
                   (let release_gap_ticks =
                          (case timeline_checked_duration_since batch_ticks (rl_scheduled_ticks previous_up) of
                             Inr d \<Rightarrow> d | Inl _ \<Rightarrow> DurationTicks 0)
                    in if release_gap_ticks < tc_min_release_gap_ticks cfg
                       then Inl (Err (SameKeyReleaseGapTooShort scan_code
                              (rl_source_action_index previous_up) (cb_source_action_index batch)
                              (rl_scheduled_us previous_up) (cb_scheduled_us batch)
                              (saturating_sub (cb_scheduled_us batch) (rl_scheduled_us previous_up))
                              (tc_min_release_gap_us cfg)
                              (timeline_u64 (rl_scheduled_ticks previous_up)) (timeline_u64 batch_ticks)
                              (duration_u64 (tc_min_release_gap_ticks cfg))))
                       else Inr ())
                 else Inr ()
             | None \<Rightarrow> Inr ()) (\<lambda>_.
      Inr (st\<lparr>vs_open_by_slot := (vs_open_by_slot st)
             [slot := Some \<lparr>oh_generation_id = compact_generation_id compact, oh_scan_code = scan_code,
                            oh_down_source_action_index = cb_source_action_index batch,
                            oh_down_scheduled_us = cb_scheduled_us batch,
                            oh_down_scheduled_ticks = batch_ticks\<rparr>]\<rparr>))))"

definition validate_intent ::
  "timing_config \<Rightarrow> key_registry \<Rightarrow> usize \<Rightarrow> action_kind \<Rightarrow> compiled_batch \<Rightarrow> timeline_ticks
     \<Rightarrow> compact_intent \<Rightarrow> validation_state \<Rightarrow> validation_state timing_result" where
  "validate_intent cfg registry packet_index expected_kind batch batch_ticks compact st =
     (let slot = unat (compact_key_slot compact) in
      if \<not> slot < length (vs_open_by_slot st) then Inl (Err (InvalidBatchRange packet_index)) else
      rbind (ok_or (scan_code_for registry (compact_key_slot compact)) (Err (InvalidBatchRange packet_index)))
        (\<lambda>scan_code.
      case expected_kind of
        Up \<Rightarrow> validate_up_intent cfg batch batch_ticks scan_code slot compact st
      | Down \<Rightarrow> validate_down_intent cfg batch batch_ticks scan_code slot compact st))"

definition validate_batch ::
  "timing_config \<Rightarrow> (u64 \<Rightarrow> timeline_ticks option) \<Rightarrow> runtime_schedule \<Rightarrow> usize \<Rightarrow> action_kind
     \<Rightarrow> compiled_batch \<Rightarrow> validation_state \<Rightarrow> validation_state timing_result" where
  "validate_batch cfg microseconds_to_ticks schedule packet_index expected_kind batch st =
     rbind (ok_or (microseconds_to_ticks (cb_scheduled_us batch)) (Err TimestampOverflow)) (\<lambda>batch_ticks.
     let intent_start = unat (cb_intent_start batch) in
     rbind (ok_or (checked_add_usize intent_start (unat (cb_intent_len batch)))
              (Err (InvalidBatchRange packet_index))) (\<lambda>intent_end.
     rbind (ok_or (slice_get (rs_intents schedule) intent_start intent_end)
              (Err (InvalidBatchRange packet_index))) (\<lambda>intents.
     rfold (validate_intent cfg (rs_key_registry schedule) packet_index expected_kind batch batch_ticks)
       intents st)))"

definition validate_packet ::
  "timing_config \<Rightarrow> (u64 \<Rightarrow> timeline_ticks option) \<Rightarrow> runtime_schedule \<Rightarrow> usize \<times> compiled_packet
     \<Rightarrow> validation_state \<Rightarrow> validation_state timing_result" where
  "validate_packet cfg microseconds_to_ticks schedule = (\<lambda>(packet_index, packet) st.
     let batch_start = unat (cp_first_batch_index packet) in
     rbind (ok_or (checked_add_usize batch_start (unat (cp_batch_count packet)))
              (Err (InvalidBatchRange packet_index))) (\<lambda>batch_end.
     rbind (ok_or (slice_get (rs_batches schedule) batch_start batch_end)
              (Err (InvalidBatchRange packet_index))) (\<lambda>batches.
     rfold (\<lambda>expected_kind. rfold (validate_batch cfg microseconds_to_ticks schedule packet_index expected_kind)
              (filter (\<lambda>batch. cb_kind batch = expected_kind) batches)) [Up, Down] st)))"

definition validation_state_new :: validation_state where
  "validation_state_new =
     \<lparr>vs_open_by_slot = replicate MAX_KEYS None, vs_last_release_by_slot = replicate MAX_KEYS None\<rparr>"

definition validate_feasibility ::
  "runtime_schedule \<Rightarrow> timing_config \<Rightarrow> (u64 \<Rightarrow> timeline_ticks option) \<Rightarrow> unit timing_result" where
  "validate_feasibility schedule cfg microseconds_to_ticks =
     (let last_scheduled_us = (if rs_batches schedule = [] then 0
                               else cb_scheduled_us (last (rs_batches schedule))) in
      rbind (ok_or (checked_add last_scheduled_us (tc_effective_min_hold_us cfg)) (Err TimestampOverflow)) (\<lambda>_.
      rbind (rfold (validate_packet cfg microseconds_to_ticks schedule)
               (enumerate 0 (rs_packets schedule)) validation_state_new) (\<lambda>st.
      case List.map_filter (\<lambda>x. x) (vs_open_by_slot st) of
        oh # _ \<Rightarrow> Inl (Err (UnclosedGeneration (oh_scan_code oh) (oh_down_source_action_index oh)
                               (oh_down_scheduled_us oh)))
      | [] \<Rightarrow> Inr ())))"

text \<open>\<open>validate_min_hold_and_release_gap_feasibility_ticks\<close> and its three wrappers.\<close>

definition validate_min_hold_and_release_gap_feasibility_ticks ::
  "runtime_schedule \<Rightarrow> u64 \<Rightarrow> duration_ticks \<Rightarrow> u64 \<Rightarrow> duration_ticks \<Rightarrow> (u64 \<Rightarrow> timeline_ticks option)
     \<Rightarrow> unit timing_result" where
  "validate_min_hold_and_release_gap_feasibility_ticks schedule effective_min_hold_us
       effective_min_hold_ticks min_release_gap_us min_release_gap_ticks microseconds_to_ticks =
     validate_feasibility schedule
       \<lparr>tc_effective_min_hold_us = effective_min_hold_us,
        tc_effective_min_hold_ticks = effective_min_hold_ticks,
        tc_min_release_gap_us = min_release_gap_us,
        tc_min_release_gap_ticks = min_release_gap_ticks\<rparr> microseconds_to_ticks"

definition validate_min_hold_feasibility_ticks ::
  "runtime_schedule \<Rightarrow> u64 \<Rightarrow> duration_ticks \<Rightarrow> (u64 \<Rightarrow> timeline_ticks option) \<Rightarrow> unit timing_result" where
  "validate_min_hold_feasibility_ticks schedule effective_min_hold_us effective_min_hold_ticks
       microseconds_to_ticks =
     validate_min_hold_and_release_gap_feasibility_ticks schedule effective_min_hold_us
       effective_min_hold_ticks 0 (DurationTicks 0) microseconds_to_ticks"

definition validate_min_hold_feasibility :: "runtime_schedule \<Rightarrow> u64 \<Rightarrow> unit timing_result" where
  "validate_min_hold_feasibility schedule effective_min_hold_us =
     validate_min_hold_feasibility_ticks schedule effective_min_hold_us
       (DurationTicks effective_min_hold_us) microseconds_as_ticks"

definition validate_min_hold_and_release_gap_feasibility ::
  "runtime_schedule \<Rightarrow> u64 \<Rightarrow> u64 \<Rightarrow> unit timing_result" where
  "validate_min_hold_and_release_gap_feasibility schedule effective_min_hold_us min_release_gap_us =
     validate_min_hold_and_release_gap_feasibility_ticks schedule effective_min_hold_us
       (DurationTicks effective_min_hold_us) min_release_gap_us (DurationTicks min_release_gap_us)
       microseconds_as_ticks"

section \<open>One intent\<close>

text \<open>The errors that blame the timing rather than the shape of the schedule.\<close>

fun timing_error :: "schedule_timing_error \<Rightarrow> bool" where
  "timing_error TimestampOverflow = True"
| "timing_error (SameKeyHoldTooShort _ _ _ _ _ _ _ _ _ _ _) = True"
| "timing_error (SameKeyReleaseGapTooShort _ _ _ _ _ _ _ _ _ _) = True"
| "timing_error _ = False"

definition tables_ok :: "validation_state \<Rightarrow> bool" where
  "tables_ok st \<longleftrightarrow> length (vs_open_by_slot st) = MAX_KEYS \<and> length (vs_last_release_by_slot st) = MAX_KEYS"

definition up_good :: "timing_config \<Rightarrow> timeline_ticks \<Rightarrow> validation_state \<Rightarrow> compact_intent \<Rightarrow> bool" where
  "up_good cfg t st c \<longleftrightarrow>
     (case vs_open_by_slot st ! intent_slot c of None \<Rightarrow> True
      | Some oh \<Rightarrow> timeline_nat (oh_down_scheduled_ticks oh) + duration_nat (tc_effective_min_hold_ticks cfg)
                  \<le> timeline_nat t)"

definition release_of :: "validation_state \<Rightarrow> nat \<Rightarrow> timeline_ticks option" where
  "release_of st s = map_option rl_scheduled_ticks (vs_last_release_by_slot st ! s)"

definition down_good :: "timing_config \<Rightarrow> timeline_ticks \<Rightarrow> validation_state \<Rightarrow> compact_intent \<Rightarrow> bool" where
  "down_good cfg t st c \<longleftrightarrow>
     (case release_of st (intent_slot c) of None \<Rightarrow> True
      | Some r \<Rightarrow> tc_min_release_gap_us cfg > 0 \<longrightarrow>
          duration_nat (tc_min_release_gap_ticks cfg) \<le> timeline_nat t - timeline_nat r)"

definition registered :: "key_registry \<Rightarrow> compact_intent \<Rightarrow> bool" where
  "registered reg c \<longleftrightarrow> intent_slot c < registry_len reg"

lemma registered_scan_code: "registered reg c \<Longrightarrow> \<exists>sc. scan_code_for reg (compact_key_slot c) = Some sc"
  by (simp add: registered_def intent_slot_def scan_code_for_def registry_len_def result_simps)

lemma intent_gen_None: "intent_gen c = None \<longleftrightarrow> compact_generation_id c = NO_GENERATION_ID"
  by (simp add: intent_gen_def)

lemma intent_gen_Some: "intent_gen c = Some g \<longleftrightarrow> compact_generation_id c = g \<and> g \<noteq> NO_GENERATION_ID"
  by (auto simp: intent_gen_def)

lemma duration_nat_less: "a < b \<longleftrightarrow> duration_nat a < duration_nat b"
  by (simp add: less_le_not_le duration_nat_le)

lemma hold_deadline:
  "timeline_checked_add_duration a d = Inr e \<Longrightarrow> e > t \<longleftrightarrow> \<not> timeline_nat a + duration_nat d \<le> timeline_nat t"
  by (simp add: timeline.add_ok timeline.val_le flip: not_le)

lemma validate_up_cases:
  assumes tabs: "tables_ok st" and reg: "registry_wf reg" "registered reg c"
    and owner: "intent_gen c = map_option oh_generation_id (vs_open_by_slot st ! intent_slot c)"
  shows "up_good cfg t st c \<Longrightarrow> \<exists>st'. validate_intent cfg reg n Up b t c st = Inr st' \<and> tables_ok st' \<and>
      vs_open_by_slot st' = (vs_open_by_slot st)[intent_slot c := None] \<and>
      release_of st' = (if intent_gen c \<noteq> None \<and> tc_min_release_gap_us cfg > 0
                        then \<lambda>s. if s = intent_slot c then Some t else release_of st s
                        else release_of st)"
    and "\<not> up_good cfg t st c \<Longrightarrow> \<exists>e. validate_intent cfg reg n Up b t c st = Inl (Err e) \<and> timing_error e"
proof -
  let ?s = "intent_slot c"
  have s: "?s < MAX_KEYS" using reg by (simp add: registered_def registry_wf_def)
  obtain sc where sc: "scan_code_for reg (compact_key_slot c) = Some sc"
    using registered_scan_code [OF reg(2)] by blast
  have lens: "length (vs_open_by_slot st) = MAX_KEYS" "length (vs_last_release_by_slot st) = MAX_KEYS"
    using tabs by (simp_all add: tables_ok_def)
  have unfold: "validate_intent cfg reg n Up b t c st = validate_up_intent cfg b t sc ?s c st"
    using s sc lens by (simp add: validate_intent_def intent_slot_def)
  show "\<exists>st'. validate_intent cfg reg n Up b t c st = Inr st' \<and> tables_ok st' \<and>
      vs_open_by_slot st' = (vs_open_by_slot st)[?s := None] \<and>
      release_of st' = (if intent_gen c \<noteq> None \<and> tc_min_release_gap_us cfg > 0
                        then \<lambda>s. if s = ?s then Some t else release_of st s else release_of st)"
    if good: "up_good cfg t st c"
  proof (cases "vs_open_by_slot st ! ?s")
    case None
    then have "(vs_open_by_slot st)[?s := None] = vs_open_by_slot st" by (metis list_update_id)
    then show ?thesis
      unfolding unfold using None owner tabs by (simp add: validate_up_intent_def intent_gen_None)
  next
    case (Some oh)
    then have gen: "compact_generation_id c = oh_generation_id oh" "intent_gen c \<noteq> None"
      using owner by (simp_all add: intent_gen_Some)
    have le: "timeline_nat (oh_down_scheduled_ticks oh) + duration_nat (tc_effective_min_hold_ticks cfg)
        \<le> timeline_nat t"
      using good Some by (simp add: up_good_def)
    then have "timeline_nat (oh_down_scheduled_ticks oh) + duration_nat (tc_effective_min_hold_ticks cfg) < 2 ^ 64"
      using timeline.val_bound [of t] by linarith
    then obtain e where e: "timeline_checked_add_duration (oh_down_scheduled_ticks oh)
        (tc_effective_min_hold_ticks cfg) = Inr e"
      using timeline.add_defined_iff by blast
    let ?rb = "\<lparr>rl_source_action_index = cb_source_action_index b, rl_scheduled_us = cb_scheduled_us b,
      rl_scheduled_ticks = t\<rparr>"
    let ?st1 = "st\<lparr>vs_open_by_slot := (vs_open_by_slot st)[?s := None]\<rparr>"
    let ?st2 = "?st1\<lparr>vs_last_release_by_slot := (vs_last_release_by_slot st)[?s := Some ?rb]\<rparr>"
    have "\<not> t < e" using hold_deadline [OF e, of t] le by blast
    then have run: "validate_up_intent cfg b t sc ?s c st
        = Inr (if tc_min_release_gap_us cfg > 0 then ?st2 else ?st1)"
      using Some gen(1) e s lens by (simp add: validate_up_intent_def)
    have "release_of ?st2 = (\<lambda>s. if s = ?s then Some t else release_of st s)"
      using s lens by (simp add: release_of_def fun_eq_iff nth_list_update)
    moreover have "release_of ?st1 = release_of st" by (simp add: release_of_def fun_eq_iff)
    moreover have "tables_ok ?st1" "tables_ok ?st2" using lens by (simp_all add: tables_ok_def)
    ultimately show ?thesis unfolding unfold run using gen(2) by simp
  qed
  show "\<exists>e. validate_intent cfg reg n Up b t c st = Inl (Err e) \<and> timing_error e"
    if bad: "\<not> up_good cfg t st c"
  proof -
    obtain oh where oh: "vs_open_by_slot st ! ?s = Some oh"
      and lt: "\<not> timeline_nat (oh_down_scheduled_ticks oh) + duration_nat (tc_effective_min_hold_ticks cfg)
        \<le> timeline_nat t"
      using bad by (auto simp: up_good_def split: option.splits)
    have gen: "compact_generation_id c = oh_generation_id oh" using owner oh by (simp add: intent_gen_Some)
    show ?thesis
    proof (cases "timeline_checked_add_duration (oh_down_scheduled_ticks oh) (tc_effective_min_hold_ticks cfg)")
      case (Inl e)
      then show ?thesis unfolding unfold using oh gen by (simp add: validate_up_intent_def Let_def)
    next
      case (Inr e)
      then show ?thesis
        unfolding unfold using oh gen lt hold_deadline [OF Inr, of t]
        by (simp add: validate_up_intent_def Let_def)
    qed
  qed
qed

lemma validate_down_cases:
  assumes tabs: "tables_ok st" and reg: "registry_wf reg" "registered reg c"
    and free: "vs_open_by_slot st ! intent_slot c = None" and gen: "intent_gen c = Some g"
  shows "down_good cfg t st c \<Longrightarrow> \<exists>st' oh. validate_intent cfg reg n Down b t c st = Inr st' \<and> tables_ok st' \<and>
      vs_open_by_slot st' = (vs_open_by_slot st)[intent_slot c := Some oh] \<and>
      oh_generation_id oh = g \<and> oh_down_scheduled_ticks oh = t \<and> release_of st' = release_of st"
    and "\<not> down_good cfg t st c \<Longrightarrow> \<exists>e. validate_intent cfg reg n Down b t c st = Inl (Err e) \<and> timing_error e"
proof -
  let ?s = "intent_slot c" and ?gap = "duration_nat (tc_min_release_gap_ticks cfg)"
  have s: "?s < MAX_KEYS" using reg by (simp add: registered_def registry_wf_def)
  obtain sc where sc: "scan_code_for reg (compact_key_slot c) = Some sc"
    using registered_scan_code [OF reg(2)] by blast
  have lens: "length (vs_open_by_slot st) = MAX_KEYS" "length (vs_last_release_by_slot st) = MAX_KEYS"
    using tabs by (simp_all add: tables_ok_def)
  have unfold: "validate_intent cfg reg n Down b t c st = validate_down_intent cfg b t sc ?s c st"
    using s sc lens by (simp add: validate_intent_def intent_slot_def)
  have id: "compact_generation_id c = g" "compact_generation_id c \<noteq> NO_GENERATION_ID"
    using gen by (simp_all add: intent_gen_Some)
  have gap: "(case timeline_checked_duration_since t r of Inr d \<Rightarrow> d | Inl _ \<Rightarrow> DurationTicks 0)
      < tc_min_release_gap_ticks cfg \<longleftrightarrow> \<not> ?gap \<le> timeline_nat t - timeline_nat r" for r
  proof (cases "timeline_checked_duration_since t r")
    case (Inl e)
    then have "timeline_nat t \<le> timeline_nat r" by (auto simp: timeline.since_err timeline.val_le [symmetric])
    then show ?thesis using Inl by (simp add: duration_nat_less not_le)
  next
    case (Inr d)
    then have "duration_nat d = timeline_nat t - timeline_nat r" by (simp add: timeline.since_ok)
    then show ?thesis using Inr by (simp add: duration_nat_less not_le)
  qed
  show "\<exists>st' oh. validate_intent cfg reg n Down b t c st = Inr st' \<and> tables_ok st' \<and>
      vs_open_by_slot st' = (vs_open_by_slot st)[?s := Some oh] \<and>
      oh_generation_id oh = g \<and> oh_down_scheduled_ticks oh = t \<and> release_of st' = release_of st"
    if good: "down_good cfg t st c"
    unfolding unfold using good s lens id free gap
    by (auto simp: validate_down_intent_def Let_def tables_ok_def release_of_def fun_eq_iff down_good_def
        split: option.splits)
  show "\<exists>e. validate_intent cfg reg n Down b t c st = Inl (Err e) \<and> timing_error e"
    if bad: "\<not> down_good cfg t st c"
    unfolding unfold using bad s lens id free gap
    by (auto simp: validate_down_intent_def Let_def down_good_def release_of_def split: option.splits)
qed

section \<open>One packet\<close>

definition up_post ::
  "timing_config \<Rightarrow> timeline_ticks \<Rightarrow> validation_state \<Rightarrow> compact_intent list \<Rightarrow> validation_state \<Rightarrow> bool" where
  "up_post cfg t st cs st' \<longleftrightarrow> tables_ok st' \<and>
     (\<forall>s < MAX_KEYS. vs_open_by_slot st' ! s = (if s \<in> intent_slot ` set cs then None else vs_open_by_slot st ! s)) \<and>
     (\<forall>s. release_of st' s = (if tc_min_release_gap_us cfg > 0 \<and> (\<exists>c \<in> set cs. intent_slot c = s \<and> intent_gen c \<noteq> None)
                              then Some t else release_of st s))"

definition down_post :: "timeline_ticks \<Rightarrow> validation_state \<Rightarrow> compact_intent list \<Rightarrow> validation_state \<Rightarrow> bool" where
  "down_post t st cs st' \<longleftrightarrow> tables_ok st' \<and> release_of st' = release_of st \<and>
     (\<forall>c \<in> set cs. \<exists>oh. vs_open_by_slot st' ! intent_slot c = Some oh \<and>
        intent_gen c = Some (oh_generation_id oh) \<and> oh_down_scheduled_ticks oh = t) \<and>
     (\<forall>s. s \<notin> intent_slot ` set cs \<longrightarrow> vs_open_by_slot st' ! s = vs_open_by_slot st ! s)"

abbreviation run_intents ::
  "timing_config \<Rightarrow> key_registry \<Rightarrow> usize \<Rightarrow> action_kind \<Rightarrow> timeline_ticks
     \<Rightarrow> (compiled_batch \<times> compact_intent) list \<Rightarrow> validation_state \<Rightarrow> validation_state timing_result" where
  "run_intents cfg reg n k t bcs st \<equiv> rfold (\<lambda>(b, c). validate_intent cfg reg n k b t c) bcs st"

lemma validate_ups:
  assumes "tables_ok st" and "registry_wf reg"
    and "\<forall>c \<in> set (map snd bcs). registered reg c \<and>
      intent_gen c = map_option oh_generation_id (vs_open_by_slot st ! intent_slot c)"
    and "distinct (map intent_slot (map snd bcs))"
  shows "if \<forall>c \<in> set (map snd bcs). up_good cfg t st c
    then \<exists>st'. run_intents cfg reg n Up t bcs st = Inr st' \<and> up_post cfg t st (map snd bcs) st'
    else \<exists>e. run_intents cfg reg n Up t bcs st = Inl (Err e) \<and> timing_error e"
  using assms
proof (induction bcs arbitrary: st)
  case Nil
  then show ?case by (simp add: up_post_def)
next
  case (Cons bc bcs)
  obtain b c where bc: "bc = (b, c)" by fastforce
  have c: "registered reg c" "intent_gen c = map_option oh_generation_id (vs_open_by_slot st ! intent_slot c)"
    using Cons.prems(3) bc by simp_all
  have fresh: "intent_slot c \<notin> intent_slot ` set (map snd bcs)"
    using Cons.prems(4) bc by (simp only: list.map snd_conv distinct.simps(2) set_map not_False_eq_True simp_thms)
  note cases = validate_up_cases [OF Cons.prems(1,2) c, of cfg t n b]
  show ?case
  proof (cases "up_good cfg t st c")
    case False
    then show ?thesis using cases(2) bc by auto
  next
    case True
    then obtain st1 where st1: "validate_intent cfg reg n Up b t c st = Inr st1" "tables_ok st1"
      "vs_open_by_slot st1 = (vs_open_by_slot st)[intent_slot c := None]"
      "release_of st1 = (if intent_gen c \<noteq> None \<and> tc_min_release_gap_us cfg > 0
                        then \<lambda>s. if s = intent_slot c then Some t else release_of st s
                        else release_of st)"
      using cases(1) by blast
    have other: "vs_open_by_slot st1 ! intent_slot d = vs_open_by_slot st ! intent_slot d"
      if "d \<in> set (map snd bcs)" for d
    proof -
      have "intent_slot d \<noteq> intent_slot c" using fresh that by (metis imageI)
      then show ?thesis using st1(3) by simp
    qed
    then have good: "up_good cfg t st1 d \<longleftrightarrow> up_good cfg t st d" if "d \<in> set (map snd bcs)" for d
      using that by (simp add: up_good_def)
    have IH: "if \<forall>c \<in> set (map snd bcs). up_good cfg t st c
      then \<exists>st'. run_intents cfg reg n Up t bcs st1 = Inr st' \<and> up_post cfg t st1 (map snd bcs) st'
      else \<exists>e. run_intents cfg reg n Up t bcs st1 = Inl (Err e) \<and> timing_error e"
      using Cons.IH [OF st1(2) Cons.prems(2)] Cons.prems(3,4) other good bc by simp
    have post: "up_post cfg t st (map snd (bc # bcs)) st'" if "up_post cfg t st1 (map snd bcs) st'" for st'
    proof -
      have "vs_open_by_slot st' ! s = (if s \<in> intent_slot ` set (map snd (bc # bcs)) then None
          else vs_open_by_slot st ! s)" if s: "s < MAX_KEYS" for s
        using that \<open>up_post cfg t st1 (map snd bcs) st'\<close> Cons.prems(1) bc
        by (simp add: up_post_def st1(3) tables_ok_def nth_list_update)
      moreover have "release_of st' s = (if tc_min_release_gap_us cfg > 0 \<and>
          (\<exists>c \<in> set (map snd (bc # bcs)). intent_slot c = s \<and> intent_gen c \<noteq> None)
          then Some t else release_of st s)" for s
        using \<open>up_post cfg t st1 (map snd bcs) st'\<close> bc by (auto simp: up_post_def st1(4))
      ultimately show ?thesis using that by (simp add: up_post_def)
    qed
    show ?thesis
    proof (cases "\<forall>c \<in> set (map snd bcs). up_good cfg t st c")
      case all: True
      then obtain st' where "run_intents cfg reg n Up t bcs st1 = Inr st'" "up_post cfg t st1 (map snd bcs) st'"
        using IH by auto
      then show ?thesis using True all st1(1) bc post by simp
    next
      case False
      then show ?thesis using IH st1(1) bc by auto
    qed
  qed
qed

lemma validate_downs:
  assumes "tables_ok st" and "registry_wf reg"
    and "\<forall>c \<in> set (map snd bcs). registered reg c \<and> intent_gen c \<noteq> None \<and>
      vs_open_by_slot st ! intent_slot c = None"
    and "distinct (map intent_slot (map snd bcs))"
  shows "if \<forall>c \<in> set (map snd bcs). down_good cfg t st c
    then \<exists>st'. run_intents cfg reg n Down t bcs st = Inr st' \<and> down_post t st (map snd bcs) st'
    else \<exists>e. run_intents cfg reg n Down t bcs st = Inl (Err e) \<and> timing_error e"
  using assms
proof (induction bcs arbitrary: st)
  case Nil
  then show ?case by (simp add: down_post_def)
next
  case (Cons bc bcs)
  obtain b c where bc: "bc = (b, c)" by fastforce
  obtain g where c: "registered reg c" "vs_open_by_slot st ! intent_slot c = None" "intent_gen c = Some g"
    using Cons.prems(3) bc by auto
  have slot: "intent_slot c < length (vs_open_by_slot st)"
    using c(1) Cons.prems(1,2) by (simp add: registered_def registry_wf_def tables_ok_def)
  have fresh: "intent_slot c \<notin> intent_slot ` set (map snd bcs)"
    using Cons.prems(4) bc by (simp only: list.map snd_conv distinct.simps(2) set_map not_False_eq_True simp_thms)
  note cases = validate_down_cases [OF Cons.prems(1,2) c, of cfg t n b]
  show ?case
  proof (cases "down_good cfg t st c")
    case False
    then show ?thesis using cases(2) bc by auto
  next
    case True
    then obtain st1 oh where st1: "validate_intent cfg reg n Down b t c st = Inr st1" "tables_ok st1"
      "vs_open_by_slot st1 = (vs_open_by_slot st)[intent_slot c := Some oh]"
      "oh_generation_id oh = g" "oh_down_scheduled_ticks oh = t" "release_of st1 = release_of st"
      using cases(1) by blast
    have diff: "intent_slot d \<noteq> intent_slot c" if "d \<in> set (map snd bcs)" for d
      using fresh that by (metis imageI)
    have other: "vs_open_by_slot st1 ! intent_slot d = vs_open_by_slot st ! intent_slot d"
      if "d \<in> set (map snd bcs)" for d
      using diff [OF that] st1(3) by (simp add: nth_list_update_neq)
    have good: "down_good cfg t st1 d \<longleftrightarrow> down_good cfg t st d" for d
      by (simp add: down_good_def st1(6))
    have IH: "if \<forall>c \<in> set (map snd bcs). down_good cfg t st c
      then \<exists>st'. run_intents cfg reg n Down t bcs st1 = Inr st' \<and> down_post t st1 (map snd bcs) st'
      else \<exists>e. run_intents cfg reg n Down t bcs st1 = Inl (Err e) \<and> timing_error e"
      using Cons.IH [OF st1(2) Cons.prems(2)] Cons.prems(3,4) other good bc by simp
    have post: "down_post t st (map snd (bc # bcs)) st'" if p: "down_post t st1 (map snd bcs) st'" for st'
    proof -
      have "vs_open_by_slot st' ! intent_slot c = Some oh"
        using p slot fresh by (simp add: down_post_def st1(3))
      then show ?thesis using p c(3) st1(3-6) bc by (auto simp: down_post_def)
    qed
    show ?thesis
    proof (cases "\<forall>c \<in> set (map snd bcs). down_good cfg t st c")
      case all: True
      then obtain st' where "run_intents cfg reg n Down t bcs st1 = Inr st'" "down_post t st1 (map snd bcs) st'"
        using IH by auto
      then show ?thesis using True all st1(1) bc post by simp
    next
      case False
      then show ?thesis using IH st1(1) bc by auto
    qed
  qed
qed

definition kind_pairs ::
  "compact_intent list \<Rightarrow> compiled_batch list \<Rightarrow> action_kind \<Rightarrow> (compiled_batch \<times> compact_intent) list" where
  "kind_pairs xs bs k = concat (map (\<lambda>b. map (Pair b) (batch_intents xs b)) (filter (\<lambda>b. cb_kind b = k) bs))"

lemma map_snd_kind_pairs:
  "map snd (kind_pairs xs bs k) = concat (map (batch_intents xs) (filter (\<lambda>b. cb_kind b = k) bs))"
  by (simp add: kind_pairs_def map_concat comp_def)

lemma checked_add_usize_u32_u16 [simp]:
  "checked_add_usize (unat (a :: u32)) (unat (b :: u16)) = Some (unat a + unat b)"
proof -
  have "unat a < 2 ^ 32" "unat b < 2 ^ 16" using unsigned_less [of a] unsigned_less [of b] by simp_all
  then show ?thesis by (simp add: checked_add_usize_def usize_limit_def)
qed

lemma rfold_two: "rfold f [a, b] s = rbind (f a s) (\<lambda>s. f b s)"
  by (simp add: rbind_def split: sum.splits)

lemma validate_batches:
  assumes "\<forall>b \<in> set bs. cb_scheduled_us b = us \<and> batch_in_range (rs_intents rs) b"
  shows "conv us = None \<Longrightarrow> bs \<noteq> [] \<Longrightarrow>
      rfold (validate_batch cfg conv rs n k) bs st = Inl (Err TimestampOverflow)"
    and "conv us = Some t \<Longrightarrow> rfold (validate_batch cfg conv rs n k) bs st
      = run_intents cfg (rs_key_registry rs) n k t
          (concat (map (\<lambda>b. map (Pair b) (batch_intents (rs_intents rs) b)) bs)) st"
proof -
  show "rfold (validate_batch cfg conv rs n k) bs st = Inl (Err TimestampOverflow)"
    if "conv us = None" "bs \<noteq> []"
    using that assms by (cases bs) (simp_all add: validate_batch_def)
  assume "conv us = Some t"
  then have "validate_batch cfg conv rs n k b s = run_intents cfg (rs_key_registry rs) n k t
      (map (Pair b) (batch_intents (rs_intents rs) b)) s" if "b \<in> set bs" for b s
    using assms that
    by (simp add: validate_batch_def slice_get_slice batch_in_range_def batch_intents_def rfold_map)
  then show "rfold (validate_batch cfg conv rs n k) bs st
      = run_intents cfg (rs_key_registry rs) n k t
          (concat (map (\<lambda>b. map (Pair b) (batch_intents (rs_intents rs) b)) bs)) st"
    by (simp add: rfold_concat rfold_map cong: rfold_cong)
qed

lemma validate_packet_unfold:
  assumes ok: "packet_ok (rs_key_registry rs) (rs_intents rs) (rs_batches rs) p"
  defines "pairs \<equiv> kind_pairs (rs_intents rs) (packet_batches (rs_batches rs) p)"
  shows "conv (cp_scheduled_us p) = None \<Longrightarrow>
      validate_packet cfg conv rs (n, p) st = Inl (Err TimestampOverflow)"
    and "conv (cp_scheduled_us p) = Some t \<Longrightarrow> validate_packet cfg conv rs (n, p) st
      = rbind (run_intents cfg (rs_key_registry rs) n Up t (pairs Up) st)
          (run_intents cfg (rs_key_registry rs) n Down t (pairs Down))"
    and "map snd (pairs Up) = packet_ups (rs_intents rs) p"
    and "map snd (pairs Down) = packet_downs (rs_intents rs) p"
proof -
  let ?bs = "packet_batches (rs_batches rs) p"
  let ?k = "\<lambda>k. filter (\<lambda>b. cb_kind b = k) ?bs"
  have range: "unat (cp_first_batch_index p) + unat (cp_batch_count p) \<le> length (rs_batches rs)"
    and ne: "?bs \<noteq> []"
    using ok by (simp_all add: packet_ok_def)
  have b: "\<forall>b \<in> set (?k k). cb_scheduled_us b = cp_scheduled_us p \<and> batch_in_range (rs_intents rs) b" for k
    using ok by (simp add: packet_ok_def)
  have run: "validate_packet cfg conv rs (n, p) st
      = rbind (rfold (validate_batch cfg conv rs n Up) (?k Up) st)
          (\<lambda>st. rfold (validate_batch cfg conv rs n Down) (?k Down) st)" for st
    using range by (simp add: validate_packet_def slice_get_slice packet_batches_def rfold_two Let_def del: rfold.simps)
  show "validate_packet cfg conv rs (n, p) st = Inl (Err TimestampOverflow)" if none: "conv (cp_scheduled_us p) = None"
  proof (cases "?k Up = []")
    case True
    obtain x xs where "?bs = x # xs" using ne by (cases ?bs) auto
    with True have "cb_kind x = Down" "?k Down \<noteq> []" by (cases "cb_kind x"; auto)+
    then show ?thesis unfolding run using True validate_batches(1) [where bs = "?k Down" and conv = conv and us = "cp_scheduled_us p", OF b none] by simp
  next
    case False
    then show ?thesis unfolding run using validate_batches(1) [where bs = "?k Up" and conv = conv and us = "cp_scheduled_us p", OF b none] by simp
  qed
  show "validate_packet cfg conv rs (n, p) st
      = rbind (run_intents cfg (rs_key_registry rs) n Up t (pairs Up) st)
          (run_intents cfg (rs_key_registry rs) n Down t (pairs Down))" if some: "conv (cp_scheduled_us p) = Some t"
    unfolding run pairs_def kind_pairs_def
    using validate_batches(2) [where bs = "?k Up" and conv = conv and us = "cp_scheduled_us p", OF b some]
      validate_batches(2) [where bs = "?k Down" and conv = conv and us = "cp_scheduled_us p", OF b some]
    by (auto intro: rbind_cong)
  show "map snd (pairs Up) = packet_ups (rs_intents rs) p" "map snd (pairs Down) = packet_downs (rs_intents rs) p"
    using ok by (simp_all add: pairs_def map_snd_kind_pairs packet_ok_def)
qed

section \<open>What the validator accepts\<close>

text \<open>
  The specification: packet \<open>n\<close> has a tick time, releases every key no earlier than the minimum hold
  after its press, and presses no key earlier than the release gap after any earlier release.
\<close>

definition packet_feasible ::
  "runtime_schedule \<Rightarrow> timing_config \<Rightarrow> (u64 \<Rightarrow> timeline_ticks option) \<Rightarrow> nat \<Rightarrow> bool" where
  "packet_feasible rs cfg conv n \<longleftrightarrow>
     (\<exists>t. conv (cp_scheduled_us (rs_packets rs ! n)) = Some t \<and>
       (\<forall>d \<in> set (packet_ups (rs_intents rs) (rs_packets rs ! n)).
          \<forall>i < n. \<forall>c \<in> set (packet_downs (rs_intents rs) (rs_packets rs ! i)). \<forall>ti.
            intent_gen d \<noteq> None \<and> intent_gen c = intent_gen d \<and>
            conv (cp_scheduled_us (rs_packets rs ! i)) = Some ti \<longrightarrow>
            timeline_nat ti + duration_nat (tc_effective_min_hold_ticks cfg) \<le> timeline_nat t) \<and>
       (tc_min_release_gap_us cfg > 0 \<longrightarrow>
        (\<forall>c \<in> set (packet_downs (rs_intents rs) (rs_packets rs ! n)).
          \<forall>j < n. \<forall>d \<in> set (packet_ups (rs_intents rs) (rs_packets rs ! j)). \<forall>tj.
            intent_gen d \<noteq> None \<and> intent_slot d = intent_slot c \<and>
            conv (cp_scheduled_us (rs_packets rs ! j)) = Some tj \<longrightarrow>
            timeline_nat tj + duration_nat (tc_min_release_gap_ticks cfg) \<le> timeline_nat t)))"

definition feasible :: "runtime_schedule \<Rightarrow> timing_config \<Rightarrow> (u64 \<Rightarrow> timeline_ticks option) \<Rightarrow> bool" where
  "feasible rs cfg conv \<longleftrightarrow> (\<forall>n < length (rs_packets rs). packet_feasible rs cfg conv n)"

lemma feasible_time:
  "feasible rs cfg conv \<Longrightarrow> n < length (rs_packets rs) \<Longrightarrow> \<exists>t. conv (cp_scheduled_us (rs_packets rs ! n)) = Some t"
  unfolding feasible_def packet_feasible_def by blast

lemma feasible_hold:
  assumes "feasible rs cfg conv" and "i < j" and "j < length (rs_packets rs)"
    and "c \<in> set (packet_downs (rs_intents rs) (rs_packets rs ! i))"
    and "d \<in> set (packet_ups (rs_intents rs) (rs_packets rs ! j))"
    and "intent_gen d \<noteq> None" and "intent_gen c = intent_gen d"
    and "conv (cp_scheduled_us (rs_packets rs ! i)) = Some ti"
    and "conv (cp_scheduled_us (rs_packets rs ! j)) = Some tj"
  shows "timeline_nat ti + duration_nat (tc_effective_min_hold_ticks cfg) \<le> timeline_nat tj"
proof -
  have "packet_feasible rs cfg conv j" using assms(1,3) by (simp add: feasible_def)
  then show ?thesis unfolding packet_feasible_def using assms(2,4-9) by fastforce
qed

lemma feasible_gap:
  assumes "feasible rs cfg conv" and "tc_min_release_gap_us cfg > 0" and "j < k" and "k < length (rs_packets rs)"
    and "d \<in> set (packet_ups (rs_intents rs) (rs_packets rs ! j))"
    and "c \<in> set (packet_downs (rs_intents rs) (rs_packets rs ! k))"
    and "intent_gen d \<noteq> None" and "intent_slot d = intent_slot c"
    and "conv (cp_scheduled_us (rs_packets rs ! j)) = Some tj"
    and "conv (cp_scheduled_us (rs_packets rs ! k)) = Some tk"
  shows "timeline_nat tj + duration_nat (tc_min_release_gap_ticks cfg) \<le> timeline_nat tk"
proof -
  have "packet_feasible rs cfg conv k" using assms(1,4) by (simp add: feasible_def)
  then show ?thesis unfolding packet_feasible_def using assms(2,3,5-10) by fastforce
qed

definition walk_inv ::
  "runtime_schedule \<Rightarrow> timing_config \<Rightarrow> (u64 \<Rightarrow> timeline_ticks option) \<Rightarrow> nat \<Rightarrow> validation_state \<Rightarrow> bool" where
  "walk_inv rs cfg conv n st \<longleftrightarrow> tables_ok st \<and>
     (\<exists>op. replay (take n (packet_trace (rs_intents rs) (rs_packets rs))) (\<lambda>_. None) = Some op \<and>
        (\<forall>s < MAX_KEYS. map_option oh_generation_id (vs_open_by_slot st ! s) = op s)) \<and>
     (\<forall>s < MAX_KEYS. \<forall>oh. vs_open_by_slot st ! s = Some oh \<longrightarrow>
        (\<exists>i < n. \<exists>c \<in> set (packet_downs (rs_intents rs) (rs_packets rs ! i)).
           intent_slot c = s \<and> intent_gen c = Some (oh_generation_id oh) \<and>
           conv (cp_scheduled_us (rs_packets rs ! i)) = Some (oh_down_scheduled_ticks oh))) \<and>
     (\<forall>s < MAX_KEYS. \<forall>r. tc_min_release_gap_us cfg > 0 \<and> release_of st s = Some r \<longrightarrow>
        (\<exists>j < n. \<exists>d \<in> set (packet_ups (rs_intents rs) (rs_packets rs ! j)).
           intent_slot d = s \<and> intent_gen d \<noteq> None \<and> conv (cp_scheduled_us (rs_packets rs ! j)) = Some r)) \<and>
     (\<forall>j < n. \<forall>d \<in> set (packet_ups (rs_intents rs) (rs_packets rs ! j)).
        tc_min_release_gap_us cfg > 0 \<and> intent_gen d \<noteq> None \<longrightarrow>
        (\<exists>r t. release_of st (intent_slot d) = Some r \<and>
           conv (cp_scheduled_us (rs_packets rs ! j)) = Some t \<and> t \<le> r))"

lemma wf_packet:
  assumes "schedule_wf rs" and "n < length (rs_packets rs)"
  shows "packet_ok (rs_key_registry rs) (rs_intents rs) (rs_batches rs) (rs_packets rs ! n)"
    and "registry_wf (rs_key_registry rs)"
    and "i < n \<Longrightarrow> cp_scheduled_us (rs_packets rs ! i) < cp_scheduled_us (rs_packets rs ! n)"
  using assms by (auto simp: schedule_wf_def arena_wf_def sorted_wrt_iff_nth_less)

lemma packet_registered:
  assumes "schedule_wf rs" and "n < length (rs_packets rs)"
    and "c \<in> set (packet_ups (rs_intents rs) (rs_packets rs ! n)) \<union> set (packet_downs (rs_intents rs) (rs_packets rs ! n))"
  shows "registered (rs_key_registry rs) c" and "intent_slot c < MAX_KEYS"
proof -
  have "intent_slot c < registry_len (rs_key_registry rs)"
    using wf_packet(1) [OF assms(1,2)] assms(3) unfolding packet_ok_def by blast
  then show "registered (rs_key_registry rs) c" "intent_slot c < MAX_KEYS"
    using wf_packet(2) [OF assms(1,2)] by (simp_all add: registered_def registry_wf_def)
qed

lemma walk_inv_start: "walk_inv rs cfg conv 0 validation_state_new"
  by (simp add: walk_inv_def validation_state_new_def tables_ok_def release_of_def)

lemma walk_inv_op:
  assumes wf: "schedule_wf rs" and n: "n < length (rs_packets rs)" and inv: "walk_inv rs cfg conv n st"
  obtains op where "replay (take n (packet_trace (rs_intents rs) (rs_packets rs))) (\<lambda>_. None) = Some op"
    and "step_ok op (packet_ups (rs_intents rs) (rs_packets rs ! n), packet_downs (rs_intents rs) (rs_packets rs ! n))"
    and "\<forall>s < MAX_KEYS. map_option oh_generation_id (vs_open_by_slot st ! s) = op s"
proof -
  let ?tr = "packet_trace (rs_intents rs) (rs_packets rs)"
  have n': "n < length ?tr" using n by (simp add: packet_trace_def)
  obtain op where op: "replay (take n ?tr) (\<lambda>_. None) = Some op" "step_ok op (?tr ! n)"
    using schedule_trace(1) [OF wf] n' by (rule replay_take)
  show ?thesis
    by (rule that [of op]) (use op inv n in \<open>auto simp: walk_inv_def packet_trace_def\<close>)
qed

definition last_overflows :: "runtime_schedule \<Rightarrow> timing_config \<Rightarrow> bool" where
  "last_overflows rs cfg \<longleftrightarrow>
     checked_add (if rs_batches rs = [] then 0 else cb_scheduled_us (last (rs_batches rs)))
       (tc_effective_min_hold_us cfg) = None"

context tick_conversion
begin

lemma walk_inv_step:
  assumes wf: "schedule_wf rs" and n: "n < length (rs_packets rs)" and inv: "walk_inv rs cfg conv n st"
    and op: "replay (take n (packet_trace (rs_intents rs) (rs_packets rs))) (\<lambda>_. None) = Some op"
      "step_ok op (packet_ups (rs_intents rs) (rs_packets rs ! n), packet_downs (rs_intents rs) (rs_packets rs ! n))"
      "\<forall>s < MAX_KEYS. map_option oh_generation_id (vs_open_by_slot st ! s) = op s"
    and t: "conv (cp_scheduled_us (rs_packets rs ! n)) = Some t"
    and up: "up_post cfg t st (packet_ups (rs_intents rs) (rs_packets rs ! n)) st1"
    and down: "down_post t st1 (packet_downs (rs_intents rs) (rs_packets rs ! n)) st'"
    and slots: "\<And>c. c \<in> set (packet_downs (rs_intents rs) (rs_packets rs ! n)) \<Longrightarrow> intent_slot c < MAX_KEYS"
  shows "walk_inv rs cfg conv (Suc n) st'"
proof -
  let ?tr = "packet_trace (rs_intents rs) (rs_packets rs)"
  let ?ups = "packet_ups (rs_intents rs) (rs_packets rs ! n)" and ?downs = "packet_downs (rs_intents rs) (rs_packets rs ! n)"
  have nth: "take (Suc n) ?tr = take n ?tr @ [(?ups, ?downs)]"
    using n by (simp add: packet_trace_def take_Suc_conv_app_nth)
  have rep: "replay (take (Suc n) ?tr) (\<lambda>_. None) = Some (step_open op (?ups, ?downs))"
    unfolding nth using op by (simp add: replay_snoc_Some)
  have outside: "vs_open_by_slot st' ! s = (if s \<in> intent_slot ` set ?ups then None else vs_open_by_slot st ! s)"
    if "s \<notin> intent_slot ` set ?downs" "s < MAX_KEYS" for s
    using that up down by (auto simp: up_post_def down_post_def)
  have inside: "\<exists>oh. vs_open_by_slot st' ! intent_slot c = Some oh \<and>
      intent_gen c = Some (oh_generation_id oh) \<and> oh_down_scheduled_ticks oh = t" if "c \<in> set ?downs" for c
    using that down by (simp add: down_post_def)
  have table: "map_option oh_generation_id (vs_open_by_slot st' ! s) = step_open op (?ups, ?downs) s"
    if s: "s < MAX_KEYS" for s
  proof (cases "s \<in> intent_slot ` set ?downs")
    case True
    then obtain c where c: "c \<in> set ?downs" "intent_slot c = s" by auto
    from inside [OF c(1)] c obtain oh where oh: "vs_open_by_slot st' ! s = Some oh"
      "intent_gen c = Some (oh_generation_id oh)" by auto
    then have "step_open op (?ups, ?downs) s = Some (oh_generation_id oh)"
      unfolding step_open_eq_Some [OF op(2)] using c by auto
    then show ?thesis using oh by simp
  next
    case False
    then have "map_of (map (\<lambda>c. (intent_slot c, intent_gen c)) ?downs) s = None"
      by (auto simp: map_of_eq_None_iff image_image)
    then show ?thesis using outside [OF False s] op(3) s by (simp add: step_open_def)
  qed
  have opened: "\<exists>i < Suc n. \<exists>c \<in> set (packet_downs (rs_intents rs) (rs_packets rs ! i)). intent_slot c = s \<and>
      intent_gen c = Some (oh_generation_id oh) \<and>
      conv (cp_scheduled_us (rs_packets rs ! i)) = Some (oh_down_scheduled_ticks oh)"
    if s: "s < MAX_KEYS" and oh: "vs_open_by_slot st' ! s = Some oh" for s oh
  proof (cases "s \<in> intent_slot ` set ?downs")
    case True
    then obtain c where c: "c \<in> set ?downs" "intent_slot c = s" by auto
    then show ?thesis using inside [OF c(1)] oh t by (intro exI [of _ n]) auto
  next
    case False
    then have "vs_open_by_slot st ! s = Some oh" using outside [OF False s] oh by (simp split: if_splits)
    then show ?thesis using inv s unfolding walk_inv_def by (meson less_SucI)
  qed
  have rel: "release_of st' s = (if tc_min_release_gap_us cfg > 0 \<and>
      (\<exists>c \<in> set ?ups. intent_slot c = s \<and> intent_gen c \<noteq> None) then Some t else release_of st s)" for s
    using up down by (simp add: up_post_def down_post_def)
  have from_release: "\<exists>j < Suc n. \<exists>d \<in> set (packet_ups (rs_intents rs) (rs_packets rs ! j)). intent_slot d = s \<and>
      intent_gen d \<noteq> None \<and> conv (cp_scheduled_us (rs_packets rs ! j)) = Some r"
    if s: "s < MAX_KEYS" and gap: "tc_min_release_gap_us cfg > 0" and r: "release_of st' s = Some r" for s r
  proof (cases "\<exists>c \<in> set ?ups. intent_slot c = s \<and> intent_gen c \<noteq> None")
    case True
    then show ?thesis using r gap t unfolding rel by (intro exI [of _ n]) auto
  next
    case False
    then have "release_of st s = Some r" using r unfolding rel by (simp only: if_False simp_thms)
    then show ?thesis using inv s gap unfolding walk_inv_def by (meson less_SucI)
  qed
  have to_release: "\<exists>r tj. release_of st' (intent_slot d) = Some r \<and>
      conv (cp_scheduled_us (rs_packets rs ! j)) = Some tj \<and> tj \<le> r"
    if j: "j < Suc n" and d: "d \<in> set (packet_ups (rs_intents rs) (rs_packets rs ! j))"
      and gap: "tc_min_release_gap_us cfg > 0" and gen: "intent_gen d \<noteq> None" for j d
  proof (cases "j = n")
    case True
    then show ?thesis using d gap gen t unfolding rel by auto
  next
    case False
    with j have j: "j < n" by simp
    then obtain r tj where r: "release_of st (intent_slot d) = Some r"
      "conv (cp_scheduled_us (rs_packets rs ! j)) = Some tj" "tj \<le> r"
      using inv d gap gen unfolding walk_inv_def by metis
    have "tj \<le> t" using wf_packet(3) [OF wf n j] r(2) t by (blast intro: conv_mono order.strict_implies_order)
    then show ?thesis using r unfolding rel by auto
  qed
  show ?thesis
    unfolding walk_inv_def
    using rep table opened from_release to_release down by (auto simp: down_post_def)
qed

end

context tick_conversion
begin

lemma up_good_iff:
  assumes wf: "schedule_wf rs" and n: "n < length (rs_packets rs)" and inv: "walk_inv rs cfg conv n st"
    and d: "d \<in> set (packet_ups (rs_intents rs) (rs_packets rs ! n))"
  shows "up_good cfg t st d \<longleftrightarrow>
    (\<forall>i < n. \<forall>c \<in> set (packet_downs (rs_intents rs) (rs_packets rs ! i)). \<forall>ti.
       intent_gen d \<noteq> None \<and> intent_gen c = intent_gen d \<and>
       conv (cp_scheduled_us (rs_packets rs ! i)) = Some ti \<longrightarrow>
       timeline_nat ti + duration_nat (tc_effective_min_hold_ticks cfg) \<le> timeline_nat t)"
proof -
  obtain op where op: "step_ok op (packet_ups (rs_intents rs) (rs_packets rs ! n), packet_downs (rs_intents rs) (rs_packets rs ! n))"
    "\<forall>s < MAX_KEYS. map_option oh_generation_id (vs_open_by_slot st ! s) = op s"
    using walk_inv_op [OF wf n inv] by blast
  have s: "intent_slot d < MAX_KEYS" using packet_registered(2) [OF wf n] d by blast
  have gen: "intent_gen d = map_option oh_generation_id (vs_open_by_slot st ! intent_slot d)"
    using op d s by (simp add: step_ok_def)
  show ?thesis
  proof (cases "vs_open_by_slot st ! intent_slot d")
    case None
    then show ?thesis using gen by (simp add: up_good_def)
  next
    case (Some oh)
    then obtain i c where i: "i < n" and c: "c \<in> set (packet_downs (rs_intents rs) (rs_packets rs ! i))"
        "intent_gen c = Some (oh_generation_id oh)"
      and ti: "conv (cp_scheduled_us (rs_packets rs ! i)) = Some (oh_down_scheduled_ticks oh)"
      using inv s unfolding walk_inv_def by metis
    have uniq: "i' = i" if "i' < n" "c' \<in> set (packet_downs (rs_intents rs) (rs_packets rs ! i'))"
      "intent_gen c' = Some (oh_generation_id oh)" for i' c'
      by (rule down_packet_unique [OF wf _ _ that(2,3) c]) (use that(1) i n in simp_all)
    have g: "intent_gen d = Some (oh_generation_id oh)" using gen Some by simp
    have good: "up_good cfg t st d \<longleftrightarrow> timeline_nat (oh_down_scheduled_ticks oh) +
        duration_nat (tc_effective_min_hold_ticks cfg) \<le> timeline_nat t"
      using Some by (simp add: up_good_def)
    show ?thesis unfolding good g
    proof (intro iffI allI impI ballI, elim conjE)
      fix i' c' ti
      assume "timeline_nat (oh_down_scheduled_ticks oh) + duration_nat (tc_effective_min_hold_ticks cfg)
          \<le> timeline_nat t"
        and "i' < n" "c' \<in> set (packet_downs (rs_intents rs) (rs_packets rs ! i'))"
        "intent_gen c' = Some (oh_generation_id oh)" "conv (cp_scheduled_us (rs_packets rs ! i')) = Some ti"
      then show "timeline_nat ti + duration_nat (tc_effective_min_hold_ticks cfg) \<le> timeline_nat t"
        using uniq [of i' c'] ti by simp
    qed (use i c ti in blast)
  qed
qed

lemma release_before:
  assumes wf: "schedule_wf rs" and n: "n < length (rs_packets rs)" and inv: "walk_inv rs cfg conv n st"
    and t: "conv (cp_scheduled_us (rs_packets rs ! n)) = Some t"
    and r: "s < MAX_KEYS" "tc_min_release_gap_us cfg > 0" "release_of st s = Some r"
  shows "r \<le> t"
proof -
  obtain j where "j < n" "conv (cp_scheduled_us (rs_packets rs ! j)) = Some r"
    using inv r unfolding walk_inv_def by metis
  then show ?thesis using wf_packet(3) [OF wf n] t by (blast intro: conv_mono order.strict_implies_order)
qed

lemma down_good_iff:
  assumes wf: "schedule_wf rs" and n: "n < length (rs_packets rs)" and inv: "walk_inv rs cfg conv n st"
    and t: "conv (cp_scheduled_us (rs_packets rs ! n)) = Some t"
    and post: "up_post cfg t st (packet_ups (rs_intents rs) (rs_packets rs ! n)) st1"
    and c: "c \<in> set (packet_downs (rs_intents rs) (rs_packets rs ! n))"
  shows "down_good cfg t st1 c \<longleftrightarrow> (tc_min_release_gap_us cfg > 0 \<longrightarrow>
    (\<forall>j < n. \<forall>d \<in> set (packet_ups (rs_intents rs) (rs_packets rs ! j)). \<forall>tj.
       intent_gen d \<noteq> None \<and> intent_slot d = intent_slot c \<and>
       conv (cp_scheduled_us (rs_packets rs ! j)) = Some tj \<longrightarrow>
       timeline_nat tj + duration_nat (tc_min_release_gap_ticks cfg) \<le> timeline_nat t))"
    (is "?good \<longleftrightarrow> (?gap \<longrightarrow> ?all)")
proof -
  let ?g = "duration_nat (tc_min_release_gap_ticks cfg)"
  obtain op where op: "step_ok op (packet_ups (rs_intents rs) (rs_packets rs ! n), packet_downs (rs_intents rs) (rs_packets rs ! n))"
    using walk_inv_op [OF wf n inv] by blast
  have s: "intent_slot c < MAX_KEYS" using packet_registered(2) [OF wf n] c by blast
  have "\<not> (\<exists>d \<in> set (packet_ups (rs_intents rs) (rs_packets rs ! n)). intent_slot d = intent_slot c \<and> intent_gen d \<noteq> None)"
    using op c by (auto simp: step_ok_def)
  then have same: "release_of st1 (intent_slot c) = release_of st (intent_slot c)"
    using post by (auto simp: up_post_def)
  show ?thesis
  proof (cases ?gap)
    case False
    then show ?thesis by (simp add: down_good_def split: option.splits)
  next
    case gap: True
    show ?thesis
    proof (cases "release_of st (intent_slot c)")
      case None
      have "?all"
      proof (intro allI impI ballI, elim conjE)
        fix j d tj
        assume "j < n" "d \<in> set (packet_ups (rs_intents rs) (rs_packets rs ! j))" "intent_gen d \<noteq> None"
          "intent_slot d = intent_slot c"
        then have "release_of st (intent_slot c) \<noteq> None" using inv gap unfolding walk_inv_def by fastforce
        then show "timeline_nat tj + ?g \<le> timeline_nat t" using None by simp
      qed
      then show ?thesis using same None by (simp add: down_good_def)
    next
      case (Some r)
      have rt: "timeline_nat r \<le> timeline_nat t"
        using release_before [OF wf n inv t s gap Some] by (simp add: timeline.val_le)
      have "?good \<longleftrightarrow> timeline_nat r + ?g \<le> timeline_nat t"
        using same Some gap rt by (auto simp: down_good_def)
      moreover have "?all \<longleftrightarrow> timeline_nat r + ?g \<le> timeline_nat t"
      proof
        assume ?all
        then show "timeline_nat r + ?g \<le> timeline_nat t" using inv gap s Some unfolding walk_inv_def by metis
      next
        assume le: "timeline_nat r + ?g \<le> timeline_nat t"
        show ?all
        proof (intro allI impI ballI, elim conjE)
          fix j d tj
          assume j: "j < n" "d \<in> set (packet_ups (rs_intents rs) (rs_packets rs ! j))" "intent_gen d \<noteq> None"
            "intent_slot d = intent_slot c" "conv (cp_scheduled_us (rs_packets rs ! j)) = Some tj"
          then have "tj \<le> r" using inv gap Some unfolding walk_inv_def by (metis option.inject)
          then show "timeline_nat tj + ?g \<le> timeline_nat t" using le by (simp add: timeline.val_le)
        qed
      qed
      ultimately show ?thesis using gap by blast
    qed
  qed
qed

lemma validate_step:
  assumes wf: "schedule_wf rs" and n: "n < length (rs_packets rs)" and inv: "walk_inv rs cfg conv n st"
  shows "if packet_feasible rs cfg conv n
    then \<exists>st'. validate_packet cfg conv rs (n, rs_packets rs ! n) st = Inr st' \<and> walk_inv rs cfg conv (Suc n) st'
    else \<exists>e. validate_packet cfg conv rs (n, rs_packets rs ! n) st = Inl (Err e) \<and> timing_error e"
proof (cases "conv (cp_scheduled_us (rs_packets rs ! n))")
  case None
  then show ?thesis using validate_packet_unfold(1) [OF wf_packet(1) [OF wf n]] by (simp add: packet_feasible_def)
next
  case (Some t)
  let ?p = "rs_packets rs ! n" and ?reg = "rs_key_registry rs"
  let ?ups = "packet_ups (rs_intents rs) ?p" and ?downs = "packet_downs (rs_intents rs) ?p"
  let ?pairs = "kind_pairs (rs_intents rs) (packet_batches (rs_batches rs) ?p)"
  note unf = validate_packet_unfold [OF wf_packet(1) [OF wf n]]
  note run = unf(2) [where conv = conv, OF Some]
  obtain op where op: "replay (take n (packet_trace (rs_intents rs) (rs_packets rs))) (\<lambda>_. None) = Some op"
    "step_ok op (?ups, ?downs)" "\<forall>s < MAX_KEYS. map_option oh_generation_id (vs_open_by_slot st ! s) = op s"
    using walk_inv_op [OF wf n inv] by blast
  have reg: "registry_wf ?reg" and tabs: "tables_ok st"
    using wf_packet(2) [OF wf n] inv by (simp_all add: walk_inv_def)
  have slots: "registered ?reg c" "intent_slot c < MAX_KEYS" if "c \<in> set ?ups \<union> set ?downs" for c
    using packet_registered [OF wf n that] by auto
  have ups: "\<forall>c \<in> set (map snd (?pairs Up)). registered ?reg c \<and>
      intent_gen c = map_option oh_generation_id (vs_open_by_slot st ! intent_slot c)"
    unfolding unf(3) using op slots by (simp add: step_ok_def)
  have upd: "distinct (map intent_slot (map snd (?pairs Up)))" "distinct (map intent_slot (map snd (?pairs Down)))"
    unfolding unf(3,4) using op(2) by (simp_all add: step_ok_def)
  note U = validate_ups [OF tabs reg ups upd(1), of cfg t n, unfolded unf(3)]
  have feas: "packet_feasible rs cfg conv n \<longleftrightarrow> (\<forall>d \<in> set ?ups. up_good cfg t st d) \<and>
      (\<forall>c \<in> set ?downs. down_good cfg t st1 c)" if "up_post cfg t st ?ups st1" for st1
    unfolding packet_feasible_def using up_good_iff [OF wf n inv] down_good_iff [OF wf n inv Some that] Some
    by auto
  show ?thesis
  proof (cases "\<forall>d \<in> set ?ups. up_good cfg t st d")
    case False
    then have "\<not> packet_feasible rs cfg conv n"
      unfolding packet_feasible_def using up_good_iff [OF wf n inv] Some by auto
    then show ?thesis using U False run by auto
  next
    case True
    then obtain st1 where st1: "run_intents cfg ?reg n Up t (?pairs Up) st = Inr st1" "up_post cfg t st ?ups st1"
      using U by auto
    have "\<forall>c \<in> set (map snd (?pairs Down)). registered ?reg c \<and> intent_gen c \<noteq> None \<and>
        vs_open_by_slot st1 ! intent_slot c = None"
    proof
      fix c assume "c \<in> set (map snd (?pairs Down))"
      then have c: "c \<in> set ?downs" by (simp only: unf(4))
      then have "op (intent_slot c) = None" "intent_gen c \<noteq> None" "intent_slot c < MAX_KEYS"
        using op(2) slots(2) by (auto simp: step_ok_def)
      then show "registered ?reg c \<and> intent_gen c \<noteq> None \<and> vs_open_by_slot st1 ! intent_slot c = None"
        using op(3) st1(2) c slots(1) by (auto simp: up_post_def)
    qed
    note D = validate_downs [OF _ reg this upd(2), of cfg t n, unfolded unf(4)]
    have D: "if \<forall>c \<in> set ?downs. down_good cfg t st1 c
      then \<exists>st'. run_intents cfg ?reg n Down t (?pairs Down) st1 = Inr st' \<and> down_post t st1 ?downs st'
      else \<exists>e. run_intents cfg ?reg n Down t (?pairs Down) st1 = Inl (Err e) \<and> timing_error e"
      using D st1(2) by (simp add: up_post_def)
    show ?thesis
    proof (cases "\<forall>c \<in> set ?downs. down_good cfg t st1 c")
      case False
      then show ?thesis using D st1 run feas [OF st1(2)] by auto
    next
      case all: True
      then obtain st' where st': "run_intents cfg ?reg n Down t (?pairs Down) st1 = Inr st'"
        "down_post t st1 ?downs st'" using D by auto
      have "walk_inv rs cfg conv (Suc n) st'"
        by (rule walk_inv_step [OF wf n inv op Some st1(2) st'(2)]) (use slots in auto)
      then show ?thesis using feas [OF st1(2)] True all run st1(1) st'(1) by auto
    qed
  qed
qed

lemma validate_walk:
  assumes wf: "schedule_wf rs" and n: "n \<le> length (rs_packets rs)"
  shows "if \<forall>i < n. packet_feasible rs cfg conv i
    then \<exists>st. rfold (validate_packet cfg conv rs) (take n (enumerate 0 (rs_packets rs))) validation_state_new = Inr st \<and>
      walk_inv rs cfg conv n st
    else \<exists>e. rfold (validate_packet cfg conv rs) (take n (enumerate 0 (rs_packets rs))) validation_state_new = Inl (Err e) \<and>
      timing_error e"
  using n
proof (induction n)
  case 0
  then show ?case by (simp add: walk_inv_start)
next
  case (Suc n)
  let ?xs = "enumerate 0 (rs_packets rs)" and ?f = "validate_packet cfg conv rs"
  have take: "take (Suc n) ?xs = take n ?xs @ [(n, rs_packets rs ! n)]"
    using Suc.prems by (simp add: take_Suc_conv_app_nth nth_enumerate_eq)
  have run: "rfold ?f (take (Suc n) ?xs) validation_state_new
      = rbind (rfold ?f (take n ?xs) validation_state_new) (?f (n, rs_packets rs ! n))"
    unfolding take rfold_append by (auto simp: rbind_def split: sum.splits)
  show ?case
  proof (cases "\<forall>i < n. packet_feasible rs cfg conv i")
    case True
    then obtain st where st: "rfold ?f (take n ?xs) validation_state_new = Inr st" "walk_inv rs cfg conv n st"
      using Suc by auto
    then show ?thesis
      using validate_step [OF wf _ st(2)] Suc.prems True run by (auto simp: less_Suc_eq split: if_splits)
  next
    case False
    then obtain e where "rfold ?f (take n ?xs) validation_state_new = Inl (Err e)" "timing_error e"
      using Suc.IH [OF Suc_leD [OF Suc.prems]] by (auto simp only: if_False)
    moreover have "\<not> (\<forall>i < Suc n. packet_feasible rs cfg conv i)" using False less_SucI by blast
    ultimately show ?thesis unfolding run by simp
  qed
qed

theorem validate_feasibility_spec:
  assumes wf: "schedule_wf rs"
  shows "if feasible rs cfg conv \<and> \<not> last_overflows rs cfg
    then validate_feasibility rs cfg conv = Inr ()
    else \<exists>e. validate_feasibility rs cfg conv = Inl (Err e) \<and> timing_error e"
proof (cases "last_overflows rs cfg")
  case True
  then show ?thesis by (simp add: validate_feasibility_def last_overflows_def Let_def)
next
  case False
  then have pre: "ok_or (checked_add (if rs_batches rs = [] then 0 else cb_scheduled_us (last (rs_batches rs)))
      (tc_effective_min_hold_us cfg)) (Err TimestampOverflow) \<noteq> Inl x" for x :: "schedule_timing_error failure"
    by (auto simp: last_overflows_def result_simps)
  note W = validate_walk [OF wf order_refl, of cfg]
  show ?thesis
  proof (cases "feasible rs cfg conv")
    case True
    then obtain st where st: "rfold (validate_packet cfg conv rs) (enumerate 0 (rs_packets rs)) validation_state_new = Inr st"
      "walk_inv rs cfg conv (length (rs_packets rs)) st"
      using W by (auto simp: feasible_def)
    have "replay (packet_trace (rs_intents rs) (rs_packets rs)) (\<lambda>_. None) = Some (\<lambda>_. None)"
      by (rule schedule_trace(1) [OF wf])
    then have "\<forall>s < MAX_KEYS. vs_open_by_slot st ! s = None" "length (vs_open_by_slot st) = MAX_KEYS"
      using st(2) by (auto simp: walk_inv_def packet_trace_def tables_ok_def)
    then have "\<forall>x \<in> set (vs_open_by_slot st). x = None" by (auto simp: in_set_conv_nth)
    then have "List.map_filter (\<lambda>x. x) (vs_open_by_slot st) = []"
      by (induction "vs_open_by_slot st") (auto simp: List.map_filter_def)
    then show ?thesis
      using True False st(1) pre
      by (cases "ok_or (checked_add (if rs_batches rs = [] then 0 else cb_scheduled_us (last (rs_batches rs)))
        (tc_effective_min_hold_us cfg)) (Err TimestampOverflow) :: schedule_timing_error failure + u64")
        (auto simp: validate_feasibility_def Let_def)
  next
    case F: False
    then obtain e where "rfold (validate_packet cfg conv rs) (enumerate 0 (rs_packets rs)) validation_state_new = Inl (Err e)"
      "timing_error e" using W unfolding feasible_def by (auto simp only: if_False length_enumerate take_all)
    then show ?thesis
      using F pre
      by (cases "ok_or (checked_add (if rs_batches rs = [] then 0 else cb_scheduled_us (last (rs_batches rs)))
        (tc_effective_min_hold_us cfg)) (Err TimestampOverflow) :: schedule_timing_error failure + u64")
        (auto simp: validate_feasibility_def Let_def)
  qed
qed

end

section \<open>Properties\<close>

definition timing_config_of :: "u64 \<Rightarrow> duration_ticks \<Rightarrow> u64 \<Rightarrow> duration_ticks \<Rightarrow> timing_config" where
  "timing_config_of hold_us hold_ticks gap_us gap_ticks =
     \<lparr>tc_effective_min_hold_us = hold_us, tc_effective_min_hold_ticks = hold_ticks,
      tc_min_release_gap_us = gap_us, tc_min_release_gap_ticks = gap_ticks\<rparr>"

lemma validate_config:
  "validate_min_hold_and_release_gap_feasibility_ticks rs h ht g gt conv
     = validate_feasibility rs (timing_config_of h ht g gt) conv"
  by (simp add: validate_min_hold_and_release_gap_feasibility_ticks_def timing_config_of_def)

lemma compile_wf: "compile_runtime_intents actions codes = Inr rs \<Longrightarrow> schedule_wf rs"
  using compile_safe by (rule safe_Inr)

lemma admitted_feasible:
  assumes "compile_runtime_intents actions codes = Inr rs"
    and "validate_min_hold_and_release_gap_feasibility_ticks rs h ht g gt (qpc_microseconds_to_ticks c) = Inr ()"
  shows "feasible rs (timing_config_of h ht g gt) (qpc_microseconds_to_ticks c)"
  using qpc_ticks_of.validate_feasibility_spec [OF compile_wf [OF assms(1)], of "timing_config_of h ht g gt" c]
    assms(2) by (auto simp: validate_config split: if_splits)

text \<open>A key pressed twice, on a ten-megahertz clock, with a hold of 90 and a gap of 80 microseconds.\<close>

definition retrigger_actions :: "key_action_input list" where
  "retrigger_actions =
     [demo_action 0 Down 100 [30], demo_action 1 Up 200 [30], demo_action 2 Down 300 [30],
      demo_action 3 Up 400 [30]]"

definition retrigger_schedule :: runtime_schedule where
  "retrigger_schedule =
     \<lparr>rs_packets =
        [\<lparr>cp_packet_id = 0, cp_scheduled_us = 100, cp_first_batch_index = 0, cp_batch_count = 1,
          cp_up_mask = 0, cp_down_mask = 1, cp_up_intent_start = 0, cp_up_intent_len = 0,
          cp_down_intent_start = 0, cp_down_intent_len = 1, cp_down_source_action_index = Some 0\<rparr>,
         \<lparr>cp_packet_id = 1, cp_scheduled_us = 200, cp_first_batch_index = 1, cp_batch_count = 1,
          cp_up_mask = 1, cp_down_mask = 0, cp_up_intent_start = 1, cp_up_intent_len = 1,
          cp_down_intent_start = 2, cp_down_intent_len = 0, cp_down_source_action_index = None\<rparr>,
         \<lparr>cp_packet_id = 2, cp_scheduled_us = 300, cp_first_batch_index = 2, cp_batch_count = 1,
          cp_up_mask = 0, cp_down_mask = 1, cp_up_intent_start = 2, cp_up_intent_len = 0,
          cp_down_intent_start = 2, cp_down_intent_len = 1, cp_down_source_action_index = Some 2\<rparr>,
         \<lparr>cp_packet_id = 3, cp_scheduled_us = 400, cp_first_batch_index = 3, cp_batch_count = 1,
          cp_up_mask = 1, cp_down_mask = 0, cp_up_intent_start = 3, cp_up_intent_len = 1,
          cp_down_intent_start = 4, cp_down_intent_len = 0, cp_down_source_action_index = None\<rparr>],
      rs_batches =
        [\<lparr>cb_source_action_index = 0, cb_kind = Down, cb_scheduled_us = 100, cb_reason_id = 0,
          cb_intent_start = 0, cb_intent_len = 1, cb_packet_id = 0\<rparr>,
         \<lparr>cb_source_action_index = 1, cb_kind = Up, cb_scheduled_us = 200, cb_reason_id = 0,
          cb_intent_start = 1, cb_intent_len = 1, cb_packet_id = 1\<rparr>,
         \<lparr>cb_source_action_index = 2, cb_kind = Down, cb_scheduled_us = 300, cb_reason_id = 0,
          cb_intent_start = 2, cb_intent_len = 1, cb_packet_id = 2\<rparr>,
         \<lparr>cb_source_action_index = 3, cb_kind = Up, cb_scheduled_us = 400, cb_reason_id = 0,
          cb_intent_start = 3, cb_intent_len = 1, cb_packet_id = 3\<rparr>],
      rs_intents = [CompactIntent 0, CompactIntent 0, CompactIntent 16, CompactIntent 16],
      rs_generation_count = 2, rs_key_registry = \<lparr>registry_scan_codes = [30]\<rparr>,
      rs_reason_table = [''song'']\<rparr>"

definition ten_mhz :: qpc_clock where
  "ten_mhz = \<lparr>frequency_hz = 10000000\<rparr>"

lemma retrigger_compiles: "compile_runtime_intents retrigger_actions [30] = Inr retrigger_schedule"
  by code_simp

lemma retrigger_admitted:
  "validate_min_hold_and_release_gap_feasibility_ticks retrigger_schedule 90 (DurationTicks 900)
     80 (DurationTicks 800) (qpc_microseconds_to_ticks ten_mhz) = Inr ()"
  by code_simp

text \<open>C8: On a compiled schedule and a QPC clock the admission check decides exactly the
  specification: it accepts if and only if the last time plus the hold fits a \<open>u64\<close>, every packet time
  converts to ticks, every release is at least the minimum hold after its press, and, when a release
  gap is required, every press is at least the gap after each earlier release of its key.\<close>

theorem validate_accepts_iff:
  assumes "compile_runtime_intents actions codes = Inr rs"
  shows "validate_min_hold_and_release_gap_feasibility_ticks rs hold_us hold_ticks gap_us gap_ticks
      (qpc_microseconds_to_ticks c) = Inr () \<longleftrightarrow>
    feasible rs (timing_config_of hold_us hold_ticks gap_us gap_ticks) (qpc_microseconds_to_ticks c) \<and>
    \<not> last_overflows rs (timing_config_of hold_us hold_ticks gap_us gap_ticks)"
  using qpc_ticks_of.validate_feasibility_spec [OF compile_wf [OF assms],
      of "timing_config_of hold_us hold_ticks gap_us gap_ticks" c]
  by (auto simp: validate_config split: if_splits)

theorem validate_accepts_iff_witness:
  "feasible retrigger_schedule (timing_config_of 90 (DurationTicks 900) 80 (DurationTicks 800))
     (qpc_microseconds_to_ticks ten_mhz)"
  using validate_accepts_iff [OF retrigger_compiles, THEN iffD1, OF retrigger_admitted] by simp

text \<open>C28: Whatever the admission check rejects in a compiled schedule it rejects for its timing: it
  never panics and never reports a broken range, a generation mismatch or an open generation.\<close>

theorem validate_rejects_only_timing:
  assumes "compile_runtime_intents actions codes = Inr rs"
    and "validate_min_hold_and_release_gap_feasibility_ticks rs hold_us hold_ticks gap_us gap_ticks
      (qpc_microseconds_to_ticks c) = Inl failure"
  shows "\<exists>e. failure = Err e \<and> timing_error e"
  using qpc_ticks_of.validate_feasibility_spec [OF compile_wf [OF assms(1)],
      of "timing_config_of hold_us hold_ticks gap_us gap_ticks" c] assms(2)
  by (auto simp: validate_config split: if_splits)

lemma retrigger_rejected:
  "validate_min_hold_and_release_gap_feasibility_ticks retrigger_schedule 90 (DurationTicks 900)
     101 (DurationTicks 1010) (qpc_microseconds_to_ticks ten_mhz)
   = Inl (Err (SameKeyReleaseGapTooShort 30 1 2 200 300 100 101 2000 3000 1010))"
  by code_simp

theorem validate_rejects_only_timing_witness:
  "timing_error (SameKeyReleaseGapTooShort 30 1 2 200 300 100 101 2000 3000 1010)"
  using validate_rejects_only_timing [OF retrigger_compiles retrigger_rejected] by auto

text \<open>C25: End to end, for every schedule that compiles and is admitted for a QPC clock: each generation's
  release packet lies at least the minimum hold, in the clock's ticks, after its press packet.\<close>

theorem admitted_holds_long_enough:
  assumes comp: "compile_runtime_intents actions codes = Inr rs"
    and adm: "validate_min_hold_and_release_gap_feasibility_ticks rs hold_us hold_ticks gap_us gap_ticks
      (qpc_microseconds_to_ticks clk) = Inr ()"
    and g: "g < rs_generation_count rs"
  shows "\<exists>i j c d. i < j \<and> j < length (rs_packets rs) \<and>
    c \<in> set (packet_downs (rs_intents rs) (rs_packets rs ! i)) \<and> intent_gen c = Some g \<and>
    d \<in> set (packet_ups (rs_intents rs) (rs_packets rs ! j)) \<and> intent_gen d = Some g \<and>
    ceil_ticks (unat (frequency_hz clk)) (unat (cp_scheduled_us (rs_packets rs ! i))) + duration_nat hold_ticks
      \<le> ceil_ticks (unat (frequency_hz clk)) (unat (cp_scheduled_us (rs_packets rs ! j)))"
proof -
  let ?conv = "qpc_microseconds_to_ticks clk"
  obtain i j c d where *: "i < j" "j < length (rs_packets rs)"
    "c \<in> set (packet_downs (rs_intents rs) (rs_packets rs ! i))"
    "d \<in> set (packet_ups (rs_intents rs) (rs_packets rs ! j))"
    "intent_gen c = Some g" "intent_gen d = Some g"
    by (rule generation_paired [OF compile_wf [OF comp] g])
  note feas = admitted_feasible [OF comp adm]
  obtain ti where ti: "?conv (cp_scheduled_us (rs_packets rs ! i)) = Some ti"
    using feasible_time [OF feas, of i] *(1,2) by auto
  obtain tj where tj: "?conv (cp_scheduled_us (rs_packets rs ! j)) = Some tj"
    using feasible_time [OF feas *(2)] by auto
  have le: "timeline_nat ti + duration_nat hold_ticks \<le> timeline_nat tj"
    using feasible_hold [OF feas *(1-4) _ _ ti tj] *(5,6) by (simp add: timing_config_of_def)
  show ?thesis
    using * ti tj le by (intro exI [of _ i] exI [of _ j] exI [of _ c] exI [of _ d])
      (simp add: qpc_microseconds_to_ticks_ok)
qed

theorem admitted_holds_long_enough_witness:
  "\<exists>i j. i < j \<and> j < length (rs_packets retrigger_schedule) \<and>
     ceil_ticks 10000000 (unat (cp_scheduled_us (rs_packets retrigger_schedule ! i))) + 900
       \<le> ceil_ticks 10000000 (unat (cp_scheduled_us (rs_packets retrigger_schedule ! j)))"
proof -
  have "(1 :: u64) < rs_generation_count retrigger_schedule" by (simp add: retrigger_schedule_def)
  from admitted_holds_long_enough [OF retrigger_compiles retrigger_admitted this]
  show ?thesis by (auto simp: ten_mhz_def)
qed

text \<open>C26: End to end, when a release gap is required, every press in an admitted schedule lies at least
  the gap, in the clock's ticks, after every earlier physical release of the same key.\<close>

theorem admitted_release_gaps:
  assumes comp: "compile_runtime_intents actions codes = Inr rs"
    and adm: "validate_min_hold_and_release_gap_feasibility_ticks rs hold_us hold_ticks gap_us gap_ticks
      (qpc_microseconds_to_ticks clk) = Inr ()"
    and gap: "gap_us > 0" and jk: "j < k" "k < length (rs_packets rs)"
    and d: "d \<in> set (packet_ups (rs_intents rs) (rs_packets rs ! j))" "intent_gen d \<noteq> None"
    and c: "c \<in> set (packet_downs (rs_intents rs) (rs_packets rs ! k))" "intent_slot c = intent_slot d"
  shows "ceil_ticks (unat (frequency_hz clk)) (unat (cp_scheduled_us (rs_packets rs ! j))) + duration_nat gap_ticks
    \<le> ceil_ticks (unat (frequency_hz clk)) (unat (cp_scheduled_us (rs_packets rs ! k)))"
proof -
  let ?conv = "qpc_microseconds_to_ticks clk"
  note feas = admitted_feasible [OF comp adm]
  obtain tj where tj: "?conv (cp_scheduled_us (rs_packets rs ! j)) = Some tj"
    using feasible_time [OF feas, of j] jk by auto
  obtain tk where tk: "?conv (cp_scheduled_us (rs_packets rs ! k)) = Some tk"
    using feasible_time [OF feas jk(2)] by auto
  have le: "timeline_nat tj + duration_nat gap_ticks \<le> timeline_nat tk"
    using feasible_gap [OF feas _ jk d(1) c(1) d(2) _ tj tk] gap c(2) by (simp add: timing_config_of_def)
  show ?thesis using le tj tk by (simp add: qpc_microseconds_to_ticks_ok)
qed

theorem admitted_release_gaps_witness:
  "ceil_ticks 10000000 200 + 800 \<le> ceil_ticks 10000000 300"
proof -
  let ?rs = retrigger_schedule
  have "CompactIntent 0 \<in> set (packet_ups (rs_intents ?rs) (rs_packets ?rs ! 1))"
    "CompactIntent 16 \<in> set (packet_downs (rs_intents ?rs) (rs_packets ?rs ! 2))"
    "intent_gen (CompactIntent 0) \<noteq> None"
    "intent_slot (CompactIntent 16) = intent_slot (CompactIntent 0)"
    by code_simp+
  from admitted_release_gaps [OF retrigger_compiles retrigger_admitted _ _ _ this(1,3,2,4)]
  show ?thesis by (simp add: retrigger_schedule_def ten_mhz_def)
qed

end
