(* ===== verification/Sky_Playback.thy ===== *)
theory Sky_Playback
  imports Sky_Session Sky_Validation
begin

text \<open>
  Undisturbed playback of an admitted schedule: every packet is prepared at its turn, sent on time and
  committed. The abstract replay of the schedule is the specification; the coordinator tracks it, owner
  by owner, and no operation on this path fails. This is where the guarantees of the admission check
  meet the run-time checks of the coordinator: a release that was admitted is never deferred and a
  press that was compiled never finds its key occupied.
\<close>

section \<open>A coordinator that tracks the replay\<close>

text \<open>The hold floor a press leaves: the ticks of its packet plus the hold.\<close>

definition held ::
  "runtime_schedule \<Rightarrow> timeline_ticks list \<Rightarrow> duration_ticks \<Rightarrow> generation_id \<Rightarrow> timeline_ticks \<Rightarrow> bool" where
  "held rs T h g r \<longleftrightarrow> (\<exists>m < length (rs_packets rs). \<exists>c \<in> set (packet_downs (rs_intents rs) (rs_packets rs ! m)).
     intent_gen c = Some g \<and>
     timeline_nat r = timeline_nat (T ! unat (cp_first_batch_index (rs_packets rs ! m))) + duration_nat h)"

definition tracks ::
  "runtime_schedule \<Rightarrow> timeline_ticks list \<Rightarrow> duration_ticks \<Rightarrow> open_table \<Rightarrow> generation_id set \<Rightarrow> coordinator \<Rightarrow> bool" where
  "tracks rs T h op sch c \<longleftrightarrow>
     coord_inv c \<and> derived rs c \<and> dc_schedule c = rs \<and> dc_batch_scheduled_ticks c = T \<and> dc_min_hold_ticks c = h \<and>
     (\<forall>s < MAX_KEYS. pend c s = None \<and> tok c s = None) \<and>
     (\<forall>s < MAX_KEYS. map_option ag_generation_id (act c s) = op s) \<and>
     (\<forall>s < MAX_KEYS. \<forall>a. act c s = Some a \<longrightarrow> held rs T h (ag_generation_id a) (ag_release_not_before_ticks a)) \<and>
     (\<forall>g. unat g < total_of c \<longrightarrow>
        (if g \<in> sch then has_status c g Scheduled else has_status c g Active \<or> has_status c g Released))"

lemma tracksD:
  assumes "tracks rs T h op sch c"
  shows "coord_inv c" "derived rs c" "dc_schedule c = rs" "dc_batch_scheduled_ticks c = T" "dc_min_hold_ticks c = h"
    and "s < MAX_KEYS \<Longrightarrow> pend c s = None" "s < MAX_KEYS \<Longrightarrow> tok c s = None"
    and "s < MAX_KEYS \<Longrightarrow> map_option ag_generation_id (act c s) = op s"
    and "s < MAX_KEYS \<Longrightarrow> act c s = Some a \<Longrightarrow> held rs T h (ag_generation_id a) (ag_release_not_before_ticks a)"
    and "unat g < total_of c \<Longrightarrow> g \<in> sch \<Longrightarrow> has_status c g Scheduled"
    and "unat g < total_of c \<Longrightarrow> g \<notin> sch \<Longrightarrow> has_status c g Active \<or> has_status c g Released"
  using assms unfolding tracks_def by (auto split: if_splits)

lemma tracks_owner:
  assumes "tracks rs T h op sch c" and "s < MAX_KEYS" and "op s = Some g"
  obtains a where "act c s = Some a" "ag_generation_id a = g" "ag_key_slot a = word_of_nat s" "has_status c g Active"
proof -
  obtain a where a: "act c s = Some a" "ag_generation_id a = g"
    using tracksD(8) [OF assms(1,2)] assms(3) by (cases "act c s") auto
  then show ?thesis using that owner_entry(1,2) [OF coord_invD(5) [OF tracksD(1) [OF assms(1)]] assms(2) a(1)] by blast
qed

lemma tracks_update:
  assumes "tracks rs T h op sch c" and "coord_inv c'" and "same_source c c'"
    and "dc_pending_release_by_slot c' = dc_pending_release_by_slot c" "dc_cancelled_up_by_slot c' = dc_cancelled_up_by_slot c"
    and "\<And>s. s < MAX_KEYS \<Longrightarrow> map_option ag_generation_id (act c' s) = op' s"
    and "\<And>s a. s < MAX_KEYS \<Longrightarrow> act c' s = Some a \<Longrightarrow> held rs T h (ag_generation_id a) (ag_release_not_before_ticks a)"
    and "\<And>g. unat g < total_of c \<Longrightarrow>
        if g \<in> sch' then has_status c' g Scheduled else has_status c' g Active \<or> has_status c' g Released"
  shows "tracks rs T h op' sch' c'"
  using assms derived_authored [OF _ same_source_authored [OF assms(3)]]
  unfolding tracks_def by (auto simp: same_source_def)

subsection \<open>One release\<close>

lemma tracks_release:
  assumes K: "tracks rs T h op sch c" and s: "unat (identity_key_slot t) < MAX_KEYS"
    and g: "op (unat (identity_key_slot t)) = Some (identity_generation_id t)" and nsch: "identity_generation_id t \<notin> sch"
    and due: "\<And>r. held rs T h (identity_generation_id t) r \<Longrightarrow> r \<le> started"
  shows "\<exists>c'. commit_immediate_up t started c = (Inr (), c') \<and> dc_cursor c' = dc_cursor c \<and>
    tracks rs T h (op(unat (identity_key_slot t) := None)) sch c'"
proof -
  let ?s = "unat (identity_key_slot t)" and ?g = "identity_generation_id t"
  note inv = tracksD(1) [OF K]
  obtain a where a: "act c ?s = Some a" "ag_generation_id a = ?g" "has_status c ?g Active"
    by (rule tracks_owner [OF K s g])
  have floor: "\<not> started < ag_release_not_before_ticks a" using due tracksD(9) [OF K s a(1)] a(2) by (simp add: not_less)
  obtain k n where run: "transition_generation ?g Active Released c = (Inr (), transitioned c ?g Released k n)"
    and led: "ledger_base (transitioned c ?g Released k n)" and n: "unat n = unat (dc_activated_generation_count c)"
    using transition_ledger [OF coord_invD(1) [OF inv] a(3), of Released] by (auto simp: can_transition_to_def activates_def)
  let ?t = "transitioned c ?g Released k n"
  let ?c = "disowned ?s ?t"
  have len: "length (dc_active_by_slot c) = MAX_KEYS" using coord_invD(5) [OF inv] by simp
  have "unpended ?s ?c = ?c"
    using tracksD(6) [OF K s] pending_mask [OF coord_invD(6) [OF inv]] by (intro unpended_id) (simp_all add: disowned_def)
  then have inv': "coord_inv ?c" using released_inv [OF inv s a(1,2) led n] by simp
  have exec: "commit_immediate_up t started c = (Inr (), ?c)"
    using slot_lookup(1) [OF inv s] a floor run len s
    by (simp add: commit_immediate_up_def Let_def sbind_apply disown_slot_eq)
  have acts: "act ?c s' = (if s' = ?s then None else act c s')" if "s' < MAX_KEYS" for s'
    using that len by (auto simp: disowned_def nth_update_if)
  have st: "has_status ?c g' x \<longleftrightarrow> (if g' = ?g then x = Released else has_status c g' x)" for g' x
    using a(3) has_status_transitioned [of c ?g Released k n g' x] by (auto simp: has_status_def disowned_def)
  have "tracks rs T h (op(?s := None)) sch ?c"
  proof (rule tracks_update [OF K inv'])
    show "same_source c ?c" by (simp add: same_source_def disowned_def)
    show "map_option ag_generation_id (act ?c s') = (op(?s := None)) s'" if "s' < MAX_KEYS" for s'
      using tracksD(8) [OF K that] acts [OF that] by simp
    show "held rs T h (ag_generation_id b) (ag_release_not_before_ticks b)" if "s' < MAX_KEYS" "act ?c s' = Some b" for s' b
      using tracksD(9) [OF K that(1)] acts [OF that(1)] that(2) by (auto split: if_splits)
    show "if g' \<in> sch then has_status ?c g' Scheduled else has_status ?c g' Active \<or> has_status ?c g' Released"
      if "unat g' < total_of c" for g'
      using tracksD(10,11) [OF K that] nsch by (simp add: st)
  qed (simp_all add: disowned_def)
  then show ?thesis using exec by (intro exI [of _ ?c]) (simp add: disowned_def)
qed

subsection \<open>One press\<close>

lemma tracks_press:
  assumes K: "tracks rs T h op sch c" and s: "unat (pd_key_slot d) < MAX_KEYS"
    and g: "down_generation_id d \<in> sch" "down_generation_id d \<noteq> NO_GENERATION_ID" "unat (down_generation_id d) < total_of c"
    and free: "op (unat (pd_key_slot d)) = None"
    and loc: "located c (down_generation_id d) p i (unat (pd_key_slot d))" and r: "held rs T h (down_generation_id d) r"
  shows "\<exists>c'. commit_sent_down src r d c = (Inr (), c') \<and> dc_cursor c' = dc_cursor c \<and>
    tracks rs T h (op(unat (pd_key_slot d) := Some (down_generation_id d))) (sch - {down_generation_id d}) c'"
proof -
  let ?s = "unat (pd_key_slot d)" and ?g = "down_generation_id d"
  note inv = tracksD(1) [OF K]
  have st: "has_status c ?g Scheduled" by (rule tracksD(10) [OF K g(3,1)])
  have none: "act c ?s = None" using tracksD(8) [OF K s] free by simp
  obtain k n where run: "transition_generation ?g Scheduled Active c = (Inr (), transitioned c ?g Active k n)"
    and led: "ledger_base (transitioned c ?g Active k n)" and n: "unat n = unat (dc_activated_generation_count c) + 1"
    using transition_ledger [OF coord_invD(1) [OF inv] st, of Active] by (auto simp: can_transition_to_def activates_def)
  define a where "a = \<lparr>ag_generation_id = ?g, ag_scan_code = pd_scan_code d, ag_key_slot = pd_key_slot d,
    ag_source_action_index = (case src of Some i \<Rightarrow> i | None \<Rightarrow> 0), ag_release_not_before_ticks = r\<rparr>"
  let ?c = "owned ?s a (transitioned c ?g Active k n)"
  have len: "length (dc_active_by_slot c) = MAX_KEYS" using coord_invD(5) [OF inv] by simp
  have inv': "coord_inv ?c"
    using activated_inv [OF inv st loc none tracksD(7) [OF K s] _ _ led n, of a] s by (simp add: a_def slot_word_eq)
  have exec: "commit_sent_down src r d c = (Inr (), ?c)"
    using slot_occupied_eq [OF inv s] none g(2) run len s
    by (simp add: commit_sent_down_def Let_def sbind_apply own_slot_eq a_def)
  have acts: "act ?c s' = (if s' = ?s then Some a else act c s')" if "s' < MAX_KEYS" for s'
    using that len s by (auto simp: owned_def nth_update_if)
  have sts: "has_status ?c g' x \<longleftrightarrow> (if g' = ?g then x = Active else has_status c g' x)" for g' x
    using st has_status_transitioned [of c ?g Active k n g' x] by (auto simp: has_status_def owned_def)
  have "tracks rs T h (op(?s := Some ?g)) (sch - {?g}) ?c"
  proof (rule tracks_update [OF K inv'])
    show "same_source c ?c" by (simp add: same_source_def owned_def)
    show "map_option ag_generation_id (act ?c s') = (op(?s := Some ?g)) s'" if "s' < MAX_KEYS" for s'
      using tracksD(8) [OF K that] acts [OF that] by (simp add: a_def)
    show "held rs T h (ag_generation_id b) (ag_release_not_before_ticks b)" if "s' < MAX_KEYS" "act ?c s' = Some b" for s' b
      using tracksD(9) [OF K that(1)] acts [OF that(1)] that(2) r by (auto simp: a_def split: if_splits)
    show "if g' \<in> sch - {?g} then has_status ?c g' Scheduled else has_status ?c g' Active \<or> has_status ?c g' Released"
      if "unat g' < total_of c" for g'
      using tracksD(10,11) [OF K that] by (simp add: sts)
  qed (simp_all add: owned_def)
  then show ?thesis using exec by (intro exI [of _ ?c]) (simp add: owned_def)
qed

subsection \<open>All releases and presses of a packet\<close>

definition releasable ::
  "runtime_schedule \<Rightarrow> timeline_ticks list \<Rightarrow> duration_ticks \<Rightarrow> generation_id set \<Rightarrow> prepared_authored_frame \<Rightarrow>
   timeline_ticks \<Rightarrow> prepared_up_intent \<Rightarrow> bool" where
  "releasable rs T h sch f started u \<longleftrightarrow>
     (let t = pu_identity u in
      unat (identity_key_slot t) < MAX_KEYS \<and> identity_generation_id t \<notin> sch \<and> identity_generation_id t \<noteq> NO_GENERATION_ID \<and>
      identity_generation_id t = compact_generation_id (pu_intent u) \<and> identity_key_slot t = compact_key_slot (pu_intent u) \<and>
      identity_packet_index t = pf_packet_index f \<and> bit (pf_immediate_up_mask f) (unat (identity_key_slot t)) \<and>
      (\<forall>r. held rs T h (identity_generation_id t) r \<longrightarrow> r \<le> started))"

lemma distinct_head: "distinct (map f (x # xs)) \<Longrightarrow> y \<in> set xs \<Longrightarrow> f y \<noteq> f x"
  by (metis distinct.simps(2) image_eqI list.set_map list.simps(9))

definition up_slot :: "prepared_up_intent \<Rightarrow> nat" where
  "up_slot u = unat (identity_key_slot (pu_identity u))"

lemma tracks_releases:
  assumes "tracks rs T h op sch c" and "\<forall>u \<in> set us. releasable rs T h sch f started u"
    and "distinct (map up_slot us)" and "\<forall>u \<in> set us. op (up_slot u) = Some (identity_generation_id (pu_identity u))"
  shows "\<exists>c'. sfor us (commit_prepared_up f started) c = (Inr (), c') \<and> dc_cursor c' = dc_cursor c \<and>
    tracks rs T h (op |` (- set (map up_slot us))) sch c'"
  using assms
proof (induction us arbitrary: op c)
  case (Cons u us)
  let ?t = "pu_identity u"
  have u: "releasable rs T h sch f started u" using Cons.prems(2) by simp
  have bit: "pf_immediate_up_mask f AND bit_for_slot (identity_key_slot ?t) \<noteq> 0"
    using u by (auto simp: releasable_def Let_def and_bit_for_slot_eq_0 MAX_KEYS_def)
  obtain c1 where c1: "commit_immediate_up ?t started c = (Inr (), c1)" "dc_cursor c1 = dc_cursor c"
    "tracks rs T h (op(up_slot u := None)) sch c1"
    using tracks_release [OF Cons.prems(1), of ?t started] u Cons.prems(4)
    by (auto simp: releasable_def Let_def up_slot_def)
  have run: "commit_prepared_up f started u c = (Inr (), c1)"
    using u c1(1) bit by (auto simp: commit_prepared_up_def Let_def releasable_def)
  have "\<exists>c'. sfor us (commit_prepared_up f started) c1 = (Inr (), c') \<and> dc_cursor c' = dc_cursor c1 \<and>
      tracks rs T h ((op(up_slot u := None)) |` (- set (map up_slot us))) sch c'"
    using Cons.prems distinct_head [OF Cons.prems(3)] by (intro Cons.IH c1(3)) auto
  moreover have "(op(up_slot u := None)) |` (- set (map up_slot us)) = op |` (- set (map up_slot (u # us)))"
    by (auto simp: restrict_map_def)
  ultimately show ?case using run c1(2) by (auto simp: sbind_apply)
qed (simp add: restrict_map_def)

definition pressable ::
  "runtime_schedule \<Rightarrow> timeline_ticks list \<Rightarrow> duration_ticks \<Rightarrow> coordinator \<Rightarrow> timeline_ticks \<Rightarrow> prepared_down_intent \<Rightarrow> bool" where
  "pressable rs T h c r d \<longleftrightarrow>
     unat (pd_key_slot d) < MAX_KEYS \<and> down_generation_id d \<noteq> NO_GENERATION_ID \<and> unat (down_generation_id d) < total_of c \<and>
     (\<exists>p i. located c (down_generation_id d) p i (unat (pd_key_slot d))) \<and> held rs T h (down_generation_id d) r"

lemma pressable_derived:
  assumes "derived rs c" and "derived rs c'" shows "pressable rs T h c' r d \<longleftrightarrow> pressable rs T h c r d"
  using derived_located [OF assms(1)] derived_located [OF assms(2)] derived_lengths(5) [OF assms(1)] derived_lengths(5) [OF assms(2)]
  by (simp add: pressable_def)

lemma tracks_presses:
  assumes "tracks rs T h op sch c" and "\<forall>d \<in> set ds. pressable rs T h c r d"
    and "distinct (map (unat \<circ> pd_key_slot) ds)" and "distinct (map down_generation_id ds)"
    and "\<forall>d \<in> set ds. op (unat (pd_key_slot d)) = None \<and> down_generation_id d \<in> sch"
  shows "\<exists>c'. sfor ds (commit_sent_down src r) c = (Inr (), c') \<and> dc_cursor c' = dc_cursor c \<and>
    tracks rs T h (op ++ map_of (map (\<lambda>d. (unat (pd_key_slot d), down_generation_id d)) ds)) (sch - down_generation_id ` set ds) c'"
  using assms
proof (induction ds arbitrary: op sch c)
  case (Cons d ds)
  have d: "pressable rs T h c r d" using Cons.prems(2) by simp
  then obtain p i where loc: "located c (down_generation_id d) p i (unat (pd_key_slot d))" by (auto simp: pressable_def)
  obtain c1 where c1: "commit_sent_down src r d c = (Inr (), c1)" "dc_cursor c1 = dc_cursor c"
    "tracks rs T h (op(unat (pd_key_slot d) := Some (down_generation_id d))) (sch - {down_generation_id d}) c1"
    using tracks_press [OF Cons.prems(1) _ _ _ _ _ loc, of r src] d Cons.prems(5) by (auto simp: pressable_def)
  let ?m = "map_of (map (\<lambda>d. (unat (pd_key_slot d), down_generation_id d)) ds)"
  have new: "unat (pd_key_slot d) \<notin> dom ?m" using Cons.prems(3) by (auto simp: dom_map_of_conv_image_fst image_image)
  have ne: "pd_key_slot e \<noteq> pd_key_slot d \<and> down_generation_id e \<noteq> down_generation_id d" if "e \<in> set ds" for e
    using distinct_head [OF Cons.prems(3) that] distinct_head [OF Cons.prems(4) that] by auto
  have m: "(op(unat (pd_key_slot d) := Some (down_generation_id d))) ++ ?m
      = op ++ map_of (map (\<lambda>d. (unat (pd_key_slot d), down_generation_id d)) (d # ds))"
    using map_add_upd_left [OF new] by simp
  have rest: "sch - {down_generation_id d} - down_generation_id ` set ds = sch - down_generation_id ` set (d # ds)" by auto
  have "\<exists>c'. sfor ds (commit_sent_down src r) c1 = (Inr (), c') \<and> dc_cursor c' = dc_cursor c1 \<and>
      tracks rs T h ((op(unat (pd_key_slot d) := Some (down_generation_id d))) ++ ?m)
        (sch - {down_generation_id d} - down_generation_id ` set ds) c'"
  proof (rule Cons.IH [OF c1(3)])
    show "\<forall>e \<in> set ds. pressable rs T h c1 r e"
      using Cons.prems(2) pressable_derived [OF tracksD(2) [OF Cons.prems(1)] tracksD(2) [OF c1(3)]] by simp
    show "\<forall>e \<in> set ds. (op(unat (pd_key_slot d) := Some (down_generation_id d))) (unat (pd_key_slot e)) = None \<and>
        down_generation_id e \<in> sch - {down_generation_id d}"
      using Cons.prems(5) ne by (auto simp: word_unat_eq_iff)
  qed (use Cons.prems in auto)
  then obtain c' where c': "sfor ds (commit_sent_down src r) c1 = (Inr (), c')" "dc_cursor c' = dc_cursor c1"
    "tracks rs T h (op ++ map_of (map (\<lambda>d. (unat (pd_key_slot d), down_generation_id d)) (d # ds)))
       (sch - down_generation_id ` set (d # ds)) c'"
    unfolding m rest by blast
  have "sfor (d # ds) (commit_sent_down src r) c = (Inr (), c')" using c1(1) c'(1) by (simp add: sbind_apply)
  then show ?case using c'(3) c'(2) [unfolded c1(2)] by (intro exI [of _ c'] conjI)
qed simp

section \<open>Preparation at the turn of a packet\<close>

abbreviation ups_at :: "runtime_schedule \<Rightarrow> nat \<Rightarrow> compact_intent list" where
  "ups_at rs n \<equiv> packet_ups (rs_intents rs) (rs_packets rs ! n)"

abbreviation downs_at :: "runtime_schedule \<Rightarrow> nat \<Rightarrow> compact_intent list" where
  "downs_at rs n \<equiv> packet_downs (rs_intents rs) (rs_packets rs ! n)"

abbreviation first_batch :: "runtime_schedule \<Rightarrow> nat \<Rightarrow> nat" where
  "first_batch rs n \<equiv> unat (cp_first_batch_index (rs_packets rs ! n))"

text \<open>A schedule with the ticks of its batches: admitted for the hold, and no hold floor leaves the clock's range.\<close>

definition playable :: "runtime_schedule \<Rightarrow> timeline_ticks list \<Rightarrow> duration_ticks \<Rightarrow> bool" where
  "playable rs T h \<longleftrightarrow> schedule_wf rs \<and> length T = length (rs_batches rs) \<and>
     (\<forall>i j c d g. i < j \<longrightarrow> j < length (rs_packets rs) \<longrightarrow> c \<in> set (downs_at rs i) \<longrightarrow> d \<in> set (ups_at rs j) \<longrightarrow>
        intent_gen c = Some g \<longrightarrow> intent_gen d = Some g \<longrightarrow>
        timeline_nat (T ! first_batch rs i) + duration_nat h \<le> timeline_nat (T ! first_batch rs j)) \<and>
     (\<forall>n < length (rs_packets rs). timeline_nat (T ! first_batch rs n) + duration_nat h < 2 ^ 64)"

lemma playableD:
  assumes "playable rs T h"
  shows "schedule_wf rs" and "length T = length (rs_batches rs)"
    and "i < j \<Longrightarrow> j < length (rs_packets rs) \<Longrightarrow> c \<in> set (downs_at rs i) \<Longrightarrow> d \<in> set (ups_at rs j) \<Longrightarrow>
      intent_gen c = Some g \<Longrightarrow> intent_gen d = Some g \<Longrightarrow>
      timeline_nat (T ! first_batch rs i) + duration_nat h \<le> timeline_nat (T ! first_batch rs j)"
    and "n < length (rs_packets rs) \<Longrightarrow> timeline_nat (T ! first_batch rs n) + duration_nat h < 2 ^ 64"
  using assms unfolding playable_def by blast+

text \<open>The generations of a compiled schedule fit in the 32 bits of a frozen press.\<close>

lemma generations_small:
  assumes wf: "schedule_wf rs"
  shows "unat (rs_generation_count rs) < 2 ^ 32 - 1"
proof (cases "rs_packets rs = []")
  case True
  have "length (trace_downs (packet_trace (rs_intents rs) (rs_packets rs))) = unat (rs_generation_count rs)"
    using schedule_trace(2) [OF wf] by (metis length_map length_upt minus_nat.diff_0)
  then show ?thesis using True by (simp add: trace_downs_def packet_trace_def)
next
  case False
  let ?ps = "rs_packets rs" and ?tr = "packet_trace (rs_intents rs) (rs_packets rs)"
  let ?n = "length ?ps - 1"
  have n: "?n < length ?ps" "Suc ?n = length ?ps" using False by simp_all
  have len: "length (List.map_filter f xs) \<le> length xs" for f :: "'a \<Rightarrow> 'b option" and xs
    by (induction xs) (auto simp: map_filter_simps split: option.splits)
  have ok: "packet_ok (rs_key_registry rs) (rs_intents rs) (rs_batches rs) p" if "p \<in> set ?ps" for p
    using wf that by (simp add: schedule_wf_def arena_wf_def)
  have "length (trace_ups ?tr) + length (trace_downs ?tr)
      \<le> sum_list (map (\<lambda>p. unat (cp_up_intent_len p) + unat (cp_down_intent_len p)) ?ps)"
    unfolding trace_ups_def trace_downs_def packet_trace_def length_concat map_map comp_def sum_list_addf [symmetric]
    using len [of intent_gen] packet_lengths(1,2) [OF ok] by (intro sum_list_mono) (metis add_mono fst_conv snd_conv)
  moreover have "length (trace_downs ?tr) = unat (rs_generation_count rs)"
    using schedule_trace(2) [OF wf] by (metis length_map length_upt minus_nat.diff_0)
  moreover have "length (trace_ups ?tr) = length (trace_downs ?tr)"
    using schedule_generations [OF wf] by (metis distinct_card)
  moreover have "sum_list (map (\<lambda>p. unat (cp_up_intent_len p) + unat (cp_down_intent_len p)) ?ps)
      = unat (cp_up_intent_start (?ps ! ?n)) + unat (cp_up_intent_len (?ps ! ?n)) + unat (cp_down_intent_len (?ps ! ?n))"
    using schedule_tiles(1,3) [OF wf n(1)] n(2) by simp
  moreover have "unat (cp_up_intent_start (?ps ! ?n)) < 2 ^ 32" "unat (cp_up_intent_len (?ps ! ?n)) < 2 ^ 8"
      "unat (cp_down_intent_len (?ps ! ?n)) < 2 ^ 8"
    using unsigned_less [of "cp_up_intent_start (?ps ! ?n)", where ?'a = nat]
      unsigned_less [of "cp_up_intent_len (?ps ! ?n)", where ?'a = nat]
      unsigned_less [of "cp_down_intent_len (?ps ! ?n)", where ?'a = nat] by simp_all
  ultimately show ?thesis by simp
qed

subsection \<open>The Ups\<close>

text \<open>A frozen release of packet \<open>n\<close>, as the normal path produces it.\<close>

definition exact_up :: "runtime_schedule \<Rightarrow> nat \<Rightarrow> prepared_up_intent \<Rightarrow> bool" where
  "exact_up rs n u \<longleftrightarrow>
     (let t = pu_identity u in
      up_at rs (identity_generation_id t) n (identity_intent_index t) \<and> pu_intent u = rs_intents rs ! identity_intent_index t \<and>
      identity_generation_id t = compact_generation_id (pu_intent u) \<and> identity_key_slot t = compact_key_slot (pu_intent u) \<and>
      identity_packet_index t = n)"

definition ups_upto :: "runtime_schedule \<Rightarrow> nat \<Rightarrow> compact_intent list \<Rightarrow> up_classification \<Rightarrow> bool" where
  "ups_upto rs n xs acc \<longleftrightarrow> uc_deferred acc = 0 \<and> map pu_intent (uc_intents acc) = filter (\<lambda>x. intent_gen x \<noteq> None) xs \<and>
     (\<forall>u \<in> set (uc_intents acc). exact_up rs n u) \<and>
     (\<forall>b. bit (uc_immediate acc) b \<longleftrightarrow> (\<exists>x \<in> set xs. intent_gen x \<noteq> None \<and> intent_slot x = b))"

lemma rfold_enumerate_ok:
  assumes "P [] acc" and "\<And>k acc. k < length xs \<Longrightarrow> P (take k xs) acc \<Longrightarrow>
      \<exists>acc'. f (k, xs ! k) acc = Inr acc' \<and> P (take (Suc k) xs) acc'"
  shows "\<exists>acc'. rfold f (enumerate 0 xs) acc = Inr acc' \<and> P xs acc'"
proof -
  have "\<exists>acc'. rfold f (enumerate 0 (take m xs)) acc = Inr acc' \<and> P (take m xs) acc'" if "m \<le> length xs" for m
    using that
  proof (induction m)
    case (Suc m)
    then obtain a where a: "rfold f (enumerate 0 (take m xs)) acc = Inr a" "P (take m xs) a" by auto
    have "enumerate 0 (take (Suc m) xs) = enumerate 0 (take m xs) @ [(m, xs ! m)]"
      using Suc.prems by (simp add: take_Suc_conv_app_nth enumerate_append_eq)
    then show ?case using a assms(2) [of m a] Suc.prems by (auto simp: rfold_append)
  qed (use assms(1) in simp)
  from this [of "length xs"] show ?thesis by simp
qed

lemma due_release:
  assumes play: "playable rs T h" and j: "j < length (rs_packets rs)" and d: "d \<in> set (ups_at rs j)" "intent_gen d = Some g"
    and r: "held rs T h g r"
  shows "r \<le> T ! first_batch rs j"
proof -
  note wf = playableD(1) [OF play]
  obtain m c where m: "m < length (rs_packets rs)" "c \<in> set (downs_at rs m)" "intent_gen c = Some g"
    "timeline_nat r = timeline_nat (T ! first_batch rs m) + duration_nat h"
    using r by (auto simp: held_def)
  obtain q i where q: "up_at rs g q i" "m < q" using down_located [OF wf m(1-3)] by blast
  obtain k where k: "k < length (ups_at rs j)" "d = ups_at rs j ! k" using d(1) by (auto simp: in_set_conv_nth)
  then have "up_at rs g j (unat (cp_up_intent_start (rs_packets rs ! j)) + k)" using j d(2) by (auto simp: up_at_def)
  then have "j = q" using up_at_unique [OF wf q(1)] by simp
  then have "timeline_nat (T ! first_batch rs m) + duration_nat h \<le> timeline_nat (T ! first_batch rs j)"
    using playableD(3) [OF play _ j m(2) d(1) m(3) d(2)] q(2) by simp
  then show ?thesis using m(4) by (cases r; cases "T ! first_batch rs j") (simp add: tick_order_defs word_le_nat_alt)
qed

lemma classify_exact:
  assumes K: "tracks rs T h op sch c" and play: "playable rs T h" and n: "n < length (rs_packets rs)"
    and ok: "\<forall>x \<in> set (ups_at rs n). intent_gen x = op (intent_slot x)"
    and v: "pv_header v = rs_packets rs ! n" "pv_packet_index v = n" "pv_registry v = rs_key_registry rs"
      "pv_up_intents v = ups_at rs n"
    and k: "k < length (ups_at rs n)" and acc: "ups_upto rs n (take k (ups_at rs n)) acc"
  shows "\<exists>acc'. classify_up c v (T ! first_batch rs n) (k, ups_at rs n ! k) acc = Inr acc' \<and>
    ups_upto rs n (take (Suc k) (ups_at rs n)) acc'"
proof -
  let ?x = "ups_at rs n ! k" and ?p = "rs_packets rs ! n"
  let ?i = "unat (cp_up_intent_start ?p) + k" and ?slot = "compact_key_slot ?x" and ?g = "compact_generation_id ?x"
  note inv = tracksD(1) [OF K] and wf = playableD(1) [OF play]
  note pok = wf_packet_at [OF wf n]
  note nth = packet_ups_nth [OF pok]
  have x: "?x \<in> set (ups_at rs n)" using k by simp
  have reg: "intent_slot ?x < registry_len (rs_key_registry rs)" using pok x by (auto simp: packet_ok_def)
  then have s: "unat ?slot < MAX_KEYS" using wf by (simp add: schedule_wf_def arena_wf_def registry_wf_def intent_slot_def)
  have small: "?i < usize_limit"
    using nth(3) k nth(1) unsigned_less [of "cp_up_intent_start ?p", where ?'a = nat] unsigned_less [of "cp_up_intent_len ?p", where ?'a = nat]
    by (simp add: usize_limit_def)
  have code: "scan_code_for (rs_key_registry rs) ?slot \<noteq> None" using registered_scan_code [of "rs_key_registry rs" ?x] reg by (auto simp: registered_def)
  have tk: "take (Suc k) (ups_at rs n) = take k (ups_at rs n) @ [?x]" using k by (rule take_Suc_conv_app_nth)
  show ?thesis
  proof (cases "intent_gen ?x")
    case None
    then have "?g = NO_GENERATION_ID" by (simp add: intent_gen_None)
    moreover have "matching_token c ?slot n ?i = Inr None"
      using slot_lookup(3) [OF inv s] tracksD(7) [OF K s] by (simp add: matching_token_def)
    ultimately show ?thesis
      using acc None small code v unfolding tk
      by (auto simp: classify_up_def Let_def checked_add_usize_def ups_upto_def)
  next
    case (Some g)
    then have g: "?g = g" "g \<noteq> NO_GENERATION_ID" by (simp_all add: intent_gen_Some)
    have at: "up_at rs g n ?i" using n k Some by (auto simp: up_at_def)
    obtain a where a: "act c (unat ?slot) = Some a" "ag_generation_id a = g"
      using tracks_owner [OF K s, of g] ok x Some by (auto simp: intent_slot_def)
    have "unat g < 2 ^ 60 - 1" using up_at_count [OF wf at] generations_small [OF wf] by simp
    from identity_try_new_ok [OF this s up_at_intent(7,8) [OF wf at]] obtain t where
      t: "identity_try_new g ?slot n ?i = Inr t" "identity_generation_id t = g" "identity_key_slot t = ?slot"
        "identity_packet_index t = n" "identity_intent_index t = ?i" by blast
    have loc: "location_of c g = Some (Some (n, ?i))"
      using derived_located [OF tracksD(2) [OF K], of g n ?i "intent_slot (rs_intents rs ! ?i)"] at by (simp add: located_def)
    have due: "ag_release_not_before_ticks a \<le> T ! first_batch rs n"
      using due_release [OF play n x Some] tracksD(9) [OF K s a(1)] a(2) by simp
    have xi: "?x = rs_intents rs ! ?i" using nth(1,2) k by simp
    let ?acc = "acc\<lparr>uc_immediate := uc_immediate acc OR bit_for_slot ?slot,
      uc_intents := uc_intents acc @ [\<lparr>pu_intent = ?x, pu_source_action_index = 0, pu_identity = t\<rparr>]\<rparr>"
    have run: "classify_up c v (T ! first_batch rs n) (k, ?x) acc = Inr ?acc"
      using small code v g slot_lookup(1) [OF inv s] a t(1) loc due
      by (simp add: classify_up_def Let_def checked_add_usize_def)
    have new: "exact_up rs n \<lparr>pu_intent = ?x, pu_source_action_index = 0, pu_identity = t\<rparr>"
      using at t g xi by (simp add: exact_up_def)
    have "bit (uc_immediate acc OR bit_for_slot ?slot) b \<longleftrightarrow>
        (\<exists>y \<in> set (take (Suc k) (ups_at rs n)). intent_gen y \<noteq> None \<and> intent_slot y = b)" for b
      using acc Some s unfolding tk by (auto simp: ups_upto_def mask_simps intent_slot_def MAX_KEYS_def)
    then have "ups_upto rs n (take (Suc k) (ups_at rs n)) ?acc"
      using acc new Some unfolding ups_upto_def tk by simp
    then show ?thesis using run by blast
  qed
qed

subsection \<open>The Downs\<close>

lemma down_try_new_ok:
  assumes "unat (compact_key_slot x) < MAX_KEYS" and "unat (compact_generation_id x) < 2 ^ 32 - 1"
  shows "\<exists>d. down_try_new x code = Inr d \<and> pd_key_slot d = compact_key_slot x \<and> down_generation_id d = compact_generation_id x"
proof -
  have "compact_generation_id x \<noteq> NO_GENERATION_ID" using assms(2) by (auto simp: NO_GENERATION_ID_val)
  then obtain d where d: "down_try_new x code = Inr d" using assms by (simp add: down_try_new_def Let_def not_le)
  then show ?thesis using try_new_down by blast
qed

lemma prepare_downs_ok:
  assumes "\<forall>x \<in> set xs. registered reg x \<and> unat (compact_key_slot x) < MAX_KEYS \<and> unat (compact_generation_id x) < 2 ^ 32 - 1"
  shows "\<exists>ds. prepare_downs reg xs = Inr ds \<and> map pd_key_slot ds = map compact_key_slot xs \<and>
    map down_generation_id ds = map compact_generation_id xs"
proof -
  define f where "f = (\<lambda>x acc :: prepared_down_intent list.
    rbind (ok_or (scan_code_for reg (compact_key_slot x)) (Err (CoordInvalidKeySlot (compact_key_slot x)))) (\<lambda>code.
    rbind (down_try_new x code) (\<lambda>down. Inr (acc @ [down]))))"
  have "\<exists>ds. rfold f xs acc = Inr (acc @ ds) \<and> map pd_key_slot ds = map compact_key_slot xs \<and>
      map down_generation_id ds = map compact_generation_id xs" for acc
    using assms
  proof (induction xs arbitrary: acc)
    case (Cons x xs)
    obtain code where code: "scan_code_for reg (compact_key_slot x) = Some code" using registered_scan_code Cons.prems by force
    obtain d where d: "down_try_new x code = Inr d" "pd_key_slot d = compact_key_slot x" "down_generation_id d = compact_generation_id x"
      using down_try_new_ok [of x code] Cons.prems by auto
    obtain ds where "rfold f xs (acc @ [d]) = Inr ((acc @ [d]) @ ds)" "map pd_key_slot ds = map compact_key_slot xs"
        "map down_generation_id ds = map compact_generation_id xs"
      using Cons.IH [of "acc @ [d]"] Cons.prems by auto
    then show ?case using code d by (intro exI [of _ "d # ds"]) (simp add: f_def)
  qed simp
  from this [of "[]"] show ?thesis by (simp add: prepare_downs_def f_def)
qed

subsection \<open>The packet\<close>

definition exact_commit :: "runtime_schedule \<Rightarrow> timeline_ticks list \<Rightarrow> nat \<Rightarrow> prepared_authored_commit \<Rightarrow> bool" where
  "exact_commit rs T n commit \<longleftrightarrow>
     (let f = pc_frame commit; p = rs_packets rs ! n in
      pf_first_batch_index f = first_batch rs n \<and> pf_packet_index f = n \<and> pf_packet_batch_count f = unat (cp_batch_count p) \<and>
      pf_authored_ticks f = T ! first_batch rs n \<and> pf_immediate_up_mask f = cp_up_mask p \<and> pf_deferred_up_mask f = 0 \<and>
      pf_down_mask f = cp_down_mask p) \<and>
     map pu_intent (pc_up_intents commit) = filter (\<lambda>x. intent_gen x \<noteq> None) (ups_at rs n) \<and>
     (\<forall>u \<in> set (pc_up_intents commit). exact_up rs n u) \<and>
     map pd_key_slot (pc_down_intents commit) = map compact_key_slot (downs_at rs n) \<and>
     map down_generation_id (pc_down_intents commit) = map compact_generation_id (downs_at rs n)"

lemma first_batch_member:
  assumes wf: "schedule_wf rs" and n: "n < length (rs_packets rs)"
  shows "first_batch rs n < length (rs_batches rs)"
    and "rs_batches rs ! first_batch rs n \<in> set (packet_batches (rs_batches rs) (rs_packets rs ! n))"
proof -
  let ?p = "rs_packets rs ! n"
  note ok = wf_packet_at [OF wf n]
  have len: "first_batch rs n + unat (cp_batch_count ?p) \<le> length (rs_batches rs)" and ne: "packet_batches (rs_batches rs) ?p \<noteq> []"
    using ok by (simp_all add: packet_ok_def)
  have pos: "0 < unat (cp_batch_count ?p)" using ne packet_lengths(3) [OF ok] by (metis length_greater_0_conv)
  then show "first_batch rs n < length (rs_batches rs)" using len by simp
  have "packet_batches (rs_batches rs) ?p ! 0 = rs_batches rs ! first_batch rs n"
    using pos len by (simp add: packet_batches_def slice_def)
  then show "rs_batches rs ! first_batch rs n \<in> set (packet_batches (rs_batches rs) ?p)" using ne nth_mem by (metis length_greater_0_conv)
qed

lemma batch_at_cursor:
  assumes wf: "schedule_wf rs" and n: "n < length (rs_packets rs)"
  shows "unat (cb_packet_id (rs_batches rs ! first_batch rs n)) = n"
    and "cb_scheduled_us (rs_batches rs ! first_batch rs n) = cp_scheduled_us (rs_packets rs ! n)"
proof -
  have "cb_packet_id (rs_batches rs ! first_batch rs n) = cp_packet_id (rs_packets rs ! n)"
    and us: "cb_scheduled_us (rs_batches rs ! first_batch rs n) = cp_scheduled_us (rs_packets rs ! n)"
    using first_batch_member(2) [OF assms] wf_packet_at [OF assms] by (simp_all add: packet_ok_def)
  then show "unat (cb_packet_id (rs_batches rs ! first_batch rs n)) = n" using assms by (simp add: schedule_wf_def arena_wf_def)
  show "cb_scheduled_us (rs_batches rs ! first_batch rs n) = cp_scheduled_us (rs_packets rs ! n)" by (rule us)
qed

lemma down_generation:
  assumes wf: "schedule_wf rs" and n: "n < length (rs_packets rs)" and x: "x \<in> set (downs_at rs n)"
  shows "intent_gen x = Some (compact_generation_id x)" and "unat (compact_generation_id x) < unat (rs_generation_count rs)"
    and "intent_slot x < MAX_KEYS" and "registered (rs_key_registry rs) x"
proof -
  let ?tr = "packet_trace (rs_intents rs) (rs_packets rs)"
  have n': "n < length ?tr" "?tr ! n = (ups_at rs n, downs_at rs n)" using n by (simp_all add: packet_trace_def)
  obtain op where "step_ok op (?tr ! n)" using replay_take [OF schedule_trace(1) [OF wf] n'(1)] by blast
  then show g: "intent_gen x = Some (compact_generation_id x)" using x n' by (auto simp: step_ok_def intent_gen_def split: if_splits)
  from down_located [OF wf n x g] show "unat (compact_generation_id x) < unat (rs_generation_count rs)"
    using up_at_count [OF wf] by blast
  show r: "registered (rs_key_registry rs) x" using wf_packet_at [OF wf n] x by (auto simp: registered_def packet_ok_def)
  then show "intent_slot x < MAX_KEYS" using wf by (simp add: registered_def schedule_wf_def arena_wf_def registry_wf_def)
qed

lemma prepare_exact:
  assumes K: "tracks rs T h op sch c" and play: "playable rs T h" and n: "n < length (rs_packets rs)"
    and cur: "dc_cursor c = first_batch rs n" and ok: "\<forall>x \<in> set (ups_at rs n). intent_gen x = op (intent_slot x)"
  shows "\<exists>pkt. prepare_current_authored_packet c = Inr (Some pkt) \<and> pp_frame pkt = pc_frame (pp_commit pkt) \<and>
    exact_commit rs T n (pp_commit pkt)"
proof -
  let ?p = "rs_packets rs ! n" and ?t = "T ! first_batch rs n"
  note wf = playableD(1) [OF play]
  note pok = wf_packet_at [OF wf n] and b = first_batch_member(1) [OF wf n] batch_at_cursor(1) [OF wf n]
  have limits: "unat (cp_up_intent_start ?p) + unat (cp_up_intent_len ?p) < usize_limit"
    "unat (cp_down_intent_start ?p) + unat (cp_down_intent_len ?p) < usize_limit"
    using unsigned_less [of "cp_up_intent_start ?p", where ?'a = nat] unsigned_less [of "cp_up_intent_len ?p", where ?'a = nat]
      unsigned_less [of "cp_down_intent_start ?p", where ?'a = nat] unsigned_less [of "cp_down_intent_len ?p", where ?'a = nat]
    by (simp_all add: usize_limit_def)
  define v where "v = \<lparr>pv_packet_index = n, pv_header = ?p, pv_up_intents = ups_at rs n, pv_down_intents = downs_at rs n,
    pv_registry = rs_key_registry rs, pv_effective_ticks = ?t\<rparr>"
  have cut: "slice_get (rs_intents rs) (unat (cp_up_intent_start ?p)) (unat (cp_up_intent_start ?p) + unat (cp_up_intent_len ?p))
        = Some (ups_at rs n)"
      "slice_get (rs_intents rs) (unat (cp_down_intent_start ?p)) (unat (cp_down_intent_start ?p) + unat (cp_down_intent_len ?p))
        = Some (downs_at rs n)"
    unfolding slice_get_slice packet_ups_def packet_downs_def using packet_ups_nth(3) [OF pok] pok by (simp_all add: packet_ok_def)
  have view: "view_packet_ticks_unvalidated_registry rs n ?t = Inr v"
    using n limits cut by (simp add: view_packet_ticks_unvalidated_registry_def Let_def checked_add_usize_def v_def)
  let ?a = "\<lparr>uc_immediate = 0, uc_deferred = 0, uc_stale = 0, uc_intents = []\<rparr>"
  have "\<exists>acc. rfold (classify_up c v ?t) (enumerate 0 (ups_at rs n)) ?a = Inr acc \<and> ups_upto rs n (ups_at rs n) acc"
  proof (rule rfold_enumerate_ok)
    show "ups_upto rs n [] ?a" by (simp add: ups_upto_def)
    fix k acc assume k: "k < length (ups_at rs n)" and acc: "ups_upto rs n (take k (ups_at rs n)) acc"
    show "\<exists>acc'. classify_up c v ?t (k, ups_at rs n ! k) acc = Inr acc' \<and> ups_upto rs n (take (Suc k) (ups_at rs n)) acc'"
      by (rule classify_exact [OF K play n ok _ _ _ _ k acc]) (simp_all add: v_def)
  qed
  then obtain acc where acc: "rfold (classify_up c v ?t) (enumerate 0 (ups_at rs n)) ?a = Inr acc" "ups_upto rs n (ups_at rs n) acc"
    by blast
  have imm: "uc_immediate acc = cp_up_mask ?p"
  proof (rule bit_word_eqI)
    fix b
    have "bit (cp_up_mask ?p) b \<longleftrightarrow> (\<exists>x \<in> set (ups_at rs n). intent_slot x = b \<and> intent_gen x \<noteq> None)"
      using pok by (simp add: packet_ok_def)
    then show "bit (uc_immediate acc) b \<longleftrightarrow> bit (cp_up_mask ?p) b" using acc(2) unfolding ups_upto_def by metis
  qed
  have downs: "\<forall>x \<in> set (downs_at rs n). registered (rs_key_registry rs) x \<and> unat (compact_key_slot x) < MAX_KEYS \<and>
      unat (compact_generation_id x) < 2 ^ 32 - 1"
    using down_generation(2-4) [OF wf n] generations_small [OF wf] order_less_trans unfolding intent_slot_def by blast
  obtain ds where ds: "prepare_downs (rs_key_registry rs) (downs_at rs n) = Inr ds" "map pd_key_slot ds = map compact_key_slot (downs_at rs n)"
      "map down_generation_id ds = map compact_generation_id (downs_at rs n)"
    using prepare_downs_ok [OF downs] by blast
  have "List.map_filter (\<lambda>(slot, pending). case pending of
            Some release \<Rightarrow> if pr_due_ticks release > ?t \<and> cp_down_mask ?p AND mask_bit slot \<noteq> 0 then Some release else None
          | None \<Rightarrow> None) (enumerate 0 (dc_pending_release_by_slot c)) = []"
    using tracksD(6) [OF K] coord_invD(6) [OF tracksD(1) [OF K]]
    by (auto simp: List.map_filter_def filter_empty_conv in_set_enumerate_eq)
  then have "pending_blocked_mask c ?t (cp_down_mask ?p) = 0" by (simp add: pending_blocked_mask_def)
  then show ?thesis
    using K cur b view acc ds imm playableD(2) [OF play]
    by (simp add: prepare_current_authored_packet_def tracksD(3,4) [OF K] effective_batch_scheduled_ticks_def Let_def
        v_def exact_commit_def ups_upto_def)
qed

section \<open>Committing at the turn of a packet\<close>

lemma rfold_unit_ok: "(\<And>x. x \<in> set xs \<Longrightarrow> f x = Inr ()) \<Longrightarrow> rfold (\<lambda>x _. f x) xs () = Inr ()"
  by (induction xs) auto

lemma exact_up_facts:
  assumes wf: "schedule_wf rs" and u: "exact_up rs n u"
  shows "up_slot u < MAX_KEYS" and "intent_gen (pu_intent u) = Some (identity_generation_id (pu_identity u))"
    and "intent_slot (pu_intent u) = up_slot u" and "pu_intent u \<in> set (ups_at rs n)"
    and "identity_generation_id (pu_identity u) \<noteq> NO_GENERATION_ID"
proof -
  let ?t = "pu_identity u"
  have at: "up_at rs (identity_generation_id ?t) n (identity_intent_index ?t)" and x: "pu_intent u = rs_intents rs ! identity_intent_index ?t"
    and s: "identity_key_slot ?t = compact_key_slot (pu_intent u)"
    using u unfolding exact_up_def Let_def by blast+
  note I = up_at_intent [OF wf at, folded x]
  show "intent_gen (pu_intent u) = Some (identity_generation_id ?t)" "pu_intent u \<in> set (ups_at rs n)" using I(3,6) by simp_all
  show "intent_slot (pu_intent u) = up_slot u" using s by (simp add: up_slot_def intent_slot_def)
  then show "up_slot u < MAX_KEYS" using I(9) by simp
  show "identity_generation_id ?t \<noteq> NO_GENERATION_ID" using I(3) by (simp add: intent_gen_Some)
qed

lemma validate_exact_up:
  assumes K: "tracks rs T h op sch c" and wf: "schedule_wf rs" and u: "exact_up rs n u"
    and ok: "op (up_slot u) = Some (identity_generation_id (pu_identity u))"
  shows "validate_frozen_up c n u = Inr ()"
proof -
  let ?t = "pu_identity u"
  note inv = tracksD(1) [OF K] and F = exact_up_facts [OF wf u]
  have at: "up_at rs (identity_generation_id ?t) n (identity_intent_index ?t)" and x: "pu_intent u = rs_intents rs ! identity_intent_index ?t"
    and eq: "identity_generation_id ?t = compact_generation_id (pu_intent u)" "identity_key_slot ?t = compact_key_slot (pu_intent u)"
      "identity_packet_index ?t = n"
    using u unfolding exact_up_def Let_def by blast+
  have s: "unat (identity_key_slot ?t) < MAX_KEYS" using F(1) by (simp add: up_slot_def)
  have loc: "location_of c (identity_generation_id ?t) = Some (Some (n, identity_intent_index ?t))"
    using derived_located [OF tracksD(2) [OF K], of "identity_generation_id ?t" n "identity_intent_index ?t"
        "intent_slot (rs_intents rs ! identity_intent_index ?t)"] at by (simp add: located_def)
  obtain a where a: "act c (up_slot u) = Some a" "ag_generation_id a = identity_generation_id ?t"
      "ag_key_slot a = word_of_nat (up_slot u)" "has_status c (identity_generation_id ?t) Active"
    by (rule tracks_owner [OF K F(1) ok])
  have "status_of c (identity_generation_id ?t) = Inr Active" using a(4) by (simp add: status_of_eq)
  moreover have "identity_intent_index ?t < length (rs_intents (dc_schedule c))"
    using up_at_intent(2) [OF wf at] tracksD(3) [OF K] by simp
  ultimately show ?thesis
    using s eq loc a slot_lookup(1,3) [OF inv s] tracksD(7) [OF K s] x tracksD(3) [OF K]
    by (simp add: validate_frozen_up_def Let_def up_slot_def)
qed

lemma exact_slots:
  assumes wf: "schedule_wf rs" and e: "exact_commit rs T n commit" and d: "distinct (map intent_slot (ups_at rs n))"
  shows "distinct (map up_slot (pc_up_intents commit))"
    and "set (map up_slot (pc_up_intents commit)) = intent_slot ` {x \<in> set (ups_at rs n). intent_gen x \<noteq> None}"
proof -
  have e': "map pu_intent (pc_up_intents commit) = filter (\<lambda>x. intent_gen x \<noteq> None) (ups_at rs n)"
      "\<forall>u \<in> set (pc_up_intents commit). exact_up rs n u"
    using e unfolding exact_commit_def by blast+
  have "map up_slot (pc_up_intents commit) = map intent_slot (map pu_intent (pc_up_intents commit))"
    using e'(2) exact_up_facts(3) [OF wf, of n] by simp
  then have m: "map up_slot (pc_up_intents commit) = map intent_slot (filter (\<lambda>x. intent_gen x \<noteq> None) (ups_at rs n))"
    unfolding e'(1) .
  show "distinct (map up_slot (pc_up_intents commit))" unfolding m using d by (simp add: distinct_map_filter)
  show "set (map up_slot (pc_up_intents commit)) = intent_slot ` {x \<in> set (ups_at rs n). intent_gen x \<noteq> None}" unfolding m by auto
qed

lemma option_ext: "(\<And>g. a = Some g \<longleftrightarrow> b = Some g) \<Longrightarrow> a = b"
  by (metis not_Some_eq)

text \<open>Releasing the open Ups and pressing the Downs is one step of the replay.\<close>

lemma step_open_maps:
  assumes ok: "step_ok op (us, ds)" and m: "\<forall>d \<in> set ds. intent_gen d = Some (compact_generation_id d)"
  shows "(op |` (- intent_slot ` {x \<in> set us. intent_gen x \<noteq> None})) ++ map_of (map (\<lambda>d. (intent_slot d, compact_generation_id d)) ds)
    = step_open op (us, ds)" (is "?l = _")
proof (rule ext)
  fix s
  have dist: "distinct (map fst (map (\<lambda>d. (intent_slot d, compact_generation_id d)) ds))"
    using ok by (simp add: step_ok_def comp_def)
  have "?l s = Some g \<longleftrightarrow> step_open op (us, ds) s = Some g" for g
  proof -
    have free: "op (intent_slot d) = None" if "d \<in> set ds" for d using ok that by (simp add: step_ok_def)
    have up: "intent_gen x = op (intent_slot x)" if "x \<in> set us" for x using ok that by (simp add: step_ok_def)
    have mem: "map_of (map (\<lambda>d. (intent_slot d, compact_generation_id d)) ds) s = Some g \<longleftrightarrow>
        (\<exists>d \<in> set ds. intent_slot d = s \<and> intent_gen d = Some g)"
      using map_of_eq_Some_iff [OF dist] m by auto
    have none: "map_of (map (\<lambda>d. (intent_slot d, compact_generation_id d)) ds) s = None \<longleftrightarrow> s \<notin> intent_slot ` set ds"
      by (auto simp: map_of_eq_None_iff image_image)
    have res: "(op |` (- intent_slot ` {x \<in> set us. intent_gen x \<noteq> None})) s = Some g \<longleftrightarrow> op s = Some g \<and> s \<notin> set (map intent_slot us)"
      using up by (auto simp: restrict_map_def)
    show ?thesis
      unfolding step_open_eq_Some [OF ok] map_add_Some_iff mem none fst_conv snd_conv res
    proof (cases "s \<in> intent_slot ` set ds")
      case True
      then have "op s = None" using free by auto
      then show "(\<exists>d \<in> set ds. intent_slot d = s \<and> intent_gen d = Some g) \<or>
          s \<notin> intent_slot ` set ds \<and> op s = Some g \<and> s \<notin> set (map intent_slot us) \<longleftrightarrow>
        (\<exists>d \<in> set ds. intent_slot d = s \<and> intent_gen d = Some g) \<or> op s = Some g \<and> s \<notin> set (map intent_slot us)" by simp
    qed simp
  qed
  then show "?l s = step_open op (us, ds) s" by (rule option_ext)
qed

lemma down_eq_slots:
  assumes "map pd_key_slot ds = map compact_key_slot xs" and "map down_generation_id ds = map compact_generation_id xs"
  shows "map (\<lambda>d. (unat (pd_key_slot d), down_generation_id d)) ds = map (\<lambda>x. (intent_slot x, compact_generation_id x)) xs"
    and "\<And>d. d \<in> set ds \<Longrightarrow> \<exists>x \<in> set xs. unat (pd_key_slot d) = intent_slot x \<and> down_generation_id d = compact_generation_id x"
proof -
  have len: "length ds = length xs" using assms(1) by (rule map_eq_imp_length_eq)
  have nth: "pd_key_slot (ds ! i) = compact_key_slot (xs ! i)" "down_generation_id (ds ! i) = compact_generation_id (xs ! i)"
    if "i < length xs" for i
    using that len arg_cong [OF assms(1), of "\<lambda>l. l ! i"] arg_cong [OF assms(2), of "\<lambda>l. l ! i"] by simp_all
  show "map (\<lambda>d. (unat (pd_key_slot d), down_generation_id d)) ds = map (\<lambda>x. (intent_slot x, compact_generation_id x)) xs"
    using len nth by (intro nth_equalityI) (simp_all add: intent_slot_def)
  show "\<exists>x \<in> set xs. unat (pd_key_slot d) = intent_slot x \<and> down_generation_id d = compact_generation_id x" if d: "d \<in> set ds" for d
  proof -
    obtain i where i: "i < length xs" "d = ds ! i" using d len by (auto simp: in_set_conv_nth)
    then show ?thesis using nth [OF i(1)] by (intro bexI [of _ "xs ! i"]) (simp_all add: intent_slot_def)
  qed
qed

definition future :: "runtime_schedule \<Rightarrow> nat \<Rightarrow> generation_id set" where
  "future rs n = {g. \<exists>m. n \<le> m \<and> m < length (rs_packets rs) \<and> (\<exists>c \<in> set (downs_at rs m). intent_gen c = Some g)}"

lemma future_step:
  assumes wf: "schedule_wf rs" and n: "n < length (rs_packets rs)"
  shows "future rs n - compact_generation_id ` set (downs_at rs n) = future rs (Suc n)"
proof -
  have "g \<notin> compact_generation_id ` set (downs_at rs n)" if f: "g \<in> future rs (Suc n)" for g
  proof
    obtain m c where m: "Suc n \<le> m" "m < length (rs_packets rs)" "c \<in> set (downs_at rs m)" "intent_gen c = Some g"
      using f by (auto simp: future_def)
    assume "g \<in> compact_generation_id ` set (downs_at rs n)"
    then obtain d where d: "d \<in> set (downs_at rs n)" "g = compact_generation_id d" by blast
    have "n = m" using down_packet_unique [OF wf n m(2) d(1) _ m(3,4)] down_generation(1) [OF wf n d(1)] d(2) by simp
    then show False using m(1) by simp
  qed
  moreover have "g \<in> future rs (Suc n)" if f: "g \<in> future rs n" "g \<notin> compact_generation_id ` set (downs_at rs n)" for g
  proof -
    obtain m c where m: "n \<le> m" "m < length (rs_packets rs)" "c \<in> set (downs_at rs m)" "intent_gen c = Some g"
      using f(1) by (auto simp: future_def)
    have "m \<noteq> n" using m(3,4) f(2) by (auto simp: intent_gen_Some)
    then show ?thesis using m by (auto simp: future_def intro!: exI [of _ m])
  qed
  moreover have "future rs (Suc n) \<subseteq> future rs n" unfolding future_def using Suc_leD by blast
  ultimately show ?thesis by blast
qed

lemma commit_exact:
  assumes K: "tracks rs T h op sch c" and play: "playable rs T h" and n: "n < length (rs_packets rs)"
    and cur: "dc_cursor c = first_batch rs n" and ok: "step_ok op (ups_at rs n, downs_at rs n)"
    and e: "exact_commit rs T n commit" and late: "T ! first_batch rs n \<le> started"
    and sch: "\<And>x. x \<in> set (downs_at rs n) \<Longrightarrow> compact_generation_id x \<in> sch"
      "\<And>x g. x \<in> set (ups_at rs n) \<Longrightarrow> intent_gen x = Some g \<Longrightarrow> g \<notin> sch"
  shows "\<exists>c'. commit_prepared_authored_frame_success_frozen commit started c = (Inr (), c') \<and>
    dc_cursor c' = first_batch rs n + unat (cp_batch_count (rs_packets rs ! n)) \<and>
    tracks rs T h (step_open op (ups_at rs n, downs_at rs n)) (sch - compact_generation_id ` set (downs_at rs n)) c'"
proof -
  let ?f = "pc_frame commit" and ?t = "T ! first_batch rs n" and ?us = "pc_up_intents commit" and ?ds = "pc_down_intents commit"
  note wf = playableD(1) [OF play] and inv = tracksD(1) [OF K]
  have f: "pf_first_batch_index ?f = first_batch rs n" "pf_packet_index ?f = n" "pf_packet_batch_count ?f = unat (cp_batch_count (rs_packets rs ! n))"
      "pf_authored_ticks ?f = ?t" "pf_immediate_up_mask ?f = cp_up_mask (rs_packets rs ! n)"
    and exact: "\<And>u. u \<in> set ?us \<Longrightarrow> exact_up rs n u"
    and dm: "map pd_key_slot ?ds = map compact_key_slot (downs_at rs n)" "map down_generation_id ?ds = map compact_generation_id (downs_at rs n)"
    using e unfolding exact_commit_def Let_def by blast+
  note ds = down_eq_slots [OF dm]
  note slots = exact_slots [OF wf e] and F = exact_up_facts [OF wf exact]
  have owner: "op (up_slot u) = Some (identity_generation_id (pu_identity u))" if "u \<in> set ?us" for u
    using ok F(2-4) [OF that] by (simp add: step_ok_def)
  have valid: "validate_frozen_authored_commit c commit = Inr ()"
  proof -
    have "rfold (\<lambda>u _. validate_frozen_up c n u) ?us () = Inr ()"
      by (rule rfold_unit_ok) (rule validate_exact_up [OF K wf exact owner])
    moreover have "validate_frozen_down c d = Inr ()" if "d \<in> set ?ds" for d
    proof -
      have s: "unat (pd_key_slot d) < MAX_KEYS" using ds(2) [OF that] down_generation(3) [OF wf n] by auto
      then show ?thesis using slot_lookup(3) [OF inv s] tracksD(7) [OF K s] by (simp add: validate_frozen_down_def Let_def)
    qed
    then have "rfold (\<lambda>d _. validate_frozen_down c d) ?ds () = Inr ()" by (rule rfold_unit_ok)
    ultimately show ?thesis using n f(2) tracksD(3) [OF K] by (simp add: validate_frozen_authored_commit_def)
  qed
  obtain r where r: "timeline_checked_add_duration ?t h = Inr r" "timeline_nat r = timeline_nat ?t + duration_nat h"
    using playableD(4) [OF play n] timeline.add_ok [of ?t h] timeline.add_err [of ?t h]
    by (cases "timeline_checked_add_duration ?t h") auto
  have rel: "releasable rs T h sch ?f started u" if u: "u \<in> set ?us" for u
  proof -
    have "bit (cp_up_mask (rs_packets rs ! n)) (up_slot u)"
      using wf_packet_at [OF wf n] F(2-4) [OF u] by (auto simp: packet_ok_def)
    moreover have "r \<le> started" if "held rs T h (identity_generation_id (pu_identity u)) r" for r
      using due_release [OF play n F(4) [OF u] F(2) [OF u] that] late by simp
    moreover have "identity_generation_id (pu_identity u) \<notin> sch" using sch(2) F(2,4) [OF u] by blast
    ultimately show ?thesis
      using F(1,5) [OF u] exact [OF u] f by (auto simp: releasable_def Let_def exact_up_def up_slot_def)
  qed
  obtain c1 where c1: "sfor ?us (commit_prepared_up ?f started) c = (Inr (), c1)" "dc_cursor c1 = dc_cursor c"
      "tracks rs T h (op |` (- set (map up_slot ?us))) sch c1"
    using tracks_releases [OF K, of ?us ?f started] rel slots(1) ok owner by (auto simp: step_ok_def)
  have press: "pressable rs T h c1 r d \<and> (op |` (- set (map up_slot ?us))) (unat (pd_key_slot d)) = None \<and> down_generation_id d \<in> sch"
    if "d \<in> set ?ds" for d
  proof -
    obtain x where x: "x \<in> set (downs_at rs n)" "unat (pd_key_slot d) = intent_slot x" "down_generation_id d = compact_generation_id x"
      using ds(2) [OF \<open>d \<in> set ?ds\<close>] by blast
    note g = down_generation [OF wf n x(1)]
    obtain q i where "up_at rs (compact_generation_id x) q i" "intent_slot (rs_intents rs ! i) = intent_slot x"
      using down_located [OF wf n x(1) g(1)] by blast
    then have "located c1 (down_generation_id d) q i (unat (pd_key_slot d))"
      using derived_located [OF tracksD(2) [OF c1(3)]] x by simp
    moreover have "held rs T h (down_generation_id d) r" using n x g(1) r(2) by (auto simp: held_def)
    moreover have "op (intent_slot x) = None" using ok x(1) by (simp add: step_ok_def)
    ultimately show ?thesis
      using x g sch(1) [OF x(1)] derived_lengths(5) [OF tracksD(2) [OF c1(3)]]
      by (auto simp: pressable_def restrict_map_def intent_gen_Some)
  qed
  have dist: "distinct (map (unat \<circ> pd_key_slot) ?ds)" "distinct (map down_generation_id ?ds)"
  proof -
    have "map (unat \<circ> pd_key_slot) ?ds = map intent_slot (downs_at rs n)"
      using arg_cong [OF ds(1), of "map fst"] by (simp add: comp_def)
    then show "distinct (map (unat \<circ> pd_key_slot) ?ds)" using ok by (simp add: step_ok_def)
    have g: "List.map_filter intent_gen (downs_at rs n) = map compact_generation_id (downs_at rs n)"
      using down_generation(1) [OF wf n] by (auto simp: List.map_filter_def filter_id_conv)
    have "distinct (concat (map (\<lambda>q. List.map_filter intent_gen (packet_downs (rs_intents rs) q)) (rs_packets rs)))"
      using schedule_generations(1) [OF wf] by (simp add: trace_downs_def packet_trace_def comp_def)
    then have "distinct (List.map_filter intent_gen (downs_at rs n))" using n by (force simp: distinct_concat_iff)
    then show "distinct (map down_generation_id ?ds)" unfolding dm(2) g .
  qed
  obtain c2 where c2: "sfor ?ds (commit_sent_down (pc_down_source_action_index commit) r) c1 = (Inr (), c2)" "dc_cursor c2 = dc_cursor c1"
      "tracks rs T h ((op |` (- set (map up_slot ?us))) ++ map_of (map (\<lambda>d. (unat (pd_key_slot d), down_generation_id d)) ?ds))
         (sch - down_generation_id ` set ?ds) c2"
    using tracks_presses [OF c1(3) _ dist, of r "pc_down_source_action_index commit"] press by blast
  have op2: "(op |` (- set (map up_slot ?us))) ++ map_of (map (\<lambda>d. (unat (pd_key_slot d), down_generation_id d)) ?ds)
      = step_open op (ups_at rs n, downs_at rs n)"
    unfolding ds(1) using slots(2) ok step_open_maps [OF ok] down_generation(1) [OF wf n] by (simp add: step_ok_def)
  have gens: "down_generation_id ` set ?ds = compact_generation_id ` set (downs_at rs n)"
    using arg_cong [OF dm(2), of set] by simp
  have K2: "tracks rs T h (step_open op (ups_at rs n, downs_at rs n)) (sch - compact_generation_id ` set (downs_at rs n)) c2"
    using c2(3) unfolding op2 gens .
  let ?c = "c2\<lparr>dc_cursor := dc_cursor c2 + pf_packet_batch_count ?f\<rparr>"
  have "dc_cursor c2 + pf_packet_batch_count ?f < usize_limit"
    using c2(2) c1(2) cur f(3) unsigned_less [of "cp_first_batch_index (rs_packets rs ! n)", where ?'a = nat]
      unsigned_less [of "cp_batch_count (rs_packets rs ! n)", where ?'a = nat] by (simp add: usize_limit_def)
  then have fin: "finish_commit (pf_packet_batch_count ?f) c2 = (Inr (), ?c)"
    using finish_commit_eq [OF tracksD(1) [OF K2]] by simp
  have "tracks rs T h (step_open op (ups_at rs n, downs_at rs n)) (sch - compact_generation_id ` set (downs_at rs n)) ?c"
  proof (rule tracks_update [OF K2])
    show "coord_inv ?c" using tracksD(1) [OF K2] by simp
    show "same_source c2 ?c" by (simp add: same_source_def)
  qed (use tracksD [OF K2] in \<open>auto simp: has_status_def\<close>)
  moreover have "commit_prepared_authored_frame_success_frozen commit started c = (Inr (), ?c)"
    using f(1,4) cur valid r(1) tracksD(5) [OF K] c1(1) c2(1) fin
    by (simp add: commit_prepared_authored_frame_success_frozen_def commit_prepared_up_intents_frozen_def check_cursor_def Let_def sbind_apply)
  ultimately show ?thesis using c1(2) c2(2) cur f(3) by (intro exI [of _ ?c]) simp
qed

section \<open>Playing a schedule\<close>

definition batch_offset :: "runtime_schedule \<Rightarrow> nat \<Rightarrow> nat" where
  "batch_offset rs n = sum_list (map (\<lambda>p. unat (cp_batch_count p)) (take n (rs_packets rs)))"

text \<open>The packets before \<open>n\<close> have been played.\<close>

definition playing :: "runtime_schedule \<Rightarrow> timeline_ticks list \<Rightarrow> duration_ticks \<Rightarrow> nat \<Rightarrow> coordinator \<Rightarrow> bool" where
  "playing rs T h n c \<longleftrightarrow> n \<le> length (rs_packets rs) \<and> dc_cursor c = batch_offset rs n \<and>
     (\<exists>op. replay (take n (packet_trace (rs_intents rs) (rs_packets rs))) (\<lambda>_. None) = Some op \<and>
        tracks rs T h op (future rs n) c)"

lemma batch_offsets:
  assumes "schedule_wf rs"
  shows "n < length (rs_packets rs) \<Longrightarrow> batch_offset rs n = first_batch rs n"
    and "n < length (rs_packets rs) \<Longrightarrow> batch_offset rs (Suc n) = first_batch rs n + unat (cp_batch_count (rs_packets rs ! n))"
    and "batch_offset rs (length (rs_packets rs)) = length (rs_batches rs)"
  using schedule_tiles(4,5) [OF assms] batches_end [OF assms] by (simp_all add: batch_offset_def)

lemma turn:
  assumes wf: "schedule_wf rs" and n: "n < length (rs_packets rs)"
    and op: "replay (take n (packet_trace (rs_intents rs) (rs_packets rs))) (\<lambda>_. None) = Some op"
  shows "step_ok op (ups_at rs n, downs_at rs n)"
    and "replay (take (Suc n) (packet_trace (rs_intents rs) (rs_packets rs))) (\<lambda>_. None) = Some (step_open op (ups_at rs n, downs_at rs n))"
    and "\<And>x g. x \<in> set (ups_at rs n) \<Longrightarrow> intent_gen x = Some g \<Longrightarrow> g \<notin> future rs n"
    and "\<And>x. x \<in> set (downs_at rs n) \<Longrightarrow> compact_generation_id x \<in> future rs n"
proof -
  let ?tr = "packet_trace (rs_intents rs) (rs_packets rs)"
  have n': "n < length ?tr" "?tr ! n = (ups_at rs n, downs_at rs n)" using n by (simp_all add: packet_trace_def)
  show ok: "step_ok op (ups_at rs n, downs_at rs n)"
    using replay_take [OF schedule_trace(1) [OF wf] n'(1)] op n'(2) by (metis option.inject)
  then show "replay (take (Suc n) ?tr) (\<lambda>_. None) = Some (step_open op (ups_at rs n, downs_at rs n))"
    using op n' by (simp add: take_Suc_conv_app_nth replay_append)
  show "g \<notin> future rs n" if x: "x \<in> set (ups_at rs n)" "intent_gen x = Some g" for x g
  proof
    assume "g \<in> future rs n"
    then obtain m c where m: "n \<le> m" "m < length (rs_packets rs)" "c \<in> set (downs_at rs m)" "intent_gen c = Some g"
      by (auto simp: future_def)
    obtain q i where q: "up_at rs g q i" "m < q" using down_located [OF wf m(2-4)] by blast
    obtain k where k: "k < length (ups_at rs n)" "x = ups_at rs n ! k" using x(1) by (auto simp: in_set_conv_nth)
    then have "up_at rs g n (unat (cp_up_intent_start (rs_packets rs ! n)) + k)" using n x(2) by (auto simp: up_at_def)
    then show False using up_at_unique [OF wf q(1)] q(2) m(1) by simp
  qed
  show "compact_generation_id x \<in> future rs n" if x: "x \<in> set (downs_at rs n)" for x
    using n x down_generation(1) [OF wf n x] by (auto simp: future_def)
qed

lemma playing_prepare:
  assumes P: "playing rs T h n c" and play: "playable rs T h" and n: "n < length (rs_packets rs)"
  shows "\<exists>pkt. prepare_current_authored_packet c = Inr (Some pkt) \<and> pp_frame pkt = pc_frame (pp_commit pkt) \<and>
    exact_commit rs T n (pp_commit pkt)"
proof -
  note wf = playableD(1) [OF play]
  obtain op where op: "replay (take n (packet_trace (rs_intents rs) (rs_packets rs))) (\<lambda>_. None) = Some op"
    and K: "tracks rs T h op (future rs n) c" and cur: "dc_cursor c = first_batch rs n"
    using P batch_offsets(1) [OF wf n] by (auto simp: playing_def)
  have "\<forall>x \<in> set (ups_at rs n). intent_gen x = op (intent_slot x)" using turn(1) [OF wf n op] by (simp add: step_ok_def)
  then show ?thesis by (rule prepare_exact [OF K play n cur])
qed

lemma playing_commit:
  assumes P: "playing rs T h n c" and play: "playable rs T h" and n: "n < length (rs_packets rs)"
    and e: "exact_commit rs T n commit" and late: "T ! first_batch rs n \<le> started"
  shows "\<exists>c'. commit_prepared_authored_frame_success_frozen commit started c = (Inr (), c') \<and> playing rs T h (Suc n) c'"
proof -
  note wf = playableD(1) [OF play]
  obtain op where op: "replay (take n (packet_trace (rs_intents rs) (rs_packets rs))) (\<lambda>_. None) = Some op"
    and K: "tracks rs T h op (future rs n) c" and cur: "dc_cursor c = first_batch rs n"
    using P batch_offsets(1) [OF wf n] by (auto simp: playing_def)
  note turn = turn [OF wf n op]
  have "\<exists>c'. commit_prepared_authored_frame_success_frozen commit started c = (Inr (), c') \<and>
      dc_cursor c' = first_batch rs n + unat (cp_batch_count (rs_packets rs ! n)) \<and>
      tracks rs T h (step_open op (ups_at rs n, downs_at rs n)) (future rs n - compact_generation_id ` set (downs_at rs n)) c'"
    by (rule commit_exact [OF K play n cur turn(1) e late]) (use turn(3,4) in blast)+
  then show ?thesis using n turn(2) batch_offsets(2) [OF wf n] unfolding future_step [OF wf n] by (auto simp: playing_def)
qed

text \<open>A packet of unmatched Ups only is passed as metadata.\<close>

lemma playing_metadata:
  assumes P: "playing rs T h n c" and play: "playable rs T h" and n: "n < length (rs_packets rs)"
    and e: "exact_commit rs T n commit" and masks: "cp_up_mask (rs_packets rs ! n) = 0" "cp_down_mask (rs_packets rs ! n) = 0"
  shows "\<exists>c'. commit_prepared_authored_frame_metadata_frozen commit c = (Inr (), c') \<and> playing rs T h (Suc n) c'"
proof -
  let ?p = "rs_packets rs ! n" and ?f = "pc_frame commit"
  note wf = playableD(1) [OF play]
  obtain op where op: "replay (take n (packet_trace (rs_intents rs) (rs_packets rs))) (\<lambda>_. None) = Some op"
    and K: "tracks rs T h op (future rs n) c" and cur: "dc_cursor c = first_batch rs n"
    using P batch_offsets(1) [OF wf n] by (auto simp: playing_def)
  note turn = turn [OF wf n op] and pok = wf_packet_at [OF wf n]
  have f: "pf_first_batch_index ?f = first_batch rs n" "pf_packet_batch_count ?f = unat (cp_batch_count ?p)"
      "pf_immediate_up_mask ?f = 0" "pf_down_mask ?f = 0"
    and ups: "map pu_intent (pc_up_intents commit) = filter (\<lambda>x. intent_gen x \<noteq> None) (ups_at rs n)"
    and downs: "map pd_key_slot (pc_down_intents commit) = map compact_key_slot (downs_at rs n)"
    using e masks unfolding exact_commit_def Let_def by simp_all
  have bits: "bit (cp_up_mask ?p) b \<longleftrightarrow> (\<exists>x \<in> set (ups_at rs n). intent_slot x = b \<and> intent_gen x \<noteq> None)"
      "bit (cp_down_mask ?p) b \<longleftrightarrow> b \<in> intent_slot ` set (downs_at rs n)" for b
    using pok by (simp_all add: packet_ok_def)
  have none: "intent_gen x = None" if x: "x \<in> set (ups_at rs n)" for x
    using bits(1) [of "intent_slot x"] masks(1) x by auto
  have nodown: "downs_at rs n = []" using bits(2) [of "intent_slot (hd (downs_at rs n))"] masks(2) by (cases "downs_at rs n") auto
  have empty: "pc_up_intents commit = []" "pc_down_intents commit = []" using ups downs none nodown by simp_all
  let ?c = "c\<lparr>dc_cursor := dc_cursor c + pf_packet_batch_count ?f\<rparr>"
  have "dc_cursor c + pf_packet_batch_count ?f < usize_limit"
    using cur f(2) unsigned_less [of "cp_first_batch_index ?p", where ?'a = nat] unsigned_less [of "cp_batch_count ?p", where ?'a = nat]
    by (simp add: usize_limit_def)
  then have run: "commit_prepared_authored_frame_metadata_frozen commit c = (Inr (), ?c)"
    using finish_commit_eq [OF tracksD(1) [OF K]] f cur empty
    by (simp add: commit_prepared_authored_frame_metadata_frozen_def commit_prepared_up_intents_frozen_def check_cursor_def Let_def sbind_apply)
  have "step_open op (ups_at rs n, downs_at rs n) = op"
    using turn(1) none unfolding nodown by (auto simp: step_open_def step_ok_def fun_eq_iff)
  moreover have "future rs (Suc n) = future rs n" using future_step [OF wf n] nodown by simp
  moreover have "tracks rs T h op (future rs n) ?c"
  proof (rule tracks_update [OF K])
    show "coord_inv ?c" using tracksD(1) [OF K] by simp
    show "same_source c ?c" by (simp add: same_source_def)
  qed (use tracksD [OF K] in \<open>auto simp: has_status_def\<close>)
  ultimately have "playing rs T h (Suc n) ?c" using n turn(2) batch_offsets(2) [OF wf n] cur f(2) by (auto simp: playing_def)
  then show ?thesis using run by blast
qed

lemma playing_end:
  assumes P: "playing rs T h (length (rs_packets rs)) c" and wf: "schedule_wf rs"
  shows "is_finished c" and "\<forall>st \<in> set (dc_generation_states c). st = Released"
proof -
  obtain op where op: "replay (take (length (rs_packets rs)) (packet_trace (rs_intents rs) (rs_packets rs))) (\<lambda>_. None) = Some op"
    and K: "tracks rs T h op (future rs (length (rs_packets rs))) c" and cur: "dc_cursor c = length (rs_batches rs)"
    using P batch_offsets(3) [OF wf] by (auto simp: playing_def)
  have "op = (\<lambda>_. None)" using op schedule_trace(1) [OF wf] by (simp add: packet_trace_def)
  then have none: "act c s = None" if "s < MAX_KEYS" for s using tracksD(8) [OF K that] by simp
  note inv = coord_invD [OF tracksD(1) [OF K]]
  have mask: "dc_active_mask c = 0" using owner_mask [OF inv(5)] none by (intro bit_word_eqI) simp
  have pmask: "dc_pending_release_mask c = 0" using pending_mask [OF inv(6)] tracksD(6) [OF K] by (intro bit_word_eqI) simp
  have noact: "\<not> has_status c g Active" for g
    using owner_exists [OF inv(5)] none by (metis option.distinct(1))
  show rel: "\<forall>st \<in> set (dc_generation_states c). st = Released"
  proof
    fix st assume "st \<in> set (dc_generation_states c)"
    then obtain i where i: "i < length (dc_generation_states c)" "dc_generation_states c ! i = st" by (auto simp: in_set_conv_nth)
    have tot: "length (dc_generation_states c) = total_of c" using inv(1) by (simp add: ledger_base_def)
    then have u: "unat (word_of_nat i :: generation_id) = i" using i(1) total_less [of c] by (simp add: unat_word_of_nat_small)
    have "has_status c (word_of_nat i) Released"
      using tracksD(11) [OF K, of "word_of_nat i"] noact u i(1) tot by (simp add: future_def)
    then show "st = Released" using i u by (simp add: has_status_def)
  qed
  let ?k = "dc_counters c"
  have cnt: "count_list (dc_generation_states c) st = (if st = Released then total_of c else 0)" for st
  proof -
    have "count_list xs st = (if st = Released then length xs else 0)" if "\<forall>x \<in> set xs. x = Released" for xs
      using that by (induction xs) auto
    then show ?thesis using rel inv(1) by (simp add: ledger_base_def)
  qed
  have "counters_match ?k (dc_generation_states c)" using inv(1) by (simp add: ledger_base_def)
  note k = counters_matchD [OF this, unfolded cnt]
  have "gc_released ?k = dc_generation_count c" "gc_dropped_conflict ?k = 0" "gc_dropped_backend ?k = 0"
    "gc_dropped_expired ?k = 0" "gc_cancelled ?k = 0"
    using k by (simp_all add: word_unat_eq_iff)
  moreover have "\<forall>p \<in> set (dc_pending_release_by_slot c). p = None" "\<forall>t \<in> set (dc_cancelled_up_by_slot c). t = None"
    using tracksD(6,7) [OF K] inv(6,7) by (auto simp: in_set_conv_nth)
  ultimately show "is_finished c"
    using mask pmask cur tracksD(3) [OF K] derived_lengths(5) [OF tracksD(2) [OF K]] by (simp add: is_finished_def Let_def)
qed

lemma playing_start:
  assumes wf: "schedule_wf rs" and f: "fresh_for rs u h conv c"
  shows "playing rs (dc_batch_scheduled_ticks c) h 0 c"
proof -
  obtain ticks L where c: "c = fresh rs u h ticks L" using f by (auto simp: fresh_for_def)
  have inv: "coord_inv c" and d: "derived rs c" using fresh_for_ready [OF wf f] derived_fresh [OF wf f] by (simp_all add: ready_def)
  have "has_status c g Scheduled" "g \<in> future rs 0" if g: "unat g < total_of c" for g
  proof -
    show "has_status c g Scheduled" using g c by (simp add: has_status_def)
    have "g < rs_generation_count rs" using g c by (simp add: word_less_nat_alt)
    from generation_paired [OF wf this] obtain i j x where "i < j" "j < length (rs_packets rs)" "x \<in> set (downs_at rs i)" "intent_gen x = Some g"
      by metis
    then show "g \<in> future rs 0" by (auto simp: future_def intro!: exI [of _ i])
  qed
  then have "tracks rs (dc_batch_scheduled_ticks c) h (\<lambda>_. None) (future rs 0) c"
    using inv d c unfolding tracks_def by simp
  then show ?thesis using c by (simp add: playing_def batch_offset_def)
qed

section \<open>From admission to playback\<close>

text \<open>The conversion the worker passes to the constructor (\<open>boot.rs\<close> and \<open>prepared.rs\<close>).\<close>

fun time_conversion_debug :: "time_conversion_error \<Rightarrow> string" where
  "time_conversion_debug InvalidFrequency = ''InvalidFrequency''"
| "time_conversion_debug ConversionOverflow = ''Overflow''"

definition coordinator_ticks :: "qpc_clock \<Rightarrow> u64 \<Rightarrow> timeline_ticks coord_result" where
  "coordinator_ticks qpc_clock us =
     map_err (\<lambda>error. Err (TimeConversion (time_conversion_debug error))) (timeline_from_us qpc_clock us)"

lemma coordinator_ticks_ok: "coordinator_ticks clk us = Inr t \<longleftrightarrow> qpc_microseconds_to_ticks clk us = Some t"
  by (auto simp: coordinator_ticks_def qpc_microseconds_to_ticks_def result_simps split: sum.splits)

text \<open>The hold floor of the last packet stays in the clock's range.\<close>

definition floors_fit :: "runtime_schedule \<Rightarrow> qpc_clock \<Rightarrow> duration_ticks \<Rightarrow> bool" where
  "floors_fit rs clk h \<longleftrightarrow> (\<forall>p \<in> set (rs_packets rs).
     ceil_ticks (unat (frequency_hz clk)) (unat (cp_scheduled_us p)) + duration_nat h < 2 ^ 64)"

lemma batch_time:
  assumes wf: "schedule_wf rs" and b: "b \<in> set (rs_batches rs)"
  obtains n where "n < length (rs_packets rs)" and "cb_scheduled_us b = cp_scheduled_us (rs_packets rs ! n)"
proof -
  have "b \<in> set (concat (map (packet_batches (rs_batches rs)) (rs_packets rs)))"
    using wf b by (simp add: schedule_wf_def arena_wf_def)
  then obtain n where n: "n < length (rs_packets rs)" "b \<in> set (packet_batches (rs_batches rs) (rs_packets rs ! n))"
    by (auto simp: in_set_conv_nth [of _ "rs_packets rs"])
  then have "cb_scheduled_us b = cp_scheduled_us (rs_packets rs ! n)" using wf_packet_at [OF wf n(1)] by (simp add: packet_ok_def)
  then show ?thesis using that n(1) by blast
qed

lemma admitted_new:
  assumes wf: "schedule_wf rs" and feas: "feasible rs cfg (qpc_microseconds_to_ticks clk)"
  shows "conversion_errors (coordinator_ticks clk) (rs_batches rs) = {}"
proof -
  have "coordinator_ticks clk (cb_scheduled_us b) \<noteq> Inl e" if b: "b \<in> set (rs_batches rs)" for b e
  proof -
    obtain n where n: "n < length (rs_packets rs)" "cb_scheduled_us b = cp_scheduled_us (rs_packets rs ! n)"
      by (rule batch_time [OF wf b])
    then obtain t where "coordinator_ticks clk (cb_scheduled_us b) = Inr t"
      using feasible_time [OF feas n(1)] by (auto simp: coordinator_ticks_ok)
    then show ?thesis by simp
  qed
  then show ?thesis by (auto simp: conversion_errors_def)
qed

lemma admitted_playable:
  assumes wf: "schedule_wf rs" and feas: "feasible rs cfg (qpc_microseconds_to_ticks clk)"
    and f: "fresh_for rs u (tc_effective_min_hold_ticks cfg) (coordinator_ticks clk) c"
    and fit: "floors_fit rs clk (tc_effective_min_hold_ticks cfg)"
  shows "playable rs (dc_batch_scheduled_ticks c) (tc_effective_min_hold_ticks cfg)"
proof -
  let ?h = "tc_effective_min_hold_ticks cfg" and ?T = "dc_batch_scheduled_ticks c"
  have T: "map Inr ?T = map (\<lambda>b. coordinator_ticks clk (cb_scheduled_us b)) (rs_batches rs)" using f by (auto simp: fresh_for_def)
  have len: "length ?T = length (rs_batches rs)" using T by (rule map_eq_imp_length_eq)
  have conv: "qpc_microseconds_to_ticks clk (cp_scheduled_us (rs_packets rs ! n)) = Some (?T ! first_batch rs n)"
    if n: "n < length (rs_packets rs)" for n
  proof -
    have "first_batch rs n < length (rs_batches rs)" by (rule first_batch_member(1) [OF wf n])
    then have "Inr (?T ! first_batch rs n) = coordinator_ticks clk (cb_scheduled_us (rs_batches rs ! first_batch rs n))"
      using arg_cong [OF T, of "\<lambda>l. l ! first_batch rs n"] len by simp
    then show ?thesis using batch_at_cursor(2) [OF wf n] by (metis coordinator_ticks_ok)
  qed
  have hold: "timeline_nat (?T ! first_batch rs i) + duration_nat ?h \<le> timeline_nat (?T ! first_batch rs j)"
    if "i < j" "j < length (rs_packets rs)" "c \<in> set (downs_at rs i)" "d \<in> set (ups_at rs j)" "intent_gen c = Some g" "intent_gen d = Some g"
    for i j c d g
    using feasible_hold [OF feas that(1-4) _ _ conv conv] that by simp
  have "timeline_nat (?T ! first_batch rs n) + duration_nat ?h < 2 ^ 64" if n: "n < length (rs_packets rs)" for n
    using fit nth_mem [OF n] conv [OF n] unfolding floors_fit_def qpc_microseconds_to_ticks_ok by metis
  then show ?thesis using wf len hold unfolding playable_def by blast
qed

end
