(* ===== verification/Sky_Stream.thy ===== *)
theory Sky_Stream
  imports Sky_Planning Sky_Playback
begin

unbundle bit_operations_syntax

text \<open>
  Native admission (\<open>session.rs\<close>) and the prepared dispatch stream (\<open>worker/prepared.rs\<close>): at start-up a
  simulated coordinator plays the whole schedule once, packet by packet, with the planner of the run time
  and the frozen commits of the run time; every packet leaves one immutable entry, and the coordinator
  is rebuilt for the real run. Sizes of the memory layout, the allocator and the start-up checkpoints are
  arguments. An error message of the code is a constructor of \<open>stream_error\<close>, one per format string.
\<close>

section \<open>Native admission\<close>

datatype admission_error =
    ScheduleAdmissionFailed schedule_timing_error
  | HoldFloorConversionFailed time_conversion_error
  | ReleaseGapConversionFailed time_conversion_error
  | TickDomainAdmissionFailed schedule_timing_error

definition validate_native_schedule_timing_with_release_gap ::
  "runtime_schedule \<Rightarrow> u64 \<Rightarrow> u64 \<Rightarrow> qpc_clock \<Rightarrow> admission_error failure + unit" where
  "validate_native_schedule_timing_with_release_gap schedule effective_min_hold_us min_release_gap_us qpc_clock =
     rbind (map_err (map_failure ScheduleAdmissionFailed)
              (validate_min_hold_and_release_gap_feasibility schedule effective_min_hold_us min_release_gap_us)) (\<lambda>_.
     rbind (map_err (\<lambda>e. Err (HoldFloorConversionFailed e)) (duration_from_us qpc_clock effective_min_hold_us))
       (\<lambda>effective_min_hold_ticks.
     rbind (map_err (\<lambda>e. Err (ReleaseGapConversionFailed e)) (duration_from_us qpc_clock min_release_gap_us))
       (\<lambda>min_release_gap_ticks.
     map_err (map_failure TickDomainAdmissionFailed)
       (validate_min_hold_and_release_gap_feasibility_ticks schedule effective_min_hold_us effective_min_hold_ticks
          min_release_gap_us min_release_gap_ticks (qpc_microseconds_to_ticks qpc_clock)))))"

record timing_options =
  to_game_fps :: u16
  to_min_hold_us :: u64
  to_min_release_gap_us :: u64
  to_frame_us :: u64
  to_frame_base_hold_us :: u64
  to_timing_margin_us :: u64
  to_strict_timing :: bool
  to_strict_down_completion_late_us :: u64
  to_strict_up_completion_late_us :: u64
  to_input_path_warn_us :: u64

datatype timing_contract_error =
    HoldContractOverflow
  | HoldContractMismatch u64 u64
  | ReleaseGapContractOverflow
  | ReleaseGapContractMismatch u64 u64

definition validate_native_timing_contract :: "timing_options \<Rightarrow> timing_contract_error + unit" where
  "validate_native_timing_contract timing =
     rbind (ok_or (checked_add (to_frame_base_hold_us timing) (to_timing_margin_us timing)) HoldContractOverflow)
       (\<lambda>expected_min_hold_us.
     if to_min_hold_us timing \<noteq> expected_min_hold_us
     then Inl (HoldContractMismatch (to_min_hold_us timing) expected_min_hold_us)
     else rbind (ok_or (checked_add (to_frame_us timing) (to_timing_margin_us timing)) ReleaseGapContractOverflow)
       (\<lambda>expected_min_release_gap_us.
     if to_min_release_gap_us timing \<noteq> expected_min_release_gap_us
     then Inl (ReleaseGapContractMismatch (to_min_release_gap_us timing) expected_min_release_gap_us)
     else Inr ()))"

section \<open>The stream\<close>

datatype prepared_dispatch_entry =
    PhysicalEntry authored_batch_view
  | MetadataEntry timeline_ticks prepared_authored_commit

record prepared_dispatch_stream =
  ps_entries :: "prepared_dispatch_entry list"
  ps_cursor :: usize

definition MAX_PREPARED_STREAM_BYTES :: usize where
  "MAX_PREPARED_STREAM_BYTES = 512 * 1024 * 1024"

text \<open>\<open>size_of\<close> of \<open>TimelineTicks\<close>, \<open>GenerationStatus\<close>, \<open>Option<(usize, usize)>\<close> and \<open>PreparedDispatchEntry\<close>,
  as the compiler lays them out.\<close>

record memory_layout =
  size_of_ticks :: usize
  size_of_status :: usize
  size_of_location :: usize
  size_of_entry :: usize

datatype stream_error =
    GenerationLedgerTooLarge
  | MemoryEstimateOverflowed
  | AdmissionBoundExceeded usize
  | AllocationFailed string
  | StreamCheckpointFailed string
  | PlanningFailed planning_error
  | WorkWithoutEntry
  | MetadataSimulationFailed coordinator_error
  | DeferredReleasePrepared u32
  | DeferredMaskPrepared u32
  | OverlappingMasks u32
  | PhysicalSimulationFailed coordinator_error
  | DeferredReleaseLeft
  | CoordinatorResetFailed coordinator_error

definition checked_mul_usize :: "usize \<Rightarrow> usize \<Rightarrow> usize option" where
  "checked_mul_usize a b = (if a * b < usize_limit then Some (a * b) else None)"

definition coordinator_storage :: "memory_layout \<Rightarrow> usize \<Rightarrow> usize \<Rightarrow> usize option" where
  "coordinator_storage layout entry_capacity generation_capacity =
     Option.bind (checked_mul_usize entry_capacity (size_of_ticks layout)) (\<lambda>bytes.
     Option.bind (checked_mul_usize generation_capacity (size_of_status layout + size_of_location layout)) (\<lambda>ledger.
     checked_add_usize bytes ledger))"

definition stream_storage :: "memory_layout \<Rightarrow> usize \<Rightarrow> usize \<Rightarrow> usize option" where
  "stream_storage layout entry_capacity coordinator_bytes =
     Option.bind (checked_mul_usize entry_capacity (size_of_entry layout)) (\<lambda>bytes.
     Option.bind (checked_mul_usize coordinator_bytes 2) (\<lambda>both.
     checked_add_usize bytes both))"

definition admit_memory :: "memory_layout \<Rightarrow> runtime_schedule \<Rightarrow> stream_error failure + usize" where
  "admit_memory layout schedule =
     (let entry_capacity = length (rs_batches schedule) in
     rbind (if unat (rs_generation_count schedule) < usize_limit then Inr (unat (rs_generation_count schedule))
            else Inl (Err GenerationLedgerTooLarge)) (\<lambda>generation_capacity.
     rbind (ok_or (coordinator_storage layout entry_capacity generation_capacity) (Err MemoryEstimateOverflowed)) (\<lambda>coordinator_bytes.
     rbind (ok_or (stream_storage layout entry_capacity coordinator_bytes) (Err MemoryEstimateOverflowed)) (\<lambda>estimated_bytes.
     if estimated_bytes > MAX_PREPARED_STREAM_BYTES then Inl (Err (AdmissionBoundExceeded estimated_bytes))
     else Inr entry_capacity))))"

text \<open>The body of the loop after its checkpoint: one plan, one entry, one simulated commit.\<close>

definition stream_step ::
  "materialized_profile \<Rightarrow> coordinator \<Rightarrow> stream_error failure + prepared_dispatch_entry \<times> coordinator" where
  "stream_step profile simulator =
     rbind (map_err (map_failure PlanningFailed) (plan_next_dispatch_projected simulator (QpcTicks 0) profile)) (\<lambda>plan.
     case plan of
       NoWork \<Rightarrow> Inl (Err WorkWithoutEntry)
     | MetadataPlan metadata \<Rightarrow>
         (case commit_prepared_authored_frame_metadata_frozen (mb_commit metadata) simulator of
            (Inl e, _) \<Rightarrow> Inl (map_failure MetadataSimulationFailed e)
          | (Inr _, simulator') \<Rightarrow> Inr (MetadataEntry (mb_deadline_ticks metadata) (mb_commit metadata), simulator'))
     | PhysicalPlan physical \<Rightarrow>
         let view = pl_authored_view physical; action = av_batch_source_action_index view in
         case av_commit view of
           PendingReleaseCommit _ _ \<Rightarrow> Inl (Err (DeferredReleasePrepared action))
         | Coalesced _ _ _ \<Rightarrow> Inl (Err (DeferredReleasePrepared action))
         | Authored commit \<Rightarrow>
             if pf_deferred_up_mask (pc_frame commit) \<noteq> 0 then Inl (Err (DeferredMaskPrepared action))
             else if pkt_up_mask (av_packet_masks view) AND pkt_down_mask (av_packet_masks view) \<noteq> 0
             then Inl (Err (OverlappingMasks action))
             else let offset_ticks = pb_effective_scheduled_ticks (av_prepared_batch view) in
             (case commit_prepared_authored_frame_success_frozen commit offset_ticks simulator of
                (Inl e, _) \<Rightarrow> Inl (map_failure PhysicalSimulationFailed e)
              | (Inr _, simulator') \<Rightarrow> Inr (PhysicalEntry view, simulator')))"

text \<open>The loop, with fuel for its iterations: \<open>None\<close> when the fuel runs out before the schedule does.\<close>

type_synonym 'k stream_checkpoint = "('k, string failure, unit) smethod"

fun stream_loop ::
  "nat \<Rightarrow> 'k stream_checkpoint \<Rightarrow> materialized_profile \<Rightarrow> usize \<Rightarrow> prepared_dispatch_entry list \<Rightarrow> coordinator \<Rightarrow> 'k \<Rightarrow>
   ((stream_error failure + prepared_dispatch_entry list \<times> coordinator) \<times> 'k) option" where
  "stream_loop fuel checkpoint profile visited_batches entries simulator k =
     (if dc_cursor simulator < length (rs_batches (dc_schedule simulator)) then
        (case fuel of
           0 \<Rightarrow> None
         | Suc rest \<Rightarrow>
             (case (if visited_batches mod 64 = 0 then checkpoint else sret ()) k of
                (Inl e, k') \<Rightarrow> Some (Inl (map_failure StreamCheckpointFailed e), k')
              | (Inr _, k') \<Rightarrow>
                  (case stream_step profile simulator of
                     Inl e \<Rightarrow> Some (Inl e, k')
                   | Inr (entry, simulator') \<Rightarrow>
                       stream_loop rest checkpoint profile (min (visited_batches + 1) (usize_limit - 1))
                         (entries @ [entry]) simulator' k')))
      else Some (Inr (entries, simulator), k))"

declare stream_loop.simps [simp del]

text \<open>Allocation failure is \<open>Some\<close> message of \<open>try_reserve\<close>.\<close>

definition build_with_checkpoints ::
  "nat \<Rightarrow> memory_layout \<Rightarrow> (usize \<Rightarrow> string option) \<Rightarrow> coordinator \<Rightarrow> qpc_clock \<Rightarrow> materialized_profile \<Rightarrow>
   'k stream_checkpoint \<Rightarrow> 'k stream_checkpoint \<Rightarrow> 'k \<Rightarrow>
   ((stream_error failure + prepared_dispatch_stream \<times> coordinator) \<times> 'k) option" where
  "build_with_checkpoints fuel layout try_reserve simulator qpc_clock profile stream_checkpoint coordinator_checkpoint k =
     (case admit_memory layout (dc_schedule simulator) of
        Inl e \<Rightarrow> Some (Inl e, k)
      | Inr entry_capacity \<Rightarrow>
     (case try_reserve entry_capacity of
        Some message \<Rightarrow> Some (Inl (Err (AllocationFailed message)), k)
      | None \<Rightarrow>
     (case stream_loop fuel stream_checkpoint profile 0 [] simulator k of
        None \<Rightarrow> None
      | Some (Inl e, k') \<Rightarrow> Some (Inl e, k')
      | Some (Inr (entries, simulator'), k') \<Rightarrow>
          if earliest_pending_release_ticks simulator' \<noteq> None then Some (Inl (Err DeferredReleaseLeft), k')
          else (case coordinator_checkpoint k' of
             (Inl e, k'') \<Rightarrow> Some (Inl (map_failure StreamCheckpointFailed e), k'')
           | (Inr _, k'') \<Rightarrow>
               (case try_new_ticks_with_checkpoint (dc_schedule simulator') (dc_min_hold_us simulator')
                       (dc_min_hold_ticks simulator') (coordinator_ticks qpc_clock)
                       (\<lambda>s. apfst (map_err (map_failure (\<lambda>_. PreparationCancelled))) (coordinator_checkpoint s)) k'' of
                  (Inl e, k3) \<Rightarrow> Some (Inl (map_failure CoordinatorResetFailed e), k3)
                | (Inr coordinator, k3) \<Rightarrow> Some (Inr (\<lparr>ps_entries = entries, ps_cursor = 0\<rparr>, coordinator), k3))))))"

definition stream_current :: "prepared_dispatch_stream \<Rightarrow> prepared_dispatch_entry option" where
  "stream_current self = (if ps_cursor self < length (ps_entries self) then Some (ps_entries self ! ps_cursor self) else None)"

definition stream_advance :: "(prepared_dispatch_stream, string, unit) smethod" where
  "stream_advance self =
     (case checked_add_usize (ps_cursor self) 1 of
        None \<Rightarrow> (Inl ''prepared dispatch stream cursor overflow'', self)
      | Some cursor \<Rightarrow> (Inr (), self\<lparr>ps_cursor := cursor\<rparr>))"

definition is_exhausted :: "prepared_dispatch_stream \<Rightarrow> bool" where
  "is_exhausted self \<longleftrightarrow> ps_cursor self \<ge> length (ps_entries self)"

section \<open>The entry of a packet\<close>

abbreviation packet_at :: "runtime_schedule \<Rightarrow> nat \<Rightarrow> physical_packet" where
  "packet_at rs n \<equiv> packet_new (cp_up_mask (rs_packets rs ! n)) (cp_down_mask (rs_packets rs ! n))"

definition entry_for ::
  "runtime_schedule \<Rightarrow> timeline_ticks list \<Rightarrow> materialized_profile \<Rightarrow> nat \<Rightarrow> prepared_dispatch_entry \<Rightarrow> bool" where
  "entry_for rs T profile n entry \<longleftrightarrow>
     (case entry of
        PhysicalEntry view \<Rightarrow> view_ok profile (T ! first_batch rs n) (packet_at rs n) view \<and>
          (\<exists>commit. av_commit view = Authored commit \<and> exact_commit rs T n commit)
      | MetadataEntry ticks commit \<Rightarrow> packet_at rs n = packet_new 0 0 \<and> ticks = T ! first_batch rs n \<and> exact_commit rs T n commit)"

lemma playing_no_pending:
  assumes "playing rs T h n c"
  shows "earliest_pending_release_ticks c = None" and "coalesced c a = 0"
proof -
  obtain op where K: "tracks rs T h op (future rs n) c" using assms by (auto simp: playing_def)
  have "\<forall>p \<in> set (dc_pending_release_by_slot c). p = None"
    using tracksD(6) [OF K] coord_invD(6) [OF tracksD(1) [OF K]] by (auto simp: in_set_conv_nth pending_inv_def)
  then have "pendings c = []" by (auto simp: pendings_def List.map_filter_def filter_empty_conv)
  then show "earliest_pending_release_ticks c = None" "coalesced c a = 0"
    by (simp_all add: earliest_pending_release_ticks_def coalesced_def)
qed

lemma packet_sendable:
  assumes wf: "schedule_wf rs" and n: "n < length (rs_packets rs)" and phys: "packet_at rs n \<noteq> packet_new 0 0"
  shows "sendable (packet_at rs n)"
proof -
  let ?p = "rs_packets rs ! n"
  note ok = wf_packet_at [OF wf n]
  have bits: "bit (cp_up_mask ?p) b \<longleftrightarrow> (\<exists>x \<in> set (ups_at rs n). intent_slot x = b \<and> intent_gen x \<noteq> None)"
      "bit (cp_down_mask ?p) b \<longleftrightarrow> b \<in> intent_slot ` set (downs_at rs n)" for b
    using ok by (simp_all add: packet_ok_def)
  have up: "intent_slot x < registry_len (rs_key_registry rs)" if "x \<in> set (ups_at rs n)" for x
    using ok that by (simp add: packet_ok_def)
  have len: "registry_len (rs_key_registry rs) \<le> MAX_KEYS" using wf by (simp add: schedule_wf_def arena_wf_def registry_wf_def)
  have "b < MAX_KEYS" if "bit (cp_up_mask ?p) b \<or> bit (cp_down_mask ?p) b" for b
    using that bits [of b] up len down_generation(3) [OF wf n] by fastforce
  then show ?thesis
    using packet_masks_disjoint [OF wf nth_mem [OF n]] phys by (auto simp: sendable_def packet_new_def)
qed

lemma qpc_zero_add: "qpc_checked_add_duration (QpcTicks 0) (DurationTicks t) = Inr (QpcTicks t)"
  using unsigned_less [of t, where ?'a = nat] by (simp add: qpc_checked_add_duration_def checked_add_def)

lemma playing_step:
  assumes P: "playing rs T h n c" and play: "playable rs T h" and n: "n < length (rs_packets rs)" and p: "profile_ok profile"
  shows "\<exists>entry c'. stream_step profile c = Inr (entry, c') \<and> entry_for rs T profile n entry \<and> playing rs T h (Suc n) c'"
proof -
  let ?t = "T ! first_batch rs n"
  obtain pkt where prep: "prepare_current_authored_packet c = Inr (Some pkt)" and fr: "pp_frame pkt = pc_frame (pp_commit pkt)"
    and e: "exact_commit rs T n (pp_commit pkt)"
    using playing_prepare [OF P play n] by blast
  have f: "pf_authored_ticks (pp_frame pkt) = ?t" "pf_deferred_up_mask (pp_frame pkt) = 0" "packet_of pkt 0 = packet_at rs n"
    using e unfolding fr exact_commit_def Let_def by (simp_all add: packet_of_def fr)
  note none = playing_no_pending [OF P]
  have plan: "plan_next_dispatch_projected c (QpcTicks 0) profile =
    (if packet_at rs n = packet_new 0 0
     then Inr (MetadataPlan \<lparr>mb_commit = pp_commit pkt, mb_deadline_ticks = ?t, mb_physical_target_qpc = QpcTicks (timeline_u64 ?t)\<rparr>)
     else rbind (planning_view (prepare_authored_frame_view_from_prepared c pkt 0 ?t profile))
          (\<lambda>view. physical_plan_from_view view (QpcTicks 0)))"
    using plan_at_authored_turn [OF prep f(1), of "QpcTicks 0" profile] none f(3) by (simp add: qpc_zero_add)
  show ?thesis
  proof (cases "packet_at rs n = packet_new 0 0")
    case True
    then obtain c' where c': "commit_prepared_authored_frame_metadata_frozen (pp_commit pkt) c = (Inr (), c')" "playing rs T h (Suc n) c'"
      using playing_metadata [OF P play n e] by (auto simp: packet_new_def)
    then have "stream_step profile c = Inr (MetadataEntry ?t (pp_commit pkt), c')" using plan True by (simp add: stream_step_def)
    then show ?thesis using c' True e by (auto simp: entry_for_def)
  next
    case False
    note s = packet_sendable [OF playableD(1) [OF play] n False]
    obtain view where view: "prepare_authored_frame_view_from_prepared c pkt 0 ?t profile = Inr (Some view)"
        "view_ok profile ?t (packet_at rs n) view" "av_commit view = Authored (pp_commit pkt)"
      using authored_view_iff(2) [OF p, of pkt 0 c ?t] s unfolding f by auto
    have cm: "commits_packet (packet_at rs n) (av_commit view)"
      using authored_view_commits [OF fr, of view 0 ?t] view(3) f(3) by simp
    obtain c' where c': "commit_prepared_authored_frame_success_frozen (pp_commit pkt) ?t c = (Inr (), c')" "playing rs T h (Suc n) c'"
      using playing_commit [OF P play n e order_refl] by blast
    have "stream_step profile c = Inr (PhysicalEntry view, c')"
      using plan False view c'(1) f(2) fr s
      by (simp add: stream_step_def planning_view_def physical_plan_ok [OF view(2) cm] qpc_zero_add physical_plan_def
          Let_def view_ok_def sendable_def)
    then show ?thesis using c' view e by (auto simp: entry_for_def)
  qed
qed

fun entry_offset :: "prepared_dispatch_entry \<Rightarrow> timeline_ticks" where
  "entry_offset (PhysicalEntry view) = pb_effective_scheduled_ticks (av_prepared_batch view)"
| "entry_offset (MetadataEntry offset_ticks _) = offset_ticks"

lemma entry_offset_for: "entry_for rs T profile n entry \<Longrightarrow> entry_offset entry = T ! first_batch rs n"
  by (cases entry) (simp_all add: entry_for_def view_ok_def)

section \<open>The whole stream\<close>

definition calls_pass :: "'k stream_checkpoint \<Rightarrow> bool" where
  "calls_pass checkpoint \<longleftrightarrow> (\<forall>k. fst (checkpoint k) = Inr ())"

lemma calls_passD: "calls_pass checkpoint \<Longrightarrow> checkpoint k = (Inr (), snd (checkpoint k))"
  by (simp add: calls_pass_def prod_eq_iff)

lemma playing_cursor:
  assumes P: "playing rs T h n c" and wf: "schedule_wf rs"
  shows "dc_cursor c < length (rs_batches (dc_schedule c)) \<longleftrightarrow> n < length (rs_packets rs)"
proof -
  have s: "dc_schedule c = rs" and n: "n \<le> length (rs_packets rs)" and cur: "dc_cursor c = batch_offset rs n"
    using P by (auto simp: playing_def tracks_def)
  show ?thesis
  proof (cases "n < length (rs_packets rs)")
    case True
    then show ?thesis using first_batch_member(1) [OF wf True] batch_offsets(1) [OF wf True] s cur by simp
  next
    case False
    then have "n = length (rs_packets rs)" using n by simp
    then show ?thesis using batch_offsets(3) [OF wf] s cur by simp
  qed
qed

lemma stream_loop_builds:
  assumes play: "playable rs T h" and p: "profile_ok profile" and cp: "calls_pass checkpoint"
    and P: "playing rs T h n c" and fuel: "length (rs_packets rs) - n \<le> fuel"
    and acc: "length acc = n" "\<forall>i < n. entry_for rs T profile i (acc ! i)"
  shows "\<exists>entries c' k'. stream_loop fuel checkpoint profile v acc c k = Some (Inr (entries, c'), k') \<and>
    length entries = length (rs_packets rs) \<and> (\<forall>i < length (rs_packets rs). entry_for rs T profile i (entries ! i)) \<and>
    playing rs T h (length (rs_packets rs)) c'"
  using P fuel acc
proof (induction fuel arbitrary: n c acc v k)
  case 0
  then have "n = length (rs_packets rs)" by (auto simp: playing_def)
  then show ?case
    using 0 playing_cursor [OF 0(1) playableD(1) [OF play]] by (subst stream_loop.simps) simp
next
  case (Suc fuel)
  show ?case
  proof (cases "n < length (rs_packets rs)")
    case False
    then have "n = length (rs_packets rs)" using Suc.prems(1) by (simp add: playing_def)
    then show ?thesis
      using Suc.prems playing_cursor [OF Suc.prems(1) playableD(1) [OF play]] by (subst stream_loop.simps) simp
  next
    case True
    obtain entry c' where step: "stream_step profile c = Inr (entry, c')" "entry_for rs T profile n entry" "playing rs T h (Suc n) c'"
      using playing_step [OF Suc.prems(1) play True p] by blast
    obtain k' where k': "(if v mod 64 = 0 then checkpoint else sret ()) k = (Inr (), k')"
      by (rule that [of "snd ((if v mod 64 = 0 then checkpoint else sret ()) k)"])
        (use calls_passD [OF cp, of k] in \<open>auto simp: prod_eq_iff\<close>)
    have "\<exists>entries c'' k''. stream_loop fuel checkpoint profile (min (v + 1) (usize_limit - 1)) (acc @ [entry]) c' k' = Some (Inr (entries, c''), k'') \<and>
        length entries = length (rs_packets rs) \<and> (\<forall>i < length (rs_packets rs). entry_for rs T profile i (entries ! i)) \<and>
        playing rs T h (length (rs_packets rs)) c''"
      by (rule Suc.IH [OF step(3)]) (use Suc.prems step(2) in \<open>auto simp: nth_append less_Suc_eq\<close>)
    then show ?thesis
      using playing_cursor [OF Suc.prems(1) playableD(1) [OF play]] True step(1) k' by (subst stream_loop.simps) simp
  qed
qed

lemma native_admission:
  assumes comp: "compile_runtime_intents actions codes = Inr rs"
    and adm: "validate_native_schedule_timing_with_release_gap rs hold_us gap_us clk = Inr ()"
    and hold: "duration_from_us clk hold_us = Inr hold_ticks"
  obtains gap_ticks where "duration_from_us clk gap_us = Inr gap_ticks"
    and "feasible rs (timing_config_of hold_us hold_ticks gap_us gap_ticks) (qpc_microseconds_to_ticks clk)"
proof -
  obtain gap_ticks where g: "duration_from_us clk gap_us = Inr gap_ticks"
      "validate_min_hold_and_release_gap_feasibility_ticks rs hold_us hold_ticks gap_us gap_ticks (qpc_microseconds_to_ticks clk) = Inr ()"
    using adm hold by (auto simp: validate_native_schedule_timing_with_release_gap_def result_simps split: sum.splits)
  show ?thesis by (rule that [OF g(1) admitted_feasible [OF comp g(2)]])
qed

lemma reset_raises: "calls_pass checkpoint \<Longrightarrow> raises (\<lambda>s. apfst (map_err f) (checkpoint s)) = {}"
  by (auto simp: raises_def calls_pass_def map_err_def)

lemma reset_succeeds:
  assumes wf: "schedule_wf rs" and feas: "feasible rs cfg (qpc_microseconds_to_ticks clk)" and cp: "raises checkpoint = {}"
  shows "\<exists>c k'. try_new_ticks_with_checkpoint rs u h (coordinator_ticks clk) checkpoint k = (Inr c, k') \<and>
    fresh_for rs u h (coordinator_ticks clk) c"
proof -
  let ?m = "try_new_ticks_with_checkpoint rs u h (coordinator_ticks clk) checkpoint"
  have "outcome ?m (fresh_for rs u h (coordinator_ticks clk)) {}"
    using construct_outcome [OF wf, of u h "coordinator_ticks clk" checkpoint] by (simp add: cp admitted_new [OF wf feas])
  then have "case fst (?m k) of Inr c \<Rightarrow> fresh_for rs u h (coordinator_ticks clk) c | Inl e \<Rightarrow> False"
    unfolding outcome_def by (auto split: sum.splits)
  then show ?thesis by (cases "?m k") (auto split: sum.splits)
qed

text \<open>The stream fits the memory bound and the allocator grants it.\<close>

definition storage_granted :: "memory_layout \<Rightarrow> (usize \<Rightarrow> string option) \<Rightarrow> runtime_schedule \<Rightarrow> bool" where
  "storage_granted layout try_reserve rs \<longleftrightarrow>
     (case admit_memory layout rs of Inr capacity \<Rightarrow> try_reserve capacity = None | Inl _ \<Rightarrow> False)"

lemma stream_builds:
  assumes wf: "schedule_wf rs" and feas: "feasible rs cfg (qpc_microseconds_to_ticks clk)"
    and f: "fresh_for rs u (tc_effective_min_hold_ticks cfg) (coordinator_ticks clk) simulator"
    and fit: "floors_fit rs clk (tc_effective_min_hold_ticks cfg)" and p: "profile_ok profile"
    and mem: "storage_granted layout try_reserve rs"
    and cp: "calls_pass scp" "calls_pass ccp" and fuel: "length (rs_packets rs) \<le> fuel"
  shows "\<exists>stream c k'. build_with_checkpoints fuel layout try_reserve simulator clk profile scp ccp k = Some (Inr (stream, c), k') \<and>
    ps_cursor stream = 0 \<and> length (ps_entries stream) = length (rs_packets rs) \<and>
    (\<forall>n < length (rs_packets rs). entry_for rs (dc_batch_scheduled_ticks simulator) profile n (ps_entries stream ! n)) \<and>
    (\<exists>u. fresh_for rs u (tc_effective_min_hold_ticks cfg) (coordinator_ticks clk) c)"
proof -
  let ?h = "tc_effective_min_hold_ticks cfg" and ?T = "dc_batch_scheduled_ticks simulator" and ?n = "length (rs_packets rs)"
  note play = admitted_playable [OF wf feas f fit]
  have s: "dc_schedule simulator = rs" using f by (auto simp: fresh_for_def)
  obtain entries c k1 where loop: "stream_loop fuel scp profile 0 [] simulator k = Some (Inr (entries, c), k1)"
      "length entries = ?n" "\<forall>i < ?n. entry_for rs ?T profile i (entries ! i)" "playing rs ?T ?h ?n c"
    using stream_loop_builds [OF play p cp(1) playing_start [OF wf f], of fuel "[]" 0 k] fuel by auto
  have c: "dc_schedule c = rs" "dc_min_hold_ticks c = ?h" using loop(4) by (auto simp: playing_def tracks_def)
  obtain c0 k3 where reset: "try_new_ticks_with_checkpoint rs (dc_min_hold_us c) ?h (coordinator_ticks clk)
        (\<lambda>s. apfst (map_err (map_failure (\<lambda>_. PreparationCancelled))) (ccp s)) (snd (ccp k1)) = (Inr c0, k3)"
      "fresh_for rs (dc_min_hold_us c) ?h (coordinator_ticks clk) c0"
    using reset_succeeds [OF wf feas reset_raises [OF cp(2), of "map_failure (\<lambda>_. PreparationCancelled)"]] by blast
  obtain capacity where mem: "admit_memory layout rs = Inr capacity" "try_reserve capacity = None"
    using mem unfolding storage_granted_def by (cases "admit_memory layout rs") auto
  obtain k2 where k2: "ccp k1 = (Inr (), k2)" "snd (ccp k1) = k2" using calls_passD [OF cp(2), of k1] by (metis snd_conv)
  have "build_with_checkpoints fuel layout try_reserve simulator clk profile scp ccp k
      = Some (Inr (\<lparr>ps_entries = entries, ps_cursor = 0\<rparr>, c0), k3)"
    using mem loop(1) reset(1) c s playing_no_pending(1) [OF loop(4)] k2 by (simp add: build_with_checkpoints_def)
  then show ?thesis using loop(2,3) reset(2) by (intro exI conjI) (assumption | simp)+
qed

section \<open>Playing the stream\<close>

text \<open>The commit of one entry after its packet was sent; \<open>started\<close> is when, on the playback timeline.\<close>

definition commit_entry :: "prepared_dispatch_entry \<times> timeline_ticks \<Rightarrow> unit coord_op" where
  "commit_entry = (\<lambda>(entry, started).
     case entry of
       PhysicalEntry view \<Rightarrow>
         (case av_commit view of
            Authored commit \<Rightarrow> commit_prepared_authored_frame_success_frozen commit started
          | _ \<Rightarrow> sfail Panic)
     | MetadataEntry _ commit \<Rightarrow> commit_prepared_authored_frame_metadata_frozen commit)"

lemma entries_play:
  assumes play: "playable rs T h" and E: "\<forall>i < length (rs_packets rs). entry_for rs T profile i (E ! i)"
    and late: "\<forall>i < length (rs_packets rs). T ! first_batch rs i \<le> starts ! i"
    and P: "playing rs T h n c"
  shows "\<exists>c'. sfor (map (\<lambda>i. (E ! i, starts ! i)) [n..<length (rs_packets rs)]) commit_entry c = (Inr (), c') \<and>
    playing rs T h (length (rs_packets rs)) c'"
  using P
proof (induction "length (rs_packets rs) - n" arbitrary: n c)
  case 0
  then have "n = length (rs_packets rs)" by (auto simp: playing_def)
  then show ?case using 0 by simp
next
  case (Suc m)
  then have n: "n < length (rs_packets rs)" by simp
  have "\<exists>c'. commit_entry (E ! n, starts ! n) c = (Inr (), c') \<and> playing rs T h (Suc n) c'"
  proof (cases "E ! n")
    case (PhysicalEntry view)
    then obtain commit where "av_commit view = Authored commit" "exact_commit rs T n commit"
      using spec [OF E, of n] n by (auto simp: entry_for_def)
    then show ?thesis using playing_commit [OF Suc.prems play n] late n PhysicalEntry by (auto simp: commit_entry_def)
  next
    case (MetadataEntry ticks commit)
    then have "exact_commit rs T n commit" "cp_up_mask (rs_packets rs ! n) = 0" "cp_down_mask (rs_packets rs ! n) = 0"
      using spec [OF E, of n] n by (auto simp: entry_for_def packet_new_def)
    then show ?thesis using playing_metadata [OF Suc.prems play n] MetadataEntry by (auto simp: commit_entry_def)
  qed
  then obtain c' where c': "commit_entry (E ! n, starts ! n) c = (Inr (), c')" "playing rs T h (Suc n) c'" by blast
  moreover have "m = length (rs_packets rs) - Suc n" using Suc.hyps(2) by simp
  ultimately show ?case using Suc.hyps(1) [OF _ c'(2)] n by (simp add: upt_rec)
qed

section \<open>Properties\<close>

lemma constructed_fresh:
  assumes wf: "schedule_wf rs" and new: "fst (try_new_ticks_with_checkpoint rs u h conv checkpoint k) = Inr c"
  shows "fresh_for rs u h conv c"
  using construct_outcome [OF wf, of u h conv checkpoint] new unfolding outcome_def by (metis sum.simps(6))

text \<open>C21: For every song that compiles, is admitted for the clock and fits the memory bound, building the
  prepared stream terminates after one iteration per packet and succeeds: the stream holds exactly one
  entry per packet, in order, each frozen at its packet's tick with the packet's masks, its native inputs
  and a commit token without deferred releases, and the returned coordinator is a fresh one. The hold floor
  of the last packet is assumed to stay within 64-bit ticks.\<close>

theorem prepared_stream_complete:
  assumes comp: "compile_runtime_intents actions codes = Inr rs"
    and adm: "validate_native_schedule_timing_with_release_gap rs hold_us gap_us clk = Inr ()"
    and hold: "duration_from_us clk hold_us = Inr hold_ticks" and fit: "floors_fit rs clk hold_ticks"
    and new: "fst (try_new_ticks_with_checkpoint rs hold_us hold_ticks (coordinator_ticks clk) checkpoint k0) = Inr simulator"
    and mem: "storage_granted layout try_reserve rs"
    and calls: "calls_pass stream_cp" "calls_pass coordinator_cp" and fuel: "length (rs_packets rs) \<le> fuel"
  shows "\<exists>stream c k'.
    build_with_checkpoints fuel layout try_reserve simulator clk (from_validated prof) stream_cp coordinator_cp k = Some (Inr (stream, c), k') \<and>
    ps_cursor stream = 0 \<and> length (ps_entries stream) = length (rs_packets rs) \<and>
    (\<forall>n < length (rs_packets rs). entry_for rs (dc_batch_scheduled_ticks simulator) (from_validated prof) n (ps_entries stream ! n)) \<and>
    (\<exists>u. fresh_for rs u hold_ticks (coordinator_ticks clk) c)"
proof -
  note wf = compile_wf [OF comp]
  obtain gap_ticks where feas: "feasible rs (timing_config_of hold_us hold_ticks gap_us gap_ticks) (qpc_microseconds_to_ticks clk)"
    by (rule native_admission [OF comp adm hold])
  have h: "tc_effective_min_hold_ticks (timing_config_of hold_us hold_ticks gap_us gap_ticks) = hold_ticks"
    by (simp add: timing_config_of_def)
  show ?thesis
    by (rule stream_builds [OF wf feas, unfolded h, OF constructed_fresh [OF wf new] fit from_validated_ok mem calls fuel])
qed

definition demo_layout :: memory_layout where
  "demo_layout = \<lparr>size_of_ticks = 8, size_of_status = 1, size_of_location = 24, size_of_entry = 2048\<rparr>"

lemma retrigger_durations:
  "duration_from_us ten_mhz 90 = Inr (DurationTicks 900)" "duration_from_us ten_mhz 80 = Inr (DurationTicks 800)"
  by (simp_all add: duration_from_us_def ten_mhz_def Let_def checked_mul_u128_def checked_add_u128_def try_from_usize_def)

lemma retrigger_us: "validate_min_hold_and_release_gap_feasibility retrigger_schedule 90 80 = Inr ()"
  by code_simp

lemma retrigger_native: "validate_native_schedule_timing_with_release_gap retrigger_schedule 90 80 ten_mhz = Inr ()"
  by (simp add: validate_native_schedule_timing_with_release_gap_def retrigger_durations retrigger_us retrigger_admitted)

lemma retrigger_storage: "storage_granted demo_layout (\<lambda>_. None) retrigger_schedule"
  by (simp add: storage_granted_def admit_memory_def Let_def coordinator_storage_def stream_storage_def checked_mul_usize_def
      checked_add_usize_def usize_limit_def demo_layout_def retrigger_schedule_def MAX_PREPARED_STREAM_BYTES_def)

lemma retrigger_floors: "floors_fit retrigger_schedule ten_mhz (DurationTicks 900)"
  by (simp add: floors_fit_def retrigger_schedule_def ten_mhz_def ceil_ticks_def)

lemma always_passes: "calls_pass (sret ())"
  by (simp add: calls_pass_def)

lemma retrigger_simulator:
  "\<exists>simulator. fst (try_new_ticks_with_checkpoint retrigger_schedule 90 (DurationTicks 900) (coordinator_ticks ten_mhz) (sret ()) ()) = Inr simulator"
proof -
  have "raises (sret () :: unit checkpoint) = {}" by (simp add: raises_def)
  from reset_succeeds [OF compile_wf [OF retrigger_compiles] admitted_feasible [OF retrigger_compiles retrigger_admitted] this]
  show ?thesis by (metis fst_conv)
qed

theorem prepared_stream_complete_witness:
  "\<exists>simulator stream c k'. build_with_checkpoints 4 demo_layout (\<lambda>_. None) simulator ten_mhz
       (from_validated \<lparr>ip_keys = sp_keys spec_canonical\<rparr>) (sret ()) (sret ()) () = Some (Inr (stream, c), k') \<and>
     length (ps_entries stream) = 4"
proof -
  obtain simulator where s: "fst (try_new_ticks_with_checkpoint retrigger_schedule 90 (DurationTicks 900) (coordinator_ticks ten_mhz) (sret ()) ()) = Inr simulator"
    using retrigger_simulator by blast
  have n: "length (rs_packets retrigger_schedule) \<le> 4" by (simp add: retrigger_schedule_def)
  have len: "length (rs_packets retrigger_schedule) = 4" by (simp add: retrigger_schedule_def)
  show ?thesis
    using prepared_stream_complete [OF retrigger_compiles retrigger_native retrigger_durations(1) retrigger_floors s retrigger_storage always_passes always_passes n,
        of "\<lparr>ip_keys = sp_keys spec_canonical\<rparr>" "()"]
    unfolding len by blast
qed

lemma fresh_ticks:
  assumes "fresh_for rs u h conv c" and "fresh_for rs u' h' conv c'"
  shows "dc_batch_scheduled_ticks c = dc_batch_scheduled_ticks c'"
proof -
  have "map Inr (dc_batch_scheduled_ticks c) = map (\<lambda>b. conv (cb_scheduled_us b)) (rs_batches rs)"
    "map Inr (dc_batch_scheduled_ticks c') = map (\<lambda>b. conv (cb_scheduled_us b)) (rs_batches rs)"
    using assms by (auto simp: fresh_for_def)
  from trans [OF this(1) this(2) [symmetric]] show ?thesis by (simp add: inj_map_eq_map)
qed

text \<open>C1: Playing the prepared stream to its end: on the coordinator that comes with the stream, committing the
  entries one after the other, each at any time not before its tick, never fails. At the end the
  coordinator reports that it is finished and every generation, hence every pressed key, was released.\<close>

theorem prepared_stream_plays:
  assumes comp: "compile_runtime_intents actions codes = Inr rs"
    and adm: "validate_native_schedule_timing_with_release_gap rs hold_us gap_us clk = Inr ()"
    and hold: "duration_from_us clk hold_us = Inr hold_ticks" and fit: "floors_fit rs clk hold_ticks"
    and new: "fst (try_new_ticks_with_checkpoint rs hold_us hold_ticks (coordinator_ticks clk) checkpoint k0) = Inr simulator"
    and mem: "storage_granted layout try_reserve rs"
    and calls: "calls_pass stream_cp" "calls_pass coordinator_cp" and fuel: "length (rs_packets rs) \<le> fuel"
    and build: "build_with_checkpoints fuel layout try_reserve simulator clk (from_validated prof) stream_cp coordinator_cp k = Some (Inr (stream, c), k')"
    and starts: "length starts = length (ps_entries stream)" "\<forall>n < length starts. entry_offset (ps_entries stream ! n) \<le> starts ! n"
  shows "\<exists>c'. sfor (zip (ps_entries stream) starts) commit_entry c = (Inr (), c') \<and> is_finished c' \<and>
    (\<forall>status \<in> set (dc_generation_states c'). status = Released)"
proof -
  let ?T = "dc_batch_scheduled_ticks simulator" and ?p = "from_validated prof"
  note wf = compile_wf [OF comp] and sim = constructed_fresh [OF compile_wf [OF comp] new]
  obtain gap_ticks where feas: "feasible rs (timing_config_of hold_us hold_ticks gap_us gap_ticks) (qpc_microseconds_to_ticks clk)"
    by (rule native_admission [OF comp adm hold])
  have h: "tc_effective_min_hold_ticks (timing_config_of hold_us hold_ticks gap_us gap_ticks) = hold_ticks"
    by (simp add: timing_config_of_def)
  obtain u where E: "length (ps_entries stream) = length (rs_packets rs)" "\<forall>n < length (rs_packets rs). entry_for rs ?T ?p n (ps_entries stream ! n)"
      and c: "fresh_for rs u hold_ticks (coordinator_ticks clk) c"
    using stream_builds [OF wf feas, unfolded h, OF sim fit from_validated_ok mem calls fuel, of prof k] build by clarsimp
  have late: "\<forall>n < length (rs_packets rs). ?T ! first_batch rs n \<le> starts ! n"
    using starts E entry_offset_for by (metis (no_types, lifting))
  have T: "dc_batch_scheduled_ticks c = ?T" by (rule fresh_ticks [OF c sim])
  have play: "playable rs ?T hold_ticks" using admitted_playable [OF wf feas, unfolded h, OF sim fit] .
  obtain c' where c': "sfor (map (\<lambda>i. (ps_entries stream ! i, starts ! i)) [0..<length (rs_packets rs)]) commit_entry c = (Inr (), c')"
      "playing rs ?T hold_ticks (length (rs_packets rs)) c'"
    using entries_play [OF play E(2) late playing_start [OF wf c, unfolded T]] by blast
  have z: "zip (ps_entries stream) starts = map (\<lambda>i. (ps_entries stream ! i, starts ! i)) [0..<length (rs_packets rs)]"
    using starts(1) E(1) by (intro nth_equalityI) simp_all
  show ?thesis using c'(1) playing_end [OF c'(2) wf] unfolding z by blast
qed

theorem prepared_stream_plays_witness:
  "\<exists>simulator stream c c' starts. build_with_checkpoints 4 demo_layout (\<lambda>_. None) simulator ten_mhz
       (from_validated \<lparr>ip_keys = sp_keys spec_canonical\<rparr>) (sret ()) (sret ()) () = Some (Inr (stream, c), ()) \<and>
     sfor (zip (ps_entries stream) starts) commit_entry c = (Inr (), c') \<and> length starts = 4 \<and> is_finished c'"
proof -
  obtain simulator where s: "fst (try_new_ticks_with_checkpoint retrigger_schedule 90 (DurationTicks 900) (coordinator_ticks ten_mhz) (sret ()) ()) = Inr simulator"
    using retrigger_simulator by blast
  have n: "length (rs_packets retrigger_schedule) \<le> 4" and len: "length (rs_packets retrigger_schedule) = 4" by (simp_all add: retrigger_schedule_def)
  let ?f = "from_validated \<lparr>ip_keys = sp_keys spec_canonical\<rparr>"
  obtain stream c where b: "build_with_checkpoints 4 demo_layout (\<lambda>_. None) simulator ten_mhz ?f (sret ()) (sret ()) () = Some (Inr (stream, c), ())"
      "length (ps_entries stream) = 4"
    using stream_builds [OF compile_wf [OF retrigger_compiles] admitted_feasible [OF retrigger_compiles retrigger_admitted],
        where u = 90 and simulator = simulator and profile = ?f and layout = demo_layout and try_reserve = "\<lambda>_. None" and
          scp = "sret ()" and ccp = "sret ()" and fuel = 4 and k = "()"]
      constructed_fresh [OF compile_wf [OF retrigger_compiles] s] retrigger_storage retrigger_floors from_validated_ok always_passes n
    unfolding len by (auto simp: timing_config_of_def)
  have "\<forall>n < 4. entry_offset (ps_entries stream ! n) \<le> map entry_offset (ps_entries stream) ! n" using b(2) by simp
  then show ?thesis
    using prepared_stream_plays [OF retrigger_compiles retrigger_native retrigger_durations(1) retrigger_floors s retrigger_storage always_passes always_passes n b(1),
        of "map entry_offset (ps_entries stream)"] b by fastforce
qed

end
