(* ===== verification/Sky_Transport.thy ===== *)
theory Sky_Transport
  imports Sky_Packet
begin

unbundle bit_operations_syntax

text \<open>
  The keyboard transport (\<open>sky_dispatch_win32/src/input\<close>: \<open>outcome.rs\<close>, \<open>packet.rs\<close>, \<open>physical.rs\<close> and the
  production part of \<open>tracked/\<close>): one \<open>SendInput\<close> transaction with its evidence, the worker's record of the
  keys it may hold down, and the bounded release loop with its physical probe. The operating system is an
  argument, a record of functions on an abstract world. A \<open>last_error\<close> string is a constructor of
  \<open>tracked_error\<close>, one per format string. What the sources compile only for tests is left out.
\<close>

section \<open>The operating system\<close>

datatype qpc_error = FrequencyUnavailable | CounterUnavailable | DeadlineOverflow | QpcConversionOverflow

text \<open>\<open>QueryPerformanceCounter\<close>, \<open>SendInput\<close> with the thread's last error, and the calls of the physical
  probe: foreground window, thread and process of a window, keyboard context of a window, virtual key of a
  scan code, asynchronous key state, and sleeping. A virtual key is an \<open>i32\<close>, a key state an \<open>i16\<close>, a
  window handle an \<open>isize\<close>, all as words.\<close>

record ('w, 'x) platform =
  os_now :: "'w \<Rightarrow> (qpc_error + qpc_ticks) \<times> 'w"
  os_send_input :: "keyboard_input list \<Rightarrow> 'w \<Rightarrow> u32 \<times> 'w"
  os_reset_error :: "'w \<Rightarrow> 'w"
  os_last_error :: "'w \<Rightarrow> u32 \<times> 'w"
  os_foreground_window :: "'w \<Rightarrow> u64 \<times> 'w"
  os_window_process :: "u64 \<Rightarrow> 'w \<Rightarrow> (u32 \<times> u32) \<times> 'w"
  os_keyboard_context :: "u64 \<Rightarrow> 'w \<Rightarrow> 'x option \<times> 'w"
  os_map_virtual_key :: "'x \<Rightarrow> u16 \<Rightarrow> 'w \<Rightarrow> u32 \<times> 'w"
  os_key_state :: "u32 \<Rightarrow> 'w \<Rightarrow> u16 \<times> 'w"
  os_sleep :: "u64 \<Rightarrow> 'w \<Rightarrow> 'w"

definition foreground_window_matches :: "('w, 'x) platform \<Rightarrow> u64 \<Rightarrow> 'w \<Rightarrow> bool \<times> 'w" where
  "foreground_window_matches os target_hwnd w =
     (if target_hwnd = 0 then (False, w)
      else (let (foreground, w) = os_foreground_window os w in (foreground = target_hwnd, w)))"

section \<open>Evidence of a transaction\<close>

record platform_send_result =
  sr_requested :: u8
  sr_inserted :: u8
  sr_started_ticks :: qpc_ticks
  sr_completed_ticks :: "qpc_ticks option"
  sr_win32_error :: u32
  sr_timing_error :: "qpc_error option"

datatype packet_retry_reason = NoRetryReason | ZeroProgressRetry | PartialProgressRetry u8

datatype send_transaction_status =
    SendComplete
  | PreparationRejected
  | ZeroProgress
  | PartialProgress
  | IntegrityLost
  | ClockFailureBeforeSend
  | ClockFailureAfterSend

record send_evidence =
  ev_requested_mask :: u16
  ev_confirmed_mask :: u16
  ev_skipped_mask :: u16
  ev_first_inserted :: u8
  ev_attempts :: u8
  ev_zero_progress_retries :: u8
  ev_retry_reason :: packet_retry_reason
  ev_first_win32_error :: "u32 option"
  ev_last_win32_error :: "u32 option"
  ev_started_ticks :: "qpc_ticks option"
  ev_completed_ticks :: "qpc_ticks option"
  ev_timing_error :: "qpc_error option"

definition evidence_duration_ticks :: "send_evidence \<Rightarrow> time_arithmetic_error + duration_ticks" where
  "evidence_duration_ticks self =
     (case (ev_started_ticks self, ev_completed_ticks self) of
        (Some start, Some end_ticks) \<Rightarrow> qpc_checked_duration_since end_ticks start
      | _ \<Rightarrow> Inl NegativeOrder)"

definition classify_send_status ::
  "usize \<Rightarrow> usize \<Rightarrow> u32 \<Rightarrow> qpc_ticks option \<Rightarrow> qpc_ticks option \<Rightarrow> send_transaction_status" where
  "classify_send_status inserted requested win32_error started_ticks completed_ticks =
     (let clock_missing = started_ticks = None \<or> completed_ticks = None in
      if clock_missing then (if inserted > 0 then ClockFailureAfterSend else ClockFailureBeforeSend)
      else if inserted < requested then (if inserted = 0 then ZeroProgress else IntegrityLost)
      else if win32_error \<noteq> 0 then IntegrityLost
      else SendComplete)"

record send_transaction_outcome =
  so_status :: send_transaction_status
  so_evidence :: send_evidence

definition is_success :: "send_transaction_outcome \<Rightarrow> bool" where
  "is_success self \<longleftrightarrow> so_status self = SendComplete"

definition sent_scan_codes :: "send_transaction_outcome \<Rightarrow> u16 list" where
  "sent_scan_codes self = scan_codes_from_mask (ev_confirmed_mask (so_evidence self))"

definition skipped_duplicates :: "send_transaction_outcome \<Rightarrow> u16 list" where
  "skipped_duplicates self = scan_codes_from_mask (ev_skipped_mask (so_evidence self))"

section \<open>One transaction\<close>

definition packet_union :: "physical_packet \<Rightarrow> u16" where
  "packet_union packet = pkt_up_mask packet OR pkt_down_mask packet"

text \<open>An outcome without any insertion.\<close>

definition idle_outcome ::
  "physical_packet \<Rightarrow> send_transaction_status \<Rightarrow> u8 \<Rightarrow> qpc_ticks option \<Rightarrow> qpc_error option \<Rightarrow> send_transaction_outcome" where
  "idle_outcome packet status attempts started timing_error =
     \<lparr>so_status = status,
      so_evidence = \<lparr>ev_requested_mask = packet_union packet, ev_confirmed_mask = 0, ev_skipped_mask = 0, ev_first_inserted = 0,
        ev_attempts = attempts, ev_zero_progress_retries = 0, ev_retry_reason = NoRetryReason, ev_first_win32_error = None,
        ev_last_win32_error = None, ev_started_ticks = started, ev_completed_ticks = None, ev_timing_error = timing_error\<rparr>\<rparr>"

definition invalid_packet_outcome :: "physical_packet \<Rightarrow> send_transaction_outcome" where
  "invalid_packet_outcome packet = idle_outcome packet PreparationRejected 0 None None"

datatype prepared_send_failure = ClockFailed "qpc_ticks option" qpc_error bool

text \<open>The native pointer is read for \<open>event_count\<close> inputs.\<close>

definition send_once_prepared_view ::
  "('w, 'x) platform \<Rightarrow> prepared_packet_view \<Rightarrow> qpc_ticks option \<Rightarrow> 'w \<Rightarrow> (prepared_send_failure + platform_send_result) \<times> 'w" where
  "send_once_prepared_view os prepared supplied_started_ticks w =
     (let requested = packet_event_count (vw_packet prepared); len = unat requested; w = os_reset_error os w in
      case (case supplied_started_ticks of Some ticks \<Rightarrow> (Inr ticks, w) | None \<Rightarrow> os_now os w) of
        (Inl error, w) \<Rightarrow> (Inl (ClockFailed None error False), w)
      | (Inr started_ticks, w) \<Rightarrow>
          (let (count, w) = os_send_input os (take len (vw_inputs prepared)) w;
               inserted = word_of_nat (min (unat count) len);
               (error, w) = (if unat (inserted :: u8) < len then os_last_error os w else (0, w)) in
           case os_now os w of
             (Inl clock_error, w) \<Rightarrow> (Inl (ClockFailed (Some started_ticks) clock_error True), w)
           | (Inr completed_ticks, w) \<Rightarrow>
               (Inr \<lparr>sr_requested = requested, sr_inserted = inserted, sr_started_ticks = started_ticks,
                     sr_completed_ticks = Some completed_ticks, sr_win32_error = error, sr_timing_error = None\<rparr>, w)))"

definition prepared_send_outcome ::
  "physical_packet \<Rightarrow> prepared_send_failure + platform_send_result \<Rightarrow> send_transaction_outcome" where
  "prepared_send_outcome packet first =
     (case first of
        Inl (ClockFailed start error called) \<Rightarrow>
          idle_outcome packet (if called then ClockFailureAfterSend else ClockFailureBeforeSend) (if called then 1 else 0) start (Some error)
      | Inr first \<Rightarrow>
          let requested_mask = packet_union packet; requested = unat (sr_requested first);
              inserted = min (unat (sr_inserted first)) requested;
              status = classify_send_status inserted requested (sr_win32_error first) (Some (sr_started_ticks first)) (sr_completed_ticks first);
              win32_error = (if sr_win32_error first \<noteq> 0 then Some (sr_win32_error first) else None);
              retry_reason = (if inserted = 0 \<and> status \<noteq> SendComplete then ZeroProgressRetry
                              else if inserted < requested then PartialProgressRetry (word_of_nat inserted) else NoRetryReason) in
          \<lparr>so_status = status,
           so_evidence = \<lparr>ev_requested_mask = requested_mask, ev_confirmed_mask = (if status = SendComplete then requested_mask else 0),
             ev_skipped_mask = 0, ev_first_inserted = word_of_nat inserted, ev_attempts = 1, ev_zero_progress_retries = 0,
             ev_retry_reason = retry_reason, ev_first_win32_error = win32_error, ev_last_win32_error = win32_error,
             ev_started_ticks = Some (sr_started_ticks first), ev_completed_ticks = sr_completed_ticks first,
             ev_timing_error = sr_timing_error first\<rparr>\<rparr>)"

definition send_prepared_physical_packet_once_impl ::
  "('w, 'x) platform \<Rightarrow> prepared_packet_view \<Rightarrow> qpc_ticks option \<Rightarrow> 'w \<Rightarrow> send_transaction_outcome \<times> 'w" where
  "send_prepared_physical_packet_once_impl os prepared started_ticks w =
     apfst (prepared_send_outcome (vw_packet prepared)) (send_once_prepared_view os prepared started_ticks w)"

section \<open>The keys the worker may hold\<close>

datatype tracked_error =
    PacketPreparationFailed packet_preparation_error
  | SenderHasNoClock
  | MadeZeroProgress u8
  | RejectedBeforeSend u8
  | PartiallyInserted u8 u8
  | PacketClockFailure send_transaction_status
  | TrackedReleaseIncomplete
  | FullReleaseIncomplete nat nat

record tracked_key_state =
  tk_profile :: materialized_profile
  tk_active_mask :: u16
  tk_possibly_active_mask :: u16
  tk_failed_release_mask :: u16
  tk_in_flight_mask :: u16
  tk_release_attempts_total :: u64
  tk_last_error :: "tracked_error option"
  tk_keys_dropped :: u64
  tk_chord_split_events :: u64
  tk_sendinput_partial_events :: u64
  tk_sendinput_zero_progress_failures :: u64
  tk_chords_rejected :: u64
  tk_authored_keys_rejected :: u64
  tk_keys_inserted_before_failure :: u64
  tk_keys_rolled_back :: u64
  tk_rollback_residue_keys :: u64
  tk_timing_error :: "qpc_error option"
  tk_qpc_clock :: "qpc_clock option"

definition tracked_new :: "materialized_profile \<Rightarrow> qpc_clock option \<Rightarrow> tracked_key_state" where
  "tracked_new profile clock =
     \<lparr>tk_profile = profile, tk_active_mask = 0, tk_possibly_active_mask = 0, tk_failed_release_mask = 0, tk_in_flight_mask = 0,
      tk_release_attempts_total = 0, tk_last_error = None, tk_keys_dropped = 0, tk_chord_split_events = 0,
      tk_sendinput_partial_events = 0, tk_sendinput_zero_progress_failures = 0, tk_chords_rejected = 0,
      tk_authored_keys_rejected = 0, tk_keys_inserted_before_failure = 0, tk_keys_rolled_back = 0,
      tk_rollback_residue_keys = 0, tk_timing_error = None, tk_qpc_clock = clock\<rparr>"

definition with_qpc_clock_and_profile :: "qpc_clock \<Rightarrow> materialized_profile \<Rightarrow> tracked_key_state" where
  "with_qpc_clock_and_profile clock profile = tracked_new profile (Some clock)"

definition with_profile :: "materialized_profile \<Rightarrow> tracked_key_state" where
  "with_profile profile = tracked_new profile None"

definition release_obligation_mask :: "tracked_key_state \<Rightarrow> u16" where
  "release_obligation_mask self =
     tk_active_mask self OR tk_possibly_active_mask self OR tk_failed_release_mask self OR tk_in_flight_mask self"

text \<open>The counters every rejected packet raises.\<close>

definition reject_packet :: "physical_packet \<Rightarrow> tracked_error \<Rightarrow> tracked_key_state \<Rightarrow> tracked_key_state" where
  "reject_packet packet error self =
     self\<lparr>tk_chords_rejected := saturating_add (tk_chords_rejected self) 1,
          tk_authored_keys_rejected :=
            saturating_add (tk_authored_keys_rejected self) (word_of_nat (count_ones (pkt_down_mask packet))),
          tk_last_error := Some error\<rparr>"

definition mark_uncertain :: "physical_packet \<Rightarrow> tracked_key_state \<Rightarrow> tracked_key_state" where
  "mark_uncertain packet self =
     self\<lparr>tk_active_mask := tk_active_mask self AND NOT (packet_union packet),
          tk_possibly_active_mask := tk_possibly_active_mask self OR packet_union packet\<rparr>"

definition apply_partial :: "physical_packet \<Rightarrow> send_transaction_outcome \<Rightarrow> tracked_key_state \<Rightarrow> tracked_key_state" where
  "apply_partial packet outcome self =
     (let self = mark_uncertain packet self in
      reject_packet packet (PartiallyInserted (ev_first_inserted (so_evidence outcome)) (packet_event_count packet))
        (self\<lparr>tk_sendinput_partial_events := saturating_add (tk_sendinput_partial_events self) 1,
              tk_chord_split_events := saturating_add (tk_chord_split_events self) 1\<rparr>))"

definition apply_clock_failure :: "physical_packet \<Rightarrow> send_transaction_outcome \<Rightarrow> tracked_key_state \<Rightarrow> tracked_key_state" where
  "apply_clock_failure packet outcome self =
     (let self = self\<lparr>tk_timing_error := ev_timing_error (so_evidence outcome)\<rparr>;
          self = (if so_status outcome = ClockFailureAfterSend then mark_uncertain packet self else self) in
      reject_packet packet (PacketClockFailure (so_status outcome)) self)"

definition apply_status :: "physical_packet \<Rightarrow> send_transaction_outcome \<Rightarrow> tracked_key_state \<Rightarrow> tracked_key_state" where
  "apply_status packet outcome self =
     (case so_status outcome of
        SendComplete \<Rightarrow>
          let failed = tk_failed_release_mask self AND NOT (pkt_up_mask packet) in
          self\<lparr>tk_active_mask := (tk_active_mask self AND NOT (pkt_up_mask packet)) OR pkt_down_mask packet,
               tk_possibly_active_mask := tk_possibly_active_mask self AND NOT (packet_union packet),
               tk_failed_release_mask := failed,
               tk_last_error := (if failed = 0 then None else tk_last_error self)\<rparr>
      | ZeroProgress \<Rightarrow>
          reject_packet packet (MadeZeroProgress (packet_event_count packet))
            (self\<lparr>tk_sendinput_zero_progress_failures := saturating_add (tk_sendinput_zero_progress_failures self) 1\<rparr>)
      | PreparationRejected \<Rightarrow> reject_packet packet (RejectedBeforeSend (packet_event_count packet)) self
      | PartialProgress \<Rightarrow> apply_partial packet outcome self
      | IntegrityLost \<Rightarrow> apply_partial packet outcome self
      | ClockFailureBeforeSend \<Rightarrow> apply_clock_failure packet outcome self
      | ClockFailureAfterSend \<Rightarrow> apply_clock_failure packet outcome self)"

definition apply_packet_outcome ::
  "physical_packet \<Rightarrow> send_transaction_outcome \<Rightarrow> tracked_key_state \<Rightarrow> send_transaction_outcome \<times> tracked_key_state" where
  "apply_packet_outcome packet outcome self =
     (let confirmed_mask = ev_confirmed_mask (so_evidence outcome);
          self = apply_status packet outcome self;
          self = (if pkt_up_mask packet \<noteq> 0 \<and> \<not> is_success outcome
            then self\<lparr>tk_active_mask := tk_active_mask self AND NOT confirmed_mask,
                      tk_possibly_active_mask := tk_possibly_active_mask self AND NOT confirmed_mask,
                      tk_failed_release_mask := (tk_failed_release_mask self AND NOT confirmed_mask)
                        OR (pkt_up_mask packet AND NOT confirmed_mask)\<rparr>
            else self) in
      (outcome, self\<lparr>tk_in_flight_mask := tk_in_flight_mask self AND NOT (packet_union packet)\<rparr>))"

section \<open>Sending\<close>

text \<open>A method works on the tracked state and the world; \<open>Panic\<close> is its only failure.\<close>

type_synonym ('w, 'a) tracked_op = "(tracked_key_state \<times> 'w, unit failure, 'a) smethod"

definition on_tracked :: "(tracked_key_state \<Rightarrow> 'a \<times> tracked_key_state) \<Rightarrow> ('w, 'a) tracked_op" where
  "on_tracked f = (\<lambda>(self, w). let (a, self) = f self in (Inr a, (self, w)))"

definition on_world :: "('w \<Rightarrow> 'a \<times> 'w) \<Rightarrow> ('w, 'a) tracked_op" where
  "on_world f = (\<lambda>(self, w). let (a, w) = f w in (Inr a, (self, w)))"

definition edit :: "(tracked_key_state \<Rightarrow> tracked_key_state) \<Rightarrow> ('w, unit) tracked_op" where
  "edit f = on_tracked (\<lambda>self. ((), f self))"

definition mark_in_flight :: "physical_packet \<Rightarrow> tracked_key_state \<Rightarrow> tracked_key_state" where
  "mark_in_flight packet self = self\<lparr>tk_in_flight_mask := tk_in_flight_mask self OR packet_union packet\<rparr>"

definition send_view ::
  "('w, 'x) platform \<Rightarrow> prepared_packet_view \<Rightarrow> qpc_ticks option \<Rightarrow> ('w, send_transaction_outcome) tracked_op" where
  "send_view os prepared started =
     (let packet = vw_packet prepared in
      sbind (sread (\<lambda>(self, _). Inr (tk_qpc_clock self))) (\<lambda>clock.
      case clock of
        None \<Rightarrow>
          sbind (edit (\<lambda>self. self\<lparr>tk_last_error := Some SenderHasNoClock\<rparr>)) (\<lambda>_.
          on_tracked (apply_packet_outcome packet (idle_outcome packet ZeroProgress 0 None None)))
      | Some _ \<Rightarrow>
          sbind (edit (mark_in_flight packet)) (\<lambda>_.
          sbind (on_world (send_prepared_physical_packet_once_impl os prepared started)) (\<lambda>outcome.
          on_tracked (apply_packet_outcome packet outcome)))))"

definition send_prepared_physical_packet_view ::
  "('w, 'x) platform \<Rightarrow> prepared_packet_view \<Rightarrow> ('w, send_transaction_outcome) tracked_op" where
  "send_prepared_physical_packet_view os prepared = send_view os prepared None"

definition send_prepared_physical_packet_view_with_start ::
  "('w, 'x) platform \<Rightarrow> prepared_packet_view \<Rightarrow> qpc_ticks \<Rightarrow> ('w, send_transaction_outcome) tracked_op" where
  "send_prepared_physical_packet_view_with_start os prepared started_ticks = send_view os prepared (Some started_ticks)"

definition send_prepared_physical_packet ::
  "('w, 'x) platform \<Rightarrow> prepared_packet \<Rightarrow> ('w, send_transaction_outcome) tracked_op" where
  "send_prepared_physical_packet os prepared = send_prepared_physical_packet_view os (as_view prepared)"

text \<open>In production the supplied start is ignored.\<close>

definition send_prepared_physical_packet_at_final_boundary ::
  "('w, 'x) platform \<Rightarrow> prepared_packet \<Rightarrow> qpc_ticks option \<Rightarrow> ('w, send_transaction_outcome) tracked_op" where
  "send_prepared_physical_packet_at_final_boundary os prepared test_started_ticks = send_prepared_physical_packet os prepared"

definition send_physical_packet_with_start ::
  "('w, 'x) platform \<Rightarrow> physical_packet \<Rightarrow> qpc_ticks \<Rightarrow> ('w, send_transaction_outcome) tracked_op" where
  "send_physical_packet_with_start os packet started_ticks =
     sbind (sread (\<lambda>(self, _). Inr (try_new_with_profile packet (tk_profile self), tk_qpc_clock self))) (\<lambda>(prepared, clock).
     case prepared of
       Inl Panic \<Rightarrow> sfail Panic
     | Inl (Err error) \<Rightarrow>
         sbind (edit (\<lambda>self. self\<lparr>tk_last_error := Some (PacketPreparationFailed error)\<rparr>)) (\<lambda>_.
         on_tracked (apply_packet_outcome packet (invalid_packet_outcome packet)))
     | Inr prepared \<Rightarrow>
         (case clock of
            None \<Rightarrow>
              sbind (edit (\<lambda>self. self\<lparr>tk_last_error := Some SenderHasNoClock\<rparr>)) (\<lambda>_.
              sret (idle_outcome packet ZeroProgress 0 None None))
          | Some _ \<Rightarrow>
              sbind (edit (mark_in_flight packet)) (\<lambda>_.
              sbind (on_world (send_prepared_physical_packet_once_impl os (as_view prepared) (Some started_ticks))) (\<lambda>outcome.
              on_tracked (apply_packet_outcome packet outcome)))))"

definition send_physical_packet ::
  "('w, 'x) platform \<Rightarrow> physical_packet \<Rightarrow> ('w, send_transaction_outcome) tracked_op" where
  "send_physical_packet os packet =
     sbind (sread (\<lambda>(self, _). Inr (tk_qpc_clock self))) (\<lambda>clock.
     case clock of
       None \<Rightarrow> send_physical_packet_with_start os packet (QpcTicks 0)
     | Some _ \<Rightarrow>
         sbind (on_world (os_now os)) (\<lambda>sample.
         case sample of
           Inr started_ticks \<Rightarrow> send_physical_packet_with_start os packet started_ticks
         | Inl error \<Rightarrow>
             sbind (edit (\<lambda>self. self\<lparr>tk_timing_error := Some error\<rparr>)) (\<lambda>_.
             sret (idle_outcome packet ClockFailureBeforeSend 0 None (Some error)))))"

section \<open>The physical probe\<close>

datatype logical_instrument_physical_state = ProbeAllUp | ProbeHeld u16 | ProbeInconclusive

datatype reconciled_release = VerifiedAllUp | ReconciledHeld u16 | ReconciledInconclusive u16

datatype cleanup_verification = CleanupAllUp | CleanupHeld u16 | CleanupInconclusive u16

definition verification_is_success :: "cleanup_verification \<Rightarrow> bool" where
  "verification_is_success self \<longleftrightarrow> self = CleanupAllUp"

definition verification_is_inconclusive :: "cleanup_verification \<Rightarrow> bool" where
  "verification_is_inconclusive self \<longleftrightarrow> (case self of CleanupInconclusive _ \<Rightarrow> True | _ \<Rightarrow> False)"

definition reconcile_held_release_observation :: "u16 \<Rightarrow> u16 \<Rightarrow> u16 \<Rightarrow> reconciled_release" where
  "reconcile_held_release_observation requested_mask transport_confirmed_mask held_mask =
     (if requested_mask \<noteq> 0 \<and> (held_mask = 0 \<or> held_mask AND NOT requested_mask \<noteq> 0)
      then ReconciledInconclusive requested_mask
      else ReconciledHeld (requested_mask AND (held_mask OR NOT transport_confirmed_mask)))"

definition reconcile_logical_release_observation ::
  "u16 \<Rightarrow> u16 \<Rightarrow> logical_instrument_physical_state \<Rightarrow> reconciled_release" where
  "reconcile_logical_release_observation requested_mask transport_confirmed_mask physical_state =
     (case physical_state of
        ProbeAllUp \<Rightarrow>
          if transport_confirmed_mask AND requested_mask = requested_mask then VerifiedAllUp
          else ReconciledInconclusive (requested_mask AND NOT transport_confirmed_mask)
      | ProbeHeld held_mask \<Rightarrow>
          if held_mask AND NOT FULL_INSTRUMENT_MASK \<noteq> 0 then ReconciledInconclusive requested_mask
          else reconcile_held_release_observation requested_mask transport_confirmed_mask held_mask
      | ProbeInconclusive \<Rightarrow> ReconciledInconclusive requested_mask)"

text \<open>A negative \<open>i16\<close> has its top bit set.\<close>

definition classify_logical_async_key_states :: "u16 \<Rightarrow> u16 list \<Rightarrow> logical_instrument_physical_state" where
  "classify_logical_async_key_states requested_mask key_states =
     (if requested_mask AND NOT FULL_INSTRUMENT_MASK \<noteq> 0 then ProbeInconclusive
      else let held_mask = foldl (\<lambda>held (index, state).
                 if requested_mask AND mask_bit index \<noteq> 0 \<and> state AND 0x8000 \<noteq> 0 then held OR mask_bit index else held)
               0 (enumerate 0 key_states) in
        if held_mask = 0 then ProbeAllUp else ProbeHeld held_mask)"

text \<open>The virtual keys of the requested slots; other slots stay zero.\<close>

definition map_profile_virtual_keys ::
  "('w, 'x) platform \<Rightarrow> 'x \<Rightarrow> materialized_profile \<Rightarrow> u16 \<Rightarrow> ('w, unit failure, u32 list option) smethod" where
  "map_profile_virtual_keys os context profile requested_mask =
     sfold (\<lambda>slot acc.
       case acc of
         None \<Rightarrow> sret None
       | Some virtual_keys \<Rightarrow>
           if requested_mask AND mask_bit slot = 0 then sret (Some virtual_keys)
           else sbind (sread (\<lambda>_. physical_key_at profile slot)) (\<lambda>key.
             if pk_extended key then sret None
             else (\<lambda>w. let (virtual_key, w) = os_map_virtual_key os context (pk_scan_code key) w in
               (Inr (if virtual_key = 0 then None else Some (virtual_keys[slot := virtual_key])), w))))
       [0..<MAX_KEYS] (Some (replicate MAX_KEYS 0))"

definition query_key_states :: "('w, 'x) platform \<Rightarrow> u16 \<Rightarrow> u32 list \<Rightarrow> 'w \<Rightarrow> u16 list \<times> 'w" where
  "query_key_states os requested_mask virtual_keys w =
     foldl (\<lambda>(states, w) (index, virtual_key).
       if requested_mask AND mask_bit index = 0 then (states, w)
       else (let (state, w) = os_key_state os virtual_key w in (states[index := state], w)))
     (replicate MAX_KEYS 0, w) (enumerate 0 virtual_keys)"

definition instrument_logical_physical_state_for_mask ::
  "('w, 'x) platform \<Rightarrow> materialized_profile \<Rightarrow> u64 \<Rightarrow> u16 \<Rightarrow> ('w, unit failure, logical_instrument_physical_state) smethod" where
  "instrument_logical_physical_state_for_mask os profile target_hwnd requested_mask =
     (if target_hwnd = 0 then sret ProbeInconclusive else
      sbind (\<lambda>w. apfst Inr (foreground_window_matches os target_hwnd w)) (\<lambda>foreground.
      if \<not> foreground then sret ProbeInconclusive
      else if requested_mask = 0 then sret ProbeAllUp
      else if requested_mask AND NOT FULL_INSTRUMENT_MASK \<noteq> 0 then sret ProbeInconclusive
      else sbind (\<lambda>w. apfst Inr (os_keyboard_context os target_hwnd w)) (\<lambda>context.
        case context of
          None \<Rightarrow> sret ProbeInconclusive
        | Some context \<Rightarrow>
            sbind (map_profile_virtual_keys os context profile requested_mask) (\<lambda>virtual_keys.
            case virtual_keys of
              None \<Rightarrow> sret ProbeInconclusive
            | Some virtual_keys \<Rightarrow>
                sbind (\<lambda>w. apfst Inr (query_key_states os requested_mask virtual_keys w)) (\<lambda>key_states.
                sbind (\<lambda>w. apfst Inr (foreground_window_matches os target_hwnd w)) (\<lambda>foreground.
                sret (if \<not> foreground then ProbeInconclusive
                      else classify_logical_async_key_states requested_mask key_states)))))))"

datatype preflight_error = UserHeld "u16 list" | VerificationInconclusive

definition ensure_instrument_keys_physically_up ::
  "('w, 'x) platform \<Rightarrow> u64 \<Rightarrow> materialized_profile \<Rightarrow> ('w, preflight_error failure, unit) smethod" where
  "ensure_instrument_keys_physically_up os target_hwnd profile w =
     (if target_hwnd = 0 then (Inl (Err VerificationInconclusive), w)
      else case instrument_logical_physical_state_for_mask os profile target_hwnd FULL_INSTRUMENT_MASK w of
        (Inl _, w) \<Rightarrow> (Inl Panic, w)
      | (Inr ProbeAllUp, w) \<Rightarrow> (Inr (), w)
      | (Inr (ProbeHeld held_mask), w) \<Rightarrow>
          (rbind (profile_scan_codes_from_mask profile held_mask) (\<lambda>codes. Inl (Err (UserHeld codes))), w)
      | (Inr ProbeInconclusive, w) \<Rightarrow> (Inl (Err VerificationInconclusive), w))"

section \<open>The bounded release\<close>

datatype release_scope = TrackedScope | FullInstrumentScope

record release_all_outcome =
  ra_attempted_mask :: u16
  ra_transport_anomaly :: bool
  ra_released_successfully :: bool
  ra_stuck_mask :: u16
  ra_verification_inconclusive :: bool
  ra_attempts :: u8

definition on_world_only :: "('w, unit failure, 'a) smethod \<Rightarrow> ('w, 'a) tracked_op" where
  "on_world_only m = (\<lambda>(self, w). let (r, w) = m w in (r, (self, w)))"

definition do_emit_up_once :: "('w, 'x) platform \<Rightarrow> u16 \<Rightarrow> ('w, send_transaction_outcome) tracked_op" where
  "do_emit_up_once os logical_mask =
     (let packet = packet_new logical_mask 0 in
      sbind (sread (\<lambda>(self, _). Inr (try_new_with_profile packet (tk_profile self), tk_qpc_clock self))) (\<lambda>(prepared, clock).
      case prepared of
        Inl Panic \<Rightarrow> sfail Panic
      | Inl (Err _) \<Rightarrow> sret (invalid_packet_outcome packet)
      | Inr prepared \<Rightarrow>
          (case clock of
             None \<Rightarrow> sret (invalid_packet_outcome packet)
           | Some _ \<Rightarrow> on_world (send_prepared_physical_packet_once_impl os (as_view prepared) None))))"

definition outcome_anomaly :: "send_transaction_outcome \<Rightarrow> bool" where
  "outcome_anomaly emitted \<longleftrightarrow>
     so_status emitted \<noteq> SendComplete \<or> ev_attempts (so_evidence emitted) > 1 \<or>
     ev_retry_reason (so_evidence emitted) \<noteq> NoRetryReason \<or>
     ev_first_win32_error (so_evidence emitted) \<noteq> None \<or> ev_last_win32_error (so_evidence emitted) \<noteq> None"

definition normalize_release :: "u16 \<Rightarrow> reconciled_release \<Rightarrow> reconciled_release" where
  "normalize_release previous_unresolved reconciled =
     (if reconciled = ReconciledHeld 0 \<or> reconciled = ReconciledInconclusive 0
      then ReconciledInconclusive previous_unresolved else reconciled)"

fun verification_of :: "reconciled_release \<Rightarrow> cleanup_verification" where
  "verification_of VerifiedAllUp = CleanupAllUp"
| "verification_of (ReconciledHeld m) = CleanupHeld m"
| "verification_of (ReconciledInconclusive m) = CleanupInconclusive m"

fun resolved_by :: "u16 \<Rightarrow> reconciled_release \<Rightarrow> u16" where
  "resolved_by previous_unresolved VerifiedAllUp = previous_unresolved"
| "resolved_by previous_unresolved (ReconciledHeld m) = previous_unresolved AND NOT m"
| "resolved_by previous_unresolved (ReconciledInconclusive m) = previous_unresolved AND NOT m"

definition discharge :: "u16 \<Rightarrow> tracked_key_state \<Rightarrow> tracked_key_state" where
  "discharge resolved self =
     self\<lparr>tk_active_mask := tk_active_mask self AND NOT resolved,
          tk_possibly_active_mask := tk_possibly_active_mask self AND NOT resolved,
          tk_failed_release_mask := tk_failed_release_mask self AND NOT resolved,
          tk_in_flight_mask := tk_in_flight_mask self AND NOT resolved\<rparr>"

text \<open>One attempt: send the releases, probe, reconcile, discharge what is resolved.\<close>

definition release_attempt ::
  "('w, 'x) platform \<Rightarrow> u64 \<Rightarrow> u16 \<Rightarrow> bool \<Rightarrow> ('w, reconciled_release \<times> bool) tracked_op" where
  "release_attempt os target_hwnd unresolved_mask transport_anomaly =
     sbind (edit (\<lambda>self. self\<lparr>tk_release_attempts_total := saturating_add (tk_release_attempts_total self) 1\<rparr>)) (\<lambda>_.
     sbind (do_emit_up_once os unresolved_mask) (\<lambda>emitted.
     sbind (sread (\<lambda>(self, _). Inr (tk_profile self))) (\<lambda>profile.
     sbind (on_world_only (instrument_logical_physical_state_for_mask os profile target_hwnd unresolved_mask)) (\<lambda>physical_state.
     let reconciled = normalize_release unresolved_mask
           (reconcile_logical_release_observation unresolved_mask (ev_confirmed_mask (so_evidence emitted)) physical_state) in
     sbind (edit (discharge (resolved_by unresolved_mask reconciled))) (\<lambda>_.
     sret (reconciled, transport_anomaly \<or> outcome_anomaly emitted))))))"

definition RELEASE_RETRY_DELAYS_MS :: "u64 list" where
  "RELEASE_RETRY_DELAYS_MS = [15, 50, 100]"

text \<open>The loop over the attempts: \<open>Inl\<close> is the early return, \<open>Inr\<close> what is left after the last attempt.\<close>

fun release_loop ::
  "('w, 'x) platform \<Rightarrow> u64 \<Rightarrow> u16 \<Rightarrow> nat list \<Rightarrow> u16 \<Rightarrow> bool \<Rightarrow> cleanup_verification option \<Rightarrow>
   ('w, release_all_outcome + u16 \<times> bool \<times> cleanup_verification option) tracked_op" where
  "release_loop os target_hwnd requested_mask [] unresolved_mask transport_anomaly final =
     sret (Inr (unresolved_mask, transport_anomaly, final))"
| "release_loop os target_hwnd requested_mask (attempt_idx # rest) unresolved_mask transport_anomaly final =
     sbind (if attempt_idx > 0 then on_world (\<lambda>w. ((), os_sleep os (RELEASE_RETRY_DELAYS_MS ! (attempt_idx - 1)) w)) else sret ()) (\<lambda>_.
     if unresolved_mask = 0 then sret (Inr (unresolved_mask, transport_anomaly, final)) else
     sbind (release_attempt os target_hwnd unresolved_mask transport_anomaly) (\<lambda>(reconciled, transport_anomaly).
     case reconciled of
       VerifiedAllUp \<Rightarrow>
         sbind (edit (\<lambda>self. if tk_failed_release_mask self = 0 then self\<lparr>tk_last_error := None\<rparr> else self)) (\<lambda>_.
         sret (Inl \<lparr>ra_attempted_mask = requested_mask, ra_transport_anomaly = transport_anomaly, ra_released_successfully = True,
           ra_stuck_mask = 0, ra_verification_inconclusive = False, ra_attempts = word_of_nat (attempt_idx + 1)\<rparr>))
     | ReconciledHeld m \<Rightarrow>
         release_loop os target_hwnd requested_mask rest m transport_anomaly (Some (verification_of reconciled))
     | ReconciledInconclusive m \<Rightarrow>
         release_loop os target_hwnd requested_mask rest m transport_anomaly (Some (verification_of reconciled))))"

definition release_error :: "release_scope \<Rightarrow> materialized_profile \<Rightarrow> u16 \<Rightarrow> u16 \<Rightarrow> unit failure + tracked_error" where
  "release_error scope profile unresolved_mask requested_mask =
     (case scope of
        TrackedScope \<Rightarrow> Inr TrackedReleaseIncomplete
      | FullInstrumentScope \<Rightarrow>
          rbind (profile_scan_codes_from_mask profile unresolved_mask) (\<lambda>unresolved.
          rbind (profile_scan_codes_from_mask profile requested_mask) (\<lambda>requested.
          Inr (FullReleaseIncomplete (length unresolved) (length requested)))))"

definition release_scope :: "('w, 'x) platform \<Rightarrow> release_scope \<Rightarrow> u64 \<Rightarrow> ('w, release_all_outcome) tracked_op" where
  "release_scope os scope target_hwnd =
     sbind (sread (\<lambda>(self, _). Inr (case scope of
        TrackedScope \<Rightarrow> release_obligation_mask self | FullInstrumentScope \<Rightarrow> FULL_INSTRUMENT_MASK))) (\<lambda>requested_mask.
     if requested_mask = 0
     then sret \<lparr>ra_attempted_mask = 0, ra_transport_anomaly = False, ra_released_successfully = True, ra_stuck_mask = 0,
       ra_verification_inconclusive = False, ra_attempts = 0\<rparr>
     else sbind (release_loop os target_hwnd requested_mask [0, 1, 2, 3] requested_mask False None) (\<lambda>exit.
     case exit of
       Inl outcome \<Rightarrow> sret outcome
     | Inr (unresolved_mask, transport_anomaly, final) \<Rightarrow>
         let verification = (case final of Some v \<Rightarrow> v | None \<Rightarrow> CleanupHeld unresolved_mask);
             released_successfully = verification_is_success verification;
             stuck_mask = (if released_successfully then 0 else unresolved_mask) in
         sbind (sread (\<lambda>(self, _). release_error scope (tk_profile self) unresolved_mask requested_mask)) (\<lambda>error_msg.
         sbind (if \<not> released_successfully
                then edit (\<lambda>self. self\<lparr>tk_last_error := Some error_msg,
                       tk_failed_release_mask := tk_failed_release_mask self OR stuck_mask\<rparr>)
                else sret ()) (\<lambda>_.
         sret \<lparr>ra_attempted_mask = requested_mask, ra_transport_anomaly = transport_anomaly,
           ra_released_successfully = released_successfully, ra_stuck_mask = stuck_mask,
           ra_verification_inconclusive = verification_is_inconclusive verification, ra_attempts = 4\<rparr>))))"

definition release_all :: "('w, 'x) platform \<Rightarrow> u64 \<Rightarrow> ('w, release_all_outcome) tracked_op" where
  "release_all os target_hwnd = release_scope os TrackedScope target_hwnd"

definition release_all_full_instrument :: "('w, 'x) platform \<Rightarrow> u64 \<Rightarrow> ('w, release_all_outcome) tracked_op" where
  "release_all_full_instrument os target_hwnd = release_scope os FullInstrumentScope target_hwnd"

end
