(* ===== verification/Sky_Keys.thy ===== *)
theory Sky_Keys
  imports Sky_Transport
begin

unbundle bit_operations_syntax

text \<open>
  What the transport guarantees about the physical keyboard. The keys this process holds down are a set of
  scan codes of the world; \<open>SendInput\<close> is assumed to apply exactly the events it reports as inserted, from
  the front, and no other call touches these keys. Every key that is down is then always recorded in the
  masks of the tracked state, whatever fails, and a release that reports success has let go of every key.
\<close>

section \<open>The keyboard\<close>

definition key_effect :: "keyboard_input \<Rightarrow> u16 set \<Rightarrow> u16 set" where
  "key_effect i S = (if ki_dwFlags i AND KEYEVENTF_KEYUP \<noteq> 0 then S - {ki_wScan i} else insert (ki_wScan i) S)"

definition typed :: "keyboard_input list \<Rightarrow> u16 set \<Rightarrow> u16 set" where
  "typed inputs S = fold key_effect inputs S"

definition keyboard_ok :: "('w, 'x) platform \<Rightarrow> ('w \<Rightarrow> u16 set) \<Rightarrow> bool" where
  "keyboard_ok os pressed \<longleftrightarrow>
     (\<forall>inputs w n w'. os_send_input os inputs w = (n, w') \<longrightarrow> pressed w' = typed (take (unat n) inputs) (pressed w)) \<and>
     (\<forall>w. pressed (snd (os_now os w)) = pressed w) \<and> (\<forall>w. pressed (os_reset_error os w) = pressed w) \<and>
     (\<forall>w. pressed (snd (os_last_error os w)) = pressed w) \<and> (\<forall>w. pressed (snd (os_foreground_window os w)) = pressed w) \<and>
     (\<forall>h w. pressed (snd (os_window_process os h w)) = pressed w) \<and>
     (\<forall>h w. pressed (snd (os_keyboard_context os h w)) = pressed w) \<and>
     (\<forall>x c w. pressed (snd (os_map_virtual_key os x c w)) = pressed w) \<and>
     (\<forall>v w. pressed (snd (os_key_state os v w)) = pressed w) \<and> (\<forall>ms w. pressed (os_sleep os ms w) = pressed w)"

lemma keyboard_okD:
  assumes "keyboard_ok os pressed"
  shows "os_send_input os inputs w = (n, w') \<Longrightarrow> pressed w' = typed (take (unat n) inputs) (pressed w)"
    and "os_now os w = (r, w') \<Longrightarrow> pressed w' = pressed w" and "pressed (os_reset_error os w) = pressed w"
    and "os_last_error os w = (e, w') \<Longrightarrow> pressed w' = pressed w"
    and "os_foreground_window os w = (f, w') \<Longrightarrow> pressed w' = pressed w"
    and "os_keyboard_context os h w = (x, w') \<Longrightarrow> pressed w' = pressed w"
    and "os_map_virtual_key os y c w = (v, w') \<Longrightarrow> pressed w' = pressed w"
    and "os_key_state os v w = (s, w') \<Longrightarrow> pressed w' = pressed w" and "pressed (os_sleep os ms w) = pressed w"
    and "os_window_process os h w = (q, w') \<Longrightarrow> pressed w' = pressed w"
  using assms unfolding keyboard_ok_def by (metis snd_conv)+

lemma foreground_quiet:
  "keyboard_ok os pressed \<Longrightarrow> foreground_window_matches os h w = (b, w') \<Longrightarrow> pressed w' = pressed w"
  using keyboard_okD(5) by (fastforce simp: foreground_window_matches_def split: if_splits prod.splits)

text \<open>The profile of a session: admitted, with one key per slot.\<close>

definition session_profile :: "instrument_key_profile \<Rightarrow> bool" where
  "session_profile p \<longleftrightarrow> length (ip_keys p) = MAX_KEYS \<and> (\<exists>spec. try_from_spec spec = Inr p)"

abbreviation code_of :: "instrument_key_profile \<Rightarrow> nat \<Rightarrow> u16" where
  "code_of p slot \<equiv> pk_scan_code (ip_keys p ! slot)"

lemma code_of_inject:
  assumes "session_profile p" and "i < MAX_KEYS" and "j < MAX_KEYS"
  shows "code_of p i = code_of p j \<longleftrightarrow> i = j"
proof -
  obtain spec where "try_from_spec spec = Inr p" and len: "length (ip_keys p) = MAX_KEYS" using assms(1) by (auto simp: session_profile_def)
  then have "distinct (map pk_scan_code (ip_keys p))"
    using check_profile_keys [of "length (sp_keys spec)" "sp_keys spec"]
    by (auto simp: try_from_spec_def rbind_eq_Inr fits_before_def distinct_before)
  then show ?thesis using nth_eq_iff_index_eq [of "map pk_scan_code (ip_keys p)" i j] assms(2,3) len by simp
qed

text \<open>The slots whose keys are down.\<close>

definition down_slots :: "instrument_key_profile \<Rightarrow> u16 set \<Rightarrow> nat set" where
  "down_slots p S = {slot. slot < MAX_KEYS \<and> code_of p slot \<in> S}"

section \<open>The effect of a packet\<close>

definition packet_view_ok :: "instrument_key_profile \<Rightarrow> prepared_packet_view \<Rightarrow> bool" where
  "packet_view_ok p view \<longleftrightarrow> sendable (vw_packet view) \<and> vw_inputs view = packet_inputs (from_validated p) (vw_packet view)"

lemma template_effect:
  assumes "slot < MAX_KEYS"
  shows "key_effect (mp_up_templates (from_validated p) ! slot) S = S - {code_of p slot}"
    and "key_effect (mp_down_templates (from_validated p) ! slot) S = insert (code_of p slot) S"
proof -
  have "(KEYEVENTF_SCANCODE OR KEYEVENTF_KEYUP) AND KEYEVENTF_KEYUP \<noteq> 0" "KEYEVENTF_SCANCODE AND KEYEVENTF_KEYUP = 0"
    by (simp_all add: KEYEVENTF_SCANCODE_def KEYEVENTF_KEYUP_def)
  then show "key_effect (mp_up_templates (from_validated p) ! slot) S = S - {code_of p slot}"
      "key_effect (mp_down_templates (from_validated p) ! slot) S = insert (code_of p slot) S"
    using assms by (simp_all add: key_effect_def from_validated_def Let_def create_keyboard_input_def)
qed

lemma typed_append: "typed (xs @ ys) S = typed ys (typed xs S)"
  by (simp add: typed_def)

lemma typed_templates:
  assumes "\<forall>slot \<in> set slots. slot < MAX_KEYS"
  shows "typed (map (\<lambda>slot. mp_up_templates (from_validated p) ! slot) slots) S = S - code_of p ` set slots"
    and "typed (map (\<lambda>slot. mp_down_templates (from_validated p) ! slot) slots) S = S \<union> code_of p ` set slots"
  using assms by (induction slots arbitrary: S) (auto simp: typed_def template_effect)

lemma typed_packet:
  assumes p: "session_profile p" and v: "packet_view_ok p view"
  shows "down_slots p (typed (vw_inputs view) S)
      = down_slots p S - {n. bit (pkt_up_mask (vw_packet view)) n} \<union> {n. bit (pkt_down_mask (vw_packet view)) n}"
    and "down_slots p (typed (take j (vw_inputs view)) S) \<subseteq> down_slots p S \<union> {n. bit (pkt_down_mask (vw_packet view)) n}"
    and "down_slots p S - {n. bit (pkt_up_mask (vw_packet view)) n} \<subseteq> down_slots p (typed (take j (vw_inputs view)) S)"
proof -
  let ?u = "slots_of_mask (pkt_up_mask (vw_packet view))" and ?d = "slots_of_mask (pkt_down_mask (vw_packet view))"
  have ok: "\<forall>slot \<in> set ?u. slot < MAX_KEYS" "\<forall>slot \<in> set ?d. slot < MAX_KEYS"
    using v by (auto simp: packet_view_ok_def sendable_def set_slots_of_mask)
  have inputs: "vw_inputs view = map (\<lambda>slot. mp_up_templates (from_validated p) ! slot) ?u @
      map (\<lambda>slot. mp_down_templates (from_validated p) ! slot) ?d"
    using v by (simp add: packet_view_ok_def packet_inputs_def)
  have img: "n < MAX_KEYS \<Longrightarrow> code_of p n \<in> code_of p ` set xs \<longleftrightarrow> n \<in> set xs" if "\<forall>slot \<in> set xs. slot < MAX_KEYS" for n xs
    using code_of_inject [OF p] that by (auto simp: image_iff)
  have effect: "down_slots p (S - code_of p ` set us \<union> code_of p ` set ds) = down_slots p S - set us \<union> set ds"
    if "\<forall>slot \<in> set us. slot < MAX_KEYS" "\<forall>slot \<in> set ds. slot < MAX_KEYS" for us ds
  proof (rule set_eqI)
    fix n
    show "n \<in> down_slots p (S - code_of p ` set us \<union> code_of p ` set ds) \<longleftrightarrow> n \<in> down_slots p S - set us \<union> set ds"
      using that by (cases "n < MAX_KEYS") (simp_all add: down_slots_def img, blast)
  qed
  show "down_slots p (typed (vw_inputs view) S)
      = down_slots p S - {n. bit (pkt_up_mask (vw_packet view)) n} \<union> {n. bit (pkt_down_mask (vw_packet view)) n}"
    unfolding inputs typed_append typed_templates(1) [OF ok(1)] typed_templates(2) [OF ok(2)] effect [OF ok]
    by (simp add: set_slots_of_mask)
  have ok': "\<forall>slot \<in> set (take i ?u). slot < MAX_KEYS" "\<forall>slot \<in> set (take k ?d). slot < MAX_KEYS" for i k
    using ok by (auto dest: in_set_takeD)
  show "down_slots p (typed (take j (vw_inputs view)) S) \<subseteq> down_slots p S \<union> {n. bit (pkt_down_mask (vw_packet view)) n}"
      "down_slots p S - {n. bit (pkt_up_mask (vw_packet view)) n} \<subseteq> down_slots p (typed (take j (vw_inputs view)) S)"
    unfolding inputs take_append take_map typed_append typed_templates(1) [OF ok'(1)] typed_templates(2) [OF ok'(2)] effect [OF ok']
    by (auto simp: set_slots_of_mask dest: in_set_takeD)
qed

section \<open>The effect of a transaction\<close>

abbreviation bits :: "u16 \<Rightarrow> nat set" where
  "bits m \<equiv> {n. bit m n}"

lemma packet_view_length:
  assumes "packet_view_ok p view"
  shows "length (vw_inputs view) = unat (packet_event_count (vw_packet view))"
    and "unat (packet_event_count (vw_packet view)) \<le> MAX_KEYS"
    and "\<forall>n. bit (packet_union (vw_packet view)) n \<longrightarrow> n < MAX_KEYS"
  using assms count_pair [of "pkt_up_mask (vw_packet view)" "pkt_down_mask (vw_packet view)"]
  by (auto simp: packet_view_ok_def sendable_def length_packet_inputs event_count_nat packet_union_def mask_simps)

text \<open>What one transaction does to the keys, by its status: applied in full, not at all, or a prefix of it.\<close>

definition transaction_effect ::
  "instrument_key_profile \<Rightarrow> physical_packet \<Rightarrow> send_transaction_outcome \<Rightarrow> u16 set \<Rightarrow> u16 set \<Rightarrow> bool" where
  "transaction_effect p packet outcome S S' \<longleftrightarrow>
     (case so_status outcome of
        SendComplete \<Rightarrow> ev_confirmed_mask (so_evidence outcome) = packet_union packet \<and>
          down_slots p S' = down_slots p S - bits (pkt_up_mask packet) \<union> bits (pkt_down_mask packet)
      | IntegrityLost \<Rightarrow> ev_confirmed_mask (so_evidence outcome) = 0 \<and>
          down_slots p S' \<subseteq> down_slots p S \<union> bits (pkt_down_mask packet) \<and>
          down_slots p S - bits (pkt_up_mask packet) \<subseteq> down_slots p S'
      | ClockFailureAfterSend \<Rightarrow> ev_confirmed_mask (so_evidence outcome) = 0 \<and>
          down_slots p S' \<subseteq> down_slots p S \<union> bits (pkt_down_mask packet) \<and>
          down_slots p S - bits (pkt_up_mask packet) \<subseteq> down_slots p S'
      | PartialProgress \<Rightarrow> False
      | _ \<Rightarrow> ev_confirmed_mask (so_evidence outcome) = 0 \<and> S' = S)"

lemma idle_effect:
  "status \<in> {ZeroProgress, PreparationRejected, ClockFailureBeforeSend} \<Longrightarrow>
   transaction_effect p packet (idle_outcome packet status attempts st err) S S"
  by (auto simp: transaction_effect_def idle_outcome_def)

lemma transaction_effect:
  assumes k: "keyboard_ok os pressed" and p: "session_profile p" and v: "packet_view_ok p view"
    and send: "send_prepared_physical_packet_once_impl os view st w = (r, w')"
  shows "transaction_effect p (vw_packet view) r (pressed w) (pressed w')"
proof -
  let ?n = "unat (packet_event_count (vw_packet view))" and ?c = "packet_event_count (vw_packet view)"
  note K = keyboard_okD [OF k] and L = packet_view_length [OF v] and T = typed_packet [OF p v]
  have n: "?n < 256" using L(2) by (simp add: MAX_KEYS_def)
  have all: "take ?n (vw_inputs view) = vw_inputs view" using L(1) by simp
  obtain w1 start where clock: "(case st of Some ticks \<Rightarrow> (Inr ticks, os_reset_error os w) | None \<Rightarrow> os_now os (os_reset_error os w)) = (start, w1)"
    by fastforce
  have w1: "pressed w1 = pressed w"
  proof (cases st)
    case None
    with clock have "os_now os (os_reset_error os w) = (start, w1)" by simp
    then show ?thesis using K(2) K(3) by metis
  qed (use clock K(3) in auto)
  show ?thesis
  proof (cases start)
    case (Inl e)
    then have "r = idle_outcome (vw_packet view) ClockFailureBeforeSend 0 None (Some e)" "w' = w1"
      using send clock by (auto simp: send_prepared_physical_packet_once_impl_def send_once_prepared_view_def Let_def prepared_send_outcome_def)
    then show ?thesis using w1 idle_effect [of ClockFailureBeforeSend] by simp
  next
    case (Inr start_ticks)
    obtain count w2 where input: "os_send_input os (vw_inputs view) w1 = (count, w2)" by fastforce
    have w2: "pressed w2 = typed (take (unat count) (vw_inputs view)) (pressed w)" using K(1) [OF input] w1 by simp
    define ins where "ins = min (unat count) ?n"
    have ins: "unat (word_of_nat ins :: u8) = ins" "ins \<le> ?n" "ins < 256"
      using n by (simp_all add: ins_def unat_word_of_nat_small min_def)
    have untouched: "ins = 0 \<Longrightarrow> 0 < ?n \<Longrightarrow> pressed w2 = pressed w" using w2 by (simp add: ins_def typed_def min_def split: if_splits)
    have everything: "ins = ?n \<Longrightarrow> pressed w2 = typed (vw_inputs view) (pressed w)" using w2 L(1) by (simp add: ins_def min_def split: if_splits)
    obtain error w3 where err: "(if ins < ?n then os_last_error os w2 else (0, w2)) = (error, w3)" by fastforce
    have w3: "pressed w3 = pressed w2" and e0: "ins = ?n \<Longrightarrow> error = 0" using err K(4) by (auto split: if_splits)
    obtain finish w4 where fin: "os_now os w3 = (finish, w4)" by fastforce
    have w4: "pressed w4 = pressed w2" using K(2) [OF fin] w3 by simp
    have run: "send_once_prepared_view os view st w =
      (case finish of Inl clock_error \<Rightarrow> (Inl (ClockFailed (Some start_ticks) clock_error True), w4)
       | Inr completed \<Rightarrow> (Inr \<lparr>sr_requested = ?c, sr_inserted = word_of_nat ins, sr_started_ticks = start_ticks,
           sr_completed_ticks = Some completed, sr_win32_error = error, sr_timing_error = None\<rparr>, w4))"
      unfolding send_once_prepared_view_def Let_def clock [unfolded Inr] using input err fin ins(1)
      by (simp add: all ins_def [symmetric] split: sum.splits)
    have part: "down_slots p (pressed w2) \<subseteq> down_slots p (pressed w) \<union> bits (pkt_down_mask (vw_packet view))"
        "down_slots p (pressed w) - bits (pkt_up_mask (vw_packet view)) \<subseteq> down_slots p (pressed w2)"
      unfolding w2 using T(2,3) by simp_all
    show ?thesis
    proof (cases finish)
      case (Inl clock_error)
      then show ?thesis using send run part w4
        by (auto simp: send_prepared_physical_packet_once_impl_def prepared_send_outcome_def idle_outcome_def transaction_effect_def)
    next
      case (Inr completed)
      have r: "r = prepared_send_outcome (vw_packet view) (Inr \<lparr>sr_requested = ?c, sr_inserted = word_of_nat ins, sr_started_ticks = start_ticks,
           sr_completed_ticks = Some completed, sr_win32_error = error, sr_timing_error = None\<rparr>)" "w' = w4"
        using send run Inr by (simp_all add: send_prepared_physical_packet_once_impl_def)
      consider "ins = ?n" | "ins < ?n" "ins = 0" | "ins < ?n" "ins \<noteq> 0" using ins(2) by linarith
      then show ?thesis
      proof cases
        case 1
        then show ?thesis using r ins e0 w4 everything T(1)
          by (simp add: prepared_send_outcome_def Let_def classify_send_status_def transaction_effect_def)
      next
        case 2
        then have "pressed w2 = pressed w" using untouched [OF 2(2)] by simp
        with 2 show ?thesis using r ins w4
          by (simp add: prepared_send_outcome_def Let_def classify_send_status_def transaction_effect_def)
      next
        case 3
        then show ?thesis using r ins w4 part
          by (simp add: prepared_send_outcome_def Let_def classify_send_status_def transaction_effect_def)
      qed
    qed
  qed
qed

section \<open>The masks account for the keys\<close>

definition recorded :: "tracked_key_state \<Rightarrow> nat set" where
  "recorded self = bits (tk_active_mask self) \<union> bits (tk_possibly_active_mask self) \<union> bits (tk_failed_release_mask self)"

text \<open>Every key that is down is recorded; a key recorded as active is down, unless its release failed.\<close>

definition masks_account :: "instrument_key_profile \<Rightarrow> u16 set \<Rightarrow> tracked_key_state \<Rightarrow> bool" where
  "masks_account p S self \<longleftrightarrow> down_slots p S \<subseteq> recorded self \<and>
     bits (tk_active_mask self) \<subseteq> down_slots p S \<union> bits (tk_failed_release_mask self)"

definition transport_ok :: "instrument_key_profile \<Rightarrow> ('w \<Rightarrow> u16 set) \<Rightarrow> tracked_key_state \<times> 'w \<Rightarrow> bool" where
  "transport_ok p pressed = (\<lambda>(self, w). tk_profile self = from_validated p \<and> tk_in_flight_mask self = 0 \<and>
     masks_account p (pressed w) self)"

lemma bits_ops [simp]:
  "bits (a AND NOT b) = bits a - bits b" "bits (a OR b) = bits a \<union> bits b" "bits 0 = {}"
    "bits (a AND (NOT b AND NOT c)) = bits a - bits b - bits c" for a b c :: u16
proof -
  show two: "bits (a AND NOT b) = bits a - bits b" for a b :: u16 by (auto simp: bit_and_not_mask)
  show "bits (a AND (NOT b AND NOT c)) = bits a - bits b - bits c"
    using two [of "a AND NOT b" c] two [of a b] by (simp add: and.assoc)
qed (auto simp: bit_or_mask)

lemmas apply_defs = apply_packet_outcome_def apply_status_def apply_partial_def apply_clock_failure_def
  mark_uncertain_def reject_packet_def is_success_def Let_def

lemma apply_profile [simp]:
  "tk_profile (snd (apply_packet_outcome packet r self)) = tk_profile self"
  "tk_qpc_clock (snd (apply_packet_outcome packet r self)) = tk_qpc_clock self"
  by (cases "so_status r"; simp add: apply_defs)+

lemma apply_in_flight:
  "tk_in_flight_mask (snd (apply_packet_outcome packet r self)) = tk_in_flight_mask self AND NOT (packet_union packet)"
  by (cases "so_status r"; simp add: apply_defs)

lemma apply_accounts:
  assumes "transaction_effect p packet r S S'" and "masks_account p S self"
  shows "masks_account p S' (snd (apply_packet_outcome packet r self))"
proof (cases "so_status r")
  case SendComplete
  then show ?thesis using assms
    by (auto simp: apply_defs transaction_effect_def masks_account_def recorded_def packet_union_def)
next
  case IntegrityLost
  then show ?thesis using assms
    by (auto simp: apply_defs transaction_effect_def masks_account_def recorded_def packet_union_def)
next
  case ClockFailureAfterSend
  then show ?thesis using assms
    by (auto simp: apply_defs transaction_effect_def masks_account_def recorded_def packet_union_def)
qed (use assms in \<open>auto simp: apply_defs transaction_effect_def masks_account_def recorded_def\<close>)

section \<open>Every send keeps the account\<close>

lemma wp_on_world [wp_simps]: "wp (on_world f) Q E (self, w) \<longleftrightarrow> (case f w of (a, w') \<Rightarrow> Q a (self, w'))"
  by (simp add: wp_def on_world_def split: prod.splits)

lemma wp_on_tracked [wp_simps]: "wp (on_tracked f) Q E (self, w) \<longleftrightarrow> (case f self of (a, self') \<Rightarrow> Q a (self', w))"
  by (simp add: wp_def on_tracked_def split: prod.splits)

lemma wp_edit [wp_simps]: "wp (edit f) Q E (self, w) \<longleftrightarrow> Q () (f self, w)"
  by (simp add: edit_def wp_on_tracked)

lemma wp_on_world_only: "m w = (Inr a, w') \<Longrightarrow> wp (on_world_only m) Q E (self, w) \<longleftrightarrow> Q a (self, w')"
  by (simp add: wp_def on_world_only_def)

lemma prepared_view_ok:
  assumes "try_new_with_profile pkt (from_validated p) = Inr prep"
  shows "packet_view_ok p (as_view prep)" and "vw_packet (as_view prep) = pkt"
proof -
  have s: "sendable pkt" using assms try_new_rejects [of pkt "from_validated p"] by (cases "sendable pkt") auto
  show "packet_view_ok p (as_view prep)" "vw_packet (as_view prep) = pkt"
    using assms s try_new_sendable [OF from_validated_ok s] length_packet_inputs [of "from_validated p" pkt]
    by (auto simp: packet_view_ok_def as_view_def)
qed

lemma recovery_view_ok:
  assumes "try_new_with_profile pkt (from_validated p) = Inr prep" and "up_recovery_view prep = Some view"
  shows "packet_view_ok p view" and "vw_packet view = packet_new (pkt_up_mask pkt) 0"
proof -
  have s: "sendable pkt" using assms(1) try_new_rejects [of pkt "from_validated p"] by (cases "sendable pkt") auto
  have "prep_packet prep = pkt" using assms(1) s try_new_sendable [OF from_validated_ok s] by auto
  then have both: "pkt_up_mask pkt \<noteq> 0" "pkt_down_mask pkt \<noteq> 0" using assms(2) by (auto simp: up_recovery_view_def Let_def split: if_splits)
  have v: "view = \<lparr>vw_packet = packet_new (pkt_up_mask pkt) 0,
      vw_inputs = map (\<lambda>slot. mp_up_templates (from_validated p) ! slot) (slots_of_mask (pkt_up_mask pkt))\<rparr>"
    using up_recovery_prefix [OF assms(1) from_validated_ok both] assms(2) by simp
  have none: "slots_of_mask 0 = []" using set_slots_of_mask [of 0] by simp
  show "packet_view_ok p view" "vw_packet view = packet_new (pkt_up_mask pkt) 0"
    using s both none by (auto simp: v packet_view_ok_def sendable_def packet_new_def packet_inputs_def)
qed

text \<open>What a send of \<open>packet\<close> promises from state \<open>s\<close>.\<close>

definition send_promise ::
  "instrument_key_profile \<Rightarrow> ('w \<Rightarrow> u16 set) \<Rightarrow> physical_packet \<Rightarrow> tracked_key_state \<times> 'w \<Rightarrow> send_transaction_outcome \<Rightarrow> tracked_key_state \<times> 'w \<Rightarrow> bool" where
  "send_promise p pressed packet s r s' \<longleftrightarrow> transport_ok p pressed s' \<and> tk_qpc_clock (fst s') = tk_qpc_clock (fst s) \<and>
     transaction_effect p packet r (pressed (snd s)) (pressed (snd s'))"

lemma transport_ok_edit:
  assumes "transport_ok p pressed (self, w)" and "tk_profile (f self) = tk_profile self" and "tk_in_flight_mask (f self) = 0"
    and "tk_active_mask (f self) = tk_active_mask self" and "tk_possibly_active_mask (f self) = tk_possibly_active_mask self"
    and "tk_failed_release_mask (f self) = tk_failed_release_mask self" and "pressed w' = pressed w"
  shows "transport_ok p pressed (f self, w')"
  using assms by (simp add: transport_ok_def masks_account_def recorded_def)

lemma apply_promise:
  assumes effect: "transaction_effect p packet r S (pressed w')" and masks: "masks_account p S self"
    and profile: "tk_profile self = from_validated p" and flight: "bits (tk_in_flight_mask self) \<subseteq> bits (packet_union packet)"
  shows "transport_ok p pressed (snd (apply_packet_outcome packet r self), w')"
proof -
  have "tk_in_flight_mask self AND NOT (packet_union packet) = 0" using flight by (auto simp: u16_eq_iff bit_and_not_mask)
  then show ?thesis using apply_accounts [OF effect masks] profile by (simp add: transport_ok_def apply_in_flight)
qed

lemma fst_apply [simp]: "fst (apply_packet_outcome packet r self) = r"
  by (simp add: apply_packet_outcome_def Let_def)

lemma marked_send:
  assumes k: "keyboard_ok os pressed" and p: "session_profile p"
    and ok: "transport_ok p pressed (self, w)" and v: "packet_view_ok p view"
  shows "wp (sbind (edit (mark_in_flight (vw_packet view))) (\<lambda>_. sbind (on_world (send_prepared_physical_packet_once_impl os view st))
      (\<lambda>r. on_tracked (apply_packet_outcome (vw_packet view) r)))) (send_promise p pressed (vw_packet view) (self, w)) (\<lambda>_. False) (self, w)"
proof -
  obtain r w' where send: "send_prepared_physical_packet_once_impl os view st w = (r, w')" by fastforce
  note effect = transaction_effect [OF k p v send]
  have "transport_ok p pressed (snd (apply_packet_outcome (vw_packet view) r (mark_in_flight (vw_packet view) self)), w')"
    using ok by (intro apply_promise [where w' = w' and pressed = pressed, OF effect])
      (simp_all add: transport_ok_def masks_account_def recorded_def mark_in_flight_def)
  moreover have "tk_qpc_clock (mark_in_flight (vw_packet view) self) = tk_qpc_clock self" by (simp add: mark_in_flight_def)
  ultimately show ?thesis using send effect by (simp add: wp_simps send_promise_def split: prod.splits) (metis apply_profile(2) fst_apply fst_conv snd_conv)
qed

lemma unsent_promise:
  assumes ok: "transport_ok p pressed (self, w)" and status: "status \<in> {ZeroProgress, PreparationRejected, ClockFailureBeforeSend}"
    and "tk_profile self' = tk_profile self" "tk_in_flight_mask self' = 0" "tk_active_mask self' = tk_active_mask self"
      "tk_possibly_active_mask self' = tk_possibly_active_mask self" "tk_failed_release_mask self' = tk_failed_release_mask self"
      "tk_qpc_clock self' = tk_qpc_clock self" and w': "pressed w' = pressed w"
  shows "send_promise p pressed packet (self, w) (idle_outcome packet status attempts start err) (self', w')"
    and "send_promise p pressed packet (self, w) (idle_outcome packet status attempts start err)
      (snd (apply_packet_outcome packet (idle_outcome packet status attempts start err) self'), w')"
proof -
  let ?r = "idle_outcome packet status attempts start err"
  note effect = idle_effect [OF status, of p packet attempts start err "pressed w"]
  have masks: "masks_account p (pressed w) self'" using assms by (simp add: transport_ok_def masks_account_def recorded_def)
  have "transport_ok p pressed (snd (apply_packet_outcome packet ?r self'), w')"
    using assms by (intro apply_promise [OF _ masks]) (simp_all add: effect transport_ok_def)
  then show "send_promise p pressed packet (self, w) ?r (self', w')"
      "send_promise p pressed packet (self, w) ?r (snd (apply_packet_outcome packet ?r self'), w')"
    using assms masks effect by (simp_all add: send_promise_def transport_ok_def)
qed

lemma send_view_promise:
  assumes k: "keyboard_ok os pressed" and p: "session_profile p" and ok: "transport_ok p pressed s" and v: "packet_view_ok p view"
  shows "wp (send_view os view st) (send_promise p pressed (vw_packet view) s) (\<lambda>_. False) s"
proof -
  obtain self w where s: "s = (self, w)" by (cases s)
  show ?thesis
  proof (cases "tk_qpc_clock self")
    case None
    have "send_promise p pressed (vw_packet view) (self, w) (idle_outcome (vw_packet view) ZeroProgress 0 None None)
       (snd (apply_packet_outcome (vw_packet view) (idle_outcome (vw_packet view) ZeroProgress 0 None None)
          (self\<lparr>tk_last_error := Some SenderHasNoClock\<rparr>)), w)"
      using ok s by (intro unsent_promise(2)) (simp_all add: transport_ok_def)
    then show ?thesis using None s
      by (simp add: send_view_def Let_def wp_simps split: prod.splits) (metis fst_apply fst_conv snd_conv)
  next
    case (Some clock)
    then show ?thesis using marked_send [OF k p _ v, of self w st] ok s
      by (simp add: send_view_def Let_def wp_simps)
  qed
qed

lemma send_with_start_promise:
  assumes k: "keyboard_ok os pressed" and p: "session_profile p" and ok: "transport_ok p pressed s"
  shows "wp (send_physical_packet_with_start os packet st) (send_promise p pressed packet s) (\<lambda>_. False) s"
proof -
  obtain self w where s: "s = (self, w)" by (cases s)
  have profile: "tk_profile self = from_validated p" using ok s by (simp add: transport_ok_def)
  show ?thesis
  proof (cases "sendable packet")
    case False
    then obtain e where e: "try_new_with_profile packet (from_validated p) = Inl (Err e)" using try_new_rejects by blast
    have "send_promise p pressed packet (self, w) (invalid_packet_outcome packet)
       (snd (apply_packet_outcome packet (invalid_packet_outcome packet) (self\<lparr>tk_last_error := Some (PacketPreparationFailed e)\<rparr>)), w)"
      unfolding invalid_packet_outcome_def using ok s by (intro unsent_promise(2)) (simp_all add: transport_ok_def)
    then show ?thesis using e s profile
      by (simp add: send_physical_packet_with_start_def wp_simps split: prod.splits) (metis fst_apply fst_conv snd_conv)
  next
    case True
    then obtain prep where prep: "try_new_with_profile packet (from_validated p) = Inr prep" using try_new_sendable [OF from_validated_ok] by blast
    note view = prepared_view_ok [OF prep]
    show ?thesis
    proof (cases "tk_qpc_clock self")
      case None
      have "send_promise p pressed packet (self, w) (idle_outcome packet ZeroProgress 0 None None)
         (self\<lparr>tk_last_error := Some SenderHasNoClock\<rparr>, w)"
        using ok s by (intro unsent_promise(1)) (simp_all add: transport_ok_def)
      then show ?thesis using None s profile prep by (simp add: send_physical_packet_with_start_def wp_simps)
    next
      case (Some clock)
      then show ?thesis using marked_send [OF k p _ view(1), of self w "Some st"] ok s profile prep view(2)
        by (simp add: send_physical_packet_with_start_def wp_simps)
    qed
  qed
qed

lemma send_physical_packet_promise:
  assumes k: "keyboard_ok os pressed" and p: "session_profile p" and ok: "transport_ok p pressed s"
  shows "wp (send_physical_packet os packet) (send_promise p pressed packet s) (\<lambda>_. False) s"
proof -
  obtain self w where s: "s = (self, w)" by (cases s)
  show ?thesis
  proof (cases "tk_qpc_clock self")
    case None
    then show ?thesis using send_with_start_promise [OF k p ok] s by (simp add: send_physical_packet_def wp_simps)
  next
    case (Some clock)
    obtain sample w' where now: "os_now os w = (sample, w')" by fastforce
    have w': "pressed w' = pressed w" by (rule keyboard_okD(2) [OF k now])
    have ok': "transport_ok p pressed (self, w')" using ok s w' by (simp add: transport_ok_def)
    show ?thesis
    proof (cases sample)
      case (Inl e)
      have "send_promise p pressed packet (self, w) (idle_outcome packet ClockFailureBeforeSend 0 None (Some e))
         (self\<lparr>tk_timing_error := Some e\<rparr>, w')"
        using ok s w' by (intro unsent_promise(1)) (simp_all add: transport_ok_def)
      then show ?thesis using Some now Inl s by (simp add: send_physical_packet_def wp_simps)
    next
      case (Inr t)
      have "send_promise p pressed packet (self, w') = send_promise p pressed packet s"
        by (simp add: send_promise_def s w' fun_eq_iff)
      then have "wp (send_physical_packet_with_start os packet t) (send_promise p pressed packet s) (\<lambda>_. False) (self, w')"
        using send_with_start_promise [OF k p ok', of packet t] by simp
      then show ?thesis using Some now Inr s by (simp add: send_physical_packet_def wp_simps)
    qed
  qed
qed

section \<open>The probe touches no key\<close>

lemma wp_world_call:
  "wp (\<lambda>w. apfst Inr (f w)) Q E w \<longleftrightarrow> (case f w of (a, w') \<Rightarrow> Q a w')"
  by (simp add: wp_def split: prod.splits)

lemma profile_key_Inr: "session_profile p \<Longrightarrow> slot < MAX_KEYS \<Longrightarrow> physical_key_at (from_validated p) slot = Inr (ip_keys p ! slot)"
  by (simp add: physical_key_at_def from_validated_def Let_def session_profile_def)

lemma virtual_keys_quiet:
  assumes k: "keyboard_ok os pressed" and p: "session_profile p"
  shows "wp (map_profile_virtual_keys os context (from_validated p) m) (\<lambda>_ w'. pressed w' = pressed w) (\<lambda>_. False) w"
  unfolding map_profile_virtual_keys_def
proof (rule wp_sfold, goal_cases)
  case (2 slot acc w1)
  obtain v w2 where map: "os_map_virtual_key os context (code_of p slot) w1 = (v, w2)" by fastforce
  have "pressed w2 = pressed w" using keyboard_okD(7) [OF k map] 2(2) by simp
  then show ?case
    using 2 map by (cases acc) (auto simp: wp_def sbind_apply profile_key_Inr [OF p])
qed simp

lemma key_states_quiet:
  assumes k: "keyboard_ok os pressed"
  shows "pressed (snd (query_key_states os m virtual_keys w)) = pressed w"
proof -
  define f where "f = (\<lambda>(states, w) (index, virtual_key).
       if m AND mask_bit index = 0 then (states, w)
       else (let (state, w) = os_key_state os virtual_key w in (list_update states index state, w)))"
  have one: "pressed (snd (f (states, w) iv)) = pressed w" for states w iv
    using keyboard_okD(8) [OF k] by (cases iv) (auto simp: f_def split: prod.splits)
  have "pressed (snd (foldl f sw xs)) = pressed (snd sw)" for sw xs
    by (induction xs arbitrary: sw) (simp_all, metis one prod.collapse)
  then show ?thesis by (simp add: query_key_states_def f_def [symmetric])
qed

lemma probe_quiet:
  assumes k: "keyboard_ok os pressed" and p: "session_profile p"
  shows "wp (instrument_logical_physical_state_for_mask os (from_validated p) hwnd m) (\<lambda>_ w'. pressed w' = pressed w) (\<lambda>_. False) w"
proof -
  obtain b w1 where fg: "foreground_window_matches os hwnd w = (b, w1)" by fastforce
  obtain c w2 where ctx: "os_keyboard_context os hwnd w1 = (c, w2)" by fastforce
  have w1: "pressed w1 = pressed w" "pressed w2 = pressed w" using foreground_quiet [OF k fg] keyboard_okD(6) [OF k ctx] by simp_all
  have last: "case foreground_window_matches os hwnd w3 of (a, w') \<Rightarrow> pressed w' = pressed w" if "pressed w3 = pressed w" for w3
    using foreground_quiet [OF k] that by (auto split: prod.splits)
  have rest: "wp (map_profile_virtual_keys os context (from_validated p) m)
      (\<lambda>a. wp (case a of None \<Rightarrow> sret ProbeInconclusive
         | Some virtual_keys \<Rightarrow>
             sbind (\<lambda>w. apfst Inr (query_key_states os m virtual_keys w)) (\<lambda>key_states.
             sbind (\<lambda>w. apfst Inr (foreground_window_matches os hwnd w)) (\<lambda>foreground.
             sret (if \<not> foreground then ProbeInconclusive else classify_logical_async_key_states m key_states))))
        (\<lambda>_ w'. pressed w' = pressed w) (\<lambda>_. False)) (\<lambda>_. False) w2" for "context"
  proof (rule wp_mono [OF virtual_keys_quiet [OF k p, of "context" m w2]])
    fix a w3
    assume "pressed w3 = pressed w2"
    then have w3: "pressed (snd (query_key_states os m keys w3)) = pressed w" for keys using key_states_quiet [OF k] w1 by simp
    show "wp (case a of None \<Rightarrow> sret ProbeInconclusive
         | Some virtual_keys \<Rightarrow>
             sbind (\<lambda>w. apfst Inr (query_key_states os m virtual_keys w)) (\<lambda>key_states.
             sbind (\<lambda>w. apfst Inr (foreground_window_matches os hwnd w)) (\<lambda>foreground.
             sret (if \<not> foreground then ProbeInconclusive else classify_logical_async_key_states m key_states))))
        (\<lambda>_ w'. pressed w' = pressed w) (\<lambda>_. False) w3"
      using w3 last \<open>pressed w3 = pressed w2\<close> w1
      by (cases a) (simp_all add: wp_simps wp_world_call case_prod_unfold)
  qed simp
  show ?thesis
  proof (cases "hwnd = 0 \<or> \<not> b \<or> m = 0 \<or> m AND NOT FULL_INSTRUMENT_MASK \<noteq> 0")
    case True
    then show ?thesis using fg w1
      by (auto simp: instrument_logical_physical_state_for_mask_def wp_simps wp_world_call)
  next
    case False
    then show ?thesis using fg ctx w1
      by (cases c) (simp_all add: instrument_logical_physical_state_for_mask_def wp_simps wp_world_call, rule rest)
  qed
qed

section \<open>The bounded release\<close>

fun remaining :: "reconciled_release \<Rightarrow> u16" where
  "remaining VerifiedAllUp = 0"
| "remaining (ReconciledHeld m) = m"
| "remaining (ReconciledInconclusive m) = m"

text \<open>A key counts as resolved only when the transaction confirmed every requested release.\<close>

lemma reconcile_sound:
  assumes "u \<noteq> 0" and "confirmed = 0 \<or> confirmed = u"
    and "r = normalize_release u (reconcile_logical_release_observation u confirmed observed)"
  shows "bits (remaining r) \<subseteq> bits u" and "r \<noteq> VerifiedAllUp \<Longrightarrow> remaining r \<noteq> 0"
    and "confirmed = 0 \<Longrightarrow> remaining r = u" and "bits (resolved_by u r) = bits u - bits (remaining r)"
proof -
  have "bits (remaining r) \<subseteq> bits u \<and> (r \<noteq> VerifiedAllUp \<longrightarrow> remaining r \<noteq> 0) \<and> (confirmed = 0 \<longrightarrow> remaining r = u)"
    using assms by (cases observed)
      (auto simp: normalize_release_def reconcile_logical_release_observation_def reconcile_held_release_observation_def mask_simps)
  then show "bits (remaining r) \<subseteq> bits u" "r \<noteq> VerifiedAllUp \<Longrightarrow> remaining r \<noteq> 0" "confirmed = 0 \<Longrightarrow> remaining r = u" by simp_all
  show "bits (resolved_by u r) = bits u - bits (remaining r)" by (cases r) simp_all
qed

definition releasing ::
  "instrument_key_profile \<Rightarrow> ('w \<Rightarrow> u16 set) \<Rightarrow> nat set \<Rightarrow> u16 \<Rightarrow> u16 \<Rightarrow> tracked_key_state \<times> 'w \<Rightarrow> bool" where
  "releasing p pressed before requested unresolved = (\<lambda>(self, w).
     tk_profile self = from_validated p \<and> tk_in_flight_mask self = 0 \<and> down_slots p (pressed w) \<subseteq> recorded self \<and>
     bits (tk_active_mask self) \<subseteq> down_slots p (pressed w) \<union> bits (tk_failed_release_mask self) \<union> bits unresolved \<and>
     bits unresolved \<subseteq> bits requested \<and> (bits requested - bits unresolved) \<inter> recorded self = {} \<and>
     recorded self \<subseteq> before)"

lemma releasing_error [simp]:
  "releasing p pressed before requested u (self\<lparr>tk_last_error := e\<rparr>, w) = releasing p pressed before requested u (self, w)"
  by (simp add: releasing_def recorded_def)

lemma emit_effect:
  assumes k: "keyboard_ok os pressed" and p: "session_profile p" and profile: "tk_profile self = from_validated p"
  shows "wp (do_emit_up_once os u) (\<lambda>r (self', w'). self' = self \<and> transaction_effect p (packet_new u 0) r (pressed w) (pressed w'))
    (\<lambda>_. False) (self, w)"
proof (cases "sendable (packet_new u 0)")
  case False
  then obtain e where "try_new_with_profile (packet_new u 0) (from_validated p) = Inl (Err e)" using try_new_rejects by blast
  then show ?thesis using profile idle_effect [of PreparationRejected]
    by (simp add: do_emit_up_once_def Let_def wp_simps invalid_packet_outcome_def)
next
  case True
  then obtain prep where prep: "try_new_with_profile (packet_new u 0) (from_validated p) = Inr prep"
    using try_new_sendable [OF from_validated_ok] by blast
  note view = prepared_view_ok [OF prep]
  obtain r w' where send: "send_prepared_physical_packet_once_impl os (as_view prep) None w = (r, w')" by fastforce
  have "transaction_effect p (packet_new u 0) r (pressed w) (pressed w')"
    using transaction_effect [OF k p view(1) send] view(2) by simp
  then show ?thesis using profile prep send idle_effect [of PreparationRejected]
    by (simp add: do_emit_up_once_def Let_def wp_simps invalid_packet_outcome_def split: option.split)
qed

lemma discharge_fields [simp]:
  "tk_profile (discharge m self) = tk_profile self" "recorded (discharge m self) = recorded self - bits m"
  "bits (tk_active_mask (discharge m self)) = bits (tk_active_mask self) - bits m"
  "bits (tk_failed_release_mask (discharge m self)) = bits (tk_failed_release_mask self) - bits m"
  "tk_in_flight_mask self = 0 \<Longrightarrow> tk_in_flight_mask (discharge m self) = 0"
  by (auto simp: discharge_def recorded_def)

lemma release_effect:
  assumes "transaction_effect p (packet_new u 0) r S S'" and "u \<noteq> 0"
  shows "ev_confirmed_mask (so_evidence r) = 0 \<or> ev_confirmed_mask (so_evidence r) = u" and "down_slots p S' \<subseteq> down_slots p S"
    and "down_slots p S - bits u \<subseteq> down_slots p S'"
    and "ev_confirmed_mask (so_evidence r) = u \<Longrightarrow> down_slots p S' \<inter> bits u = {}"
  using assms by (cases "so_status r"; auto simp: transaction_effect_def packet_new_def packet_union_def)+

lemma attempt_releases:
  assumes k: "keyboard_ok os pressed" and p: "session_profile p" and rel: "releasing p pressed before requested u (self, w)" and u: "u \<noteq> 0"
  shows "wp (release_attempt os hwnd u anomaly)
    (\<lambda>(r, _) s. releasing p pressed before requested (remaining r) s \<and> (r \<noteq> VerifiedAllUp \<longrightarrow> remaining r \<noteq> 0)) (\<lambda>_. False) (self, w)"
proof -
  define self1 where "self1 = self\<lparr>tk_release_attempts_total := saturating_add (tk_release_attempts_total self) 1\<rparr>"
  have same: "tk_profile self1 = from_validated p" "tk_in_flight_mask self1 = 0" "recorded self1 = recorded self"
      "tk_active_mask self1 = tk_active_mask self" "tk_failed_release_mask self1 = tk_failed_release_mask self"
    using rel by (simp_all add: self1_def releasing_def recorded_def)
  have step: "releasing p pressed before requested (remaining r) (discharge (resolved_by u r) self1, w2)"
      "r \<noteq> VerifiedAllUp \<longrightarrow> remaining r \<noteq> 0"
    if effect: "transaction_effect p (packet_new u 0) outcome (pressed w) (pressed w1)" and w2: "pressed w2 = pressed w1"
      and r: "r = normalize_release u (reconcile_logical_release_observation u (ev_confirmed_mask (so_evidence outcome)) observed)"
    for outcome w1 w2 r observed
  proof -
    note E = release_effect [OF effect u] and R = reconcile_sound [OF u release_effect(1) [OF effect u] r]
    have gone: "down_slots p (pressed w2) \<inter> bits (resolved_by u r) = {}"
      using E(1,4) R(3,4) w2 u by auto
    show "releasing p pressed before requested (remaining r) (discharge (resolved_by u r) self1, w2)"
      using rel same gone R(1,4) E(2,3) w2 unfolding releasing_def by auto
    show "r \<noteq> VerifiedAllUp \<longrightarrow> remaining r \<noteq> 0" using R(2) by blast
  qed
  have "wp (do_emit_up_once os u) (\<lambda>outcome. wp (sbind (sread (\<lambda>(self, _). Inr (tk_profile self))) (\<lambda>profile.
     sbind (on_world_only (instrument_logical_physical_state_for_mask os profile hwnd u)) (\<lambda>observed.
     let r = normalize_release u (reconcile_logical_release_observation u (ev_confirmed_mask (so_evidence outcome)) observed) in
     sbind (edit (discharge (resolved_by u r))) (\<lambda>_. sret (r, anomaly \<or> outcome_anomaly outcome)))))
     (\<lambda>(r, _) s. releasing p pressed before requested (remaining r) s \<and> (r \<noteq> VerifiedAllUp \<longrightarrow> remaining r \<noteq> 0)) (\<lambda>_. False))
     (\<lambda>_. False) (self1, w)"
  proof (rule wp_mono [OF emit_effect [OF k p same(1)]], goal_cases)
    case (1 outcome s)
    then obtain w1 where s: "s = (self1, w1)" and effect: "transaction_effect p (packet_new u 0) outcome (pressed w) (pressed w1)" by auto
    obtain observed w2 where probe: "instrument_logical_physical_state_for_mask os (from_validated p) hwnd u w1 = (Inr observed, w2)"
        and w2: "pressed w2 = pressed w1"
      using probe_quiet [OF k p, of hwnd u w1] by (auto simp: wp_def split: prod.splits sum.splits failure.splits)
    show ?case using step [OF effect w2 refl, of observed] probe s same(1)
      by (simp add: wp_simps Let_def wp_on_world_only)
  qed simp
  then show ?thesis by (simp add: release_attempt_def wp_simps self1_def)
qed

lemma loop_releases:
  assumes k: "keyboard_ok os pressed" and p: "session_profile p"
  shows "releasing p pressed before requested u s \<Longrightarrow> u \<noteq> 0 \<Longrightarrow> final \<noteq> Some CleanupAllUp \<Longrightarrow> \<forall>i \<in> set attempts. i < 4 \<Longrightarrow>
    wp (release_loop os hwnd requested attempts u anomaly final)
      (\<lambda>exit s. case exit of
         Inl out \<Rightarrow> releasing p pressed before requested 0 s \<and> ra_attempted_mask out = requested \<and> ra_released_successfully out \<and>
           ra_stuck_mask out = 0 \<and> \<not> ra_verification_inconclusive out \<and> ra_attempts out \<le> 4
       | Inr (u', _, final') \<Rightarrow> releasing p pressed before requested u' s \<and> u' \<noteq> 0 \<and> final' \<noteq> Some CleanupAllUp) (\<lambda>_. False) s"
proof (induction attempts arbitrary: u anomaly final s)
  case Nil
  then show ?case by (simp add: wp_def)
next
  case (Cons i rest)
  let ?Q = "\<lambda>exit s. case exit of
         Inl out \<Rightarrow> releasing p pressed before requested 0 s \<and> ra_attempted_mask out = requested \<and> ra_released_successfully out \<and>
           ra_stuck_mask out = 0 \<and> \<not> ra_verification_inconclusive out \<and> ra_attempts out \<le> 4
       | Inr (u', _, final') \<Rightarrow> releasing p pressed before requested u' s \<and> u' \<noteq> 0 \<and> final' \<noteq> Some CleanupAllUp"
  have "unat (word_of_nat (i + 1) :: u8) = i + 1" using Cons.prems(4) by (intro unat_word_of_nat_small) simp
  then have i: "unat (1 + word_of_nat i :: u8) \<le> 4" using Cons.prems(4) by simp
  obtain self w where s: "s = (self, w)" by (cases s)
  have body: "wp (sbind (release_attempt os hwnd u anomaly) (\<lambda>(r, anomaly). case r of
       VerifiedAllUp \<Rightarrow>
         sbind (edit (\<lambda>self. if tk_failed_release_mask self = 0 then self\<lparr>tk_last_error := None\<rparr> else self)) (\<lambda>_.
         sret (Inl \<lparr>ra_attempted_mask = requested, ra_transport_anomaly = anomaly, ra_released_successfully = True,
           ra_stuck_mask = 0, ra_verification_inconclusive = False, ra_attempts = word_of_nat (i + 1)\<rparr>))
     | ReconciledHeld m \<Rightarrow> release_loop os hwnd requested rest m anomaly (Some (verification_of r))
     | ReconciledInconclusive m \<Rightarrow> release_loop os hwnd requested rest m anomaly (Some (verification_of r)))) ?Q (\<lambda>_. False) (self, w')"
    if w': "pressed w' = pressed w" for w'
  proof -
    have rel: "releasing p pressed before requested u (self, w')" using Cons.prems(1) s w' by (simp add: releasing_def)
    show ?thesis unfolding wp_sbind
    proof (rule wp_mono [OF attempt_releases [OF k p rel Cons.prems(2)]], goal_cases)
      case (1 x t)
      obtain r an self2 w2 where x: "x = (r, an)" "t = (self2, w2)" by (cases x, cases t)
      show ?case
      proof (cases r)
        case VerifiedAllUp
        then show ?thesis using 1 x i
          by (simp add: wp_simps word_le_nat_alt)
      qed (use 1 x Cons.IH Cons.prems(4) in auto)
    qed simp
  qed
  show ?case using body [of w] body [of "os_sleep os (RELEASE_RETRY_DELAYS_MS ! (i - 1)) w"] keyboard_okD(9) [OF k] s Cons.prems(2)
    by (simp add: wp_simps)
qed

lemma rfold_some: "(\<And>x a. x \<in> set xs \<Longrightarrow> \<exists>b. f x a = Inr b) \<Longrightarrow> \<exists>b. rfold f xs a = Inr b"
proof (induction xs arbitrary: a)
  case (Cons x xs)
  obtain b where "f x a = Inr b" using Cons.prems by (meson list.set_intros(1))
  then show ?case using Cons by simp
qed simp

lemma scan_codes_Inr: "session_profile p \<Longrightarrow> \<exists>codes. profile_scan_codes_from_mask (from_validated p) m = Inr codes"
  unfolding profile_scan_codes_from_mask_def by (rule rfold_some) (simp add: profile_key_Inr)

text \<open>What a release of \<open>scope\<close> promises from state \<open>s\<close>.\<close>

definition release_promise ::
  "instrument_key_profile \<Rightarrow> ('w \<Rightarrow> u16 set) \<Rightarrow> u16 \<Rightarrow> tracked_key_state \<times> 'w \<Rightarrow> release_all_outcome \<Rightarrow> tracked_key_state \<times> 'w \<Rightarrow> bool" where
  "release_promise p pressed requested s out s' \<longleftrightarrow>
     transport_ok p pressed s' \<and> recorded (fst s') \<subseteq> recorded (fst s) \<union> bits (ra_stuck_mask out) \<and>
     ra_attempted_mask out = requested \<and> ra_attempts out \<le> 4 \<and> bits (ra_stuck_mask out) \<subseteq> bits requested \<and>
     (bits requested - bits (ra_stuck_mask out)) \<inter> recorded (fst s') = {} \<and>
     bits (ra_stuck_mask out) \<subseteq> bits (tk_failed_release_mask (fst s')) \<and>
     (ra_released_successfully out \<longleftrightarrow> ra_stuck_mask out = 0) \<and> (ra_released_successfully out \<longrightarrow> \<not> ra_verification_inconclusive out)"

lemma scope_releases:
  assumes k: "keyboard_ok os pressed" and p: "session_profile p" and ok: "transport_ok p pressed (self, w)"
  shows "wp (release_scope os scope hwnd)
    (release_promise p pressed (case scope of TrackedScope \<Rightarrow> release_obligation_mask self | FullInstrumentScope \<Rightarrow> FULL_INSTRUMENT_MASK) (self, w))
    (\<lambda>_. False) (self, w)"
proof -
  define requested where "requested = (case scope of TrackedScope \<Rightarrow> release_obligation_mask self | FullInstrumentScope \<Rightarrow> FULL_INSTRUMENT_MASK)"
  have rel: "releasing p pressed (recorded self) requested requested (self, w)"
    using ok by (auto simp: transport_ok_def masks_account_def releasing_def)
  show ?thesis
  proof (cases "requested = 0")
    case True
    then show ?thesis using ok by (simp add: release_scope_def wp_simps requested_def [symmetric] release_promise_def)
  next
    case False
    let ?Q = "release_promise p pressed requested (self, w)"
    have "wp (release_loop os hwnd requested [0, 1, 2, 3] requested False None) (\<lambda>exit. wp (case exit of
       Inl outcome \<Rightarrow> sret outcome
     | Inr (unresolved_mask, transport_anomaly, final) \<Rightarrow>
         let verification = (case final of Some v \<Rightarrow> v | None \<Rightarrow> CleanupHeld unresolved_mask);
             released_successfully = verification_is_success verification;
             stuck_mask = (if released_successfully then 0 else unresolved_mask) in
         sbind (sread (\<lambda>(self, _). release_error scope (tk_profile self) unresolved_mask requested)) (\<lambda>error_msg.
         sbind (if \<not> released_successfully
                then edit (\<lambda>self. self\<lparr>tk_last_error := Some error_msg,
                       tk_failed_release_mask := tk_failed_release_mask self OR stuck_mask\<rparr>)
                else sret ()) (\<lambda>_.
         sret \<lparr>ra_attempted_mask = requested, ra_transport_anomaly = transport_anomaly,
           ra_released_successfully = released_successfully, ra_stuck_mask = stuck_mask,
           ra_verification_inconclusive = verification_is_inconclusive verification, ra_attempts = 4\<rparr>))) ?Q (\<lambda>_. False)) (\<lambda>_. False) (self, w)"
    proof (rule wp_mono [OF loop_releases [OF k p rel False, of None "[0, 1, 2, 3]" hwnd False]], simp, simp, goal_cases)
      case (1 exit t)
      obtain self' w' where t: "t = (self', w')" by (cases t)
      show ?case
      proof (cases exit)
        case (Inl out)
        then show ?thesis using 1 t
          by (auto simp: wp_simps release_promise_def releasing_def transport_ok_def masks_account_def)
      next
        case (Inr x)
        obtain u an final where x: "x = (u, an, final)" by (cases x)
        obtain codes codes' where "profile_scan_codes_from_mask (from_validated p) u = (Inr codes :: unit failure + _)"
            "profile_scan_codes_from_mask (from_validated p) requested = (Inr codes' :: unit failure + _)"
          using scan_codes_Inr [OF p] by blast
        then obtain err where err: "release_error scope (from_validated p) u requested = Inr err"
          by (cases scope) (simp_all add: release_error_def)
        have profile: "tk_profile self' = from_validated p" using 1 Inr x t by (simp add: releasing_def)
        have fail: "\<not> verification_is_success (case final of Some v \<Rightarrow> v | None \<Rightarrow> CleanupHeld u)"
          using 1 Inr x by (auto simp: verification_is_success_def split: option.split)
        show ?thesis using 1 t Inr x err profile fail
          by (auto simp: wp_simps Let_def release_promise_def releasing_def transport_ok_def masks_account_def recorded_def)
      qed
    qed
    then show ?thesis using False by (simp add: release_scope_def wp_simps requested_def [symmetric])
  qed
qed

section \<open>Reachable states\<close>

text \<open>The states of one session: any sequence of sends and releases after the construction, in a world where
  none of the session's keys was down.\<close>

inductive transport_reachable ::
  "('w, 'x) platform \<Rightarrow> instrument_key_profile \<Rightarrow> qpc_clock \<Rightarrow> 'w \<Rightarrow> tracked_key_state \<times> 'w \<Rightarrow> bool"
  for os p clock w0 where
  start: "transport_reachable os p clock w0 (with_qpc_clock_and_profile clock (from_validated p), w0)"
| prepared: "transport_reachable os p clock w0 s \<Longrightarrow> try_new_with_profile pkt (from_validated p) = Inr prep \<Longrightarrow>
    send_prepared_physical_packet_at_final_boundary os prep st s = (Inr r, s') \<Longrightarrow> transport_reachable os p clock w0 s'"
| with_start: "transport_reachable os p clock w0 s \<Longrightarrow> try_new_with_profile pkt (from_validated p) = Inr prep \<Longrightarrow>
    send_prepared_physical_packet_view_with_start os (as_view prep) ticks s = (Inr r, s') \<Longrightarrow> transport_reachable os p clock w0 s'"
| recovery: "transport_reachable os p clock w0 s \<Longrightarrow> try_new_with_profile pkt (from_validated p) = Inr prep \<Longrightarrow>
    up_recovery_view prep = Some view \<Longrightarrow> send_prepared_physical_packet_view os view s = (Inr r, s') \<Longrightarrow>
    transport_reachable os p clock w0 s'"
| physical: "transport_reachable os p clock w0 s \<Longrightarrow> send_physical_packet os pkt s = (Inr r, s') \<Longrightarrow>
    transport_reachable os p clock w0 s'"
| release: "transport_reachable os p clock w0 s \<Longrightarrow> release_all os hwnd s = (Inr out, s') \<Longrightarrow>
    transport_reachable os p clock w0 s'"
| release_full: "transport_reachable os p clock w0 s \<Longrightarrow> release_all_full_instrument os hwnd s = (Inr out, s') \<Longrightarrow>
    transport_reachable os p clock w0 s'"

lemma reachable_ok:
  assumes k: "keyboard_ok os pressed" and p: "session_profile p" and clean: "down_slots p (pressed w0) = {}"
    and "transport_reachable os p clock w0 s"
  shows "transport_ok p pressed s"
  using assms(4)
proof (induction rule: transport_reachable.induct)
  case start
  then show ?case using clean
    by (simp add: transport_ok_def masks_account_def with_qpc_clock_and_profile_def tracked_new_def)
next
  case (prepared s pkt prep st r s')
  then show ?case using wp_Inr [OF send_view_promise [OF k p prepared.IH prepared_view_ok(1) [OF prepared.hyps(2)], where st = None]]
    by (simp add: send_promise_def send_prepared_physical_packet_at_final_boundary_def send_prepared_physical_packet_def
        send_prepared_physical_packet_view_def)
next
  case (with_start s pkt prep ticks r s')
  then show ?case using wp_Inr [OF send_view_promise [OF k p with_start.IH prepared_view_ok(1) [OF with_start.hyps(2)], where st = "Some ticks"]]
    by (simp add: send_promise_def send_prepared_physical_packet_view_with_start_def)
next
  case (recovery s pkt prep view r s')
  then show ?case using wp_Inr [OF send_view_promise [OF k p recovery.IH recovery_view_ok(1) [OF recovery.hyps(2,3)], where st = None]]
    by (simp add: send_promise_def send_prepared_physical_packet_view_def)
next
  case (physical s pkt r s')
  then show ?case using wp_Inr [OF send_physical_packet_promise [OF k p physical.IH]] by (auto simp: send_promise_def)
next
  case (release s hwnd out s')
  obtain self w where s: "s = (self, w)" by (cases s)
  show ?case using wp_Inr [OF scope_releases [OF k p release.IH [unfolded s], of TrackedScope hwnd]] release.hyps(2) s
    by (simp add: release_all_def release_promise_def)
next
  case (release_full s hwnd out s')
  obtain self w where s: "s = (self, w)" by (cases s)
  show ?case using wp_Inr [OF scope_releases [OF k p release_full.IH [unfolded s], of FullInstrumentScope hwnd]] release_full.hyps(2) s
    by (simp add: release_all_full_instrument_def release_promise_def)
qed

section \<open>Properties\<close>

lemma obligation_recorded: "tk_in_flight_mask self = 0 \<Longrightarrow> bits (release_obligation_mask self) = recorded self"
  by (simp add: release_obligation_mask_def recorded_def Un_assoc)

lemma down_within: "down_slots p S \<subseteq> {..<MAX_KEYS}"
  by (auto simp: down_slots_def)

text \<open>A small keyboard: the clock stands still, every event is inserted, every probe answers that nothing is held.\<close>

definition demo_platform :: "bool \<Rightarrow> (u16 set, unit) platform" where
  "demo_platform inserts =
     \<lparr>os_now = (\<lambda>S. (Inr (QpcTicks 0), S)),
      os_send_input = (\<lambda>inputs S. let n = (if inserts then word_of_nat (length inputs) else 0) in (n, typed (take (unat n) inputs) S)),
      os_reset_error = (\<lambda>S. S), os_last_error = (\<lambda>S. (5, S)), os_foreground_window = (\<lambda>S. (7, S)),
      os_window_process = (\<lambda>_ S. ((1, 1), S)),
      os_keyboard_context = (\<lambda>_ S. (Some (), S)), os_map_virtual_key = (\<lambda>_ code S. (ucast code, S)),
      os_key_state = (\<lambda>v S. (if ucast v \<in> S then 0x8000 else 0, S)), os_sleep = (\<lambda>_ S. S)\<rparr>"

lemma demo_keyboard: "keyboard_ok (demo_platform b) (\<lambda>S. S)"
  by (simp add: keyboard_ok_def demo_platform_def Let_def)

definition demo_profile :: instrument_key_profile where
  "demo_profile = \<lparr>ip_keys = sp_keys spec_canonical\<rparr>"

lemma demo_profile_ok: "session_profile demo_profile"
proof -
  have "try_from_spec spec_canonical = Inr demo_profile" by code_simp
  moreover have "length (ip_keys demo_profile) = MAX_KEYS" by code_simp
  ultimately show ?thesis unfolding session_profile_def by blast
qed

lemma demo_session:
  "transport_reachable (demo_platform b) demo_profile (\<lparr>frequency_hz = 1\<rparr>) {} (with_qpc_clock_and_profile (\<lparr>frequency_hz = 1\<rparr>) (from_validated demo_profile), {})"
  by (rule transport_reachable.start)

definition demo_prepared :: prepared_packet where
  "demo_prepared = \<lparr>prep_packet = packet_new 0 5, prep_length = 2, prep_inputs = [create_keyboard_input 0x15 False, create_keyboard_input 0x17 False]\<rparr>"

definition demo_sent :: "(unit failure + send_transaction_outcome) \<times> tracked_key_state \<times> u16 set" where
  "demo_sent = send_prepared_physical_packet_at_final_boundary (demo_platform True) demo_prepared None
     (with_qpc_clock_and_profile \<lparr>frequency_hz = 1\<rparr> (from_validated demo_profile), {})"

lemma demo_prepared: "try_new_with_profile (packet_new 0 5) (from_validated demo_profile) = Inr demo_prepared"
  by code_simp

lemma demo_transaction:
  "\<exists>r. send_prepared_physical_packet_once_impl (demo_platform True) (as_view demo_prepared) None {} = (r, {0x15, 0x17}) \<and> is_success r"
proof -
  have two: "packet_event_count (packet_new 0 5) = 2" by code_simp
  have "typed (prep_inputs demo_prepared) {} = {0x15, 0x17}"
    by (simp add: demo_prepared_def typed_def key_effect_def create_keyboard_input_def KEYEVENTF_SCANCODE_def KEYEVENTF_KEYUP_def insert_commute)
  with two show ?thesis
    by (auto simp: send_prepared_physical_packet_once_impl_def send_once_prepared_view_def Let_def demo_platform_def as_view_def
        demo_prepared_def prepared_send_outcome_def classify_send_status_def is_success_def)
qed

lemma demo_sent:
  "\<exists>r self. demo_sent = (Inr r, self, {0x15, 0x17}) \<and> is_success r \<and>
     transport_reachable (demo_platform True) demo_profile \<lparr>frequency_hz = 1\<rparr> {} (self, {0x15, 0x17})"
proof -
  obtain r where r: "send_prepared_physical_packet_once_impl (demo_platform True) (as_view demo_prepared) None {} = (r, {0x15, 0x17})" "is_success r"
    using demo_transaction by blast
  let ?self = "snd (apply_packet_outcome (packet_new 0 5) r
      (mark_in_flight (packet_new 0 5) (with_qpc_clock_and_profile \<lparr>frequency_hz = 1\<rparr> (from_validated demo_profile))))"
  have "tk_qpc_clock (with_qpc_clock_and_profile \<lparr>frequency_hz = 1\<rparr> (from_validated demo_profile)) = Some \<lparr>frequency_hz = 1\<rparr>"
    by (simp add: with_qpc_clock_and_profile_def tracked_new_def)
  moreover have "vw_packet (as_view demo_prepared) = packet_new 0 5" by (simp add: as_view_def demo_prepared_def)
  ultimately have "demo_sent = (Inr r, ?self, {0x15, 0x17})"
    using r(1) by (simp add: demo_sent_def send_prepared_physical_packet_at_final_boundary_def send_prepared_physical_packet_def
        send_prepared_physical_packet_view_def send_view_def Let_def sbind_apply edit_def on_tracked_def on_world_def case_prod_unfold)
  then show ?thesis
    using transport_reachable.prepared [OF demo_session demo_prepared] r(2) by (auto simp: demo_sent_def)
qed

text \<open>C6: In every state a session can reach by sending packets and releasing keys, each session key that is
  down on the keyboard is recorded in the release obligation, whatever failed on the way; and a key
  recorded as active really is down, unless an earlier release of it failed.\<close>

theorem no_key_is_forgotten:
  assumes k: "keyboard_ok os pressed" and p: "session_profile p" and clean: "down_slots p (pressed w0) = {}"
    and reach: "transport_reachable os p clock w0 (self, w)"
  shows "(\<forall>slot. slot < MAX_KEYS \<longrightarrow> pk_scan_code (ip_keys p ! slot) \<in> pressed w \<longrightarrow> bit (release_obligation_mask self) slot) \<and>
    (\<forall>slot. bit (tk_active_mask self) slot \<longrightarrow>
       slot < MAX_KEYS \<and> pk_scan_code (ip_keys p ! slot) \<in> pressed w \<or> bit (tk_failed_release_mask self) slot)"
proof -
  have "transport_ok p pressed (self, w)" by (rule reachable_ok [OF k p clean reach])
  then have "tk_in_flight_mask self = 0" "down_slots p (pressed w) \<subseteq> recorded self"
      "bits (tk_active_mask self) \<subseteq> down_slots p (pressed w) \<union> bits (tk_failed_release_mask self)"
    by (simp_all add: transport_ok_def masks_account_def)
  then show ?thesis using obligation_recorded [of self] by (auto simp: down_slots_def)
qed

theorem no_key_is_forgotten_witness:
  "\<exists>self. snd (snd demo_sent) = {0x15, 0x17} \<and> fst (snd demo_sent) = self \<and> bit (release_obligation_mask self) 0 \<and> bit (release_obligation_mask self) 2"
proof -
  obtain r self where d: "demo_sent = (Inr r, self, {0x15, 0x17})" "transport_reachable (demo_platform True) demo_profile \<lparr>frequency_hz = 1\<rparr> {} (self, {0x15, 0x17})"
    using demo_sent by blast
  have codes: "code_of demo_profile 0 = 0x15" "code_of demo_profile 2 = 0x17" by (code_simp, code_simp)
  have clean: "down_slots demo_profile {} = {}" by (simp add: down_slots_def)
  note kept = no_key_is_forgotten [OF demo_keyboard demo_profile_ok clean d(2), THEN conjunct1, rule_format]
  have "bit (release_obligation_mask self) 0" "bit (release_obligation_mask self) 2"
    using kept [of 0] kept [of 2] by (simp_all add: codes MAX_KEYS_def)
  then show ?thesis unfolding d(1) by simp
qed

text \<open>C12: Sending a prepared packet from a reachable state never panics. If it reports success, the session
  keys that are down are exactly those that were down and are not released by the packet, and those it
  presses; if it reports that nothing was inserted or that the clock failed beforehand, the keyboard is
  unchanged; in every other case the keys of the packet that are down are recorded as possibly active.\<close>

theorem send_reports_truthfully:
  assumes k: "keyboard_ok os pressed" and p: "session_profile p" and clean: "down_slots p (pressed w0) = {}"
    and reach: "transport_reachable os p clock w0 (self, w)" and prep: "try_new_with_profile pkt (from_validated p) = Inr prep"
  shows "\<exists>r self' w'. send_prepared_physical_packet_at_final_boundary os prep st (self, w) = (Inr r, (self', w')) \<and>
    (is_success r \<longrightarrow> (\<forall>slot < MAX_KEYS. pk_scan_code (ip_keys p ! slot) \<in> pressed w' \<longleftrightarrow>
        bit (pkt_down_mask pkt) slot \<or> pk_scan_code (ip_keys p ! slot) \<in> pressed w \<and> \<not> bit (pkt_up_mask pkt) slot)) \<and>
    (so_status r \<in> {ZeroProgress, PreparationRejected, ClockFailureBeforeSend} \<longrightarrow> pressed w' = pressed w) \<and>
    (so_status r \<in> {PartialProgress, IntegrityLost, ClockFailureAfterSend} \<longrightarrow>
       (\<forall>slot. bit (pkt_up_mask pkt OR pkt_down_mask pkt) slot \<longrightarrow> bit (tk_possibly_active_mask self') slot))"
proof -
  let ?send = "send_prepared_physical_packet_at_final_boundary os prep st"
  note view = prepared_view_ok [OF prep]
  have send: "?send = send_view os (as_view prep) None"
    by (simp add: send_prepared_physical_packet_at_final_boundary_def send_prepared_physical_packet_def send_prepared_physical_packet_view_def)
  obtain r self' w' where run: "?send (self, w) = (Inr r, (self', w'))" and promise: "send_promise p pressed pkt (self, w) r (self', w')"
    using send_view_promise [OF k p reachable_ok [OF k p clean reach] view(1), of None] unfolding view(2) send [symmetric]
    by (auto simp: wp_def split: prod.splits sum.splits failure.splits)
  have effect: "transaction_effect p pkt r (pressed w) (pressed w')" using promise by (simp add: send_promise_def)
  have "is_success r \<Longrightarrow> slot < MAX_KEYS \<Longrightarrow> pk_scan_code (ip_keys p ! slot) \<in> pressed w' \<longleftrightarrow>
      bit (pkt_down_mask pkt) slot \<or> pk_scan_code (ip_keys p ! slot) \<in> pressed w \<and> \<not> bit (pkt_up_mask pkt) slot" for slot
    using effect by (auto simp: transaction_effect_def is_success_def down_slots_def set_eq_iff)
  moreover have "so_status r \<in> {ZeroProgress, PreparationRejected, ClockFailureBeforeSend} \<Longrightarrow> pressed w' = pressed w"
    using effect by (auto simp: transaction_effect_def)
  moreover have "bit (tk_possibly_active_mask self') slot"
    if status: "so_status r \<in> {PartialProgress, IntegrityLost, ClockFailureAfterSend}" and slot: "bit (pkt_up_mask pkt OR pkt_down_mask pkt) slot" for slot
  proof -
    have zero: "ev_confirmed_mask (so_evidence r) = 0" using effect status by (auto simp: transaction_effect_def)
    have clock: "tk_qpc_clock self \<noteq> None"
    proof
      assume "tk_qpc_clock self = None"
      then have "so_status r = ZeroProgress" using run
        by (auto simp: send send_view_def Let_def sbind_apply edit_def on_tracked_def idle_outcome_def case_prod_unfold)
      then show False using status by simp
    qed
    then have "self' = snd (apply_packet_outcome pkt r (mark_in_flight pkt self))" using run view(2)
      by (auto simp: send send_view_def Let_def sbind_apply edit_def on_tracked_def on_world_def case_prod_unfold)
    then show ?thesis using status slot zero
      by (auto simp: apply_defs mark_in_flight_def packet_union_def mask_simps)
  qed
  ultimately show ?thesis using run by blast
qed

theorem send_reports_truthfully_witness:
  "\<exists>r self' w'. demo_sent = (Inr r, (self', w')) \<and> is_success r \<and> 0x15 \<in> w' \<and> 0x16 \<notin> w'"
proof -
  have codes: "pk_scan_code (ip_keys demo_profile ! 0) = 0x15" "pk_scan_code (ip_keys demo_profile ! 1) = 0x16" by (code_simp, code_simp)
  have clean: "down_slots demo_profile {} = {}" by (simp add: down_slots_def)
  have bits: "bit (5 :: u16) 0" "\<not> bit (5 :: u16) 1" "pkt_down_mask (packet_new 0 5) = 5" by (simp, simp, simp add: packet_new_def)
  obtain r self w where d: "demo_sent = (Inr r, self, w)" "is_success r" using demo_sent by blast
  note run = send_reports_truthfully [OF demo_keyboard [of True] demo_profile_ok clean demo_session demo_prepared, where st = None]
  have "\<forall>slot < MAX_KEYS. pk_scan_code (ip_keys demo_profile ! slot) \<in> w \<longleftrightarrow> bit (pkt_down_mask (packet_new 0 5)) slot"
    using run d unfolding demo_sent_def by auto
  note pressed = this [rule_format]
  have "0x15 \<in> w" "0x16 \<notin> w" using pressed [of 0] pressed [of 1] bits codes by (simp_all add: MAX_KEYS_def)
  then show ?thesis using d by blast
qed

text \<open>C13: Releasing the tracked keys from a reachable state never panics and makes at most four attempts,
  whatever the transport and the physical probe report. If it reports success, no session key is down and
  nothing is left to release; otherwise it reports a non-empty set of stuck keys, which contains every
  session key still down and stays recorded as failed.\<close>

theorem release_all_truthful:
  assumes k: "keyboard_ok os pressed" and p: "session_profile p" and clean: "down_slots p (pressed w0) = {}"
    and reach: "transport_reachable os p clock w0 (self, w)"
  shows "\<exists>out self' w'. release_all os hwnd (self, w) = (Inr out, (self', w')) \<and> ra_attempts out \<le> 4 \<and>
    (ra_released_successfully out \<longrightarrow> release_obligation_mask self' = 0 \<and> (\<forall>slot < MAX_KEYS. pk_scan_code (ip_keys p ! slot) \<notin> pressed w')) \<and>
    (\<not> ra_released_successfully out \<longrightarrow> ra_stuck_mask out \<noteq> 0 \<and>
       (\<forall>slot < MAX_KEYS. pk_scan_code (ip_keys p ! slot) \<in> pressed w' \<longrightarrow> bit (ra_stuck_mask out) slot) \<and>
       (\<forall>slot. bit (ra_stuck_mask out) slot \<longrightarrow> bit (tk_failed_release_mask self') slot))"
proof -
  have ok: "transport_ok p pressed (self, w)" by (rule reachable_ok [OF k p clean reach])
  obtain out self' w' where run: "release_all os hwnd (self, w) = (Inr out, (self', w'))"
      and promise: "release_promise p pressed (release_obligation_mask self) (self, w) out (self', w')"
    using scope_releases [OF k p ok, of TrackedScope hwnd]
    by (auto simp: release_all_def wp_def split: prod.splits sum.splits failure.splits)
  have flight: "tk_in_flight_mask self = 0" "tk_in_flight_mask self' = 0" using ok promise by (simp_all add: transport_ok_def release_promise_def)
  have left: "recorded self' \<subseteq> bits (ra_stuck_mask out)"
    using promise obligation_recorded [OF flight(1)] by (auto simp: release_promise_def)
  have down: "down_slots p (pressed w') \<subseteq> recorded self'" using promise by (simp add: release_promise_def transport_ok_def masks_account_def)
  have none: "ra_stuck_mask out = 0 \<Longrightarrow> release_obligation_mask self' = 0"
    using left obligation_recorded [OF flight(2)] by (auto simp: u16_eq_iff)
  show ?thesis
    using run promise left down none by (auto simp: release_promise_def down_slots_def)
qed

theorem release_all_truthful_witness:
  "\<exists>self w out self' w'. {0x15, 0x17} \<subseteq> w \<and> release_all (demo_platform True) 7 (self, w) = (Inr out, (self', w')) \<and> ra_attempts out \<le> 4"
proof -
  obtain self where "transport_reachable (demo_platform True) demo_profile \<lparr>frequency_hz = 1\<rparr> {} (self, {0x15, 0x17})"
    using demo_sent by blast
  moreover have clean: "down_slots demo_profile {} = {}" by (simp add: down_slots_def)
  ultimately show ?thesis using release_all_truthful [OF demo_keyboard demo_profile_ok clean, of True "\<lparr>frequency_hz = 1\<rparr>" self "{0x15, 0x17}" 7] by blast
qed

end
