(* ===== verification/Sky_Effects.thy ===== *)
theory Sky_Effects
  imports Sky_Planning Sky_Playback
begin

unbundle bit_operations_syntax

text \<open>
  What the commits of the coordinator do to the set of owned keys. A success releases exactly the immediate
  releases of the packet and takes exactly its presses, whatever state the coordinator is in; a missed
  deadline only releases; a deferred release lets go of exactly its mask. For this a token must cover the
  masks of its frame: the tokens the preparation produces do.
\<close>

abbreviation keys_of :: "coordinator \<Rightarrow> nat set" where
  "keys_of c \<equiv> {n. bit (dc_active_mask c) n}"

section \<open>Operations that keep the owners\<close>

definition same_keys :: "coordinator \<Rightarrow> coordinator \<Rightarrow> bool" where
  "same_keys c c' \<longleftrightarrow> dc_active_mask c' = dc_active_mask c"

interpretation same_keys: frame_preorder same_keys
  by unfold_locales (simp_all add: same_keys_def)

lemma keys_transition: "frames same_keys (transition_generation g from nxt)"
  unfolding transition_generation_def
proof (intro same_keys.frame_intros)
  show "frames same_keys increment_activated"
    by (rule framesI) (simp add: increment_activated_def same_keys_def split: option.splits)
  show "frames same_keys (increment_counter nxt)"
    by (rule framesI) (simp add: increment_counter_def same_keys_def split: sum.splits)
  show "frames same_keys (supdate (set_status g nxt))"
    by (rule same_keys.frames_supdate) (simp add: same_keys_def set_status_def)
qed

lemma keys_tables:
  "frames same_keys (set_active slot a)" "frames same_keys (set_pending slot q)" "frames same_keys (set_cancelled slot t)"
  by (rule framesI; simp add: set_active_def set_pending_def set_cancelled_def same_keys_def)+

lemma keys_invalidate: "frames same_keys (invalidate_up_for_generation g)"
  by (rule framesI)
    (auto simp: invalidate_up_for_generation_def set_intent_def same_keys_def Let_def split: option.splits prod.splits)

lemma keys_reconcile: "frames same_keys (reconcile_resumable_cancelled_up t)"
  unfolding reconcile_resumable_cancelled_up_def Let_def
  by (intro same_keys.frame_intros keys_tables same_keys.frames_supdate) (simp add: same_keys_def set_status_def)

lemma keys_deferred: "frames same_keys (commit_deferred_up f t src)"
  unfolding commit_deferred_up_def register_pending_def Let_def
  by (intro same_keys.frame_intros keys_tables same_keys.frames_supdate) (simp add: same_keys_def)

lemma keys_miss_down: "frames same_keys (miss_down d m)"
  unfolding miss_down_def Let_def by (intro same_keys.frame_intros keys_transition keys_invalidate)

lemma keys_finish: "frames same_keys (finish_commit n)"
  unfolding finish_commit_def
proof (intro same_keys.frame_intros)
  show "frames same_keys (advance_cursor n)"
    by (rule framesI) (simp add: advance_cursor_def same_keys_def split: option.splits)
qed

lemma keys_check: "frames same_keys (check_cursor n)"
  unfolding check_cursor_def by (rule same_keys.frames_sread)

lemma frames_run: "frames F m \<Longrightarrow> m s = (r, t) \<Longrightarrow> F s t"
  by (metis frames_def snd_conv)

lemma same_keysD: "frames same_keys m \<Longrightarrow> m c = (r, c') \<Longrightarrow> dc_active_mask c' = dc_active_mask c"
  using frames_run by (fastforce simp: same_keys_def)

section \<open>One intent\<close>

lemma disown_keys: "disown_slot slot c = (Inr x, c') \<Longrightarrow> unat slot < MAX_KEYS \<Longrightarrow> keys_of c' = keys_of c - {unat slot}"
  by (auto simp: disown_slot_def sbind_apply set_active_def bit_for_slot_mask_bit bit_clear_slot split: if_splits)

lemma own_keys: "own_slot slot a c = (Inr x, c') \<Longrightarrow> unat slot < MAX_KEYS \<Longrightarrow> keys_of c' = insert (unat slot) (keys_of c)"
  by (auto simp: own_slot_def sbind_apply set_active_def bit_for_slot_mask_bit bit_set_slot split: if_splits)

lemma immediate_keys:
  assumes inv: "coord_inv c" and s: "unat (identity_key_slot t) < MAX_KEYS"
    and run: "commit_immediate_up t started c = (Inr x, c')"
  shows "keys_of c' = keys_of c - {unat (identity_key_slot t)}"
proof (cases "act c (unat (identity_key_slot t))")
  case None
  then have gone: "unat (identity_key_slot t) \<notin> keys_of c" using owner_mask [OF coord_invD(5) [OF inv]] by simp
  have "keys_of c' = keys_of c"
    using run None slot_lookup(1) [OF inv s] same_keysD [OF keys_reconcile]
    by (auto simp: commit_immediate_up_def Let_def sbind_eq_Inr sread_eq split: if_splits)
  then show ?thesis using gone by simp
next
  case (Some a)
  then obtain u where "transition_generation (identity_generation_id t) Active Released c = (Inr (), u)"
      "disown_slot (identity_key_slot t) u = (Inr x, c')"
    using run slot_lookup(1) [OF inv s]
    by (auto simp: commit_immediate_up_def Let_def sbind_eq_Inr sread_eq split: if_splits)
  then show ?thesis using same_keysD [OF keys_transition] disown_keys [OF _ s] by metis
qed

lemma sent_down_keys:
  assumes s: "unat (pd_key_slot d) < MAX_KEYS" and run: "commit_sent_down src rnb d c = (Inr x, c')"
  shows "keys_of c' = (if down_generation_id d = NO_GENERATION_ID then keys_of c else insert (unat (pd_key_slot d)) (keys_of c))"
proof (cases "down_generation_id d = NO_GENERATION_ID")
  case False
  then obtain u a where "transition_generation (down_generation_id d) Scheduled Active c = (Inr (), u)"
      "own_slot (pd_key_slot d) a u = (Inr x, c')"
    using run by (auto simp: commit_sent_down_def Let_def sbind_eq_Inr sread_eq split: if_splits)
  then show ?thesis using False same_keysD [OF keys_transition] own_keys [OF _ s] by metis
qed (use run in \<open>simp add: commit_sent_down_def Let_def\<close>)

lemma release_pending_keys:
  assumes s: "slot < MAX_KEYS" and run: "release_pending_slot started slot c = (Inr x, c')"
  shows "keys_of c' = keys_of c - {slot}"
proof -
  have n: "unat (word_of_nat slot :: u8) = slot" using s by (rule word_of_nat_slot)
  obtain a where a: "active_for_slot c (word_of_nat slot) = Inr (Some a)"
    using run by (auto simp: release_pending_slot_def Let_def sbind_eq_Inr sread_eq split: option.splits)
  obtain g u v w m where "transition_generation g Active Released c = (Inr (), u)"
      "disown_slot (word_of_nat slot) u = (Inr (), v)" "set_pending (word_of_nat slot) None v = (Inr (), w)"
      and c': "c' = w\<lparr>dc_pending_release_mask := m\<rparr>"
    using run a by (auto simp: release_pending_slot_def Let_def sbind_eq_Inr sread_eq supdate_eq split: if_splits)
  then have "keys_of w = keys_of c - {slot}"
    using same_keysD [OF keys_transition] same_keysD [OF keys_tables(2)] disown_keys [of "word_of_nat slot"] n s by metis
  then show ?thesis by (simp add: c')
qed

section \<open>Whole commits\<close>

text \<open>A token covers its frame: every immediate release has its intent, and the presses are those of the mask.\<close>

definition covered :: "prepared_authored_commit \<Rightarrow> bool" where
  "covered commit \<longleftrightarrow>
     {n. bit (pf_immediate_up_mask (pc_frame commit)) n} \<subseteq> (\<lambda>u. unat (identity_key_slot (pu_identity u))) ` set (pc_up_intents commit) \<and>
     {n. bit (pf_down_mask (pc_frame commit)) n}
       = {unat (pd_key_slot d) | d. d \<in> set (pc_down_intents commit) \<and> down_generation_id d \<noteq> NO_GENERATION_ID}"

lemma sfor_releases:
  assumes "sfor xs f c = (Inr r, c')" and "J c"
    and "\<And>x t u. x \<in> set xs \<Longrightarrow> J t \<Longrightarrow> f x t = (Inr (), u) \<Longrightarrow> J u \<and> keys_of u = keys_of t - A x"
  shows "J c' \<and> keys_of c' = keys_of c - (\<Union>x \<in> set xs. A x)"
  using assms
proof (induction xs arbitrary: c)
  case (Cons x xs)
  then obtain u where u: "f x c = (Inr (), u)" "sfor xs f u = (Inr r, c')" by (auto simp: sbind_eq_Inr)
  then have "J u" "keys_of u = keys_of c - A x" using Cons.prems by auto
  then show ?case using Cons.IH [OF u(2)] Cons.prems(3) by auto
qed simp

lemma sfor_presses:
  assumes "sfor xs f c = (Inr r, c')" and "\<And>x t u. x \<in> set xs \<Longrightarrow> f x t = (Inr (), u) \<Longrightarrow> keys_of u = keys_of t \<union> B x"
  shows "keys_of c' = keys_of c \<union> (\<Union>x \<in> set xs. B x)"
  using assms
proof (induction xs arbitrary: c)
  case (Cons x xs)
  then obtain u where u: "f x c = (Inr (), u)" "sfor xs f u = (Inr r, c')" by (auto simp: sbind_eq_Inr)
  have "keys_of c' = keys_of u \<union> (\<Union>x \<in> set xs. B x)" by (rule Cons.IH [OF u(2)]) (rule Cons.prems(2); simp)
  moreover have "keys_of u = keys_of c \<union> B x" by (rule Cons.prems(2) [OF _ u(1)]) simp
  ultimately show ?case by auto
qed simp

lemma ups_keys:
  assumes rd: "ready c" and fr: "frozen_for c commit" and cov: "covered commit"
    and run: "commit_prepared_up_intents_frozen (pc_frame commit) (pc_up_intents commit) started c = (Inr r, c')"
  shows "keys_of c' = keys_of c - {n. bit (pf_immediate_up_mask (pc_frame commit)) n}"
proof -
  let ?f = "pc_frame commit"
  let ?slot = "\<lambda>u. unat (identity_key_slot (pu_identity u))"
  have cur: "pf_first_batch_index ?f = dc_cursor c" and loop: "sfor (pc_up_intents commit) (commit_prepared_up ?f started) c = (Inr r, c')"
    using run by (auto simp: commit_prepared_up_intents_frozen_def check_cursor_def sbind_eq_Inr sread_eq split: if_splits)
  have pk: "pf_packet_index ?f < length (packets_of c)" "unat (cp_first_batch_index (packets_of c ! pf_packet_index ?f)) = dc_cursor c"
    using fr cur by (simp_all add: frozen_for_def Let_def)
  have "committing ?f c c' \<and> keys_of c' = keys_of c - (\<Union>u \<in> set (pc_up_intents commit). {?slot u} \<inter> {n. bit (pf_immediate_up_mask ?f) n})"
  proof (rule sfor_releases [OF loop])
    show "committing ?f c c" using rd by (rule committing_start)
    fix u t t' assume u: "u \<in> set (pc_up_intents commit)" and K: "committing ?f c t" and step: "commit_prepared_up ?f started u t = (Inr (), t')"
    have fu: "frozen_up c (pf_packet_index ?f) u" using fr u by (simp add: frozen_for_def Let_def)
    have inv: "coord_inv t" using K by (simp add: committing_def)
    have s: "?slot u < MAX_KEYS" using located_slot fu unfolding frozen_up_def by blast
    have bit: "pf_immediate_up_mask ?f AND bit_for_slot (identity_key_slot (pu_identity u)) \<noteq> 0 \<longleftrightarrow> bit (pf_immediate_up_mask ?f) (?slot u)"
      using s by (auto simp: and_bit_for_slot_eq_0 MAX_KEYS_def)
    show "committing ?f c t' \<and> keys_of t' = keys_of t - {?slot u} \<inter> {n. bit (pf_immediate_up_mask ?f) n}"
    proof (cases "bit (pf_immediate_up_mask ?f) (?slot u)")
      case True
      then have "commit_immediate_up (pu_identity u) started t = (Inr (), t')"
        using step bit by (auto simp: commit_prepared_up_def Let_def split: if_splits)
      then show ?thesis using wp_Inr [OF wp_commit_immediate [OF K fu True pk]] immediate_keys [OF inv s] True by auto
    next
      case False
      then have "commit_deferred_up ?f (pu_identity u) (pu_source_action_index u) t = (Inr (), t')"
        using step bit by (auto simp: commit_prepared_up_def Let_def split: if_splits)
      then show ?thesis using wp_Inr [OF wp_commit_deferred [OF K fu False]] same_keysD [OF keys_deferred] False by auto
    qed
  qed
  then show ?thesis using cov by (auto simp: covered_def)
qed

lemma success_keys:
  assumes rd: "ready c" and fr: "frozen_for c commit" and cov: "covered commit"
    and run: "commit_prepared_authored_frame_success_frozen commit started c = (Inr r, c')"
  shows "keys_of c' = keys_of c - {n. bit (pf_immediate_up_mask (pc_frame commit)) n} \<union> {n. bit (pf_down_mask (pc_frame commit)) n}"
proof -
  let ?f = "pc_frame commit"
  obtain src rnb u v where ups: "commit_prepared_up_intents_frozen ?f (pc_up_intents commit) started c = (Inr (), u)"
    and downs: "sfor (pc_down_intents commit) (commit_sent_down src rnb) u = (Inr (), v)"
    and fin: "finish_commit (pf_packet_batch_count ?f) v = (Inr r, c')"
    using run by (auto simp: commit_prepared_authored_frame_success_frozen_def Let_def sbind_eq_Inr sread_eq check_cursor_def)
  let ?B = "\<lambda>d. if down_generation_id d = NO_GENERATION_ID then {} else {unat (pd_key_slot d)}"
  have "keys_of v = keys_of u \<union> (\<Union>d \<in> set (pc_down_intents commit). ?B d)"
  proof (rule sfor_presses [OF downs])
    fix d t w assume d: "d \<in> set (pc_down_intents commit)" and step: "commit_sent_down src rnb d t = (Inr (), w)"
    have "unat (pd_key_slot d) < MAX_KEYS" using fr d by (simp add: frozen_for_def frozen_down_def Let_def)
    from sent_down_keys [OF this step] show "keys_of w = keys_of t \<union> ?B d" by auto
  qed
  moreover have "(\<Union>d \<in> set (pc_down_intents commit). ?B d) = {n. bit (pf_down_mask ?f) n}" using cov by (auto simp: covered_def)
  ultimately show ?thesis using ups_keys [OF rd fr cov ups] same_keysD [OF keys_finish fin] by simp
qed

lemma miss_keys:
  assumes rd: "ready c" and fr: "frozen_for c commit" and cov: "covered commit"
    and run: "commit_prepared_authored_frame_deadline_miss commit um dm started c = (Inr r, c')"
  shows "keys_of c' = keys_of c - {n. bit (pf_immediate_up_mask (pc_frame commit)) n}"
proof -
  let ?f = "pc_frame commit"
  obtain m u v where ups: "commit_prepared_up_intents_frozen ?f (pc_up_intents commit) started c = (Inr (), u)"
    and downs: "sfold miss_down (pc_down_intents commit) 0 u = (Inr m, v)"
    and fin: "finish_commit (pf_packet_batch_count ?f) v = (Inr r, c')"
    using run by (auto simp: commit_prepared_authored_frame_deadline_miss_def Let_def sbind_eq_Inr sread_eq check_cursor_def split: if_splits)
  have "frames same_keys (sfold miss_down (pc_down_intents commit) 0)" by (intro same_keys.frame_intros keys_miss_down)
  from same_keysD [OF this downs] show ?thesis using ups_keys [OF rd fr cov ups] same_keysD [OF keys_finish fin] by simp
qed

lemma metadata_keys:
  assumes rd: "ready c" and fr: "frozen_for c commit" and cov: "covered commit"
    and run: "commit_prepared_authored_frame_metadata_frozen commit c = (Inr r, c')"
  shows "keys_of c' = keys_of c"
proof -
  let ?f = "pc_frame commit"
  obtain u where ups: "commit_prepared_up_intents_frozen ?f (pc_up_intents commit) (pf_authored_ticks ?f) c = (Inr (), u)"
    and fin: "finish_commit (pf_packet_batch_count ?f) u = (Inr r, c')" and none: "pf_immediate_up_mask ?f = 0"
    using run by (auto simp: commit_prepared_authored_frame_metadata_frozen_def Let_def sbind_eq_Inr split: if_splits)
  then show ?thesis using ups_keys [OF rd fr cov ups] same_keysD [OF keys_finish fin] by simp
qed

lemma pending_keys:
  assumes small: "\<forall>n. bit m n \<longrightarrow> n < MAX_KEYS" and run: "commit_pending_release_success m started c = (Inr r, c')"
  shows "keys_of c' = keys_of c - {n. bit m n}"
proof -
  have "sfor (slots_of_mask m) (release_pending_slot started) c = (Inr (), c')"
    using run by (auto simp: commit_pending_release_success_def sbind_eq_Inr sread_eq)
  then have "True \<and> keys_of c' = keys_of c - (\<Union>s \<in> set (slots_of_mask m). {s})"
    by (rule sfor_releases [where J = "\<lambda>_. True"]) (use small release_pending_keys in \<open>auto simp: set_slots_of_mask\<close>)
  then show ?thesis by (auto simp: set_slots_of_mask)
qed

lemma stale_keys: "commit_stale_packet q c = (r, c') \<Longrightarrow> keys_of c' = keys_of c"
proof -
  have "frames same_keys (commit_stale_packet q)"
    unfolding commit_stale_packet_def by (intro same_keys.frame_intros keys_finish)
  then show "commit_stale_packet q c = (r, c') \<Longrightarrow> keys_of c' = keys_of c" using same_keysD by metis
qed

section \<open>Prepared tokens cover their frames\<close>

abbreviation up_slot :: "prepared_up_intent \<Rightarrow> nat" where
  "up_slot u \<equiv> unat (identity_key_slot (pu_identity u))"

lemma classify_up_covers:
  assumes run: "classify_up c v ticks (k, x) acc = Inr acc'"
    and old: "\<forall>n. bit (uc_immediate acc) n \<longrightarrow> (\<exists>u \<in> set (uc_intents acc). up_slot u = n)"
  shows "\<forall>n. bit (uc_immediate acc') n \<longrightarrow> (\<exists>u \<in> set (uc_intents acc'). up_slot u = n)"
proof -
  have "identity_key_slot t = compact_key_slot x" if "matching_token c (compact_key_slot x) p i = Inr (Some t)" for p i t
    using that by (auto simp: matching_token_def result_simps split: option.splits if_splits)
  moreover have "identity_key_slot t = compact_key_slot x" if "identity_try_new g (compact_key_slot x) p i = Inr t" for g p i t
    using try_new_identity [OF that] by simp
  ultimately show ?thesis
    using run old by (auto simp: classify_up_def Let_def result_simps bit_or_mask bit_bit_for_slot split: if_splits option.splits)
qed

lemma prepare_downs_slots:
  assumes "prepare_downs reg xs = Inr downs"
  shows "{unat (pd_key_slot d) | d. d \<in> set downs \<and> down_generation_id d \<noteq> NO_GENERATION_ID}
    = {intent_slot x | x. x \<in> set xs \<and> intent_gen x \<noteq> None}"
proof -
  have "map (\<lambda>d. (pd_key_slot d, down_generation_id d)) downs = map (\<lambda>x. (compact_key_slot x, compact_generation_id x)) xs"
    using assms unfolding prepare_downs_def
  proof (rule rfold_invariant [where P = "\<lambda>ys acc. map (\<lambda>d. (pd_key_slot d, down_generation_id d)) acc
      = map (\<lambda>x. (compact_key_slot x, compact_generation_id x)) ys"])
    fix ys x zs u v
    assume old: "map (\<lambda>d. (pd_key_slot d, down_generation_id d)) u = map (\<lambda>x. (compact_key_slot x, compact_generation_id x)) ys"
      and new: "rbind (ok_or (scan_code_for reg (compact_key_slot x)) (Err (CoordInvalidKeySlot (compact_key_slot x))))
        (\<lambda>code. rbind (down_try_new x code) (\<lambda>down. Inr (u @ [down]))) = Inr v"
    obtain code down where "down_try_new x code = Inr down" and v: "v = u @ [down]" using new by (auto simp: result_simps)
    then have "pd_key_slot down = compact_key_slot x" "down_generation_id down = compact_generation_id x" using try_new_down by simp_all
    then show "map (\<lambda>d. (pd_key_slot d, down_generation_id d)) v = map (\<lambda>x. (compact_key_slot x, compact_generation_id x)) (ys @ [x])"
      unfolding v map_append old by simp
  qed simp
  from arg_cong [where f = set, OF this]
  have pairs: "(\<lambda>d. (pd_key_slot d, down_generation_id d)) ` set downs = (\<lambda>x. (compact_key_slot x, compact_generation_id x)) ` set xs"
    by (simp only: set_map)
  have "{unat (pd_key_slot d) | d. d \<in> set downs \<and> down_generation_id d \<noteq> NO_GENERATION_ID}
      = {unat s | s g. (s, g) \<in> (\<lambda>d. (pd_key_slot d, down_generation_id d)) ` set downs \<and> g \<noteq> NO_GENERATION_ID}" by auto
  also have "\<dots> = {intent_slot x | x. x \<in> set xs \<and> intent_gen x \<noteq> None}"
    unfolding pairs by (auto simp: intent_slot_def intent_gen_cases)
  finally show ?thesis .
qed

lemma prepared_covered:
  assumes d: "derived rs c" and run: "prepare_current_authored_packet c = Inr (Some pkt)"
  shows "covered (pp_commit pkt)"
proof -
  obtain b where b: "nth_opt (rs_batches (dc_schedule c)) (dc_cursor c) = Some b"
    using run by (auto simp: prepare_current_authored_packet_def split: option.splits)
  let ?p = "unat (cb_packet_id b)"
  obtain ticks v ups downs where
    v: "view_packet_ticks_unvalidated_registry (dc_schedule c) ?p ticks = Inr v"
    and ups: "rfold (classify_up c v ticks) (enumerate 0 (pv_up_intents v))
              \<lparr>uc_immediate = 0, uc_deferred = 0, uc_stale = 0, uc_intents = []\<rparr> = Inr ups"
    and downs: "prepare_downs (pv_registry v) (pv_down_intents v) = Inr downs"
    and pkt: "pf_immediate_up_mask (pc_frame (pp_commit pkt)) = uc_immediate ups" "pc_up_intents (pp_commit pkt) = uc_intents ups"
      "pc_down_intents (pp_commit pkt) = downs" "pf_down_mask (pc_frame (pp_commit pkt)) = cp_down_mask (pv_header v)"
    using run b
    by (auto simp: prepare_current_authored_packet_def Let_def rbind_eq_Inr map_err_eq_Inr split: if_splits)
  note w = view_packet [OF v]
  have p: "?p < length (rs_packets rs)" using w(1) derived_lengths [OF d] by simp
  have "\<forall>n. bit (uc_immediate ups) n \<longrightarrow> (\<exists>u \<in> set (uc_intents ups). up_slot u = n)"
  proof (rule rfold_invariant_simple [OF ups])
    fix x acc acc'
    assume "\<forall>n. bit (uc_immediate acc) n \<longrightarrow> (\<exists>u \<in> set (uc_intents acc). up_slot u = n)"
      and "classify_up c v ticks x acc = Inr acc'"
    then show "\<forall>n. bit (uc_immediate acc') n \<longrightarrow> (\<exists>u \<in> set (uc_intents acc'). up_slot u = n)"
      using classify_up_covers by (cases x) blast
  qed simp
  then have imm: "{n. bit (uc_immediate ups) n} \<subseteq> up_slot ` set (uc_intents ups)" by auto
  let ?downs = "packet_downs (rs_intents rs) (rs_packets rs ! ?p)"
  have "{n. bit (cp_down_mask (rs_packets rs ! ?p)) n} = intent_slot ` set ?downs"
    using wf_packet_at [OF derived_wf [OF d] p] by (auto simp: packet_ok_def)
  also have "\<dots> = {intent_slot x | x. x \<in> set ?downs \<and> intent_gen x \<noteq> None}"
    using down_generation [OF derived_wf [OF d] p] by auto
  also have "\<dots> = {unat (pd_key_slot d) | d. d \<in> set downs \<and> down_generation_id d \<noteq> NO_GENERATION_ID}"
    using prepare_downs_slots [OF downs] w(6) derived_downs [OF d p] by simp
  finally show ?thesis
    using imm same_header_fields [OF derived_header [OF d p]] w(3) by (simp add: covered_def pkt)
qed

end
