(* ===== verification/Sky_Admission.thy ===== *)
theory Sky_Admission
  imports Sky_Transport Sky_Planning
begin

unbundle bit_operations_syntax

text \<open>
  The admission gates in front of a physical press (\<open>sky_player/src/engine\<close>: \<open>worker/admission.rs\<close>, the
  lease and power words of \<open>shared.rs\<close> and \<open>shared/startup.rs\<close>, the target of \<open>target.rs\<close>; in
  \<open>sky_dispatch_win32/src\<close>: \<open>focus.rs\<close> and \<open>input/modifier_guard.rs\<close>). Other threads write the shared
  memory, so every atomic access is an operation on the world, in the order of the sources: two loads of
  the same flag may answer differently. Metrics are left out.
\<close>

section \<open>Shared memory\<close>

text \<open>One field per atomic access the worker makes; \<open>compare_exchange\<close> answers whether it has succeeded.\<close>

record 'w shared =
  sh_quit_requested :: "'w \<Rightarrow> bool \<times> 'w"
  sh_skip_requested :: "'w \<Rightarrow> bool \<times> 'w"
  sh_panic_requested :: "'w \<Rightarrow> bool \<times> 'w"
  sh_swap_panic_requested :: "bool \<Rightarrow> 'w \<Rightarrow> bool \<times> 'w"
  sh_desired_pause :: "'w \<Rightarrow> bool \<times> 'w"
  sh_focus_active :: "'w \<Rightarrow> bool \<times> 'w"
  sh_lease_state :: "'w \<Rightarrow> u64 \<times> 'w"
  sh_lease_compare_exchange :: "u64 \<Rightarrow> u64 \<Rightarrow> 'w \<Rightarrow> bool \<times> 'w"
  sh_startup_state :: "'w \<Rightarrow> u32 \<times> 'w"
  sh_publication_epoch :: "'w \<Rightarrow> u64 \<times> 'w"
  sh_target_hwnd :: "'w \<Rightarrow> u64 \<times> 'w"
  sh_target_generation :: "'w \<Rightarrow> u64 \<times> 'w"
  sh_owner_identity_required :: "'w \<Rightarrow> bool \<times> 'w"
  sh_owner_generation :: "'w \<Rightarrow> u64 \<times> 'w"
  sh_owner_pid :: "'w \<Rightarrow> u32 \<times> 'w"
  sh_owner_live :: "'w \<Rightarrow> bool \<times> 'w"
  sh_owner_failure :: "'w \<Rightarrow> u32 \<times> 'w"

definition atomic :: "('w \<Rightarrow> 'a \<times> 'w) \<Rightarrow> ('w, 'e, 'a) smethod" where
  "atomic access = (\<lambda>w. let (a, w') = access w in (Inr a, w'))"

text \<open>The short-circuit operators on two readings.\<close>

definition or_else :: "('w, 'e, bool) smethod \<Rightarrow> ('w, 'e, bool) smethod \<Rightarrow> ('w, 'e, bool) smethod" where
  "or_else a b = sbind a (\<lambda>x. if x then sret True else b)"

definition and_then :: "('w, 'e, bool) smethod \<Rightarrow> ('w, 'e, bool) smethod \<Rightarrow> ('w, 'e, bool) smethod" where
  "and_then a b = sbind a (\<lambda>x. if x then b else sret False)"

section \<open>The supervisor lease\<close>

datatype supervisor_lease_admission = LeaseFresh | LeaseStateExpired | LeaseStateUnproven

record supervisor_lease_age_proof =
  lp_admission :: supervisor_lease_admission
  lp_state_loads :: u8
  lp_compare_exchanges :: u8

definition EXPIRED_BIT :: u64 where "EXPIRED_BIT = push_bit 63 1"

definition LEASE_TICKS_MASK :: u64 where "LEASE_TICKS_MASK = NOT EXPIRED_BIT"

definition is_expired :: "'w shared \<Rightarrow> ('w, 'e failure, bool) smethod" where
  "is_expired self = sbind (atomic (sh_lease_state self)) (\<lambda>state. sret (state AND EXPIRED_BIT \<noteq> 0))"

text \<open>The second look, after a lost race.\<close>

definition replacement_admission :: "u64 \<Rightarrow> u64 \<Rightarrow> u64 \<Rightarrow> supervisor_lease_admission" where
  "replacement_admission now timeout replacement =
     (if replacement AND EXPIRED_BIT \<noteq> 0 then LeaseStateExpired
      else let progress = replacement AND LEASE_TICKS_MASK in
        if progress = 0 then LeaseStateUnproven
        else if now < progress \<or> now - progress \<le> timeout then LeaseFresh
        else LeaseStateUnproven)"

definition prove_down_age ::
  "'w shared \<Rightarrow> qpc_ticks \<Rightarrow> duration_ticks \<Rightarrow> ('w, 'e failure, supervisor_lease_age_proof) smethod" where
  "prove_down_age self now timeout =
     (let proof_of = (\<lambda>admission loads exchanges.
            \<lparr>lp_admission = admission, lp_state_loads = loads, lp_compare_exchanges = exchanges\<rparr>) in
      if timeout = DurationTicks 0 then sret (proof_of LeaseFresh 0 0)
      else let now = qpc_u64 now in
        sbind (atomic (sh_lease_state self)) (\<lambda>state.
        if state AND EXPIRED_BIT \<noteq> 0 then sret (proof_of LeaseStateExpired 1 0)
        else let previous = state AND LEASE_TICKS_MASK in
          if previous = 0 then sret (proof_of LeaseStateUnproven 1 0)
          else if now < previous \<or> now - previous \<le> duration_u64 timeout then sret (proof_of LeaseFresh 1 0)
          else sbind (atomic (sh_lease_compare_exchange self state (state OR EXPIRED_BIT))) (\<lambda>exchanged.
            if exchanged then sret (proof_of LeaseStateExpired 1 1)
            else sbind (atomic (sh_lease_state self)) (\<lambda>replacement.
              sret (proof_of (replacement_admission now (duration_u64 timeout) replacement) 2 1)))))"

section \<open>System power\<close>

definition STARTUP_SYSTEM_SUSPEND_TERMINAL :: u32 where "STARTUP_SYSTEM_SUSPEND_TERMINAL = push_bit 10 1"

definition system_suspend_terminal :: "'w shared \<Rightarrow> ('w, 'e failure, bool) smethod" where
  "system_suspend_terminal self =
     sbind (atomic (sh_startup_state self)) (\<lambda>raw. sret (raw AND STARTUP_SYSTEM_SUSPEND_TERMINAL \<noteq> 0))"

definition down_blocked :: "'w shared \<Rightarrow> ('w, 'e failure, bool) smethod" where
  "down_blocked self = system_suspend_terminal self"

section \<open>The session target\<close>

datatype owner_identity_state =
    OwnerNotRequired
  | OwnerMissing
  | OwnerStale
  | OwnerProcessTerminated
  | OwnerOwnerMismatch
  | OwnerWindowUnavailable
  | OwnerProcessIdentityMismatch
  | OwnerQueryUnavailable
  | OwnerBound u32

definition owner_failure_status :: "u32 \<Rightarrow> owner_identity_state" where
  "owner_failure_status failure =
     (if failure = 1 then OwnerProcessTerminated
      else if failure = 2 then OwnerOwnerMismatch
      else if failure = 3 then OwnerWindowUnavailable
      else if failure = 4 then OwnerProcessIdentityMismatch
      else if failure = 5 then OwnerQueryUnavailable
      else OwnerMissing)"

definition owner_identity_status :: "'w shared \<Rightarrow> u64 \<Rightarrow> ('w, 'e failure, owner_identity_state) smethod" where
  "owner_identity_status self expected_generation =
     sbind (atomic (sh_owner_identity_required self)) (\<lambda>required.
     if \<not> required then sret OwnerNotRequired
     else sbind (atomic (sh_owner_generation self)) (\<lambda>first_generation.
       sbind (atomic (sh_owner_pid self)) (\<lambda>owner_pid.
       sbind (atomic (sh_owner_live self)) (\<lambda>owner_live.
       sbind (atomic (sh_owner_generation self)) (\<lambda>final_generation.
       if first_generation \<noteq> final_generation then sret OwnerStale
       else if owner_pid = 0 then sret OwnerMissing
       else if first_generation \<noteq> expected_generation then sret OwnerStale
       else if \<not> owner_live
       then sbind (atomic (sh_owner_failure self)) (\<lambda>failure. sret (owner_failure_status failure))
       else sret (OwnerBound owner_pid))))))"

definition load_stable :: "'w shared \<Rightarrow> ('w, 'e failure, (u64 \<times> u64) option) smethod" where
  "load_stable self =
     sbind (atomic (sh_publication_epoch self)) (\<lambda>first_epoch.
     if first_epoch AND 1 \<noteq> 0 then sret None
     else sbind (atomic (sh_target_hwnd self)) (\<lambda>hwnd.
       sbind (atomic (sh_target_generation self)) (\<lambda>generation.
       sbind (atomic (sh_publication_epoch self)) (\<lambda>final_epoch.
       sret (if first_epoch = final_epoch \<and> final_epoch AND 1 = 0 then Some (hwnd, generation) else None)))))"

definition is_current :: "'w shared \<Rightarrow> u64 \<Rightarrow> u64 \<Rightarrow> ('w, 'e failure, bool) smethod" where
  "is_current self hwnd generation = sbind (load_stable self) (\<lambda>stable. sret (stable = Some (hwnd, generation)))"

definition hwnd_for_safety_release :: "'w shared \<Rightarrow> ('w, 'e failure, u64) smethod" where
  "hwnd_for_safety_release self = atomic (sh_target_hwnd self)"

definition load_target_stamp :: "'w shared \<Rightarrow> ('w, 'e failure, target_stamp option) smethod" where
  "load_target_stamp target =
     sbind (load_stable target) (\<lambda>stable.
     sret (map_option (\<lambda>(hwnd, generation). \<lparr>ts_hwnd = hwnd, ts_generation = generation\<rparr>) stable))"

definition target_stamp_still_current :: "'w shared \<Rightarrow> target_stamp \<Rightarrow> ('w, 'e failure, bool) smethod" where
  "target_stamp_still_current target expected = is_current target (ts_hwnd expected) (ts_generation expected)"

section \<open>Focus and window owner\<close>

datatype foreground_owner_match = OwnerMatch | NotForeground | ForegroundOwnerMismatch | ForegroundQueryUnavailable

definition foreground_window_owner_matches ::
  "('w, 'x) platform \<Rightarrow> u64 \<Rightarrow> u32 \<Rightarrow> ('w, 'e failure, foreground_owner_match) smethod" where
  "foreground_window_owner_matches os target_hwnd expected_owner_pid =
     (if target_hwnd = 0 \<or> expected_owner_pid = 0 then sret ForegroundQueryUnavailable
      else sbind (atomic (os_foreground_window os)) (\<lambda>foreground_hwnd.
        if foreground_hwnd \<noteq> target_hwnd then sret NotForeground
        else sbind (atomic (os_window_process os foreground_hwnd)) (\<lambda>(thread, owner_pid).
          if thread = 0 \<or> owner_pid = 0 then sret ForegroundQueryUnavailable
          else if owner_pid = expected_owner_pid then sret OwnerMatch
          else sret ForegroundOwnerMismatch)))"

definition focus_gate_matches :: "bool \<Rightarrow> bool \<Rightarrow> u64 \<Rightarrow> bool \<Rightarrow> bool" where
  "focus_gate_matches require_focus validated_focus_active target_hwnd foreground_matches \<longleftrightarrow>
     (if \<not> require_focus then True
      else let hwnd_matches = target_hwnd \<noteq> 0 \<and> foreground_matches in validated_focus_active \<and> hwnd_matches)"

definition focus_matches_hwnd ::
  "('w, 'x) platform \<Rightarrow> 'w shared \<Rightarrow> bool \<Rightarrow> u64 \<Rightarrow> ('w, 'e failure, bool) smethod" where
  "focus_matches_hwnd os self require_focus expected_hwnd =
     (if \<not> require_focus then sret True
      else sbind (atomic (sh_focus_active self)) (\<lambda>validated_focus_active.
        sbind (if expected_hwnd = 0 then sret True else atomic (foreground_window_matches os expected_hwnd)) (\<lambda>foreground_matches.
        sret (focus_gate_matches require_focus validated_focus_active expected_hwnd foreground_matches))))"

definition focus_matches :: "'w shared \<Rightarrow> bool \<Rightarrow> ('w, 'e failure, bool) smethod" where
  "focus_matches self require_focus = (if \<not> require_focus then sret True else atomic (sh_focus_active self))"

section \<open>Modifier keys\<close>

definition MODIFIER_VKS :: "(u32 \<times> u8) list" where
  "MODIFIER_VKS = [(0x5B, push_bit 0 1), (0x5C, push_bit 1 1), (0x11, push_bit 2 1), (0x10, push_bit 3 1), (0x12, push_bit 4 1)]"

datatype modifier_key_observation = NoHeldObserved | HeldObserved u8

definition observe_current_modifier_keys ::
  "('w, 'x) platform \<Rightarrow> ('w, 'e failure, modifier_key_observation) smethod" where
  "observe_current_modifier_keys os =
     sbind (sfold (\<lambda>(virtual_key, m) held_mask.
        sbind (atomic (os_key_state os virtual_key)) (\<lambda>state.
        sret (if state AND 0x8000 \<noteq> 0 then held_mask OR m else held_mask))) MODIFIER_VKS 0) (\<lambda>held_mask.
     sret (if held_mask = 0 then NoHeldObserved else HeldObserved held_mask))"

section \<open>Verdicts\<close>

datatype owner_admission_failure =
    OwnerFailureMismatch
  | OwnerFailureQueryUnavailable
  | OwnerFailureIdentityAbsent
  | OwnerFailureIdentityStale
  | OwnerFailureProcessTerminated
  | OwnerFailureIdentityDrift

datatype final_down_verdict =
    DownAllowed
  | DownControlRejected
  | DownModifierHeld u8
  | DownTargetChanged
  | DownFocusLost
  | DownOwnerRejected owner_admission_failure
  | DownLeaseExpired
  | DownLeaseUnproven

datatype final_control_admission =
    ControlAllowed
  | PanicRequested
  | QuitRequested
  | SkipRequested
  | PauseRequested
  | SystemSuspendRequested

text \<open>In production the power state is always present.\<close>

definition final_control_precheck :: "'w shared \<Rightarrow> ('w, 'e failure, final_control_admission) smethod" where
  "final_control_precheck signals =
     sbind (or_else (is_expired signals) (atomic (sh_panic_requested signals))) (\<lambda>stopped.
     if stopped then sret PanicRequested
     else sbind (down_blocked signals) (\<lambda>blocked.
       if blocked then sret SystemSuspendRequested
       else sbind (atomic (sh_quit_requested signals)) (\<lambda>quit.
         if quit then sret QuitRequested
         else sbind (atomic (sh_skip_requested signals)) (\<lambda>skip.
           if skip then sret SkipRequested
           else sbind (atomic (sh_desired_pause signals)) (\<lambda>pause.
             sret (if pause then PauseRequested else ControlAllowed))))))"

definition final_down_control_verdict :: "'w shared \<Rightarrow> ('w, 'e failure, final_down_verdict) smethod" where
  "final_down_control_verdict signals =
     sbind (final_control_precheck signals) (\<lambda>admission.
     sret (if admission = ControlAllowed then DownAllowed else DownControlRejected))"

text \<open>What a status of the owner says about a press: the process to look for, or the rejection.\<close>

fun owner_status_verdict :: "owner_identity_state \<Rightarrow> final_down_verdict + u32" where
  "owner_status_verdict (OwnerBound owner_pid) = Inr owner_pid"
| "owner_status_verdict OwnerNotRequired = Inl (DownOwnerRejected OwnerFailureIdentityAbsent)"
| "owner_status_verdict OwnerMissing = Inl (DownOwnerRejected OwnerFailureIdentityAbsent)"
| "owner_status_verdict OwnerStale = Inl (DownOwnerRejected OwnerFailureIdentityStale)"
| "owner_status_verdict OwnerProcessTerminated = Inl (DownOwnerRejected OwnerFailureProcessTerminated)"
| "owner_status_verdict OwnerOwnerMismatch = Inl (DownOwnerRejected OwnerFailureMismatch)"
| "owner_status_verdict OwnerQueryUnavailable = Inl (DownOwnerRejected OwnerFailureQueryUnavailable)"
| "owner_status_verdict OwnerWindowUnavailable = Inl (DownOwnerRejected OwnerFailureIdentityDrift)"
| "owner_status_verdict OwnerProcessIdentityMismatch = Inl (DownOwnerRejected OwnerFailureIdentityDrift)"

definition final_down_atomic_revalidation ::
  "'w shared \<Rightarrow> target_stamp \<Rightarrow> bool \<Rightarrow> ('w, 'e failure, final_down_verdict) smethod" where
  "final_down_atomic_revalidation target expected require_focus =
     sbind (target_stamp_still_current target expected) (\<lambda>unchanged.
     if \<not> unchanged then sret DownTargetChanged
     else sbind (focus_matches target require_focus) (\<lambda>focused.
       if \<not> focused then sret DownFocusLost
       else if require_focus
       then sbind (owner_identity_status target (ts_generation expected)) (\<lambda>status.
         sret (case owner_status_verdict status of
            Inl rejected \<Rightarrow> rejected
          | Inr owner_pid \<Rightarrow> if owner_pid \<noteq> 0 then DownAllowed else DownOwnerRejected OwnerFailureIdentityAbsent))
       else sret DownAllowed))"

definition final_down_target_admission ::
  "('w, 'x) platform \<Rightarrow> 'w shared \<Rightarrow> target_stamp \<Rightarrow> bool \<Rightarrow> ('w, 'e failure, final_down_verdict) smethod" where
  "final_down_target_admission os target expected require_focus =
     sbind (target_stamp_still_current target expected) (\<lambda>unchanged.
     if \<not> unchanged then sret DownTargetChanged
     else sbind (focus_matches target require_focus) (\<lambda>focused.
       if \<not> focused then sret DownFocusLost
       else if \<not> require_focus then final_down_atomic_revalidation target expected require_focus
       else if ts_hwnd expected = 0 then sret DownFocusLost
       else sbind (owner_identity_status target (ts_generation expected)) (\<lambda>status.
         case owner_status_verdict status of
           Inl rejected \<Rightarrow> sret rejected
         | Inr owner_pid \<Rightarrow>
             sbind (foreground_window_owner_matches os (ts_hwnd expected) owner_pid) (\<lambda>owner.
             case owner of
               OwnerMatch \<Rightarrow> final_down_atomic_revalidation target expected require_focus
             | NotForeground \<Rightarrow> sret DownFocusLost
             | ForegroundOwnerMismatch \<Rightarrow> sret (DownOwnerRejected OwnerFailureMismatch)
             | ForegroundQueryUnavailable \<Rightarrow> sret (DownOwnerRejected OwnerFailureQueryUnavailable)))))"

text \<open>A clock reading as a fallible operation.\<close>

definition qpc_now :: "('w, 'x) platform \<Rightarrow> ('w, qpc_error failure, qpc_ticks) smethod" where
  "qpc_now os = sbind (atomic (os_now os)) (\<lambda>sample. case sample of Inr ticks \<Rightarrow> sret ticks | Inl error \<Rightarrow> sfail (Err error))"

definition final_down_lease_age_proof ::
  "('w, 'x) platform \<Rightarrow> 'w shared \<Rightarrow> duration_ticks \<Rightarrow> ('w, qpc_error failure, supervisor_lease_age_proof) smethod" where
  "final_down_lease_age_proof os lease timeout_ticks =
     (if timeout_ticks = DurationTicks 0 then prove_down_age lease (QpcTicks 0) timeout_ticks
      else sbind (qpc_now os) (\<lambda>now. prove_down_age lease now timeout_ticks))"

definition final_down_post_modifier_verdict ::
  "('w, 'x) platform \<Rightarrow> 'w shared \<Rightarrow> target_stamp \<Rightarrow> bool \<Rightarrow> duration_ticks \<Rightarrow> ('w, qpc_error failure, final_down_verdict) smethod" where
  "final_down_post_modifier_verdict os target expected require_focus lease_timeout_ticks =
     sbind (final_down_atomic_revalidation target expected require_focus) (\<lambda>authority.
     if authority \<noteq> DownAllowed then sret authority
     else sbind (final_down_lease_age_proof os target lease_timeout_ticks) (\<lambda>lease_proof.
       case lp_admission lease_proof of
         LeaseFresh \<Rightarrow> final_down_control_verdict target
       | LeaseStateExpired \<Rightarrow> sret DownLeaseExpired
       | LeaseStateUnproven \<Rightarrow> sret DownLeaseUnproven))"

definition final_down_modifier_verdict :: "('w, 'x) platform \<Rightarrow> ('w, 'e failure, final_down_verdict) smethod" where
  "final_down_modifier_verdict os =
     sbind (observe_current_modifier_keys os) (\<lambda>observation.
     sret (case observation of NoHeldObserved \<Rightarrow> DownAllowed | HeldObserved m \<Rightarrow> DownModifierHeld m))"

definition owner_rejection_reason :: "owner_admission_failure \<Rightarrow> bool \<Rightarrow> string" where
  "owner_rejection_reason failure prepared_normal =
     (let prefix = (if prepared_normal then ''prepared_down_owner_'' else ''authored_down_owner_'') in
      prefix @ (case failure of
        OwnerFailureMismatch \<Rightarrow> ''mismatch''
      | OwnerFailureQueryUnavailable \<Rightarrow> ''query_unavailable''
      | OwnerFailureIdentityAbsent \<Rightarrow> ''identity_absent''
      | OwnerFailureIdentityStale \<Rightarrow> ''identity_stale''
      | OwnerFailureProcessTerminated \<Rightarrow> ''process_terminated''
      | OwnerFailureIdentityDrift \<Rightarrow> ''identity_drift''))"

definition ensure_preflight_for_target ::
  "('w, 'x) platform \<Rightarrow> materialized_profile \<Rightarrow> target_stamp \<Rightarrow> (target_stamp option \<times> 'w, preflight_error failure, unit) smethod" where
  "ensure_preflight_for_target os profile current = (\<lambda>(verified, w).
     if verified = Some current then (Inr (), (verified, w))
     else case ensure_instrument_keys_physically_up os (ts_hwnd current) profile w of
       (Inl error, w) \<Rightarrow> (Inl error, (None, w))
     | (Inr _, w) \<Rightarrow> (Inr (), (Some current, w)))"

end
