(* ===== verification/Sky_Dispatch.thy ===== *)
theory Sky_Dispatch
  imports Sky_Admission Sky_Stream Sky_Guard Sky_Clock
begin

unbundle bit_operations_syntax

text \<open>
  One dispatch of the worker (\<open>sky_player/src/engine/worker\<close>: \<open>dispatch/mod.rs\<close>, \<open>dispatch/timing.rs\<close>,
  \<open>dispatch/authored.rs\<close>, \<open>dispatch/prepared.rs\<close>, \<open>dispatch/recovery.rs\<close>, the step of
  \<open>dispatch/observer.rs\<close>, the dispatch helpers of \<open>dispatch_loop.rs\<close>, and the rejections of
  \<open>admission.rs\<close>): the gates, the transaction, its evidence and the commit. A \<open>Terminate\<close> message is a
  constructor of \<open>terminate_reason\<close>, one per format string. Metrics, observer queues, hold forensics and
  the published progress clock are left out, and so are arguments that only they read.
\<close>

section \<open>Steps and boundaries\<close>

datatype terminate_reason =
    PhysicalModifierHeld u8
  | QpcFailure qpc_error
  | QpcRuntimeFailure qpc_error
  | QpcFinalPolicyFailure qpc_error
  | QpcFailureAfterNoteOn qpc_error
  | PlaybackClockFailure time_arithmetic_error
  | MissedDownClockFailure time_arithmetic_error
  | PreCallPrecededTarget
  | SendIntegrityFailure u32
  | GuardCompletionFailed physical_timing_guard_error
  | GuardRecoveryFailed physical_timing_guard_error
  | GuardNotInitialized
  | WindowQueryFailed physical_timing_guard_error
  | MissedDownCommitFailure coordinator_error
  | MissedDownIdentityFailure coordinator_error
  | IdentityValidationFailure coordinator_error
  | ActivationFailure coordinator_error
  | StaleCommitFailure coordinator_error
  | MetadataCommitFailure coordinator_error
  | FocusLostAfterDueCheck
  | NoPreflightProof
  | NoFrozenTargetProof
  | BlockedAuthoredDown u32
  | SendWithoutStart
  | SendWithoutCompletion
  | SendOrderingFailure time_arithmetic_error
  | PendingStartedEarly
  | CoalescedStartedEarly
  | CompletionPrecedesTarget
  | TimingConversionFailure time_arithmetic_error
  | TerminalConversionFailure "time_conversion_error option"
  | AuthoredChordSplit u32
  | StrictCompletionLate bool u32 int
  | KeyPreflightFailure preflight_error
  | PendingRecoveryMismatch

datatype dispatch_step =
    StepNoWork
  | Dispatched
  | StepContinue
  | Terminate terminate_reason
  | TerminateStatic string

record physical_boundary_stamp =
  bs_first_batch_index :: usize
  bs_packet_index :: usize
  bs_packet_batch_count :: usize
  bs_source_action_index :: u32
  bs_up_mask :: u16
  bs_down_mask :: u16
  bs_physical_target_qpc :: qpc_ticks

datatype down_boundary_state = AwaitingFuture | FutureAuthorized physical_boundary_stamp

definition awaiting_future :: "down_boundary_state \<Rightarrow> bool" where
  "awaiting_future self \<longleftrightarrow> self = AwaitingFuture"

definition authorization :: "down_boundary_state \<Rightarrow> physical_boundary_stamp option" where
  "authorization self = (case self of FutureAuthorized stamp \<Rightarrow> Some stamp | AwaitingFuture \<Rightarrow> None)"

datatype down_boundary_admission = DownAuthorized | UnobservedBacklog

definition is_missed :: "down_boundary_admission \<Rightarrow> bool" where
  "is_missed self \<longleftrightarrow> self = UnobservedBacklog"

record pending_up_recovery =
  pr_boundary :: physical_boundary_stamp
  pr_admission :: down_boundary_admission
  pr_authored_commit :: prepared_authored_commit

definition same_authored_boundary :: "physical_boundary_stamp \<Rightarrow> physical_boundary_stamp \<Rightarrow> bool" where
  "same_authored_boundary self other \<longleftrightarrow>
     bs_first_batch_index self = bs_first_batch_index other \<and> bs_packet_index self = bs_packet_index other \<and>
     bs_packet_batch_count self = bs_packet_batch_count other \<and>
     bs_source_action_index self = bs_source_action_index other \<and>
     bs_up_mask self = bs_up_mask other \<and> bs_down_mask self = bs_down_mask other"

definition matches_authored_boundary :: "pending_up_recovery \<Rightarrow> physical_boundary_stamp \<Rightarrow> bool" where
  "matches_authored_boundary self boundary \<longleftrightarrow> same_authored_boundary (pr_boundary self) boundary"

section \<open>The worker\<close>

datatype terminal_trigger =
    TriggerQuit
  | TriggerSkip
  | TriggerPanicReleaseRequested
  | TriggerSupervisorLeaseExpired
  | TriggerSystemSuspend
  | TriggerFocusAuthorityInvalidated
  | TriggerTargetAuthorityInvalidated
  | TriggerOwnerAuthorityInvalidated
  | TriggerWorkerPanic

text \<open>The resources and the runtime of the worker, with the world. \<open>'t\<close> is the type of its terminal error.\<close>

record ('w, 't) worker =
  wk_world :: 'w
  wk_backend :: tracked_key_state
  wk_coordinator :: coordinator
  wk_playback :: playback_clock
  wk_clock :: qpc_clock
  wk_prepared_stream :: "prepared_dispatch_stream option"
  wk_physical_timing_guard :: "physical_timing_guard option"
  wk_verified_target :: "target_stamp option"
  wk_focus_restore_started_ticks :: "qpc_ticks option"
  wk_last_physical_send_completion_qpc :: "qpc_ticks option"
  wk_previous_sendinput_completion_qpc :: "qpc_ticks option"
  wk_previous_sender_completion_known :: bool
  wk_down_boundary_state :: down_boundary_state
  wk_pending_up_recovery :: "pending_up_recovery option"
  wk_terminal_error :: "'t option"
  wk_secondary_errors :: "'t list"
  wk_terminal_trigger :: "terminal_trigger option"
  wk_focus_loss_fault_injected :: bool
  wk_manual_pause_suspension_pending :: bool
  wk_musical_physical_commit_started :: bool
  wk_allow_pre_epoch_startup_dispatch :: bool
  wk_chord_integrity_lost :: u64

record worker_config =
  cf_strict_timing :: bool
  cf_require_focus :: bool
  cf_observer_enabled :: bool
  cf_focus_loss_fault :: bool
  cf_lease_timeout_ticks :: duration_ticks
  cf_strict_up_completion_late_ticks :: duration_ticks
  cf_strict_down_completion_late_ticks :: duration_ticks
  cf_focus_restore_grace_ticks :: duration_ticks
  cf_paused_poll_ticks :: duration_ticks
  cf_effective_spin_threshold_ticks :: duration_ticks

text \<open>
  An operation of the worker ends with a value or early, with a step. \<open>at_step\<close> turns an early end into the
  value the Rust function returns.
\<close>

type_synonym ('w, 't, 'a) worker_op = "(('w, 't) worker, dispatch_step failure, 'a) smethod"

definition at_step :: "('s, dispatch_step failure, dispatch_step) smethod \<Rightarrow> ('s, 'e failure, dispatch_step) smethod" where
  "at_step m s = (case m s of
      (Inr step, t) \<Rightarrow> (Inr step, t)
    | (Inl (Err step), t) \<Rightarrow> (Inr step, t)
    | (Inl Panic, t) \<Rightarrow> (Inl Panic, t))"

definition stop_with :: "dispatch_step \<Rightarrow> ('s, dispatch_step failure, 'a) smethod" where
  "stop_with step = sfail (Err step)"

text \<open>A method on a part of the state, and a method whose error is renamed.\<close>

definition zoom :: "('s \<Rightarrow> 'p) \<Rightarrow> ('p \<Rightarrow> 's \<Rightarrow> 's) \<Rightarrow> ('p, 'e, 'a) smethod \<Rightarrow> ('s, 'e, 'a) smethod" where
  "zoom part put m s = (case m (part s) of (r, p) \<Rightarrow> (r, put p s))"

definition renamed :: "('e \<Rightarrow> 'f) \<Rightarrow> ('s, 'e, 'a) smethod \<Rightarrow> ('s, 'f, 'a) smethod" where
  "renamed g m s = (case m s of (r, t) \<Rightarrow> (map_err g r, t))"

definition in_world :: "('w, 'e, 'a) smethod \<Rightarrow> (('w, 't) worker, 'e, 'a) smethod" where
  "in_world = zoom wk_world (\<lambda>w s. s\<lparr>wk_world := w\<rparr>)"

definition in_backend :: "('w, 'a) tracked_op \<Rightarrow> (('w, 't) worker, 'e failure, 'a) smethod" where
  "in_backend m = zoom (\<lambda>s. (wk_backend s, wk_world s)) (\<lambda>(self, w) s. s\<lparr>wk_backend := self, wk_world := w\<rparr>)
     (renamed (\<lambda>_. Panic) m)"

definition in_coordinator :: "(coordinator_error \<Rightarrow> 'e) \<Rightarrow> 'a coord_op \<Rightarrow> (('w, 't) worker, 'e failure, 'a) smethod" where
  "in_coordinator reason m = zoom wk_coordinator (\<lambda>c s. s\<lparr>wk_coordinator := c\<rparr>) (renamed (map_failure reason) m)"

definition in_playback ::
  "(time_arithmetic_error \<Rightarrow> 'e) \<Rightarrow> (playback_clock, time_arithmetic_error, 'a) smethod \<Rightarrow> (('w, 't) worker, 'e failure, 'a) smethod" where
  "in_playback reason m = zoom wk_playback (\<lambda>p s. s\<lparr>wk_playback := p\<rparr>) (renamed (\<lambda>e. Err (reason e)) m)"

text \<open>A fallible value, and a reading of the performance counter.\<close>

definition orelse :: "('e \<Rightarrow> 'f) \<Rightarrow> 'e + 'a \<Rightarrow> ('s, 'f failure, 'a) smethod" where
  "orelse reason r = (case r of Inr a \<Rightarrow> sret a | Inl e \<Rightarrow> sfail (Err (reason e)))"

definition qpc_sample :: "('w, 'x) platform \<Rightarrow> (qpc_error \<Rightarrow> 'e) \<Rightarrow> (('w, 't) worker, 'e failure, qpc_ticks) smethod" where
  "qpc_sample os reason = in_world (renamed (map_failure reason) (qpc_now os))"

definition elapsed_at ::
  "(time_arithmetic_error \<Rightarrow> 'e) \<Rightarrow> qpc_ticks \<Rightarrow> (('w, 't) worker, 'e failure, timeline_ticks) smethod" where
  "elapsed_at reason now =
     sread (\<lambda>s. map_err (\<lambda>e. Err (reason e))
       (get_elapsed_allow_pre_epoch (wk_playback s) now (wk_allow_pre_epoch_startup_dispatch s)))"

definition invalidate_guard :: "(('w, 't) worker, 'e, unit) smethod" where
  "invalidate_guard = supdate (\<lambda>s. s\<lparr>wk_physical_timing_guard := map_option guard_invalidate (wk_physical_timing_guard s)\<rparr>)"

definition observe_future_down_boundary :: "physical_boundary_stamp \<Rightarrow> (('w, 't) worker, 'e, unit) smethod" where
  "observe_future_down_boundary boundary = supdate (\<lambda>s. s\<lparr>wk_down_boundary_state := FutureAuthorized boundary\<rparr>)"

definition authorize_down_boundary :: "('w, 't) worker \<Rightarrow> physical_boundary_stamp \<Rightarrow> bool" where
  "authorize_down_boundary self boundary \<longleftrightarrow> authorization (wk_down_boundary_state self) = Some boundary"

definition invalidate_down_authorization :: "(('w, 't) worker, 'e, unit) smethod" where
  "invalidate_down_authorization = supdate (\<lambda>s. s\<lparr>wk_down_boundary_state := AwaitingFuture\<rparr>)"

definition forget_target :: "(('w, 't) worker, 'e, unit) smethod" where
  "forget_target = supdate (\<lambda>s. s\<lparr>wk_verified_target := None\<rparr>)"

section \<open>Rejections\<close>

definition apply_final_down_rejection :: "final_down_verdict \<Rightarrow> (('w, 't) worker, 'e, unit) smethod" where
  "apply_final_down_rejection verdict =
     (case verdict of
        DownControlRejected \<Rightarrow> forget_target
      | DownTargetChanged \<Rightarrow> sbind forget_target (\<lambda>_. invalidate_down_authorization)
      | DownOwnerRejected _ \<Rightarrow> sbind forget_target (\<lambda>_. invalidate_down_authorization)
      | DownLeaseExpired \<Rightarrow> sbind forget_target (\<lambda>_. invalidate_down_authorization)
      | DownLeaseUnproven \<Rightarrow> sbind forget_target (\<lambda>_. invalidate_down_authorization)
      | DownAllowed \<Rightarrow> sret ()
      | DownModifierHeld _ \<Rightarrow> sret ()
      | DownFocusLost \<Rightarrow> sret ())"

definition modifier_guard_rejection_step :: "u8 \<Rightarrow> dispatch_step" where
  "modifier_guard_rejection_step m = Terminate (PhysicalModifierHeld m)"

text \<open>The result is whether the pause was entered.\<close>

definition enter_focus_pause ::
  "(time_arithmetic_error \<Rightarrow> 'e) \<Rightarrow> qpc_ticks \<Rightarrow> (('w, 't) worker, 'e failure, bool) smethod" where
  "enter_focus_pause reason focus_ticks =
     sbind invalidate_down_authorization (\<lambda>_.
     sbind (supdate (\<lambda>s. s\<lparr>wk_verified_target := None, wk_focus_restore_started_ticks := None\<rparr>)) (\<lambda>_.
     sbind (sread (\<lambda>s. Inr (clock_has_pause_reason (wk_playback s) Focus))) (\<lambda>paused.
     if paused then sret False
     else sbind (in_playback reason (enter_pause Focus focus_ticks)) (\<lambda>_. sret True))))"

definition handle_final_focus_loss :: "('w, 'x) platform \<Rightarrow> ('w, 't, unit) worker_op" where
  "handle_final_focus_loss os =
     sbind (sread (\<lambda>s. Inr (wk_musical_physical_commit_started s))) (\<lambda>started.
     if \<not> started then stop_with (TerminateStatic ''focus_lost_during_preroll'')
     else sbind (qpc_sample os (\<lambda>e. Terminate (QpcFailure e))) (\<lambda>focus_ticks.
       sbind (enter_focus_pause (\<lambda>e. Terminate (PlaybackClockFailure e)) focus_ticks) (\<lambda>_. sret ())))"

section \<open>Timing\<close>

record dispatch_observation_evidence =
  oe_status :: send_transaction_status
  oe_attempts :: u8
  oe_retry_reason :: packet_retry_reason
  oe_requested_count :: usize
  oe_confirmed_count :: usize
  oe_skipped_count :: usize
  oe_timing_valid :: bool
  oe_transport_anomaly :: bool
  oe_recovery_used :: bool
  oe_chord_integrity_lost :: bool

definition is_clean_dispatch_observation :: "dispatch_observation_evidence \<Rightarrow> bool" where
  "is_clean_dispatch_observation evidence \<longleftrightarrow>
     oe_status evidence = SendComplete \<and> oe_attempts evidence = 1 \<and> oe_retry_reason evidence = NoRetryReason \<and>
     oe_skipped_count evidence = 0 \<and> oe_confirmed_count evidence = oe_requested_count evidence \<and>
     oe_timing_valid evidence \<and> \<not> oe_transport_anomaly evidence \<and> \<not> oe_recovery_used evidence \<and>
     \<not> oe_chord_integrity_lost evidence"

definition physical_event_counts :: "physical_packet \<Rightarrow> bool \<Rightarrow> u16 \<Rightarrow> usize \<times> usize" where
  "physical_event_counts packet_masks result_success result_confirmed_mask =
     (let requested_count = unat (packet_event_count packet_masks);
          confirmed_count = (if result_success then requested_count else count_ones result_confirmed_mask) in
      (requested_count, confirmed_count))"

definition I64_MAX :: u64 where "I64_MAX = push_bit 63 1 - 1"

text \<open>An \<open>i64\<close> as an integer.\<close>

definition signed_timeline_delta_ticks :: "timeline_ticks \<Rightarrow> timeline_ticks \<Rightarrow> time_arithmetic_error + int" where
  "signed_timeline_delta_ticks completed deadline =
     (let negative = completed < deadline in
      rbind (if negative then timeline_checked_duration_since deadline completed
             else timeline_checked_duration_since completed deadline) (\<lambda>duration.
      let magnitude = duration_u64 duration in
      if magnitude \<le> I64_MAX then Inr (if negative then - uint magnitude else uint magnitude)
      else if negative \<and> magnitude = I64_MAX + 1 then Inr (- (2 ^ 63))
      else Inl Overflow))"

definition signed_ticks_to_us :: "qpc_clock \<Rightarrow> int \<Rightarrow> time_conversion_error option + int" where
  "signed_ticks_to_us clock delta_ticks =
     rbind (map_err Some (duration_to_us clock (DurationTicks (word_of_int \<bar>delta_ticks\<bar>)))) (\<lambda>microseconds.
     let signed = (if delta_ticks < 0 then - uint microseconds else uint microseconds) in
     if - (2 ^ 63) \<le> signed \<and> signed < 2 ^ 63 then Inr signed else Inl None)"

section \<open>After the transaction\<close>

text \<open>Commit what was sent: the immediate frame, the deferred release, or both.\<close>

definition commit_sent :: "physical_commit \<Rightarrow> timeline_ticks \<Rightarrow> ('w, 't, unit) worker_op" where
  "commit_sent commit started =
     (let activation = (\<lambda>e. Terminate (ActivationFailure e)) in
      case commit of
        Authored token \<Rightarrow> in_coordinator activation (commit_prepared_authored_frame_success_frozen token started)
      | PendingReleaseCommit release_mask due_ticks \<Rightarrow>
          if started < due_ticks then stop_with (Terminate PendingStartedEarly)
          else in_coordinator activation (commit_pending_release_success release_mask started)
      | Coalesced token release_mask due_ticks \<Rightarrow>
          if started < due_ticks then stop_with (Terminate CoalescedStartedEarly)
          else in_coordinator activation
            (sbind (commit_pending_release_success release_mask started)
              (\<lambda>_. commit_prepared_authored_frame_success_frozen token started)))"

definition require_some :: "dispatch_step \<Rightarrow> 'a option \<Rightarrow> ('s, dispatch_step failure, 'a) smethod" where
  "require_some step x = (case x of Some a \<Rightarrow> sret a | None \<Rightarrow> stop_with step)"

text \<open>The result is the effective completion and its lateness; the other boundary values are only reported.\<close>

definition resolve_send_boundaries ::
  "authored_batch_view \<Rightarrow> qpc_ticks option \<Rightarrow> qpc_ticks option \<Rightarrow> ('w, 't, timeline_ticks \<times> duration_ticks option) worker_op" where
  "resolve_send_boundaries view result_started_ticks result_completed_ticks =
     sbind (require_some (Terminate SendWithoutStart) result_started_ticks) (\<lambda>pre_call_ticks.
     sbind (require_some (Terminate SendWithoutCompletion) result_completed_ticks) (\<lambda>completed_qpc_ticks.
     sbind (orelse (\<lambda>e. Terminate (SendOrderingFailure e)) (qpc_checked_duration_since completed_qpc_ticks pre_call_ticks)) (\<lambda>_.
     sbind (elapsed_at (\<lambda>e. Terminate (PlaybackClockFailure e)) pre_call_ticks) (\<lambda>pre_call_effective_ticks.
     sbind (elapsed_at (\<lambda>e. Terminate (PlaybackClockFailure e)) completed_qpc_ticks) (\<lambda>completed_effective_ticks.
     sbind (commit_sent (av_commit view) pre_call_effective_ticks) (\<lambda>_.
     sret (completed_effective_ticks,
           case timeline_checked_duration_since completed_effective_ticks (av_batch_scheduled_ticks view) of
             Inr late \<Rightarrow> Some late | Inl _ \<Rightarrow> None)))))))"

text \<open>The result is \<open>completion_error_ticks_value\<close> and \<open>strict_completion_late\<close>.\<close>

definition interpret_down_send_timing ::
  "worker_config \<Rightarrow> authored_batch_view \<Rightarrow> qpc_ticks \<Rightarrow> send_transaction_outcome \<Rightarrow> ('w, 't, int \<times> bool) worker_op" where
  "interpret_down_send_timing config view physical_target_qpc result =
     (let evidence = so_evidence result; status = so_status result in
     sbind (case ev_completed_ticks evidence of
         Some completed_qpc \<Rightarrow>
           (case qpc_checked_duration_since completed_qpc physical_target_qpc of
              Inl _ \<Rightarrow> stop_with (Terminate CompletionPrecedesTarget) | Inr _ \<Rightarrow> sret ())
       | None \<Rightarrow> sret ()) (\<lambda>_.
     sbind (resolve_send_boundaries view (ev_started_ticks evidence) (ev_completed_ticks evidence))
       (\<lambda>(completed_effective_ticks, completion_lateness_ticks).
     if cf_strict_timing config
     then sbind (orelse (\<lambda>e. Terminate (TimingConversionFailure e))
            (signed_timeline_delta_ticks completed_effective_ticks (av_batch_scheduled_ticks view))) (\<lambda>completion_error_ticks_value.
       let (requested_count, delivered_count) =
             physical_event_counts (av_packet_masks view) (is_success result) (ev_confirmed_mask evidence);
           observation = \<lparr>oe_status = status, oe_attempts = ev_attempts evidence, oe_retry_reason = ev_retry_reason evidence,
             oe_requested_count = requested_count, oe_confirmed_count = delivered_count,
             oe_skipped_count = count_ones (ev_skipped_mask evidence), oe_timing_valid = True,
             oe_transport_anomaly = (ev_last_win32_error evidence \<noteq> None),
             oe_recovery_used = (ev_retry_reason evidence \<noteq> NoRetryReason),
             oe_chord_integrity_lost = (status = IntegrityLost)\<rparr>;
           limit = (case av_dispatch_path view of
             UpOnlyPath _ \<Rightarrow> cf_strict_up_completion_late_ticks config
           | DownOnlyPath _ \<Rightarrow> cf_strict_down_completion_late_ticks config
           | MixedPath _ _ \<Rightarrow> cf_strict_down_completion_late_ticks config);
           strict_completion_late = (is_clean_dispatch_observation observation \<and>
             (case completion_lateness_ticks of Some late \<Rightarrow> late > limit | None \<Rightarrow> False)) in
       sret (completion_error_ticks_value, strict_completion_late))
     else sret (0, False))))"

definition resolve_slo_terminal_step ::
  "bool \<Rightarrow> bool \<Rightarrow> int \<Rightarrow> authored_batch_view \<Rightarrow> ('w, 't, dispatch_step) worker_op" where
  "resolve_slo_terminal_step result_chord_integrity_lost strict_completion_late completion_error_ticks view =
     (if result_chord_integrity_lost
      then sbind forget_target (\<lambda>_. sret (Terminate (AuthoredChordSplit (av_batch_source_action_index view))))
      else if strict_completion_late
      then sbind (sread (\<lambda>s. Inr (wk_clock s))) (\<lambda>clock.
        sbind (orelse (\<lambda>e. Terminate (TerminalConversionFailure e)) (signed_ticks_to_us clock completion_error_ticks)) (\<lambda>completion_error_us.
        sret (Terminate (StrictCompletionLate (case av_dispatch_path view of UpOnlyPath _ \<Rightarrow> True | _ \<Rightarrow> False)
          (av_batch_source_action_index view) completion_error_us))))
      else sret Dispatched)"

definition publisher_down_send_outcome ::
  "('w, 'x) platform \<Rightarrow> worker_config \<Rightarrow> authored_batch_view \<Rightarrow> bool \<Rightarrow> int \<times> bool \<Rightarrow> ('w, 't, dispatch_step) worker_op" where
  "publisher_down_send_outcome os config view result_chord_integrity_lost timing_proof =
     sbind (if cf_observer_enabled config
       then sbind (qpc_sample os (\<lambda>e. Terminate (QpcRuntimeFailure e))) (\<lambda>_. sret ()) else sret ()) (\<lambda>_.
     resolve_slo_terminal_step result_chord_integrity_lost (snd timing_proof) (fst timing_proof) view)"

definition finalize_down_send_outcome ::
  "('w, 'x) platform \<Rightarrow> worker_config \<Rightarrow> authored_batch_view \<Rightarrow> qpc_ticks \<Rightarrow> send_transaction_outcome \<Rightarrow> ('w, 't, dispatch_step) worker_op" where
  "finalize_down_send_outcome os config view physical_target_qpc result =
     sbind (interpret_down_send_timing config view physical_target_qpc result) (\<lambda>timing_proof.
     sbind (if pkt_down_mask (av_packet_masks view) \<noteq> 0
       then supdate (\<lambda>s. s\<lparr>wk_musical_physical_commit_started := True\<rparr>) else sret ()) (\<lambda>_.
     publisher_down_send_outcome os config view (so_status result = IntegrityLost) timing_proof))"

text \<open>An absent guard is an error of the first function and skipped by the second.\<close>

definition in_guard ::
  "(physical_timing_guard_error \<Rightarrow> terminate_reason) \<Rightarrow> unit guard_op \<Rightarrow> physical_timing_guard \<Rightarrow> ('w, 't, unit) worker_op" where
  "in_guard reason m guard = zoom (\<lambda>_. guard) (\<lambda>g s. s\<lparr>wk_physical_timing_guard := Some g\<rparr>)
     (renamed (map_failure (\<lambda>e. Terminate (reason e))) m)"

definition observe_successful_completion :: "qpc_ticks \<Rightarrow> physical_packet \<Rightarrow> ('w, 't, unit) worker_op" where
  "observe_successful_completion completed_qpc packet =
     sbind (sread (\<lambda>s. Inr (wk_physical_timing_guard s))) (\<lambda>guard.
     case guard of
       None \<Rightarrow> stop_with (TerminateStatic ''physical timing guard is not initialized'')
     | Some g \<Rightarrow> in_guard GuardCompletionFailed
         (observe_successful_packet completed_qpc (pkt_up_mask packet) (pkt_down_mask packet)) g)"

definition observe_recovered_packet :: "qpc_ticks \<Rightarrow> u16 \<Rightarrow> ('w, 't, unit) worker_op" where
  "observe_recovered_packet completed_qpc up_mask =
     sbind (sread (\<lambda>s. Inr (wk_physical_timing_guard s))) (\<lambda>guard.
     case guard of
       None \<Rightarrow> sret ()
     | Some g \<Rightarrow> in_guard GuardRecoveryFailed (observe_successful_packet completed_qpc up_mask 0) g)"

definition take_timing_error :: "(('w, 't) worker, 'e, qpc_error option) smethod" where
  "take_timing_error =
     sbind (sread (\<lambda>s. Inr (tk_timing_error (wk_backend s)))) (\<lambda>error.
     sbind (supdate (\<lambda>s. s\<lparr>wk_backend := (wk_backend s)\<lparr>tk_timing_error := None\<rparr>\<rparr>)) (\<lambda>_. sret error))"

definition invalidate_guard_if :: "bool \<Rightarrow> (('w, 't) worker, 'e, unit) smethod" where
  "invalidate_guard_if b = (if b then invalidate_guard else sret ())"

definition record_down_send_result ::
  "('w, 'x) platform \<Rightarrow> worker_config \<Rightarrow> authored_batch_view \<Rightarrow> qpc_ticks \<Rightarrow> send_transaction_outcome \<Rightarrow> ('w, 't, dispatch_step) worker_op" where
  "record_down_send_result os config view physical_target_qpc result =
     (let evidence = so_evidence result; packet = av_packet_masks view; attempted = ev_attempts evidence \<noteq> 0 in
     sbind (case ev_started_ticks evidence of
         Some started_qpc \<Rightarrow>
           (case qpc_checked_duration_since started_qpc physical_target_qpc of
              Inl _ \<Rightarrow> stop_with (Terminate PreCallPrecededTarget) | Inr _ \<Rightarrow> sret ())
       | None \<Rightarrow> sret ()) (\<lambda>_.
     sbind (supdate (\<lambda>s. s\<lparr>wk_previous_sendinput_completion_qpc := wk_last_physical_send_completion_qpc s,
         wk_previous_sender_completion_known := (wk_last_physical_send_completion_qpc s \<noteq> None)\<rparr>)) (\<lambda>_.
     sbind take_timing_error (\<lambda>timing_error.
     case timing_error of
       Some error \<Rightarrow>
         sbind (invalidate_guard_if attempted) (\<lambda>_. stop_with (Terminate (QpcFailureAfterNoteOn error)))
     | None \<Rightarrow>
         sbind (if is_success result
           then supdate (\<lambda>s. s\<lparr>wk_last_physical_send_completion_qpc := ev_completed_ticks evidence\<rparr>) else sret ()) (\<lambda>_.
         sbind (if so_status result = IntegrityLost
           then supdate (\<lambda>s. s\<lparr>wk_chord_integrity_lost := saturating_add (wk_chord_integrity_lost s) 1\<rparr>) else sret ()) (\<lambda>_.
         if \<not> is_success result
         then sbind (invalidate_guard_if attempted) (\<lambda>_.
           stop_with (Terminate (SendIntegrityFailure (av_batch_source_action_index view))))
         else case ev_completed_ticks evidence of
           None \<Rightarrow> sbind invalidate_guard (\<lambda>_. stop_with (TerminateStatic ''successful Down missing completion QPC''))
         | Some completed_qpc \<Rightarrow>
             sbind (observe_successful_completion completed_qpc packet) (\<lambda>_.
             finalize_down_send_outcome os config view physical_target_qpc result)))))))"

section \<open>A missed boundary\<close>

definition emit_prepared_up_prefix_if_needed ::
  "('w, 'x) platform \<Rightarrow> authored_batch_view \<Rightarrow> ('w, 't, send_transaction_outcome) worker_op" where
  "emit_prepared_up_prefix_if_needed os view =
     (let up_mask = pkt_up_mask (av_packet_masks view) in
      case av_recovery view of
        NoRecovery \<Rightarrow> stop_with (TerminateStatic ''missing_prepared_up_recovery_descriptor'')
      | UpPrefix up_len descriptor_up_mask \<Rightarrow>
          if descriptor_up_mask \<noteq> up_mask \<or> up_len \<noteq> word_of_nat (count_ones up_mask)
          then stop_with (TerminateStatic ''invalid_prepared_up_recovery_descriptor'')
          else case up_recovery_view (av_prepared_packet view) of
            None \<Rightarrow> stop_with (TerminateStatic ''missing_prepared_up_recovery_view'')
          | Some prepared_up_packet \<Rightarrow>
              if vw_packet prepared_up_packet \<noteq> packet_new up_mask 0 \<or> packet_event_count (vw_packet prepared_up_packet) \<noteq> up_len
              then stop_with (TerminateStatic ''invalid_prepared_up_recovery_view'')
              else in_backend (send_prepared_physical_packet_view os prepared_up_packet))"

definition commit_missed_down_boundary :: "authored_batch_view \<Rightarrow> qpc_ticks \<Rightarrow> ('w, 't, dispatch_step) worker_op" where
  "commit_missed_down_boundary view started_qpc =
     (let failure = (\<lambda>e. Terminate (MissedDownCommitFailure e)) in
     sbind (elapsed_at (\<lambda>e. Terminate (MissedDownClockFailure e)) started_qpc) (\<lambda>started_effective.
     sbind (case av_commit view of
         Authored commit \<Rightarrow>
           in_coordinator failure (commit_prepared_authored_frame_deadline_miss commit (pkt_up_mask (av_packet_masks view))
             (pkt_down_mask (av_packet_masks view)) started_effective)
       | Coalesced token release_mask due_ticks \<Rightarrow>
           if started_effective < due_ticks
           then stop_with (TerminateStatic ''coalesced missed Down recovery started before Up due boundary'')
           else in_coordinator failure (sbind (commit_pending_release_success release_mask started_effective)
             (\<lambda>_. commit_prepared_authored_frame_deadline_miss token (pf_immediate_up_mask (pc_frame token))
               (pf_down_mask (pc_frame token)) started_effective))
       | PendingReleaseCommit _ _ \<Rightarrow>
           stop_with (TerminateStatic ''pending release cannot carry a missed authored Down'')) (\<lambda>_.
     sret Dispatched)))"

fun authored_commit_of :: "physical_commit \<Rightarrow> prepared_authored_commit option" where
  "authored_commit_of (Authored commit) = Some commit"
| "authored_commit_of (Coalesced commit _ _) = Some commit"
| "authored_commit_of (PendingReleaseCommit _ _) = None"

definition validate_identity ::
  "(coordinator_error \<Rightarrow> 'e) \<Rightarrow> physical_commit \<Rightarrow> (('w, 't) worker, 'e failure, unit) smethod" where
  "validate_identity reason commit =
     (case authored_commit_of commit of
        Some token \<Rightarrow>
          sread (\<lambda>s. map_err (map_failure reason) (validate_frozen_authored_commit (wk_coordinator s) token))
      | None \<Rightarrow> sret ())"

text \<open>The releases of the prefix and the time they started; without releases, the time of the observation.\<close>

definition recover_up_prefix :: "('w, 'x) platform \<Rightarrow> authored_batch_view \<Rightarrow> qpc_ticks \<Rightarrow> ('w, 't, qpc_ticks) worker_op" where
  "recover_up_prefix os view observed_qpc =
     (let up_mask = pkt_up_mask (av_packet_masks view) in
      if up_mask = 0 then sret observed_qpc
      else sbind (emit_prepared_up_prefix_if_needed os view) (\<lambda>result.
        let evidence = so_evidence result; attempted = ev_attempts evidence \<noteq> 0 in
        sbind take_timing_error (\<lambda>timing_error.
        if timing_error \<noteq> None
        then sbind (invalidate_guard_if attempted) (\<lambda>_.
          stop_with (TerminateStatic ''QPC failure during missed Down Up recovery''))
        else if \<not> is_success result \<or> ev_confirmed_mask evidence \<noteq> up_mask \<or> ev_skipped_mask evidence \<noteq> 0
        then sbind (invalidate_guard_if attempted) (\<lambda>_.
          stop_with (TerminateStatic ''missed Down Up-prefix recovery transport failure''))
        else sbind (require_some (TerminateStatic ''missed Down safety Up missing start boundary'') (ev_started_ticks evidence)) (\<lambda>started.
          case ev_completed_ticks evidence of
            None \<Rightarrow> sbind invalidate_guard (\<lambda>_.
              stop_with (TerminateStatic ''missed Down Up-prefix recovery missing completion boundary''))
          | Some completed \<Rightarrow> sbind (observe_recovered_packet completed up_mask) (\<lambda>_. sret started)))))"

definition recover_missed_down_boundary ::
  "('w, 'x) platform \<Rightarrow> worker_config \<Rightarrow> authored_batch_view \<Rightarrow> qpc_ticks \<Rightarrow> ('w, 't, dispatch_step) worker_op" where
  "recover_missed_down_boundary os config view observed_qpc =
     sbind (validate_identity (\<lambda>e. Terminate (MissedDownIdentityFailure e)) (av_commit view)) (\<lambda>_.
     if cf_strict_timing config then stop_with (TerminateStatic ''down_unobserved_backlog'')
     else sbind (recover_up_prefix os view observed_qpc) (\<lambda>started_qpc.
       sbind (commit_missed_down_boundary view started_qpc) (\<lambda>commit_step.
       if commit_step \<noteq> Dispatched then sret commit_step
       else sbind (supdate (\<lambda>s. s\<lparr>wk_backend := (wk_backend s)\<lparr>tk_last_error := None\<rparr>\<rparr>)) (\<lambda>_. sret Dispatched))))"

definition dispatch_stale_packet :: "prepared_stale_packet \<Rightarrow> ('w, 't, dispatch_step) worker_op" where
  "dispatch_stale_packet prepared =
     sbind (in_coordinator (\<lambda>e. Terminate (StaleCommitFailure e)) (commit_stale_packet prepared)) (\<lambda>_. sret Dispatched)"

end
