(* ===== verification/Sky_Send.thy ===== *)
theory Sky_Send
  imports Sky_Dispatch
begin

unbundle bit_operations_syntax

text \<open>
  The two ways a packet reaches the transaction (\<open>sky_player/src/engine/worker\<close>): the planned path
  (\<open>dispatch/authored.rs\<close>, \<open>dispatch_loop.rs: dispatch_due_from_plan\<close>) with its admission in two stages and
  its missed boundaries, and the precision path of a frame prepared at startup (\<open>dispatch/prepared.rs\<close>).
\<close>

section \<open>The precision path\<close>

datatype precision_result = PrecisionRejected final_down_verdict | PrecisionSent send_transaction_outcome

definition send_prepared_normal_precision_frame ::
  "('w, 'x) platform \<Rightarrow> 'w shared \<Rightarrow> worker_config \<Rightarrow> authored_batch_view \<Rightarrow> target_stamp option \<Rightarrow>
   ('w, 't, precision_result) worker_op" where
  "send_prepared_normal_precision_frame os sh config view preflight_target =
     (let has_down_events = pkt_down_mask (av_packet_masks view) \<noteq> 0;
          suffix = (sbind (in_world (final_down_control_verdict sh)) (\<lambda>control.
            if control \<noteq> DownAllowed then sret (PrecisionRejected DownControlRejected)
            else let send = sbind (in_backend (send_prepared_physical_packet_at_final_boundary os (av_prepared_packet view) None))
                       (\<lambda>result. sret (PrecisionSent result)) in
              if \<not> has_down_events then send
              else sbind (in_world (final_down_modifier_verdict os)) (\<lambda>modifier.
                if modifier \<noteq> DownAllowed then sret (PrecisionRejected modifier)
                else case preflight_target of
                  None \<Rightarrow> sfail Panic
                | Some expected \<Rightarrow>
                    sbind (in_world (renamed (map_failure (\<lambda>_. TerminateStatic ''prepared_down_qpc_failure''))
                      (final_down_post_modifier_verdict os sh expected (cf_require_focus config) (cf_lease_timeout_ticks config)))) (\<lambda>verdict.
                    if verdict \<noteq> DownAllowed then sret (PrecisionRejected verdict) else send)))) in
      if \<not> has_down_events then suffix
      else sbind (in_world (final_down_control_verdict sh)) (\<lambda>control.
        if control \<noteq> DownAllowed then sret (PrecisionRejected DownControlRejected)
        else case preflight_target of
          None \<Rightarrow> stop_with (TerminateStatic ''prepared Down reached final admission without target proof'')
        | Some expected \<Rightarrow>
            sbind (in_world (final_down_target_admission os sh expected (cf_require_focus config))) (\<lambda>down_admission.
            if down_admission \<noteq> DownAllowed then sret (PrecisionRejected down_admission) else suffix)))"

definition finish_prepared_normal_precision_result ::
  "precision_result \<Rightarrow> ('w, 't, send_transaction_outcome option) worker_op" where
  "finish_prepared_normal_precision_result precision_result =
     (case precision_result of
        PrecisionSent result \<Rightarrow> sret (Some result)
      | PrecisionRejected verdict \<Rightarrow>
          sbind (apply_final_down_rejection verdict) (\<lambda>_.
          case verdict of
            DownControlRejected \<Rightarrow> stop_with StepContinue
          | DownTargetChanged \<Rightarrow> stop_with StepContinue
          | DownFocusLost \<Rightarrow> sret None
          | DownOwnerRejected failure \<Rightarrow> stop_with (TerminateStatic (owner_rejection_reason failure True))
          | DownModifierHeld m \<Rightarrow> stop_with (modifier_guard_rejection_step m)
          | DownLeaseExpired \<Rightarrow> stop_with (TerminateStatic ''supervisor_lease_expired'')
          | DownLeaseUnproven \<Rightarrow> stop_with (TerminateStatic ''supervisor_lease_unproven'')
          | DownAllowed \<Rightarrow> sfail Panic))"

text \<open>A debug assertion of the sources.\<close>

definition debug_assert :: "(('w, 't) worker \<Rightarrow> bool) \<Rightarrow> (('w, 't) worker, 'e failure, unit) smethod" where
  "debug_assert P = (\<lambda>s. if P s then (Inr (), s) else (Inl Panic, s))"

definition record_prepared_normal_send_outcome ::
  "('w, 'x) platform \<Rightarrow> worker_config \<Rightarrow> authored_batch_view \<Rightarrow> qpc_ticks \<Rightarrow> send_transaction_outcome \<Rightarrow> ('w, 't, dispatch_step) worker_op" where
  "record_prepared_normal_send_outcome os config view physical_target_qpc result =
     sbind (debug_assert (\<lambda>_. \<not> cf_strict_timing config)) (\<lambda>_.
     record_down_send_result os config view physical_target_qpc result)"

definition dispatch_prepared_normal_frame ::
  "('w, 'x) platform \<Rightarrow> 'w shared \<Rightarrow> worker_config \<Rightarrow> authored_batch_view \<Rightarrow> target_stamp option \<Rightarrow> qpc_ticks \<Rightarrow>
   ('w, 't, dispatch_step) worker_op" where
  "dispatch_prepared_normal_frame os sh config view preflight_target physical_target_qpc =
     (let has_down_events = pkt_down_mask (av_packet_masks view) \<noteq> 0 in
     sbind (if has_down_events then in_world (focus_matches sh (cf_require_focus config)) else sret True) (\<lambda>focused.
     if \<not> focused
     then sbind (sread (\<lambda>s. Inr (wk_musical_physical_commit_started s))) (\<lambda>started.
       if \<not> started then stop_with (TerminateStatic ''focus_lost_during_preroll'')
       else sbind (handle_final_focus_loss os) (\<lambda>_. sret StepContinue))
     else sbind (sread (\<lambda>s. Inr (wk_focus_loss_fault_injected s))) (\<lambda>injected.
       if has_down_events \<and> cf_focus_loss_fault config \<and> \<not> injected
       then sbind (supdate (\<lambda>s. s\<lparr>wk_focus_loss_fault_injected := True\<rparr>)) (\<lambda>_.
         stop_with (TerminateStatic ''focus lost after due check before SendInput boundary''))
       else sbind (send_prepared_normal_precision_frame os sh config view preflight_target) (\<lambda>precision_result.
         sbind (finish_prepared_normal_precision_result precision_result) (\<lambda>finished.
         case finished of
           None \<Rightarrow> sbind (handle_final_focus_loss os) (\<lambda>_. sret StepContinue)
         | Some result \<Rightarrow>
             sbind (debug_assert (\<lambda>_. prep_packet (av_prepared_packet view) = av_packet_masks view)) (\<lambda>_.
             record_prepared_normal_send_outcome os config view physical_target_qpc result))))))"

section \<open>The planned path\<close>

text \<open>The times of an admitted packet are evidence only and left out.\<close>

datatype admission_outcome =
    AdmissionAllowed
  | AdmissionGuarded "target_stamp option"
  | AdmissionBlockedUnfocused
  | AdmissionFocusLost
  | AdmissionTargetChanged
  | AdmissionControlRejected

definition resolve_target_crossing_qpc ::
  "down_boundary_admission \<Rightarrow> qpc_ticks option \<Rightarrow> ('w, 't, qpc_ticks option) worker_op" where
  "resolve_target_crossing_qpc down_admission boundary_crossing_qpc =
     (if is_missed down_admission then sret None
      else case boundary_crossing_qpc of
        Some crossing \<Rightarrow> sret (Some crossing)
      | None \<Rightarrow> stop_with (TerminateStatic ''missing physical boundary crossing evidence''))"

definition bears_down :: "authored_batch_view \<Rightarrow> bool" where
  "bears_down view \<longleftrightarrow> pkt_down_mask (av_packet_masks view) \<noteq> 0 \<or> av_batch_kind view = Down"

definition admit_authored_down ::
  "'w shared \<Rightarrow> worker_config \<Rightarrow> authored_batch_view \<Rightarrow> qpc_ticks \<Rightarrow> target_stamp option \<Rightarrow> ('w, 't, admission_outcome) worker_op" where
  "admit_authored_down sh config view now_ticks preflight_target =
     (let has_down_events = bears_down view; has_conflicts = av_conflict_mask view \<noteq> 0 in
     sbind (if has_down_events then in_world (focus_matches sh (cf_require_focus config)) else sret True) (\<lambda>focused.
     if \<not> focused
     then sbind (sread (\<lambda>s. Inr (wk_musical_physical_commit_started s))) (\<lambda>started.
       if \<not> started then stop_with (TerminateStatic ''focus_lost_during_preroll'')
       else sbind (enter_focus_pause (\<lambda>e. Terminate (PlaybackClockFailure e)) now_ticks) (\<lambda>_. sret AdmissionBlockedUnfocused))
     else sbind (sread (\<lambda>s. Inr (wk_focus_loss_fault_injected s))) (\<lambda>injected.
       if has_down_events \<and> cf_focus_loss_fault config \<and> \<not> injected
       then sbind (supdate (\<lambda>s. s\<lparr>wk_focus_loss_fault_injected := True\<rparr>)) (\<lambda>_. stop_with (Terminate FocusLostAfterDueCheck))
       else sbind (if has_down_events
           then (case preflight_target of None \<Rightarrow> stop_with (Terminate NoPreflightProof) | Some t \<Rightarrow> sret (Some t))
           else sret None) (\<lambda>preflight_target.
         sbind (case preflight_target of
             None \<Rightarrow> sret True
           | Some expected \<Rightarrow> in_world (target_stamp_still_current sh expected)) (\<lambda>unchanged.
         if \<not> unchanged
         then sbind forget_target (\<lambda>_. sbind invalidate_down_authorization (\<lambda>_. sret AdmissionTargetChanged))
         else if has_conflicts
         then stop_with (Terminate (BlockedAuthoredDown (av_batch_source_action_index view)))
         else sbind (in_world (final_control_precheck sh)) (\<lambda>control_admission.
           if control_admission \<noteq> ControlAllowed then sbind forget_target (\<lambda>_. sret AdmissionControlRejected)
           else sret (AdmissionGuarded preflight_target)))))))"

definition authored_target_rejection_outcome ::
  "('w, 'x) platform \<Rightarrow> final_down_verdict \<Rightarrow> ('w, 't, admission_outcome) worker_op" where
  "authored_target_rejection_outcome os verdict =
     (case verdict of
        DownFocusLost \<Rightarrow> sbind (handle_final_focus_loss os) (\<lambda>_. sret AdmissionFocusLost)
      | DownTargetChanged \<Rightarrow> sret AdmissionTargetChanged
      | DownOwnerRejected failure \<Rightarrow> stop_with (TerminateStatic (owner_rejection_reason failure False))
      | _ \<Rightarrow> stop_with (TerminateStatic ''invalid final target admission verdict''))"

definition authored_post_modifier_rejection_outcome ::
  "('w, 'x) platform \<Rightarrow> final_down_verdict \<Rightarrow> ('w, 't, admission_outcome) worker_op" where
  "authored_post_modifier_rejection_outcome os verdict =
     (case verdict of
        DownControlRejected \<Rightarrow> sret AdmissionControlRejected
      | DownFocusLost \<Rightarrow> sbind (handle_final_focus_loss os) (\<lambda>_. sret AdmissionFocusLost)
      | DownTargetChanged \<Rightarrow> sret AdmissionTargetChanged
      | DownOwnerRejected _ \<Rightarrow> stop_with (TerminateStatic ''authored_down_owner_changed_after_modifier_guard'')
      | DownModifierHeld m \<Rightarrow> stop_with (modifier_guard_rejection_step m)
      | DownLeaseExpired \<Rightarrow> stop_with (TerminateStatic ''supervisor_lease_expired'')
      | DownLeaseUnproven \<Rightarrow> stop_with (TerminateStatic ''supervisor_lease_unproven'')
      | DownAllowed \<Rightarrow> stop_with (TerminateStatic ''invalid post-modifier admission verdict''))"

definition final_atomic_revalidation :: "'w shared \<Rightarrow> ('w, 't, bool) worker_op" where
  "final_atomic_revalidation sh =
     sbind (in_world (final_down_control_verdict sh)) (\<lambda>verdict.
     if verdict = DownAllowed then sret True
     else sbind (apply_final_down_rejection DownControlRejected) (\<lambda>_. sret False))"

text \<open>The modifier and lease stage of a press, up to the last clock reading.\<close>

definition finalize_modifier_stage ::
  "('w, 'x) platform \<Rightarrow> 'w shared \<Rightarrow> worker_config \<Rightarrow> target_stamp option \<Rightarrow> ('w, 't, admission_outcome option) worker_op" where
  "finalize_modifier_stage os sh config preflight_target =
     sbind (in_world (final_down_modifier_verdict os)) (\<lambda>modifier_verdict.
     if modifier_verdict \<noteq> DownAllowed
     then sbind (apply_final_down_rejection modifier_verdict) (\<lambda>_.
       case modifier_verdict of
         DownModifierHeld m \<Rightarrow> stop_with (modifier_guard_rejection_step m)
       | _ \<Rightarrow> stop_with (TerminateStatic ''invalid modifier admission verdict''))
     else sbind (require_some (TerminateStatic ''modifier guard reached without frozen target proof'') preflight_target) (\<lambda>expected.
       sbind (in_world (renamed (map_failure (\<lambda>_. TerminateStatic ''authored_down_qpc_failure''))
         (final_down_post_modifier_verdict os sh expected (cf_require_focus config) (cf_lease_timeout_ticks config)))) (\<lambda>verdict.
       if verdict \<noteq> DownAllowed
       then sbind (apply_final_down_rejection verdict) (\<lambda>_.
         sbind (authored_post_modifier_rejection_outcome os verdict) (\<lambda>rejection. sret (Some rejection)))
       else sret None)))"

definition finalize_authored_down_admission ::
  "('w, 'x) platform \<Rightarrow> 'w shared \<Rightarrow> worker_config \<Rightarrow> authored_batch_view \<Rightarrow> down_boundary_admission \<Rightarrow> qpc_ticks option \<Rightarrow>
   admission_outcome \<Rightarrow> ('w, 't, admission_outcome) worker_op" where
  "finalize_authored_down_admission os sh config view down_admission boundary_crossing_qpc admission =
     (case admission of
        AdmissionGuarded preflight_target \<Rightarrow>
          sbind (resolve_target_crossing_qpc down_admission boundary_crossing_qpc) (\<lambda>_.
          sbind (in_world (final_down_control_verdict sh)) (\<lambda>control.
          if control \<noteq> DownAllowed
          then sbind (apply_final_down_rejection DownControlRejected) (\<lambda>_. sret AdmissionControlRejected)
          else let view_has_down = bears_down view;
                 finish = sbind (qpc_sample os (\<lambda>e. Terminate (QpcFinalPolicyFailure e))) (\<lambda>_. sret AdmissionAllowed);
                 suffix = sbind (final_atomic_revalidation sh) (\<lambda>valid.
                   if \<not> valid then sret AdmissionControlRejected
                   else if view_has_down
                   then sbind (finalize_modifier_stage os sh config preflight_target) (\<lambda>rejected.
                     case rejected of Some rejection \<Rightarrow> sret rejection | None \<Rightarrow> finish)
                   else finish) in
            if view_has_down
            then sbind (require_some (Terminate NoFrozenTargetProof) preflight_target) (\<lambda>expected.
              sbind (in_world (final_down_target_admission os sh expected (cf_require_focus config))) (\<lambda>target_verdict.
              if target_verdict \<noteq> DownAllowed
              then sbind (apply_final_down_rejection target_verdict) (\<lambda>_. authored_target_rejection_outcome os target_verdict)
              else suffix))
            else suffix))
      | _ \<Rightarrow> sret admission)"

definition record_down_send_outcome ::
  "('w, 'x) platform \<Rightarrow> worker_config \<Rightarrow> authored_batch_view \<Rightarrow> qpc_ticks \<Rightarrow> admission_outcome \<Rightarrow> ('w, 't, dispatch_step) worker_op" where
  "record_down_send_outcome os config view physical_target_qpc admission =
     (if admission \<noteq> AdmissionAllowed then sret StepContinue
      else sbind (debug_assert (\<lambda>_. prep_packet (av_prepared_packet view) = av_packet_masks view)) (\<lambda>_.
        sbind (in_backend (send_prepared_physical_packet_at_final_boundary os (av_prepared_packet view) None)) (\<lambda>result.
        record_down_send_result os config view physical_target_qpc result)))"

text \<open>A missed boundary is recovered whatever the admission answered.\<close>

definition commit_down_send_outcome ::
  "('w, 'x) platform \<Rightarrow> 'w shared \<Rightarrow> worker_config \<Rightarrow> authored_batch_view \<Rightarrow> qpc_ticks \<Rightarrow> qpc_ticks \<Rightarrow>
   down_boundary_admission \<Rightarrow> target_stamp option \<Rightarrow> qpc_ticks option \<Rightarrow> ('w, 't, dispatch_step) worker_op" where
  "commit_down_send_outcome os sh config view now_ticks physical_target_qpc down_admission preflight_target boundary_crossing_qpc =
     sbind (admit_authored_down sh config view now_ticks preflight_target) (\<lambda>admission.
     sbind (finalize_authored_down_admission os sh config view down_admission boundary_crossing_qpc admission) (\<lambda>admission.
     if is_missed down_admission then recover_missed_down_boundary os config view now_ticks
     else record_down_send_outcome os config view physical_target_qpc admission))"

definition dispatch_authored_packet ::
  "('w, 'x) platform \<Rightarrow> 'w shared \<Rightarrow> worker_config \<Rightarrow> next_dispatch_plan \<Rightarrow> qpc_ticks \<Rightarrow> qpc_ticks \<Rightarrow>
   down_boundary_admission \<Rightarrow> qpc_ticks option \<Rightarrow> ('w, 't, dispatch_step) worker_op" where
  "dispatch_authored_packet os sh config dispatch_plan now_ticks physical_target_qpc down_admission boundary_crossing_qpc =
     sbind (supdate (\<lambda>s. s\<lparr>wk_allow_pre_epoch_startup_dispatch := now_ticks < clock_epoch (wk_playback s)\<rparr>)) (\<lambda>_.
     case dispatch_plan of
       PhysicalPlan physical \<Rightarrow>
         commit_down_send_outcome os sh config (pl_authored_view physical) now_ticks physical_target_qpc down_admission
           (verified_target (pl_target_proof physical)) boundary_crossing_qpc
     | _ \<Rightarrow> sret StepNoWork)"

section \<open>Dispatch of a plan\<close>

definition physical_target_qpc_for_work :: "qpc_ticks option \<Rightarrow> qpc_ticks \<Rightarrow> bool \<Rightarrow> qpc_ticks option" where
  "physical_target_qpc_for_work target now allow_pre_deadline =
     (case target of
        None \<Rightarrow> None
      | Some target \<Rightarrow> if allow_pre_deadline \<or> target \<le> now then Some target else None)"

definition stamp_of_view :: "authored_batch_view \<Rightarrow> qpc_ticks \<Rightarrow> physical_boundary_stamp" where
  "stamp_of_view view physical_target_qpc =
     \<lparr>bs_first_batch_index = pb_index (av_prepared_batch view), bs_packet_index = pb_packet_index (av_prepared_batch view),
      bs_packet_batch_count = pb_packet_batch_count (av_prepared_batch view),
      bs_source_action_index = av_batch_source_action_index view, bs_up_mask = pkt_up_mask (av_packet_masks view),
      bs_down_mask = pkt_down_mask (av_packet_masks view), bs_physical_target_qpc = physical_target_qpc\<rparr>"

definition boundary_stamp_of :: "next_dispatch_plan \<Rightarrow> qpc_ticks \<Rightarrow> physical_boundary_stamp option" where
  "boundary_stamp_of plan physical_target_qpc =
     (case plan of
        PhysicalPlan physical \<Rightarrow>
          if pkt_down_mask (av_packet_masks (pl_authored_view physical)) \<noteq> 0
          then Some (stamp_of_view (pl_authored_view physical) physical_target_qpc) else None
      | _ \<Rightarrow> None)"

definition physical_timing_window_for_packet ::
  "physical_timing_guard option \<Rightarrow> qpc_ticks \<Rightarrow> physical_packet \<Rightarrow> terminate_reason failure + physical_timing_window" where
  "physical_timing_window_for_packet guard authored_target_qpc masks =
     (case guard of
        None \<Rightarrow> Inl (Err GuardNotInitialized)
      | Some g \<Rightarrow> map_err (map_failure WindowQueryFailed)
          (guard_query g authored_target_qpc (pkt_up_mask masks) (pkt_down_mask masks)))"

definition physical_wait_target_for_plan ::
  "next_dispatch_plan \<Rightarrow> ('w, 't) worker \<Rightarrow> terminate_reason failure + qpc_ticks option" where
  "physical_wait_target_for_plan plan runtime =
     (case plan_physical_target_qpc plan of
        None \<Rightarrow> Inr None
      | Some physical_target_qpc \<Rightarrow>
          (case plan of
             PhysicalPlan physical \<Rightarrow>
               rbind (physical_timing_window_for_packet (wk_physical_timing_guard runtime) physical_target_qpc
                       (av_packet_masks (pl_authored_view physical))) (\<lambda>window.
               case wk_pending_up_recovery runtime of
                 Some pending \<Rightarrow>
                   if (case boundary_stamp_of plan physical_target_qpc of
                         Some boundary \<Rightarrow> matches_authored_boundary pending boundary | None \<Rightarrow> False)
                   then Inr (Some (pw_musical_up_not_before_qpc window)) else Inl (Err PendingRecoveryMismatch)
               | None \<Rightarrow> Inr (Some (pw_packet_not_before_qpc window)))
           | _ \<Rightarrow> Inr (Some physical_target_qpc)))"

definition preflight_prepared_plan ::
  "('w, 'x) platform \<Rightarrow> 'w shared \<Rightarrow> next_dispatch_plan \<Rightarrow> ('w, 't, next_dispatch_plan option) worker_op" where
  "preflight_prepared_plan os sh plan =
     (case plan of
        PhysicalPlan physical \<Rightarrow>
          if pkt_down_mask (av_packet_masks (pl_authored_view physical)) = 0 then sret (Some plan)
          else sbind (in_world (load_target_stamp sh)) (\<lambda>stamp.
            case stamp of
              None \<Rightarrow> sbind forget_target (\<lambda>_. sbind invalidate_down_authorization (\<lambda>_. sret None))
            | Some target_stamp \<Rightarrow>
                sbind (\<lambda>s. zoom (\<lambda>s. (wk_verified_target s, wk_world s)) (\<lambda>(v, w) s. s\<lparr>wk_verified_target := v, wk_world := w\<rparr>)
                  (renamed (map_failure (\<lambda>e. Terminate (KeyPreflightFailure e)))
                    (ensure_preflight_for_target os (tk_profile (wk_backend s)) target_stamp)) s) (\<lambda>_.
                sbind (in_world (target_stamp_still_current sh target_stamp)) (\<lambda>unchanged.
                if \<not> unchanged then sbind forget_target (\<lambda>_. sbind invalidate_down_authorization (\<lambda>_. sret None))
                else sret (Some (PhysicalPlan (physical\<lparr>pl_target_proof := Verified target_stamp\<rparr>))))))
      | _ \<Rightarrow> sret (Some plan))"

text \<open>
  The decision about a due physical plan: wait, defer the recovery of a missed mixed boundary, or dispatch
  with an admission class. \<open>Inr None\<close> is the step without work.
\<close>

definition decide_admission ::
  "worker_config \<Rightarrow> authored_batch_view \<Rightarrow> physical_boundary_stamp option \<Rightarrow> physical_timing_window \<Rightarrow> qpc_ticks \<Rightarrow>
   ('w, 't, down_boundary_admission option) worker_op" where
  "decide_admission config view boundary window now_ticks =
     sbind (sread (\<lambda>s. Inr (map_option (\<lambda>p. (pr_boundary p, pr_admission p)) (wk_pending_up_recovery s), wk_down_boundary_state s)))
       (\<lambda>(pending, state).
     let masks = av_packet_masks view in
     sbind (case pending of
         None \<Rightarrow> sret ()
       | Some (pending_boundary, _) \<Rightarrow>
           if \<not> (case boundary of Some b \<Rightarrow> same_authored_boundary pending_boundary b | None \<Rightarrow> False)
           then stop_with (TerminateStatic ''pending Up recovery no longer matches its authored boundary'')
           else if \<not> awaiting_future state
           then stop_with (TerminateStatic ''pending Up recovery retained Down authorization'')
           else sret ()) (\<lambda>_.
     let physical_wait_target = (if pending \<noteq> None then pw_musical_up_not_before_qpc window else pw_packet_not_before_qpc window) in
     if physical_wait_target > now_ticks then sret None
     else sbind (case (pending, boundary) of
         (Some (_, admission), _) \<Rightarrow> sret admission
       | (None, Some boundary) \<Rightarrow>
           sbind (sread (\<lambda>s. Inr (if authorize_down_boundary s boundary then DownAuthorized else UnobservedBacklog))) (\<lambda>admission.
           sbind invalidate_down_authorization (\<lambda>_. sret admission))
       | (None, None) \<Rightarrow> sret DownAuthorized) (\<lambda>down_admission.
       if pending = None \<and> is_missed down_admission \<and> pkt_up_mask masks \<noteq> 0 \<and> \<not> cf_strict_timing config \<and>
          pw_musical_up_not_before_qpc window > now_ticks
       then case boundary of
           None \<Rightarrow> stop_with (TerminateStatic ''missed mixed Down boundary is missing its authored identity'')
         | Some boundary \<Rightarrow>
             (case authored_commit_of (av_commit view) of
                None \<Rightarrow> stop_with (TerminateStatic ''missed mixed Down boundary has no frozen authored commit'')
              | Some authored_commit \<Rightarrow>
                  sbind (supdate (\<lambda>s. s\<lparr>wk_pending_up_recovery := Some \<lparr>pr_boundary = boundary,
                    pr_admission = down_admission, pr_authored_commit = authored_commit\<rparr>\<rparr>)) (\<lambda>_. sret None))
       else sret (Some down_admission))))"

definition dispatch_due_from_plan ::
  "('w, 'x) platform \<Rightarrow> 'w shared \<Rightarrow> worker_config \<Rightarrow> next_dispatch_plan \<Rightarrow> qpc_ticks \<Rightarrow> qpc_ticks option \<Rightarrow> bool \<Rightarrow>
   ('w, 't, dispatch_step) worker_op" where
  "dispatch_due_from_plan os sh config plan now_ticks boundary_crossing_qpc allow_pre_deadline =
     (case plan of
        MetadataPlan metadata \<Rightarrow>
          if mb_physical_target_qpc metadata > now_ticks then sret StepNoWork
          else sbind (in_coordinator (\<lambda>e. Terminate (MetadataCommitFailure e))
                 (commit_prepared_authored_frame_metadata_frozen (mb_commit metadata))) (\<lambda>_. sret Dispatched)
      | NoWork \<Rightarrow> sret StepNoWork
      | PhysicalPlan physical \<Rightarrow>
          let view = pl_authored_view physical; masks = av_packet_masks view;
              candidate_target_qpc = pl_physical_target_qpc physical in
          sbind (if pkt_down_mask masks \<noteq> 0 then in_world (down_blocked sh) else sret False) (\<lambda>blocked.
          if blocked then sret StepNoWork
          else case physical_target_qpc_for_work (Some candidate_target_qpc) now_ticks allow_pre_deadline of
            None \<Rightarrow>
              sbind (sread (\<lambda>s. Inr (wk_pending_up_recovery s = None \<and> awaiting_future (wk_down_boundary_state s)))) (\<lambda>free.
              sbind (case boundary_stamp_of plan candidate_target_qpc of
                  Some boundary \<Rightarrow> if candidate_target_qpc > now_ticks \<and> free then observe_future_down_boundary boundary else sret ()
                | None \<Rightarrow> sret ()) (\<lambda>_. sret StepNoWork))
          | Some physical_target_qpc \<Rightarrow>
              let crossing = (case boundary_crossing_qpc of
                    Some q \<Rightarrow> Some q | None \<Rightarrow> if physical_target_qpc \<le> now_ticks then Some now_ticks else None) in
              sbind (validate_identity (\<lambda>e. Terminate (IdentityValidationFailure e)) (av_commit view)) (\<lambda>_.
              sbind (sread (\<lambda>s. map_err (map_failure Terminate)
                (physical_timing_window_for_packet (wk_physical_timing_guard s) physical_target_qpc masks))) (\<lambda>window.
              sbind (sread (\<lambda>s. Inr (wk_pending_up_recovery s \<noteq> None))) (\<lambda>recovering.
              sbind (decide_admission config view (boundary_stamp_of plan physical_target_qpc) window now_ticks) (\<lambda>decision.
              case decision of
                None \<Rightarrow> sret StepNoWork
              | Some down_admission \<Rightarrow>
                  sbind (at_step (dispatch_authored_packet os sh config plan now_ticks physical_target_qpc down_admission crossing))
                    (\<lambda>authored_step.
                  sbind (if recovering \<and> authored_step = Dispatched
                    then supdate (\<lambda>s. s\<lparr>wk_pending_up_recovery := None\<rparr>) else sret ()) (\<lambda>_.
                  sret authored_step))))))))"

end
