(* ===== verification/Sky_Loop.thy ===== *)
theory Sky_Loop
  imports Sky_Send
begin

unbundle bit_operations_syntax

text \<open>
  The worker's loop (\<open>sky_player/src/engine/worker\<close>: \<open>dispatch_loop.rs\<close>, \<open>control.rs\<close>, \<open>wait.rs\<close>,
  \<open>cleanup.rs\<close>, the end of \<open>orchestration.rs\<close>): commands, focus and manual pauses with their suspensions,
  the prepared stream, stale metadata, the planned dispatch and its wait, and the terminal cleanup. A
  terminal error is a constructor of \<open>loop_error\<close>, one per format string. The hybrid waiter over the
  operating system's timers is an argument. Published metrics and telemetry are left out; where a clock
  reading for them can end the loop, the reading is kept.
\<close>

section \<open>Errors and the environment\<close>

datatype wait_failure =
    WaitClock
  | TimerCreate u32
  | TimerArm u32
  | TimerWait u32
  | MultiWait u32

datatype wait_outcome = WaitDeadline | WaitInterrupted | WaitFailed wait_failure

record wait_result =
  wr_outcome :: wait_outcome
  wr_wake_qpc :: "qpc_ticks option"

record ('w, 'x) environment =
  en_os :: "('w, 'x) platform"
  en_shared :: "'w shared"
  en_wait :: "qpc_ticks \<Rightarrow> duration_ticks \<Rightarrow> 'w \<Rightarrow> wait_result \<times> 'w"
  en_try_take_interrupt :: "'w \<Rightarrow> bool \<times> 'w"

datatype suspension_error =
    ReleaseVerificationFailed bool "u16 list" bool
  | ResumeBarrierQpcFailure qpc_error
  | GuardMissingAfterCleanup
  | ResumeBarrierFailed physical_timing_guard_error
  | PendingMissMismatch
  | SuspensionClockFailure time_arithmetic_error
  | SuspensionMissCommitFailure coordinator_error
  | LiveCancellationFailure coordinator_error

datatype loop_error =
    StepFailed terminate_reason
  | StaticError string
  | LoopQpcFailure qpc_error
  | LoopClockFailure time_arithmetic_error
  | FocusGraceClockFailure time_arithmetic_error
  | FocusRestorationFailed suspension_error
  | FocusPreflightFailed preflight_error
  | ManualPauseSuspensionFailed suspension_error
  | ManualResumeSuspensionFailed suspension_error
  | ManualPreflightFailed preflight_error
  | PauseDeadlineFailure time_arithmetic_error
  | WaitFailureMessage wait_failure
  | WaitQpcFailure qpc_error
  | PlannedWaitFailure time_arithmetic_error
  | PreparedTargetFailure time_arithmetic_error
  | PreparedPreflightFailed preflight_error
  | PreparedClockFailure time_arithmetic_error
  | PreparedMetadataFailure coordinator_error
  | PreparedIdentityFailure coordinator_error
  | StalePreparationFailure coordinator_error
  | PlanningFailure planning_error
  | WakeClockFailure time_arithmetic_error
  | TerminalReleaseUnverified bool "u16 list" bool
  | TerminalCleanupPanicked
  | PreCancelInvariantFailure coordinator_invariant_error
  | WorkerPanicked
  | CleanCompletionFailed
  | CancellationFailure coordinator_error
  | PostCleanupInvariantFailure coordinator_invariant_error
  | ObserverConsumerFailed string
  | TerminationQpcFailure qpc_error

text \<open>A pass over the loop ends at its end, at a \<open>continue\<close> or at a \<open>break\<close>.\<close>

datatype loop_exit = LoopContinue | LoopBreak

type_synonym 'w loop_worker = "('w, loop_error) worker"

type_synonym ('w, 'a) loop_op = "('w loop_worker, loop_exit failure, 'a) smethod"

type_synonym ('w, 'a) faulty_op = "('w loop_worker, loop_error failure, 'a) smethod"

definition continue_loop :: "('w, 'a) loop_op" where
  "continue_loop = sfail (Err LoopContinue)"

definition break_with :: "loop_error \<Rightarrow> ('w, 'a) loop_op" where
  "break_with error = sbind (supdate (\<lambda>s. s\<lparr>wk_terminal_error := Some error\<rparr>)) (\<lambda>_. sfail (Err LoopBreak))"

text \<open>An error becomes the terminal error; \<open>or_break_forgetting\<close> also drops the verified target.\<close>

definition or_break :: "('w, 'a) faulty_op \<Rightarrow> ('w, 'a) loop_op" where
  "or_break m s = (case m s of
      (Inr a, t) \<Rightarrow> (Inr a, t)
    | (Inl (Err error), t) \<Rightarrow> break_with error t
    | (Inl Panic, t) \<Rightarrow> (Inl Panic, t))"

definition or_break_forgetting :: "('w, 'a) faulty_op \<Rightarrow> ('w, 'a) loop_op" where
  "or_break_forgetting m s = (case m s of
      (Inr a, t) \<Rightarrow> (Inr a, t)
    | (Inl (Err error), t) \<Rightarrow> sbind forget_target (\<lambda>_. break_with error) t
    | (Inl Panic, t) \<Rightarrow> (Inl Panic, t))"

definition qpc_ticks_or_terminal :: "('w, 'x) environment \<Rightarrow> ('w, qpc_ticks) loop_op" where
  "qpc_ticks_or_terminal env = or_break (qpc_sample (en_os env) LoopQpcFailure)"

definition ticks_to_us :: "(qpc_error \<Rightarrow> 'e) \<Rightarrow> qpc_ticks \<Rightarrow> (('w, 't) worker, 'e failure, u64) smethod" where
  "ticks_to_us reason ticks =
     sread (\<lambda>s. map_err (\<lambda>_. Err (reason QpcConversionOverflow)) (duration_to_us (wk_clock s) (DurationTicks (qpc_u64 ticks))))"

definition qpc_us_or_terminal :: "('w, 'x) environment \<Rightarrow> ('w, u64) loop_op" where
  "qpc_us_or_terminal env =
     or_break (sbind (qpc_sample (en_os env) LoopQpcFailure) (ticks_to_us LoopQpcFailure))"

section \<open>Commands\<close>

definition requires_error_outcome :: "terminal_trigger \<Rightarrow> bool" where
  "requires_error_outcome self \<longleftrightarrow>
     self \<in> {TriggerPanicReleaseRequested, TriggerSupervisorLeaseExpired, TriggerFocusAuthorityInvalidated,
       TriggerTargetAuthorityInvalidated, TriggerOwnerAuthorityInvalidated, TriggerWorkerPanic}"

definition consume_panic_request_if_pending :: "'w shared \<Rightarrow> bool \<Rightarrow> ('w, 'e failure, bool) smethod" where
  "consume_panic_request_if_pending sh command_exit =
     (if command_exit then sret False
      else sbind (atomic (sh_panic_requested sh)) (\<lambda>requested.
        if \<not> requested then sret False else atomic (sh_swap_panic_requested sh False)))"

definition latch_terminal_trigger :: "terminal_trigger \<Rightarrow> (('w, 't) worker, 'e, unit) smethod" where
  "latch_terminal_trigger trigger = supdate (\<lambda>s. s\<lparr>wk_terminal_trigger :=
     (case wk_terminal_trigger s of Some t \<Rightarrow> Some t | None \<Rightarrow> Some trigger)\<rparr>)"

text \<open>The result is whether the loop must exit.\<close>

definition process_command_control :: "'w shared \<Rightarrow> (('w, 't) worker, 'e failure, bool) smethod" where
  "process_command_control sh =
     sbind (in_world (is_expired sh)) (\<lambda>expired.
     if expired then sbind (latch_terminal_trigger TriggerSupervisorLeaseExpired) (\<lambda>_. sret True)
     else sbind (in_world (system_suspend_terminal sh)) (\<lambda>suspended.
       if suspended then sbind (latch_terminal_trigger TriggerSystemSuspend) (\<lambda>_. sret True)
       else sbind (in_world (or_else (atomic (sh_quit_requested sh)) (atomic (sh_skip_requested sh)))) (\<lambda>command_exit.
         if command_exit
         then sbind (in_world (atomic (sh_skip_requested sh))) (\<lambda>skip.
           sbind (latch_terminal_trigger (if skip then TriggerSkip else TriggerQuit)) (\<lambda>_. sret True))
         else sbind (in_world (consume_panic_request_if_pending sh command_exit)) (\<lambda>panic.
           if panic
           then sbind (in_world (is_expired sh)) (\<lambda>expired.
             sbind (latch_terminal_trigger (if expired then TriggerSupervisorLeaseExpired else TriggerPanicReleaseRequested))
               (\<lambda>_. sret True))
           else sret False))))"

section \<open>Waiting\<close>

datatype wait_boundary = BoundaryDue qpc_ticks | BoundaryReplan | BoundaryExit

definition set_terminal_error :: "'t \<Rightarrow> (('w, 't) worker, 'e, unit) smethod" where
  "set_terminal_error error = supdate (\<lambda>s. s\<lparr>wk_terminal_error := Some error\<rparr>)"

definition record_wait_failure :: "wait_failure \<Rightarrow> ('w loop_worker, 'e, unit) smethod" where
  "record_wait_failure failure = set_terminal_error (WaitFailureMessage failure)"

definition wait_for_next_boundary ::
  "('w, 'x) environment \<Rightarrow> qpc_ticks option \<Rightarrow> duration_ticks \<Rightarrow> ('w loop_worker, 'e failure, wait_boundary) smethod" where
  "wait_for_next_boundary env physical_target_qpc spin_threshold_ticks =
     (case physical_target_qpc of
        None \<Rightarrow> sret BoundaryExit
      | Some target_qpc \<Rightarrow>
          sbind (in_world (atomic (os_now (en_os env)))) (\<lambda>sample.
          case sample of
            Inl error \<Rightarrow> sbind (set_terminal_error (WaitQpcFailure error)) (\<lambda>_. sret BoundaryExit)
          | Inr target_sample_ticks \<Rightarrow>
              if target_sample_ticks \<ge> target_qpc then sret (BoundaryDue target_sample_ticks)
              else (case qpc_checked_duration_since target_qpc target_sample_ticks of
                Inl error \<Rightarrow> sbind (set_terminal_error (PlannedWaitFailure error)) (\<lambda>_. sret BoundaryExit)
              | Inr _ \<Rightarrow>
                  sbind (in_world (atomic (en_wait env target_qpc spin_threshold_ticks))) (\<lambda>wait_result.
                  case wr_outcome wait_result of
                    WaitDeadline \<Rightarrow>
                      sret (BoundaryDue (case wr_wake_qpc wait_result of Some wake \<Rightarrow> wake | None \<Rightarrow> target_qpc))
                  | WaitFailed failure \<Rightarrow> sbind (record_wait_failure failure) (\<lambda>_. sret BoundaryExit)
                  | WaitInterrupted \<Rightarrow> sret BoundaryReplan))))"

section \<open>Suspension\<close>

definition release_outcome_verified :: "release_all_outcome \<Rightarrow> bool" where
  "release_outcome_verified release \<longleftrightarrow>
     ra_released_successfully release \<and> ra_stuck_mask release = 0 \<and> \<not> ra_verification_inconclusive release"

definition release_state_verified :: "tracked_key_state \<Rightarrow> release_all_outcome \<Rightarrow> bool" where
  "release_state_verified backend release \<longleftrightarrow> release_outcome_verified release \<and> release_obligation_mask backend = 0"

text \<open>The description of a release lists the scan codes of the stuck keys.\<close>

definition describe_release_outcome ::
  "(bool \<Rightarrow> u16 list \<Rightarrow> bool \<Rightarrow> 'b) \<Rightarrow> release_all_outcome \<Rightarrow> (('w, 't) worker, 'e failure, 'b) smethod" where
  "describe_release_outcome describe release =
     sread (\<lambda>s. rbind (profile_scan_codes_from_mask (tk_profile (wk_backend s)) (ra_stuck_mask release)) (\<lambda>codes.
       Inr (describe (ra_released_successfully release) codes (ra_verification_inconclusive release))))"

definition recovery_matches_frame :: "pending_up_recovery \<Rightarrow> bool" where
  "recovery_matches_frame pending \<longleftrightarrow>
     (let frame = pc_frame (pr_authored_commit pending); boundary = pr_boundary pending in
      bs_first_batch_index boundary = pf_first_batch_index frame \<and> bs_packet_index boundary = pf_packet_index frame \<and>
      bs_packet_batch_count boundary = pf_packet_batch_count frame \<and> bs_down_mask boundary = pf_down_mask frame \<and>
      bs_up_mask boundary AND pf_immediate_up_mask frame = pf_immediate_up_mask frame \<and>
      bs_down_mask boundary \<noteq> 0 \<and> is_missed (pr_admission pending))"

definition resolve_pending_miss ::
  "time_arithmetic_error + timeline_ticks \<Rightarrow> (('w, 't) worker, suspension_error failure, unit) smethod" where
  "resolve_pending_miss effective_now_ticks =
     sbind (sread (\<lambda>s. Inr (wk_pending_up_recovery s))) (\<lambda>pending.
     case pending of
       None \<Rightarrow> sret ()
     | Some pending \<Rightarrow>
         if \<not> recovery_matches_frame pending then sfail (Err PendingMissMismatch)
         else sbind (orelse SuspensionClockFailure effective_now_ticks) (\<lambda>effective_now.
           let commit = pr_authored_commit pending; frame = pc_frame commit in
           in_coordinator SuspensionMissCommitFailure
             (commit_prepared_authored_frame_deadline_miss commit (pf_immediate_up_mask frame) (pf_down_mask frame) effective_now)))"

definition establish_barrier :: "qpc_ticks \<Rightarrow> (('w, 't) worker, suspension_error failure, unit) smethod" where
  "establish_barrier cleanup_completed_qpc =
     sbind (sread (\<lambda>s. Inr (wk_physical_timing_guard s))) (\<lambda>guard.
     case guard of
       None \<Rightarrow> sfail (Err GuardMissingAfterCleanup)
     | Some g \<Rightarrow> zoom (\<lambda>_. g) (\<lambda>g s. s\<lparr>wk_physical_timing_guard := Some g\<rparr>)
         (renamed (map_failure ResumeBarrierFailed) (establish_resume_down_barrier cleanup_completed_qpc)))"

definition suspend_live_input ::
  "('w, 'x) platform \<Rightarrow> time_arithmetic_error + timeline_ticks \<Rightarrow> u64 \<Rightarrow> (('w, 't) worker, suspension_error failure, usize) smethod" where
  "suspend_live_input os effective_now_ticks target_hwnd =
     sbind invalidate_down_authorization (\<lambda>_.
     sbind invalidate_guard (\<lambda>_.
     sbind (in_backend (release_all os target_hwnd)) (\<lambda>release.
     sbind (sread (\<lambda>s. Inr (release_state_verified (wk_backend s) release))) (\<lambda>verified.
     if \<not> verified
     then sbind (describe_release_outcome ReleaseVerificationFailed release) (\<lambda>e. sfail (Err e))
     else sbind (qpc_sample os ResumeBarrierQpcFailure) (\<lambda>cleanup_completed_qpc.
       sbind (establish_barrier cleanup_completed_qpc) (\<lambda>_.
       sbind (debug_assert (\<lambda>s. release_state_verified (wk_backend s) release)) (\<lambda>_.
       sbind (resolve_pending_miss effective_now_ticks) (\<lambda>_.
       sbind (in_coordinator LiveCancellationFailure cancel_live_generations_after_verified_resumable_cleanup) (\<lambda>cancelled.
       sbind invalidate_down_authorization (\<lambda>_.
       sbind (supdate (\<lambda>s. s\<lparr>wk_pending_up_recovery := None\<rparr>)) (\<lambda>_. sret cancelled)))))))))))"

section \<open>Focus\<close>

definition startup_focus_loss_is_terminal :: "bool \<Rightarrow> bool \<Rightarrow> bool" where
  "startup_focus_loss_is_terminal focus_ok musical_physical_commit_started \<longleftrightarrow> \<not> focus_ok \<and> \<not> musical_physical_commit_started"

definition preroll_manual_pause_cancels :: "bool \<Rightarrow> bool \<Rightarrow> bool" where
  "preroll_manual_pause_cancels manual_pause musical_physical_commit_started \<longleftrightarrow>
     manual_pause \<and> \<not> musical_physical_commit_started"

text \<open>The effective time a suspension is given, still a fallible value.\<close>

definition lifecycle_effective_now ::
  "qpc_ticks \<Rightarrow> (('w, 't) worker, 'e, time_arithmetic_error + timeline_ticks) smethod" where
  "lifecycle_effective_now now_ticks =
     sread (\<lambda>s. Inr (get_elapsed_allow_pre_epoch (wk_playback s) now_ticks (wk_allow_pre_epoch_startup_dispatch s)))"

definition suspend_live_input_for_dispatch ::
  "('w, 'x) environment \<Rightarrow> (suspension_error \<Rightarrow> loop_error) \<Rightarrow> qpc_ticks \<Rightarrow> u64 \<Rightarrow> ('w, unit) faulty_op" where
  "suspend_live_input_for_dispatch env reason now_ticks target_hwnd =
     sbind (lifecycle_effective_now now_ticks) (\<lambda>effective_now.
     sbind (renamed (map_failure reason) (suspend_live_input (en_os env) effective_now target_hwnd)) (\<lambda>_.
     supdate (\<lambda>s. s\<lparr>wk_manual_pause_suspension_pending := False\<rparr>)))"

definition preflight_worker ::
  "('w, 'x) environment \<Rightarrow> (preflight_error \<Rightarrow> 'e) \<Rightarrow> target_stamp \<Rightarrow> (('w, 't) worker, 'e failure, unit) smethod" where
  "preflight_worker env reason target_stamp s =
     zoom (\<lambda>s. (wk_verified_target s, wk_world s)) (\<lambda>(v, w) s. s\<lparr>wk_verified_target := v, wk_world := w\<rparr>)
       (renamed (map_failure reason) (ensure_preflight_for_target (en_os env) (tk_profile (wk_backend s)) target_stamp)) s"

definition restart_restore :: "('w, 'a) loop_op" where
  "restart_restore = sbind (supdate (\<lambda>s. s\<lparr>wk_verified_target := None, wk_focus_restore_started_ticks := None\<rparr>))
     (\<lambda>_. continue_loop)"

definition give_up_target :: "('w, 'a) loop_op" where
  "give_up_target = sbind forget_target (\<lambda>_. sbind invalidate_down_authorization (\<lambda>_. continue_loop))"

definition stamp_or :: "('w, target_stamp) loop_op \<Rightarrow> target_stamp option \<Rightarrow> ('w, target_stamp) loop_op" where
  "stamp_or otherwise stamp = (case stamp of Some t \<Rightarrow> sret t | None \<Rightarrow> otherwise)"

text \<open>The keys are released and checked again before focus is given back.\<close>

definition prepare_restore ::
  "('w, 'x) environment \<Rightarrow> qpc_ticks \<Rightarrow> bool \<Rightarrow> target_stamp \<Rightarrow> ('w, unit) loop_op" where
  "prepare_restore env now_ticks manual_pause_active preflight_target =
     (let suspend = or_break_forgetting (suspend_live_input_for_dispatch env FocusRestorationFailed now_ticks (ts_hwnd preflight_target)) in
      if \<not> manual_pause_active
      then sbind suspend (\<lambda>_. or_break_forgetting (preflight_worker env FocusPreflightFailed preflight_target))
      else sbind (sread (\<lambda>s. Inr (wk_manual_pause_suspension_pending s))) (\<lambda>pending. if pending then suspend else sret ()))"

definition restore_focus ::
  "('w, 'x) environment \<Rightarrow> worker_config \<Rightarrow> qpc_ticks \<Rightarrow> bool \<Rightarrow> ('w, unit) loop_op" where
  "restore_focus env config now_ticks manual_pause =
     (let os = en_os env; sh = en_shared env; require = cf_require_focus config in
     sbind (in_world (load_target_stamp sh)) (\<lambda>stamp.
     sbind (stamp_or restart_restore stamp) (\<lambda>preflight_target.
     sbind (sread (\<lambda>s. Inr (manual_pause \<or> clock_has_pause_reason (wk_playback s) Manual))) (\<lambda>manual_pause_active.
     sbind forget_target (\<lambda>_.
     sbind (in_world (and_then (focus_matches_hwnd os sh require (ts_hwnd preflight_target))
        (target_stamp_still_current sh preflight_target))) (\<lambda>valid.
     if \<not> valid then sbind invalidate_guard (\<lambda>_. restart_restore)
     else sbind (prepare_restore env now_ticks manual_pause_active preflight_target) (\<lambda>_.
       sbind (in_world (load_target_stamp sh)) (\<lambda>stamp.
       sbind (stamp_or restart_restore stamp) (\<lambda>post_restore_target.
       sbind (in_world (and_then (focus_matches_hwnd os sh require (ts_hwnd post_restore_target))
          (target_stamp_still_current sh preflight_target))) (\<lambda>valid.
       if \<not> valid \<or> post_restore_target \<noteq> preflight_target then restart_restore
       else sbind (qpc_ticks_or_terminal env) (\<lambda>resumed_ticks.
         sbind (or_break_forgetting (in_playback LoopClockFailure (exit_pause Focus resumed_ticks))) (\<lambda>_.
         sbind (in_world (atomic (sh_desired_pause sh))) (\<lambda>pausing.
         sbind (if pausing then forget_target else sret ()) (\<lambda>_.
         sbind (supdate (\<lambda>s. s\<lparr>wk_focus_restore_started_ticks := None\<rparr>)) (\<lambda>_.
         sbind (qpc_us_or_terminal env) (\<lambda>_. sret ()))))))))))))))))"

definition focus_phase ::
  "('w, 'x) environment \<Rightarrow> worker_config \<Rightarrow> qpc_ticks \<Rightarrow> bool \<Rightarrow> bool \<Rightarrow> ('w, unit) loop_op" where
  "focus_phase env config now_ticks focus_ok manual_pause =
     (if \<not> focus_ok
      then sbind (or_break (enter_focus_pause LoopClockFailure now_ticks)) (\<lambda>entered.
        if entered then sbind (qpc_us_or_terminal env) (\<lambda>_. sret ()) else sret ())
      else sbind (sread (\<lambda>s. Inr (clock_has_pause_reason (wk_playback s) Focus))) (\<lambda>paused.
        if \<not> paused then sret ()
        else sbind (supdate (\<lambda>s. s\<lparr>wk_focus_restore_started_ticks :=
               (case wk_focus_restore_started_ticks s of Some t \<Rightarrow> Some t | None \<Rightarrow> Some now_ticks)\<rparr>)) (\<lambda>_.
          sbind (sread (\<lambda>s. ok_or (wk_focus_restore_started_ticks s) Panic)) (\<lambda>restored_at.
          sbind (or_break (orelse FocusGraceClockFailure (qpc_checked_duration_since now_ticks restored_at))) (\<lambda>elapsed.
          if elapsed \<ge> cf_focus_restore_grace_ticks config then restore_focus env config now_ticks manual_pause else sret ())))))"

section \<open>Manual pause\<close>

definition enter_manual_pause :: "('w, 'x) environment \<Rightarrow> qpc_ticks \<Rightarrow> ('w, unit) loop_op" where
  "enter_manual_pause env now_ticks =
     sbind invalidate_down_authorization (\<lambda>_.
     sbind forget_target (\<lambda>_.
     sbind (sread (\<lambda>s. Inr (clock_is_paused (wk_playback s), clock_has_pause_reason (wk_playback s) Focus))) (\<lambda>(paused, focus).
     sbind (if \<not> paused
       then sbind (in_world (hwnd_for_safety_release (en_shared env))) (\<lambda>hwnd.
         sbind (or_break (suspend_live_input_for_dispatch env ManualPauseSuspensionFailed now_ticks hwnd)) (\<lambda>_.
         sbind (qpc_us_or_terminal env) (\<lambda>_. sret ())))
       else if focus then supdate (\<lambda>s. s\<lparr>wk_manual_pause_suspension_pending := True\<rparr>)
       else sret ()) (\<lambda>_.
     sbind (or_break (in_playback LoopClockFailure (enter_pause Manual now_ticks))) (\<lambda>_. sret ())))))"

definition leave_manual_pause :: "('w, 'x) environment \<Rightarrow> worker_config \<Rightarrow> qpc_ticks \<Rightarrow> ('w, unit) loop_op" where
  "leave_manual_pause env config now_ticks =
     (let os = en_os env; sh = en_shared env in
     sbind (sread (\<lambda>s. Inr (wk_manual_pause_suspension_pending s))) (\<lambda>pending.
     sbind (if pending
       then sbind (in_world (hwnd_for_safety_release sh)) (\<lambda>hwnd.
         or_break (suspend_live_input_for_dispatch env ManualResumeSuspensionFailed now_ticks hwnd))
       else sret ()) (\<lambda>_.
     sbind (in_world (load_target_stamp sh)) (\<lambda>stamp.
     sbind (stamp_or give_up_target stamp) (\<lambda>preflight_target.
     sbind (or_break_forgetting (preflight_worker env ManualPreflightFailed preflight_target)) (\<lambda>_.
     sbind (in_world (and_then (focus_matches_hwnd os sh (cf_require_focus config) (ts_hwnd preflight_target))
        (target_stamp_still_current sh preflight_target))) (\<lambda>valid.
     if \<not> valid then sbind forget_target (\<lambda>_. continue_loop)
     else sbind (qpc_ticks_or_terminal env) (\<lambda>resumed_ticks.
       sbind (or_break_forgetting (in_playback LoopClockFailure (exit_pause Manual resumed_ticks))) (\<lambda>_. sret ())))))))))"

definition manual_phase ::
  "('w, 'x) environment \<Rightarrow> worker_config \<Rightarrow> qpc_ticks \<Rightarrow> bool \<Rightarrow> ('w, unit) loop_op" where
  "manual_phase env config now_ticks manual_pause =
     sbind (sread (\<lambda>s. Inr (clock_has_pause_reason (wk_playback s) Manual, clock_has_pause_reason (wk_playback s) Focus)))
       (\<lambda>(manual, focus).
     if manual_pause \<and> \<not> manual then enter_manual_pause env now_ticks
     else if \<not> manual_pause \<and> manual
     then (if \<not> focus then leave_manual_pause env config now_ticks else forget_target)
     else sret ())"

text \<open>While the playback is paused the loop only polls.\<close>

definition paused_phase :: "('w, 'x) environment \<Rightarrow> worker_config \<Rightarrow> qpc_ticks \<Rightarrow> ('w, unit) loop_op" where
  "paused_phase env config now_ticks =
     sbind (sread (\<lambda>s. Inr (clock_is_paused (wk_playback s)))) (\<lambda>paused.
     if \<not> paused then sret ()
     else sbind (or_break (orelse PauseDeadlineFailure (qpc_checked_add_duration now_ticks (cf_paused_poll_ticks config)))) (\<lambda>pause_target.
       sbind (in_world (atomic (en_wait env pause_target (DurationTicks 0)))) (\<lambda>wait_result.
       case wr_outcome wait_result of
         WaitFailed failure \<Rightarrow> sbind (record_wait_failure failure) (\<lambda>_. sfail (Err LoopBreak))
       | _ \<Rightarrow> continue_loop)))"

section \<open>The prepared stream\<close>

text \<open>A step that ends the loop, and the one that goes on.\<close>

definition after_step :: "dispatch_step \<Rightarrow> ('w, unit) loop_op \<Rightarrow> ('w, unit) loop_op" where
  "after_step step no_work =
     (case step of
        Dispatched \<Rightarrow> continue_loop
      | StepContinue \<Rightarrow> continue_loop
      | StepNoWork \<Rightarrow> no_work
      | Terminate reason \<Rightarrow> break_with (StepFailed reason)
      | TerminateStatic message \<Rightarrow> break_with (StaticError message))"

definition advance_stream :: "('w, dispatch_step) loop_op" where
  "advance_stream s =
     (case wk_prepared_stream s of
        None \<Rightarrow> (Inr Dispatched, s)
      | Some stream \<Rightarrow>
          (case stream_advance stream of
             (Inr _, stream') \<Rightarrow> (Inr Dispatched, s\<lparr>wk_prepared_stream := Some stream'\<rparr>)
           | (Inl message, stream') \<Rightarrow> (Inr (TerminateStatic message), s\<lparr>wk_prepared_stream := Some stream'\<rparr>)))"

text \<open>The target a press is prepared for; \<open>None\<close> for a packet without presses.\<close>

definition preflight_frame ::
  "('w, 'x) environment \<Rightarrow> authored_batch_view \<Rightarrow> ('w, target_stamp option) loop_op" where
  "preflight_frame env view =
     (let sh = en_shared env in
      if pkt_down_mask (av_packet_masks view) = 0 then sret None
      else sbind (in_world (load_target_stamp sh)) (\<lambda>stamp.
        sbind (stamp_or give_up_target stamp) (\<lambda>target_stamp.
        sbind (or_break_forgetting (preflight_worker env PreparedPreflightFailed target_stamp)) (\<lambda>_.
        sbind (in_world (target_stamp_still_current sh target_stamp)) (\<lambda>unchanged.
        if \<not> unchanged then give_up_target else sret (Some target_stamp))))))"

definition dispatch_prepared_metadata :: "prepared_authored_commit \<Rightarrow> ('w, unit) loop_op" where
  "dispatch_prepared_metadata commit =
     sbind (or_break (in_coordinator PreparedMetadataFailure (commit_prepared_authored_frame_metadata_frozen commit))) (\<lambda>_.
     sbind advance_stream (\<lambda>step. after_step step continue_loop))"

definition dispatch_prepared_physical ::
  "('w, 'x) environment \<Rightarrow> worker_config \<Rightarrow> authored_batch_view \<Rightarrow> target_stamp option \<Rightarrow> qpc_ticks \<Rightarrow> ('w, unit) loop_op" where
  "dispatch_prepared_physical env config view preflight_target target_qpc =
     (if authored_commit_of (av_commit view) = None
      then break_with (StaticError ''prepared physical frame has no authored cancellation identity'')
      else sbind (or_break (validate_identity PreparedIdentityFailure (av_commit view))) (\<lambda>_.
        sbind (at_step (dispatch_prepared_normal_frame (en_os env) (en_shared env) config view preflight_target target_qpc)) (\<lambda>step.
        sbind (if step = Dispatched then advance_stream else sret step) (\<lambda>step.
        after_step step (break_with (StaticError ''prepared frame did not complete its dispatch step''))))))"

text \<open>The wait for a boundary: the time of its dispatch.\<close>

definition wait_prepared ::
  "('w, 'x) environment \<Rightarrow> worker_config \<Rightarrow> bool \<Rightarrow> qpc_ticks \<Rightarrow> qpc_ticks \<Rightarrow> ('w, qpc_ticks) loop_op" where
  "wait_prepared env config has_physical wait_target_qpc now_ticks =
     (if wait_target_qpc \<le> now_ticks then sret now_ticks
      else sbind (wait_for_next_boundary env (Some wait_target_qpc)
             (if has_physical then cf_effective_spin_threshold_ticks config else DurationTicks 0)) (\<lambda>boundary.
        case boundary of
          BoundaryDue dispatch_qpc \<Rightarrow> sret dispatch_qpc
        | BoundaryReplan \<Rightarrow> sbind (in_world (atomic (en_try_take_interrupt env))) (\<lambda>_. continue_loop)
        | BoundaryExit \<Rightarrow> sfail (Err LoopBreak)))"

definition prepared_window ::
  "prepared_dispatch_entry \<Rightarrow> qpc_ticks \<Rightarrow> ('w, physical_timing_window option) faulty_op" where
  "prepared_window entry authored_target_qpc =
     (case entry of
        PhysicalEntry view \<Rightarrow> sread (\<lambda>s. map_err (map_failure StepFailed) (rbind
          (physical_timing_window_for_packet (wk_physical_timing_guard s) authored_target_qpc (av_packet_masks view))
          (\<lambda>window. Inr (Some window))))
      | MetadataEntry _ _ \<Rightarrow> sret None)"

definition prepared_phase ::
  "('w, 'x) environment \<Rightarrow> worker_config \<Rightarrow> qpc_ticks \<Rightarrow> ('w, unit) loop_op" where
  "prepared_phase env config now_ticks =
     sbind (sread (\<lambda>s. Inr (Option.bind (wk_prepared_stream s) stream_current))) (\<lambda>current.
     case current of
       None \<Rightarrow> sret ()
     | Some entry \<Rightarrow>
         let offset_ticks = (case entry of
               PhysicalEntry view \<Rightarrow> pb_effective_scheduled_ticks (av_prepared_batch view) | MetadataEntry ticks _ \<Rightarrow> ticks);
             has_physical = (case entry of PhysicalEntry _ \<Rightarrow> True | MetadataEntry _ _ \<Rightarrow> False) in
         sbind (or_break (sread (\<lambda>s. map_err (\<lambda>e. Err (PreparedTargetFailure e))
           (qpc_checked_add_duration (clock_epoch (wk_playback s)) (DurationTicks (timeline_u64 offset_ticks)))))) (\<lambda>target_qpc.
         sbind (case entry of PhysicalEntry view \<Rightarrow> preflight_frame env view | MetadataEntry _ _ \<Rightarrow> sret None) (\<lambda>preflight_target.
         sbind (or_break (prepared_window entry target_qpc)) (\<lambda>window.
         let wait_target_qpc = (case window of Some w \<Rightarrow> pw_packet_not_before_qpc w | None \<Rightarrow> target_qpc) in
         sbind (wait_prepared env config has_physical wait_target_qpc now_ticks) (\<lambda>dispatch_qpc.
         sbind (or_break (sread (\<lambda>s. map_err (\<lambda>e. Err (PreparedClockFailure e))
           (get_elapsed_allow_pre_epoch (wk_playback s) dispatch_qpc True)))) (\<lambda>_.
         case entry of
           MetadataEntry _ commit \<Rightarrow> dispatch_prepared_metadata commit
         | PhysicalEntry view \<Rightarrow> dispatch_prepared_physical env config view preflight_target target_qpc))))))"

definition prepared_stream_requires_terminal :: "prepared_dispatch_stream option \<Rightarrow> bool \<Rightarrow> bool" where
  "prepared_stream_requires_terminal prepared_stream coordinator_finished \<longleftrightarrow>
     (case prepared_stream of Some stream \<Rightarrow> is_exhausted stream | None \<Rightarrow> False) \<and> \<not> coordinator_finished"

section \<open>The planner\<close>

definition stale_phase :: "('w, unit) loop_op" where
  "stale_phase =
     sbind (or_break (sread (\<lambda>s. map_err (map_failure StalePreparationFailure) (prepare_current_stale_packet (wk_coordinator s))))) (\<lambda>stale.
     case stale of
       None \<Rightarrow> sret ()
     | Some prepared \<Rightarrow>
         sbind (at_step (dispatch_stale_packet prepared)) (\<lambda>step.
         if step = StepContinue
         then break_with (StaticError ''stale packet did not complete its metadata commit'')
         else after_step step (break_with (StaticError ''stale packet did not complete its metadata commit''))))"

definition plan_phase :: "('w, 'x) environment \<Rightarrow> qpc_ticks \<Rightarrow> ('w, next_dispatch_plan) loop_op" where
  "plan_phase env now_ticks =
     sbind (or_break (sread (\<lambda>s. if now_ticks < clock_epoch (wk_playback s) then Inr (TimelineTicks 0)
       else map_err (\<lambda>e. Err (LoopClockFailure e)) (get_elapsed_allow_pre_epoch (wk_playback s) now_ticks False)))) (\<lambda>_.
     sbind (or_break (sread (\<lambda>s. map_err (map_failure PlanningFailure)
       (plan_next_dispatch_projected (wk_coordinator s) (clock_epoch (wk_playback s)) (tk_profile (wk_backend s)))))) (\<lambda>plan.
     sbind (or_break (renamed (map_failure (\<lambda>step. case step of Terminate reason \<Rightarrow> StepFailed reason
         | _ \<Rightarrow> StaticError ''unexpected preflight preparation outcome''))
       (preflight_prepared_plan (en_os env) (en_shared env) plan))) (\<lambda>ready_plan.
     case ready_plan of Some plan \<Rightarrow> sret plan | None \<Rightarrow> continue_loop)))"

definition wait_phase ::
  "('w, 'x) environment \<Rightarrow> worker_config \<Rightarrow> next_dispatch_plan \<Rightarrow> ('w, unit) loop_op" where
  "wait_phase env config plan =
     sbind (or_break (sread (\<lambda>s. map_err (map_failure StepFailed) (physical_wait_target_for_plan plan s)))) (\<lambda>wait_target.
     sbind (wait_for_next_boundary env wait_target
        (case plan of PhysicalPlan _ \<Rightarrow> cf_effective_spin_threshold_ticks config | _ \<Rightarrow> DurationTicks 0)) (\<lambda>boundary.
     case boundary of
       BoundaryExit \<Rightarrow> sfail (Err LoopBreak)
     | BoundaryReplan \<Rightarrow>
         if plan_deadline_ticks plan = None then break_with (StaticError ''replan wait result without a dispatch deadline'')
         else sbind (in_world (atomic (en_try_take_interrupt env))) (\<lambda>_. continue_loop)
     | BoundaryDue dispatch_qpc \<Rightarrow>
         if plan_deadline_ticks plan = None then break_with (StaticError ''wait returned a result without a dispatch deadline'')
         else sbind (or_break (sread (\<lambda>s. map_err (\<lambda>e. Err (WakeClockFailure e))
             (get_elapsed_allow_pre_epoch (wk_playback s) dispatch_qpc True)))) (\<lambda>_.
           sbind (at_step (dispatch_due_from_plan (en_os env) (en_shared env) config plan dispatch_qpc (Some dispatch_qpc) True)) (\<lambda>step.
           after_step step continue_loop))))"

section \<open>The loop\<close>

definition iteration :: "('w, 'x) environment \<Rightarrow> worker_config \<Rightarrow> ('w, unit) loop_op" where
  "iteration env config =
     (let sh = en_shared env in
     sbind (process_command_control sh) (\<lambda>exit.
     if exit then sfail (Err LoopBreak)
     else sbind (qpc_ticks_or_terminal env) (\<lambda>now_ticks.
       sbind (in_world (focus_matches sh (cf_require_focus config))) (\<lambda>focus_ok.
       sbind (sread (\<lambda>s. Inr (wk_musical_physical_commit_started s))) (\<lambda>started.
       if startup_focus_loss_is_terminal focus_ok started then break_with (StaticError ''focus_lost_during_preroll'')
       else sbind (in_world (atomic (sh_desired_pause sh))) (\<lambda>manual_pause.
         if preroll_manual_pause_cancels manual_pause started then break_with (StaticError ''manual_pause_during_preroll'')
         else sbind (focus_phase env config now_ticks focus_ok manual_pause) (\<lambda>_.
           sbind (manual_phase env config now_ticks manual_pause) (\<lambda>_.
           sbind (paused_phase env config now_ticks) (\<lambda>_.
           sbind (prepared_phase env config now_ticks) (\<lambda>_.
           sbind (sread (\<lambda>s. Inr (prepared_stream_requires_terminal (wk_prepared_stream s) (is_finished (wk_coordinator s))))) (\<lambda>fallback.
           if fallback
           then break_with (StaticError ''prepared stream exhausted before coordinator finished; dynamic planner fallback is forbidden'')
           else sbind stale_phase (\<lambda>_.
             sbind (plan_phase env now_ticks) (\<lambda>plan.
             sbind (at_step (dispatch_due_from_plan (en_os env) sh config plan now_ticks None False)) (\<lambda>step.
             after_step step (wait_phase env config plan)))))))))))))))"

text \<open>The loop may run for ever; then it has no value. A panic inside is caught and ends it.\<close>

partial_function (option) dispatch_loop ::
  "('w, 'x) environment \<Rightarrow> worker_config \<Rightarrow> 'w loop_worker \<Rightarrow> (bool \<times> 'w loop_worker) option" where
  "dispatch_loop env config s =
     (if is_finished (wk_coordinator s) then Some (False, s)
      else (case iteration env config s of
        (Inl (Err LoopBreak), t) \<Rightarrow> Some (False, t)
      | (Inl Panic, t) \<Rightarrow> Some (True, t)
      | (_, t) \<Rightarrow> dispatch_loop env config t))"

text \<open>The result is whether the worker panicked.\<close>

definition dispatch ::
  "('w, 'x) environment \<Rightarrow> worker_config \<Rightarrow> 'w loop_worker \<Rightarrow> (bool \<times> 'w loop_worker) option" where
  "dispatch env config s = (if wk_terminal_error s \<noteq> None then Some (False, s) else dispatch_loop env config s)"

end
