(* ===== verification/Sky_Finish.thy ===== *)
theory Sky_Finish
  imports Sky_Loop
begin

unbundle bit_operations_syntax

text \<open>
  The end of a session (\<open>sky_player/src/engine/worker/cleanup.rs: finalize_worker\<close> and the run of
  \<open>orchestration.rs\<close>): the terminal release of the keys, the audits around the cancellation of the ledger,
  the trigger that names the reason, and the outcome code. The error the observer thread reports is an
  argument; published metrics, telemetry and processor times are left out.
\<close>

section \<open>Completion\<close>

definition OUTCOME_FINISHED :: u8 where "OUTCOME_FINISHED = 1"
definition OUTCOME_QUIT :: u8 where "OUTCOME_QUIT = 2"
definition OUTCOME_SKIPPED :: u8 where "OUTCOME_SKIPPED = 3"
definition OUTCOME_ERROR :: u8 where "OUTCOME_ERROR = 4"
definition OUTCOME_SYSTEM_SUSPENDED :: u8 where "OUTCOME_SYSTEM_SUSPENDED = 5"

definition clean_generation_accounting_proven :: "generation_accounting \<Rightarrow> bool" where
  "clean_generation_accounting_proven counts \<longleftrightarrow>
     ga_total counts = ga_activated counts \<and> ga_total counts = ga_released counts \<and>
     ga_scheduled counts = 0 \<and> ga_active counts = 0 \<and> ga_dropped_conflict counts = 0 \<and>
     ga_dropped_backend counts = 0 \<and> ga_dropped_expired counts = 0 \<and> ga_cancelled counts = 0"

definition clean_completion_proven :: "coordinator \<Rightarrow> tracked_key_state \<Rightarrow> 'e failure + bool" where
  "clean_completion_proven coordinator backend =
     rbind (generation_accounting_of coordinator) (\<lambda>counts.
     Inr (clean_generation_accounting_proven counts \<and> release_obligation_mask backend = 0 \<and>
       tk_keys_dropped backend = 0 \<and> tk_chord_split_events backend = 0 \<and> tk_sendinput_partial_events backend = 0 \<and>
       tk_sendinput_zero_progress_failures backend = 0 \<and> tk_authored_keys_rejected backend = 0))"

definition record_termination_error :: "'t \<Rightarrow> (('w, 't) worker, 'e, unit) smethod" where
  "record_termination_error error = supdate (\<lambda>s.
     if wk_terminal_error s = None then s\<lparr>wk_terminal_error := Some error\<rparr>
     else if wk_terminal_error s \<noteq> Some error \<and> error \<notin> set (wk_secondary_errors s)
     then s\<lparr>wk_secondary_errors := wk_secondary_errors s @ [error]\<rparr> else s)"

section \<open>Triggers\<close>

text \<open>The first reading of the signals, when the loop has left no trigger.\<close>

definition initial_trigger :: "'w shared \<Rightarrow> bool \<Rightarrow> ('w, 'e failure, terminal_trigger option) smethod" where
  "initial_trigger sh worker_panicked =
     sbind (is_expired sh) (\<lambda>expired. if expired then sret (Some TriggerSupervisorLeaseExpired) else
     sbind (system_suspend_terminal sh) (\<lambda>suspended. if suspended then sret (Some TriggerSystemSuspend) else
     sbind (atomic (sh_skip_requested sh)) (\<lambda>skip. if skip then sret (Some TriggerSkip) else
     sbind (atomic (sh_quit_requested sh)) (\<lambda>quit. if quit then sret (Some TriggerQuit) else
     sbind (atomic (sh_panic_requested sh)) (\<lambda>panic. if panic
       then sbind (is_expired sh) (\<lambda>expired.
         sret (Some (if expired then TriggerSupervisorLeaseExpired else TriggerPanicReleaseRequested)))
       else sret (if worker_panicked then Some TriggerWorkerPanic else None))))))"

text \<open>The second reading, after the cleanup: an error trigger stays.\<close>

definition final_trigger :: "'w shared \<Rightarrow> terminal_trigger option \<Rightarrow> ('w, 'e failure, terminal_trigger option) smethod" where
  "final_trigger sh trigger =
     (let kept = (case trigger of Some t \<Rightarrow> requires_error_outcome t | None \<Rightarrow> False) in
     sbind (is_expired sh) (\<lambda>expired. if expired \<and> \<not> kept then sret (Some TriggerSupervisorLeaseExpired) else
     sbind (system_suspend_terminal sh) (\<lambda>suspended. if suspended \<and> \<not> kept then sret (Some TriggerSystemSuspend) else
     sbind (atomic (sh_panic_requested sh)) (\<lambda>panic.
     sret (if panic \<and> \<not> kept then Some TriggerPanicReleaseRequested else trigger)))))"

section \<open>Finalization\<close>

text \<open>The terminal release; a panic inside it is caught. The result is whether there was one.\<close>

definition terminal_release :: "('w, 'x) environment \<Rightarrow> ('w loop_worker, 'e failure, bool) smethod" where
  "terminal_release env =
     sbind (in_world (hwnd_for_safety_release (en_shared env))) (\<lambda>hwnd s.
     case in_backend (release_scope (en_os env) TrackedScope hwnd) s of
       (Inr release, t) \<Rightarrow>
         sbind (if release_state_verified (wk_backend t) release then sret ()
           else sbind (describe_release_outcome TerminalReleaseUnverified release) record_termination_error) (\<lambda>_. sret False) t
     | (Inl (_ :: unit failure), t) \<Rightarrow> sbind (record_termination_error TerminalCleanupPanicked) (\<lambda>_. sret True) t)"

definition note_audit ::
  "(coordinator_invariant_error \<Rightarrow> loop_error) \<Rightarrow> (coordinator \<Rightarrow> unit audit) \<Rightarrow> ('w loop_worker, 'e failure, unit) smethod" where
  "note_audit reason audit s =
     (case audit (wk_coordinator s) of
        Inr _ \<Rightarrow> (Inr (), s)
      | Inl (Err error) \<Rightarrow> record_termination_error (reason error) s
      | Inl Panic \<Rightarrow> (Inl Panic, s))"

definition cancel_ledger :: "('w loop_worker, 'e failure, unit) smethod" where
  "cancel_ledger s =
     (case in_coordinator CancellationFailure cancel_all s of
        (Inr _, t) \<Rightarrow> (Inr (), t)
      | (Inl (Err error), t) \<Rightarrow> record_termination_error error t
      | (Inl Panic, t) \<Rightarrow> (Inl Panic, t))"

text \<open>The contract of a run that ends by itself.\<close>

definition demand_clean_completion :: "'w shared \<Rightarrow> terminal_trigger option \<Rightarrow> ('w loop_worker, 'e failure, unit) smethod" where
  "demand_clean_completion sh trigger =
     sbind (sread (\<lambda>s. Inr (wk_terminal_error s = None \<and> trigger = None))) (\<lambda>silent.
     if \<not> silent then sret ()
     else sbind (in_world (or_else (atomic (sh_skip_requested sh)) (atomic (sh_quit_requested sh)))) (\<lambda>stopped.
       if stopped then sret ()
       else sbind (sread (\<lambda>s. clean_completion_proven (wk_coordinator s) (wk_backend s))) (\<lambda>proven.
         if proven then sret () else set_terminal_error CleanCompletionFailed)))"

text \<open>Without a panic: the reading that times the end, or its failure.\<close>

definition terminal_clock :: "('w, 'x) environment \<Rightarrow> ('w loop_worker, 'e failure, unit) smethod" where
  "terminal_clock env s =
     (case sbind (qpc_sample (en_os env) TerminationQpcFailure) (ticks_to_us TerminationQpcFailure) s of
        (Inr _, t) \<Rightarrow> (Inr (), t)
      | (Inl (Err error), t) \<Rightarrow> record_termination_error error t
      | (Inl Panic, t) \<Rightarrow> (Inl Panic, t))"

text \<open>The outcome code re-reads the stop flags.\<close>

definition outcome_code :: "'w shared \<Rightarrow> bool \<Rightarrow> terminal_trigger option \<Rightarrow> ('w, 'e failure, u8) smethod" where
  "outcome_code sh failed trigger =
     (if failed \<or> (case trigger of Some t \<Rightarrow> requires_error_outcome t | None \<Rightarrow> False) then sret OUTCOME_ERROR
      else if trigger = Some TriggerSystemSuspend then sret OUTCOME_SYSTEM_SUSPENDED
      else sbind (if trigger = Some TriggerSkip then sret True else atomic (sh_skip_requested sh)) (\<lambda>skipped.
        if skipped then sret OUTCOME_SKIPPED
        else sbind (if trigger = Some TriggerQuit then sret True else atomic (sh_quit_requested sh)) (\<lambda>quit.
          sret (if quit then OUTCOME_QUIT else OUTCOME_FINISHED))))"

text \<open>The label of the abort statistics reads the same flags first, with the same conditions.\<close>

definition abort_label :: "'w shared \<Rightarrow> bool \<Rightarrow> terminal_trigger option \<Rightarrow> ('w, 'e failure, u8) smethod" where
  "abort_label sh failed trigger = outcome_code sh failed trigger"

definition finalize_worker ::
  "('w, 'x) environment \<Rightarrow> bool \<Rightarrow> string option \<Rightarrow> ('w loop_worker, 'e failure, u8) smethod" where
  "finalize_worker env worker_panicked observer_error =
     (let sh = en_shared env in
     sbind (sread (\<lambda>s. Inr (wk_terminal_trigger s))) (\<lambda>trigger.
     sbind (if trigger = None then in_world (initial_trigger sh worker_panicked) else sret trigger) (\<lambda>trigger.
     sbind (terminal_release env) (\<lambda>cleanup_panicked.
     sbind (note_audit PreCancelInvariantFailure check_invariants) (\<lambda>_.
     sbind (if worker_panicked then record_termination_error WorkerPanicked else sret ()) (\<lambda>_.
     sbind (demand_clean_completion sh trigger) (\<lambda>_.
     sbind cancel_ledger (\<lambda>_.
     sbind (note_audit PostCleanupInvariantFailure check_post_cleanup_invariants) (\<lambda>_.
     sbind (case observer_error of Some e \<Rightarrow> record_termination_error (ObserverConsumerFailed e) | None \<Rightarrow> sret ()) (\<lambda>_.
     sbind (terminal_clock env) (\<lambda>_.
     sbind (in_world (final_trigger sh trigger)) (\<lambda>trigger.
     sbind (supdate (\<lambda>s. s\<lparr>wk_terminal_trigger := trigger\<rparr>)) (\<lambda>_.
     sbind (sread (\<lambda>s. Inr (wk_terminal_error s \<noteq> None))) (\<lambda>errors.
     let failed = (errors \<or> cleanup_panicked \<or> worker_panicked) in
     sbind (in_world (abort_label sh failed trigger)) (\<lambda>_.
     sbind (sread (\<lambda>s. generation_status_counts (wk_coordinator s))) (\<lambda>_.
     if worker_panicked \<or> cleanup_panicked then sfail Panic
     else in_world (outcome_code sh failed trigger)))))))))))))))))"

text \<open>A session after its initialization: the loop, then the finalization.\<close>

definition run_worker ::
  "('w, 'x) environment \<Rightarrow> worker_config \<Rightarrow> string option \<Rightarrow> 'w loop_worker \<Rightarrow> ((unit failure + u8) \<times> 'w loop_worker) option" where
  "run_worker env config observer_error s =
     (case dispatch env config s of
        None \<Rightarrow> None
      | Some (panicked, t) \<Rightarrow> Some (finalize_worker env panicked observer_error t))"

end
