(* ===== verification/Sky_Worker.thy ===== *)
theory Sky_Worker
  imports Sky_Finish Sky_Keys Sky_Effects
begin

unbundle bit_operations_syntax

text \<open>
  What the suspensions and the end of a session guarantee: a suspension leaves no key down and a ledger that
  can be resumed, and the finalization never reports anything but an error while a key may be held. The
  calculus over operations (\<open>returns\<close>, \<open>runs\<close>, and the frames \<open>held_over\<close> and \<open>settled_over\<close>) follows the
  steps of the code; \<open>shared_quiet\<close> says that other threads press no session key.
\<close>

section \<open>Quiet operations\<close>

text \<open>Accesses to the shared memory press no key.\<close>

definition quiet_access :: "('w \<Rightarrow> u16 set) \<Rightarrow> ('w \<Rightarrow> 'a \<times> 'w) \<Rightarrow> bool" where
  "quiet_access pressed access \<longleftrightarrow> (\<forall>w. pressed (snd (access w)) = pressed w)"

definition shared_quiet :: "'w shared \<Rightarrow> ('w \<Rightarrow> u16 set) \<Rightarrow> bool" where
  "shared_quiet sh pressed \<longleftrightarrow>
     quiet_access pressed (sh_quit_requested sh) \<and> quiet_access pressed (sh_skip_requested sh) \<and>
     quiet_access pressed (sh_panic_requested sh) \<and> (\<forall>b. quiet_access pressed (sh_swap_panic_requested sh b)) \<and>
     quiet_access pressed (sh_desired_pause sh) \<and> quiet_access pressed (sh_focus_active sh) \<and>
     quiet_access pressed (sh_lease_state sh) \<and> (\<forall>old new. quiet_access pressed (sh_lease_compare_exchange sh old new)) \<and>
     quiet_access pressed (sh_startup_state sh) \<and> quiet_access pressed (sh_publication_epoch sh) \<and>
     quiet_access pressed (sh_target_hwnd sh) \<and> quiet_access pressed (sh_target_generation sh) \<and>
     quiet_access pressed (sh_owner_identity_required sh) \<and> quiet_access pressed (sh_owner_generation sh) \<and>
     quiet_access pressed (sh_owner_pid sh) \<and> quiet_access pressed (sh_owner_live sh) \<and>
     quiet_access pressed (sh_owner_failure sh)"

definition still_keys :: "('w \<Rightarrow> u16 set) \<Rightarrow> ('w, 'e, 'a) smethod \<Rightarrow> bool" where
  "still_keys pressed m \<longleftrightarrow> (\<forall>w. pressed (snd (m w)) = pressed w)"

lemma still_atomic: "quiet_access pressed access \<Longrightarrow> still_keys pressed (atomic access)"
  by (simp add: still_keys_def atomic_def quiet_access_def Let_def case_prod_unfold)

lemma still_sret: "still_keys pressed (sret a)"
  by (simp add: still_keys_def)

lemma still_sfail: "still_keys pressed (sfail e)"
  by (simp add: still_keys_def)

lemma still_sbind: "still_keys pressed m \<Longrightarrow> (\<And>a. still_keys pressed (f a)) \<Longrightarrow> still_keys pressed (sbind m f)"
  by (auto simp: still_keys_def sbind_apply split: prod.splits sum.splits) (metis snd_conv)+

lemma still_if: "still_keys pressed m \<Longrightarrow> still_keys pressed n \<Longrightarrow> still_keys pressed (if b then m else n)"
  by simp

lemma still_case_sum:
  "(\<And>e. still_keys pressed (f e)) \<Longrightarrow> (\<And>a. still_keys pressed (g a)) \<Longrightarrow>
   still_keys pressed (case x of Inl e \<Rightarrow> f e | Inr a \<Rightarrow> g a)"
  by (cases x) simp_all

lemma still_renamed: "still_keys pressed m \<Longrightarrow> still_keys pressed (renamed g m)"
  by (simp add: still_keys_def renamed_def case_prod_unfold)

lemmas still_intros = still_sbind still_if still_case_sum still_sret still_sfail still_renamed

lemma still_readings:
  assumes "shared_quiet sh pressed"
  shows "still_keys pressed (is_expired sh)" "still_keys pressed (system_suspend_terminal sh)"
    "still_keys pressed (hwnd_for_safety_release sh)" "still_keys pressed (atomic (sh_quit_requested sh))"
    "still_keys pressed (atomic (sh_skip_requested sh))" "still_keys pressed (atomic (sh_panic_requested sh))"
    "still_keys pressed (atomic (sh_swap_panic_requested sh b))"
  unfolding is_expired_def system_suspend_terminal_def hwnd_for_safety_release_def
  using assms by (intro still_intros still_atomic; simp add: shared_quiet_def)+

lemma still_triggers:
  assumes "shared_quiet sh pressed"
  shows "still_keys pressed (initial_trigger sh panicked)" "still_keys pressed (final_trigger sh trigger)"
    "still_keys pressed (outcome_code sh failed trigger)" "still_keys pressed (abort_label sh failed trigger)"
  unfolding initial_trigger_def final_trigger_def outcome_code_def abort_label_def Let_def
  by (intro still_intros still_readings [OF assms])+

lemma still_qpc:
  assumes "keyboard_ok os pressed"
  shows "still_keys pressed (qpc_now os)"
  unfolding qpc_now_def using assms by (intro still_intros still_atomic) (simp add: quiet_access_def keyboard_ok_def)

section \<open>Frames of the finalization\<close>

text \<open>The keys, the tracked state and a terminal error outlive every step after the release.\<close>

definition held_over :: "('w \<Rightarrow> u16 set) \<Rightarrow> ('w, 't) worker \<Rightarrow> ('w, 't) worker \<Rightarrow> bool" where
  "held_over pressed s t \<longleftrightarrow>
     wk_backend t = wk_backend s \<and> pressed (wk_world t) = pressed (wk_world s) \<and>
     (wk_terminal_error s \<noteq> None \<longrightarrow> wk_terminal_error t \<noteq> None)"

text \<open>And, after the last audit, the ledger too.\<close>

definition settled_over :: "('w \<Rightarrow> u16 set) \<Rightarrow> ('w, 't) worker \<Rightarrow> ('w, 't) worker \<Rightarrow> bool" where
  "settled_over pressed s t \<longleftrightarrow> held_over pressed s t \<and> wk_coordinator t = wk_coordinator s"

interpretation held: frame_preorder "held_over pressed"
  by unfold_locales (auto simp: held_over_def)

interpretation settled: frame_preorder "settled_over pressed"
  by unfold_locales (auto simp: settled_over_def held_over_def)

lemma settled_held: "frames (settled_over pressed) m \<Longrightarrow> frames (held_over pressed) m"
  by (simp add: frames_def settled_over_def)

lemma settled_in_world: "still_keys pressed m \<Longrightarrow> frames (settled_over pressed) (in_world m)"
  by (simp add: frames_def settled_over_def held_over_def in_world_def zoom_def still_keys_def case_prod_unfold)

lemma record_error_settled: "settled_over pressed s (snd (record_termination_error e s))"
  by (auto simp: settled_over_def held_over_def record_termination_error_def)

lemma settled_record_error: "frames (settled_over pressed) (record_termination_error e)"
  by (simp add: frames_def record_error_settled)

lemma settled_note_audit: "frames (settled_over pressed) (note_audit reason audit)"
  by (auto simp: frames_def note_audit_def settled.frame_refl record_error_settled split: sum.splits failure.splits)

lemma settled_clean_demand:
  assumes "shared_quiet sh pressed"
  shows "frames (settled_over pressed) (demand_clean_completion sh trigger)"
  unfolding demand_clean_completion_def
  unfolding or_else_def
  by (intro settled.frame_intros settled_in_world still_intros still_readings [OF assms])
     (auto simp: frames_def settled_over_def held_over_def set_terminal_error_def)

lemma held_cancel_ledger: "frames (held_over pressed) cancel_ledger"
proof (rule framesI)
  fix s :: "'a loop_worker"
  obtain r t where run: "in_coordinator CancellationFailure cancel_all s = (r, t)" by fastforce
  have st: "held_over pressed s t" using run by (auto simp: in_coordinator_def zoom_def held_over_def split: prod.splits)
  note error = record_error_settled [of pressed t, THEN settled_over_def [THEN iffD1], THEN conjunct1]
  show "held_over pressed s (snd (cancel_ledger s))"
    using run st held.frame_trans [OF st error] by (auto simp: cancel_ledger_def split: sum.splits failure.splits)
qed

lemma settled_clock:
  assumes "keyboard_ok (en_os env) pressed"
  shows "frames (settled_over pressed) (terminal_clock env)"
proof (rule framesI)
  fix s :: "'a loop_worker"
  let ?m = "sbind (qpc_sample (en_os env) TerminationQpcFailure) (ticks_to_us TerminationQpcFailure) :: ('a loop_worker, loop_error failure, u64) smethod"
  have "frames (settled_over pressed) ?m"
    unfolding qpc_sample_def ticks_to_us_def by (intro settled.frame_intros settled_in_world still_renamed still_qpc [OF assms])
  moreover obtain r t where run: "?m s = (r, t)" by fastforce
  ultimately have st: "settled_over pressed s t" by (metis frames_def snd_conv)
  show "settled_over pressed s (snd (terminal_clock env s))"
    using run st settled.frame_trans [OF st record_error_settled] by (auto simp: terminal_clock_def split: sum.splits failure.splits)
qed

section \<open>Values of operations\<close>

text \<open>\<open>returns Q m s\<close>: if the operation succeeds from \<open>s\<close>, its value and the state it leaves satisfy \<open>Q\<close>.\<close>

definition returns :: "('a \<Rightarrow> 's \<Rightarrow> bool) \<Rightarrow> ('s, 'e, 'a) smethod \<Rightarrow> 's \<Rightarrow> bool" where
  "returns Q m s \<longleftrightarrow> (\<forall>a t. m s = (Inr a, t) \<longrightarrow> Q a t)"

lemma returnsD: "returns Q m s \<Longrightarrow> m s = (Inr a, t) \<Longrightarrow> Q a t"
  by (simp add: returns_def)

lemma returns_sbind: "returns R m s \<Longrightarrow> (\<And>a t. R a t \<Longrightarrow> returns Q (f a) t) \<Longrightarrow> returns Q (sbind m f) s"
  by (auto simp: returns_def sbind_eq_Inr)

lemma returns_sret: "Q a s \<Longrightarrow> returns Q (sret a) s"
  by (simp add: returns_def)

lemma returns_sfail: "returns Q (sfail e) s"
  by (simp add: returns_def)

lemma returns_if: "(b \<Longrightarrow> returns Q m s) \<Longrightarrow> (\<not> b \<Longrightarrow> returns Q n s) \<Longrightarrow> returns Q (if b then m else n) s"
  by simp

lemma returns_sread: "(\<And>a. g s = Inr a \<Longrightarrow> Q a s) \<Longrightarrow> returns Q (sread g) s"
  by (auto simp: returns_def)

lemma returns_frame: "frames F m \<Longrightarrow> (\<And>a t. F s t \<Longrightarrow> Q a t) \<Longrightarrow> returns Q m s"
  by (auto simp: returns_def frames_def) (metis snd_conv)

lemma returns_conj: "returns Q m s \<Longrightarrow> returns R m s \<Longrightarrow> returns (\<lambda>a t. Q a t \<and> R a t) m s"
  by (simp add: returns_def)

lemma returns_mono: "returns Q m s \<Longrightarrow> (\<And>a t. Q a t \<Longrightarrow> R a t) \<Longrightarrow> returns R m s"
  by (simp add: returns_def)

lemma returns_in_world: "returns (\<lambda>a w. Q a (s\<lparr>wk_world := w\<rparr>)) m (wk_world s) \<Longrightarrow> returns Q (in_world m) s"
  by (auto simp: returns_def in_world_def zoom_def split: prod.splits)

section \<open>The end of a session\<close>

text \<open>Without a terminal error the keys are released; with the audits behind it, the ledger is empty as well.\<close>

definition let_go :: "instrument_key_profile \<Rightarrow> ('w \<Rightarrow> u16 set) \<Rightarrow> ('w, 't) worker \<Rightarrow> bool" where
  "let_go p pressed s \<longleftrightarrow> transport_ok p pressed (wk_backend s, wk_world s) \<and>
     (wk_terminal_error s = None \<longrightarrow> release_obligation_mask (wk_backend s) = 0)"

definition cleaned_up :: "instrument_key_profile \<Rightarrow> ('w \<Rightarrow> u16 set) \<Rightarrow> ('w, 't) worker \<Rightarrow> bool" where
  "cleaned_up p pressed s \<longleftrightarrow> let_go p pressed s \<and>
     (wk_terminal_error s = None \<longrightarrow> check_post_cleanup_invariants (wk_coordinator s) = Inr ())"

lemma let_go_held: "let_go p pressed s \<Longrightarrow> held_over pressed s t \<Longrightarrow> let_go p pressed t"
  by (auto simp: let_go_def held_over_def transport_ok_def)

lemma cleaned_up_settled: "cleaned_up p pressed s \<Longrightarrow> settled_over pressed s t \<Longrightarrow> cleaned_up p pressed t"
  using let_go_held [of p pressed s t] by (auto simp: cleaned_up_def settled_over_def held_over_def)

lemma release_run:
  assumes k: "keyboard_ok (en_os env) pressed" and p: "session_profile p" and q: "shared_quiet (en_shared env) pressed"
    and ok: "transport_ok p pressed (wk_backend s, wk_world s)"
  shows "\<exists>t. (terminal_release env :: ('w loop_worker, unit failure, bool) smethod) s = (Inr False, t) \<and>
    let_go p pressed t \<and> wk_coordinator t = wk_coordinator s"
proof -
  obtain hwnd w where h: "hwnd_for_safety_release (en_shared env) (wk_world s) = (Inr hwnd :: unit failure + u64, w)" "pressed w = pressed (wk_world s)"
    using still_readings(3) [OF q] by (auto simp: still_keys_def hwnd_for_safety_release_def atomic_def Let_def case_prod_unfold)
  let ?s = "s\<lparr>wk_world := w\<rparr>"
  have "transport_ok p pressed (wk_backend s, w)" using ok h(2) by (simp add: transport_ok_def)
  then obtain out self w' where run: "release_scope (en_os env) TrackedScope hwnd (wk_backend s, w) = (Inr out, (self, w'))"
      and promise: "release_promise p pressed (release_obligation_mask (wk_backend s)) (wk_backend s, w) out (self, w')"
    using scope_releases [OF k p, of "wk_backend s" w TrackedScope hwnd] by (auto simp: wp_def split: prod.splits sum.splits failure.splits)
  let ?t = "?s\<lparr>wk_backend := self, wk_world := w'\<rparr>"
  have t: "in_backend (release_scope (en_os env) TrackedScope hwnd) ?s = (Inr out :: unit failure + release_all_outcome, ?t)"
    using run by (simp add: in_backend_def zoom_def renamed_def)
  have h': "in_world (hwnd_for_safety_release (en_shared env)) s = (Inr hwnd :: unit failure + u64, ?s)"
    using h(1) by (simp add: in_world_def zoom_def)
  have ok': "transport_ok p pressed (self, w')" using promise by (simp add: release_promise_def)
  then have profile: "tk_profile self = from_validated p" by (simp add: transport_ok_def)
  obtain codes where codes: "profile_scan_codes_from_mask (from_validated p) (ra_stuck_mask out) = (Inr codes :: unit failure + u16 list)"
    using scan_codes_Inr [OF p] by blast
  show ?thesis
  proof (cases "release_state_verified self out")
    case True
    then show ?thesis using ok'
      by (simp add: terminal_release_def sbind_step(2) [of "in_world _", OF h'] t let_go_def release_state_verified_def)
  next
    case False
    then show ?thesis using ok'
      by (auto simp: terminal_release_def h' t let_go_def describe_release_outcome_def sbind_apply profile codes record_termination_error_def)
  qed
qed

lemma returns_audit:
  assumes "let_go p pressed s"
  shows "returns (\<lambda>_. cleaned_up p pressed) (note_audit PostCleanupInvariantFailure check_post_cleanup_invariants) s"
  using assms by (auto simp: returns_def note_audit_def cleaned_up_def let_go_def record_termination_error_def
      split: sum.splits failure.splits if_splits)

lemma outcome_of_failure: "code \<noteq> OUTCOME_ERROR \<Longrightarrow> outcome_code sh failed trigger w = (Inr code, w') \<Longrightarrow> \<not> failed"
  by (auto simp: outcome_code_def)

text \<open>A run that ends by itself, without a signal, has pressed and released every generation.\<close>

definition played_out :: "coordinator \<Rightarrow> bool" where
  "played_out c \<longleftrightarrow> (\<exists>counts. generation_accounting_of c = (Inr counts :: unit failure + generation_accounting) \<and> clean_generation_accounting_proven counts)"

definition never :: "('w \<Rightarrow> bool \<times> 'w) \<Rightarrow> bool" where
  "never flag \<longleftrightarrow> (\<forall>w. \<not> fst (flag w))"

lemma returns_demand:
  assumes q: "shared_quiet (sh :: 'w shared) pressed" and g: "let_go p pressed s" and c: "wk_coordinator s = c"
  shows "returns (\<lambda>_ t. let_go p pressed t \<and>
      (never (sh_skip_requested sh) \<longrightarrow> never (sh_quit_requested sh) \<longrightarrow> trigger = None \<longrightarrow> wk_terminal_error t = None \<longrightarrow> played_out c))
    (demand_clean_completion sh trigger :: ('w loop_worker, unit failure, unit) smethod) s"
proof -
  have "returns (\<lambda>_. let_go p pressed) (demand_clean_completion sh trigger :: ('w loop_worker, unit failure, unit) smethod) s"
    by (rule returns_frame [OF settled_clean_demand [OF q]]) (use let_go_held [OF g] in \<open>auto simp: settled_over_def\<close>)
  moreover have "returns (\<lambda>_ t. never (sh_skip_requested sh) \<longrightarrow> never (sh_quit_requested sh) \<longrightarrow> trigger = None \<longrightarrow>
      wk_terminal_error t = None \<longrightarrow> played_out c)
    (demand_clean_completion sh trigger :: ('w loop_worker, unit failure, unit) smethod) s"
    using c by (auto simp: returns_def demand_clean_completion_def clean_completion_proven_def played_out_def never_def
        in_world_def zoom_def or_else_def atomic_def sbind_apply Let_def case_prod_unfold set_terminal_error_def
        rbind_def split: if_splits sum.splits)
  ultimately show ?thesis by (simp add: returns_def)
qed

lemma finished_trigger: "outcome_code sh failed trigger w = (Inr OUTCOME_FINISHED, w') \<Longrightarrow> trigger = None"
  by (cases trigger; cases "the trigger")
     (auto simp: outcome_code_def requires_error_outcome_def OUTCOME_FINISHED_def OUTCOME_ERROR_def OUTCOME_SYSTEM_SUSPENDED_def
        OUTCOME_SKIPPED_def OUTCOME_QUIT_def sbind_apply split: if_splits prod.splits sum.splits)

lemma final_trigger_None: "final_trigger sh trigger w = (Inr None, w') \<Longrightarrow> trigger = None"
  by (auto simp: final_trigger_def Let_def sbind_apply split: if_splits prod.splits sum.splits)

text \<open>What the end of a run without errors and triggers has shown, once it has been checked.\<close>

definition proven :: "'w shared \<Rightarrow> coordinator \<Rightarrow> terminal_trigger option \<Rightarrow> ('w, 't) worker \<Rightarrow> bool" where
  "proven sh c trigger t \<longleftrightarrow> (never (sh_skip_requested sh) \<longrightarrow> never (sh_quit_requested sh) \<longrightarrow> trigger = None \<longrightarrow>
     wk_terminal_error t = None \<longrightarrow> played_out c)"

type_synonym ('w, 'a) final_op = "('w loop_worker, unit failure, 'a) smethod"

lemma proven_keep: "proven sh c trigger u \<Longrightarrow> settled_over pressed u t \<or> held_over pressed u t \<Longrightarrow> proven sh c trigger t"
  by (auto simp: proven_def held_over_def settled_over_def)

lemma early_frame:
  fixes m :: "('w, unit) final_op"
  assumes "frames (settled_over pressed) m" and "let_go p pressed u \<and> wk_coordinator u = c"
  shows "returns (\<lambda>_ t. let_go p pressed t \<and> wk_coordinator t = c) m u"
  by (rule returns_frame [OF assms(1)]) (use assms(2) in \<open>auto simp: settled_over_def intro: let_go_held\<close>)

lemma late_frame:
  fixes m :: "('w, 'a) final_op"
  assumes "frames (settled_over pressed) m" and "cleaned_up p pressed u \<and> proven sh c trigger u"
  shows "returns (\<lambda>_ t. cleaned_up p pressed t \<and> proven sh c trigger t) m u"
  by (rule returns_frame [OF assms(1)]) (use assms(2) in \<open>auto intro: cleaned_up_settled proven_keep\<close>)

lemma returns_demanded:
  assumes "shared_quiet (sh :: 'w shared) pressed" and "let_go p pressed u \<and> wk_coordinator u = c"
  shows "returns (\<lambda>_ t. let_go p pressed t \<and> proven sh c trigger t) (demand_clean_completion sh trigger :: ('w, unit) final_op) u"
  using returns_demand [OF assms(1), of p u c trigger] assms(2) by (auto simp: proven_def intro: returns_mono)

lemma returns_cancelled:
  assumes "let_go p pressed u \<and> proven sh c trigger u"
  shows "returns (\<lambda>_ t. let_go p pressed t \<and> proven sh c trigger t) (cancel_ledger :: ('w, unit) final_op) u"
  by (rule returns_frame [OF held_cancel_ledger]) (use assms in \<open>auto intro: let_go_held proven_keep\<close>)

lemma returns_audited:
  assumes "let_go p pressed u \<and> proven sh c trigger u"
  shows "returns (\<lambda>_ t. cleaned_up p pressed t \<and> proven sh c trigger t)
    (note_audit PostCleanupInvariantFailure check_post_cleanup_invariants :: ('w, unit) final_op) u"
  by (rule returns_conj [OF returns_audit returns_frame [OF settled_note_audit]]) (use assms in \<open>auto intro: proven_keep\<close>)

lemma returns_retriggered:
  assumes "shared_quiet (sh :: 'w shared) pressed" and "cleaned_up p pressed u \<and> proven sh c trigger u"
  shows "returns (\<lambda>final t. cleaned_up p pressed t \<and> proven sh c final t)
    (in_world (final_trigger sh trigger) :: ('w, terminal_trigger option) final_op) u"
proof -
  have "returns (\<lambda>final t. final = None \<longrightarrow> trigger = None) (in_world (final_trigger sh trigger) :: ('w, terminal_trigger option) final_op) u"
    by (rule returns_in_world) (auto simp: returns_def dest: final_trigger_None)
  with late_frame [OF settled_in_world [OF still_triggers(2) [OF assms(1), of trigger]] assms(2)] show ?thesis
    by (auto simp: returns_def proven_def)
qed

text \<open>The errors are read once and stay the same while the outcome is computed.\<close>

definition settled_with :: "instrument_key_profile \<Rightarrow> ('w \<Rightarrow> u16 set) \<Rightarrow> 'w shared \<Rightarrow> coordinator \<Rightarrow> terminal_trigger option \<Rightarrow> bool \<Rightarrow> ('w, 't) worker \<Rightarrow> bool" where
  "settled_with p pressed sh c trigger errors t \<longleftrightarrow>
     (cleaned_up p pressed t \<and> proven sh c trigger t) \<and> errors = (wk_terminal_error t \<noteq> None)"

lemma returns_noted:
  assumes "cleaned_up p pressed u \<and> proven sh c trigger u"
  shows "returns (\<lambda>errors t. settled_with p pressed sh c trigger errors t)
    (sread (\<lambda>s. Inr (wk_terminal_error s \<noteq> None)) :: ('w, bool) final_op) u"
  using assms by (simp add: returns_def settled_with_def)

lemma returns_labelled:
  assumes "still_keys pressed m" and "settled_with p pressed sh c trigger errors u"
  shows "returns (\<lambda>_ t. settled_with p pressed sh c trigger errors t) (in_world m :: ('w, 'a) final_op) u"
  unfolding settled_with_def
  by (rule returns_conj [OF late_frame [OF settled_in_world [OF assms(1)]] returns_in_world])
     (use assms(2) in \<open>simp_all add: returns_def settled_with_def\<close>)

lemma returns_counted:
  assumes "settled_with p pressed sh c trigger errors u"
  shows "returns (\<lambda>_ t. settled_with p pressed sh c trigger errors t) (sread g :: ('w, 'a) final_op) u"
  using assms by (simp add: returns_def)

definition truthful :: "instrument_key_profile \<Rightarrow> ('w \<Rightarrow> u16 set) \<Rightarrow> 'w shared \<Rightarrow> coordinator \<Rightarrow> bool \<Rightarrow> u8 \<Rightarrow> 'w loop_worker \<Rightarrow> bool" where
  "truthful p pressed sh c panicked code t \<longleftrightarrow> transport_ok p pressed (wk_backend t, wk_world t) \<and>
     (code \<noteq> OUTCOME_ERROR \<longrightarrow> cleaned_up p pressed t \<and> wk_terminal_error t = None \<and> \<not> panicked) \<and>
     (code = OUTCOME_FINISHED \<longrightarrow> never (sh_skip_requested sh) \<longrightarrow> never (sh_quit_requested sh) \<longrightarrow> played_out c)"

lemma returns_coded:
  assumes q: "shared_quiet sh pressed" and u: "settled_with p pressed sh c final errors u" and "\<not> panicked"
  shows "returns (truthful p pressed sh c panicked) (in_world (outcome_code sh (errors \<or> panic \<or> panicked) final) :: ('w, u8) final_op) u"
proof -
  have "returns (\<lambda>code t. (code \<noteq> OUTCOME_ERROR \<longrightarrow> \<not> errors) \<and> (code = OUTCOME_FINISHED \<longrightarrow> final = None))
      (in_world (outcome_code sh (errors \<or> panic \<or> panicked) final) :: ('w, u8) final_op) u"
    by (rule returns_in_world) (auto simp: returns_def dest: finished_trigger outcome_of_failure)
  from returns_conj [OF this returns_labelled [OF still_triggers(3) [OF q, of "errors \<or> panic \<or> panicked" final] u]]
  show ?thesis
  proof (rule returns_mono)
    fix code and t :: "'w loop_worker"
    assume r: "((code \<noteq> OUTCOME_ERROR \<longrightarrow> \<not> errors) \<and> (code = OUTCOME_FINISHED \<longrightarrow> final = None)) \<and>
      settled_with p pressed sh c final errors t"
    have "code = OUTCOME_FINISHED \<Longrightarrow> code \<noteq> OUTCOME_ERROR" by (simp add: OUTCOME_FINISHED_def OUTCOME_ERROR_def)
    moreover have "transport_ok p pressed (wk_backend t, wk_world t)" using r by (simp add: settled_with_def cleaned_up_def let_go_def)
    ultimately show "truthful p pressed sh c panicked code t"
      using r assms(3) unfolding truthful_def settled_with_def proven_def by auto
  qed
qed

lemma returns_loaded:
  assumes q: "shared_quiet sh pressed" and "transport_ok p pressed (wk_backend s, wk_world s) \<and> wk_coordinator s = c"
  shows "returns (\<lambda>_ t. transport_ok p pressed (wk_backend t, wk_world t) \<and> wk_coordinator t = c)
    (if trigger = None then in_world (initial_trigger sh panicked) else sret trigger :: ('w, terminal_trigger option) final_op) s"
  by (rule returns_frame [where F = "settled_over pressed"], intro settled.frame_intros settled_in_world still_triggers [OF q])
     (use assms(2) in \<open>auto simp: settled_over_def held_over_def transport_ok_def\<close>)

lemma finalize_truthful:
  assumes k: "keyboard_ok (en_os env) pressed" and p: "session_profile p" and q: "shared_quiet (en_shared env) pressed"
    and ok: "transport_ok p pressed (wk_backend s, wk_world s)"
  shows "returns (truthful p pressed (en_shared env) (wk_coordinator s) panicked) (finalize_worker env panicked observer :: ('w, u8) final_op) s"
proof -
  define c where "c = wk_coordinator s"
  have released: "returns (\<lambda>b t. \<not> b \<and> let_go p pressed t \<and> wk_coordinator t = c) (terminal_release env :: ('w, bool) final_op) u"
    if "transport_ok p pressed (wk_backend u, wk_world u) \<and> wk_coordinator u = c" for u
    using release_run [OF k p q, of u] that by (auto simp: returns_def)
  have stored: "frames (settled_over pressed) (supdate (\<lambda>s. s\<lparr>wk_terminal_trigger := x\<rparr>) :: ('w, unit) final_op)" for x
    by (rule settled.frames_supdate) (simp add: settled_over_def held_over_def)
  show ?thesis unfolding finalize_worker_def Let_def c_def [symmetric]
    apply (rule returns_sbind [where R = "\<lambda>_ t. t = s"], simp add: returns_def)
    apply (rule returns_sbind, simp only:, rule returns_loaded [OF q, where c = c], use ok c_def in simp)
    apply (rule returns_sbind, erule released)
    apply (rule returns_sbind, rule early_frame [where p = p and pressed = pressed and c = c, OF settled_note_audit], simp)
    apply (rule returns_sbind, rule early_frame [OF settled.frames_if [OF settled_record_error settled.frames_sret]], assumption)
    apply (rule returns_sbind, erule returns_demanded [OF q])
    apply (rule returns_sbind, erule returns_cancelled)
    apply (rule returns_sbind, erule returns_audited)
    apply (rule returns_sbind, rule late_frame [OF settled.frames_case_option [OF settled.frames_sret settled_record_error]], assumption)
    apply (rule returns_sbind, erule late_frame [OF settled_clock [OF k]])
    apply (rule returns_sbind, erule returns_retriggered [OF q])
    apply (rule returns_sbind, erule late_frame [OF stored])
    apply (rule returns_sbind, erule returns_noted)
    apply (rule returns_sbind, erule returns_labelled [OF still_triggers(4) [OF q]])
    apply (rule returns_sbind, erule returns_counted)
    apply (rule returns_if, rule returns_sfail, rule returns_coded [OF q], assumption, simp)
    done
qed

text \<open>\<open>runs R m s\<close>: from \<open>s\<close> the operation succeeds, and the state it leaves satisfies \<open>R\<close>.\<close>

definition runs :: "('s \<Rightarrow> bool) \<Rightarrow> ('s, 'e, 'a) smethod \<Rightarrow> 's \<Rightarrow> bool" where
  "runs R m s \<longleftrightarrow> (\<exists>a t. m s = (Inr a, t) \<and> R t)"

lemma runs_sbind: "runs R m s \<Longrightarrow> (\<And>a t. R t \<Longrightarrow> runs Q (f a) t) \<Longrightarrow> runs Q (sbind m f) s"
  by (fastforce simp: runs_def sbind_apply)

lemma runs_sret: "R s \<Longrightarrow> runs R (sret a) s"
  by (simp add: runs_def)

lemma runs_if: "(b \<Longrightarrow> runs R m s) \<Longrightarrow> (\<not> b \<Longrightarrow> runs R n s) \<Longrightarrow> runs R (if b then m else n) s"
  by simp

lemma runs_sread: "g s = Inr a \<Longrightarrow> R s \<Longrightarrow> runs R (sread g) s"
  by (simp add: runs_def)

lemma runs_both: "returns (\<lambda>_. R) m s \<Longrightarrow> runs (\<lambda>_. True) m s \<Longrightarrow> runs R m s"
  by (auto simp: runs_def returns_def)

text \<open>An operation that only reads the shared memory always answers.\<close>

definition answers :: "('s, 'e, 'a) smethod \<Rightarrow> bool" where
  "answers m \<longleftrightarrow> (\<forall>s. \<exists>a t. m s = (Inr a, t))"

lemma answers_sbind: "answers m \<Longrightarrow> (\<And>a. answers (f a)) \<Longrightarrow> answers (sbind m f)"
  unfolding answers_def sbind_apply by (metis (mono_tags, lifting) case_prod_conv sum.simps(6))

lemma answers_atomic: "answers (atomic access)"
  by (simp add: answers_def atomic_def Let_def case_prod_unfold)

lemma answers_sret: "answers (sret a)"
  by (simp add: answers_def)

lemma answers_if: "answers m \<Longrightarrow> answers n \<Longrightarrow> answers (if b then m else n)"
  by simp

lemmas answers_intros = answers_sbind answers_if answers_atomic answers_sret

lemma runs_in_world: "answers m \<Longrightarrow> (\<And>w. R (s\<lparr>wk_world := w\<rparr>)) \<Longrightarrow> runs R (in_world m) s"
  unfolding runs_def answers_def in_world_def zoom_def by (metis (mono_tags, lifting) case_prod_conv)

lemma answers_triggers:
  "answers (initial_trigger sh panicked)" "answers (final_trigger sh trigger)"
  "answers (outcome_code sh failed trigger)" "answers (abort_label sh failed trigger)"
  unfolding initial_trigger_def final_trigger_def outcome_code_def abort_label_def Let_def is_expired_def system_suspend_terminal_def
  by (intro answers_intros)+

lemma runs_record: "runs (\<lambda>t. wk_coordinator t = wk_coordinator s) (record_termination_error e) s"
  by (simp add: runs_def record_termination_error_def)

lemma accounting_any:
  "(generation_accounting_of c :: 'e failure + generation_accounting) = Inr r \<Longrightarrow> (generation_accounting_of c :: 'f failure + generation_accounting) = Inr r"
  by (auto simp: generation_accounting_of_def Let_def result_simps)

lemma status_counts_total: "\<exists>m. generation_status_counts c = Inr m"
proof -
  have "\<exists>m'. rfold (\<lambda>state result. rbind (ok_or (result (status_as_str state)) Panic) (\<lambda>n. Inr (result(status_as_str state \<mapsto> n + 1)))) xs m = Inr m'"
    if "\<forall>st. m (status_as_str st) \<noteq> None" for xs and m :: "string \<rightharpoonup> u64"
    using that
  proof (induction xs arbitrary: m)
    case (Cons x xs)
    then obtain n where "m (status_as_str x) = Some n" by blast
    moreover have "\<forall>st. (m(status_as_str x \<mapsto> n + 1)) (status_as_str st) \<noteq> None" using Cons.prems by simp
    ultimately show ?case using Cons.IH by simp
  qed simp
  moreover have "foldl (\<lambda>result status. result(status_as_str status \<mapsto> 0)) Map.empty ALL_GENERATION_STATUSES (status_as_str st) \<noteq> None" for st
    by (cases st) (simp_all add: ALL_GENERATION_STATUSES_def)
  ultimately show ?thesis unfolding generation_status_counts_def by blast
qed

lemma runs_clock: "runs (\<lambda>t. wk_coordinator t = wk_coordinator s) (terminal_clock env :: ('w, unit) final_op) s"
proof -
  obtain r t where run: "sbind (qpc_sample (en_os env) TerminationQpcFailure) (ticks_to_us TerminationQpcFailure) s = (r :: loop_error failure + u64, t)"
    by fastforce
  then have "r \<noteq> Inl Panic" "wk_coordinator t = wk_coordinator s"
    by (auto simp: qpc_sample_def qpc_now_def ticks_to_us_def in_world_def zoom_def renamed_def atomic_def sbind_apply map_err_def Let_def
        split: prod.splits sum.splits)
  then show ?thesis using run runs_record [of t] by (auto simp: terminal_clock_def runs_def split: sum.splits failure.splits)
qed

lemma runs_demand:
  assumes "coord_inv (wk_coordinator s)"
  shows "runs (\<lambda>t. wk_coordinator t = wk_coordinator s) (demand_clean_completion sh trigger :: ('w, unit) final_op) s"
proof -
  obtain counts where "(generation_accounting_of (wk_coordinator s) :: unit failure + generation_accounting) = Inr counts"
    using accounting_adds_up [OF assms] accounting_any by blast
  then show ?thesis
    by (auto simp: runs_def demand_clean_completion_def clean_completion_proven_def in_world_def zoom_def or_else_def atomic_def
        sbind_apply Let_def case_prod_unfold set_terminal_error_def)
qed

lemma runs_cancel:
  assumes "coord_inv (wk_coordinator s)"
  shows "runs (\<lambda>t. check_post_cleanup_invariants (wk_coordinator t) = Inr ()) (cancel_ledger :: ('w, unit) final_op) s"
  using cancel_all_ok [OF assms]
  by (auto simp: runs_def cancel_ledger_def in_coordinator_def zoom_def renamed_def)

lemma runs_audit:
  "audit (wk_coordinator s) = Inr () \<Longrightarrow> runs (\<lambda>t. wk_coordinator t = wk_coordinator s) (note_audit reason audit :: ('w, unit) final_op) s"
  by (simp add: runs_def note_audit_def)

lemma finalize_runs:
  assumes k: "keyboard_ok (en_os env) pressed" and p: "session_profile p" and q: "shared_quiet (en_shared env) pressed"
    and ok: "transport_ok p pressed (wk_backend s, wk_world s)" and inv: "coord_inv (wk_coordinator s)"
  shows "runs (\<lambda>_. True) (finalize_worker env False observer :: ('w, u8) final_op) s"
proof -
  define c where "c = wk_coordinator s"
  let ?post = "\<lambda>t :: 'w loop_worker. check_post_cleanup_invariants (wk_coordinator t) = Inr ()"
  have at_c: "runs (\<lambda>t. wk_coordinator t = c) m u" if "runs (\<lambda>t. wk_coordinator t = wk_coordinator u) m u" "wk_coordinator u = c"
    for m :: "('w, 'q) final_op" and u
    using that by (auto simp: runs_def)
  have at_post: "runs ?post m u" if "runs (\<lambda>t. wk_coordinator t = wk_coordinator u) m u" "?post u"
    for m :: "('w, 'q) final_op" and u
    using that by (auto simp: runs_def)
  have same: "runs (\<lambda>t. wk_coordinator t = wk_coordinator u) (sret a) u" for a and u :: "'w loop_worker"
    by (simp add: runs_def)
  have loaded: "runs (\<lambda>t. wk_coordinator t = c \<and> transport_ok p pressed (wk_backend t, wk_world t))
      (if trigger = None then in_world (initial_trigger (en_shared env) False) else sret trigger :: ('w, terminal_trigger option) final_op) s" for trigger
    by (rule runs_both [OF returns_mono [OF returns_loaded [OF q, of p s c]] runs_if [OF runs_in_world [OF answers_triggers(1)] runs_sret]])
       (use ok in \<open>simp_all add: c_def\<close>)
  have released: "runs Q (sbind (terminal_release env :: ('w, bool) final_op) f) u"
    if "wk_coordinator u = c \<and> transport_ok p pressed (wk_backend u, wk_world u)" "\<And>t. wk_coordinator t = c \<Longrightarrow> runs Q (f False) t"
    for Q u and f :: "bool \<Rightarrow> ('w, 'q) final_op"
  proof -
    note u = that
    obtain t where "(terminal_release env :: ('w, bool) final_op) u = (Inr False, t)" "wk_coordinator t = c"
      using release_run [OF k p q, of u] u(1) by auto
    then show ?thesis using u(2) [of t] by (simp add: runs_def sbind_apply)
  qed
  have audited: "runs (\<lambda>t. wk_coordinator t = c) (note_audit PreCancelInvariantFailure check_invariants :: ('w, unit) final_op) u"
      and demanded: "runs (\<lambda>t. wk_coordinator t = c) (demand_clean_completion (en_shared env) trigger :: ('w, unit) final_op) u"
      and cancelled: "runs ?post (cancel_ledger :: ('w, unit) final_op) u"
    if "wk_coordinator u = c" for u trigger
    using that inv at_c [OF runs_audit [of check_invariants u]] at_c [OF runs_demand [of u]] runs_cancel [of u]
      check_invariants_ok [OF inv] by (simp_all add: c_def)
  have checked: "runs ?post (note_audit PostCleanupInvariantFailure check_post_cleanup_invariants :: ('w, unit) final_op) u"
      and observed: "runs ?post ((case observer of None \<Rightarrow> sret () | Some e \<Rightarrow> record_termination_error (ObserverConsumerFailed e)) :: ('w, unit) final_op) u"
    if "?post u" for u
    using at_post [OF runs_audit that] at_post [OF runs_record that] at_post [OF same that] that
    by (simp, cases observer) simp_all
  have clocked: "runs ?post (terminal_clock env :: ('w, unit) final_op) u" if "?post u" for u
    by (rule at_post [OF runs_clock that])
  have stored: "runs ?post (supdate (\<lambda>s. s\<lparr>wk_terminal_trigger := x\<rparr>) :: ('w, unit) final_op) u"
      and errors: "runs ?post (sread (\<lambda>s. Inr (wk_terminal_error s \<noteq> None)) :: ('w, bool) final_op) u"
      and counted: "runs ?post (sread (\<lambda>s. generation_status_counts (wk_coordinator s)) :: ('w, string \<rightharpoonup> u64) final_op) u"
    if "?post u" for u x
    using that status_counts_total [of "wk_coordinator u"] by (auto simp: runs_def)
  have world: "runs ?post (in_world m :: ('w, 'q) final_op) u" if "?post u" "answers m" for m u
    by (rule at_post [OF runs_in_world [OF that(2)] that(1)]) simp
  show ?thesis unfolding finalize_worker_def Let_def if_False
    apply (rule runs_sbind [where R = "\<lambda>t. t = s"], simp add: runs_def)
    apply (rule runs_sbind, simp only:, rule loaded)
    apply (rule released, assumption)
    apply (rule runs_sbind, erule audited)
    apply (rule runs_sbind, erule at_c [OF same])
    apply (rule runs_sbind, erule demanded)
    apply (rule runs_sbind, erule cancelled)
    apply (rule runs_sbind, erule checked)
    apply (rule runs_sbind, erule observed)
    apply (rule runs_sbind, erule clocked)
    apply (rule runs_sbind, erule world [OF _ answers_triggers(2)])
    apply (rule runs_sbind, erule stored)
    apply (rule runs_sbind, erule errors)
    apply (rule runs_sbind, erule world [OF _ answers_triggers(4)])
    apply (rule runs_sbind, erule counted)
    apply (simp add: runs_in_world [OF answers_triggers(3)])
    done
qed

section \<open>A worker\<close>

text \<open>Its shared memory asks for nothing, two keys are held, and the chord of the demo schedule is pressed.\<close>

definition demo_shared :: "u16 set shared" where
  "demo_shared =
     \<lparr>sh_quit_requested = Pair False, sh_skip_requested = Pair False, sh_panic_requested = Pair False,
      sh_swap_panic_requested = (\<lambda>_. Pair False), sh_desired_pause = Pair False, sh_focus_active = Pair True,
      sh_lease_state = Pair 1, sh_lease_compare_exchange = (\<lambda>_ _. Pair True), sh_startup_state = Pair 0,
      sh_publication_epoch = Pair 2, sh_target_hwnd = Pair 7, sh_target_generation = Pair 1,
      sh_owner_identity_required = Pair True, sh_owner_generation = Pair 1, sh_owner_pid = Pair 1, sh_owner_live = Pair True,
      sh_owner_failure = Pair 0\<rparr>"

definition demo_environment :: "(u16 set, unit) environment" where
  "demo_environment = \<lparr>en_os = demo_platform True, en_shared = demo_shared,
     en_wait = (\<lambda>target _. Pair \<lparr>wr_outcome = WaitDeadline, wr_wake_qpc = Some target\<rparr>), en_try_take_interrupt = Pair False\<rparr>"

definition demo_backend :: tracked_key_state where
  "demo_backend = (with_qpc_clock_and_profile \<lparr>frequency_hz = 1\<rparr> (from_validated demo_profile))\<lparr>tk_active_mask := 3\<rparr>"

definition demo_worker :: "u16 set loop_worker" where
  "demo_worker =
     \<lparr>wk_world = {0x15, 0x16}, wk_backend = demo_backend, wk_coordinator = demo_pressed,
      wk_playback = \<lparr>start_perf = QpcTicks 0, pause_time = DurationTicks 0, clock_pause_reasons = 0, pause_interval_started = None,
        pause_open_reason = None, clock_epoch = QpcTicks 0\<rparr>,
      wk_clock = \<lparr>frequency_hz = 1\<rparr>, wk_prepared_stream = None, wk_physical_timing_guard = Some demo_guard,
      wk_verified_target = None, wk_focus_restore_started_ticks = None, wk_last_physical_send_completion_qpc = None,
      wk_previous_sendinput_completion_qpc = None, wk_previous_sender_completion_known = False,
      wk_down_boundary_state = AwaitingFuture, wk_pending_up_recovery = None, wk_terminal_error = None, wk_secondary_errors = [],
      wk_terminal_trigger = None, wk_focus_loss_fault_injected = False, wk_manual_pause_suspension_pending = False,
      wk_musical_physical_commit_started = True, wk_allow_pre_epoch_startup_dispatch = False, wk_chord_integrity_lost = 0\<rparr>"

lemma demo_shared_quiet: "shared_quiet demo_shared (\<lambda>S. S)"
  by (simp add: shared_quiet_def quiet_access_def demo_shared_def)

lemma demo_transport: "transport_ok demo_profile (\<lambda>S. S) (demo_backend, {0x15, 0x16})"
proof -
  have codes: "code_of demo_profile 0 = 0x15" "code_of demo_profile 1 = 0x16" by (code_simp, code_simp)
  have "(3 :: u16) = mask_bit 0 OR mask_bit 1" by (simp add: mask_bit_def)
  then have bits: "bits (3 :: u16) = {0, 1}" by (simp only: bits_ops) (auto simp: mask_simps)
  have "code_of demo_profile slot \<in> {0x15, 0x16} \<longleftrightarrow> slot = 0 \<or> slot = 1" if "slot < MAX_KEYS" for slot
    using code_of_inject [OF demo_profile_ok that, of 0] code_of_inject [OF demo_profile_ok that, of 1] codes
    by (simp add: MAX_KEYS_def)
  then have "down_slots demo_profile {0x15, 0x16} = {slot. slot < MAX_KEYS \<and> (slot = 0 \<or> slot = 1)}"
    unfolding down_slots_def by (intro Collect_cong conj_cong refl)
  also have "{slot. slot < MAX_KEYS \<and> (slot = 0 \<or> slot = 1)} = {0, 1}" by (auto simp: MAX_KEYS_def)
  finally have "down_slots demo_profile {0x15, 0x16} = {0, 1}" .
  then show ?thesis
    by (simp add: transport_ok_def masks_account_def recorded_def demo_backend_def with_qpc_clock_and_profile_def tracked_new_def bits)
qed

text \<open>C3: Unless the worker itself has panicked, the finalization of a session returns an outcome, whatever
  the transport, the probe and the other threads do meanwhile. Every session key that is still down then is
  recorded in the release obligation. If the outcome is not an error, no session key is down, nothing is
  left to release, the ledger passes its cleanup audit and no terminal error was recorded. If the outcome is
  a finished session that nobody asked to stop, every generation was pressed and released.\<close>

theorem outcome_is_truthful:
  assumes k: "keyboard_ok (en_os env) pressed" and p: "session_profile p" and q: "shared_quiet (en_shared env) pressed"
    and ok: "transport_ok p pressed (wk_backend s, wk_world s)"
    and reach: "session_reachable ss" and c: "wk_coordinator s = se_coordinator ss"
  shows "\<exists>code t. finalize_worker env False observer s = (Inr code :: unit failure + u8, t) \<and>
    (\<forall>slot < MAX_KEYS. pk_scan_code (ip_keys p ! slot) \<in> pressed (wk_world t) \<longrightarrow> bit (release_obligation_mask (wk_backend t)) slot) \<and>
    (code \<noteq> OUTCOME_ERROR \<longrightarrow> release_obligation_mask (wk_backend t) = 0 \<and>
       (\<forall>slot < MAX_KEYS. pk_scan_code (ip_keys p ! slot) \<notin> pressed (wk_world t)) \<and>
       check_post_cleanup_invariants (wk_coordinator t) = Inr () \<and> wk_terminal_error t = None) \<and>
    (code = OUTCOME_FINISHED \<longrightarrow> never (sh_skip_requested (en_shared env)) \<longrightarrow> never (sh_quit_requested (en_shared env)) \<longrightarrow>
       (\<exists>counts. generation_accounting_of (wk_coordinator s) = (Inr counts :: unit failure + generation_accounting) \<and>
          clean_generation_accounting_proven counts))"
proof -
  have inv: "coord_inv (wk_coordinator s)" using session_reachableD(2) [OF reach] c by simp
  obtain code t where run: "finalize_worker env False observer s = (Inr code :: unit failure + u8, t)"
    using finalize_runs [OF k p q ok inv, of observer] by (auto simp: runs_def)
  have closing: "truthful p pressed (en_shared env) (wk_coordinator s) False code t"
    by (rule returnsD [OF finalize_truthful [OF k p q ok] run])
  then have "transport_ok p pressed (wk_backend t, wk_world t)" by (simp add: truthful_def)
  then have down: "down_slots p (pressed (wk_world t)) \<subseteq> bits (release_obligation_mask (wk_backend t))"
    using obligation_recorded by (auto simp: transport_ok_def masks_account_def)
  then have "\<forall>slot < MAX_KEYS. pk_scan_code (ip_keys p ! slot) \<in> pressed (wk_world t) \<longrightarrow> bit (release_obligation_mask (wk_backend t)) slot"
    by (auto simp: down_slots_def)
  with closing run show ?thesis by (auto simp: truthful_def cleaned_up_def let_go_def played_out_def)
qed

theorem outcome_is_truthful_witness:
  "\<exists>code t. finalize_worker demo_environment False None demo_worker = (Inr code :: unit failure + u8, t) \<and>
     (0x15 \<in> wk_world demo_worker) \<and> (code \<noteq> OUTCOME_ERROR \<longrightarrow> 0x15 \<notin> wk_world t)"
proof -
  have code: "pk_scan_code (ip_keys demo_profile ! 0) = 0x15" by code_simp
  have "keyboard_ok (en_os demo_environment) (\<lambda>S. S)" "shared_quiet (en_shared demo_environment) (\<lambda>S. S)"
      "transport_ok demo_profile (\<lambda>S. S) (wk_backend demo_worker, wk_world demo_worker)" "wk_coordinator demo_worker = se_coordinator demo_session"
    using demo_keyboard demo_shared_quiet demo_transport by (simp_all add: demo_environment_def demo_worker_def demo_session_def)
  from outcome_is_truthful [OF this(1) demo_profile_ok this(2,3) demo_reachable this(4), of None] code
  show ?thesis by (fastforce simp: demo_worker_def MAX_KEYS_def)
qed

section \<open>Suspension\<close>

lemma wp_zoom: "wp (zoom part put m) Q E s \<longleftrightarrow> wp m (\<lambda>a x. Q a (put x s)) (\<lambda>x. E (put x s)) (part s)"
  by (simp add: wp_def zoom_def split: prod.splits sum.splits failure.splits)

lemma wp_atomic: "wp (atomic access) Q E w \<longleftrightarrow> (case access w of (a, w') \<Rightarrow> Q a w')"
  by (simp add: wp_def atomic_def Let_def split: prod.splits)

lemma wp_map_failure: "wp (renamed (map_failure g) m) Q E s \<longleftrightarrow> wp m Q E s"
  by (auto simp: wp_def renamed_def map_err_def split: prod.splits sum.splits failure.splits)

lemma wp_infallible: "wp m Q (\<lambda>_. False) s \<Longrightarrow> wp (renamed (\<lambda>_. Panic) m) Q E s"
  by (auto simp: wp_def renamed_def map_err_def split: prod.splits sum.splits failure.splits)

text \<open>
  The states of a suspension: the keys are let go and nothing of the ledger is lost; a failure that leaves
  a key to release has left the ledger as it was and the timing guard unusable.
\<close>

definition unusable :: "physical_timing_guard option \<Rightarrow> bool" where
  "unusable guard \<longleftrightarrow> (\<forall>g. guard = Some g \<longrightarrow> \<not> pg_valid g)"

definition stopping :: "instrument_key_profile \<Rightarrow> ('w \<Rightarrow> u16 set) \<Rightarrow> ('w, 't) worker \<Rightarrow> ('w, 't) worker \<Rightarrow> bool" where
  "stopping p pressed s t \<longleftrightarrow> transport_ok p pressed (wk_backend t, wk_world t) \<and> wk_down_boundary_state t = AwaitingFuture \<and>
     wk_coordinator t = wk_coordinator s \<and> wk_pending_up_recovery t = wk_pending_up_recovery s \<and> unusable (wk_physical_timing_guard t)"

definition suspension_failed :: "instrument_key_profile \<Rightarrow> ('w \<Rightarrow> u16 set) \<Rightarrow> ('w, 't) worker \<Rightarrow> ('w, 't) worker \<Rightarrow> bool" where
  "suspension_failed p pressed s t \<longleftrightarrow> transport_ok p pressed (wk_backend t, wk_world t) \<and> wk_down_boundary_state t = AwaitingFuture \<and>
     coord_inv (wk_coordinator t) \<and>
     (release_obligation_mask (wk_backend t) \<noteq> 0 \<longrightarrow> wk_coordinator t = wk_coordinator s \<and> unusable (wk_physical_timing_guard t))"

lemma stopping_failed: "stopping p pressed s t \<Longrightarrow> coord_inv (wk_coordinator s) \<Longrightarrow> suspension_failed p pressed s t"
  by (simp add: stopping_def suspension_failed_def)

lemma wp_suspend_release:
  assumes k: "keyboard_ok os pressed" and p: "session_profile p" and u: "stopping p pressed s u"
  shows "wp (in_backend (release_all os hwnd) :: (('w, 't) worker, 'e failure, release_all_outcome) smethod)
    (\<lambda>_. stopping p pressed s) (\<lambda>_. False) u"
  unfolding in_backend_def wp_zoom release_all_def
proof (rule wp_infallible)
  have "transport_ok p pressed (wk_backend u, wk_world u)" using u by (simp add: stopping_def)
  from scope_releases [OF k p this, of TrackedScope hwnd]
  show "wp (release_scope os TrackedScope hwnd) (\<lambda>a x. stopping p pressed s ((\<lambda>(self, w) s. s\<lparr>wk_backend := self, wk_world := w\<rparr>) x u))
      (\<lambda>_. False) (wk_backend u, wk_world u)"
    by (rule wp_mono) (use u in \<open>auto simp: stopping_def release_promise_def\<close>)
qed

lemma wp_suspend_clock:
  assumes k: "keyboard_ok os pressed" and u: "stopping p pressed s u" and b: "release_obligation_mask (wk_backend u) = 0"
  shows "wp (qpc_sample os reason :: (('w, 't) worker, 'e failure, qpc_ticks) smethod)
    (\<lambda>_ t. stopping p pressed s t \<and> wk_backend t = wk_backend u) (\<lambda>t. stopping p pressed s t \<and> wk_backend t = wk_backend u) u"
proof -
  obtain r w where run: "os_now os (wk_world u) = (r, w)" by fastforce
  have "pressed w = pressed (wk_world u)" using keyboard_okD(2) [OF k run] .
  then show ?thesis using u unfolding qpc_sample_def qpc_now_def in_world_def wp_zoom wp_map_failure wp_sbind wp_atomic run
    by (cases r) (auto simp: wp_simps stopping_def transport_ok_def)
qed

definition barrier_set :: "physical_timing_guard option \<Rightarrow> bool" where
  "barrier_set guard \<longleftrightarrow> (\<exists>g. guard = Some g \<and> pg_valid g \<and> pg_resume_down_not_before_qpc g \<noteq> None)"

definition behind_barrier :: "instrument_key_profile \<Rightarrow> ('w \<Rightarrow> u16 set) \<Rightarrow> ('w, 't) worker \<Rightarrow> ('w, 't) worker \<Rightarrow> bool" where
  "behind_barrier p pressed s t \<longleftrightarrow> transport_ok p pressed (wk_backend t, wk_world t) \<and> wk_down_boundary_state t = AwaitingFuture \<and>
     release_obligation_mask (wk_backend t) = 0 \<and> wk_pending_up_recovery t = wk_pending_up_recovery s \<and>
     ready (wk_coordinator t) \<and> barrier_set (wk_physical_timing_guard t) \<and>
     (wk_pending_up_recovery s = None \<longrightarrow> wk_coordinator t = wk_coordinator s)"

lemma behind_failed: "behind_barrier p pressed s t \<Longrightarrow> suspension_failed p pressed s t"
  by (simp add: behind_barrier_def suspension_failed_def ready_def)

lemma wp_barrier: "wp (establish_resume_down_barrier qpc) Q E g \<longleftrightarrow>
    (case qpc_checked_add_duration qpc (pg_frame_ticks g) of
       Inr barrier \<Rightarrow> Q () (g\<lparr>pg_musical_up_not_before_qpc := replicate MAX_KEYS None, pg_down_not_before_qpc := replicate MAX_KEYS None,
         pg_resume_down_not_before_qpc := Some barrier, pg_valid := True\<rparr>)
     | Inl _ \<Rightarrow> E (guard_invalidate g))"
  by (simp add: wp_def establish_resume_down_barrier_def split: sum.split)

lemma wp_establish:
  assumes u: "stopping p pressed s u" and b: "release_obligation_mask (wk_backend u) = 0" and rd: "ready (wk_coordinator s)"
  shows "wp (establish_barrier qpc) (\<lambda>_ t. behind_barrier p pressed s t \<and> wk_backend t = wk_backend u \<and> wk_coordinator t = wk_coordinator s) (suspension_failed p pressed s) u"
proof (cases "wk_physical_timing_guard u")
  case None
  then show ?thesis using stopping_failed [OF u] rd by (simp add: establish_barrier_def wp_simps ready_def)
next
  case (Some g)
  then show ?thesis using u b rd
    by (auto simp: establish_barrier_def wp_sbind wp_sread wp_zoom wp_map_failure wp_barrier
        stopping_def behind_barrier_def suspension_failed_def barrier_set_def ready_def split: sum.splits)
qed

lemma wp_resolve_miss:
  assumes u: "behind_barrier p pressed s u" and fr: "\<And>r. wk_pending_up_recovery s = Some r \<Longrightarrow> frozen_for (wk_coordinator u) (pr_authored_commit r)"
  shows "wp (resolve_pending_miss now) (\<lambda>_. behind_barrier p pressed s) (suspension_failed p pressed s) u"
proof (cases "wk_pending_up_recovery s")
  case None
  then show ?thesis using u by (auto simp: resolve_pending_miss_def wp_simps behind_barrier_def)
next
  case (Some r)
  then have r: "wk_pending_up_recovery u = Some r" "ready (wk_coordinator u)" using u by (simp_all add: behind_barrier_def)
  let ?commit = "pr_authored_commit r"
  have "wp (in_coordinator SuspensionMissCommitFailure (commit_prepared_authored_frame_deadline_miss ?commit (pf_immediate_up_mask (pc_frame ?commit))
      (pf_down_mask (pc_frame ?commit)) x)) (\<lambda>_. behind_barrier p pressed s) (suspension_failed p pressed s) u" for x
    unfolding in_coordinator_def wp_zoom wp_map_failure
    by (rule wp_mono [OF wp_deadline_miss [OF r(2) fr [OF Some]]]) (use u Some in \<open>auto simp: behind_barrier_def suspension_failed_def\<close>)
  then show ?thesis using r behind_failed [OF u]
    by (auto simp: resolve_pending_miss_def wp_simps orelse_def Let_def split: sum.split)
qed

text \<open>What a completed suspension leaves.\<close>

definition suspended :: "instrument_key_profile \<Rightarrow> ('w \<Rightarrow> u16 set) \<Rightarrow> ('w, 't) worker \<Rightarrow> ('w, 't) worker \<Rightarrow> bool" where
  "suspended p pressed s t \<longleftrightarrow> transport_ok p pressed (wk_backend t, wk_world t) \<and> release_obligation_mask (wk_backend t) = 0 \<and>
     wk_down_boundary_state t = AwaitingFuture \<and> wk_pending_up_recovery t = None \<and> barrier_set (wk_physical_timing_guard t) \<and>
     coord_inv (wk_coordinator t) \<and> dc_active_mask (wk_coordinator t) = 0 \<and> dc_pending_release_mask (wk_coordinator t) = 0 \<and>
     Active \<notin> set (dc_generation_states (wk_coordinator t)) \<and>
     (wk_pending_up_recovery s = None \<longrightarrow> dc_cursor (wk_coordinator t) = dc_cursor (wk_coordinator s) \<and>
        dc_generation_states (wk_coordinator t) =
          map (\<lambda>st. if st = Active then Cancelled else st) (dc_generation_states (wk_coordinator s)))"

lemma wp_suspend_cancel:
  assumes u: "behind_barrier p pressed s u"
  shows "wp (sbind (in_coordinator LiveCancellationFailure cancel_live_generations_after_verified_resumable_cleanup) (\<lambda>cancelled.
      sbind invalidate_down_authorization (\<lambda>_. sbind (supdate (\<lambda>s. s\<lparr>wk_pending_up_recovery := None\<rparr>)) (\<lambda>_. sret cancelled))))
    (\<lambda>_. suspended p pressed s) (suspension_failed p pressed s) u"
proof -
  have inv: "coord_inv (wk_coordinator u)" using u by (simp add: behind_barrier_def ready_def)
  obtain c' where run: "cancel_live_generations_after_verified_resumable_cleanup (wk_coordinator u)
        = (Inr (count_ones (dc_active_mask (wk_coordinator u))), c')" and inv': "coord_inv c'"
    using cancel_live_ok [OF inv] by auto
  have effect: "dc_generation_states c' = map (\<lambda>st. if st = Active then Cancelled else st) (dc_generation_states (wk_coordinator u))"
      "dc_active_mask c' = 0" "dc_pending_release_mask c' = 0" "dc_cursor c' = dc_cursor (wk_coordinator u)"
    using suspension_effect [OF inv] run by auto
  have none: "Active \<notin> set (dc_generation_states c')" unfolding effect(1) by auto
  show ?thesis
    using u inv' effect none
    by (auto simp: wp_sbind in_coordinator_def wp_zoom wp_map_failure wp_def [of cancel_live_generations_after_verified_resumable_cleanup] run
        invalidate_down_authorization_def wp_simps suspended_def behind_barrier_def)
qed

lemma wp_invalidate_down: "wp invalidate_down_authorization Q E s \<longleftrightarrow> Q () (s\<lparr>wk_down_boundary_state := AwaitingFuture\<rparr>)"
  by (simp add: invalidate_down_authorization_def wp_supdate)

lemma wp_invalidate_guard: "wp invalidate_guard Q E s \<longleftrightarrow>
    Q () (s\<lparr>wk_physical_timing_guard := map_option guard_invalidate (wk_physical_timing_guard s)\<rparr>)"
  by (simp add: invalidate_guard_def wp_supdate)

lemma wp_read_value: "wp (sbind (sread (\<lambda>s. Inr (b s))) f) Q E s \<longleftrightarrow> wp (f (b s)) Q E s"
  by (simp add: wp_sbind wp_sread)

lemma wp_either: "(\<not> b \<Longrightarrow> wp m Q E s) \<Longrightarrow> (b \<Longrightarrow> wp n Q E s) \<Longrightarrow> wp (if \<not> b then m else n) Q E s"
  by simp

lemma wp_after_release:
  assumes k: "keyboard_ok os pressed" and p: "session_profile p" and u: "stopping p pressed s u" and rd: "ready (wk_coordinator s)"
    and fr: "\<And>r. wk_pending_up_recovery s = Some r \<Longrightarrow> frozen_for (wk_coordinator s) (pr_authored_commit r)"
    and v: "release_state_verified (wk_backend u) release"
  shows "wp (sbind (qpc_sample os ResumeBarrierQpcFailure) (\<lambda>cleanup_completed_qpc.
       sbind (establish_barrier cleanup_completed_qpc) (\<lambda>_.
       sbind (debug_assert (\<lambda>s. release_state_verified (wk_backend s) release)) (\<lambda>_.
       sbind (resolve_pending_miss now) (\<lambda>_.
       sbind (in_coordinator LiveCancellationFailure cancel_live_generations_after_verified_resumable_cleanup) (\<lambda>cancelled.
       sbind invalidate_down_authorization (\<lambda>_.
       sbind (supdate (\<lambda>s. s\<lparr>wk_pending_up_recovery := None\<rparr>)) (\<lambda>_. sret cancelled))))))))
     (\<lambda>_. suspended p pressed s) (suspension_failed p pressed s) u"
proof -
  have inv: "coord_inv (wk_coordinator s)" using rd by (simp add: ready_def)
  have none: "release_obligation_mask (wk_backend u) = 0" using v by (simp add: release_state_verified_def)
  have frozen: "wk_pending_up_recovery s = Some r \<Longrightarrow> frozen_for (wk_coordinator t) (pr_authored_commit r)"
    if "wk_coordinator t = wk_coordinator s" for r t
    using fr that by simp
  show ?thesis
    apply (subst wp_sbind, rule wp_mono [OF wp_suspend_clock [OF k u none]])
    subgoal premises c for qpc t
    proof -
      have t: "stopping p pressed s t" "wk_backend t = wk_backend u" using c(2) by auto
      show ?thesis
        apply (subst wp_sbind, rule wp_mono [OF wp_establish [OF t(1) none [folded t(2)] rd]])
        subgoal premises b for q v
        proof -
          have v': "debug_assert (\<lambda>s. release_state_verified (wk_backend s) release) v = (Inr () :: suspension_error failure + unit, v)"
            using b(2) t(2) \<open>release_state_verified (wk_backend u) release\<close> by (simp add: debug_assert_def)
          have "wp (resolve_pending_miss now) (\<lambda>_. behind_barrier p pressed s) (suspension_failed p pressed s) v"
            by (rule wp_resolve_miss) (use b(2) frozen in auto)
          then show ?thesis unfolding wp_sbind [of "debug_assert _"] wp_def [of "debug_assert _"] v'
            by (simp add: wp_sbind [of "resolve_pending_miss _"]) (rule wp_mono, assumption, rule wp_suspend_cancel, assumption+)
        qed
        subgoal by assumption
        done
    qed
    subgoal using stopping_failed inv by blast
    done
qed

lemma wp_suspend:
  assumes k: "keyboard_ok os pressed" and p: "session_profile p" and ok: "transport_ok p pressed (wk_backend s, wk_world s)"
    and rd: "ready (wk_coordinator s)" and fr: "\<And>r. wk_pending_up_recovery s = Some r \<Longrightarrow> frozen_for (wk_coordinator s) (pr_authored_commit r)"
  shows "wp (suspend_live_input os now hwnd) (\<lambda>_. suspended p pressed s) (suspension_failed p pressed s) s"
proof -
  have inv: "coord_inv (wk_coordinator s)" using rd by (simp add: ready_def)
  let ?a = "s\<lparr>wk_down_boundary_state := AwaitingFuture\<rparr>"
  let ?s = "?a\<lparr>wk_physical_timing_guard := map_option guard_invalidate (wk_physical_timing_guard ?a)\<rparr>"
  have start: "stopping p pressed s ?s" using ok by (auto simp: stopping_def unusable_def guard_invalidate_def)
  have unverified: "wp (sbind (describe_release_outcome ReleaseVerificationFailed release) (\<lambda>e. sfail (Err e))) (\<lambda>_. suspended p pressed s)
      (suspension_failed p pressed s) u" if "stopping p pressed s u" for release u
  proof -
    have "tk_profile (wk_backend u) = from_validated p" using that by (simp add: stopping_def transport_ok_def)
    moreover obtain codes where "profile_scan_codes_from_mask (from_validated p) (ra_stuck_mask release) = (Inr codes :: suspension_error failure + u16 list)"
      using scan_codes_Inr [OF p] by blast
    ultimately show ?thesis using stopping_failed [OF that inv]
      by (auto simp: describe_release_outcome_def wp_simps)
  qed
  have rest: "wp (sbind (sread (\<lambda>s. Inr (release_state_verified (wk_backend s) release))) (\<lambda>verified. if \<not> verified
      then sbind (describe_release_outcome ReleaseVerificationFailed release) (\<lambda>e. sfail (Err e))
      else sbind (qpc_sample os ResumeBarrierQpcFailure) (\<lambda>cleanup_completed_qpc.
        sbind (establish_barrier cleanup_completed_qpc) (\<lambda>_.
        sbind (debug_assert (\<lambda>s. release_state_verified (wk_backend s) release)) (\<lambda>_.
        sbind (resolve_pending_miss now) (\<lambda>_.
        sbind (in_coordinator LiveCancellationFailure cancel_live_generations_after_verified_resumable_cleanup) (\<lambda>cancelled.
        sbind invalidate_down_authorization (\<lambda>_.
        sbind (supdate (\<lambda>s. s\<lparr>wk_pending_up_recovery := None\<rparr>)) (\<lambda>_. sret cancelled)))))))))
      (\<lambda>_. suspended p pressed s) (suspension_failed p pressed s) u" if "stopping p pressed s u" for release u
    unfolding wp_read_value by (rule wp_either) (rule unverified [OF that], rule wp_after_release [OF k p that rd fr], simp)
  show ?thesis
    unfolding suspend_live_input_def wp_sbind [of invalidate_down_authorization] wp_invalidate_down wp_sbind [of invalidate_guard] wp_invalidate_guard
    by (subst wp_sbind, rule wp_mono [OF wp_suspend_release [OF k p start]]) (auto intro: rest)
qed

text \<open>C10: A suspension never panics, and from then on no press is authorized. If it succeeds, no session key
  is down and nothing is left to release, the timing guard holds presses back behind a resume barrier, no
  missed boundary is pending, the ledger passes its audit and owns no key; and unless a missed boundary was
  pending, exactly the active generations were cancelled, and every other one, scheduled ones included,
  is as it was. If it fails while a key may still be held, the ledger is untouched and the timing guard is
  unusable.\<close>

theorem suspension_lets_go:
  assumes k: "keyboard_ok os pressed" and p: "session_profile p" and ok: "transport_ok p pressed (wk_backend s, wk_world s)"
    and reach: "session_reachable ss" and c: "wk_coordinator s = se_coordinator ss"
    and pending: "\<forall>r. wk_pending_up_recovery s = Some r \<longrightarrow> pr_authored_commit r \<in> set (se_tokens ss)"
    and run: "suspend_live_input os now hwnd s = (result, t)"
  shows "result \<noteq> Inl Panic \<and> wk_down_boundary_state t = AwaitingFuture \<and> check_invariants (wk_coordinator t) = Inr () \<and>
    (case result of
       Inr _ \<Rightarrow> release_obligation_mask (wk_backend t) = 0 \<and>
         (\<forall>slot < MAX_KEYS. pk_scan_code (ip_keys p ! slot) \<notin> pressed (wk_world t)) \<and>
         (\<exists>g. wk_physical_timing_guard t = Some g \<and> pg_valid g \<and> pg_resume_down_not_before_qpc g \<noteq> None) \<and>
         wk_pending_up_recovery t = None \<and> dc_active_mask (wk_coordinator t) = 0 \<and> Active \<notin> set (dc_generation_states (wk_coordinator t)) \<and>
         (wk_pending_up_recovery s = None \<longrightarrow> dc_generation_states (wk_coordinator t) =
            map (\<lambda>st. if st = Active then Cancelled else st) (dc_generation_states (wk_coordinator s)))
     | Inl _ \<Rightarrow> release_obligation_mask (wk_backend t) \<noteq> 0 \<longrightarrow> wk_coordinator t = wk_coordinator s \<and>
         (\<forall>g. wk_physical_timing_guard t = Some g \<longrightarrow> \<not> pg_valid g))"
proof -
  note R = session_reachableD [OF reach, folded c]
  have w: "wp (suspend_live_input os now hwnd) (\<lambda>_. suspended p pressed s) (suspension_failed p pressed s) s"
    by (rule wp_suspend [OF k p ok R(1)]) (use pending R(4) in blast)
  show ?thesis
  proof (cases result)
    case (Inl e)
    have "e \<noteq> Panic" "suspension_failed p pressed s t" using wp_Inl [OF w] run Inl by auto
    then show ?thesis using Inl check_invariants_ok by (auto simp: suspension_failed_def unusable_def)
  next
    case (Inr n)
    have end_state: "suspended p pressed s t" using wp_Inr [OF w] run Inr by auto
    then have "transport_ok p pressed (wk_backend t, wk_world t)" "release_obligation_mask (wk_backend t) = 0" by (simp_all add: suspended_def)
    then have "down_slots p (pressed (wk_world t)) = {}"
      using obligation_recorded [of "wk_backend t"] by (auto simp: transport_ok_def masks_account_def)
    then show ?thesis using Inr end_state check_invariants_ok by (auto simp: suspended_def barrier_set_def down_slots_def)
  qed
qed

theorem suspension_lets_go_witness:
  "\<exists>result t. suspend_live_input (demo_platform True) (Inr (TimelineTicks 0)) 7 demo_worker = (result, t) \<and> result \<noteq> Inl Panic \<and>
     0x15 \<in> wk_world demo_worker \<and> (\<forall>n. result = Inr n \<longrightarrow> 0x15 \<notin> wk_world t \<and> dc_generation_states (wk_coordinator t) = [Cancelled, Cancelled, Scheduled])"
proof -
  have code: "pk_scan_code (ip_keys demo_profile ! 0) = 0x15" by code_simp
  obtain result t where run: "suspend_live_input (demo_platform True) (Inr (TimelineTicks 0)) 7 demo_worker = (result, t)" by fastforce
  have "transport_ok demo_profile (\<lambda>S. S) (wk_backend demo_worker, wk_world demo_worker)" "wk_coordinator demo_worker = se_coordinator demo_session"
      "\<forall>r. wk_pending_up_recovery demo_worker = Some r \<longrightarrow> pr_authored_commit r \<in> set (se_tokens demo_session)"
    using demo_transport by (simp_all add: demo_worker_def demo_session_def)
  note end_state = suspension_lets_go [OF demo_keyboard demo_profile_ok this(1) demo_reachable this(2,3) run]
  have states: "dc_generation_states (wk_coordinator demo_worker) = [Active, Active, Scheduled]" "wk_pending_up_recovery demo_worker = None"
      "0x15 \<in> wk_world demo_worker"
    by (simp_all add: demo_worker_def demo_pressed_def demo_coordinator_def)
  have "0x15 \<notin> wk_world t \<and> dc_generation_states (wk_coordinator t) = [Cancelled, Cancelled, Scheduled]" if "result = Inr n" for n
  proof -
    have "\<forall>slot < MAX_KEYS. pk_scan_code (ip_keys demo_profile ! slot) \<notin> wk_world t" using end_state that by simp
    from this [rule_format, of 0] show ?thesis using end_state that states code by (auto simp: MAX_KEYS_def)
  qed
  then show ?thesis using run end_state states by blast
qed

end
