(* ===== verification/Sky_Gate.thy ===== *)
theory Sky_Gate
  imports Sky_Worker
begin

unbundle bit_operations_syntax

text \<open>
  The gates as a whole: when nothing moves in the shared memory and in the window system, a prepared frame
  reaches its transaction exactly when one condition on them holds; and while a stop is requested, however
  everything else moves, no frame is sent, the loop ends and the session with it.
\<close>

section \<open>Memory that stands still\<close>

text \<open>Readings leave the world as it is; the compare-exchange of the lease may write, but not when it fails.\<close>

definition reading :: "('w \<Rightarrow> 'a \<times> 'w) \<Rightarrow> bool" where
  "reading access \<longleftrightarrow> (\<forall>w. snd (access w) = w)"

definition standing_still :: "('w, 'x) platform \<Rightarrow> 'w shared \<Rightarrow> bool" where
  "standing_still os sh \<longleftrightarrow>
     reading (sh_quit_requested sh) \<and> reading (sh_skip_requested sh) \<and> reading (sh_panic_requested sh) \<and>
     reading (sh_desired_pause sh) \<and> reading (sh_focus_active sh) \<and> reading (sh_lease_state sh) \<and>
     reading (sh_startup_state sh) \<and> reading (sh_publication_epoch sh) \<and> reading (sh_target_hwnd sh) \<and>
     reading (sh_target_generation sh) \<and> reading (sh_owner_identity_required sh) \<and> reading (sh_owner_generation sh) \<and>
     reading (sh_owner_pid sh) \<and> reading (sh_owner_live sh) \<and> reading (sh_owner_failure sh) \<and>
     reading (os_now os) \<and> reading (os_foreground_window os) \<and> (\<forall>h. reading (os_window_process os h)) \<and>
     (\<forall>v. reading (os_key_state os v)) \<and>
     (\<forall>old new w. \<not> fst (sh_lease_compare_exchange sh old new w) \<longrightarrow> snd (sh_lease_compare_exchange sh old new w) = w)"

lemma atomic_reading: "reading access \<Longrightarrow> atomic access w = (Inr (fst (access w)), w)"
  by (cases "access w") (auto simp: reading_def atomic_def dest: spec [of _ w])

text \<open>What each gate asks of the memory.\<close>

definition no_signal :: "'w shared \<Rightarrow> 'w \<Rightarrow> bool" where
  "no_signal sh w \<longleftrightarrow> fst (sh_lease_state sh w) AND EXPIRED_BIT = 0 \<and> \<not> fst (sh_panic_requested sh w) \<and>
     fst (sh_startup_state sh w) AND STARTUP_SYSTEM_SUSPEND_TERMINAL = 0 \<and> \<not> fst (sh_quit_requested sh w) \<and>
     \<not> fst (sh_skip_requested sh w) \<and> \<not> fst (sh_desired_pause sh w)"

definition target_published :: "'w shared \<Rightarrow> target_stamp \<Rightarrow> 'w \<Rightarrow> bool" where
  "target_published sh expected w \<longleftrightarrow> fst (sh_publication_epoch sh w) AND 1 = 0 \<and>
     fst (sh_target_hwnd sh w) = ts_hwnd expected \<and> fst (sh_target_generation sh w) = ts_generation expected"

definition owner_bound :: "'w shared \<Rightarrow> target_stamp \<Rightarrow> 'w \<Rightarrow> bool" where
  "owner_bound sh expected w \<longleftrightarrow> fst (sh_owner_identity_required sh w) \<and> fst (sh_owner_generation sh w) = ts_generation expected \<and>
     fst (sh_owner_pid sh w) \<noteq> 0 \<and> fst (sh_owner_live sh w)"

definition in_foreground :: "('w, 'x) platform \<Rightarrow> 'w shared \<Rightarrow> target_stamp \<Rightarrow> 'w \<Rightarrow> bool" where
  "in_foreground os sh expected w \<longleftrightarrow> ts_hwnd expected \<noteq> 0 \<and> fst (os_foreground_window os w) = ts_hwnd expected \<and>
     fst (fst (os_window_process os (ts_hwnd expected) w)) \<noteq> 0 \<and>
     snd (fst (os_window_process os (ts_hwnd expected) w)) = fst (sh_owner_pid sh w)"

definition focused_on :: "('w, 'x) platform \<Rightarrow> 'w shared \<Rightarrow> target_stamp \<Rightarrow> 'w \<Rightarrow> bool" where
  "focused_on os sh expected w \<longleftrightarrow> fst (sh_focus_active sh w) \<and> owner_bound sh expected w \<and> in_foreground os sh expected w"

definition no_modifier :: "('w, 'x) platform \<Rightarrow> 'w \<Rightarrow> bool" where
  "no_modifier os w \<longleftrightarrow> (\<forall>v \<in> set (map fst MODIFIER_VKS). fst (os_key_state os v w) AND 0x8000 = 0)"

definition lease_fresh :: "('w, 'x) platform \<Rightarrow> 'w shared \<Rightarrow> duration_ticks \<Rightarrow> 'w \<Rightarrow> bool" where
  "lease_fresh os sh timeout w \<longleftrightarrow> timeout = DurationTicks 0 \<or>
     (\<exists>now. fst (os_now os w) = Inr now \<and>
       (let progress = fst (sh_lease_state sh w) AND LEASE_TICKS_MASK in
        fst (sh_lease_state sh w) AND EXPIRED_BIT = 0 \<and> progress \<noteq> 0 \<and>
        (qpc_u64 now < progress \<or> qpc_u64 now - progress \<le> duration_u64 timeout)))"

definition press_allowed ::
  "('w, 'x) platform \<Rightarrow> 'w shared \<Rightarrow> worker_config \<Rightarrow> target_stamp \<Rightarrow> 'w \<Rightarrow> bool" where
  "press_allowed os sh config expected w \<longleftrightarrow> no_signal sh w \<and> target_published sh expected w \<and>
     (cf_require_focus config \<longrightarrow> focused_on os sh expected w) \<and> no_modifier os w \<and>
     lease_fresh os sh (cf_lease_timeout_ticks config) w"

section \<open>The verdicts\<close>

lemma standing_stillD:
  assumes "standing_still os sh"
  shows "reading (sh_quit_requested sh)" "reading (sh_skip_requested sh)" "reading (sh_panic_requested sh)" "reading (sh_desired_pause sh)"
    "reading (sh_focus_active sh)" "reading (sh_lease_state sh)" "reading (sh_startup_state sh)" "reading (sh_publication_epoch sh)"
    "reading (sh_target_hwnd sh)" "reading (sh_target_generation sh)" "reading (sh_owner_identity_required sh)"
    "reading (sh_owner_generation sh)" "reading (sh_owner_pid sh)" "reading (sh_owner_live sh)" "reading (sh_owner_failure sh)"
    "reading (os_now os)" "reading (os_foreground_window os)" "reading (os_window_process os h)" "reading (os_key_state os v)"
  using assms by (simp_all add: standing_still_def)

lemma still_control:
  assumes "standing_still os sh"
  shows "final_down_control_verdict sh w = (Inr (if no_signal sh w then DownAllowed else DownControlRejected), w)"
  by (simp add: final_down_control_verdict_def final_control_precheck_def or_else_def is_expired_def down_blocked_def
      system_suspend_terminal_def sbind_apply no_signal_def atomic_reading standing_stillD [OF assms])

lemma still_target_current:
  assumes "standing_still os sh"
  shows "target_stamp_still_current sh expected w = (Inr (target_published sh expected w), w)"
  by (auto simp: target_stamp_still_current_def is_current_def load_stable_def sbind_apply target_published_def atomic_reading standing_stillD [OF assms])

lemma still_owner:
  assumes "standing_still os sh"
  shows "\<exists>st. owner_identity_status sh (ts_generation expected) w = (Inr st, w) \<and>
    (case owner_status_verdict st of
       Inr pid \<Rightarrow> pid = fst (sh_owner_pid sh w) \<and> pid \<noteq> 0 \<and> owner_bound sh expected w
     | Inl v \<Rightarrow> v \<noteq> DownAllowed \<and> \<not> owner_bound sh expected w)"
  by (auto simp: owner_identity_status_def sbind_apply owner_bound_def owner_failure_status_def atomic_reading standing_stillD [OF assms])

lemma still_focus: "standing_still os sh \<Longrightarrow> focus_matches sh req w = (Inr (\<not> req \<or> fst (sh_focus_active sh w)), w)"
  by (auto simp: focus_matches_def atomic_reading standing_stillD)

text \<open>\<open>verdict m b\<close>: the gate answers, leaves the world alone, and allows the press exactly if \<open>b\<close> holds.\<close>

definition verdict :: "('w, 'e, final_down_verdict) smethod \<Rightarrow> bool \<Rightarrow> 'w \<Rightarrow> bool" where
  "verdict m b w \<longleftrightarrow> (\<exists>v. m w = (Inr v, w) \<and> (v = DownAllowed \<longleftrightarrow> b))"

lemma still_revalidation:
  assumes s: "standing_still os sh"
  shows "verdict (final_down_atomic_revalidation sh expected req :: ('w, 'e failure, final_down_verdict) smethod)
    (target_published sh expected w \<and> (req \<longrightarrow> fst (sh_focus_active sh w) \<and> owner_bound sh expected w)) w"
proof -
  obtain st where st: "owner_identity_status sh (ts_generation expected) w = (Inr st :: 'e failure + owner_identity_state, w)"
    "case owner_status_verdict st of Inr pid \<Rightarrow> pid = fst (sh_owner_pid sh w) \<and> pid \<noteq> 0 \<and> owner_bound sh expected w
     | Inl v \<Rightarrow> v \<noteq> DownAllowed \<and> \<not> owner_bound sh expected w"
    using still_owner [OF s] by blast
  then show ?thesis
    by (auto simp: verdict_def final_down_atomic_revalidation_def sbind_apply still_target_current [OF s] still_focus [OF s] split: sum.splits)
qed

lemma still_target:
  assumes s: "standing_still os sh"
  shows "verdict (final_down_target_admission os sh expected req :: ('w, 'e failure, final_down_verdict) smethod)
    (target_published sh expected w \<and> (req \<longrightarrow> focused_on os sh expected w)) w"
proof -
  obtain st where st: "owner_identity_status sh (ts_generation expected) w = (Inr st :: 'e failure + owner_identity_state, w)"
    "case owner_status_verdict st of Inr pid \<Rightarrow> pid = fst (sh_owner_pid sh w) \<and> pid \<noteq> 0 \<and> owner_bound sh expected w
     | Inl v \<Rightarrow> v \<noteq> DownAllowed \<and> \<not> owner_bound sh expected w"
    using still_owner [OF s] by blast
  obtain v where v: "final_down_atomic_revalidation sh expected req w = (Inr v :: 'e failure + final_down_verdict, w)"
      "v = DownAllowed \<longleftrightarrow> target_published sh expected w \<and> (req \<longrightarrow> fst (sh_focus_active sh w) \<and> owner_bound sh expected w)"
    using still_revalidation [OF s, of expected req w] by (auto simp: verdict_def)
  have fg: "foreground_window_owner_matches os h pid w = (Inr (if h = 0 \<or> pid = 0 then ForegroundQueryUnavailable
      else if fst (os_foreground_window os w) \<noteq> h then NotForeground
      else if fst (fst (os_window_process os h w)) = 0 \<or> snd (fst (os_window_process os h w)) = 0 then ForegroundQueryUnavailable
      else if snd (fst (os_window_process os h w)) = pid then OwnerMatch else ForegroundOwnerMismatch), w)" for h pid
    by (auto simp: foreground_window_owner_matches_def sbind_apply atomic_reading standing_stillD [OF s] case_prod_unfold)
  show ?thesis
  proof (cases "target_published sh expected w \<and> req \<and> fst (sh_focus_active sh w) \<and> ts_hwnd expected \<noteq> 0")
    case True
    then show ?thesis using st v
      by (cases "owner_status_verdict st")
         (auto simp: verdict_def final_down_target_admission_def sbind_apply still_target_current [OF s] still_focus [OF s] fg
            focused_on_def in_foreground_def)
  next
    case False
    then show ?thesis using v
      by (auto simp: verdict_def final_down_target_admission_def sbind_apply still_target_current [OF s] still_focus [OF s]
          focused_on_def in_foreground_def)
  qed
qed

lemma still_modifier:
  assumes s: "standing_still os sh"
  shows "verdict (final_down_modifier_verdict os :: ('w, 'e failure, final_down_verdict) smethod) (no_modifier os w) w"
proof -
  let ?held = "\<lambda>v. fst (os_key_state os v w) AND 0x8000 \<noteq> 0"
  have "final_down_modifier_verdict os w = (Inr (let m = (if ?held 0x5B then push_bit 0 1 else 0) OR (if ?held 0x5C then push_bit 1 1 else 0) OR
      (if ?held 0x11 then push_bit 2 1 else 0) OR (if ?held 0x10 then push_bit 3 1 else 0) OR (if ?held 0x12 then push_bit 4 1 else 0)
      in if m = 0 then DownAllowed else DownModifierHeld m) :: 'e failure + final_down_verdict, w)"
    by (simp add: final_down_modifier_verdict_def observe_current_modifier_keys_def MODIFIER_VKS_def sbind_apply Let_def
        atomic_reading standing_stillD [OF s] ac_simps)
  then show ?thesis by (auto simp: verdict_def no_modifier_def MODIFIER_VKS_def Let_def or_eq_0_iff)
qed

lemma still_lease:
  assumes s: "standing_still os sh"
  obtains "lease_fresh os sh timeout w" and "\<exists>proof_value. final_down_lease_age_proof os sh timeout w = (Inr proof_value, w) \<and> lp_admission proof_value = LeaseFresh"
  | "\<not> lease_fresh os sh timeout w" and "\<exists>r w'. final_down_lease_age_proof os sh timeout w = (r, w') \<and> r \<noteq> Inl Panic \<and>
      (\<forall>proof_value. r = Inr proof_value \<longrightarrow> lp_admission proof_value \<noteq> LeaseFresh)"
proof -
  obtain r w' where run: "final_down_lease_age_proof os sh timeout w = (r, w')" by fastforce
  consider "timeout = DurationTicks 0" | e where "timeout \<noteq> DurationTicks 0" "fst (os_now os w) = Inl e"
    | now where "timeout \<noteq> DurationTicks 0" "fst (os_now os w) = Inr now"
    by (cases "fst (os_now os w)") auto
  then show thesis
  proof cases
    case 1
    then show thesis by (intro that(1)) (simp_all add: lease_fresh_def final_down_lease_age_proof_def prove_down_age_def)
  next
    case 2
    then have "\<not> lease_fresh os sh timeout w" "r = Inl (Err e)" using run
      by (auto simp: lease_fresh_def final_down_lease_age_proof_def qpc_now_def sbind_apply atomic_reading standing_stillD [OF s])
    then show thesis using run by (intro that(2)) auto
  next
    case 3
    let ?state = "fst (sh_lease_state sh w)" and ?now = "qpc_u64 now"
    let ?fresh = "?state AND EXPIRED_BIT = 0 \<and> ?state AND LEASE_TICKS_MASK \<noteq> 0 \<and>
      (?now < ?state AND LEASE_TICKS_MASK \<or> ?now - (?state AND LEASE_TICKS_MASK) \<le> duration_u64 timeout)"
    have fresh: "lease_fresh os sh timeout w \<longleftrightarrow> ?fresh" using 3 by (auto simp: lease_fresh_def Let_def)
    obtain done_it w2 where exchange: "sh_lease_compare_exchange sh ?state (?state OR EXPIRED_BIT) w = (done_it, w2)" by fastforce
    have kept: "w2 = w" if "\<not> done_it"
      using s that exchange by (simp add: standing_still_def) (metis fst_conv snd_conv)
    note eval = final_down_lease_age_proof_def qpc_now_def prove_down_age_def sbind_apply Let_def atomic_reading standing_stillD [OF s] 3
    have attempt: "atomic (sh_lease_compare_exchange sh ?state (?state OR EXPIRED_BIT)) w = (Inr done_it :: qpc_error failure + bool, w2)"
      by (simp add: atomic_def exchange)
    show thesis
    proof (cases ?fresh)
      case True
      then show thesis using fresh by (intro that(1)) (auto simp: eval)
    next
      case False
      have "r \<noteq> Inl Panic \<and> (\<forall>proof_value. r = Inr proof_value \<longrightarrow> lp_admission proof_value \<noteq> LeaseFresh)"
        using run False attempt kept by (auto simp: eval replacement_admission_def split: if_splits)
      then show thesis using run fresh False by (intro that(2)) auto
    qed
  qed
qed

definition revalidated :: "'w shared \<Rightarrow> bool \<Rightarrow> target_stamp \<Rightarrow> 'w \<Rightarrow> bool" where
  "revalidated sh req expected w \<longleftrightarrow> target_published sh expected w \<and> (req \<longrightarrow> fst (sh_focus_active sh w) \<and> owner_bound sh expected w)"

lemma still_post_modifier:
  fixes os :: "('w, 'x) platform"
  assumes s: "standing_still os sh"
  shows "revalidated sh req expected w \<and> lease_fresh os sh timeout w \<and> no_signal sh w \<Longrightarrow>
      final_down_post_modifier_verdict os sh expected req timeout w = (Inr DownAllowed, w)"
    and "\<not> (revalidated sh req expected w \<and> lease_fresh os sh timeout w \<and> no_signal sh w) \<Longrightarrow>
      \<exists>r w'. final_down_post_modifier_verdict os sh expected req timeout w = (r, w') \<and> r \<noteq> Inl Panic \<and> r \<noteq> Inr DownAllowed"
proof -
  obtain v where v: "final_down_atomic_revalidation sh expected req w = (Inr v :: qpc_error failure + final_down_verdict, w)"
      "v = DownAllowed \<longleftrightarrow> revalidated sh req expected w"
    using still_revalidation [OF s, of expected req w] by (auto simp: verdict_def revalidated_def)
  note eval = final_down_post_modifier_verdict_def sbind_apply v(1) still_control [OF s]
  show "final_down_post_modifier_verdict os sh expected req timeout w = (Inr DownAllowed, w)"
    if "revalidated sh req expected w \<and> lease_fresh os sh timeout w \<and> no_signal sh w"
    using v(2) that by (cases rule: still_lease [OF s, of timeout w]) (auto simp: eval)
  show "\<exists>r w'. final_down_post_modifier_verdict os sh expected req timeout w = (r, w') \<and> r \<noteq> Inl Panic \<and> r \<noteq> Inr DownAllowed"
    if "\<not> (revalidated sh req expected w \<and> lease_fresh os sh timeout w \<and> no_signal sh w)"
  proof (cases "v = DownAllowed")
    case False
    then show ?thesis by (auto simp: eval)
  next
    case True
    show ?thesis
    proof (cases rule: still_lease [OF s, of timeout w])
      case 1
      then show ?thesis using that True v(2) by (auto simp: eval)
    next
      case 2
      then show ?thesis using True by (auto simp: eval split: sum.splits supervisor_lease_admission.splits)
    qed
  qed
qed

section \<open>The frame\<close>

abbreviation transaction :: "('w, 'x) platform \<Rightarrow> authored_batch_view \<Rightarrow> ('w, 't, precision_result) worker_op" where
  "transaction os view \<equiv> sbind (in_backend (send_prepared_physical_packet_at_final_boundary os (av_prepared_packet view) None))
     (\<lambda>result. sret (PrecisionSent result))"

lemma map_failure_Panic: "map_failure g a = Panic \<longleftrightarrow> a = Panic"
  by (cases a) simp_all

lemma in_world_still: "m (wk_world s) = (r, wk_world s) \<Longrightarrow> in_world m s = (r, s)"
  by (simp add: in_world_def zoom_def)

text \<open>C16: The gate in front of a prepared frame is exact. While nothing moves in the shared memory and in
  the window system, a frame that presses keys reaches its transaction if no signal is raised, its target is
  the published one, focus, owner and foreground window agree with it where focus is required, no modifier
  is held and the lease of the supervisor is fresh; a frame that presses nothing reaches it if no signal is
  raised. Otherwise nothing is sent and the worker is left as it was, apart from the world the readings
  went through.\<close>

theorem gate_is_exact:
  assumes s: "standing_still os sh"
    and go: "go \<longleftrightarrow> (if pkt_down_mask (av_packet_masks view) = 0 then no_signal sh (wk_world s)
      else press_allowed os sh config expected (wk_world s))"
  shows "(go \<longrightarrow> send_prepared_normal_precision_frame os sh config view (Some expected) s = transaction os view s) \<and>
    (\<not> go \<longrightarrow> (\<exists>r w. send_prepared_normal_precision_frame os sh config view (Some expected) s = (r, s\<lparr>wk_world := w\<rparr>) \<and>
       r \<noteq> Inl Panic \<and> (\<forall>result. r \<noteq> Inr (PrecisionSent result))))"
proof -
  let ?w = "wk_world s" and ?req = "cf_require_focus config" and ?timeout = "cf_lease_timeout_ticks config"
  have control: "in_world (final_down_control_verdict sh) s = (Inr (if no_signal sh ?w then DownAllowed else DownControlRejected), s)"
    by (rule in_world_still) (rule still_control [OF s])
  obtain v where "final_down_target_admission os sh expected ?req ?w = (Inr v :: dispatch_step failure + final_down_verdict, ?w)"
      and target: "v = DownAllowed \<longleftrightarrow> target_published sh expected ?w \<and> (?req \<longrightarrow> focused_on os sh expected ?w)"
    using still_target [OF s, of expected ?req ?w] by (auto simp: verdict_def)
  then have admission: "in_world (final_down_target_admission os sh expected ?req) s = (Inr v :: dispatch_step failure + final_down_verdict, s)"
    by (simp add: in_world_still)
  obtain m where "final_down_modifier_verdict os ?w = (Inr m :: dispatch_step failure + final_down_verdict, ?w)"
      and held: "m = DownAllowed \<longleftrightarrow> no_modifier os ?w"
    using still_modifier [OF s, of ?w] by (auto simp: verdict_def)
  then have modifier: "in_world (final_down_modifier_verdict os) s = (Inr m :: dispatch_step failure + final_down_verdict, s)"
    by (simp add: in_world_still)
  obtain r w where post: "final_down_post_modifier_verdict os sh expected ?req ?timeout ?w = (r, w)" by fastforce
  have closing: "r = Inr DownAllowed \<and> w = ?w" if "press_allowed os sh config expected ?w"
    using still_post_modifier(1) [OF s, where expected = expected and req = ?req and w = ?w and timeout = ?timeout] post that
    by (auto simp: press_allowed_def revalidated_def focused_on_def)
  have refusing: "r \<noteq> Inl Panic \<and> r \<noteq> Inr DownAllowed"
    if "\<not> press_allowed os sh config expected ?w" "no_signal sh ?w" "v = DownAllowed" "m = DownAllowed"
    using still_post_modifier(2) [OF s, where expected = expected and req = ?req and w = ?w and timeout = ?timeout] post that target held
    by (auto simp: press_allowed_def revalidated_def)
  note eval = send_prepared_normal_precision_frame_def Let_def sbind_apply control admission modifier
  show ?thesis
  proof (cases "pkt_down_mask (av_packet_masks view) = 0")
    case True
    then show ?thesis using go by (auto simp: eval intro: exI [of _ ?w])
  next
    case False
    have last: "in_world (renamed (map_failure f) (final_down_post_modifier_verdict os sh expected ?req ?timeout)) s
        = (map_err (map_failure f) r, s\<lparr>wk_world := w\<rparr>)" for f
      by (simp add: in_world_def zoom_def renamed_def post)
    have go': "go \<longleftrightarrow> press_allowed os sh config expected ?w" using go False by simp
    consider "go" | "\<not> no_signal sh ?w \<or> v \<noteq> DownAllowed \<or> m \<noteq> DownAllowed" "\<not> go"
      | "no_signal sh ?w" "v = DownAllowed" "m = DownAllowed" "\<not> go"
      by blast
    then show ?thesis
    proof cases
      case 1
      then have "no_signal sh ?w" "v = DownAllowed" "m = DownAllowed" "r = Inr DownAllowed" "w = ?w"
        using closing target held go' by (auto simp: press_allowed_def)
      then show ?thesis using False 1 by (simp add: eval last)
    next
      case 2
      then show ?thesis using False by (auto simp: eval intro: exI [of _ ?w])
    next
      case 3
      then have "r \<noteq> Inl Panic" "r \<noteq> Inr DownAllowed" using refusing go' by auto
      then show ?thesis using False 3 by (cases r) (auto simp: eval last map_failure_Panic)
    qed
  qed
qed

definition demo_config :: worker_config where
  "demo_config = \<lparr>cf_strict_timing = False, cf_require_focus = True, cf_observer_enabled = False, cf_focus_loss_fault = False,
     cf_lease_timeout_ticks = DurationTicks 5, cf_strict_up_completion_late_ticks = DurationTicks 0,
     cf_strict_down_completion_late_ticks = DurationTicks 0, cf_focus_restore_grace_ticks = DurationTicks 0,
     cf_paused_poll_ticks = DurationTicks 1, cf_effective_spin_threshold_ticks = DurationTicks 0\<rparr>"

abbreviation demo_stamp :: target_stamp where
  "demo_stamp \<equiv> \<lparr>ts_hwnd = 7, ts_generation = 1\<rparr>"

lemma demo_still: "standing_still (demo_platform b) demo_shared"
  by (simp add: standing_still_def reading_def demo_platform_def demo_shared_def)

lemma demo_allowed: "press_allowed (demo_platform True) demo_shared demo_config demo_stamp {0x15, 0x16}"
  by (simp add: press_allowed_def no_signal_def target_published_def focused_on_def owner_bound_def in_foreground_def no_modifier_def
      lease_fresh_def MODIFIER_VKS_def demo_platform_def demo_shared_def demo_config_def EXPIRED_BIT_def LEASE_TICKS_MASK_def
      STARTUP_SYSTEM_SUSPEND_TERMINAL_def)

theorem gate_is_exact_witness:
  "press_allowed (demo_platform True) demo_shared demo_config demo_stamp (wk_world demo_worker) \<and>
   (\<exists>view. av_packet_masks view = packet_new 0 5 \<and>
      send_prepared_normal_precision_frame (demo_platform True) demo_shared demo_config view (Some demo_stamp) demo_worker =
        transaction (demo_platform True) view demo_worker)"
proof -
  let ?view = "undefined\<lparr>av_packet_masks := packet_new 0 5, av_prepared_packet := demo_prepared\<rparr>"
  have "wk_world demo_worker = {0x15, 0x16}" "pkt_down_mask (av_packet_masks ?view) \<noteq> 0" by (simp_all add: demo_worker_def)
  then have "send_prepared_normal_precision_frame (demo_platform True) demo_shared demo_config ?view (Some demo_stamp) demo_worker =
      transaction (demo_platform True) ?view demo_worker"
    using gate_is_exact [OF demo_still [of True] refl, of ?view demo_worker demo_config demo_stamp] demo_allowed by simp
  then show ?thesis using demo_allowed by (auto simp: demo_worker_def intro: exI [of _ ?view])
qed

section \<open>A stop that stays\<close>

text \<open>A lease that has expired, a suspended system, or a request to quit or to skip, seen by every reading.\<close>

definition stop_requested :: "'w shared \<Rightarrow> bool" where
  "stop_requested sh \<longleftrightarrow> (\<forall>w. fst (sh_lease_state sh w) AND EXPIRED_BIT \<noteq> 0) \<or>
     (\<forall>w. fst (sh_startup_state sh w) AND STARTUP_SYSTEM_SUSPEND_TERMINAL \<noteq> 0) \<or>
     (\<forall>w. fst (sh_quit_requested sh w)) \<or> (\<forall>w. fst (sh_skip_requested sh w))"

definition only_exits :: "('w \<Rightarrow> u16 set) \<Rightarrow> ('w, 't) worker \<Rightarrow> ('w, 't) worker \<Rightarrow> bool" where
  "only_exits pressed s t \<longleftrightarrow> t = s\<lparr>wk_world := wk_world t, wk_terminal_trigger := wk_terminal_trigger t\<rparr> \<and>
     pressed (wk_world t) = pressed (wk_world s) \<and> wk_terminal_trigger t \<noteq> None"

lemma atomic_apply: "atomic access w = (Inr (fst (access w)), snd (access w))"
  by (simp add: atomic_def Let_def case_prod_unfold)

lemma stopped_commands:
  assumes stop: "stop_requested sh" and q: "shared_quiet sh pressed"
  shows "\<exists>t. process_command_control sh s = (Inr True, t) \<and> only_exits pressed s t"
proof -
  have still: "pressed (snd (sh_lease_state sh w)) = pressed w" "pressed (snd (sh_startup_state sh w)) = pressed w"
    "pressed (snd (sh_quit_requested sh w)) = pressed w" "pressed (snd (sh_skip_requested sh w)) = pressed w"
    "pressed (snd (sh_panic_requested sh w)) = pressed w" "pressed (snd (sh_swap_panic_requested sh b w)) = pressed w" for w b
    using q by (simp_all add: shared_quiet_def quiet_access_def)
  show ?thesis
    using stop unfolding stop_requested_def
    by (auto simp: process_command_control_def is_expired_def system_suspend_terminal_def or_else_def in_world_def zoom_def atomic_apply
        latch_terminal_trigger_def only_exits_def still sbind_apply split: option.splits)
qed

lemma stopped_dispatch:
  assumes stop: "stop_requested (en_shared env)" and q: "shared_quiet (en_shared env) pressed"
  shows "\<exists>t. dispatch env config s = Some (False, t) \<and> (t = s \<or> only_exits pressed s t) \<and>
    (\<not> is_finished (wk_coordinator s) \<longrightarrow> wk_terminal_error s = None \<longrightarrow> only_exits pressed s t)"
proof -
  obtain t where t: "process_command_control (en_shared env) s = (Inr True :: loop_exit failure + bool, t)" "only_exits pressed s t"
    using stopped_commands [OF stop q, of s] by blast
  then have "iteration env config s = (Inl (Err LoopBreak), t)" by (simp add: iteration_def Let_def sbind_apply)
  then show ?thesis using t(2) by (auto simp: dispatch_def dispatch_loop.simps [of env config s])
qed

text \<open>C11: A stop always ends the session. While the lease of the supervisor is expired, the system is
  suspended, or a request to quit or to skip stands, the loop ends at its next pass without sending or
  changing anything but the trigger it latches; and the whole run returns an outcome which, unless it is an
  error, leaves no session key down.\<close>

theorem stop_ends_the_session:
  assumes stop: "stop_requested (en_shared env)" and q: "shared_quiet (en_shared env) pressed"
    and k: "keyboard_ok (en_os env) pressed" and p: "session_profile p"
    and ok: "transport_ok p pressed (wk_backend s, wk_world s)"
    and reach: "session_reachable ss" and c: "wk_coordinator s = se_coordinator ss"
  shows "\<exists>u code t. dispatch env config s = Some (False, u) \<and>
    u = s\<lparr>wk_world := wk_world u, wk_terminal_trigger := wk_terminal_trigger u\<rparr> \<and> pressed (wk_world u) = pressed (wk_world s) \<and>
    (\<not> is_finished (wk_coordinator s) \<longrightarrow> wk_terminal_error s = None \<longrightarrow> wk_terminal_trigger u \<noteq> None) \<and>
    run_worker env config observer s = Some (Inr code, t) \<and>
    (code \<noteq> OUTCOME_ERROR \<longrightarrow> (\<forall>slot < MAX_KEYS. pk_scan_code (ip_keys p ! slot) \<notin> pressed (wk_world t)))"
proof -
  obtain u where u: "dispatch env config s = Some (False, u)" "u = s \<or> only_exits pressed s u"
      "\<not> is_finished (wk_coordinator s) \<longrightarrow> wk_terminal_error s = None \<longrightarrow> only_exits pressed s u"
    using stopped_dispatch [OF stop q] by blast
  have same: "u = s\<lparr>wk_world := wk_world u, wk_terminal_trigger := wk_terminal_trigger u\<rparr>" "pressed (wk_world u) = pressed (wk_world s)"
    using u(2) by (auto simp: only_exits_def)
  have parts: "wk_coordinator u = wk_coordinator s" "wk_backend u = wk_backend s"
    using arg_cong [OF same(1), of wk_coordinator] arg_cong [OF same(1), of wk_backend] by simp_all
  have ok': "transport_ok p pressed (wk_backend u, wk_world u)" using ok parts same(2) by (simp add: transport_ok_def)
  have inv: "coord_inv (wk_coordinator u)" using session_reachableD(2) [OF reach] c parts by simp
  obtain code t where run: "finalize_worker env False observer u = (Inr code :: unit failure + u8, t)"
    using finalize_runs [OF k p q ok' inv, of observer] by (auto simp: runs_def)
  have "truthful p pressed (en_shared env) (wk_coordinator u) False code t"
    by (rule returnsD [OF finalize_truthful [OF k p q ok'] run])
  then have "down_slots p (pressed (wk_world t)) = {}" if "code \<noteq> OUTCOME_ERROR"
    using that obligation_recorded [of "wk_backend t"] by (auto simp: truthful_def cleaned_up_def let_go_def transport_ok_def masks_account_def)
  moreover have "wk_terminal_trigger u \<noteq> None" if "\<not> is_finished (wk_coordinator s)" "wk_terminal_error s = None"
    using u(3) that by (simp add: only_exits_def)
  ultimately show ?thesis using u(1) same run by (intro exI [of _ u] exI [of _ code] exI [of _ t]) (simp add: run_worker_def down_slots_def)
qed

definition demo_stopped :: "(u16 set, unit) environment" where
  "demo_stopped = demo_environment\<lparr>en_shared := demo_shared\<lparr>sh_quit_requested := Pair True\<rparr>\<rparr>"

theorem stop_ends_the_session_witness:
  "\<exists>u code t. dispatch demo_stopped demo_config demo_worker = Some (False, u) \<and> wk_world u = wk_world demo_worker \<and>
     run_worker demo_stopped demo_config None demo_worker = Some (Inr code :: unit failure + u8, t) \<and> (code \<noteq> OUTCOME_ERROR \<longrightarrow> 0x15 \<notin> wk_world t)"
proof -
  have code: "pk_scan_code (ip_keys demo_profile ! 0) = 0x15" by code_simp
  have "stop_requested (en_shared demo_stopped)" "shared_quiet (en_shared demo_stopped) (\<lambda>S. S)" "keyboard_ok (en_os demo_stopped) (\<lambda>S. S)"
    using demo_keyboard demo_shared_quiet
    by (simp_all add: demo_stopped_def demo_environment_def stop_requested_def shared_quiet_def quiet_access_def)
  moreover have "transport_ok demo_profile (\<lambda>S. S) (wk_backend demo_worker, wk_world demo_worker)" "wk_coordinator demo_worker = se_coordinator demo_session"
    using demo_transport by (simp_all add: demo_worker_def demo_session_def)
  ultimately obtain u code t where "dispatch demo_stopped demo_config demo_worker = Some (False, u)" "wk_world u = wk_world demo_worker"
      "run_worker demo_stopped demo_config None demo_worker = Some (Inr code :: unit failure + u8, t)"
      and down: "code \<noteq> OUTCOME_ERROR \<longrightarrow> (\<forall>slot < MAX_KEYS. pk_scan_code (ip_keys demo_profile ! slot) \<notin> wk_world t)"
    using stop_ends_the_session [of demo_stopped "\<lambda>S. S" demo_profile demo_worker demo_session demo_config None] demo_profile_ok demo_reachable by metis
  moreover have "code \<noteq> OUTCOME_ERROR \<longrightarrow> 0x15 \<notin> wk_world t" using down code by (metis MAX_KEYS_def zero_less_numeral)
  ultimately show ?thesis by blast
qed

section \<open>A halt stops every packet\<close>

text \<open>A stop, a panic request or a pause, seen by every reading.\<close>

definition halt_requested :: "'w shared \<Rightarrow> bool" where
  "halt_requested sh \<longleftrightarrow> stop_requested sh \<or> (\<forall>w. fst (sh_panic_requested sh w)) \<or> (\<forall>w. fst (sh_desired_pause sh w))"

definition calm_over :: "('w \<Rightarrow> u16 set) \<Rightarrow> ('w, 't) worker \<Rightarrow> ('w, 't) worker \<Rightarrow> bool" where
  "calm_over pressed s t \<longleftrightarrow> wk_backend t = wk_backend s \<and> wk_coordinator t = wk_coordinator s \<and> pressed (wk_world t) = pressed (wk_world s)"

interpretation calm: frame_preorder "calm_over pressed"
  by unfold_locales (auto simp: calm_over_def)

lemma halted_precheck:
  assumes halt: "halt_requested sh" and q: "shared_quiet sh pressed"
  shows "\<exists>w' a. final_control_precheck sh w = (Inr a :: 'e failure + final_control_admission, w') \<and> a \<noteq> ControlAllowed \<and> pressed w' = pressed w"
proof -
  have still: "pressed (snd (sh_lease_state sh w)) = pressed w" "pressed (snd (sh_startup_state sh w)) = pressed w"
    "pressed (snd (sh_quit_requested sh w)) = pressed w" "pressed (snd (sh_skip_requested sh w)) = pressed w"
    "pressed (snd (sh_panic_requested sh w)) = pressed w" "pressed (snd (sh_desired_pause sh w)) = pressed w" for w
    using q by (simp_all add: shared_quiet_def quiet_access_def)
  show ?thesis using halt unfolding halt_requested_def stop_requested_def
    by (elim disjE) (simp_all add: final_control_precheck_def is_expired_def down_blocked_def system_suspend_terminal_def or_else_def
        sbind_apply atomic_apply still)
qed

lemma halted_verdict:
  assumes "halt_requested sh" and "shared_quiet sh pressed"
  shows "\<exists>w'. final_down_control_verdict sh w = (Inr DownControlRejected :: 'e failure + final_down_verdict, w') \<and> pressed w' = pressed w"
  using halted_precheck [OF assms, of w, where 'e = 'e] by (auto simp: final_down_control_verdict_def sbind_apply)

lemma calm_in_world: "still_keys pressed m \<Longrightarrow> frames (calm_over pressed) (in_world m)"
  by (simp add: frames_def calm_over_def in_world_def zoom_def still_keys_def case_prod_unfold)

lemma calm_updates:
  "frames (calm_over pressed) forget_target" "frames (calm_over pressed) invalidate_down_authorization"
  "frames (calm_over pressed) (supdate (\<lambda>s. s\<lparr>wk_focus_loss_fault_injected := b\<rparr>))"
  "frames (calm_over pressed) (supdate (\<lambda>s. s\<lparr>wk_allow_pre_epoch_startup_dispatch := f s\<rparr>))"
  "frames (calm_over pressed) (supdate (\<lambda>s. s\<lparr>wk_verified_target := x, wk_focus_restore_started_ticks := y\<rparr>))"
  by (simp_all add: frames_def calm_over_def forget_target_def invalidate_down_authorization_def)

lemma calm_stop_with: "frames (calm_over pressed) (stop_with step)"
  unfolding stop_with_def by (rule calm.frames_sfail)

lemma calm_in_playback: "frames (calm_over pressed) (in_playback reason m)"
  by (simp add: frames_def calm_over_def in_playback_def zoom_def case_prod_unfold)

lemma calm_focus_loss:
  assumes "keyboard_ok os pressed"
  shows "frames (calm_over pressed) (handle_final_focus_loss os)" "frames (calm_over pressed) (enter_focus_pause reason qpc)"
  unfolding handle_final_focus_loss_def enter_focus_pause_def qpc_sample_def
  by (intro calm.frame_intros calm_updates calm_stop_with calm_in_playback calm_in_world still_renamed still_qpc [OF assms])+

lemma calm_readings:
  assumes "shared_quiet sh pressed"
  shows "still_keys pressed (focus_matches sh req)" "still_keys pressed (target_stamp_still_current sh expected)"
    "still_keys pressed (final_control_precheck sh)"
  unfolding focus_matches_def target_stamp_still_current_def is_current_def load_stable_def final_control_precheck_def or_else_def
    is_expired_def down_blocked_def system_suspend_terminal_def
  using assms by (intro still_intros still_atomic; simp add: shared_quiet_def)+

lemma framesD: "frames F m \<Longrightarrow> m s = (r, t) \<Longrightarrow> F s t"
  by (metis frames_def snd_conv)

text \<open>The prepared frame: a rejected control ends it before the transaction.\<close>

lemma halted_precision:
  assumes "halt_requested sh" and "shared_quiet sh pressed"
  shows "\<exists>w. send_prepared_normal_precision_frame os sh config view target s = (Inr (PrecisionRejected DownControlRejected), s\<lparr>wk_world := w\<rparr>) \<and>
    pressed w = pressed (wk_world s)"
proof -
  obtain w where "final_down_control_verdict sh (wk_world s) = (Inr DownControlRejected :: dispatch_step failure + final_down_verdict, w)"
      "pressed w = pressed (wk_world s)"
    using halted_verdict [OF assms] by blast
  then show ?thesis by (intro exI [of _ w]) (simp add: send_prepared_normal_precision_frame_def Let_def in_world_def zoom_def sbind_apply)
qed

lemma halted_finish:
  assumes "halt_requested sh" and "shared_quiet sh pressed"
  shows "\<exists>t. sbind (send_prepared_normal_precision_frame os sh config view target) (\<lambda>precision_result.
      sbind (finish_prepared_normal_precision_result precision_result) f) s = (Inl (Err StepContinue), t) \<and> calm_over pressed s t"
  using halted_precision [OF assms, of os config view target s]
  by (auto simp: sbind_apply finish_prepared_normal_precision_result_def apply_final_down_rejection_def forget_target_def stop_with_def calm_over_def)

lemma halted_prepared:
  assumes h: "halt_requested sh" and q: "shared_quiet sh pressed" and k: "keyboard_ok os pressed"
  shows "frames (calm_over pressed) (dispatch_prepared_normal_frame os sh config view target qpc)"
    and "returns (\<lambda>r _. r \<noteq> Dispatched) (dispatch_prepared_normal_frame os sh config view target qpc) s"
proof -
  note ends = halted_finish [OF h q, of os config view target]
  have rest: "frames (calm_over pressed) (sbind (send_prepared_normal_precision_frame os sh config view target) (\<lambda>precision_result.
      sbind (finish_prepared_normal_precision_result precision_result) f))" for f
    by (rule framesI) (use ends [of f] in \<open>metis snd_conv\<close>)
  show "frames (calm_over pressed) (dispatch_prepared_normal_frame os sh config view target qpc)" unfolding dispatch_prepared_normal_frame_def Let_def
    by (intro rest calm.frame_intros calm_in_world calm_readings [OF q] calm_stop_with calm_updates calm_focus_loss [OF k])
  have sent: "returns Q (sbind (send_prepared_normal_precision_frame os sh config view target) (\<lambda>precision_result.
      sbind (finish_prepared_normal_precision_result precision_result) f)) u" for Q f u
    using ends [of f u] by (auto simp: returns_def)
  show "returns (\<lambda>r _. r \<noteq> Dispatched) (dispatch_prepared_normal_frame os sh config view target qpc) s"
    unfolding dispatch_prepared_normal_frame_def Let_def stop_with_def
    by (intro returns_sbind [where R = "\<lambda>_ _. True"] returns_if returns_sret returns_sfail sent) (simp_all add: returns_def)
qed

text \<open>The planned packet: the admission never allows it.\<close>

lemma halted_admit:
  assumes q: "shared_quiet sh pressed" and k: "keyboard_ok (os :: ('w, 'x) platform) pressed"
  shows "frames (calm_over pressed) (admit_authored_down sh config view now target)"
    and "returns (\<lambda>a _. a \<noteq> AdmissionAllowed) (admit_authored_down sh config view now target) s"
proof -
  show "frames (calm_over pressed) (admit_authored_down sh config view now target)"
    unfolding admit_authored_down_def Let_def
    by (intro calm.frame_intros calm_in_world calm_readings [OF q] calm_stop_with calm_updates calm_focus_loss [OF k])
  show "returns (\<lambda>a _. a \<noteq> AdmissionAllowed) (admit_authored_down sh config view now target) s"
    unfolding admit_authored_down_def Let_def stop_with_def
    by (intro returns_sbind [where R = "\<lambda>_ _. True"] returns_if returns_sret returns_sfail) (simp_all add: returns_def)
qed

lemma halted_control:
  assumes "halt_requested sh" and "shared_quiet sh pressed"
  shows "\<exists>t. sbind (in_world (final_down_control_verdict sh)) (\<lambda>control. if control \<noteq> DownAllowed
      then sbind (apply_final_down_rejection DownControlRejected) (\<lambda>_. sret AdmissionControlRejected) else m) s
    = (Inr AdmissionControlRejected :: dispatch_step failure + admission_outcome, t) \<and> calm_over pressed s t"
  using halted_verdict [OF assms, of "wk_world s", where 'e = dispatch_step]
  by (auto simp: sbind_apply in_world_def zoom_def apply_final_down_rejection_def forget_target_def calm_over_def)

lemma halted_finalize:
  assumes h: "halt_requested sh" and q: "shared_quiet sh pressed"
  shows "frames (calm_over pressed) (finalize_authored_down_admission os sh config view missed crossing admission)"
    and "admission \<noteq> AdmissionAllowed \<Longrightarrow>
      returns (\<lambda>a _. a \<noteq> AdmissionAllowed) (finalize_authored_down_admission os sh config view missed crossing admission) s"
proof -
  note ends = halted_control [OF h q]
  have rest: "frames (calm_over pressed) (sbind (in_world (final_down_control_verdict sh)) (\<lambda>control. if control \<noteq> DownAllowed
      then sbind (apply_final_down_rejection DownControlRejected) (\<lambda>_. sret AdmissionControlRejected) else m) :: ('a, 't, admission_outcome) worker_op)" for m
    by (rule framesI) (use ends [of m] in \<open>metis snd_conv\<close>)
  have crossed: "frames (calm_over pressed) (resolve_target_crossing_qpc missed crossing)"
    unfolding resolve_target_crossing_qpc_def by (intro calm.frame_intros calm_stop_with)
  show "frames (calm_over pressed) (finalize_authored_down_admission os sh config view missed crossing admission)"
    unfolding finalize_authored_down_admission_def Let_def
    by (cases admission; simp only: admission_outcome.case; intro calm.frames_sret calm.frames_sbind [OF crossed] rest)
  show "returns (\<lambda>a _. a \<noteq> AdmissionAllowed) (finalize_authored_down_admission os sh config view missed crossing admission) s"
    if "admission \<noteq> AdmissionAllowed"
  proof (cases admission)
    case (AdmissionGuarded target)
    have rejected: "returns (\<lambda>a _. a \<noteq> AdmissionAllowed) (sbind (in_world (final_down_control_verdict sh)) (\<lambda>control. if control \<noteq> DownAllowed
      then sbind (apply_final_down_rejection DownControlRejected) (\<lambda>_. sret AdmissionControlRejected) else m)) u" for m :: "('a, 'q, admission_outcome) worker_op" and u
      using ends [of m u] by (auto simp: returns_def)
    show ?thesis unfolding finalize_authored_down_admission_def Let_def AdmissionGuarded admission_outcome.case
      by (rule returns_sbind [where R = "\<lambda>_ _. True"], simp add: returns_def, rule rejected)
  qed (use that in \<open>simp_all add: finalize_authored_down_admission_def returns_sret\<close>)
qed

lemma halted_record:
  assumes "admission \<noteq> AdmissionAllowed"
  shows "record_down_send_outcome os config view qpc admission = sret StepContinue"
  using assms by (simp add: record_down_send_outcome_def)

lemma halted_planned:
  assumes h: "halt_requested sh" and q: "shared_quiet sh pressed" and k: "keyboard_ok os pressed"
    and run: "dispatch_authored_packet os sh config plan now qpc DownAuthorized crossing s = (r, t)"
  shows "calm_over pressed s t \<and> r \<noteq> Inr Dispatched"
proof (cases plan)
  case (PhysicalPlan physical)
  let ?view = "pl_authored_view physical" and ?target = "verified_target (pl_target_proof physical)"
  let ?s = "s\<lparr>wk_allow_pre_epoch_startup_dispatch := now < clock_epoch (wk_playback s)\<rparr>"
  let ?admit = "admit_authored_down sh config ?view now ?target"
  let ?finalize = "finalize_authored_down_admission os sh config ?view DownAuthorized crossing"
  have start: "calm_over pressed s ?s" by (simp add: calm_over_def)
  obtain a u where a: "?admit ?s = (a, u)" by fastforce
  have u: "calm_over pressed s u" by (rule calm.frame_trans [OF start framesD [OF halted_admit(1) [OF q k] a]])
  show ?thesis
  proof (cases a)
    case (Inl e)
    then show ?thesis using run u a PhysicalPlan
      by (auto simp: dispatch_authored_packet_def commit_down_send_outcome_def sbind_apply)
  next
    case (Inr admission)
    have admission: "admission \<noteq> AdmissionAllowed" by (rule returnsD [OF halted_admit(2) [OF q k] a [unfolded Inr]])
    obtain b v where b: "?finalize admission u = (b, v)" by fastforce
    have v: "calm_over pressed s v" by (rule calm.frame_trans [OF u framesD [OF halted_finalize(1) [OF h q] b]])
    have "c \<noteq> AdmissionAllowed" if "b = Inr c" for c by (rule returnsD [OF halted_finalize(2) [OF h q admission] b [unfolded that]])
    then show ?thesis using run v b a Inr PhysicalPlan
      by (cases b) (auto simp: dispatch_authored_packet_def commit_down_send_outcome_def sbind_apply is_missed_def halted_record)
  qed
qed (use run in \<open>auto simp: dispatch_authored_packet_def sbind_apply calm_over_def\<close>)

text \<open>C4: A halt stops every packet at the last gate. While the lease of the supervisor is expired, the
  system is suspended, or a panic, a pause, or a request to quit or to skip stands, neither the prepared path
  nor the planned path dispatches an admitted packet, however target, focus and modifiers change meanwhile:
  no key event is sent, and the tracked keys and the ledger stay as they are.\<close>

theorem halt_stops_every_packet:
  assumes h: "halt_requested sh" and q: "shared_quiet sh pressed" and k: "keyboard_ok os pressed"
    and path: "m \<in> {dispatch_prepared_normal_frame os sh config view target qpc,
      dispatch_authored_packet os sh config plan now qpc DownAuthorized crossing}"
    and run: "m s = (r, t)"
  shows "r \<noteq> Inr Dispatched \<and> pressed (wk_world t) = pressed (wk_world s) \<and> wk_backend t = wk_backend s \<and> wk_coordinator t = wk_coordinator s"
proof -
  have "calm_over pressed s t \<and> r \<noteq> Inr Dispatched"
  proof (cases "m = dispatch_prepared_normal_frame os sh config view target qpc")
    case True
    note run' = run [unfolded True]
    have "x \<noteq> Dispatched" if "r = Inr x" for x by (rule returnsD [OF halted_prepared(2) [OF h q k] run' [unfolded that]])
    then show ?thesis using framesD [OF halted_prepared(1) [OF h q k] run'] by blast
  next
    case False
    then show ?thesis using path run halted_planned [OF h q k] by blast
  qed
  then show ?thesis by (simp add: calm_over_def)
qed

theorem halt_stops_every_packet_witness:
  "\<forall>view. \<exists>r t. dispatch_prepared_normal_frame (demo_platform True) (demo_shared\<lparr>sh_desired_pause := Pair True\<rparr>) demo_config view
     (Some demo_stamp) (QpcTicks 9) demo_worker = (r, t) \<and> r \<noteq> Inr Dispatched \<and> wk_world t = wk_world demo_worker"
proof
  fix view
  let ?sh = "demo_shared\<lparr>sh_desired_pause := Pair True\<rparr>"
  obtain r t where run: "dispatch_prepared_normal_frame (demo_platform True) ?sh demo_config view (Some demo_stamp) (QpcTicks 9) demo_worker = (r, t)"
    by fastforce
  have "halt_requested ?sh" "shared_quiet ?sh (\<lambda>S. S)"
    using demo_shared_quiet by (simp_all add: halt_requested_def shared_quiet_def quiet_access_def)
  from halt_stops_every_packet [OF this demo_keyboard insertI1 run]
  show "\<exists>r t. dispatch_prepared_normal_frame (demo_platform True) ?sh demo_config view (Some demo_stamp) (QpcTicks 9) demo_worker = (r, t) \<and>
      r \<noteq> Inr Dispatched \<and> wk_world t = wk_world demo_worker"
    using run by blast
qed

end
