(* ===== verification/Sky_Step.thy ===== *)
theory Sky_Step
  imports Sky_Gate
begin

unbundle bit_operations_syntax

text \<open>
  The keyboard and the ledger in step: the session keys that are down are exactly the keys that active
  generations own. Gates, readings and rejections change neither side; a successful transaction changes the
  keyboard as its packet says, and the commit of the view changes the ledger in the same way. A dispatch
  that does not end the session therefore keeps them in step, whichever path it takes.
\<close>

section \<open>Partial correctness\<close>

text \<open>As \<open>wp\<close>, with the error named and panics left aside.\<close>

definition wlp :: "('s, 'e failure, 'a) smethod \<Rightarrow> ('a \<Rightarrow> 's \<Rightarrow> bool) \<Rightarrow> ('e \<Rightarrow> 's \<Rightarrow> bool) \<Rightarrow> 's \<Rightarrow> bool" where
  "wlp m Q E s = (case m s of (Inr a, t) \<Rightarrow> Q a t | (Inl (Err e), t) \<Rightarrow> E e t | (Inl Panic, t) \<Rightarrow> True)"

lemma wlp_sbind: "wlp m R E s \<Longrightarrow> (\<And>a t. R a t \<Longrightarrow> wlp (f a) Q E t) \<Longrightarrow> wlp (sbind m f) Q E s"
  by (fastforce simp: wlp_def sbind_apply split: prod.splits sum.splits failure.splits)

lemma wlp_sret: "Q a s \<Longrightarrow> wlp (sret a) Q E s"
  by (simp add: wlp_def)

lemma wlp_sfail: "E e s \<Longrightarrow> wlp (sfail (Err e)) Q E s"
  by (simp add: wlp_def)

lemma wlp_panic: "wlp (sfail Panic) Q E s"
  by (simp add: wlp_def)

lemma wlp_supdate: "Q () (g s) \<Longrightarrow> wlp (supdate g) Q E s"
  by (simp add: wlp_def supdate_def)

lemma wlp_read_value: "Q (g s) s \<Longrightarrow> wlp (sread (\<lambda>s. Inr (g s))) Q E s"
  by (simp add: wlp_def)

lemma wlp_if: "(b \<Longrightarrow> wlp m Q E s) \<Longrightarrow> (\<not> b \<Longrightarrow> wlp n Q E s) \<Longrightarrow> wlp (if b then m else n) Q E s"
  by simp

lemma wlp_option:
  "(z = None \<Longrightarrow> wlp m Q E s) \<Longrightarrow> (\<And>x. z = Some x \<Longrightarrow> wlp (f x) Q E s) \<Longrightarrow> wlp (case z of None \<Rightarrow> m | Some x \<Rightarrow> f x) Q E s"
  by (cases z) simp_all

lemma wlp_mono:
  "wlp m Q E s \<Longrightarrow> (\<And>a t. Q a t \<Longrightarrow> Q' a t) \<Longrightarrow> (\<And>e t. E e t \<Longrightarrow> E' e t) \<Longrightarrow> wlp m Q' E' s"
  by (auto simp: wlp_def split: prod.splits sum.splits failure.splits)

lemma wlp_frame:
  "frames F m \<Longrightarrow> (\<And>a t. F s t \<Longrightarrow> Q a t) \<Longrightarrow> (\<And>e t. F s t \<Longrightarrow> E e t) \<Longrightarrow> wlp m Q E s"
  by (auto simp: wlp_def frames_def split: prod.splits sum.splits failure.splits) (metis snd_conv)+

lemma wlp_at_step:
  "wlp m Q Q s \<Longrightarrow> wlp (at_step m) Q E s"
  by (auto simp: wlp_def at_step_def split: prod.splits sum.splits failure.splits)

text \<open>Steps after which the loop goes on, and operations that otherwise end the session.\<close>

definition goes_on :: "dispatch_step \<Rightarrow> bool" where
  "goes_on step \<longleftrightarrow> step \<in> {StepNoWork, Dispatched, StepContinue}"

definition fatal :: "('s, dispatch_step failure, 'a) smethod \<Rightarrow> bool" where
  "fatal m \<longleftrightarrow> (\<forall>s step t. m s = (Inl (Err step), t) \<longrightarrow> \<not> goes_on step)"

lemma fatal_sbind: "fatal m \<Longrightarrow> (\<And>a. fatal (f a)) \<Longrightarrow> fatal (sbind m f)"
  by (auto simp: fatal_def sbind_apply split: prod.splits sum.splits)

lemma fatal_simple: "fatal (sret a)" "fatal (supdate g)" "fatal (sfail Panic)" "fatal (debug_assert P)"
  "fatal (stop_with (Terminate reason))" "fatal (stop_with (TerminateStatic message))" "fatal (sread (\<lambda>s. Inr (h s)))"
  by (auto simp: fatal_def goes_on_def stop_with_def debug_assert_def supdate_def)

lemma fatal_if: "fatal m \<Longrightarrow> fatal n \<Longrightarrow> fatal (if b then m else n)"
  by simp

lemma fatal_option: "fatal m \<Longrightarrow> (\<And>x. fatal (f x)) \<Longrightarrow> fatal (case z of None \<Rightarrow> m | Some x \<Rightarrow> f x)"
  by (cases z) simp_all

lemma fatal_sum: "(\<And>x. fatal (f x)) \<Longrightarrow> (\<And>x. fatal (g x)) \<Longrightarrow> fatal (case z of Inl x \<Rightarrow> f x | Inr x \<Rightarrow> g x)"
  by (cases z) simp_all

lemma fatal_named:
  "fatal (require_some (Terminate reason) x)" "fatal (require_some (TerminateStatic message) x)"
  "fatal (orelse (\<lambda>e. Terminate (f e)) z)" "fatal (elapsed_at (\<lambda>e. Terminate (f e)) now)"
  by (cases x; cases z; auto simp: require_some_def orelse_def elapsed_at_def fatal_def stop_with_def goes_on_def map_err_def split: sum.splits)+

lemma fatal_zoom: "fatal m \<Longrightarrow> fatal (zoom part put m)"
  by (auto simp: fatal_def zoom_def split: prod.splits)

lemma fatal_renamed: "(\<And>e. \<not> goes_on (f e)) \<Longrightarrow> fatal (renamed (map_failure f) m)"
  unfolding fatal_def renamed_def map_err_def
  by (auto split: prod.splits sum.splits) (metis failure.exhaust failure.distinct(1) failure.inject failure.map)

lemma wlp_fatal:
  "frames F m \<Longrightarrow> fatal m \<Longrightarrow> (\<And>a t. F s t \<Longrightarrow> Q a t) \<Longrightarrow> wlp m Q (\<lambda>step t. goes_on step \<longrightarrow> J t) s"
  by (auto simp: wlp_def frames_def fatal_def split: prod.splits sum.splits failure.splits) (metis snd_conv)+


section \<open>What most operations keep\<close>

definition worker_entries :: "('w, 't) worker \<Rightarrow> prepared_dispatch_entry list" where
  "worker_entries s = (case wk_prepared_stream s of Some stream \<Rightarrow> ps_entries stream | None \<Rightarrow> [])"

definition kept_over :: "instrument_key_profile \<Rightarrow> ('w \<Rightarrow> u16 set) \<Rightarrow> ('w, 't) worker \<Rightarrow> ('w, 't) worker \<Rightarrow> bool" where
  "kept_over p pressed s t \<longleftrightarrow>
     (transport_ok p pressed (wk_backend s, wk_world s) \<longrightarrow> transport_ok p pressed (wk_backend t, wk_world t)) \<and>
     wk_coordinator t = wk_coordinator s \<and> pressed (wk_world t) = pressed (wk_world s) \<and> worker_entries t = worker_entries s \<and>
     wk_pending_up_recovery t \<in> {wk_pending_up_recovery s, None}"

interpretation kept: frame_preorder "kept_over p pressed"
  by unfold_locales (auto simp: kept_over_def)

lemma kept_in_world: "still_keys pressed m \<Longrightarrow> frames (kept_over p pressed) (in_world m)"
  by (simp add: frames_def kept_over_def in_world_def zoom_def still_keys_def case_prod_unfold transport_ok_def worker_entries_def)

lemma kept_in_playback: "frames (kept_over p pressed) (in_playback reason m)"
  by (simp add: frames_def kept_over_def in_playback_def zoom_def case_prod_unfold worker_entries_def)

lemma kept_update:
  "(\<And>s. wk_backend (g s) = wk_backend s \<and> wk_coordinator (g s) = wk_coordinator s \<and> wk_world (g s) = wk_world s \<and>
     wk_prepared_stream (g s) = wk_prepared_stream s \<and> wk_pending_up_recovery (g s) \<in> {wk_pending_up_recovery s, None}) \<Longrightarrow>
   frames (kept_over p pressed) (supdate g)"
  by (rule kept.frames_supdate) (simp add: kept_over_def worker_entries_def)

lemma kept_small:
  "frames (kept_over p pressed) forget_target" "frames (kept_over p pressed) invalidate_down_authorization"
  "frames (kept_over p pressed) invalidate_guard" "frames (kept_over p pressed) (observe_future_down_boundary boundary)"
  "frames (kept_over p pressed) (invalidate_guard_if b)"
  unfolding forget_target_def invalidate_down_authorization_def invalidate_guard_def observe_future_down_boundary_def invalidate_guard_if_def
  by (intro kept.frame_intros kept_update; simp)+

lemma kept_stop: "frames (kept_over p pressed) (stop_with step)" "frames (kept_over p pressed) (debug_assert P)"
  "frames (kept_over p pressed) (require_some step x)" "frames (kept_over p pressed) (orelse f z)"
  "frames (kept_over p pressed) (elapsed_at g now)"
  by (auto simp: frames_def stop_with_def debug_assert_def require_some_def orelse_def elapsed_at_def kept.frame_refl split: option.splits sum.splits)

lemma kept_backend:
  "(\<And>self w. transport_ok p pressed (self, w) \<Longrightarrow> transport_ok p pressed (f self, w)) \<Longrightarrow>
   frames (kept_over p pressed) (supdate (\<lambda>s. s\<lparr>wk_backend := f (wk_backend s)\<rparr>))"
  by (rule kept.frames_supdate) (simp add: kept_over_def worker_entries_def)

lemma kept_timing_error: "frames (kept_over p pressed) take_timing_error"
  unfolding take_timing_error_def
  by (intro kept.frame_intros kept_backend) (simp add: transport_ok_def masks_account_def recorded_def)

lemma kept_qpc:
  assumes "keyboard_ok os pressed"
  shows "frames (kept_over p pressed) (qpc_sample os reason)"
  unfolding qpc_sample_def by (intro kept_in_world still_renamed still_qpc [OF assms])

lemma kept_guard: "frames (kept_over p pressed) (in_guard reason m g)"
  by (simp add: frames_def kept_over_def in_guard_def zoom_def case_prod_unfold worker_entries_def)

text \<open>The gates press no key.\<close>

lemma still_case_option:
  "still_keys pressed m \<Longrightarrow> (\<And>x. still_keys pressed (f x)) \<Longrightarrow> still_keys pressed (case z of None \<Rightarrow> m | Some x \<Rightarrow> f x)"
  by (cases z) simp_all

lemma still_sfold: "(\<And>x a. still_keys pressed (f x a)) \<Longrightarrow> still_keys pressed (sfold f xs a)"
  by (induction xs arbitrary: a) (auto intro: still_sret still_sbind)

lemma still_os:
  assumes "keyboard_ok os pressed"
  shows "still_keys pressed (atomic (os_key_state os v))" "still_keys pressed (atomic (os_foreground_window os))"
    "still_keys pressed (atomic (os_window_process os h))" "still_keys pressed (atomic (foreground_window_matches os h))"
    "still_keys pressed (atomic (os_now os))"
proof -
  show "still_keys pressed (atomic (foreground_window_matches os h))"
    using foreground_quiet [OF assms] by (intro still_atomic) (metis quiet_access_def prod.collapse)
qed (use assms in \<open>intro still_atomic; simp add: quiet_access_def keyboard_ok_def\<close>)+

lemma still_shared:
  assumes "shared_quiet sh pressed"
  shows "still_keys pressed (owner_identity_status sh g)" "still_keys pressed (load_target_stamp sh)"
    "still_keys pressed (prove_down_age sh now timeout)" "still_keys pressed (down_blocked sh)"
    "still_keys pressed (atomic (sh_desired_pause sh))" "still_keys pressed (consume_panic_request_if_pending sh b)"
  unfolding owner_identity_status_def load_target_stamp_def load_stable_def prove_down_age_def Let_def down_blocked_def
    system_suspend_terminal_def consume_panic_request_if_pending_def
  using assms by (intro still_intros still_atomic; simp add: shared_quiet_def)+

lemma still_revalidated:
  assumes "shared_quiet sh pressed"
  shows "still_keys pressed (final_down_atomic_revalidation sh expected req)" "still_keys pressed (final_down_control_verdict sh)"
  unfolding final_down_atomic_revalidation_def final_down_control_verdict_def
  by (intro still_intros calm_readings [OF assms] still_shared [OF assms])+

lemma still_owner_match:
  assumes "keyboard_ok os pressed"
  shows "still_keys pressed (foreground_window_owner_matches os h pid)"
  unfolding foreground_window_owner_matches_def by (intro still_intros still_os [OF assms]) (simp add: still_sret split: prod.split)

lemma still_gates:
  assumes k: "keyboard_ok os pressed" and q: "shared_quiet sh pressed"
  shows "still_keys pressed (final_down_target_admission os sh expected req)" "still_keys pressed (final_down_modifier_verdict os)"
    "still_keys pressed (final_down_post_modifier_verdict os sh expected req timeout)"
    "still_keys pressed (focus_matches_hwnd os sh req h)"
proof -
  have owner: "still_keys pressed (case x of OwnerMatch \<Rightarrow> m | NotForeground \<Rightarrow> sret a | ForegroundOwnerMismatch \<Rightarrow> sret b
      | ForegroundQueryUnavailable \<Rightarrow> sret c)" if "still_keys pressed m" for x m a b c
    using that by (cases x) (simp_all add: still_sret)
  show "still_keys pressed (final_down_target_admission os sh expected req)"
    unfolding final_down_target_admission_def
    by (intro still_intros owner still_revalidated [OF q] calm_readings [OF q] still_shared [OF q] still_owner_match [OF k])
  show "still_keys pressed (final_down_modifier_verdict os)"
    unfolding final_down_modifier_verdict_def observe_current_modifier_keys_def
    by (intro still_intros still_sfold) (simp split: prod.split, intro still_intros allI impI still_os [OF k])
  have lease: "still_keys pressed (case x of LeaseFresh \<Rightarrow> m | LeaseStateExpired \<Rightarrow> sret a | LeaseStateUnproven \<Rightarrow> sret b)"
    if "still_keys pressed m" for x m a b
    using that by (cases x) (simp_all add: still_sret)
  show "still_keys pressed (final_down_post_modifier_verdict os sh expected req timeout)"
    unfolding final_down_post_modifier_verdict_def final_down_lease_age_proof_def
    by (intro still_intros lease still_revalidated [OF q] still_shared [OF q] still_qpc [OF k])
  show "still_keys pressed (focus_matches_hwnd os sh req h)"
    unfolding focus_matches_hwnd_def using q
    by (intro still_intros still_os [OF k] still_atomic) (simp add: shared_quiet_def)
qed


section \<open>Views and the session behind them\<close>

text \<open>A view of a packet whose commit is a token of the session and accounts for exactly the keys of the packet.\<close>

definition view_true :: "instrument_key_profile \<Rightarrow> prepared_authored_commit set \<Rightarrow> authored_batch_view \<Rightarrow> bool" where
  "view_true p T view \<longleftrightarrow> (\<exists>ticks. view_ok (from_validated p) ticks (av_packet_masks view) view) \<and>
     commits_packet (av_packet_masks view) (av_commit view) \<and>
     (\<forall>token. authored_commit_of (av_commit view) = Some token \<longrightarrow> token \<in> T \<and> covered token)"

definition entry_true :: "instrument_key_profile \<Rightarrow> prepared_authored_commit set \<Rightarrow> prepared_dispatch_entry \<Rightarrow> bool" where
  "entry_true p T entry \<longleftrightarrow> (case entry of PhysicalEntry view \<Rightarrow> view_true p T view | MetadataEntry _ commit \<Rightarrow> commit \<in> T \<and> covered commit)"

definition backed :: "instrument_key_profile \<Rightarrow> session \<Rightarrow> ('w, 't) worker \<Rightarrow> bool" where
  "backed p ss s \<longleftrightarrow> session_reachable ss \<and> wk_coordinator s = se_coordinator ss \<and>
     (\<forall>entry \<in> set (worker_entries s). entry_true p (set (se_tokens ss)) entry) \<and>
     (\<forall>r. wk_pending_up_recovery s = Some r \<longrightarrow> pr_authored_commit r \<in> set (se_tokens ss))"

lemma view_true_mono: "view_true p T view \<Longrightarrow> T \<subseteq> T' \<Longrightarrow> view_true p T' view"
  unfolding view_true_def by blast

lemma entry_true_mono: "entry_true p T entry \<Longrightarrow> T \<subseteq> T' \<Longrightarrow> entry_true p T' entry"
  by (cases entry) (auto simp: entry_true_def intro: view_true_mono)

text \<open>The keyboard and the ledger in step.\<close>

definition in_step :: "instrument_key_profile \<Rightarrow> ('w \<Rightarrow> u16 set) \<Rightarrow> session \<Rightarrow> ('w, 't) worker \<Rightarrow> bool" where
  "in_step p pressed ss s \<longleftrightarrow> transport_ok p pressed (wk_backend s, wk_world s) \<and> backed p ss s \<and>
     down_slots p (pressed (wk_world s)) = keys_of (wk_coordinator s)"

lemma backed_kept: "backed p ss s \<Longrightarrow> kept_over p pressed s t \<Longrightarrow> backed p ss t"
  by (auto simp: backed_def kept_over_def)

lemma in_step_kept: "in_step p pressed ss s \<Longrightarrow> kept_over p pressed s t \<Longrightarrow> in_step p pressed ss t"
  using backed_kept [of p ss s pressed t] by (auto simp: in_step_def kept_over_def)

text \<open>The session moves on with the coordinator; its tokens stay.\<close>

lemma backed_move:
  assumes b: "backed p ss s" and st: "session_step ss (ss\<lparr>se_coordinator := c\<rparr>)"
  shows "backed p (ss\<lparr>se_coordinator := c\<rparr>) (s\<lparr>wk_coordinator := c\<rparr>)"
proof -
  have "session_reachable (ss\<lparr>se_coordinator := c\<rparr>)"
    by (rule reachable.step [where s = ss]) (use b st in \<open>simp_all add: backed_def\<close>)
  then show ?thesis using b by (simp add: backed_def worker_entries_def)
qed

section \<open>Commits\<close>

text \<open>What a commit of the packet leaves: the ledger owns what the packet says.\<close>

definition committed :: "instrument_key_profile \<Rightarrow> prepared_authored_commit set \<Rightarrow> physical_packet \<Rightarrow> bool \<Rightarrow> ('w, 't) worker \<Rightarrow> ('w, 't) worker \<Rightarrow> bool" where
  "committed p T packet success s t \<longleftrightarrow> (\<exists>c ss'. t = s\<lparr>wk_coordinator := c\<rparr> \<and> backed p ss' t \<and> T \<subseteq> set (se_tokens ss') \<and>
     keys_of c = keys_of (wk_coordinator s) - bits (pkt_up_mask packet) \<union> (if success then bits (pkt_down_mask packet) else {}))"

lemma committedI:
  assumes "backed p ss s" and "session_step ss (ss\<lparr>se_coordinator := c\<rparr>)"
    and "keys_of c = keys_of (wk_coordinator s) - bits (pkt_up_mask packet) \<union> (if success then bits (pkt_down_mask packet) else {})"
  shows "committed p (set (se_tokens ss)) packet success s (s\<lparr>wk_coordinator := c\<rparr>)"
  unfolding committed_def using backed_move [OF assms(1,2)] assms(3) by (intro exI [of _ c] exI [of _ "ss\<lparr>se_coordinator := c\<rparr>"]) simp

lemma frozen_success:
  assumes b: "backed p ss s" and tok: "token \<in> set (se_tokens ss)" and cov: "covered token"
    and packet: "packet = packet_new (pf_immediate_up_mask (pc_frame token)) (pf_down_mask (pc_frame token))"
    and run: "commit_prepared_authored_frame_success_frozen token started (wk_coordinator s) = (Inr (), c)"
  shows "committed p (set (se_tokens ss)) packet True s (s\<lparr>wk_coordinator := c\<rparr>)"
proof (rule committedI [OF b])
  have c: "wk_coordinator s = se_coordinator ss" and R: "session_reachable ss" using b by (simp_all add: backed_def)
  show "session_step ss (ss\<lparr>se_coordinator := c\<rparr>)" using session_success [OF tok] run c by simp
  show "keys_of c = keys_of (wk_coordinator s) - bits (pkt_up_mask packet) \<union> (if True then bits (pkt_down_mask packet) else {})"
    using success_keys [OF _ _ cov run] session_reachableD(1,4) [OF R] tok c packet by simp
qed

lemma frozen_miss:
  assumes b: "backed p ss s" and tok: "token \<in> set (se_tokens ss)" and cov: "covered token"
    and packet: "packet = packet_new (pf_immediate_up_mask (pc_frame token)) (pf_down_mask (pc_frame token))"
    and run: "commit_prepared_authored_frame_deadline_miss token um dm started (wk_coordinator s) = (Inr (), c)"
  shows "committed p (set (se_tokens ss)) packet False s (s\<lparr>wk_coordinator := c\<rparr>)"
proof (rule committedI [OF b])
  have c: "wk_coordinator s = se_coordinator ss" and R: "session_reachable ss" using b by (simp_all add: backed_def)
  show "session_step ss (ss\<lparr>se_coordinator := c\<rparr>)" using session_miss [OF tok] run c by simp
  show "keys_of c = keys_of (wk_coordinator s) - bits (pkt_up_mask packet) \<union> (if False then bits (pkt_down_mask packet) else {})"
    using miss_keys [OF _ _ cov run] session_reachableD(1,4) [OF R] tok c packet by simp
qed

lemma pending_success:
  assumes b: "backed p ss s" and small: "\<forall>n. bit m n \<longrightarrow> n < MAX_KEYS"
    and run: "commit_pending_release_success m started (wk_coordinator s) = (Inr (), c)"
  shows "backed p (ss\<lparr>se_coordinator := c\<rparr>) (s\<lparr>wk_coordinator := c\<rparr>)" and "committed p (set (se_tokens ss)) (packet_new m 0) True s (s\<lparr>wk_coordinator := c\<rparr>)"
proof -
  have st: "session_step ss (ss\<lparr>se_coordinator := c\<rparr>)" using session_release run b by (simp add: backed_def)
  show "backed p (ss\<lparr>se_coordinator := c\<rparr>) (s\<lparr>wk_coordinator := c\<rparr>)" by (rule backed_move [OF b st])
  show "committed p (set (se_tokens ss)) (packet_new m 0) True s (s\<lparr>wk_coordinator := c\<rparr>)"
    by (rule committedI [OF b st]) (use pending_keys [OF small run] in auto)
qed

text \<open>A deferred release and the frame that joins it.\<close>

lemma committedD:
  assumes "committed p T packet success s (s\<lparr>wk_coordinator := c\<rparr>)"
  shows "\<exists>ss'. backed p ss' (s\<lparr>wk_coordinator := c\<rparr>) \<and> T \<subseteq> set (se_tokens ss')"
    and "keys_of c = keys_of (wk_coordinator s) - bits (pkt_up_mask packet) \<union> (if success then bits (pkt_down_mask packet) else {})"
proof -
  obtain c' ss' where same: "s\<lparr>wk_coordinator := c\<rparr> = s\<lparr>wk_coordinator := c'\<rparr>" and b: "backed p ss' (s\<lparr>wk_coordinator := c\<rparr>)" "T \<subseteq> set (se_tokens ss')"
    and keys: "keys_of c' = keys_of (wk_coordinator s) - bits (pkt_up_mask packet) \<union> (if success then bits (pkt_down_mask packet) else {})"
    using assms unfolding committed_def by blast
  have "c' = c" using arg_cong [OF same, of wk_coordinator] by simp
  then show "\<exists>ss'. backed p ss' (s\<lparr>wk_coordinator := c\<rparr>) \<and> T \<subseteq> set (se_tokens ss')"
      "keys_of c = keys_of (wk_coordinator s) - bits (pkt_up_mask packet) \<union> (if success then bits (pkt_down_mask packet) else {})"
    using b keys by blast+
qed

lemma committed_after:
  assumes first: "committed p T (packet_new m 0) True s (s\<lparr>wk_coordinator := c1\<rparr>)"
    and second: "committed p T (packet_new u d) success (s\<lparr>wk_coordinator := c1\<rparr>) (s\<lparr>wk_coordinator := c1\<rparr>\<lparr>wk_coordinator := c2\<rparr>)"
  shows "committed p T (packet_new (u OR m) d) success s (s\<lparr>wk_coordinator := c2\<rparr>)"
proof -
  let ?down = "if success then bits d else {}"
  have "keys_of c1 = keys_of (wk_coordinator s) - bits m" using committedD(2) [OF first] by auto
  moreover have "keys_of c2 = keys_of c1 - bits u \<union> ?down" using committedD(2) [OF second] by simp
  moreover have "bits (u OR m) = bits u \<union> bits m" by (rule bits_ops)
  ultimately have "keys_of c2 = keys_of (wk_coordinator s) - bits (u OR m) \<union> ?down" by blast
  moreover obtain ss' where "backed p ss' (s\<lparr>wk_coordinator := c2\<rparr>)" "T \<subseteq> set (se_tokens ss')" using committedD(1) [OF second] by auto
  ultimately show ?thesis unfolding committed_def pkt_packet_new by blast
qed


lemma wlp_in_coordinator:
  assumes "\<And>a c. m (wk_coordinator s) = (Inr a, c) \<Longrightarrow> Q a (s\<lparr>wk_coordinator := c\<rparr>)" and "\<And>e t. E (reason e) t"
  shows "wlp (in_coordinator reason m) Q E s"
  using assms by (auto simp: wlp_def in_coordinator_def zoom_def renamed_def map_err_def split: prod.splits sum.splits failure.splits)
    (metis failure.distinct(1) failure.exhaust failure.inject failure.map)

lemma wlp_stop: "\<not> goes_on step \<Longrightarrow> wlp (stop_with step) Q (\<lambda>step t. goes_on step \<longrightarrow> J t) s"
  unfolding stop_with_def by (rule wlp_sfail) simp

lemma ends [simp]: "\<not> goes_on (Terminate reason)" "\<not> goes_on (TerminateStatic message)"
  by (simp_all add: goes_on_def)

lemma view_trueD:
  assumes "view_true p T view"
  shows "sendable (av_packet_masks view)" and "commits_packet (av_packet_masks view) (av_commit view)"
    and "authored_commit_of (av_commit view) = Some token \<Longrightarrow> token \<in> T \<and> covered token"
    and "try_new_with_profile (av_packet_masks view) (from_validated p) = Inr (av_prepared_packet view)"
    and "av_recovery view = prepare_up_recovery_descriptor (av_packet_masks view)"
proof -
  obtain ticks where v: "view_ok (from_validated p) ticks (av_packet_masks view) view" using assms by (auto simp: view_true_def)
  show s: "sendable (av_packet_masks view)" and "av_recovery view = prepare_up_recovery_descriptor (av_packet_masks view)"
    using v by (simp_all add: view_ok_def)
  show "try_new_with_profile (av_packet_masks view) (from_validated p) = Inr (av_prepared_packet view)"
    using try_new_sendable [OF from_validated_ok s] v by (simp add: view_ok_def)
  show "commits_packet (av_packet_masks view) (av_commit view)"
      "authored_commit_of (av_commit view) = Some token \<Longrightarrow> token \<in> T \<and> covered token"
    using assms by (simp_all add: view_true_def)
qed

lemma sendable_bits: "sendable packet \<Longrightarrow> bit (pkt_up_mask packet) n \<Longrightarrow> n < MAX_KEYS"
  by (simp add: sendable_def)

text \<open>The commit after a successful transaction, and the commit of a missed boundary.\<close>

lemma wlp_commit_sent:
  assumes b: "backed p ss s" and v: "view_true p (set (se_tokens ss)) view"
  shows "wlp (commit_sent (av_commit view) started) (\<lambda>_ t. committed p (set (se_tokens ss)) (av_packet_masks view) True s t) (\<lambda>step t. goes_on step \<longrightarrow> J t) s"
proof -
  note V = view_trueD [OF v]
  show ?thesis
  proof (cases "av_commit view")
    case (Authored token)
    then have tok: "token \<in> set (se_tokens ss)" "covered token" using V(3) by simp_all
    have "av_packet_masks view = packet_new (pf_immediate_up_mask (pc_frame token)) (pf_down_mask (pc_frame token))"
      using V(2) Authored by (simp add: commits_packet_def)
    then show ?thesis using frozen_success [OF b tok] unfolding commit_sent_def Let_def Authored
      by (auto intro: wlp_in_coordinator)
  next
    case (PendingReleaseCommit m due)
    then have packet: "av_packet_masks view = packet_new m 0" using V(2) by (simp add: commits_packet_def)
    then have small: "\<forall>n. bit m n \<longrightarrow> n < MAX_KEYS" using sendable_bits [OF V(1)] by simp
    show ?thesis using pending_success(2) [OF b small] unfolding commit_sent_def Let_def PendingReleaseCommit packet physical_commit.case
      by (intro wlp_if wlp_stop wlp_in_coordinator) simp_all
  next
    case (Coalesced token m due)
    then have tok: "token \<in> set (se_tokens ss)" "covered token" using V(3) by simp_all
    have packet: "av_packet_masks view = packet_new (pf_immediate_up_mask (pc_frame token) OR m) (pf_down_mask (pc_frame token))"
      using V(2) Coalesced by (simp add: commits_packet_def)
    then have small: "\<forall>n. bit m n \<longrightarrow> n < MAX_KEYS" using sendable_bits [OF V(1)] by (simp add: bit_or_mask)
    have both: "committed p (set (se_tokens ss)) (av_packet_masks view) True s (s\<lparr>wk_coordinator := c\<rparr>)"
      if run: "sbind (commit_pending_release_success m started) (\<lambda>_. commit_prepared_authored_frame_success_frozen token started) (wk_coordinator s) = (Inr a, c)" for a c
    proof -
      obtain c1 where one: "commit_pending_release_success m started (wk_coordinator s) = (Inr (), c1)"
          and two: "commit_prepared_authored_frame_success_frozen token started c1 = (Inr (), c)"
        using run by (auto simp: sbind_eq_Inr)
      note b1 = pending_success(1) [OF b small one]
      have "committed p (set (se_tokens ss)) (packet_new (pf_immediate_up_mask (pc_frame token)) (pf_down_mask (pc_frame token))) True
          (s\<lparr>wk_coordinator := c1\<rparr>) (s\<lparr>wk_coordinator := c1\<rparr>\<lparr>wk_coordinator := c\<rparr>)"
        using frozen_success [OF b1 _ tok(2) refl, of started c] two tok by simp
      from committed_after [OF pending_success(2) [OF b small one] this] show ?thesis unfolding packet .
    qed
    show ?thesis unfolding commit_sent_def Let_def Coalesced physical_commit.case
      by (intro wlp_if wlp_stop wlp_in_coordinator both) simp_all
  qed
qed

lemma wlp_commit_missed:
  assumes b: "backed p ss s" and v: "view_true p (set (se_tokens ss)) view"
  shows "wlp (commit_missed_down_boundary view started) (\<lambda>_ t. committed p (set (se_tokens ss)) (av_packet_masks view) False s t) (\<lambda>step t. goes_on step \<longrightarrow> J t) s"
proof -
  note V = view_trueD [OF v]
  have elapsed: "wlp (elapsed_at (\<lambda>e. Terminate (MissedDownClockFailure e)) started) (\<lambda>_ t. t = s) (\<lambda>step t. goes_on step \<longrightarrow> J t) s"
    by (auto simp: wlp_def elapsed_at_def map_err_def split: sum.splits)
  show ?thesis unfolding commit_missed_down_boundary_def Let_def
  proof (rule wlp_sbind [OF elapsed], rule wlp_sbind [where R = "\<lambda>_ t. committed p (set (se_tokens ss)) (av_packet_masks view) False s t"])
    fix started_effective t assume t: "t = s"
    show "wlp (case av_commit view of
         Authored commit \<Rightarrow>
           in_coordinator (\<lambda>e. Terminate (MissedDownCommitFailure e)) (commit_prepared_authored_frame_deadline_miss commit (pkt_up_mask (av_packet_masks view))
             (pkt_down_mask (av_packet_masks view)) started_effective)
       | PendingReleaseCommit m due_ticks \<Rightarrow>
           stop_with (TerminateStatic ''pending release cannot carry a missed authored Down'')
       | Coalesced token release_mask due_ticks \<Rightarrow>
           if started_effective < due_ticks
           then stop_with (TerminateStatic ''coalesced missed Down recovery started before Up due boundary'')
           else in_coordinator (\<lambda>e. Terminate (MissedDownCommitFailure e)) (sbind (commit_pending_release_success release_mask started_effective)
             (\<lambda>_. commit_prepared_authored_frame_deadline_miss token (pf_immediate_up_mask (pc_frame token))
               (pf_down_mask (pc_frame token)) started_effective)))
      (\<lambda>_ t. committed p (set (se_tokens ss)) (av_packet_masks view) False s t) (\<lambda>step t. goes_on step \<longrightarrow> J t) t"
    proof (cases "av_commit view")
      case (Authored token)
      then have tok: "token \<in> set (se_tokens ss)" "covered token" using V(3) by simp_all
      have "av_packet_masks view = packet_new (pf_immediate_up_mask (pc_frame token)) (pf_down_mask (pc_frame token))"
        using V(2) Authored by (simp add: commits_packet_def)
      then show ?thesis using frozen_miss [OF b tok] unfolding Authored physical_commit.case t
        by (intro wlp_in_coordinator) simp_all
    next
      case (PendingReleaseCommit m due)
      then show ?thesis by (simp add: wlp_stop)
    next
      case (Coalesced token m due)
      then have tok: "token \<in> set (se_tokens ss)" "covered token" using V(3) by simp_all
      have packet: "av_packet_masks view = packet_new (pf_immediate_up_mask (pc_frame token) OR m) (pf_down_mask (pc_frame token))"
        using V(2) Coalesced by (simp add: commits_packet_def)
      then have small: "\<forall>n. bit m n \<longrightarrow> n < MAX_KEYS" using sendable_bits [OF V(1)] by (simp add: bit_or_mask)
      have both: "committed p (set (se_tokens ss)) (av_packet_masks view) False s (s\<lparr>wk_coordinator := c\<rparr>)"
        if run: "sbind (commit_pending_release_success m started_effective) (\<lambda>_. commit_prepared_authored_frame_deadline_miss token
            (pf_immediate_up_mask (pc_frame token)) (pf_down_mask (pc_frame token)) started_effective) (wk_coordinator s) = (Inr a, c)" for a c
      proof -
        obtain c1 where one: "commit_pending_release_success m started_effective (wk_coordinator s) = (Inr (), c1)"
            and two: "commit_prepared_authored_frame_deadline_miss token (pf_immediate_up_mask (pc_frame token))
              (pf_down_mask (pc_frame token)) started_effective c1 = (Inr (), c)"
          using run by (auto simp: sbind_eq_Inr)
        note b1 = pending_success(1) [OF b small one]
        have "committed p (set (se_tokens ss)) (packet_new (pf_immediate_up_mask (pc_frame token)) (pf_down_mask (pc_frame token))) False
            (s\<lparr>wk_coordinator := c1\<rparr>) (s\<lparr>wk_coordinator := c1\<rparr>\<lparr>wk_coordinator := c\<rparr>)"
          using frozen_miss [OF b1 _ tok(2) refl, where c = c] two tok by simp
        from committed_after [OF pending_success(2) [OF b small one] this] show ?thesis unfolding packet .
      qed
      show ?thesis unfolding Coalesced physical_commit.case t
        by (intro wlp_if wlp_stop wlp_in_coordinator both) simp_all
    qed
  qed (rule wlp_sret)
qed


section \<open>After the transaction\<close>

text \<open>A packet has been sent, and if it was inserted the keyboard is ahead of the ledger by exactly that packet.\<close>

definition ahead :: "instrument_key_profile \<Rightarrow> ('w \<Rightarrow> u16 set) \<Rightarrow> session \<Rightarrow> physical_packet \<Rightarrow> bool \<Rightarrow> ('w, 't) worker \<Rightarrow> bool" where
  "ahead p pressed ss packet success s \<longleftrightarrow> transport_ok p pressed (wk_backend s, wk_world s) \<and> backed p ss s \<and>
     (success \<longrightarrow> down_slots p (pressed (wk_world s)) =
        keys_of (wk_coordinator s) - bits (pkt_up_mask packet) \<union> bits (pkt_down_mask packet))"

definition steady :: "instrument_key_profile \<Rightarrow> ('w \<Rightarrow> u16 set) \<Rightarrow> prepared_authored_commit set \<Rightarrow> ('w, 't) worker \<Rightarrow> bool" where
  "steady p pressed T s \<longleftrightarrow> (\<exists>ss. in_step p pressed ss s \<and> T \<subseteq> set (se_tokens ss))"

lemma ahead_kept: "ahead p pressed ss packet success s \<Longrightarrow> kept_over p pressed s t \<Longrightarrow> ahead p pressed ss packet success t"
  using backed_kept [of p ss s pressed t] by (auto simp: ahead_def kept_over_def)

lemma steady_kept: "steady p pressed T s \<Longrightarrow> kept_over p pressed s t \<Longrightarrow> steady p pressed T t"
  using in_step_kept unfolding steady_def by blast

lemma ahead_committed:
  assumes a: "ahead p pressed ss packet True s" and c: "committed p (set (se_tokens ss)) packet True s t"
  shows "steady p pressed (set (se_tokens ss)) t"
proof -
  obtain c ss' where t: "t = s\<lparr>wk_coordinator := c\<rparr>" "backed p ss' t" "set (se_tokens ss) \<subseteq> set (se_tokens ss')"
      "keys_of c = keys_of (wk_coordinator s) - bits (pkt_up_mask packet) \<union> bits (pkt_down_mask packet)"
    using c by (auto simp: committed_def)
  then have "in_step p pressed ss' t" using a by (simp add: in_step_def ahead_def)
  then show ?thesis using t(3) unfolding steady_def by blast
qed

lemma released_committed:
  assumes a: "ahead p pressed ss (packet_new (pkt_up_mask packet) 0) True s" and c: "committed p (set (se_tokens ss)) packet False s t"
  shows "steady p pressed (set (se_tokens ss)) t"
proof -
  have "committed p (set (se_tokens ss)) (packet_new (pkt_up_mask packet) 0) True s t" using c by (auto simp: committed_def)
  with a show ?thesis by (rule ahead_committed)
qed

text \<open>Frames on both sides of the commit.\<close>

lemma before_commit:
  assumes "frames (kept_over p pressed) m" and "fatal m" and "ahead p pressed ss packet success s"
  shows "wlp m (\<lambda>_. ahead p pressed ss packet success) (\<lambda>step t. goes_on step \<longrightarrow> J t) s"
  by (rule wlp_fatal [OF assms(1,2)]) (use assms(3) ahead_kept in blast)

lemma steady_wlp:
  "frames (kept_over p pressed) m \<Longrightarrow> steady p pressed T s \<Longrightarrow> wlp m (\<lambda>_. steady p pressed T) (\<lambda>_. steady p pressed T) s"
  by (erule wlp_frame) (auto intro: steady_kept)

abbreviation onwards :: "(('w, 't) worker \<Rightarrow> bool) \<Rightarrow> dispatch_step \<Rightarrow> ('w, 't) worker \<Rightarrow> bool" where
  "onwards J \<equiv> \<lambda>step t. goes_on step \<longrightarrow> J t"

lemma steady_onwards:
  "frames (kept_over p pressed) m \<Longrightarrow> steady p pressed T s \<Longrightarrow> wlp m (\<lambda>_. steady p pressed T) (onwards (steady p pressed T)) s"
  by (erule wlp_frame) (auto intro: steady_kept)

lemma kept_slo: "frames (kept_over p pressed) (resolve_slo_terminal_step lost late err view)"
  unfolding resolve_slo_terminal_step_def by (intro kept.frame_intros kept_small kept_stop)

lemma kept_publisher:
  assumes "keyboard_ok os pressed"
  shows "frames (kept_over p pressed) (publisher_down_send_outcome os config view lost timing)"
  unfolding publisher_down_send_outcome_def by (intro kept.frame_intros kept_qpc [OF assms] kept_slo)

lemma fatal_guard: "fatal (in_guard reason m g)"
  unfolding in_guard_def by (intro fatal_zoom fatal_renamed) simp

lemmas fatal_intros = fatal_sbind fatal_if fatal_option fatal_sum fatal_simple fatal_named fatal_guard

lemma fatal_small: "fatal take_timing_error" "fatal (invalidate_guard_if b)" "fatal invalidate_guard" "fatal (observe_successful_completion q packet)"
  "fatal (observe_recovered_packet q m)"
  unfolding take_timing_error_def invalidate_guard_if_def invalidate_guard_def observe_successful_completion_def observe_recovered_packet_def
  by (intro fatal_intros)+

lemma kept_observed: "frames (kept_over p pressed) (observe_successful_completion q packet)" "frames (kept_over p pressed) (observe_recovered_packet q m)"
  unfolding observe_successful_completion_def observe_recovered_packet_def by (intro kept.frame_intros kept_stop kept_guard)+

lemma boundaries_commit:
  assumes a: "ahead p pressed ss (av_packet_masks view) True s" and v: "view_true p (set (se_tokens ss)) view"
  shows "wlp (resolve_send_boundaries view started completed) (\<lambda>_. steady p pressed (set (se_tokens ss))) (\<lambda>step t. goes_on step \<longrightarrow> J t) s"
proof -
  have commit: "wlp (commit_sent (av_commit view) t0) (\<lambda>_. steady p pressed (set (se_tokens ss))) (\<lambda>step t. goes_on step \<longrightarrow> J t) t"
    if "ahead p pressed ss (av_packet_masks view) True t" for t0 t
  proof -
    have "backed p ss t" using that by (simp add: ahead_def)
    from wlp_commit_sent [OF this v] show ?thesis by (rule wlp_mono) (use ahead_committed [OF that] in auto)
  qed
  show ?thesis unfolding resolve_send_boundaries_def
    apply (rule wlp_sbind, rule before_commit [OF kept_stop(3) fatal_named(1) a])
    apply (rule wlp_sbind, erule before_commit [OF kept_stop(3) fatal_named(1)])
    apply (rule wlp_sbind, erule before_commit [OF kept_stop(4) fatal_named(3)])
    apply (rule wlp_sbind, erule before_commit [OF kept_stop(5) fatal_named(4)])
    apply (rule wlp_sbind, erule before_commit [OF kept_stop(5) fatal_named(4)])
    apply (rule wlp_sbind, erule commit)
    apply (rule wlp_sret, assumption)
    done
qed

lemma kept_sum: "(\<And>x. frames (kept_over p pressed) (f x)) \<Longrightarrow> (\<And>x. frames (kept_over p pressed) (g x)) \<Longrightarrow>
    frames (kept_over p pressed) (case z of Inl x \<Rightarrow> f x | Inr x \<Rightarrow> g x)"
  by (cases z) simp_all

lemma interpretation_commits:
  assumes a: "ahead p pressed ss (av_packet_masks view) True s" and v: "view_true p (set (se_tokens ss)) view"
  shows "wlp (interpret_down_send_timing config view target result) (\<lambda>_. steady p pressed (set (se_tokens ss))) (onwards (steady p pressed (set (se_tokens ss)))) s"
  unfolding interpret_down_send_timing_def Let_def
  apply (rule wlp_sbind)
   apply (rule before_commit [OF _ _ a])
    apply (intro kept.frame_intros kept_sum kept_stop)
   apply (intro fatal_intros)
  apply (rule wlp_sbind, erule boundaries_commit [OF _ v])
  apply (simp only: split_beta)
  apply (rule steady_onwards)
   apply (intro kept.frame_intros kept_stop)
  apply assumption
  done

lemma finalize_commits:
  assumes k: "keyboard_ok os pressed"
    and a: "ahead p pressed ss (av_packet_masks view) True s" and v: "view_true p (set (se_tokens ss)) view"
  shows "wlp (finalize_down_send_outcome os config view target result) (\<lambda>_. steady p pressed (set (se_tokens ss))) (onwards (steady p pressed (set (se_tokens ss)))) s"
  unfolding finalize_down_send_outcome_def
  by (rule wlp_sbind [OF interpretation_commits [OF a v]], rule steady_onwards)
     (intro kept.frame_intros kept_update kept_publisher [OF k]; simp)+

lemma record_commits:
  assumes k: "keyboard_ok os pressed"
    and a: "ahead p pressed ss (av_packet_masks view) (is_success result) s" and v: "view_true p (set (se_tokens ss)) view"
  shows "wlp (record_down_send_result os config view target result) (onwards (steady p pressed (set (se_tokens ss)))) (onwards (steady p pressed (set (se_tokens ss)))) s"
proof -
  have failed: "wlp (sbind (invalidate_guard_if b) (\<lambda>_. stop_with (Terminate reason))) (onwards (steady p pressed (set (se_tokens ss)))) (onwards (steady p pressed (set (se_tokens ss)))) t"
    for b reason t
    by (rule wlp_sbind [where R = "\<lambda>_ _. True"]) (simp_all add: wlp_def invalidate_guard_if_def invalidate_guard_def stop_with_def supdate_def)
  have unfinished: "wlp (sbind invalidate_guard (\<lambda>_. stop_with (TerminateStatic message))) (onwards (steady p pressed (set (se_tokens ss)))) (onwards (steady p pressed (set (se_tokens ss)))) t"
    for message t
    by (rule wlp_sbind [where R = "\<lambda>_ _. True"]) (simp_all add: wlp_def invalidate_guard_def stop_with_def supdate_def)
  show ?thesis unfolding record_down_send_result_def Let_def
    apply (rule wlp_sbind)
     apply (rule before_commit [OF _ _ a])
      apply (intro kept.frame_intros kept_sum kept_stop)
     apply (intro fatal_intros)
    apply (rule wlp_sbind, erule before_commit [rotated 2])
      apply (rule kept_update, simp)
     apply (rule fatal_intros)
    apply (rule wlp_sbind, erule before_commit [OF kept_timing_error fatal_small(1)])
    apply (rule wlp_option [rotated], rule failed)
    apply (rule wlp_sbind, erule before_commit [rotated 2])
      apply (intro kept.frame_intros kept_update, simp)
     apply (intro fatal_intros)
    apply (rule wlp_sbind, erule before_commit [rotated 2])
      apply (intro kept.frame_intros kept_update, simp)
     apply (intro fatal_intros)
    apply (rule wlp_if, rule failed)
    apply (rule wlp_option, rule unfinished)
    apply (simp only: not_not)
    apply (rule wlp_sbind, erule before_commit [OF kept_observed(1) fatal_small(4)])
    apply (rule wlp_mono [OF finalize_commits [OF k _ v]], simp)
    apply simp_all
    done
qed


section \<open>The transaction\<close>

lemma in_step_wlp:
  "frames (kept_over p pressed) m \<Longrightarrow> in_step p pressed ss s \<Longrightarrow>
   wlp m (\<lambda>_. in_step p pressed ss) (onwards (steady p pressed (set (se_tokens ss)))) s"
  by (erule wlp_frame) (auto intro: in_step_kept simp: steady_def)

lemma steadyI: "in_step p pressed ss s \<Longrightarrow> steady p pressed (set (se_tokens ss)) s"
  by (auto simp: steady_def)

lemma wlp_send:
  assumes k: "keyboard_ok os pressed" and p: "session_profile p" and s: "in_step p pressed ss s" and v: "packet_view_ok p view"
  shows "wlp (in_backend (send_view os view st)) (\<lambda>r. ahead p pressed ss (vw_packet view) (is_success r)) E s"
proof -
  have ok: "transport_ok p pressed (wk_backend s, wk_world s)" using s by (simp add: in_step_def)
  obtain r self w where run: "send_view os view st (wk_backend s, wk_world s) = (r, (self, w))" by (metis prod.collapse)
  have promise: "send_promise p pressed (vw_packet view) (wk_backend s, wk_world s) a (self, w)" if "r = Inr a" for a
    using wp_Inr [OF send_view_promise [OF k p ok v, of st]] run that by auto
  have "ahead p pressed ss (vw_packet view) (is_success a) (s\<lparr>wk_backend := self, wk_world := w\<rparr>)" if "r = Inr a" for a
  proof -
    have "backed p ss (s\<lparr>wk_backend := self, wk_world := w\<rparr>)" using s by (simp add: in_step_def backed_def worker_entries_def)
    then show ?thesis using promise [OF that] s
      by (auto simp: ahead_def send_promise_def transaction_effect_def is_success_def in_step_def)
  qed
  then show ?thesis using run
    by (auto simp: wlp_def in_backend_def zoom_def renamed_def map_err_def split: sum.splits)
qed

lemma wlp_transaction:
  assumes k: "keyboard_ok os pressed" and p: "session_profile p" and s: "in_step p pressed ss s" and v: "view_true p T view"
  shows "wlp (in_backend (send_prepared_physical_packet_at_final_boundary os (av_prepared_packet view) None))
    (\<lambda>r. ahead p pressed ss (av_packet_masks view) (is_success r)) E s"
  using wlp_send [OF k p s prepared_view_ok(1) [OF view_trueD(4) [OF v]], of None E] prepared_view_ok(2) [OF view_trueD(4) [OF v]]
  by (simp add: send_prepared_physical_packet_at_final_boundary_def send_prepared_physical_packet_def send_prepared_physical_packet_view_def)

section \<open>A missed boundary\<close>

lemma wlp_prefix:
  assumes k: "keyboard_ok os pressed" and p: "session_profile p" and s: "in_step p pressed ss s" and v: "view_true p T view"
  shows "wlp (emit_prepared_up_prefix_if_needed os view)
    (\<lambda>r. ahead p pressed ss (packet_new (pkt_up_mask (av_packet_masks view)) 0) (is_success r)) (onwards (steady p pressed (set (se_tokens ss)))) s"
proof -
  have send: "wlp (in_backend (send_prepared_physical_packet_view os prefix))
      (\<lambda>r. ahead p pressed ss (packet_new (pkt_up_mask (av_packet_masks view)) 0) (is_success r)) (onwards (steady p pressed (set (se_tokens ss)))) s"
    if "up_recovery_view (av_prepared_packet view) = Some prefix" for prefix
    using wlp_send [OF k p s recovery_view_ok(1) [OF view_trueD(4) [OF v] that], of None] recovery_view_ok(2) [OF view_trueD(4) [OF v] that]
    by (simp add: send_prepared_physical_packet_view_def)
  show ?thesis unfolding emit_prepared_up_prefix_if_needed_def Let_def
    by (cases "av_recovery view"; simp only: recovery_descriptor.case; intro wlp_if wlp_option wlp_stop ends send)
qed

lemma recovered_prefix:
  assumes k: "keyboard_ok os pressed" and p: "session_profile p" and s: "in_step p pressed ss s" and v: "view_true p T view"
  shows "wlp (recover_up_prefix os view observed)
    (\<lambda>_. ahead p pressed ss (packet_new (pkt_up_mask (av_packet_masks view)) 0) True) (onwards (steady p pressed (set (se_tokens ss)))) s"
proof -
  let ?packet = "packet_new (pkt_up_mask (av_packet_masks view)) 0"
  have none: "ahead p pressed ss ?packet True s" if "pkt_up_mask (av_packet_masks view) = 0"
    using s that by (auto simp: ahead_def in_step_def)
  have failed: "wlp (sbind (invalidate_guard_if b) (\<lambda>_. stop_with (TerminateStatic message))) Q (onwards (steady p pressed (set (se_tokens ss)))) t" for b message Q t
    by (rule wlp_sbind [where R = "\<lambda>_ _. True"]) (simp_all add: wlp_def invalidate_guard_if_def invalidate_guard_def stop_with_def supdate_def)
  have unfinished: "wlp (sbind invalidate_guard (\<lambda>_. stop_with (TerminateStatic message))) Q (onwards (steady p pressed (set (se_tokens ss)))) t" for message Q t
    by (rule wlp_sbind [where R = "\<lambda>_ _. True"]) (simp_all add: wlp_def invalidate_guard_def stop_with_def supdate_def)
  show ?thesis unfolding recover_up_prefix_def Let_def
    apply (rule wlp_if, rule wlp_sret, erule none)
    apply (rule wlp_sbind, rule wlp_prefix [OF k p s v])
    apply (rule wlp_sbind, erule before_commit [OF kept_timing_error fatal_small(1)])
    apply (rule wlp_if, rule failed)
    apply (rule wlp_if, rule failed)
    apply (simp only: de_Morgan_disj not_not)
    apply (rule wlp_sbind, rule before_commit [OF kept_stop(3) fatal_named(2)], simp)
    apply (rule wlp_option, rule unfinished)
    apply (rule wlp_sbind, erule before_commit [OF kept_observed(2) fatal_small(5)])
    apply (rule wlp_sret, assumption)
    done
qed

lemma kept_validate: "frames (kept_over p pressed) (validate_identity reason commit)"
  unfolding validate_identity_def by (intro kept.frame_intros)

lemma recovered_missed:
  assumes k: "keyboard_ok os pressed" and p: "session_profile p" and s: "in_step p pressed ss s"
    and v: "view_true p (set (se_tokens ss)) view"
  shows "wlp (recover_missed_down_boundary os config view observed) (onwards (steady p pressed (set (se_tokens ss)))) (onwards (steady p pressed (set (se_tokens ss)))) s"
proof -
  have commit: "wlp (commit_missed_down_boundary view started) (\<lambda>_. steady p pressed (set (se_tokens ss))) (onwards (steady p pressed (set (se_tokens ss)))) t"
    if a: "ahead p pressed ss (packet_new (pkt_up_mask (av_packet_masks view)) 0) True t" for started t
  proof -
    have "backed p ss t" using a by (simp add: ahead_def)
    from wlp_commit_missed [OF this v] show ?thesis by (rule wlp_mono) (auto intro: released_committed [OF a])
  qed
  show ?thesis unfolding recover_missed_down_boundary_def
    apply (rule wlp_sbind, rule in_step_wlp [OF kept_validate s])
    apply (rule wlp_if, rule wlp_stop [OF ends(2)])
    apply (rule wlp_sbind, erule recovered_prefix [OF k p _ v])
    apply (rule wlp_sbind, erule commit)
    apply (rule wlp_if, rule wlp_sret, simp)
    apply (rule wlp_sbind, erule steady_onwards [rotated])
     apply (rule kept_backend, simp add: transport_ok_def masks_account_def recorded_def)
    apply (rule wlp_sret, simp)
    done
qed

section \<open>The admission changes nothing\<close>

lemma kept_focus_loss:
  assumes "keyboard_ok os pressed"
  shows "frames (kept_over p pressed) (handle_final_focus_loss os)" "frames (kept_over p pressed) (enter_focus_pause reason qpc)"
  unfolding handle_final_focus_loss_def enter_focus_pause_def
  by (intro kept.frame_intros kept_update kept_small kept_stop kept_in_playback kept_qpc [OF assms]; simp)+

lemma kept_rejection: "frames (kept_over p pressed) (apply_final_down_rejection answer)"
  by (cases answer; simp add: apply_final_down_rejection_def; intro kept.frame_intros kept_small)

lemma kept_rejections:
  assumes "keyboard_ok os pressed"
  shows "frames (kept_over p pressed) (authored_target_rejection_outcome os answer)"
    "frames (kept_over p pressed) (authored_post_modifier_rejection_outcome os answer)"
  by (cases answer; simp add: authored_target_rejection_outcome_def authored_post_modifier_rejection_outcome_def;
      intro kept.frame_intros kept_stop kept_focus_loss [OF assms])+

lemma kept_admit:
  assumes k: "keyboard_ok os pressed" and q: "shared_quiet sh pressed"
  shows "frames (kept_over p pressed) (admit_authored_down sh config view now target)"
  unfolding admit_authored_down_def Let_def
  by (intro kept.frame_intros kept_in_world calm_readings [OF q] kept_stop kept_small kept_focus_loss [OF k] kept_update; simp)

lemma kept_modifier_stage:
  assumes k: "keyboard_ok os pressed" and q: "shared_quiet sh pressed"
  shows "frames (kept_over p pressed) (finalize_modifier_stage os sh config target)"
proof -
  have held: "frames (kept_over p pressed) (case answer of DownModifierHeld m \<Rightarrow> stop_with (f m) | _ \<Rightarrow> stop_with x)" for answer f x
    by (cases answer) (simp_all add: kept_stop)
  show ?thesis unfolding finalize_modifier_stage_def
    by (intro kept.frame_intros held kept_in_world still_renamed still_gates [OF k q] kept_stop kept_rejection kept_rejections [OF k])
qed

lemma kept_finalize:
  assumes k: "keyboard_ok os pressed" and q: "shared_quiet sh pressed"
  shows "frames (kept_over p pressed) (finalize_authored_down_admission os sh config view missed crossing admission)"
proof (cases admission)
  case (AdmissionGuarded target)
  then show ?thesis unfolding finalize_authored_down_admission_def Let_def AdmissionGuarded admission_outcome.case
      resolve_target_crossing_qpc_def final_atomic_revalidation_def
    by (intro kept.frame_intros kept_in_world still_revalidated [OF q] still_gates [OF k q] kept_stop kept_rejection
        kept_rejections [OF k] kept_modifier_stage [OF k q] kept_qpc [OF k])
qed (simp_all add: finalize_authored_down_admission_def kept.frames_sret)


section \<open>The two paths\<close>

lemma wlp_precision:
  assumes k: "keyboard_ok os pressed" and q: "shared_quiet sh pressed" and p: "session_profile p"
    and s: "in_step p pressed ss s" and v: "view_true p T view"
  shows "wlp (send_prepared_normal_precision_frame os sh config view target)
    (\<lambda>r t. case r of PrecisionSent result \<Rightarrow> ahead p pressed ss (av_packet_masks view) (is_success result) t
       | PrecisionRejected _ \<Rightarrow> in_step p pressed ss t) (onwards (steady p pressed (set (se_tokens ss)))) s"
proof -
  let ?Q = "\<lambda>r t. case r of PrecisionSent result \<Rightarrow> ahead p pressed ss (av_packet_masks view) (is_success result) t
    | PrecisionRejected _ \<Rightarrow> in_step p pressed ss t"
  have send: "wlp (sbind (in_backend (send_prepared_physical_packet_at_final_boundary os (av_prepared_packet view) None))
      (\<lambda>result. sret (PrecisionSent result))) ?Q (onwards (steady p pressed (set (se_tokens ss)))) t" if "in_step p pressed ss t" for t
    by (rule wlp_sbind [OF wlp_transaction [OF k p that v]], rule wlp_sret, simp)
  have rejected: "wlp (sret (PrecisionRejected x)) ?Q (onwards (steady p pressed (set (se_tokens ss)))) t" if "in_step p pressed ss t" for x t
    using that by (intro wlp_sret) simp
  note gate = kept_in_world [OF still_revalidated(2) [OF q]] kept_in_world [OF still_gates(1) [OF k q]] kept_in_world [OF still_gates(2) [OF k q]]
    kept_in_world [OF still_renamed [OF still_gates(3) [OF k q]]]
  have suffix: "wlp (sbind (in_world (final_down_control_verdict sh)) (\<lambda>control.
      if control \<noteq> DownAllowed then sret (PrecisionRejected DownControlRejected)
      else if \<not> has_down then sbind (in_backend (send_prepared_physical_packet_at_final_boundary os (av_prepared_packet view) None))
          (\<lambda>result. sret (PrecisionSent result))
      else sbind (in_world (final_down_modifier_verdict os)) (\<lambda>modifier.
        if modifier \<noteq> DownAllowed then sret (PrecisionRejected modifier)
        else case target of
          None \<Rightarrow> sfail Panic
        | Some expected \<Rightarrow>
            sbind (in_world (renamed (map_failure (\<lambda>_. TerminateStatic ''prepared_down_qpc_failure''))
              (final_down_post_modifier_verdict os sh expected (cf_require_focus config) (cf_lease_timeout_ticks config)))) (\<lambda>answer.
            if answer \<noteq> DownAllowed then sret (PrecisionRejected answer)
            else sbind (in_backend (send_prepared_physical_packet_at_final_boundary os (av_prepared_packet view) None))
              (\<lambda>result. sret (PrecisionSent result)))))) ?Q (onwards (steady p pressed (set (se_tokens ss)))) t" if "in_step p pressed ss t" for has_down t
    apply (rule wlp_sbind, rule in_step_wlp [OF gate(1) that])
    apply (rule wlp_if, erule rejected)
    apply (rule wlp_if, erule send)
    apply (rule wlp_sbind, erule in_step_wlp [OF gate(3)])
    apply (rule wlp_if, erule rejected)
    apply (rule wlp_option, rule wlp_panic)
    apply (rule wlp_sbind, erule in_step_wlp [OF gate(4)])
    apply (rule wlp_if, erule rejected, erule send)
    done
  show ?thesis unfolding send_prepared_normal_precision_frame_def Let_def
    apply (rule wlp_if, rule suffix [OF s])
    apply (rule wlp_sbind, rule in_step_wlp [OF gate(1) s])
    apply (rule wlp_if, erule rejected)
    apply (rule wlp_option, rule wlp_stop [OF ends(2)])
    apply (rule wlp_sbind, erule in_step_wlp [OF gate(2)])
    apply (rule wlp_if, erule rejected, erule suffix)
    done
qed

lemma kept_finish: "frames (kept_over p pressed) (finish_prepared_normal_precision_result (PrecisionRejected answer))"
  by (cases answer; simp add: finish_prepared_normal_precision_result_def; intro kept.frame_intros kept_rejection kept_stop)

lemma wlp_finish:
  assumes "case r of PrecisionSent result \<Rightarrow> ahead p pressed ss packet (is_success result) s | PrecisionRejected _ \<Rightarrow> in_step p pressed ss s"
  shows "wlp (finish_prepared_normal_precision_result r)
    (\<lambda>finished t. case finished of Some result \<Rightarrow> ahead p pressed ss packet (is_success result) t | None \<Rightarrow> in_step p pressed ss t)
    (onwards (steady p pressed (set (se_tokens ss)))) s"
proof (cases r)
  case (PrecisionRejected answer)
  have "finished = None" if "finish_prepared_normal_precision_result (PrecisionRejected answer) s = (Inr finished, t)" for finished t
    using that by (cases answer) (auto simp: finish_prepared_normal_precision_result_def sbind_apply stop_with_def split: prod.splits sum.splits)
  then show ?thesis using in_step_wlp [OF kept_finish, of p pressed ss s answer] assms PrecisionRejected
    by (auto simp: wlp_def split: prod.splits sum.splits failure.splits)
qed (use assms in \<open>simp add: finish_prepared_normal_precision_result_def wlp_sret\<close>)

lemma focus_lost_on:
  assumes "keyboard_ok os pressed" and "in_step p pressed ss s"
  shows "wlp (sbind (handle_final_focus_loss os) (\<lambda>_. sret StepContinue)) (onwards (steady p pressed (set (se_tokens ss)))) (onwards (steady p pressed (set (se_tokens ss)))) s"
  by (rule wlp_sbind [OF in_step_wlp [OF kept_focus_loss(1) [OF assms(1)] assms(2)]], rule wlp_sret) (auto simp: steady_def)

lemma prepared_frame_steady:
  assumes k: "keyboard_ok os pressed" and q: "shared_quiet sh pressed" and p: "session_profile p"
    and s: "in_step p pressed ss s" and v: "view_true p (set (se_tokens ss)) view"
  shows "wlp (dispatch_prepared_normal_frame os sh config view target qpc) (onwards (steady p pressed (set (se_tokens ss)))) (onwards (steady p pressed (set (se_tokens ss)))) s"
  unfolding dispatch_prepared_normal_frame_def Let_def record_prepared_normal_send_outcome_def
  apply (rule wlp_sbind, rule in_step_wlp [OF kept.frames_if [OF kept_in_world [OF calm_readings(1) [OF q]] kept.frames_sret] s])
  apply (rule wlp_if)
   apply (rule wlp_sbind, erule in_step_wlp [OF kept.frames_sread])
   apply (rule wlp_if, rule wlp_stop [OF ends(2)])
   apply (erule focus_lost_on [OF k])
  apply (rule wlp_sbind, erule in_step_wlp [OF kept.frames_sread])
  apply (rule wlp_if)
   apply (rule wlp_sbind, erule in_step_wlp [rotated], rule kept_update, simp)
   apply (rule wlp_stop [OF ends(2)])
  apply (rule wlp_sbind, erule wlp_precision [OF k q p _ v])
  apply (rule wlp_sbind, erule wlp_finish)
  apply (rule wlp_option)
   apply (rule focus_lost_on [OF k], simp)
  apply (rule wlp_sbind, rule before_commit [OF kept_stop(2) fatal_simple(4)], simp)
  apply (rule wlp_sbind, erule before_commit [OF kept_stop(2) fatal_simple(4)])
  apply (erule record_commits [OF k _ v])
  done

lemma planned_packet_steady:
  assumes k: "keyboard_ok os pressed" and q: "shared_quiet sh pressed" and p: "session_profile p"
    and s: "in_step p pressed ss s" and v: "view_true p (set (se_tokens ss)) view"
  shows "wlp (commit_down_send_outcome os sh config view now qpc missed target crossing) (onwards (steady p pressed (set (se_tokens ss)))) (onwards (steady p pressed (set (se_tokens ss)))) s"
  unfolding commit_down_send_outcome_def record_down_send_outcome_def
  apply (rule wlp_sbind, rule in_step_wlp [OF kept_admit [OF k q] s])
  apply (rule wlp_sbind, erule in_step_wlp [OF kept_finalize [OF k q]])
  apply (rule wlp_if, erule recovered_missed [OF k p _ v])
  apply (rule wlp_if, rule wlp_sret, simp add: steadyI)
  apply (rule wlp_sbind, erule in_step_wlp [OF kept_stop(2)])
  apply (rule wlp_sbind, erule wlp_transaction [OF k p _ v])
  apply (erule record_commits [OF k _ v])
  done


section \<open>Plans\<close>

definition plan_true :: "instrument_key_profile \<Rightarrow> prepared_authored_commit set \<Rightarrow> next_dispatch_plan \<Rightarrow> bool" where
  "plan_true p T plan \<longleftrightarrow> (case plan of NoWork \<Rightarrow> True | MetadataPlan metadata \<Rightarrow> mb_commit metadata \<in> T \<and> covered (mb_commit metadata)
     | PhysicalPlan physical \<Rightarrow> view_true p T (pl_authored_view physical))"

lemma planned_pending:
  assumes E: "earliest_pending_release_ticks c = Some d"
    and run: "rbind (planning_view (prepare_pending_release_view c (pending_release_mask_due_at c d) d (from_validated p)))
      (\<lambda>view. physical_plan_from_view view epoch) = Inr plan"
  shows "plan_true p T plan"
proof -
  let ?m = "pending_release_mask_due_at c d"
  note pf = from_validated_ok [of p]
  have s: "sendable (packet_new ?m 0)"
    using pending_view_iff(1) [OF pf, of ?m c d] run by (cases "sendable (packet_new ?m 0)") (auto simp: planning_view_def)
  obtain view where view: "prepare_pending_release_view c ?m d (from_validated p) = Inr (Some view)"
      "view_ok (from_validated p) d (packet_new ?m 0) view" "av_commit view = PendingReleaseCommit ?m d"
    using pending_view_iff(2) [OF pf s] by blast
  have m: "commits_packet (packet_new ?m 0) (av_commit view)" using view(3) by (simp add: commits_packet_def)
  obtain t where "plan = physical_plan view t"
    using run view(1) by (auto simp: planning_view_def physical_plan_ok [OF view(2) m] split: sum.splits)
  moreover have "av_packet_masks view = packet_new ?m 0" using view(2) by (simp add: view_ok_def)
  ultimately show ?thesis using view m by (auto simp: plan_true_def physical_plan_def view_true_def)
qed

lemma planned_authored:
  assumes pkt: "pp_frame pkt = pc_frame (pp_commit pkt)" and tok: "pp_commit pkt \<in> T" "covered (pp_commit pkt)"
    and run: "rbind (planning_view (prepare_authored_frame_view_from_prepared c pkt m a (from_validated p)))
      (\<lambda>view. physical_plan_from_view view epoch) = Inr plan"
  shows "plan_true p T plan"
proof -
  note pf = from_validated_ok [of p]
  have s: "sendable (packet_of pkt m)"
    using authored_view_iff(1) [OF pf, of pkt m c a] run by (cases "sendable (packet_of pkt m)") (auto simp: planning_view_def)
  obtain view where view: "prepare_authored_frame_view_from_prepared c pkt m a (from_validated p) = Inr (Some view)"
      "view_ok (from_validated p) (pf_authored_ticks (pp_frame pkt)) (packet_of pkt m) view"
      "av_commit view = (if m = 0 then Authored (pp_commit pkt) else Coalesced (pp_commit pkt) m a)"
    using authored_view_iff(2) [OF pf s, where due = a] by blast
  note cm = authored_view_commits [OF pkt view(3)]
  obtain t where "plan = physical_plan view t"
    using run unfolding view(1) by (auto simp: planning_view_def physical_plan_ok [OF view(2) cm] split: sum.splits)
  moreover have "av_packet_masks view = packet_of pkt m" using view(2) by (simp add: view_ok_def)
  ultimately show ?thesis using view(2,3) cm tok by (auto simp: plan_true_def physical_plan_def view_true_def split: if_splits)
qed

text \<open>What the planner returns is true of the session, once the token it prepares is counted among its tokens.\<close>

lemma planned_session:
  assumes r: "session_reachable ss" and plan: "plan_next_dispatch_projected (se_coordinator ss) epoch (from_validated p) = Inr plan"
  shows "\<exists>new. session_reachable (ss\<lparr>se_tokens := new @ se_tokens ss\<rparr>) \<and> plan_true p (set (new @ se_tokens ss)) plan"
proof -
  let ?c = "se_coordinator ss"
  obtain ap where ap: "prepare_current_authored_packet ?c = Inr ap"
    using plan by (auto simp: plan_next_dispatch_projected_def rbind_eq_Inr map_err_eq_Inr)
  show ?thesis
  proof (cases ap)
    case None
    then have "plan_true p (set (se_tokens ss)) plan"
      using plan ap planned_pending [of ?c _ p epoch plan]
      by (cases "earliest_pending_release_ticks ?c") (auto simp: plan_next_dispatch_projected_def Let_def plan_true_def)
    then show ?thesis using r by (intro exI [of _ "[]"]) simp
  next
    case (Some pkt)
    let ?T = "set (pp_commit pkt # se_tokens ss)" and ?a = "pf_authored_ticks (pp_frame pkt)"
    have prep: "prepare_current_authored_packet ?c = Inr (Some pkt)" using ap Some by simp
    have tok: "pp_commit pkt \<in> ?T" by simp
    have cov: "covered (pp_commit pkt)" using session_reachableD(3) [OF r] prep by (rule prepared_covered)
    have "plan_true p ?T plan"
    proof (cases "\<exists>d. earliest_pending_release_ticks ?c = Some d \<and> d < ?a")
      case True
      then obtain d where d: "earliest_pending_release_ticks ?c = Some d" "d < ?a" by blast
      then show ?thesis using plan prep planned_pending [OF d(1), of p epoch plan] by (auto simp: plan_next_dispatch_projected_def Let_def)
    next
      case False
      then have late: "\<forall>d. earliest_pending_release_ticks ?c = Some d \<longrightarrow> ?a \<le> d" by (simp add: not_less)
      note run = plan [unfolded plan_at_authored_turn [OF prep refl late]]
      show ?thesis
      proof (cases "packet_of pkt (coalesced ?c ?a) = packet_new 0 0")
        case True
        then show ?thesis using run cov by (auto simp: plan_true_def result_simps)
      next
        case False
        then show ?thesis using planned_authored [OF prepared_frame [OF prep] tok cov] run by simp
      qed
    qed
    moreover have "session_reachable (ss\<lparr>se_tokens := [pp_commit pkt] @ se_tokens ss\<rparr>)"
      using reachable.step [OF r session_prepare [OF prep]] by simp
    ultimately show ?thesis by (intro exI [of _ "[pp_commit pkt]"]) simp
  qed
qed

lemma planned_true:
  assumes b: "backed p ss s" and plan: "plan_next_dispatch_projected (wk_coordinator s) epoch (from_validated p) = Inr plan"
  shows "\<exists>ss'. backed p ss' s \<and> set (se_tokens ss) \<subseteq> set (se_tokens ss') \<and> plan_true p (set (se_tokens ss')) plan"
proof -
  obtain new where new: "session_reachable (ss\<lparr>se_tokens := new @ se_tokens ss\<rparr>)" "plan_true p (set (new @ se_tokens ss)) plan"
    using planned_session [of ss epoch p plan] b plan by (auto simp: backed_def)
  have "backed p (ss\<lparr>se_tokens := new @ se_tokens ss\<rparr>) s"
    using b new(1) unfolding backed_def by (auto intro: entry_true_mono)
  then show ?thesis using new(2) by (intro exI [of _ "ss\<lparr>se_tokens := new @ se_tokens ss\<rparr>"]) simp
qed

section \<open>Dispatch of a plan\<close>

lemma wlp_metadata:
  assumes s: "in_step p pressed ss s" and tok: "token \<in> set (se_tokens ss)" "covered token" and "\<And>e t. E (reason e) t"
  shows "wlp (in_coordinator reason (commit_prepared_authored_frame_metadata_frozen token)) (\<lambda>_. steady p pressed (set (se_tokens ss))) E s"
proof (rule wlp_in_coordinator)
  fix a c assume run: "commit_prepared_authored_frame_metadata_frozen token (wk_coordinator s) = (Inr a, c)"
  have b: "backed p ss s" and r: "session_reachable ss" and same: "wk_coordinator s = se_coordinator ss"
    using s by (simp_all add: in_step_def backed_def)
  have keys: "keys_of c = keys_of (wk_coordinator s)"
    using metadata_keys [OF _ _ tok(2)] session_reachableD(1,4) [OF r] tok(1) run same by metis
  have "backed p (ss\<lparr>se_coordinator := c\<rparr>) (s\<lparr>wk_coordinator := c\<rparr>)"
    by (rule backed_move [OF b session_metadata [OF tok(1)]]) (use run same in simp)
  then have "in_step p pressed (ss\<lparr>se_coordinator := c\<rparr>) (s\<lparr>wk_coordinator := c\<rparr>)" using s keys by (simp add: in_step_def)
  from steadyI [OF this] show "steady p pressed (set (se_tokens ss)) (s\<lparr>wk_coordinator := c\<rparr>)" by simp
qed (use assms(4) in blast)

lemma decided_in_step:
  assumes s: "in_step p pressed ss s" and v: "view_true p (set (se_tokens ss)) view"
  shows "wlp (decide_admission config view boundary window now) (\<lambda>_. in_step p pressed ss) (onwards (steady p pressed (set (se_tokens ss)))) s"
proof -
  have remember: "in_step p pressed ss (t\<lparr>wk_pending_up_recovery := Some \<lparr>pr_boundary = b, pr_admission = a, pr_authored_commit = token\<rparr>\<rparr>)"
    if "in_step p pressed ss t" "authored_commit_of (av_commit view) = Some token" for t b a token
    using that(1) view_trueD(3) [OF v that(2)] by (simp add: in_step_def backed_def worker_entries_def)
  show ?thesis unfolding decide_admission_def Let_def
    apply (rule wlp_sbind, rule in_step_wlp [OF kept.frames_sread s])
    apply (simp only: split_beta)
    apply (rule wlp_sbind, erule in_step_wlp [rotated])
     apply (simp split: option.split)
     apply (intro allI conjI impI kept.frame_intros kept_stop)
    apply (rule wlp_if, rule wlp_sret, assumption)
    apply (rule wlp_sbind, erule in_step_wlp [rotated])
     apply (simp split: option.split)
     apply (intro allI conjI impI kept.frame_intros kept_small)
    apply (rule wlp_if)
     apply (rule wlp_option, rule wlp_stop [OF ends(2)])
     apply (rule wlp_option, rule wlp_stop [OF ends(2)])
     apply (rule wlp_sbind, rule wlp_supdate, erule (1) remember, rule wlp_sret, assumption)
    apply (rule wlp_sret, assumption)
    done
qed

lemma due_steady:
  assumes k: "keyboard_ok os pressed" and q: "shared_quiet sh pressed" and p: "session_profile p"
    and s: "in_step p pressed ss s" and plan: "plan_true p (set (se_tokens ss)) plan"
  shows "wlp (dispatch_due_from_plan os sh config plan now crossing allow) (onwards (steady p pressed (set (se_tokens ss)))) (onwards (steady p pressed (set (se_tokens ss)))) s"
proof (cases plan)
  case NoWork
  then show ?thesis using s by (auto simp: dispatch_due_from_plan_def steady_def intro: wlp_sret)
next
  case (MetadataPlan metadata)
  then have tok: "mb_commit metadata \<in> set (se_tokens ss)" "covered (mb_commit metadata)" using plan by (simp_all add: plan_true_def)
  show ?thesis unfolding MetadataPlan dispatch_due_from_plan_def next_dispatch_plan.case
    by (rule wlp_if, rule wlp_sret, use s in \<open>simp add: steadyI\<close>, rule wlp_sbind [OF wlp_metadata [OF s tok]], simp, rule wlp_sret, simp)
next
  case (PhysicalPlan physical)
  then have v: "view_true p (set (se_tokens ss)) (pl_authored_view physical)" using plan by (simp add: plan_true_def)
  have send: "wlp (dispatch_authored_packet os sh config (PhysicalPlan physical) now qpc missed cross) (onwards (steady p pressed (set (se_tokens ss)))) (onwards (steady p pressed (set (se_tokens ss)))) t"
    if "in_step p pressed ss t" for qpc missed cross t
    unfolding dispatch_authored_packet_def next_dispatch_plan.case
    apply (rule wlp_sbind, rule in_step_wlp [rotated, OF that], rule kept_update, simp)
    apply (erule planned_packet_steady [OF k q p _ v])
    done
  have settle: "wlp (sbind (if b then supdate (\<lambda>s. s\<lparr>wk_pending_up_recovery := None\<rparr>) else sret ()) (\<lambda>_. sret step))
      (onwards (steady p pressed (set (se_tokens ss)))) (onwards (steady p pressed (set (se_tokens ss)))) t" if "onwards (steady p pressed (set (se_tokens ss))) step t" for b step t
    using that steady_kept [of p pressed _ t "t\<lparr>wk_pending_up_recovery := None\<rparr>"]
    by (auto simp: wlp_def supdate_def kept_over_def worker_entries_def)
  have observed: "wlp (sbind (sread (\<lambda>s. Inr (wk_pending_up_recovery s = None \<and> awaiting_future (wk_down_boundary_state s)))) (\<lambda>free.
      sbind (case b of Some boundary \<Rightarrow> if c \<and> free then observe_future_down_boundary boundary else sret () | None \<Rightarrow> sret ()) (\<lambda>_. sret StepNoWork)))
      (onwards (steady p pressed (set (se_tokens ss)))) (onwards (steady p pressed (set (se_tokens ss)))) t" if "in_step p pressed ss t" for b c t
    by (rule wlp_mono [OF steady_onwards [OF _ steadyI [OF that]]]) (intro kept.frame_intros kept_small, simp_all)
  show ?thesis unfolding PhysicalPlan dispatch_due_from_plan_def next_dispatch_plan.case Let_def
    apply (rule wlp_sbind, rule in_step_wlp [OF kept.frames_if [OF kept_in_world [OF still_shared(4) [OF q]] kept.frames_sret] s])
    apply (rule wlp_if, rule wlp_sret, simp add: steadyI)
    apply (rule wlp_option, erule observed)
    apply (rule wlp_sbind, erule in_step_wlp [OF kept_validate])
    apply (rule wlp_sbind, erule in_step_wlp [OF kept.frames_sread])
    apply (rule wlp_sbind, erule in_step_wlp [OF kept.frames_sread])
    apply (rule wlp_sbind, erule decided_in_step [OF _ v])
    apply (rule wlp_option, rule wlp_sret, simp add: steadyI)
    apply (rule wlp_sbind, rule wlp_at_step, erule send)
    apply (erule settle)
    done
qed

end
