(* ===== verification/Sky_Steady.thy ===== *)
theory Sky_Steady
  imports Sky_Step
begin

unbundle bit_operations_syntax

text \<open>
  The loop keeps the keyboard and the ledger in step. Each phase of a pass (focus, manual pause, prepared
  stream, stale metadata, planned dispatch, waiting) either keeps them in step or ends the session with a
  terminal error; so a loop that ends without an error and without a panic has never lost a key.
\<close>

section \<open>Leaving a pass\<close>

lemma steady_mono: "steady p pressed T' s \<Longrightarrow> T \<subseteq> T' \<Longrightarrow> steady p pressed T s"
  unfolding steady_def by blast

definition leaves ::
  "instrument_key_profile \<Rightarrow> ('w \<Rightarrow> u16 set) \<Rightarrow> prepared_authored_commit set \<Rightarrow> loop_exit \<Rightarrow> 'w loop_worker \<Rightarrow> bool" where
  "leaves p pressed T exit t \<longleftrightarrow> steady p pressed T t \<or> exit = LoopBreak \<and> wk_terminal_error t \<noteq> None"

lemma leaves_mono: "leaves p pressed T' exit t \<Longrightarrow> T \<subseteq> T' \<Longrightarrow> leaves p pressed T exit t"
  unfolding leaves_def using steady_mono by blast

lemma wlp_break: "wlp (break_with e) Q (leaves p pressed T) s"
  by (simp add: wlp_def break_with_def supdate_def leaves_def)

lemma wlp_continue: "steady p pressed T s \<Longrightarrow> wlp continue_loop Q (leaves p pressed T) s"
  by (simp add: wlp_def continue_loop_def leaves_def)

lemma wlp_or_break: "wlp m Q (\<lambda>_ _. True) s \<Longrightarrow> wlp (or_break m) Q (leaves p pressed T) s"
  using wlp_break unfolding wlp_def or_break_def by (fastforce split: prod.splits sum.splits failure.splits)

lemma wlp_or_break_forgetting: "wlp m Q (\<lambda>_ _. True) s \<Longrightarrow> wlp (or_break_forgetting m) Q (leaves p pressed T) s"
  using wlp_break unfolding wlp_def or_break_forgetting_def forget_target_def
  by (fastforce simp: supdate_def split: prod.splits sum.splits failure.splits)

lemma loop_kept:
  "frames (kept_over p pressed) m \<Longrightarrow> steady p pressed T s \<Longrightarrow> wlp m (\<lambda>_. steady p pressed T) (leaves p pressed T) s"
  by (erule wlp_frame) (auto intro: steady_kept simp: leaves_def)

lemma loop_or_break:
  "frames (kept_over p pressed) m \<Longrightarrow> steady p pressed T s \<Longrightarrow> wlp (or_break m) (\<lambda>_. steady p pressed T) (leaves p pressed T) s"
  by (rule wlp_or_break, erule wlp_frame) (auto intro: steady_kept)

lemma loop_or_break_forgetting:
  "frames (kept_over p pressed) m \<Longrightarrow> steady p pressed T s \<Longrightarrow>
   wlp (or_break_forgetting m) (\<lambda>_. steady p pressed T) (leaves p pressed T) s"
  by (rule wlp_or_break_forgetting, erule wlp_frame) (auto intro: steady_kept)

lemma loop_stop: "steady p pressed T s \<Longrightarrow> wlp (sfail (Err exit)) Q (leaves p pressed T) s"
  by (simp add: wlp_def leaves_def)

section \<open>Small phases\<close>

definition waits_quiet :: "('w, 'x) environment \<Rightarrow> ('w \<Rightarrow> u16 set) \<Rightarrow> bool" where
  "waits_quiet env pressed \<longleftrightarrow> (\<forall>target spin. quiet_access pressed (en_wait env target spin)) \<and>
     quiet_access pressed (en_try_take_interrupt env)"

lemma kept_latch: "frames (kept_over p pressed) (latch_terminal_trigger trigger)"
  unfolding latch_terminal_trigger_def by (rule kept_update) simp

lemma kept_ticks_to_us: "frames (kept_over p pressed) (ticks_to_us reason ticks)"
  unfolding ticks_to_us_def by (rule kept.frames_sread)

lemma kept_commands:
  assumes "shared_quiet sh pressed"
  shows "frames (kept_over p pressed) (process_command_control sh)"
  unfolding process_command_control_def or_else_def
  by (intro kept.frame_intros kept_latch kept_in_world still_intros still_readings [OF assms] still_shared [OF assms])

lemma loop_clock:
  assumes "keyboard_ok (en_os env) pressed" and "steady p pressed T s"
  shows "wlp (qpc_ticks_or_terminal env) (\<lambda>_. steady p pressed T) (leaves p pressed T) s"
    and "wlp (qpc_us_or_terminal env) (\<lambda>_. steady p pressed T) (leaves p pressed T) s"
  unfolding qpc_ticks_or_terminal_def qpc_us_or_terminal_def
  by (intro loop_or_break kept.frame_intros kept_ticks_to_us kept_qpc [OF assms(1)] assms(2))+

lemma kept_set_error: "frames (kept_over p pressed) (set_terminal_error e)"
  unfolding set_terminal_error_def by (rule kept_update) simp

lemma kept_wait:
  assumes k: "keyboard_ok (en_os env) pressed" and w: "waits_quiet env pressed"
  shows "frames (kept_over p pressed) (wait_for_next_boundary env target spin)"
proof -
  have quiet: "still_keys pressed (atomic (en_wait env target spin))" for target spin
    using w by (intro still_atomic) (simp add: waits_quiet_def)
  have results: "frames (kept_over p pressed) (case r of WaitDeadline \<Rightarrow> sret a | WaitInterrupted \<Rightarrow> sret b
      | WaitFailed failure \<Rightarrow> sbind (record_wait_failure failure) (\<lambda>_. sret c))" for r a b c
    by (cases r; simp add: record_wait_failure_def; intro kept.frame_intros kept_set_error)
  show ?thesis unfolding wait_for_next_boundary_def
    by (intro kept.frame_intros kept_sum results kept_set_error kept_in_world still_os [OF k] quiet)
qed

lemma kept_interrupt:
  assumes "waits_quiet env pressed"
  shows "frames (kept_over p pressed) (in_world (atomic (en_try_take_interrupt env)))"
    "frames (kept_over p pressed) (in_world (atomic (en_wait env target spin)))"
  using assms by (intro kept_in_world still_atomic; simp add: waits_quiet_def)+

text \<open>The preflight only looks at the keyboard.\<close>

lemma wlp_preflight:
  assumes k: "keyboard_ok os pressed" and p: "session_profile p" and s: "steady p pressed T s"
  shows "wlp (\<lambda>s. zoom (\<lambda>s. (wk_verified_target s, wk_world s)) (\<lambda>(v, w) s. s\<lparr>wk_verified_target := v, wk_world := w\<rparr>)
      (renamed (map_failure reason) (ensure_preflight_for_target os (tk_profile (wk_backend s)) stamp)) s)
    (\<lambda>_. steady p pressed T) (\<lambda>_. steady p pressed T) s"
proof -
  have profile: "tk_profile (wk_backend s) = from_validated p" using s by (auto simp: steady_def in_step_def transport_ok_def)
  obtain r v w where run: "ensure_preflight_for_target os (from_validated p) stamp (wk_verified_target s, wk_world s) = (r, v, w)" by (metis prod.collapse)
  obtain r0 w0 where probe: "instrument_logical_physical_state_for_mask os (from_validated p) (ts_hwnd stamp) FULL_INSTRUMENT_MASK (wk_world s) = (r0, w0)"
    by fastforce
  have "pressed w0 = pressed (wk_world s)"
    using probe_quiet [OF k p, of "ts_hwnd stamp" FULL_INSTRUMENT_MASK "wk_world s"] probe
    by (auto simp: wp_def split: sum.splits failure.splits)
  then have w: "pressed w = pressed (wk_world s)"
    using run probe by (auto simp: ensure_preflight_for_target_def ensure_instrument_keys_physically_up_def
        split: if_splits sum.splits logical_instrument_physical_state.splits prod.splits)
  have "kept_over p pressed s (s\<lparr>wk_verified_target := v, wk_world := w\<rparr>)"
    using w by (simp add: kept_over_def transport_ok_def worker_entries_def)
  then have "steady p pressed T (s\<lparr>wk_verified_target := v, wk_world := w\<rparr>)" by (rule steady_kept [OF s])
  then show ?thesis using run by (auto simp: wlp_def zoom_def renamed_def profile split: sum.splits failure.splits prod.splits)
qed

lemma loop_preflight:
  assumes "keyboard_ok (en_os env) pressed" and "session_profile p" and "steady p pressed T s"
  shows "wlp (or_break_forgetting (preflight_worker env reason stamp)) (\<lambda>_. steady p pressed T) (leaves p pressed T) s"
  unfolding preflight_worker_def [abs_def]
  by (rule wlp_or_break_forgetting, rule wlp_mono [OF wlp_preflight [OF assms]]) simp_all


section \<open>Suspensions\<close>

text \<open>Only the session behind the ledger has to be followed: the rest is the postcondition of a suspension.\<close>

definition founded :: "instrument_key_profile \<Rightarrow> prepared_authored_commit set \<Rightarrow> ('w, 't) worker \<Rightarrow> bool" where
  "founded p T s \<longleftrightarrow> (\<exists>ss. backed p ss s \<and> T \<subseteq> set (se_tokens ss))"

definition base_over :: "('w, 't) worker \<Rightarrow> ('w, 't) worker \<Rightarrow> bool" where
  "base_over s t \<longleftrightarrow> wk_coordinator t = wk_coordinator s \<and> worker_entries t = worker_entries s \<and>
     wk_pending_up_recovery t \<in> {wk_pending_up_recovery s, None}"

interpretation base: frame_preorder base_over
  by unfold_locales (auto simp: base_over_def)

lemma founded_base: "founded p T s \<Longrightarrow> base_over s t \<Longrightarrow> founded p T t"
  unfolding founded_def backed_def base_over_def by auto

lemma founded_wlp: "frames base_over m \<Longrightarrow> founded p T s \<Longrightarrow> wlp m (\<lambda>_. founded p T) (\<lambda>_ _. True) s"
  by (erule wlp_frame) (auto intro: founded_base)

lemma base_update:
  "(\<And>s. wk_coordinator (g s) = wk_coordinator s \<and> wk_prepared_stream (g s) = wk_prepared_stream s \<and>
     wk_pending_up_recovery (g s) \<in> {wk_pending_up_recovery s, None}) \<Longrightarrow> frames base_over (supdate g)"
  by (rule base.frames_supdate) (simp add: base_over_def worker_entries_def)

lemma base_small: "frames base_over invalidate_down_authorization" "frames base_over invalidate_guard" "frames base_over (in_backend m)"
  "frames base_over (in_world l)" "frames base_over (debug_assert P)" "frames base_over (establish_barrier q)"
  "frames base_over (describe_release_outcome describe release)" "frames base_over (orelse f z)"
proof -
  show "frames base_over invalidate_down_authorization" "frames base_over invalidate_guard"
    unfolding invalidate_down_authorization_def invalidate_guard_def by (intro base_update; simp)+
  show "frames base_over (in_backend m)" "frames base_over (in_world l)"
    by (simp_all add: frames_def base_over_def in_backend_def in_world_def zoom_def case_prod_unfold worker_entries_def)
  show "frames base_over (debug_assert P)" "frames base_over (orelse f z)"
    by (auto simp: frames_def debug_assert_def orelse_def base.frame_refl split: sum.splits)
  show "frames base_over (describe_release_outcome describe release)" unfolding describe_release_outcome_def by (rule base.frames_sread)
  have "frames base_over (zoom (\<lambda>_. g) (\<lambda>g s. s\<lparr>wk_physical_timing_guard := Some g\<rparr>) m)" for g m
    by (simp add: frames_def base_over_def zoom_def case_prod_unfold worker_entries_def)
  then show "frames base_over (establish_barrier q)" unfolding establish_barrier_def by (intro base.frame_intros)
qed

lemma founded_move:
  assumes f: "founded p T s" and st: "\<And>ss. backed p ss s \<Longrightarrow> session_step ss (ss\<lparr>se_coordinator := c\<rparr>)"
  shows "founded p T (s\<lparr>wk_coordinator := c\<rparr>)"
proof -
  obtain ss where ss: "backed p ss s" "T \<subseteq> set (se_tokens ss)" using f by (auto simp: founded_def)
  then show ?thesis using backed_move [OF ss(1) st [OF ss(1)]] unfolding founded_def by (intro exI [of _ "ss\<lparr>se_coordinator := c\<rparr>"]) simp
qed

lemma founded_miss:
  assumes "founded p T s"
  shows "wlp (resolve_pending_miss now) (\<lambda>_. founded p T) (\<lambda>_ _. True) s"
proof -
  have commit: "wlp (in_coordinator SuspensionMissCommitFailure (commit_prepared_authored_frame_deadline_miss (pr_authored_commit r) um dm t0))
      (\<lambda>_. founded p T) (\<lambda>_ _. True) t" if t: "founded p T t" "wk_pending_up_recovery t = Some r" for r um dm t0 t
  proof (rule wlp_in_coordinator)
    fix a c assume run: "commit_prepared_authored_frame_deadline_miss (pr_authored_commit r) um dm t0 (wk_coordinator t) = (Inr a, c)"
    show "founded p T (t\<lparr>wk_coordinator := c\<rparr>)"
      by (rule founded_move [OF t(1)], rule session_miss) (use run t(2) in \<open>auto simp: backed_def\<close>)
  qed simp
  show ?thesis unfolding resolve_pending_miss_def Let_def
    apply (rule wlp_sbind [where R = "\<lambda>pending t. t = s \<and> pending = wk_pending_up_recovery s"], rule wlp_read_value, simp)
    apply (rule wlp_option, rule wlp_sret, simp add: assms)
    apply (rule wlp_if, rule wlp_sfail, simp)
    apply (rule wlp_sbind [where R = "\<lambda>_ t. t = s"])
     apply (simp add: wlp_def orelse_def split: sum.split)
    apply (rule commit; simp add: assms)
    done
qed

lemma founded_suspend:
  assumes "founded p T s"
  shows "wlp (suspend_live_input os now hwnd) (\<lambda>_. founded p T) (\<lambda>_ _. True) s"
proof -
  have cancel: "wlp (in_coordinator LiveCancellationFailure cancel_live_generations_after_verified_resumable_cleanup)
      (\<lambda>_. founded p T) (\<lambda>_ _. True) t" if t: "founded p T t" for t
  proof (rule wlp_in_coordinator)
    fix a c assume run: "cancel_live_generations_after_verified_resumable_cleanup (wk_coordinator t) = (Inr a, c)"
    show "founded p T (t\<lparr>wk_coordinator := c\<rparr>)"
      by (rule founded_move [OF t], rule session_suspend) (use run in \<open>auto simp: backed_def\<close>)
  qed simp
  show ?thesis unfolding suspend_live_input_def qpc_sample_def
    apply (rule wlp_sbind, rule founded_wlp [OF base_small(1) assms])
    apply (rule wlp_sbind, erule founded_wlp [OF base_small(2)])
    apply (rule wlp_sbind, erule founded_wlp [OF base_small(3)])
    apply (rule wlp_sbind, erule founded_wlp [OF base.frames_sread])
    apply (rule wlp_if)
     apply (rule wlp_sbind, erule founded_wlp [OF base_small(7)], rule wlp_sfail, simp)
    apply (rule wlp_sbind, erule founded_wlp [OF base_small(4)])
    apply (rule wlp_sbind, erule founded_wlp [OF base_small(6)])
    apply (rule wlp_sbind, erule founded_wlp [OF base_small(5)])
    apply (rule wlp_sbind, erule founded_miss)
    apply (rule wlp_sbind, erule cancel)
    apply (rule wlp_sbind, erule founded_wlp [OF base_small(1)])
    apply (rule wlp_sbind, erule founded_wlp [rotated], rule base_update, simp)
    apply (rule wlp_sret, assumption)
    done
qed

text \<open>A suspension that succeeds leaves no key down and none owned.\<close>

lemma suspend_steady:
  assumes k: "keyboard_ok os pressed" and p: "session_profile p" and s: "steady p pressed T s"
  shows "wlp (suspend_live_input os now hwnd) (\<lambda>_. steady p pressed T) (\<lambda>_ _. True) s"
proof -
  obtain ss where ss: "in_step p pressed ss s" "T \<subseteq> set (se_tokens ss)" using s by (auto simp: steady_def)
  then have b: "backed p ss s" and ok: "transport_ok p pressed (wk_backend s, wk_world s)" by (simp_all add: in_step_def)
  note R = session_reachableD [of ss]
  have rd: "ready (wk_coordinator s)" and fr: "\<And>r. wk_pending_up_recovery s = Some r \<Longrightarrow> frozen_for (wk_coordinator s) (pr_authored_commit r)"
    using R b by (auto simp: backed_def)
  have f: "founded p T s" using b ss(2) by (auto simp: founded_def)
  obtain r t where run: "suspend_live_input os now hwnd s = (r, t)" by fastforce
  have "steady p pressed T t" if "r = Inr a" for a
  proof -
    have "suspended p pressed s t" using wp_Inr [OF wp_suspend [OF k p ok rd fr]] run that by auto
    then have t: "transport_ok p pressed (wk_backend t, wk_world t)" "release_obligation_mask (wk_backend t) = 0" "dc_active_mask (wk_coordinator t) = 0"
      by (simp_all add: suspended_def)
    have "down_slots p (pressed (wk_world t)) = {}"
      using t obligation_recorded [of "wk_backend t"] by (auto simp: transport_ok_def masks_account_def)
    moreover have "founded p T t" using founded_suspend [OF f, of os now hwnd] run that by (simp add: wlp_def)
    ultimately show ?thesis using t by (auto simp: steady_def in_step_def founded_def)
  qed
  then show ?thesis using run by (auto simp: wlp_def split: sum.splits failure.splits)
qed

lemma suspend_dispatch:
  assumes "keyboard_ok (en_os env) pressed" and "session_profile p" and "steady p pressed T s"
  shows "wlp (suspend_live_input_for_dispatch env reason now hwnd) (\<lambda>_. steady p pressed T) (\<lambda>_ _. True) s"
proof -
  have named: "wlp (renamed (map_failure reason) m) Q (\<lambda>_ _. True) t" if "wlp m Q (\<lambda>_ _. True) t" for m Q t
    using that by (auto simp: wlp_def renamed_def map_err_def split: prod.splits sum.splits failure.splits)
  have frame: "wlp m (\<lambda>_. steady p pressed T) (\<lambda>_ _. True) t"
    if "frames (kept_over p pressed) m" "steady p pressed T t" for m t
    by (rule wlp_frame [OF that(1)]) (auto intro: steady_kept [OF that(2)])
  show ?thesis unfolding suspend_live_input_for_dispatch_def lifecycle_effective_now_def
    apply (rule wlp_sbind, rule frame [OF kept.frames_sread assms(3)])
    apply (rule wlp_sbind, rule named, erule suspend_steady [OF assms(1,2)])
    apply (erule frame [rotated], rule kept_update, simp)
    done
qed


section \<open>Focus\<close>

lemma loop_world: "still_keys pressed m \<Longrightarrow> steady p pressed T s \<Longrightarrow> wlp (in_world m) (\<lambda>_. steady p pressed T) (leaves p pressed T) s"
  by (rule loop_kept [OF kept_in_world])

lemma loop_suspend:
  assumes "keyboard_ok (en_os env) pressed" and "session_profile p" and "steady p pressed T s"
  shows "wlp (or_break (suspend_live_input_for_dispatch env reason now hwnd)) (\<lambda>_. steady p pressed T) (leaves p pressed T) s"
    and "wlp (or_break_forgetting (suspend_live_input_for_dispatch env reason now hwnd)) (\<lambda>_. steady p pressed T) (leaves p pressed T) s"
  by (rule wlp_or_break [OF suspend_dispatch [OF assms]], rule wlp_or_break_forgetting [OF suspend_dispatch [OF assms]])

lemma loop_restart: "steady p pressed T s \<Longrightarrow> wlp restart_restore Q (leaves p pressed T) s"
  unfolding restart_restore_def by (rule wlp_sbind, erule loop_kept [rotated], rule kept_update, simp, erule wlp_continue)

lemma loop_give_up: "steady p pressed T s \<Longrightarrow> wlp give_up_target Q (leaves p pressed T) s"
  unfolding give_up_target_def
  by (rule wlp_sbind, erule loop_kept [OF kept_small(1)], rule wlp_sbind, erule loop_kept [OF kept_small(2)], erule wlp_continue)

lemma loop_stamp:
  "wlp otherwise (\<lambda>_. steady p pressed T) (leaves p pressed T) s \<Longrightarrow> steady p pressed T s \<Longrightarrow>
   wlp (stamp_or otherwise stamp) (\<lambda>_. steady p pressed T) (leaves p pressed T) s"
  by (cases stamp) (simp_all add: stamp_or_def wlp_sret)

lemma loop_prepare_restore:
  assumes k: "keyboard_ok (en_os env) pressed" and p: "session_profile p" and s: "steady p pressed T s"
  shows "wlp (prepare_restore env now manual stamp) (\<lambda>_. steady p pressed T) (leaves p pressed T) s"
  unfolding prepare_restore_def Let_def
  apply (rule wlp_if)
   apply (rule wlp_sbind, rule loop_suspend(2) [OF k p s], erule loop_preflight [OF k p])
  apply (rule wlp_sbind, rule loop_kept [OF kept.frames_sread s])
  apply (rule wlp_if, erule loop_suspend(2) [OF k p], rule wlp_sret, assumption)
  done

lemma still_and_then: "still_keys pressed a \<Longrightarrow> still_keys pressed b \<Longrightarrow> still_keys pressed (and_then a b)"
  unfolding and_then_def by (intro still_intros)

lemma loop_restore_focus:
  assumes k: "keyboard_ok (en_os env) pressed" and p: "session_profile p" and q: "shared_quiet (en_shared env) pressed"
    and s: "steady p pressed T s"
  shows "wlp (restore_focus env config now manual) (\<lambda>_. steady p pressed T) (leaves p pressed T) s"
proof -
  note load = loop_world [OF still_shared(2) [OF q]]
  note check = loop_world [OF still_and_then [OF still_gates(4) [OF k q] calm_readings(2) [OF q]]]
  show ?thesis unfolding restore_focus_def Let_def
    apply (rule wlp_sbind, rule load [OF s])
    apply (rule wlp_sbind, rule loop_stamp, erule loop_restart, assumption)
    apply (rule wlp_sbind, erule loop_kept [OF kept.frames_sread])
    apply (rule wlp_sbind, erule loop_kept [OF kept_small(1)])
    apply (rule wlp_sbind, erule check)
    apply (rule wlp_if)
     apply (rule wlp_sbind, erule loop_kept [OF kept_small(3)], erule loop_restart)
    apply (rule wlp_sbind, erule loop_prepare_restore [OF k p])
    apply (rule wlp_sbind, erule load)
    apply (rule wlp_sbind, rule loop_stamp, erule loop_restart, assumption)
    apply (rule wlp_sbind, erule check)
    apply (rule wlp_if, erule loop_restart)
    apply (rule wlp_sbind, erule loop_clock(1) [OF k])
    apply (rule wlp_sbind, erule loop_or_break_forgetting [OF kept_in_playback])
    apply (rule wlp_sbind, erule loop_world [OF still_shared(5) [OF q]])
    apply (rule wlp_sbind, erule loop_kept [OF kept.frames_if [OF kept_small(1) kept.frames_sret]])
    apply (rule wlp_sbind, erule loop_kept [rotated], rule kept_update, simp)
    apply (rule wlp_sbind, erule loop_clock(2) [OF k])
    apply (rule wlp_sret, assumption)
    done
qed

lemma loop_focus:
  assumes k: "keyboard_ok (en_os env) pressed" and p: "session_profile p" and q: "shared_quiet (en_shared env) pressed"
    and s: "steady p pressed T s"
  shows "wlp (focus_phase env config now focus_ok manual) (\<lambda>_. steady p pressed T) (leaves p pressed T) s"
  unfolding focus_phase_def
  apply (rule wlp_if)
   apply (rule wlp_sbind, rule loop_or_break [OF kept_focus_loss(2) [OF k] s])
   apply (rule wlp_if, rule wlp_sbind, erule loop_clock(2) [OF k], rule wlp_sret, assumption, rule wlp_sret, assumption)
  apply (rule wlp_sbind, rule loop_kept [OF kept.frames_sread s])
  apply (rule wlp_if, rule wlp_sret, assumption)
  apply (rule wlp_sbind, erule loop_kept [rotated], rule kept_update, simp)
  apply (rule wlp_sbind, erule loop_kept [OF kept.frames_sread])
  apply (rule wlp_sbind, erule loop_or_break [OF kept_stop(4)])
  apply (rule wlp_if, erule loop_restore_focus [OF k p q], rule wlp_sret, assumption)
  done

section \<open>Manual pause\<close>

lemma loop_enter_pause:
  assumes k: "keyboard_ok (en_os env) pressed" and p: "session_profile p" and q: "shared_quiet (en_shared env) pressed"
    and s: "steady p pressed T s"
  shows "wlp (enter_manual_pause env now) (\<lambda>_. steady p pressed T) (leaves p pressed T) s"
  unfolding enter_manual_pause_def
  apply (rule wlp_sbind, rule loop_kept [OF kept_small(2) s])
  apply (rule wlp_sbind, erule loop_kept [OF kept_small(1)])
  apply (rule wlp_sbind, erule loop_kept [OF kept.frames_sread])
  apply (simp only: split_beta)
  apply (rule wlp_sbind [where R = "\<lambda>_. steady p pressed T"], rule wlp_if)
    apply (rule wlp_sbind, erule loop_world [OF still_readings(3) [OF q]])
    apply (rule wlp_sbind, erule loop_suspend(1) [OF k p])
    apply (rule wlp_sbind, erule loop_clock(2) [OF k], rule wlp_sret, assumption)
   apply (erule loop_kept [rotated], intro kept.frame_intros kept_update, simp)
  apply (rule wlp_sbind, erule loop_or_break [OF kept_in_playback], rule wlp_sret, assumption)
  done

lemma loop_leave_pause:
  assumes k: "keyboard_ok (en_os env) pressed" and p: "session_profile p" and q: "shared_quiet (en_shared env) pressed"
    and s: "steady p pressed T s"
  shows "wlp (leave_manual_pause env config now) (\<lambda>_. steady p pressed T) (leaves p pressed T) s"
  unfolding leave_manual_pause_def Let_def
  apply (rule wlp_sbind, rule loop_kept [OF kept.frames_sread s])
  apply (rule wlp_sbind [where R = "\<lambda>_. steady p pressed T"], rule wlp_if)
    apply (rule wlp_sbind, erule loop_world [OF still_readings(3) [OF q]], erule loop_suspend(1) [OF k p])
   apply (rule wlp_sret, assumption)
  apply (rule wlp_sbind, erule loop_world [OF still_shared(2) [OF q]])
  apply (rule wlp_sbind, rule loop_stamp, erule loop_give_up, assumption)
  apply (rule wlp_sbind, erule loop_preflight [OF k p])
  apply (rule wlp_sbind, erule loop_world [OF still_and_then [OF still_gates(4) [OF k q] calm_readings(2) [OF q]]])
  apply (rule wlp_if)
   apply (rule wlp_sbind, erule loop_kept [OF kept_small(1)], erule wlp_continue)
  apply (rule wlp_sbind, erule loop_clock(1) [OF k])
  apply (rule wlp_sbind, erule loop_or_break_forgetting [OF kept_in_playback], rule wlp_sret, assumption)
  done

lemma loop_manual:
  assumes k: "keyboard_ok (en_os env) pressed" and p: "session_profile p" and q: "shared_quiet (en_shared env) pressed"
    and s: "steady p pressed T s"
  shows "wlp (manual_phase env config now manual) (\<lambda>_. steady p pressed T) (leaves p pressed T) s"
  unfolding manual_phase_def
  apply (rule wlp_sbind, rule loop_kept [OF kept.frames_sread s])
  apply (simp only: split_beta)
  apply (rule wlp_if, erule loop_enter_pause [OF k p q])
  apply (rule wlp_if, rule wlp_if, erule loop_leave_pause [OF k p q], erule loop_kept [OF kept_small(1)])
  apply (rule wlp_sret, assumption)
  done

lemma loop_paused:
  assumes w: "waits_quiet env pressed" and s: "steady p pressed T s"
  shows "wlp (paused_phase env config now) (\<lambda>_. steady p pressed T) (leaves p pressed T) s"
proof -
  have results: "wlp (case r of WaitFailed failure \<Rightarrow> sbind (record_wait_failure failure) (\<lambda>_. sfail (Err LoopBreak)) | _ \<Rightarrow> continue_loop)
      (\<lambda>_. steady p pressed T) (leaves p pressed T) t" if t: "steady p pressed T t" for r t
    by (cases r; simp add: wlp_continue t record_wait_failure_def)
       (rule wlp_sbind [OF loop_kept [OF kept_set_error t]], erule loop_stop)
  show ?thesis unfolding paused_phase_def
    apply (rule wlp_sbind, rule loop_kept [OF kept.frames_sread s])
    apply (rule wlp_if, rule wlp_sret, assumption)
    apply (rule wlp_sbind, erule loop_or_break [OF kept_stop(4)])
    apply (rule wlp_sbind, erule loop_kept [OF kept_interrupt(2) [OF w]])
    apply (erule results)
    done
qed


section \<open>Steps\<close>

lemma loop_after_step:
  assumes "onwards (steady p pressed T) step s" and "steady p pressed T s \<Longrightarrow> wlp no_work Q (leaves p pressed T) s"
  shows "wlp (after_step step no_work) Q (leaves p pressed T) s"
  using assms by (cases step) (simp_all add: after_step_def goes_on_def wlp_continue wlp_break)

text \<open>A view or a plan stays true while the session goes on.\<close>

lemma plan_true_mono: "plan_true p T plan \<Longrightarrow> T \<subseteq> T' \<Longrightarrow> plan_true p T' plan"
  unfolding plan_true_def using view_true_mono [of p T _ T'] by (auto split: next_dispatch_plan.splits)

lemma loop_due:
  assumes k: "keyboard_ok os pressed" and q: "shared_quiet sh pressed" and p: "session_profile p"
    and s: "steady p pressed T s" and plan: "plan_true p T plan"
  shows "wlp (at_step (dispatch_due_from_plan os sh config plan now crossing allow)) (onwards (steady p pressed T)) (leaves p pressed T) s"
proof -
  obtain ss where ss: "in_step p pressed ss s" "T \<subseteq> set (se_tokens ss)" using s by (auto simp: steady_def)
  show ?thesis
    by (rule wlp_at_step, rule wlp_mono [OF due_steady [OF k q p ss(1) plan_true_mono [OF plan ss(2)]]]) (auto intro: steady_mono [OF _ ss(2)])
qed

lemma loop_prepared_frame:
  assumes k: "keyboard_ok os pressed" and q: "shared_quiet sh pressed" and p: "session_profile p"
    and s: "steady p pressed T s" and v: "view_true p T view"
  shows "wlp (at_step (dispatch_prepared_normal_frame os sh config view target qpc)) (onwards (steady p pressed T)) (leaves p pressed T) s"
proof -
  obtain ss where ss: "in_step p pressed ss s" "T \<subseteq> set (se_tokens ss)" using s by (auto simp: steady_def)
  show ?thesis
    by (rule wlp_at_step, rule wlp_mono [OF prepared_frame_steady [OF k q p ss(1) view_true_mono [OF v ss(2)]]]) (auto intro: steady_mono [OF _ ss(2)])
qed

lemma loop_metadata:
  assumes s: "steady p pressed T s" and tok: "token \<in> T" "covered token"
  shows "wlp (or_break (in_coordinator reason (commit_prepared_authored_frame_metadata_frozen token))) (\<lambda>_. steady p pressed T) (leaves p pressed T) s"
proof -
  obtain ss where ss: "in_step p pressed ss s" "T \<subseteq> set (se_tokens ss)" using s by (auto simp: steady_def)
  then have "token \<in> set (se_tokens ss)" using tok by blast
  from wlp_metadata [OF ss(1) this tok(2), where E = "\<lambda>_ _. True" and reason = reason]
  show ?thesis by (rule wlp_or_break [OF wlp_mono]) (auto intro: steady_mono [OF _ ss(2)])
qed

section \<open>The prepared stream\<close>

lemma advance_steady: "steady p pressed T s \<Longrightarrow> wlp advance_stream (\<lambda>_. steady p pressed T) (leaves p pressed T) s"
proof (erule loop_kept [rotated], rule framesI)
  fix s :: "'a loop_worker"
  show "kept_over p pressed s (snd (advance_stream s))"
    by (auto simp: advance_stream_def stream_advance_def kept_over_def worker_entries_def split: option.splits)
qed

lemma loop_preflight_frame:
  assumes k: "keyboard_ok (en_os env) pressed" and p: "session_profile p" and q: "shared_quiet (en_shared env) pressed"
    and s: "steady p pressed T s"
  shows "wlp (preflight_frame env view) (\<lambda>_. steady p pressed T) (leaves p pressed T) s"
  unfolding preflight_frame_def Let_def
  apply (rule wlp_if, rule wlp_sret, rule s)
  apply (rule wlp_sbind, rule loop_world [OF still_shared(2) [OF q] s])
  apply (rule wlp_sbind, rule loop_stamp, erule loop_give_up, assumption)
  apply (rule wlp_sbind, erule loop_preflight [OF k p])
  apply (rule wlp_sbind, erule loop_world [OF calm_readings(2) [OF q]])
  apply (rule wlp_if, erule loop_give_up, rule wlp_sret, assumption)
  done

lemma loop_boundary:
  assumes w: "waits_quiet env pressed" and s: "steady p pressed T s"
    and due: "\<And>qpc. wlp (f qpc) Q (leaves p pressed T) s"
  shows "wlp (case boundary of BoundaryDue qpc \<Rightarrow> f qpc
    | BoundaryReplan \<Rightarrow> sbind (in_world (atomic (en_try_take_interrupt env))) (\<lambda>_. continue_loop)
    | BoundaryExit \<Rightarrow> sfail (Err LoopBreak)) Q (leaves p pressed T) s"
proof (cases boundary)
  case BoundaryReplan
  have "wlp (sbind (in_world (atomic (en_try_take_interrupt env))) (\<lambda>_. continue_loop)) Q (leaves p pressed T) s"
    by (rule wlp_sbind [OF loop_kept [OF kept_interrupt(1) [OF w] s]], erule wlp_continue)
  then show ?thesis using BoundaryReplan by simp
qed (use due loop_stop [OF s] in simp_all)

lemma loop_wait_prepared:
  assumes k: "keyboard_ok (en_os env) pressed" and w: "waits_quiet env pressed" and s: "steady p pressed T s"
  shows "wlp (wait_prepared env config physical target now) (\<lambda>_. steady p pressed T) (leaves p pressed T) s"
  unfolding wait_prepared_def
  apply (rule wlp_if, rule wlp_sret, rule s)
  apply (rule wlp_sbind, rule loop_kept [OF kept_wait [OF k w] s])
  apply (rule loop_boundary [where f = sret, OF w])
   apply assumption
  apply (rule wlp_sret, assumption)
  done

lemma loop_prepared_metadata:
  assumes s: "steady p pressed T s" and tok: "token \<in> T" "covered token"
  shows "wlp (dispatch_prepared_metadata token) (\<lambda>_. steady p pressed T) (leaves p pressed T) s"
  unfolding dispatch_prepared_metadata_def
  apply (rule wlp_sbind, rule loop_metadata [OF s tok])
  apply (rule wlp_sbind, erule advance_steady)
  apply (rule loop_after_step, simp, erule wlp_continue)
  done

lemma loop_prepared_physical:
  assumes k: "keyboard_ok (en_os env) pressed" and p: "session_profile p" and q: "shared_quiet (en_shared env) pressed"
    and s: "steady p pressed T s" and v: "view_true p T view"
  shows "wlp (dispatch_prepared_physical env config view target qpc) (\<lambda>_. steady p pressed T) (leaves p pressed T) s"
proof -
  have advance: "wlp (if step = Dispatched then advance_stream else sret step) (\<lambda>step. onwards (steady p pressed T) step) (leaves p pressed T) t"
    if "onwards (steady p pressed T) step t" for step t
  proof (rule wlp_if)
    show "wlp advance_stream (\<lambda>step. onwards (steady p pressed T) step) (leaves p pressed T) t" if "step = Dispatched"
      by (rule wlp_mono [OF advance_steady]) (use that \<open>onwards (steady p pressed T) step t\<close> in \<open>auto simp: goes_on_def\<close>)
  qed (rule wlp_sret, use that in simp)
  show ?thesis unfolding dispatch_prepared_physical_def
    apply (rule wlp_if, rule wlp_break)
    apply (rule wlp_sbind, rule loop_or_break [OF kept_validate s])
    apply (rule wlp_sbind, erule loop_prepared_frame [OF k q p _ v])
    apply (rule wlp_sbind, erule advance)
    apply (erule loop_after_step, rule wlp_break)
    done
qed

lemma kept_window: "frames (kept_over p pressed) (prepared_window entry target)"
  unfolding prepared_window_def by (cases entry) (simp_all add: kept.frames_sread kept.frames_sret)

lemma loop_prepared:
  assumes k: "keyboard_ok (en_os env) pressed" and p: "session_profile p" and q: "shared_quiet (en_shared env) pressed"
    and w: "waits_quiet env pressed" and s: "steady p pressed T s"
  shows "wlp (prepared_phase env config now) (\<lambda>_. steady p pressed T) (leaves p pressed T) s"
proof -
  obtain ss where ss: "in_step p pressed ss s" "T \<subseteq> set (se_tokens ss)" using s by (auto simp: steady_def)
  define T' where "T' = set (se_tokens ss)"
  have s': "steady p pressed T' s" using steadyI [OF ss(1)] unfolding T'_def .
  have entry: "entry_true p T' entry" if "Option.bind (wk_prepared_stream s) stream_current = Some entry" for entry
    using that ss(1) unfolding T'_def in_step_def backed_def
    by (auto simp: stream_current_def worker_entries_def split: option.splits if_splits Option.bind_splits)
  let ?Q = "\<lambda>_. steady p pressed T'" and ?E = "leaves p pressed T'"
  have dispatch: "wlp (case entry of MetadataEntry _ commit \<Rightarrow> dispatch_prepared_metadata commit
      | PhysicalEntry view \<Rightarrow> dispatch_prepared_physical env config view target qpc) ?Q ?E t"
    if "entry_true p T' entry" "steady p pressed T' t" for entry target qpc t
    using that loop_prepared_metadata [OF that(2)] loop_prepared_physical [OF k p q that(2)]
    by (cases entry) (simp_all add: entry_true_def)
  have preflight: "wlp (case entry of PhysicalEntry view \<Rightarrow> preflight_frame env view | MetadataEntry _ _ \<Rightarrow> sret None) ?Q ?E t"
    if "steady p pressed T' t" for entry t
    by (cases entry) (simp_all add: loop_preflight_frame [OF k p q that] wlp_sret that)
  have "wlp (prepared_phase env config now) ?Q ?E s" unfolding prepared_phase_def Let_def
    apply (rule wlp_sbind [where R = "\<lambda>current t. steady p pressed T' t \<and> (\<forall>entry. current = Some entry \<longrightarrow> entry_true p T' entry)"])
     apply (rule wlp_read_value, use s' entry in blast)
    apply (rule wlp_option, rule wlp_sret, simp)
    apply (elim conjE)
    apply (rule wlp_sbind, erule loop_or_break [OF kept.frames_sread])
    apply (rule wlp_sbind, erule preflight)
    apply (rule wlp_sbind, erule loop_or_break [OF kept_window])
    apply (rule wlp_sbind, erule loop_wait_prepared [OF k w])
    apply (rule wlp_sbind, erule loop_or_break [OF kept.frames_sread])
    apply (rule dispatch, simp, assumption)
    done
  then show ?thesis by (rule wlp_mono) (auto intro: steady_mono [OF _ ss(2)] leaves_mono [OF _ ss(2)] simp: T'_def)
qed

section \<open>The planner\<close>

lemma loop_stale: 
  assumes s: "steady p pressed T s"
  shows "wlp stale_phase (\<lambda>_. steady p pressed T) (leaves p pressed T) s"
proof -
  have commit: "wlp (at_step (dispatch_stale_packet prepared)) (onwards (steady p pressed T)) (leaves p pressed T) t"
    if t: "steady p pressed T t" for prepared t
  proof -
    obtain ss where ss: "in_step p pressed ss t" "T \<subseteq> set (se_tokens ss)" using t by (auto simp: steady_def)
    then have b: "backed p ss t" and same: "wk_coordinator t = se_coordinator ss" by (simp_all add: in_step_def backed_def)
    have moved: "steady p pressed T (t\<lparr>wk_coordinator := c\<rparr>)" if run: "commit_stale_packet prepared (wk_coordinator t) = (r, c)" for r c
    proof -
      have "backed p (ss\<lparr>se_coordinator := c\<rparr>) (t\<lparr>wk_coordinator := c\<rparr>)"
        by (rule backed_move [OF b session_stale]) (use run same in simp)
      then have "in_step p pressed (ss\<lparr>se_coordinator := c\<rparr>) (t\<lparr>wk_coordinator := c\<rparr>)"
        using ss(1) stale_keys [OF run] by (simp add: in_step_def)
      from steadyI [OF this] show ?thesis by (rule steady_mono) (use ss(2) in simp)
    qed
    show ?thesis unfolding dispatch_stale_packet_def
      by (rule wlp_at_step, rule wlp_sbind [where R = "\<lambda>_. steady p pressed T"], rule wlp_in_coordinator, erule moved, simp, rule wlp_sret, simp)
  qed
  show ?thesis unfolding stale_phase_def
    apply (rule wlp_sbind, rule loop_or_break [OF kept.frames_sread s])
    apply (rule wlp_option, rule wlp_sret, assumption)
    apply (rule wlp_sbind, erule commit)
    apply (rule wlp_if, rule wlp_break, erule loop_after_step, rule wlp_break)
    done
qed


definition plan_stands ::
  "instrument_key_profile \<Rightarrow> ('w \<Rightarrow> u16 set) \<Rightarrow> prepared_authored_commit set \<Rightarrow> next_dispatch_plan \<Rightarrow> ('w, 't) worker \<Rightarrow> bool" where
  "plan_stands p pressed T plan t \<longleftrightarrow> (\<exists>T'. T \<subseteq> T' \<and> steady p pressed T' t \<and> plan_true p T' plan)"

lemma plan_read:
  assumes s: "steady p pressed T s"
    and plan: "plan_next_dispatch_projected (wk_coordinator s) epoch (tk_profile (wk_backend s)) = Inr plan"
  shows "plan_stands p pressed T plan s"
proof -
  obtain ss where ss: "in_step p pressed ss s" "T \<subseteq> set (se_tokens ss)" using s by (auto simp: steady_def)
  then have b: "backed p ss s" and profile: "tk_profile (wk_backend s) = from_validated p" by (simp_all add: in_step_def transport_ok_def)
  obtain ss' where ss': "backed p ss' s" "set (se_tokens ss) \<subseteq> set (se_tokens ss')" "plan_true p (set (se_tokens ss')) plan"
    using planned_true [OF b plan [unfolded profile]] by blast
  then have "in_step p pressed ss' s" using ss(1) by (simp add: in_step_def)
  from steadyI [OF this] ss'(2,3) ss(2) show ?thesis unfolding plan_stands_def by blast
qed

lemma preflight_stands:
  assumes k: "keyboard_ok os pressed" and p: "session_profile p" and q: "shared_quiet sh pressed" and s: "plan_stands p pressed T plan s"
  shows "wlp (preflight_prepared_plan os sh plan)
    (\<lambda>ready t. steady p pressed T t \<and> (\<forall>plan. ready = Some plan \<longrightarrow> plan_stands p pressed T plan t)) (\<lambda>_ _. True) s"
proof -
  obtain T' where T': "T \<subseteq> T'" "steady p pressed T' s" "plan_true p T' plan" using s by (auto simp: plan_stands_def)
  have keep: "wlp m (\<lambda>_. steady p pressed T') (\<lambda>_ _. True) t" if "frames (kept_over p pressed) m" "steady p pressed T' t" for m t
    by (rule wlp_frame [OF that(1)]) (auto intro: steady_kept [OF that(2)])
  let ?Q = "\<lambda>ready t. steady p pressed T t \<and> (\<forall>plan. ready = Some plan \<longrightarrow> plan_stands p pressed T plan t)"
  have none: "wlp (sbind forget_target (\<lambda>_. sbind invalidate_down_authorization (\<lambda>_. sret None))) ?Q (\<lambda>_ _. True) t"
    if "steady p pressed T' t" for t
    apply (rule wlp_sbind, rule keep [OF kept_small(1) that])
    apply (rule wlp_sbind, erule keep [OF kept_small(2)])
    apply (rule wlp_sret, simp add: steady_mono [OF _ T'(1)])
    done
  have same: "wlp (sret (Some plan')) ?Q (\<lambda>_ _. True) t" if "steady p pressed T' t" "plan_true p T' plan'" for plan' t
    by (rule wlp_sret) (use that T'(1) in \<open>auto simp: plan_stands_def intro: steady_mono\<close>)
  show ?thesis
  proof (cases plan)
    case (PhysicalPlan physical)
    then have v: "plan_true p T' (PhysicalPlan (physical\<lparr>pl_target_proof := x\<rparr>))" for x using T'(3) by (simp add: plan_true_def)
    have preflight: "wlp (\<lambda>s. zoom (\<lambda>s. (wk_verified_target s, wk_world s)) (\<lambda>(v, w) s. s\<lparr>wk_verified_target := v, wk_world := w\<rparr>)
        (renamed (map_failure (\<lambda>e. Terminate (KeyPreflightFailure e))) (ensure_preflight_for_target os (tk_profile (wk_backend s)) stamp)) s)
      (\<lambda>_. steady p pressed T') (\<lambda>_ _. True) t" if "steady p pressed T' t" for stamp t
      by (rule wlp_mono [OF wlp_preflight [OF k p that]]) simp_all
    show ?thesis unfolding preflight_prepared_plan_def PhysicalPlan next_dispatch_plan.case
      apply (rule wlp_if, rule same [OF T'(2)], use T'(3) PhysicalPlan in simp)
      apply (rule wlp_sbind, rule keep [OF kept_in_world [OF still_shared(2) [OF q]] T'(2)])
      apply (rule wlp_option, erule none)
      apply (rule wlp_sbind, erule preflight)
      apply (rule wlp_sbind, erule keep [OF kept_in_world [OF calm_readings(2) [OF q]]])
      apply (rule wlp_if, erule none, erule same [OF _ v])
      done
  qed (use same [OF T'(2,3)] in \<open>simp_all add: preflight_prepared_plan_def\<close>)
qed

lemma loop_plan:
  assumes k: "keyboard_ok (en_os env) pressed" and p: "session_profile p" and q: "shared_quiet (en_shared env) pressed"
    and s: "steady p pressed T s"
  shows "wlp (plan_phase env now) (plan_stands p pressed T) (leaves p pressed T) s"
proof -
  have named: "wlp (renamed f m) Q (\<lambda>_ _. True) t" if "wlp m Q (\<lambda>_ _. True) t" "f Panic = Panic" for f m Q t
    using that by (auto simp: wlp_def renamed_def map_err_def split: prod.splits sum.splits failure.splits)
  have plan: "wlp (or_break (sread (\<lambda>s. map_err (map_failure PlanningFailure)
       (plan_next_dispatch_projected (wk_coordinator s) (clock_epoch (wk_playback s)) (tk_profile (wk_backend s))))))
      (plan_stands p pressed T) (leaves p pressed T) t" if "steady p pressed T t" for t
    by (rule wlp_or_break) (use plan_read [OF that] in \<open>auto simp: wlp_def map_err_def split: sum.splits failure.splits\<close>)
  show ?thesis unfolding plan_phase_def
    apply (rule wlp_sbind, rule loop_or_break [OF kept.frames_sread s])
    apply (rule wlp_sbind, erule plan)
    apply (rule wlp_sbind, rule wlp_or_break, rule named, erule preflight_stands [OF k p q], simp)
    apply (rule wlp_option, rule wlp_continue, simp)
    apply (rule wlp_sret, simp)
    done
qed

lemma loop_wait:
  assumes k: "keyboard_ok (en_os env) pressed" and p: "session_profile p" and q: "shared_quiet (en_shared env) pressed"
    and w: "waits_quiet env pressed" and s: "steady p pressed T s" and plan: "plan_true p T plan"
  shows "wlp (wait_phase env config plan) (\<lambda>_. steady p pressed T) (leaves p pressed T) s"
proof -
  have replan: "wlp (sbind (in_world (atomic (en_try_take_interrupt env))) (\<lambda>_. continue_loop)) (\<lambda>_. steady p pressed T) (leaves p pressed T) t"
    if "steady p pressed T t" for t
    by (rule wlp_sbind [OF loop_kept [OF kept_interrupt(1) [OF w] that]], erule wlp_continue)
  have due: "wlp (sbind (or_break (sread g)) (\<lambda>_. sbind (at_step (dispatch_due_from_plan (en_os env) (en_shared env) config plan qpc (Some qpc) True))
      (\<lambda>step. after_step step continue_loop))) (\<lambda>_. steady p pressed T) (leaves p pressed T) t" if "steady p pressed T t" for g qpc t
    apply (rule wlp_sbind, rule loop_or_break [OF kept.frames_sread that])
    apply (rule wlp_sbind, erule loop_due [OF k q p _ plan])
    apply (erule loop_after_step, erule wlp_continue)
    done
  have boundary: "wlp (case boundary of
       BoundaryExit \<Rightarrow> sfail (Err LoopBreak)
     | BoundaryReplan \<Rightarrow>
         if plan_deadline_ticks plan = None then break_with (StaticError ''replan wait result without a dispatch deadline'')
         else sbind (in_world (atomic (en_try_take_interrupt env))) (\<lambda>_. continue_loop)
     | BoundaryDue dispatch_qpc \<Rightarrow>
         if plan_deadline_ticks plan = None then break_with (StaticError ''wait returned a result without a dispatch deadline'')
         else sbind (or_break (sread (\<lambda>s. map_err (\<lambda>e. Err (WakeClockFailure e))
             (get_elapsed_allow_pre_epoch (wk_playback s) dispatch_qpc True)))) (\<lambda>_.
           sbind (at_step (dispatch_due_from_plan (en_os env) (en_shared env) config plan dispatch_qpc (Some dispatch_qpc) True)) (\<lambda>step.
           after_step step continue_loop))) (\<lambda>_. steady p pressed T) (leaves p pressed T) t" if t: "steady p pressed T t" for boundary t
    by (cases boundary; simp only: wait_boundary.case; (intro wlp_if wlp_break due [OF t] replan [OF t] loop_stop [OF t])?)
  show ?thesis unfolding wait_phase_def
    apply (rule wlp_sbind, rule loop_or_break [OF kept.frames_sread s])
    apply (rule wlp_sbind, erule loop_kept [OF kept_wait [OF k w]])
    apply (erule boundary)
    done
qed

section \<open>The loop\<close>

lemma iteration_steady:
  assumes k: "keyboard_ok (en_os env) pressed" and p: "session_profile p" and q: "shared_quiet (en_shared env) pressed"
    and w: "waits_quiet env pressed" and s: "steady p pressed T s"
  shows "wlp (iteration env config) (\<lambda>_. steady p pressed T) (leaves p pressed T) s"
proof -
  have last: "wlp (sbind (at_step (dispatch_due_from_plan (en_os env) (en_shared env) config plan now None False))
      (\<lambda>step. after_step step (wait_phase env config plan))) (\<lambda>_. steady p pressed T) (leaves p pressed T) t"
    if stands: "plan_stands p pressed T plan t" for plan now t
  proof -
    obtain T' where T': "T \<subseteq> T'" "steady p pressed T' t" "plan_true p T' plan" using stands by (auto simp: plan_stands_def)
    have "wlp (sbind (at_step (dispatch_due_from_plan (en_os env) (en_shared env) config plan now None False))
        (\<lambda>step. after_step step (wait_phase env config plan))) (\<lambda>_. steady p pressed T') (leaves p pressed T') t"
      by (rule wlp_sbind [OF loop_due [OF k q p T'(2,3)]], erule loop_after_step, erule loop_wait [OF k p q w _ T'(3)])
    then show ?thesis by (rule wlp_mono) (auto intro: steady_mono [OF _ T'(1)] leaves_mono [OF _ T'(1)])
  qed
  show ?thesis unfolding iteration_def Let_def
    apply (rule wlp_sbind, rule loop_kept [OF kept_commands [OF q] s])
    apply (rule wlp_if, erule loop_stop)
    apply (rule wlp_sbind, erule loop_clock(1) [OF k])
    apply (rule wlp_sbind, erule loop_world [OF calm_readings(1) [OF q]])
    apply (rule wlp_sbind, erule loop_kept [OF kept.frames_sread])
    apply (rule wlp_if, rule wlp_break)
    apply (rule wlp_sbind, erule loop_world [OF still_shared(5) [OF q]])
    apply (rule wlp_if, rule wlp_break)
    apply (rule wlp_sbind, erule loop_focus [OF k p q])
    apply (rule wlp_sbind, erule loop_manual [OF k p q])
    apply (rule wlp_sbind, erule loop_paused [OF w])
    apply (rule wlp_sbind, erule loop_prepared [OF k p q w])
    apply (rule wlp_sbind, erule loop_kept [OF kept.frames_sread])
    apply (rule wlp_if, rule wlp_break)
    apply (rule wlp_sbind, erule loop_stale)
    apply (rule wlp_sbind, erule loop_plan [OF k p q])
    apply (erule last)
    done
qed

text \<open>What is known of the loop's result, whatever the loop met.\<close>

definition loop_result ::
  "instrument_key_profile \<Rightarrow> ('w \<Rightarrow> u16 set) \<Rightarrow> prepared_authored_commit set \<Rightarrow> bool \<times> 'w loop_worker \<Rightarrow> bool" where
  "loop_result p pressed T result \<longleftrightarrow> fst result \<or> wk_terminal_error (snd result) \<noteq> None \<or> steady p pressed T (snd result)"

lemma loop_steady:
  assumes p: "session_profile p" and k: "keyboard_ok (en_os env) pressed" and q: "shared_quiet (en_shared env) pressed"
    and w: "waits_quiet env pressed" and s: "steady p pressed T s" and run: "dispatch_loop env config s = Some result"
  shows "loop_result p pressed T result"
proof -
  let ?P = "\<lambda>env config s result. keyboard_ok (en_os env) pressed \<and> shared_quiet (en_shared env) pressed \<and> waits_quiet env pressed \<and>
    steady p pressed T s \<longrightarrow> loop_result p pressed T result"
  have "?P env config s result"
  proof (rule dispatch_loop.raw_induct [where P = ?P, OF _ run])
    fix f and env :: "('a, 'b) environment" and config s result
    assume rest: "\<And>env config s result. f env config s = Some result \<Longrightarrow> ?P env config s result"
      and body: "(if is_finished (wk_coordinator s) then Some (False, s)
        else case iteration env config s of
            (Inl (Err LoopBreak), t) \<Rightarrow> Some (False, t) | (Inl (Err LoopContinue), t) \<Rightarrow> f env config t
          | (Inl Panic, t) \<Rightarrow> Some (True, t) | (Inr _, t) \<Rightarrow> f env config t) = Some result"
    show "?P env config s result"
    proof
      assume H: "keyboard_ok (en_os env) pressed \<and> shared_quiet (en_shared env) pressed \<and> waits_quiet env pressed \<and> steady p pressed T s"
      then have w: "wlp (iteration env config) (\<lambda>_. steady p pressed T) (leaves p pressed T) s" using iteration_steady [OF _ p] by blast
      obtain r t where it: "iteration env config s = (r, t)" by fastforce
      have again: "loop_result p pressed T result" if "f env config t = Some result" "steady p pressed T t"
        using rest [OF that(1)] that(2) H by blast
      show "loop_result p pressed T result"
      proof (cases "is_finished (wk_coordinator s)")
        case False
        then show ?thesis using body w it again
          by (auto simp: wlp_def leaves_def loop_result_def split: sum.splits failure.splits loop_exit.splits)
      qed (use body H in \<open>auto simp: loop_result_def\<close>)
    qed
  qed
  then show ?thesis using k q w s by blast
qed

lemma dispatch_steady:
  assumes p: "session_profile p" and k: "keyboard_ok (en_os env) pressed" and q: "shared_quiet (en_shared env) pressed"
    and w: "waits_quiet env pressed" and s: "steady p pressed T s" and run: "dispatch env config s = Some result"
  shows "loop_result p pressed T result"
  using run loop_steady [OF p k q w s] s by (auto simp: dispatch_def loop_result_def split: if_splits)


section \<open>A worker with a prepared stream\<close>

text \<open>The coordinator and the stream a worker is booted with (\<open>worker/boot.rs\<close>).\<close>

datatype boot_error = ConstructionFailed coordinator_error | StreamAdmissionFailed stream_error

definition boot_playback ::
  "bool \<Rightarrow> nat \<Rightarrow> memory_layout \<Rightarrow> (usize \<Rightarrow> string option) \<Rightarrow> runtime_schedule \<Rightarrow> u64 \<Rightarrow> duration_ticks \<Rightarrow> qpc_clock \<Rightarrow>
   materialized_profile \<Rightarrow> 'k stream_checkpoint \<Rightarrow> 'k stream_checkpoint \<Rightarrow> 'k stream_checkpoint \<Rightarrow> 'k \<Rightarrow>
   ((boot_error failure + prepared_dispatch_stream option \<times> coordinator) \<times> 'k) option" where
  "boot_playback prepared_normal fuel layout try_reserve schedule effective_min_hold_us min_hold_ticks qpc_clock profile
     build_checkpoint stream_checkpoint reset_checkpoint k =
     (case try_new_ticks_with_checkpoint schedule effective_min_hold_us min_hold_ticks (coordinator_ticks qpc_clock)
             (\<lambda>s. apfst (map_err (map_failure (\<lambda>_. PreparationCancelled))) (build_checkpoint s)) k of
        (Inl e, k1) \<Rightarrow> Some (Inl (map_failure ConstructionFailed e), k1)
      | (Inr coordinator, k1) \<Rightarrow>
          if \<not> prepared_normal then Some (Inr (None, coordinator), k1)
          else (case build_with_checkpoints fuel layout try_reserve coordinator qpc_clock profile stream_checkpoint reset_checkpoint k1 of
             None \<Rightarrow> None
           | Some (Inl e, k2) \<Rightarrow> Some (Inl (map_failure StreamAdmissionFailed e), k2)
           | Some (Inr (stream, restored_coordinator), k2) \<Rightarrow> Some (Inr (Some stream, restored_coordinator), k2)))"

text \<open>Checkpoints do not change what a successful construction builds.\<close>

definition ignoring :: "('k, 'e, 'a) smethod \<Rightarrow> (unit, 'e, 'a) smethod \<Rightarrow> bool" where
  "ignoring m n \<longleftrightarrow> (\<forall>k a k'. m k = (Inr a, k') \<longrightarrow> n () = (Inr a, ()))"

lemma ignoring_sbind: "ignoring m n \<Longrightarrow> (\<And>a. ignoring (f a) (g a)) \<Longrightarrow> ignoring (sbind m f) (sbind n g)"
  by (auto simp: ignoring_def sbind_eq_Inr) blast

lemma ignoring_sret: "ignoring (sret a) (sret a)"
  by (simp add: ignoring_def)

lemma ignoring_read: "ignoring (sread (\<lambda>_. r)) (sread (\<lambda>_. r))"
  by (simp add: ignoring_def)

lemma ignoring_checkpoint: "ignoring (if b then checkpoint else sret ()) (if b then sret () else sret ())"
  by (simp add: ignoring_def)

lemma ignoring_sfold: "(\<And>x a. ignoring (f x a) (g x a)) \<Longrightarrow> ignoring (sfold f xs a) (sfold g xs a)"
  by (induction xs arbitrary: a) (simp_all add: ignoring_sret ignoring_sbind)

lemmas ignoring_intros = ignoring_sbind ignoring_sret ignoring_read ignoring_checkpoint ignoring_sfold

lemma ignoring_sfail: "ignoring (sfail e) n"
  by (simp add: ignoring_def)

lemma ignoring_if: "ignoring m m' \<Longrightarrow> ignoring n n' \<Longrightarrow> ignoring (if b then m else n) (if b then m' else n')"
  by simp

lemma ignoring_option:
  "ignoring m m' \<Longrightarrow> (\<And>x. ignoring (f x) (f' x)) \<Longrightarrow> ignoring (case z of None \<Rightarrow> m | Some x \<Rightarrow> f x) (case z of None \<Rightarrow> m' | Some x \<Rightarrow> f' x)"
  by (cases z) simp_all

lemma ignoring_locate: "ignoring (locate_up_intent checkpoint n p start x acc) (locate_up_intent (sret ()) n p start x acc)"
  by (cases x; cases acc)
    (simp only: locate_up_intent_def Let_def split, intro ignoring_intros ignoring_if ignoring_option ignoring_sfail)

lemma ignoring_packet: "ignoring (locate_packet_ups checkpoint rs x acc) (locate_packet_ups (sret ()) rs x acc)"
  by (cases x) (simp only: locate_packet_ups_def Let_def split, intro ignoring_intros ignoring_locate)

lemma construction_ignores:
  assumes "try_new_ticks_with_checkpoint rs u h conv checkpoint k = (Inr c, k')"
  shows "try_new_ticks rs u h conv = Inr c"
proof -
  have batch: "ignoring ((\<lambda>(index, batch) ticks. sbind (if index mod 128 = 0 then checkpoint else sret ()) (\<lambda>_. sbind (sread (\<lambda>_. conv (cb_scheduled_us batch)))
        (\<lambda>t. sret (ticks @ [t])))) x ticks)
      ((\<lambda>(index, batch) ticks. sbind (if index mod 128 = 0 then sret () else sret ()) (\<lambda>_. sbind (sread (\<lambda>_. conv (cb_scheduled_us batch)))
        (\<lambda>t. sret (ticks @ [t])))) x ticks)" for x ticks
    by (cases x) (simp only: split, intro ignoring_intros)
  have finish: "ignoring (case z of (a, b) \<Rightarrow> sret (f a b)) (case z of (a, b) \<Rightarrow> sret (f a b))" for z f
    by (cases z) (simp add: ignoring_sret)
  have "ignoring (try_new_ticks_with_checkpoint rs u h conv checkpoint) (try_new_ticks_with_checkpoint rs u h conv (sret ()))"
    unfolding try_new_ticks_with_checkpoint_def Let_def
    by (intro ignoring_intros batch ignoring_packet finish)
  then have "try_new_ticks_with_checkpoint rs u h conv (sret ()) () = (Inr c, ())" using assms unfolding ignoring_def by blast
  then show ?thesis by (simp add: try_new_ticks_def)
qed

text \<open>The commits of the simulation leave the song alone.\<close>

definition same_song :: "coordinator \<Rightarrow> coordinator \<Rightarrow> bool" where
  "same_song c c' \<longleftrightarrow> dc_schedule c' = dc_schedule c"

interpretation same_song: frame_preorder same_song
  by unfold_locales (simp_all add: same_song_def)

lemma song_update: "(\<And>c. dc_schedule (g c) = dc_schedule c) \<Longrightarrow> frames same_song (supdate g)"
  by (rule same_song.frames_supdate) (simp add: same_song_def)

lemma song_tables:
  "frames same_song (set_active slot a)" "frames same_song (set_pending slot q)" "frames same_song (set_cancelled slot t)"
  "frames same_song (transition_generation g from nxt)" "frames same_song (finish_commit n)"
proof -
  show "frames same_song (set_active slot a)" "frames same_song (set_pending slot q)" "frames same_song (set_cancelled slot t)"
    by (rule framesI; simp add: set_active_def set_pending_def set_cancelled_def same_song_def)+
  have "frames same_song increment_activated"
    by (rule framesI) (simp add: increment_activated_def same_song_def split: option.splits)
  moreover have "frames same_song (increment_counter nxt)"
    by (rule framesI) (simp add: increment_counter_def same_song_def split: sum.splits)
  moreover have "frames same_song (supdate (set_status g nxt))" by (rule song_update) (simp add: set_status_def)
  ultimately show "frames same_song (transition_generation g from nxt)"
    unfolding transition_generation_def by (intro same_song.frame_intros)
  have "frames same_song (advance_cursor n)"
    by (rule framesI) (simp add: advance_cursor_def same_song_def split: option.splits)
  then show "frames same_song (finish_commit n)" unfolding finish_commit_def by (intro same_song.frame_intros)
qed

lemma song_slots: "frames same_song (own_slot slot a)" "frames same_song (disown_slot slot)"
  "frames same_song (reconcile_resumable_cancelled_up t)" "frames same_song (commit_deferred_up f t src)"
  unfolding own_slot_def disown_slot_def reconcile_resumable_cancelled_up_def commit_deferred_up_def register_pending_def Let_def
  by (intro same_song.frame_intros song_tables song_update; simp add: set_status_def)+

lemma song_commits: "frames same_song (commit_prepared_authored_frame_metadata_frozen commit)"
  "frames same_song (commit_prepared_authored_frame_success_frozen commit started)"
  unfolding commit_prepared_authored_frame_metadata_frozen_def commit_prepared_authored_frame_success_frozen_def
    commit_prepared_up_intents_frozen_def commit_prepared_up_def commit_immediate_up_def commit_sent_down_def check_cursor_def Let_def
  by (intro same_song.frame_intros song_tables song_slots)+

text \<open>The prepared stream belongs to the session: its tokens are prepared and committed once by the simulation,
  and the coordinator that comes with it starts over.\<close>

lemma stream_step_session:
  assumes r: "session_reachable ss" and run: "stream_step (from_validated p) (se_coordinator ss) = Inr (entry, c)"
  shows "\<exists>ss'. session_reachable ss' \<and> se_coordinator ss' = c \<and> se_schedule ss' = se_schedule ss \<and>
    dc_schedule c = dc_schedule (se_coordinator ss) \<and>
    set (se_tokens ss) \<subseteq> set (se_tokens ss') \<and> entry_true p (set (se_tokens ss')) entry"
proof -
  obtain plan where plan: "plan_next_dispatch_projected (se_coordinator ss) (QpcTicks 0) (from_validated p) = Inr plan"
    using run by (auto simp: stream_step_def rbind_eq_Inr map_err_eq_Inr)
  obtain new where new: "session_reachable (ss\<lparr>se_tokens := new @ se_tokens ss\<rparr>)" "plan_true p (set (new @ se_tokens ss)) plan"
    using planned_session [OF r plan] by blast
  let ?ss = "ss\<lparr>se_tokens := new @ se_tokens ss\<rparr>"
  note song = frames_run [OF song_commits(1), unfolded same_song_def] frames_run [OF song_commits(2), unfolded same_song_def]
  have "session_step ?ss (?ss\<lparr>se_coordinator := c\<rparr>) \<and> dc_schedule c = dc_schedule (se_coordinator ss) \<and>
    entry_true p (set (se_tokens ?ss)) entry"
  proof (cases plan)
    case NoWork
    then show ?thesis using run plan by (simp add: stream_step_def)
  next
    case (MetadataPlan metadata)
    then have "mb_commit metadata \<in> set (se_tokens ?ss)" "covered (mb_commit metadata)" using new(2) by (simp_all add: plan_true_def)
    then show ?thesis using run plan MetadataPlan session_metadata [of "mb_commit metadata" ?ss c]
      by (auto simp: stream_step_def entry_true_def dest: song split: prod.splits sum.splits)
  next
    case (PhysicalPlan physical)
    then have v: "view_true p (set (se_tokens ?ss)) (pl_authored_view physical)" using new(2) by (simp add: plan_true_def)
    obtain commit where commit: "av_commit (pl_authored_view physical) = Authored commit"
      using run plan PhysicalPlan by (cases "av_commit (pl_authored_view physical)") (auto simp: stream_step_def Let_def)
    then have "commit \<in> set (se_tokens ?ss)" using view_trueD(3) [OF v] by simp
    then show ?thesis using run plan PhysicalPlan commit v session_success [of commit ?ss _ c]
      by (auto simp: stream_step_def entry_true_def Let_def dest: song split: if_splits prod.splits sum.splits)
  qed
  then show ?thesis using reachable.step [OF new(1)] by (intro exI [of _ "?ss\<lparr>se_coordinator := c\<rparr>"]) auto
qed

lemma stream_loop_session:
  assumes "stream_loop fuel checkpoint (from_validated p) v acc c k = Some (Inr (entries, c'), k')"
    and "session_reachable ss" and "se_coordinator ss = c" and "\<forall>entry \<in> set acc. entry_true p (set (se_tokens ss)) entry"
  shows "\<exists>ss'. session_reachable ss' \<and> se_coordinator ss' = c' \<and> se_schedule ss' = se_schedule ss \<and> dc_schedule c' = dc_schedule c \<and>
    (\<forall>entry \<in> set entries. entry_true p (set (se_tokens ss')) entry)"
  using assms
proof (induction fuel arbitrary: v acc c k ss)
  case 0
  then show ?case by (subst (asm) stream_loop.simps) (auto split: if_splits)
next
  case (Suc fuel)
  show ?case
  proof (cases "dc_cursor c < length (rs_batches (dc_schedule c))")
    case True
    then obtain k1 entry c1 where one: "stream_step (from_validated p) c = Inr (entry, c1)"
        and rest: "stream_loop fuel checkpoint (from_validated p) (min (v + 1) (usize_limit - 1)) (acc @ [entry]) c1 k1 = Some (Inr (entries, c'), k')"
      using Suc.prems(1) by (subst (asm) stream_loop.simps) (auto split: prod.splits sum.splits)
    obtain ss1 where ss1: "session_reachable ss1" "se_coordinator ss1 = c1" "se_schedule ss1 = se_schedule ss" "dc_schedule c1 = dc_schedule c"
        "set (se_tokens ss) \<subseteq> set (se_tokens ss1)" "entry_true p (set (se_tokens ss1)) entry"
      using stream_step_session [OF Suc.prems(2), of p entry c1] one Suc.prems(3) by auto
    have "\<forall>e \<in> set (acc @ [entry]). entry_true p (set (se_tokens ss1)) e"
      using Suc.prems(4) ss1(5,6) by (auto intro: entry_true_mono)
    from Suc.IH [OF rest ss1(1,2) this] ss1(3,4) show ?thesis by simp
  next
    case False
    then have "entries = acc" "c' = c" using Suc.prems(1) by (simp_all add: stream_loop.simps)
    then show ?thesis using Suc.prems by blast
  qed
qed

lemma fresh_idle: "fresh_for rs u h conv c \<Longrightarrow> dc_active_mask c = 0"
  by (auto simp: fresh_for_def fresh_def)

lemma built_session:
  assumes build: "build_with_checkpoints fuel layout try_reserve simulator clk (from_validated p) scp ccp k = Some (Inr (stream, c), k')"
    and r: "session_reachable ss" and sim: "se_coordinator ss = simulator" and song: "dc_schedule simulator = se_schedule ss"
  shows "\<exists>ss'. session_reachable ss' \<and> se_coordinator ss' = c \<and> dc_active_mask c = 0 \<and>
    (\<forall>entry \<in> set (ps_entries stream). entry_true p (set (se_tokens ss')) entry)"
proof -
  obtain entries simulator' k1 k2 k3 where loop: "stream_loop fuel scp (from_validated p) 0 [] simulator k = Some (Inr (entries, simulator'), k1)"
      and reset: "try_new_ticks_with_checkpoint (dc_schedule simulator') (dc_min_hold_us simulator') (dc_min_hold_ticks simulator') (coordinator_ticks clk)
        (\<lambda>s. apfst (map_err (map_failure (\<lambda>_. PreparationCancelled))) (ccp s)) k2 = (Inr c, k3)"
      and stream: "ps_entries stream = entries"
    using build by (auto simp: build_with_checkpoints_def split: sum.splits option.splits prod.splits if_splits)
  obtain ss1 where ss1: "session_reachable ss1" "se_coordinator ss1 = simulator'" "dc_schedule simulator' = se_schedule ss1"
      "\<forall>entry \<in> set entries. entry_true p (set (se_tokens ss1)) entry"
    using stream_loop_session [OF loop r sim] song by auto
  note new = construction_ignores [OF reset]
  note derived = session_reachableD(3) [OF ss1(1), unfolded ss1(2)]
  note same = ss1(3)
  then have "session_reachable (ss1\<lparr>se_coordinator := c\<rparr>)"
    using reachable.step [OF ss1(1) session_step.restart] new by simp
  moreover have "dc_active_mask c = 0"
    by (rule fresh_idle, rule new_fresh [OF derived_wf [OF derived] new [unfolded same]])
  ultimately show ?thesis using ss1(4) stream by (intro exI [of _ "ss1\<lparr>se_coordinator := c\<rparr>"]) simp
qed


lemma booted_session:
  assumes comp: "compile_runtime_intents actions codes = Inr rs"
    and boot: "boot_playback normal fuel layout try_reserve rs hold_us hold_ticks clk (from_validated p) bcp scp rcp k = Some (Inr (stream, c), k')"
  shows "\<exists>ss. session_reachable ss \<and> se_coordinator ss = c \<and> dc_active_mask c = 0 \<and>
    (\<forall>entry \<in> set (case stream of Some stream \<Rightarrow> ps_entries stream | None \<Rightarrow> []). entry_true p (set (se_tokens ss)) entry)"
proof -
  let ?cp = "\<lambda>s. apfst (map_err (map_failure (\<lambda>_. PreparationCancelled))) (bcp s)"
  obtain simulator k1 where made: "try_new_ticks_with_checkpoint rs hold_us hold_ticks (coordinator_ticks clk) ?cp k = (Inr simulator, k1)"
    using boot by (auto simp: boot_playback_def split: prod.splits sum.splits)
  let ?ss = "\<lparr>se_schedule = rs, se_coordinator = simulator, se_tokens = []\<rparr>"
  have "session_init ?ss" using comp construction_ignores [OF made] by (auto simp: session_init_def)
  then have r: "session_reachable ?ss" by (rule reachable.start)
  have f: "fresh_for rs hold_us hold_ticks (coordinator_ticks clk) simulator"
    by (rule new_fresh [OF compile_wf [OF comp] construction_ignores [OF made]])
  then have song: "dc_schedule simulator = rs" by (auto simp: fresh_for_def fresh_def)
  show ?thesis
  proof (cases normal)
    case True
    then obtain built k2 where "build_with_checkpoints fuel layout try_reserve simulator clk (from_validated p) scp rcp k1 = Some (Inr (built, c), k2)"
        "stream = Some built"
      using boot made by (auto simp: boot_playback_def split: option.splits prod.splits sum.splits)
    then show ?thesis using built_session [OF _ r, of fuel layout try_reserve simulator clk p scp rcp k1 built c k2] song by simp
  next
    case False
    then have "stream = None" "c = simulator" using boot made by (auto simp: boot_playback_def)
    then show ?thesis using r fresh_idle [OF f] by (intro exI [of _ ?ss]) simp
  qed
qed

section \<open>The passes of the loop\<close>

text \<open>The states at the start of each pass.\<close>

inductive visits :: "('w, 'x) environment \<Rightarrow> worker_config \<Rightarrow> 'w loop_worker \<Rightarrow> 'w loop_worker \<Rightarrow> bool" for env config s where
  start: "visits env config s s"
| pass: "visits env config s t \<Longrightarrow> \<not> is_finished (wk_coordinator t) \<Longrightarrow> iteration env config t = (r, u) \<Longrightarrow>
    r \<in> {Inr (), Inl (Err LoopContinue)} \<Longrightarrow> visits env config s u"

text \<open>A session key is down exactly if a generation owns its slot.\<close>

definition keys_match :: "instrument_key_profile \<Rightarrow> ('w \<Rightarrow> u16 set) \<Rightarrow> 'w loop_worker \<Rightarrow> bool" where
  "keys_match p pressed t \<longleftrightarrow> (\<forall>slot < MAX_KEYS. pk_scan_code (ip_keys p ! slot) \<in> pressed (wk_world t) \<longleftrightarrow>
     dc_active_by_slot (wk_coordinator t) ! slot \<noteq> None)"

lemma steady_match:
  assumes "steady p pressed T t"
  shows "keys_match p pressed t" and "is_finished (wk_coordinator t) \<Longrightarrow> slot < MAX_KEYS \<Longrightarrow> pk_scan_code (ip_keys p ! slot) \<notin> pressed (wk_world t)"
proof -
  obtain ss where ss: "in_step p pressed ss t" using assms by (auto simp: steady_def)
  then have keys: "down_slots p (pressed (wk_world t)) = keys_of (wk_coordinator t)" and b: "backed p ss t" by (simp_all add: in_step_def)
  have "coord_inv (wk_coordinator t)" using session_reachableD(2) b by (simp add: backed_def)
  then have owner: "bit (dc_active_mask (wk_coordinator t)) n \<longleftrightarrow> n < MAX_KEYS \<and> dc_active_by_slot (wk_coordinator t) ! n \<noteq> None" for n
    using owner_mask [OF coord_invD(5)] by blast
  have down: "pk_scan_code (ip_keys p ! n) \<in> pressed (wk_world t) \<longleftrightarrow> bit (dc_active_mask (wk_coordinator t)) n" if "n < MAX_KEYS" for n
  proof -
    have "n \<in> down_slots p (pressed (wk_world t)) \<longleftrightarrow> n \<in> keys_of (wk_coordinator t)" by (simp only: keys)
    then show ?thesis using that by (simp add: down_slots_def)
  qed
  show "keys_match p pressed t" using down owner by (simp add: keys_match_def)
  show "pk_scan_code (ip_keys p ! slot) \<notin> pressed (wk_world t)" if "is_finished (wk_coordinator t)" "slot < MAX_KEYS"
    using down [OF that(2)] that(1) by (simp add: is_finished_def Let_def)
qed

lemma visits_steady:
  assumes "visits env config s t" and "keyboard_ok (en_os env) pressed" and "session_profile p" and "shared_quiet (en_shared env) pressed"
    and "waits_quiet env pressed" and "steady p pressed T s"
  shows "steady p pressed T t"
  using assms(1)
proof induction
  case (pass t r u)
  then show ?case using iteration_steady [OF assms(2-5) pass.IH, of config] by (auto simp: wlp_def leaves_def)
qed (rule assms(6))

section \<open>Keys that sound are owned\<close>

lemma booted_steady:
  assumes comp: "compile_runtime_intents actions codes = Inr rs"
    and boot: "boot_playback normal fuel layout try_reserve rs hold_us hold_ticks clk (from_validated p) bcp scp rcp k = Some (Inr (stream, c), k')"
    and s: "wk_coordinator s = c" "wk_prepared_stream s = stream" "wk_pending_up_recovery s = None"
    and ok: "transport_ok p pressed (wk_backend s, wk_world s)"
    and up: "\<forall>slot < MAX_KEYS. pk_scan_code (ip_keys p ! slot) \<notin> pressed (wk_world s)"
  shows "steady p pressed {} s"
proof -
  obtain ss where ss: "session_reachable ss" "se_coordinator ss = c" "dc_active_mask c = 0"
      "\<forall>entry \<in> set (case stream of Some stream \<Rightarrow> ps_entries stream | None \<Rightarrow> []). entry_true p (set (se_tokens ss)) entry"
    using booted_session [OF comp boot] by blast
  then have "backed p ss s" using s by (simp add: backed_def worker_entries_def)
  moreover have "down_slots p (pressed (wk_world s)) = keys_of (wk_coordinator s)" using up ss(3) s(1) by (auto simp: down_slots_def)
  ultimately show ?thesis using ok by (auto simp: steady_def in_step_def)
qed

text \<open>C2: Take a worker booted on a compiled schedule, with or without a prepared stream, while no session key is
  down. At the start of every pass of its loop, whatever the transport, the waits and the probes did before, a
  session key is down exactly if the ledger has a generation that owns its slot; when the schedule is finished
  no session key is down. The same still holds when the loop returns without a panic and without a terminal error.\<close>

theorem sounding_keys_are_owned:
  assumes comp: "compile_runtime_intents actions codes = Inr rs"
    and boot: "boot_playback normal fuel layout try_reserve rs hold_us hold_ticks clk (from_validated p) bcp scp rcp k = Some (Inr (stream, c), k')"
    and s: "wk_coordinator s = c" "wk_prepared_stream s = stream" "wk_pending_up_recovery s = None"
    and ok: "transport_ok p pressed (wk_backend s, wk_world s)"
    and up: "\<forall>slot < MAX_KEYS. pk_scan_code (ip_keys p ! slot) \<notin> pressed (wk_world s)"
    and k: "keyboard_ok (en_os env) pressed" and p: "session_profile p"
    and q: "shared_quiet (en_shared env) pressed" and w: "waits_quiet env pressed"
    and t: "visits env config s t"
  shows "keys_match p pressed t \<and>
    (is_finished (wk_coordinator t) \<longrightarrow> (\<forall>slot < MAX_KEYS. pk_scan_code (ip_keys p ! slot) \<notin> pressed (wk_world t))) \<and>
    (\<forall>u. dispatch env config s = Some (False, u) \<longrightarrow> wk_terminal_error u = None \<longrightarrow> keys_match p pressed u)"
proof -
  note start = booted_steady [OF comp boot s ok up]
  have t: "steady p pressed {} t" by (rule visits_steady [OF t k p q w start])
  have "keys_match p pressed u" if "dispatch env config s = Some (False, u)" "wk_terminal_error u = None" for u
    using dispatch_steady [OF p k q w start that(1)] that(2) steady_match(1) by (auto simp: loop_result_def)
  with steady_match [OF t] show ?thesis by blast
qed

definition fresh_worker :: "coordinator \<Rightarrow> prepared_dispatch_stream option \<Rightarrow> u16 set loop_worker" where
  "fresh_worker c stream = demo_worker\<lparr>wk_world := {}, wk_backend := with_qpc_clock_and_profile ten_mhz (from_validated demo_profile),
     wk_coordinator := c, wk_clock := ten_mhz, wk_prepared_stream := stream\<rparr>"

lemma fresh_boots:
  "\<exists>stream c. boot_playback True 4 demo_layout (\<lambda>_. None) retrigger_schedule 90 (DurationTicks 900) ten_mhz (from_validated demo_profile)
     (sret ()) (sret ()) (sret ()) () = Some (Inr (Some stream, c), ())"
proof -
  obtain simulator where s: "fst (try_new_ticks_with_checkpoint retrigger_schedule 90 (DurationTicks 900) (coordinator_ticks ten_mhz) (sret ()) ()) = Inr simulator"
    using retrigger_simulator by blast
  have n: "length (rs_packets retrigger_schedule) \<le> 4" and len: "length (rs_packets retrigger_schedule) = 4" by (simp_all add: retrigger_schedule_def)
  obtain stream c where b: "build_with_checkpoints 4 demo_layout (\<lambda>_. None) simulator ten_mhz (from_validated demo_profile) (sret ()) (sret ()) () = Some (Inr (stream, c), ())"
    using stream_builds [OF compile_wf [OF retrigger_compiles] admitted_feasible [OF retrigger_compiles retrigger_admitted],
        where u = 90 and simulator = simulator and profile = "from_validated demo_profile" and layout = demo_layout and try_reserve = "\<lambda>_. None" and
          scp = "sret ()" and ccp = "sret ()" and fuel = 4 and k = "()"]
      constructed_fresh [OF compile_wf [OF retrigger_compiles] s] retrigger_storage retrigger_floors from_validated_ok always_passes n
    unfolding len demo_profile_def by (auto simp: timing_config_of_def)
  have cp: "(\<lambda>s. apfst (map_err (map_failure (\<lambda>_. PreparationCancelled))) (sret () s)) = sret ()"
    by (simp add: fun_eq_iff sret_def map_err_def)
  obtain k where "try_new_ticks_with_checkpoint retrigger_schedule 90 (DurationTicks 900) (coordinator_ticks ten_mhz) (sret ()) () = (Inr simulator, k)"
    using s by (cases "try_new_ticks_with_checkpoint retrigger_schedule 90 (DurationTicks 900) (coordinator_ticks ten_mhz) (sret ()) ()") simp
  with b have "boot_playback True 4 demo_layout (\<lambda>_. None) retrigger_schedule 90 (DurationTicks 900) ten_mhz (from_validated demo_profile)
     (sret ()) (sret ()) (sret ()) () = Some (Inr (Some stream, c), ())"
    unfolding boot_playback_def cp by simp
  then show ?thesis by blast
qed

theorem sounding_keys_are_owned_witness:
  "\<exists>stream c. boot_playback True 4 demo_layout (\<lambda>_. None) retrigger_schedule 90 (DurationTicks 900) ten_mhz (from_validated demo_profile)
     (sret ()) (sret ()) (sret ()) () = Some (Inr (Some stream, c), ()) \<and>
     keys_match demo_profile (\<lambda>S. S) (fresh_worker c (Some stream))"
proof -
  obtain stream c where b: "boot_playback True 4 demo_layout (\<lambda>_. None) retrigger_schedule 90 (DurationTicks 900) ten_mhz (from_validated demo_profile)
     (sret ()) (sret ()) (sret ()) () = Some (Inr (Some stream, c), ())" using fresh_boots by blast
  let ?s = "fresh_worker c (Some stream)"
  have s: "wk_coordinator ?s = c" "wk_prepared_stream ?s = Some stream" "wk_pending_up_recovery ?s = None" "wk_world ?s = {}"
      "wk_backend ?s = with_qpc_clock_and_profile ten_mhz (from_validated demo_profile)"
    by (simp_all add: fresh_worker_def demo_worker_def)
  have ok: "transport_ok demo_profile (\<lambda>S. S) (wk_backend ?s, wk_world ?s)"
    by (simp add: s transport_ok_def masks_account_def recorded_def with_qpc_clock_and_profile_def tracked_new_def down_slots_def)
  have env: "keyboard_ok (en_os demo_environment) (\<lambda>S. S)" "shared_quiet (en_shared demo_environment) (\<lambda>S. S)" "waits_quiet demo_environment (\<lambda>S. S)"
    using demo_keyboard demo_shared_quiet by (simp_all add: demo_environment_def waits_quiet_def quiet_access_def)
  show ?thesis
    using b sounding_keys_are_owned [OF retrigger_compiles b s(1,2,3) ok _ env(1) demo_profile_ok env(2,3) visits.start] s(4) by auto
qed

end
