(* ===== verification/Spec2Isabelle.thy ===== *)
theory Spec2Isabelle
  imports Sky_Clock Sky_Accept Sky_Guard Sky_Stream Sky_Keys Sky_Effects Sky_Finish Sky_Steady
begin

text \<open>
  A model of the playback core of Sky Auto Player, and what holds of it.

  The program plays a song on a fifteen-key instrument of a game by sending native keyboard events at
  precise times. Authored key actions are compiled into a schedule of physical packets, one for each
  instant, whose intents are numbered by musical generations (one press and its release). A schedule is
  admitted against a minimum hold and a minimum release gap in the ticks of the performance counter
  (QPC). A worker thread owns the schedule from then on: a coordinator keeps the ledger of generations and
  of owned keys, a prepared stream holds every packet ready to send, a guard spaces presses and releases of
  a key, gates refuse a press when the target window, its owner, the modifier keys, the supervisor's lease
  or a command do not allow it, a transport calls \<open>SendInput\<close> once per packet and records what may be held,
  and after every send the coordinator commits what happened. Pauses, losses of focus, missed deadlines and
  the end of the session release what is held and account for it.

  The sources are under \<open>src/rust/crates\<close>: \<open>sky_dispatch_core/src\<close> (time, clock, model, compiler, validation,
  coordinator), \<open>sky_dispatch_win32/src\<close> (QPC, focus, modifiers, keyboard input) and \<open>sky_player/src/engine\<close>
  (session, shared state, worker).

  \<^bold>\<open>Conventions.\<close> A Rust struct is a record, an enum a datatype, a \<open>u8\<close> to \<open>u128\<close> or \<open>i64\<close> a word of that
  width; \<open>usize\<close> values are naturals bounded by \<open>usize_limit\<close> where the code checks them. A fallible function
  returns a sum whose left values are \<open>Err e\<close> for an \<open>Err\<close> or an early return and \<open>Panic\<close> for a failed
  \<open>expect\<close>, index or assertion. A method on \<open>&mut self\<close> is a function of the state that returns the result
  and the new state, also on failure, so partial effects of a failed call are part of the model. Calls of
  the operating system and atomic loads of shared memory are operations on an abstract world of type \<open>'w\<close>:
  each access may see a different world, so that every interleaving with other threads is covered.

  \<^bold>\<open>Theories.\<close>

  \<^item> Sky_Prelude: the machine arithmetic of Rust, results, the calculi for stateful methods (\<open>keeps\<close>, \<open>wp\<close>,
    \<open>frames\<close>), bit masks of key slots.
  \<^item> Sky_Time (\<open>time.rs\<close>, \<open>win32 clock.rs\<close>): tick domains, conversion between microseconds and ticks.
    Sky_Clock (\<open>core clock.rs\<close>): the playback clock; its elapsed time counts the unpaused ticks, with pauses that
    may begin before a start in the future.
  \<^item> Sky_Model (\<open>model.rs\<close>): registry, packed intents, schedule. Sky_Schedule: the contract of a compiled
    schedule (\<open>schedule_wf\<close>), with the generations as an abstract replay.
  \<^item> Sky_Compile (\<open>compile.rs\<close>): the compiler meets the contract. Sky_Accept: it accepts exactly the playable songs,
    and its packets play them. Sky_Validation (\<open>validation.rs\<close>): admission
    accepts exactly the feasible schedules.
  \<^item> Sky_Coordinator, Sky_Authored, Sky_Cleanup (\<open>coordinator/\<close>): all operations of the coordinator.
    Sky_Ledger, Sky_Ownership, Sky_Audit, Sky_Cancellation, Sky_Commit, Sky_Construct, Sky_Prepare: the
    invariant \<open>coord_inv\<close>, its elementary moves, and each operation on top of them. Sky_Session: the
    coordinator in use, as a step relation with reachable states (\<open>play_step\<close> within one pass, \<open>session_step\<close>
    also starts over). Sky_Playback: undisturbed playback.
    Sky_Effects: what the commits do to the set of owned keys.
  \<^item> Sky_Packet, Sky_Transport (\<open>win32 input/\<close>): scan codes, profile, packets, native inputs, the single
    \<open>SendInput\<close> transaction, the tracked key masks, the physical probe, the bounded release loop.
    Sky_Keys: what the transport guarantees of a keyboard.
  \<^item> Sky_Planning (\<open>worker/planning.rs\<close>), Sky_Stream (\<open>session.rs\<close>, \<open>worker/prepared.rs\<close>): the planner, native
    admission and the prepared stream. Sky_Guard (\<open>worker/physical_timing_guard.rs\<close>): the timing guard.
  \<^item> Sky_Admission (\<open>worker/admission.rs\<close>, \<open>shared.rs\<close>, \<open>target.rs\<close>, \<open>focus.rs\<close>, \<open>modifier_guard.rs\<close>): the gates.
    Sky_Dispatch, Sky_Send (\<open>worker/dispatch/\<close>): one dispatch, on the planned and on the prepared path.
    Sky_Loop (\<open>dispatch_loop.rs\<close>, \<open>control.rs\<close>, \<open>wait.rs\<close>, \<open>cleanup.rs\<close>): the passes of the loop and the
    suspensions. Sky_Finish: the finalization and the whole run.
  \<^item> Sky_Worker: suspensions and the end of a session. Sky_Gate: the gates as one condition, and stops.
    Sky_Step, Sky_Steady: keyboard and ledger in step through a dispatch and through the loop, from boot on.

  \<^bold>\<open>What is shown.\<close> The compiler returns only schedules that meet the contract, accepts exactly the songs
  that can be played on the allowed keys and never panics; admission accepts exactly the schedules that meet
  hold and gap in ticks. The invariant of the coordinator holds in every reachable session, so its audits
  pass, its accounting adds up, terminal cancellation succeeds and no token, however stale, panics; the
  generations only advance, and a cancelled one is released only while the token of its suspension is held.
  The prepared stream of an admitted song is complete, and committing its entries in order ends with every
  generation released. The guard spaces every key. On the side of the
  keyboard, no key is forgotten by the tracked masks, reports of sends and releases are truthful, and from
  boot on the session keys that are down are exactly those that a generation owns. A gate is passed exactly
  when its condition holds; a stop, panic or pause stops every packet; a suspension or the finalization that
  reports success leaves no session key down, and a session that reports to have finished has played every
  generation.

  \<^bold>\<open>Bounds and fuel.\<close> The loop of the stream builder takes fuel; one unit per packet is enough
  (\<open>prepared_stream_complete\<close>). The release loop makes at most four attempts, as in the code. The loop of
  the worker need not end, so \<open>dispatch_loop\<close> is a partial function with values in \<open>option\<close>; the invariant is
  stated for the start of every pass (\<open>visits\<close>) and therefore covers runs that do not end, and
  \<open>stop_ends_the_session\<close> shows that it does end once a stop stands.

  \<^bold>\<open>Assumptions,\<close> named where they are used. \<open>keyboard_ok\<close>: \<open>SendInput\<close> applies exactly the events that it
  reports as inserted, in order, and the other calls press nothing. \<open>shared_quiet\<close>, \<open>waits_quiet\<close>: loads of shared memory
  and waits press no session key (other threads of the process send no session keys). The
  interruptible waiter is the argument \<open>en_wait\<close>, the layout of \<open>Vec\<close> elements and the result of memory
  reservation are arguments of the stream builder, and checkpoints are arbitrary operations.

  \<^bold>\<open>Not modelled.\<close> Metrics, traces, observers and health statistics that no decision reads, and the message
  texts formatted from them. The publishing side of the shared state (lease progress, target publication,
  startup phases, snapshots), the locks and condition variables of the session object, and the rest of boot
  (thread priority, timers, power requests): they belong to other threads or to the operating system, and
  the worker sees them only through the modelled loads. Calibration and the single scan-code senders, which
  are not used during playback. Song decoding, settings, library, adapters, the desktop application, the
  user interface and the release tooling, which produce the actions and the configuration or present them.
\<close>

end
